(* ===== verification/Prelude.thy ===== *)
theory Prelude
  imports Main "HOL-Library.Word"
begin

text \<open>
  What every component of the kernel model shares: the names of the C integer types, the C
  status codes, the collections of simplification rules, and generic facts about lists, words
  and loops that the component theories use.

  Conventions of the whole development.
  \<^item> A \<open>uint8_t\<close>, \<open>uint32_t\<close>, \<open>uint64_t\<close> or \<open>uintptr_t\<close> whose wrap-around the code can
    reach is a word of that width. A counter or an index that a guard of the code keeps below a
    small capacity is a \<open>nat\<close>, and the component's invariant states that bound.
  \<^item> An \<open>int\<close> that carries a status or an index with \<open>-1\<close> for "none" is an \<open>int\<close>.
  \<^item> A NUL-terminated string is the list of its characters before the NUL.
  \<^item> A file-scope \<open>static\<close> variable is a field of the component's state record, which every
    operation takes and returns.
  \<^item> Null arguments: a pointer parameter whose null case is a branch of the code is an
    \<open>option\<close>; where every caller passes the address of an object the parameter is the object.
\<close>

type_synonym u8 = "8 word"
type_synonym u16 = "16 word"
type_synonym u32 = "32 word"
type_synonym u64 = "64 word"

text \<open>A \<open>char\<close> as the byte it is stored in.\<close>

definition char_u8 :: "char \<Rightarrow> u8" where
  "char_u8 c = word_of_nat (of_char c)"

definition u8_char :: "u8 \<Rightarrow> char" where
  "u8_char b = char_of (unat b)"

lemma u8_char_inverse [simp]: "u8_char (char_u8 c) = c"
  by (simp add: u8_char_def char_u8_def unat_of_nat)

named_theorems inv_intros \<open>preservation of the component invariants\<close>
named_theorems frame_simps \<open>fields an operation does not touch\<close>

subsection \<open>Lists used as arrays\<close>

lemma take_update_beyond [simp]: "n \<le> i \<Longrightarrow> take n (xs[i := v]) = take n xs"
  by (simp add: take_update_swap list_update_beyond)

lemma take_Suc_update_last:
  "n < length xs \<Longrightarrow> take (Suc n) (xs[n := v]) = take n xs @ [v]"
  by (simp add: take_Suc_conv_app_nth)

lemma map_update_same: "k v = k (xs ! i) \<Longrightarrow> map k (xs[i := v]) = map k xs"
  using list_update_id [of "map k xs" i] by (cases "i < length xs") (simp_all add: map_update list_update_beyond)

lemma list_eq_take_drop_at:
  "i < length xs \<Longrightarrow> xs = take i xs @ xs ! i # drop (Suc i) xs"
  by (simp add: id_take_nth_drop)

lemma distinct_map_nth_eq:
  "distinct (map f xs) \<Longrightarrow> i < length xs \<Longrightarrow> j < length xs \<Longrightarrow> f (xs ! i) = f (xs ! j) \<Longrightarrow> i = j"
  by (metis length_map nth_eq_iff_index_eq nth_map)

subsection \<open>The search loop \<open>for (i = 0; i < n; ++i) if (P(i)) return i;\<close>\<close>

function find_index_from :: "(nat \<Rightarrow> bool) \<Rightarrow> nat \<Rightarrow> nat \<Rightarrow> nat option" where
  "find_index_from P i n =
     (if i < n then (if P i then Some i else find_index_from P (Suc i) n) else None)"
  by pat_completeness auto
termination
  by (relation "measure (\<lambda>(P, i, n). n - i)") auto

declare find_index_from.simps [simp del]

lemma find_index_from_cong [fundef_cong]:
  "i = i' \<Longrightarrow> n = n' \<Longrightarrow> (\<And>k. i' \<le> k \<Longrightarrow> k < n' \<Longrightarrow> P k = Q k) \<Longrightarrow>
   find_index_from P i n = find_index_from Q i' n'"
proof (induction P i n arbitrary: i' rule: find_index_from.induct)
  case (1 P i n)
  then show ?case
    by (subst (1 2) find_index_from.simps) auto
qed

lemma find_index_from_Some:
  "find_index_from P i n = Some k \<longleftrightarrow> i \<le> k \<and> k < n \<and> P k \<and> (\<forall>j. i \<le> j \<and> j < k \<longrightarrow> \<not> P j)"
proof (induction P i n rule: find_index_from.induct)
  case (1 P i n)
  show ?case
  proof (cases "i < n \<and> \<not> P i")
    case True
    with 1 have "find_index_from P (Suc i) n = Some k \<longleftrightarrow>
      Suc i \<le> k \<and> k < n \<and> P k \<and> (\<forall>j. Suc i \<le> j \<and> j < k \<longrightarrow> \<not> P j)" by simp
    moreover have "find_index_from P i n = find_index_from P (Suc i) n"
      using True by (simp add: find_index_from.simps [of P i n])
    ultimately show ?thesis
      using True by (metis Suc_leD Suc_leI le_neq_implies_less)
  next
    case False
    then show ?thesis
      by (auto simp: find_index_from.simps [of P i n] not_less)
  qed
qed

lemma find_index_from_None:
  "find_index_from P i n = None \<longleftrightarrow> (\<forall>k. i \<le> k \<and> k < n \<longrightarrow> \<not> P k)"
proof (induction P i n rule: find_index_from.induct)
  case (1 P i n)
  show ?case
  proof (cases "i < n \<and> \<not> P i")
    case True
    with 1 have "find_index_from P (Suc i) n = None \<longleftrightarrow> (\<forall>k. Suc i \<le> k \<and> k < n \<longrightarrow> \<not> P k)"
      by simp
    moreover have "find_index_from P i n = find_index_from P (Suc i) n"
      using True by (simp add: find_index_from.simps [of P i n])
    ultimately show ?thesis
      using True by (metis Suc_leD Suc_leI le_neq_implies_less)
  next
    case False
    then show ?thesis
      by (auto simp: find_index_from.simps [of P i n] not_less)
  qed
qed

abbreviation find_index :: "(nat \<Rightarrow> bool) \<Rightarrow> nat \<Rightarrow> nat option" where
  "find_index P n \<equiv> find_index_from P 0 n"

lemma find_index_Some:
  "find_index P n = Some k \<longleftrightarrow> k < n \<and> P k \<and> (\<forall>j < k. \<not> P j)"
  by (simp add: find_index_from_Some)

lemma find_index_None: "find_index P n = None \<longleftrightarrow> (\<forall>k < n. \<not> P k)"
  by (simp add: find_index_from_None)

lemma find_first_map_of:
  "n \<le> length xs \<Longrightarrow>
   map_of (map (\<lambda>b. (k b, v b)) (take n xs)) x = map_option (\<lambda>i. v (xs ! i)) (find_index (\<lambda>i. k (xs ! i) = x) n)"
proof (induction n)
  case 0
  then show ?case by (simp add: find_index_None [THEN iffD2])
next
  case (Suc n)
  show ?case
  proof (cases "find_index (\<lambda>i. k (xs ! i) = x) n")
    case (Some j)
    then have "find_index (\<lambda>i. k (xs ! i) = x) (Suc n) = Some j"
      by (auto simp: find_index_Some less_Suc_eq)
    then show ?thesis
      using Suc Some by (auto simp: take_Suc_conv_app_nth map_add_def)
  next
    case None
    then have "find_index (\<lambda>i. k (xs ! i) = x) (Suc n) = (if k (xs ! n) = x then Some n else None)"
      by (auto simp: find_index_None find_index_Some less_Suc_eq)
    then show ?thesis
      using Suc None by (auto simp: take_Suc_conv_app_nth map_add_def)
  qed
qed

lemma find_index_list_update:
  "i < length xs \<Longrightarrow> k v = k (xs ! i) \<Longrightarrow>
   find_index (\<lambda>j. k (xs[i := v] ! j) = x) n = find_index (\<lambda>j. k (xs ! j) = x) n"
  by (rule find_index_from_cong) (auto simp: nth_list_update)

subsection \<open>Words\<close>

lemma unat_add_no_wrap:
  "unat (x :: u32) + unat y < 2 ^ 32 \<Longrightarrow> unat (x + y) = unat x + unat y"
  by (simp add: unat_word_ariths)

lemma unat_sub_no_wrap: "y \<le> (x :: 'a :: len word) \<Longrightarrow> unat (x - y) = unat x - unat y"
  by (simp add: unat_sub)


subsection \<open>The counting loop \<open>for (i = start; i < n; ++i) body\<close>\<close>

lemma unat_Suc_below: "(i :: 'a :: len word) < n \<Longrightarrow> unat (i + 1) = unat i + 1"
  by (metis add.commute less_le_not_le max_word_wrap plus_1_eq_Suc unatSuc word_order.extremum)

function for_loop :: "'a :: len word \<Rightarrow> 'a word \<Rightarrow> ('a word \<Rightarrow> 's \<Rightarrow> 's) \<Rightarrow> 's \<Rightarrow> 's" where
  "for_loop i n body s = (if i < n then for_loop (i + 1) n body (body i s) else s)"
  by pat_completeness auto
termination
  by (relation "measure (\<lambda>(i, n, body, s). unat n - unat i)")
    (auto simp: unat_Suc_below word_less_nat_alt)

declare for_loop.simps [simp del]

lemma for_loop_fold:
  "for_loop i n body s = fold (\<lambda>k. body (of_nat k)) [unat i..<unat n] s"
proof (induction i n body s rule: for_loop.induct)
  case (1 i n body s)
  show ?case
  proof (cases "i < n")
    case True
    then have "[unat i..<unat n] = unat i # [unat (i + 1)..<unat n]"
      by (simp add: unat_Suc_below word_less_nat_alt upt_rec)
    then show ?thesis
      using 1 True by (simp add: for_loop.simps [of i n])
  next
    case False
    then show ?thesis
      by (simp add: for_loop.simps [of i n] word_less_nat_alt)
  qed
qed

lemma fold_inv: "P s \<Longrightarrow> (\<And>x s. x \<in> set xs \<Longrightarrow> P s \<Longrightarrow> P (f x s)) \<Longrightarrow> P (fold f xs s)"
  by (induction xs arbitrary: s) auto

subsection \<open>Components as machines\<close>

text \<open>
  A component is driven by a sequence of calls. A step is a call together with its effect on
  the component's state; \<open>None\<close> is a call that does not return. The contract \<open>safe_machine\<close>
  says that a call the component admits returns and keeps the invariant; \<open>growing_machine\<close>
  adds a relation that every call respects.
\<close>

fun run_steps :: "('s \<Rightarrow> 'a \<Rightarrow> 's option) \<Rightarrow> 's \<Rightarrow> 'a list \<Rightarrow> 's option" where
  "run_steps step s [] = Some s"
| "run_steps step s (a # as) = (case step s a of None \<Rightarrow> None | Some s' \<Rightarrow> run_steps step s' as)"

locale safe_machine =
  fixes step :: "'s \<Rightarrow> 'a \<Rightarrow> 's option"
    and admits :: "'a \<Rightarrow> bool"
    and inv :: "'s \<Rightarrow> bool"
  assumes step_safe: "inv s \<Longrightarrow> admits a \<Longrightarrow> \<exists>s'. step s a = Some s' \<and> inv s'"
begin

lemma run_safe: "inv s \<Longrightarrow> list_all admits as \<Longrightarrow> \<exists>s'. run_steps step s as = Some s' \<and> inv s'"
proof (induction as arbitrary: s)
  case (Cons a as)
  then obtain s' where "step s a = Some s'" "inv s'"
    using step_safe [of s a] by auto
  with Cons show ?case by simp
qed simp

end

locale growing_machine = safe_machine step admits inv
  for step :: "'s \<Rightarrow> 'a \<Rightarrow> 's option" and admits :: "'a \<Rightarrow> bool" and inv :: "'s \<Rightarrow> bool" +
  fixes leq :: "'s \<Rightarrow> 's \<Rightarrow> bool"
  assumes leq_refl: "inv s \<Longrightarrow> leq s s"
    and leq_trans: "leq s s' \<Longrightarrow> leq s' s'' \<Longrightarrow> leq s s''"
    and step_leq: "inv s \<Longrightarrow> admits a \<Longrightarrow> step s a = Some s' \<Longrightarrow> leq s s'"
begin

lemma run_leq: "inv s \<Longrightarrow> list_all admits as \<Longrightarrow> run_steps step s as = Some s' \<Longrightarrow> leq s s'"
proof (induction as arbitrary: s)
  case Nil
  then show ?case by (simp add: leq_refl)
next
  case (Cons a as)
  obtain t where t: "step s a = Some t" "inv t"
    using step_safe Cons.prems by fastforce
  then have "leq t s'"
    using Cons by simp
  moreover have "leq s t"
    using step_leq [OF _ _ t(1)] Cons.prems by simp
  ultimately show ?case
    using leq_trans by blast
qed

end

end
