(* ===== verification/CString.thy ===== *)
theory CString
  imports Prelude
begin

text \<open>
  The string helpers of \<open>fs/path.c\<close>, which \<open>fs/dir.c\<close> and \<open>shell/path_state.c\<close> repeat under other names, as
  loops over character arrays. The other theories work with the text of such an array, the characters
  before its first NUL; here the loops are shown to compute the corresponding functions of texts, and
  not to leave an array that holds a NUL: an access outside is \<open>None\<close>.
\<close>

definition text_of :: "string \<Rightarrow> string" where
  "text_of a = takeWhile (\<lambda>c. c \<noteq> CHR 0x00) a"

definition read_char :: "string \<Rightarrow> nat \<Rightarrow> char option" where
  "read_char a i = (if i < length a then Some (a ! i) else None)"

text \<open>The loop of \<open>path_strlen\<close>, from \<open>len\<close> on.\<close>

function strlen_loop :: "string \<Rightarrow> nat \<Rightarrow> nat option" where
  "strlen_loop s len =
     (case read_char s len of
        None \<Rightarrow> None
      | Some c \<Rightarrow> if c \<noteq> CHR 0x00 then strlen_loop s (len + 1) else Some len)"
  by pat_completeness auto
termination
  by (relation "measure (\<lambda>(s, len). length s - len)") (auto simp: read_char_def split: if_splits)

declare strlen_loop.simps [simp del]

definition path_strlen :: "string option \<Rightarrow> nat option" where
  "path_strlen s = (case s of None \<Rightarrow> Some 0 | Some s \<Rightarrow> strlen_loop s 0)"

text \<open>The loop of \<open>path_copy\<close>, from \<open>i\<close> on.\<close>

function copy_loop :: "string \<Rightarrow> string \<Rightarrow> nat \<Rightarrow> nat \<Rightarrow> string option" where
  "copy_loop dst src len i =
     (if i < len then
        case read_char src i of
          None \<Rightarrow> None
        | Some c \<Rightarrow> if i < length dst then copy_loop (dst[i := c]) src len (i + 1) else None
      else Some dst)"
  by pat_completeness auto
termination
  by (relation "measure (\<lambda>(dst, src, len, i). len - i)") auto

declare copy_loop.simps [simp del]

definition path_copy :: "string \<Rightarrow> string \<Rightarrow> nat \<Rightarrow> string option" where
  "path_copy dst src len = copy_loop dst src len 0"

text \<open>The loop of \<open>path_eq\<close> and the comparison after it.\<close>

function eq_loop :: "string \<Rightarrow> string \<Rightarrow> nat \<Rightarrow> bool option" where
  "eq_loop a b i =
     (case (read_char a i, read_char b i) of
        (Some c, Some d) \<Rightarrow>
          if c \<noteq> CHR 0x00 \<and> d \<noteq> CHR 0x00 then (if c \<noteq> d then Some False else eq_loop a b (i + 1)) else Some (c = d)
      | _ \<Rightarrow> None)"
  by pat_completeness auto
termination
  by (relation "measure (\<lambda>(a, b, i). length a - i)") (auto simp: read_char_def split: if_splits)

declare eq_loop.simps [simp del]

definition path_eq :: "string option \<Rightarrow> string option \<Rightarrow> bool option" where
  "path_eq a b = (case (a, b) of (Some a, Some b) \<Rightarrow> eq_loop a b 0 | _ \<Rightarrow> Some False)"

subsection \<open>The loops on texts\<close>

lemma drop_char: "i < length a \<Longrightarrow> drop i a = a ! i # drop (i + 1) a"
  by (simp add: Cons_nth_drop_Suc)

lemma strlen_loop_text:
  assumes "CHR 0x00 \<in> set (drop len s)"
  shows "strlen_loop s len = Some (len + length (text_of (drop len s)))"
  using assms
proof (induction s len rule: strlen_loop.induct)
  case (1 s len)
  have len: "len < length s"
    using "1.prems" by (cases "len < length s") auto
  then show ?case
    using 1 drop_char [OF len] by (auto simp: strlen_loop.simps [of s len] read_char_def text_of_def)
qed

text \<open>The length of a text.\<close>

lemma path_strlen_text: "CHR 0x00 \<in> set s \<Longrightarrow> path_strlen (Some s) = Some (length (text_of s))"
  using strlen_loop_text [of 0 s] by (simp add: path_strlen_def)

lemma copy_loop_text:
  assumes "i \<le> len" "len \<le> length src" "len \<le> length dst"
  shows "copy_loop dst src len i = Some (take i dst @ drop i (take len src) @ drop len dst)"
  using assms
proof (induction dst src len i rule: copy_loop.induct)
  case (1 dst src len i)
  show ?case
  proof (cases "i < len")
    case False
    then show ?thesis
      using "1.prems" by (subst copy_loop.simps) simp
  next
    case True
    have r: "read_char src i = Some (src ! i)"
      using True "1.prems"(2) by (simp add: read_char_def)
    have "drop i (take len src) = src ! i # drop (i + 1) (take len src)"
      using drop_char [of i "take len src"] True "1.prems"(2) by simp
    moreover have "take (i + 1) (dst[i := src ! i]) = take i dst @ [src ! i]"
      using True "1.prems"(3) by (simp add: take_Suc_conv_app_nth)
    ultimately show ?thesis
      using "1.IH" [OF True r] "1.prems" True r by (simp add: copy_loop.simps [of dst src len i])
  qed
qed

text \<open>The bytes copied, over the front of the destination.\<close>

lemma path_copy_text: "len \<le> length src \<Longrightarrow> len \<le> length dst \<Longrightarrow> path_copy dst src len = Some (take len src @ drop len dst)"
  using copy_loop_text [of 0 len src dst] by (simp add: path_copy_def)

lemma text_split: "CHR 0x00 \<in> set a \<Longrightarrow> \<exists>z. a = text_of a @ CHR 0x00 # z"
  by (induction a) (auto simp: text_of_def)

lemma text_of_append: "CHR 0x00 \<notin> set t \<Longrightarrow> text_of (t @ CHR 0x00 # z) = t"
  by (induction t) (auto simp: text_of_def)

lemma text_no_nul: "CHR 0x00 \<notin> set (text_of a)"
  by (auto simp: text_of_def dest: set_takeWhileD)

text \<open>Copying a text with its NUL makes the destination hold that text.\<close>

lemma path_copy_string:
  assumes "CHR 0x00 \<in> set src" "length (text_of src) < length dst"
  shows "map_option text_of (path_copy dst src (length (text_of src) + 1)) = Some (text_of src)"
proof -
  let ?t = "text_of src"
  obtain z where s: "src = ?t @ CHR 0x00 # z"
    using text_split [OF assms(1)] by blast
  have l: "length ?t + 1 \<le> length src"
    using arg_cong [OF s, of length] by simp
  have "take (length ?t + 1) src = take (length ?t + 1) (?t @ CHR 0x00 # z)"
    by (rule arg_cong [OF s])
  then have "take (length ?t + 1) src = ?t @ [CHR 0x00]"
    by simp
  then show ?thesis
    using path_copy_text [OF l, of dst] assms(2) text_of_append [OF text_no_nul] by simp
qed

lemma eq_loop_text:
  assumes "CHR 0x00 \<in> set (drop i a)" "CHR 0x00 \<in> set (drop i b)"
  shows "eq_loop a b i = Some (text_of (drop i a) = text_of (drop i b))"
  using assms
proof (induction a b i rule: eq_loop.induct)
  case (1 a b i)
  have i: "i < length a" "i < length b"
    using "1.prems" by (cases "i < length a"; auto) (cases "i < length b"; use "1.prems" in auto)
  then show ?case
    using 1 drop_char [OF i(1)] drop_char [OF i(2)]
    by (auto simp: eq_loop.simps [of a b i] read_char_def text_of_def)
qed

text \<open>Equality of texts.\<close>

lemma path_eq_text: "CHR 0x00 \<in> set a \<Longrightarrow> CHR 0x00 \<in> set b \<Longrightarrow> path_eq (Some a) (Some b) = Some (text_of a = text_of b)"
  using eq_loop_text [of 0 a b] by (simp add: path_eq_def)

end
