(* ===== verification/PageAlloc.thy ===== *)
theory PageAlloc
  imports Prelude
begin

unbundle bit_operations_syntax

text \<open>
  The physical page allocator, \<open>kernel/mm/page_alloc.c\<close>, and the call of it in
  \<open>kernel/mm/init.c\<close>. The static variables are the record \<open>page_alloc_state\<close>. Addresses
  (\<open>uintptr_t\<close>) are 64-bit words; page counts and page indices (\<open>size_t\<close>) are natural
  numbers, which \<open>page_alloc_init\<close> keeps at or below \<open>PAGE_ALLOC_MAX_PAGES\<close>; the
  allocation bitmap is a list of 64-bit words, read and written with the code's masks.
  A returned null pointer is the address 0.
\<close>

definition PAGE_ALLOC_PAGE_SIZE :: u64 where "PAGE_ALLOC_PAGE_SIZE = 4096"
definition PAGE_ALLOC_MAX_PAGES :: nat where "PAGE_ALLOC_MAX_PAGES = 131072"
definition PAGE_ALLOC_BITMAP_WORD_BITS :: nat where "PAGE_ALLOC_BITMAP_WORD_BITS = 64"
definition PAGE_ALLOC_BITMAP_WORDS :: nat where
  "PAGE_ALLOC_BITMAP_WORDS =
     (PAGE_ALLOC_MAX_PAGES + PAGE_ALLOC_BITMAP_WORD_BITS - 1) div PAGE_ALLOC_BITMAP_WORD_BITS"

record page_alloc_state =
  g_range_start :: u64
  g_range_end :: u64
  g_total_pages :: nat
  g_free_pages :: nat
  g_next_hint :: nat
  g_alloc_bitmap :: "u64 list"

subsection \<open>The operations\<close>

definition page_align_up :: "u64 \<Rightarrow> u64" where
  "page_align_up addr = (let mask = PAGE_ALLOC_PAGE_SIZE - 1 in (addr + mask) AND NOT mask)"

definition page_align_down :: "u64 \<Rightarrow> u64" where
  "page_align_down addr = (let mask = PAGE_ALLOC_PAGE_SIZE - 1 in addr AND NOT mask)"

definition bitmap_test :: "u64 list \<Rightarrow> nat \<Rightarrow> bool" where
  "bitmap_test bm index =
     (let wd = index div PAGE_ALLOC_BITMAP_WORD_BITS;
          bt = index mod PAGE_ALLOC_BITMAP_WORD_BITS;
          mask = push_bit bt (1 :: u64)
      in (bm ! wd) AND mask \<noteq> 0)"

definition bitmap_set :: "u64 list \<Rightarrow> nat \<Rightarrow> u64 list" where
  "bitmap_set bm index =
     (let wd = index div PAGE_ALLOC_BITMAP_WORD_BITS;
          bt = index mod PAGE_ALLOC_BITMAP_WORD_BITS
      in bm[wd := (bm ! wd) OR push_bit bt 1])"

definition bitmap_clear :: "u64 list \<Rightarrow> nat \<Rightarrow> u64 list" where
  "bitmap_clear bm index =
     (let wd = index div PAGE_ALLOC_BITMAP_WORD_BITS;
          bt = index mod PAGE_ALLOC_BITMAP_WORD_BITS
      in bm[wd := (bm ! wd) AND NOT (push_bit bt 1)])"

definition page_index_from_addr :: "page_alloc_state \<Rightarrow> u64 \<Rightarrow> nat option" where
  "page_index_from_addr s addr =
     (if addr < g_range_start s \<or> addr \<ge> g_range_end s then None
      else let delta = addr - g_range_start s in
        if delta AND (PAGE_ALLOC_PAGE_SIZE - 1) \<noteq> 0 then None
        else let index = unat (delta div PAGE_ALLOC_PAGE_SIZE) in
          if index \<ge> g_total_pages s then None else Some index)"

definition page_alloc_init :: "u64 \<Rightarrow> u64 \<Rightarrow> page_alloc_state" where
  "page_alloc_init range_start range_end =
     (let aligned_start = page_align_up range_start;
          aligned_end = page_align_down range_end;
          cleared = \<lparr> g_range_start = 0, g_range_end = 0, g_total_pages = 0, g_free_pages = 0,
                      g_next_hint = 0,
                      g_alloc_bitmap = replicate PAGE_ALLOC_BITMAP_WORDS 0 \<rparr>
      in if aligned_end \<le> aligned_start then cleared
         else
           let total = unat ((aligned_end - aligned_start) div PAGE_ALLOC_PAGE_SIZE);
               (total, aligned_end) =
                 (if total > PAGE_ALLOC_MAX_PAGES
                  then (PAGE_ALLOC_MAX_PAGES,
                        aligned_start + of_nat PAGE_ALLOC_MAX_PAGES * PAGE_ALLOC_PAGE_SIZE)
                  else (total, aligned_end))
           in cleared \<lparr> g_total_pages := total, g_range_start := aligned_start,
                        g_range_end := aligned_end, g_free_pages := total \<rparr>)"

function page_alloc_scan :: "page_alloc_state \<Rightarrow> nat \<Rightarrow> u64 \<times> page_alloc_state" where
  "page_alloc_scan s scanned =
     (if scanned < g_total_pages s then
        let index = (g_next_hint s + scanned) mod g_total_pages s in
        if bitmap_test (g_alloc_bitmap s) index then page_alloc_scan s (scanned + 1)
        else (g_range_start s + of_nat index * PAGE_ALLOC_PAGE_SIZE,
              s \<lparr> g_alloc_bitmap := bitmap_set (g_alloc_bitmap s) index,
                  g_free_pages := g_free_pages s - 1,
                  g_next_hint := (index + 1) mod g_total_pages s \<rparr>)
      else (0, s))"
  by pat_completeness auto
termination
  by (relation "measure (\<lambda>(s, scanned). g_total_pages s - scanned)") auto

declare page_alloc_scan.simps [simp del]

definition page_alloc :: "page_alloc_state \<Rightarrow> u64 \<times> page_alloc_state" where
  "page_alloc s = (if g_free_pages s = 0 then (0, s) else page_alloc_scan s 0)"

definition page_alloc_owns :: "page_alloc_state \<Rightarrow> u64 \<Rightarrow> bool" where
  "page_alloc_owns s page = (if page = 0 then False else page_index_from_addr s page \<noteq> None)"

definition page_free :: "page_alloc_state \<Rightarrow> u64 \<Rightarrow> bool \<times> page_alloc_state" where
  "page_free s page =
     (if page = 0 then (False, s)
      else case page_index_from_addr s page of
        None \<Rightarrow> (False, s)
      | Some index \<Rightarrow>
          if \<not> bitmap_test (g_alloc_bitmap s) index then (False, s)
          else
            let free = g_free_pages s + 1 in
            (True, s \<lparr> g_alloc_bitmap := bitmap_clear (g_alloc_bitmap s) index,
                       g_free_pages := free,
                       g_next_hint := (if index < g_next_hint s \<or> free = 1 then index
                                       else g_next_hint s) \<rparr>))"

definition page_alloc_range_start :: "page_alloc_state \<Rightarrow> u64" where
  "page_alloc_range_start s = g_range_start s"

definition page_alloc_range_end :: "page_alloc_state \<Rightarrow> u64" where
  "page_alloc_range_end s = g_range_end s"

definition page_alloc_total_pages :: "page_alloc_state \<Rightarrow> nat" where
  "page_alloc_total_pages s = g_total_pages s"

definition page_alloc_free_pages :: "page_alloc_state \<Rightarrow> nat" where
  "page_alloc_free_pages s = g_free_pages s"

definition KERNEL_PHYS_MEM_END :: u64 where "KERNEL_PHYS_MEM_END = 0x88000000"

text \<open>\<open>mm_init\<close>: the linker symbol \<open>__bss_end\<close> is the parameter.\<close>

definition mm_init :: "u64 \<Rightarrow> page_alloc_state" where
  "mm_init bss_end = page_alloc_init bss_end KERNEL_PHYS_MEM_END"

subsection \<open>The bitmap interface\<close>

locale bit_set =
  fixes test :: "'b \<Rightarrow> nat \<Rightarrow> bool"
    and set_bit_at :: "'b \<Rightarrow> nat \<Rightarrow> 'b"
    and clear_bit_at :: "'b \<Rightarrow> nat \<Rightarrow> 'b"
    and fits :: "'b \<Rightarrow> nat \<Rightarrow> bool"
  assumes fits_mono: "fits b n \<Longrightarrow> m \<le> n \<Longrightarrow> fits b m"
    and fits_set: "fits b n \<Longrightarrow> fits (set_bit_at b i) n"
    and fits_clear: "fits b n \<Longrightarrow> fits (clear_bit_at b i) n"
    and test_set: "fits b n \<Longrightarrow> i < n \<Longrightarrow> j < n \<Longrightarrow> test (set_bit_at b i) j = (j = i \<or> test b j)"
    and test_clear:
      "fits b n \<Longrightarrow> i < n \<Longrightarrow> j < n \<Longrightarrow> test (clear_bit_at b i) j = (j \<noteq> i \<and> test b j)"
begin

definition zeros :: "'b \<Rightarrow> nat \<Rightarrow> nat set" where
  "zeros b n = {i. i < n \<and> \<not> test b i}"

lemma finite_zeros [simp]: "finite (zeros b n)"
  by (simp add: zeros_def)

lemma zeros_set: "fits b n \<Longrightarrow> i < n \<Longrightarrow> zeros (set_bit_at b i) n = zeros b n - {i}"
  by (auto simp: zeros_def test_set)

lemma zeros_clear: "fits b n \<Longrightarrow> i < n \<Longrightarrow> zeros (clear_bit_at b i) n = insert i (zeros b n)"
  by (auto simp: zeros_def test_clear)

lemma card_zeros_set:
  "fits b n \<Longrightarrow> i < n \<Longrightarrow> \<not> test b i \<Longrightarrow> card (zeros (set_bit_at b i) n) = card (zeros b n) - 1"
  by (subst zeros_set) (auto simp: zeros_def)

lemma card_zeros_clear:
  "fits b n \<Longrightarrow> i < n \<Longrightarrow> test b i \<Longrightarrow> card (zeros (clear_bit_at b i) n) = card (zeros b n) + 1"
  by (subst zeros_clear) (auto simp: zeros_def)

lemma zeros_witness: "0 < card (zeros b n) \<Longrightarrow> \<exists>i < n. \<not> test b i"
  by (auto simp: card_gt_0_iff zeros_def)

end

lemma bitmap_test_bit:
  "bitmap_test bm i = bit (bm ! (i div 64)) (i mod 64)"
  by (simp add: bitmap_test_def Let_def PAGE_ALLOC_BITMAP_WORD_BITS_def push_bit_of_1
      and_exp_eq_0_iff_not_bit)

definition bitmap_fits :: "u64 list \<Rightarrow> nat \<Rightarrow> bool" where
  "bitmap_fits bm n = (n \<le> 64 * length bm)"

lemma div64_less: "i < n \<Longrightarrow> n \<le> 64 * k \<Longrightarrow> i div 64 < (k :: nat)"
  by (metis less_mult_imp_div_less mult.commute order_less_le_trans)

lemma div_mod_64_eq: "(i :: nat) div 64 = j div 64 \<Longrightarrow> i mod 64 = j mod 64 \<Longrightarrow> i = j"
  by (metis div_mult_mod_eq)

lemma bitmap_test_set:
  assumes "bitmap_fits bm n" "i < n" "j < n"
  shows "bitmap_test (bitmap_set bm i) j = (j = i \<or> bitmap_test bm j)"
  using assms div64_less [of i n "length bm"]
  by (auto simp: bitmap_test_bit bitmap_set_def Let_def PAGE_ALLOC_BITMAP_WORD_BITS_def
      bitmap_fits_def nth_list_update bit_or_iff push_bit_of_1 bit_exp_iff
      dest: div_mod_64_eq)

lemma bitmap_test_clear:
  assumes "bitmap_fits bm n" "i < n" "j < n"
  shows "bitmap_test (bitmap_clear bm i) j = (j \<noteq> i \<and> bitmap_test bm j)"
  using assms div64_less [of i n "length bm"]
  by (auto simp: bitmap_test_bit bitmap_clear_def Let_def PAGE_ALLOC_BITMAP_WORD_BITS_def
      bitmap_fits_def nth_list_update bit_and_iff bit_not_iff push_bit_of_1 bit_exp_iff
      dest: div_mod_64_eq)

interpretation bm: bit_set bitmap_test bitmap_set bitmap_clear bitmap_fits
  by unfold_locales
    (auto simp: bitmap_test_set bitmap_test_clear,
     auto simp: bitmap_fits_def bitmap_set_def bitmap_clear_def Let_def)


subsection \<open>The invariant\<close>

definition page_addr :: "page_alloc_state \<Rightarrow> nat \<Rightarrow> u64" where
  "page_addr s i = g_range_start s + of_nat i * PAGE_ALLOC_PAGE_SIZE"

definition page_alloc_wf :: "page_alloc_state \<Rightarrow> bool" where
  "page_alloc_wf s \<longleftrightarrow>
     length (g_alloc_bitmap s) = PAGE_ALLOC_BITMAP_WORDS \<and>
     g_total_pages s \<le> PAGE_ALLOC_MAX_PAGES \<and>
     g_free_pages s = card (bm.zeros (g_alloc_bitmap s) (g_total_pages s)) \<and>
     (g_next_hint s < g_total_pages s \<or> g_total_pages s = 0) \<and>
     g_range_end s = g_range_start s + of_nat (g_total_pages s) * PAGE_ALLOC_PAGE_SIZE \<and>
     unat (g_range_start s) + g_total_pages s * 4096 < 2 ^ 64 \<and>
     g_range_start s AND 4095 = 0"

definition page_pool :: "page_alloc_state \<Rightarrow> u64 set" where
  "page_pool s = page_addr s ` {..<g_total_pages s}"

definition allocated_pages :: "page_alloc_state \<Rightarrow> u64 set" where
  "allocated_pages s =
     page_addr s ` {i. i < g_total_pages s \<and> bitmap_test (g_alloc_bitmap s) i}"

lemmas page_alloc_consts =
  PAGE_ALLOC_PAGE_SIZE_def PAGE_ALLOC_MAX_PAGES_def PAGE_ALLOC_BITMAP_WORD_BITS_def
  PAGE_ALLOC_BITMAP_WORDS_def

lemma wf_fits: "page_alloc_wf s \<Longrightarrow> bitmap_fits (g_alloc_bitmap s) (g_total_pages s)"
  by (simp add: page_alloc_wf_def bitmap_fits_def page_alloc_consts)

lemma unat_page_offset:
  "i \<le> 131072 \<Longrightarrow> unat (of_nat i * (4096 :: u64)) = i * 4096"
  by (simp add: unat_word_ariths unat_of_nat)

lemma unat_page_addr:
  assumes "page_alloc_wf s" "i \<le> g_total_pages s"
  shows "unat (page_addr s i) = unat (g_range_start s) + i * 4096"
proof -
  have "i \<le> 131072" and "unat (g_range_start s) + i * 4096 < 2 ^ 64"
    using assms by (auto simp: page_alloc_wf_def page_alloc_consts)
  then show ?thesis
    using unat_page_offset [of i]
    by (simp add: page_addr_def PAGE_ALLOC_PAGE_SIZE_def unat_word_ariths)
qed

lemma page_addr_inj:
  "page_alloc_wf s \<Longrightarrow> i \<le> g_total_pages s \<Longrightarrow> j \<le> g_total_pages s \<Longrightarrow>
   page_addr s i = page_addr s j \<longleftrightarrow> i = j"
  by (metis unat_page_addr add_left_cancel mult_cancel2 zero_neq_numeral)

lemma word_and_4095_iff: "(x :: u64) AND 4095 = 0 \<longleftrightarrow> 4096 dvd unat x"
proof -
  have "mask 12 = (4095 :: u64)"
    by (simp add: mask_eq_exp_minus_1)
  then have "unat (x AND 4095) = unat x mod 4096"
    using take_bit_eq_mask [of 12 x] unsigned_take_bit_eq [of 12 x] by (simp add: take_bit_eq_mod)
  then show ?thesis
    by (simp add: word_unat_eq_iff dvd_eq_mod_eq_0)
qed

lemma page_addr_aligned: "page_alloc_wf s \<Longrightarrow> i \<le> g_total_pages s \<Longrightarrow> page_addr s i AND 4095 = 0"
  by (simp add: word_and_4095_iff unat_page_addr) (simp add: page_alloc_wf_def word_and_4095_iff)

lemma page_index_of_addr:
  assumes wf: "page_alloc_wf s" and i: "i < g_total_pages s"
  shows "page_index_from_addr s (page_addr s i) = Some i"
proof -
  have "i * 4096 < g_total_pages s * 4096" using i by simp
  moreover have "unat (g_range_end s) = unat (g_range_start s) + g_total_pages s * 4096"
    using unat_page_addr [OF wf order_refl] wf by (simp add: page_alloc_wf_def page_addr_def)
  ultimately have range: "g_range_start s \<le> page_addr s i" "page_addr s i < g_range_end s"
    using unat_page_addr [OF wf, of i] i by (auto simp: word_le_nat_alt word_less_nat_alt)
  have "unat (page_addr s i - g_range_start s) = i * 4096"
    using range(1) unat_page_addr [OF wf, of i] i by (simp add: unat_sub)
  then show ?thesis
    using range i
    by (simp add: page_index_from_addr_def not_less not_le Let_def PAGE_ALLOC_PAGE_SIZE_def word_and_4095_iff
        unat_div)
qed

lemma page_index_SomeD:
  assumes wf: "page_alloc_wf s" and idx: "page_index_from_addr s a = Some i"
  shows "i < g_total_pages s \<and> a = page_addr s i"
proof -
  let ?d = "a - g_range_start s"
  from idx have le: "g_range_start s \<le> a" and al: "4096 dvd unat ?d"
    and i: "i = unat ?d div 4096" and lt: "i < g_total_pages s"
    by (auto simp: page_index_from_addr_def Let_def PAGE_ALLOC_PAGE_SIZE_def word_and_4095_iff
        unat_div not_less split: if_splits)
  have "unat ?d = i * 4096" using al i by simp
  then have "unat a = unat (g_range_start s) + i * 4096"
    using le by (simp add: unat_sub word_le_nat_alt)
  then show ?thesis
    using lt unat_page_addr [OF wf, of i] by (simp add: word_unat_eq_iff)
qed

lemma page_index_iff:
  "page_alloc_wf s \<Longrightarrow>
   page_index_from_addr s a = Some i \<longleftrightarrow> i < g_total_pages s \<and> a = page_addr s i"
  using page_index_SomeD page_index_of_addr by blast

lemma allocated_iff:
  "page_alloc_wf s \<Longrightarrow> i < g_total_pages s \<Longrightarrow>
   page_addr s i \<in> allocated_pages s \<longleftrightarrow> bitmap_test (g_alloc_bitmap s) i"
  by (auto simp: allocated_pages_def page_addr_inj)

lemma allocated_subset_pool: "allocated_pages s \<subseteq> page_pool s"
  by (auto simp: allocated_pages_def page_pool_def)

lemma finite_pool [simp]: "finite (page_pool s)"
  by (simp add: page_pool_def)

lemma card_pool: "page_alloc_wf s \<Longrightarrow> card (page_pool s) = g_total_pages s"
  unfolding page_pool_def by (subst card_image) (auto simp: inj_on_def page_addr_inj)

lemma pool_minus_allocated:
  "page_alloc_wf s \<Longrightarrow>
   page_pool s - allocated_pages s = page_addr s ` bm.zeros (g_alloc_bitmap s) (g_total_pages s)"
  by (auto simp: page_pool_def bm.zeros_def allocated_iff)

lemma free_pages_card: "page_alloc_wf s \<Longrightarrow> g_free_pages s = card (page_pool s - allocated_pages s)"
  unfolding pool_minus_allocated
  by (subst card_image) (auto simp: inj_on_def page_addr_inj bm.zeros_def page_alloc_wf_def)


subsection \<open>Initialisation\<close>

lemma align_down_word: "(x :: u64) AND - 4096 = x - (x AND 4095)"
proof -
  have m: "(4095 :: u64) = mask 12" and n: "(- 4096 :: u64) = NOT (mask 12)"
    by (simp_all add: mask_eq_exp_minus_1)
  have "x AND NOT (mask 12) = push_bit 12 (drop_bit 12 x)"
    by (rule bit_eqI) (auto simp: bit_simps)
  moreover have "push_bit 12 (drop_bit 12 x) + take_bit 12 x = x"
    by (rule bits_ident)
  ultimately show ?thesis
    by (simp add: m n take_bit_eq_mask algebra_simps del: mask_numeral)
qed

lemma unat_and_4095: "unat ((x :: u64) AND 4095) = unat x mod 4096"
proof -
  have m: "(4095 :: u64) = mask 12"
    by (simp add: mask_eq_exp_minus_1)
  show ?thesis
    using unsigned_take_bit_eq [of 12 x] by (simp add: m take_bit_eq_mask [symmetric] take_bit_eq_mod)
qed

lemma unat_align_down: "unat ((x :: u64) AND - 4096) = unat x div 4096 * 4096"
proof -
  have "x AND 4095 \<le> x"
    by (simp add: word_le_nat_alt unat_and_4095)
  then have "unat (x - (x AND 4095)) = unat x - unat x mod 4096"
    by (simp add: unat_sub unat_and_4095)
  then show ?thesis
    by (simp add: align_down_word minus_mod_eq_div_mult)
qed

lemma unat_page_align_down: "unat (page_align_down a) = unat a div 4096 * 4096"
  by (simp add: page_align_down_def PAGE_ALLOC_PAGE_SIZE_def unat_align_down)

lemma unat_page_align_up:
  "unat (page_align_up a) = (unat a + 4095) mod 2 ^ 64 div 4096 * 4096"
  by (simp add: page_align_up_def PAGE_ALLOC_PAGE_SIZE_def unat_align_down unat_word_ariths)

lemma unat_page_align_up_no_wrap:
  "unat a + 4095 < 2 ^ 64 \<Longrightarrow> unat (page_align_up a) = (unat a + 4095) div 4096 * 4096"
  by (simp add: unat_page_align_up)

lemma bitmap_test_zeros [simp]: "i < 131072 \<Longrightarrow> \<not> bitmap_test (replicate 2048 0) i"
  by (simp add: bitmap_test_bit)

lemma zeros_replicate: "n \<le> 131072 \<Longrightarrow> bm.zeros (replicate 2048 0) n = {..<n}"
  by (auto simp: bm.zeros_def)

definition page_count :: "u64 \<Rightarrow> u64 \<Rightarrow> nat" where
  \<comment> \<open>the number of pages the allocator manages between two aligned addresses\<close>
  "page_count lo hi = (if hi \<le> lo then 0 else min PAGE_ALLOC_MAX_PAGES ((unat hi - unat lo) div 4096))"

lemma page_alloc_init_fields:
  "g_total_pages (page_alloc_init lo hi) = page_count (page_align_up lo) (page_align_down hi)"
  "g_free_pages (page_alloc_init lo hi) = page_count (page_align_up lo) (page_align_down hi)"
  "g_next_hint (page_alloc_init lo hi) = 0"
  "g_alloc_bitmap (page_alloc_init lo hi) = replicate 2048 0"
  "page_align_up lo < page_align_down hi \<Longrightarrow> g_range_start (page_alloc_init lo hi) = page_align_up lo"
  by (auto simp: page_alloc_init_def Let_def page_count_def page_alloc_consts unat_div unat_sub
      not_le min_def)

lemma page_alloc_init_range_end:
  assumes "page_align_up lo < page_align_down hi"
  shows "g_range_end (page_alloc_init lo hi) =
    page_align_up lo + of_nat (page_count (page_align_up lo) (page_align_down hi)) * 4096"
proof -
  let ?a = "page_align_up lo" and ?b = "page_align_down hi"
  have d: "4096 dvd unat ?b - unat ?a"
    by (simp add: unat_page_align_up unat_page_align_down)
  have u: "unat (?b - ?a) = unat ?b - unat ?a"
    using assms by (simp add: unat_sub)
  have "?b - ?a = of_nat (unat (?b - ?a))"
    by simp
  also have "\<dots> = of_nat ((unat ?b - unat ?a) div 4096 * 4096)"
    using d u by simp
  finally have "?b - ?a = of_nat ((unat ?b - unat ?a) div 4096) * 4096"
    by simp
  then have "?b = ?a + of_nat ((unat ?b - unat ?a) div 4096) * 4096"
    by (simp add: algebra_simps)
  then show ?thesis
    using assms
    by (auto simp: page_alloc_init_def Let_def page_count_def page_alloc_consts unat_div unat_sub
        not_le min_def)
qed

lemma page_count_bound:
  "lo < hi \<Longrightarrow> unat lo + page_count lo hi * 4096 \<le> unat (hi :: u64)"
  by (auto simp: page_count_def page_alloc_consts min_def word_less_nat_alt not_le)

lemma page_alloc_init_wf [inv_intros]: "page_alloc_wf (page_alloc_init lo hi)"
proof (cases "page_align_up lo < page_align_down hi")
  case True
  let ?s = "page_alloc_init lo hi"
  have "page_count (page_align_up lo) (page_align_down hi) \<le> 131072"
    by (simp add: page_count_def page_alloc_consts)
  moreover have "unat (page_align_up lo) +
      page_count (page_align_up lo) (page_align_down hi) * 4096 < 2 ^ 64"
    using page_count_bound [OF True] unsigned_less [of "page_align_down hi", where ?'a = nat] by simp
  moreover have "page_align_up lo AND 4095 = 0"
    by (simp add: word_and_4095_iff unat_page_align_up)
  ultimately show ?thesis
    using True
    by (auto simp: page_alloc_wf_def page_alloc_init_fields page_alloc_init_range_end
        page_alloc_consts zeros_replicate)
next
  case False
  then show ?thesis
    by (auto simp: page_alloc_wf_def page_alloc_init_def Let_def page_alloc_consts zeros_replicate)
qed


subsection \<open>Allocation\<close>

definition first_free_offset :: "page_alloc_state \<Rightarrow> nat option" where
  "first_free_offset s = find_index (\<lambda>k. \<not> bitmap_test (g_alloc_bitmap s)
     ((g_next_hint s + k) mod g_total_pages s)) (g_total_pages s)"

lemma page_alloc_scan_find:
  "page_alloc_scan s k =
     (case find_index_from (\<lambda>k. \<not> bitmap_test (g_alloc_bitmap s)
        ((g_next_hint s + k) mod g_total_pages s)) k (g_total_pages s) of
       None \<Rightarrow> (0, s)
     | Some k \<Rightarrow> let index = (g_next_hint s + k) mod g_total_pages s in
         (page_addr s index,
          s \<lparr> g_alloc_bitmap := bitmap_set (g_alloc_bitmap s) index,
              g_free_pages := g_free_pages s - 1,
              g_next_hint := (index + 1) mod g_total_pages s \<rparr>))"
proof (induction s k rule: page_alloc_scan.induct)
  case (1 s k)
  then show ?case
    by (subst page_alloc_scan.simps, subst find_index_from.simps)
      (auto simp: Let_def page_addr_def)
qed

lemma cyclic_index_covers:
  assumes "h < n" "i < (n :: nat)"
  shows "\<exists>k < n. (h + k) mod n = i"
proof -
  have "(h + (if h \<le> i then i - h else n - h + i)) mod n = i"
    using assms by (auto simp: mod_if)
  moreover have "(if h \<le> i then i - h else n - h + i) < n"
    using assms by auto
  ultimately show ?thesis by blast
qed

lemma first_free_offset_Some:
  assumes wf: "page_alloc_wf s" and "g_free_pages s \<noteq> 0"
  obtains k where "first_free_offset s = Some k" "k < g_total_pages s"
    "\<not> bitmap_test (g_alloc_bitmap s) ((g_next_hint s + k) mod g_total_pages s)"
proof -
  have "0 < card (bm.zeros (g_alloc_bitmap s) (g_total_pages s))"
    using assms by (metis gr0I page_alloc_wf_def)
  then obtain i where i: "i < g_total_pages s" "\<not> bitmap_test (g_alloc_bitmap s) i"
    using bm.zeros_witness by blast
  moreover have "g_next_hint s < g_total_pages s"
    using wf i(1) by (auto simp: page_alloc_wf_def)
  ultimately obtain k where "k < g_total_pages s" "(g_next_hint s + k) mod g_total_pages s = i"
    using cyclic_index_covers by blast
  with i have "first_free_offset s \<noteq> None"
    by (auto simp: first_free_offset_def find_index_None)
  with that show thesis
    by (auto simp: first_free_offset_def find_index_Some)
qed

lemma page_alloc_cases:
  assumes wf: "page_alloc_wf s"
  obtains (full) "g_free_pages s = 0" "page_alloc s = (0, s)"
  | (page) i where "g_free_pages s \<noteq> 0" "i < g_total_pages s"
      "\<not> bitmap_test (g_alloc_bitmap s) i"
      "\<And>k. first_free_offset s = Some k \<Longrightarrow> i = (g_next_hint s + k) mod g_total_pages s"
      "page_alloc s = (page_addr s i,
         s \<lparr> g_alloc_bitmap := bitmap_set (g_alloc_bitmap s) i,
             g_free_pages := g_free_pages s - 1,
             g_next_hint := (i + 1) mod g_total_pages s \<rparr>)"
proof (cases "g_free_pages s = 0")
  case True
  then show thesis using full by (simp add: page_alloc_def)
next
  case False
  with wf obtain k where k: "first_free_offset s = Some k" "k < g_total_pages s"
    "\<not> bitmap_test (g_alloc_bitmap s) ((g_next_hint s + k) mod g_total_pages s)"
    by (rule first_free_offset_Some)
  show thesis
    by (rule page [of "(g_next_hint s + k) mod g_total_pages s"])
      (use False k in \<open>auto simp: page_alloc_def page_alloc_scan_find first_free_offset_def Let_def\<close>)
qed

lemma page_addr_upd [frame_simps]:
  "page_addr (s \<lparr> g_alloc_bitmap := b, g_free_pages := f, g_next_hint := h \<rparr>) = page_addr s"
  by (simp add: page_addr_def fun_eq_iff)

lemma page_pool_upd [frame_simps]:
  "page_pool (s \<lparr> g_alloc_bitmap := b, g_free_pages := f, g_next_hint := h \<rparr>) = page_pool s"
  by (simp add: page_pool_def frame_simps)

lemma wf_set_bit:
  assumes "page_alloc_wf s" "i < g_total_pages s" "\<not> bitmap_test (g_alloc_bitmap s) i"
  shows "page_alloc_wf (s \<lparr> g_alloc_bitmap := bitmap_set (g_alloc_bitmap s) i,
    g_free_pages := g_free_pages s - 1, g_next_hint := (i + 1) mod g_total_pages s \<rparr>)"
  using assms bm.card_zeros_set [OF wf_fits [OF assms(1)] assms(2,3)]
  by (auto simp: page_alloc_wf_def bitmap_set_def Let_def)

lemma wf_clear_bit:
  assumes "page_alloc_wf s" "i < g_total_pages s" "bitmap_test (g_alloc_bitmap s) i"
    and "h < g_total_pages s"
  shows "page_alloc_wf (s \<lparr> g_alloc_bitmap := bitmap_clear (g_alloc_bitmap s) i,
    g_free_pages := g_free_pages s + 1, g_next_hint := h \<rparr>)"
  using assms bm.card_zeros_clear [OF wf_fits [OF assms(1)] assms(2,3)]
  by (auto simp: page_alloc_wf_def bitmap_clear_def Let_def)

lemma allocated_set_bit:
  assumes "page_alloc_wf s" "i < g_total_pages s"
  shows "allocated_pages (s \<lparr> g_alloc_bitmap := bitmap_set (g_alloc_bitmap s) i,
    g_free_pages := f, g_next_hint := h \<rparr>) = insert (page_addr s i) (allocated_pages s)"
  using assms bitmap_test_set [OF wf_fits [OF assms(1)]]
  by (auto simp: allocated_pages_def frame_simps)

lemma allocated_clear_bit:
  assumes "page_alloc_wf s" "i < g_total_pages s"
  shows "allocated_pages (s \<lparr> g_alloc_bitmap := bitmap_clear (g_alloc_bitmap s) i,
    g_free_pages := f, g_next_hint := h \<rparr>) = allocated_pages s - {page_addr s i}"
  using assms bitmap_test_clear [OF wf_fits [OF assms(1)]]
  by (auto simp: allocated_pages_def frame_simps page_addr_inj)

subsection \<open>The contract the callers of the allocator rely on\<close>

fun alloc_many :: "('s \<Rightarrow> u64 \<times> 's) \<Rightarrow> nat \<Rightarrow> 's \<Rightarrow> u64 list \<times> 's" where
  "alloc_many alloc 0 s = ([], s)"
| "alloc_many alloc (Suc n) s =
     (let (p, s') = alloc s; (ps, s'') = alloc_many alloc n s' in (p # ps, s''))"

locale page_provider =
  fixes alloc :: "'s \<Rightarrow> u64 \<times> 's"
    and free :: "'s \<Rightarrow> u64 \<Rightarrow> bool \<times> 's"
    and inv :: "'s \<Rightarrow> bool"
    and pool :: "'s \<Rightarrow> u64 set"
    and used :: "'s \<Rightarrow> u64 set"
  assumes pool_finite: "finite (pool s)"
    and used_pool: "used s \<subseteq> pool s"
    and alloc_ok: "inv s \<Longrightarrow> used s \<noteq> pool s \<Longrightarrow> alloc s = (p, s') \<Longrightarrow>
      p \<in> pool s - used s \<and> used s' = insert p (used s) \<and> pool s' = pool s \<and> inv s'"
    and alloc_full: "inv s \<Longrightarrow> used s = pool s \<Longrightarrow> alloc s = (0, s)"
    and free_ok: "inv s \<Longrightarrow> p \<noteq> 0 \<Longrightarrow> p \<in> used s \<Longrightarrow> free s p = (b, s') \<Longrightarrow>
      b \<and> used s' = used s - {p} \<and> pool s' = pool s \<and> inv s'"
    and free_bad: "inv s \<Longrightarrow> p = 0 \<or> p \<notin> used s \<Longrightarrow> free s p = (False, s)"
begin

lemma alloc_inv: "inv s \<Longrightarrow> alloc s = (p, s') \<Longrightarrow> inv s'"
  by (metis alloc_ok alloc_full prod.inject)

lemma free_inv: "inv s \<Longrightarrow> free s p = (b, s') \<Longrightarrow> inv s'"
  by (metis free_ok free_bad prod.inject)

lemma free_iff: "inv s \<Longrightarrow> free s p = (b, s') \<Longrightarrow> b \<longleftrightarrow> p \<noteq> 0 \<and> p \<in> used s"
  by (metis free_ok free_bad prod.inject)

lemma free_used: "inv s \<Longrightarrow> free s p = (True, s') \<Longrightarrow> used s' = used s - {p}"
  by (metis free_ok free_bad prod.inject)

lemma double_free:
  "inv s \<Longrightarrow> free s p = (True, s') \<Longrightarrow> free s' p = (False, s')"
  using free_inv free_used free_bad by (metis DiffD2 insertI1)

lemma alloc_free_restores:
  "inv s \<Longrightarrow> used s \<noteq> pool s \<Longrightarrow> alloc s = (p, s') \<Longrightarrow> p \<noteq> 0 \<Longrightarrow> free s' p = (b, s'') \<Longrightarrow>
   b \<and> used s'' = used s"
  using alloc_ok [of s p s'] free_ok [of s' p b s''] by auto

lemma alloc_many_distinct:
  "inv s \<Longrightarrow> n \<le> card (pool s - used s) \<Longrightarrow> alloc_many alloc n s = (ps, s') \<Longrightarrow>
   length ps = n \<and> distinct ps \<and> set ps \<subseteq> pool s - used s \<and>
   used s' = used s \<union> set ps \<and> pool s' = pool s \<and> inv s'"
proof (induction n arbitrary: s ps)
  case 0
  then show ?case by simp
next
  case (Suc n)
  obtain p s1 where a: "alloc s = (p, s1)" by force
  obtain qs where m: "alloc_many alloc n s1 = (qs, s')" and ps: "ps = p # qs"
    using Suc.prems(3) a by (auto simp: Let_def split: prod.splits)
  have ne: "used s \<noteq> pool s"
    using Suc.prems(2) by auto
  note ok = alloc_ok [OF Suc.prems(1) ne a]
  then have "pool s1 - used s1 = (pool s - used s) - {p}" by auto
  then have "n \<le> card (pool s1 - used s1)"
    using Suc.prems(2) ok by (simp add: pool_finite)
  with Suc.IH [OF _ _ m] ok have
    "length qs = n \<and> distinct qs \<and> set qs \<subseteq> pool s1 - used s1 \<and>
     used s' = used s1 \<union> set qs \<and> pool s' = pool s1 \<and> inv s'" by blast
  with ok show ?case by (auto simp: ps)
qed

lemma alloc_many_exhausts:
  assumes "inv s" "alloc_many alloc (card (pool s - used s)) s = (ps, s')"
  shows "set ps = pool s - used s \<and> alloc s' = (0, s')"
proof -
  note many = alloc_many_distinct [OF assms(1) order_refl assms(2)]
  have "card (set ps) = card (pool s - used s)"
    using many by (simp add: distinct_card)
  moreover have "set ps \<subseteq> pool s - used s"
    using many by blast
  ultimately have eq: "set ps = pool s - used s"
    by (simp add: card_subset_eq pool_finite)
  with many used_pool have "used s' = pool s'" by auto
  with many eq show ?thesis by (simp add: alloc_full)
qed

end


interpretation pages: page_provider page_alloc page_free page_alloc_wf page_pool allocated_pages
proof unfold_locales
  fix s :: page_alloc_state
  show "finite (page_pool s)" by simp
  show "allocated_pages s \<subseteq> page_pool s" by (rule allocated_subset_pool)
next
  fix s s' p
  assume wf: "page_alloc_wf s" and ne: "allocated_pages s \<noteq> page_pool s"
    and a: "page_alloc s = (p, s')"
  have "g_free_pages s \<noteq> 0"
    using ne free_pages_card [OF wf] allocated_subset_pool [of s] by auto
  with wf show "p \<in> page_pool s - allocated_pages s \<and> allocated_pages s' = insert p (allocated_pages s)
      \<and> page_pool s' = page_pool s \<and> page_alloc_wf s'"
    by (cases rule: page_alloc_cases)
      (use a wf in \<open>auto simp: allocated_set_bit wf_set_bit [simplified] frame_simps allocated_iff page_pool_def\<close>)
next
  fix s
  assume wf: "page_alloc_wf s" and "allocated_pages s = page_pool s"
  then show "page_alloc s = (0, s)"
    using free_pages_card [OF wf] by (simp add: page_alloc_def)
next
  fix s s' p b
  assume wf: "page_alloc_wf s" and p: "p \<noteq> 0" "p \<in> allocated_pages s"
    and f: "page_free s p = (b, s')"
  then obtain i where i: "i < g_total_pages s" "bitmap_test (g_alloc_bitmap s) i" "p = page_addr s i"
    by (auto simp: allocated_pages_def)
  have "g_next_hint s < g_total_pages s"
    using wf i(1) by (auto simp: page_alloc_wf_def)
  with wf i p(1) f show
    "b \<and> allocated_pages s' = allocated_pages s - {p} \<and> page_pool s' = page_pool s \<and> page_alloc_wf s'"
    using wf_clear_bit [OF wf i(1,2)]
    by (auto simp: page_free_def page_index_of_addr Let_def allocated_clear_bit frame_simps)
next
  fix s p
  assume "page_alloc_wf s" "p = 0 \<or> p \<notin> allocated_pages s"
  then show "page_free s p = (False, s)"
    by (auto simp: page_free_def page_index_iff allocated_iff split: option.split)
qed

datatype page_op = Page_alloc | Page_free u64

fun page_step :: "page_alloc_state \<Rightarrow> page_op \<Rightarrow> page_alloc_state" where
  "page_step s Page_alloc = snd (page_alloc s)"
| "page_step s (Page_free p) = snd (page_free s p)"

lemma page_step_wf [inv_intros]: "page_alloc_wf s \<Longrightarrow> page_alloc_wf (page_step s op)"
  by (cases op)
    (simp_all add: pages.alloc_inv [OF _ prod.collapse [symmetric]]
      pages.free_inv [OF _ prod.collapse [symmetric]])

lemma page_run_wf: "page_alloc_wf s \<Longrightarrow> page_alloc_wf (fold (\<lambda>op t. page_step t op) ops s)"
  by (induction ops arbitrary: s) (auto intro: inv_intros)

lemma pool_aligned: "page_alloc_wf s \<Longrightarrow> page_pool s \<subseteq> {p. p AND 4095 = 0}"
  by (auto simp: page_pool_def page_addr_aligned)

lemma pool_in_range:
  assumes "unat lo + 4095 < 2 ^ 64" "p \<in> page_pool (page_alloc_init lo hi)"
  shows "lo \<le> p \<and> unat p + 4096 \<le> unat hi"
proof -
  let ?s = "page_alloc_init lo hi"
  from assms(2) obtain i where i: "i < g_total_pages ?s" "p = page_addr ?s i"
    by (auto simp: page_pool_def)
  then have lt: "page_align_up lo < page_align_down hi"
    by (auto simp: page_alloc_init_fields page_count_def not_le split: if_splits)
  have "unat p = unat (page_align_up lo) + i * 4096"
    using i lt by (simp add: unat_page_addr page_alloc_init_wf page_alloc_init_fields)
  moreover have "Suc i * 4096 \<le> page_count (page_align_up lo) (page_align_down hi) * 4096"
    using i by (simp add: page_alloc_init_fields del: mult_Suc)
  moreover note page_count_bound [OF lt]
  moreover have "unat lo \<le> unat (page_align_up lo)"
    using assms(1) by (simp add: unat_page_align_up_no_wrap)
  moreover have "unat (page_align_down hi) \<le> unat hi"
    by (simp add: unat_page_align_down)
  ultimately show ?thesis
    by (simp add: word_le_nat_alt)
qed

lemma page_alloc_prefers_hint:
  assumes wf: "page_alloc_wf s" and h: "g_next_hint s < g_total_pages s"
    and "\<not> bitmap_test (g_alloc_bitmap s) (g_next_hint s)"
  shows "fst (page_alloc s) = page_addr s (g_next_hint s)"
proof -
  have "first_free_offset s = Some 0"
    using assms by (auto simp: first_free_offset_def find_index_Some)
  moreover have "g_free_pages s \<noteq> 0"
    using wf h assms(3) by (auto simp: page_alloc_wf_def bm.zeros_def)
  ultimately show ?thesis
    using h by (simp add: page_alloc_def page_alloc_scan_find first_free_offset_def Let_def)
qed


subsection \<open>Properties\<close>

definition page_run :: "page_alloc_state \<Rightarrow> page_op list \<Rightarrow> page_alloc_state" where
  "page_run s ops = fold (\<lambda>op t. page_step t op) ops s"

text \<open>
  C16: the allocator invariant. After \<open>page_alloc_init\<close> on any two addresses and any
  sequence of \<open>page_alloc\<close> and \<open>page_free\<close> calls with any arguments, the free-page counter
  equals the number of managed pages that are not marked allocated, every allocated page is
  one of the managed pages, the page count is the number of distinct managed addresses, and
  every managed address is 4 KiB aligned.
\<close>
theorem page_alloc_accounting:
  "let s = page_run (page_alloc_init lo hi) ops in
     page_alloc_free_pages s = card (page_pool s - allocated_pages s)
   \<and> page_alloc_total_pages s = card (page_pool s)
   \<and> allocated_pages s \<subseteq> page_pool s
   \<and> page_pool s \<subseteq> {p. p AND 4095 = 0}"
proof -
  have "page_alloc_wf (page_run (page_alloc_init lo hi) ops)"
    by (simp add: page_run_def page_run_wf page_alloc_init_wf)
  then show ?thesis
    by (simp add: Let_def page_alloc_free_pages_def page_alloc_total_pages_def free_pages_card
        card_pool allocated_subset_pool pool_aligned)
qed

text \<open>
  what \<open>page_alloc\<close> returns. While a managed page is unallocated, \<open>page_alloc\<close> returns
  the address of one, aligned and recognised by \<open>page_alloc_owns\<close> unless it is the null
  address, and afterwards exactly that page has become allocated; once every page is
  allocated it returns null and changes nothing.
\<close>
theorem page_alloc_fresh:
  assumes "page_alloc_wf s" and "page_alloc s = (p, s')"
  shows "(allocated_pages s \<noteq> page_pool s \<longrightarrow>
      p \<in> page_pool s - allocated_pages s \<and> allocated_pages s' = insert p (allocated_pages s)
      \<and> p AND 4095 = 0 \<and> (p \<noteq> 0 \<longrightarrow> page_alloc_owns s p))
    \<and> (allocated_pages s = page_pool s \<longrightarrow> p = 0 \<and> s' = s)"
proof -
  have "page_alloc_owns s p" if "p \<noteq> 0" "p \<in> page_pool s"
    using assms(1) that by (auto simp: page_alloc_owns_def page_pool_def page_index_of_addr)
  then show ?thesis
    using pages.alloc_ok [OF assms(1) _ assms(2)] pages.alloc_full [OF assms(1)] assms(2)
      pool_aligned [OF assms(1)]
    by auto
qed

lemma demo_pages:
  "page_alloc_init 8200 20490 = \<lparr> g_range_start = 12288, g_range_end = 20480, g_total_pages = 2,
     g_free_pages = 2, g_next_hint = 0, g_alloc_bitmap = replicate 2048 0 \<rparr>"
  by (simp add: page_alloc_init_def page_align_up_def page_align_down_def page_alloc_consts)

theorem page_alloc_fresh_witness:
  "fst (page_alloc (page_alloc_init 8200 20490)) = 12288 \<and>
   12288 \<in> page_pool (page_alloc_init 8200 20490)"
proof -
  let ?s = "page_alloc_init 8200 20490"
  have p: "fst (page_alloc ?s) = 12288"
    by (simp add: demo_pages page_alloc_def page_alloc_scan.simps)
  have "card (page_pool ?s - allocated_pages ?s) = 2"
    using free_pages_card [OF page_alloc_init_wf, of 8200 20490] by (simp add: demo_pages)
  then have "allocated_pages ?s \<noteq> page_pool ?s"
    by auto
  then show ?thesis
    using page_alloc_fresh [OF page_alloc_init_wf prod.collapse [symmetric], of 8200 20490] p
    by simp
qed


text \<open>
  what \<open>page_free\<close> accepts. A call succeeds exactly for a non-null address of a page
  that is currently allocated; then that page alone becomes free again, and freeing it a
  second time is refused. A refused call (null, foreign, misaligned or already free address)
  leaves the allocator unchanged.
\<close>
theorem page_free_spec:
  assumes "page_alloc_wf s" and "page_free s p = (ok, s')"
  shows "(ok \<longleftrightarrow> p \<noteq> 0 \<and> p \<in> allocated_pages s)
    \<and> allocated_pages s' = (if ok then allocated_pages s - {p} else allocated_pages s)
    \<and> (\<not> ok \<longrightarrow> s' = s) \<and> (ok \<longrightarrow> page_free s' p = (False, s'))
    \<and> page_pool s' = page_pool s"
proof (cases ok)
  case True
  with assms have f: "page_free s p = (True, s')" by simp
  have p: "p \<noteq> 0" "p \<in> allocated_pages s"
    using pages.free_iff [OF assms] True by simp_all
  from True p show ?thesis
    by (simp add: pages.free_ok [OF assms(1) p f] pages.double_free [OF assms(1) f])
next
  case False
  then have p: "p = 0 \<or> p \<notin> allocated_pages s"
    using pages.free_iff [OF assms] by simp
  have "s' = s"
    using pages.free_bad [OF assms(1) p] assms(2) by simp
  with False p show ?thesis by simp
qed

theorem page_free_spec_witness:
  "page_free (snd (page_alloc (page_alloc_init 8200 20490))) 12288 =
     (True, snd (page_free (snd (page_alloc (page_alloc_init 8200 20490))) 12288))
   \<and> 12288 \<in> allocated_pages (snd (page_alloc (page_alloc_init 8200 20490)))"
proof -
  let ?s = "snd (page_alloc (page_alloc_init 8200 20490))"
  have wf: "page_alloc_wf ?s"
    using page_step_wf [OF page_alloc_init_wf, of 8200 20490 Page_alloc] by simp
  have s: "?s = \<lparr> g_range_start = 12288, g_range_end = 20480, g_total_pages = 2,
     g_free_pages = 1, g_next_hint = 1, g_alloc_bitmap = (replicate 2048 0)[0 := 1] \<rparr>"
    by (simp add: demo_pages page_alloc_def page_alloc_scan.simps bitmap_set_def page_alloc_consts)
  have "fst (page_free ?s 12288)"
    by (simp add: s page_free_def page_index_from_addr_def page_alloc_consts bitmap_test_bit Let_def)
  then have f: "page_free ?s 12288 = (True, snd (page_free ?s 12288))"
    by (simp add: prod_eq_iff)
  show ?thesis
    using page_free_spec [OF wf f] f by blast
qed

text \<open>
  exhaustion. From a fresh allocator, as many consecutive \<open>page_alloc\<close> calls as there
  are managed pages return pairwise distinct addresses which are together all the managed
  pages, and the next call returns null.
\<close>
theorem page_alloc_exhaustion:
  "let s = page_alloc_init lo hi; (ps, s') = alloc_many page_alloc (page_alloc_total_pages s) s
   in length ps = page_alloc_total_pages s \<and> distinct ps \<and> set ps = page_pool s
     \<and> page_alloc s' = (0, s')"
proof -
  let ?s = "page_alloc_init lo hi"
  have wf: "page_alloc_wf ?s"
    by (rule page_alloc_init_wf)
  have "allocated_pages ?s = {}"
    by (auto simp: allocated_pages_def page_alloc_init_fields page_count_def page_alloc_consts)
  then have n: "page_alloc_total_pages ?s = card (page_pool ?s - allocated_pages ?s)"
    and diff: "page_pool ?s - allocated_pages ?s = page_pool ?s"
    using wf by (simp_all add: page_alloc_total_pages_def card_pool)
  obtain ps s' where m: "alloc_many page_alloc (page_alloc_total_pages ?s) ?s = (ps, s')"
    by force
  with pages.alloc_many_distinct [OF wf order_refl, of ps s']
    pages.alloc_many_exhausts [OF wf, of ps s'] diff
  show ?thesis
    by (simp add: n)
qed

text \<open>
  reuse. When the pool is exhausted and one page is freed, the next \<open>page_alloc\<close>
  returns exactly that page: \<open>page_free\<close> moves the search hint to it.
\<close>
theorem page_free_then_reuse:
  assumes "page_alloc_wf s" and "allocated_pages s = page_pool s" and "page_free s p = (True, s')"
  shows "fst (page_alloc s') = p"
proof -
  from assms(1,3) obtain i where i: "i < g_total_pages s" "p = page_addr s i"
    and s': "s' = s \<lparr> g_alloc_bitmap := bitmap_clear (g_alloc_bitmap s) i,
      g_free_pages := g_free_pages s + 1,
      g_next_hint := (if i < g_next_hint s \<or> g_free_pages s + 1 = 1 then i else g_next_hint s) \<rparr>"
    by (auto simp: page_free_def page_index_iff Let_def split: if_splits option.splits)
  have "g_free_pages s = 0"
    using free_pages_card [OF assms(1)] assms(2) by simp
  then have "g_next_hint s' = i" "\<not> bitmap_test (g_alloc_bitmap s') i" "g_total_pages s' = g_total_pages s"
    using i(1) bitmap_test_clear [OF wf_fits [OF assms(1)] i(1) i(1)] by (auto simp: s')
  moreover have "page_alloc_wf s'"
    using pages.free_inv [OF assms(1,3)] .
  ultimately have "fst (page_alloc s') = page_addr s' i"
    using page_alloc_prefers_hint [of s'] i(1) by simp
  then show ?thesis
    using i(2) by (simp add: s' frame_simps)
qed

theorem page_free_then_reuse_witness:
  "\<exists>s p s'. page_alloc_wf s \<and> allocated_pages s = page_pool s \<and> page_free s p = (True, s')
     \<and> fst (page_alloc s') = p"
proof -
  let ?s = "\<lparr> g_range_start = 12288, g_range_end = 16384, g_total_pages = 1,
     g_free_pages = 0, g_next_hint = 0, g_alloc_bitmap = (replicate 2048 0)[0 := 1] \<rparr>"
  have b: "bitmap_test (g_alloc_bitmap ?s) 0"
    by (simp add: bitmap_test_bit)
  then have z: "bm.zeros (g_alloc_bitmap ?s) 1 = {}"
    by (auto simp: bm.zeros_def) (metis neq0_conv)
  have wf: "page_alloc_wf ?s"
    using z by (simp add: page_alloc_wf_def page_alloc_consts)
  from b have "{i. i < (1 :: nat) \<and> bitmap_test (g_alloc_bitmap ?s) i} = {..<1}"
    by auto
  then have full: "allocated_pages ?s = page_pool ?s"
    by (simp add: allocated_pages_def page_pool_def)
  have "fst (page_free ?s 12288)"
    by (simp add: page_free_def page_index_from_addr_def page_alloc_consts bitmap_test_bit Let_def)
  then have f: "page_free ?s 12288 = (True, snd (page_free ?s 12288))"
    by (metis prod.collapse)
  show ?thesis
    using wf full f page_free_then_reuse [OF wf full f] by blast
qed

text \<open>
  the managed range. If rounding \<open>range_start\<close> up does not wrap around, every page the
  allocator manages lies completely inside the byte range it was given.
\<close>
theorem page_alloc_init_in_range:
  assumes "unat lo + 4095 < 2 ^ 64" and "p \<in> page_pool (page_alloc_init lo hi)"
  shows "lo \<le> p \<and> unat p + 4096 \<le> unat hi"
  using assms by (rule pool_in_range)

theorem page_alloc_init_in_range_witness:
  "(8200 :: u64) \<le> 12288 \<and> unat (12288 :: u64) + 4096 \<le> unat (20490 :: u64)"
proof (rule page_alloc_init_in_range)
  show "unat (8200 :: u64) + 4095 < 2 ^ 64" by simp
  have "page_addr (page_alloc_init 8200 20490) 0 = 12288"
    by (simp add: page_addr_def demo_pages)
  then show "12288 \<in> page_pool (page_alloc_init 8200 20490)"
    by (force simp: page_pool_def demo_pages)
qed

text \<open>
  Rounding up wraps when \<open>range_start\<close> is within the last page of the address space, and
  then the allocator manages pages below \<open>range_start\<close>, starting with the null page, whose
  address callers cannot tell from a failed allocation. The kernel never passes such a range.
\<close>
lemma page_align_up_wraps:
  "page_alloc_init 0xffffffffffffffff 8192 = \<lparr> g_range_start = 0, g_range_end = 8192,
     g_total_pages = 2, g_free_pages = 2, g_next_hint = 0, g_alloc_bitmap = replicate 2048 0 \<rparr>"
  by (simp add: page_alloc_init_def page_align_up_def page_align_down_def page_alloc_consts)

end
