(* ===== verification/FsPath.thy ===== *)
theory FsPath
  imports Prelude
begin

text \<open>
  Path strings, \<open>fs/path.c\<close>: \<open>fs_path_normalize\<close> and \<open>fs_path_resolve\<close>. A result
  \<open>None\<close> is the return value \<open>-1\<close>; \<open>Some q\<close> is the return value 0 with the string \<open>q\<close> in
  \<open>out\<close>. The pointer arguments are objects: the null checks at the head of both functions
  have no counterpart. The scan of the code is followed as it is, with its segment table (the
  offset and length of each kept segment) over its segment pool (\<open>pool_used\<close> is the length of
  the pool, which never shrinks); the reference definition works on lists of names.
\<close>

definition FS_PATH_MAX :: nat where "FS_PATH_MAX = 256"

record path_segment =
  seg_offset :: nat
  seg_len :: nat

record norm_state =
  segments :: "path_segment list"
  segment_pool :: string

abbreviation is_slash :: "char \<Rightarrow> bool" where
  "is_slash c \<equiv> c = CHR ''/''"

definition segment_text :: "string \<Rightarrow> path_segment \<Rightarrow> string" where
  "segment_text pool sg = take (seg_len sg) (drop (seg_offset sg) pool)"

definition segment_is_dot :: "string \<Rightarrow> bool" where
  "segment_is_dot s \<longleftrightarrow> length s = 1 \<and> s ! 0 = CHR ''.''"

definition segment_is_dotdot :: "string \<Rightarrow> bool" where
  "segment_is_dotdot s \<longleftrightarrow> length s = 2 \<and> s ! 0 = CHR ''.'' \<and> s ! 1 = CHR ''.''"

definition push_segment :: "string \<Rightarrow> norm_state \<Rightarrow> norm_state" where
  "push_segment sg st =
     st \<lparr> segments := segments st @ [\<lparr> seg_offset = length (segment_pool st), seg_len = length sg \<rparr>],
          segment_pool := segment_pool st @ sg @ [CHR 0x00] \<rparr>"

text \<open>
  One round of the scan, on the rest of the path: the separators are skipped, and the next
  segment and what follows it are returned (\<open>None\<close> at the end of the string).
\<close>

definition next_segment :: "string \<Rightarrow> (string \<times> string) option" where
  "next_segment path =
     (let rest = dropWhile is_slash path in
      if rest = [] then None
      else Some (takeWhile (\<lambda>c. \<not> is_slash c) rest, dropWhile (\<lambda>c. \<not> is_slash c) rest))"

lemma next_segment_SomeD:
  assumes "next_segment path = Some (sg, rest)"
  shows "\<exists>k. path = replicate k (CHR ''/'') @ sg @ rest \<and> sg \<noteq> [] \<and> CHR ''/'' \<notin> set sg \<and>
    (rest = [] \<or> is_slash (hd rest))"
proof -
  let ?d = "dropWhile is_slash path"
  from assms have d: "?d \<noteq> []" and sg: "sg = takeWhile (\<lambda>c. \<not> is_slash c) ?d"
    and rest: "rest = dropWhile (\<lambda>c. \<not> is_slash c) ?d"
    by (auto simp: next_segment_def Let_def split: if_splits)
  have "takeWhile is_slash path = replicate (length (takeWhile is_slash path)) (CHR ''/'')"
    by (rule replicate_eqI) (auto dest: set_takeWhileD)
  then have "path = replicate (length (takeWhile is_slash path)) (CHR ''/'') @ sg @ rest"
    unfolding sg rest by simp
  moreover have "sg \<noteq> []"
    using d hd_dropWhile [of is_slash path] unfolding sg by (cases ?d) auto
  moreover have "CHR ''/'' \<notin> set sg"
    unfolding sg by (auto dest: set_takeWhileD)
  moreover have "rest = [] \<or> is_slash (hd rest)"
    unfolding rest using hd_dropWhile [of "\<lambda>c. \<not> is_slash c"] by blast
  ultimately show ?thesis by blast
qed

lemma next_segment_shorter: "next_segment path = Some (sg, rest) \<Longrightarrow> length rest < length path"
  by (drule next_segment_SomeD) auto

lemma next_segment_None: "next_segment path = None \<longleftrightarrow> set path \<subseteq> {CHR ''/''}"
  by (auto simp: next_segment_def Let_def)

function normalize_scan :: "bool \<Rightarrow> string \<Rightarrow> norm_state \<Rightarrow> norm_state option" where
  "normalize_scan is_absolute path st =
     (case next_segment path of
        None \<Rightarrow> Some st
      | Some (sg, rest) \<Rightarrow>
        if segment_is_dot sg then normalize_scan is_absolute rest st
        else if segment_is_dotdot sg \<and> segments st \<noteq> [] \<and>
                \<not> segment_is_dotdot (segment_text (segment_pool st) (last (segments st)))
        then normalize_scan is_absolute rest (st \<lparr> segments := butlast (segments st) \<rparr>)
        else if segment_is_dotdot sg \<and> is_absolute then normalize_scan is_absolute rest st
        else if length (segments st) \<ge> FS_PATH_MAX div 2 \<or> length sg \<ge> FS_PATH_MAX \<or>
                length (segment_pool st) + length sg + 1 > FS_PATH_MAX
        then None
        else normalize_scan is_absolute rest (push_segment sg st))"
  by pat_completeness auto
termination
  by (relation "measure (\<lambda>(a, path, st). length path)") (auto dest: next_segment_shorter)

declare normalize_scan.simps [simp del]

text \<open>Writing the kept segments to \<open>out\<close>, with the capacity checks of the code.\<close>

fun emit_segments :: "nat \<Rightarrow> string \<Rightarrow> bool \<Rightarrow> string list \<Rightarrow> string option" where
  "emit_segments out_len out first [] = Some out"
| "emit_segments out_len out first (sg # sgs) =
     (if \<not> first \<and> length out + 2 > out_len then None
      else
        let out = (if first then out else out @ ''/'') in
        if length out + length sg + 1 > out_len then None
        else emit_segments out_len (out @ sg) False sgs)"

definition fs_path_normalize :: "string \<Rightarrow> nat \<Rightarrow> string option" where
  "fs_path_normalize path out_len =
     (if out_len = 0 \<or> path = [] then None
      else
        let is_absolute = is_slash (hd path) in
        case normalize_scan is_absolute path \<lparr> segments = [], segment_pool = [] \<rparr> of
          None \<Rightarrow> None
        | Some st \<Rightarrow>
            if is_absolute \<and> 2 > out_len then None
            else
              let out = (if is_absolute then ''/'' else []) in
              if segments st = [] then
                (if \<not> is_absolute then (if out_len < 2 then None else Some ''.'') else Some out)
              else emit_segments out_len out True
                     (map (segment_text (segment_pool st)) (segments st)))"

definition fs_path_resolve :: "string \<Rightarrow> string \<Rightarrow> nat \<Rightarrow> string option" where
  "fs_path_resolve cwd path out_len =
     (if out_len = 0 then None
      else case fs_path_normalize cwd FS_PATH_MAX of
        None \<Rightarrow> None
      | Some cwd_normalized \<Rightarrow>
          if \<not> is_slash (hd cwd_normalized) then None
          else if path \<noteq> [] \<and> is_slash (hd path) then fs_path_normalize path out_len
          else if path = [] then fs_path_normalize cwd_normalized out_len
          else if length cwd_normalized + length path + 2 > FS_PATH_MAX then None
          else
            let joined = (if cwd_normalized = ''/'' then ''/'' @ path
                          else cwd_normalized @ ''/'' @ path)
            in fs_path_normalize joined out_len)"

subsection \<open>The reference definition: paths as lists of names\<close>

function path_segments :: "string \<Rightarrow> string list" where
  "path_segments path =
     (case next_segment path of None \<Rightarrow> [] | Some (sg, rest) \<Rightarrow> sg # path_segments rest)"
  by pat_completeness auto
termination
  by (relation "measure length") (auto dest: next_segment_shorter)

declare path_segments.simps [simp del]

fun canon_step :: "bool \<Rightarrow> string list \<Rightarrow> string \<Rightarrow> string list" where
  "canon_step is_absolute acc sg =
     (if sg = ''.'' then acc
      else if sg = ''..'' then
        (if acc \<noteq> [] \<and> last acc \<noteq> ''..'' then butlast acc
         else if is_absolute then acc else acc @ [sg])
      else acc @ [sg])"

declare canon_step.simps [simp del]

lemma canon_step_cases [simp]:
  "canon_step a acc ''.'' = acc"
  "canon_step a acc ''..'' =
     (if acc \<noteq> [] \<and> last acc \<noteq> ''..'' then butlast acc else if a then acc else acc @ [''..''])"
  "sg \<noteq> ''.'' \<Longrightarrow> sg \<noteq> ''..'' \<Longrightarrow> canon_step a acc sg = acc @ [sg]"
  by (simp_all add: canon_step.simps)

definition canon :: "bool \<Rightarrow> string list \<Rightarrow> string list" where
  "canon is_absolute sgs = foldl (canon_step is_absolute) [] sgs"

fun join_segments :: "string list \<Rightarrow> string" where
  "join_segments [] = []"
| "join_segments [sg] = sg"
| "join_segments (sg # sgs) = sg @ ''/'' @ join_segments sgs"

definition render :: "bool \<Rightarrow> string list \<Rightarrow> string" where
  "render is_absolute sgs =
     (if is_absolute then ''/'' @ join_segments sgs
      else if sgs = [] then ''.'' else join_segments sgs)"

definition normalized :: "string \<Rightarrow> string" where
  "normalized path =
     (let is_absolute = is_slash (hd path)
      in render is_absolute (canon is_absolute (path_segments path)))"


subsection \<open>The code computes the reference definition\<close>

lemma segment_is_dot_eq [simp]: "segment_is_dot s \<longleftrightarrow> s = ''.''"
  by (auto simp: segment_is_dot_def length_Suc_conv)

lemma segment_is_dotdot_eq [simp]: "segment_is_dotdot s \<longleftrightarrow> s = ''..''"
  by (auto simp: segment_is_dotdot_def length_Suc_conv numeral_2_eq_2)

definition pool_ok :: "norm_state \<Rightarrow> bool" where
  "pool_ok st \<longleftrightarrow> (\<forall>sg \<in> set (segments st). seg_offset sg + seg_len sg \<le> length (segment_pool st))"

definition texts :: "norm_state \<Rightarrow> string list" where
  "texts st = map (segment_text (segment_pool st)) (segments st)"

lemma texts_simps [simp]:
  "length (texts st) = length (segments st)"
  "texts st = [] \<longleftrightarrow> segments st = []"
  "texts (st \<lparr> segments := butlast (segments st) \<rparr>) = butlast (texts st)"
  "segments st \<noteq> [] \<Longrightarrow> last (texts st) = segment_text (segment_pool st) (last (segments st))"
  by (simp_all add: texts_def map_butlast last_map)

lemma texts_push: "pool_ok st \<Longrightarrow> texts (push_segment sg st) = texts st @ [sg]"
  by (auto simp: texts_def push_segment_def segment_text_def pool_ok_def)

lemma pool_ok_push: "pool_ok st \<Longrightarrow> pool_ok (push_segment sg st)"
  by (auto simp: pool_ok_def push_segment_def)

lemma pool_ok_pop: "pool_ok st \<Longrightarrow> pool_ok (st \<lparr> segments := butlast (segments st) \<rparr>)"
  by (auto simp: pool_ok_def dest: in_set_butlastD)

lemma normalize_scan_texts:
  "pool_ok st \<Longrightarrow> normalize_scan a path st = Some st' \<Longrightarrow>
   pool_ok st' \<and> texts st' = foldl (canon_step a) (texts st) (path_segments path)"
proof (induction a path st arbitrary: st' rule: normalize_scan.induct)
  case (1 a path st)
  show ?case
  proof (cases "next_segment path")
    case None
    then show ?thesis
      using "1.prems" by (simp add: normalize_scan.simps [of a path] path_segments.simps [of path])
  next
    case (Some p)
    obtain sg rest where p: "p = (sg, rest)" by force
    note ns = Some [unfolded p]
    have ps: "path_segments path = sg # path_segments rest"
      by (simp add: path_segments.simps [of path] ns)
    note step = normalize_scan.simps [of a path st, unfolded ns, simplified]
    consider (dot) "sg = ''.''"
      | (pop) "sg = ''..''" "segments st \<noteq> []" "last (texts st) \<noteq> ''..''"
      | (clamp) "sg = ''..''" "a" "segments st = [] \<or> last (texts st) = ''..''"
      | (push) "sg \<noteq> ''.''" "sg = ''..'' \<Longrightarrow> \<not> a \<and> (segments st = [] \<or> last (texts st) = ''..'')"
      by blast
    then show ?thesis
    proof cases
      case dot
      with "1.IH"(1) [OF ns refl] "1.prems" step show ?thesis by (simp add: ps)
    next
      case pop
      with "1.IH"(2) [OF ns refl] "1.prems" step show ?thesis by (simp add: ps pool_ok_pop)
    next
      case clamp
      then have "\<not> (segments st \<noteq> [] \<and> segment_text (segment_pool st) (last (segments st)) \<noteq> ''..'')"
        using texts_simps(4) [of st] by metis
      with clamp "1.IH"(3) [OF ns refl] "1.prems" step show ?thesis by (auto simp: ps)
    next
      case push
      then have "canon_step a (texts st) sg = texts st @ [sg]"
        by (cases "sg = ''..''") auto
      with push "1.IH"(4) [OF ns refl] "1.prems" step show ?thesis
        by (auto simp: ps texts_push pool_ok_push split: if_splits)
    qed
  qed
qed

lemma normalize_scan_total:
  "2 * length (segments st) \<le> length (segment_pool st) \<Longrightarrow>
   length (segment_pool st) + length path + (if path \<noteq> [] \<and> \<not> is_slash (hd path) then 1 else 0) \<le> 256
   \<Longrightarrow> normalize_scan a path st \<noteq> None"
proof (induction a path st rule: normalize_scan.induct)
  case (1 a path st)
  show ?case
  proof (cases "next_segment path")
    case None
    then show ?thesis by (simp add: normalize_scan.simps [of a path])
  next
    case (Some p)
    obtain sg rest where p: "p = (sg, rest)" by force
    note ns = Some [unfolded p]
    note step = normalize_scan.simps [of a path st, unfolded ns, simplified]
    from next_segment_SomeD [OF ns] obtain k where
      k: "path = replicate k (CHR ''/'') @ sg @ rest" and sg: "sg \<noteq> []" "CHR ''/'' \<notin> set sg"
      and rest: "rest = [] \<or> is_slash (hd rest)" by blast
    have hd: "k = 0 \<Longrightarrow> \<not> is_slash (hd path)"
      using sg by (cases sg) (auto simp: k)
    have budget: "length (segment_pool st) + length sg + 1 + length rest \<le> 256"
      using "1.prems"(2) hd sg(1) by (cases "k = 0") (auto simp: k split: if_splits)
    have sl: "1 \<le> length sg"
      using sg(1) by (cases sg) auto
    have fits: "\<not> (FS_PATH_MAX div 2 \<le> length (segments st) \<or> FS_PATH_MAX \<le> length sg \<or>
        FS_PATH_MAX < Suc (length (segment_pool st) + length sg))"
      using budget sl "1.prems"(1) by (auto simp: FS_PATH_MAX_def)
    have r0: "(if rest \<noteq> [] \<and> \<not> is_slash (hd rest) then 1 else 0) = (0 :: nat)"
      using rest by auto
    have small: "length (segment_pool st) + length rest \<le> 256"
      using budget by simp
    have pop: "2 * (length (segments st) - 1) \<le> length (segment_pool st)"
      using "1.prems"(1) by simp
    have pushed: "2 * length (segments (push_segment sg st)) \<le> length (segment_pool (push_segment sg st))"
      "length (segment_pool (push_segment sg st)) + length rest \<le> 256"
      using "1.prems"(1) budget sl by (auto simp: push_segment_def)
    show ?thesis
      using "1.IH" [OF ns refl] "1.prems"(1) small pop pushed fits r0
      by (simp add: step)
  qed
qed

lemma join_segments_Cons: "sgs \<noteq> [] \<Longrightarrow> join_segments (sg # sgs) = sg @ ''/'' @ join_segments sgs"
  by (cases sgs) auto

lemma emit_segments_eq:
  "sgs \<noteq> [] \<Longrightarrow>
   emit_segments n out first sgs =
     (let q = out @ (if first then [] else ''/'') @ join_segments sgs
      in if length q + 1 \<le> n then Some q else None)"
proof (induction sgs arbitrary: out first)
  case Nil
  then show ?case by simp
next
  case (Cons sg sgs)
  show ?case
  proof (cases "sgs = []")
    case True
    then show ?thesis by (auto simp: Let_def)
  next
    case False
    then show ?thesis
      using Cons.IH [of "(if first then out else out @ ''/'') @ sg" False]
      by (cases first) (auto simp: Let_def join_segments_Cons)
  qed
qed

lemma canon_via_scan:
  assumes "normalize_scan a path \<lparr> segments = [], segment_pool = [] \<rparr> = Some st"
  shows "map (segment_text (segment_pool st)) (segments st) = canon a (path_segments path)"
  using normalize_scan_texts [OF _ assms] by (simp add: pool_ok_def texts_def canon_def)

lemma fs_path_normalize_cases:
  assumes "path \<noteq> []"
  shows "fs_path_normalize path n = None \<and>
      normalize_scan (is_slash (hd path)) path \<lparr> segments = [], segment_pool = [] \<rparr> = None
    \<or> fs_path_normalize path n =
      (if length (normalized path) + 1 \<le> n then Some (normalized path) else None)"
proof (cases "normalize_scan (is_slash (hd path)) path \<lparr> segments = [], segment_pool = [] \<rparr>")
  case None
  then show ?thesis by (simp add: fs_path_normalize_def Let_def)
next
  case (Some st)
  note canon = canon_via_scan [OF Some]
  have e: "segments st = [] \<longleftrightarrow> canon (is_slash (hd path)) (path_segments path) = []"
    using canon by auto
  show ?thesis
  proof (cases "segments st = []")
    case True
    then show ?thesis
      using e assms Some by (auto simp: fs_path_normalize_def Let_def normalized_def render_def)
  next
    case False
    then show ?thesis
      using e assms Some
      by (auto simp: fs_path_normalize_def Let_def normalized_def render_def canon emit_segments_eq)
  qed
qed

lemma fs_path_normalize_Some:
  "fs_path_normalize path n = Some q \<Longrightarrow> path \<noteq> [] \<and> q = normalized path \<and> length q + 1 \<le> n"
  using fs_path_normalize_cases [of path n]
  by (cases "path = []") (auto simp: fs_path_normalize_def split: if_splits)

lemma fs_path_normalize_short:
  assumes "path \<noteq> []" "length path < 256"
  shows "fs_path_normalize path n =
    (if length (normalized path) + 1 \<le> n then Some (normalized path) else None)"
  using fs_path_normalize_cases [OF assms(1), of n] assms
    normalize_scan_total [of "\<lparr> segments = [], segment_pool = [] \<rparr>" path "is_slash (hd path)"]
  by auto


subsection \<open>Normal forms\<close>

definition name_ok :: "string \<Rightarrow> bool" where
  "name_ok s \<longleftrightarrow> s \<noteq> [] \<and> CHR ''/'' \<notin> set s"

definition dir_name :: "string \<Rightarrow> bool" where
  \<comment> \<open>a name that denotes a directory entry: neither \<open>.\<close> nor \<open>..\<close>\<close>
  "dir_name s \<longleftrightarrow> name_ok s \<and> s \<noteq> ''.'' \<and> s \<noteq> ''..''"

lemma path_segments_ok: "set (path_segments path) \<subseteq> Collect name_ok"
proof (induction path rule: path_segments.induct)
  case (1 path)
  show ?case
  proof (cases "next_segment path")
    case None
    then show ?thesis by (simp add: path_segments.simps [of path])
  next
    case (Some p)
    obtain sg rest where p: "p = (sg, rest)" by force
    have "name_ok sg"
      using next_segment_SomeD [OF Some [unfolded p]] by (auto simp: name_ok_def)
    then show ?thesis
      using "1.IH" [OF Some p [symmetric]] by (simp add: path_segments.simps [of path] Some p)
  qed
qed

lemma dropWhile_replicate_append:
  "dropWhile is_slash (replicate k (CHR ''/'') @ xs) = dropWhile is_slash xs"
  by (induction k) auto

lemma next_segment_skip: "next_segment (CHR ''/'' # p) = next_segment p"
  by (simp add: next_segment_def)

lemma next_segment_name:
  "name_ok sg \<Longrightarrow> next_segment (sg @ CHR ''/'' # p) = Some (sg, CHR ''/'' # p)"
  "name_ok sg \<Longrightarrow> next_segment sg = Some (sg, [])"
  by (cases sg; auto simp: next_segment_def name_ok_def Let_def takeWhile_append dropWhile_append
      takeWhile_eq_all_conv)+

lemma path_segments_skip [simp]: "path_segments (CHR ''/'' # p) = path_segments p"
  by (subst (1 2) path_segments.simps) (simp add: next_segment_skip)

lemma path_segments_Nil [simp]: "path_segments [] = []"
  by (subst path_segments.simps) (simp add: next_segment_def)

lemma path_segments_name [simp]:
  "name_ok sg \<Longrightarrow> path_segments (sg @ CHR ''/'' # p) = sg # path_segments p"
  "name_ok sg \<Longrightarrow> path_segments sg = [sg]"
  by (subst path_segments.simps, simp add: next_segment_name)+

lemma path_segments_join:
  "set sgs \<subseteq> Collect name_ok \<Longrightarrow> path_segments (join_segments sgs) = sgs"
  by (induction sgs rule: join_segments.induct) auto

lemma path_segments_join_append:
  "set sgs \<subseteq> Collect name_ok \<Longrightarrow> path_segments (join_segments sgs @ CHR ''/'' # p) = sgs @ path_segments p"
  by (induction sgs rule: join_segments.induct) auto

lemma canon_Nil [simp]: "canon a [] = []"
  by (simp add: canon_def)

lemma canon_append: "canon a (xs @ ys) = foldl (canon_step a) (canon a xs) ys"
  by (simp add: canon_def)

lemma canon_snoc: "canon a (xs @ [x]) = canon_step a (canon a xs) x"
  by (simp add: canon_def)

lemma canon_names: "set sgs \<subseteq> Collect name_ok \<Longrightarrow> set (canon a sgs) \<subseteq> Collect name_ok"
  by (induction sgs rule: rev_induct)
    (auto simp: canon_snoc canon_step.simps dest!: in_set_butlastD split: if_splits)

lemma canon_abs_names: "set sgs \<subseteq> Collect name_ok \<Longrightarrow> set (canon True sgs) \<subseteq> Collect dir_name"
proof (induction sgs rule: rev_induct)
  case Nil
  then show ?case by simp
next
  case (snoc x xs)
  then show ?case
    by (auto simp: canon_snoc canon_step.simps dir_name_def dest!: in_set_butlastD split: if_splits)
qed

text \<open>The shape of a relative normal form: parent references first, then plain names.\<close>

lemma canon_rel_shape:
  "set sgs \<subseteq> Collect name_ok \<Longrightarrow>
   \<exists>k ds. canon False sgs = replicate k ''..'' @ ds \<and> set ds \<subseteq> Collect dir_name"
proof (induction sgs rule: rev_induct)
  case Nil
  then show ?case by simp
next
  case (snoc x xs)
  then obtain k ds where c: "canon False xs = replicate k ''..'' @ ds" and d: "set ds \<subseteq> Collect dir_name"
    by auto
  show ?case
  proof (cases "x = ''..''")
    case False
    show ?thesis
    proof (cases "x = ''.''")
      case True
      then show ?thesis using c d by (auto simp: canon_snoc)
    next
      case f: False
      then have "canon False (xs @ [x]) = replicate k ''..'' @ (ds @ [x])"
        using c False by (simp add: canon_snoc)
      moreover have "set (ds @ [x]) \<subseteq> Collect dir_name"
        using d snoc.prems False f by (auto simp: dir_name_def)
      ultimately show ?thesis by blast
    qed
  next
    case True
    show ?thesis
    proof (cases ds rule: rev_cases)
      case Nil
      then have "canon False (xs @ [x]) = replicate (Suc k) ''..'' @ []"
        using c True by (auto simp: canon_snoc replicate_append_same last_replicate)
      then show ?thesis by (metis empty_set empty_subsetI)
    next
      case (snoc es e)
      then have "canon False (xs @ [x]) = replicate k ''..'' @ es"
        using c d True by (auto simp: canon_snoc dir_name_def butlast_append)
      then show ?thesis using d snoc by auto
    qed
  qed
qed

lemma canon_dir_names: "set ds \<subseteq> Collect dir_name \<Longrightarrow> foldl (canon_step a) acc ds = acc @ ds"
  by (induction ds arbitrary: acc) (auto simp: dir_name_def)

lemma canon_dotdots: "canon False (replicate k ''..'') = replicate k ''..''"
proof (induction k)
  case 0
  show ?case by simp
next
  case (Suc k)
  have "replicate (Suc k) ''..'' = replicate k ''..'' @ [''..'']"
    by (simp add: replicate_append_same)
  then have "canon False (replicate (Suc k) ''..'') = canon_step False (replicate k ''..'') ''..''"
    by (simp only: canon_snoc Suc)
  also have "\<dots> = replicate k ''..'' @ [''..'']"
    by (cases "k = 0") (simp_all add: last_replicate)
  finally show ?case
    by (simp add: replicate_append_same)
qed

lemma canon_idem: "set sgs \<subseteq> Collect name_ok \<Longrightarrow> canon a (canon a sgs) = canon a sgs"
proof (cases a)
  case True
  assume "set sgs \<subseteq> Collect name_ok"
  with True show ?thesis
    using canon_dir_names [OF canon_abs_names, of sgs a "[]"] by (simp add: canon_def)
next
  case False
  assume "set sgs \<subseteq> Collect name_ok"
  then obtain k ds where "canon False sgs = replicate k ''..'' @ ds" "set ds \<subseteq> Collect dir_name"
    using canon_rel_shape by blast
  with False show ?thesis
    by (simp add: canon_append canon_dotdots canon_dir_names)
qed


subsection \<open>Rendering a list of names\<close>

definition weight :: "string list \<Rightarrow> nat" where
  "weight sgs = (\<Sum>sg \<leftarrow> sgs. length sg + 1)"

lemma weight_simps [simp]:
  "weight [] = 0" "weight (sg # sgs) = length sg + 1 + weight sgs"
  "weight (xs @ ys) = weight xs + weight ys"
  by (simp_all add: weight_def)

lemma length_join: "sgs \<noteq> [] \<Longrightarrow> length (join_segments sgs) + 1 = weight sgs"
  by (induction sgs rule: join_segments.induct) auto

lemma length_render_abs: "length (render True sgs) = max 1 (weight sgs)"
  using length_join [of sgs] by (cases "sgs = []") (auto simp: render_def)

lemma length_render_rel: "length (render False sgs) \<le> max 1 (weight sgs - 1)"
  using length_join [of sgs] by (cases "sgs = []") (auto simp: render_def)

lemma weight_butlast: "weight (butlast sgs) \<le> weight sgs"
  by (cases sgs rule: rev_cases) auto

lemma weight_canon_step: "weight (canon_step a acc sg) \<le> weight acc + length sg + 1"
  using weight_butlast [of acc] by (auto simp: canon_step.simps)

lemma weight_foldl_canon: "weight (foldl (canon_step a) acc sgs) \<le> weight acc + weight sgs"
proof (induction sgs arbitrary: acc)
  case Nil
  show ?case by simp
next
  case (Cons sg sgs)
  show ?case
    using Cons.IH [of "canon_step a acc sg"] weight_canon_step [of a acc sg] by simp
qed

lemma weight_canon: "weight (canon a sgs) \<le> weight sgs"
  using weight_foldl_canon [of a "[]" sgs] by (simp add: canon_def)

lemma weight_path_segments:
  "weight (path_segments path) \<le> length path + (if path \<noteq> [] \<and> \<not> is_slash (hd path) then 1 else 0)"
proof (induction path rule: path_segments.induct)
  case (1 path)
  show ?case
  proof (cases "next_segment path")
    case None
    then show ?thesis by (simp add: path_segments.simps [of path])
  next
    case (Some p)
    obtain sg rest where p: "p = (sg, rest)" by force
    from next_segment_SomeD [OF Some [unfolded p]] obtain k where
      k: "path = replicate k (CHR ''/'') @ sg @ rest" "sg \<noteq> []" "CHR ''/'' \<notin> set sg"
      "rest = [] \<or> is_slash (hd rest)" by blast
    have "k = 0 \<Longrightarrow> path \<noteq> [] \<and> \<not> is_slash (hd path)"
      using k by (cases sg) auto
    moreover have "length path = k + length sg + length rest"
      using k by simp
    moreover have "path_segments path = sg # path_segments rest"
      by (simp add: path_segments.simps [of path] Some p)
    moreover have "weight (path_segments rest) \<le> length rest"
      using "1.IH" [OF Some p [symmetric]] k(4) by (auto split: if_splits)
    ultimately show ?thesis
      by (cases "k = 0") simp_all
  qed
qed

lemma length_normalized: "path \<noteq> [] \<Longrightarrow> length (normalized path) \<le> length path"
  using weight_path_segments [of path] weight_canon [of True "path_segments path"]
    weight_canon [of False "path_segments path"]
    length_render_abs [of "canon True (path_segments path)"]
    length_render_rel [of "canon False (path_segments path)"]
  by (cases path) (auto simp: normalized_def Let_def split: if_splits)

lemma render_abs_simps [simp]:
  "render True sgs \<noteq> []" "hd (render True sgs) = CHR ''/''"
  "set sgs \<subseteq> Collect name_ok \<Longrightarrow> path_segments (render True sgs) = sgs"
  by (simp_all add: render_def path_segments_join)

lemma render_rel_simps:
  assumes "set sgs \<subseteq> Collect name_ok"
  shows "render False sgs \<noteq> []" "hd (render False sgs) \<noteq> CHR ''/''"
    "path_segments (render False sgs) = (if sgs = [] then [''.''] else sgs)"
proof -
  have "path_segments ''.'' = [''.'']"
    by (rule path_segments_name) (simp add: name_ok_def)
  then show "path_segments (render False sgs) = (if sgs = [] then [''.''] else sgs)"
    using assms by (simp add: render_def path_segments_join)
  show "render False sgs \<noteq> []" "hd (render False sgs) \<noteq> CHR ''/''"
    using assms
    by (induction sgs rule: join_segments.induct)
      (auto simp: render_def name_ok_def hd_append neq_Nil_conv)
qed

lemma normalized_nonempty: "path \<noteq> [] \<Longrightarrow> normalized path \<noteq> []"
  using render_rel_simps(1) [OF canon_names [OF path_segments_ok], of False path]
  by (cases "is_slash (hd path)") (auto simp: normalized_def Let_def)

lemma normalized_abs:
  "path \<noteq> [] \<Longrightarrow> is_slash (hd path) \<Longrightarrow> normalized path = render True (canon True (path_segments path))"
  by (simp add: normalized_def)

lemma normalized_slash_iff:
  "path \<noteq> [] \<Longrightarrow> is_slash (hd (normalized path)) \<longleftrightarrow> is_slash (hd path)"
  using render_rel_simps(2) [OF canon_names [OF path_segments_ok], of False path]
  by (cases "is_slash (hd path)") (auto simp: normalized_def Let_def)

definition abs_dirs :: "string list \<Rightarrow> bool" where
  "abs_dirs ds \<longleftrightarrow> set ds \<subseteq> Collect dir_name"

lemma abs_dirs_names: "abs_dirs ds \<Longrightarrow> set ds \<subseteq> Collect name_ok"
  by (auto simp: abs_dirs_def dir_name_def)

lemma canon_abs_dirs: "abs_dirs ds \<Longrightarrow> canon True ds = ds"
  by (simp add: abs_dirs_def canon_def canon_dir_names)

lemma normalized_render: "abs_dirs ds \<Longrightarrow> normalized (render True ds) = render True ds"
  by (simp add: normalized_def abs_dirs_names canon_abs_dirs)

lemma normalized_idem:
  assumes "path \<noteq> []"
  shows "normalized (normalized path) = normalized path"
proof (cases "is_slash (hd path)")
  case True
  then show ?thesis
    using normalized_render [of "canon True (path_segments path)"] canon_abs_names [OF path_segments_ok]
    by (simp add: normalized_abs [OF assms] abs_dirs_def)
next
  case False
  let ?c = "canon False (path_segments path)"
  have "canon False (if ?c = [] then [''.''] else ?c) = ?c"
    using canon_idem [OF path_segments_ok, of False path] canon_snoc [of False "[]" "''.''"] by simp
  moreover have "normalized path = render False ?c"
    using False by (simp add: normalized_def)
  ultimately show ?thesis
    using render_rel_simps [OF canon_names [OF path_segments_ok], of False path]
    by (simp add: normalized_def [of "render False ?c"])
qed

lemma render_inj: "abs_dirs ds \<Longrightarrow> abs_dirs es \<Longrightarrow> render True ds = render True es \<longleftrightarrow> ds = es"
  by (metis abs_dirs_names render_abs_simps(3))

lemma render_root_iff: "abs_dirs ds \<Longrightarrow> render True ds = ''/'' \<longleftrightarrow> ds = []"
  using render_inj [of ds "[]"] by (simp add: render_def abs_dirs_def)

definition resolve_names :: "string list \<Rightarrow> string \<Rightarrow> string list" where
  \<comment> \<open>the directory a path names, seen from the directory \<open>ds\<close>\<close>
  "resolve_names ds path =
     (if path \<noteq> [] \<and> is_slash (hd path) then canon True (path_segments path)
      else foldl (canon_step True) ds (path_segments path))"

lemma foldl_canon_abs:
  "abs_dirs acc \<Longrightarrow> set sgs \<subseteq> Collect name_ok \<Longrightarrow> abs_dirs (foldl (canon_step True) acc sgs)"
  by (induction sgs arbitrary: acc)
    (auto simp: canon_step.simps abs_dirs_def dir_name_def dest!: in_set_butlastD)

lemma resolve_names_dirs: "abs_dirs ds \<Longrightarrow> abs_dirs (resolve_names ds path)"
  using path_segments_ok [of path]
  by (auto simp: resolve_names_def canon_def intro!: foldl_canon_abs) (auto simp: abs_dirs_def)


subsection \<open>Resolution against a current directory\<close>

lemma normalize_render:
  "abs_dirs ds \<Longrightarrow> length (render True ds) < 256 \<Longrightarrow>
   fs_path_normalize (render True ds) n =
     (if length (render True ds) + 1 \<le> n then Some (render True ds) else None)"
  using fs_path_normalize_short [of "render True ds" n] by (simp add: normalized_render)

lemma normalized_joined:
  assumes "abs_dirs ds" "path \<noteq> []" "\<not> is_slash (hd path)"
  shows "normalized (if render True ds = ''/'' then ''/'' @ path else render True ds @ ''/'' @ path)
    = render True (resolve_names ds path)"
proof -
  have "path_segments (if render True ds = ''/'' then ''/'' @ path else render True ds @ ''/'' @ path)
      = ds @ path_segments path"
    using assms(1) path_segments_join_append [OF abs_dirs_names [OF assms(1)], of path]
    by (cases ds) (auto simp: render_root_iff render_def)
  then show ?thesis
    using assms
    by (auto simp: normalized_def Let_def resolve_names_def canon_append canon_abs_dirs
        split: if_splits)
qed

lemma fs_path_resolve_unfold:
  assumes "abs_dirs ds" "length (render True ds) < 256"
  shows "fs_path_resolve (render True ds) path n =
    (if n = 0 then None
     else if path \<noteq> [] \<and> is_slash (hd path) then fs_path_normalize path n
     else if path = [] then fs_path_normalize (render True ds) n
     else if length (render True ds) + length path + 2 > FS_PATH_MAX then None
     else fs_path_normalize
       (if render True ds = ''/'' then ''/'' @ path else render True ds @ ''/'' @ path) n)"
  using assms by (simp add: fs_path_resolve_def normalize_render FS_PATH_MAX_def)

lemma fs_path_resolve_Some:
  assumes "abs_dirs ds" "length (render True ds) < 256"
    and "fs_path_resolve (render True ds) path n = Some q"
  shows "q = render True (resolve_names ds path) \<and> length q + 1 \<le> n"
proof -
  consider (abs) "path \<noteq> []" "is_slash (hd path)" | (nil) "path = []"
    | (rel) "path \<noteq> []" "\<not> is_slash (hd path)" by blast
  then show ?thesis
  proof cases
    case abs
    then show ?thesis
      using assms fs_path_normalize_Some [of path n q]
      by (auto simp: fs_path_resolve_unfold normalized_def resolve_names_def split: if_splits)
  next
    case nil
    then show ?thesis
      using assms by (auto simp: fs_path_resolve_unfold normalize_render resolve_names_def split: if_splits)
  next
    case rel
    let ?j = "if render True ds = ''/'' then ''/'' @ path else render True ds @ ''/'' @ path"
    have "fs_path_normalize ?j n = Some q"
      using assms rel by (simp add: fs_path_resolve_unfold split: if_splits)
    then have "q = normalized ?j" "length q + 1 \<le> n"
      using fs_path_normalize_Some [of ?j n q] by blast+
    then show ?thesis
      unfolding normalized_joined [OF assms(1) rel] by simp
  qed
qed

lemma fs_path_resolve_fits:
  assumes "abs_dirs ds" "length (render True ds) + length path + 2 \<le> 256"
  shows "fs_path_resolve (render True ds) path 256 = Some (render True (resolve_names ds path))"
proof -
  consider (abs) "path \<noteq> []" "is_slash (hd path)" | (nil) "path = []"
    | (rel) "path \<noteq> []" "\<not> is_slash (hd path)" by blast
  then show ?thesis
  proof cases
    case abs
    then show ?thesis
      using assms fs_path_normalize_short [OF abs(1), of 256] length_normalized [OF abs(1)]
      by (simp add: fs_path_resolve_unfold normalized_abs resolve_names_def)
  next
    case nil
    then show ?thesis
      using assms by (simp add: fs_path_resolve_unfold normalize_render resolve_names_def)
  next
    case rel
    let ?j = "if render True ds = ''/'' then ''/'' @ path else render True ds @ ''/'' @ path"
    have j: "?j \<noteq> []" "length ?j < 256"
      using assms(2) by auto
    show ?thesis
      using assms rel fs_path_normalize_short [OF j, of 256] length_normalized [OF j(1)] j(2)
        normalized_joined [OF assms(1) rel]
      by (simp add: fs_path_resolve_unfold FS_PATH_MAX_def)
  qed
qed

lemma resolve_cwd_abs:
  assumes "fs_path_resolve cwd path n = Some q"
  shows "\<exists>ds. abs_dirs ds \<and> length (render True ds) < 256 \<and>
    fs_path_resolve (render True ds) path n = Some q"
proof -
  from assms obtain c where c: "fs_path_normalize cwd 256 = Some c" "is_slash (hd c)"
    by (auto simp: fs_path_resolve_def FS_PATH_MAX_def split: option.splits if_splits)
  note n = fs_path_normalize_Some [OF c(1)]
  let ?ds = "canon True (path_segments cwd)"
  have "c = render True ?ds" "abs_dirs ?ds"
    using n c(2) normalized_slash_iff [of cwd] canon_abs_names [OF path_segments_ok]
    by (auto simp: normalized_abs abs_dirs_def)
  moreover have "fs_path_normalize c 256 = Some c"
    using normalize_render [of ?ds 256] calculation n by auto
  then have "fs_path_resolve c path n = fs_path_resolve cwd path n"
    unfolding fs_path_resolve_def FS_PATH_MAX_def c(1) by simp
  ultimately show ?thesis
    using assms n by (intro exI [of _ ?ds]) auto
qed

subsection \<open>Properties\<close>

text \<open>
  C30: \<open>fs_path_normalize\<close> is the reference normalisation. On every non-empty path that
  fits a \<open>FS_PATH_MAX\<close> buffer the scan with its fixed segment table and pool never runs out
  of room, and the result is the string that renders the path's names after dropping \<open>.\<close> and
  cancelling \<open>..\<close>, rejected exactly when it does not fit \<open>out_len\<close>; it always fits
  \<open>FS_PATH_MAX\<close>.
\<close>
theorem fs_path_normalize_correct:
  assumes "path \<noteq> []" and "length path < FS_PATH_MAX"
  shows "fs_path_normalize path n =
      (if length (normalized path) + 1 \<le> n then Some (normalized path) else None)
    \<and> fs_path_normalize path FS_PATH_MAX = Some (normalized path)"
proof -
  have "length path < 256"
    using assms(2) by (simp add: FS_PATH_MAX_def)
  then show ?thesis
    using fs_path_normalize_short [OF assms(1)] length_normalized [OF assms(1)]
    by (simp add: FS_PATH_MAX_def)
qed

theorem fs_path_normalize_correct_witness:
  "fs_path_normalize ''//usr///local/../bin/.//'' 256 = Some ''/usr/bin''"
proof -
  let ?p = "''//usr///local/../bin/.//''"
  have "normalized ?p = ''/usr/bin''"
    by (simp add: normalized_def path_segments.simps next_segment_def canon_def canon_step.simps
        render_def)
  then show ?thesis
    using fs_path_normalize_correct [of ?p 256] by (simp add: FS_PATH_MAX_def)
qed

text \<open>
  normal forms are stable. Normalising a result of \<open>fs_path_normalize\<close> again, with any
  buffer size up to \<open>FS_PATH_MAX\<close> that held it, returns it unchanged.
\<close>
theorem fs_path_normalize_idempotent:
  assumes "fs_path_normalize path n = Some q" and "n \<le> FS_PATH_MAX"
  shows "fs_path_normalize q n = Some q"
proof -
  have p: "path \<noteq> []" "q = normalized path" "length q + 1 \<le> n"
    using fs_path_normalize_Some [OF assms(1)] by blast+
  then have "length q < 256"
    using assms(2) by (simp add: FS_PATH_MAX_def)
  then show ?thesis
    using fs_path_normalize_short [of q n] p normalized_idem [OF p(1)] normalized_nonempty [OF p(1)]
    by simp
qed

theorem fs_path_normalize_idempotent_witness:
  "fs_path_normalize ''../x'' 16 = Some ''../x''"
proof -
  have "fs_path_normalize ''a/../../x/.'' 16 = Some ''../x''"
    by (simp add: fs_path_normalize_def normalize_scan.simps next_segment_def push_segment_def
        segment_text_def FS_PATH_MAX_def)
  then show ?thesis
    by (rule fs_path_normalize_idempotent) (simp add: FS_PATH_MAX_def)
qed

text \<open>
  resolution clamps at the root. Whatever the strings, a path that \<open>fs_path_resolve\<close>
  returns is absolute, in normal form and without \<open>.\<close> or \<open>..\<close> components, and fits the
  buffer.
\<close>
theorem fs_path_resolve_absolute:
  assumes "fs_path_resolve cwd path n = Some q"
  shows "\<exists>ds. q = render True ds \<and> abs_dirs ds \<and> normalized q = q \<and> length q < n"
proof -
  obtain ds where ds: "abs_dirs ds" "length (render True ds) < 256"
    "fs_path_resolve (render True ds) path n = Some q"
    using resolve_cwd_abs [OF assms] by blast
  have "q = render True (resolve_names ds path) \<and> length q + 1 \<le> n"
    by (rule fs_path_resolve_Some [OF ds])
  then show ?thesis
    using resolve_names_dirs [OF ds(1)] normalized_render by (metis Suc_eq_plus1 Suc_le_lessD)
qed

theorem fs_path_resolve_absolute_witness:
  "\<exists>ds. ''/'' = render True ds \<and> abs_dirs ds \<and> normalized ''/'' = ''/'' \<and> length ''/'' < (256 :: nat)"
proof (rule fs_path_resolve_absolute)
  show "fs_path_resolve ''/'' ''../../..'' 256 = Some ''/''"
    by (simp add: fs_path_resolve_def fs_path_normalize_def normalize_scan.simps next_segment_def
        FS_PATH_MAX_def)
qed

text \<open>
  C35: what resolution computes. From a current directory given by its list of names, a path
  that fits beside it in \<open>FS_PATH_MAX\<close> resolves to the names of the path alone when it is
  absolute, and otherwise to the directory's names continued by the path, with \<open>..\<close> going up
  one level and stopping at the root.
\<close>
theorem fs_path_resolve_correct:
  assumes "abs_dirs ds" and "length (render True ds) + length path + 2 \<le> FS_PATH_MAX"
  shows "fs_path_resolve (render True ds) path FS_PATH_MAX = Some (render True (resolve_names ds path))"
  using assms fs_path_resolve_fits [of ds path] by (simp add: FS_PATH_MAX_def)

theorem fs_path_resolve_correct_witness:
  "fs_path_resolve ''/usr/local'' ''../../var//log/'' 256 = Some ''/var/log''"
proof -
  have d: "abs_dirs [''usr'', ''local'']"
    by (simp add: abs_dirs_def dir_name_def name_ok_def)
  have "render True (resolve_names [''usr'', ''local''] ''../../var//log/'') = ''/var/log''"
    by (simp add: resolve_names_def path_segments.simps next_segment_def canon_step.simps render_def)
  then show ?thesis
    using fs_path_resolve_correct [OF d, of "''../../var//log/''"] by (simp add: FS_PATH_MAX_def render_def)
qed

end
