(* ===== verification/FsDir.thy ===== *)
theory FsDir
  imports FsPath "HOL-Library.Monad_Syntax" "HOL-Library.Sublist" "HOL-Library.Char_ord" "HOL-Library.List_Lexorder"
begin

text \<open>
  The directory tree, \<open>fs/dir.c\<close>: nodes in an array of 128, linked by \<open>parent\<close>,
  \<open>first_child\<close> and \<open>next_sibling\<close> indices with \<open>-1\<close> for "none", the children of a
  directory kept sorted by name. The loops that follow sibling links are partial functions:
  \<open>None\<close> means that the loop never ends (the links form a cycle), and every operation that
  runs such a loop returns its result under an outer option. An inner \<open>None\<close> or a status
  \<open>-1\<close> is the error return of the code; the tree is returned updated, on the error paths
  too. \<open>used\<close> is only ever written 0 or 1 and tested against 0, so it is a truth value;
  \<open>node_count\<close> stays at or below 128.
\<close>

definition FS_DIR_NAME_MAX :: nat where "FS_DIR_NAME_MAX = 31"
definition FS_DIR_MAX_NODES :: nat where "FS_DIR_MAX_NODES = 128"

record fs_dir_node =
  node_name :: string
  parent :: int
  first_child :: int
  next_sibling :: int
  used :: bool

record fs_dir_tree =
  nodes :: "fs_dir_node list"
  node_count :: nat
  cwd_index :: int

abbreviation node :: "fs_dir_tree \<Rightarrow> int \<Rightarrow> fs_dir_node" where
  "node tree i \<equiv> nodes tree ! nat i"

definition update_node :: "int \<Rightarrow> (fs_dir_node \<Rightarrow> fs_dir_node) \<Rightarrow> fs_dir_tree \<Rightarrow> fs_dir_tree" where
  "update_node i f tree = tree \<lparr> nodes := (nodes tree)[nat i := f (node tree i)] \<rparr>"

subsection \<open>The operations\<close>

text \<open>Characters are compared as unsigned bytes; past the end of a string stands its NUL.\<close>

fun dir_strcmp :: "string \<Rightarrow> string \<Rightarrow> int" where
  "dir_strcmp [] [] = 0"
| "dir_strcmp [] (y # ys) = 0 - of_char y"
| "dir_strcmp (x # xs) [] = of_char x - 0"
| "dir_strcmp (x # xs) (y # ys) = (if x \<noteq> y then of_char x - of_char y else dir_strcmp xs ys)"

definition valid_tree :: "fs_dir_tree \<Rightarrow> bool" where
  "valid_tree tree \<longleftrightarrow> \<not> (node_count tree = 0 \<or> node_count tree > FS_DIR_MAX_NODES \<or>
     cwd_index tree < 0 \<or> cwd_index tree \<ge> int (node_count tree) \<or>
     \<not> used (node tree (cwd_index tree)) \<or> \<not> used (node tree 0))"

partial_function (option) find_child_scan :: "fs_dir_tree \<Rightarrow> string \<Rightarrow> int \<Rightarrow> int option" where
  "find_child_scan tree name cur =
     (if cur \<ge> 0 then
        if used (node tree cur) \<and> dir_strcmp (node_name (node tree cur)) name = 0 then Some cur
        else find_child_scan tree name (next_sibling (node tree cur))
      else Some (- 1))"

definition find_child :: "fs_dir_tree \<Rightarrow> int \<Rightarrow> string \<Rightarrow> int option" where
  "find_child tree parent_index name =
     find_child_scan tree name (first_child (node tree parent_index))"

definition zero_node :: fs_dir_node where
  "zero_node = \<lparr> node_name = [], parent = 0, first_child = 0, next_sibling = 0, used = False \<rparr>"

definition alloc_node :: "fs_dir_tree \<Rightarrow> int \<times> fs_dir_tree" where
  "alloc_node tree =
     (if node_count tree \<ge> FS_DIR_MAX_NODES then (- 1, tree)
      else
        let idx = int (node_count tree);
            fresh = zero_node \<lparr> used := True, parent := - 1, first_child := - 1,
                                next_sibling := - 1 \<rparr>
        in (idx, (update_node idx (\<lambda>_. fresh) tree) \<lparr> node_count := node_count tree + 1 \<rparr>))"

partial_function (option) insert_scan ::
  "fs_dir_tree \<Rightarrow> int \<Rightarrow> int \<Rightarrow> int \<Rightarrow> int option" where
  "insert_scan tree child_index prev cur =
     (if cur \<ge> 0 \<and> dir_strcmp (node_name (node tree cur)) (node_name (node tree child_index)) < 0
      then insert_scan tree child_index cur (next_sibling (node tree cur))
      else Some prev)"

definition insert_child_sorted :: "fs_dir_tree \<Rightarrow> int \<Rightarrow> int \<Rightarrow> fs_dir_tree option" where
  "insert_child_sorted tree parent_index child_index =
     do {
       prev \<leftarrow> insert_scan tree child_index (- 1) (first_child (node tree parent_index));
       Some
         (if prev < 0 then
            let tree = update_node child_index
                  (next_sibling_update (\<lambda>_. first_child (node tree parent_index))) tree
            in update_node parent_index (first_child_update (\<lambda>_. child_index)) tree
          else
            let tree = update_node child_index
                  (next_sibling_update (\<lambda>_. next_sibling (node tree prev))) tree
            in update_node prev (next_sibling_update (\<lambda>_. child_index)) tree)
     }"

text \<open>\<open>path_from_index\<close>: the way up to the root on a stack (its top is the head of the
  list), then the names downwards. Both loops are bounded by the stack's capacity.\<close>

function stack_up :: "fs_dir_tree \<Rightarrow> int \<Rightarrow> int list \<Rightarrow> int list option" where
  "stack_up tree cur stack =
     (if cur > 0 then
        if length stack \<ge> FS_DIR_MAX_NODES then None
        else let up = parent (node tree cur) in
          if up < 0 \<or> up \<ge> int (node_count tree) \<or> \<not> used (node tree up) then None
          else stack_up tree up (cur # stack)
      else Some stack)"
  by pat_completeness auto
termination
  by (relation "measure (\<lambda>(tree, cur, stack). FS_DIR_MAX_NODES - length stack)") auto

fun emit_names :: "fs_dir_tree \<Rightarrow> nat \<Rightarrow> string \<Rightarrow> int list \<Rightarrow> string option" where
  "emit_names tree out_len out [] = Some out"
| "emit_names tree out_len out (i # stack) =
     (let name = node_name (node tree i) in
      if length name = 0 \<or> length name > FS_DIR_NAME_MAX \<or>
         length out + length name + 1 > out_len then None
      else
        let out = out @ name in
        if stack \<noteq> [] then
          (if length out + 2 > out_len then None
           else emit_names tree out_len (out @ ''/'') stack)
        else emit_names tree out_len out stack)"

definition path_from_index :: "fs_dir_tree \<Rightarrow> int \<Rightarrow> nat \<Rightarrow> string option" where
  "path_from_index tree index out_len =
     (if \<not> valid_tree tree \<or> out_len = 0 \<or> index < 0 \<or> index \<ge> int (node_count tree) \<or>
         \<not> used (node tree index) then None
      else if index = 0 then (if out_len < 2 then None else Some ''/'')
      else case stack_up tree index [] of
        None \<Rightarrow> None
      | Some stack \<Rightarrow>
          if out_len < 2 then None else emit_names tree out_len ''/'' stack)"

definition resolve_path :: "fs_dir_tree \<Rightarrow> string \<Rightarrow> nat \<Rightarrow> string option" where
  "resolve_path tree path len =
     (if \<not> valid_tree tree \<or> len = 0 then None
      else case path_from_index tree (cwd_index tree) FS_PATH_MAX of
        None \<Rightarrow> None
      | Some cwd \<Rightarrow> fs_path_resolve cwd path len)"

text \<open>The component loops of \<open>lookup_absolute\<close> and \<open>mkdir_internal\<close>, on the rest of the path.\<close>

abbreviation component :: "string \<Rightarrow> string" where
  "component rest \<equiv> takeWhile (\<lambda>c. \<not> is_slash c) rest"

abbreviation after_component :: "string \<Rightarrow> string" where
  "after_component rest \<equiv> dropWhile (\<lambda>c. \<not> is_slash c) rest"

lemma after_component_shorter:
  "component rest \<noteq> [] \<Longrightarrow> length (drop 1 (after_component rest)) < length rest"
  by (cases rest) (auto simp: less_Suc_eq_le intro: order_trans [OF diff_le_self length_dropWhile_le]
      split: if_splits)

function lookup_from :: "fs_dir_tree \<Rightarrow> int \<Rightarrow> string \<Rightarrow> int option" where
  "lookup_from tree cur rest =
     (if rest = [] then Some cur
      else
        let name = component rest in
        if name = [] \<or> length name > FS_DIR_NAME_MAX then Some (- 1)
        else do {
          child \<leftarrow> find_child tree cur name;
          if child < 0 then Some (- 1) else lookup_from tree child (drop 1 (after_component rest))
        })"
  by pat_completeness auto
termination
  by (relation "measure (\<lambda>(tree, cur, rest). length rest)") (auto dest: after_component_shorter)

definition lookup_absolute :: "fs_dir_tree \<Rightarrow> string \<Rightarrow> int option" where
  "lookup_absolute tree absolute_path =
     (if \<not> valid_tree tree \<or> absolute_path = [] \<or> \<not> is_slash (hd absolute_path) then Some (- 1)
      else if tl absolute_path = [] then Some 0
      else lookup_from tree 0 (tl absolute_path))"

function mkdir_from ::
  "bool \<Rightarrow> fs_dir_tree \<Rightarrow> int \<Rightarrow> string \<Rightarrow> bool \<Rightarrow> (int \<times> fs_dir_tree) option" where
  "mkdir_from create_parents tree cur rest created_any =
     (if rest = [] then
        (if \<not> create_parents \<and> \<not> created_any then Some (- 1, tree) else Some (0, tree))
      else
        let name = component rest;
            at_last_component = (after_component rest = [])
        in if name = [] \<or> length name > FS_DIR_NAME_MAX then Some (- 1, tree)
        else do {
          child \<leftarrow> find_child tree cur name;
          if child \<ge> 0 then
            if at_last_component \<and> \<not> create_parents then Some (- 1, tree)
            else mkdir_from create_parents tree child (drop 1 (after_component rest)) created_any
          else if \<not> create_parents \<and> \<not> at_last_component then Some (- 1, tree)
          else
            let (new_node, tree) = alloc_node tree in
            if new_node < 0 then Some (- 1, tree)
            else
              let filled = update_node new_node
                    (\<lambda>n. n \<lparr> node_name := name, parent := cur, first_child := - 1,
                              next_sibling := - 1 \<rparr>) tree
              in do {
                tree \<leftarrow> insert_child_sorted filled cur new_node;
                mkdir_from create_parents tree new_node (drop 1 (after_component rest)) True
              }
        })"
  by pat_completeness auto
termination
  by (relation "measure (\<lambda>(create_parents, tree, cur, rest, created_any). length rest)")
    (auto dest: after_component_shorter)

declare stack_up.simps [simp del] lookup_from.simps [simp del] mkdir_from.simps [simp del]

definition mkdir_internal ::
  "fs_dir_tree \<Rightarrow> string \<Rightarrow> bool \<Rightarrow> (int \<times> fs_dir_tree) option" where
  "mkdir_internal tree path create_parents =
     (if \<not> valid_tree tree then Some (- 1, tree)
      else case resolve_path tree path FS_PATH_MAX of
        None \<Rightarrow> Some (- 1, tree)
      | Some absolute \<Rightarrow>
          if dir_strcmp absolute ''/'' = 0 then Some (- 1, tree)
          else mkdir_from create_parents tree 0 (tl absolute) False)"

definition fs_dir_init :: fs_dir_tree where
  "fs_dir_init =
     (let zeroed = \<lparr> nodes = replicate FS_DIR_MAX_NODES zero_node, node_count = 0, cwd_index = 0 \<rparr>
      in update_node 0
           (\<lambda>n. n \<lparr> used := True, parent := - 1, first_child := - 1, next_sibling := - 1,
                     node_name := [] \<rparr>)
           (zeroed \<lparr> node_count := 1, cwd_index := 0 \<rparr>))"

definition fs_dir_walk :: "fs_dir_tree \<Rightarrow> string \<Rightarrow> int option option" where
  "fs_dir_walk tree path =
     (if \<not> valid_tree tree then Some None
      else case resolve_path tree path FS_PATH_MAX of
        None \<Rightarrow> Some None
      | Some absolute \<Rightarrow> do {
          idx \<leftarrow> lookup_absolute tree absolute;
          Some (if idx < 0 then None else Some idx)
        })"

definition fs_dir_mkdir :: "fs_dir_tree \<Rightarrow> string \<Rightarrow> (int \<times> fs_dir_tree) option" where
  "fs_dir_mkdir tree path = mkdir_internal tree path False"

definition fs_dir_mkdir_p :: "fs_dir_tree \<Rightarrow> string \<Rightarrow> (int \<times> fs_dir_tree) option" where
  "fs_dir_mkdir_p tree path = mkdir_internal tree path True"

text \<open>
  \<open>fs_dir_readdir\<close>: \<open>entries\<close> is the capacity of the caller's array, \<open>None\<close> for a null array
  (whose \<open>max_entries\<close> is 0 or else the call is refused). The result is the status, the names
  copied to the array and \<open>*out_count\<close>.
\<close>

partial_function (option) readdir_scan ::
  "fs_dir_tree \<Rightarrow> nat option \<Rightarrow> int \<Rightarrow> string list \<Rightarrow> nat \<Rightarrow> bool \<Rightarrow> (int \<times> string list \<times> nat) option"
where
  "readdir_scan tree entries cur copied count overflow =
     (if cur \<ge> 0 then
        if \<not> used (node tree cur) then Some (- 1, copied, 0)
        else
          let (copied, overflow) =
                (case entries of
                   Some max_entries \<Rightarrow>
                     if count < max_entries then (copied @ [node_name (node tree cur)], overflow)
                     else (copied, True)
                 | None \<Rightarrow> (copied, overflow))
          in readdir_scan tree entries (next_sibling (node tree cur)) copied (count + 1) overflow
      else Some (if overflow then - 1 else 0, copied, count))"

definition fs_dir_readdir ::
  "fs_dir_tree \<Rightarrow> string \<Rightarrow> nat option \<Rightarrow> (int \<times> string list \<times> nat) option" where
  "fs_dir_readdir tree path entries =
     (if \<not> valid_tree tree then Some (- 1, [], 0)
      else do {
        walked \<leftarrow> fs_dir_walk tree path;
        case walked of
          None \<Rightarrow> Some (- 1, [], 0)
        | Some dir_idx \<Rightarrow>
            readdir_scan tree entries (first_child (node tree dir_idx)) [] 0 False
      })"

definition fs_dir_cd :: "fs_dir_tree \<Rightarrow> string \<Rightarrow> (int \<times> fs_dir_tree) option" where
  "fs_dir_cd tree path =
     (if \<not> valid_tree tree then Some (- 1, tree)
      else do {
        walked \<leftarrow> fs_dir_walk tree path;
        case walked of
          None \<Rightarrow> Some (- 1, tree)
        | Some idx \<Rightarrow> Some (0, tree \<lparr> cwd_index := idx \<rparr>)
      })"

definition fs_dir_pwd :: "fs_dir_tree \<Rightarrow> nat \<Rightarrow> string option" where
  "fs_dir_pwd tree out_len =
     (if \<not> valid_tree tree \<or> out_len = 0 then None
      else path_from_index tree (cwd_index tree) out_len)"


subsection \<open>Strings and their order\<close>

definition c_string :: "string \<Rightarrow> bool" where
  \<comment> \<open>a list of characters that a NUL-terminated array can hold\<close>
  "c_string s \<longleftrightarrow> CHR 0x00 \<notin> set s"

lemma c_string_simps [simp]:
  "c_string []" "c_string (x # xs) \<longleftrightarrow> x \<noteq> CHR 0x00 \<and> c_string xs"
  "c_string (xs @ ys) \<longleftrightarrow> c_string xs \<and> c_string ys"
  by (auto simp: c_string_def)

lemma of_char_less: "(of_char x :: int) < of_char y \<longleftrightarrow> x < y"
proof -
  have "(of_char x :: int) < of_char y \<longleftrightarrow> int (of_char x) < int (of_char y)"
    by (simp only: of_nat_of_char)
  then show ?thesis
    by (simp add: less_char_def)
qed

lemma of_char_pos [simp]: "x \<noteq> CHR 0x00 \<Longrightarrow> (0 :: int) < of_char x"
proof -
  assume "x \<noteq> CHR 0x00"
  moreover have "(of_char (CHR 0x00) :: int) = 0"
    by simp
  moreover have "(0 :: int) \<le> int (of_char x)"
    by simp
  then have "(0 :: int) \<le> of_char x"
    by (simp only: of_nat_of_char)
  ultimately show ?thesis
    by (metis of_char_eqI order_le_less)
qed

lemma dir_strcmp_eq_0 [simp]: "c_string a \<Longrightarrow> c_string b \<Longrightarrow> dir_strcmp a b = 0 \<longleftrightarrow> a = b"
  by (induction a b rule: dir_strcmp.induct) (auto dest: of_char_pos)

lemma dir_strcmp_less [simp]: "c_string a \<Longrightarrow> c_string b \<Longrightarrow> dir_strcmp a b < 0 \<longleftrightarrow> a < b"
  by (induction a b rule: dir_strcmp.induct) (auto dest: of_char_pos simp: of_char_less not_less)

subsection \<open>Sibling chains\<close>

text \<open>\<open>link tree s cs e\<close>: following \<open>next_sibling\<close> from \<open>s\<close> visits the nodes \<open>cs\<close> and then \<open>e\<close>.\<close>

fun link :: "fs_dir_tree \<Rightarrow> int \<Rightarrow> nat list \<Rightarrow> int \<Rightarrow> bool" where
  "link tree s [] e \<longleftrightarrow> s = e"
| "link tree s (c # cs) e \<longleftrightarrow> s = int c \<and> link tree (next_sibling (nodes tree ! c)) cs e"

abbreviation name_of :: "fs_dir_tree \<Rightarrow> nat \<Rightarrow> string" where
  "name_of tree i \<equiv> node_name (nodes tree ! i)"

lemma link_append: "link tree s (xs @ ys) e \<longleftrightarrow> (\<exists>m. link tree s xs m \<and> link tree m ys e)"
  by (induction xs arbitrary: s) auto

lemma link_frame:
  "link tree s cs e \<Longrightarrow>
   (\<And>c. c \<in> set cs \<Longrightarrow> next_sibling (nodes tree' ! c) = next_sibling (nodes tree ! c)) \<Longrightarrow>
   link tree' s cs e"
  by (induction cs arbitrary: s) auto

lemma link_snoc: "link tree s (cs @ [c]) e \<longleftrightarrow> link tree s cs (int c) \<and> e = next_sibling (nodes tree ! c)"
  by (auto simp: link_append)

lemma link_unique: "link tree s cs (- 1) \<Longrightarrow> link tree s ds (- 1) \<Longrightarrow> cs = ds"
proof (induction cs arbitrary: s ds)
  case Nil
  then show ?case by (cases ds) auto
next
  case (Cons c cs)
  then show ?case by (cases ds) auto
qed

lemma scans_at_end [simp]:
  "find_child_scan tree name (- 1) = Some (- 1)"
  "insert_scan tree child prev (- 1) = Some prev"
  "readdir_scan tree entries (- 1) copied count overflow =
     Some (if overflow then - 1 else 0, copied, count)"
  by (simp_all add: find_child_scan.simps [of tree name] insert_scan.simps [of tree child]
      readdir_scan.simps [of tree entries])

lemmas scan_at_node =
  find_child_scan.simps [of tree name "int c" for tree name c, simplified]
  insert_scan.simps [of tree child prev "int c" for tree child prev c, simplified]
  readdir_scan.simps [of tree entries "int c" for tree entries c, simplified]

lemma find_child_scan_link:
  assumes "link tree s cs (- 1)"
    and "\<And>c. c \<in> set cs \<Longrightarrow> used (nodes tree ! c) \<and> c_string (name_of tree c)" and "c_string name"
  shows "\<exists>r. find_child_scan tree name s = Some r \<and>
    (case find (\<lambda>c. name_of tree c = name) cs of None \<Rightarrow> r = - 1 | Some c \<Rightarrow> r = int c)"
  using assms
proof (induction cs arbitrary: s)
  case Nil
  then show ?case by simp
next
  case (Cons c cs)
  then show ?case by (auto simp: scan_at_node)
qed

lemma insert_scan_link:
  assumes "link tree s cs (- 1)" and "c_string (name_of tree child)"
    and "\<And>c. c \<in> set cs \<Longrightarrow> c_string (name_of tree c)"
  shows "insert_scan tree (int child) prev s =
    Some (case takeWhile (\<lambda>c. name_of tree c < name_of tree child) cs of
            [] \<Rightarrow> prev | xs \<Rightarrow> int (last xs))"
  using assms
proof (induction cs arbitrary: s prev)
  case Nil
  then show ?case by simp
next
  case (Cons c cs)
  then show ?case
    by (auto simp: scan_at_node split: list.splits)
qed

lemma readdir_scan_link:
  assumes "link tree s cs (- 1)" and "\<And>c. c \<in> set cs \<Longrightarrow> used (nodes tree ! c)"
  shows "readdir_scan tree entries s copied count overflow =
    (let fits = (case entries of None \<Rightarrow> 0 | Some n \<Rightarrow> n - count);
         over = (entries \<noteq> None \<and> (overflow \<or> fits < length cs) \<or> entries = None \<and> overflow)
     in Some (if over then - 1 else 0, copied @ take fits (map (name_of tree) cs), count + length cs))"
  using assms
proof (induction cs arbitrary: s copied count overflow)
  case Nil
  then show ?case
    by (auto split: option.splits)
next
  case (Cons c cs)
  then show ?case
    by (auto simp: scan_at_node take_Cons' Let_def split: option.splits)
qed


subsection \<open>The invariant\<close>

definition entry_name :: "string \<Rightarrow> bool" where
  "entry_name x \<longleftrightarrow> dir_name x \<and> length x \<le> FS_DIR_NAME_MAX \<and> c_string x"

definition kids :: "fs_dir_tree \<Rightarrow> nat \<Rightarrow> nat set" where
  "kids tree i = {c. 0 < c \<and> c < node_count tree \<and> parent (nodes tree ! c) = int i}"

text \<open>The list of names that leads from the root to a node.\<close>

function path_of :: "fs_dir_tree \<Rightarrow> nat \<Rightarrow> string list" where
  "path_of tree i =
     (if 0 \<le> parent (nodes tree ! i) \<and> parent (nodes tree ! i) < int i
      then path_of tree (nat (parent (nodes tree ! i))) @ [name_of tree i] else [])"
  by pat_completeness auto
termination
  by (relation "measure (\<lambda>(tree, i). i)") auto

declare path_of.simps [simp del]

definition sorted_kids :: "fs_dir_tree \<Rightarrow> nat \<Rightarrow> nat list \<Rightarrow> bool" where
  "sorted_kids tree i cs \<longleftrightarrow> link tree (first_child (nodes tree ! i)) cs (- 1) \<and>
     set cs = kids tree i \<and> sorted_wrt (<) (map (name_of tree) cs)"

definition dir_wf :: "fs_dir_tree \<Rightarrow> bool" where
  "dir_wf tree \<longleftrightarrow>
     length (nodes tree) = FS_DIR_MAX_NODES \<and>
     0 < node_count tree \<and> node_count tree \<le> FS_DIR_MAX_NODES \<and>
     0 \<le> cwd_index tree \<and> cwd_index tree < int (node_count tree) \<and>
     (\<forall>i < node_count tree. used (nodes tree ! i)) \<and>
     (\<forall>i < node_count tree. 0 < i \<longrightarrow>
        0 \<le> parent (nodes tree ! i) \<and> parent (nodes tree ! i) < int i \<and> entry_name (name_of tree i)) \<and>
     (\<forall>i < node_count tree. \<exists>cs. sorted_kids tree i cs) \<and>
     (\<forall>i < node_count tree. length (render True (path_of tree i)) < FS_PATH_MAX)"

definition dirs :: "fs_dir_tree \<Rightarrow> string list set" where
  "dirs tree = path_of tree ` {..<node_count tree}"

definition cwd_names :: "fs_dir_tree \<Rightarrow> string list" where
  "cwd_names tree = path_of tree (nat (cwd_index tree))"

lemma dir_wfD:
  assumes "dir_wf tree"
  shows "length (nodes tree) = 128" "0 < node_count tree" "node_count tree \<le> 128"
    "0 \<le> cwd_index tree" "cwd_index tree < int (node_count tree)"
    "\<And>i. i < node_count tree \<Longrightarrow> used (nodes tree ! i)"
    "\<And>i. i < node_count tree \<Longrightarrow> 0 < i \<Longrightarrow> 0 \<le> parent (nodes tree ! i)"
    "\<And>i. i < node_count tree \<Longrightarrow> 0 < i \<Longrightarrow> parent (nodes tree ! i) < int i"
    "\<And>i. i < node_count tree \<Longrightarrow> 0 < i \<Longrightarrow> entry_name (name_of tree i)"
    "\<And>i. i < node_count tree \<Longrightarrow> \<exists>cs. sorted_kids tree i cs"
    "\<And>i. i < node_count tree \<Longrightarrow> length (render True (path_of tree i)) < 256"
  using assms by (auto simp: dir_wf_def FS_DIR_MAX_NODES_def FS_PATH_MAX_def)

lemma kids_index: "c \<in> kids tree i \<Longrightarrow> 0 < c \<and> c < node_count tree"
  by (simp add: kids_def)

lemma dir_wf_valid [simp]: "dir_wf tree \<Longrightarrow> valid_tree tree"
  using dir_wfD(2-6) [of tree] by (auto simp: valid_tree_def FS_DIR_MAX_NODES_def nat_less_iff)

lemma path_of_0 [simp]: "path_of tree 0 = []"
  by (subst path_of.simps) simp

lemma path_of_nonroot:
  "dir_wf tree \<Longrightarrow> 0 < i \<Longrightarrow> i < node_count tree \<Longrightarrow>
   path_of tree i = path_of tree (nat (parent (nodes tree ! i))) @ [name_of tree i]"
  by (simp add: path_of.simps [of tree i] dir_wfD)

lemma path_of_kid: "dir_wf tree \<Longrightarrow> c \<in> kids tree i \<Longrightarrow> path_of tree c = path_of tree i @ [name_of tree c]"
  by (simp add: path_of_nonroot kids_def)

lemma nonroot_kid:
  "dir_wf tree \<Longrightarrow> 0 < i \<Longrightarrow> i < node_count tree \<Longrightarrow>
   i \<in> kids tree (nat (parent (nodes tree ! i))) \<and> nat (parent (nodes tree ! i)) < i"
  using dir_wfD(7,8) [of tree i] by (auto simp: kids_def)

lemma path_of_entries:
  "dir_wf tree \<Longrightarrow> i < node_count tree \<Longrightarrow> set (path_of tree i) \<subseteq> Collect entry_name"
proof (induction i rule: less_induct)
  case (less i)
  show ?case
  proof (cases "i = 0")
    case False
    then show ?thesis
      using less nonroot_kid [of tree i] path_of_nonroot [of tree i] dir_wfD(9) [of tree i] by force
  qed simp
qed

lemma kid_name_inj:
  assumes "dir_wf tree" "i < node_count tree" "c \<in> kids tree i" "d \<in> kids tree i"
    "name_of tree c = name_of tree d"
  shows "c = d"
proof -
  obtain cs where "set cs = kids tree i" "sorted_wrt (<) (map (name_of tree) cs)"
    using dir_wfD(10) [OF assms(1,2)] by (auto simp: sorted_kids_def)
  then have "inj_on (name_of tree) (kids tree i)"
    by (metis distinct_map strict_sorted_iff)
  then show ?thesis
    using assms(3-5) by (auto dest: inj_onD)
qed

lemma path_of_inj:
  "dir_wf tree \<Longrightarrow> i < node_count tree \<Longrightarrow> j < node_count tree \<Longrightarrow> path_of tree i = path_of tree j \<Longrightarrow> i = j"
proof (induction i arbitrary: j rule: less_induct)
  case (less i)
  show ?case
  proof (cases "i = 0 \<or> j = 0")
    case True
    then show ?thesis
      using less.prems path_of_nonroot [of tree i] path_of_nonroot [of tree j] by force
  next
    case False
    let ?p = "nat (parent (nodes tree ! i))" and ?q = "nat (parent (nodes tree ! j))"
    have p: "i \<in> kids tree ?p" "?p < i" "j \<in> kids tree ?q" "?q < j"
      using False less.prems nonroot_kid [of tree] by simp_all
    moreover have "path_of tree ?p = path_of tree ?q" "name_of tree i = name_of tree j"
      using less.prems p path_of_kid [of tree] by auto
    ultimately show ?thesis
      using less kid_name_inj [of tree ?p i j] by (metis less_trans)
  qed
qed

lemma abs_dirs_entries: "set ds \<subseteq> Collect entry_name \<Longrightarrow> abs_dirs ds"
  by (auto simp: abs_dirs_def entry_name_def)

lemma dirs_entries: "dir_wf tree \<Longrightarrow> ds \<in> dirs tree \<Longrightarrow> set ds \<subseteq> Collect entry_name"
  using path_of_entries by (auto simp: dirs_def)

lemma kid_dirs:
  assumes "dir_wf tree" "i < node_count tree"
  shows "path_of tree i @ [x] \<in> dirs tree \<longleftrightarrow> (\<exists>c \<in> kids tree i. name_of tree c = x)"
proof
  assume "path_of tree i @ [x] \<in> dirs tree"
  then obtain c where c: "c < node_count tree" "path_of tree i @ [x] = path_of tree c"
    by (auto simp: dirs_def)
  then have "0 < c"
    by (cases c) auto
  let ?p = "nat (parent (nodes tree ! c))"
  have k: "c \<in> kids tree ?p" "?p < c"
    using nonroot_kid [OF assms(1) \<open>0 < c\<close> c(1)] by simp_all
  then have "path_of tree ?p = path_of tree i" "name_of tree c = x"
    using path_of_kid [OF assms(1) k(1)] c(2) by simp_all
  then show "\<exists>c \<in> kids tree i. name_of tree c = x"
    using path_of_inj [OF assms(1), of ?p i] k c(1) assms(2) by auto
next
  assume "\<exists>c \<in> kids tree i. name_of tree c = x"
  then show "path_of tree i @ [x] \<in> dirs tree"
    using path_of_kid [OF assms(1)] by (auto simp: dirs_def kids_def intro!: rev_image_eqI)
qed

lemma dirs_prefix: "dir_wf tree \<Longrightarrow> ds @ es \<in> dirs tree \<Longrightarrow> ds \<in> dirs tree"
proof (induction es rule: rev_induct)
  case (snoc e es)
  then obtain c where c: "c < node_count tree" "(ds @ es) @ [e] = path_of tree c"
    by (auto simp: dirs_def)
  then have "0 < c"
    by (cases c) auto
  then have "(ds @ es) @ [e] = path_of tree (nat (parent (nodes tree ! c))) @ [name_of tree c]"
    using path_of_nonroot [OF snoc.prems(1)] c by metis
  then have "ds @ es = path_of tree (nat (parent (nodes tree ! c)))"
    by (simp only: append1_eq_conv)
  then have "ds @ es \<in> dirs tree"
    using nonroot_kid [OF snoc.prems(1) \<open>0 < c\<close> c(1)] c(1) by (auto simp: dirs_def)
  then show ?case
    using snoc by blast
qed simp

lemma find_child_wf:
  assumes "dir_wf tree" "i < node_count tree" "c_string name"
  shows "(path_of tree i @ [name] \<notin> dirs tree \<and> find_child tree (int i) name = Some (- 1)) \<or>
    (\<exists>c \<in> kids tree i. name_of tree c = name \<and> find_child tree (int i) name = Some (int c))"
proof -
  obtain cs where cs: "link tree (first_child (nodes tree ! i)) cs (- 1)" "set cs = kids tree i"
    using dir_wfD(10) [OF assms(1,2)] by (auto simp: sorted_kids_def)
  have "\<And>c. c \<in> set cs \<Longrightarrow> used (nodes tree ! c) \<and> c_string (name_of tree c)"
    using cs(2) dir_wfD(6,9) [OF assms(1)] by (auto simp: kids_def entry_name_def)
  from find_child_scan_link [OF cs(1) this assms(3)] obtain r
    where r: "find_child tree (int i) name = Some r"
      "case find (\<lambda>c. name_of tree c = name) cs of None \<Rightarrow> r = - 1 | Some c \<Rightarrow> r = int c"
    by (auto simp: find_child_def)
  show ?thesis
  proof (cases "find (\<lambda>c. name_of tree c = name) cs")
    case None
    then show ?thesis
      using r(1) r(2) [unfolded None] cs(2) kid_dirs [OF assms(1,2), of name]
      by (auto simp: find_None_iff)
  next
    case (Some c)
    then have "c \<in> kids tree i \<and> name_of tree c = name"
      using cs(2) nth_mem by (fastforce simp: find_Some_iff)
    then show ?thesis
      using r Some by auto
  qed
qed


subsection \<open>Names of the current directory\<close>

lemma stack_up_wf:
  "dir_wf tree \<Longrightarrow> i < node_count tree \<Longrightarrow> length stack + i \<le> 128 \<Longrightarrow>
   \<exists>up. stack_up tree (int i) stack = Some (up @ stack) \<and>
     map (\<lambda>j. node_name (node tree j)) up = path_of tree i"
proof (induction i arbitrary: stack rule: less_induct)
  case (less i)
  show ?case
  proof (cases "i = 0")
    case True
    then show ?thesis by (simp add: stack_up.simps [of tree 0])
  next
    case False
    let ?p = "nat (parent (nodes tree ! i))"
    have p: "?p < i" "0 \<le> parent (nodes tree ! i)" "parent (nodes tree ! i) < int (node_count tree)"
      "used (nodes tree ! ?p)"
      using False less.prems nonroot_kid [of tree i] dir_wfD(6,7) [of tree] by auto
    then obtain up where up: "stack_up tree (int ?p) (int i # stack) = Some (up @ int i # stack)"
      "map (\<lambda>j. node_name (node tree j)) up = path_of tree ?p"
      using less.IH [of ?p "int i # stack"] less.prems by auto
    have "stack_up tree (int i) stack = stack_up tree (int ?p) (int i # stack)"
      using False less.prems p stack_up.simps [of tree "int i" stack]
      by (simp add: FS_DIR_MAX_NODES_def Let_def)
    then show ?thesis
      using up less.prems False path_of_nonroot [of tree i]
      by (intro exI [of _ "up @ [int i]"]) simp
  qed
qed

lemma join_segments_eq_Nil:
  "set sgs \<subseteq> Collect name_ok \<Longrightarrow> join_segments sgs = [] \<longleftrightarrow> sgs = []"
  by (induction sgs rule: join_segments.induct) (auto simp: name_ok_def)

lemma entry_name_ok: "entry_name x \<Longrightarrow> name_ok x"
  by (simp add: entry_name_def dir_name_def)

lemma emit_names_wf:
  "stack \<noteq> [] \<Longrightarrow> set (map (\<lambda>j. node_name (node tree j)) stack) \<subseteq> Collect entry_name \<Longrightarrow>
   emit_names tree n out stack =
     (let q = out @ join_segments (map (\<lambda>j. node_name (node tree j)) stack)
      in if length q + 1 \<le> n then Some q else None)"
proof (induction stack arbitrary: out)
  case (Cons j stack)
  have "entry_name (node_name (node tree j))"
    using Cons.prems by simp
  then have nm: "node_name (node tree j) \<noteq> []" "length (node_name (node tree j)) \<le> 31"
    by (auto simp: entry_name_def dir_name_def name_ok_def FS_DIR_NAME_MAX_def)
  show ?case
  proof (cases "stack = []")
    case False
    moreover have "join_segments (map (\<lambda>j. node_name (node tree j)) stack) \<noteq> []"
      using False Cons.prems entry_name_ok by (subst join_segments_eq_Nil) auto
    ultimately show ?thesis
      using Cons nm by (auto simp: join_segments_Cons Let_def FS_DIR_NAME_MAX_def)
  qed (use nm in \<open>auto simp: Let_def FS_DIR_NAME_MAX_def\<close>)
qed simp

lemma path_from_index_wf:
  assumes "dir_wf tree" "i < node_count tree"
  shows "path_from_index tree (int i) n =
    (if length (render True (path_of tree i)) + 1 \<le> n then Some (render True (path_of tree i)) else None)"
proof (cases "i = 0")
  case True
  then show ?thesis
    using assms dir_wfD(2,6) [OF assms(1)] by (auto simp: path_from_index_def render_def)
next
  case False
  obtain up where up: "stack_up tree (int i) [] = Some up"
    "map (\<lambda>j. node_name (node tree j)) up = path_of tree i"
    using stack_up_wf [OF assms, of "[]"] dir_wfD(3) [OF assms(1)] assms(2) by auto
  moreover have "up \<noteq> []"
    using up(2) path_of_nonroot [OF assms(1), of i] False assms(2) by auto
  ultimately have "emit_names tree n ''/'' up =
      (if length (render True (path_of tree i)) + 1 \<le> n then Some (render True (path_of tree i)) else None)"
    using emit_names_wf [of up tree n "''/''"] path_of_entries [OF assms]
    by (simp add: render_def Let_def)
  then show ?thesis
    using assms dir_wfD(6) [OF assms(1)] up False
    by (auto simp: path_from_index_def render_def)
qed

lemma cwd_wf:
  assumes "dir_wf tree"
  shows "abs_dirs (cwd_names tree)" "length (render True (cwd_names tree)) < 256"
    "cwd_names tree \<in> dirs tree" "set (cwd_names tree) \<subseteq> Collect entry_name"
    "path_from_index tree (cwd_index tree) n =
       (if length (render True (cwd_names tree)) + 1 \<le> n then Some (render True (cwd_names tree)) else None)"
proof -
  have c: "nat (cwd_index tree) < node_count tree" "int (nat (cwd_index tree)) = cwd_index tree"
    using dir_wfD(4,5) [OF assms] by auto
  show "set (cwd_names tree) \<subseteq> Collect entry_name"
    by (simp add: cwd_names_def path_of_entries [OF assms c(1)])
  then show "abs_dirs (cwd_names tree)"
    by (rule abs_dirs_entries)
  show "length (render True (cwd_names tree)) < 256"
    by (simp add: cwd_names_def dir_wfD(11) [OF assms c(1)])
  show "cwd_names tree \<in> dirs tree"
    using c(1) by (simp add: cwd_names_def dirs_def)
  show "path_from_index tree (cwd_index tree) n =
       (if length (render True (cwd_names tree)) + 1 \<le> n then Some (render True (cwd_names tree)) else None)"
    using path_from_index_wf [OF assms c(1), of n] c(2) by (simp add: cwd_names_def)
qed

subsection \<open>Walking down a path\<close>

lemma path_segments_c_string: "c_string path \<Longrightarrow> set (path_segments path) \<subseteq> Collect c_string"
proof (induction path rule: path_segments.induct)
  case (1 path)
  show ?case
  proof (cases "next_segment path")
    case None
    then show ?thesis by (simp add: path_segments.simps [of path])
  next
    case (Some p)
    obtain sg rest where p: "p = (sg, rest)" by force
    have "c_string sg" "c_string rest"
      using next_segment_SomeD [OF Some [unfolded p]] "1.prems" by auto
    then show ?thesis
      using "1.IH" [OF Some p [symmetric]] by (simp add: path_segments.simps [of path] Some p)
  qed
qed

lemma foldl_canon_c_string:
  "set ds \<subseteq> Collect c_string \<Longrightarrow> set sgs \<subseteq> Collect c_string \<Longrightarrow>
   set (foldl (canon_step a) ds sgs) \<subseteq> Collect c_string"
proof (induction sgs arbitrary: ds)
  case (Cons sg sgs)
  then have "set (canon_step a ds sg) \<subseteq> Collect c_string"
    by (auto simp: canon_step.simps dest: in_set_butlastD)
  with Cons show ?case by simp
qed simp

lemma resolve_names_c_string:
  "set ds \<subseteq> Collect c_string \<Longrightarrow> c_string path \<Longrightarrow> set (resolve_names ds path) \<subseteq> Collect c_string"
  using path_segments_c_string [of path] foldl_canon_c_string
  by (simp add: resolve_names_def canon_def)

lemma component_join:
  assumes "name_ok d" "set ds \<subseteq> Collect name_ok"
  shows "component (join_segments (d # ds)) = d"
    "drop 1 (after_component (join_segments (d # ds))) = join_segments ds"
    "after_component (join_segments (d # ds)) = [] \<longleftrightarrow> ds = []"
    "join_segments (d # ds) \<noteq> []"
proof -
  have d: "\<forall>c \<in> set d. c \<noteq> CHR ''/''" "d \<noteq> []"
    using assms(1) by (auto simp: name_ok_def)
  have j: "join_segments (d # ds) = d @ (if ds = [] then [] else ''/'' @ join_segments ds)"
    by (simp add: join_segments_Cons)
  have t: "component (d @ xs) = d @ component xs" "after_component (d @ xs) = after_component xs" for xs
    using d(1) by (simp_all add: takeWhile_append2 dropWhile_append2)
  show "component (join_segments (d # ds)) = d"
    "drop 1 (after_component (join_segments (d # ds))) = join_segments ds"
    "after_component (join_segments (d # ds)) = [] \<longleftrightarrow> ds = []"
    "join_segments (d # ds) \<noteq> []"
    using d(2) unfolding j by (simp_all add: t)
qed


lemma dirs_index: "ds \<in> dirs tree \<longleftrightarrow> (\<exists>j < node_count tree. path_of tree j = ds)"
  by (auto simp: dirs_def)

lemma lookup_from_step:
  assumes "name_ok d" "set ds \<subseteq> Collect name_ok"
  shows "lookup_from tree cur (join_segments (d # ds)) =
    (if length d > FS_DIR_NAME_MAX then Some (- 1)
     else do {
       child \<leftarrow> find_child tree cur d;
       if child < 0 then Some (- 1) else lookup_from tree child (join_segments ds)
     })"
  using assms(1)
  by (subst lookup_from.simps)
    (simp add: name_ok_def Let_def component_join [OF assms] del: One_nat_def cong: if_cong)

lemma lookup_from_wf:
  "dir_wf tree \<Longrightarrow> i < node_count tree \<Longrightarrow> set ds \<subseteq> Collect name_ok \<Longrightarrow> set ds \<subseteq> Collect c_string \<Longrightarrow>
   (path_of tree i @ ds \<notin> dirs tree \<and> lookup_from tree (int i) (join_segments ds) = Some (- 1)) \<or>
   (\<exists>j < node_count tree. path_of tree j = path_of tree i @ ds \<and>
      lookup_from tree (int i) (join_segments ds) = Some (int j))"
proof (induction ds arbitrary: i)
  case Nil
  then show ?case
    by (subst (1 2) lookup_from.simps) auto
next
  case (Cons d ds)
  have st: "lookup_from tree (int i) (join_segments (d # ds)) =
    (if length d > FS_DIR_NAME_MAX then Some (- 1)
     else do {
       child \<leftarrow> find_child tree (int i) d;
       if child < 0 then Some (- 1) else lookup_from tree child (join_segments ds)
     })"
    by (rule lookup_from_step) (use Cons.prems in simp_all)
  have out: "path_of tree i @ [d] \<notin> dirs tree \<Longrightarrow> path_of tree i @ d # ds \<notin> dirs tree"
    using dirs_prefix [OF Cons.prems(1), of "path_of tree i @ [d]" ds] by auto
  show ?case
  proof (cases "length d > FS_DIR_NAME_MAX")
    case True
    then have "path_of tree i @ d # ds \<notin> dirs tree"
      using dirs_entries [OF Cons.prems(1)] by (fastforce simp: entry_name_def)
    with True show ?thesis
      unfolding st by simp
  next
    case False
    have "c_string d"
      using Cons.prems by simp
    from find_child_wf [OF Cons.prems(1,2) this] show ?thesis
    proof (elim disjE bexE conjE)
      fix c
      assume c: "c \<in> kids tree i" "name_of tree c = d" "find_child tree (int i) d = Some (int c)"
      then have "path_of tree c = path_of tree i @ [d]" "c < node_count tree"
        using path_of_kid [OF Cons.prems(1)] by (auto simp: kids_def)
      with c False Cons.IH [of c] Cons.prems show ?thesis
        unfolding st by simp
    qed (use out False in \<open>simp add: st\<close>)
  qed
qed

subsection \<open>Resolution and walking, for a well-formed tree\<close>

lemma resolve_path_wf:
  "dir_wf tree \<Longrightarrow> 0 < n \<Longrightarrow> resolve_path tree path n = fs_path_resolve (render True (cwd_names tree)) path n"
  by (simp add: resolve_path_def FS_PATH_MAX_def cwd_wf(2) cwd_wf(5) Suc_le_eq)

definition target :: "fs_dir_tree \<Rightarrow> string \<Rightarrow> string list" where
  \<comment> \<open>the directory a path argument names\<close>
  "target tree path = resolve_names (cwd_names tree) path"

definition path_fits :: "fs_dir_tree \<Rightarrow> string \<Rightarrow> bool" where
  \<comment> \<open>the path resolves within \<open>FS_PATH_MAX\<close>\<close>
  "path_fits tree path \<longleftrightarrow> resolve_path tree path FS_PATH_MAX \<noteq> None"

lemma path_fits_short:
  "dir_wf tree \<Longrightarrow> length (render True (cwd_names tree)) + length path + 2 \<le> FS_PATH_MAX \<Longrightarrow>
   path_fits tree path"
  using fs_path_resolve_fits [of "cwd_names tree" path] cwd_wf(1) [of tree]
  by (simp add: path_fits_def resolve_path_wf FS_PATH_MAX_def)

lemma path_fits_resolve:
  assumes "dir_wf tree" "path_fits tree path"
  shows "resolve_path tree path FS_PATH_MAX = Some (render True (target tree path))"
    "length (render True (target tree path)) < 256"
proof -
  from assms obtain q where q: "resolve_path tree path 256 = Some q"
    by (auto simp: path_fits_def FS_PATH_MAX_def)
  then have "fs_path_resolve (render True (cwd_names tree)) path 256 = Some q"
    using assms(1) by (simp add: resolve_path_wf)
  from fs_path_resolve_Some [OF cwd_wf(1,2) [OF assms(1)] this]
  have "q = render True (target tree path) \<and> length q < 256"
    by (auto simp: target_def)
  then show "resolve_path tree path FS_PATH_MAX = Some (render True (target tree path))"
    "length (render True (target tree path)) < 256"
    using q by (auto simp: FS_PATH_MAX_def)
qed

lemma path_fits_not: "\<not> path_fits tree path \<Longrightarrow> resolve_path tree path FS_PATH_MAX = None"
  by (simp add: path_fits_def)

lemma target_wf:
  assumes "dir_wf tree" "c_string path"
  shows "abs_dirs (target tree path)" "set (target tree path) \<subseteq> Collect name_ok"
    "set (target tree path) \<subseteq> Collect c_string"
proof -
  show "abs_dirs (target tree path)"
    by (simp add: target_def resolve_names_dirs cwd_wf(1) [OF assms(1)])
  then show "set (target tree path) \<subseteq> Collect name_ok"
    by (rule abs_dirs_names)
  have "set (cwd_names tree) \<subseteq> Collect c_string"
    using cwd_wf(4) [OF assms(1)] by (auto simp: entry_name_def)
  then show "set (target tree path) \<subseteq> Collect c_string"
    using assms(2) by (simp add: target_def resolve_names_c_string)
qed

lemma lookup_absolute_wf:
  assumes "dir_wf tree" "set ds \<subseteq> Collect name_ok" "set ds \<subseteq> Collect c_string"
  shows "(ds \<notin> dirs tree \<and> lookup_absolute tree (render True ds) = Some (- 1)) \<or>
    (\<exists>j < node_count tree. path_of tree j = ds \<and> lookup_absolute tree (render True ds) = Some (int j))"
proof (cases "ds = []")
  case True
  then show ?thesis
    using dir_wfD(2) [OF assms(1)] assms(1) by (auto simp: lookup_absolute_def render_def)
next
  case False
  then show ?thesis
    using lookup_from_wf [OF assms(1) dir_wfD(2) [OF assms(1)] assms(2,3)] assms(1,2)
    by (auto simp: lookup_absolute_def render_def join_segments_eq_Nil)
qed

lemma fs_dir_walk_wf:
  assumes "dir_wf tree" "c_string path"
  shows "if path_fits tree path \<and> target tree path \<in> dirs tree
    then \<exists>j < node_count tree. path_of tree j = target tree path \<and> fs_dir_walk tree path = Some (Some (int j))
    else fs_dir_walk tree path = Some None"
proof (cases "path_fits tree path")
  case True
  then show ?thesis
    using assms lookup_absolute_wf [OF assms(1) target_wf(2,3) [OF assms]]
      path_fits_resolve(1) [OF assms(1) True] dirs_index
    by (auto simp: fs_dir_walk_def)
next
  case False
  then show ?thesis
    using assms by (simp add: fs_dir_walk_def path_fits_not)
qed


subsection \<open>Creating a node\<close>

definition filled_node :: "string \<Rightarrow> int \<Rightarrow> fs_dir_node" where
  "filled_node name up = \<lparr> node_name = name, parent = up, first_child = - 1, next_sibling = - 1,
     used = True \<rparr>"

definition add_node :: "fs_dir_tree \<Rightarrow> nat \<Rightarrow> string \<Rightarrow> fs_dir_tree" where
  \<comment> \<open>a fresh node filled in below directory \<open>i\<close>, before it is linked\<close>
  "add_node tree i name = tree \<lparr> nodes := (nodes tree)[node_count tree := filled_node name (int i)],
     node_count := node_count tree + 1 \<rparr>"

lemma alloc_fill:
  assumes "dir_wf tree" "node_count tree < 128"
  shows "alloc_node tree = (int (node_count tree), snd (alloc_node tree))"
    "update_node (int (node_count tree))
       (\<lambda>n. n \<lparr> node_name := name, parent := int i, first_child := - 1, next_sibling := - 1 \<rparr>)
       (snd (alloc_node tree)) = add_node tree i name"
  using assms dir_wfD(1) [OF assms(1)]
  by (simp_all add: alloc_node_def update_node_def add_node_def filled_node_def zero_node_def
      FS_DIR_MAX_NODES_def)

lemma alloc_full: "\<not> node_count tree < 128 \<Longrightarrow> alloc_node tree = (- 1, tree)"
  by (simp add: alloc_node_def FS_DIR_MAX_NODES_def)

text \<open>
  The insertion point: the children before the new name, and the predecessor they end in.
\<close>

lemma insert_child_sorted_wf:
  fixes tree i name
  defines "n \<equiv> node_count tree" and "t \<equiv> add_node tree i name"
  assumes "dir_wf tree" "i < node_count tree" "node_count tree < 128" "entry_name name"
    and "sorted_kids tree i cs" and "xs = takeWhile (\<lambda>c. name_of tree c < name) cs"
  shows "insert_child_sorted t (int i) (int n) = Some
    (if xs = []
     then update_node (int i) (first_child_update (\<lambda>_. int n))
            (update_node (int n) (next_sibling_update (\<lambda>_. first_child (nodes tree ! i))) t)
     else update_node (int (last xs)) (next_sibling_update (\<lambda>_. int n))
            (update_node (int n) (next_sibling_update (\<lambda>_. next_sibling (nodes tree ! last xs))) t))"
proof -
  have cs: "link tree (first_child (nodes tree ! i)) cs (- 1)" "set cs = kids tree i"
    using assms(7) by (auto simp: sorted_kids_def)
  have old: "nodes t ! c = nodes tree ! c" if "c \<noteq> n" for c
    using that by (simp add: t_def add_node_def n_def)
  have new: "nodes t ! n = filled_node name (int i)"
    using dir_wfD(1) [OF assms(3)] assms(5) by (simp add: t_def add_node_def n_def)
  have k: "c \<noteq> n" "c_string (name_of tree c)" if "c \<in> set cs" for c
    using that cs(2) dir_wfD(9) [OF assms(3), of c] by (auto simp: kids_def n_def entry_name_def)
  have i: "i \<noteq> n"
    using assms(4) by (simp add: n_def)
  have "link t (first_child (nodes t ! i)) cs (- 1)"
    unfolding old [OF i] by (rule link_frame [OF cs(1)]) (simp add: old k)
  moreover have "c_string (name_of t n)"
    using assms(6) by (simp add: new filled_node_def entry_name_def)
  moreover have "\<And>c. c \<in> set cs \<Longrightarrow> c_string (name_of t c)"
    by (simp add: old k)
  ultimately have "insert_scan t (int n) (- 1) (first_child (nodes t ! i)) =
      Some (case takeWhile (\<lambda>c. name_of t c < name_of t n) cs of [] \<Rightarrow> - 1 | xs \<Rightarrow> int (last xs))"
    by (rule insert_scan_link)
  moreover have "takeWhile (\<lambda>c. name_of t c < name_of t n) cs = xs"
    unfolding assms(8) by (rule takeWhile_cong) (simp_all add: old k new filled_node_def)
  ultimately have sc: "insert_scan t (int n) (- 1) (first_child (nodes t ! i)) =
      Some (if xs = [] then - 1 else int (last xs))"
    by (simp split: list.splits)
  have "last xs \<in> set cs" if "xs \<noteq> []"
    using that assms(8) last_in_set set_takeWhileD by metis
  then show ?thesis
    using sc by (auto simp: insert_child_sorted_def old i k)
qed

lemma insert_child_sorted_effect:
  assumes "dir_wf tree" "i < node_count tree" "node_count tree < 128" "entry_name name"
    "path_of tree i @ [name] \<notin> dirs tree" "sorted_kids tree i cs"
    "insert_child_sorted (add_node tree i name) (int i) (int (node_count tree)) = Some tree'"
  shows "node_count tree' = node_count tree + 1 \<and> cwd_index tree' = cwd_index tree
    \<and> length (nodes tree') = length (nodes tree)
    \<and> (\<forall>j < node_count tree. name_of tree' j = name_of tree j
        \<and> parent (nodes tree' ! j) = parent (nodes tree ! j) \<and> used (nodes tree' ! j) = used (nodes tree ! j)
        \<and> (j \<noteq> i \<longrightarrow> first_child (nodes tree' ! j) = first_child (nodes tree ! j))
        \<and> (j \<notin> kids tree i \<longrightarrow> next_sibling (nodes tree' ! j) = next_sibling (nodes tree ! j)))
    \<and> name_of tree' (node_count tree) = name \<and> parent (nodes tree' ! node_count tree) = int i
    \<and> used (nodes tree' ! node_count tree) \<and> first_child (nodes tree' ! node_count tree) = - 1
    \<and> link tree' (first_child (nodes tree' ! i))
        (takeWhile (\<lambda>c. name_of tree c < name) cs @ node_count tree #
         dropWhile (\<lambda>c. name_of tree c < name) cs) (- 1)"
proof -
  let ?xs = "takeWhile (\<lambda>c. name_of tree c < name) cs"
  let ?ys = "dropWhile (\<lambda>c. name_of tree c < name) cs"
  let ?n = "node_count tree"
  have len: "length (nodes tree) = 128"
    by (rule dir_wfD(1) [OF assms(1)])
  have cs: "link tree (first_child (nodes tree ! i)) (?xs @ ?ys) (- 1)" "set cs = kids tree i"
    "distinct (?xs @ ?ys)"
    using assms(6) by (auto simp: sorted_kids_def strict_sorted_iff distinct_map)
  have kn: "c < ?n \<and> c \<in> kids tree i" if "c \<in> set ?xs \<or> c \<in> set ?ys" for c
    using that cs(2) kids_index [of c tree i] by (auto dest: set_takeWhileD set_dropWhileD)
  note ins = insert_child_sorted_wf [OF assms(1-4,6) refl]
  show ?thesis
  proof (cases "?xs = []")
    case True
    then have l: "link tree (first_child (nodes tree ! i)) ?ys (- 1)"
      using cs(1) by (simp only: append_Nil)
    have t': "tree' = update_node (int i) (first_child_update (\<lambda>_. int ?n))
        (update_node (int ?n) (next_sibling_update (\<lambda>_. first_child (nodes tree ! i))) (add_node tree i name))"
      using ins assms(7) True by simp
    have "link tree' (first_child (nodes tree ! i)) ?ys (- 1)"
    proof (rule link_frame [OF l])
      fix c assume "c \<in> set ?ys"
      then have "c < ?n" using kn by auto
      then show "next_sibling (nodes tree' ! c) = next_sibling (nodes tree ! c)"
        using assms(2,3) len unfolding t' by (auto simp: update_node_def add_node_def nth_list_update)
    qed
    moreover have "first_child (nodes tree' ! i) = int ?n"
      "next_sibling (nodes tree' ! ?n) = first_child (nodes tree ! i)"
      using assms(2,3) len unfolding t'
      by (auto simp: update_node_def add_node_def filled_node_def nth_list_update)
    ultimately have "link tree' (first_child (nodes tree' ! i)) (?xs @ ?n # ?ys) (- 1)"
      unfolding True by simp
    then show ?thesis
      using assms(2,3) len unfolding t'
      by (auto simp: update_node_def add_node_def filled_node_def nth_list_update)
  next
    case False
    let ?l = "last ?xs"
    have l: "?l \<in> set ?xs"
      using False by simp
    then have lk: "?l < ?n" "?l \<in> kids tree i"
      using kn by auto
    note snoc = append_butlast_last_id [OF False]
    have t': "tree' = update_node (int ?l) (next_sibling_update (\<lambda>_. int ?n))
        (update_node (int ?n) (next_sibling_update (\<lambda>_. next_sibling (nodes tree ! ?l))) (add_node tree i name))"
      using ins assms(7) False by simp
    have fr: "next_sibling (nodes tree' ! c) = next_sibling (nodes tree ! c)" if "c < ?n" "c \<noteq> ?l" for c
      using that assms(3) len lk(1) unfolding t'
      by (auto simp: update_node_def add_node_def nth_list_update)
    have dx: "distinct ?xs" "set ?xs \<inter> set ?ys = {}"
      using cs(3) by (simp_all only: distinct_append)
    have "distinct (butlast ?xs @ [?l])"
      using dx(1) by (simp only: snoc)
    then have d: "?l \<notin> set (butlast ?xs)" "?l \<notin> set ?ys"
      using dx(2) l by (simp, blast)
    have "link tree (first_child (nodes tree ! i)) ((butlast ?xs @ [?l]) @ ?ys) (- 1)"
      using cs(1) by (simp only: snoc)
    then obtain m where m: "link tree (first_child (nodes tree ! i)) (butlast ?xs @ [?l]) m"
      "link tree m ?ys (- 1)"
      unfolding link_append [of tree _ "butlast ?xs @ [?l]"] by blast
    have "link tree' (first_child (nodes tree ! i)) (butlast ?xs) (int ?l)"
      by (rule link_frame [of tree]) (use m(1) d(1) kn fr in \<open>auto simp: link_snoc dest: in_set_butlastD\<close>)
    moreover have "link tree' m ?ys (- 1)"
      by (rule link_frame [of tree]) (use m(2) d(2) kn fr in auto)
    moreover have "m = next_sibling (nodes tree ! ?l)"
      using m(1) by (simp add: link_snoc)
    ultimately have "link tree' (first_child (nodes tree ! i)) ((butlast ?xs @ [?l]) @ ?n # ?ys) (- 1)"
      using lk(1) assms(3) len unfolding t'
      by (auto simp: link_append update_node_def add_node_def nth_list_update)
    then have "link tree' (first_child (nodes tree ! i)) (?xs @ ?n # ?ys) (- 1)"
      by (simp only: snoc)
    moreover have "first_child (nodes tree' ! i) = first_child (nodes tree ! i)"
      using assms(2,3) len lk(1) unfolding t'
      by (auto simp: update_node_def add_node_def nth_list_update)
    ultimately show ?thesis
      using assms(2,3) len lk unfolding t'
      by (auto simp: update_node_def add_node_def filled_node_def nth_list_update)
  qed
qed


lemma sorted_insert_point:
  fixes f :: "'a \<Rightarrow> 'b :: linorder"
  assumes "sorted_wrt (<) (map f cs)" "y \<notin> f ` set cs" "f n = y"
  shows "sorted_wrt (<) (map f (takeWhile (\<lambda>c. f c < y) cs @ n # dropWhile (\<lambda>c. f c < y) cs))"
  using assms
proof (induction cs)
  case (Cons c cs)
  show ?case
  proof (cases "f c < y")
    case True
    have "\<forall>z \<in> set cs. f c < f z"
      using Cons.prems(1) by simp
    then have "\<forall>z \<in> set (takeWhile (\<lambda>c. f c < y) cs @ n # dropWhile (\<lambda>c. f c < y) cs). f c < f z"
      using True Cons.prems(3) by (auto dest: set_takeWhileD set_dropWhileD)
    then show ?thesis
      using Cons True by auto
  next
    case False
    then have "y < f c"
      using Cons.prems(2) by (auto simp: not_less order_le_less)
    then show ?thesis
      using Cons.prems False by (auto intro: less_trans)
  qed
qed simp

lemma attach_wf:
  assumes wf: "dir_wf tree" and i: "i < node_count tree" and room: "node_count tree < 128"
    and nm: "entry_name name" and new: "path_of tree i @ [name] \<notin> dirs tree"
    and len: "length (render True (path_of tree i @ [name])) < 256"
  obtains tree' where
    "insert_child_sorted (add_node tree i name) (int i) (int (node_count tree)) = Some tree'"
    "dir_wf tree'" "node_count tree' = node_count tree + 1" "cwd_index tree' = cwd_index tree"
    "\<And>j. j < node_count tree \<Longrightarrow> path_of tree' j = path_of tree j"
    "path_of tree' (node_count tree) = path_of tree i @ [name]"
proof -
  let ?n = "node_count tree"
  obtain cs where cs: "sorted_kids tree i cs"
    using dir_wfD(10) [OF wf i] by blast
  from insert_child_sorted_wf [OF wf i room nm cs refl] obtain tree' where
    t': "insert_child_sorted (add_node tree i name) (int i) (int ?n) = Some tree'"
    by blast
  note eff = insert_child_sorted_effect [OF wf i room nm new cs t']
  have keep: "name_of tree' j = name_of tree j" "parent (nodes tree' ! j) = parent (nodes tree ! j)"
    "used (nodes tree' ! j)" if "j < ?n" for j
    using eff that dir_wfD(6) [OF wf] by auto
  have n: "node_count tree' = ?n + 1" "name_of tree' ?n = name" "parent (nodes tree' ! ?n) = int i"
    "used (nodes tree' ! ?n)" "first_child (nodes tree' ! ?n) = - 1"
    using eff by auto
  have path: "path_of tree' j = path_of tree j" if "j < ?n" for j
    using that
  proof (induction j rule: less_induct)
    case (less j)
    show ?case
    proof (cases "0 \<le> parent (nodes tree ! j) \<and> parent (nodes tree ! j) < int j")
      case True
      then have "path_of tree' (nat (parent (nodes tree ! j))) = path_of tree (nat (parent (nodes tree ! j)))"
        using less by (intro less.IH) auto
      then show ?thesis
        using keep [OF less.prems] True
        by (subst (1 2) path_of.simps) simp
    next
      case False
      then show ?thesis
        using keep [OF less.prems] by (subst (1 2) path_of.simps) auto
    qed
  qed
  have pathn: "path_of tree' ?n = path_of tree i @ [name]"
    using n path [OF i] i by (subst path_of.simps) simp
  have kids': "kids tree' j = (if j = i then insert ?n (kids tree i) else kids tree j)" if "j < ?n" for j
    using that i n keep(2) by (auto simp: kids_def less_Suc_eq)
  have kidsn: "kids tree' ?n = {}"
    using i n keep(2) dir_wfD(8) [OF wf] by (fastforce simp: kids_def less_Suc_eq)
  have sk: "\<exists>ds. sorted_kids tree' j ds" if j: "j < ?n + 1" for j
  proof -
    consider (new) "j = ?n" | (here) "j = i" | (other) "j < ?n" "j \<noteq> i"
      using j by linarith
    then show ?thesis
    proof cases
      case new
      then show ?thesis
        using kidsn n by (intro exI [of _ "[]"]) (simp add: sorted_kids_def)
    next
      case here
      let ?ds = "takeWhile (\<lambda>c. name_of tree c < name) cs @ ?n # dropWhile (\<lambda>c. name_of tree c < name) cs"
      have k: "set cs = kids tree i" "sorted_wrt (<) (map (name_of tree) cs)"
        using cs by (auto simp: sorted_kids_def)
      have eq: "name_of tree' c = name_of tree c" if "c \<in> set cs" for c
        using that k(1) keep(1) by (auto simp: kids_def)
      have tk: "takeWhile (\<lambda>c. name_of tree' c < name) cs = takeWhile (\<lambda>c. name_of tree c < name) cs"
        by (rule takeWhile_cong) (simp_all add: eq)
      have dk: "dropWhile (\<lambda>c. name_of tree' c < name) cs = dropWhile (\<lambda>c. name_of tree c < name) cs"
        by (rule dropWhile_cong) (simp_all add: eq)
      have "sorted_wrt (<) (map (name_of tree') cs)"
        using k(2) eq by (metis (no_types, lifting) map_eq_conv)
      moreover have "name \<notin> name_of tree' ` set cs"
        using new kid_dirs [OF wf i, of name] k(1) eq by auto
      ultimately have "sorted_wrt (<) (map (name_of tree') ?ds)"
        using n(2) by (rule sorted_insert_point [of "name_of tree'" cs name ?n, unfolded tk dk])
      moreover have "set ?ds = insert ?n
          (set (takeWhile (\<lambda>c. name_of tree c < name) cs @ dropWhile (\<lambda>c. name_of tree c < name) cs))"
        unfolding set_append by auto
      then have "set ?ds = kids tree' i"
        using kids' [OF i] k(1) by simp
      ultimately show ?thesis
        using eff here by (intro exI [of _ ?ds]) (simp add: sorted_kids_def)
    next
      case other
      then obtain ds where ds: "sorted_kids tree j ds"
        using dir_wfD(10) [OF wf] by blast
      have "c \<notin> kids tree i \<and> c < ?n" if "c \<in> set ds" for c
        using that ds other by (auto simp: sorted_kids_def kids_def)
      then have same: "next_sibling (nodes tree' ! c) = next_sibling (nodes tree ! c)"
        "name_of tree' c = name_of tree c" if "c \<in> set ds" for c
        using that eff by auto
      have "link tree' (first_child (nodes tree ! j)) ds (- 1)"
        by (rule link_frame [OF _ same(1)]) (use ds in \<open>auto simp: sorted_kids_def\<close>)
      moreover have "sorted_wrt (<) (map (name_of tree') ds)"
        using ds same(2) unfolding sorted_kids_def by (metis (no_types, lifting) map_eq_conv)
      ultimately show ?thesis
        using ds eff other kids' [of j] by (intro exI [of _ ds]) (simp add: sorted_kids_def)
    qed
  qed
  have "dir_wf tree'"
    unfolding dir_wf_def
  proof (intro conjI allI impI)
    fix j assume j: "j < node_count tree'"
    then have jn: "j = ?n \<or> j < ?n"
      using n(1) by auto
    show "used (nodes tree' ! j)"
      using jn keep(3) n by auto
    show "length (render True (path_of tree' j)) < FS_PATH_MAX"
      using jn path pathn len dir_wfD(11) [OF wf] by (auto simp: FS_PATH_MAX_def)
    show "\<exists>ds. sorted_kids tree' j ds"
      using sk j n(1) by simp
    assume "0 < j"
    then show "0 \<le> parent (nodes tree' ! j)" "parent (nodes tree' ! j) < int j"
      "entry_name (name_of tree' j)"
      using jn keep n nm i dir_wfD(7,8,9) [OF wf, of j] by auto
  qed (use eff n dir_wfD(1-5) [OF wf] room in \<open>auto simp: FS_DIR_MAX_NODES_def\<close>)
  then show thesis
    using that t' n(1) eff path pathn by simp
qed


lemma mkdir_from_step:
  assumes "name_ok d" "set ds \<subseteq> Collect name_ok"
  shows "mkdir_from cp tree cur (join_segments (d # ds)) ca =
    (if length d > FS_DIR_NAME_MAX then Some (- 1, tree)
     else do {
       child \<leftarrow> find_child tree cur d;
       if child \<ge> 0 then
         if ds = [] \<and> \<not> cp then Some (- 1, tree) else mkdir_from cp tree child (join_segments ds) ca
       else if \<not> cp \<and> ds \<noteq> [] then Some (- 1, tree)
       else
         let (new_node, tree) = alloc_node tree in
         if new_node < 0 then Some (- 1, tree)
         else do {
           tree \<leftarrow> insert_child_sorted
             (update_node new_node
               (\<lambda>n. n \<lparr> node_name := d, parent := cur, first_child := - 1, next_sibling := - 1 \<rparr>) tree)
             cur new_node;
           mkdir_from cp tree new_node (join_segments ds) True
         }
     })"
proof -
  have "d \<noteq> []"
    using assms(1) by (simp add: name_ok_def)
  moreover have "join_segments (d # ds) \<noteq> []"
    by (rule component_join(4) [OF assms])
  ultimately show ?thesis
    by (subst mkdir_from.simps, unfold component_join [OF assms] Let_def) (simp cong: if_cong)
qed

lemma mkdir_from_Nil:
  "mkdir_from cp tree cur [] ca = Some (if \<not> cp \<and> \<not> ca then - 1 else 0, tree)"
  by (subst mkdir_from.simps) simp

text \<open>One component that does not exist yet is created, if there is a free node.\<close>

lemma mkdir_from_create:
  assumes wf: "dir_wf tree" and i: "i < node_count tree" and room: "node_count tree < 128"
    and nm: "entry_name d" and new: "path_of tree i @ [d] \<notin> dirs tree"
    and len: "length (render True (path_of tree i @ [d])) < 256"
    and ds: "set ds \<subseteq> Collect name_ok" and cp: "cp \<or> ds = []"
  obtains tree' where
    "mkdir_from cp tree (int i) (join_segments (d # ds)) ca =
       mkdir_from cp tree' (int (node_count tree)) (join_segments ds) True"
    "dir_wf tree'" "node_count tree' = node_count tree + 1" "cwd_index tree' = cwd_index tree"
    "\<And>j. j < node_count tree \<Longrightarrow> path_of tree' j = path_of tree j"
    "path_of tree' (node_count tree) = path_of tree i @ [d]"
    "dirs tree' = insert (path_of tree i @ [d]) (dirs tree)"
proof -
  obtain tree' where t':
    "insert_child_sorted (add_node tree i d) (int i) (int (node_count tree)) = Some tree'"
    "dir_wf tree'" "node_count tree' = node_count tree + 1" "cwd_index tree' = cwd_index tree"
    "\<And>j. j < node_count tree \<Longrightarrow> path_of tree' j = path_of tree j"
    "path_of tree' (node_count tree) = path_of tree i @ [d]"
    using attach_wf [OF wf i room nm new len] by blast
  have d: "name_ok d" "\<not> FS_DIR_NAME_MAX < length d" "c_string d"
    using nm by (auto simp: entry_name_def dir_name_def)
  have "dirs tree' = insert (path_of tree i @ [d]) (dirs tree)"
    using t'(3,5,6) by (auto simp: dirs_def lessThan_Suc)
  moreover have "find_child tree (int i) d = Some (- 1)"
    using find_child_wf [OF wf i d(3)] kid_dirs [OF wf i, of d] new by auto
  then have "mkdir_from cp tree (int i) (join_segments (d # ds)) ca =
      mkdir_from cp tree' (int (node_count tree)) (join_segments ds) True"
    using mkdir_from_step [OF d(1) ds, of cp tree "int i" ca] d(2) cp t'(1)
      alloc_fill(2) [OF wf room, where name = d and i = i]
    by (subst (asm) alloc_fill(1) [OF wf room]) auto
  ultimately show thesis
    using that t' by blast
qed

lemma mkdir_from_full:
  assumes "dir_wf tree" "i < node_count tree" "\<not> node_count tree < 128"
    "path_of tree i @ [d] \<notin> dirs tree" "name_ok d" "c_string d" "set ds \<subseteq> Collect name_ok"
  shows "mkdir_from cp tree (int i) (join_segments (d # ds)) ca = Some (- 1, tree)"
proof -
  have "find_child tree (int i) d = Some (- 1)"
    using find_child_wf [OF assms(1,2,6)] kid_dirs [OF assms(1,2), of d] assms(4) by auto
  then show ?thesis
    using mkdir_from_step [OF assms(5,7), of cp tree "int i" ca] alloc_full [OF assms(3)] by simp
qed

text \<open>A component that exists is entered.\<close>

lemma mkdir_from_enter:
  assumes wf: "dir_wf tree" and i: "i < node_count tree" and old: "path_of tree i @ [d] \<in> dirs tree"
    and ds: "set ds \<subseteq> Collect name_ok" and cp: "cp \<or> ds \<noteq> []"
  obtains c where "c < node_count tree" "path_of tree c = path_of tree i @ [d]"
    "mkdir_from cp tree (int i) (join_segments (d # ds)) ca =
       mkdir_from cp tree (int c) (join_segments ds) ca"
proof -
  have d: "entry_name d"
    using dirs_entries [OF wf old] by simp
  then have d': "name_ok d" "\<not> FS_DIR_NAME_MAX < length d" "c_string d"
    by (auto simp: entry_name_def dir_name_def)
  from find_child_wf [OF wf i d'(3)] old obtain c where c: "c \<in> kids tree i" "name_of tree c = d"
    "find_child tree (int i) d = Some (int c)"
    by auto
  then have "c < node_count tree" "path_of tree c = path_of tree i @ [d]"
    using path_of_kid [OF wf] by (auto simp: kids_def)
  then show thesis
    using that c(3) mkdir_from_step [OF d'(1) ds, of cp tree "int i" ca] d'(2) cp by auto
qed


definition extends :: "fs_dir_tree \<Rightarrow> fs_dir_tree \<Rightarrow> bool" where
  \<comment> \<open>directories are added; those that exist keep their index and their place\<close>
  "extends tree tree' \<longleftrightarrow> dir_wf tree' \<and> cwd_index tree' = cwd_index tree \<and>
     node_count tree \<le> node_count tree' \<and> (\<forall>j < node_count tree. path_of tree' j = path_of tree j)"

lemma extends_refl: "dir_wf tree \<Longrightarrow> extends tree tree"
  by (simp add: extends_def)

lemma extends_trans: "extends a b \<Longrightarrow> extends b c \<Longrightarrow> extends a c"
  by (auto simp: extends_def)

lemma extends_dirs: "extends a b \<Longrightarrow> dirs a \<subseteq> dirs b"
  by (clarsimp simp: extends_def dirs_def) (metis imageI lessThan_iff less_le_trans)

lemma length_join_append: "length (join_segments xs) \<le> length (join_segments (xs @ ys))"
  by (induction xs rule: join_segments.induct) (cases ys; simp add: join_segments_Cons)+

lemma length_render_append: "length (render True xs) \<le> length (render True (xs @ ys))"
  using length_join_append [of xs ys] by (simp add: render_def)

lemma mkdir_from_single:
  assumes "dir_wf tree" "i < node_count tree" "ds \<noteq> []"
    "set ds \<subseteq> Collect dir_name" "set ds \<subseteq> Collect c_string"
    "length (render True (path_of tree i @ ds)) < 256"
  shows "if path_of tree i @ ds \<notin> dirs tree \<and> path_of tree i @ butlast ds \<in> dirs tree
      \<and> length (last ds) \<le> FS_DIR_NAME_MAX \<and> node_count tree < FS_DIR_MAX_NODES
    then \<exists>tree'. mkdir_from False tree (int i) (join_segments ds) False = Some (0, tree') \<and>
      extends tree tree' \<and> dirs tree' = insert (path_of tree i @ ds) (dirs tree)
    else mkdir_from False tree (int i) (join_segments ds) False = Some (- 1, tree)"
  using assms
proof (induction ds arbitrary: i)
  case (Cons d ds)
  note wf = Cons.prems(1) and i = Cons.prems(2)
  have nm: "name_ok d" "dir_name d" "c_string d" "set ds \<subseteq> Collect name_ok"
    using Cons.prems(4,5) by (auto simp: dir_name_def)
  note step = mkdir_from_step [OF nm(1,4), of False tree "int i" False]
  show ?case
  proof (cases "path_of tree i @ [d] \<in> dirs tree")
    case True
    show ?thesis
    proof (cases "ds = []")
      case False
      obtain c where c: "c < node_count tree" "path_of tree c = path_of tree i @ [d]"
        "mkdir_from False tree (int i) (join_segments (d # ds)) False =
         mkdir_from False tree (int c) (join_segments ds) False"
        using mkdir_from_enter [OF wf i True nm(4), of False False] False by blast
      have path: "path_of tree c @ xs = path_of tree i @ d # xs" for xs
        using c(2) by simp
      from Cons.IH [OF wf c(1) False] Cons.prems(4-6) show ?thesis
        unfolding path c(3) using False by simp
    next
      case d: True
      have "entry_name d"
        using dirs_entries [OF wf True] by simp
      then have "length d \<le> FS_DIR_NAME_MAX"
        by (simp add: entry_name_def)
      then show ?thesis
        using True d step find_child_wf [OF wf i nm(3)] by auto
    qed
  next
    case False
    have lend: "length (render True (path_of tree i @ [d])) < 256"
      using length_render_append [of "path_of tree i @ [d]" ds] Cons.prems(6) by simp
    have pi: "path_of tree i \<in> dirs tree"
      using i by (auto simp: dirs_def)
    show ?thesis
    proof (cases "ds = []")
      case ds: True
      show ?thesis
      proof (cases "length d \<le> FS_DIR_NAME_MAX \<and> node_count tree < 128")
        case True
        then have e: "entry_name d" "node_count tree < 128"
          using nm by (simp_all add: entry_name_def)
        obtain tree' where "mkdir_from False tree (int i) (join_segments (d # ds)) False =
            mkdir_from False tree' (int (node_count tree)) (join_segments ds) True"
          "dir_wf tree'" "node_count tree' = node_count tree + 1" "cwd_index tree' = cwd_index tree"
          "\<And>j. j < node_count tree \<Longrightarrow> path_of tree' j = path_of tree j"
          "dirs tree' = insert (path_of tree i @ [d]) (dirs tree)"
          by (rule mkdir_from_create [OF wf i e(2,1) False lend nm(4), of False False])
            (simp add: ds, rule that)
        then show ?thesis
          using ds False True pi by (simp add: mkdir_from_Nil extends_def FS_DIR_MAX_NODES_def)
      next
        case t: False
        show ?thesis
        proof (cases "length d \<le> FS_DIR_NAME_MAX")
          case True
          then show ?thesis
            using t ds mkdir_from_full [OF wf i _ False nm(1,3,4), of False False]
            by (simp add: FS_DIR_MAX_NODES_def)
        next
          case lng: False
          then show ?thesis
            unfolding step using ds by simp
        qed
      qed
    next
      case ds: False
      have "path_of tree i @ d # butlast ds \<notin> dirs tree"
        using dirs_prefix [OF wf, of "path_of tree i @ [d]" "butlast ds"] False by auto
      moreover have "find_child tree (int i) d = Some (- 1)"
        using find_child_wf [OF wf i nm(3)] kid_dirs [OF wf i, of d] False by auto
      ultimately show ?thesis
        using step ds by simp
    qed
  qed
qed simp

text \<open>
  What \<open>mkdir_p\<close> can make: the directories whose names fit and for which there are enough free nodes, one for each
  directory on the way that does not exist yet.
\<close>

definition missing :: "fs_dir_tree \<Rightarrow> string list \<Rightarrow> nat" where
  "missing tree ds = card {p. prefix p ds \<and> p \<notin> dirs tree}"

definition can_make :: "fs_dir_tree \<Rightarrow> string list \<Rightarrow> bool" where
  "can_make tree ds \<longleftrightarrow> (\<forall>d \<in> set ds. length d \<le> FS_DIR_NAME_MAX) \<and> node_count tree + missing tree ds \<le> FS_DIR_MAX_NODES"

lemma finite_prefixes: "finite {p. prefix p ds}"
  by (metis List.finite_set in_set_prefixes Collect_mem_eq Collect_cong)

lemma dirs_prefixes: "dir_wf tree \<Longrightarrow> ds \<in> dirs tree \<Longrightarrow> prefix p ds \<Longrightarrow> p \<in> dirs tree"
  using dirs_prefix by (auto simp: prefix_def)

lemma can_make_dirs: "dir_wf tree \<Longrightarrow> ds \<in> dirs tree \<Longrightarrow> can_make tree ds"
proof -
  assume wf: "dir_wf tree" and ds: "ds \<in> dirs tree"
  have none: "{p. prefix p ds \<and> p \<notin> dirs tree} = {}"
    using dirs_prefixes [OF wf ds] by auto
  have "missing tree ds = 0"
    unfolding missing_def none by simp
  then show "can_make tree ds"
    using dirs_entries [OF wf ds] dir_wfD(3) [OF wf] by (auto simp: can_make_def entry_name_def FS_DIR_MAX_NODES_def)
qed

lemma missing_pos: "prefix p ds \<Longrightarrow> p \<notin> dirs tree \<Longrightarrow> 0 < missing tree ds"
  using finite_subset [OF _ finite_prefixes, of "{p. prefix p ds \<and> p \<notin> dirs tree}" ds] by (auto simp: missing_def card_gt_0_iff)

lemma missing_le: "missing tree ds \<le> length ds + 1"
proof -
  have "{p. prefix p ds \<and> p \<notin> dirs tree} \<subseteq> set (prefixes ds)"
    by auto
  from card_mono [OF _ this] show ?thesis
    using card_length [of "prefixes ds"] by (simp add: missing_def)
qed

lemma missing_insert:
  assumes "dirs t = insert p (dirs tree)" "p \<notin> dirs tree" "prefix p ds"
  shows "missing tree ds = missing t ds + 1"
proof -
  have "{q. prefix q ds \<and> q \<notin> dirs tree} = insert p {q. prefix q ds \<and> q \<notin> dirs t}"
    using assms by auto
  moreover have "finite {q. prefix q ds \<and> q \<notin> dirs t}"
    using finite_prefixes [of ds] by (rule rev_finite_subset) auto
  ultimately show ?thesis
    using assms(1) by (simp add: missing_def)
qed

lemma prefix_step: "prefix q (xs @ d # ds) \<Longrightarrow> prefix q xs \<or> prefix (xs @ [d]) q"
  by (auto simp: prefix_append prefix_Cons)

lemma mkdir_from_parents:
  assumes "dir_wf tree" "i < node_count tree"
    "set ds \<subseteq> Collect dir_name" "set ds \<subseteq> Collect c_string"
    "length (render True (path_of tree i @ ds)) < 256"
  shows "\<exists>tree'. mkdir_from True tree (int i) (join_segments ds) ca =
      Some (if can_make tree (path_of tree i @ ds) then 0 else - 1, tree') \<and> extends tree tree' \<and>
    dirs tree' = dirs tree \<union> {q. prefix q (path_of tree i @ ds) \<and> can_make tree q}"
  using assms
proof (induction ds arbitrary: tree i ca)
  case Nil
  have pi: "path_of tree i \<in> dirs tree"
    using Nil.prems(2) by (simp add: dirs_def)
  have "dirs tree \<union> {q. prefix q (path_of tree i) \<and> can_make tree q} = dirs tree"
    using dirs_prefixes [OF Nil.prems(1) pi] by auto
  then show ?case
    using can_make_dirs [OF Nil.prems(1) pi] extends_refl [OF Nil.prems(1)] by (simp add: mkdir_from_Nil)
next
  case (Cons d ds)
  note wf = Cons.prems(1) and i = Cons.prems(2)
  let ?pi = "path_of tree i" and ?p = "path_of tree i @ d # ds"
  have nm: "name_ok d" "dir_name d" "c_string d" "set ds \<subseteq> Collect name_ok"
    using Cons.prems(3,4) by (auto simp: dir_name_def)
  have pi: "?pi \<in> dirs tree"
    using i by (simp add: dirs_def)
  have cases: "q \<in> dirs tree \<or> prefix (?pi @ [d]) q" if "prefix q ?p" for q
    using prefix_step [OF that] dirs_prefixes [OF wf pi] by blast
  show ?case
  proof (cases "?pi @ [d] \<in> dirs tree")
    case True
    obtain c where "c < node_count tree" "path_of tree c = ?pi @ [d]"
      "mkdir_from True tree (int i) (join_segments (d # ds)) ca =
       mkdir_from True tree (int c) (join_segments ds) ca"
      using mkdir_from_enter [OF wf i True nm(4), of True ca] by blast
    then show ?thesis
      using Cons.IH [of tree c ca] Cons.prems by auto
  next
    case False
    have down: "prefix (?pi @ [d]) ?p"
      by (simp add: prefix_def)
    have none: ?thesis if run: "mkdir_from True tree (int i) (join_segments (d # ds)) ca = Some (- 1, tree)"
      and no: "\<And>q. prefix (?pi @ [d]) q \<Longrightarrow> \<not> can_make tree q"
    proof -
      have "dirs tree \<union> {q. prefix q ?p \<and> can_make tree q} = dirs tree"
        using cases no by blast
      then show ?thesis
        using run no [OF down] extends_refl [OF wf] by simp
    qed
    consider (long) "FS_DIR_NAME_MAX < length d"
      | (full) "length d \<le> FS_DIR_NAME_MAX" "\<not> node_count tree < 128"
      | (new) "length d \<le> FS_DIR_NAME_MAX" "node_count tree < 128" by linarith
    then show ?thesis
    proof cases
      case long
      then show ?thesis
        using mkdir_from_step [OF nm(1,4), of True tree "int i" ca] by (intro none) (auto simp: can_make_def prefix_def)
    next
      case full
      then show ?thesis
        using mkdir_from_full [OF wf i full(2) False nm(1,3,4), of True ca] missing_pos [OF _ False]
        by (intro none) (fastforce simp: can_make_def FS_DIR_MAX_NODES_def)+
    next
      case new
      have e: "entry_name d"
        using nm new by (simp add: entry_name_def)
      have lend: "length (render True (?pi @ [d])) < 256"
        using length_render_append [of "?pi @ [d]" ds] Cons.prems(5) by simp
      obtain t where t: "mkdir_from True tree (int i) (join_segments (d # ds)) ca =
          mkdir_from True t (int (node_count tree)) (join_segments ds) True"
        "dir_wf t" "node_count t = node_count tree + 1" "cwd_index t = cwd_index tree"
        "\<And>j. j < node_count tree \<Longrightarrow> path_of t j = path_of tree j"
        "path_of t (node_count tree) = ?pi @ [d]"
        "dirs t = insert (?pi @ [d]) (dirs tree)"
        using mkdir_from_create [OF wf i new(2) e False lend nm(4), of True ca] by blast
      have ext: "extends tree t"
        using t by (simp add: extends_def)
      have path: "path_of t (node_count tree) @ ds = ?p"
        using t(6) by simp
      obtain t' where r: "mkdir_from True t (int (node_count tree)) (join_segments ds) True = Some (if can_make t ?p then 0 else - 1, t')"
        "extends t t'" "dirs t' = dirs t \<union> {q. prefix q ?p \<and> can_make t q}"
        using Cons.IH [OF t(2), of "node_count tree" True, unfolded path] t(3) Cons.prems(3-5) by auto
      have same: "can_make t q = can_make tree q" if "prefix (?pi @ [d]) q" for q
        using missing_insert [OF t(7) False that] t(3) by (simp add: can_make_def)
      have "can_make t (?pi @ [d])"
        by (rule can_make_dirs [OF t(2)]) (simp add: t(7))
      then have "can_make tree (?pi @ [d])"
        using same by simp
      then have "dirs t' = dirs tree \<union> {q. prefix q ?p \<and> can_make tree q}"
        using cases same down unfolding r(3) t(7) by blast
      moreover have "can_make t ?p = can_make tree ?p"
        using same down by blast
      moreover have "extends tree t'"
        using ext r(2) by (rule extends_trans)
      ultimately show ?thesis
        unfolding t(1) r(1) by simp
    qed
  qed
qed


subsection \<open>The operations of the component on a well-formed tree\<close>

lemma c_string_join: "set ds \<subseteq> Collect c_string \<Longrightarrow> c_string (join_segments ds)"
  by (induction ds rule: join_segments.induct) auto

lemma c_string_render: "set ds \<subseteq> Collect c_string \<Longrightarrow> c_string (render True ds)"
  by (simp add: render_def c_string_join)

lemma mkdir_internal_wf:
  assumes "dir_wf tree" "c_string path" "path_fits tree path"
  shows "mkdir_internal tree path cp =
    (if target tree path = [] then Some (- 1, tree)
     else mkdir_from cp tree 0 (join_segments (target tree path)) False)"
proof -
  have "dir_strcmp (render True (target tree path)) ''/'' = 0 \<longleftrightarrow> target tree path = []"
    using c_string_render [OF target_wf(3) [OF assms(1,2)]] render_root_iff [OF target_wf(1) [OF assms(1,2)]]
    by simp
  then show ?thesis
    using assms by (simp add: mkdir_internal_def path_fits_resolve(1) render_def)
qed

lemma mkdir_internal_unfit: "\<not> path_fits tree path \<Longrightarrow> mkdir_internal tree path cp = Some (- 1, tree)"
  by (simp add: mkdir_internal_def path_fits_not)

lemma root_in_dirs: "dir_wf tree \<Longrightarrow> [] \<in> dirs tree"
  using dir_wfD(2) by (force simp: dirs_def)

lemma fs_dir_mkdir_wf:
  assumes "dir_wf tree" "c_string path"
  shows "let p = target tree path in
    if path_fits tree path \<and> p \<notin> dirs tree \<and> butlast p \<in> dirs tree
       \<and> length (last p) \<le> FS_DIR_NAME_MAX \<and> node_count tree < FS_DIR_MAX_NODES
    then \<exists>tree'. fs_dir_mkdir tree path = Some (0, tree') \<and> extends tree tree' \<and>
           dirs tree' = insert p (dirs tree)
    else fs_dir_mkdir tree path = Some (- 1, tree)"
proof (cases "path_fits tree path \<and> target tree path \<noteq> []")
  case True
  note ds = target_wf [OF assms]
  have "set (target tree path) \<subseteq> Collect dir_name"
    using ds(1) by (simp add: abs_dirs_def)
  from mkdir_from_single [OF assms(1) dir_wfD(2) [OF assms(1)] _ this ds(3),
      unfolded of_nat_0 path_of_0 append_Nil] True show ?thesis
    using path_fits_resolve(2) [OF assms(1)] mkdir_internal_wf [OF assms, of False]
    by (auto simp: fs_dir_mkdir_def Let_def split: if_splits)
next
  case False
  then show ?thesis
    using assms root_in_dirs [OF assms(1)] mkdir_internal_wf [OF assms, of False] mkdir_internal_unfit
    by (cases "path_fits tree path") (auto simp: fs_dir_mkdir_def Let_def)
qed

lemma fs_dir_mkdir_p_wf:
  assumes "dir_wf tree" "c_string path"
  defines "p \<equiv> target tree path" and "ok \<equiv> path_fits tree path \<and> target tree path \<noteq> []"
  shows "\<exists>tree'. fs_dir_mkdir_p tree path = Some (if ok \<and> can_make tree p then 0 else - 1, tree') \<and> extends tree tree' \<and>
    dirs tree' = dirs tree \<union> (if ok then {q. prefix q p \<and> can_make tree q} else {})"
proof (cases ok)
  case True
  note ds = target_wf [OF assms(1,2)]
  have "set (target tree path) \<subseteq> Collect dir_name"
    using ds(1) by (simp add: abs_dirs_def)
  from mkdir_from_parents [OF assms(1) dir_wfD(2) [OF assms(1)] this ds(3), of False,
      unfolded of_nat_0 path_of_0 append_Nil] True show ?thesis
    using path_fits_resolve(2) [OF assms(1)] mkdir_internal_wf [OF assms(1,2), of True]
    by (simp add: fs_dir_mkdir_p_def ok_def p_def)
next
  case False
  then have "fs_dir_mkdir_p tree path = Some (- 1, tree)"
    using assms mkdir_internal_wf [OF assms(1,2), of True] mkdir_internal_unfit
    by (cases "path_fits tree path") (auto simp: fs_dir_mkdir_p_def)
  then show ?thesis
    using False extends_refl [OF assms(1)] by simp
qed

text \<open>Changing the current directory leaves the nodes alone.\<close>

lemma path_of_cwd [simp]: "path_of (tree \<lparr> cwd_index := i \<rparr>) j = path_of tree j"
proof (induction j rule: less_induct)
  case (less j)
  then show ?case
    by (cases "0 \<le> parent (nodes tree ! j) \<and> parent (nodes tree ! j) < int j";
        subst (1 2) path_of.simps) auto
qed

lemma link_cwd [simp]: "link (tree \<lparr> cwd_index := i \<rparr>) s cs e = link tree s cs e"
  by (induction cs arbitrary: s) auto

lemma cwd_update_frame [simp]:
  "kids (tree \<lparr> cwd_index := i \<rparr>) j = kids tree j"
  "sorted_kids (tree \<lparr> cwd_index := i \<rparr>) j cs = sorted_kids tree j cs"
  "dirs (tree \<lparr> cwd_index := i \<rparr>) = dirs tree"
  "cwd_names (tree \<lparr> cwd_index := i \<rparr>) = path_of tree (nat i)"
  by (auto simp: kids_def sorted_kids_def dirs_def cwd_names_def)

lemma dir_wf_cwd: "dir_wf tree \<Longrightarrow> j < node_count tree \<Longrightarrow> dir_wf (tree \<lparr> cwd_index := int j \<rparr>)"
  by (simp add: dir_wf_def)

lemma fs_dir_pwd_wf:
  "dir_wf tree \<Longrightarrow> fs_dir_pwd tree n =
    (if length (render True (cwd_names tree)) < n then Some (render True (cwd_names tree)) else None)"
  by (auto simp: fs_dir_pwd_def cwd_wf(5))

lemma fs_dir_cd_wf:
  assumes "dir_wf tree" "c_string path"
  shows "if path_fits tree path \<and> target tree path \<in> dirs tree
    then \<exists>j < node_count tree. path_of tree j = target tree path \<and>
      fs_dir_cd tree path = Some (0, tree \<lparr> cwd_index := int j \<rparr>)
    else fs_dir_cd tree path = Some (- 1, tree)"
  using fs_dir_walk_wf [OF assms] assms(1) by (auto simp: fs_dir_cd_def split: if_splits)

text \<open>The entries of a directory.\<close>

definition entries_of :: "fs_dir_tree \<Rightarrow> string list \<Rightarrow> string list" where
  "entries_of tree p = sorted_list_of_set {x. p @ [x] \<in> dirs tree}"

lemma sorted_kids_entries:
  assumes "dir_wf tree" "i < node_count tree" "sorted_kids tree i cs"
  shows "map (name_of tree) cs = entries_of tree (path_of tree i)"
proof -
  have "{x. path_of tree i @ [x] \<in> dirs tree} = set (map (name_of tree) cs)"
    using kid_dirs [OF assms(1,2)] assms(3) by (auto simp: sorted_kids_def)
  moreover have "sorted (map (name_of tree) cs)" "distinct (map (name_of tree) cs)"
    using assms(3) by (auto simp: sorted_kids_def strict_sorted_iff)
  ultimately show ?thesis
    by (simp only: entries_of_def sorted_list_of_set.idem_if_sorted_distinct)
qed

lemma fs_dir_readdir_wf:
  assumes "dir_wf tree" "c_string path"
  shows "fs_dir_readdir tree path entries =
    (let es = entries_of tree (target tree path) in
     if path_fits tree path \<and> target tree path \<in> dirs tree
     then Some (case entries of None \<Rightarrow> (0, [], length es)
                | Some n \<Rightarrow> (if n < length es then - 1 else 0, take n es, length es))
     else Some (- 1, [], 0))"
proof (cases "path_fits tree path \<and> target tree path \<in> dirs tree")
  case True
  then obtain j where j: "j < node_count tree" "path_of tree j = target tree path"
    "fs_dir_walk tree path = Some (Some (int j))"
    using fs_dir_walk_wf [OF assms] by auto
  obtain cs where cs: "sorted_kids tree j cs"
    using dir_wfD(10) [OF assms(1) j(1)] by blast
  have es: "map (name_of tree) cs = entries_of tree (target tree path)"
    using sorted_kids_entries [OF assms(1) j(1) cs] j(2) by simp
  then have len: "length cs = length (entries_of tree (target tree path))"
    using length_map by metis
  have "\<And>c. c \<in> set cs \<Longrightarrow> used (nodes tree ! c)"
    using cs dir_wfD(6) [OF assms(1)] by (auto simp: sorted_kids_def kids_def)
  from readdir_scan_link [where s = "first_child (nodes tree ! j)" and
      cs = cs and entries = entries and copied = "[]" and count = 0 and overflow = False] show ?thesis
    using True assms(1) j(3) cs \<open>\<And>c. c \<in> set cs \<Longrightarrow> used (nodes tree ! c)\<close>
    by (simp add: fs_dir_readdir_def sorted_kids_def Let_def es len split: option.splits)
next
  case False
  then have "fs_dir_walk tree path = Some None"
    using fs_dir_walk_wf [OF assms] by auto
  then show ?thesis
    using False assms(1) by (auto simp: fs_dir_readdir_def Let_def)
qed

lemma fs_dir_init_nodes:
  "node_count fs_dir_init = 1" "cwd_index fs_dir_init = 0" "length (nodes fs_dir_init) = 128"
  "nodes fs_dir_init ! 0 =
     \<lparr> node_name = [], parent = - 1, first_child = - 1, next_sibling = - 1, used = True \<rparr>"
  by (simp_all add: fs_dir_init_def update_node_def zero_node_def FS_DIR_MAX_NODES_def)

lemma fs_dir_init_wf [simp]:
  "dir_wf fs_dir_init" "dirs fs_dir_init = {[]}" "cwd_names fs_dir_init = []"
proof -
  have k: "kids fs_dir_init 0 = {}"
    by (auto simp: kids_def fs_dir_init_nodes)
  show d: "dirs fs_dir_init = {[]}" "cwd_names fs_dir_init = []"
    by (simp_all add: dirs_def cwd_names_def fs_dir_init_nodes lessThan_Suc)
  have "sorted_kids fs_dir_init 0 []"
    by (simp add: sorted_kids_def fs_dir_init_nodes k)
  then show "dir_wf fs_dir_init"
    by (auto simp: dir_wf_def fs_dir_init_nodes FS_DIR_MAX_NODES_def FS_PATH_MAX_def render_def)
qed


subsection \<open>Sequences of calls\<close>

datatype dir_call = Mkdir string | Mkdir_p string | Cd string

fun dir_call_path :: "dir_call \<Rightarrow> string" where
  "dir_call_path (Mkdir path) = path"
| "dir_call_path (Mkdir_p path) = path"
| "dir_call_path (Cd path) = path"

fun dir_step :: "fs_dir_tree \<Rightarrow> dir_call \<Rightarrow> fs_dir_tree option" where
  "dir_step tree (Mkdir path) = map_option snd (fs_dir_mkdir tree path)"
| "dir_step tree (Mkdir_p path) = map_option snd (fs_dir_mkdir_p tree path)"
| "dir_step tree (Cd path) = map_option snd (fs_dir_cd tree path)"

definition dir_admits :: "dir_call \<Rightarrow> bool" where
  "dir_admits call \<longleftrightarrow> c_string (dir_call_path call)"

lemma dir_step_safe:
  "dir_wf tree \<Longrightarrow> dir_admits call \<Longrightarrow>
   \<exists>tree'. dir_step tree call = Some tree' \<and> dir_wf tree' \<and> dirs tree \<subseteq> dirs tree'"
proof (cases call)
  case (Mkdir path)
  assume a: "dir_wf tree" "dir_admits call"
  then have "fs_dir_mkdir tree path = Some (- 1, tree) \<or>
    (\<exists>tree'. fs_dir_mkdir tree path = Some (0, tree') \<and> extends tree tree')"
    using fs_dir_mkdir_wf [of tree path] Mkdir by (auto simp: Let_def dir_admits_def split: if_splits)
  then show ?thesis
    using a Mkdir extends_dirs extends_def by fastforce
next
  case (Mkdir_p path)
  assume a: "dir_wf tree" "dir_admits call"
  then obtain r tree' where "fs_dir_mkdir_p tree path = Some (r, tree')" "extends tree tree'"
    using fs_dir_mkdir_p_wf [of tree path] Mkdir_p by (auto simp: dir_admits_def)
  then show ?thesis
    using Mkdir_p extends_dirs extends_def by fastforce
next
  case (Cd path)
  assume a: "dir_wf tree" "dir_admits call"
  then show ?thesis
    using fs_dir_cd_wf [of tree path] dir_wf_cwd [of tree] Cd
    by (auto simp: dir_admits_def split: if_splits)
qed

interpretation dir_machine: growing_machine dir_step dir_admits dir_wf "\<lambda>a b. dirs a \<subseteq> dirs b"
proof unfold_locales
  show "dir_wf s \<Longrightarrow> dir_admits a \<Longrightarrow> \<exists>s'. dir_step s a = Some s' \<and> dir_wf s'" for s a
    using dir_step_safe by blast
  show "dir_wf s \<Longrightarrow> dir_admits a \<Longrightarrow> dir_step s a = Some s' \<Longrightarrow> dirs s \<subseteq> dirs s'" for s a s'
    using dir_step_safe [of s a] by auto
qed auto

subsection \<open>Properties\<close>

text \<open>
  C18: every call returns and the tree stays well formed. After \<open>fs_dir_init\<close> and any sequence
  of \<open>mkdir\<close>, \<open>mkdir_p\<close> and \<open>cd\<close> calls with any C strings, no sibling loop runs forever, the
  nodes form a tree whose sibling chains are exactly the children of their directory sorted by
  name, the current directory exists, and the root is still there.
\<close>
theorem fs_dir_run_wf:
  assumes "list_all dir_admits calls"
  shows "\<exists>tree. run_steps dir_step fs_dir_init calls = Some tree \<and> dir_wf tree \<and> [] \<in> dirs tree"
proof -
  obtain tree where "run_steps dir_step fs_dir_init calls = Some tree" "dir_wf tree"
    using dir_machine.run_safe [OF fs_dir_init_wf(1) assms] by blast
  then show ?thesis
    using root_in_dirs by blast
qed

theorem fs_dir_run_wf_witness:
  "\<exists>tree. run_steps dir_step fs_dir_init [Mkdir ''usr'', Cd ''usr'', Mkdir_p ''a//b/../c'', Cd ''nowhere''] =
     Some tree \<and> dir_wf tree \<and> [] \<in> dirs tree"
  by (rule fs_dir_run_wf) (simp add: dir_admits_def)

text \<open>
  C20: \<open>fs_dir_mkdir\<close>. It succeeds exactly when the path resolves within \<open>FS_PATH_MAX\<close>, the
  directory it names does not exist but its parent does, the new name has at most
  \<open>FS_DIR_NAME_MAX\<close> characters and a node is free; then that one directory is added and every
  existing node keeps its index and its path. Otherwise it returns \<open>-1\<close> and changes nothing.
\<close>
theorem fs_dir_mkdir_spec:
  assumes "dir_wf tree" and "c_string path"
  shows "let p = target tree path in
    if path_fits tree path \<and> p \<notin> dirs tree \<and> butlast p \<in> dirs tree
       \<and> length (last p) \<le> FS_DIR_NAME_MAX \<and> node_count tree < FS_DIR_MAX_NODES
    then \<exists>tree'. fs_dir_mkdir tree path = Some (0, tree') \<and> extends tree tree' \<and>
           dirs tree' = insert p (dirs tree)
    else fs_dir_mkdir tree path = Some (- 1, tree)"
  by (rule fs_dir_mkdir_wf [OF assms])

lemma demo_target:
  "c_string ''usr''" "target fs_dir_init ''usr'' = [''usr'']" "path_fits fs_dir_init ''usr''"
  "target fs_dir_init ''/'' = []" "path_fits fs_dir_init ''/''"
  "target fs_dir_init ''a/../b/c'' = [''b'', ''c'']" "path_fits fs_dir_init ''a/../b/c''"
  by (simp_all add: target_def resolve_names_def path_segments.simps next_segment_def
      canon_step.simps canon_def path_fits_short FS_PATH_MAX_def render_def)

theorem fs_dir_mkdir_spec_witness:
  "\<exists>tree'. fs_dir_mkdir fs_dir_init ''usr'' = Some (0, tree') \<and> dirs tree' = {[], [''usr'']}"
  using fs_dir_mkdir_spec [of fs_dir_init "''usr''"]
  by (auto simp: Let_def demo_target fs_dir_init_nodes FS_DIR_NAME_MAX_def FS_DIR_MAX_NODES_def)

text \<open>
  C40: What \<open>fs_dir_mkdir_p\<close> does. It always returns, and existing directories keep their place. A path that names the
  root or does not resolve within \<open>FS_PATH_MAX\<close> is refused and nothing changes, whether or not the directory exists.
  Otherwise it makes every directory on the way to the one named whose names all have at most \<open>FS_DIR_NAME_MAX\<close>
  characters and for which there are nodes enough, and no other; it returns 0 exactly when the one named is among those
  that exist afterwards, and -1 otherwise.
\<close>
theorem fs_dir_mkdir_p_spec:
  assumes "dir_wf tree" and "c_string path"
  defines "p \<equiv> target tree path" and "ok \<equiv> path_fits tree path \<and> target tree path \<noteq> []"
  shows "\<exists>r tree'. fs_dir_mkdir_p tree path = Some (r, tree') \<and> extends tree tree' \<and>
    dirs tree' = dirs tree \<union> (if ok then {q. prefix q p \<and> can_make tree q} else {}) \<and>
    r = (if ok \<and> p \<in> dirs tree' then 0 else - 1) \<and> (ok \<longrightarrow> (p \<in> dirs tree' \<longleftrightarrow> can_make tree p))"
proof -
  obtain tree' where t: "fs_dir_mkdir_p tree path = Some (if ok \<and> can_make tree p then 0 else - 1, tree')" "extends tree tree'"
    "dirs tree' = dirs tree \<union> (if ok then {q. prefix q p \<and> can_make tree q} else {})"
    using fs_dir_mkdir_p_wf [OF assms(1,2)] unfolding p_def ok_def by blast
  have "ok \<longrightarrow> (p \<in> dirs tree' \<longleftrightarrow> can_make tree p)"
    using can_make_dirs [OF assms(1), of p] by (auto simp: t(3))
  then show ?thesis
    using t by auto
qed

lemma prefixes_two: "prefix q [a, b] \<longleftrightarrow> q = [] \<or> q = [a] \<or> q = [a, b]"
  by (auto simp: prefix_Cons)

theorem fs_dir_mkdir_p_spec_witness:
  "\<exists>tree'. fs_dir_mkdir_p fs_dir_init ''a/../b/c'' = Some (0, tree') \<and> dirs tree' = {[], [''b''], [''b'', ''c'']}"
proof -
  have "can_make fs_dir_init ds" if "prefix ds [''b'', ''c'']" for ds
  proof -
    have "length ds \<le> 2" "\<forall>d \<in> set ds. length d \<le> 31"
      using that unfolding prefixes_two by auto
    then show ?thesis
      using missing_le [of fs_dir_init ds] by (simp add: can_make_def fs_dir_init_nodes FS_DIR_MAX_NODES_def FS_DIR_NAME_MAX_def)
  qed
  then have "{q. prefix q [''b'', ''c''] \<and> can_make fs_dir_init q} = {[], [''b''], [''b'', ''c'']}"
    using prefixes_two [of _ "''b''" "''c''"] by blast
  then have e: "dirs fs_dir_init \<union> {q. prefix q [''b'', ''c''] \<and> can_make fs_dir_init q} = {[], [''b''], [''b'', ''c'']}"
    by auto
  have c: "c_string ''a/../b/c''"
    by simp
  note ok = fs_dir_mkdir_p_spec [OF fs_dir_init_wf(1) c, simplified demo_target simp_thms if_True list.distinct e]
  obtain r tree' where "fs_dir_mkdir_p fs_dir_init ''a/../b/c'' = Some (r, tree')" "dirs tree' = {[], [''b''], [''b'', ''c'']}"
    "r = (if [''b'', ''c''] \<in> dirs tree' then 0 else - 1)"
    using ok by (elim exE conjE)
  then show ?thesis
    by simp
qed

text \<open>
  \<open>fs_dir_walk\<close> finds exactly the existing directories: it returns the one node whose path
  from the root is the resolved path, and fails if there is none or the path does not resolve.
\<close>
theorem fs_dir_walk_spec:
  assumes "dir_wf tree" and "c_string path"
  shows "if path_fits tree path \<and> target tree path \<in> dirs tree
    then \<exists>j < node_count tree. path_of tree j = target tree path \<and> fs_dir_walk tree path = Some (Some (int j))
    else fs_dir_walk tree path = Some None"
  by (rule fs_dir_walk_wf [OF assms])

theorem fs_dir_walk_spec_witness:
  "fs_dir_walk fs_dir_init ''usr'' = Some None \<and> fs_dir_walk fs_dir_init ''/'' = Some (Some 0)"
  using fs_dir_walk_spec [of fs_dir_init "''usr''"] fs_dir_walk_spec [of fs_dir_init "''/''"]
  by (simp add: demo_target fs_dir_init_nodes)

text \<open>
  C37: \<open>fs_dir_readdir\<close> lists the entries of the directory the path names, complete, without
  duplicates and in byte order: \<open>*out_count\<close> is the number of its sub-directories, the first
  \<open>max_entries\<close> of their sorted names are copied, and the status is \<open>-1\<close> when they do not all
  fit (a null array only counts). A path that names no directory gives \<open>-1\<close> and count 0.
\<close>
theorem fs_dir_readdir_spec:
  assumes "dir_wf tree" and "c_string path"
  shows "fs_dir_readdir tree path entries =
    (let es = sorted_list_of_set {x. target tree path @ [x] \<in> dirs tree} in
     if path_fits tree path \<and> target tree path \<in> dirs tree
     then Some (case entries of None \<Rightarrow> (0, [], length es)
                | Some n \<Rightarrow> (if n < length es then - 1 else 0, take n es, length es))
     else Some (- 1, [], 0))"
  unfolding fs_dir_readdir_wf [OF assms] entries_of_def ..

theorem fs_dir_readdir_spec_witness:
  "\<exists>tree. fs_dir_mkdir fs_dir_init ''usr'' = Some (0, tree) \<and>
     fs_dir_readdir tree ''/'' (Some 4) = Some (0, [''usr''], 1)"
proof -
  obtain tree where t: "fs_dir_mkdir fs_dir_init ''usr'' = Some (0, tree)" "extends fs_dir_init tree"
    "dirs tree = {[], [''usr'']}"
    using fs_dir_mkdir_wf [of fs_dir_init "''usr''"]
    by (auto simp: Let_def demo_target fs_dir_init_nodes FS_DIR_NAME_MAX_def FS_DIR_MAX_NODES_def)
  then have "dir_wf tree" "cwd_names tree = []"
    by (auto simp: extends_def cwd_names_def fs_dir_init_nodes)
  then have "target tree ''/'' = []" "path_fits tree ''/''" "dir_wf tree"
    using path_fits_short [of tree "''/''"] by (simp_all add: target_def resolve_names_def
        path_segments.simps next_segment_def canon_def FS_PATH_MAX_def render_def)
  then show ?thesis
    using t(1,3) fs_dir_readdir_spec [of tree "''/''" "Some 4"] by simp
qed

text \<open>
  \<open>fs_dir_cd\<close> and \<open>fs_dir_pwd\<close>. Changing to an existing directory succeeds, keeps the tree,
  and \<open>pwd\<close> then prints the directory's absolute path whenever the buffer holds it; a \<open>cd\<close> that
  fails leaves the current directory and the tree as they were.
\<close>
theorem fs_dir_cd_pwd:
  assumes "dir_wf tree" and "c_string path"
  shows "if path_fits tree path \<and> target tree path \<in> dirs tree
    then \<exists>tree'. fs_dir_cd tree path = Some (0, tree') \<and> dir_wf tree' \<and> nodes tree' = nodes tree \<and>
      fs_dir_pwd tree' n =
        (if length (render True (target tree path)) < n then Some (render True (target tree path)) else None)
    else fs_dir_cd tree path = Some (- 1, tree)"
  using fs_dir_cd_wf [OF assms] dir_wf_cwd [OF assms(1)] fs_dir_pwd_wf
  by (auto split: if_splits)

theorem fs_dir_cd_pwd_witness:
  "fs_dir_cd fs_dir_init ''usr'' = Some (- 1, fs_dir_init) \<and>
   (\<exists>tree'. fs_dir_cd fs_dir_init ''/'' = Some (0, tree') \<and> fs_dir_pwd tree' 2 = Some ''/'')"
proof -
  have "length (render True []) < (2 :: nat)"
    by (simp add: render_def)
  then show ?thesis
    using fs_dir_cd_pwd [of fs_dir_init "''usr''" 2] fs_dir_cd_pwd [of fs_dir_init "''/''" 2]
    by (auto simp: demo_target render_def)
qed

end
