(* ===== verification/Window.thy ===== *)
theory Window
  imports Prelude
begin

text \<open>
  Windows and their geometry, \<open>kernel/wm/window.c\<close>, and the point-in-rectangle test that
  \<open>kernel/wm/focus.c\<close> and \<open>kernel/wm/drag.c\<close> share. Coordinates are 32-bit words with the
  code's saturating addition and clamped subtraction; the lemmas read them as natural numbers.
\<close>

record wm_rect =
  rect_x :: u32
  rect_y :: u32
  rect_width :: u32
  rect_height :: u32

record wm_window_style =
  border_color :: u32
  title_bar_color :: u32
  content_color :: u32
  border_thickness :: u32
  title_bar_height :: u32

record wm_window =
  title :: string
  frame :: wm_rect
  style :: wm_window_style

definition WM_DEFAULT_BORDER_THICKNESS :: u32 where "WM_DEFAULT_BORDER_THICKNESS = 1"
definition WM_DEFAULT_TITLE_BAR_HEIGHT :: u32 where "WM_DEFAULT_TITLE_BAR_HEIGHT = 18"

subsection \<open>The operations\<close>

definition min_u32 :: "u32 \<Rightarrow> u32 \<Rightarrow> u32" where
  "min_u32 a b = (if a < b then a else b)"

definition saturating_add_u32 :: "u32 \<Rightarrow> u32 \<Rightarrow> u32" where
  "saturating_add_u32 a b = (let total = a + b in if total < a then 0xffffffff else total)"

definition safe_sub_u32 :: "u32 \<Rightarrow> u32 \<Rightarrow> u32" where
  "safe_sub_u32 value subtractor = (if value \<le> subtractor then 0 else value - subtractor)"

definition effective_border :: "wm_window \<Rightarrow> u32" where
  "effective_border window =
     (let max_border_x = rect_width (frame window) div 2;
          max_border_y = rect_height (frame window) div 2;
          max_border = min_u32 max_border_x max_border_y
      in min_u32 (border_thickness (style window)) max_border)"

definition wm_window_init :: "string option \<Rightarrow> u32 \<Rightarrow> u32 \<Rightarrow> u32 \<Rightarrow> u32 \<Rightarrow> wm_window" where
  "wm_window_init window_title x y width height =
     \<lparr> title = (case window_title of None \<Rightarrow> [] | Some t \<Rightarrow> t),
       frame = \<lparr> rect_x = x, rect_y = y, rect_width = width, rect_height = height \<rparr>,
       style = \<lparr> border_color = 0x00d8d8d8, title_bar_color = 0x0039699f,
                 content_color = 0x00f2f4f8, border_thickness = WM_DEFAULT_BORDER_THICKNESS,
                 title_bar_height = WM_DEFAULT_TITLE_BAR_HEIGHT \<rparr> \<rparr>"

definition empty_rect :: wm_rect where
  "empty_rect = \<lparr> rect_x = 0, rect_y = 0, rect_width = 0, rect_height = 0 \<rparr>"

definition wm_window_title_bar_rect :: "wm_window \<Rightarrow> wm_rect" where
  "wm_window_title_bar_rect window =
     (let frame_width = rect_width (frame window);
          frame_height = rect_height (frame window)
      in if frame_width = 0 \<or> frame_height = 0 then empty_rect
         else
           let border = effective_border window;
               inner_width = safe_sub_u32 (safe_sub_u32 frame_width border) border;
               inner_height = safe_sub_u32 (safe_sub_u32 frame_height border) border
           in \<lparr> rect_x = saturating_add_u32 (rect_x (frame window)) border,
                rect_y = saturating_add_u32 (rect_y (frame window)) border,
                rect_width = inner_width,
                rect_height = min_u32 (title_bar_height (style window)) inner_height \<rparr>)"

definition wm_window_content_rect :: "wm_window \<Rightarrow> wm_rect" where
  "wm_window_content_rect window =
     (let title_bar = wm_window_title_bar_rect window;
          frame_height = rect_height (frame window)
      in if frame_height = 0 then empty_rect
         else
           let border = effective_border window;
               inner_height = safe_sub_u32 (safe_sub_u32 frame_height border) border
           in \<lparr> rect_x = rect_x title_bar,
                rect_y = saturating_add_u32 (rect_y title_bar) (rect_height title_bar),
                rect_width = rect_width title_bar,
                rect_height = safe_sub_u32 inner_height (rect_height title_bar) \<rparr>)"

text \<open>The argument is \<open>None\<close> for a null pointer.\<close>

definition wm_window_is_valid :: "wm_window option \<Rightarrow> bool" where
  "wm_window_is_valid window_opt =
     (case window_opt of
        None \<Rightarrow> False
      | Some window \<Rightarrow>
          if rect_width (frame window) = 0 \<or> rect_height (frame window) = 0 then False
          else
            let title_bar = wm_window_title_bar_rect window in
            if rect_width title_bar = 0 \<or> rect_height title_bar = 0 then False
            else
              let content = wm_window_content_rect window in
              if rect_width content = 0 \<or> rect_height content = 0 then False else True)"

definition wm_point_in_rect :: "wm_rect \<Rightarrow> u32 \<Rightarrow> u32 \<Rightarrow> bool" where
  "wm_point_in_rect rect x y =
     (if rect_width rect = 0 \<or> rect_height rect = 0 then False
      else if x < rect_x rect \<or> y < rect_y rect then False
      else if x - rect_x rect \<ge> rect_width rect \<or> y - rect_y rect \<ge> rect_height rect then False
      else True)"

subsection \<open>The arithmetic on natural numbers\<close>

lemma unat_min_u32 [simp]: "unat (min_u32 a b) = min (unat a) (unat b)"
  by (simp add: min_u32_def word_less_nat_alt)

lemma unat_u32_bound: "unat (a :: u32) < 2 ^ 32"
  using unsigned_less [of a] by simp

lemma saturating_add_nat [simp]: "unat (saturating_add_u32 a b) = min (unat a + unat b) (2 ^ 32 - 1)"
proof (cases "unat a + unat b < 2 ^ 32")
  case True
  then show ?thesis
    by (simp add: saturating_add_u32_def Let_def word_less_nat_alt unat_add_no_wrap)
next
  case False
  then have "unat (a + b) = unat a + unat b - 2 ^ 32"
    using unat_u32_bound [of a] unat_u32_bound [of b]
    by (simp add: unat_word_ariths mod_if)
  then have "unat (a + b) < unat a"
    using False unat_u32_bound [of a] unat_u32_bound [of b] by linarith
  then show ?thesis
    using False by (simp add: saturating_add_u32_def Let_def word_less_nat_alt)
qed

lemma safe_sub_nat [simp]: "unat (safe_sub_u32 a b) = unat a - unat b"
  by (auto simp: safe_sub_u32_def word_le_nat_alt unat_sub_if')

lemma effective_border_nat:
  "unat (effective_border w) =
     min (unat (border_thickness (style w)))
       (min (unat (rect_width (frame w)) div 2) (unat (rect_height (frame w)) div 2))"
  by (simp add: effective_border_def Let_def unat_div)

lemma u32_eq_0: "(a :: u32) = 0 \<longleftrightarrow> unat a = 0"
  by (simp add: unat_eq_0)

lemma point_in_rect_nat:
  "wm_point_in_rect r x y \<longleftrightarrow>
     unat (rect_x r) \<le> unat x \<and> unat x < unat (rect_x r) + unat (rect_width r) \<and>
     unat (rect_y r) \<le> unat y \<and> unat y < unat (rect_y r) + unat (rect_height r)"
  by (auto simp: wm_point_in_rect_def word_le_nat_alt word_less_nat_alt unat_sub_if' unat_eq_0)

definition on_screen :: "wm_window \<Rightarrow> bool" where
  \<comment> \<open>the frame does not run past the last 32-bit coordinate\<close>
  "on_screen w \<longleftrightarrow> unat (rect_x (frame w)) + unat (rect_width (frame w)) < 2 ^ 32 \<and>
     unat (rect_y (frame w)) + unat (rect_height (frame w)) < 2 ^ 32"

lemma title_bar_nat:
  assumes "rect_width (frame w) \<noteq> 0" "rect_height (frame w) \<noteq> 0"
  defines "b \<equiv> unat (effective_border w)"
  shows "unat (rect_width (wm_window_title_bar_rect w)) = unat (rect_width (frame w)) - 2 * b"
    "unat (rect_height (wm_window_title_bar_rect w)) =
       min (unat (title_bar_height (style w))) (unat (rect_height (frame w)) - 2 * b)"
    "unat (rect_x (wm_window_title_bar_rect w)) = min (unat (rect_x (frame w)) + b) (2 ^ 32 - 1)"
    "unat (rect_y (wm_window_title_bar_rect w)) = min (unat (rect_y (frame w)) + b) (2 ^ 32 - 1)"
  using assms by (simp_all add: wm_window_title_bar_rect_def Let_def)

lemma content_nat:
  assumes "rect_width (frame w) \<noteq> 0" "rect_height (frame w) \<noteq> 0"
  defines "b \<equiv> unat (effective_border w)" and "t \<equiv> wm_window_title_bar_rect w"
  shows "rect_x (wm_window_content_rect w) = rect_x t"
    "rect_width (wm_window_content_rect w) = rect_width t"
    "unat (rect_y (wm_window_content_rect w)) =
       min (unat (rect_y t) + unat (rect_height t)) (2 ^ 32 - 1)"
    "unat (rect_height (wm_window_content_rect w)) =
       unat (rect_height (frame w)) - 2 * b - unat (rect_height t)"
  using assms by (simp_all add: wm_window_content_rect_def Let_def)

lemma border_half:
  "2 * unat (effective_border w) \<le> unat (rect_width (frame w))"
  "2 * unat (effective_border w) \<le> unat (rect_height (frame w))"
  unfolding effective_border_nat by linarith+

lemma is_valid_nat:
  "wm_window_is_valid (Some w) \<longleftrightarrow>
     2 * unat (effective_border w) < unat (rect_width (frame w)) \<and>
     0 < unat (title_bar_height (style w)) \<and>
     unat (title_bar_height (style w)) + 2 * unat (effective_border w) < unat (rect_height (frame w))"
proof (cases "rect_width (frame w) = 0 \<or> rect_height (frame w) = 0")
  case True
  then show ?thesis
    by (auto simp: wm_window_is_valid_def)
next
  case False
  then have nz: "rect_width (frame w) \<noteq> 0" "rect_height (frame w) \<noteq> 0"
    by auto
  have "wm_window_is_valid (Some w) \<longleftrightarrow>
      unat (rect_width (wm_window_title_bar_rect w)) \<noteq> 0 \<and>
      unat (rect_height (wm_window_title_bar_rect w)) \<noteq> 0 \<and>
      unat (rect_width (wm_window_content_rect w)) \<noteq> 0 \<and>
      unat (rect_height (wm_window_content_rect w)) \<noteq> 0"
    using nz by (simp add: wm_window_is_valid_def Let_def unat_eq_0)
  then show ?thesis
    unfolding title_bar_nat [OF nz] content_nat [OF nz] by auto
qed

text \<open>The part of the frame inside the border.\<close>

definition in_interior :: "wm_window \<Rightarrow> u32 \<Rightarrow> u32 \<Rightarrow> bool" where
  "in_interior w x y \<longleftrightarrow>
     (let b = unat (effective_border w) in
      unat (rect_x (frame w)) + b \<le> unat x \<and>
      unat x + b < unat (rect_x (frame w)) + unat (rect_width (frame w)) \<and>
      unat (rect_y (frame w)) + b \<le> unat y \<and>
      unat y + b < unat (rect_y (frame w)) + unat (rect_height (frame w)))"

lemma title_content_split:
  assumes "on_screen w"
  shows "in_interior w x y \<longleftrightarrow>
      wm_point_in_rect (wm_window_title_bar_rect w) x y \<or> wm_point_in_rect (wm_window_content_rect w) x y"
    "\<not> (wm_point_in_rect (wm_window_title_bar_rect w) x y \<and> wm_point_in_rect (wm_window_content_rect w) x y)"
proof -
  have "(in_interior w x y \<longleftrightarrow>
      wm_point_in_rect (wm_window_title_bar_rect w) x y \<or> wm_point_in_rect (wm_window_content_rect w) x y)
    \<and> \<not> (wm_point_in_rect (wm_window_title_bar_rect w) x y \<and> wm_point_in_rect (wm_window_content_rect w) x y)"
  proof (cases "rect_width (frame w) = 0 \<or> rect_height (frame w) = 0")
    case True
    then show ?thesis
      by (auto simp: in_interior_def Let_def wm_window_title_bar_rect_def wm_window_content_rect_def
          empty_rect_def wm_point_in_rect_def)
  next
    case False
    then have nz: "rect_width (frame w) \<noteq> 0" "rect_height (frame w) \<noteq> 0"
      by auto
    show ?thesis
      using assms border_half [of w]
      unfolding point_in_rect_nat content_nat [OF nz] title_bar_nat [OF nz] in_interior_def Let_def
        on_screen_def
      by (auto simp: min_def)
  qed
  then show "in_interior w x y \<longleftrightarrow>
      wm_point_in_rect (wm_window_title_bar_rect w) x y \<or> wm_point_in_rect (wm_window_content_rect w) x y"
    "\<not> (wm_point_in_rect (wm_window_title_bar_rect w) x y \<and> wm_point_in_rect (wm_window_content_rect w) x y)"
    by blast+
qed

subsection \<open>Properties\<close>

text \<open>
  the title bar and the content area tile the inside of a window. For a window whose frame
  stays within the 32-bit coordinates, a point lies inside the border exactly when it lies in
  the title bar or in the content area, never in both, and every such point lies in the frame.
\<close>
theorem window_rects_tile:
  assumes "on_screen w"
  shows "(in_interior w x y \<longleftrightarrow>
      wm_point_in_rect (wm_window_title_bar_rect w) x y \<noteq> wm_point_in_rect (wm_window_content_rect w) x y)
    \<and> \<not> (wm_point_in_rect (wm_window_title_bar_rect w) x y \<and> wm_point_in_rect (wm_window_content_rect w) x y)
    \<and> (in_interior w x y \<longrightarrow> wm_point_in_rect (frame w) x y)"
  using title_content_split [OF assms, of x y]
  by (auto simp: in_interior_def Let_def point_in_rect_nat)

theorem window_rects_tile_witness:
  "wm_point_in_rect (wm_window_title_bar_rect (wm_window_init (Some ''term'') 10 20 100 80)) 11 21 \<noteq>
   wm_point_in_rect (wm_window_content_rect (wm_window_init (Some ''term'') 10 20 100 80)) 11 21"
proof -
  let ?w = "wm_window_init (Some ''term'') 10 20 100 80"
  have "on_screen ?w"
    by (simp add: on_screen_def wm_window_init_def)
  moreover have "in_interior ?w 11 21"
    by (simp add: in_interior_def effective_border_nat wm_window_init_def WM_DEFAULT_BORDER_THICKNESS_def)
  ultimately show ?thesis
    using window_rects_tile [of ?w 11 21] by blast
qed

text \<open>
  which windows \<open>wm_window_is_valid\<close> accepts: those whose frame leaves, inside the
  effective border, a column, a title bar of the full styled height and at least one row of
  content. A null window is not valid.
\<close>
theorem window_valid_iff:
  "(wm_window_is_valid (Some w) \<longleftrightarrow>
     2 * unat (effective_border w) < unat (rect_width (frame w)) \<and>
     0 < unat (title_bar_height (style w)) \<and>
     unat (title_bar_height (style w)) + 2 * unat (effective_border w) < unat (rect_height (frame w)))
   \<and> \<not> wm_window_is_valid None"
  by (simp only: is_valid_nat) (simp add: wm_window_is_valid_def)

end
