(* ===== verification/Framebuffer.thy ===== *)
theory Framebuffer
  imports Prelude
begin

unbundle bit_operations_syntax

text \<open>
  The framebuffer, \<open>kernel/gfx/framebuffer.c\<close>, over the two video drivers
  \<open>drivers/video/qemu_virt_fb.c\<close> and \<open>drivers/video/virt_fb.c\<close>. The pixel memory behind the
  \<open>pixels\<close> pointer is a list of 32-bit words; \<open>None\<close> is the null pointer. Coordinates,
  sizes and the index arithmetic \<open>y * stride + x\<close> are 32-bit words and wrap around as in the
  code; the invariant \<open>fb_wf\<close> (which \<open>framebuffer_init\<close> establishes) says that the pixel
  memory holds \<open>height * stride\<close> words.
\<close>

record framebuffer_info =
  fb_pixels :: "u32 list option"
  fb_width :: u32
  fb_height :: u32
  fb_stride :: u32

subsection \<open>The drivers\<close>

record video_mode =
  mode_base :: "u32 list option"
  mode_width :: u32
  mode_height :: u32
  mode_stride :: u32

definition VIDEO_FB_WIDTH :: u32 where "VIDEO_FB_WIDTH = 320"
definition VIDEO_FB_HEIGHT :: u32 where "VIDEO_FB_HEIGHT = 200"

text \<open>\<open>video_init\<close> clears the storage of the mode and returns its status.\<close>

definition video_init :: "int \<times> u32 list" where
  "video_init = (0, replicate (unat (VIDEO_FB_WIDTH * VIDEO_FB_HEIGHT)) 0)"

definition video_get_mode :: "u32 list \<Rightarrow> video_mode" where
  "video_get_mode storage = \<lparr> mode_base = Some storage, mode_width = VIDEO_FB_WIDTH,
     mode_height = VIDEO_FB_HEIGHT, mode_stride = VIDEO_FB_WIDTH \<rparr>"

definition VIRT_FB_WIDTH :: u32 where "VIRT_FB_WIDTH = 64"
definition VIRT_FB_HEIGHT :: u32 where "VIRT_FB_HEIGHT = 64"
definition VIRT_FB_SIZE :: u32 where "VIRT_FB_SIZE = VIRT_FB_WIDTH * VIRT_FB_HEIGHT"

definition video_fb_init :: "bool \<times> framebuffer_info" where
  "video_fb_init =
     (True, \<lparr> fb_pixels = Some (replicate (unat VIRT_FB_SIZE) 0), fb_width = VIRT_FB_WIDTH,
              fb_height = VIRT_FB_HEIGHT, fb_stride = VIRT_FB_WIDTH \<rparr>)"

subsection \<open>The operations\<close>

definition framebuffer_init :: "framebuffer_info \<Rightarrow> int \<times> framebuffer_info" where
  "framebuffer_init fb =
     (let (status, storage) = video_init in
      if status \<noteq> 0 then (- 1, fb)
      else
        let mode = video_get_mode storage in
        if mode_base mode = None \<or> mode_width mode = 0 \<or> mode_height mode = 0 \<or>
           mode_stride mode < mode_width mode then (- 1, fb)
        else (0, \<lparr> fb_pixels = mode_base mode, fb_width = mode_width mode,
                   fb_height = mode_height mode, fb_stride = mode_stride mode \<rparr>))"

definition framebuffer_put_pixel :: "u32 \<Rightarrow> u32 \<Rightarrow> u32 \<Rightarrow> framebuffer_info \<Rightarrow> framebuffer_info" where
  "framebuffer_put_pixel x y color fb =
     (case fb_pixels fb of
        None \<Rightarrow> fb
      | Some pixels \<Rightarrow>
          if x \<ge> fb_width fb \<or> y \<ge> fb_height fb then fb
          else fb \<lparr> fb_pixels := Some (pixels[unat (y * fb_stride fb + x) := color]) \<rparr>)"

definition framebuffer_fill_rect ::
  "u32 \<Rightarrow> u32 \<Rightarrow> u32 \<Rightarrow> u32 \<Rightarrow> u32 \<Rightarrow> framebuffer_info \<Rightarrow> framebuffer_info" where
  "framebuffer_fill_rect x y width height color fb =
     (case fb_pixels fb of
        None \<Rightarrow> fb
      | Some pixels \<Rightarrow>
          if width = 0 \<or> height = 0 then fb
          else if x \<ge> fb_width fb \<or> y \<ge> fb_height fb then fb
          else
            let max_x = x + width;
                max_x = (if max_x < x \<or> max_x > fb_width fb then fb_width fb else max_x);
                max_y = y + height;
                max_y = (if max_y < y \<or> max_y > fb_height fb then fb_height fb else max_y)
            in fb \<lparr> fb_pixels := Some (for_loop y max_y
                 (\<lambda>row. let row_base = row * fb_stride fb in
                    for_loop x max_x (\<lambda>col pixels. pixels[unat (row_base + col) := color]))
                 pixels) \<rparr>)"

text \<open>\<open>framebuffer_blit\<close>: \<open>src\<close> is \<open>None\<close> for a null pointer.\<close>

definition framebuffer_blit ::
  "u32 list option \<Rightarrow> u32 \<Rightarrow> u32 \<Rightarrow> u32 \<Rightarrow> u32 \<Rightarrow> u32 \<Rightarrow> framebuffer_info \<Rightarrow> framebuffer_info" where
  "framebuffer_blit src_opt src_stride x y width height fb =
     (case src_opt of
        None \<Rightarrow> fb
      | Some src \<Rightarrow>
          if src_stride = 0 \<or> width = 0 \<or> height = 0 then fb
          else case fb_pixels fb of
            None \<Rightarrow> fb
          | Some pixels \<Rightarrow>
              if src_stride < width then fb
              else if x \<ge> fb_width fb \<or> y \<ge> fb_height fb then fb
              else
                let copy_width = (if width > fb_width fb - x then fb_width fb - x else width);
                    copy_height = (if height > fb_height fb - y then fb_height fb - y else height)
                in fb \<lparr> fb_pixels := Some (for_loop 0 copy_height
                     (\<lambda>row. let dest_row_base = (y + row) * fb_stride fb;
                                 src_row_base = row * src_stride in
                        for_loop 0 copy_width (\<lambda>col pixels.
                          pixels[unat (dest_row_base + x + col) := src ! unat (src_row_base + col)]))
                     pixels) \<rparr>)"

definition fnv1a32_pixels :: "u32 list \<Rightarrow> u32 \<Rightarrow> u32" where
  "fnv1a32_pixels pixels pixel_count =
     for_loop 0 pixel_count
       (\<lambda>i hash. let value = pixels ! unat i in
          for_loop 0 (4 :: u32)
            (\<lambda>byte_index hash.
               (hash XOR (drop_bit (unat (byte_index * 8)) value AND 0xff)) * 16777619) hash)
       2166136261"

definition center_stamp :: "u32 list" where
  "center_stamp =
     concat (map (\<lambda>even_row. if even_row
         then [0x00ffffff, 0, 0x00ffffff, 0, 0x00ffffff, 0, 0x00ffffff, 0]
         else [0, 0x00ffffff, 0, 0x00ffffff, 0, 0x00ffffff, 0, 0x00ffffff])
       [True, False, True, False, True, False, True, False])"

definition framebuffer_render_test_pattern :: "framebuffer_info \<Rightarrow> u32 \<times> framebuffer_info" where
  "framebuffer_render_test_pattern fb =
     (if fb_pixels fb = None then (0, fb)
      else
        let w = fb_width fb;
            h = fb_height fb;
            fb = framebuffer_fill_rect 0 0 w h 0x00101010 fb;
            fb = framebuffer_fill_rect 0 0 (w div 2) (h div 2) 0x00e53935 fb;
            fb = framebuffer_fill_rect (w div 2) 0 (w div 2) (h div 2) 0x0043a047 fb;
            fb = framebuffer_fill_rect 0 (h div 2) (w div 2) (h div 2) 0x001e88e5 fb;
            fb = framebuffer_fill_rect (w div 2) (h div 2) (w div 2) (h div 2) 0x00fdd835 fb;
            fb = for_loop 0 w (\<lambda>i fb. framebuffer_put_pixel i (h - 1) 0x00ffffff
                   (framebuffer_put_pixel i 0 0x00ffffff fb)) fb;
            fb = for_loop 0 h (\<lambda>i fb. framebuffer_put_pixel (w - 1) i 0x00ffffff
                   (framebuffer_put_pixel 0 i 0x00ffffff fb)) fb;
            fb = for_loop 0 (if h < w then h else w) (\<lambda>i. framebuffer_put_pixel i i 0x00ffffff) fb;
            fb = framebuffer_blit (Some center_stamp) 8 (w div 2 - 4) (h div 2 - 4) 8 8 fb
        in (fnv1a32_pixels (the (fb_pixels fb)) (h * fb_stride fb), fb))"

subsection \<open>Updates of the pixel memory\<close>

lemma fold_product: "fold (\<lambda>r. fold (g r) cs) rs s = fold (\<lambda>(r, c). g r c) (List.product rs cs) s"
proof (induction rs arbitrary: s)
  case (Cons r rs)
  have "fold (\<lambda>(r, c). g r c) (map (Pair r) cs) s = fold (g r) cs s" for s
    by (induction cs arbitrary: s) auto
  with Cons show ?case by simp
qed simp

lemma fold_update_length [simp]: "length (fold (\<lambda>k ps. ps[f k := v k]) ks ps) = length ps"
  by (induction ks arbitrary: ps) auto

lemma fold_update_miss: "i \<notin> f ` set ks \<Longrightarrow> fold (\<lambda>k ps. ps[f k := v k]) ks ps ! i = ps ! i"
  by (induction ks arbitrary: ps) auto

lemma fold_update_hit:
  "k \<in> set ks \<Longrightarrow> inj_on f (set ks) \<Longrightarrow> distinct ks \<Longrightarrow> f k < length ps \<Longrightarrow>
   fold (\<lambda>k ps. ps[f k := v k]) ks ps ! f k = v k"
proof (induction ks arbitrary: ps)
  case (Cons j ks)
  show ?case
  proof (cases "k = j")
    case True
    then have "f k \<notin> f ` set ks"
      using Cons.prems(2,3) by (auto simp: inj_on_def)
    then show ?thesis
      using True Cons.prems(4) by (simp add: fold_update_miss)
  next
    case False
    then show ?thesis
      using Cons by simp
  qed
qed simp

definition fb_wf :: "framebuffer_info \<Rightarrow> bool" where
  "fb_wf fb \<longleftrightarrow> (\<forall>ps. fb_pixels fb = Some ps \<longrightarrow> length ps = unat (fb_height fb) * unat (fb_stride fb)) \<and>
     fb_width fb \<le> fb_stride fb \<and> unat (fb_height fb) * unat (fb_stride fb) < 2 ^ 32"

definition pixel_at :: "framebuffer_info \<Rightarrow> u32 \<Rightarrow> u32 \<Rightarrow> u32" where
  "pixel_at fb x y = the (fb_pixels fb) ! (unat y * unat (fb_stride fb) + unat x)"

definition in_box :: "u32 \<Rightarrow> u32 \<Rightarrow> u32 \<Rightarrow> u32 \<Rightarrow> u32 \<Rightarrow> u32 \<Rightarrow> bool" where
  "in_box x y width height px py \<longleftrightarrow>
     unat x \<le> unat px \<and> unat px < unat x + unat width \<and> unat y \<le> unat py \<and> unat py < unat y + unat height"

lemma cell_bound: "r < H \<Longrightarrow> c < S \<Longrightarrow> r * S + c < H * (S :: nat)"
proof -
  assume "r < H" "c < S"
  then have "r * S + c < r * S + S" by simp
  also have "\<dots> = Suc r * S" by simp
  also have "\<dots> \<le> H * S"
    using \<open>r < H\<close> by (intro mult_le_mono1) simp
  finally show ?thesis .
qed

lemma cell_inj: "c < S \<Longrightarrow> c' < S \<Longrightarrow> r * S + c = r' * S + c' \<longleftrightarrow> r = r' \<and> c = (c' :: nat)"
  by (metis (no_types, opaque_lifting) add.commute add_right_cancel bot_nat_0.extremum_strict
      div_less div_mult_self1 mod_less mod_mult_self1 plus_nat.add_0)

lemma cell_index:
  assumes "r < unat h" "c < unat s" "unat h * unat s < 2 ^ 32"
  shows "unat (of_nat r * s + of_nat c :: u32) = r * unat s + c"
proof -
  have b: "r * unat s + c < 2 ^ 32"
    using cell_bound [OF assms(1,2)] assms(3) by simp
  have "of_nat r * s + of_nat c = (of_nat (r * unat s + c) :: u32)"
    by simp
  then show ?thesis
    using b by (simp only: unat_of_nat) simp
qed

lemma cells_inj:
  "inj_on (\<lambda>(r, c). r * S + c) (set (List.product [r0..<r1] [c0..<c1]))" if "c1 \<le> (S :: nat)"
  using that by (auto simp: inj_on_def cell_inj)


text \<open>
  A double loop that writes \<open>v\<close> at row \<open>r0 + r\<close>, column \<open>c0 + c\<close> of the pixel memory.
\<close>

lemma paint_nth:
  assumes "r1 \<le> H" "c1 \<le> (S :: nat)" "length ps = H * S" "py < H" "px < S"
  shows "fold (\<lambda>(r, c) ps. ps[r * S + c := v r c]) (List.product [r0..<r1] [c0..<c1]) ps ! (py * S + px) =
    (if r0 \<le> py \<and> py < r1 \<and> c0 \<le> px \<and> px < c1 then v py px else ps ! (py * S + px))"
proof -
  let ?ks = "List.product [r0..<r1] [c0..<c1]" and ?f = "\<lambda>(r, c). r * S + c"
  have eq: "(\<lambda>(r, c) ps. ps[r * S + c := v r c]) = (\<lambda>k ps. ps[?f k := (\<lambda>(r, c). v r c) k])"
    by (auto simp: fun_eq_iff)
  have inj: "inj_on ?f (set ?ks)"
    using assms(2) by (rule cells_inj)
  show ?thesis
  proof (cases "r0 \<le> py \<and> py < r1 \<and> c0 \<le> px \<and> px < c1")
    case True
    then have "(py, px) \<in> set ?ks"
      by auto
    moreover have "?f (py, px) < length ps"
      using cell_bound [OF assms(4,5)] assms(3) by simp
    ultimately have "fold (\<lambda>k ps. ps[?f k := (\<lambda>(r, c). v r c) k]) ?ks ps ! ?f (py, px) = v py px"
      using fold_update_hit [OF _ inj distinct_product, where v = "\<lambda>(r, c). v r c" and k = "(py, px)"] by simp
    then show ?thesis
      using True unfolding eq by simp
  next
    case False
    have "py * S + px \<notin> ?f ` set ?ks"
      using False assms(2,5) by (auto simp: cell_inj)
    then show ?thesis
      using False unfolding eq by (auto simp: fold_update_miss)
  qed
qed

lemma paint_length [simp]:
  "length (fold (\<lambda>(r, c) ps. ps[f r c := v r c]) ks ps) = length ps"
  by (induction ks arbitrary: ps) (auto simp: case_prod_beta)

lemma loop_paint:
  fixes s h y y1 x x1 :: u32
  assumes "unat y1 \<le> unat h" "unat x1 \<le> unat s" "unat h * unat s < 2 ^ 32"
  shows "for_loop y y1 (\<lambda>row. for_loop x x1 (\<lambda>col ps. ps[unat (row * s + col) := c])) ps =
    fold (\<lambda>(r, k) ps. ps[r * unat s + k := c]) (List.product [unat y..<unat y1] [unat x..<unat x1]) ps"
proof -
  have "for_loop y y1 (\<lambda>row. for_loop x x1 (\<lambda>col ps. ps[unat (row * s + col) := c])) ps =
    fold (\<lambda>(r, k) ps. ps[unat (of_nat r * s + of_nat k) := c])
      (List.product [unat y..<unat y1] [unat x..<unat x1]) ps"
    unfolding for_loop_fold fold_product ..
  also have "\<dots> = fold (\<lambda>(r, k) ps. ps[r * unat s + k := c])
      (List.product [unat y..<unat y1] [unat x..<unat x1]) ps"
  proof (rule fold_cong)
    fix p assume p: "p \<in> set (List.product [unat y..<unat y1] [unat x..<unat x1])"
    obtain r k where rk: "p = (r, k)" by force
    have "unat (of_nat r * s + of_nat k) = r * unat s + k"
      by (rule cell_index [of _ h]) (use p rk assms in auto)
    then show "(case p of (r, k) \<Rightarrow> \<lambda>ps. ps[unat (of_nat r * s + of_nat k) := c]) =
      (case p of (r, k) \<Rightarrow> \<lambda>ps. ps[r * unat s + k := c])"
      by (simp add: rk)
  qed simp_all
  finally show ?thesis .
qed

lemma clip_end:
  fixes x w width :: u32
  assumes "x < w"
  shows "unat (if x + width < x \<or> x + width > w then w else x + width) = min (unat x + unat width) (unat w)"
proof (cases "unat x + unat width < 2 ^ 32")
  case True
  have "unat (x + width) = unat x + unat width"
    using True by (rule unat_add_no_wrap)
  then show ?thesis
    by (auto simp: word_less_nat_alt)
next
  case False
  have w: "unat x < 2 ^ 32" "unat width < 2 ^ 32" "unat w < 2 ^ 32"
    using unsigned_less [of x] unsigned_less [of width] unsigned_less [of w] by simp_all
  have "unat (x + width) = unat x + unat width - 2 ^ 32"
    using False w by (simp add: unat_word_ariths mod_if)
  then have "unat (x + width) < unat x"
    using False w by linarith
  then have "x + width < x"
    by (simp only: word_less_nat_alt)
  then show ?thesis
    using False w(3) by simp
qed

lemma fill_rect_dims [simp]:
  "fb_width (framebuffer_fill_rect x y w h c fb) = fb_width fb"
  "fb_height (framebuffer_fill_rect x y w h c fb) = fb_height fb"
  "fb_stride (framebuffer_fill_rect x y w h c fb) = fb_stride fb"
  "fb_pixels (framebuffer_fill_rect x y w h c fb) = None \<longleftrightarrow> fb_pixels fb = None"
  by (auto simp: framebuffer_fill_rect_def Let_def split: option.splits)

lemma fill_rect_pixels:
  assumes "fb_wf fb" "fb_pixels fb = Some ps"
  shows "fb_pixels (framebuffer_fill_rect x y w h c fb) = Some
    (fold (\<lambda>(r, k) ps. ps[r * unat (fb_stride fb) + k := c])
      (List.product [unat y..<min (unat y + unat h) (unat (fb_height fb))]
         [unat x..<min (unat x + unat w) (unat (fb_width fb))]) ps)"
proof (cases "w = 0 \<or> h = 0 \<or> x \<ge> fb_width fb \<or> y \<ge> fb_height fb")
  case True
  have n: "List.product rs [] = []" for rs :: "nat list"
    by (induction rs) auto
  from True show ?thesis
    using assms(2) by (auto simp: framebuffer_fill_rect_def word_le_nat_alt n)
next
  case False
  then have lt: "x < fb_width fb" "y < fb_height fb"
    by (auto simp: not_le)
  have b: "unat (fb_width fb) \<le> unat (fb_stride fb)" "unat (fb_height fb) * unat (fb_stride fb) < 2 ^ 32"
    using assms(1) by (auto simp: fb_wf_def word_le_nat_alt)
  let ?x1 = "if x + w < x \<or> x + w > fb_width fb then fb_width fb else x + w"
  let ?y1 = "if y + h < y \<or> y + h > fb_height fb then fb_height fb else y + h"
  have u: "unat ?x1 = min (unat x + unat w) (unat (fb_width fb))"
    "unat ?y1 = min (unat y + unat h) (unat (fb_height fb))"
    by (rule clip_end [OF lt(1)], rule clip_end [OF lt(2)])
  have "fb_pixels (framebuffer_fill_rect x y w h c fb) = Some
      (for_loop y ?y1 (\<lambda>row. for_loop x ?x1 (\<lambda>col ps. ps[unat (row * fb_stride fb + col) := c])) ps)"
    using False assms(2) by (simp add: framebuffer_fill_rect_def Let_def)
  also have "for_loop y ?y1 (\<lambda>row. for_loop x ?x1 (\<lambda>col ps. ps[unat (row * fb_stride fb + col) := c])) ps =
      fold (\<lambda>(r, k) ps. ps[r * unat (fb_stride fb) + k := c])
        (List.product [unat y..<unat ?y1] [unat x..<unat ?x1]) ps"
    by (rule loop_paint [of _ "fb_height fb"]) (use b u in linarith)+
  finally show ?thesis
    unfolding u .
qed

lemma fill_rect_wf:
  assumes "fb_wf fb"
  shows "fb_wf (framebuffer_fill_rect x y w h c fb)"
proof (cases "fb_pixels fb")
  case None
  then show ?thesis
    using assms by (simp add: framebuffer_fill_rect_def)
next
  case (Some ps)
  show ?thesis
    using assms Some fill_rect_pixels [OF assms Some, of x y w h c] by (simp add: fb_wf_def)
qed

lemma fill_rect_pixel:
  assumes "fb_wf fb" "fb_pixels fb \<noteq> None" "px < fb_stride fb" "py < fb_height fb"
  shows "pixel_at (framebuffer_fill_rect x y w h c fb) px py =
    (if in_box x y w h px py \<and> px < fb_width fb then c else pixel_at fb px py)"
proof -
  obtain ps where ps: "fb_pixels fb = Some ps"
    using assms(2) by blast
  have b: "unat (fb_width fb) \<le> unat (fb_stride fb)" "length ps = unat (fb_height fb) * unat (fb_stride fb)"
    using assms(1) ps by (auto simp: fb_wf_def word_le_nat_alt)
  show ?thesis
    using paint_nth [of "min (unat y + unat h) (unat (fb_height fb))" "unat (fb_height fb)"
        "min (unat x + unat w) (unat (fb_width fb))" "unat (fb_stride fb)" ps "unat py" "unat px"
        "\<lambda>_ _. c" "unat y" "unat x"] b assms(3,4)
    by (auto simp: pixel_at_def fill_rect_pixels [OF assms(1) ps] ps in_box_def word_less_nat_alt)
qed


lemma put_pixel_pixel:
  assumes "fb_wf fb" "fb_pixels fb \<noteq> None" "px < fb_stride fb" "py < fb_height fb"
  shows "pixel_at (framebuffer_put_pixel x y c fb) px py =
    (if px = x \<and> py = y \<and> x < fb_width fb then c else pixel_at fb px py)"
proof (cases "x < fb_width fb \<and> y < fb_height fb")
  case True
  obtain ps where ps: "fb_pixels fb = Some ps"
    using assms(2) by blast
  have b: "unat (fb_width fb) \<le> unat (fb_stride fb)" "length ps = unat (fb_height fb) * unat (fb_stride fb)"
    "unat (fb_height fb) * unat (fb_stride fb) < 2 ^ 32"
    using assms(1) ps by (auto simp: fb_wf_def word_le_nat_alt)
  have r: "unat py < unat (fb_height fb)" "unat px < unat (fb_stride fb)" "unat y < unat (fb_height fb)"
    "unat x < unat (fb_stride fb)"
    using True assms(3,4) b(1) by (auto simp: word_less_nat_alt)
  have i: "unat (y * fb_stride fb + x) = unat y * unat (fb_stride fb) + unat x"
    using cell_index [OF r(3,4) b(3)] by simp
  have "unat py * unat (fb_stride fb) + unat px < length ps"
    unfolding b(2) by (rule cell_bound [OF r(1,2)])
  moreover have "\<not> (x \<ge> fb_width fb \<or> y \<ge> fb_height fb)"
    using True by auto
  ultimately show ?thesis
    using True ps cell_inj [OF r(2,4), of "unat py" "unat y"]
    by (cases "px = x \<and> py = y") (auto simp: framebuffer_put_pixel_def pixel_at_def i word_unat_eq_iff)
next
  case False
  then show ?thesis
    using assms(4) by (auto simp: framebuffer_put_pixel_def not_less split: option.splits)
qed

text \<open>\<open>framebuffer_blit\<close>: the copied region and where each of its pixels comes from.\<close>

lemma blit_clip: "(x :: u32) < w \<Longrightarrow> unat (if (width :: u32) > w - x then w - x else width) = min (unat width) (unat w - unat x)"
  using unat_sub_no_wrap [of x w] by (auto simp: word_less_nat_alt word_le_nat_alt)

lemma loop_copy:
  fixes s h y n x m ss :: u32
  assumes "unat y + unat n \<le> unat h" "unat x + unat m \<le> unat s" "unat h * unat s < 2 ^ 32"
    and "unat m \<le> unat ss" "unat n * unat ss < 2 ^ 32"
  shows "for_loop 0 n (\<lambda>row. for_loop 0 m (\<lambda>col ps.
      ps[unat ((y + row) * s + x + col) := src ! unat (row * ss + col)])) ps =
    fold (\<lambda>(r, k) ps. ps[(unat y + r) * unat s + (unat x + k) := src ! (r * unat ss + k)])
      (List.product [0..<unat n] [0..<unat m]) ps"
proof -
  have "for_loop 0 n (\<lambda>row. for_loop 0 m (\<lambda>col ps.
      ps[unat ((y + row) * s + x + col) := src ! unat (row * ss + col)])) ps =
    fold (\<lambda>(r, k) ps. ps[unat ((y + of_nat r) * s + x + of_nat k) := src ! unat (of_nat r * ss + of_nat k :: u32)])
      (List.product [0..<unat n] [0..<unat m]) ps"
    unfolding for_loop_fold fold_product by simp
  also have "\<dots> = fold (\<lambda>(r, k) ps. ps[(unat y + r) * unat s + (unat x + k) := src ! (r * unat ss + k)])
      (List.product [0..<unat n] [0..<unat m]) ps"
  proof (rule fold_cong)
    fix p assume p: "p \<in> set (List.product [0..<unat n] [0..<unat m])"
    obtain r k where rk: "p = (r, k)" by force
    have "unat (of_nat (unat y + r) * s + of_nat (unat x + k)) = (unat y + r) * unat s + (unat x + k)"
      by (rule cell_index [of _ h]) (use p rk assms in auto)
    moreover have "unat (of_nat r * ss + of_nat k) = r * unat ss + k"
      by (rule cell_index [of _ n]) (use p rk assms in auto)
    ultimately show "(case p of (r, k) \<Rightarrow> \<lambda>ps. ps[unat ((y + of_nat r) * s + x + of_nat k) :=
          src ! unat (of_nat r * ss + of_nat k :: u32)]) =
      (case p of (r, k) \<Rightarrow> \<lambda>ps. ps[(unat y + r) * unat s + (unat x + k) := src ! (r * unat ss + k)])"
      by (simp add: rk add.assoc)
  qed simp_all
  finally show ?thesis .
qed

text \<open>The same double loop with both coordinates shifted.\<close>

lemma paint_shift:
  "fold (\<lambda>(r, k) ps. ps[(r0 + r) * S + (c0 + k) := v r k]) (List.product [0..<n] [0..<m]) ps =
   fold (\<lambda>(r, k) ps. ps[r * S + k := v (r - r0) (k - c0)]) (List.product [r0..<r0 + n] [c0..<c0 + m]) ps"
proof -
  have "List.product [r0..<r0 + n] [c0..<c0 + m] =
      map (\<lambda>(r, k). (r0 + r, c0 + k)) (List.product [0..<n] [0..<m :: nat])"
  proof -
    have m: "map ((+) d) [0..<n] = [d..<d + n]" for d n :: nat
    proof -
      have "map ((+) d) [0..<n] = map (\<lambda>i. i + d) [0..<n]"
        by simp
      also have "\<dots> = [d..<n + d]"
        by (rule map_add_upt)
      finally show ?thesis
        by (simp only: add.commute)
    qed
    have "List.product (map f xs) (map g ys) = map (\<lambda>(r, k). (f r, g k)) (List.product xs ys)"
      for f g :: "nat \<Rightarrow> nat" and xs ys
      by (induction xs) auto
    from this [of "(+) r0" "[0..<n]" "(+) c0" "[0..<m]"] show ?thesis
      by (simp only: m)
  qed
  then show ?thesis
    by (simp add: fold_map comp_def) (rule fold_cong, auto)
qed

lemma blit_dims [simp]:
  "fb_width (framebuffer_blit src ss x y w h fb) = fb_width fb"
  "fb_height (framebuffer_blit src ss x y w h fb) = fb_height fb"
  "fb_stride (framebuffer_blit src ss x y w h fb) = fb_stride fb"
  by (auto simp: framebuffer_blit_def Let_def split: option.splits)

lemma blit_pixel:
  assumes "fb_wf fb" "fb_pixels fb \<noteq> None" "px < fb_stride fb" "py < fb_height fb"
    and "w \<le> ss" "unat h * unat ss < 2 ^ 32"
  shows "pixel_at (framebuffer_blit (Some src) ss x y w h fb) px py =
    (if in_box x y w h px py \<and> px < fb_width fb
     then src ! ((unat py - unat y) * unat ss + (unat px - unat x)) else pixel_at fb px py)"
proof (cases "w = 0 \<or> h = 0 \<or> x \<ge> fb_width fb \<or> y \<ge> fb_height fb")
  case True
  then show ?thesis
    using assms(3,4,5) by (auto simp: framebuffer_blit_def in_box_def word_le_nat_alt word_less_nat_alt
        unat_eq_0 split: option.splits)
next
  case False
  then have lt: "x < fb_width fb" "y < fb_height fb" "ss \<noteq> 0"
    using assms(5) by (auto simp: not_le)
  obtain ps where ps: "fb_pixels fb = Some ps"
    using assms(2) by blast
  have b: "unat (fb_width fb) \<le> unat (fb_stride fb)" "length ps = unat (fb_height fb) * unat (fb_stride fb)"
    "unat (fb_height fb) * unat (fb_stride fb) < 2 ^ 32"
    using assms(1) ps by (auto simp: fb_wf_def word_le_nat_alt)
  let ?m = "if w > fb_width fb - x then fb_width fb - x else w"
  let ?n = "if h > fb_height fb - y then fb_height fb - y else h"
  have u: "unat ?m = min (unat w) (unat (fb_width fb) - unat x)"
    "unat ?n = min (unat h) (unat (fb_height fb) - unat y)"
    by (rule blit_clip [OF lt(1)], rule blit_clip [OF lt(2)])
  have le: "unat y + unat ?n \<le> unat (fb_height fb)" "unat x + unat ?m \<le> unat (fb_stride fb)"
    "unat ?m \<le> unat ss"
    unfolding u using lt b(1) assms(5) by (auto simp: word_less_nat_alt word_le_nat_alt)
  have "unat ?n * unat ss \<le> unat h * unat ss"
    unfolding u by (intro mult_le_mono1) simp
  then have nb: "unat ?n * unat ss < 2 ^ 32"
    using assms(6) by linarith
  have "fb_pixels (framebuffer_blit (Some src) ss x y w h fb) =
    Some (for_loop 0 ?n (\<lambda>row. for_loop 0 ?m (\<lambda>col ps.
      ps[unat ((y + row) * fb_stride fb + x + col) := src ! unat (row * ss + col)])) ps)"
    using False lt(3) assms(5) ps by (simp add: framebuffer_blit_def Let_def leD)
  also have "\<dots> = Some (fold (\<lambda>(r, k) ps. ps[r * unat (fb_stride fb) + k :=
        src ! ((r - unat y) * unat ss + (k - unat x))])
      (List.product [unat y..<unat y + unat ?n] [unat x..<unat x + unat ?m]) ps)"
    unfolding loop_copy [OF le(1,2) b(3) le(3) nb] paint_shift ..
  finally show ?thesis
    using paint_nth [OF le(1,2) b(2), of "unat py" "unat px"
        "\<lambda>r k. src ! ((r - unat y) * unat ss + (k - unat x))" "unat y" "unat x"] assms(3,4) lt(1,2)
    unfolding u
    by (auto simp: pixel_at_def ps in_box_def word_less_nat_alt)
qed


lemma blit_wf:
  assumes "fb_wf fb"
  shows "fb_wf (framebuffer_blit src ss x y w h fb)"
proof (cases "fb_pixels fb")
  case None
  then show ?thesis
    using assms by (simp add: framebuffer_blit_def split: option.splits)
next
  case (Some ps)
  have len: "length (for_loop a b (\<lambda>row. for_loop c d (\<lambda>col qs. qs[f row col := g row col])) qs) = length qs"
    for a b c d :: u32 and f :: "u32 \<Rightarrow> u32 \<Rightarrow> nat" and g :: "u32 \<Rightarrow> u32 \<Rightarrow> u32" and qs
    unfolding for_loop_fold fold_product by simp
  show ?thesis
    using assms Some by (auto simp: framebuffer_blit_def fb_wf_def Let_def len split: option.splits)
qed

lemma framebuffer_init_wf:
  "fst (framebuffer_init fb) = 0" "fb_wf (snd (framebuffer_init fb))"
  "fb_pixels (snd (framebuffer_init fb)) = Some (replicate 64000 0)"
  "fb_width (snd (framebuffer_init fb)) = 320" "fb_height (snd (framebuffer_init fb)) = 200"
  "fb_stride (snd (framebuffer_init fb)) = 320"
  by (simp_all add: framebuffer_init_def video_init_def video_get_mode_def VIDEO_FB_WIDTH_def
      VIDEO_FB_HEIGHT_def fb_wf_def)

subsection \<open>The test pattern\<close>

lemma unat_below: "n < unat (w :: u32) \<Longrightarrow> unat (of_nat n :: u32) = n"
  using unsigned_less [of w, where 'a = nat] by (simp add: unat_of_nat)

lemma fill_screen:
  assumes "fb_wf fb" "fb_pixels fb = Some ps" "fb_stride fb = fb_width fb"
  shows "fb_pixels (framebuffer_fill_rect 0 0 (fb_width fb) (fb_height fb) c fb) = Some (replicate (length ps) c)"
proof -
  define s where "s = unat (fb_width fb)"
  let ?fb = "framebuffer_fill_rect 0 0 (fb_width fb) (fb_height fb) c fb"
  have len: "length ps = unat (fb_height fb) * s"
    using assms by (simp add: fb_wf_def s_def)
  obtain qs where q: "fb_pixels ?fb = Some qs"
    using assms(2) fill_rect_dims(4) [of 0 0 "fb_width fb" "fb_height fb" c fb] by (cases "fb_pixels ?fb") simp_all
  moreover have "length qs = length ps"
    using fill_rect_wf [OF assms(1), of 0 0 "fb_width fb" "fb_height fb" c] q assms(3) by (simp add: fb_wf_def len s_def)
  ultimately have qs: "fb_pixels ?fb = Some qs" "length qs = length ps"
    by simp_all
  have "qs ! i = c" if "i < length ps" for i
  proof -
    have "0 < s"
      using that len by (cases s) simp_all
    then have i: "0 < s" "i div s < unat (fb_height fb)" "i mod s < s"
      using that len by (simp_all add: less_mult_imp_div_less)
    have "unat (of_nat (i div s) :: u32) = i div s" "unat (of_nat (i mod s) :: u32) = i mod s"
      using i(2,3) by (simp_all add: unat_below s_def)
    then have "pixel_at ?fb (of_nat (i mod s)) (of_nat (i div s)) = qs ! i"
      "(of_nat (i mod s) :: u32) < fb_width fb" "(of_nat (i div s) :: u32) < fb_height fb"
      using i assms(3) by (simp_all add: pixel_at_def qs(1) s_def word_less_nat_alt)
    then show ?thesis
      using fill_rect_pixel [OF assms(1), of "of_nat (i mod s)" "of_nat (i div s)" 0 0 "fb_width fb" "fb_height fb" c] assms(2,3)
      by (simp add: in_box_def word_less_nat_alt)
  qed
  then show ?thesis
    using qs by (simp add: list_eq_iff_nth_eq)
qed

lemma put_pixel_dims [simp]:
  "fb_width (framebuffer_put_pixel x y c fb) = fb_width fb"
  "fb_height (framebuffer_put_pixel x y c fb) = fb_height fb"
  "fb_stride (framebuffer_put_pixel x y c fb) = fb_stride fb"
  by (simp_all add: framebuffer_put_pixel_def split: option.split)

definition same_screen :: "framebuffer_info \<Rightarrow> framebuffer_info \<Rightarrow> bool" where
  "same_screen fb fb' \<longleftrightarrow> fb_wf fb' \<and> fb_width fb' = fb_width fb \<and> fb_height fb' = fb_height fb \<and> fb_stride fb' = fb_stride fb \<and>
     (fb_pixels fb' = None \<longleftrightarrow> fb_pixels fb = None)"

lemma put_pixel_wf: "fb_wf fb \<Longrightarrow> fb_wf (framebuffer_put_pixel x y c fb)"
  by (simp add: fb_wf_def framebuffer_put_pixel_def split: option.split)

lemma writes_keep_pixels [simp]:
  "fb_pixels (framebuffer_put_pixel x y c fb) = None \<longleftrightarrow> fb_pixels fb = None"
  "fb_pixels (framebuffer_blit src ss x y w h fb) = None \<longleftrightarrow> fb_pixels fb = None"
  by (simp_all add: framebuffer_put_pixel_def framebuffer_blit_def Let_def split: option.split)

lemma same_screen_step:
  assumes "same_screen fb fb'"
  shows "same_screen fb (framebuffer_fill_rect x y w h c fb')"
    "same_screen fb (framebuffer_put_pixel x y c fb')"
    "same_screen fb (framebuffer_blit src ss x y w h fb')"
  using assms fill_rect_wf [of fb'] put_pixel_wf [of fb'] blit_wf [of fb'] by (simp_all add: same_screen_def)

lemma same_screen_loop:
  "(\<And>i fb'. same_screen fb fb' \<Longrightarrow> same_screen fb (body i fb')) \<Longrightarrow> same_screen fb fb' \<Longrightarrow>
   same_screen fb (for_loop a b body fb')"
proof (induction a b body fb' rule: for_loop.induct)
  case (1 a b body fb')
  then show ?case
    by (subst for_loop.simps) simp
qed

lemma test_pattern_same_screen:
  assumes "fb_wf fb"
  shows "same_screen fb (snd (framebuffer_render_test_pattern fb))"
proof (cases "fb_pixels fb")
  case None
  then show ?thesis
    using None assms by (simp add: framebuffer_render_test_pattern_def same_screen_def)
next
  case (Some ps)
  have s: "same_screen fb fb"
    using assms by (simp add: same_screen_def)
  have "snd (framebuffer_render_test_pattern fb) =
      (let w = fb_width fb;
            h = fb_height fb;
            fb = framebuffer_fill_rect 0 0 w h 0x00101010 fb;
            fb = framebuffer_fill_rect 0 0 (w div 2) (h div 2) 0x00e53935 fb;
            fb = framebuffer_fill_rect (w div 2) 0 (w div 2) (h div 2) 0x0043a047 fb;
            fb = framebuffer_fill_rect 0 (h div 2) (w div 2) (h div 2) 0x001e88e5 fb;
            fb = framebuffer_fill_rect (w div 2) (h div 2) (w div 2) (h div 2) 0x00fdd835 fb;
            fb = for_loop 0 w (\<lambda>i fb. framebuffer_put_pixel i (h - 1) 0x00ffffff
                   (framebuffer_put_pixel i 0 0x00ffffff fb)) fb;
            fb = for_loop 0 h (\<lambda>i fb. framebuffer_put_pixel (w - 1) i 0x00ffffff
                   (framebuffer_put_pixel 0 i 0x00ffffff fb)) fb;
            fb = for_loop 0 (if h < w then h else w) (\<lambda>i. framebuffer_put_pixel i i 0x00ffffff) fb
       in framebuffer_blit (Some center_stamp) 8 (w div 2 - 4) (h div 2 - 4) 8 8 fb)"
    using Some by (simp add: framebuffer_render_test_pattern_def Let_def)
  then show ?thesis
    by (simp only: Let_def) (intro same_screen_step same_screen_loop s)
qed

text \<open>The pattern covers a screen without padding: the result does not depend on what was there.\<close>

lemma test_pattern_deterministic:
  assumes "fb_wf fb" "fb_wf fb'" "fb_stride fb = fb_width fb" "same_screen fb fb'"
  shows "framebuffer_render_test_pattern fb' = framebuffer_render_test_pattern fb"
proof (cases "fb_pixels fb")
  case None
  then show ?thesis
    using assms(4) by (cases fb; cases fb') (simp add: framebuffer_render_test_pattern_def same_screen_def)
next
  case (Some ps)
  then obtain qs where qs: "fb_pixels fb' = Some qs"
    using assms(4) by (auto simp: same_screen_def)
  have d: "fb_width fb' = fb_width fb" "fb_height fb' = fb_height fb" "fb_stride fb' = fb_stride fb"
    using assms(4) by (simp_all add: same_screen_def)
  have "length ps = length qs"
    using assms(1,2) Some qs d by (simp add: fb_wf_def)
  then have "framebuffer_fill_rect 0 0 (fb_width fb) (fb_height fb) c fb' = framebuffer_fill_rect 0 0 (fb_width fb) (fb_height fb) c fb" for c
    using fill_screen [OF assms(1) Some assms(3), of c] fill_screen [OF assms(2) qs, of c] d assms(3)
    by (simp add: framebuffer_info.equality)
  then show ?thesis
    using Some qs d by (simp add: framebuffer_render_test_pattern_def Let_def)
qed

subsection \<open>Properties\<close>

text \<open>
  \<open>framebuffer_fill_rect\<close> paints exactly the visible part of the rectangle. On a
  well-formed framebuffer every pixel inside the rectangle and left of the screen's right edge
  gets the colour and every other pixel, the padding of a stride wider than the screen included,
  keeps its value, whatever the coordinates and sizes, also when \<open>x + width\<close> or \<open>y + height\<close> wraps
  around; all writes stay inside the pixel memory, whose size does not change.
\<close>
theorem framebuffer_fill_rect_spec:
  assumes "fb_wf fb" and "fb_pixels fb \<noteq> None" and "px < fb_stride fb" and "py < fb_height fb"
  shows "pixel_at (framebuffer_fill_rect x y w h c fb) px py =
      (if in_box x y w h px py \<and> px < fb_width fb then c else pixel_at fb px py)
    \<and> fb_wf (framebuffer_fill_rect x y w h c fb)"
  using fill_rect_pixel [OF assms] fill_rect_wf [OF assms(1)] by blast

definition demo_fb :: framebuffer_info where
  "demo_fb = \<lparr> fb_pixels = None, fb_width = 0, fb_height = 0, fb_stride = 0 \<rparr>"

lemma demo_wf: "fb_wf (snd (framebuffer_init fb))" "fb_pixels (snd (framebuffer_init fb)) \<noteq> None"
  "n < 320 \<Longrightarrow> n < fb_stride (snd (framebuffer_init fb))"
  "n < 200 \<Longrightarrow> n < fb_height (snd (framebuffer_init fb))"
  by (simp_all add: framebuffer_init_wf)

lemma demo_black: "pixel_at (snd (framebuffer_init fb)) 319 199 = 0"
  by (simp add: pixel_at_def framebuffer_init_wf)

theorem framebuffer_fill_rect_spec_witness:
  "pixel_at (framebuffer_fill_rect 310 190 0xffffffff 0xffffffff 7 (snd (framebuffer_init demo_fb))) 319 199 = 7"
  using framebuffer_fill_rect_spec [OF demo_wf(1) [of demo_fb] demo_wf(2) demo_wf(3) demo_wf(4),
      of 319 199 310 190 "0xffffffff" "0xffffffff" 7]
  by (simp add: in_box_def framebuffer_init_wf)

text \<open>
  \<open>framebuffer_blit\<close> copies exactly the visible part of the source. With a source whose
  rows are at least \<open>width\<close> wide, every pixel inside the destination rectangle and on the screen
  becomes the source pixel at the same offset from the corner; every other pixel is unchanged.
\<close>
theorem framebuffer_blit_spec:
  assumes "fb_wf fb" and "fb_pixels fb \<noteq> None" and "px < fb_stride fb" and "py < fb_height fb"
    and "w \<le> src_stride" and "unat h * unat src_stride < 2 ^ 32"
  shows "pixel_at (framebuffer_blit (Some src) src_stride x y w h fb) px py =
      (if in_box x y w h px py \<and> px < fb_width fb
       then src ! ((unat py - unat y) * unat src_stride + (unat px - unat x)) else pixel_at fb px py)
    \<and> fb_wf (framebuffer_blit (Some src) src_stride x y w h fb)"
  using blit_pixel [OF assms] blit_wf [OF assms(1)] by blast

theorem framebuffer_blit_spec_witness:
  "pixel_at (framebuffer_blit (Some center_stamp) 8 312 192 8 8 (snd (framebuffer_init demo_fb))) 319 199 =
     0x00ffffff"
  using framebuffer_blit_spec [OF demo_wf(1) [of demo_fb] demo_wf(2) demo_wf(3) demo_wf(4),
      of 319 199 8 8 8 center_stamp 312 192]
  by (simp add: in_box_def framebuffer_init_wf center_stamp_def)

end
