(* ===== verification/Compositor.thy ===== *)
theory Compositor
  imports Window Framebuffer
begin

unbundle bit_operations_syntax

text \<open>
  The window manager's scene: the layer stack (\<open>kernel/wm/layers.c\<close>), the focus
  (\<open>kernel/wm/focus.c\<close>) and the compositor (\<open>kernel/wm/compositor.c\<close>). Window objects live in
  a heap from references to \<open>wm_window\<close>; a window pointer is a reference option, \<open>None\<close> being
  null. The two static variables, the scene and the active window, form \<open>wm_state\<close>. The stack's
  \<open>count\<close> never exceeds 8 and is a natural number.
\<close>

type_synonym win_ref = nat
type_synonym win_ptr = "win_ref option"
type_synonym win_heap = "win_ref \<Rightarrow> wm_window"

definition WM_MAX_WINDOWS :: nat where "WM_MAX_WINDOWS = 8"

record wm_layer_stack =
  windows :: "win_ptr list"
  layer_count :: nat

record wm_scene =
  background_color :: u32
  layers :: wm_layer_stack

record wm_state =
  scene :: wm_scene
  active_window :: win_ptr

subsection \<open>The layer stack\<close>

definition wm_layers_reset :: "wm_layer_stack \<Rightarrow> wm_layer_stack" where
  "wm_layers_reset stack =
     stack \<lparr> windows := replicate WM_MAX_WINDOWS None, layer_count := 0 \<rparr>"

definition wm_layers_push_back :: "wm_layer_stack \<Rightarrow> win_ptr \<Rightarrow> int \<times> wm_layer_stack" where
  "wm_layers_push_back stack window =
     (if window = None then (- 1, stack)
      else if layer_count stack \<ge> WM_MAX_WINDOWS then (- 1, stack)
      else (0, stack \<lparr> windows := (windows stack)[layer_count stack := window],
                       layer_count := layer_count stack + 1 \<rparr>))"

definition wm_layers_count :: "wm_layer_stack \<Rightarrow> nat" where
  "wm_layers_count stack = layer_count stack"

definition wm_layers_get_at :: "wm_layer_stack \<Rightarrow> nat \<Rightarrow> win_ptr" where
  "wm_layers_get_at stack index =
     (if index \<ge> layer_count stack then None else windows stack ! index)"

definition wm_layers_index_of :: "wm_layer_stack \<Rightarrow> win_ptr \<Rightarrow> int" where
  "wm_layers_index_of stack window =
     (if window = None then - 1
      else case find_index (\<lambda>i. windows stack ! i = window) (layer_count stack) of
        None \<Rightarrow> - 1
      | Some i \<Rightarrow> int i)"

function shift_down :: "win_ptr list \<Rightarrow> nat \<Rightarrow> nat \<Rightarrow> win_ptr list" where
  "shift_down ws i front_index =
     (if i < front_index then shift_down (ws[i := ws ! (i + 1)]) (i + 1) front_index else ws)"
  by pat_completeness auto
termination
  by (relation "measure (\<lambda>(ws, i, front_index). front_index - i)") auto

declare shift_down.simps [simp del]

definition wm_layers_move_to_front :: "wm_layer_stack \<Rightarrow> win_ptr \<Rightarrow> int \<times> wm_layer_stack" where
  "wm_layers_move_to_front stack window =
     (if window = None \<or> layer_count stack = 0 then (- 1, stack)
      else
        let index = wm_layers_index_of stack window in
        if index < 0 then (- 1, stack)
        else
          let front_index = layer_count stack - 1 in
          if nat index = front_index then (0, stack)
          else
            let moving_window = windows stack ! nat index;
                ws = shift_down (windows stack) (nat index) front_index
            in (0, stack \<lparr> windows := ws[front_index := moving_window] \<rparr>))"

subsection \<open>Focus\<close>

definition wm_focus_reset :: "wm_state \<Rightarrow> wm_state" where
  "wm_focus_reset s = s \<lparr> active_window := None \<rparr>"

definition wm_focus_set_active_window :: "wm_state \<Rightarrow> win_ptr \<Rightarrow> int \<times> wm_state" where
  "wm_focus_set_active_window s window = (0, s \<lparr> active_window := window \<rparr>)"

definition wm_focus_active_window :: "wm_state \<Rightarrow> win_ptr" where
  "wm_focus_active_window s = active_window s"

definition wm_focus_is_active_window :: "wm_state \<Rightarrow> win_ptr \<Rightarrow> bool" where
  "wm_focus_is_active_window s window = (if window = None then False else active_window s = window)"

definition wm_focus_clear_if_active :: "wm_state \<Rightarrow> win_ptr \<Rightarrow> bool \<times> wm_state" where
  "wm_focus_clear_if_active s window =
     (if window = None \<or> active_window s \<noteq> window then (False, s)
      else (True, s \<lparr> active_window := None \<rparr>))"

definition wm_focus_window_contains_point :: "win_heap \<Rightarrow> win_ptr \<Rightarrow> u32 \<Rightarrow> u32 \<Rightarrow> bool" where
  "wm_focus_window_contains_point heap window x y =
     (case window of None \<Rightarrow> False | Some w \<Rightarrow> wm_point_in_rect (frame (heap w)) x y)"

text \<open>The hit test walks down from the top; its result carries the stack index found.\<close>

primrec hit_scan :: "win_heap \<Rightarrow> wm_layer_stack \<Rightarrow> u32 \<Rightarrow> u32 \<Rightarrow> nat \<Rightarrow> (win_ptr \<times> nat) option" where
  "hit_scan heap stack x y 0 = None"
| "hit_scan heap stack x y (Suc z_index) =
     (let window = wm_layers_get_at stack z_index in
      if wm_focus_window_contains_point heap window x y then Some (window, z_index)
      else hit_scan heap stack x y z_index)"

definition wm_focus_hit_test :: "win_heap \<Rightarrow> wm_layer_stack \<Rightarrow> u32 \<Rightarrow> u32 \<Rightarrow> (win_ptr \<times> nat) option" where
  "wm_focus_hit_test heap stack x y = hit_scan heap stack x y (wm_layers_count stack)"

subsection \<open>The compositor\<close>

definition hash_title :: "string \<Rightarrow> u32" where
  "hash_title window_title =
     foldl (\<lambda>hash c. (hash XOR of_nat (of_char c)) * 16777619) 2166136261 window_title"

definition mul_u32_overflow :: "u32 \<Rightarrow> u32 \<Rightarrow> u32 option" where
  \<comment> \<open>\<open>None\<close> is the return value 1\<close>
  "mul_u32_overflow a b =
     (if a = 0 \<or> b = 0 then Some 0
      else let product = a * b in if product div a \<noteq> b then None else Some product)"

definition wm_draw_window :: "wm_window option \<Rightarrow> framebuffer_info \<Rightarrow> framebuffer_info" where
  "wm_draw_window window_opt fb =
     (if \<not> wm_window_is_valid window_opt then fb
      else
        let window = the window_opt;
            fb = framebuffer_fill_rect (rect_x (frame window)) (rect_y (frame window))
                   (rect_width (frame window)) (rect_height (frame window))
                   (border_color (style window)) fb;
            title_bar = wm_window_title_bar_rect window;
            fb = (if rect_width title_bar \<noteq> 0 \<and> rect_height title_bar \<noteq> 0
                  then framebuffer_fill_rect (rect_x title_bar) (rect_y title_bar)
                    (rect_width title_bar) (rect_height title_bar)
                    (title_bar_color (style window)) fb
                  else fb);
            content = wm_window_content_rect window;
            fb = (if rect_width content \<noteq> 0 \<and> rect_height content \<noteq> 0
                  then framebuffer_fill_rect (rect_x content) (rect_y content)
                    (rect_width content) (rect_height content) (content_color (style window)) fb
                  else fb)
        in if rect_width title_bar > 8 \<and> rect_height title_bar > 4 then
             let title_hash = hash_title (title window);
                 accent_width = 8 + (title_hash mod (rect_width title_bar - 8));
                 accent_color = 0x00202020 OR (title_hash AND 0x000f0f0f)
             in framebuffer_fill_rect (rect_x title_bar + 4) (rect_y title_bar + 4)
                  (accent_width - 4) 1 accent_color fb
           else fb)"

definition wm_compositor_reset :: "wm_state \<Rightarrow> u32 \<Rightarrow> int \<times> wm_state" where
  "wm_compositor_reset s color =
     (0, wm_focus_reset
           (s \<lparr> scene := \<lparr> background_color = color,
                           layers = wm_layers_reset (layers (scene s)) \<rparr> \<rparr>))"

definition set_layers :: "wm_layer_stack \<Rightarrow> wm_state \<Rightarrow> wm_state" where
  "set_layers stack s = s \<lparr> scene := (scene s) \<lparr> layers := stack \<rparr> \<rparr>"

definition wm_compositor_add_window :: "win_heap \<Rightarrow> wm_state \<Rightarrow> win_ptr \<Rightarrow> int \<times> wm_state" where
  "wm_compositor_add_window heap s window =
     (if \<not> wm_window_is_valid (map_option heap window) then (- 1, s)
      else if wm_layers_index_of (layers (scene s)) window \<ge> 0 then (- 1, s)
      else
        let (status, stack) = wm_layers_push_back (layers (scene s)) window in
        if status \<noteq> 0 then (- 1, set_layers stack s)
        else (0, snd (wm_focus_set_active_window (set_layers stack s) window)))"

definition wm_compositor_window_count :: "wm_state \<Rightarrow> nat" where
  "wm_compositor_window_count s = wm_layers_count (layers (scene s))"

definition wm_compositor_window_at :: "wm_state \<Rightarrow> nat \<Rightarrow> win_ptr" where
  "wm_compositor_window_at s z_index = wm_layers_get_at (layers (scene s)) z_index"

definition wm_compositor_hit_test :: "win_heap \<Rightarrow> wm_state \<Rightarrow> u32 \<Rightarrow> u32 \<Rightarrow> win_ptr" where
  "wm_compositor_hit_test heap s x y =
     (case wm_focus_hit_test heap (layers (scene s)) x y of None \<Rightarrow> None | Some (window, _) \<Rightarrow> window)"

definition wm_compositor_activate_window :: "wm_state \<Rightarrow> win_ptr \<Rightarrow> int \<times> wm_state" where
  "wm_compositor_activate_window s window =
     (let (status, stack) = wm_layers_move_to_front (layers (scene s)) window in
      if status \<noteq> 0 then (- 1, set_layers stack s)
      else (0, snd (wm_focus_set_active_window (set_layers stack s) window)))"

definition wm_compositor_activate_at :: "win_heap \<Rightarrow> wm_state \<Rightarrow> u32 \<Rightarrow> u32 \<Rightarrow> int \<times> wm_state" where
  "wm_compositor_activate_at heap s x y =
     (let window = wm_compositor_hit_test heap s x y in
      if window = None then (- 1, s) else wm_compositor_activate_window s window)"

definition wm_compositor_active_window :: "wm_state \<Rightarrow> win_ptr" where
  "wm_compositor_active_window s = wm_focus_active_window s"

fun draw_layers :: "win_heap \<Rightarrow> wm_layer_stack \<Rightarrow> nat list \<Rightarrow> framebuffer_info \<Rightarrow> framebuffer_info" where
  "draw_layers heap stack [] fb = fb"
| "draw_layers heap stack (i # is) fb =
     draw_layers heap stack is (wm_draw_window (map_option heap (wm_layers_get_at stack i)) fb)"

definition wm_compositor_render :: "win_heap \<Rightarrow> wm_state \<Rightarrow> framebuffer_info \<Rightarrow> u32 \<times> framebuffer_info" where
  "wm_compositor_render heap s fb =
     (if fb_pixels fb = None \<or> fb_width fb = 0 \<or> fb_height fb = 0 \<or> fb_stride fb < fb_width fb
      then (0, fb)
      else
        let stack = layers (scene s);
            fb = framebuffer_fill_rect 0 0 (fb_width fb) (fb_height fb) (background_color (scene s)) fb;
            fb = draw_layers heap stack [0..<wm_layers_count stack] fb
        in case mul_u32_overflow (fb_height fb) (fb_stride fb) of
             None \<Rightarrow> (0, fb)
           | Some pixel_count \<Rightarrow> (fnv1a32_pixels (the (fb_pixels fb)) pixel_count, fb))"

subsection \<open>The stack as a list, bottom first\<close>

definition stack_wf :: "wm_layer_stack \<Rightarrow> bool" where
  "stack_wf stack \<longleftrightarrow> length (windows stack) = WM_MAX_WINDOWS \<and> layer_count stack \<le> WM_MAX_WINDOWS \<and>
     None \<notin> set (take (layer_count stack) (windows stack)) \<and>
     distinct (take (layer_count stack) (windows stack))"

definition stack_list :: "wm_layer_stack \<Rightarrow> win_ref list" where
  "stack_list stack = map the (take (layer_count stack) (windows stack))"

lemma stack_wfD:
  assumes "stack_wf stack"
  shows "length (windows stack) = 8" "layer_count stack \<le> 8"
    "map Some (stack_list stack) = take (layer_count stack) (windows stack)"
    "length (stack_list stack) = layer_count stack" "distinct (stack_list stack)"
proof -
  show l: "length (windows stack) = 8" "layer_count stack \<le> 8"
    using assms by (simp_all add: stack_wf_def WM_MAX_WINDOWS_def)
  show m: "map Some (stack_list stack) = take (layer_count stack) (windows stack)"
    using assms by (auto simp: stack_wf_def stack_list_def intro!: map_idI) (metis option.collapse)
  show "length (stack_list stack) = layer_count stack"
    using l by (simp add: stack_list_def)
  have "distinct (map Some (stack_list stack))"
    unfolding m using assms by (simp add: stack_wf_def)
  then show "distinct (stack_list stack)"
    by (simp add: distinct_map)
qed

lemma stack_nth:
  "stack_wf stack \<Longrightarrow> i < layer_count stack \<Longrightarrow> windows stack ! i = Some (stack_list stack ! i)"
  by (metis nth_map nth_take stack_wfD(3) stack_wfD(4))

lemma get_at_wf:
  "stack_wf stack \<Longrightarrow> wm_layers_get_at stack i =
     (if i < length (stack_list stack) then Some (stack_list stack ! i) else None)"
  by (simp add: wm_layers_get_at_def stack_nth stack_wfD(4))


lemma layers_reset_wf: "stack_wf (wm_layers_reset stack)" "stack_list (wm_layers_reset stack) = []"
  by (simp_all add: stack_wf_def stack_list_def wm_layers_reset_def)

lemma push_back_list:
  assumes "stack_wf stack" "w \<notin> set (stack_list stack)"
  shows "case wm_layers_push_back stack (Some w) of (r, stack') \<Rightarrow>
    if length (stack_list stack) < WM_MAX_WINDOWS
    then r = 0 \<and> stack_wf stack' \<and> stack_list stack' = stack_list stack @ [w]
    else r = - 1 \<and> stack' = stack"
proof (cases "layer_count stack < 8")
  case True
  let ?n = "layer_count stack"
  have l: "?n < length (windows stack)"
    using True stack_wfD(1) [OF assms(1)] by simp
  have t: "take (Suc ?n) ((windows stack)[?n := Some w]) = map Some (stack_list stack) @ [Some w]"
    unfolding take_Suc_update_last [OF l] stack_wfD(3) [OF assms(1)] ..
  have "stack_list (snd (wm_layers_push_back stack (Some w))) = stack_list stack @ [w]"
    using True by (simp add: wm_layers_push_back_def stack_list_def [of "_ \<lparr> windows := _, layer_count := _ \<rparr>"]
        t WM_MAX_WINDOWS_def not_le comp_def)
  moreover have "stack_wf (snd (wm_layers_push_back stack (Some w)))"
    using True assms(2) stack_wfD(1,5) [OF assms(1)]
    by (auto simp: wm_layers_push_back_def stack_wf_def t WM_MAX_WINDOWS_def distinct_map)
  ultimately show ?thesis
    using True stack_wfD(4) [OF assms(1)]
    by (simp add: wm_layers_push_back_def WM_MAX_WINDOWS_def)
next
  case False
  then show ?thesis
    using stack_wfD(4) [OF assms(1)] by (simp add: wm_layers_push_back_def WM_MAX_WINDOWS_def)
qed

lemma index_of_list:
  assumes "stack_wf stack"
  shows "wm_layers_index_of stack (Some w) =
    (if w \<in> set (stack_list stack)
     then int (length (takeWhile (\<lambda>v. v \<noteq> w) (stack_list stack))) else - 1)"
proof (cases "w \<in> set (stack_list stack)")
  case True
  let ?k = "length (takeWhile (\<lambda>v. v \<noteq> w) (stack_list stack))"
  have k: "?k < length (stack_list stack)"
    using True by (metis (full_types) length_takeWhile_le nat_less_le takeWhile_eq_all_conv
        takeWhile_eq_take take_all_iff order_refl)
  have "stack_list stack ! ?k = w"
    using nth_length_takeWhile [OF k] by simp
  moreover have "\<forall>j < ?k. stack_list stack ! j \<noteq> w"
  proof (intro allI impI)
    fix j assume j: "j < ?k"
    then have "stack_list stack ! j = takeWhile (\<lambda>v. v \<noteq> w) (stack_list stack) ! j"
      by (simp add: takeWhile_nth)
    also have "\<dots> \<in> set (takeWhile (\<lambda>v. v \<noteq> w) (stack_list stack))"
      using j by (rule nth_mem)
    finally show "stack_list stack ! j \<noteq> w"
      by (blast dest: set_takeWhileD)
  qed
  ultimately have "find_index (\<lambda>i. windows stack ! i = Some w) (layer_count stack) = Some ?k"
    using k stack_wfD(4) [OF assms] by (simp add: find_index_Some stack_nth [OF assms])
  then show ?thesis
    using True by (simp add: wm_layers_index_of_def)
next
  case False
  then have "\<forall>i < layer_count stack. windows stack ! i \<noteq> Some w"
    using stack_wfD(4) [OF assms] by (auto simp: stack_nth [OF assms] in_set_conv_nth)
  then have "find_index (\<lambda>i. windows stack ! i = Some w) (layer_count stack) = None"
    by (simp add: find_index_None)
  then show ?thesis
    using False by (simp add: wm_layers_index_of_def)
qed

lemma shift_down_take:
  "i \<le> front \<Longrightarrow> front < length ws \<Longrightarrow>
   shift_down ws i front = take i ws @ drop (Suc i) (take (Suc front) ws) @ drop front ws"
proof (induction ws i front rule: shift_down.induct)
  case (1 ws i front)
  show ?case
  proof (cases "i < front")
    case True
    let ?ws = "ws[i := ws ! (i + 1)]"
    have "shift_down ws i front = shift_down ?ws (i + 1) front"
      using True by (simp add: shift_down.simps [of ws])
    also have "\<dots> = take (i + 1) ?ws @ drop (Suc (i + 1)) (take (Suc front) ?ws) @ drop front ?ws"
      using 1 True by simp
    also have "\<dots> = take i ws @ ([ws ! Suc i] @ drop (Suc (Suc i)) (take (Suc front) ws)) @ drop front ws"
      using True "1.prems" by (simp add: take_Suc_update_last drop_take)
    also have "[ws ! Suc i] @ drop (Suc (Suc i)) (take (Suc front) ws) = drop (Suc i) (take (Suc front) ws)"
      using True "1.prems" by (simp add: Cons_nth_drop_Suc [symmetric])
    finally show ?thesis by simp
  next
    case False
    then have "i = front"
      using "1.prems" by simp
    then show ?thesis
      by (simp add: shift_down.simps [of ws])
  qed
qed


lemma takeWhile_first: "w \<notin> set xs \<Longrightarrow> takeWhile (\<lambda>v. v \<noteq> w) (xs @ w # ys) = xs"
  by (induction xs) auto

lemma to_front_list:
  assumes "stack_wf stack"
  shows "case wm_layers_move_to_front stack (Some w) of (r, stack') \<Rightarrow>
    if w \<in> set (stack_list stack)
    then r = 0 \<and> stack_wf stack' \<and> stack_list stack' = removeAll w (stack_list stack) @ [w]
    else r = - 1 \<and> stack' = stack"
proof (cases "w \<in> set (stack_list stack)")
  case False
  then show ?thesis
    using index_of_list [OF assms, of w] by (simp add: wm_layers_move_to_front_def Let_def)
next
  case True
  let ?k = "length (takeWhile (\<lambda>v. v \<noteq> w) (stack_list stack))" and ?n = "layer_count stack"
  let ?l = "stack_list stack"
  note l = stack_wfD [OF assms]
  obtain xs ys where xy: "?l = xs @ w # ys" "w \<notin> set xs"
    using split_list_first [OF True] by blast
  then have "w \<notin> set ys"
    using l(5) by auto
  have k: "?k = length xs"
    using xy by (simp add: takeWhile_first)
  have n: "?n = Suc (length xs + length ys)"
    using l(4) xy(1) by simp
  have rm: "removeAll w ?l = xs @ ys"
    using xy \<open>w \<notin> set ys\<close> by (simp add: removeAll_id)
  have ix: "wm_layers_index_of stack (Some w) = int (length xs)"
    using index_of_list [OF assms, of w] True k by simp
  show ?thesis
  proof (cases "length xs = ?n - 1")
    case top: True
    have "wm_layers_move_to_front stack (Some w) = (0, stack)"
      using top ix n by (simp add: wm_layers_move_to_front_def Let_def)
    moreover have "ys = []"
      using top n by simp
    ultimately show ?thesis
      using True assms rm xy(1) by simp
  next
    case False
    let ?ws = "(shift_down (windows stack) (length xs) (?n - 1))[?n - 1 := Some w]"
    have m: "wm_layers_move_to_front stack (Some w) = (0, stack \<lparr> windows := ?ws \<rparr>)"
      using ix n False stack_nth [OF assms, of "length xs"] xy(1)
      by (simp add: wm_layers_move_to_front_def Let_def)
    have tk: "take ?n (windows stack) = map Some xs @ Some w # map Some ys"
      unfolding l(3) [symmetric] xy(1) by simp
    have "take (length xs) (windows stack) = take (length xs) (take ?n (windows stack))"
      using n by simp
    then have t2: "take (length xs) (windows stack) = map Some xs"
      unfolding tk by simp
    have sh: "shift_down (windows stack) (length xs) (?n - 1) =
        map Some (xs @ ys) @ drop (?n - 1) (windows stack)"
      using shift_down_take [of "length xs" "?n - 1" "windows stack"] l(1,2) n tk t2 by simp
    have len: "?n - 1 = length (map Some (xs @ ys))"
      using n by simp
    have dr: "drop (?n - 1) (windows stack) = windows stack ! (?n - 1) # drop ?n (windows stack)"
      using Cons_nth_drop_Suc [of "?n - 1" "windows stack"] l(1,2) n by simp
    have "?ws = map Some (xs @ ys) @ Some w # drop ?n (windows stack)"
    proof -
      have "?ws = (map Some (xs @ ys) @ windows stack ! (?n - 1) # drop ?n (windows stack))
          [length (map Some (xs @ ys)) := Some w]"
        unfolding len [symmetric] sh dr ..
      then show ?thesis
        by (simp only: list_update_length)
    qed
    then obtain ws where m': "wm_layers_move_to_front stack (Some w) = (0, stack \<lparr> windows := ws \<rparr>)"
      and ws: "ws = map Some (xs @ ys) @ Some w # drop ?n (windows stack)"
      using m by metis
    have t: "take ?n ws = map Some (xs @ ys @ [w])" "length ws = 8"
      unfolding ws using n l(1,2) by simp_all
    then have "stack_wf (stack \<lparr> windows := ws \<rparr>)"
      using l(2,5) xy(1) unfolding stack_wf_def by (auto simp: WM_MAX_WINDOWS_def distinct_map)
    moreover have "stack_list (stack \<lparr> windows := ws \<rparr>) = xs @ ys @ [w]"
      unfolding stack_list_def by (simp add: t comp_def)
    ultimately show ?thesis
      using True m' rm by simp
  qed
qed


subsection \<open>The layer-stack interface\<close>

text \<open>
  What the compositor relies on: pushing a new window puts it on top while there is room, and
  moving a window to the front takes it out of the order and puts it on top.
\<close>

locale window_stack =
  fixes push :: "'s \<Rightarrow> 'w \<Rightarrow> int \<times> 's"
    and to_front :: "'s \<Rightarrow> 'w \<Rightarrow> int \<times> 's"
    and items :: "'s \<Rightarrow> 'w list"
    and wf :: "'s \<Rightarrow> bool"
    and capacity :: nat
  assumes push_law: "wf s \<Longrightarrow> w \<notin> set (items s) \<Longrightarrow> push s w = (r, s') \<Longrightarrow>
      (if length (items s) < capacity then r = 0 \<and> wf s' \<and> items s' = items s @ [w]
       else r = - 1 \<and> s' = s)"
    and to_front_law: "wf s \<Longrightarrow> to_front s w = (r, s') \<Longrightarrow>
      (if w \<in> set (items s) then r = 0 \<and> wf s' \<and> items s' = removeAll w (items s) @ [w]
       else r = - 1 \<and> s' = s)"
    and items_distinct: "wf s \<Longrightarrow> distinct (items s)"
    and items_bound: "wf s \<Longrightarrow> length (items s) \<le> capacity"
begin

lemma push_wf: "wf s \<Longrightarrow> w \<notin> set (items s) \<Longrightarrow> push s w = (r, s') \<Longrightarrow> wf s'"
  by (frule (2) push_law) (auto split: if_splits)

lemma to_front_wf: "wf s \<Longrightarrow> to_front s w = (r, s') \<Longrightarrow> wf s'"
  by (frule (1) to_front_law) (auto split: if_splits)

lemma to_front_set: "wf s \<Longrightarrow> to_front s w = (r, s') \<Longrightarrow> set (items s') = set (items s)"
  by (drule (1) to_front_law) (auto split: if_splits)

lemma to_front_others:
  "wf s \<Longrightarrow> to_front s w = (r, s') \<Longrightarrow> removeAll w (items s') = removeAll w (items s)"
  by (drule (1) to_front_law) (auto split: if_splits)

lemma to_front_last:
  "wf s \<Longrightarrow> to_front s w = (r, s') \<Longrightarrow> w \<in> set (items s) \<Longrightarrow> items s' \<noteq> [] \<and> last (items s') = w"
  by (drule (1) to_front_law) (auto split: if_splits)

lemma to_front_idem:
  "wf s \<Longrightarrow> to_front s w = (0, s') \<Longrightarrow> to_front s' w = (r, s'') \<Longrightarrow> items s'' = items s'"
  by (frule (1) to_front_law, frule (1) to_front_wf, drule (1) to_front_law [of s'])
    (auto split: if_splits)

end

interpretation ls: window_stack "\<lambda>s w. wm_layers_push_back s (Some w)"
  "\<lambda>s w. wm_layers_move_to_front s (Some w)" stack_list stack_wf WM_MAX_WINDOWS
proof unfold_locales
  show "stack_wf s \<Longrightarrow> w \<notin> set (stack_list s) \<Longrightarrow> wm_layers_push_back s (Some w) = (r, s') \<Longrightarrow>
      (if length (stack_list s) < WM_MAX_WINDOWS then r = 0 \<and> stack_wf s' \<and> stack_list s' = stack_list s @ [w]
       else r = - 1 \<and> s' = s)" for s w r s'
    using push_back_list [of s w] by simp
  show "stack_wf s \<Longrightarrow> wm_layers_move_to_front s (Some w) = (r, s') \<Longrightarrow>
      (if w \<in> set (stack_list s) then r = 0 \<and> stack_wf s' \<and> stack_list s' = removeAll w (stack_list s) @ [w]
       else r = - 1 \<and> s' = s)" for s w r s'
    using to_front_list [of s w] by simp
  show "stack_wf s \<Longrightarrow> distinct (stack_list s)" for s
    by (rule stack_wfD(5))
  show "stack_wf s \<Longrightarrow> length (stack_list s) \<le> WM_MAX_WINDOWS" for s
    using stack_wfD(2,4) [of s] by (simp add: WM_MAX_WINDOWS_def)
qed

subsection \<open>The compositor's operations on the list of windows\<close>

definition wm_windows :: "wm_state \<Rightarrow> win_ref list" where
  "wm_windows s = stack_list (layers (scene s))"

definition wm_wf :: "wm_state \<Rightarrow> bool" where
  \<comment> \<open>the stack is well formed and the active window is its top\<close>
  "wm_wf s \<longleftrightarrow> stack_wf (layers (scene s)) \<and>
     active_window s = (if wm_windows s = [] then None else Some (last (wm_windows s)))"

lemma wm_windows_set_layers [simp]:
  "wm_windows (set_layers stack s) = stack_list stack"
  "wm_windows (s \<lparr> active_window := w \<rparr>) = wm_windows s"
  "layers (scene (set_layers stack s)) = stack" "active_window (set_layers stack s) = active_window s"
  "set_layers (layers (scene s)) s = s"
  by (simp_all add: wm_windows_def set_layers_def)

lemma reset_wf:
  "wm_wf (snd (wm_compositor_reset s color))" "wm_windows (snd (wm_compositor_reset s color)) = []"
  by (simp_all add: wm_compositor_reset_def wm_focus_reset_def wm_wf_def wm_windows_def layers_reset_wf)

lemma add_window_wf:
  assumes "wm_wf s"
  shows "case wm_compositor_add_window heap s w of (r, s') \<Rightarrow>
    if wm_window_is_valid (map_option heap w) \<and> the w \<notin> set (wm_windows s)
       \<and> length (wm_windows s) < WM_MAX_WINDOWS
    then r = 0 \<and> wm_wf s' \<and> wm_windows s' = wm_windows s @ [the w] \<and> active_window s' = w
    else r = - 1 \<and> s' = s"
proof (cases "wm_window_is_valid (map_option heap w)")
  case False
  then show ?thesis by (simp add: wm_compositor_add_window_def)
next
  case True
  then obtain v where v: "w = Some v"
    by (cases w) (auto simp: wm_window_is_valid_def)
  have st: "stack_wf (layers (scene s))"
    using assms by (simp add: wm_wf_def)
  show ?thesis
  proof (cases "v \<in> set (wm_windows s)")
    case True
    then show ?thesis
      using index_of_list [OF st, of v] v by (simp add: wm_compositor_add_window_def wm_windows_def)
  next
    case new: False
    obtain r st' where p: "wm_layers_push_back (layers (scene s)) (Some v) = (r, st')" by force
    have ix: "wm_layers_index_of (layers (scene s)) (Some v) = - 1"
      using index_of_list [OF st, of v] new by (simp add: wm_windows_def)
    from ls.push_law [OF st _ p] new show ?thesis
      using True v p ix
      by (auto simp: wm_compositor_add_window_def wm_focus_set_active_window_def wm_wf_def
          wm_windows_def [symmetric] split: if_splits)
  qed
qed

lemma activate_wf:
  assumes "wm_wf s"
  shows "case wm_compositor_activate_window s w of (r, s') \<Rightarrow>
    if w \<noteq> None \<and> the w \<in> set (wm_windows s)
    then r = 0 \<and> wm_wf s' \<and> wm_windows s' = removeAll (the w) (wm_windows s) @ [the w] \<and> active_window s' = w
    else r = - 1 \<and> s' = s"
proof (cases w)
  case None
  then show ?thesis
    by (simp add: wm_compositor_activate_window_def wm_layers_move_to_front_def)
next
  case (Some v)
  have st: "stack_wf (layers (scene s))"
    using assms by (simp add: wm_wf_def)
  obtain r st' where p: "wm_layers_move_to_front (layers (scene s)) (Some v) = (r, st')" by force
  from ls.to_front_law [OF st p] show ?thesis
    using Some p
    by (auto simp: wm_compositor_activate_window_def wm_focus_set_active_window_def wm_wf_def
        wm_windows_def split: if_splits)
qed


subsection \<open>Hit testing\<close>

abbreviation contains :: "win_heap \<Rightarrow> u32 \<Rightarrow> u32 \<Rightarrow> win_ref \<Rightarrow> bool" where
  "contains heap x y w \<equiv> wm_point_in_rect (frame (heap w)) x y"

lemma hit_scan_find:
  assumes "stack_wf stack" "n \<le> length (stack_list stack)"
  shows "map_option fst (hit_scan heap stack x y n) =
    map_option Some (find (contains heap x y) (rev (take n (stack_list stack))))"
  using assms(2)
proof (induction n)
  case (Suc n)
  then have "take (Suc n) (stack_list stack) = take n (stack_list stack) @ [stack_list stack ! n]"
    by (simp add: take_Suc_conv_app_nth)
  with Suc show ?case
    using get_at_wf [OF assms(1), of n]
    by (simp add: Let_def wm_focus_window_contains_point_def)
qed simp

lemma hit_test_find:
  assumes "stack_wf (layers (scene s))"
  shows "wm_compositor_hit_test heap s x y = find (contains heap x y) (rev (wm_windows s))"
proof -
  have "map_option fst (wm_focus_hit_test heap (layers (scene s)) x y) =
      map_option Some (find (contains heap x y) (rev (wm_windows s)))"
    using hit_scan_find [OF assms order_refl] stack_wfD(4) [OF assms]
    by (simp add: wm_focus_hit_test_def wm_layers_count_def wm_windows_def)
  then show ?thesis
    by (cases "wm_focus_hit_test heap (layers (scene s)) x y";
        cases "find (contains heap x y) (rev (wm_windows s))")
      (auto simp: wm_compositor_hit_test_def)
qed

subsection \<open>Scenes\<close>

lemma background_kept [simp]:
  "background_color (scene (snd (wm_compositor_add_window heap s w))) = background_color (scene s)"
  "background_color (scene (snd (wm_compositor_activate_window s w))) = background_color (scene s)"
  "background_color (scene (snd (wm_compositor_reset s color))) = color"
  by (simp_all add: wm_compositor_add_window_def wm_compositor_activate_window_def wm_compositor_reset_def wm_focus_reset_def
      wm_focus_set_active_window_def set_layers_def split: prod.split)

text \<open>A scene: a well-formed stack with its windows and background.\<close>

definition scene_is :: "u32 \<Rightarrow> win_ref list \<Rightarrow> wm_state \<Rightarrow> bool" where
  "scene_is color ws wm \<longleftrightarrow> wm_wf wm \<and> wm_windows wm = ws \<and> background_color (scene wm) = color"

lemma scene_reset: "scene_is color [] (snd (wm_compositor_reset s color))"
  using reset_wf by (simp add: scene_is_def)

lemma scene_add:
  assumes "scene_is color ws s" "wm_window_is_valid (Some (heap w))" "w \<notin> set ws" "length ws < WM_MAX_WINDOWS"
  shows "\<exists>s'. wm_compositor_add_window heap s (Some w) = (0, s') \<and> scene_is color (ws @ [w]) s'"
  using assms add_window_wf [of s heap "Some w"] background_kept(1) [of heap s "Some w"]
  by (cases "wm_compositor_add_window heap s (Some w)") (auto simp: scene_is_def)

lemma scene_activate:
  assumes "scene_is color ws s" "w \<in> set ws"
  shows "\<exists>s'. wm_compositor_activate_window s (Some w) = (0, s') \<and> scene_is color (removeAll w ws @ [w]) s' \<and> active_window s' = Some w"
  using assms activate_wf [of s "Some w"] background_kept(2) [of s "Some w"]
  by (cases "wm_compositor_activate_window s (Some w)") (auto simp: scene_is_def)

lemma scene_hit:
  "scene_is color ws s \<Longrightarrow> wm_compositor_hit_test heap s x y = find (contains heap x y) (rev ws)"
  by (simp add: hit_test_find scene_is_def wm_wf_def)

subsection \<open>Drawing\<close>

lemma in_box_rect:
  "in_box (rect_x r) (rect_y r) (rect_width r) (rect_height r) px py \<longleftrightarrow> wm_point_in_rect r px py"
  by (auto simp: in_box_def point_in_rect_nat)

definition in_accent :: "wm_window \<Rightarrow> u32 \<Rightarrow> u32 \<Rightarrow> bool" where
  "in_accent w px py \<longleftrightarrow>
     (let t = wm_window_title_bar_rect w in
      rect_width t > 8 \<and> rect_height t > 4 \<and>
      in_box (rect_x t + 4) (rect_y t + 4) (8 + (hash_title (title w) mod (rect_width t - 8)) - 4) 1 px py)"

definition window_pixel :: "wm_window \<Rightarrow> u32 \<Rightarrow> u32 \<Rightarrow> u32 option" where
  \<comment> \<open>the colour a window has at a point, if it covers the point\<close>
  "window_pixel w px py =
     (if \<not> wm_window_is_valid (Some w) then None
      else if in_accent w px py then Some (0x00202020 OR (hash_title (title w) AND 0x000f0f0f))
      else if wm_point_in_rect (wm_window_content_rect w) px py then Some (content_color (style w))
      else if wm_point_in_rect (wm_window_title_bar_rect w) px py then Some (title_bar_color (style w))
      else if wm_point_in_rect (frame w) px py then Some (border_color (style w))
      else None)"

definition fb_ready :: "framebuffer_info \<Rightarrow> bool" where
  "fb_ready fb \<longleftrightarrow> fb_wf fb \<and> fb_pixels fb \<noteq> None"

lemma fill_ready: "fb_ready fb \<Longrightarrow> fb_ready (framebuffer_fill_rect x y w h c fb)"
  by (auto simp: fb_ready_def fill_rect_wf)

lemma fill_pixel:
  "fb_ready fb \<Longrightarrow> px < fb_width fb \<Longrightarrow> py < fb_height fb \<Longrightarrow>
   pixel_at (framebuffer_fill_rect x y w h c fb) px py = (if in_box x y w h px py then c else pixel_at fb px py)"
  using fill_rect_pixel [of fb px py x y w h c]
  by (auto simp: fb_ready_def fb_wf_def dest: less_le_trans)

lemma draw_window_dims [simp]:
  "fb_width (wm_draw_window w fb) = fb_width fb"
  "fb_height (wm_draw_window w fb) = fb_height fb"
  "fb_stride (wm_draw_window w fb) = fb_stride fb"
  by (simp_all add: wm_draw_window_def Let_def)

lemma draw_window_ready: "fb_ready fb \<Longrightarrow> fb_ready (wm_draw_window w fb)"
  by (simp add: wm_draw_window_def Let_def fill_ready)

lemma draw_window_pixel:
  assumes "fb_ready fb" "px < fb_width fb" "py < fb_height fb"
  shows "pixel_at (wm_draw_window (Some w) fb) px py =
    (case window_pixel w px py of None \<Rightarrow> pixel_at fb px py | Some c \<Rightarrow> c)"
proof (cases "wm_window_is_valid (Some w)")
  case False
  then show ?thesis
    by (simp add: wm_draw_window_def window_pixel_def)
next
  case True
  then have nz: "rect_width (wm_window_title_bar_rect w) \<noteq> 0" "rect_height (wm_window_title_bar_rect w) \<noteq> 0"
    "rect_width (wm_window_content_rect w) \<noteq> 0" "rect_height (wm_window_content_rect w) \<noteq> 0"
    by (auto simp: wm_window_is_valid_def Let_def split: if_splits)
  show ?thesis
    using True nz assms
    by (simp add: wm_draw_window_def Let_def fill_pixel fill_ready in_box_rect window_pixel_def in_accent_def)
qed

lemma draw_layers_dims [simp]:
  "fb_width (draw_layers heap stack is fb) = fb_width fb"
  "fb_height (draw_layers heap stack is fb) = fb_height fb"
  "fb_stride (draw_layers heap stack is fb) = fb_stride fb"
  by (induction "is" arbitrary: fb) auto

lemma draw_layers_ready: "fb_ready fb \<Longrightarrow> fb_ready (draw_layers heap stack is fb)"
  by (induction "is" arbitrary: fb) (auto simp: draw_window_ready)

definition top_pixel :: "win_heap \<Rightarrow> win_ref list \<Rightarrow> u32 \<Rightarrow> u32 \<Rightarrow> u32 \<Rightarrow> u32" where
  "top_pixel heap ws background px py =
     (case find (\<lambda>w. window_pixel (heap w) px py \<noteq> None) (rev ws) of
        None \<Rightarrow> background | Some w \<Rightarrow> the (window_pixel (heap w) px py))"

lemma top_pixel_snoc:
  "top_pixel heap (ws @ [w]) background px py =
     (case window_pixel (heap w) px py of None \<Rightarrow> top_pixel heap ws background px py | Some c \<Rightarrow> c)"
  by (auto simp: top_pixel_def split: option.splits)

lemma draw_layers_append:
  "draw_layers heap stack (is @ js) fb = draw_layers heap stack js (draw_layers heap stack is fb)"
  by (induction "is" arbitrary: fb) auto

lemma draw_layers_pixel:
  assumes "stack_wf stack" "fb_ready fb" "px < fb_width fb" "py < fb_height fb"
    "n \<le> length (stack_list stack)"
  shows "pixel_at (draw_layers heap stack [0..<n] fb) px py =
    top_pixel heap (take n (stack_list stack)) (pixel_at fb px py) px py"
  using assms(5)
proof (induction n)
  case 0
  then show ?case by (simp add: top_pixel_def)
next
  case (Suc n)
  have "take (Suc n) (stack_list stack) = take n (stack_list stack) @ [stack_list stack ! n]"
    using Suc.prems by (simp add: take_Suc_conv_app_nth)
  then show ?case
    using Suc assms get_at_wf [OF assms(1), of n]
    by (simp add: draw_layers_append draw_window_pixel draw_layers_ready top_pixel_snoc split: option.split)
qed

lemma mul_u32_overflow_nat:
  "mul_u32_overflow a b = (if unat a * unat b < 2 ^ 32 then Some (a * b) else None)"
proof (cases "unat a = 0 \<or> unat b = 0")
  case True
  then show ?thesis
    by (auto simp: mul_u32_overflow_def unat_eq_0)
next
  case False
  then have nz: "0 < unat a" "0 < unat b"
    by auto
  then have "a \<noteq> 0" "b \<noteq> 0"
    by auto
  have m: "mul_u32_overflow a b = (if unat (a * b) div unat a = unat b then Some (a * b) else None)"
    using nz by (auto simp: mul_u32_overflow_def Let_def word_unat_eq_iff unat_div)
  show ?thesis
  proof (cases "unat a * unat b < 2 ^ 32")
    case True
    then have "unat (a * b) = unat a * unat b"
      by (simp add: unat_word_ariths)
    then show ?thesis
      using m True nz by simp
  next
    case False
    have "unat (a * b) = unat a * unat b mod 2 ^ 32"
      by (simp add: unat_word_ariths)
    also have "\<dots> \<le> unat a * unat b - 2 ^ 32"
      using False by (metis le_mod_geq linorder_not_less mod_less_eq_dividend)
    also have "\<dots> < unat a * unat b - unat a"
    proof -
      have "unat a < 2 ^ 32"
        using unsigned_less [of a] by simp
      then show ?thesis
        using False by linarith
    qed
    also have "\<dots> = unat a * (unat b - 1)"
      by (simp add: right_diff_distrib')
    finally have "unat (a * b) div unat a < unat b - 1"
      using nz(1) by (simp add: div_less_iff_less_mult mult.commute)
    then show ?thesis
      using m False by auto
  qed
qed

lemma render_pixel:
  assumes "stack_wf (layers (scene s))" "fb_ready fb" "px < fb_width fb" "py < fb_height fb"
  shows "pixel_at (snd (wm_compositor_render heap s fb)) px py =
    top_pixel heap (wm_windows s) (background_color (scene s)) px py"
proof -
  have nz: "\<not> (fb_pixels fb = None \<or> fb_width fb = 0 \<or> fb_height fb = 0 \<or> fb_stride fb < fb_width fb)"
    using assms(2-4) by (auto simp: fb_ready_def fb_wf_def)
  let ?fb = "framebuffer_fill_rect 0 0 (fb_width fb) (fb_height fb) (background_color (scene s)) fb"
  have "pixel_at ?fb px py = background_color (scene s)"
    using assms(2-4) by (simp add: fill_pixel in_box_def word_less_nat_alt)
  moreover have "pixel_at (snd (wm_compositor_render heap s fb)) px py =
      pixel_at (draw_layers heap (layers (scene s)) [0..<length (stack_list (layers (scene s)))] ?fb) px py"
    using nz stack_wfD(4) [OF assms(1)]
    by (auto simp: wm_compositor_render_def Let_def wm_layers_count_def split: option.split)
  ultimately show ?thesis
    using draw_layers_pixel [OF assms(1) fill_ready [OF assms(2)], of px _ _ _ _ _ py _ heap]
      assms(3,4)
    by (simp add: wm_windows_def)
qed


subsection \<open>What is drawn is what is hit\<close>

lemma accent_in_title:
  assumes "on_screen w" "rect_width (frame w) \<noteq> 0" "rect_height (frame w) \<noteq> 0" "in_accent w px py"
  shows "wm_point_in_rect (wm_window_title_bar_rect w) px py"
proof -
  define t where "t = wm_window_title_bar_rect w"
  have nat: "unat (rect_width t) = unat (rect_width (frame w)) - 2 * unat (effective_border w)"
    "unat (rect_height t) \<le> unat (rect_height (frame w)) - 2 * unat (effective_border w)"
    "unat (rect_x t) \<le> unat (rect_x (frame w)) + unat (effective_border w)"
    "unat (rect_y t) \<le> unat (rect_y (frame w)) + unat (effective_border w)"
    unfolding t_def title_bar_nat [OF assms(2,3)] by simp_all
  have fits: "unat (rect_x t) + unat (rect_width t) < 2 ^ 32" "unat (rect_y t) + unat (rect_height t) < 2 ^ 32"
    using assms(1) nat border_half [of w] by (auto simp: on_screen_def)
  let ?h = "hash_title (title w) mod (rect_width t - 8)"
  have acc: "rect_width t > 8" "rect_height t > 4" "in_box (rect_x t + 4) (rect_y t + 4) (8 + ?h - 4) 1 px py"
    using assms(4) unfolding in_accent_def t_def [symmetric] Let_def by blast+
  have w: "8 < unat (rect_width t)" "4 < unat (rect_height t)"
    using acc(1,2) by (simp_all add: word_less_nat_alt)
  have x: "unat (rect_x t + 4) = unat (rect_x t) + 4" "unat (rect_y t + 4) = unat (rect_y t) + 4"
    using fits w unat_add_no_wrap [of "rect_x t" 4] unat_add_no_wrap [of "rect_y t" 4] by auto
  have "unat (rect_width t - 8) = unat (rect_width t) - 8"
    using w unat_sub_no_wrap [of 8 "rect_width t"] by (simp add: word_le_nat_alt)
  then have h: "unat ?h < unat (rect_width t) - 8"
    using w by (simp add: unat_mod)
  have "unat (8 + ?h - 4) = unat ?h + 4"
  proof -
    have "8 + ?h - 4 = ?h + 4"
      by simp
    moreover have "unat (?h + 4) = unat ?h + 4"
      using h fits unat_add_no_wrap [of ?h 4] by simp
    ultimately show ?thesis
      by (simp only:)
  qed
  then show ?thesis
    using acc(3) h w unfolding t_def [symmetric] in_box_def point_in_rect_nat x by (simp, linarith)
qed

lemma window_pixel_frame:
  assumes "wm_window_is_valid (Some w)" "on_screen w"
  shows "window_pixel w px py \<noteq> None \<longleftrightarrow> wm_point_in_rect (frame w) px py"
proof -
  have nz: "rect_width (frame w) \<noteq> 0" "rect_height (frame w) \<noteq> 0"
    using assms(1) by (auto simp: wm_window_is_valid_def split: if_splits)
  have inside: "wm_point_in_rect (frame w) px py"
    if "wm_point_in_rect (wm_window_title_bar_rect w) px py \<or> wm_point_in_rect (wm_window_content_rect w) px py"
  proof -
    have "in_interior w px py"
      using that title_content_split(1) [OF assms(2)] by blast
    then show ?thesis
      by (auto simp: in_interior_def Let_def point_in_rect_nat)
  qed
  then show ?thesis
    using assms(1) accent_in_title [OF assms(2) nz, of px py]
    by (auto simp: window_pixel_def)
qed

lemma find_cong_set: "(\<And>x. x \<in> set xs \<Longrightarrow> P x = Q x) \<Longrightarrow> find P xs = find Q xs"
  by (induction xs) auto

lemma render_hit:
  assumes "stack_wf (layers (scene s))" "fb_ready fb" "px < fb_width fb" "py < fb_height fb"
    and "set (wm_windows s) \<subseteq> {w. wm_window_is_valid (Some (heap w)) \<and> on_screen (heap w)}"
  shows "pixel_at (snd (wm_compositor_render heap s fb)) px py =
    (case wm_compositor_hit_test heap s px py of
       None \<Rightarrow> background_color (scene s) | Some w \<Rightarrow> the (window_pixel (heap w) px py))"
proof -
  have "find (\<lambda>w. window_pixel (heap w) px py \<noteq> None) (rev (wm_windows s)) =
      find (contains heap px py) (rev (wm_windows s))"
  proof (rule find_cong_set)
    fix w assume "w \<in> set (rev (wm_windows s))"
    then have "wm_window_is_valid (Some (heap w))" "on_screen (heap w)"
      using assms(5) by auto
    then show "(window_pixel (heap w) px py \<noteq> None) = contains heap px py w"
      by (rule window_pixel_frame)
  qed
  then show ?thesis
    unfolding render_pixel [OF assms(1-4)] hit_test_find [OF assms(1)] top_pixel_def by simp
qed

subsection \<open>Sequences of compositor calls\<close>

datatype wm_call =
  Reset u32
| Add win_heap win_ptr
| Activate win_ptr
| Activate_at win_heap u32 u32

fun wm_step :: "wm_state \<Rightarrow> wm_call \<Rightarrow> wm_state option" where
  "wm_step s (Reset color) = Some (snd (wm_compositor_reset s color))"
| "wm_step s (Add heap w) = Some (snd (wm_compositor_add_window heap s w))"
| "wm_step s (Activate w) = Some (snd (wm_compositor_activate_window s w))"
| "wm_step s (Activate_at heap x y) = Some (snd (wm_compositor_activate_at heap s x y))"

lemma wm_step_wf: "wm_wf s \<Longrightarrow> \<exists>s'. wm_step s call = Some s' \<and> wm_wf s'"
proof (cases call)
  case (Reset color)
  then show ?thesis by (simp add: reset_wf)
next
  case (Add heap w)
  assume "wm_wf s"
  from add_window_wf [OF this, of heap w] this show ?thesis
    by (cases "wm_compositor_add_window heap s w") (auto simp: Add split: if_splits)
next
  case (Activate w)
  assume "wm_wf s"
  from activate_wf [OF this, of w] this show ?thesis
    by (cases "wm_compositor_activate_window s w") (auto simp: Activate split: if_splits)
next
  case (Activate_at heap x y)
  assume wf: "wm_wf s"
  let ?w = "wm_compositor_hit_test heap s x y"
  from activate_wf [OF wf, of ?w] wf show ?thesis
    by (cases "wm_compositor_activate_window s ?w")
      (auto simp: Activate_at wm_compositor_activate_at_def Let_def split: if_splits)
qed

interpretation wm: safe_machine wm_step "\<lambda>_. True" wm_wf
  by unfold_locales (rule wm_step_wf)

subsection \<open>Properties\<close>

text \<open>
  C22: the scene invariant. After \<open>wm_compositor_reset\<close> and any sequence of resets, additions,
  activations and clicks, over any window objects, even ones that change between the calls, no
  window is in the stack twice, the stack holds at most \<open>WM_MAX_WINDOWS\<close> windows, and the
  active window is the topmost one (none when the stack is empty).
\<close>
theorem wm_compositor_run_wf:
  "\<exists>s. run_steps wm_step (snd (wm_compositor_reset s0 color)) calls = Some s \<and>
     distinct (wm_windows s) \<and> length (wm_windows s) \<le> WM_MAX_WINDOWS \<and>
     wm_compositor_window_count s = length (wm_windows s) \<and>
     wm_compositor_active_window s = (if wm_windows s = [] then None else Some (last (wm_windows s)))"
proof -
  obtain s where s: "run_steps wm_step (snd (wm_compositor_reset s0 color)) calls = Some s" "wm_wf s"
    using wm.run_safe [OF reset_wf(1), of calls s0 color] by (auto simp: list_all_iff)
  then have "stack_wf (layers (scene s))"
    by (simp add: wm_wf_def)
  then show ?thesis
    using s ls.items_distinct ls.items_bound stack_wfD(4)
    by (auto simp: wm_wf_def wm_windows_def wm_compositor_window_count_def wm_layers_count_def
        wm_compositor_active_window_def wm_focus_active_window_def)
qed

text \<open>
  adding a window. It succeeds exactly for a valid window that is not yet in the stack when
  there is room; the window is then topmost and active and the others keep their order. A
  refused window changes nothing.
\<close>
theorem wm_compositor_add_window_spec:
  assumes "wm_wf s"
  shows "case wm_compositor_add_window heap s w of (r, s') \<Rightarrow>
    if wm_window_is_valid (map_option heap w) \<and> the w \<notin> set (wm_windows s)
       \<and> length (wm_windows s) < WM_MAX_WINDOWS
    then r = 0 \<and> wm_windows s' = wm_windows s @ [the w] \<and> active_window s' = w
    else r = - 1 \<and> s' = s"
  using add_window_wf [OF assms, of heap w] by (auto split: if_splits)

definition demo_state :: wm_state where
  "demo_state = snd (wm_compositor_reset
     \<lparr> scene = \<lparr> background_color = 0, layers = \<lparr> windows = replicate 8 None, layer_count = 0 \<rparr> \<rparr>,
       active_window = None \<rparr> 5)"

definition demo_heap :: win_heap where
  "demo_heap i = wm_window_init None (of_nat i * 10) 0 100 100"

lemma demo_heap_ok: "i < 10 \<Longrightarrow> wm_window_is_valid (Some (demo_heap i)) \<and> on_screen (demo_heap i)"
proof -
  assume "i < 10"
  then have "unat (of_nat i * 10 :: u32) \<le> 100"
    by (simp add: unat_word_ariths unat_of_nat)
  then show ?thesis
    by (simp add: is_valid_nat effective_border_nat on_screen_def demo_heap_def wm_window_init_def
        WM_DEFAULT_BORDER_THICKNESS_def WM_DEFAULT_TITLE_BAR_HEIGHT_def)
qed

theorem wm_compositor_add_window_spec_witness:
  "case wm_compositor_add_window demo_heap demo_state (Some 3) of (r, s') \<Rightarrow>
     r = 0 \<and> wm_windows s' = [3] \<and> active_window s' = Some 3"
proof -
  have "wm_wf demo_state" "wm_windows demo_state = []"
    unfolding demo_state_def by (rule reset_wf)+
  then show ?thesis
    using wm_compositor_add_window_spec [of demo_state demo_heap "Some 3"] demo_heap_ok [of 3]
    by (auto simp: WM_MAX_WINDOWS_def split: prod.splits)
qed

text \<open>
  activating a window raises it. It succeeds exactly for a window of the stack, which then
  is topmost and active while all other windows keep their relative order; raising it again
  changes nothing more. Otherwise the state is unchanged.
\<close>
theorem wm_compositor_activate_spec:
  assumes "wm_wf s"
  shows "case wm_compositor_activate_window s w of (r, s') \<Rightarrow>
    if w \<noteq> None \<and> the w \<in> set (wm_windows s)
    then r = 0 \<and> wm_windows s' = removeAll (the w) (wm_windows s) @ [the w] \<and> active_window s' = w \<and>
      wm_windows (snd (wm_compositor_activate_window s' w)) = wm_windows s'
    else r = - 1 \<and> s' = s"
proof -
  obtain r s' where a: "wm_compositor_activate_window s w = (r, s')" by force
  show ?thesis
    using activate_wf [OF assms, of w] activate_wf [of s' w] a
    by (cases "wm_compositor_activate_window s' w") (auto split: if_splits)
qed

definition demo_two :: wm_state where
  "demo_two = snd (wm_compositor_add_window demo_heap
     (snd (wm_compositor_add_window demo_heap demo_state (Some 1))) (Some 2))"

lemma demo_two_wf: "wm_wf demo_two" "wm_windows demo_two = [1, 2]" "background_color (scene demo_two) = 5"
proof -
  let ?s = "snd (wm_compositor_add_window demo_heap demo_state (Some 1))"
  have d: "wm_wf demo_state" "wm_windows demo_state = []"
    unfolding demo_state_def by (rule reset_wf)+
  have s: "wm_wf ?s" "wm_windows ?s = [1]"
    using add_window_wf [OF d(1), of demo_heap "Some 1"] d(2) demo_heap_ok [of 1]
    by (auto simp: WM_MAX_WINDOWS_def split: prod.splits)
  show "wm_wf demo_two" "wm_windows demo_two = [1, 2]"
    using add_window_wf [OF s(1), of demo_heap "Some 2"] s(2) demo_heap_ok [of 2]
    unfolding demo_two_def by (auto simp: WM_MAX_WINDOWS_def split: prod.splits)
  have bg: "background_color (scene (snd (wm_compositor_add_window demo_heap s w))) = background_color (scene s)"
    for s w
    by (simp add: wm_compositor_add_window_def wm_focus_set_active_window_def set_layers_def split: prod.split)
  show "background_color (scene demo_two) = 5"
    by (simp add: demo_two_def bg) (simp add: demo_state_def wm_compositor_reset_def wm_focus_reset_def)
qed

theorem wm_compositor_activate_spec_witness:
  "wm_windows (snd (wm_compositor_activate_window demo_two (Some 1))) = [2, 1]"
  using wm_compositor_activate_spec [OF demo_two_wf(1), of "Some 1"] demo_two_wf(2)
  by (auto split: prod.splits)

text \<open>
  hit testing. \<open>wm_compositor_hit_test\<close> returns the topmost window whose frame contains the
  point, and null exactly when no window of the scene contains it.
\<close>
theorem wm_compositor_hit_test_spec:
  assumes "wm_wf s"
  shows "(case wm_compositor_hit_test heap s x y of
      None \<Rightarrow> filter (contains heap x y) (wm_windows s) = []
    | Some w \<Rightarrow> filter (contains heap x y) (wm_windows s) \<noteq> [] \<and>
        w = last (filter (contains heap x y) (wm_windows s)))"
proof -
  have "find P (rev ws) = (if filter P ws = [] then None else Some (last (filter P ws)))"
    for P and ws :: "win_ref list"
    by (induction ws rule: rev_induct) auto
  then show ?thesis
    using assms by (simp add: hit_test_find wm_wf_def)
qed

theorem wm_compositor_hit_test_spec_witness:
  "wm_compositor_hit_test demo_heap demo_two 50 50 = Some 2"
  using wm_compositor_hit_test_spec [OF demo_two_wf(1), of demo_heap 50 50] demo_two_wf(2)
  by (auto simp: demo_heap_def wm_window_init_def wm_point_in_rect_def split: option.splits)

text \<open>
  C19: what the compositor draws is what the pointer hits. When every window of the scene is
  valid and lies within the 32-bit coordinates, each pixel that \<open>wm_compositor_render\<close> leaves on
  the screen has the background colour exactly where the hit test finds no window, and
  otherwise the colour that the window returned by the hit test shows at that point.
\<close>
theorem wm_render_matches_hit_test:
  assumes "wm_wf s" and "fb_wf fb" and "fb_pixels fb \<noteq> None" and "px < fb_width fb" and "py < fb_height fb"
    and "set (wm_windows s) \<subseteq> {w. wm_window_is_valid (Some (heap w)) \<and> on_screen (heap w)}"
  shows "pixel_at (snd (wm_compositor_render heap s fb)) px py =
    (case wm_compositor_hit_test heap s px py of
       None \<Rightarrow> background_color (scene s) | Some w \<Rightarrow> the (window_pixel (heap w) px py))"
  by (rule render_hit) (use assms in \<open>auto simp: wm_wf_def fb_ready_def\<close>)

theorem wm_render_matches_hit_test_witness:
  "pixel_at (snd (wm_compositor_render demo_heap demo_two (snd (framebuffer_init demo_fb)))) 319 199 = 5"
proof -
  have "wm_compositor_hit_test demo_heap demo_two 319 199 = None"
    using hit_test_find [of demo_two demo_heap 319 199] demo_two_wf(1,2)
    by (simp add: wm_wf_def demo_heap_def wm_window_init_def wm_point_in_rect_def)
  moreover have "set (wm_windows demo_two) \<subseteq>
      {w. wm_window_is_valid (Some (demo_heap w)) \<and> on_screen (demo_heap w)}"
    using demo_heap_ok [of 1] demo_heap_ok [of 2] demo_two_wf(2) by simp
  ultimately show ?thesis
    using wm_render_matches_hit_test [OF demo_two_wf(1) demo_wf(1) [of demo_fb] demo_wf(2), of 319 199 demo_heap]
      demo_two_wf(3) by (simp add: framebuffer_init_wf)
qed

end
