(* ===== verification/InputQueue.thy ===== *)
theory InputQueue
  imports Prelude
begin

unbundle bit_operations_syntax

text \<open>
  The bounded event queues of the input path. First the contract of a bounded FIFO queue, as a
  locale, and the array ring that \<open>kernel/input/event_queue.c\<close> and
  \<open>drivers/input/keyboard.c\<close> both use; then the mouse event queue and the mouse driver
  (\<open>drivers/input/mouse.c\<close>). Read and write index and count stay below or at the capacity and
  are natural numbers.
\<close>

subsection \<open>Bounded FIFO queues\<close>

datatype 'a queue_call = Enq 'a | Deq
datatype 'a queue_answer = Status int | Item "'a option"

fun abstract_step :: "nat \<Rightarrow> 'a list \<Rightarrow> 'a queue_call \<Rightarrow> 'a queue_answer \<times> 'a list" where
  "abstract_step capacity xs (Enq x) =
     (if length xs < capacity then (Status 0, xs @ [x]) else (Status (- 1), xs))"
| "abstract_step capacity [] Deq = (Item None, [])"
| "abstract_step capacity (x # xs) Deq = (Item (Some x), xs)"

fun answers :: "('s \<Rightarrow> 'c \<Rightarrow> 'r \<times> 's) \<Rightarrow> 's \<Rightarrow> 'c list \<Rightarrow> 'r list \<times> 's" where
  "answers step s [] = ([], s)"
| "answers step s (c # cs) =
     (let (r, s') = step s c; (rs, s'') = answers step s' cs in (r # rs, s''))"

fun concrete_step ::
  "('q \<Rightarrow> 'a \<Rightarrow> int \<times> 'q) \<Rightarrow> ('q \<Rightarrow> ('a \<times> 'q) option) \<Rightarrow> 'q \<Rightarrow> 'a queue_call \<Rightarrow> 'a queue_answer \<times> 'q" where
  "concrete_step enq deq q (Enq x) = (case enq q x of (r, q') \<Rightarrow> (Status r, q'))"
| "concrete_step enq deq q Deq =
     (case deq q of None \<Rightarrow> (Item None, q) | Some (x, q') \<Rightarrow> (Item (Some x), q'))"

text \<open>
  \<open>deq\<close> returns \<open>None\<close> for the status \<open>-1\<close>, which leaves the queue as it is. The loop
  \<open>while (pop(&e) == 0) handle(e)\<close> over such a queue is \<open>drain\<close>, a partial function: the
  handler may add to the queue.
\<close>

partial_function (option) drain ::
  "('q \<Rightarrow> ('a \<times> 'q) option) \<Rightarrow> ('a \<Rightarrow> 's \<Rightarrow> 's) \<Rightarrow> 'q \<Rightarrow> nat \<Rightarrow> 's \<Rightarrow> (nat \<times> 'q \<times> 's) option" where
  "drain deq handle q processed s =
     (case deq q of
        None \<Rightarrow> Some (processed, q, s)
      | Some (x, q') \<Rightarrow> drain deq handle q' (processed + 1) (handle x s))"

lemma drain_keeps:
  fixes deq :: "'q \<Rightarrow> ('a \<times> 'q) option" and handle :: "'a \<Rightarrow> 's \<Rightarrow> 's"
  assumes "drain deq handle q n s = Some (m, q', s')" "P q" "\<And>q x q'. P q \<Longrightarrow> deq q = Some (x, q') \<Longrightarrow> P q'"
  shows "P q'"
proof -
  have "\<forall>m q' s'. r = (m, q', s') \<longrightarrow> P q \<longrightarrow> (\<forall>q x q'. P q \<longrightarrow> deq q = Some (x, q') \<longrightarrow> P q') \<longrightarrow> P q'"
    if "drain deq handle q n s = Some r" for deq :: "'q \<Rightarrow> ('a \<times> 'q) option" and handle :: "'a \<Rightarrow> 's \<Rightarrow> 's" and q n s r P
  proof (rule drain.raw_induct [OF _ that])
    show "\<forall>m q' s'. r = (m, q', s') \<longrightarrow> P q \<longrightarrow> (\<forall>q x q'. P q \<longrightarrow> deq q = Some (x, q') \<longrightarrow> P q') \<longrightarrow> P q'"
      if "\<And>deq handle q n s r. d deq handle q n s = Some r \<Longrightarrow>
          \<forall>m q' s'. r = (m, q', s') \<longrightarrow> P q \<longrightarrow> (\<forall>q x q'. P q \<longrightarrow> deq q = Some (x, q') \<longrightarrow> P q') \<longrightarrow> P q'"
        "(case deq q of None \<Rightarrow> Some (n, q, s) | Some (x, q') \<Rightarrow> d deq handle q' (n + 1) (handle x s)) = Some r"
      for d and deq :: "'q \<Rightarrow> ('a \<times> 'q) option" and handle :: "'a \<Rightarrow> 's \<Rightarrow> 's" and q n s r
    proof (cases "deq q")
      case None
      then show ?thesis using that(2) by auto
    next
      case (Some p)
      obtain x q1 where p: "p = (x, q1)" by force
      have "d deq handle q1 (n + 1) (handle x s) = Some r"
        using that(2) Some p by simp
      from that(1) [OF this] show ?thesis
        using Some p by blast
    qed
  qed
  with assms show ?thesis by blast
qed

locale bounded_queue =
  fixes enq :: "'q \<Rightarrow> 'a \<Rightarrow> int \<times> 'q"
    and deq :: "'q \<Rightarrow> ('a \<times> 'q) option"
    and contents :: "'q \<Rightarrow> 'a list"
    and wf :: "'q \<Rightarrow> bool"
    and capacity :: nat
  assumes enq_law: "wf q \<Longrightarrow> enq q x = (r, q') \<Longrightarrow>
      wf q' \<and> (if length (contents q) < capacity then r = 0 \<and> contents q' = contents q @ [x]
               else r = - 1 \<and> q' = q)"
    and deq_None: "wf q \<Longrightarrow> deq q = None \<longleftrightarrow> contents q = []"
    and deq_Some: "wf q \<Longrightarrow> deq q = Some (x, q') \<Longrightarrow> wf q' \<and> contents q = x # contents q'"
begin

lemma step_refines:
  assumes "wf q" "concrete_step enq deq q c = (r, q')"
  shows "wf q' \<and> abstract_step capacity (contents q) c = (r, contents q')"
proof (cases c)
  case (Enq x)
  obtain st q1 where e: "enq q x = (st, q1)" by force
  from enq_law [OF assms(1) e] assms(2) show ?thesis
    by (auto simp: Enq e split: if_splits)
next
  case Deq
  show ?thesis
  proof (cases "deq q")
    case None
    then show ?thesis
      using deq_None [OF assms(1)] assms by (simp add: Deq)
  next
    case (Some p)
    obtain x q1 where p: "p = (x, q1)" by force
    from deq_Some [OF assms(1) Some [unfolded p]] assms(2) show ?thesis
      by (simp add: Deq Some p)
  qed
qed

lemma run_refines:
  assumes "wf q" "answers (concrete_step enq deq) q cs = (rs, q')"
  shows "wf q' \<and> answers (abstract_step capacity) (contents q) cs = (rs, contents q')"
  using assms
proof (induction cs arbitrary: q rs)
  case (Cons c cs)
  obtain r q1 where s: "concrete_step enq deq q c = (r, q1)" by force
  obtain rs1 where t: "answers (concrete_step enq deq) q1 cs = (rs1, q')" "rs = r # rs1"
    using Cons.prems(2) s by (auto simp: Let_def split: prod.splits)
  from step_refines [OF Cons.prems(1) s] Cons.IH [OF _ t(1)] t(2) show ?case
    by simp
qed simp

lemma abstract_bounded:
  "length xs \<le> capacity \<Longrightarrow> length (snd (abstract_step capacity xs c)) \<le> capacity"
  by (cases c; cases xs) auto

lemma bounded: "wf q \<Longrightarrow> answers (concrete_step enq deq) q cs = (rs, q') \<Longrightarrow>
  length (contents q) \<le> capacity \<Longrightarrow> length (contents q') \<le> capacity"
proof (induction cs arbitrary: q rs)
  case (Cons c cs)
  obtain r q1 where s: "concrete_step enq deq q c = (r, q1)" by force
  obtain rs1 where t: "answers (concrete_step enq deq) q1 cs = (rs1, q')"
    using Cons.prems(2) s by (auto simp: Let_def split: prod.splits)
  have "wf q1" "abstract_step capacity (contents q) c = (r, contents q1)"
    using step_refines [OF Cons.prems(1) s] by auto
  then have "length (contents q1) \<le> capacity"
    using abstract_bounded [OF Cons.prems(3), of c] by simp
  then show ?case
    using Cons.IH [OF \<open>wf q1\<close> t] by simp
qed simp

lemma drain_all:
  "wf q \<Longrightarrow> \<exists>q'. drain deq handle q n s = Some (n + length (contents q), q', fold handle (contents q) s) \<and>
     wf q' \<and> contents q' = []"
proof (induction "contents q" arbitrary: q n s)
  case Nil
  then show ?case
    using deq_None [OF Nil.prems] by (subst drain.simps) auto
next
  case (Cons x xs)
  then obtain q1 where q1: "deq q = Some (x, q1)" "wf q1" "contents q1 = xs"
    using deq_None [OF Cons.prems] deq_Some [OF Cons.prems]
    by (metis list.distinct(1) list.inject option.exhaust surj_pair)
  from Cons.hyps(1) [OF q1(3) [symmetric] q1(2), of "n + 1" "handle x s"] show ?case
    using q1 Cons.hyps(2) by (subst drain.simps) (auto simp flip: Cons.hyps(2))
qed

end

subsection \<open>The array ring\<close>

definition ring_next :: "nat \<Rightarrow> nat \<Rightarrow> nat" where
  "ring_next capacity i = (if i + 1 \<ge> capacity then 0 else i + 1)"

definition ring_list :: "'a list \<Rightarrow> nat \<Rightarrow> nat \<Rightarrow> 'a list" where
  "ring_list buf r n = map (\<lambda>k. buf ! ((r + k) mod length buf)) [0..<n]"

lemma ring_next_mod: "i < capacity \<Longrightarrow> ring_next capacity i = (i + 1) mod capacity"
  by (cases "i + 1 = capacity") (auto simp: ring_next_def)

lemma ring_list_length [simp]: "length (ring_list buf r n) = n"
  by (simp add: ring_list_def)

lemma ring_list_0 [simp]: "ring_list buf r 0 = []"
  by (simp add: ring_list_def)

lemma ring_cells_distinct:
  assumes "j < k" "k < j + c"
  shows "(r + j) mod c \<noteq> (r + k) mod (c :: nat)"
proof
  assume "(r + j) mod c = (r + k) mod c"
  then have "c dvd (r + k) - (r + j)"
    using assms(1) by (subst mod_eq_dvd_iff_nat [symmetric]) simp_all
  then have "c dvd k - j"
    by simp
  then show False
    using assms by (auto dest: dvd_imp_le)
qed

lemma ring_push:
  assumes "n < length buf" "w = (r + n) mod length buf"
  shows "ring_list (buf[w := x]) r (n + 1) = ring_list buf r n @ [x]"
proof -
  have "w \<noteq> (r + k) mod length buf" if "k < n" for k
    using ring_cells_distinct [of k n "length buf" r] that assms by simp
  moreover have "0 < length buf"
    using assms(1) by linarith
  then have "w < length buf"
    unfolding assms(2) by (rule mod_less_divisor)
  ultimately show ?thesis
    using assms(2) by (simp add: ring_list_def)
qed

lemma ring_next_list:
  "r < length buf \<Longrightarrow>
   ring_list buf (ring_next (length buf) r) n = map (\<lambda>k. buf ! ((r + Suc k) mod length buf)) [0..<n]"
  by (simp add: ring_list_def ring_next_mod mod_Suc_eq mod_add_left_eq)

lemma ring_pop_update:
  assumes "n \<le> length buf" "r < length buf" "0 < n"
  shows "ring_list (buf[r := x]) (ring_next (length buf) r) (n - 1) = ring_list buf (ring_next (length buf) r) (n - 1)"
proof -
  have "r \<noteq> (r + Suc k) mod length buf" if "k < n - 1" for k
    using ring_cells_distinct [of 0 "Suc k" "length buf" r] that assms by simp
  then have "map (\<lambda>k. buf[r := x] ! ((r + Suc k) mod length buf)) [0..<n - 1] =
      map (\<lambda>k. buf ! ((r + Suc k) mod length buf)) [0..<n - 1]"
    by (intro map_cong) auto
  then show ?thesis
    using assms(2) ring_next_list [of r "buf[r := x]" "n - 1"] ring_next_list [of r buf "n - 1"] by simp
qed

lemma ring_pop:
  assumes "0 < n" "r < length buf"
  shows "ring_list buf r n = buf ! r # ring_list buf (ring_next (length buf) r) (n - 1)"
proof -
  have "[0..<n] = 0 # map Suc [0..<n - 1]"
    using assms(1) by (simp add: map_Suc_upt upt_conv_Cons)
  then have "ring_list buf r n = buf ! (r mod length buf) #
      map (\<lambda>k. buf ! ((r + Suc k) mod length buf)) [0..<n - 1]"
    by (simp add: ring_list_def comp_def)
  also have "\<dots> = buf ! r # ring_list buf (ring_next (length buf) r) (n - 1)"
    using assms(2) by (simp add: ring_next_list)
  finally show ?thesis .
qed

lemma ring_next_less [simp]: "0 < capacity \<Longrightarrow> ring_next capacity i < capacity"
  by (auto simp: ring_next_def)

lemma ring_write_index:
  "w = (r + n) mod c \<Longrightarrow> 0 < c \<Longrightarrow> ring_next c w = (r + (n + 1)) mod c"
  by (simp add: ring_next_mod mod_Suc_eq)

lemma ring_read_index:
  "w = (r + n) mod c \<Longrightarrow> r < c \<Longrightarrow> 0 < n \<Longrightarrow> w = (ring_next c r + (n - 1)) mod c"
  using mod_add_left_eq [of "r + 1" c "n - 1"] by (simp add: ring_next_mod)

subsection \<open>The mouse event queue\<close>

definition INPUT_EVENT_QUEUE_CAPACITY :: nat where "INPUT_EVENT_QUEUE_CAPACITY = 64"
definition INPUT_MOUSE_BUTTON_LEFT :: u8 where "INPUT_MOUSE_BUTTON_LEFT = 1"

datatype input_event_type =
  INPUT_EVENT_MOUSE_MOVE | INPUT_EVENT_MOUSE_BUTTON_DOWN | INPUT_EVENT_MOUSE_BUTTON_UP

record input_mouse_event =
  ev_x :: u32
  ev_y :: u32
  ev_buttons :: u8
  ev_button :: u8

record input_event =
  ev_type :: input_event_type
  ev_mouse :: input_mouse_event

record input_event_queue =
  q_events :: "input_event list"
  q_read_index :: nat
  q_write_index :: nat
  q_count :: nat

definition input_event_queue_reset :: "input_event_queue \<Rightarrow> input_event_queue" where
  "input_event_queue_reset q = q \<lparr> q_read_index := 0, q_write_index := 0, q_count := 0 \<rparr>"

definition input_event_queue_push :: "input_event_queue \<Rightarrow> input_event \<Rightarrow> int \<times> input_event_queue" where
  "input_event_queue_push q event =
     (if q_count q \<ge> INPUT_EVENT_QUEUE_CAPACITY then (- 1, q)
      else
        let events = (q_events q)[q_write_index q := event];
            write_index = q_write_index q + 1;
            write_index = (if write_index \<ge> INPUT_EVENT_QUEUE_CAPACITY then 0 else write_index)
        in (0, q \<lparr> q_events := events, q_write_index := write_index, q_count := q_count q + 1 \<rparr>))"

text \<open>\<open>None\<close> is the status \<open>-1\<close>; otherwise the event popped and the queue after it.\<close>

definition input_event_queue_pop :: "input_event_queue \<Rightarrow> (input_event \<times> input_event_queue) option" where
  "input_event_queue_pop q =
     (if q_count q = 0 then None
      else
        let out_event = q_events q ! q_read_index q;
            read_index = q_read_index q + 1;
            read_index = (if read_index \<ge> INPUT_EVENT_QUEUE_CAPACITY then 0 else read_index)
        in Some (out_event, q \<lparr> q_read_index := read_index, q_count := q_count q - 1 \<rparr>))"

definition input_event_queue_count :: "input_event_queue \<Rightarrow> nat" where
  "input_event_queue_count q = q_count q"

definition event_queue_wf :: "input_event_queue \<Rightarrow> bool" where
  "event_queue_wf q \<longleftrightarrow> length (q_events q) = INPUT_EVENT_QUEUE_CAPACITY \<and>
     q_read_index q < INPUT_EVENT_QUEUE_CAPACITY \<and> q_count q \<le> INPUT_EVENT_QUEUE_CAPACITY \<and>
     q_write_index q = (q_read_index q + q_count q) mod INPUT_EVENT_QUEUE_CAPACITY"

definition queued_events :: "input_event_queue \<Rightarrow> input_event list" where
  "queued_events q = ring_list (q_events q) (q_read_index q) (q_count q)"

lemma event_queue_ring:
  "input_event_queue_push q event =
     (if q_count q \<ge> INPUT_EVENT_QUEUE_CAPACITY then (- 1, q)
      else (0, q \<lparr> q_events := (q_events q)[q_write_index q := event],
                   q_write_index := ring_next INPUT_EVENT_QUEUE_CAPACITY (q_write_index q),
                   q_count := q_count q + 1 \<rparr>))"
  "input_event_queue_pop q =
     (if q_count q = 0 then None
      else Some (q_events q ! q_read_index q,
        q \<lparr> q_read_index := ring_next INPUT_EVENT_QUEUE_CAPACITY (q_read_index q), q_count := q_count q - 1 \<rparr>))"
  by (simp_all add: input_event_queue_push_def input_event_queue_pop_def ring_next_def Let_def)

interpretation evq: bounded_queue input_event_queue_push input_event_queue_pop queued_events
  event_queue_wf INPUT_EVENT_QUEUE_CAPACITY
proof unfold_locales
  show "event_queue_wf q' \<and> (if length (queued_events q) < INPUT_EVENT_QUEUE_CAPACITY
      then r = 0 \<and> queued_events q' = queued_events q @ [x] else r = - 1 \<and> q' = q)"
    if "event_queue_wf q" "input_event_queue_push q x = (r, q')" for q x r q'
  proof (cases "q_count q < INPUT_EVENT_QUEUE_CAPACITY")
    case True
    have q': "r = 0" "q' = q \<lparr> q_events := (q_events q)[q_write_index q := x],
        q_write_index := ring_next INPUT_EVENT_QUEUE_CAPACITY (q_write_index q), q_count := q_count q + 1 \<rparr>"
      using that(2) True by (auto simp: event_queue_ring)
    show ?thesis
      using that(1) True ring_push [of "q_count q" "q_events q" "q_write_index q" "q_read_index q" x]
        ring_write_index [of "q_write_index q" "q_read_index q" "q_count q" INPUT_EVENT_QUEUE_CAPACITY]
      unfolding q' by (simp add: event_queue_wf_def queued_events_def)
  next
    case False
    then show ?thesis
      using that by (auto simp: event_queue_ring queued_events_def)
  qed
  show "input_event_queue_pop q = None \<longleftrightarrow> queued_events q = []" if "event_queue_wf q" for q
    by (auto simp: event_queue_ring queued_events_def ring_list_def)
  show "event_queue_wf q' \<and> queued_events q = x # queued_events q'"
    if "event_queue_wf q" "input_event_queue_pop q = Some (x, q')" for q x q'
  proof -
    have n: "0 < q_count q"
      using that(2) by (auto simp: event_queue_ring split: if_splits)
    have q': "x = q_events q ! q_read_index q"
      "q' = q \<lparr> q_read_index := ring_next INPUT_EVENT_QUEUE_CAPACITY (q_read_index q), q_count := q_count q - 1 \<rparr>"
      using that(2) n by (auto simp: event_queue_ring)
    show ?thesis
      using that(1) n ring_pop [OF n, of "q_read_index q" "q_events q"]
        ring_read_index [of "q_write_index q" "q_read_index q" "q_count q" INPUT_EVENT_QUEUE_CAPACITY]
      unfolding q' by (auto simp: event_queue_wf_def queued_events_def)
  qed
qed

lemma event_queue_reset_wf:
  "length (q_events q) = INPUT_EVENT_QUEUE_CAPACITY \<Longrightarrow> event_queue_wf (input_event_queue_reset q)"
  "queued_events (input_event_queue_reset q) = []"
  by (simp_all add: event_queue_wf_def queued_events_def input_event_queue_reset_def
      INPUT_EVENT_QUEUE_CAPACITY_def)

lemma event_queue_count: "input_event_queue_count q = length (queued_events q)"
  by (simp add: input_event_queue_count_def queued_events_def)

subsection \<open>The mouse driver\<close>

record mouse_state =
  mouse_x :: u32
  mouse_y :: u32
  mouse_buttons :: u8

text \<open>The driver's state and the queue it feeds.\<close>

record input_state =
  mouse :: mouse_state
  event_queue :: input_event_queue

definition mouse_emit ::
  "input_event_type \<Rightarrow> u32 \<Rightarrow> u32 \<Rightarrow> u8 \<Rightarrow> u8 \<Rightarrow> input_state \<Rightarrow> int \<times> input_state" where
  "mouse_emit ty x y buttons button s =
     (let event = \<lparr> ev_type = ty, ev_mouse = \<lparr> ev_x = x, ev_y = y, ev_buttons = buttons,
                                                 ev_button = button \<rparr> \<rparr>;
          (r, q) = input_event_queue_push (event_queue s) event
      in (r, s \<lparr> event_queue := q \<rparr>))"

definition mouse_reset :: "input_state \<Rightarrow> input_state" where
  "mouse_reset s =
     s \<lparr> mouse := \<lparr> mouse_x = 0, mouse_y = 0, mouse_buttons = 0 \<rparr>,
         event_queue := input_event_queue_reset (event_queue s) \<rparr>"

definition mouse_emit_move :: "u32 \<Rightarrow> u32 \<Rightarrow> u8 \<Rightarrow> input_state \<Rightarrow> int \<times> input_state" where
  "mouse_emit_move x y buttons s =
     (let m = \<lparr> mouse_x = x, mouse_y = y, mouse_buttons = buttons \<rparr> in
      mouse_emit INPUT_EVENT_MOUSE_MOVE (mouse_x m) (mouse_y m) (mouse_buttons m) 0 (s \<lparr> mouse := m \<rparr>))"

definition mouse_emit_button_down :: "u32 \<Rightarrow> u32 \<Rightarrow> u8 \<Rightarrow> input_state \<Rightarrow> int \<times> input_state" where
  "mouse_emit_button_down x y button_mask s =
     (let m = \<lparr> mouse_x = x, mouse_y = y,
                 mouse_buttons = mouse_buttons (mouse s) OR button_mask \<rparr> in
      mouse_emit INPUT_EVENT_MOUSE_BUTTON_DOWN (mouse_x m) (mouse_y m) (mouse_buttons m) button_mask
        (s \<lparr> mouse := m \<rparr>))"

definition mouse_emit_button_up :: "u32 \<Rightarrow> u32 \<Rightarrow> u8 \<Rightarrow> input_state \<Rightarrow> int \<times> input_state" where
  "mouse_emit_button_up x y button_mask s =
     (let m = \<lparr> mouse_x = x, mouse_y = y,
                 mouse_buttons = mouse_buttons (mouse s) AND NOT button_mask \<rparr> in
      mouse_emit INPUT_EVENT_MOUSE_BUTTON_UP (mouse_x m) (mouse_y m) (mouse_buttons m) button_mask
        (s \<lparr> mouse := m \<rparr>))"


subsection \<open>Properties\<close>

text \<open>
  C32: the mouse event queue is a FIFO queue of capacity 64. After a reset, any sequence of push
  and pop calls returns exactly the statuses and events that a list of at most 64 elements
  would: a push is refused only when 64 events wait, a pop only when none does, and events come
  out once, unchanged and in order, however often the indices wrap around the array.
\<close>
theorem event_queue_fifo:
  assumes "length (q_events q0) = INPUT_EVENT_QUEUE_CAPACITY"
  shows "case answers (concrete_step input_event_queue_push input_event_queue_pop)
           (input_event_queue_reset q0) calls of (rs, q) \<Rightarrow>
    answers (abstract_step INPUT_EVENT_QUEUE_CAPACITY) [] calls = (rs, queued_events q) \<and>
    input_event_queue_count q = length (queued_events q) \<and>
    input_event_queue_count q \<le> INPUT_EVENT_QUEUE_CAPACITY"
proof -
  obtain rs q where r: "answers (concrete_step input_event_queue_push input_event_queue_pop)
      (input_event_queue_reset q0) calls = (rs, q)" by force
  from evq.run_refines [OF event_queue_reset_wf(1) [OF assms] r]
    evq.bounded [OF event_queue_reset_wf(1) [OF assms] r] show ?thesis
    by (simp add: r event_queue_reset_wf(2) event_queue_count)
qed

definition demo_event :: "u32 \<Rightarrow> input_event" where
  "demo_event x = \<lparr> ev_type = INPUT_EVENT_MOUSE_MOVE,
     ev_mouse = \<lparr> ev_x = x, ev_y = 0, ev_buttons = 0, ev_button = 0 \<rparr> \<rparr>"

definition demo_queue :: input_event_queue where
  "demo_queue = \<lparr> q_events = replicate 64 (demo_event 0), q_read_index = 9, q_write_index = 9, q_count = 0 \<rparr>"

theorem event_queue_fifo_witness:
  "fst (answers (concrete_step input_event_queue_push input_event_queue_pop)
     (input_event_queue_reset demo_queue) [Enq (demo_event 1), Enq (demo_event 2), Deq, Deq, Deq]) =
   [Status 0, Status 0, Item (Some (demo_event 1)), Item (Some (demo_event 2)), Item None]"
proof -
  have "length (q_events demo_queue) = INPUT_EVENT_QUEUE_CAPACITY"
    by (simp add: demo_queue_def INPUT_EVENT_QUEUE_CAPACITY_def)
  from event_queue_fifo [OF this, of "[Enq (demo_event 1), Enq (demo_event 2), Deq, Deq, Deq]"]
  show ?thesis
    by (simp add: INPUT_EVENT_QUEUE_CAPACITY_def split: prod.splits)
qed

end
