(* ===== verification/Keyboard.thy ===== *)
theory Keyboard
  imports InputQueue Compositor
begin

unbundle bit_operations_syntax

text \<open>
  The keyboard: the PS/2 scancode decoder with its event queue (\<open>drivers/input/keyboard.c\<close>) and
  the delivery of the queued events to window endpoints
  (\<open>kernel/input/keyboard_dispatch.c\<close>). Each event is queued together with the window that is
  active when its key is pressed. \<open>saw_extended_prefix\<close> is only written 0 or 1.
\<close>

definition KEYBOARD_EVENT_QUEUE_CAPACITY :: nat where "KEYBOARD_EVENT_QUEUE_CAPACITY = 64"
definition KEYBOARD_SCANCODE_EXTENDED_PREFIX :: u8 where "KEYBOARD_SCANCODE_EXTENDED_PREFIX = 0xe0"
definition KEYBOARD_SCANCODE_LEFT_SHIFT :: u8 where "KEYBOARD_SCANCODE_LEFT_SHIFT = 0x2a"
definition KEYBOARD_SCANCODE_RIGHT_SHIFT :: u8 where "KEYBOARD_SCANCODE_RIGHT_SHIFT = 0x36"
definition KEYBOARD_SCANCODE_BREAK_BIT :: u8 where "KEYBOARD_SCANCODE_BREAK_BIT = 0x80"

definition KEYBOARD_CONTROL_ENTER :: u8 where "KEYBOARD_CONTROL_ENTER = 1"
definition KEYBOARD_CONTROL_BACKSPACE :: u8 where "KEYBOARD_CONTROL_BACKSPACE = 2"
definition KEYBOARD_CONTROL_TAB :: u8 where "KEYBOARD_CONTROL_TAB = 3"
definition KEYBOARD_CONTROL_ESCAPE :: u8 where "KEYBOARD_CONTROL_ESCAPE = 4"

datatype keyboard_event_type = KEYBOARD_EVENT_TEXT | KEYBOARD_EVENT_CONTROL

record keyboard_event =
  kev_type :: keyboard_event_type
  kev_scancode :: u8
  kev_pressed :: u8
  kev_text :: char
  kev_control :: u8

record keyboard_state =
  kb_events :: "keyboard_event list"
  focus_windows :: "win_ptr list"
  kb_read_index :: nat
  kb_write_index :: nat
  kb_count :: nat
  shift_mask :: u8
  saw_extended_prefix :: bool

subsection \<open>The driver\<close>

definition keyboard_queue_push :: "keyboard_state \<Rightarrow> keyboard_event \<times> win_ptr \<Rightarrow> int \<times> keyboard_state" where
  "keyboard_queue_push kb entry =
     (case entry of (event, focus_window) \<Rightarrow>
      if kb_count kb \<ge> KEYBOARD_EVENT_QUEUE_CAPACITY then (- 1, kb)
      else
        let events = (kb_events kb)[kb_write_index kb := event];
            focus = (focus_windows kb)[kb_write_index kb := focus_window];
            write_index = kb_write_index kb + 1;
            write_index = (if write_index \<ge> KEYBOARD_EVENT_QUEUE_CAPACITY then 0 else write_index)
        in (0, kb \<lparr> kb_events := events, focus_windows := focus, kb_write_index := write_index,
                    kb_count := kb_count kb + 1 \<rparr>))"

definition keyboard_shift_down :: "keyboard_state \<Rightarrow> bool" where
  "keyboard_shift_down kb \<longleftrightarrow> shift_mask kb \<noteq> 0"

definition keyboard_control_for_scancode :: "u8 \<Rightarrow> u8" where
  "keyboard_control_for_scancode scancode =
     (if scancode = 0x01 then KEYBOARD_CONTROL_ESCAPE
      else if scancode = 0x0e then KEYBOARD_CONTROL_BACKSPACE
      else if scancode = 0x0f then KEYBOARD_CONTROL_TAB
      else if scancode = 0x1c then KEYBOARD_CONTROL_ENTER
      else 0)"

text \<open>The \<open>switch\<close> of \<open>keyboard_printable_for_scancode\<close>: scancode, shifted and plain character.\<close>

definition printable_table :: "(u8 \<times> char \<times> char) list" where
  "printable_table =
    [(0x02, CHR ''!'', CHR ''1''), (0x03, CHR ''@'', CHR ''2''), (0x04, CHR ''#'', CHR ''3''),
     (0x05, CHR ''$'', CHR ''4''), (0x06, CHR ''%'', CHR ''5''), (0x07, CHR ''^'', CHR ''6''),
     (0x08, CHR ''&'', CHR ''7''), (0x09, CHR ''*'', CHR ''8''), (0x0a, CHR ''('', CHR ''9''),
     (0x0b, CHR '')'', CHR ''0''), (0x0c, CHR ''_'', CHR ''-''), (0x0d, CHR ''+'', CHR ''=''),
     (0x10, CHR ''Q'', CHR ''q''), (0x11, CHR ''W'', CHR ''w''), (0x12, CHR ''E'', CHR ''e''),
     (0x13, CHR ''R'', CHR ''r''), (0x14, CHR ''T'', CHR ''t''), (0x15, CHR ''Y'', CHR ''y''),
     (0x16, CHR ''U'', CHR ''u''), (0x17, CHR ''I'', CHR ''i''), (0x18, CHR ''O'', CHR ''o''),
     (0x19, CHR ''P'', CHR ''p''), (0x1a, CHR ''{'', CHR ''[''), (0x1b, CHR ''}'', CHR '']''),
     (0x1e, CHR ''A'', CHR ''a''), (0x1f, CHR ''S'', CHR ''s''), (0x20, CHR ''D'', CHR ''d''),
     (0x21, CHR ''F'', CHR ''f''), (0x22, CHR ''G'', CHR ''g''), (0x23, CHR ''H'', CHR ''h''),
     (0x24, CHR ''J'', CHR ''j''), (0x25, CHR ''K'', CHR ''k''), (0x26, CHR ''L'', CHR ''l''),
     (0x27, CHR '':'', CHR '';''), (0x28, CHR 0x22, CHR 0x27), (0x29, CHR ''~'', CHR 0x60),
     (0x2b, CHR ''|'', CHR 0x5c), (0x2c, CHR ''Z'', CHR ''z''), (0x2d, CHR ''X'', CHR ''x''),
     (0x2e, CHR ''C'', CHR ''c''), (0x2f, CHR ''V'', CHR ''v''), (0x30, CHR ''B'', CHR ''b''),
     (0x31, CHR ''N'', CHR ''n''), (0x32, CHR ''M'', CHR ''m''), (0x33, CHR ''<'', CHR '',''),
     (0x34, CHR ''>'', CHR ''.''), (0x35, CHR ''?'', CHR ''/''), (0x39, CHR '' '', CHR '' '')]"

definition keyboard_printable_for_scancode :: "u8 \<Rightarrow> bool \<Rightarrow> char" where
  "keyboard_printable_for_scancode scancode shifted_key =
     (case map_of printable_table scancode of
        None \<Rightarrow> CHR 0x00
      | Some (shifted, plain) \<Rightarrow> if shifted_key then shifted else plain)"

definition keyboard_reset :: "keyboard_state \<Rightarrow> keyboard_state" where
  "keyboard_reset kb =
     kb \<lparr> kb_read_index := 0, kb_write_index := 0, kb_count := 0, shift_mask := 0,
          saw_extended_prefix := False,
          focus_windows := replicate KEYBOARD_EVENT_QUEUE_CAPACITY None \<rparr>"

text \<open>The window manager's state is read for the active window.\<close>

definition keyboard_handle_scancode :: "wm_state \<Rightarrow> keyboard_state \<Rightarrow> u8 \<Rightarrow> int \<times> keyboard_state" where
  "keyboard_handle_scancode wm kb scancode =
     (if scancode = KEYBOARD_SCANCODE_EXTENDED_PREFIX then (0, kb \<lparr> saw_extended_prefix := True \<rparr>)
      else if saw_extended_prefix kb then (0, kb \<lparr> saw_extended_prefix := False \<rparr>)
      else
        let is_break = (scancode AND KEYBOARD_SCANCODE_BREAK_BIT \<noteq> 0);
            keycode = scancode AND NOT KEYBOARD_SCANCODE_BREAK_BIT
        in if keycode = KEYBOARD_SCANCODE_LEFT_SHIFT then
             (0, kb \<lparr> shift_mask := (if is_break then shift_mask kb AND NOT 0x01
                                      else shift_mask kb OR 0x01) \<rparr>)
           else if keycode = KEYBOARD_SCANCODE_RIGHT_SHIFT then
             (0, kb \<lparr> shift_mask := (if is_break then shift_mask kb AND NOT 0x02
                                      else shift_mask kb OR 0x02) \<rparr>)
           else if is_break then (0, kb)
           else
             let event = \<lparr> kev_type = KEYBOARD_EVENT_TEXT, kev_scancode = keycode,
                           kev_pressed = 1, kev_text = CHR 0x00, kev_control = 0 \<rparr>;
                 focused_window = wm_focus_active_window wm;
                 control = keyboard_control_for_scancode keycode
             in if control \<noteq> 0 then
                  keyboard_queue_push kb
                    (event \<lparr> kev_type := KEYBOARD_EVENT_CONTROL, kev_control := control \<rparr>,
                     focused_window)
                else
                  let printable = keyboard_printable_for_scancode keycode (keyboard_shift_down kb) in
                  if printable = CHR 0x00 then (0, kb)
                  else keyboard_queue_push kb
                         (event \<lparr> kev_type := KEYBOARD_EVENT_TEXT, kev_text := printable \<rparr>,
                          focused_window))"

definition keyboard_pop_event_internal ::
  "keyboard_state \<Rightarrow> ((keyboard_event \<times> win_ptr) \<times> keyboard_state) option" where
  "keyboard_pop_event_internal kb =
     (if kb_count kb = 0 then None
      else
        let out_event = kb_events kb ! kb_read_index kb;
            out_focus_window = focus_windows kb ! kb_read_index kb;
            focus = (focus_windows kb)[kb_read_index kb := None];
            read_index = kb_read_index kb + 1;
            read_index = (if read_index \<ge> KEYBOARD_EVENT_QUEUE_CAPACITY then 0 else read_index)
        in Some ((out_event, out_focus_window),
                 kb \<lparr> focus_windows := focus, kb_read_index := read_index,
                      kb_count := kb_count kb - 1 \<rparr>))"

definition keyboard_pop_event_with_focus ::
  "keyboard_state \<Rightarrow> ((keyboard_event \<times> win_ptr) \<times> keyboard_state) option" where
  "keyboard_pop_event_with_focus kb = keyboard_pop_event_internal kb"

definition keyboard_pop_event :: "keyboard_state \<Rightarrow> (keyboard_event \<times> keyboard_state) option" where
  "keyboard_pop_event kb =
     (case keyboard_pop_event_internal kb of
        None \<Rightarrow> None | Some ((event, _), kb) \<Rightarrow> Some (event, kb))"

definition keyboard_pending_count :: "keyboard_state \<Rightarrow> nat" where
  "keyboard_pending_count kb = kb_count kb"

subsection \<open>The queue contract\<close>

definition keyboard_wf :: "keyboard_state \<Rightarrow> bool" where
  "keyboard_wf kb \<longleftrightarrow> length (kb_events kb) = KEYBOARD_EVENT_QUEUE_CAPACITY \<and>
     length (focus_windows kb) = KEYBOARD_EVENT_QUEUE_CAPACITY \<and>
     kb_read_index kb < KEYBOARD_EVENT_QUEUE_CAPACITY \<and> kb_count kb \<le> KEYBOARD_EVENT_QUEUE_CAPACITY \<and>
     kb_write_index kb = (kb_read_index kb + kb_count kb) mod KEYBOARD_EVENT_QUEUE_CAPACITY"

definition queued_keys :: "keyboard_state \<Rightarrow> (keyboard_event \<times> win_ptr) list" where
  "queued_keys kb = zip (ring_list (kb_events kb) (kb_read_index kb) (kb_count kb))
     (ring_list (focus_windows kb) (kb_read_index kb) (kb_count kb))"

lemma keyboard_ring:
  "keyboard_queue_push kb (event, w) =
     (if kb_count kb \<ge> KEYBOARD_EVENT_QUEUE_CAPACITY then (- 1, kb)
      else (0, kb \<lparr> kb_events := (kb_events kb)[kb_write_index kb := event],
                    focus_windows := (focus_windows kb)[kb_write_index kb := w],
                    kb_write_index := ring_next KEYBOARD_EVENT_QUEUE_CAPACITY (kb_write_index kb),
                    kb_count := kb_count kb + 1 \<rparr>))"
  "keyboard_pop_event_with_focus kb =
     (if kb_count kb = 0 then None
      else Some ((kb_events kb ! kb_read_index kb, focus_windows kb ! kb_read_index kb),
        kb \<lparr> focus_windows := (focus_windows kb)[kb_read_index kb := None],
             kb_read_index := ring_next KEYBOARD_EVENT_QUEUE_CAPACITY (kb_read_index kb),
             kb_count := kb_count kb - 1 \<rparr>))"
  by (simp_all add: keyboard_queue_push_def keyboard_pop_event_with_focus_def
      keyboard_pop_event_internal_def ring_next_def Let_def)


lemma pending_keys: "keyboard_wf kb \<Longrightarrow> length (queued_keys kb) = kb_count kb"
  by (simp add: queued_keys_def)

interpretation kbq: bounded_queue keyboard_queue_push keyboard_pop_event_with_focus queued_keys
  keyboard_wf KEYBOARD_EVENT_QUEUE_CAPACITY
proof unfold_locales
  show "keyboard_wf q' \<and> (if length (queued_keys q) < KEYBOARD_EVENT_QUEUE_CAPACITY
      then r = 0 \<and> queued_keys q' = queued_keys q @ [x] else r = - 1 \<and> q' = q)"
    if "keyboard_wf q" "keyboard_queue_push q x = (r, q')" for q x r q'
  proof (cases "kb_count q < KEYBOARD_EVENT_QUEUE_CAPACITY")
    case True
    obtain e w where x: "x = (e, w)" by force
    have q': "r = 0" "q' = q \<lparr> kb_events := (kb_events q)[kb_write_index q := e],
        focus_windows := (focus_windows q)[kb_write_index q := w],
        kb_write_index := ring_next KEYBOARD_EVENT_QUEUE_CAPACITY (kb_write_index q), kb_count := kb_count q + 1 \<rparr>"
      using that(2) True by (auto simp: x keyboard_ring)
    show ?thesis
      using that(1) True ring_push [of "kb_count q" "kb_events q" "kb_write_index q" "kb_read_index q" e]
        ring_push [of "kb_count q" "focus_windows q" "kb_write_index q" "kb_read_index q" w]
        ring_write_index [of "kb_write_index q" "kb_read_index q" "kb_count q" KEYBOARD_EVENT_QUEUE_CAPACITY]
      unfolding q' by (simp add: keyboard_wf_def queued_keys_def x)
  next
    case False
    then show ?thesis
      using that by (cases x) (auto simp: keyboard_ring pending_keys)
  qed
  show "keyboard_pop_event_with_focus q = None \<longleftrightarrow> queued_keys q = []" if "keyboard_wf q" for q
    using pending_keys [OF that] by (auto simp: keyboard_ring)
  show "keyboard_wf q' \<and> queued_keys q = x # queued_keys q'"
    if "keyboard_wf q" "keyboard_pop_event_with_focus q = Some (x, q')" for q x q'
  proof -
    have n: "0 < kb_count q"
      using that(2) by (auto simp: keyboard_ring split: if_splits)
    have q': "x = (kb_events q ! kb_read_index q, focus_windows q ! kb_read_index q)"
      "q' = q \<lparr> focus_windows := (focus_windows q)[kb_read_index q := None],
        kb_read_index := ring_next KEYBOARD_EVENT_QUEUE_CAPACITY (kb_read_index q), kb_count := kb_count q - 1 \<rparr>"
      using that(2) n by (auto simp: keyboard_ring)
    show ?thesis
      using that(1) ring_pop [OF n, of "kb_read_index q" "kb_events q"]
        ring_pop [OF n, of "kb_read_index q" "focus_windows q"]
        ring_pop_update [of "kb_count q" "focus_windows q" "kb_read_index q" None] n
        ring_read_index [of "kb_write_index q" "kb_read_index q" "kb_count q" KEYBOARD_EVENT_QUEUE_CAPACITY]
      unfolding q' by (auto simp: keyboard_wf_def queued_keys_def)
  qed
qed

lemma keyboard_reset_wf:
  "length (kb_events kb) = KEYBOARD_EVENT_QUEUE_CAPACITY \<Longrightarrow> keyboard_wf (keyboard_reset kb)"
  "queued_keys (keyboard_reset kb) = []"
  by (simp_all add: keyboard_wf_def queued_keys_def keyboard_reset_def KEYBOARD_EVENT_QUEUE_CAPACITY_def)

subsection \<open>A reference decoder\<close>

text \<open>
  The bytes that count: a run of prefix bytes and the byte after it are skipped. Every byte
  carries the window that is active when it arrives.
\<close>

fun effective :: "bool \<Rightarrow> (win_ptr \<times> u8) list \<Rightarrow> (win_ptr \<times> u8) list" where
  "effective prefixed [] = []"
| "effective prefixed ((w, c) # cs) =
     (if c = 0xe0 then effective True cs
      else if prefixed then effective False cs
      else (w, c) # effective False cs)"

definition key_entries :: "bool \<Rightarrow> u8 \<Rightarrow> win_ptr \<Rightarrow> (keyboard_event \<times> win_ptr) list" where
  "key_entries shifted_key c w =
     (if keyboard_control_for_scancode c \<noteq> 0
      then [(\<lparr> kev_type = KEYBOARD_EVENT_CONTROL, kev_scancode = c, kev_pressed = 1,
               kev_text = CHR 0x00, kev_control = keyboard_control_for_scancode c \<rparr>, w)]
      else case map_of printable_table c of
        None \<Rightarrow> []
      | Some (shifted, plain) \<Rightarrow>
          [(\<lparr> kev_type = KEYBOARD_EVENT_TEXT, kev_scancode = c, kev_pressed = 1,
              kev_text = (if shifted_key then shifted else plain), kev_control = 0 \<rparr>, w)])"

text \<open>The two flags say which shift keys are down.\<close>

fun typed :: "bool \<Rightarrow> bool \<Rightarrow> (win_ptr \<times> u8) list \<Rightarrow> (keyboard_event \<times> win_ptr) list" where
  "typed l r [] = []"
| "typed l r ((w, c) # cs) =
     (if c = 0x2a then typed True r cs
      else if c = 0xaa then typed False r cs
      else if c = 0x36 then typed l True cs
      else if c = 0xb6 then typed l False cs
      else if bit c 7 then typed l r cs
      else key_entries (l \<or> r) c w @ typed l r cs)"

definition decoded_keys :: "(wm_state \<times> u8) list \<Rightarrow> (keyboard_event \<times> win_ptr) list" where
  "decoded_keys h = typed False False (effective False (map (\<lambda>(wm, c). (active_window wm, c)) h))"

definition keyboard_run :: "(wm_state \<times> u8) list \<Rightarrow> keyboard_state \<Rightarrow> keyboard_state" where
  "keyboard_run = fold (\<lambda>(wm, c) kb. snd (keyboard_handle_scancode wm kb c))"

lemma push_frame [simp]:
  "shift_mask (snd (keyboard_queue_push kb e)) = shift_mask kb"
  "saw_extended_prefix (snd (keyboard_queue_push kb e)) = saw_extended_prefix kb"
  by (simp_all add: keyboard_queue_push_def Let_def split: prod.splits)

lemma break_bit: "(c :: u8) AND 0x80 = 0 \<longleftrightarrow> \<not> bit c 7"
  using and_exp_eq_0_iff_not_bit [of c 7] by simp

lemma keycode_bits: "(c :: u8) AND NOT 0x80 = unset_bit 7 c" "k OR 0x80 = set_bit 7 (k :: u8)"
  by (simp_all add: unset_bit_eq_and_not set_bit_eq_or)

lemma keycode_cases:
  fixes c k :: u8
  assumes "\<not> bit k 7"
  shows "unset_bit 7 c = k \<and> \<not> bit c 7 \<longleftrightarrow> c = k"
    "unset_bit 7 c = k \<and> bit c 7 \<longleftrightarrow> c = set_bit 7 k"
  using assms unfolding bit_eq_iff [where 'a = "8 word"]
  by (auto simp: bit_unset_bit_iff bit_set_bit_iff)


lemma held_cell:
  fixes m :: u8
  shows "(m OR 0x01) AND 0x01 \<noteq> 0" "(m AND NOT 0x01) AND 0x01 = 0"
    "(m OR 0x02) AND 0x02 \<noteq> 0" "(m AND NOT 0x02) AND 0x02 = 0"
    "(m OR 0x01) AND 0x02 = m AND 0x02" "(m AND NOT 0x01) AND 0x02 = m AND 0x02"
    "(m OR 0x02) AND 0x01 = m AND 0x01" "(m AND NOT 0x02) AND 0x01 = m AND 0x01"
    "(m OR 0x01) AND NOT 0x03 = m AND NOT 0x03" "(m AND NOT 0x01) AND NOT 0x03 = m AND NOT 0x03"
    "(m OR 0x02) AND NOT 0x03 = m AND NOT 0x03" "(m AND NOT 0x02) AND NOT 0x03 = m AND NOT 0x03"
  by (simp_all add: bit.conj_disj_distrib2 and.assoc)

text \<open>Both bits of the mask follow the make and break codes of their key.\<close>

definition mask_shows :: "keyboard_state \<Rightarrow> bool \<Rightarrow> bool \<Rightarrow> bool" where
  "mask_shows kb l r \<longleftrightarrow> (shift_mask kb AND 0x01 \<noteq> 0 \<longleftrightarrow> l) \<and> (shift_mask kb AND 0x02 \<noteq> 0 \<longleftrightarrow> r) \<and>
     (shift_mask kb AND NOT 0x03 = 0)"


lemma mask_shows_upd:
  "mask_shows (kb \<lparr> shift_mask := m \<rparr>) l r \<longleftrightarrow>
     (m AND 0x01 \<noteq> 0 \<longleftrightarrow> l) \<and> (m AND 0x02 \<noteq> 0 \<longleftrightarrow> r) \<and> (m AND NOT 0x03 = 0)"
  unfolding mask_shows_def keyboard_state.select_convs keyboard_state.update_convs by simp

lemma mask_shows_make:
  "mask_shows kb l r \<Longrightarrow> mask_shows (kb \<lparr> shift_mask := shift_mask kb OR 0x01 \<rparr>) True r"
  "mask_shows kb l r \<Longrightarrow> mask_shows (kb \<lparr> shift_mask := shift_mask kb OR 0x02 \<rparr>) l True"
  unfolding mask_shows_upd by (simp_all only: held_cell mask_shows_def simp_thms)

lemma mask_shows_break:
  "mask_shows kb l r \<Longrightarrow> mask_shows (kb \<lparr> shift_mask := shift_mask kb AND NOT 0x01 \<rparr>) False r"
  "mask_shows kb l r \<Longrightarrow> mask_shows (kb \<lparr> shift_mask := shift_mask kb AND NOT 0x02 \<rparr>) l False"
  unfolding mask_shows_upd by (simp_all only: held_cell mask_shows_def simp_thms)

lemma mask_shows_down: "mask_shows kb l r \<Longrightarrow> keyboard_shift_down kb \<longleftrightarrow> l \<or> r"
proof -
  assume m: "mask_shows kb l r"
  have "shift_mask kb = (shift_mask kb AND NOT 0x03) OR (shift_mask kb AND 0x01) OR (shift_mask kb AND 0x02)"
    by (simp flip: bit.conj_disj_distrib)
  then show ?thesis
    using m by (auto simp: mask_shows_def keyboard_shift_down_def)
qed


lemma handle_code:
  assumes "\<not> saw_extended_prefix kb" "c \<noteq> 0xe0"
  shows "keyboard_handle_scancode wm kb c =
    (if c = 0x2a then (0, kb \<lparr> shift_mask := shift_mask kb OR 0x01 \<rparr>)
     else if c = 0xaa then (0, kb \<lparr> shift_mask := shift_mask kb AND NOT 0x01 \<rparr>)
     else if c = 0x36 then (0, kb \<lparr> shift_mask := shift_mask kb OR 0x02 \<rparr>)
     else if c = 0xb6 then (0, kb \<lparr> shift_mask := shift_mask kb AND NOT 0x02 \<rparr>)
     else if bit c 7 then (0, kb)
     else case key_entries (keyboard_shift_down kb) c (active_window wm) of
       [] \<Rightarrow> (0, kb) | e # _ \<Rightarrow> keyboard_queue_push kb e)"
proof -
  have l: "(unset_bit 7 c = 0x2a \<and> \<not> bit c 7) = (c = 0x2a)" "(unset_bit 7 c = 0x2a \<and> bit c 7) = (c = 0xaa)"
    "(unset_bit 7 c = 0x36 \<and> \<not> bit c 7) = (c = 0x36)" "(unset_bit 7 c = 0x36 \<and> bit c 7) = (c = 0xb6)"
    using keycode_cases [of "0x2a" c] keycode_cases [of "0x36" c] by (simp_all add: set_bit_eq_or)
  have u: "\<not> bit c 7 \<Longrightarrow> unset_bit 7 c = c"
    using keycode_cases(1) [of c c] by blast
  have nul: "\<And>x y. map_of printable_table c = Some (x, y) \<Longrightarrow> x \<noteq> CHR 0x00 \<and> y \<noteq> CHR 0x00"
    by (drule map_of_SomeD) (auto simp: printable_table_def)
  have k: "keyboard_handle_scancode wm kb c =
     (if unset_bit 7 c = 0x2a then
        (0, kb \<lparr> shift_mask := (if bit c 7 then shift_mask kb AND NOT 0x01 else shift_mask kb OR 0x01) \<rparr>)
      else if unset_bit 7 c = 0x36 then
        (0, kb \<lparr> shift_mask := (if bit c 7 then shift_mask kb AND NOT 0x02 else shift_mask kb OR 0x02) \<rparr>)
      else if bit c 7 then (0, kb)
      else case key_entries (keyboard_shift_down kb) c (active_window wm) of
        [] \<Rightarrow> (0, kb) | e # _ \<Rightarrow> keyboard_queue_push kb e)"
    using assms u nul
    unfolding keyboard_handle_scancode_def KEYBOARD_SCANCODE_EXTENDED_PREFIX_def
      KEYBOARD_SCANCODE_LEFT_SHIFT_def KEYBOARD_SCANCODE_RIGHT_SHIFT_def KEYBOARD_SCANCODE_BREAK_BIT_def
      break_bit keycode_bits Let_def
    by (auto simp: key_entries_def keyboard_printable_for_scancode_def wm_focus_active_window_def
        split: option.splits)
  show ?thesis
    unfolding k using l by auto
qed

lemma key_entries_single: "key_entries b c w = [] \<or> (\<exists>e. key_entries b c w = [e])"
  by (auto simp: key_entries_def split: option.splits)

lemma push_queue:
  assumes "keyboard_wf kb"
  shows "keyboard_wf (snd (keyboard_queue_push kb e))"
    "queued_keys (snd (keyboard_queue_push kb e)) =
       take KEYBOARD_EVENT_QUEUE_CAPACITY (queued_keys kb @ [e])"
proof -
  obtain r kb' where p: "keyboard_queue_push kb e = (r, kb')" by force
  have "length (queued_keys kb) \<le> KEYBOARD_EVENT_QUEUE_CAPACITY"
    using assms by (simp add: pending_keys) (simp add: keyboard_wf_def)
  then show "keyboard_wf (snd (keyboard_queue_push kb e))"
    "queued_keys (snd (keyboard_queue_push kb e)) =
       take KEYBOARD_EVENT_QUEUE_CAPACITY (queued_keys kb @ [e])"
    using kbq.enq_law [OF assms p] p by (auto split: if_splits)
qed

lemma field_updates [simp]:
  "keyboard_wf (kb \<lparr> shift_mask := m \<rparr>) = keyboard_wf kb"
  "queued_keys (kb \<lparr> shift_mask := m \<rparr>) = queued_keys kb"
  "keyboard_wf (kb \<lparr> saw_extended_prefix := b \<rparr>) = keyboard_wf kb"
  "queued_keys (kb \<lparr> saw_extended_prefix := b \<rparr>) = queued_keys kb"
  "mask_shows (kb \<lparr> saw_extended_prefix := b \<rparr>) l r = mask_shows kb l r"
  "mask_shows (snd (keyboard_queue_push kb e)) l r = mask_shows kb l r"
  by (simp_all add: keyboard_wf_def queued_keys_def mask_shows_def)

lemma take_append_take: "take n (take n xs @ ys) = take n (xs @ ys)"
  by (simp add: take_append min_def)

lemma keyboard_run_typed:
  "keyboard_wf kb \<Longrightarrow> mask_shows kb l r \<Longrightarrow>
   keyboard_wf (keyboard_run h kb) \<and>
   queued_keys (keyboard_run h kb) = take KEYBOARD_EVENT_QUEUE_CAPACITY
     (queued_keys kb @ typed l r (effective (saw_extended_prefix kb) (map (\<lambda>(wm, c). (active_window wm, c)) h)))"
proof (induction h arbitrary: kb l r)
  case Nil
  then have "length (queued_keys kb) \<le> KEYBOARD_EVENT_QUEUE_CAPACITY"
    by (simp add: pending_keys) (simp add: keyboard_wf_def)
  then show ?case
    using Nil by (simp add: keyboard_run_def)
next
  case (Cons p h)
  obtain wm c where p: "p = (wm, c)" by force
  have run: "keyboard_run (p # h) kb = keyboard_run h (snd (keyboard_handle_scancode wm kb c))"
    by (simp add: keyboard_run_def p)
  consider (prefix) "c = 0xe0" | (skip) "c \<noteq> 0xe0" "saw_extended_prefix kb"
    | (code) "c \<noteq> 0xe0" "\<not> saw_extended_prefix kb" by blast
  then show ?case
  proof cases
    case prefix
    then show ?thesis
      using Cons.IH [of "kb \<lparr> saw_extended_prefix := True \<rparr>" l r] Cons.prems
      unfolding run
      by (simp add: p keyboard_handle_scancode_def KEYBOARD_SCANCODE_EXTENDED_PREFIX_def)
  next
    case skip
    then show ?thesis
      using Cons.IH [of "kb \<lparr> saw_extended_prefix := False \<rparr>" l r] Cons.prems
      unfolding run
      by (simp add: p keyboard_handle_scancode_def KEYBOARD_SCANCODE_EXTENDED_PREFIX_def)
  next
    case code
    note h = handle_code [OF code(2,1), of wm]
    have eff: "effective (saw_extended_prefix kb) (map (\<lambda>(wm, c). (active_window wm, c)) (p # h)) =
        (active_window wm, c) # effective False (map (\<lambda>(wm, c). (active_window wm, c)) h)"
      using code by (simp add: p)
    consider (ls) "c = 0x2a" | (lb) "c = 0xaa" | (rs) "c = 0x36" | (rb) "c = 0xb6"
      | (brk) "c \<notin> {0x2a, 0xaa, 0x36, 0xb6}" "bit c 7" | (key) "c \<notin> {0x2a, 0xaa, 0x36, 0xb6}" "\<not> bit c 7"
      by blast
    then show ?thesis
    proof cases
      case ls
      then show ?thesis
        using Cons.IH [OF _ mask_shows_make(1) [OF Cons.prems(2)]] Cons.prems(1) code h
        unfolding eff run by simp
    next
      case lb
      then show ?thesis
        using Cons.IH [OF _ mask_shows_break(1) [OF Cons.prems(2)]] Cons.prems(1) code h
        unfolding eff run by simp
    next
      case rs
      then show ?thesis
        using Cons.IH [OF _ mask_shows_make(2) [OF Cons.prems(2)]] Cons.prems(1) code h
        unfolding eff run by simp
    next
      case rb
      then show ?thesis
        using Cons.IH [OF _ mask_shows_break(2) [OF Cons.prems(2)]] Cons.prems(1) code h
        unfolding eff run by simp
    next
      case brk
      then show ?thesis
        using Cons.IH [OF Cons.prems] code h unfolding eff run by simp
    next
      case key
      note d = mask_shows_down [OF Cons.prems(2)]
      from key_entries_single [of "l \<or> r" c "active_window wm"] show ?thesis
      proof
        assume "key_entries (l \<or> r) c (active_window wm) = []"
        then show ?thesis
          using Cons.IH [OF Cons.prems] code h key d unfolding eff run by simp
      next
        assume "\<exists>e. key_entries (l \<or> r) c (active_window wm) = [e]"
        then obtain e where e: "key_entries (l \<or> r) c (active_window wm) = [e]" by blast
        then have "keyboard_handle_scancode wm kb c = keyboard_queue_push kb e"
          using h key d by simp
        moreover have "typed l r ((active_window wm, c) # cs) = e # typed l r cs" for cs
          using key e by simp
        ultimately show ?thesis
          using Cons.IH [of "snd (keyboard_queue_push kb e)" l r] Cons.prems code
            push_queue [OF Cons.prems(1), of e]
          unfolding eff run by (simp add: take_append_take del: take_append)
      qed
    qed
  qed
qed

text \<open>
  C31: Whatever bytes the keyboard sends and however the window focus changes meanwhile, the
  queue holds after a reset exactly the keys a reference decoder reads from the bytes: prefixed
  bytes are ignored, release codes only affect the shift keys, a text key carries the shifted
  character when a shift key is held, each key carries the window active when it was pressed,
  and only the first 64 keys are kept while nobody takes them.
\<close>

theorem keyboard_typed:
  assumes "length (kb_events kb) = 64"
  shows "queued_keys (keyboard_run h (keyboard_reset kb)) = take 64 (decoded_keys h)"
proof -
  have "mask_shows (keyboard_reset kb) False False" "\<not> saw_extended_prefix (keyboard_reset kb)"
    by (simp_all add: mask_shows_def keyboard_reset_def)
  then show ?thesis
    using keyboard_run_typed [of "keyboard_reset kb" False False h] keyboard_reset_wf [of kb] assms
    by (simp add: KEYBOARD_EVENT_QUEUE_CAPACITY_def decoded_keys_def)
qed

definition demo_keyboard :: keyboard_state where
  "demo_keyboard = \<lparr> kb_events = replicate 64 \<lparr> kev_type = KEYBOARD_EVENT_TEXT, kev_scancode = 0,
       kev_pressed = 0, kev_text = CHR 0x00, kev_control = 0 \<rparr>,
     focus_windows = [], kb_read_index = 5, kb_write_index = 7, kb_count = 2, shift_mask = 3,
     saw_extended_prefix = True \<rparr>"

definition demo_wm :: "nat \<Rightarrow> wm_state" where
  "demo_wm w = \<lparr> scene = \<lparr> background_color = 0, layers = \<lparr> windows = [], layer_count = 0 \<rparr> \<rparr>,
     active_window = Some w \<rparr>"

theorem keyboard_typed_witness:
  "map (\<lambda>(e, w). (kev_text e, w)) (queued_keys (keyboard_run
     [(demo_wm 1, 0x2a), (demo_wm 1, 0x1e), (demo_wm 2, 0xaa), (demo_wm 2, 0xe0), (demo_wm 2, 0x1e),
      (demo_wm 3, 0x1e)] (keyboard_reset demo_keyboard))) = [(CHR ''A'', Some 1), (CHR ''a'', Some 3)]"
proof -
  have "length (kb_events demo_keyboard) = 64" by (simp add: demo_keyboard_def)
  then show ?thesis
    by (subst keyboard_typed) (simp_all add: decoded_keys_def demo_wm_def key_entries_def keyboard_control_for_scancode_def printable_table_def)
qed

end
