(* ===== verification/KeyboardDispatch.thy ===== *)
theory KeyboardDispatch
  imports Keyboard
begin

text \<open>
  Delivery of key events to window endpoints (\<open>kernel/input/keyboard_dispatch.c\<close>). The sink is a
  function pointer, a function on the world \<open>'w\<close> the receivers live in; \<open>None\<close> is the null
  pointer. The sinks the program installs do not touch the keyboard queue. The binding count never
  exceeds 8 and the number of processed events never exceeds the queue's 64, both are natural
  numbers.
\<close>

record keyboard_binding =
  kbd_window :: win_ptr
  kbd_endpoint_id :: u32

record 'w keyboard_dispatch_state =
  kbd_bindings :: "keyboard_binding list"
  kbd_binding_count :: nat
  sink :: "(u32 \<Rightarrow> keyboard_event \<Rightarrow> 'w \<Rightarrow> 'w) option"

definition kbd_find_binding :: "'w keyboard_dispatch_state \<Rightarrow> win_ptr \<Rightarrow> nat option" where
  "kbd_find_binding d window =
     (if window = None then None
      else find_index (\<lambda>i. kbd_window (kbd_bindings d ! i) = window) (kbd_binding_count d))"

definition dispatch_to_window_endpoint ::
  "'w keyboard_dispatch_state \<Rightarrow> win_ptr \<Rightarrow> keyboard_event \<Rightarrow> 'w \<Rightarrow> 'w" where
  "dispatch_to_window_endpoint d focus_window event world =
     (case sink d of
        None \<Rightarrow> world
      | Some f \<Rightarrow>
          (case kbd_find_binding d focus_window of
             None \<Rightarrow> world
           | Some i \<Rightarrow> f (kbd_endpoint_id (kbd_bindings d ! i)) event world))"

definition keyboard_dispatch_reset :: "'w keyboard_dispatch_state \<Rightarrow> 'w keyboard_dispatch_state" where
  "keyboard_dispatch_reset d =
     d \<lparr> kbd_binding_count := 0, sink := None,
         kbd_bindings := replicate WM_MAX_WINDOWS \<lparr> kbd_window = None, kbd_endpoint_id = 0 \<rparr> \<rparr>"

definition keyboard_dispatch_register_window ::
  "'w keyboard_dispatch_state \<Rightarrow> win_ptr \<Rightarrow> u32 \<Rightarrow> int \<times> 'w keyboard_dispatch_state" where
  "keyboard_dispatch_register_window d window endpoint_id =
     (if window = None \<or> endpoint_id = 0 then (- 1, d)
      else case kbd_find_binding d window of
        Some i \<Rightarrow>
          (0, d \<lparr> kbd_bindings := (kbd_bindings d)
                   [i := (kbd_bindings d ! i) \<lparr> kbd_endpoint_id := endpoint_id \<rparr>] \<rparr>)
      | None \<Rightarrow>
          if kbd_binding_count d \<ge> WM_MAX_WINDOWS then (- 1, d)
          else (0, d \<lparr> kbd_bindings := (kbd_bindings d)
                   [kbd_binding_count d := \<lparr> kbd_window = window, kbd_endpoint_id = endpoint_id \<rparr>],
                 kbd_binding_count := kbd_binding_count d + 1 \<rparr>))"

definition keyboard_dispatch_set_sink ::
  "'w keyboard_dispatch_state \<Rightarrow> (u32 \<Rightarrow> keyboard_event \<Rightarrow> 'w \<Rightarrow> 'w) option \<Rightarrow> 'w keyboard_dispatch_state" where
  "keyboard_dispatch_set_sink d f = d \<lparr> sink := f \<rparr>"

definition keyboard_dispatch_pending ::
  "'w keyboard_dispatch_state \<Rightarrow> keyboard_state \<Rightarrow> 'w \<Rightarrow> (nat \<times> keyboard_state \<times> 'w) option" where
  "keyboard_dispatch_pending d kb world =
     drain keyboard_pop_event_with_focus
       (\<lambda>(event, focus_window) world. dispatch_to_window_endpoint d focus_window event world)
       kb 0 world"

subsection \<open>The binding table is a finite map\<close>

definition kbd_wf :: "'w keyboard_dispatch_state \<Rightarrow> bool" where
  "kbd_wf d \<longleftrightarrow> length (kbd_bindings d) = WM_MAX_WINDOWS \<and> kbd_binding_count d \<le> WM_MAX_WINDOWS \<and>
     (\<forall>b \<in> set (take (kbd_binding_count d) (kbd_bindings d)). kbd_window b \<noteq> None \<and> kbd_endpoint_id b \<noteq> 0) \<and>
     distinct (map kbd_window (take (kbd_binding_count d) (kbd_bindings d)))"

definition endpoints :: "'w keyboard_dispatch_state \<Rightarrow> win_ref \<Rightarrow> u32 option" where
  "endpoints d w = map_of (map (\<lambda>b. (kbd_window b, kbd_endpoint_id b))
     (take (kbd_binding_count d) (kbd_bindings d))) (Some w)"

lemma endpoints_find:
  "kbd_wf d \<Longrightarrow> endpoints d w =
     map_option (\<lambda>i. kbd_endpoint_id (kbd_bindings d ! i)) (kbd_find_binding d (Some w))"
  by (simp add: endpoints_def kbd_find_binding_def find_first_map_of kbd_wf_def)

lemma endpoints_range: "kbd_wf d \<Longrightarrow> dom (endpoints d) = {w. Some w \<in> kbd_window ` set (take (kbd_binding_count d) (kbd_bindings d))}"
  by (auto simp: endpoints_def dom_def map_of_eq_None_iff image_iff)

lemma Some_image: "None \<notin> A \<Longrightarrow> A = Some ` {w. Some w \<in> A}"
proof (rule set_eqI)
  show "x \<in> A \<longleftrightarrow> x \<in> Some ` {w. Some w \<in> A}" if "None \<notin> A" for x
    using that by (cases x) auto
qed

lemma endpoints_card: "kbd_wf d \<Longrightarrow> card (dom (endpoints d)) = kbd_binding_count d"
proof -
  assume d: "kbd_wf d"
  let ?K = "kbd_window ` set (take (kbd_binding_count d) (kbd_bindings d))"
  have "card ?K = kbd_binding_count d"
    using d distinct_card [of "map kbd_window (take (kbd_binding_count d) (kbd_bindings d))"]
    by (simp add: kbd_wf_def)
  moreover have "?K = Some ` dom (endpoints d)"
  proof -
    have "None \<notin> ?K"
      using d by (auto simp: kbd_wf_def)
    then have "?K = Some ` {w. Some w \<in> ?K}"
      by (rule Some_image)
    then show ?thesis
      by (simp only: endpoints_range [OF d])
  qed
  ultimately show ?thesis
    by (simp add: card_image)
qed

lemma kbd_reset_wf: "kbd_wf (keyboard_dispatch_reset d)" "endpoints (keyboard_dispatch_reset d) = Map.empty"
  by (simp_all add: kbd_wf_def keyboard_dispatch_reset_def endpoints_def fun_eq_iff)

text \<open>
  The binding table behaves as a finite map from windows to endpoints with at most 8 entries:
  registering a window sets its endpoint, for a known window as well as for a new one, and leaves
  every other window alone; it is refused, with nothing changed, for endpoint 0 and for a ninth window.
\<close>

theorem kbd_register_spec:
  assumes "kbd_wf d" "keyboard_dispatch_register_window d (Some w) e = (r, d')"
  shows "kbd_wf d' \<and> sink d' = sink d \<and>
    (if e = 0 \<or> (w \<notin> dom (endpoints d) \<and> card (dom (endpoints d)) \<ge> WM_MAX_WINDOWS)
     then r = - 1 \<and> d' = d
     else r = 0 \<and> endpoints d' = (endpoints d)(w \<mapsto> e))"
proof (cases "kbd_find_binding d (Some w)")
  case None
  then have w: "w \<notin> dom (endpoints d)"
    using assms(1) by (simp add: endpoints_find domIff)
  show ?thesis
  proof (cases "e = 0 \<or> kbd_binding_count d \<ge> WM_MAX_WINDOWS")
    case True
    then show ?thesis
      using assms w None by (auto simp: keyboard_dispatch_register_window_def endpoints_card split: if_splits)
  next
    case False
    let ?b = "\<lparr> kbd_window = Some w, kbd_endpoint_id = e \<rparr>"
    let ?n = "kbd_binding_count d"
    have d': "r = 0" "d' = d \<lparr> kbd_bindings := (kbd_bindings d)[?n := ?b], kbd_binding_count := ?n + 1 \<rparr>"
      using assms(2) None False by (auto simp: keyboard_dispatch_register_window_def)
    have t: "take (?n + 1) ((kbd_bindings d)[?n := ?b]) = take ?n (kbd_bindings d) @ [?b]"
      using assms(1) False take_Suc_update_last [of ?n "kbd_bindings d" ?b] by (simp add: kbd_wf_def)
    have "Some w \<notin> kbd_window ` set (take ?n (kbd_bindings d))"
      using w by (simp add: endpoints_range [OF assms(1)])
    then have wf: "kbd_wf d'"
      using assms(1) False unfolding d' kbd_wf_def by (auto simp: t simp del: One_nat_def)
    have "endpoints d' v = (case endpoints d v of None \<Rightarrow> if v = w then Some e else None | Some x \<Rightarrow> Some x)" for v
      unfolding d' endpoints_def by (auto simp: t map_add_def simp del: One_nat_def split: option.splits)
    then have "endpoints d' = (endpoints d)(w \<mapsto> e)"
      using w by (auto simp: fun_eq_iff domIff split: option.splits)
    note this wf
    then show ?thesis
      using False w d' assms(1) by (simp add: endpoints_card)
  qed
next
  case (Some i)
  then have i: "i < kbd_binding_count d" "kbd_window (kbd_bindings d ! i) = Some w"
    by (simp_all add: kbd_find_binding_def find_index_Some)
  show ?thesis
  proof (cases "e = 0")
    case True
    then show ?thesis
      using assms by (auto simp: keyboard_dispatch_register_window_def)
  next
    case False
    let ?b = "(kbd_bindings d ! i) \<lparr> kbd_endpoint_id := e \<rparr>"
    have il: "i < length (kbd_bindings d)"
      using i assms(1) by (simp add: kbd_wf_def)
    have d': "r = 0" "d' = d \<lparr> kbd_bindings := (kbd_bindings d)[i := ?b] \<rparr>"
      using assms(2) Some False by (auto simp: keyboard_dispatch_register_window_def)
    have "map kbd_window ((take (kbd_binding_count d) (kbd_bindings d))[i := ?b]) =
        map kbd_window (take (kbd_binding_count d) (kbd_bindings d))"
      using i by (simp add: map_update_same)
    then have wf: "kbd_wf d'"
      using assms(1) False i unfolding d' kbd_wf_def
      by (auto simp: take_update_swap dest!: set_update_subset_insert [THEN subsetD])
    have f: "kbd_find_binding d' v = kbd_find_binding d v" for v
      using il by (simp add: d' kbd_find_binding_def find_index_list_update)
    have "endpoints d' v = ((endpoints d)(w \<mapsto> e)) v" for v
    proof (cases "v = w")
      case True
      then show ?thesis
        using Some il by (simp add: endpoints_find wf f) (simp add: d')
    next
      case neq: False
      then have "j \<noteq> i" if "kbd_find_binding d (Some v) = Some j" for j
        using that i by (auto simp: kbd_find_binding_def find_index_Some)
      then show ?thesis
        using neq by (cases "kbd_find_binding d (Some v)")
          (auto simp: endpoints_find [OF wf] endpoints_find [OF assms(1)] f, auto simp: d')
    qed
    then have "endpoints d' = (endpoints d)(w \<mapsto> e)" by blast
    moreover have "w \<in> dom (endpoints d)"
      using Some by (simp add: endpoints_find [OF assms(1)] domIff)
    ultimately show ?thesis
      using wf False d' by simp
  qed
qed

definition demo_dispatch :: "(u32 \<times> char) list keyboard_dispatch_state" where
  "demo_dispatch = \<lparr> kbd_bindings = \<lparr> kbd_window = Some 3, kbd_endpoint_id = 9 \<rparr> #
       replicate 7 \<lparr> kbd_window = None, kbd_endpoint_id = 0 \<rparr>,
     kbd_binding_count = 1, sink = Some (\<lambda>e k w. w @ [(e, kev_text k)]) \<rparr>"

theorem kbd_register_spec_witness:
  "endpoints (snd (keyboard_dispatch_register_window demo_dispatch (Some 3) 4)) 3 = Some 4"
proof -
  have "kbd_wf demo_dispatch"
    by (simp add: kbd_wf_def demo_dispatch_def WM_MAX_WINDOWS_def)
  moreover have "endpoints demo_dispatch 3 = Some 9"
    by (simp add: endpoints_def demo_dispatch_def)
  ultimately show ?thesis
    using kbd_register_spec [OF _ prod.collapse [symmetric], of demo_dispatch 3 4] by (simp add: domIff)
qed

lemma dispatch_queued:
  assumes "keyboard_wf kb" "kbd_wf d" "sink d = Some f"
  shows "\<exists>kb'. keyboard_dispatch_pending d kb world =
    Some (length (queued_keys kb), kb',
      fold (\<lambda>(event, window). case Option.bind window (endpoints d) of
              None \<Rightarrow> id | Some endpoint \<Rightarrow> f endpoint event) (queued_keys kb) world) \<and>
    keyboard_wf kb' \<and> queued_keys kb' = [] \<and> shift_mask kb' = shift_mask kb \<and> saw_extended_prefix kb' = saw_extended_prefix kb"
proof -
  let ?h = "\<lambda>(event, w) world. dispatch_to_window_endpoint d w event world"
  have h: "?h = (\<lambda>(event, window). case Option.bind window (endpoints d) of
              None \<Rightarrow> id | Some endpoint \<Rightarrow> f endpoint event)"
  proof (intro ext, clarify)
    fix event and w :: win_ptr and world
    show "dispatch_to_window_endpoint d w event world =
      (case Option.bind w (endpoints d) of None \<Rightarrow> id | Some endpoint \<Rightarrow> f endpoint event) world"
      using assms(2,3) by (cases w) (auto simp: dispatch_to_window_endpoint_def endpoints_find
          kbd_find_binding_def split: option.splits)
  qed
  obtain kb' where kb': "drain keyboard_pop_event_with_focus ?h kb 0 world =
      Some (length (queued_keys kb), kb', fold ?h (queued_keys kb) world)" "keyboard_wf kb'" "queued_keys kb' = []"
    using kbq.drain_all [OF assms(1), of ?h 0 world] by auto
  have "shift_mask kb' = shift_mask kb \<and> saw_extended_prefix kb' = saw_extended_prefix kb"
    by (rule drain_keeps [OF kb'(1)]) (auto simp: keyboard_ring split: if_splits)
  then show ?thesis
    using kb' unfolding keyboard_dispatch_pending_def h by blast
qed

text \<open>Two windows registered after a reset.\<close>

lemma register_two:
  assumes "e = keyboard_dispatch_set_sink (keyboard_dispatch_reset e0) f" "a \<noteq> b" "i \<noteq> 0" "j \<noteq> 0"
  shows "\<exists>e1 e2. keyboard_dispatch_register_window e (Some a) i = (0, e1) \<and>
    keyboard_dispatch_register_window e1 (Some b) j = (0, e2) \<and> kbd_wf e2 \<and> sink e2 = f \<and>
    endpoints e2 b = Some j \<and> endpoints e2 a = Some i"
  using assms(2-4)
  by (simp add: assms(1) keyboard_dispatch_register_window_def keyboard_dispatch_set_sink_def keyboard_dispatch_reset_def
      kbd_find_binding_def find_index_from.simps kbd_wf_def endpoints_def WM_MAX_WINDOWS_def take_Suc_conv_app_nth)

text \<open>An idle keyboard: no event waits and no key changes the meaning of the next.\<close>

definition keyboard_idle :: "keyboard_state \<Rightarrow> bool" where
  "keyboard_idle kb \<longleftrightarrow> keyboard_wf kb \<and> queued_keys kb = [] \<and> shift_mask kb = 0 \<and> \<not> saw_extended_prefix kb"

lemma reset_idle: "length (kb_events kb) = KEYBOARD_EVENT_QUEUE_CAPACITY \<Longrightarrow> keyboard_idle (keyboard_reset kb)"
  using keyboard_reset_wf [of kb] by (simp add: keyboard_idle_def) (simp add: keyboard_reset_def)

lemma press_and_dispatch:
  assumes "keyboard_idle kb" "kbd_wf d" "sink d = Some f"
    and "c \<notin> {0xe0, 0x2a, 0xaa, 0x36, 0xb6}" "\<not> bit c 7" "key_entries False c (active_window wm) = [(event, window)]"
  shows "\<exists>kb1 kb2. keyboard_handle_scancode wm kb c = (0, kb1) \<and>
    keyboard_dispatch_pending d kb1 world = Some (1, kb2,
      (case Option.bind window (endpoints d) of None \<Rightarrow> world | Some endpoint \<Rightarrow> f endpoint event world)) \<and> keyboard_idle kb2"
proof -
  have k: "keyboard_wf kb" "queued_keys kb = []" "shift_mask kb = 0" "\<not> saw_extended_prefix kb"
    using assms(1) by (simp_all add: keyboard_idle_def)
  have push: "keyboard_handle_scancode wm kb c = keyboard_queue_push kb (event, window)"
    using handle_code [of kb c wm] k(3,4) assms(4-6) by (simp add: keyboard_shift_down_def)
  obtain r kb1 where kb1: "keyboard_queue_push kb (event, window) = (r, kb1)" by force
  have q: "r = 0" "keyboard_wf kb1" "queued_keys kb1 = [(event, window)]"
    using kbq.enq_law [OF k(1) kb1] k(2) by (simp_all add: KEYBOARD_EVENT_QUEUE_CAPACITY_def)
  have "shift_mask kb1 = 0" "\<not> saw_extended_prefix kb1"
    using push_frame [of kb "(event, window)"] kb1 k(3,4) by simp_all
  then show ?thesis
    using dispatch_queued [OF q(2) assms(2,3), of world] q push kb1 by (auto simp: keyboard_idle_def split: option.split)
qed

lemma keyboard_dispatch_lemma:
  assumes "length (kb_events kb) = 64" "kbd_wf d" "sink d = Some f"
  shows "\<exists>kb'. keyboard_dispatch_pending d (keyboard_run h (keyboard_reset kb)) world =
    Some (length (take 64 (decoded_keys h)), kb',
      fold (\<lambda>(event, window). case Option.bind window (endpoints d) of
              None \<Rightarrow> id | Some endpoint \<Rightarrow> f endpoint event) (take 64 (decoded_keys h)) world) \<and>
    queued_keys kb' = []"
proof -
  have "mask_shows (keyboard_reset kb) False False"
    by (simp add: mask_shows_def keyboard_reset_def)
  with keyboard_run_typed [of "keyboard_reset kb" False False h] keyboard_reset_wf [of kb] assms(1)
  have k: "keyboard_wf (keyboard_run h (keyboard_reset kb))" "queued_keys (keyboard_run h (keyboard_reset kb)) = take 64 (decoded_keys h)"
    by (simp_all add: KEYBOARD_EVENT_QUEUE_CAPACITY_def decoded_keys_def keyboard_reset_def)
  then show ?thesis
    using dispatch_queued [OF k(1) assms(2,3), of world] by auto
qed

text \<open>
  Whatever the keyboard sends before, one round of dispatch after a reset returns, empties the
  queue, and calls the sink once for each queued key (the first 64 the reference decoder reads),
  in the order typed and with the endpoint registered for the window that was active when
  the key was pressed; keys for windows without endpoint are dropped. It returns the number of keys.
\<close>

theorem keyboard_dispatch_delivers:
  assumes "length (kb_events kb) = 64" "kbd_wf d" "sink d = Some f"
  shows "\<exists>kb'. keyboard_dispatch_pending d (keyboard_run h (keyboard_reset kb)) world =
    Some (length (take 64 (decoded_keys h)), kb',
      fold (\<lambda>(event, window). case Option.bind window (endpoints d) of
              None \<Rightarrow> id | Some endpoint \<Rightarrow> f endpoint event) (take 64 (decoded_keys h)) world) \<and>
    queued_keys kb' = []"
  by (rule keyboard_dispatch_lemma [OF assms])

theorem keyboard_dispatch_delivers_witness:
  "\<exists>kb'. keyboard_dispatch_pending demo_dispatch (keyboard_run
     [(demo_wm 3, 0x36), (demo_wm 3, 0x03), (demo_wm 1, 0x03)] (keyboard_reset demo_keyboard)) [] =
     Some (2, kb', [(9, CHR ''@'')])"
proof -
  have "length (kb_events demo_keyboard) = 64" "kbd_wf demo_dispatch"
    "sink demo_dispatch = Some (\<lambda>e k w. w @ [(e, kev_text k)])"
    "endpoints demo_dispatch 3 = Some 9" "endpoints demo_dispatch (Suc 0) = None"
    by (simp_all add: demo_keyboard_def kbd_wf_def demo_dispatch_def WM_MAX_WINDOWS_def endpoints_def)
  with keyboard_dispatch_delivers [of demo_keyboard demo_dispatch _
      "[(demo_wm 3, 0x36), (demo_wm 3, 0x03), (demo_wm 1, 0x03)]" "[]"]
  show ?thesis
    by (auto simp: decoded_keys_def demo_wm_def key_entries_def keyboard_control_for_scancode_def printable_table_def)
qed

end
