(* ===== verification/Drag.thy ===== *)
theory Drag
  imports Compositor InputQueue
begin

unbundle bit_operations_syntax

text \<open>
  Mouse handling of the window manager (\<open>kernel/wm/drag.c\<close>): the window bindings, dragging by the
  title bar and the delivery of mouse events to tasks. A pointer into the binding array is its
  index. The dispatch function is a function on the world \<open>'w\<close> of the receivers, \<open>None\<close>
  the null pointer; the callbacks the program installs neither push mouse events nor call the
  window manager. Mouse events go through the heap of windows, the compositor's state and the
  dragging state, together a \<open>desktop\<close>.
\<close>

datatype wm_dispatch_event_type =
  WM_DISPATCH_MOVE | WM_DISPATCH_CLICK_DOWN | WM_DISPATCH_CLICK_UP | WM_DISPATCH_DRAG

record wm_drag_binding =
  db_window :: win_ptr
  db_task_id :: u32

type_synonym 'w dispatch_fn = "u32 \<Rightarrow> wm_dispatch_event_type \<Rightarrow> input_event \<Rightarrow> 'w \<Rightarrow> 'w"

record 'w wm_drag_state =
  drag_bindings :: "wm_drag_binding list"
  drag_binding_count :: nat
  drag_binding :: "nat option"
  drag_offset_x :: u32
  drag_offset_y :: u32
  drag_dispatch_fn :: "'w dispatch_fn option"

record 'w desktop =
  desk_heap :: win_heap
  desk_wm :: wm_state
  desk_drag :: "'w wm_drag_state"
  desk_world :: 'w

definition clamp_sub_u32 :: "u32 \<Rightarrow> u32 \<Rightarrow> u32" where
  "clamp_sub_u32 value subtractor = (if value \<le> subtractor then 0 else value - subtractor)"

definition find_binding_for_window :: "'w wm_drag_state \<Rightarrow> win_ptr \<Rightarrow> nat option" where
  "find_binding_for_window d window =
     (if window = None then None
      else find_index (\<lambda>i. db_window (drag_bindings d ! i) = window) (drag_binding_count d))"

definition find_binding_at :: "'w desktop \<Rightarrow> u32 \<Rightarrow> u32 \<Rightarrow> nat option" where
  "find_binding_at s x y =
     find_binding_for_window (desk_drag s) (wm_compositor_hit_test (desk_heap s) (desk_wm s) x y)"

definition dispatch_to_task ::
  "nat option \<Rightarrow> wm_dispatch_event_type \<Rightarrow> input_event \<Rightarrow> 'w desktop \<Rightarrow> 'w desktop" where
  "dispatch_to_task binding dispatch_type event s =
     (case (binding, drag_dispatch_fn (desk_drag s)) of
        (Some i, Some f) \<Rightarrow>
          s \<lparr> desk_world := f (db_task_id (drag_bindings (desk_drag s) ! i)) dispatch_type event
                             (desk_world s) \<rparr>
      | _ \<Rightarrow> s)"

text \<open>The window of a binding, which is never null (\<open>drag_wf\<close> below).\<close>

definition binding_window :: "'w wm_drag_state \<Rightarrow> nat \<Rightarrow> win_ref" where
  "binding_window d i = (case db_window (drag_bindings d ! i) of Some w \<Rightarrow> w | None \<Rightarrow> 0)"

definition move_window :: "win_ref \<Rightarrow> u32 \<Rightarrow> u32 \<Rightarrow> win_heap \<Rightarrow> win_heap" where
  "move_window w x y heap =
     heap (w := (heap w) \<lparr> frame := (frame (heap w)) \<lparr> rect_x := x, rect_y := y \<rparr> \<rparr>)"

definition process_mouse_move :: "input_event \<Rightarrow> 'w desktop \<Rightarrow> 'w desktop" where
  "process_mouse_move event s =
     (let d = desk_drag s; m = ev_mouse event in
      case (drag_binding d, ev_buttons m AND INPUT_MOUSE_BUTTON_LEFT \<noteq> 0) of
        (Some i, True) \<Rightarrow>
          dispatch_to_task (Some i) WM_DISPATCH_DRAG event
            (s \<lparr> desk_heap := move_window (binding_window d i)
                   (clamp_sub_u32 (ev_x m) (drag_offset_x d))
                   (clamp_sub_u32 (ev_y m) (drag_offset_y d)) (desk_heap s) \<rparr>)
      | _ \<Rightarrow> dispatch_to_task (find_binding_at s (ev_x m) (ev_y m)) WM_DISPATCH_MOVE event s)"

definition process_mouse_button_down :: "input_event \<Rightarrow> 'w desktop \<Rightarrow> 'w desktop" where
  "process_mouse_button_down event s =
     (let m = ev_mouse event in
      case find_binding_at s (ev_x m) (ev_y m) of
        None \<Rightarrow> s
      | Some i \<Rightarrow>
          let w = binding_window (desk_drag s) i;
              s = s \<lparr> desk_wm := snd (wm_compositor_activate_window (desk_wm s) (Some w)) \<rparr>;
              s = dispatch_to_task (Some i) WM_DISPATCH_CLICK_DOWN event s
          in if ev_button m AND INPUT_MOUSE_BUTTON_LEFT \<noteq> 0 \<and>
                wm_point_in_rect (wm_window_title_bar_rect (desk_heap s w)) (ev_x m) (ev_y m)
             then s \<lparr> desk_drag := (desk_drag s)
                        \<lparr> drag_binding := Some i,
                          drag_offset_x := ev_x m - rect_x (frame (desk_heap s w)),
                          drag_offset_y := ev_y m - rect_y (frame (desk_heap s w)) \<rparr> \<rparr>
             else s)"

definition process_mouse_button_up :: "input_event \<Rightarrow> 'w desktop \<Rightarrow> 'w desktop" where
  "process_mouse_button_up event s =
     (let m = ev_mouse event;
          binding = (case drag_binding (desk_drag s) of
                       None \<Rightarrow> find_binding_at s (ev_x m) (ev_y m) | Some i \<Rightarrow> Some i);
          s = dispatch_to_task binding WM_DISPATCH_CLICK_UP event s
      in if ev_button m AND INPUT_MOUSE_BUTTON_LEFT \<noteq> 0
         then s \<lparr> desk_drag := (desk_drag s) \<lparr> drag_binding := None \<rparr> \<rparr> else s)"

definition wm_drag_process_event :: "input_event \<Rightarrow> 'w desktop \<Rightarrow> 'w desktop" where
  "wm_drag_process_event event s =
     (case ev_type event of
        INPUT_EVENT_MOUSE_MOVE \<Rightarrow> process_mouse_move event s
      | INPUT_EVENT_MOUSE_BUTTON_DOWN \<Rightarrow> process_mouse_button_down event s
      | INPUT_EVENT_MOUSE_BUTTON_UP \<Rightarrow> process_mouse_button_up event s)"

definition wm_drag_reset :: "'w wm_drag_state \<Rightarrow> 'w wm_drag_state" where
  "wm_drag_reset d =
     d \<lparr> drag_binding_count := 0, drag_binding := None, drag_offset_x := 0, drag_offset_y := 0,
         drag_dispatch_fn := None,
         drag_bindings := replicate WM_MAX_WINDOWS \<lparr> db_window = None, db_task_id = 0 \<rparr> \<rparr>"

definition wm_drag_register_window ::
  "'w wm_drag_state \<Rightarrow> win_ptr \<Rightarrow> u32 \<Rightarrow> int \<times> 'w wm_drag_state" where
  "wm_drag_register_window d window task_id =
     (if window = None \<or> drag_binding_count d \<ge> WM_MAX_WINDOWS then (- 1, d)
      else (0, d \<lparr> drag_bindings := (drag_bindings d)
                     [drag_binding_count d := \<lparr> db_window = window, db_task_id = task_id \<rparr>],
                   drag_binding_count := drag_binding_count d + 1 \<rparr>))"

definition wm_drag_set_dispatch :: "'w wm_drag_state \<Rightarrow> 'w dispatch_fn option \<Rightarrow> 'w wm_drag_state" where
  "wm_drag_set_dispatch d f = d \<lparr> drag_dispatch_fn := f \<rparr>"

definition wm_drag_dispatch_pending ::
  "input_event_queue \<Rightarrow> 'w desktop \<Rightarrow> (nat \<times> input_event_queue \<times> 'w desktop) option" where
  "wm_drag_dispatch_pending q s = drain input_event_queue_pop wm_drag_process_event q 0 s"

subsection \<open>The invariant\<close>

definition drag_wf :: "'w wm_drag_state \<Rightarrow> bool" where
  "drag_wf d \<longleftrightarrow> length (drag_bindings d) = WM_MAX_WINDOWS \<and> drag_binding_count d \<le> WM_MAX_WINDOWS \<and>
     (\<forall>i < drag_binding_count d. db_window (drag_bindings d ! i) \<noteq> None) \<and>
     (\<forall>i. drag_binding d = Some i \<longrightarrow> find_binding_for_window d (Some (binding_window d i)) = Some i)"

definition task_of :: "'w wm_drag_state \<Rightarrow> win_ref \<Rightarrow> u32 option" where
  "task_of d w = map_of (map (\<lambda>b. (db_window b, db_task_id b))
     (take (drag_binding_count d) (drag_bindings d))) (Some w)"

lemma task_of_find:
  "drag_wf d \<Longrightarrow> task_of d w =
     map_option (\<lambda>i. db_task_id (drag_bindings d ! i)) (find_binding_for_window d (Some w))"
  by (simp add: task_of_def find_binding_for_window_def find_first_map_of drag_wf_def)

lemma binding_found:
  "find_binding_for_window d w = Some i \<Longrightarrow> i < drag_binding_count d \<and> w = Some (binding_window d i)"
  by (auto simp: find_binding_for_window_def find_index_Some binding_window_def split: if_splits option.splits)

lemma dispatch_frame [simp]:
  "desk_heap (dispatch_to_task b t e s) = desk_heap s"
  "desk_wm (dispatch_to_task b t e s) = desk_wm s"
  "desk_drag (dispatch_to_task b t e s) = desk_drag s"
  by (auto simp: dispatch_to_task_def split: option.splits)

lemma drag_reset_wf: "drag_wf (wm_drag_reset d)"
  by (simp add: drag_wf_def wm_drag_reset_def)

lemma drag_register_wf:
  assumes "drag_wf d"
  shows "drag_wf (snd (wm_drag_register_window d w t))"
proof (cases "w = None \<or> drag_binding_count d \<ge> WM_MAX_WINDOWS")
  case True
  then show ?thesis
    using assms by (auto simp: wm_drag_register_window_def)
next
  case False
  define d' where "d' = snd (wm_drag_register_window d w t)"
  have d': "d' = d \<lparr> drag_bindings := (drag_bindings d)[drag_binding_count d := \<lparr> db_window = w, db_task_id = t \<rparr>],
      drag_binding_count := drag_binding_count d + 1 \<rparr>"
    using False by (auto simp: d'_def wm_drag_register_window_def)
  have "find_binding_for_window d' v = Some i" "binding_window d' i = binding_window d i"
    if "find_binding_for_window d v = Some i" for v i
    using that by (auto simp: d' find_binding_for_window_def binding_window_def find_index_Some
        split: if_splits)
  moreover have "\<forall>i < drag_binding_count d'. db_window (drag_bindings d' ! i) \<noteq> None"
    using assms False by (auto simp: d' drag_wf_def nth_list_update less_Suc_eq)
  ultimately have "drag_wf d'"
    using assms False unfolding drag_wf_def by (auto simp: d')
  then show ?thesis by (simp add: d'_def)
qed

lemma drag_wf_release [simp]: "drag_wf d \<Longrightarrow> drag_wf (d \<lparr> drag_binding := None \<rparr>)"
  by (simp add: drag_wf_def)

lemma drag_wf_hold:
  "drag_wf d \<Longrightarrow> find_binding_for_window d v = Some i \<Longrightarrow>
   drag_wf (d \<lparr> drag_binding := Some i, drag_offset_x := x, drag_offset_y := y \<rparr>)"
  using binding_found [of d v i]
  by (auto simp: drag_wf_def find_binding_for_window_def binding_window_def)

lemma drag_event_wf: "drag_wf (desk_drag s) \<Longrightarrow> drag_wf (desk_drag (wm_drag_process_event e s))"
  by (auto simp: wm_drag_process_event_def process_mouse_move_def process_mouse_button_down_def
      process_mouse_button_up_def Let_def find_binding_at_def drag_wf_hold
      split: input_event_type.splits option.splits bool.splits)

subsection \<open>One event\<close>

text \<open>The window a mouse event belongs to: the dragged one, or else the topmost one at the pointer.\<close>

definition event_owner :: "'w desktop \<Rightarrow> input_event \<Rightarrow> win_ptr" where
  "event_owner s e =
     (case drag_binding (desk_drag s) of
        Some i \<Rightarrow>
          if ev_type e = INPUT_EVENT_MOUSE_BUTTON_UP \<or>
             (ev_type e = INPUT_EVENT_MOUSE_MOVE \<and> ev_buttons (ev_mouse e) AND INPUT_MOUSE_BUTTON_LEFT \<noteq> 0)
          then Some (binding_window (desk_drag s) i)
          else wm_compositor_hit_test (desk_heap s) (desk_wm s) (ev_x (ev_mouse e)) (ev_y (ev_mouse e))
      | None \<Rightarrow> wm_compositor_hit_test (desk_heap s) (desk_wm s) (ev_x (ev_mouse e)) (ev_y (ev_mouse e)))"

definition event_kind :: "'w desktop \<Rightarrow> input_event \<Rightarrow> wm_dispatch_event_type" where
  "event_kind s e =
     (case ev_type e of
        INPUT_EVENT_MOUSE_MOVE \<Rightarrow>
          if drag_binding (desk_drag s) \<noteq> None \<and> ev_buttons (ev_mouse e) AND INPUT_MOUSE_BUTTON_LEFT \<noteq> 0
          then WM_DISPATCH_DRAG else WM_DISPATCH_MOVE
      | INPUT_EVENT_MOUSE_BUTTON_DOWN \<Rightarrow> WM_DISPATCH_CLICK_DOWN
      | INPUT_EVENT_MOUSE_BUTTON_UP \<Rightarrow> WM_DISPATCH_CLICK_UP)"

lemma dispatch_found:
  assumes "drag_wf (desk_drag s)" "drag_dispatch_fn (desk_drag s) = Some f"
  shows "desk_world (dispatch_to_task (find_binding_for_window (desk_drag s) w) k e s) =
    (case Option.bind w (task_of (desk_drag s)) of None \<Rightarrow> desk_world s | Some t \<Rightarrow> f t k e (desk_world s))"
  using assms by (cases w) (auto simp: dispatch_to_task_def task_of_find find_binding_for_window_def
      split: option.splits)

lemma dispatch_dragged:
  assumes "drag_wf (desk_drag s)" "drag_binding (desk_drag s) = Some i"
  shows "dispatch_to_task (Some i) k e s =
     dispatch_to_task (find_binding_for_window (desk_drag s) (Some (binding_window (desk_drag s) i))) k e s"
  using assms by (simp add: drag_wf_def)

lemma desk_world_frame [simp]:
  "dispatch_to_task b k e (s \<lparr> desk_heap := h \<rparr>) = (dispatch_to_task b k e s) \<lparr> desk_heap := h \<rparr>"
  "dispatch_to_task b k e (s \<lparr> desk_wm := wm \<rparr>) = (dispatch_to_task b k e s) \<lparr> desk_wm := wm \<rparr>"
  by (auto simp: dispatch_to_task_def split: option.splits)

lemma drag_event_effect:
  assumes "drag_wf (desk_drag s)" "drag_dispatch_fn (desk_drag s) = Some f"
  shows "desk_world (wm_drag_process_event e s) =
      (case Option.bind (event_owner s e) (task_of (desk_drag s)) of
         None \<Rightarrow> desk_world s | Some t \<Rightarrow> f t (event_kind s e) e (desk_world s)) \<and>
    (event_kind s e \<noteq> WM_DISPATCH_DRAG \<longrightarrow> desk_heap (wm_drag_process_event e s) = desk_heap s) \<and>
    desk_wm (wm_drag_process_event e s) =
      (if event_kind s e = WM_DISPATCH_CLICK_DOWN \<and> Option.bind (event_owner s e) (task_of (desk_drag s)) \<noteq> None
       then snd (wm_compositor_activate_window (desk_wm s) (event_owner s e)) else desk_wm s) \<and>
    drag_wf (desk_drag (wm_drag_process_event e s))"
proof (cases "ev_type e")
  case INPUT_EVENT_MOUSE_MOVE
  then show ?thesis
    using dispatch_found [OF assms] dispatch_dragged [OF assms(1)] drag_event_wf [OF assms(1), of e]
    by (auto simp: wm_drag_process_event_def process_mouse_move_def event_owner_def event_kind_def Let_def
        find_binding_at_def split: option.splits bool.splits)
next
  case INPUT_EVENT_MOUSE_BUTTON_UP
  then show ?thesis
    using dispatch_found [OF assms] dispatch_dragged [OF assms(1)] drag_event_wf [OF assms(1), of e]
    by (auto simp: wm_drag_process_event_def process_mouse_button_up_def event_owner_def event_kind_def Let_def
        find_binding_at_def split: option.splits)
next
  case INPUT_EVENT_MOUSE_BUTTON_DOWN
  define w where "w = wm_compositor_hit_test (desk_heap s) (desk_wm s) (ev_x (ev_mouse e)) (ev_y (ev_mouse e))"
  have o: "event_owner s e = w" "event_kind s e = WM_DISPATCH_CLICK_DOWN"
    using INPUT_EVENT_MOUSE_BUTTON_DOWN by (auto simp: event_owner_def event_kind_def w_def split: option.splits)
  have p: "wm_drag_process_event e s = process_mouse_button_down e s"
    using INPUT_EVENT_MOUSE_BUTTON_DOWN by (simp add: wm_drag_process_event_def)
  show ?thesis
  proof (cases "find_binding_for_window (desk_drag s) w")
    case None
    then have "process_mouse_button_down e s = s" "Option.bind w (task_of (desk_drag s)) = None"
      using assms(1) by (cases w; simp add: process_mouse_button_down_def find_binding_at_def w_def [symmetric] task_of_find)+
    then show ?thesis
      using assms(1) by (simp add: o p)
  next
    case (Some i)
    from binding_found [OF this] have w: "w = Some (binding_window (desk_drag s) i)" by simp
    then have "Option.bind w (task_of (desk_drag s)) \<noteq> None"
      using Some assms(1) by (simp add: task_of_find)
    then show ?thesis
      using Some w dispatch_found [OF assms, of w] drag_event_wf [OF assms(1), of e] unfolding o p
      by (auto simp: process_mouse_button_down_def find_binding_at_def w_def [symmetric] Let_def)
  qed
qed

text \<open>
  Every mouse event is delivered to exactly the task of the window it belongs to: while a
  window is dragged, moves with the left button held and releases go to it, every other event goes to
  the topmost window under the pointer, and to nobody if that window has no task. Window frames
  change only in a drag, the stacking order only by a press on a window with a task.
\<close>

theorem drag_event_spec:
  assumes "drag_wf (desk_drag s)" "drag_dispatch_fn (desk_drag s) = Some f"
  shows "desk_world (wm_drag_process_event e s) =
      (case Option.bind (event_owner s e) (task_of (desk_drag s)) of
         None \<Rightarrow> desk_world s | Some t \<Rightarrow> f t (event_kind s e) e (desk_world s)) \<and>
    (event_kind s e \<noteq> WM_DISPATCH_DRAG \<longrightarrow> desk_heap (wm_drag_process_event e s) = desk_heap s) \<and>
    desk_wm (wm_drag_process_event e s) =
      (if event_kind s e = WM_DISPATCH_CLICK_DOWN \<and> Option.bind (event_owner s e) (task_of (desk_drag s)) \<noteq> None
       then snd (wm_compositor_activate_window (desk_wm s) (event_owner s e)) else desk_wm s) \<and>
    drag_wf (desk_drag (wm_drag_process_event e s))"
  by (rule drag_event_effect [OF assms])

subsection \<open>A drag\<close>

definition held_move :: "input_event \<Rightarrow> bool" where
  "held_move e \<longleftrightarrow> ev_type e = INPUT_EVENT_MOUSE_MOVE \<and> ev_buttons (ev_mouse e) AND INPUT_MOUSE_BUTTON_LEFT \<noteq> 0"

lemma move_window_twice [simp]: "move_window w x y (move_window w x' y' h) = move_window w x y h"
  by (simp add: move_window_def)

lemma drag_moves:
  assumes "drag_binding (desk_drag s) = Some i" "drag_dispatch_fn (desk_drag s) = Some f" "\<forall>e \<in> set es. held_move e"
  shows "fold wm_drag_process_event es s = s
    \<lparr> desk_heap := (if es = [] then desk_heap s
        else move_window (binding_window (desk_drag s) i)
          (clamp_sub_u32 (ev_x (ev_mouse (last es))) (drag_offset_x (desk_drag s)))
          (clamp_sub_u32 (ev_y (ev_mouse (last es))) (drag_offset_y (desk_drag s))) (desk_heap s)),
      desk_world := fold (f (db_task_id (drag_bindings (desk_drag s) ! i)) WM_DISPATCH_DRAG) es (desk_world s) \<rparr>"
  using assms
proof (induction es arbitrary: s)
  case (Cons e es)
  have "wm_drag_process_event e s = s
    \<lparr> desk_heap := move_window (binding_window (desk_drag s) i)
        (clamp_sub_u32 (ev_x (ev_mouse e)) (drag_offset_x (desk_drag s)))
        (clamp_sub_u32 (ev_y (ev_mouse e)) (drag_offset_y (desk_drag s))) (desk_heap s),
      desk_world := f (db_task_id (drag_bindings (desk_drag s) ! i)) WM_DISPATCH_DRAG e (desk_world s) \<rparr>"
    using Cons.prems by (simp add: held_move_def wm_drag_process_event_def process_mouse_move_def
        dispatch_to_task_def Let_def)
  then show ?case
    using Cons by simp
qed simp

lemma clamp_sub_unat: "unat (clamp_sub_u32 a b) = unat a - unat b"
  by (auto simp: clamp_sub_u32_def unat_sub_no_wrap word_le_nat_alt)

lemma title_bar_inside:
  "wm_point_in_rect (wm_window_title_bar_rect w) x y \<Longrightarrow> rect_x (frame w) \<le> x \<and> rect_y (frame w) \<le> y"
  using unat_u32_bound [of "rect_x (frame w)"] unat_u32_bound [of "rect_y (frame w)"]
  by (auto simp: point_in_rect_nat wm_window_title_bar_rect_def empty_rect_def Let_def word_le_nat_alt
      split: if_splits)

lemma drag_fold:
  assumes "drag_wf (desk_drag s)" "drag_dispatch_fn (desk_drag s) = Some f"
    and "ev_type down = INPUT_EVENT_MOUSE_BUTTON_DOWN" "ev_button (ev_mouse down) AND INPUT_MOUSE_BUTTON_LEFT \<noteq> 0"
    and "wm_compositor_hit_test (desk_heap s) (desk_wm s) (ev_x (ev_mouse down)) (ev_y (ev_mouse down)) = Some w"
    and "task_of (desk_drag s) w = Some task"
    and "wm_point_in_rect (wm_window_title_bar_rect (desk_heap s w)) (ev_x (ev_mouse down)) (ev_y (ev_mouse down))"
    and "\<forall>e \<in> set moves. held_move e"
    and "ev_type up = INPUT_EVENT_MOUSE_BUTTON_UP" "ev_button (ev_mouse up) AND INPUT_MOUSE_BUTTON_LEFT \<noteq> 0"
    and "s' = fold wm_drag_process_event (down # moves @ [up]) s"
  shows "drag_binding (desk_drag s') = None"
    "desk_wm s' = snd (wm_compositor_activate_window (desk_wm s) (Some w))"
    "desk_world s' = f task WM_DISPATCH_CLICK_UP up
      (fold (f task WM_DISPATCH_DRAG) moves (f task WM_DISPATCH_CLICK_DOWN down (desk_world s)))"
    "\<forall>v. v \<noteq> w \<longrightarrow> desk_heap s' v = desk_heap s v"
    "let before = frame (desk_heap s w); after = frame (desk_heap s' w); p = ev_mouse (last (down # moves)) in
      rect_width after = rect_width before \<and> rect_height after = rect_height before \<and>
      unat (rect_x after) = unat (ev_x p) - (unat (ev_x (ev_mouse down)) - unat (rect_x before)) \<and>
      unat (rect_y after) = unat (ev_y p) - (unat (ev_y (ev_mouse down)) - unat (rect_y before))"
    "desk_heap s' w = (desk_heap s w) \<lparr> frame := frame (desk_heap s' w) \<rparr>"
proof -
  obtain i where i: "find_binding_for_window (desk_drag s) (Some w) = Some i"
    "db_task_id (drag_bindings (desk_drag s) ! i) = task"
    using assms(1,6) by (auto simp: task_of_find)
  have w: "binding_window (desk_drag s) i = w"
    using binding_found [OF i(1)] by simp
  define s1 where "s1 = s \<lparr> desk_wm := snd (wm_compositor_activate_window (desk_wm s) (Some w)),
    desk_world := f task WM_DISPATCH_CLICK_DOWN down (desk_world s),
    desk_drag := (desk_drag s) \<lparr> drag_binding := Some i,
      drag_offset_x := ev_x (ev_mouse down) - rect_x (frame (desk_heap s w)),
      drag_offset_y := ev_y (ev_mouse down) - rect_y (frame (desk_heap s w)) \<rparr> \<rparr>"
  have d: "wm_drag_process_event down s = s1"
    using assms(2-5,7) i w unfolding s1_def
    by (simp add: wm_drag_process_event_def process_mouse_button_down_def find_binding_at_def Let_def
        dispatch_to_task_def)
  have s1: "drag_binding (desk_drag s1) = Some i" "drag_dispatch_fn (desk_drag s1) = Some f"
    "db_task_id (drag_bindings (desk_drag s1) ! i) = task" "binding_window (desk_drag s1) i = w"
    "desk_heap s1 = desk_heap s"
    using assms(2) i(2) w by (simp_all add: s1_def binding_window_def)
  note t = title_bar_inside [OF assms(7)]
  define s2 where "s2 = fold wm_drag_process_event moves s1"
  have s2: "desk_drag s2 = desk_drag s1" "desk_wm s2 = desk_wm s1"
    "desk_world s2 = fold (f task WM_DISPATCH_DRAG) moves (desk_world s1)"
    "desk_heap s2 = (if moves = [] then desk_heap s else move_window w
       (clamp_sub_u32 (ev_x (ev_mouse (last moves))) (drag_offset_x (desk_drag s1)))
       (clamp_sub_u32 (ev_y (ev_mouse (last moves))) (drag_offset_y (desk_drag s1))) (desk_heap s))"
    unfolding s2_def drag_moves [OF s1(1,2) assms(8)] by (simp_all add: s1)
  define s3 where "s3 = wm_drag_process_event up s2"
  have s3: "desk_heap s3 = desk_heap s2" "desk_wm s3 = desk_wm s1" "drag_binding (desk_drag s3) = None"
    "desk_world s3 = f task WM_DISPATCH_CLICK_UP up (desk_world s2)"
    using assms(9,10) s1 by (simp_all add: s3_def s2(1,2) wm_drag_process_event_def process_mouse_button_up_def
        Let_def dispatch_to_task_def)
  have s': "s' = s3"
    using assms(11) by (simp add: d s2_def [symmetric] s3_def)
  show "drag_binding (desk_drag s') = None"
    "desk_wm s' = snd (wm_compositor_activate_window (desk_wm s) (Some w))"
    "desk_world s' = f task WM_DISPATCH_CLICK_UP up
      (fold (f task WM_DISPATCH_DRAG) moves (f task WM_DISPATCH_CLICK_DOWN down (desk_world s)))"
    "\<forall>v. v \<noteq> w \<longrightarrow> desk_heap s' v = desk_heap s v"
    using s3 s2 unfolding s' by (auto simp: s1_def move_window_def)
  show "let before = frame (desk_heap s w); after = frame (desk_heap s' w); p = ev_mouse (last (down # moves)) in
      rect_width after = rect_width before \<and> rect_height after = rect_height before \<and>
      unat (rect_x after) = unat (ev_x p) - (unat (ev_x (ev_mouse down)) - unat (rect_x before)) \<and>
      unat (rect_y after) = unat (ev_y p) - (unat (ev_y (ev_mouse down)) - unat (rect_y before))"
    using t s3 s2 unfolding s'
    by (auto simp: s1_def move_window_def clamp_sub_unat unat_sub_no_wrap Let_def word_le_nat_alt)
  show "desk_heap s' w = (desk_heap s w) \<lparr> frame := frame (desk_heap s' w) \<rparr>"
    using s3 s2 unfolding s' by (auto simp: s1_def move_window_def)
qed

text \<open>
  C11: A drag, from the press on a title bar through any moves with the left button held to its
  release: the pending events are consumed, the pressed window comes to the front and gets the
  focus, its corner keeps its distance to the pointer (cut off at 0), no other window moves, every
  event of the drag is delivered to the task of that window in order even when the pointer leaves
  it, and the release ends the drag.
\<close>

theorem drag_session:
  assumes "drag_wf (desk_drag s)" "drag_dispatch_fn (desk_drag s) = Some f"
    and "event_queue_wf q" "queued_events q = down # moves @ [up]"
    and "ev_type down = INPUT_EVENT_MOUSE_BUTTON_DOWN" "ev_button (ev_mouse down) AND INPUT_MOUSE_BUTTON_LEFT \<noteq> 0"
    and "wm_compositor_hit_test (desk_heap s) (desk_wm s) (ev_x (ev_mouse down)) (ev_y (ev_mouse down)) = Some w"
    and "task_of (desk_drag s) w = Some task"
    and "wm_point_in_rect (wm_window_title_bar_rect (desk_heap s w)) (ev_x (ev_mouse down)) (ev_y (ev_mouse down))"
    and "\<forall>e \<in> set moves. held_move e"
    and "ev_type up = INPUT_EVENT_MOUSE_BUTTON_UP" "ev_button (ev_mouse up) AND INPUT_MOUSE_BUTTON_LEFT \<noteq> 0"
  shows "\<exists>q' s'. wm_drag_dispatch_pending q s = Some (length moves + 2, q', s') \<and> queued_events q' = [] \<and>
    drag_binding (desk_drag s') = None \<and>
    desk_wm s' = snd (wm_compositor_activate_window (desk_wm s) (Some w)) \<and>
    desk_world s' = f task WM_DISPATCH_CLICK_UP up
      (fold (f task WM_DISPATCH_DRAG) moves (f task WM_DISPATCH_CLICK_DOWN down (desk_world s))) \<and>
    (\<forall>v. v \<noteq> w \<longrightarrow> desk_heap s' v = desk_heap s v) \<and>
    (let before = frame (desk_heap s w); after = frame (desk_heap s' w); p = ev_mouse (last (down # moves)) in
      rect_width after = rect_width before \<and> rect_height after = rect_height before \<and>
      unat (rect_x after) = unat (ev_x p) - (unat (ev_x (ev_mouse down)) - unat (rect_x before)) \<and>
      unat (rect_y after) = unat (ev_y p) - (unat (ev_y (ev_mouse down)) - unat (rect_y before)))"
proof -
  define s' where "s' = fold wm_drag_process_event (down # moves @ [up]) s"
  have "\<exists>q'. wm_drag_dispatch_pending q s = Some (length moves + 2, q', s') \<and> queued_events q' = []"
    using evq.drain_all [OF assms(3), of wm_drag_process_event 0 s] unfolding assms(4) wm_drag_dispatch_pending_def s'_def
    by auto
  then show ?thesis
    using drag_fold [OF assms(1,2,5-12) s'_def] by blast
qed

definition demo_desktop :: "(u32 \<times> wm_dispatch_event_type) list desktop" where
  "demo_desktop = \<lparr> desk_heap = demo_heap, desk_wm = demo_two,
     desk_drag = \<lparr> drag_bindings = \<lparr> db_window = Some 2, db_task_id = 7 \<rparr> #
         replicate 7 \<lparr> db_window = None, db_task_id = 0 \<rparr>,
       drag_binding_count = 1, drag_binding = None, drag_offset_x = 0, drag_offset_y = 0,
       drag_dispatch_fn = Some (\<lambda>t k e w. w @ [(t, k)]) \<rparr>,
     desk_world = [] \<rparr>"

definition mouse_at :: "input_event_type \<Rightarrow> u32 \<Rightarrow> u32 \<Rightarrow> input_event" where
  "mouse_at ty x y = \<lparr> ev_type = ty, ev_mouse = \<lparr> ev_x = x, ev_y = y, ev_buttons = 1, ev_button = 1 \<rparr> \<rparr>"

lemma demo_desktop_facts:
  "drag_wf (desk_drag demo_desktop)" "drag_dispatch_fn (desk_drag demo_desktop) = Some (\<lambda>t k e w. w @ [(t, k)])"
  "task_of (desk_drag demo_desktop) 2 = Some 7" "drag_binding (desk_drag demo_desktop) = None"
  "desk_heap demo_desktop = demo_heap" "desk_wm demo_desktop = demo_two" "desk_world demo_desktop = []"
  "wm_compositor_hit_test demo_heap demo_two 30 5 = Some 2"
  using hit_test_find [of demo_two demo_heap 30 5] demo_two_wf(1,2)
  by (simp_all add: demo_desktop_def drag_wf_def task_of_def WM_MAX_WINDOWS_def wm_wf_def demo_heap_def
      wm_window_init_def wm_point_in_rect_def)

theorem drag_event_spec_witness:
  "desk_world (wm_drag_process_event (mouse_at INPUT_EVENT_MOUSE_MOVE 30 5) demo_desktop) =
     [(7, WM_DISPATCH_MOVE)]"
  using drag_event_spec [OF demo_desktop_facts(1,2), of "mouse_at INPUT_EVENT_MOUSE_MOVE 30 5"]
  by (simp add: event_owner_def event_kind_def mouse_at_def demo_desktop_facts)

definition demo_drag_queue :: input_event_queue where
  "demo_drag_queue = \<lparr> q_events = [mouse_at INPUT_EVENT_MOUSE_BUTTON_DOWN 30 5, mouse_at INPUT_EVENT_MOUSE_MOVE 5 50,
       mouse_at INPUT_EVENT_MOUSE_BUTTON_UP 5 50] @ replicate 61 (mouse_at INPUT_EVENT_MOUSE_MOVE 0 0),
     q_read_index = 0, q_write_index = 3, q_count = 3 \<rparr>"

theorem drag_session_witness:
  "\<exists>q' s'. wm_drag_dispatch_pending demo_drag_queue demo_desktop = Some (3, q', s') \<and>
     desk_world s' = [(7, WM_DISPATCH_CLICK_DOWN), (7, WM_DISPATCH_DRAG), (7, WM_DISPATCH_CLICK_UP)] \<and>
     unat (rect_x (frame (desk_heap s' 2))) = 0 \<and> unat (rect_y (frame (desk_heap s' 2))) = 45"
proof -
  have q: "event_queue_wf demo_drag_queue" "queued_events demo_drag_queue = mouse_at INPUT_EVENT_MOUSE_BUTTON_DOWN 30 5 #
      [mouse_at INPUT_EVENT_MOUSE_MOVE 5 50] @ [mouse_at INPUT_EVENT_MOUSE_BUTTON_UP 5 50]"
    by (simp_all add: demo_drag_queue_def event_queue_wf_def queued_events_def ring_list_def
        INPUT_EVENT_QUEUE_CAPACITY_def upt_rec)
  have t: "wm_point_in_rect (wm_window_title_bar_rect (demo_heap 2)) 30 5" "rect_x (frame (demo_heap 2)) = 20"
    "rect_y (frame (demo_heap 2)) = 0"
    by (simp_all add: wm_window_title_bar_rect_def demo_heap_def wm_window_init_def Let_def effective_border_def
        min_u32_def safe_sub_u32_def saturating_add_u32_def wm_point_in_rect_def
        WM_DEFAULT_BORDER_THICKNESS_def WM_DEFAULT_TITLE_BAR_HEIGHT_def) (simp add: word_le_nat_alt)
  show ?thesis
    using drag_session [OF demo_desktop_facts(1,2) q _ _ _ demo_desktop_facts(3)] t
    by (simp add: mouse_at_def held_move_def INPUT_MOUSE_BUTTON_LEFT_def demo_desktop_facts Let_def numeral_3_eq_3) blast
qed

end
