(* ===== verification/Console.thy ===== *)
theory Console
  imports Prelude
begin

text \<open>
  The console (\<open>kernel/console.c\<close>) and its line editor (\<open>shell/line_io.c\<close>). The UART is two byte
  sequences, the bytes still to be read and the characters written so far; the theory \<open>Uart\<close> shows that
  \<open>drivers/uart/uart.c\<close> implements them on the registers of the device. A blocking read with nothing to come never returns.
\<close>

record uart_state =
  uart_rx :: "u8 list"
  uart_tx :: string

abbreviation newline :: char where "newline \<equiv> CHR 0x0a"
abbreviation carriage_return :: char where "carriage_return \<equiv> CHR 0x0d"

definition console_putc :: "char \<Rightarrow> uart_state \<Rightarrow> uart_state" where
  "console_putc c u =
     (let u = (if c = newline then u \<lparr> uart_tx := uart_tx u @ [carriage_return] \<rparr> else u)
      in u \<lparr> uart_tx := uart_tx u @ [c] \<rparr>)"

definition console_write :: "string \<Rightarrow> uart_state \<Rightarrow> uart_state" where
  "console_write s u = fold console_putc s u"

text \<open>\<open>None\<close> is the result \<open>-1\<close>: no byte has arrived.\<close>

definition console_getc_nonblocking :: "uart_state \<Rightarrow> u8 option \<times> uart_state" where
  "console_getc_nonblocking u =
     (case uart_rx u of [] \<Rightarrow> (None, u) | b # bs \<Rightarrow> (Some b, u \<lparr> uart_rx := bs \<rparr>))"

text \<open>\<open>None\<close>: the call does not return.\<close>

definition console_getc_blocking :: "uart_state \<Rightarrow> (u8 \<times> uart_state) option" where
  "console_getc_blocking u =
     (case uart_rx u of [] \<Rightarrow> None | b # bs \<Rightarrow> Some (b, u \<lparr> uart_rx := bs \<rparr>))"

definition console_text :: "string \<Rightarrow> string" where
  "console_text s = concat (map (\<lambda>c. if c = newline then [carriage_return, newline] else [c]) s)"

lemma console_write_text: "console_write s u = u \<lparr> uart_tx := uart_tx u @ console_text s \<rparr>"
  by (induction s arbitrary: u) (simp_all add: console_write_def console_putc_def console_text_def)

subsection \<open>The line editor\<close>

definition LINE_IO_BUFFER_SIZE :: nat where "LINE_IO_BUFFER_SIZE = 256"

record line_io_state =
  line_buffer :: string
  line_len :: nat
  skip_lf_after_cr :: bool
  io_uart :: uart_state

definition line_io_copy_out :: "line_io_state \<Rightarrow> nat \<Rightarrow> string" where
  "line_io_copy_out s out_len =
     (let copy_len = line_len s;
          copy_len = (if copy_len \<ge> out_len then out_len - 1 else copy_len)
      in take copy_len (line_buffer s))"

definition line_io_write :: "string \<Rightarrow> line_io_state \<Rightarrow> line_io_state" where
  "line_io_write str s = s \<lparr> io_uart := console_write str (io_uart s) \<rparr>"

definition line_io_handle_backspace :: "line_io_state \<Rightarrow> line_io_state" where
  "line_io_handle_backspace s =
     (if line_len s = 0 then s
      else s \<lparr> line_len := line_len s - 1,
               io_uart := console_write [CHR 0x08, CHR '' '', CHR 0x08] (io_uart s) \<rparr>)"

definition line_io_handle_byte :: "u8 \<Rightarrow> line_io_state \<Rightarrow> line_io_state" where
  "line_io_handle_byte byte s =
     (if line_len s + 1 \<ge> LINE_IO_BUFFER_SIZE then s
      else s \<lparr> line_buffer := (line_buffer s)[line_len s := char_of (unat byte)],
               line_len := line_len s + 1,
               io_uart := console_putc (char_of (unat byte)) (io_uart s) \<rparr>)"

text \<open>
  The body of the loop of \<open>line_io_readline\<close> for one byte: either the loop goes on or a line is
  copied out. The status is its length.
\<close>

definition readline_byte :: "nat \<Rightarrow> u8 \<Rightarrow> line_io_state \<Rightarrow> (int \<times> string) option \<times> line_io_state" where
  "readline_byte out_len byte s =
     (let skip = skip_lf_after_cr s;
          s = s \<lparr> skip_lf_after_cr := False \<rparr>
      in if skip \<and> byte = 0x0a then (None, s)
         else if byte = 0x0d \<or> byte = 0x0a then
           let s = s \<lparr> skip_lf_after_cr := (byte = 0x0d) \<rparr>;
               s = s \<lparr> io_uart := console_write [newline] (io_uart s) \<rparr>;
               out = line_io_copy_out s out_len
           in (Some (int (length out), out), s \<lparr> line_len := 0 \<rparr>)
         else if byte = 0x08 \<or> byte = 0x7f then (None, line_io_handle_backspace s)
         else if byte \<ge> 0x20 \<and> byte \<le> 0x7e then (None, line_io_handle_byte byte s)
         else (None, s))"

text \<open>
  The read of the loop: \<open>None\<close> waits forever, \<open>Some (None, _)\<close> finds no byte.
\<close>

definition readline_getc :: "bool \<Rightarrow> uart_state \<Rightarrow> (u8 option \<times> uart_state) option" where
  "readline_getc blocking u =
     (if blocking then (case console_getc_blocking u of None \<Rightarrow> None | Some (b, u) \<Rightarrow> Some (Some b, u))
      else Some (console_getc_nonblocking u))"

lemma readline_byte_rx [simp]: "uart_rx (io_uart (snd (readline_byte n b s))) = uart_rx (io_uart s)"
  by (simp add: readline_byte_def Let_def console_write_text line_io_handle_backspace_def
      line_io_handle_byte_def console_putc_def)

text \<open>
  The loop. A non-blocking call returns 0 and writes nothing to \<open>out\<close> (\<open>None\<close>) when the bytes
  are used up, a blocking one does not return then.
\<close>

function readline_loop ::
  "nat \<Rightarrow> bool \<Rightarrow> line_io_state \<Rightarrow> (int \<times> string option \<times> line_io_state) option" where
  "readline_loop out_len blocking s =
     (case readline_getc blocking (io_uart s) of
        None \<Rightarrow> None
      | Some (None, u) \<Rightarrow> Some (0, None, s \<lparr> io_uart := u \<rparr>)
      | Some (Some byte, u) \<Rightarrow>
          (case readline_byte out_len byte (s \<lparr> io_uart := u \<rparr>) of
             (Some (n, out), s) \<Rightarrow> Some (n, Some out, s)
           | (None, s) \<Rightarrow> readline_loop out_len blocking s))"
  by pat_completeness auto

termination
proof (relation "measure (\<lambda>(_, _, s). length (uart_rx (io_uart s)))", simp)
  fix out_len blocking s a u b byte x s'
  assume "readline_getc blocking (io_uart s) = Some a" "(b, u) = a" "b = Some byte"
    "(x, s') = readline_byte out_len byte (s \<lparr> io_uart := u \<rparr>)"
  moreover from this(4) have "uart_rx (io_uart s') = uart_rx u"
    by (metis readline_byte_rx snd_conv line_io_state.select_convs(4) line_io_state.surjective
        line_io_state.update_convs(4))
  ultimately show "((out_len, blocking, s'), out_len, blocking, s) \<in> measure (\<lambda>(_, _, s). length (uart_rx (io_uart s)))"
    by (auto simp: readline_getc_def console_getc_blocking_def console_getc_nonblocking_def
        split: if_splits list.splits)
qed

declare readline_loop.simps [simp del]

definition line_io_readline ::
  "nat \<Rightarrow> bool \<Rightarrow> line_io_state \<Rightarrow> (int \<times> string option \<times> line_io_state) option" where
  "line_io_readline out_len blocking s =
     (if out_len = 0 then Some (- 1, None, s)
      else readline_loop out_len blocking s)"

subsection \<open>A reference editor\<close>

definition line_wf :: "line_io_state \<Rightarrow> bool" where
  "line_wf s \<longleftrightarrow> length (line_buffer s) = LINE_IO_BUFFER_SIZE \<and> line_len s < LINE_IO_BUFFER_SIZE"

definition current_line :: "line_io_state \<Rightarrow> string" where
  "current_line s = take (line_len s) (line_buffer s)"

fun edited :: "string \<Rightarrow> u8 list \<Rightarrow> string" where
  "edited line [] = line"
| "edited line (b # bs) =
     edited (if b = 0x08 \<or> b = 0x7f then butlast line
             else if b \<in> {0x20..0x7e} \<and> length line < 255 then line @ [char_of (unat b)]
             else line) bs"

text \<open>What the terminal shows for the bytes typed.\<close>

fun echoed :: "string \<Rightarrow> u8 list \<Rightarrow> string" where
  "echoed line [] = []"
| "echoed line (b # bs) =
     (if b = 0x08 \<or> b = 0x7f then
        (if line = [] then [] else [CHR 0x08, CHR '' '', CHR 0x08]) @ echoed (butlast line) bs
      else if b \<in> {0x20..0x7e} \<and> length line < 255 then char_of (unat b) # echoed (line @ [char_of (unat b)]) bs
      else echoed line bs)"

lemma readline_step:
  assumes "uart_rx (io_uart s) = b # bs"
  shows "readline_loop n blocking s =
    (case readline_byte n b (s \<lparr> io_uart := (io_uart s) \<lparr> uart_rx := bs \<rparr> \<rparr>) of
       (Some (k, out), s) \<Rightarrow> Some (k, Some out, s) | (None, s) \<Rightarrow> readline_loop n blocking s)"
  using assms by (subst readline_loop.simps)
    (simp add: readline_getc_def console_getc_blocking_def console_getc_nonblocking_def)

definition text_byte :: "u8 \<Rightarrow> bool" where
  "text_byte b \<longleftrightarrow> b \<noteq> 0x0d \<and> b \<noteq> 0x0a"

lemma printable_no_newline: "b \<in> {0x20..0x7e} \<Longrightarrow> char_of (unat (b :: u8)) \<noteq> newline"
proof
  assume b: "b \<in> {0x20..0x7e}" "char_of (unat b) = newline"
  then have "unat b < 256" "32 \<le> unat b"
    using unsigned_less [of b] by (simp_all add: word_le_nat_alt)
  moreover have "of_char (char_of (unat b) :: char) = (10 :: nat)"
    using b(2) by simp
  ultimately show False by simp
qed

lemma readline_byte_text:
  assumes "line_wf s" "\<not> skip_lf_after_cr s" "text_byte b"
  shows "\<exists>s'. readline_byte n b s = (None, s') \<and> line_wf s' \<and> \<not> skip_lf_after_cr s' \<and>
    current_line s' = edited (current_line s) [b] \<and>
    io_uart s' = (io_uart s) \<lparr> uart_tx := uart_tx (io_uart s) @ echoed (current_line s) [b] \<rparr>"
proof -
  have len: "length (current_line s) = line_len s" "current_line s = [] \<longleftrightarrow> line_len s = 0"
    using assms(1) by (auto simp: current_line_def line_wf_def)
  consider (bs) "b = 0x08 \<or> b = 0x7f" | (pr) "b \<noteq> 0x08 \<and> b \<noteq> 0x7f" "b \<in> {0x20..0x7e}"
    | (other) "b \<noteq> 0x08 \<and> b \<noteq> 0x7f" "b \<notin> {0x20..0x7e}" by blast
  then show ?thesis
  proof cases
    case bs
    have "butlast (current_line s) = take (line_len s - 1) (line_buffer s)"
      using assms(1) by (simp add: current_line_def butlast_take line_wf_def)
    then show ?thesis
      using bs assms len by (auto simp: readline_byte_def text_byte_def Let_def line_io_handle_backspace_def
          line_wf_def console_write_text console_text_def current_line_def)
  next
    case pr
    show ?thesis
    proof (cases "line_len s < 255")
      case True
      then show ?thesis
        using pr assms len printable_no_newline [OF pr(2)]
        by (auto simp: readline_byte_def text_byte_def Let_def line_io_handle_byte_def LINE_IO_BUFFER_SIZE_def
            line_wf_def console_putc_def current_line_def take_Suc_update_last)
    next
      case False
      then show ?thesis
        using pr assms len by (auto simp: readline_byte_def text_byte_def Let_def line_io_handle_byte_def
            LINE_IO_BUFFER_SIZE_def line_wf_def current_line_def)
    qed
  next
    case other
    then show ?thesis
      using assms by (auto simp: readline_byte_def text_byte_def Let_def line_wf_def current_line_def)
  qed
qed

lemma edited_Cons: "edited line (b # bs) = edited (edited line [b]) bs"
  by simp

lemma echoed_Cons: "echoed line (b # bs) = echoed line [b] @ echoed (edited line [b]) bs"
  by simp

lemma readline_text:
  assumes "line_wf s" "\<not> skip_lf_after_cr s" "uart_rx (io_uart s) = pre @ ys" "\<forall>b \<in> set pre. text_byte b"
  shows "\<exists>s'. readline_loop n blocking s = readline_loop n blocking s' \<and> line_wf s' \<and> \<not> skip_lf_after_cr s' \<and>
    current_line s' = edited (current_line s) pre \<and> uart_rx (io_uart s') = ys \<and>
    uart_tx (io_uart s') = uart_tx (io_uart s) @ echoed (current_line s) pre"
  using assms
proof (induction pre arbitrary: s)
  case Nil
  then show ?case by auto
next
  case (Cons b pre)
  let ?s = "s \<lparr> io_uart := (io_uart s) \<lparr> uart_rx := pre @ ys \<rparr> \<rparr>"
  have c: "line_wf ?s" "\<not> skip_lf_after_cr ?s" "text_byte b" "current_line ?s = current_line s"
    using Cons.prems by (simp_all add: line_wf_def current_line_def)
  from readline_byte_text [OF c(1-3), of n] obtain s1 where s1: "readline_byte n b ?s = (None, s1)" "line_wf s1"
    "\<not> skip_lf_after_cr s1" "current_line s1 = edited (current_line s) [b]" "uart_rx (io_uart s1) = pre @ ys"
    "uart_tx (io_uart s1) = uart_tx (io_uart s) @ echoed (current_line s) [b]"
    unfolding c(4) by auto
  have st: "readline_loop n blocking s = readline_loop n blocking s1"
    using readline_step [of s b "pre @ ys" n blocking] Cons.prems(3) s1(1) by simp
  have ok: "\<forall>b \<in> set pre. text_byte b"
    using Cons.prems(4) by simp
  show ?case
    using Cons.IH [OF s1(2,3,5) ok] unfolding st edited_Cons [of _ b pre] echoed_Cons [of _ b pre] s1(4,6)
    by (simp only: append_assoc)
qed

text \<open>The bytes the editor sees: a line feed directly after a carriage return is dropped.\<close>

definition editor_input :: "line_io_state \<Rightarrow> u8 list" where
  "editor_input s = (let bs = uart_rx (io_uart s) in
     if skip_lf_after_cr s \<and> bs \<noteq> [] \<and> hd bs = 0x0a then tl bs else bs)"

lemma readline_start:
  assumes "line_wf s"
  shows "\<exists>s0. readline_loop n blocking s = readline_loop n blocking s0 \<and> line_wf s0 \<and>
    (skip_lf_after_cr s0 \<longrightarrow> uart_rx (io_uart s0) = []) \<and> current_line s0 = current_line s \<and>
    uart_rx (io_uart s0) = editor_input s \<and> uart_tx (io_uart s0) = uart_tx (io_uart s)"
proof (cases "skip_lf_after_cr s \<and> uart_rx (io_uart s) \<noteq> []")
  case False
  then show ?thesis
    using assms by (intro exI [of _ s]) (auto simp: editor_input_def Let_def)
next
  case True
  then obtain b bs where rx: "uart_rx (io_uart s) = b # bs" by (cases "uart_rx (io_uart s)") auto
  show ?thesis
  proof (cases "b = 0x0a")
    case lf: True
    then show ?thesis
      using True rx assms readline_step [OF rx, of n blocking]
      by (intro exI [of _ "s \<lparr> io_uart := (io_uart s) \<lparr> uart_rx := bs \<rparr>, skip_lf_after_cr := False \<rparr>"])
        (simp add: readline_byte_def editor_input_def line_wf_def current_line_def)
  next
    case other: False
    have "readline_loop n blocking s = readline_loop n blocking (s \<lparr> skip_lf_after_cr := False \<rparr>)"
      using True rx other readline_step [of "s \<lparr> skip_lf_after_cr := False \<rparr>" b bs n blocking]
        readline_step [OF rx, of n blocking] by (simp add: readline_byte_def Let_def)
    then show ?thesis
      using True rx other assms
      by (intro exI [of _ "s \<lparr> skip_lf_after_cr := False \<rparr>"])
        (simp add: editor_input_def line_wf_def current_line_def)
  qed
qed

lemma readline_end:
  assumes "line_wf s" "\<not> skip_lf_after_cr s" "uart_rx (io_uart s) = b # rest" "\<not> text_byte b" "0 < n"
  shows "\<exists>s'. readline_loop n blocking s =
      Some (int (min (length (current_line s)) (n - 1)), Some (take (n - 1) (current_line s)), s') \<and> line_wf s' \<and>
    current_line s' = [] \<and> skip_lf_after_cr s' = (b = 0x0d) \<and>
    io_uart s' = \<lparr> uart_rx = rest, uart_tx = uart_tx (io_uart s) @ [carriage_return, newline] \<rparr>"
proof -
  define s1 where "s1 = s \<lparr> line_len := 0, skip_lf_after_cr := (b = 0x0d), io_uart := \<lparr> uart_rx = rest,
    uart_tx = uart_tx (io_uart s) @ [carriage_return, newline] \<rparr> \<rparr>"
  have "readline_loop n blocking s =
      Some (int (min (length (current_line s)) (n - 1)), Some (take (n - 1) (current_line s)), s1)"
    using assms unfolding readline_step [OF assms(3)]
    by (auto simp: readline_byte_def Let_def text_byte_def line_io_copy_out_def current_line_def s1_def
        console_write_text console_text_def line_wf_def min_def)
  moreover have "line_wf s1" "current_line s1 = []" "skip_lf_after_cr s1 = (b = 0x0d)"
    "io_uart s1 = \<lparr> uart_rx = rest, uart_tx = uart_tx (io_uart s) @ [carriage_return, newline] \<rparr>"
    using assms(1) by (simp_all add: s1_def line_wf_def current_line_def)
  ultimately show ?thesis by blast
qed

lemma readline_empty:
  "uart_rx (io_uart s) = [] \<Longrightarrow>
   readline_loop n blocking s = (if blocking then None else Some (0, None, s))"
  by (subst readline_loop.simps)
    (simp add: readline_getc_def console_getc_blocking_def console_getc_nonblocking_def)

lemma line_io_readline_lemma:
  assumes "line_wf s" "0 < out_len"
  shows "let pre = takeWhile text_byte (editor_input s); line = edited (current_line s) pre;
             shown = uart_tx (io_uart s) @ echoed (current_line s) pre in
    case dropWhile text_byte (editor_input s) of
      [] \<Rightarrow> if blocking then line_io_readline out_len blocking s = None
            else \<exists>s'. line_io_readline out_len blocking s = Some (0, None, s') \<and> line_wf s' \<and>
              current_line s' = line \<and> io_uart s' = \<lparr> uart_rx = [], uart_tx = shown \<rparr>
    | b # rest \<Rightarrow> \<exists>s'. line_io_readline out_len blocking s =
            Some (int (min (length line) (out_len - 1)), Some (take (out_len - 1) line), s') \<and> line_wf s' \<and>
          current_line s' = [] \<and> skip_lf_after_cr s' = (b = 0x0d) \<and>
          io_uart s' = \<lparr> uart_rx = rest, uart_tx = shown @ [carriage_return, newline] \<rparr>"
proof -
  obtain s0 where s0: "readline_loop out_len blocking s = readline_loop out_len blocking s0" "line_wf s0"
    "skip_lf_after_cr s0 \<longrightarrow> uart_rx (io_uart s0) = []" "current_line s0 = current_line s"
    "uart_rx (io_uart s0) = editor_input s" "uart_tx (io_uart s0) = uart_tx (io_uart s)"
    using readline_start [OF assms(1)] by blast
  let ?pre = "takeWhile text_byte (editor_input s)" and ?ys = "dropWhile text_byte (editor_input s)"
  have "\<exists>s1. readline_loop out_len blocking s0 = readline_loop out_len blocking s1 \<and> line_wf s1 \<and>
    (skip_lf_after_cr s1 \<longrightarrow> editor_input s = []) \<and>
    current_line s1 = edited (current_line s) ?pre \<and> uart_rx (io_uart s1) = ?ys \<and>
    uart_tx (io_uart s1) = uart_tx (io_uart s) @ echoed (current_line s) ?pre"
  proof (cases "skip_lf_after_cr s0")
    case True
    then show ?thesis
      using s0 by (intro exI [of _ s0]) simp
  next
    case False
    have "uart_rx (io_uart s0) = ?pre @ ?ys" "\<forall>b \<in> set ?pre. text_byte b"
      by (simp add: s0(5)) (blast dest: set_takeWhileD)
    from readline_text [OF s0(2) False this] show ?thesis
      unfolding s0(4,6) by blast
  qed
  then obtain s1 where s1: "readline_loop out_len blocking s0 = readline_loop out_len blocking s1" "line_wf s1"
    "skip_lf_after_cr s1 \<longrightarrow> editor_input s = []" "current_line s1 = edited (current_line s) ?pre"
    "uart_rx (io_uart s1) = ?ys" "uart_tx (io_uart s1) = uart_tx (io_uart s) @ echoed (current_line s) ?pre"
    by blast
  have run: "line_io_readline out_len blocking s = readline_loop out_len blocking s1"
    using assms(2) s0(1) s1(1) by (simp add: line_io_readline_def)
  show ?thesis
  proof (cases ?ys)
    case Nil
    have "io_uart s1 = \<lparr> uart_rx = [], uart_tx = uart_tx (io_uart s) @ echoed (current_line s) ?pre \<rparr>"
      using s1(5,6) Nil by simp
    then show ?thesis
      unfolding run Let_def Nil list.case readline_empty [OF s1(5) [unfolded Nil]] s1(4) [symmetric]
      using s1(2) by simp
  next
    case (Cons b rest)
    have t: "\<not> text_byte b"
      using Cons by (simp add: dropWhile_eq_Cons_conv)
    have "\<not> skip_lf_after_cr s1"
      using s1(3) Cons by auto
    from readline_end [OF s1(2) this s1(5) [unfolded Cons] t assms(2), of blocking] show ?thesis
      unfolding run s1(4,6) by (simp add: Cons Let_def)
  qed
qed

text \<open>
  C38: The line editor. Up to the next carriage return or line feed the bytes read edit the pending
  line as in the reference editor (backspace deletes, at most 255 printable characters are kept,
  everything else is ignored) and are echoed accordingly. At the line end the call returns the
  line, cut to the caller's buffer, and starts a new one, leaving the rest of the input for later;
  the line feed of a CR LF pair does not end a second line. Without a line end a blocking call waits
  forever and a non-blocking one returns 0 and keeps the pending line for the next call.
\<close>

theorem line_io_readline_spec:
  assumes "line_wf s" "0 < out_len"
  shows "let pre = takeWhile text_byte (editor_input s); line = edited (current_line s) pre;
             shown = uart_tx (io_uart s) @ echoed (current_line s) pre in
    case dropWhile text_byte (editor_input s) of
      [] \<Rightarrow> if blocking then line_io_readline out_len blocking s = None
            else \<exists>s'. line_io_readline out_len blocking s = Some (0, None, s') \<and> line_wf s' \<and>
              current_line s' = line \<and> io_uart s' = \<lparr> uart_rx = [], uart_tx = shown \<rparr>
    | b # rest \<Rightarrow> \<exists>s'. line_io_readline out_len blocking s =
            Some (int (min (length line) (out_len - 1)), Some (take (out_len - 1) line), s') \<and> line_wf s' \<and>
          current_line s' = [] \<and> skip_lf_after_cr s' = (b = 0x0d) \<and>
          io_uart s' = \<lparr> uart_rx = rest, uart_tx = shown @ [carriage_return, newline] \<rparr>"
  by (rule line_io_readline_lemma [OF assms])

definition demo_line :: line_io_state where
  "demo_line = \<lparr> line_buffer = replicate 256 CHR ''x'', line_len = 1, skip_lf_after_cr = True,
     io_uart = \<lparr> uart_rx = [10, 97, 98, 127, 13, 10, 99], uart_tx = [] \<rparr> \<rparr>"

theorem line_io_readline_spec_witness:
  "\<exists>s'. line_io_readline 80 True demo_line = Some (2, Some ''xa'', s') \<and> uart_rx (io_uart s') = [10, 99]"
proof -
  have "line_wf demo_line" by (simp add: line_wf_def demo_line_def LINE_IO_BUFFER_SIZE_def)
  moreover have "current_line demo_line = ''x''" "editor_input demo_line = [97, 98, 127, 13, 10, 99]"
    by (simp_all add: current_line_def demo_line_def editor_input_def)
  ultimately show ?thesis
    using line_io_readline_spec [of demo_line 80 True]
    by (auto simp: text_byte_def Let_def char_of_def bit_0)
qed

end
