(* ===== verification/Sched.thy ===== *)
theory Sched
  imports Console
begin

text \<open>
  Tasks (\<open>kernel/task/task.c\<close>) and the round-robin scheduler (\<open>kernel/sched/rr.c\<close>). A task pointer
  is an index into the task table. The scheduler runs two entry functions of its own; any other
  entry function is code of the applications, a parameter \<open>app_entry\<close> that may write to the console.
\<close>

definition TASK_MAX_TASKS :: nat where "TASK_MAX_TASKS = 8"

datatype task_state = TASK_STATE_UNUSED | TASK_STATE_RUNNABLE | TASK_STATE_RUNNING

datatype task_entry_fn = SCHED_TEST_TASK_1 | SCHED_TEST_TASK_2 | APP_ENTRY nat

record trap_frame =
  tf_ra :: u64
  tf_sp :: u64
  tf_gp :: u64
  tf_tp :: u64
  tf_t0 :: u64
  tf_t1 :: u64
  tf_t2 :: u64
  tf_s0 :: u64
  tf_s1 :: u64
  tf_a0 :: u64
  tf_a1 :: u64
  tf_a2 :: u64
  tf_a3 :: u64
  tf_a4 :: u64
  tf_a5 :: u64
  tf_a6 :: u64
  tf_a7 :: u64
  tf_s2 :: u64
  tf_s3 :: u64
  tf_s4 :: u64
  tf_s5 :: u64
  tf_s6 :: u64
  tf_s7 :: u64
  tf_s8 :: u64
  tf_s9 :: u64
  tf_s10 :: u64
  tf_s11 :: u64
  tf_t3 :: u64
  tf_t4 :: u64
  tf_t5 :: u64
  tf_t6 :: u64
  tf_mstatus :: u64
  tf_mepc :: u64
  tf_mcause :: u64
  tf_mtval :: u64
  tf_reserved :: u64

record task_context =
  switches_in :: u64
  switches_out :: u64
  last_mepc :: u64
  last_mcause :: u64

record task_control_block =
  task_id :: u32
  task_name :: "string option"
  task_status :: task_state
  run_count :: u64
  task_context :: task_context
  task_entry :: "task_entry_fn option"

type_synonym task_table = "task_control_block list"

subsection \<open>The task table\<close>

definition cleared_context :: task_context where
  "cleared_context = \<lparr> switches_in = 0, switches_out = 0, last_mepc = 0, last_mcause = 0 \<rparr>"

definition task_reset :: "u32 \<Rightarrow> task_control_block" where
  "task_reset ident =
     \<lparr> task_id = ident, task_name = None, task_status = TASK_STATE_UNUSED, run_count = 0,
       task_context = cleared_context, task_entry = None \<rparr>"

definition task_system_init :: task_table where
  "task_system_init = map (\<lambda>i. task_reset (of_nat i + 1)) [0..<TASK_MAX_TASKS]"

definition task_create ::
  "task_table \<Rightarrow> string option \<Rightarrow> task_entry_fn option \<Rightarrow> nat option \<times> task_table" where
  "task_create table name entry =
     (if entry = None then (None, table)
      else case find_index (\<lambda>i. task_status (table ! i) = TASK_STATE_UNUSED) TASK_MAX_TASKS of
        None \<Rightarrow> (None, table)
      | Some i \<Rightarrow>
          (Some i, table [i := (table ! i)
             \<lparr> task_name := name, task_status := TASK_STATE_RUNNABLE, run_count := 0,
               task_context := cleared_context, task_entry := entry \<rparr>]))"

definition task_find :: "task_table \<Rightarrow> u32 \<Rightarrow> nat option" where
  "task_find table ident =
     find_index (\<lambda>i. task_id (table ! i) = ident \<and> task_status (table ! i) \<noteq> TASK_STATE_UNUSED)
       TASK_MAX_TASKS"

definition note_frame :: "trap_frame option \<Rightarrow> task_context \<Rightarrow> task_context" where
  "note_frame frame ctx =
     (case frame of
        None \<Rightarrow> ctx
      | Some f \<Rightarrow> ctx \<lparr> last_mepc := tf_mepc f, last_mcause := tf_mcause f \<rparr>)"

definition task_context_switch_out :: "trap_frame option \<Rightarrow> task_control_block \<Rightarrow> task_control_block" where
  "task_context_switch_out frame t =
     (let ctx = (task_context t) \<lparr> switches_out := switches_out (task_context t) + 1 \<rparr>;
          t = t \<lparr> task_context := note_frame frame ctx \<rparr>
      in if task_status t = TASK_STATE_RUNNING then t \<lparr> task_status := TASK_STATE_RUNNABLE \<rparr> else t)"

definition task_context_switch_in :: "trap_frame option \<Rightarrow> task_control_block \<Rightarrow> task_control_block" where
  "task_context_switch_in frame t =
     (let ctx = (task_context t) \<lparr> switches_in := switches_in (task_context t) + 1 \<rparr>;
          t = t \<lparr> task_context := note_frame frame ctx \<rparr>
      in t \<lparr> task_status := TASK_STATE_RUNNING \<rparr>)"

subsection \<open>The scheduler\<close>

definition SCHED_SWITCH_LOG_LIMIT :: u32 where "SCHED_SWITCH_LOG_LIMIT = 12"
definition SCHED_TASK_LOG_LIMIT :: u64 where "SCHED_TASK_LOG_LIMIT = 4"
definition SCHED_ALT_SWITCH_TARGET :: u32 where "SCHED_ALT_SWITCH_TARGET = 4"

text \<open>The slot \<open>SCHED_NO_SLOT\<close> is \<open>None\<close>; all other slots are below the number of tasks.\<close>

record sched_state =
  tasks :: task_table
  runnable_queue :: "u32 list"
  runnable_count :: nat
  current_slot :: "nat option"
  switch_log_count :: u32
  alternating_switches :: u32
  alternation_reported :: bool
  scheduler_running :: bool
  bootstrapped :: bool
  sched_uart :: uart_state

definition sched_print :: "string \<Rightarrow> sched_state \<Rightarrow> sched_state" where
  "sched_print str s = s \<lparr> sched_uart := console_write str (sched_uart s) \<rparr>"

text \<open>The digits of a number, the least significant first: at most 10.\<close>

primrec u32_digits :: "nat \<Rightarrow> u32 \<Rightarrow> string" where
  "u32_digits 0 value = []"
| "u32_digits (Suc room) value =
     (if value > 0 then char_of (48 + unat (value mod 10)) # u32_digits room (value div 10) else [])"

definition sched_write_u32 :: "u32 \<Rightarrow> sched_state \<Rightarrow> sched_state" where
  "sched_write_u32 value s =
     (if value = 0 then s \<lparr> sched_uart := console_putc (CHR ''0'') (sched_uart s) \<rparr>
      else s \<lparr> sched_uart := fold console_putc (rev (u32_digits 10 value)) (sched_uart s) \<rparr>)"

definition sched_log_switch :: "u32 \<Rightarrow> u32 \<Rightarrow> sched_state \<Rightarrow> sched_state" where
  "sched_log_switch from_id to_id s =
     sched_print [newline] (sched_write_u32 to_id (sched_print '' -> ''
       (sched_write_u32 from_id (sched_print ''SCHED: switch '' s))))"

definition sched_task_from_slot :: "sched_state \<Rightarrow> nat option \<Rightarrow> nat option" where
  "sched_task_from_slot s slot =
     (case slot of
        None \<Rightarrow> None
      | Some k \<Rightarrow> if k \<ge> runnable_count s then None else task_find (tasks s) (runnable_queue s ! k))"

definition sched_slot_runnable :: "sched_state \<Rightarrow> nat \<Rightarrow> bool" where
  "sched_slot_runnable s slot =
     (case sched_task_from_slot s (Some slot) of
        None \<Rightarrow> False | Some i \<Rightarrow> task_status (tasks s ! i) = TASK_STATE_RUNNABLE)"

definition wrap_slot :: "sched_state \<Rightarrow> nat \<Rightarrow> nat" where
  "wrap_slot s slot = (if slot \<ge> runnable_count s then slot - runnable_count s else slot)"

definition sched_find_next_slot :: "sched_state \<Rightarrow> nat option" where
  "sched_find_next_slot s =
     (if runnable_count s = 0 then None
      else
        let start_slot = (case current_slot s of
              None \<Rightarrow> 0
            | Some c \<Rightarrow> if c + 1 \<ge> runnable_count s then 0 else c + 1)
        in map_option (\<lambda>offset. wrap_slot s (start_slot + offset))
             (find_index (\<lambda>offset. sched_slot_runnable s (wrap_slot s (start_slot + offset)))
                (runnable_count s)))"

definition run_entry ::
  "(nat \<Rightarrow> task_control_block \<Rightarrow> uart_state \<Rightarrow> uart_state) \<Rightarrow> task_entry_fn \<Rightarrow>
   task_control_block \<Rightarrow> uart_state \<Rightarrow> uart_state" where
  "run_entry app_entry entry t u =
     (case entry of
        SCHED_TEST_TASK_1 \<Rightarrow>
          if run_count t \<le> SCHED_TASK_LOG_LIMIT then console_write (''TASK: 1 running'' @ [newline]) u else u
      | SCHED_TEST_TASK_2 \<Rightarrow>
          if run_count t \<le> SCHED_TASK_LOG_LIMIT then console_write (''TASK: 2 running'' @ [newline]) u else u
      | APP_ENTRY n \<Rightarrow> app_entry n t u)"

definition sched_enqueue_task :: "sched_state \<Rightarrow> nat option \<Rightarrow> int \<times> sched_state" where
  "sched_enqueue_task s task =
     (case task of
        None \<Rightarrow> (- 1, s)
      | Some i \<Rightarrow>
          if runnable_count s \<ge> TASK_MAX_TASKS then (- 1, s)
          else (0, s \<lparr> runnable_queue := (runnable_queue s)[runnable_count s := task_id (tasks s ! i)],
                       runnable_count := runnable_count s + 1 \<rparr>))"

definition sched_init :: "sched_state \<Rightarrow> sched_state" where
  "sched_init s =
     s \<lparr> tasks := task_system_init, runnable_queue := replicate TASK_MAX_TASKS 0, runnable_count := 0,
         current_slot := None, switch_log_count := 0, alternating_switches := 0,
         alternation_reported := False, scheduler_running := False, bootstrapped := False \<rparr>"

definition sched_create :: "string \<Rightarrow> task_entry_fn \<Rightarrow> sched_state \<Rightarrow> nat option \<times> sched_state" where
  "sched_create name entry s =
     (let (t, table) = task_create (tasks s) (Some name) (Some entry) in (t, s \<lparr> tasks := table \<rparr>))"

definition sched_bootstrap_test_tasks :: "sched_state \<Rightarrow> sched_state" where
  "sched_bootstrap_test_tasks s =
     (if bootstrapped s then s
      else
        let s = sched_init s;
            (task_1, s) = sched_create ''task-1'' SCHED_TEST_TASK_1 s;
            (task_2, s) = sched_create ''task-2'' SCHED_TEST_TASK_2 s;
            failed = (\<lambda>s. (sched_print (''SCHED: bootstrap failed'' @ [newline]) s) \<lparr> bootstrapped := True \<rparr>)
        in if task_1 = None \<or> task_2 = None then failed s
           else
             let (r1, s) = sched_enqueue_task s task_1 in
             if r1 \<noteq> 0 then failed s
             else
               let (r2, s) = sched_enqueue_task s task_2 in
               if r2 \<noteq> 0 then failed s
               else sched_print (''SCHED: policy=round-robin runnable=2'' @ [newline])
                      (s \<lparr> scheduler_running := True, bootstrapped := True \<rparr>))"

definition update_task :: "nat \<Rightarrow> (task_control_block \<Rightarrow> task_control_block) \<Rightarrow> sched_state \<Rightarrow> sched_state" where
  "update_task i f s = s \<lparr> tasks := (tasks s)[i := f (tasks s ! i)] \<rparr>"

text \<open>The logging in the middle of the handler.\<close>

definition sched_note_switch :: "nat option \<Rightarrow> u32 \<Rightarrow> u32 \<Rightarrow> sched_state \<Rightarrow> sched_state" where
  "sched_note_switch prev_task prev_id next_id s =
     (let s = (if prev_task \<noteq> None \<and> prev_id \<noteq> next_id \<and> switch_log_count s < SCHED_SWITCH_LOG_LIMIT
               then (sched_log_switch prev_id next_id s) \<lparr> switch_log_count := switch_log_count s + 1 \<rparr>
               else s)
      in if (prev_id = 1 \<and> next_id = 2) \<or> (prev_id = 2 \<and> next_id = 1) then
           let s = s \<lparr> alternating_switches := alternating_switches s + 1 \<rparr> in
           if \<not> alternation_reported s \<and> alternating_switches s \<ge> SCHED_ALT_SWITCH_TARGET
           then (sched_print (''SCHED_TEST: alternating tasks confirmed'' @ [newline]) s)
                  \<lparr> alternation_reported := True \<rparr>
           else s
         else s)"

text \<open>The second half of the handler, once the next slot and its task are known.\<close>

definition sched_switch_to ::
  "(nat \<Rightarrow> task_control_block \<Rightarrow> uart_state \<Rightarrow> uart_state) \<Rightarrow> trap_frame option \<Rightarrow> nat option \<Rightarrow> u32 \<Rightarrow>
   nat \<Rightarrow> nat \<Rightarrow> sched_state \<Rightarrow> sched_state" where
  "sched_switch_to app_entry frame prev_task prev_id slot i s =
     (let s = s \<lparr> current_slot := Some slot \<rparr>;
          s = update_task i (task_context_switch_in frame) s;
          s = sched_note_switch prev_task prev_id (task_id (tasks s ! i)) s;
          s = update_task i (\<lambda>t. t \<lparr> run_count := run_count t + 1 \<rparr>) s;
          s = (case task_entry (tasks s ! i) of
                 None \<Rightarrow> s
               | Some entry \<Rightarrow>
                   s \<lparr> sched_uart := run_entry app_entry entry (tasks s ! i) (sched_uart s) \<rparr>)
      in if task_status (tasks s ! i) = TASK_STATE_RUNNING
         then update_task i (\<lambda>t. t \<lparr> task_status := TASK_STATE_RUNNABLE \<rparr>) s else s)"

definition sched_handle_timer_interrupt ::
  "(nat \<Rightarrow> task_control_block \<Rightarrow> uart_state \<Rightarrow> uart_state) \<Rightarrow> trap_frame option \<Rightarrow> sched_state \<Rightarrow> sched_state" where
  "sched_handle_timer_interrupt app_entry frame s =
     (if \<not> scheduler_running s \<or> runnable_count s = 0 then s
      else
        let prev_task = sched_task_from_slot s (current_slot s);
            (prev_id, s) = (case prev_task of
                None \<Rightarrow> (0, s)
              | Some i \<Rightarrow> (task_id (tasks s ! i), update_task i (task_context_switch_out frame) s));
            next_slot = sched_find_next_slot s
        in case next_slot of
             None \<Rightarrow> s
           | Some slot \<Rightarrow>
               (case sched_task_from_slot s (Some slot) of
                  None \<Rightarrow> s
                | Some i \<Rightarrow>
                    sched_switch_to app_entry frame prev_task prev_id slot i s))"

definition sched_runnable_count :: "sched_state \<Rightarrow> nat" where
  "sched_runnable_count s = runnable_count s"

subsection \<open>The invariant between interrupts\<close>

definition table_wf :: "task_table \<Rightarrow> bool" where
  "table_wf table \<longleftrightarrow> length table = TASK_MAX_TASKS \<and> (\<forall>i < TASK_MAX_TASKS. task_id (table ! i) = of_nat i + 1)"

definition slot_task :: "sched_state \<Rightarrow> nat \<Rightarrow> nat" where
  "slot_task s k = unat (runnable_queue s ! k) - 1"

definition sched_wf :: "sched_state \<Rightarrow> bool" where
  "sched_wf s \<longleftrightarrow> table_wf (tasks s) \<and> runnable_count s \<le> length (runnable_queue s) \<and>
     inj_on (slot_task s) {..<runnable_count s} \<and>
     (\<forall>k < runnable_count s. slot_task s k < TASK_MAX_TASKS \<and>
        runnable_queue s ! k = of_nat (slot_task s k) + 1 \<and>
        task_status (tasks s ! slot_task s k) = TASK_STATE_RUNNABLE) \<and>
     (\<forall>c. current_slot s = Some c \<longrightarrow> c < runnable_count s)"

definition next_slot :: "sched_state \<Rightarrow> nat" where
  "next_slot s = (case current_slot s of None \<Rightarrow> 0 | Some c \<Rightarrow> (c + 1) mod runnable_count s)"

lemma task_find_id:
  assumes "table_wf table" "i < TASK_MAX_TASKS" "task_status (table ! i) \<noteq> TASK_STATE_UNUSED"
  shows "task_find table (of_nat i + 1) = Some i"
proof -
  have "unat (of_nat j :: u32) = j" if "j < TASK_MAX_TASKS" for j
    using that by (simp add: TASK_MAX_TASKS_def unat_of_nat)
  then have "(of_nat j + 1 :: u32) \<noteq> of_nat i + 1" if "j < i" for j
    using that assms(2) by (metis add_right_cancel order.strict_trans less_irrefl)
  then show ?thesis
    using assms by (auto simp: task_find_def find_index_Some table_wf_def)
qed

lemma slot_found:
  "sched_wf s \<Longrightarrow> k < runnable_count s \<Longrightarrow> sched_task_from_slot s (Some k) = Some (slot_task s k)"
  using task_find_id [of "tasks s" "slot_task s k"] by (auto simp: sched_task_from_slot_def sched_wf_def)

lemma next_slot_less: "0 < runnable_count s \<Longrightarrow> next_slot s < runnable_count s"
  by (simp add: next_slot_def split: option.split)

lemma find_next_slot:
  assumes "sched_wf s" "0 < runnable_count s"
  shows "sched_find_next_slot s = Some (next_slot s)"
proof -
  let ?start = "case current_slot s of None \<Rightarrow> 0 | Some c \<Rightarrow> if c + 1 \<ge> runnable_count s then 0 else c + 1"
  have st: "?start = next_slot s"
    using assms by (auto simp: next_slot_def sched_wf_def le_Suc_eq not_le split: option.split)
  have lt: "next_slot s < runnable_count s"
    using next_slot_less [OF assms(2)] .
  then have "sched_slot_runnable s (next_slot s)"
    using slot_found [OF assms(1)] assms(1) by (simp add: sched_slot_runnable_def sched_wf_def)
  then have "find_index (\<lambda>offset. sched_slot_runnable s (wrap_slot s (next_slot s + offset))) (runnable_count s) = Some 0"
    using assms(2) lt by (simp add: find_index_Some wrap_slot_def)
  then show ?thesis
    using assms(2) lt unfolding sched_find_next_slot_def Let_def st by (simp add: wrap_slot_def)
qed

text \<open>Two states that only differ in the context, the run counts and the logs of their tasks.\<close>

definition same_schedule :: "sched_state \<Rightarrow> sched_state \<Rightarrow> bool" where
  "same_schedule s s' \<longleftrightarrow> runnable_queue s' = runnable_queue s \<and> runnable_count s' = runnable_count s \<and>
     scheduler_running s' = scheduler_running s \<and> bootstrapped s' = bootstrapped s \<and>
     length (tasks s') = length (tasks s) \<and>
     (\<forall>i < length (tasks s). task_id (tasks s' ! i) = task_id (tasks s ! i) \<and>
        task_status (tasks s' ! i) = task_status (tasks s ! i) \<and>
        task_entry (tasks s' ! i) = task_entry (tasks s ! i))"

lemma same_schedule_wf:
  "same_schedule s s' \<Longrightarrow> sched_wf s \<Longrightarrow> (\<forall>c. current_slot s' = Some c \<longrightarrow> c < runnable_count s) \<Longrightarrow> sched_wf s'"
  unfolding sched_wf_def same_schedule_def table_wf_def slot_task_def by auto

lemma note_switch_frame [simp]:
  "tasks (sched_note_switch p a b s) = tasks s"
  "runnable_queue (sched_note_switch p a b s) = runnable_queue s"
  "runnable_count (sched_note_switch p a b s) = runnable_count s"
  "current_slot (sched_note_switch p a b s) = current_slot s"
  "scheduler_running (sched_note_switch p a b s) = scheduler_running s"
  "bootstrapped (sched_note_switch p a b s) = bootstrapped s"
  by (simp_all add: sched_note_switch_def sched_log_switch_def sched_print_def sched_write_u32_def Let_def)

definition switched_out :: "trap_frame option \<Rightarrow> sched_state \<Rightarrow> u32 \<times> sched_state" where
  "switched_out frame s = (case sched_task_from_slot s (current_slot s) of
     None \<Rightarrow> (0, s)
   | Some i \<Rightarrow> (task_id (tasks s ! i), update_task i (task_context_switch_out frame) s))"

lemma update_task_same:
  assumes "i < length (tasks s)" "task_id (f (tasks s ! i)) = task_id (tasks s ! i)"
    "task_status (f (tasks s ! i)) = task_status (tasks s ! i)" "task_entry (f (tasks s ! i)) = task_entry (tasks s ! i)"
  shows "same_schedule s (update_task i f s)"
  using assms by (auto simp: same_schedule_def update_task_def nth_list_update)

lemma switched_out_same:
  assumes "sched_wf s"
  shows "same_schedule s (snd (switched_out frame s)) \<and> current_slot (snd (switched_out frame s)) = current_slot s \<and>
    (\<forall>i. run_count (tasks (snd (switched_out frame s)) ! i) = run_count (tasks s ! i))"
proof (cases "current_slot s")
  case None
  then show ?thesis
    by (simp add: switched_out_def sched_task_from_slot_def same_schedule_def)
next
  case (Some c)
  then have c: "c < runnable_count s" using assms by (simp add: sched_wf_def)
  have i: "slot_task s c < length (tasks s)" "task_status (tasks s ! slot_task s c) = TASK_STATE_RUNNABLE"
    using assms c by (simp_all add: sched_wf_def table_wf_def)
  have s1: "snd (switched_out frame s) = update_task (slot_task s c) (task_context_switch_out frame) s"
    using slot_found [OF assms c] Some by (simp add: switched_out_def)
  show ?thesis
    unfolding s1 using i
    by (intro conjI update_task_same) (auto simp: task_context_switch_out_def Let_def update_task_def nth_list_update)
qed

lemma switch_to_tasks:
  assumes "i < length (tasks s)"
  shows "tasks (sched_switch_to app_entry frame p a slot i s) =
      (tasks s)[i := (task_context_switch_in frame (tasks s ! i))
        \<lparr> run_count := run_count (tasks s ! i) + 1, task_status := TASK_STATE_RUNNABLE \<rparr>]"
    and "current_slot (sched_switch_to app_entry frame p a slot i s) = Some slot"
    and "runnable_queue (sched_switch_to app_entry frame p a slot i s) = runnable_queue s"
    and "runnable_count (sched_switch_to app_entry frame p a slot i s) = runnable_count s"
    and "scheduler_running (sched_switch_to app_entry frame p a slot i s) = scheduler_running s"
    and "bootstrapped (sched_switch_to app_entry frame p a slot i s) = bootstrapped s"
  using assms by (cases "task_entry (tasks s ! i)";
    simp add: sched_switch_to_def update_task_def task_context_switch_in_def Let_def)+

lemma switch_to_same:
  assumes "i < length (tasks s)" "task_status (tasks s ! i) = TASK_STATE_RUNNABLE"
  shows "same_schedule s (sched_switch_to app_entry frame p a slot i s) \<and>
    (\<forall>j < length (tasks s). run_count (tasks (sched_switch_to app_entry frame p a slot i s) ! j) =
       run_count (tasks s ! j) + (if j = i then 1 else 0))"
  using assms unfolding same_schedule_def switch_to_tasks [OF assms(1)]
  by (simp add: nth_list_update task_context_switch_in_def Let_def)

lemma interrupt_unfold:
  assumes "sched_wf s" "scheduler_running s" "0 < runnable_count s" "switched_out frame s = (prev_id, s1)"
  shows "same_schedule s s1" "\<And>i. run_count (tasks s1 ! i) = run_count (tasks s ! i)"
    "slot_task s (next_slot s) < length (tasks s1)" "length (tasks s1) = TASK_MAX_TASKS"
    "task_status (tasks s1 ! slot_task s (next_slot s)) = TASK_STATE_RUNNABLE"
    "sched_handle_timer_interrupt app_entry frame s = sched_switch_to app_entry frame
       (sched_task_from_slot s (current_slot s)) prev_id (next_slot s) (slot_task s (next_slot s)) s1"
proof -
  show s1: "same_schedule s s1" "\<And>i. run_count (tasks s1 ! i) = run_count (tasks s ! i)"
    using switched_out_same [OF assms(1), of frame] by (simp_all add: assms(4))
  have c: "current_slot s1 = current_slot s"
    using switched_out_same [OF assms(1), of frame] by (simp add: assms(4))
  have wf1: "sched_wf s1"
    using same_schedule_wf [OF s1(1) assms(1)] assms(1) c by (simp add: sched_wf_def)
  have n: "next_slot s1 = next_slot s" "runnable_count s1 = runnable_count s" "slot_task s1 = slot_task s"
    using s1(1) c by (simp_all add: next_slot_def same_schedule_def slot_task_def fun_eq_iff split: option.split)
  have lt: "next_slot s < runnable_count s" by (rule next_slot_less [OF assms(3)])
  show "slot_task s (next_slot s) < length (tasks s1)" "length (tasks s1) = TASK_MAX_TASKS"
    "task_status (tasks s1 ! slot_task s (next_slot s)) = TASK_STATE_RUNNABLE"
    using wf1 lt n by (simp_all add: sched_wf_def table_wf_def)
  have "sched_find_next_slot s1 = Some (next_slot s)"
    "sched_task_from_slot s1 (Some (next_slot s)) = Some (slot_task s (next_slot s))"
    using find_next_slot [OF wf1] slot_found [OF wf1] assms(3) n lt by simp_all
  then show "sched_handle_timer_interrupt app_entry frame s = sched_switch_to app_entry frame
       (sched_task_from_slot s (current_slot s)) prev_id (next_slot s) (slot_task s (next_slot s)) s1"
    using assms(2,3) assms(4) [unfolded switched_out_def] by (simp add: sched_handle_timer_interrupt_def Let_def)
qed

lemma interrupt_step:
  assumes "sched_wf s" "scheduler_running s" "0 < runnable_count s"
  shows "same_schedule s (sched_handle_timer_interrupt app_entry frame s) \<and>
    current_slot (sched_handle_timer_interrupt app_entry frame s) = Some (next_slot s) \<and>
    (\<forall>i < TASK_MAX_TASKS. run_count (tasks (sched_handle_timer_interrupt app_entry frame s) ! i) =
        run_count (tasks s ! i) + (if i = slot_task s (next_slot s) then 1 else 0))"
proof -
  obtain prev_id s1 where so: "switched_out frame s = (prev_id, s1)" by force
  note u = interrupt_unfold [OF assms so]
  show ?thesis
    using switch_to_same [OF u(3,5)] switch_to_tasks(2) [OF u(3)] u(1,2,4) unfolding u(6)
    by (simp add: same_schedule_def)
qed

subsection \<open>Fairness\<close>

definition timer_interrupts ::
  "(nat \<Rightarrow> task_control_block \<Rightarrow> uart_state \<Rightarrow> uart_state) \<Rightarrow> trap_frame option list \<Rightarrow> sched_state \<Rightarrow> sched_state" where
  "timer_interrupts app_entry frames s = fold (sched_handle_timer_interrupt app_entry) frames s"

text \<open>How often a slot comes up in \<open>m\<close> interrupts when \<open>start\<close> is next.\<close>

definition turns :: "nat \<Rightarrow> nat \<Rightarrow> nat \<Rightarrow> nat \<Rightarrow> nat" where
  "turns k start slot m = (m + k - 1 - (slot + k - start) mod k) div k"

lemma turns_0 [simp]: "0 < k \<Longrightarrow> turns k start slot 0 = 0"
  by (simp add: turns_def)

lemma turn_slot:
  assumes "start < k" "slot < k"
  shows "m mod k = (slot + k - start) mod k \<longleftrightarrow> slot = (start + m) mod (k :: nat)"
proof
  assume "m mod k = (slot + k - start) mod k"
  then have "(start + m) mod k = (start + (slot + k - start)) mod k"
    by (metis mod_add_right_eq)
  then show "slot = (start + m) mod k" using assms by simp
next
  assume "slot = (start + m) mod k"
  then have "(slot + (k - start)) mod k = (start + m + (k - start)) mod k"
    by (metis mod_add_left_eq)
  then show "m mod k = (slot + k - start) mod k" using assms by simp
qed

lemma turns_step:
  assumes "start < k" "slot < k"
  shows "turns k start slot (Suc m) = turns k start slot m + (if slot = (start + m) mod k then 1 else 0)"
proof -
  define d where "d = (slot + k - start) mod k"
  have d: "d < k" using assms by (simp add: d_def)
  have eq: "Suc m + k - 1 - d = Suc (m + k - 1 - d)"
    using d by simp
  have "Suc (m + k - 1 - d) mod k = 0 \<longleftrightarrow> m mod k = d"
  proof -
    have "Suc (m + k - 1 - d) = m + k - d" using d by simp
    moreover have "(m + k - d) mod k = 0 \<longleftrightarrow> (m + k - d + d) mod k = d mod k"
      using mod_add_cong [of "m + k - d" k 0 d d]
      by (metis add_0 add_diff_cancel_right' dvd_eq_mod_eq_0 le_add2 mod_eq_dvd_iff_nat mod_0)
    moreover have "m + k - d + d = m + k" using d by simp
    ultimately show ?thesis using d by simp
  qed
  moreover have "m mod k = d \<longleftrightarrow> slot = (start + m) mod k"
    unfolding d_def by (rule turn_slot [OF assms])
  ultimately show ?thesis
    unfolding turns_def d_def [symmetric] eq div_Suc by simp
qed

lemma next_slot_step:
  "current_slot s' = Some (next_slot s) \<Longrightarrow> runnable_count s' = runnable_count s \<Longrightarrow>
   next_slot s' = (next_slot s + 1) mod runnable_count s"
  by (simp add: next_slot_def)

lemma rounds:
  assumes "sched_wf s" "scheduler_running s" "0 < runnable_count s"
  shows "same_schedule s (timer_interrupts app_entry frames s) \<and> sched_wf (timer_interrupts app_entry frames s) \<and>
    next_slot (timer_interrupts app_entry frames s) = (next_slot s + length frames) mod runnable_count s \<and>
    (\<forall>k < runnable_count s. run_count (tasks (timer_interrupts app_entry frames s) ! slot_task s k) =
       run_count (tasks s ! slot_task s k) + of_nat (turns (runnable_count s) (next_slot s) k (length frames)))"
proof (induction frames rule: rev_induct)
  case Nil
  then show ?case
    using assms next_slot_less [OF assms(3)] by (simp add: timer_interrupts_def same_schedule_def)
next
  case (snoc frame frames)
  let ?s1 = "timer_interrupts app_entry frames s"
  let ?s2 = "sched_handle_timer_interrupt app_entry frame ?s1"
  have s2: "timer_interrupts app_entry (frames @ [frame]) s = ?s2"
    by (simp add: timer_interrupts_def)
  have s1: "sched_wf ?s1" "scheduler_running ?s1" "runnable_count ?s1 = runnable_count s" "slot_task ?s1 = slot_task s"
    using snoc assms by (auto simp: same_schedule_def slot_task_def fun_eq_iff)
  have step: "same_schedule ?s1 ?s2" "current_slot ?s2 = Some (next_slot ?s1)"
    "\<And>i. i < TASK_MAX_TASKS \<Longrightarrow> run_count (tasks ?s2 ! i) =
        run_count (tasks ?s1 ! i) + (if i = slot_task s (next_slot ?s1) then 1 else 0)"
    using interrupt_step [OF s1(1,2), of app_entry frame] assms(3) s1(3,4) by auto
  have lt: "next_slot ?s1 < runnable_count s"
    using next_slot_less [of ?s1] assms(3) s1(3) by simp
  have "same_schedule s ?s2"
    using snoc step(1) by (simp add: same_schedule_def)
  moreover have "sched_wf ?s2"
    using same_schedule_wf [OF step(1) s1(1)] step(2) lt s1(3) by simp
  moreover have "next_slot ?s2 = (next_slot s + length (frames @ [frame])) mod runnable_count s"
    using next_slot_step [OF step(2)] step(1) s1(3) snoc by (simp add: same_schedule_def mod_Suc_eq)
  moreover have "run_count (tasks ?s2 ! slot_task s k) = run_count (tasks s ! slot_task s k) +
      of_nat (turns (runnable_count s) (next_slot s) k (length (frames @ [frame])))" if k: "k < runnable_count s" for k
  proof -
    have "slot_task s k < TASK_MAX_TASKS" "slot_task s k = slot_task s (next_slot ?s1) \<longleftrightarrow> k = next_slot ?s1"
      using assms(1) k lt by (auto simp: sched_wf_def inj_on_def)
    then show ?thesis
      using step(3) [of "slot_task s k"] snoc k turns_step [OF next_slot_less [OF assms(3)] k, of "length frames"]
      by (simp add: add.assoc)
  qed
  ultimately show ?case
    unfolding s2 by blast
qed

text \<open>
  C26: The scheduler is fair. In \<open>m\<close> timer interrupts the task \<open>d\<close> places ahead in the queue is
  run at the interrupts \<open>d\<close>, \<open>d + n\<close>, \<open>d + 2n\<close>, \<open>\<dots>\<close> for \<open>n\<close> runnable tasks, no more and
  no less, wherever the queue stands; every task is runnable again afterwards and the queue is unchanged.
\<close>

theorem scheduler_fair:
  assumes "sched_wf s" "scheduler_running s" "0 < runnable_count s"
  shows "sched_wf (timer_interrupts app_entry frames s) \<and>
    runnable_queue (timer_interrupts app_entry frames s) = runnable_queue s \<and>
    runnable_count (timer_interrupts app_entry frames s) = runnable_count s \<and>
    (\<forall>k < runnable_count s. run_count (tasks (timer_interrupts app_entry frames s) ! slot_task s k) =
       run_count (tasks s ! slot_task s k) +
       of_nat (card {i. i < length frames \<and> i mod runnable_count s =
         (k + runnable_count s - next_slot s) mod runnable_count s}))"
proof -
  have "card {i. i < m \<and> i mod n = (k + n - start) mod n} = turns n start k m" if "start < n" "k < n" for k n start m :: nat
  proof (induction m)
    case (Suc m)
    let ?A = "{i. i < m \<and> i mod n = (k + n - start) mod n}"
    have "{i. i < Suc m \<and> i mod n = (k + n - start) mod n} = (if m mod n = (k + n - start) mod n then insert m ?A else ?A)"
      by (auto simp: less_Suc_eq)
    then have "card {i. i < Suc m \<and> i mod n = (k + n - start) mod n} =
        card ?A + (if m mod n = (k + n - start) mod n then 1 else 0)"
      by simp
    then show ?case
      using Suc unfolding turns_step [OF that] turn_slot [OF that] by simp
  qed (use that in simp)
  then show ?thesis
    using rounds [OF assms] next_slot_less [OF assms(3)] by (auto simp: same_schedule_def)
qed

subsection \<open>The test tasks\<close>

definition switches_pair :: "u32 \<Rightarrow> u32 \<Rightarrow> bool" where
  "switches_pair a b \<longleftrightarrow> (a = 1 \<and> b = 2) \<or> (a = 2 \<and> b = 1)"

lemma note_switch_alternation:
  "alternating_switches (sched_note_switch p a b s) = alternating_switches s + (if switches_pair a b then 1 else 0)"
  "alternation_reported (sched_note_switch p a b s) \<longleftrightarrow> alternation_reported s \<or>
     switches_pair a b \<and> SCHED_ALT_SWITCH_TARGET \<le> alternating_switches s + 1"
  unfolding sched_note_switch_def switches_pair_def [symmetric] Let_def
  by (simp_all add: sched_log_switch_def sched_print_def sched_write_u32_def)

lemma switch_to_alternation:
  assumes "i < length (tasks s)"
  shows "alternating_switches (sched_switch_to app_entry frame p a slot i s) =
      alternating_switches s + (if switches_pair a (task_id (tasks s ! i)) then 1 else 0)"
    and "alternation_reported (sched_switch_to app_entry frame p a slot i s) \<longleftrightarrow> alternation_reported s \<or>
      switches_pair a (task_id (tasks s ! i)) \<and> SCHED_ALT_SWITCH_TARGET \<le> alternating_switches s + 1"
proof -
  have t: "task_id (task_context_switch_in frame t) = task_id t" for t
    by (simp add: task_context_switch_in_def Let_def)
  show "alternating_switches (sched_switch_to app_entry frame p a slot i s) =
      alternating_switches s + (if switches_pair a (task_id (tasks s ! i)) then 1 else 0)"
    "alternation_reported (sched_switch_to app_entry frame p a slot i s) \<longleftrightarrow> alternation_reported s \<or>
      switches_pair a (task_id (tasks s ! i)) \<and> SCHED_ALT_SWITCH_TARGET \<le> alternating_switches s + 1"
    using assms by (cases "task_entry (tasks s ! i)";
        simp add: sched_switch_to_def update_task_def t note_switch_alternation Let_def
          task_context_switch_in_def)+
qed

text \<open>The scheduler after it has set up its two test tasks and \<open>m\<close> interrupts have come.\<close>

definition alternating :: "nat \<Rightarrow> sched_state \<Rightarrow> bool" where
  "alternating m s \<longleftrightarrow> sched_wf s \<and> scheduler_running s \<and> bootstrapped s \<and> runnable_count s = 2 \<and>
     slot_task s 0 = 0 \<and> slot_task s 1 = 1 \<and>
     current_slot s = (if m = 0 then None else Some ((m - 1) mod 2)) \<and>
     run_count (tasks s ! 0) = of_nat ((m + 1) div 2) \<and> run_count (tasks s ! 1) = of_nat (m div 2) \<and>
     (m \<le> 5 \<longrightarrow> alternating_switches s = of_nat (m - 1)) \<and> (alternation_reported s \<longleftrightarrow> 5 \<le> m)"

definition fresh_task :: "u32 \<Rightarrow> string \<Rightarrow> task_entry_fn \<Rightarrow> task_control_block" where
  "fresh_task i name entry = \<lparr> task_id = i, task_name = Some name, task_status = TASK_STATE_RUNNABLE,
     run_count = 0, task_context = cleared_context, task_entry = Some entry \<rparr>"

lemma create_first:
  "sched_create name entry s = (Some (length used), s \<lparr> tasks := used @ fresh_task i name entry # rest \<rparr>)"
  if "tasks s = used @ task_reset i # rest" "\<forall>t \<in> set used. task_status t \<noteq> TASK_STATE_UNUSED"
    "length used < TASK_MAX_TASKS"
proof -
  have "find_index (\<lambda>k. task_status (tasks s ! k) = TASK_STATE_UNUSED) TASK_MAX_TASKS = Some (length used)"
    using that by (auto simp: find_index_Some nth_append task_reset_def)
  then show ?thesis
    using that by (simp add: sched_create_def task_create_def fresh_task_def task_reset_def)
qed

definition booted :: "uart_state \<Rightarrow> sched_state" where
  "booted u = \<lparr> tasks = fresh_task 1 ''task-1'' SCHED_TEST_TASK_1 # fresh_task 2 ''task-2'' SCHED_TEST_TASK_2 #
        map (\<lambda>i. task_reset (of_nat i + 1)) [2..<8],
      runnable_queue = 1 # 2 # replicate 6 0, runnable_count = 2, current_slot = None, switch_log_count = 0,
      alternating_switches = 0, alternation_reported = False, scheduler_running = True, bootstrapped = True,
      sched_uart = u \<rparr>"

lemma bootstrap_state:
  assumes "\<not> bootstrapped s"
  shows "sched_bootstrap_test_tasks s = booted (console_write (''SCHED: policy=round-robin runnable=2'' @ [newline]) (sched_uart s))"
proof -
  define rest where "rest = map (\<lambda>i. task_reset (of_nat i + 1)) [2..<8]"
  have "[0..<8] = 0 # 1 # [2..<8 :: nat]"
    by (simp add: upt_rec)
  then have init: "tasks (sched_init s) = [] @ task_reset 1 # task_reset 2 # rest"
    by (simp add: sched_init_def task_system_init_def TASK_MAX_TASKS_def rest_def)
  let ?t1 = "fresh_task 1 ''task-1'' SCHED_TEST_TASK_1" and ?t2 = "fresh_task 2 ''task-2'' SCHED_TEST_TASK_2"
  have c1: "sched_create ''task-1'' SCHED_TEST_TASK_1 (sched_init s) =
      (Some 0, (sched_init s) \<lparr> tasks := [?t1] @ task_reset 2 # rest \<rparr>)"
    using create_first [OF init, of "''task-1''" SCHED_TEST_TASK_1] by (simp add: TASK_MAX_TASKS_def)
  have c2: "sched_create ''task-2'' SCHED_TEST_TASK_2 ((sched_init s) \<lparr> tasks := [?t1] @ task_reset 2 # rest \<rparr>) =
      (Some 1, (sched_init s) \<lparr> tasks := ?t1 # ?t2 # rest \<rparr>)"
    by (subst create_first [where used = "[?t1]" and i = 2 and rest = rest])
      (simp_all add: TASK_MAX_TASKS_def fresh_task_def)
  have q: "replicate 8 0 = (0 :: u32) # 0 # replicate 6 0"
    by (simp add: numeral_eq_Suc)
  show ?thesis
    using assms unfolding sched_bootstrap_test_tasks_def Let_def c1 c2 prod.case
    by (cases s) (simp add: sched_enqueue_task_def sched_init_def TASK_MAX_TASKS_def q sched_print_def booted_def
        fresh_task_def rest_def)
qed

lemma booted_alternating: "alternating 0 (booted u)"
proof -
  have "task_id (tasks (booted u) ! i) = of_nat i + 1" if "i < 8" for i
  proof -
    have "i = 0 \<or> i = 1 \<or> i = 2 \<or> i = 3 \<or> i = 4 \<or> i = 5 \<or> i = 6 \<or> i = 7"
      using that by presburger
    then show ?thesis
      by (elim disjE) (simp_all add: booted_def fresh_task_def task_reset_def)
  qed
  then have "table_wf (tasks (booted u))"
    by (simp add: table_wf_def TASK_MAX_TASKS_def) (simp add: booted_def)
  moreover have "inj_on (slot_task (booted u)) {..<2}"
    by (auto simp: inj_on_def slot_task_def booted_def less_2_cases_iff)
  ultimately have "sched_wf (booted u)"
    unfolding sched_wf_def by (auto simp: booted_def slot_task_def TASK_MAX_TASKS_def fresh_task_def less_2_cases_iff)
  then show ?thesis
    by (simp add: alternating_def) (simp add: booted_def slot_task_def fresh_task_def)
qed

lemma interrupt_alternation:
  assumes "sched_wf s" "scheduler_running s" "0 < runnable_count s"
  defines "pair \<equiv> switches_pair (case current_slot s of None \<Rightarrow> 0 | Some c \<Rightarrow> of_nat (slot_task s c) + 1)
    (of_nat (slot_task s (next_slot s)) + 1)"
  shows "alternating_switches (sched_handle_timer_interrupt app_entry frame s) =
      alternating_switches s + (if pair then 1 else 0)"
    and "alternation_reported (sched_handle_timer_interrupt app_entry frame s) \<longleftrightarrow> alternation_reported s \<or>
      pair \<and> SCHED_ALT_SWITCH_TARGET \<le> alternating_switches s + 1"
proof -
  obtain prev_id s1 where so: "switched_out frame s = (prev_id, s1)" by force
  note u = interrupt_unfold [OF assms(1-3) so]
  have ids: "task_id (tasks s ! slot_task s k) = of_nat (slot_task s k) + 1" "slot_task s k < TASK_MAX_TASKS"
    if "k < runnable_count s" for k
    using assms(1) that by (simp_all add: sched_wf_def table_wf_def)
  have "task_id (tasks s1 ! slot_task s (next_slot s)) = of_nat (slot_task s (next_slot s)) + 1"
    using u(1,3) ids(1) [OF next_slot_less [OF assms(3)]] by (simp add: same_schedule_def)
  moreover have "prev_id = (case current_slot s of None \<Rightarrow> 0 | Some c \<Rightarrow> of_nat (slot_task s c) + 1)"
    using so ids assms(1) slot_found [OF assms(1)]
    by (auto simp: switched_out_def sched_wf_def sched_task_from_slot_def split: option.splits)
  moreover have "alternating_switches s1 = alternating_switches s" "alternation_reported s1 = alternation_reported s"
    using so by (auto simp: switched_out_def update_task_def split: option.splits)
  ultimately show "alternating_switches (sched_handle_timer_interrupt app_entry frame s) =
      alternating_switches s + (if pair then 1 else 0)"
    "alternation_reported (sched_handle_timer_interrupt app_entry frame s) \<longleftrightarrow> alternation_reported s \<or>
      pair \<and> SCHED_ALT_SWITCH_TARGET \<le> alternating_switches s + 1"
    using switch_to_alternation [OF u(3)] unfolding u(6) pair_def by simp_all
qed

lemma alternating_step:
  assumes "alternating m s"
  shows "alternating (Suc m) (sched_handle_timer_interrupt app_entry frame s)"
proof -
  let ?s = "sched_handle_timer_interrupt app_entry frame s"
  have s: "sched_wf s" "scheduler_running s" "bootstrapped s" "runnable_count s = 2" "slot_task s 0 = 0" "slot_task s 1 = 1"
    "current_slot s = (if m = 0 then None else Some ((m - 1) mod 2))"
    "run_count (tasks s ! 0) = of_nat ((m + 1) div 2)" "run_count (tasks s ! 1) = of_nat (m div 2)"
    "m \<le> 5 \<longrightarrow> alternating_switches s = of_nat (m - 1)" "alternation_reported s \<longleftrightarrow> 5 \<le> m"
    using assms by (simp_all add: alternating_def)
  have pos: "0 < runnable_count s" using s(4) by simp
  have n: "next_slot s = m mod 2"
    using s(4,7) by (auto simp: next_slot_def mod_Suc_eq)
  have sl: "slot_task s (k mod 2) = k mod 2" for k
    using s(5,6) by (cases "k mod 2 = 0") (auto simp: mod_2_eq_odd)
  note step = interrupt_step [OF s(1,2) pos, of app_entry frame]
  note alt = interrupt_alternation [OF s(1,2) pos, of app_entry frame]
  have pair: "switches_pair (case current_slot s of None \<Rightarrow> 0 | Some c \<Rightarrow> of_nat (slot_task s c) + 1)
      (of_nat (slot_task s (next_slot s)) + 1) \<longleftrightarrow> 0 < m"
    unfolding n s(7) by (cases "m = 0"; cases "odd m") (use s(5,6) in \<open>auto simp: sl switches_pair_def mod_2_eq_odd\<close>)
  have "sched_wf ?s"
    using same_schedule_wf [of s ?s] s(1,4) step n by simp
  moreover have "slot_task ?s = slot_task s"
    using step by (simp add: same_schedule_def slot_task_def fun_eq_iff)
  moreover have "run_count (tasks ?s ! 0) = of_nat ((Suc m + 1) div 2)" "run_count (tasks ?s ! 1) = of_nat (Suc m div 2)"
    using step s(8,9) sl [of m] unfolding n by (cases "odd m"; simp add: TASK_MAX_TASKS_def mod_2_eq_odd)+
  moreover have "Suc m \<le> 5 \<longrightarrow> alternating_switches ?s = of_nat (Suc m - 1)"
    using s(10) unfolding alt(1) pair by (cases m) auto
  moreover have "alternation_reported ?s \<longleftrightarrow> 5 \<le> Suc m"
  proof (cases "5 \<le> m")
    case False
    then have "m = 0 \<or> m = 1 \<or> m = 2 \<or> m = 3 \<or> m = 4" by presburger
    then show ?thesis
      using s(10,11) unfolding alt(2) pair by (elim disjE) (auto simp: SCHED_ALT_SWITCH_TARGET_def word_le_nat_alt)
  qed (use s(11) alt(2) in simp)
  ultimately show ?thesis
    using step s n by (simp add: alternating_def same_schedule_def)
qed

definition demo_sched :: sched_state where
  "demo_sched = booted \<lparr> uart_rx = [], uart_tx = [] \<rparr>"

lemma demo_sched: "sched_wf demo_sched" "scheduler_running demo_sched" "runnable_count demo_sched = 2"
    "next_slot demo_sched = 0" "slot_task demo_sched 1 = 1" "run_count (tasks demo_sched ! 1) = 0"
  using booted_alternating [of "\<lparr> uart_rx = [], uart_tx = [] \<rparr>"]
  by (simp_all add: demo_sched_def alternating_def next_slot_def)

theorem scheduler_fair_witness:
  "run_count (tasks (timer_interrupts (\<lambda>_ _ u. u) [None, None, None, None] demo_sched) ! 1) = 2"
proof -
  have "{i. i < Suc (Suc (Suc (Suc 0))) \<and> i mod 2 = Suc 0} = {1, 3}"
    by (rule set_eqI) (simp, presburger)
  then have "card {i. i < Suc (Suc (Suc (Suc 0))) \<and> i mod 2 = Suc 0} = 2" by simp
  moreover have "1 < runnable_count demo_sched"
    by (simp add: demo_sched)
  ultimately show ?thesis
    using scheduler_fair [OF demo_sched(1,2), of "\<lambda>_ _ u. u" "[None, None, None, None]",
        THEN conjunct2, THEN conjunct2, THEN conjunct2, rule_format, of 1] demo_sched
    by simp
qed

end
