(* ===== verification/Trap.thy ===== *)
theory Trap
  imports Sched
begin

unbundle bit_operations_syntax

text \<open>
  The periodic clock (\<open>kernel/clock.c\<close>) and the trap handler (\<open>kernel/trap.c\<close>). The time counter
  and the compare register belong to the machine: the time read is an argument, the deadline
  programmed last is a field. A trap the handler does not know halts the machine, \<open>Inl\<close>. The
  trap entry code, which fills the frame, is assembler.
\<close>

subsection \<open>The clock\<close>

definition CLOCK_INTERVAL_TICKS :: u64 where "CLOCK_INTERVAL_TICKS = 1000000"
definition CLOCK_LOG_LIMIT :: u32 where "CLOCK_LOG_LIMIT = 4"

record clock_state =
  tick_count :: u64
  next_deadline :: u64
  tick_log_count :: u32
  timer_deadline :: u64
  timer_enabled :: bool

definition clock_program_deadline :: "u64 \<Rightarrow> clock_state \<Rightarrow> clock_state" where
  "clock_program_deadline now c =
     (let c = (if next_deadline c \<le> now
               then let missed = (now - next_deadline c) div CLOCK_INTERVAL_TICKS + 1
                    in c \<lparr> next_deadline := next_deadline c + missed * CLOCK_INTERVAL_TICKS \<rparr>
               else c)
      in c \<lparr> timer_deadline := next_deadline c \<rparr>)"

definition clock_init :: "u64 \<Rightarrow> clock_state \<Rightarrow> clock_state" where
  "clock_init now c =
     (let c = c \<lparr> tick_count := 0, tick_log_count := 0, next_deadline := now + CLOCK_INTERVAL_TICKS \<rparr>
      in c \<lparr> timer_deadline := next_deadline c, timer_enabled := True \<rparr>)"

definition clock_handle_timer_interrupt :: "u64 \<Rightarrow> clock_state \<Rightarrow> uart_state \<Rightarrow> clock_state \<times> uart_state" where
  "clock_handle_timer_interrupt now c u =
     (let c = c \<lparr> tick_count := tick_count c + 1 \<rparr>;
          c = c \<lparr> next_deadline := next_deadline c + CLOCK_INTERVAL_TICKS \<rparr>;
          c = clock_program_deadline now c
      in if tick_log_count c < CLOCK_LOG_LIMIT
         then (c \<lparr> tick_log_count := tick_log_count c + 1 \<rparr>,
               console_write (''TICK: periodic interrupt'' @ [newline]) u)
         else (c, u))"

definition clock_ticks :: "clock_state \<Rightarrow> u64" where
  "clock_ticks c = tick_count c"

subsection \<open>The trap handler\<close>

definition MCAUSE_INTERRUPT_BIT :: u64 where "MCAUSE_INTERRUPT_BIT = push_bit 63 1"
definition MCAUSE_CODE_MASK :: u64 where "MCAUSE_CODE_MASK = MCAUSE_INTERRUPT_BIT - 1"
definition MCAUSE_INTERRUPT_SUPERVISOR_TIMER :: u64 where "MCAUSE_INTERRUPT_SUPERVISOR_TIMER = 5"
definition MCAUSE_INTERRUPT_MACHINE_TIMER :: u64 where "MCAUSE_INTERRUPT_MACHINE_TIMER = 7"
definition MCAUSE_EXCEPTION_BREAKPOINT :: u64 where "MCAUSE_EXCEPTION_BREAKPOINT = 3"

text \<open>The kernel's state as the handler sees it; the UART is the scheduler's.\<close>

record kernel_state =
  k_clock :: clock_state
  k_sched :: sched_state
  trap_test_armed :: bool
  trap_test_passed :: bool
  stvec :: u64

text \<open>What the handler needs of the machine: the time, the code memory and the applications' tasks.\<close>

record machine =
  m_now :: u64
  m_fetch :: "u64 \<Rightarrow> u16"
  m_app_entry :: "nat \<Rightarrow> task_control_block \<Rightarrow> uart_state \<Rightarrow> uart_state"

text \<open>The address of the trap entry code is an argument.\<close>

definition trap_init :: "u64 \<Rightarrow> kernel_state \<Rightarrow> kernel_state" where
  "trap_init trap_vector k = k \<lparr> stvec := trap_vector AND NOT 3 \<rparr>"

definition trap_print :: "string \<Rightarrow> kernel_state \<Rightarrow> kernel_state" where
  "trap_print str k = k \<lparr> k_sched := sched_print str (k_sched k) \<rparr>"

definition trap_is_interrupt :: "u64 \<Rightarrow> bool" where
  "trap_is_interrupt cause \<longleftrightarrow> cause AND MCAUSE_INTERRUPT_BIT \<noteq> 0"

definition trap_cause_code :: "u64 \<Rightarrow> u64" where
  "trap_cause_code cause = cause AND MCAUSE_CODE_MASK"

definition console_hex_u64 :: "u64 \<Rightarrow> string" where
  "console_hex_u64 value =
     ''0x'' @ map (\<lambda>i. ''0123456789abcdef'' ! unat (drop_bit ((15 - i) * 4) value AND 0xf)) [0..<16]"

definition trap_instruction_len :: "machine \<Rightarrow> u64 \<Rightarrow> u64" where
  "trap_instruction_len m pc = (if m_fetch m pc AND 3 = 3 then 4 else 2)"

definition trap_dispatch_exception ::
  "machine \<Rightarrow> trap_frame \<Rightarrow> u64 \<Rightarrow> kernel_state \<Rightarrow> (trap_frame \<times> kernel_state) option" where
  "trap_dispatch_exception m frame code k =
     (if code = MCAUSE_EXCEPTION_BREAKPOINT then
        if \<not> trap_test_armed k then None
        else
          let k = k \<lparr> trap_test_armed := False, trap_test_passed := True \<rparr>;
              k = trap_print (''TRAP_TEST: mcause='' @ console_hex_u64 (tf_mcause frame) @ '' mepc='' @
                              console_hex_u64 (tf_mepc frame) @ [newline]) k
          in Some (frame \<lparr> tf_mepc := tf_mepc frame + trap_instruction_len m (tf_mepc frame) \<rparr>, k)
      else None)"

definition trap_dispatch_interrupt ::
  "machine \<Rightarrow> trap_frame \<Rightarrow> u64 \<Rightarrow> kernel_state \<Rightarrow> kernel_state option" where
  "trap_dispatch_interrupt m frame code k =
     (if code = MCAUSE_INTERRUPT_SUPERVISOR_TIMER \<or> code = MCAUSE_INTERRUPT_MACHINE_TIMER then
        let (c, u) = clock_handle_timer_interrupt (m_now m) (k_clock k) (sched_uart (k_sched k));
            s = sched_handle_timer_interrupt (m_app_entry m) (Some frame) ((k_sched k) \<lparr> sched_uart := u \<rparr>)
        in Some (k \<lparr> k_clock := c, k_sched := s \<rparr>)
      else None)"

text \<open>\<open>Inl k\<close>: the handler reports an unexpected trap and halts in state \<open>k\<close>.\<close>

definition trap_handle ::
  "machine \<Rightarrow> trap_frame \<Rightarrow> kernel_state \<Rightarrow> kernel_state + (trap_frame \<times> kernel_state)" where
  "trap_handle m frame k =
     (let cause = tf_mcause frame; code = trap_cause_code cause; is_interrupt = trap_is_interrupt cause;
          unexpected = Inl (trap_print (''TRAP: unexpected mcause='' @ console_hex_u64 (tf_mcause frame) @
            '' mepc='' @ console_hex_u64 (tf_mepc frame) @ '' mtval='' @ console_hex_u64 (tf_mtval frame) @
            [newline]) k)
      in if is_interrupt then
           (case trap_dispatch_interrupt m frame code k of None \<Rightarrow> unexpected | Some k \<Rightarrow> Inr (frame, k))
         else
           (case trap_dispatch_exception m frame code k of None \<Rightarrow> unexpected | Some r \<Rightarrow> Inr r))"

text \<open>
  The self test. Its \<open>ebreak\<close> enters the handler with the frame that the entry code has saved,
  an argument here.
\<close>

definition trap_test_trigger ::
  "machine \<Rightarrow> trap_frame \<Rightarrow> kernel_state \<Rightarrow> kernel_state + kernel_state" where
  "trap_test_trigger m saved k =
     (let k = k \<lparr> trap_test_armed := True, trap_test_passed := False \<rparr>;
          k = trap_print (''TRAP_TEST: trigger'' @ [newline]) k
      in case trap_handle m saved k of
           Inl k \<Rightarrow> Inl k
         | Inr (_, k) \<Rightarrow>
             if trap_test_passed k then Inr (trap_print (''TRAP_TEST: handled'' @ [newline]) k)
             else Inl (trap_print (''TRAP_TEST: failed'' @ [newline]) k))"

subsection \<open>The deadline grid\<close>

lemma interval_nat: "unat CLOCK_INTERVAL_TICKS = 1000000"
  by (simp add: CLOCK_INTERVAL_TICKS_def)

lemma unat_add64: "unat (x :: u64) + unat y < 2 ^ 64 \<Longrightarrow> unat (x + y) = unat x + unat y"
  by (simp add: unat_word_ariths)

lemma unat_mult64: "unat (x :: u64) * unat y < 2 ^ 64 \<Longrightarrow> unat (x * y) = unat x * unat y"
  by (simp add: unat_word_ariths)

lemma next_deadline_nat:
  assumes "unat (next_deadline c) + 1000000 \<le> bound" "unat now \<le> bound" "bound + 1000000 < 2 ^ 64"
  shows "unat (next_deadline (fst (clock_handle_timer_interrupt now c u))) =
    (let d = unat (next_deadline c) + 1000000 in
     if d \<le> unat now then d + ((unat now - d) div 1000000 + 1) * 1000000 else d)"
proof -
  define dl where "dl = next_deadline c + CLOCK_INTERVAL_TICKS"
  have dl: "unat dl = unat (next_deadline c) + 1000000"
    using assms unat_add64 [of "next_deadline c" CLOCK_INTERVAL_TICKS] by (simp add: dl_def interval_nat)
  have r: "next_deadline (fst (clock_handle_timer_interrupt now c u)) =
      (if dl \<le> now then dl + ((now - dl) div CLOCK_INTERVAL_TICKS + 1) * CLOCK_INTERVAL_TICKS else dl)"
    by (simp add: clock_handle_timer_interrupt_def clock_program_deadline_def Let_def dl_def)
  show ?thesis
  proof (cases "dl \<le> now")
    case False
    then show ?thesis
      by (simp add: r dl Let_def word_le_nat_alt)
  next
    case True
    define q where "q = (now - dl) div CLOCK_INTERVAL_TICKS"
    have "unat (now - dl) = unat now - unat dl"
      using True by (rule unat_sub)
    then have q: "unat q = (unat now - unat dl) div 1000000"
      by (simp add: q_def unat_div interval_nat)
    have qb: "unat q * 1000000 \<le> unat now - unat dl"
      unfolding q by simp
    have q1: "unat (q + 1) = unat q + 1"
      using qb assms by (subst unat_add64) simp_all
    have qi: "unat ((q + 1) * CLOCK_INTERVAL_TICKS) = (unat q + 1) * 1000000"
      using qb assms by (subst unat_mult64) (simp_all add: q1 interval_nat)
    have "unat (dl + (q + 1) * CLOCK_INTERVAL_TICKS) = unat dl + (unat q + 1) * 1000000"
      using qb assms True by (subst unat_add64) (simp_all add: qi word_le_nat_alt)
    then show ?thesis
      using True by (simp add: r dl Let_def word_le_nat_alt q_def [symmetric] q)
  qed
qed

definition clock_run :: "u64 list \<Rightarrow> clock_state \<times> uart_state \<Rightarrow> clock_state \<times> uart_state" where
  "clock_run = fold (\<lambda>now (c, u). clock_handle_timer_interrupt now c u)"

text \<open>
  C39: The clock does not drift and does not stall. After any number of timer interrupts, early, late
  or with periods missed, the tick count is the number of interrupts, and the programmed deadline is in
  the future of the last one and a whole number of periods after the first time read: as long as the
  64-bit time does not overflow.
\<close>

theorem clock_no_drift:
  assumes "unat now0 \<le> bound" "\<forall>now \<in> set nows. unat now \<le> bound"
    and "bound + (length nows + 2) * 1000000 < 2 ^ 64"
  shows "case clock_run nows (clock_init now0 c0, u0) of (c, u) \<Rightarrow>
    clock_ticks c = of_nat (length nows) \<and> timer_deadline c = next_deadline c \<and> timer_enabled c \<and>
    unat (last (now0 # nows)) < unat (next_deadline c) \<and>
    (\<exists>k. unat (next_deadline c) = unat now0 + k * 1000000)"
proof -
  have "case clock_run nows (clock_init now0 c0, u0) of (c, u) \<Rightarrow>
    clock_ticks c = of_nat (length nows) \<and> timer_deadline c = next_deadline c \<and> timer_enabled c \<and>
    unat (last (now0 # nows)) < unat (next_deadline c) \<and>
    unat (next_deadline c) \<le> bound + (length nows + 1) * 1000000 \<and>
    (\<exists>k. unat (next_deadline c) = unat now0 + k * 1000000)"
    using assms
  proof (induction nows rule: rev_induct)
    case Nil
    then have "unat (now0 + CLOCK_INTERVAL_TICKS) = unat now0 + 1 * 1000000"
      by (subst unat_add64) (simp_all add: interval_nat)
    then show ?case
      using Nil unfolding clock_run_def
      by (auto simp: clock_init_def clock_ticks_def intro!: exI [of _ 1])
  next
    case (snoc now nows)
    obtain c u where cu: "clock_run nows (clock_init now0 c0, u0) = (c, u)" by force
    obtain k where c: "clock_ticks c = of_nat (length nows)" "timer_enabled c"
      "unat (next_deadline c) \<le> bound + (length nows + 1) * 1000000" "unat (next_deadline c) = unat now0 + k * 1000000"
      using snoc cu by auto
    define d where "d = unat (next_deadline c) + 1000000"
    define c' where "c' = fst (clock_handle_timer_interrupt now c u)"
    have run: "clock_run (nows @ [now]) (clock_init now0 c0, u0) = (c', snd (clock_handle_timer_interrupt now c u))"
      using cu by (simp add: clock_run_def c'_def)
    have "unat (next_deadline c') = (if d \<le> unat now then d + ((unat now - d) div 1000000 + 1) * 1000000 else d)"
      using next_deadline_nat [of c "bound + (length nows + 2) * 1000000" now u] snoc.prems c(3)
      by (simp add: c'_def d_def Let_def)
    moreover define q where "q = (unat now - d) div 1000000"
    ultimately have e: "unat (next_deadline c') = (if d \<le> unat now then d + (q + 1) * 1000000 else d)"
      by simp
    have q: "q * 1000000 \<le> unat now - d" "unat now - d < 1000000 + q * 1000000"
      unfolding q_def by (rule div_times_less_eq_dividend) (rule dividend_less_div_times, simp)
    have nd: "unat now < unat (next_deadline c')"
      "unat (next_deadline c') \<le> bound + (length (nows @ [now]) + 1) * 1000000"
      using e q c(3) snoc.prems by (auto simp: d_def split: if_splits)
    have "unat (next_deadline c') = unat now0 + (if d \<le> unat now then k + q + 2 else k + 1) * 1000000"
      using e c(4) by (simp add: d_def)
    then have grid: "\<exists>k. unat (next_deadline c') = unat now0 + k * 1000000"
      by blast
    have "clock_ticks c' = of_nat (length (nows @ [now]))" "timer_deadline c' = next_deadline c'" "timer_enabled c'"
      using c by (simp_all add: c'_def clock_ticks_def clock_handle_timer_interrupt_def clock_program_deadline_def Let_def)
    then show ?case
      using nd grid by (simp add: run)
  qed
  then show ?thesis by (auto split: prod.splits)
qed

theorem clock_no_drift_witness:
  "\<exists>k. unat (next_deadline (fst (clock_run [1500000, 7000000] (clock_init 7
     \<lparr> tick_count = 5, next_deadline = 0, tick_log_count = 0, timer_deadline = 0, timer_enabled = False \<rparr>,
     \<lparr> uart_rx = [], uart_tx = [] \<rparr>)))) = 7 + k * 1000000"
  using clock_no_drift [of 7 7000000 "[1500000, 7000000]"
      "\<lparr> tick_count = 5, next_deadline = 0, tick_log_count = 0, timer_deadline = 0, timer_enabled = False \<rparr>"
      "\<lparr> uart_rx = [], uart_tx = [] \<rparr>"]
  by (simp add: split_beta)

subsection \<open>Timer traps\<close>

definition timer_cause :: "u64 \<Rightarrow> bool" where
  "timer_cause cause \<longleftrightarrow> cause = 0x8000000000000005 \<or> cause = 0x8000000000000007"

lemma cause_split:
  "trap_is_interrupt cause \<longleftrightarrow> bit cause 63" "trap_cause_code cause = unset_bit 63 cause"
proof -
  have m: "MCAUSE_INTERRUPT_BIT = 2 ^ 63" "MCAUSE_CODE_MASK = mask 63"
    by (simp_all add: MCAUSE_INTERRUPT_BIT_def MCAUSE_CODE_MASK_def push_bit_eq_mult mask_eq_exp_minus_1)
  show "trap_is_interrupt cause \<longleftrightarrow> bit cause 63"
    unfolding trap_is_interrupt_def m using and_exp_eq_0_iff_not_bit [of cause 63] by simp
  have "take_bit 63 cause = unset_bit 63 cause"
    by (rule bit_eqI) (auto simp: bit_take_bit_iff bit_unset_bit_iff less_Suc_eq dest: bit_imp_le_length)
  then show "trap_cause_code cause = unset_bit 63 cause"
    unfolding trap_cause_code_def m by (simp add: take_bit_eq_mask)
qed

lemma bit63_cases:
  "\<not> bit k 63 \<Longrightarrow> bit cause 63 \<and> unset_bit 63 cause = k \<longleftrightarrow> (cause :: u64) = set_bit 63 k"
  unfolding bit_eq_iff [where 'a = "64 word"] by (auto simp: bit_unset_bit_iff bit_set_bit_iff)

lemma timer_cause_iff:
  "timer_cause cause \<longleftrightarrow> trap_is_interrupt cause \<and>
     (trap_cause_code cause = MCAUSE_INTERRUPT_SUPERVISOR_TIMER \<or> trap_cause_code cause = MCAUSE_INTERRUPT_MACHINE_TIMER)"
proof -
  have "\<not> bit (5 :: u64) 63" "\<not> bit (7 :: u64) 63"
    by simp_all
  then show ?thesis
    using bit63_cases [of 5 cause] bit63_cases [of 7 cause]
    unfolding timer_cause_def cause_split MCAUSE_INTERRUPT_SUPERVISOR_TIMER_def MCAUSE_INTERRUPT_MACHINE_TIMER_def
    by (auto simp: set_bit_eq_or)
qed

lemma breakpoint_iff:
  "\<not> trap_is_interrupt cause \<and> trap_cause_code cause = MCAUSE_EXCEPTION_BREAKPOINT \<longleftrightarrow> cause = 3"
proof -
  have "\<not> bit cause 63 \<Longrightarrow> unset_bit 63 cause = cause"
    by (rule bit_eqI) (auto simp: bit_unset_bit_iff)
  then show ?thesis
    unfolding cause_split MCAUSE_EXCEPTION_BREAKPOINT_def by auto
qed

text \<open>
  The trap handler decides as documented by its causes: a supervisor or machine timer interrupt runs
  the clock and then the scheduler and returns to the same place; a breakpoint, when the self test
  waits for it, is reported and skipped by the length of the instruction; every other trap is
  reported as unexpected and halts the machine with clock and scheduler untouched.
\<close>

theorem trap_handle_spec:
  "trap_handle m f k =
    (if timer_cause (tf_mcause f) then
       let (c, u) = clock_handle_timer_interrupt (m_now m) (k_clock k) (sched_uart (k_sched k)) in
       Inr (f, k \<lparr> k_clock := c, k_sched := sched_handle_timer_interrupt (m_app_entry m) (Some f)
         ((k_sched k) \<lparr> sched_uart := u \<rparr>) \<rparr>)
     else if tf_mcause f = 3 \<and> trap_test_armed k then
       Inr (f \<lparr> tf_mepc := tf_mepc f + (if m_fetch m (tf_mepc f) AND 3 = 3 then 4 else 2) \<rparr>,
         trap_print (''TRAP_TEST: mcause='' @ console_hex_u64 3 @ '' mepc='' @ console_hex_u64 (tf_mepc f) @ [newline])
           (k \<lparr> trap_test_armed := False, trap_test_passed := True \<rparr>))
     else
       Inl (trap_print (''TRAP: unexpected mcause='' @ console_hex_u64 (tf_mcause f) @ '' mepc='' @
         console_hex_u64 (tf_mepc f) @ '' mtval='' @ console_hex_u64 (tf_mtval f) @ [newline]) k))"
proof -
  show ?thesis
    using timer_cause_iff [of "tf_mcause f"] breakpoint_iff [of "tf_mcause f"]
    by (auto simp: trap_handle_def trap_dispatch_interrupt_def trap_dispatch_exception_def trap_instruction_len_def
        Let_def split: prod.splits)
qed

fun trap_run :: "(machine \<times> trap_frame) list \<Rightarrow> kernel_state \<Rightarrow> kernel_state + kernel_state" where
  "trap_run [] k = Inr k"
| "trap_run ((m, f) # ts) k =
     (case trap_handle m f k of Inl k \<Rightarrow> Inl k | Inr (_, k) \<Rightarrow> trap_run ts k)"

lemma alternating_uart [simp]: "alternating n (s \<lparr> sched_uart := u \<rparr>) = alternating n s"
proof -
  have "slot_task (s \<lparr> sched_uart := u \<rparr>) = slot_task s"
    by (simp add: slot_task_def fun_eq_iff)
  then show ?thesis
    by (simp add: alternating_def sched_wf_def)
qed

lemma trap_timer_step:
  assumes "timer_cause (tf_mcause f)" "alternating n (k_sched k)"
  shows "\<exists>k'. trap_handle m f k = Inr (f, k') \<and> alternating (Suc n) (k_sched k') \<and>
    clock_ticks (k_clock k') = clock_ticks (k_clock k) + 1"
proof -
  obtain c u where cu: "clock_handle_timer_interrupt (m_now m) (k_clock k) (sched_uart (k_sched k)) = (c, u)" by force
  then have "clock_ticks c = clock_ticks (k_clock k) + 1"
    by (auto simp: clock_handle_timer_interrupt_def clock_ticks_def clock_program_deadline_def Let_def split: if_splits)
  moreover have "alternating (Suc n) (sched_handle_timer_interrupt (m_app_entry m) (Some f) ((k_sched k) \<lparr> sched_uart := u \<rparr>))"
    using assms(2) by (intro alternating_step) simp
  ultimately show ?thesis
    using assms(1) cu by (simp add: trap_handle_spec)
qed

text \<open>
  C28: Timer interrupts drive the whole kernel. After the scheduler has set up its test tasks, any number
  \<open>n\<close> of timer traps, at whatever times and from whatever code, is handled: the clock
  advances by \<open>n\<close>, the two tasks strictly alternate, the first running \<open>\<lceil>n/2\<rceil>\<close> and the second
  \<open>\<lfloor>n/2\<rfloor>\<close> times, and alternation is reported from the fifth interrupt on, never before.
\<close>

theorem timer_traps_alternate:
  assumes "\<not> bootstrapped s" "k_sched k = sched_bootstrap_test_tasks s" "\<forall>(m, f) \<in> set ts. timer_cause (tf_mcause f)"
  shows "\<exists>k'. trap_run ts k = Inr k' \<and> clock_ticks (k_clock k') = clock_ticks (k_clock k) + of_nat (length ts) \<and>
    sched_runnable_count (k_sched k') = 2 \<and>
    run_count (tasks (k_sched k') ! 0) = of_nat ((length ts + 1) div 2) \<and>
    run_count (tasks (k_sched k') ! 1) = of_nat (length ts div 2) \<and>
    (alternation_reported (k_sched k') \<longleftrightarrow> 5 \<le> length ts)"
proof -
  have "\<exists>k'. trap_run ts k = Inr k' \<and> clock_ticks (k_clock k') = clock_ticks (k_clock k) + of_nat (length ts) \<and>
      alternating (n + length ts) (k_sched k')"
    if "alternating n (k_sched k)" for n
    using assms(3) that
  proof (induction ts arbitrary: k n)
    case (Cons t ts)
    obtain m f where t: "t = (m, f)" by force
    obtain k1 where k1: "trap_handle m f k = Inr (f, k1)" "alternating (Suc n) (k_sched k1)"
      "clock_ticks (k_clock k1) = clock_ticks (k_clock k) + 1"
      using trap_timer_step [of f n k m] Cons.prems t by auto
    obtain k' where "trap_run ts k1 = Inr k'" "alternating (Suc n + length ts) (k_sched k')"
      "clock_ticks (k_clock k') = clock_ticks (k_clock k1) + of_nat (length ts)"
      using Cons.IH [OF _ k1(2)] Cons.prems(1) by auto
    then show ?case
      by (simp add: t k1 add.assoc)
  qed auto
  moreover obtain u where "sched_bootstrap_test_tasks s = booted u"
    using bootstrap_state [OF assms(1)] by blast
  ultimately show ?thesis
    using booted_alternating [of u] assms(2) unfolding sched_runnable_count_def
    by (fastforce simp: alternating_def [of "length ts"])
qed

definition demo_machine :: machine where
  "demo_machine = \<lparr> m_now = 100, m_fetch = (\<lambda>_. 0), m_app_entry = (\<lambda>_ _ u. u) \<rparr>"

definition demo_trap :: trap_frame where
  "demo_trap =
     \<lparr> tf_ra = 0, tf_sp = 0, tf_gp = 0, tf_tp = 0, tf_t0 = 0, tf_t1 = 0, tf_t2 = 0, tf_s0 = 0, tf_s1 = 0,
       tf_a0 = 0, tf_a1 = 0, tf_a2 = 0, tf_a3 = 0, tf_a4 = 0, tf_a5 = 0, tf_a6 = 0, tf_a7 = 0, tf_s2 = 0,
       tf_s3 = 0, tf_s4 = 0, tf_s5 = 0, tf_s6 = 0, tf_s7 = 0, tf_s8 = 0, tf_s9 = 0, tf_s10 = 0, tf_s11 = 0,
       tf_t3 = 0, tf_t4 = 0, tf_t5 = 0, tf_t6 = 0, tf_mstatus = 0, tf_mepc = 64, tf_mcause = 0x8000000000000005, tf_mtval = 0, tf_reserved = 0 \<rparr>"

theorem timer_traps_alternate_witness:
  "\<exists>k'. trap_run (replicate 6 (demo_machine, demo_trap))
      \<lparr> k_clock = \<lparr> tick_count = 40, next_deadline = 0, tick_log_count = 0, timer_deadline = 0, timer_enabled = True \<rparr>,
        k_sched = sched_bootstrap_test_tasks (demo_sched \<lparr> bootstrapped := False \<rparr>),
        trap_test_armed = False, trap_test_passed = False, stvec = 0 \<rparr> = Inr k' \<and>
    clock_ticks (k_clock k') = 46 \<and> run_count (tasks (k_sched k') ! 1) = 3"
proof -
  have "\<forall>(m, f) \<in> set (replicate 6 (demo_machine, demo_trap)). timer_cause (tf_mcause f)"
    by (simp add: timer_cause_def demo_trap_def)
  from timer_traps_alternate [OF _ _ this, of "demo_sched \<lparr> bootstrapped := False \<rparr>"
      "\<lparr> k_clock = \<lparr> tick_count = 40, next_deadline = 0, tick_log_count = 0, timer_deadline = 0, timer_enabled = True \<rparr>,
        k_sched = sched_bootstrap_test_tasks (demo_sched \<lparr> bootstrapped := False \<rparr>),
        trap_test_armed = False, trap_test_passed = False, stvec = 0 \<rparr>"]
  show ?thesis by (auto simp: clock_ticks_def)
qed

end
