(* ===== verification/AppWindow.thy ===== *)
theory AppWindow
  imports Drag Sched
begin

text \<open>
  Application windows (\<open>apps/libapp/app_window.c\<close>): opening a window for a task and handing the
  mouse events of the window manager to the application's handler. The window is the first
  member of the \<open>app_window_t\<close>, so both have the same reference. Handlers are applications' code,
  named by a number and run by the parameter \<open>run_handler\<close> on the applications' data \<open>'u\<close>.
  The receivers' world of the dragging theory is here the table of this file with that data.
\<close>

datatype app_window_event_type =
  APP_WINDOW_EVENT_MOVE | APP_WINDOW_EVENT_POINTER_DOWN | APP_WINDOW_EVENT_POINTER_UP | APP_WINDOW_EVENT_DRAG

record app_window_event =
  ae_type :: app_window_event_type
  ae_input :: input_event

record app_window_desc =
  desc_title :: "string option"
  desc_x :: u32
  desc_y :: u32
  desc_width :: u32
  desc_height :: u32

record app_window =
  aw_owner_task :: "nat option"
  aw_on_event :: "nat option"
  aw_user_ctx :: nat

record app_window_binding =
  ab_task_id :: u32
  ab_app_window :: "win_ref option"

record 'u app_world =
  app_bindings :: "app_window_binding list"
  app_binding_count :: nat
  app_windows :: "win_ref \<Rightarrow> app_window"
  app_user :: 'u

type_synonym 'u run_handler = "nat \<Rightarrow> win_ref \<Rightarrow> app_window_event \<Rightarrow> nat \<Rightarrow> 'u \<Rightarrow> 'u"

definition app_find_binding :: "'u app_world \<Rightarrow> u32 \<Rightarrow> nat option" where
  "app_find_binding w ident =
     (if ident = 0 then None
      else find_index (\<lambda>i. ab_task_id (app_bindings w ! i) = ident) (app_binding_count w))"

definition app_window_event_map :: "wm_dispatch_event_type \<Rightarrow> app_window_event_type" where
  "app_window_event_map dispatch_type =
     (case dispatch_type of
        WM_DISPATCH_CLICK_DOWN \<Rightarrow> APP_WINDOW_EVENT_POINTER_DOWN
      | WM_DISPATCH_CLICK_UP \<Rightarrow> APP_WINDOW_EVENT_POINTER_UP
      | WM_DISPATCH_DRAG \<Rightarrow> APP_WINDOW_EVENT_DRAG
      | WM_DISPATCH_MOVE \<Rightarrow> APP_WINDOW_EVENT_MOVE)"

definition app_window_dispatch_cb :: "'u run_handler \<Rightarrow> 'u app_world dispatch_fn" where
  "app_window_dispatch_cb run_handler ident dispatch_type event w =
     (case app_find_binding w ident of
        None \<Rightarrow> w
      | Some i \<Rightarrow>
          (case ab_app_window (app_bindings w ! i) of
             None \<Rightarrow> w
           | Some a \<Rightarrow>
               (case aw_on_event (app_windows w a) of
                  None \<Rightarrow> w
                | Some h \<Rightarrow>
                    let app_event = \<lparr> ae_type = app_window_event_map dispatch_type, ae_input = event \<rparr>
                    in w \<lparr> app_user := run_handler h a app_event (aw_user_ctx (app_windows w a)) (app_user w) \<rparr>)))"

definition app_window_reset :: "'u run_handler \<Rightarrow> 'u app_world desktop \<Rightarrow> 'u app_world desktop" where
  "app_window_reset run_handler s =
     s \<lparr> desk_world := (desk_world s)
           \<lparr> app_binding_count := 0,
             app_bindings := replicate WM_MAX_WINDOWS \<lparr> ab_task_id = 0, ab_app_window = None \<rparr> \<rparr>,
         desk_drag := wm_drag_set_dispatch (wm_drag_reset (desk_drag s))
           (Some (app_window_dispatch_cb run_handler)) \<rparr>"

text \<open>The end of \<open>app_window_open\<close>: the entry of the task in the binding table.\<close>

definition app_bind :: "'u app_world \<Rightarrow> u32 \<Rightarrow> win_ref \<Rightarrow> (int \<times> 'u app_world)" where
  "app_bind w ident a =
     (case app_find_binding w ident of
        Some i \<Rightarrow> (0, w \<lparr> app_bindings := (app_bindings w) [i := (app_bindings w ! i) \<lparr> ab_app_window := Some a \<rparr>] \<rparr>)
      | None \<Rightarrow>
          if app_binding_count w \<ge> WM_MAX_WINDOWS then (- 1, w)
          else (0, w \<lparr> app_bindings := (app_bindings w)
                          [app_binding_count w := \<lparr> ab_task_id = ident, ab_app_window = Some a \<rparr>],
                       app_binding_count := app_binding_count w + 1 \<rparr>))"

definition app_window_open ::
  "task_table \<Rightarrow> win_ref option \<Rightarrow> app_window_desc option \<Rightarrow> nat option \<Rightarrow> nat option \<Rightarrow> nat \<Rightarrow>
   'u app_world desktop \<Rightarrow> int \<times> 'u app_world desktop" where
  "app_window_open table app_window desc owner_task on_event user_ctx s =
     (case (app_window, desc, owner_task, on_event) of
        (Some a, Some d, Some t, Some h) \<Rightarrow>
          if task_id (table ! t) = 0 then (- 1, s)
          else
            let ident = task_id (table ! t);
                s = s \<lparr> desk_heap := (desk_heap s)(a := wm_window_init (desc_title d) (desc_x d) (desc_y d)
                          (desc_width d) (desc_height d)),
                        desk_world := (desk_world s) \<lparr> app_windows := (app_windows (desk_world s))
                          (a := \<lparr> aw_owner_task = Some t, aw_on_event = Some h, aw_user_ctx = user_ctx \<rparr>) \<rparr> \<rparr>;
                (r, wm) = wm_compositor_add_window (desk_heap s) (desk_wm s) (Some a);
                s = s \<lparr> desk_wm := wm \<rparr>
            in if r \<noteq> 0 then (- 1, s)
               else
                 let (r, d) = wm_drag_register_window (desk_drag s) (Some a) ident;
                     s = s \<lparr> desk_drag := d \<rparr>
                 in if r \<noteq> 0 then (- 1, s)
                    else let (r, w) = app_bind (desk_world s) ident a in (r, s \<lparr> desk_world := w \<rparr>)
      | _ \<Rightarrow> (- 1, s))"

definition app_window_dispatch_pending ::
  "input_event_queue \<Rightarrow> 'u app_world desktop \<Rightarrow> (nat \<times> input_event_queue \<times> 'u app_world desktop) option" where
  "app_window_dispatch_pending q s = wm_drag_dispatch_pending q s"

definition app_window_native :: "win_ref option \<Rightarrow> win_ptr" where
  "app_window_native app_window = (case app_window of None \<Rightarrow> None | Some a \<Rightarrow> Some a)"

subsection \<open>Contract\<close>

definition app_world_wf :: "nat \<Rightarrow> 'u app_world \<Rightarrow> bool" where
  "app_world_wf registered w \<longleftrightarrow> length (app_bindings w) = WM_MAX_WINDOWS \<and>
     app_binding_count w \<le> registered \<and> app_binding_count w \<le> WM_MAX_WINDOWS"

definition desktop_wf :: "'u app_world desktop \<Rightarrow> bool" where
  "desktop_wf s \<longleftrightarrow> wm_wf (desk_wm s) \<and> drag_wf (desk_drag s) \<and>
     app_world_wf (drag_binding_count (desk_drag s)) (desk_world s)"

definition app_of :: "'u app_world \<Rightarrow> u32 \<Rightarrow> win_ref option" where
  "app_of w ident = Option.bind (app_find_binding w ident) (\<lambda>i. ab_app_window (app_bindings w ! i))"

lemma app_dispatch:
  "app_of w ident = Some a \<Longrightarrow> aw_on_event (app_windows w a) = Some h \<Longrightarrow>
   app_window_dispatch_cb run_handler ident k e w =
     w \<lparr> app_user := run_handler h a \<lparr> ae_type = app_window_event_map k, ae_input = e \<rparr>
           (aw_user_ctx (app_windows w a)) (app_user w) \<rparr>"
  by (auto simp: app_window_dispatch_cb_def app_of_def Let_def split: bind_splits)

lemma task_of_register:
  assumes "drag_wf d" "wm_drag_register_window d (Some a) ident = (0, d')"
  shows "task_of d' = (task_of d)(a := (case task_of d a of None \<Rightarrow> Some ident | Some t \<Rightarrow> Some t))"
    "drag_dispatch_fn d' = drag_dispatch_fn d" "drag_binding d' = drag_binding d" "drag_wf d'"
proof -
  let ?b = "\<lparr> db_window = Some a, db_task_id = ident \<rparr>" and ?n = "drag_binding_count d"
  have n: "?n < WM_MAX_WINDOWS"
    and d': "d' = d \<lparr> drag_bindings := (drag_bindings d)[?n := ?b], drag_binding_count := ?n + 1 \<rparr>"
    using assms(2) by (auto simp: wm_drag_register_window_def split: if_splits)
  have "take (?n + 1) ((drag_bindings d)[?n := ?b]) = take ?n (drag_bindings d) @ [?b]"
    using assms(1) n take_Suc_update_last [of ?n "drag_bindings d" ?b] by (simp add: drag_wf_def)
  then have "task_of d' v = (case task_of d v of None \<Rightarrow> if v = a then Some ident else None | Some t \<Rightarrow> Some t)" for v
    unfolding task_of_def d' by (auto simp: map_add_def simp del: One_nat_def split: option.splits)
  then show "task_of d' = (task_of d)(a := (case task_of d a of None \<Rightarrow> Some ident | Some t \<Rightarrow> Some t))"
    by (auto simp: fun_eq_iff split: option.splits)
  show "drag_dispatch_fn d' = drag_dispatch_fn d" "drag_binding d' = drag_binding d"
    by (simp_all add: d')
  show "drag_wf d'"
    using drag_register_wf [OF assms(1), of "Some a" ident] assms(2) by simp
qed

lemma app_bind_spec:
  assumes "app_world_wf n w" "n < WM_MAX_WINDOWS" "ident \<noteq> 0"
  shows "\<exists>w'. app_bind w ident a = (0, w') \<and> app_world_wf (n + 1) w' \<and> app_windows w' = app_windows w \<and>
    app_user w' = app_user w \<and> app_of w' = (app_of w)(ident := Some a)"
proof (cases "app_find_binding w ident")
  case None
  define w' where "w' = w \<lparr> app_bindings := (app_bindings w)
      [app_binding_count w := \<lparr> ab_task_id = ident, ab_app_window = Some a \<rparr>], app_binding_count := app_binding_count w + 1 \<rparr>"
  have c: "app_binding_count w < WM_MAX_WINDOWS" "app_binding_count w < length (app_bindings w)"
    using assms by (simp_all add: app_world_wf_def)
  have old: "find_index (\<lambda>i. ab_task_id (app_bindings w' ! i) = k) (app_binding_count w) =
      find_index (\<lambda>i. ab_task_id (app_bindings w ! i) = k) (app_binding_count w)" for k
    by (rule find_index_from_cong) (simp_all add: w'_def)
  have new: "app_find_binding w' k = (if k = ident then Some (app_binding_count w) else app_find_binding w k)" for k
  proof (cases "k = 0")
    case False
    have "app_find_binding w' k = find_index (\<lambda>i. ab_task_id (app_bindings w' ! i) = k) (Suc (app_binding_count w))"
      using False by (simp add: app_find_binding_def w'_def)
    also have "\<dots> = (case find_index (\<lambda>i. ab_task_id (app_bindings w' ! i) = k) (app_binding_count w) of
        Some i \<Rightarrow> Some i | None \<Rightarrow> if ab_task_id (app_bindings w' ! app_binding_count w) = k
          then Some (app_binding_count w) else None)"
      by (auto simp: find_index_Some find_index_None less_Suc_eq split: option.split)
    finally show ?thesis
      using False None c assms(3) unfolding old by (auto simp: app_find_binding_def w'_def split: option.splits)
  qed (use assms(3) in \<open>auto simp: app_find_binding_def\<close>)
  have below: "app_find_binding w k = Some i \<Longrightarrow> i < app_binding_count w" for k i
    by (auto simp: app_find_binding_def find_index_Some split: if_splits)
  have "app_of w' k = ((app_of w)(ident := Some a)) k" for k
    using c below [of k] unfolding app_of_def new
    by (cases "app_find_binding w k") (auto simp: w'_def app_of_def)
  then have "app_of w' = (app_of w)(ident := Some a)" by blast
  moreover have "app_bind w ident a = (0, w')"
    using None c by (simp add: app_bind_def w'_def)
  moreover have "app_world_wf (n + 1) w'"
    using assms c by (simp add: app_world_wf_def w'_def)
  ultimately show ?thesis by (auto simp: w'_def)
next
  case (Some i)
  define w' where "w' = w \<lparr> app_bindings := (app_bindings w) [i := (app_bindings w ! i) \<lparr> ab_app_window := Some a \<rparr>] \<rparr>"
  have i: "i < app_binding_count w" "ab_task_id (app_bindings w ! i) = ident" "i < length (app_bindings w)"
    using Some assms by (auto simp: app_find_binding_def find_index_Some app_world_wf_def split: if_splits)
  have f: "app_find_binding w' k = app_find_binding w k" for k
    using i(3) by (simp add: app_find_binding_def w'_def find_index_list_update)
  have ne: "j \<noteq> i" if "app_find_binding w k = Some j" "k \<noteq> ident" for k j
    using that i by (auto simp: app_find_binding_def find_index_Some split: if_splits)
  have "app_of w' k = ((app_of w)(ident := Some a)) k" for k
  proof (cases "k = ident")
    case True
    then show ?thesis using Some i by (simp add: app_of_def f) (simp add: w'_def)
  next
    case False
    then show ?thesis
      using ne [of k] by (cases "app_find_binding w k") (auto simp: app_of_def f, simp add: w'_def)
  qed
  then have "app_of w' = (app_of w)(ident := Some a)" by blast
  moreover have "app_bind w ident a = (0, w')"
    using Some by (simp add: app_bind_def w'_def)
  moreover have "app_world_wf (n + 1) w'"
    using assms by (simp add: app_world_wf_def w'_def)
  ultimately show ?thesis by (auto simp: w'_def)
qed

definition opened_heap :: "win_ref \<Rightarrow> app_window_desc \<Rightarrow> 'u app_world desktop \<Rightarrow> win_heap" where
  "opened_heap a d s = (desk_heap s)(a := wm_window_init (desc_title d) (desc_x d) (desc_y d) (desc_width d) (desc_height d))"

lemma open_spec:
  assumes "desktop_wf s" "task_id (table ! t) \<noteq> 0"
    and "app_window_open table (Some a) (Some d) (Some t) (Some h) ctx s = (r, s')"
  shows "desktop_wf s' \<and> drag_dispatch_fn (desk_drag s') = drag_dispatch_fn (desk_drag s) \<and>
    drag_binding (desk_drag s') = drag_binding (desk_drag s) \<and> desk_heap s' = opened_heap a d s \<and>
    app_windows (desk_world s') = (app_windows (desk_world s))
      (a := \<lparr> aw_owner_task = Some t, aw_on_event = Some h, aw_user_ctx = ctx \<rparr>) \<and>
    app_user (desk_world s') = app_user (desk_world s) \<and>
    (if wm_window_is_valid (Some (opened_heap a d s a)) \<and> a \<notin> set (wm_windows (desk_wm s)) \<and>
        length (wm_windows (desk_wm s)) < WM_MAX_WINDOWS \<and> drag_binding_count (desk_drag s) < WM_MAX_WINDOWS
     then r = 0 \<and> wm_windows (desk_wm s') = wm_windows (desk_wm s) @ [a] \<and> active_window (desk_wm s') = Some a \<and>
       app_of (desk_world s') = (app_of (desk_world s))(task_id (table ! t) := Some a) \<and>
       task_of (desk_drag s') = (task_of (desk_drag s))
         (a := (case task_of (desk_drag s) a of None \<Rightarrow> Some (task_id (table ! t)) | Some k \<Rightarrow> Some k))
     else r = - 1 \<and> app_of (desk_world s') = app_of (desk_world s) \<and> task_of (desk_drag s') = task_of (desk_drag s))"
proof -
  let ?id = "task_id (table ! t)"
  define w1 where "w1 = (desk_world s) \<lparr> app_windows := (app_windows (desk_world s))
    (a := \<lparr> aw_owner_task = Some t, aw_on_event = Some h, aw_user_ctx = ctx \<rparr>) \<rparr>"
  have wf: "wm_wf (desk_wm s)" "drag_wf (desk_drag s)" "app_world_wf (drag_binding_count (desk_drag s)) w1"
    "app_of w1 = app_of (desk_world s)"
    using assms(1) by (auto simp: desktop_wf_def w1_def app_world_wf_def app_of_def app_find_binding_def fun_eq_iff)
  obtain ra wm where add: "wm_compositor_add_window (opened_heap a d s) (desk_wm s) (Some a) = (ra, wm)" by force
  note cadd = add_window_wf [OF wf(1), of "opened_heap a d s" "Some a", unfolded add, simplified]
  obtain rd dr where reg: "wm_drag_register_window (desk_drag s) (Some a) ?id = (rd, dr)" by force
  have dcases: "if drag_binding_count (desk_drag s) < WM_MAX_WINDOWS then rd = 0 else rd = - 1 \<and> dr = desk_drag s"
    using reg by (auto simp: wm_drag_register_window_def split: if_splits)
  have dcount: "rd = 0 \<Longrightarrow> drag_binding_count dr = drag_binding_count (desk_drag s) + 1"
    using reg by (auto simp: wm_drag_register_window_def split: if_splits)
  note step = assms(2,3) [unfolded app_window_open_def]
  consider (bad) "ra \<noteq> 0" | (full) "ra = 0" "rd \<noteq> 0" | (ok) "ra = 0" "rd = 0" by blast
  then show ?thesis
  proof cases
    case bad
    then have "r = - 1" "s' = s \<lparr> desk_heap := opened_heap a d s, desk_world := w1 \<rparr>" "wm = desk_wm s"
      using assms(2,3) cadd add
      by (auto simp: app_window_open_def Let_def opened_heap_def w1_def split: if_splits)
    then show ?thesis
      using wf assms(1) cadd bad by (auto simp: desktop_wf_def w1_def split: if_splits)
  next
    case full
    then have "r = - 1" "s' = s \<lparr> desk_heap := opened_heap a d s, desk_world := w1, desk_wm := wm \<rparr>"
      using assms(2,3) add reg dcases
      by (auto simp: app_window_open_def Let_def opened_heap_def w1_def split: if_splits)
    then show ?thesis
      using wf assms(1) cadd full dcases by (auto simp: desktop_wf_def w1_def split: if_splits)
  next
    case ok
    have lt: "drag_binding_count (desk_drag s) < WM_MAX_WINDOWS"
      using dcases ok by (auto split: if_splits)
    obtain w' where w': "app_bind w1 ?id a = (0, w')" "app_world_wf (drag_binding_count (desk_drag s) + 1) w'"
      "app_windows w' = app_windows w1" "app_user w' = app_user w1" "app_of w' = (app_of w1)(?id := Some a)"
      using app_bind_spec [OF wf(3) lt assms(2), of a] by blast
    have "r = 0" "s' = s \<lparr> desk_heap := opened_heap a d s, desk_world := w', desk_wm := wm, desk_drag := dr \<rparr>"
      using assms(2,3) add reg ok w'(1)
      by (auto simp: app_window_open_def Let_def opened_heap_def w1_def split: if_splits)
    then show ?thesis
      using wf w' cadd ok lt dcount task_of_register [OF wf(2) reg [unfolded ok(2)]]
      by (auto simp: desktop_wf_def w1_def split: if_splits)
  qed
qed

lemma app_reset_wf:
  assumes "wm_wf (desk_wm s)"
  shows "desktop_wf (app_window_reset run_handler s)"
    "drag_dispatch_fn (desk_drag (app_window_reset run_handler s)) = Some (app_window_dispatch_cb run_handler)"
  using assms drag_reset_wf [of "desk_drag s"]
  by (simp_all add: desktop_wf_def app_window_reset_def wm_drag_set_dispatch_def drag_wf_def app_world_wf_def
      find_binding_for_window_def binding_window_def)

text \<open>
  Opening an application window. It succeeds exactly when the window is large enough, is not on
  the screen yet, and there is room for another window; then the window is on top and active, and
  from now on every mouse event that belongs to it, by position or by a drag, is handed to the
  application's handler, once, with the application's context, as the event of the right kind. Otherwise it
  fails and no task gets or loses a window.
\<close>

theorem app_window_open_delivers:
  assumes "desktop_wf s" "drag_dispatch_fn (desk_drag s) = Some (app_window_dispatch_cb run_handler)"
    and "task_id (table ! t) \<noteq> 0" "task_of (desk_drag s) a = None"
    and "app_window_open table (Some a) (Some d) (Some t) (Some h) ctx s = (r, s')"
  shows "if wm_window_is_valid (Some (opened_heap a d s a)) \<and> a \<notin> set (wm_windows (desk_wm s)) \<and>
       length (wm_windows (desk_wm s)) < WM_MAX_WINDOWS \<and> drag_binding_count (desk_drag s) < WM_MAX_WINDOWS
    then r = 0 \<and> wm_windows (desk_wm s') = wm_windows (desk_wm s) @ [a] \<and> active_window (desk_wm s') = Some a \<and>
      (\<forall>e. event_owner s' e = Some a \<longrightarrow> desk_world (wm_drag_process_event e s') = (desk_world s')
        \<lparr> app_user := run_handler h a \<lparr> ae_type = app_window_event_map (event_kind s' e), ae_input = e \<rparr> ctx
            (app_user (desk_world s)) \<rparr>)
    else r = - 1 \<and> app_of (desk_world s') = app_of (desk_world s)"
proof -
  note o = open_spec [OF assms(1,3,5)]
  have wf: "drag_wf (desk_drag s')" "drag_dispatch_fn (desk_drag s') = Some (app_window_dispatch_cb run_handler)"
    using o assms(2) by (auto simp: desktop_wf_def)
  have "desk_world (wm_drag_process_event e s') = (desk_world s')
        \<lparr> app_user := run_handler h a \<lparr> ae_type = app_window_event_map (event_kind s' e), ae_input = e \<rparr> ctx
            (app_user (desk_world s)) \<rparr>"
    if "event_owner s' e = Some a" "task_of (desk_drag s') a = Some (task_id (table ! t))"
      "app_of (desk_world s') (task_id (table ! t)) = Some a" for e
    using drag_event_effect [OF wf, of e] that o
      app_dispatch [OF that(3), of h run_handler "event_kind s' e" e] by simp
  then show ?thesis
    using o assms(4) by (simp split: if_splits)
qed

definition demo_table :: task_table where
  "demo_table = [task_reset 5]"

definition demo_apps :: "(u32 \<times> app_window_event_type) list app_world desktop" where
  "demo_apps = app_window_reset (\<lambda>h a e ctx u. u @ [(of_nat ctx, ae_type e)])
     \<lparr> desk_heap = demo_heap, desk_wm = demo_two, desk_drag = \<lparr> drag_bindings = [], drag_binding_count = 0,
         drag_binding = None, drag_offset_x = 0, drag_offset_y = 0, drag_dispatch_fn = None \<rparr>,
       desk_world = \<lparr> app_bindings = [], app_binding_count = 0, app_windows = (\<lambda>_. \<lparr> aw_owner_task = None,
         aw_on_event = None, aw_user_ctx = 0 \<rparr>), app_user = [] \<rparr> \<rparr>"

theorem app_window_open_delivers_witness:
  "fst (app_window_open demo_table (Some 4) (Some \<lparr> desc_title = None, desc_x = 40, desc_y = 0,
     desc_width = 100, desc_height = 100 \<rparr>) (Some 0) (Some 1) 2 demo_apps) = 0"
proof -
  let ?d = "\<lparr> desc_title = None, desc_x = 40, desc_y = 0, desc_width = 100, desc_height = 100 \<rparr>"
  have s: "desktop_wf demo_apps" "drag_dispatch_fn (desk_drag demo_apps) =
      Some (app_window_dispatch_cb (\<lambda>h a e ctx u. u @ [(of_nat ctx, ae_type e)]))"
    unfolding demo_apps_def by (rule app_reset_wf, simp add: demo_two_wf)+
  have f: "task_of (desk_drag demo_apps) 4 = None" "drag_binding_count (desk_drag demo_apps) = 0"
    "desk_wm demo_apps = demo_two" "task_id (demo_table ! 0) \<noteq> 0"
    by (simp_all add: demo_apps_def app_window_reset_def wm_drag_set_dispatch_def wm_drag_reset_def task_of_def
        demo_table_def task_reset_def)
  have "opened_heap 4 ?d demo_apps 4 = demo_heap 4"
    by (simp add: opened_heap_def demo_heap_def)
  then have "wm_window_is_valid (Some (opened_heap 4 ?d demo_apps 4))"
    using demo_heap_ok [of 4] by simp
  with app_window_open_delivers [OF s f(4,1) prod.collapse [symmetric], of ?d 1 2] f(2,3) demo_two_wf(2)
  show ?thesis by (simp add: WM_MAX_WINDOWS_def)
qed

end
