(* ===== verification/PathState.thy ===== *)
theory PathState
  imports FsDir
begin

text \<open>
  The shell's file system (\<open>shell/path_state.c\<close>): a directory tree per context, three read-only seed
  files, and for the default context a table of 32 dynamic files of up to 511 characters. An
  operation on a context gets the dynamic files as \<open>Some files\<close> when it runs on the default context,
  \<open>None\<close> otherwise, which is what \<open>context_supports_dynamic_files\<close> tests. As for the
  directory tree, the outer option is \<open>None\<close> for a call that does not return.
\<close>

definition PATH_STATE_DYNAMIC_MAX_FILES :: nat where "PATH_STATE_DYNAMIC_MAX_FILES = 32"
definition PATH_STATE_DYNAMIC_CONTENT_MAX :: nat where "PATH_STATE_DYNAMIC_CONTENT_MAX = 512"

record path_state_context =
  ctx_tree :: fs_dir_tree
  ctx_ready :: bool

datatype path_state_entry_kind = PATH_STATE_ENTRY_DIR | PATH_STATE_ENTRY_FILE

record path_state_entry =
  entry_text :: string
  entry_kind :: path_state_entry_kind

record path_state_file =
  pf_path :: string
  pf_content :: string

text \<open>\<open>content_len\<close> is the length of \<open>df_content\<close>; the array holds a NUL after it.\<close>

record path_state_dynamic_file =
  df_used :: bool
  df_path :: string
  df_content :: string

type_synonym dynamic_files = "path_state_dynamic_file list"

record path_state =
  default_context :: path_state_context
  dynamic_files :: dynamic_files

definition seed_files :: "path_state_file list" where
  "seed_files =
    [\<lparr> pf_path = ''/hello.txt'', pf_content = ''hello from shell fs'' @ [CHR 0x0a] \<rparr>,
     \<lparr> pf_path = ''/etc/motd'', pf_content = ''openTiger shell filesystem'' @ [CHR 0x0a] \<rparr>,
     \<lparr> pf_path = ''/home/readme.txt'', pf_content = ''use ls, cat, pwd, cd, mkdir'' @ [CHR 0x0a] \<rparr>]"

subsection \<open>Helpers\<close>

definition ps_strcmp :: "string \<Rightarrow> string \<Rightarrow> int" where
  "ps_strcmp a b = dir_strcmp a b"

definition ps_strcpy :: "nat \<Rightarrow> string \<Rightarrow> string option" where
  "ps_strcpy dst_cap src = (if dst_cap = 0 \<or> length src + 1 > dst_cap then None else Some src)"

text \<open>The array as a C string ends at its first NUL.\<close>

definition c_text :: "string \<Rightarrow> string" where
  "c_text = takeWhile (\<lambda>c. c \<noteq> CHR 0x00)"

definition unused_file :: path_state_dynamic_file where
  "unused_file = \<lparr> df_used = False, df_path = [], df_content = [] \<rparr>"

definition dynamic_files_reset :: dynamic_files where
  "dynamic_files_reset = replicate PATH_STATE_DYNAMIC_MAX_FILES unused_file"

fun last_slash_scan :: "nat \<Rightarrow> nat \<Rightarrow> string \<Rightarrow> nat" where
  "last_slash_scan i last_slash [] = last_slash"
| "last_slash_scan i last_slash (c # cs) = last_slash_scan (i + 1) (if c = CHR ''/'' then i else last_slash) cs"

definition path_basename :: "string \<Rightarrow> nat \<Rightarrow> string option" where
  "path_basename path out_len =
     (if out_len = 0 \<or> path = [] \<or> hd path \<noteq> CHR ''/'' then None
      else
        let last_slash = last_slash_scan 0 0 path in
        if last_slash + 1 \<ge> length path then None
        else ps_strcpy out_len (drop (last_slash + 1) path))"

definition path_parent :: "string \<Rightarrow> nat \<Rightarrow> string option" where
  "path_parent path out_len =
     (if out_len = 0 \<or> path = [] \<or> hd path \<noteq> CHR ''/'' then None
      else
        let last_slash = last_slash_scan 0 0 path in
        if last_slash = 0 then (if out_len < 2 then None else Some ''/'')
        else if last_slash + 1 > out_len then None
        else Some (take last_slash path))"

definition resolve_to_absolute :: "path_state_context \<Rightarrow> string option \<Rightarrow> nat \<Rightarrow> string option" where
  "resolve_to_absolute ctx path out_len =
     (if out_len = 0 then None
      else
        let input = (case path of None \<Rightarrow> ''.'' | Some p \<Rightarrow> if p = [] then ''.'' else p) in
        case fs_dir_pwd (ctx_tree ctx) FS_PATH_MAX of
          None \<Rightarrow> None
        | Some cwd \<Rightarrow> fs_path_resolve cwd input out_len)"

definition file_index_by_absolute :: "string \<Rightarrow> nat option" where
  "file_index_by_absolute absolute_path =
     find_index (\<lambda>i. ps_strcmp (pf_path (seed_files ! i)) absolute_path = 0) (length seed_files)"

definition dynamic_file_index_by_absolute :: "dynamic_files \<Rightarrow> string \<Rightarrow> nat option" where
  "dynamic_file_index_by_absolute files absolute_path =
     find_index (\<lambda>i. df_used (files ! i) \<and> ps_strcmp (df_path (files ! i)) absolute_path = 0)
       PATH_STATE_DYNAMIC_MAX_FILES"

definition dynamic_file_index_alloc :: "dynamic_files \<Rightarrow> string \<Rightarrow> nat option \<times> dynamic_files" where
  "dynamic_file_index_alloc files absolute_path =
     (case find_index (\<lambda>i. \<not> df_used (files ! i)) PATH_STATE_DYNAMIC_MAX_FILES of
        None \<Rightarrow> (None, files)
      | Some i \<Rightarrow>
          (case ps_strcpy FS_PATH_MAX absolute_path of
             None \<Rightarrow> (None, files[i := (files ! i) \<lparr> df_used := False, df_content := [], df_path := [] \<rparr>])
           | Some p \<Rightarrow> (Some i, files[i := (files ! i) \<lparr> df_used := True, df_content := [], df_path := p \<rparr>])))"

definition file_is_child_of_dir :: "path_state_file \<Rightarrow> string \<Rightarrow> bool" where
  "file_is_child_of_dir file dir_absolute =
     (case path_parent (pf_path file) FS_PATH_MAX of
        None \<Rightarrow> False | Some p \<Rightarrow> ps_strcmp p dir_absolute = 0)"

definition dynamic_file_is_child_of_dir :: "path_state_dynamic_file \<Rightarrow> string \<Rightarrow> bool" where
  "dynamic_file_is_child_of_dir file dir_absolute =
     (if \<not> df_used file then False
      else case path_parent (df_path file) FS_PATH_MAX of
        None \<Rightarrow> False | Some p \<Rightarrow> ps_strcmp p dir_absolute = 0)"

text \<open>The entries are the first \<open>*io_count\<close> cells of the caller's array.\<close>

definition entry_insert_sorted ::
  "path_state_entry list \<Rightarrow> nat \<Rightarrow> string \<Rightarrow> path_state_entry_kind \<Rightarrow> int \<times> path_state_entry list" where
  "entry_insert_sorted entries max_entries name kind =
     (if length entries \<ge> max_entries then (- 1, entries)
      else if length name > FS_DIR_NAME_MAX then (- 1, entries)
      else
        let insert_at = length (takeWhile (\<lambda>e. ps_strcmp (entry_text e) name < 0) entries) in
        if insert_at < length entries \<and> ps_strcmp (entry_text (entries ! insert_at)) name = 0 then (0, entries)
        else (0, take insert_at entries @ \<lparr> entry_text = name, entry_kind = kind \<rparr> # drop insert_at entries))"

subsection \<open>Initialisation\<close>

fun ensure_seed_parents :: "path_state_file list \<Rightarrow> fs_dir_tree \<Rightarrow> (int \<times> fs_dir_tree) option" where
  "ensure_seed_parents [] tree = Some (0, tree)"
| "ensure_seed_parents (file # files) tree =
     (case path_parent (pf_path file) FS_PATH_MAX of
        None \<Rightarrow> Some (- 1, tree)
      | Some p \<Rightarrow>
          if ps_strcmp p ''/'' \<noteq> 0 then do {
            (r, tree) \<leftarrow> fs_dir_mkdir_p tree p;
            if r \<noteq> 0 then Some (- 1, tree) else ensure_seed_parents files tree
          }
          else ensure_seed_parents files tree)"

fun ensure_directories :: "string list \<Rightarrow> fs_dir_tree \<Rightarrow> (int \<times> fs_dir_tree) option" where
  "ensure_directories [] tree = Some (0, tree)"
| "ensure_directories (p # ps) tree =
     do {
       (r, tree) \<leftarrow> fs_dir_mkdir tree p;
       if r \<noteq> 0 then Some (- 1, tree) else ensure_directories ps tree
     }"

definition ensure_initialized :: "path_state_context \<Rightarrow> (int \<times> path_state_context) option" where
  "ensure_initialized ctx =
     (if ctx_ready ctx then Some (0, ctx)
      else do {
        (r, tree) \<leftarrow> ensure_directories [''/etc'', ''/home'', ''/tmp''] fs_dir_init;
        if r \<noteq> 0 then Some (- 1, ctx \<lparr> ctx_tree := tree \<rparr>)
        else do {
          (r, tree) \<leftarrow> ensure_seed_parents seed_files tree;
          if r \<noteq> 0 then Some (- 1, ctx \<lparr> ctx_tree := tree \<rparr>)
          else Some (0, \<lparr> ctx_tree = tree, ctx_ready = True \<rparr>)
        }
      })"

definition path_state_context_init :: "path_state_context \<Rightarrow> path_state_context" where
  "path_state_context_init ctx = \<lparr> ctx_tree = fs_dir_init, ctx_ready = False \<rparr>"

subsection \<open>Operations on a context\<close>

definition path_state_context_pwd ::
  "path_state_context \<Rightarrow> nat \<Rightarrow> (string option \<times> path_state_context) option" where
  "path_state_context_pwd ctx out_len =
     do {
       (r, ctx) \<leftarrow> ensure_initialized ctx;
       if r \<noteq> 0 then Some (None, ctx) else Some (fs_dir_pwd (ctx_tree ctx) out_len, ctx)
     }"

definition path_state_context_cd ::
  "path_state_context \<Rightarrow> string option \<Rightarrow> (int \<times> path_state_context) option" where
  "path_state_context_cd ctx path =
     do {
       (r, ctx) \<leftarrow> ensure_initialized ctx;
       if r \<noteq> 0 then Some (- 1, ctx)
       else case path of
         None \<Rightarrow> Some (- 1, ctx)
       | Some path \<Rightarrow> do {
           (r, tree) \<leftarrow> fs_dir_cd (ctx_tree ctx) path;
           Some (r, ctx \<lparr> ctx_tree := tree \<rparr>)
         }
     }"

definition path_state_context_mkdir ::
  "dynamic_files option \<Rightarrow> path_state_context \<Rightarrow> string option \<Rightarrow> (int \<times> path_state_context) option" where
  "path_state_context_mkdir files ctx path =
     do {
       (r, ctx) \<leftarrow> ensure_initialized ctx;
       if r \<noteq> 0 \<or> path = None then Some (- 1, ctx)
       else case resolve_to_absolute ctx path FS_PATH_MAX of
         None \<Rightarrow> Some (- 1, ctx)
       | Some absolute \<Rightarrow>
           if absolute = ''/'' then Some (- 1, ctx)
           else if file_index_by_absolute absolute \<noteq> None then Some (- 1, ctx)
           else if (case files of None \<Rightarrow> False | Some fs \<Rightarrow> dynamic_file_index_by_absolute fs absolute \<noteq> None)
           then Some (- 1, ctx)
           else do {
             (r, tree) \<leftarrow> fs_dir_mkdir (ctx_tree ctx) absolute;
             Some (r, ctx \<lparr> ctx_tree := tree \<rparr>)
           }
     }"

text \<open>
  \<open>ls\<close>: the capacity of the caller's array, \<open>None\<close> for a null array. \<open>list_entry\<close> is the body
  the three loops share: insert a name, or only count it. The result is the entries written
  and the count; \<open>None\<close> the error return.
\<close>

definition list_entry ::
  "nat option \<Rightarrow> path_state_entry_kind \<Rightarrow> string \<Rightarrow> path_state_entry list \<times> nat \<Rightarrow> (path_state_entry list \<times> nat) option" where
  "list_entry entries kind name listed =
     (case (entries, listed) of
        (None, es, count) \<Rightarrow> Some (es, count + 1)
      | (Some max_entries, es, count) \<Rightarrow>
          (case entry_insert_sorted es max_entries name kind of
             (r, es) \<Rightarrow> if r \<noteq> 0 then None else Some (es, length es)))"

fun list_directories ::
  "nat option \<Rightarrow> string list \<Rightarrow> path_state_entry list \<times> nat \<Rightarrow> (path_state_entry list \<times> nat) option" where
  "list_directories entries [] listed = Some listed"
| "list_directories entries (name # names) listed =
     do { listed \<leftarrow> list_entry entries PATH_STATE_ENTRY_DIR name listed; list_directories entries names listed }"

fun list_seed_files ::
  "dynamic_files option \<Rightarrow> string \<Rightarrow> nat option \<Rightarrow> path_state_file list \<Rightarrow>
   path_state_entry list \<times> nat \<Rightarrow> (path_state_entry list \<times> nat) option" where
  "list_seed_files files absolute entries [] listed = Some listed"
| "list_seed_files files absolute entries (file # rest) listed =
     (if (case files of None \<Rightarrow> False | Some fs \<Rightarrow> dynamic_file_index_by_absolute fs (pf_path file) \<noteq> None)
      then list_seed_files files absolute entries rest listed
      else if file_is_child_of_dir file absolute then do {
        basename \<leftarrow> path_basename (pf_path file) (FS_DIR_NAME_MAX + 1);
        listed \<leftarrow> list_entry entries PATH_STATE_ENTRY_FILE basename listed;
        list_seed_files files absolute entries rest listed
      }
      else list_seed_files files absolute entries rest listed)"

fun list_dynamic_files ::
  "string \<Rightarrow> nat option \<Rightarrow> path_state_dynamic_file list \<Rightarrow>
   path_state_entry list \<times> nat \<Rightarrow> (path_state_entry list \<times> nat) option" where
  "list_dynamic_files absolute entries [] listed = Some listed"
| "list_dynamic_files absolute entries (file # rest) listed =
     (if dynamic_file_is_child_of_dir file absolute then do {
        basename \<leftarrow> path_basename (df_path file) (FS_DIR_NAME_MAX + 1);
        listed \<leftarrow> list_entry entries PATH_STATE_ENTRY_FILE basename listed;
        list_dynamic_files absolute entries rest listed
      }
      else list_dynamic_files absolute entries rest listed)"

definition path_state_context_ls ::
  "dynamic_files option \<Rightarrow> path_state_context \<Rightarrow> string option \<Rightarrow> nat option \<Rightarrow>
   ((path_state_entry list \<times> nat) option \<times> path_state_context) option" where
  "path_state_context_ls files ctx path entries =
     do {
       (r, ctx) \<leftarrow> ensure_initialized ctx;
       if r \<noteq> 0 then Some (None, ctx)
       else case resolve_to_absolute ctx path FS_PATH_MAX of
         None \<Rightarrow> Some (None, ctx)
       | Some absolute \<Rightarrow>
           if file_index_by_absolute absolute \<noteq> None \<or>
              (case files of None \<Rightarrow> False | Some fs \<Rightarrow> dynamic_file_index_by_absolute fs absolute \<noteq> None)
           then Some (do {
               basename \<leftarrow> path_basename absolute (FS_DIR_NAME_MAX + 1);
               list_entry entries PATH_STATE_ENTRY_FILE basename ([], 0)
             }, ctx)
           else do {
             (r, names, dir_count) \<leftarrow> fs_dir_readdir (ctx_tree ctx) absolute (Some FS_DIR_MAX_NODES);
             if r \<noteq> 0 then Some (None, ctx)
             else Some (do {
                 listed \<leftarrow> list_directories entries names ([], 0);
                 listed \<leftarrow> list_seed_files files absolute entries seed_files listed;
                 (case files of None \<Rightarrow> Some listed | Some fs \<Rightarrow> list_dynamic_files absolute entries fs listed)
               }, ctx)
           }
     }"

text \<open>\<open>None\<close> inside is the error return; otherwise the contents as a C string.\<close>

definition path_state_context_cat ::
  "dynamic_files option \<Rightarrow> path_state_context \<Rightarrow> string option \<Rightarrow> (string option \<times> path_state_context) option" where
  "path_state_context_cat files ctx path =
     do {
       (r, ctx) \<leftarrow> ensure_initialized ctx;
       if r \<noteq> 0 \<or> path = None then Some (None, ctx)
       else case resolve_to_absolute ctx path FS_PATH_MAX of
         None \<Rightarrow> Some (None, ctx)
       | Some absolute \<Rightarrow>
           (case (case files of None \<Rightarrow> None
                  | Some fs \<Rightarrow> map_option (\<lambda>i. fs ! i) (dynamic_file_index_by_absolute fs absolute)) of
              Some file \<Rightarrow> Some (Some (c_text (df_content file)), ctx)
            | None \<Rightarrow>
                (case file_index_by_absolute absolute of
                   None \<Rightarrow> Some (None, ctx)
                 | Some i \<Rightarrow> Some (Some (pf_content (seed_files ! i)), ctx)))
     }"

subsection \<open>Operations on the default context\<close>

text \<open>The tail of \<open>path_state_write_file\<close>: the file at \<open>i\<close>, and whether it was just created.\<close>

definition write_dynamic_file ::
  "dynamic_files \<Rightarrow> nat \<Rightarrow> bool \<Rightarrow> string \<Rightarrow> string option \<Rightarrow> bool \<Rightarrow> int \<times> dynamic_files" where
  "write_dynamic_file files i created absolute content appending =
     (let seed = (if appending \<and> created then file_index_by_absolute absolute else None);
          file = files ! i
      in case (case seed of
                 None \<Rightarrow> Some file
               | Some k \<Rightarrow>
                   if length (pf_content (seed_files ! k)) + 1 > PATH_STATE_DYNAMIC_CONTENT_MAX then None
                   else Some (file \<lparr> df_content := pf_content (seed_files ! k) \<rparr>)) of
           None \<Rightarrow> (- 1, files)
         | Some file \<Rightarrow>
             let file = (if appending then file else file \<lparr> df_content := [] \<rparr>);
                 text = (case content of None \<Rightarrow> [] | Some c \<Rightarrow> c)
             in if length (df_content file) + length text + 1 > PATH_STATE_DYNAMIC_CONTENT_MAX
                then (- 1, files[i := file])
                else (0, files[i := file \<lparr> df_content := df_content file @ text \<rparr>]))"

definition path_state_write_file ::
  "path_state \<Rightarrow> string option \<Rightarrow> string option \<Rightarrow> bool \<Rightarrow> (int \<times> path_state) option" where
  "path_state_write_file ps path content appending =
     do {
       (r, ctx) \<leftarrow> ensure_initialized (default_context ps);
       let ps = ps \<lparr> default_context := ctx \<rparr>;
       if r \<noteq> 0 \<or> path = None then Some (- 1, ps)
       else case resolve_to_absolute ctx path FS_PATH_MAX of
         None \<Rightarrow> Some (- 1, ps)
       | Some absolute \<Rightarrow>
           if absolute = ''/'' then Some (- 1, ps)
           else case path_parent absolute FS_PATH_MAX of
             None \<Rightarrow> Some (- 1, ps)
           | Some parent_path \<Rightarrow> do {
               walked \<leftarrow> fs_dir_walk (ctx_tree ctx) parent_path;
               if walked = None then Some (- 1, ps)
               else do {
                 walked \<leftarrow> fs_dir_walk (ctx_tree ctx) absolute;
                 if walked \<noteq> None then Some (- 1, ps)
                 else
                   let files = dynamic_files ps in
                   case dynamic_file_index_by_absolute files absolute of
                     Some i \<Rightarrow>
                       let (r, files) = write_dynamic_file files i False absolute content appending
                       in Some (r, ps \<lparr> dynamic_files := files \<rparr>)
                   | None \<Rightarrow>
                       (case dynamic_file_index_alloc files absolute of
                          (None, files) \<Rightarrow> Some (- 1, ps \<lparr> dynamic_files := files \<rparr>)
                        | (Some i, files) \<Rightarrow>
                            let (r, files) = write_dynamic_file files i True absolute content appending
                            in Some (r, ps \<lparr> dynamic_files := files \<rparr>))
               }
             }
     }"

definition on_default ::
  "path_state \<Rightarrow> ('a \<times> path_state_context) option \<Rightarrow> ('a \<times> path_state) option" where
  "on_default ps call = map_option (\<lambda>(r, ctx). (r, ps \<lparr> default_context := ctx \<rparr>)) call"

definition path_state_init :: "path_state \<Rightarrow> path_state option" where
  "path_state_init ps =
     do {
       (_, ctx) \<leftarrow> ensure_initialized (path_state_context_init (default_context ps));
       Some \<lparr> default_context = ctx, dynamic_files = dynamic_files_reset \<rparr>
     }"

definition path_state_pwd :: "path_state \<Rightarrow> nat \<Rightarrow> (string option \<times> path_state) option" where
  "path_state_pwd ps out_len = on_default ps (path_state_context_pwd (default_context ps) out_len)"

definition path_state_cd :: "path_state \<Rightarrow> string option \<Rightarrow> (int \<times> path_state) option" where
  "path_state_cd ps path = on_default ps (path_state_context_cd (default_context ps) path)"

definition path_state_mkdir :: "path_state \<Rightarrow> string option \<Rightarrow> (int \<times> path_state) option" where
  "path_state_mkdir ps path =
     on_default ps (path_state_context_mkdir (Some (dynamic_files ps)) (default_context ps) path)"

definition path_state_ls ::
  "path_state \<Rightarrow> string option \<Rightarrow> nat option \<Rightarrow> ((path_state_entry list \<times> nat) option \<times> path_state) option" where
  "path_state_ls ps path entries =
     on_default ps (path_state_context_ls (Some (dynamic_files ps)) (default_context ps) path entries)"

definition path_state_cat :: "path_state \<Rightarrow> string option \<Rightarrow> (string option \<times> path_state) option" where
  "path_state_cat ps path =
     on_default ps (path_state_context_cat (Some (dynamic_files ps)) (default_context ps) path)"

subsection \<open>Paths of files\<close>

lemma last_slash_scan_no: "CHR ''/'' \<notin> set ys \<Longrightarrow> last_slash_scan i l ys = l"
  by (induction ys arbitrary: i) auto

lemma last_slash_scan_last:
  "CHR ''/'' \<notin> set ys \<Longrightarrow> last_slash_scan i l (xs @ CHR ''/'' # ys) = i + length xs"
  by (induction xs arbitrary: i l) (auto simp: last_slash_scan_no)

lemma render_snoc:
  "render True (ds @ [d]) = (if ds = [] then [] else render True ds) @ CHR ''/'' # d"
  by (induction ds rule: join_segments.induct) (auto simp: render_def join_segments_Cons)

lemma render_length_pos: "1 \<le> length (render True ds)" "ds \<noteq> [] \<Longrightarrow> set ds \<subseteq> Collect name_ok \<Longrightarrow> 2 \<le> length (render True ds)"
proof -
  show "1 \<le> length (render True ds)" by (simp add: render_def)
  show "2 \<le> length (render True ds)" if "ds \<noteq> []" "set ds \<subseteq> Collect name_ok"
    using that by (cases ds rule: rev_cases) (auto simp: render_snoc name_ok_def Suc_le_eq)
qed

lemma path_parent_render:
  assumes "abs_dirs ds" "ds \<noteq> []" "length (render True ds) < n"
  shows "path_parent (render True ds) n = Some (render True (butlast ds))"
proof -
  obtain es d where ds: "ds = es @ [d]" using assms(2) by (cases ds rule: rev_cases) auto
  have d: "CHR ''/'' \<notin> set d" "set es \<subseteq> Collect name_ok"
    using abs_dirs_names [OF assms(1)] by (auto simp: ds name_ok_def)
  have l: "last_slash_scan 0 0 (render True ds) = (if es = [] then 0 else length (render True es))"
    using last_slash_scan_last [OF d(1), of 0 0 "if es = [] then [] else render True es"]
    by (simp add: ds render_snoc)
  have h: "render True ds \<noteq> [] \<and> hd (render True ds) = CHR ''/''"
    by simp
  show ?thesis
  proof (cases "es = []")
    case True
    then show ?thesis
      using assms render_length_pos(2) [OF assms(2) abs_dirs_names [OF assms(1)]] h l
      by (simp add: path_parent_def ds) (simp add: render_def)
  next
    case False
    then have "last_slash_scan 0 0 (render True ds) \<noteq> 0" "length (render True es) + 1 \<le> n"
      "take (length (render True es)) (render True ds) = render True es"
      using l render_length_pos(1) [of es] assms(3) by (simp_all add: ds render_snoc)
    then show ?thesis
      using h l False assms(3) by (simp add: path_parent_def ds Let_def)
  qed
qed

lemma path_basename_render:
  assumes "abs_dirs ds" "ds \<noteq> []" "0 < n"
  shows "path_basename (render True ds) n = ps_strcpy n (last ds)"
proof -
  obtain es d where ds: "ds = es @ [d]" using assms(2) by (cases ds rule: rev_cases) auto
  have d: "CHR ''/'' \<notin> set d" "d \<noteq> []"
    using abs_dirs_names [OF assms(1)] by (auto simp: ds name_ok_def)
  have l: "last_slash_scan 0 0 (render True ds) = length (if es = [] then [] else render True es)"
    using last_slash_scan_last [OF d(1), of 0 0 "if es = [] then [] else render True es"]
    by (simp add: ds render_snoc)
  have "render True ds \<noteq> [] \<and> hd (render True ds) = CHR ''/''"
    by simp
  moreover have "drop (length (if es = [] then [] else render True es) + 1) (render True ds) = d"
    "\<not> length (if es = [] then [] else render True es) + 1 \<ge> length (render True ds)"
    using d(2) by (simp_all add: ds render_snoc)
  ultimately show ?thesis
    using assms(3) unfolding path_basename_def l Let_def by (simp add: ds)
qed

text \<open>A path that names itself: an absolute, normalised one of a file or directory.\<close>

lemma target_render:
  assumes "dir_wf tree" "abs_dirs ds" "length (render True ds) < 256"
  shows "target tree (render True ds) = ds" "path_fits tree (render True ds)"
proof -
  show "target tree (render True ds) = ds"
    using assms(2) by (simp add: target_def resolve_names_def abs_dirs_names canon_abs_dirs)
  have "fs_path_resolve (render True (cwd_names tree)) (render True ds) 256 = Some (render True ds)"
    using assms cwd_wf(1,2) [OF assms(1)] by (simp add: fs_path_resolve_unfold normalize_render)
  then show "path_fits tree (render True ds)"
    using assms(1) by (simp add: path_fits_def resolve_path_wf FS_PATH_MAX_def)
qed

text \<open>The directory or file a path argument names, and whether it can be resolved.\<close>

definition path_input :: "string \<Rightarrow> string" where
  "path_input path = (if path = [] then ''.'' else path)"

definition named :: "fs_dir_tree \<Rightarrow> string \<Rightarrow> string list option" where
  "named tree path = (if path_fits tree (path_input path) then Some (target tree (path_input path)) else None)"

lemma path_input_c_string: "c_string path \<Longrightarrow> c_string (path_input path)"
  by (simp add: path_input_def)

lemma named_wf:
  assumes "dir_wf tree" "c_string path" "named tree path = Some ds"
  shows "abs_dirs ds" "set ds \<subseteq> Collect c_string" "length (render True ds) < 256" "c_string (render True ds)"
    "target tree (render True ds) = ds" "path_fits tree (render True ds)"
proof -
  have ds: "ds = target tree (path_input path)" "path_fits tree (path_input path)"
    using assms(3) by (auto simp: named_def split: if_splits)
  note p = path_input_c_string [OF assms(2)]
  show "abs_dirs ds" "set ds \<subseteq> Collect c_string" "length (render True ds) < 256"
    using target_wf [OF assms(1) p] path_fits_resolve(2) [OF assms(1) ds(2)] by (simp_all add: ds(1))
  then show "c_string (render True ds)" "target tree (render True ds) = ds" "path_fits tree (render True ds)"
    using c_string_render target_render [OF assms(1)] by blast+
qed

lemma resolve_named:
  assumes "dir_wf (ctx_tree ctx)"
  shows "resolve_to_absolute ctx (Some path) FS_PATH_MAX = map_option (render True) (named (ctx_tree ctx) path)"
proof -
  let ?t = "ctx_tree ctx"
  have "fs_dir_pwd ?t FS_PATH_MAX = Some (render True (cwd_names ?t))"
    using fs_dir_pwd_wf [OF assms, of FS_PATH_MAX] cwd_wf(2) [OF assms] by (simp add: FS_PATH_MAX_def)
  then have "resolve_to_absolute ctx (Some path) FS_PATH_MAX = resolve_path ?t (path_input path) FS_PATH_MAX"
    using resolve_path_wf [OF assms, of FS_PATH_MAX] by (simp add: resolve_to_absolute_def FS_PATH_MAX_def path_input_def Let_def)
  then show ?thesis
    using path_fits_resolve(1) [OF assms] path_fits_not [of ?t] by (simp add: named_def)
qed

subsection \<open>The files as a finite map\<close>

definition file_key :: "path_state_dynamic_file \<Rightarrow> string option" where
  "file_key f = (if df_used f then Some (df_path f) else None)"

definition dynamic_map :: "dynamic_files \<Rightarrow> string \<Rightarrow> string option" where
  "dynamic_map fs p = map_of (map (\<lambda>f. (file_key f, df_content f)) fs) (Some p)"

definition seed_map :: "string \<Rightarrow> string option" where
  "seed_map = map_of (map (\<lambda>f. (pf_path f, pf_content f)) seed_files)"

definition file_map :: "dynamic_files \<Rightarrow> string \<Rightarrow> string option" where
  "file_map fs = seed_map ++ dynamic_map fs"

definition files_wf :: "dynamic_files \<Rightarrow> bool" where
  "files_wf fs \<longleftrightarrow> length fs = PATH_STATE_DYNAMIC_MAX_FILES \<and>
     (\<forall>i < length fs. \<forall>j < length fs. file_key (fs ! i) = file_key (fs ! j) \<longrightarrow> file_key (fs ! i) \<noteq> None \<longrightarrow> i = j) \<and>
     (\<forall>f \<in> set fs. df_used f \<longrightarrow> c_string (df_path f) \<and> length (df_content f) < PATH_STATE_DYNAMIC_CONTENT_MAX)"

lemma c_string_seed: "i < length seed_files \<Longrightarrow> c_string (pf_path (seed_files ! i))"
  by (auto simp: seed_files_def less_Suc_eq nth_Cons')

lemma seed_find:
  assumes "c_string p"
  shows "seed_map p = map_option (\<lambda>i. pf_content (seed_files ! i)) (file_index_by_absolute p)"
proof -
  have "file_index_by_absolute p = find_index (\<lambda>i. pf_path (seed_files ! i) = p) (length seed_files)"
    unfolding file_index_by_absolute_def
    by (rule find_index_from_cong) (simp_all add: ps_strcmp_def c_string_seed assms)
  then show ?thesis
    using find_first_map_of [of "length seed_files" seed_files pf_path pf_content p] by (simp add: seed_map_def)
qed

lemma dynamic_find:
  assumes "files_wf fs" "c_string p"
  shows "dynamic_map fs p = map_option (\<lambda>i. df_content (fs ! i)) (dynamic_file_index_by_absolute fs p)"
    "dynamic_file_index_by_absolute fs p = Some i \<Longrightarrow> i < length fs \<and> file_key (fs ! i) = Some p"
proof -
  have l: "length fs = PATH_STATE_DYNAMIC_MAX_FILES"
    using assms(1) by (simp add: files_wf_def)
  have "dynamic_file_index_by_absolute fs p = find_index (\<lambda>i. file_key (fs ! i) = Some p) (length fs)"
    unfolding dynamic_file_index_by_absolute_def l [symmetric]
    by (rule find_index_from_cong) (use assms in \<open>auto simp: ps_strcmp_def file_key_def files_wf_def\<close>)
  then show "dynamic_map fs p = map_option (\<lambda>i. df_content (fs ! i)) (dynamic_file_index_by_absolute fs p)"
    "dynamic_file_index_by_absolute fs p = Some i \<Longrightarrow> i < length fs \<and> file_key (fs ! i) = Some p"
    using find_first_map_of [of "length fs" fs file_key df_content "Some p"]
    by (simp_all add: dynamic_map_def find_index_Some)
qed

lemma dynamic_map_Some:
  assumes "files_wf fs"
  shows "dynamic_map fs p = Some c \<longleftrightarrow> (\<exists>i < length fs. file_key (fs ! i) = Some p \<and> df_content (fs ! i) = c)"
proof -
  have m: "dynamic_map fs p = map_option (\<lambda>i. df_content (fs ! i)) (find_index (\<lambda>i. file_key (fs ! i) = Some p) (length fs))"
    using find_first_map_of [of "length fs" fs file_key df_content "Some p"] by (simp add: dynamic_map_def)
  have u: "i = j" if "i < length fs" "j < length fs" "file_key (fs ! i) = Some p" "file_key (fs ! j) = Some p" for i j
    using assms that by (auto simp: files_wf_def)
  show ?thesis
  proof (cases "find_index (\<lambda>i. file_key (fs ! i) = Some p) (length fs)")
    case None
    then have "\<forall>k < length fs. file_key (fs ! k) \<noteq> Some p" by (simp add: find_index_None)
    then show ?thesis by (auto simp: m None)
  next
    case (Some i)
    then have "i < length fs \<and> file_key (fs ! i) = Some p" by (simp add: find_index_Some)
    then show ?thesis using u [of i] by (auto simp: m Some)
  qed
qed

lemma dynamic_map_None:
  "files_wf fs \<Longrightarrow> dynamic_map fs p = None \<longleftrightarrow> (\<forall>i < length fs. file_key (fs ! i) \<noteq> Some p)"
  using dynamic_map_Some [of fs p] by (cases "dynamic_map fs p") auto

lemma dynamic_map_update:
  assumes "files_wf fs" "i < length fs" "df_used f" "c_string (df_path f)"
    and "length (df_content f) < PATH_STATE_DYNAMIC_CONTENT_MAX"
    and "file_key (fs ! i) = Some (df_path f) \<or> file_key (fs ! i) = None \<and> dynamic_map fs (df_path f) = None"
  shows "files_wf (fs[i := f])" "dynamic_map (fs[i := f]) = (dynamic_map fs)(df_path f \<mapsto> df_content f)"
proof -
  have k: "file_key f = Some (df_path f)"
    using assms(3) by (simp add: file_key_def)
  have other: "file_key (fs ! j) \<noteq> Some (df_path f)" if "j < length fs" "j \<noteq> i" for j
    using assms(6)
  proof
    assume "file_key (fs ! i) = Some (df_path f)"
    then show ?thesis
      using assms(1,2) that unfolding files_wf_def by (metis option.distinct(1))
  next
    assume "file_key (fs ! i) = None \<and> dynamic_map fs (df_path f) = None"
    then show ?thesis
      using dynamic_map_None [OF assms(1)] that by blast
  qed
  have u: "j = l" if "j < length fs" "l < length fs" "file_key (fs ! j) = file_key (fs ! l)" "file_key (fs ! j) \<noteq> None" for j l
    using assms(1) that unfolding files_wf_def by blast
  show wf: "files_wf (fs[i := f])"
    unfolding files_wf_def
  proof (intro conjI allI impI ballI)
    show "length (fs[i := f]) = PATH_STATE_DYNAMIC_MAX_FILES"
      using assms(1) by (simp add: files_wf_def)
    show "j = l" if "j < length (fs[i := f])" "l < length (fs[i := f])"
      "file_key (fs[i := f] ! j) = file_key (fs[i := f] ! l)" "file_key (fs[i := f] ! j) \<noteq> None" for j l
      using that k other [of j] other [of l] u [of j l] assms(2) by (cases "j = i"; cases "l = i") auto
    show "c_string (df_path g)" "length (df_content g) < PATH_STATE_DYNAMIC_CONTENT_MAX"
      if "g \<in> set (fs[i := f])" "df_used g" for g
      using that assms by (auto simp: files_wf_def dest!: set_update_subset_insert [THEN subsetD])
  qed
  have "dynamic_map (fs[i := f]) p = Some c \<longleftrightarrow> ((dynamic_map fs)(df_path f \<mapsto> df_content f)) p = Some c" for p c
  proof (cases "p = df_path f")
    case True
    then show ?thesis
      unfolding dynamic_map_Some [OF wf] using other k assms(2) by (auto simp: nth_list_update split: if_splits)
  next
    case False
    then have "file_key (fs ! i) \<noteq> Some p" "file_key f \<noteq> Some p"
      using assms(6) k by auto
    then have "file_key (fs[i := f] ! j) = Some p \<and> df_content (fs[i := f] ! j) = c \<longleftrightarrow>
        file_key (fs ! j) = Some p \<and> df_content (fs ! j) = c" if "j < length fs" for j
      using that by (cases "j = i") auto
    then show ?thesis
      using False unfolding dynamic_map_Some [OF wf] fun_upd_apply
      by (auto simp: dynamic_map_Some [OF assms(1)])
  qed
  then show "dynamic_map (fs[i := f]) = (dynamic_map fs)(df_path f \<mapsto> df_content f)"
    by (intro ext option.expand) (metis not_None_eq option.sel)+
qed

lemma seed_short: "i < length seed_files \<Longrightarrow> length (pf_content (seed_files ! i)) < 100"
  by (auto simp: seed_files_def less_Suc_eq nth_Cons')

lemma seed_index: "file_index_by_absolute p = Some i \<Longrightarrow> i < length seed_files"
  by (simp add: file_index_by_absolute_def find_index_Some)

lemma write_dynamic_file_result:
  fixes content :: "string option" and fs :: dynamic_files and i :: nat and created :: bool
  assumes "c_string absolute"
  defines "old \<equiv> (if created then (case seed_map absolute of None \<Rightarrow> df_content (fs ! i) | Some c \<Rightarrow> c) else df_content (fs ! i))"
    and "text \<equiv> (case content of None \<Rightarrow> [] | Some c \<Rightarrow> c)"
  shows "write_dynamic_file fs i created absolute content appending =
    (let base = (if appending then old else []) in
     if length base + length text < PATH_STATE_DYNAMIC_CONTENT_MAX
     then (0, fs[i := (fs ! i) \<lparr> df_content := base @ text \<rparr>])
     else (- 1, fs[i := (fs ! i) \<lparr> df_content := base \<rparr>]))"
proof (cases "file_index_by_absolute absolute")
  case None
  then show ?thesis
    using seed_find [OF assms(1)]
    by (simp add: write_dynamic_file_def Let_def old_def text_def)
next
  case (Some k)
  then have "\<not> length (pf_content (seed_files ! k)) + 1 > PATH_STATE_DYNAMIC_CONTENT_MAX"
    using seed_short [OF seed_index [OF Some]] by (simp add: PATH_STATE_DYNAMIC_CONTENT_MAX_def)
  then show ?thesis
    using seed_find [OF assms(1)] Some
    by (simp add: write_dynamic_file_def Let_def old_def text_def)
qed

definition file_name_ok :: "fs_dir_tree \<Rightarrow> string list \<Rightarrow> bool" where
  "file_name_ok tree ds \<longleftrightarrow> abs_dirs ds \<and> set ds \<subseteq> Collect c_string \<and> length (render True ds) < FS_PATH_MAX \<and>
     ds \<noteq> [] \<and> butlast ds \<in> dirs tree \<and> ds \<notin> dirs tree"

definition path_state_wf :: "path_state \<Rightarrow> bool" where
  "path_state_wf ps \<longleftrightarrow> ctx_ready (default_context ps) \<and> dir_wf (ctx_tree (default_context ps)) \<and>
     files_wf (dynamic_files ps) \<and>
     (\<forall>p \<in> dom (file_map (dynamic_files ps)).
        \<exists>ds. p = render True ds \<and> file_name_ok (ctx_tree (default_context ps)) ds)"

abbreviation ps_tree :: "path_state \<Rightarrow> fs_dir_tree" where
  "ps_tree ps \<equiv> ctx_tree (default_context ps)"

abbreviation ps_files :: "path_state \<Rightarrow> string \<Rightarrow> string option" where
  "ps_files ps \<equiv> file_map (dynamic_files ps)"

lemma path_state_wfD:
  assumes "path_state_wf ps"
  shows "ctx_ready (default_context ps)" "dir_wf (ps_tree ps)" "files_wf (dynamic_files ps)"
    "ensure_initialized (default_context ps) = Some (0, default_context ps)"
  using assms by (simp_all add: path_state_wf_def ensure_initialized_def)

lemma dynamic_map_card:
  assumes "files_wf fs"
  shows "card (dom (dynamic_map fs)) = card {i. i < length fs \<and> df_used (fs ! i)}"
proof -
  have "dom (dynamic_map fs) = (\<lambda>i. df_path (fs ! i)) ` {i. i < length fs \<and> df_used (fs ! i)}"
    using dynamic_map_None [OF assms] by (auto simp: dom_def file_key_def split: if_splits)
  moreover have "inj_on (\<lambda>i. df_path (fs ! i)) {i. i < length fs \<and> df_used (fs ! i)}"
    using assms by (auto simp: inj_on_def files_wf_def file_key_def)
  ultimately show ?thesis by (simp add: card_image)
qed

lemma alloc_result:
  assumes "files_wf fs" "c_string p" "length p < FS_PATH_MAX" "dynamic_map fs p = None"
  shows "if card (dom (dynamic_map fs)) < PATH_STATE_DYNAMIC_MAX_FILES
    then \<exists>i fs'. dynamic_file_index_alloc fs p = (Some i, fs') \<and> i < length fs' \<and> file_key (fs' ! i) = Some p \<and>
      df_content (fs' ! i) = [] \<and> files_wf fs' \<and> dynamic_map fs' = (dynamic_map fs)(p \<mapsto> [])
    else dynamic_file_index_alloc fs p = (None, fs)"
proof (cases "find_index (\<lambda>i. \<not> df_used (fs ! i)) PATH_STATE_DYNAMIC_MAX_FILES")
  case None
  have l: "length fs = PATH_STATE_DYNAMIC_MAX_FILES"
    using assms(1) by (simp add: files_wf_def)
  have "{i. i < length fs \<and> df_used (fs ! i)} = {..<PATH_STATE_DYNAMIC_MAX_FILES}"
    using None l by (auto simp: find_index_None)
  then have "card (dom (dynamic_map fs)) = PATH_STATE_DYNAMIC_MAX_FILES"
    by (simp add: dynamic_map_card [OF assms(1)])
  then show ?thesis
    using None by (simp add: dynamic_file_index_alloc_def)
next
  case (Some i)
  have l: "length fs = PATH_STATE_DYNAMIC_MAX_FILES"
    using assms(1) by (simp add: files_wf_def)
  have i: "i < length fs" "\<not> df_used (fs ! i)"
    using Some l by (auto simp: find_index_Some)
  have "{j. j < length fs \<and> df_used (fs ! j)} \<subset> {..<length fs}"
    using i by auto
  then have "card (dom (dynamic_map fs)) < PATH_STATE_DYNAMIC_MAX_FILES"
    using psubset_card_mono [of "{..<length fs}"] l by (simp add: dynamic_map_card [OF assms(1)])
  moreover let ?f = "(fs ! i) \<lparr> df_used := True, df_content := [], df_path := p \<rparr>"
  have "dynamic_file_index_alloc fs p = (Some i, fs[i := ?f])"
    using Some assms(3) by (simp add: dynamic_file_index_alloc_def ps_strcpy_def FS_PATH_MAX_def)
  moreover have "files_wf (fs[i := ?f])" "dynamic_map (fs[i := ?f]) = (dynamic_map fs)(p \<mapsto> [])"
    using dynamic_map_update [OF assms(1) i(1), of ?f] assms(2,4) i(2)
    by (simp_all add: file_key_def PATH_STATE_DYNAMIC_CONTENT_MAX_def)
  ultimately show ?thesis
    using i(1) by (auto simp: file_key_def)
qed

text \<open>What a write leaves of the file system.\<close>

definition write_room :: "path_state \<Rightarrow> string \<Rightarrow> bool" where
  "write_room ps p \<longleftrightarrow> dynamic_map (dynamic_files ps) p \<noteq> None \<or>
     card (dom (dynamic_map (dynamic_files ps))) < PATH_STATE_DYNAMIC_MAX_FILES"

lemma write_in_place:
  assumes "files_wf fs" "i < length fs" "file_key (fs ! i) = Some p"
    and "write_dynamic_file fs i created p (Some text) appending = (r, fs')"
    and "created \<Longrightarrow> df_content (fs ! i) = []"
  defines "old \<equiv> (if created then (case seed_map p of None \<Rightarrow> [] | Some c \<Rightarrow> c) else df_content (fs ! i))"
  shows "files_wf fs' \<and> dynamic_map fs' = (dynamic_map fs)(p \<mapsto>
      (if length ((if appending then old else []) @ text) < PATH_STATE_DYNAMIC_CONTENT_MAX
       then (if appending then old else []) @ text else if appending then old else [])) \<and>
    r = (if length ((if appending then old else []) @ text) < PATH_STATE_DYNAMIC_CONTENT_MAX then 0 else - 1)"
proof -
  define base where "base = (if appending then old else [])"
  have f: "df_used (fs ! i)" "df_path (fs ! i) = p" "c_string p" "length (df_content (fs ! i)) < PATH_STATE_DYNAMIC_CONTENT_MAX"
    using assms(1-3) by (auto simp: file_key_def files_wf_def split: if_splits)
  have "length old < PATH_STATE_DYNAMIC_CONTENT_MAX"
    using f(4) seed_short seed_find [OF f(3)] seed_index [of p] unfolding old_def PATH_STATE_DYNAMIC_CONTENT_MAX_def
    by (fastforce split: option.split)
  then have b: "length base < PATH_STATE_DYNAMIC_CONTENT_MAX"
    by (simp add: base_def PATH_STATE_DYNAMIC_CONTENT_MAX_def)
  have o: "old = (if created then case seed_map p of None \<Rightarrow> df_content (fs ! i) | Some c \<Rightarrow> c else df_content (fs ! i))"
    using assms(5) by (auto simp: old_def split: option.split)
  have w: "write_dynamic_file fs i created p (Some text) appending =
    (if length base + length text < PATH_STATE_DYNAMIC_CONTENT_MAX
     then (0, fs[i := (fs ! i) \<lparr> df_content := base @ text \<rparr>])
     else (- 1, fs[i := (fs ! i) \<lparr> df_content := base \<rparr>]))"
    using write_dynamic_file_result [OF f(3), where fs = fs and i = i and created = created and content = "Some text" and appending = appending]
    unfolding o [symmetric] by (simp add: base_def Let_def)
  show ?thesis
    using dynamic_map_update [OF assms(1,2), of "(fs ! i) \<lparr> df_content := base @ text \<rparr>"]
      dynamic_map_update [OF assms(1,2), of "(fs ! i) \<lparr> df_content := base \<rparr>"] f assms(3,4) b
    unfolding w base_def [symmetric] by (auto split: if_splits)
qed

lemma file_map_upd: "dynamic_map fs' = (dynamic_map fs)(p \<mapsto> c) \<Longrightarrow> file_map fs' = (file_map fs)(p \<mapsto> c)"
  by (simp add: file_map_def)

lemma file_map_upd_twice: "dynamic_map fs' = (dynamic_map fs)(p \<mapsto> c, p \<mapsto> d) \<Longrightarrow> file_map fs' = (file_map fs)(p \<mapsto> d)"
  by (simp add: file_map_def)

lemma write_files_wf:
  assumes "path_state_wf ps" "file_name_ok (ps_tree ps) ds" "files_wf fs" "file_map fs = (ps_files ps)(render True ds \<mapsto> c)"
  shows "path_state_wf (ps \<lparr> dynamic_files := fs \<rparr>)"
  using assms by (auto simp: path_state_wf_def)

lemma walk_render:
  assumes "dir_wf tree" "abs_dirs ds" "set ds \<subseteq> Collect c_string" "length (render True ds) < 256"
  shows "if ds \<in> dirs tree then \<exists>j. fs_dir_walk tree (render True ds) = Some (Some j)
    else fs_dir_walk tree (render True ds) = Some None"
  using fs_dir_walk_wf [OF assms(1) c_string_render [OF assms(3)]] target_render [OF assms(1,2,4)]
  by (auto split: if_splits)

lemma path_state_write_lemma:
  assumes wf: "path_state_wf ps" and c: "c_string path"
  shows "\<exists>r ps'. path_state_write_file ps (Some path) (Some text) appending = Some (r, ps') \<and>
    path_state_wf ps' \<and> default_context ps' = default_context ps \<and>
    (case named (ps_tree ps) path of
       None \<Rightarrow> r = - 1 \<and> ps' = ps
     | Some ds \<Rightarrow>
         let p = render True ds; old = (case ps_files ps p of None \<Rightarrow> [] | Some c \<Rightarrow> c);
             base = (if appending then old else [])
         in if \<not> file_name_ok (ps_tree ps) ds \<or> \<not> write_room ps p then r = - 1 \<and> ps' = ps
            else if length base + length text < PATH_STATE_DYNAMIC_CONTENT_MAX
            then r = 0 \<and> ps_files ps' = (ps_files ps)(p \<mapsto> base @ text)
            else r = - 1 \<and> ps_files ps' = (ps_files ps)(p \<mapsto> base))"
proof (cases "named (ps_tree ps) path")
  case None
  then show ?thesis
    using wf path_state_wfD [OF wf] by (simp add: path_state_write_file_def resolve_named)
next
  case (Some ds)
  note d = path_state_wfD [OF wf]
  note n = named_wf [OF d(2) c Some]
  have res: "resolve_to_absolute (default_context ps) (Some path) FS_PATH_MAX = Some (render True ds)"
    using resolve_named [OF d(2)] Some by simp
  show ?thesis
  proof (cases "ds = []")
    case True
    then show ?thesis
      using wf d res Some by (simp add: path_state_write_file_def file_name_ok_def render_def)
  next
    case False
    have root: "render True ds \<noteq> ''/''"
      using False render_root_iff [OF n(1)] by simp
    have par: "path_parent (render True ds) FS_PATH_MAX = Some (render True (butlast ds))"
      using path_parent_render [OF n(1) False] n(3) by (simp add: FS_PATH_MAX_def)
    have "length (render True (butlast ds)) \<le> length (render True ds)"
      using length_render_append [of "butlast ds" "[last ds]"] False by simp
    note shorter = this
    have wp: "if butlast ds \<in> dirs (ps_tree ps) then \<exists>j. fs_dir_walk (ps_tree ps) (render True (butlast ds)) = Some (Some j)
        else fs_dir_walk (ps_tree ps) (render True (butlast ds)) = Some None"
    proof (rule walk_render [OF d(2)])
      have "set (butlast ds) \<subseteq> set ds" by (auto dest: in_set_butlastD)
      then show "abs_dirs (butlast ds)" "set (butlast ds) \<subseteq> Collect c_string"
        using n(1,2) by (auto simp: abs_dirs_def)
    qed (use shorter n(3) in simp)
    note wd = walk_render [OF d(2) n(1,2,3)]
    show ?thesis
    proof (cases "file_name_ok (ps_tree ps) ds")
      case False
      then have "butlast ds \<notin> dirs (ps_tree ps) \<or> ds \<in> dirs (ps_tree ps)"
        using n \<open>ds \<noteq> []\<close> by (simp add: file_name_ok_def FS_PATH_MAX_def)
      then show ?thesis
        using wf d res Some root par wp wd False by (auto simp: path_state_write_file_def Let_def split: if_splits)
    next
      case ok: True
      then have in_dirs: "butlast ds \<in> dirs (ps_tree ps)" "ds \<notin> dirs (ps_tree ps)"
        by (simp_all add: file_name_ok_def)
      have pc: "c_string (render True ds)" "length (render True ds) < FS_PATH_MAX"
        using n(3,4) by (simp_all add: FS_PATH_MAX_def)
      define p where "p = render True ds"
      let ?fs = "dynamic_files ps"
      show ?thesis
      proof (cases "dynamic_file_index_by_absolute ?fs p")
        case (Some i)
        note i = dynamic_find [OF d(3) pc(1), folded p_def]
        obtain r fs' where wr: "write_dynamic_file ?fs i False p (Some text) appending = (r, fs')" by force
        from i(2) [OF Some] have ii: "i < length ?fs" "file_key (?fs ! i) = Some p" by simp_all
        note w = write_in_place [OF d(3) ii wr, simplified]
        have call: "path_state_write_file ps (Some path) (Some text) appending = Some (r, ps \<lparr> dynamic_files := fs' \<rparr>)"
          using d res root par wp wd in_dirs Some wr
          by (auto simp: path_state_write_file_def Let_def p_def [symmetric] split: if_splits)
        have old: "ps_files ps p = Some (df_content (?fs ! i))" "write_room ps p"
          using i(1) Some by (simp_all add: file_map_def write_room_def)
        have "path_state_wf (ps \<lparr> dynamic_files := fs' \<rparr>)"
          using w write_files_wf [OF wf ok, of fs'] file_map_upd [of fs' ?fs] p_def by blast
        then show ?thesis
          using call w old ok \<open>named (ps_tree ps) path = Some ds\<close> file_map_upd [of fs' ?fs p]
          by (auto simp: p_def [symmetric] Let_def split: if_splits)
      next
        case None
        then have free: "dynamic_map ?fs p = None"
          using dynamic_find(1) [OF d(3) pc(1)] by (simp add: p_def)
        note al = alloc_result [OF d(3) pc [folded p_def] free]
        show ?thesis
        proof (cases "card (dom (dynamic_map ?fs)) < PATH_STATE_DYNAMIC_MAX_FILES")
          case False
          then have "path_state_write_file ps (Some path) (Some text) appending = Some (- 1, ps)" "\<not> write_room ps p"
            using d res root par wp wd in_dirs None al free
            by (auto simp: path_state_write_file_def Let_def p_def [symmetric] write_room_def split: if_splits)
          then show ?thesis
            using wf \<open>named (ps_tree ps) path = Some ds\<close> by (simp add: p_def [symmetric] Let_def)
        next
          case True
          then obtain i fs1 where al: "dynamic_file_index_alloc ?fs p = (Some i, fs1)" "i < length fs1"
            "file_key (fs1 ! i) = Some p" "df_content (fs1 ! i) = []" "files_wf fs1"
            "dynamic_map fs1 = (dynamic_map ?fs)(p \<mapsto> [])"
            using al by auto
          obtain r fs' where wr: "write_dynamic_file fs1 i True p (Some text) appending = (r, fs')" by force
          note w = write_in_place [OF al(5,2,3) wr al(4), simplified]
          have call: "path_state_write_file ps (Some path) (Some text) appending = Some (r, ps \<lparr> dynamic_files := fs' \<rparr>)"
            using d res root par wp wd in_dirs None al(1) wr
            by (auto simp: path_state_write_file_def Let_def p_def [symmetric] split: if_splits)
          have old: "ps_files ps p = seed_map p" "write_room ps p"
            using free True by (simp_all add: file_map_def write_room_def map_add_def)
          have "path_state_wf (ps \<lparr> dynamic_files := fs' \<rparr>)"
            using w write_files_wf [OF wf ok, of fs'] file_map_upd_twice [of fs' ?fs p "[]"] al(6) p_def by metis
          then show ?thesis
            using call w old ok al(6) \<open>named (ps_tree ps) path = Some ds\<close> file_map_upd_twice [of fs' ?fs p "[]"]
            by (auto simp: p_def [symmetric] Let_def split: if_splits)
        qed
      qed
    qed
  qed
qed

subsection \<open>The other operations\<close>

lemma seed_text: "seed_map p = Some c \<Longrightarrow> c_text c = c"
  by (auto simp: seed_map_def seed_files_def c_text_def split: if_splits)

lemma path_state_cat_lemma:
  assumes "path_state_wf ps" "c_string path"
  shows "path_state_cat ps (Some path) =
    Some (Option.bind (named (ps_tree ps) path) (\<lambda>ds. map_option c_text (ps_files ps (render True ds))), ps)"
proof -
  note d = path_state_wfD [OF assms(1)]
  show ?thesis
  proof (cases "named (ps_tree ps) path")
    case None
    then show ?thesis
      using d resolve_named [OF d(2)]
      by (simp add: path_state_cat_def on_default_def path_state_context_cat_def)
  next
    case (Some ds)
    note n = named_wf [OF d(2) assms(2) Some]
    let ?p = "render True ds"
    have run: "path_state_cat ps (Some path) = Some (case dynamic_file_index_by_absolute (dynamic_files ps) ?p of
        Some i \<Rightarrow> Some (c_text (df_content (dynamic_files ps ! i)))
      | None \<Rightarrow> map_option (\<lambda>i. pf_content (seed_files ! i)) (file_index_by_absolute ?p), ps)"
      using d(4) resolve_named [OF d(2), of path] Some
      by (cases "dynamic_file_index_by_absolute (dynamic_files ps) ?p"; cases "file_index_by_absolute ?p")
        (simp_all add: path_state_cat_def on_default_def path_state_context_cat_def)
    have seed: "map_option c_text (seed_map ?p) = seed_map ?p"
      using seed_text [of ?p] by (cases "seed_map ?p") auto
    show ?thesis
      using dynamic_find(1) [OF d(3) n(4)] seed unfolding run Some seed_find [OF n(4), symmetric]
      by (cases "dynamic_file_index_by_absolute (dynamic_files ps) ?p") (simp_all add: file_map_def map_add_def)
  qed
qed

lemma path_state_mkdir_lemma:
  assumes "path_state_wf ps" "c_string path"
  shows "\<exists>r ps'. path_state_mkdir ps (Some path) = Some (r, ps') \<and> path_state_wf ps' \<and> dynamic_files ps' = dynamic_files ps \<and>
    (if (\<exists>ds. named (ps_tree ps) path = Some ds \<and> file_name_ok (ps_tree ps) ds \<and> ps_files ps (render True ds) = None \<and>
          length (last ds) \<le> FS_DIR_NAME_MAX \<and> node_count (ps_tree ps) < FS_DIR_MAX_NODES)
     then r = 0 \<and> dirs (ps_tree ps') = insert (the (named (ps_tree ps) path)) (dirs (ps_tree ps))
     else r = - 1 \<and> ps' = ps)"
proof (cases "named (ps_tree ps) path")
  case None
  then show ?thesis
    using assms(1) path_state_wfD(4) [OF assms(1)] resolve_named [OF path_state_wfD(2) [OF assms(1)], of path]
    by (simp add: path_state_mkdir_def on_default_def path_state_context_mkdir_def)
next
  case (Some ds)
  note d = path_state_wfD [OF assms(1)]
  note n = named_wf [OF d(2) assms(2) Some]
  have res: "resolve_to_absolute (default_context ps) (Some path) FS_PATH_MAX = Some (render True ds)"
    using resolve_named [OF d(2)] Some by simp
  have nofile: "ps_files ps (render True ds) = None \<longleftrightarrow> file_index_by_absolute (render True ds) = None \<and>
      dynamic_file_index_by_absolute (dynamic_files ps) (render True ds) = None"
    using seed_find [OF n(4)] dynamic_find(1) [OF d(3) n(4)] by (auto simp: file_map_def)
  have root: "render True ds = ''/'' \<longleftrightarrow> ds = []"
    using render_root_iff [OF n(1)] .
  show ?thesis
  proof (cases "ds \<noteq> [] \<and> ps_files ps (render True ds) = None")
    case False
    then have "path_state_mkdir ps (Some path) = Some (- 1, ps)"
      using d(4) res root nofile
      by (cases "ds = []"; cases "file_index_by_absolute (render True ds)")
        (simp_all add: path_state_mkdir_def on_default_def path_state_context_mkdir_def)
    moreover have "\<not> (file_name_ok (ps_tree ps) ds \<and> ps_files ps (render True ds) = None)"
      using False by (auto simp: file_name_ok_def)
    ultimately show ?thesis
      using assms(1) Some by auto
  next
    case True
    note m = fs_dir_mkdir_wf [OF d(2) n(4), unfolded n(5) Let_def]
    have cond: "path_fits (ps_tree ps) (render True ds) \<and> ds \<notin> dirs (ps_tree ps) \<and> butlast ds \<in> dirs (ps_tree ps) \<and>
        length (last ds) \<le> FS_DIR_NAME_MAX \<and> node_count (ps_tree ps) < FS_DIR_MAX_NODES \<longleftrightarrow>
        file_name_ok (ps_tree ps) ds \<and> length (last ds) \<le> FS_DIR_NAME_MAX \<and> node_count (ps_tree ps) < FS_DIR_MAX_NODES"
      using n True by (auto simp: file_name_ok_def FS_PATH_MAX_def)
    obtain r tree where mk: "fs_dir_mkdir (ps_tree ps) (render True ds) = Some (r, tree)"
      "if file_name_ok (ps_tree ps) ds \<and> length (last ds) \<le> FS_DIR_NAME_MAX \<and> node_count (ps_tree ps) < FS_DIR_MAX_NODES
       then r = 0 \<and> extends (ps_tree ps) tree \<and> dirs tree = insert ds (dirs (ps_tree ps)) else r = - 1 \<and> tree = ps_tree ps"
      using m unfolding cond by (auto split: if_splits)
    define ps' where "ps' = ps \<lparr> default_context := (default_context ps) \<lparr> ctx_tree := tree \<rparr> \<rparr>"
    have call: "path_state_mkdir ps (Some path) = Some (r, ps')"
      using d res root nofile True mk(1)
      by (simp add: path_state_mkdir_def on_default_def path_state_context_mkdir_def ps'_def)
    have "path_state_wf ps'"
    proof (cases "r = 0")
      case ok: True
      then have t: "extends (ps_tree ps) tree" "dirs tree = insert ds (dirs (ps_tree ps))"
        using mk(2) by (auto split: if_splits)
      have "file_name_ok tree es" if "file_name_ok (ps_tree ps) es" "es \<noteq> ds" for es
        using that t(2) by (auto simp: file_name_ok_def)
      moreover have "render True es \<notin> dom (ps_files ps)" if "es = ds" for es
        using that True by auto
      ultimately show ?thesis
        using assms(1) t(1) unfolding path_state_wf_def ps'_def extends_def by (simp add: Ball_def) metis
    next
      case False
      then show ?thesis using mk(2) assms(1) by (simp add: ps'_def split: if_splits)
    qed
    then show ?thesis
      using call mk(2) Some True by (auto simp: ps'_def split: if_splits)
  qed
qed

lemma path_state_cd_lemma:
  assumes "path_state_wf ps" "c_string path"
  shows "\<exists>r ps'. path_state_cd ps (Some path) = Some (r, ps') \<and> path_state_wf ps' \<and> dynamic_files ps' = dynamic_files ps \<and>
    dirs (ps_tree ps') = dirs (ps_tree ps)"
proof -
  note d = path_state_wfD [OF assms(1)]
  obtain r tree where cd: "fs_dir_cd (ps_tree ps) path = Some (r, tree)" "dir_wf tree" "dirs tree = dirs (ps_tree ps)"
    using fs_dir_cd_wf [OF d(2) assms(2)] dir_wf_cwd [OF d(2)] d(2) by (auto split: if_splits)
  then show ?thesis
    using assms(1) d by (auto simp: path_state_cd_def on_default_def path_state_context_cd_def path_state_wf_def
        file_name_ok_def)
qed

lemma target_top:
  assumes "dir_wf tree" "dir_name d" "length d < 200"
  shows "target tree (''/'' @ d) = [d]" "path_fits tree (''/'' @ d)" "c_string d \<Longrightarrow> c_string (''/'' @ d)"
  using target_render [OF assms(1), of "[d]"] assms by (simp_all add: abs_dirs_def render_def)

lemma mkdir_top:
  assumes "dir_wf tree" "dir_name d" "c_string d" "length d \<le> FS_DIR_NAME_MAX" "[d] \<notin> dirs tree" "node_count tree < FS_DIR_MAX_NODES"
  shows "\<exists>tree'. fs_dir_mkdir tree (''/'' @ d) = Some (0, tree') \<and> extends tree tree' \<and> dirs tree' = insert [d] (dirs tree)"
  using fs_dir_mkdir_wf [OF assms(1), of "''/'' @ d"] target_top [OF assms(1,2)] assms root_in_dirs [OF assms(1)]
  by (simp add: FS_DIR_NAME_MAX_def)

lemma mkdir_p_top:
  assumes "dir_wf tree" "dir_name d" "c_string d" "length d < 200" "[d] \<in> dirs tree"
  shows "\<exists>tree'. fs_dir_mkdir_p tree (''/'' @ d) = Some (0, tree') \<and> extends tree tree' \<and> dirs tree' = dirs tree"
proof -
  note t = target_top [OF assms(1,2,4)]
  have "{q. prefix q [d]} \<subseteq> dirs tree"
    using dirs_prefixes [OF assms(1,5)] by blast
  then show ?thesis
    using fs_dir_mkdir_p_wf [OF assms(1) t(3) [OF assms(3)]] can_make_dirs [OF assms(1,5)] t(1,2) by auto
qed

lemma node_count_dirs: "dir_wf tree \<Longrightarrow> card (dirs tree) = node_count tree"
  unfolding dirs_def by (subst card_image) (auto intro!: inj_onI dest: path_of_inj)

lemma parent_const: "path_parent (''/'' @ a @ ''/'' @ b) 256 = Some (''/'' @ a)"
  if "CHR ''/'' \<notin> set a" "CHR ''/'' \<notin> set b" "length a < 200" "a \<noteq> []"
  using that last_slash_scan_last [of b 0 0 "''/'' @ a"] by (simp add: path_parent_def Let_def)

lemma ensure_directories_top:
  assumes "dir_wf tree" "distinct ds" "card (dirs tree) + length ds \<le> FS_DIR_MAX_NODES"
    and "\<forall>d \<in> set ds. dir_name d \<and> c_string d \<and> length d \<le> FS_DIR_NAME_MAX \<and> [d] \<notin> dirs tree"
  shows "\<exists>tree'. ensure_directories (map (\<lambda>d. ''/'' @ d) ds) tree = Some (0, tree') \<and> extends tree tree' \<and>
    dirs tree' = dirs tree \<union> (\<lambda>d. [d]) ` set ds"
  using assms
proof (induction ds arbitrary: tree)
  case (Cons d ds)
  obtain t1 where t1: "fs_dir_mkdir tree (''/'' @ d) = Some (0, t1)" "extends tree t1" "dirs t1 = insert [d] (dirs tree)"
    using mkdir_top [OF Cons.prems(1), of d] Cons.prems node_count_dirs [OF Cons.prems(1)] by auto
  have "finite (dirs tree)"
    by (simp add: dirs_def)
  then have "card (dirs t1) + length ds \<le> FS_DIR_MAX_NODES" "dir_wf t1"
    using t1 Cons.prems by (simp_all add: extends_def)
  then obtain t2 where "ensure_directories (map (\<lambda>d. ''/'' @ d) ds) t1 = Some (0, t2)" "extends t1 t2"
    "dirs t2 = dirs t1 \<union> (\<lambda>d. [d]) ` set ds"
    using Cons.IH [of t1] Cons.prems t1(3) by auto
  then show ?case
    using t1 extends_trans [of tree t1 t2] by auto
qed (simp add: extends_refl)

lemma ensure_seeds_top:
  assumes "dir_wf tree" "[''etc''] \<in> dirs tree" "[''home''] \<in> dirs tree"
  shows "\<exists>tree'. ensure_seed_parents seed_files tree = Some (0, tree') \<and> extends tree tree' \<and> dirs tree' = dirs tree"
proof -
  have p: "path_parent ''/hello.txt'' 256 = Some ''/''" "path_parent ''/etc/motd'' 256 = Some ''/etc''"
    "path_parent ''/home/readme.txt'' 256 = Some ''/home''"
    by (simp_all add: path_parent_def)
  obtain t1 where t1: "fs_dir_mkdir_p tree ''/etc'' = Some (0, t1)" "dir_wf t1" "dirs t1 = dirs tree" "extends tree t1"
    using mkdir_p_top [OF assms(1), of "''etc''"] assms(2) by (auto simp: dir_name_def name_ok_def extends_def)
  obtain t2 where t2: "fs_dir_mkdir_p t1 ''/home'' = Some (0, t2)" "dir_wf t2" "dirs t2 = dirs t1" "extends t1 t2"
    using mkdir_p_top [OF t1(2), of "''home''"] assms(3) t1(3) by (auto simp: dir_name_def name_ok_def extends_def)
  have ne: "ps_strcmp ''/'' ''/'' = 0" "ps_strcmp ''/etc'' ''/'' \<noteq> 0" "ps_strcmp ''/home'' ''/'' \<noteq> 0"
    by (simp_all add: ps_strcmp_def)
  show ?thesis
    using t1 t2 extends_trans [OF t1(4) t2(4)] by (simp add: seed_files_def p ne FS_PATH_MAX_def)
qed

text \<open>The directories of a fresh file system.\<close>

lemma ensure_initialized_fresh:
  assumes "\<not> ctx_ready ctx"
  shows "\<exists>ctx'. ensure_initialized ctx = Some (0, ctx') \<and> ctx_ready ctx' \<and> dir_wf (ctx_tree ctx') \<and>
    dirs (ctx_tree ctx') = {[], [''etc''], [''home''], [''tmp'']} \<and> extends fs_dir_init (ctx_tree ctx')"
proof -
  let ?ds = "[''etc'', ''home'', ''tmp'']"
  obtain t1 where t1: "ensure_directories [''/etc'', ''/home'', ''/tmp''] fs_dir_init = Some (0, t1)" "dir_wf t1" "extends fs_dir_init t1"
    "dirs t1 = {[]} \<union> (\<lambda>d. [d]) ` set ?ds"
    using ensure_directories_top [of fs_dir_init ?ds]
    by (auto simp: dir_name_def name_ok_def FS_DIR_NAME_MAX_def FS_DIR_MAX_NODES_def extends_def)
  obtain t2 where t2: "ensure_seed_parents seed_files t1 = Some (0, t2)" "dir_wf t2" "dirs t2 = dirs t1" "extends t1 t2"
    using ensure_seeds_top [OF t1(2)] t1(4) by (auto simp: extends_def)
  show ?thesis
    using assms t1 t2 extends_trans [OF t1(3) t2(4)] by (auto simp: ensure_initialized_def)
qed

lemma dynamic_map_reset: "dynamic_map dynamic_files_reset = Map.empty"
  by (auto simp: dynamic_files_reset_def file_key_def unused_file_def dynamic_map_def fun_eq_iff map_of_eq_None_iff)

lemma path_state_init_lemma:
  "\<exists>ps'. path_state_init ps = Some ps' \<and> path_state_wf ps' \<and> dirs (ps_tree ps') = {[], [''etc''], [''home''], [''tmp'']} \<and>
     ps_files ps' = seed_map \<and> dynamic_files ps' = dynamic_files_reset \<and> cwd_names (ps_tree ps') = []"
proof -
  obtain ctx where c: "ensure_initialized (path_state_context_init (default_context ps)) = Some (0, ctx)"
    "ctx_ready ctx" "dir_wf (ctx_tree ctx)" "dirs (ctx_tree ctx) = {[], [''etc''], [''home''], [''tmp'']}"
    "extends fs_dir_init (ctx_tree ctx)"
    using ensure_initialized_fresh [of "path_state_context_init (default_context ps)"]
    by (auto simp: path_state_context_init_def)
  define ps' where "ps' = \<lparr> default_context = ctx, dynamic_files = dynamic_files_reset \<rparr>"
  have f: "files_wf dynamic_files_reset" "dynamic_map dynamic_files_reset = Map.empty"
    by (auto simp: files_wf_def dynamic_files_reset_def file_key_def unused_file_def dynamic_map_reset [unfolded dynamic_files_reset_def unused_file_def])
  have "\<exists>ds. p = render True ds \<and> file_name_ok (ctx_tree ctx) ds" if "p \<in> dom seed_map" for p
  proof -
    have "p = render True [''hello.txt''] \<or> p = render True [''etc'', ''motd''] \<or> p = render True [''home'', ''readme.txt'']"
      using that by (auto simp: seed_map_def seed_files_def render_def split: if_splits)
    moreover have "file_name_ok (ctx_tree ctx) [''hello.txt'']" "file_name_ok (ctx_tree ctx) [''etc'', ''motd'']"
      "file_name_ok (ctx_tree ctx) [''home'', ''readme.txt'']"
      by (simp_all add: file_name_ok_def c(4) abs_dirs_def dir_name_def name_ok_def render_def FS_PATH_MAX_def)
    ultimately show ?thesis by blast
  qed
  then have "path_state_wf ps'"
    using c f by (simp add: path_state_wf_def ps'_def file_map_def)
  moreover have "ps_files ps' = seed_map"
    using f by (simp add: ps'_def file_map_def)
  moreover have "cwd_names (ps_tree ps') = []"
    using c(5) by (simp add: extends_def cwd_names_def fs_dir_init_nodes ps'_def)
  ultimately show ?thesis
    using c by (auto simp: path_state_init_def ps'_def)
qed

lemma path_state_pwd_lemma:
  assumes "path_state_wf ps"
  shows "path_state_pwd ps n =
    Some (if length (render True (cwd_names (ps_tree ps))) < n then Some (render True (cwd_names (ps_tree ps))) else None, ps)"
  using path_state_wfD [OF assms] fs_dir_pwd_wf [of "ps_tree ps" n]
  by (simp add: path_state_pwd_def on_default_def path_state_context_pwd_def)

lemma path_state_ls_returns:
  assumes "path_state_wf ps" "c_string path"
  shows "\<exists>listed. path_state_ls ps (Some path) entries = Some (listed, ps)"
proof (cases "named (ps_tree ps) path")
  case None
  then show ?thesis
    using path_state_wfD(4) [OF assms(1)] resolve_named [OF path_state_wfD(2) [OF assms(1)], of path]
    by (simp add: path_state_ls_def on_default_def path_state_context_ls_def)
next
  case (Some ds)
  note d = path_state_wfD [OF assms(1)]
  have "c_string (render True ds)"
    by (rule named_wf(4) [OF d(2) assms(2) Some])
  then obtain r names count where rd: "fs_dir_readdir (ps_tree ps) (render True ds) (Some FS_DIR_MAX_NODES) = Some (r, names, count)"
    using fs_dir_readdir_wf [OF d(2), of "render True ds" "Some FS_DIR_MAX_NODES"]
    by (simp add: Let_def split: if_splits)
  then show ?thesis
    using d(4) resolve_named [OF d(2), of path] Some
    by (simp add: path_state_ls_def on_default_def path_state_context_ls_def)
qed

subsection \<open>Runs\<close>

datatype path_call = PsCd string | PsMkdir string | PsWrite string string bool

fun path_step :: "path_state \<Rightarrow> path_call \<Rightarrow> path_state option" where
  "path_step ps (PsCd path) = map_option snd (path_state_cd ps (Some path))"
| "path_step ps (PsMkdir path) = map_option snd (path_state_mkdir ps (Some path))"
| "path_step ps (PsWrite path str appending) = map_option snd (path_state_write_file ps (Some path) (Some str) appending)"

fun path_admits :: "path_call \<Rightarrow> bool" where
  "path_admits (PsCd path) = c_string path"
| "path_admits (PsMkdir path) = c_string path"
| "path_admits (PsWrite path str appending) = c_string path"

definition path_leq :: "path_state \<Rightarrow> path_state \<Rightarrow> bool" where
  "path_leq a b \<longleftrightarrow> dirs (ps_tree a) \<subseteq> dirs (ps_tree b) \<and> dom (ps_files a) \<subseteq> dom (ps_files b)"

lemma path_state_write_dom:
  assumes "path_state_wf ps" "c_string path"
  shows "\<exists>r ps'. path_state_write_file ps (Some path) (Some str) appending = Some (r, ps') \<and> path_state_wf ps' \<and>
    default_context ps' = default_context ps \<and> dom (ps_files ps) \<subseteq> dom (ps_files ps')"
proof -
  note w = path_state_write_lemma [OF assms, of str appending]
  show ?thesis
  proof (cases "named (ps_tree ps) path")
    case None
    then show ?thesis using w by auto
  next
    case (Some ds)
    have "\<exists>r ps'. path_state_write_file ps (Some path) (Some str) appending = Some (r, ps') \<and> path_state_wf ps' \<and>
        default_context ps' = default_context ps \<and> (ps' = ps \<or> (\<exists>c. ps_files ps' = (ps_files ps)(render True ds \<mapsto> c)))"
      using w unfolding Some option.case Let_def by meson
    then show ?thesis by fastforce
  qed
qed

lemma path_step_safe:
  assumes "path_state_wf ps" "path_admits call"
  shows "\<exists>ps'. path_step ps call = Some ps' \<and> path_state_wf ps' \<and> path_leq ps ps'"
proof (cases call)
  case (PsCd path)
  then show ?thesis
    using path_state_cd_lemma [OF assms(1), of path] assms(2) by (auto simp: path_leq_def)
next
  case (PsMkdir path)
  then show ?thesis
    using path_state_mkdir_lemma [OF assms(1), of path] assms(2) by (auto simp: path_leq_def split: if_splits)
next
  case (PsWrite path str appending)
  obtain r ps' where w: "path_state_write_file ps (Some path) (Some str) appending = Some (r, ps')" "path_state_wf ps'"
    "default_context ps' = default_context ps" "dom (ps_files ps) \<subseteq> dom (ps_files ps')"
    using path_state_write_dom [OF assms(1), of path str appending] assms(2) PsWrite by auto
  then show ?thesis
    using PsWrite by (auto simp: path_leq_def)
qed

interpretation path_machine: growing_machine path_step path_admits path_state_wf path_leq
proof unfold_locales
  show "\<exists>s'. path_step s a = Some s' \<and> path_state_wf s'" if "path_state_wf s" "path_admits a" for s a
    using path_step_safe [OF that] by blast
  show "path_leq s s'" if "path_state_wf s" "path_admits a" "path_step s a = Some s'" for s a s'
    using path_step_safe [OF that(1,2)] that(3) by auto
qed (simp add: path_leq_def, unfold path_leq_def, meson subset_trans)

text \<open>The file that a write writes, and that contents change in no other way.\<close>

definition writes_file :: "path_state \<Rightarrow> path_call \<Rightarrow> string \<Rightarrow> bool" where
  "writes_file ps call p \<longleftrightarrow>
     (case call of PsWrite path str appending \<Rightarrow> map_option (render True) (named (ps_tree ps) path) = Some p | _ \<Rightarrow> False)"

lemma step_contents:
  assumes "path_state_wf ps" "path_admits call" "path_step ps call = Some ps'" "ps_files ps' p \<noteq> ps_files ps p"
  shows "writes_file ps call p"
proof (cases call)
  case (PsCd path)
  then show ?thesis
    using path_state_cd_lemma [OF assms(1), of path] assms(2-4) by auto
next
  case (PsMkdir path)
  then show ?thesis
    using path_state_mkdir_lemma [OF assms(1), of path] assms(2-4) by (auto split: if_splits)
next
  case (PsWrite path str appending)
  have c: "c_string path" and w: "\<exists>r. path_state_write_file ps (Some path) (Some str) appending = Some (r, ps')"
    using assms(2,3) PsWrite by auto
  note lemma_w = path_state_write_lemma [OF assms(1) c, of str appending]
  show ?thesis
  proof (cases "named (ps_tree ps) path")
    case None
    then show ?thesis
      using lemma_w w assms(4) by auto
  next
    case (Some ds)
    have "ps' = ps \<or> (\<exists>c. ps_files ps' = (ps_files ps)(render True ds \<mapsto> c))"
      using lemma_w w unfolding Some option.case Let_def by (metis option.inject prod.inject)
    then have "p = render True ds"
      using assms(4) by (auto split: if_splits)
    then show ?thesis
      by (simp add: writes_file_def PsWrite Some)
  qed
qed

lemma run_contents:
  "path_state_wf ps \<Longrightarrow> list_all path_admits calls \<Longrightarrow> run_steps path_step ps calls = Some ps' \<Longrightarrow> ps_files ps' p \<noteq> ps_files ps p \<Longrightarrow>
   \<exists>before call after s. calls = before @ call # after \<and> run_steps path_step ps before = Some s \<and> writes_file s call p"
proof (induction calls arbitrary: ps)
  case (Cons call calls)
  obtain t where t: "path_step ps call = Some t" "path_state_wf t"
    using path_step_safe [OF Cons.prems(1), of call] Cons.prems(2) by auto
  show ?case
  proof (cases "ps_files t p = ps_files ps p")
    case True
    then obtain before call' after s where "calls = before @ call' # after" "run_steps path_step t before = Some s" "writes_file s call' p"
      using Cons.IH [OF t(2)] Cons.prems t(1) by auto
    then show ?thesis
      using t(1) by (intro exI [of _ "call # before"]) auto
  next
    case False
    then have "writes_file ps call p"
      using step_contents [OF Cons.prems(1) _ t(1)] Cons.prems(2) by simp
    then show ?thesis
      by (intro exI [of _ "[]"]) auto
  qed
qed simp

text \<open>
  C23: After initialisation, any sequence of cd, mkdir and write calls returns and keeps the file
  system a tree: every file lies in an existing directory, no path is both file and directory,
  no two table entries name the same file, no file exceeds 511 characters. And it loses nothing: the four
  directories and three seed files of the start, and every directory and every file there is at any
  point of the sequence, are there at every later point; and a file has the same contents then, unless one of the
  calls in between was a write whose path, resolved at that time, names that very file.
\<close>

theorem path_state_run_wf:
  assumes "list_all path_admits (calls @ later)"
  shows "\<exists>ps0 ps1 ps2. path_state_init ps = Some ps0 \<and> run_steps path_step ps0 calls = Some ps1 \<and> run_steps path_step ps1 later = Some ps2 \<and>
    path_state_wf ps1 \<and> path_state_wf ps2 \<and>
    {[], [''etc''], [''home''], [''tmp'']} \<subseteq> dirs (ps_tree ps1) \<and>
    {''/hello.txt'', ''/etc/motd'', ''/home/readme.txt''} \<subseteq> dom (ps_files ps1) \<and>
    dirs (ps_tree ps1) \<subseteq> dirs (ps_tree ps2) \<and> dom (ps_files ps1) \<subseteq> dom (ps_files ps2) \<and>
    (\<forall>p. ps_files ps2 p = ps_files ps1 p \<or>
      (\<exists>before call after s. later = before @ call # after \<and> run_steps path_step ps1 before = Some s \<and> writes_file s call p))"
proof -
  have a: "list_all path_admits calls" "list_all path_admits later"
    using assms by simp_all
  obtain ps0 where p: "path_state_init ps = Some ps0" "path_state_wf ps0"
    "dirs (ps_tree ps0) = {[], [''etc''], [''home''], [''tmp'']}" "ps_files ps0 = seed_map"
    using path_state_init_lemma by blast
  obtain ps1 where r: "run_steps path_step ps0 calls = Some ps1" "path_state_wf ps1"
    using path_machine.run_safe [OF p(2) a(1)] by blast
  obtain ps2 where m: "run_steps path_step ps1 later = Some ps2" "path_state_wf ps2"
    using path_machine.run_safe [OF r(2) a(2)] by blast
  have l: "path_leq ps0 ps1" "path_leq ps1 ps2"
    using path_machine.run_leq [OF p(2) a(1) r(1)] path_machine.run_leq [OF r(2) a(2) m(1)] by simp_all
  have "{''/hello.txt'', ''/etc/motd'', ''/home/readme.txt''} \<subseteq> dom seed_map"
    by (simp add: seed_map_def seed_files_def)
  then have "{[], [''etc''], [''home''], [''tmp'']} \<subseteq> dirs (ps_tree ps1)" and
    "{''/hello.txt'', ''/etc/motd'', ''/home/readme.txt''} \<subseteq> dom (ps_files ps1)"
    using l(1) unfolding path_leq_def p(3,4) by (simp_all only: subset_trans)
  note start = this
  have contents: "\<forall>q. ps_files ps2 q = ps_files ps1 q \<or>
      (\<exists>before call after s. later = before @ call # after \<and> run_steps path_step ps1 before = Some s \<and> writes_file s call q)"
    using run_contents [OF r(2) a(2) m(1)] by blast
  have "dirs (ps_tree ps1) \<subseteq> dirs (ps_tree ps2)" "dom (ps_files ps1) \<subseteq> dom (ps_files ps2)"
    using l(2) by (simp_all add: path_leq_def)
  note grow = this
  show ?thesis
    by (intro exI [of _ ps0] exI [of _ ps1] exI [of _ ps2] conjI p(1) r m start grow contents)
qed

definition demo_ps :: path_state where
  "demo_ps = \<lparr> default_context = \<lparr> ctx_tree = fs_dir_init, ctx_ready = False \<rparr>, dynamic_files = [] \<rparr>"

theorem path_state_run_wf_witness:
  "\<exists>ps0 ps1 ps2. path_state_init demo_ps = Some ps0 \<and>
     run_steps path_step ps0 [PsMkdir ''/tmp/a'', PsCd ''tmp'', PsWrite ''a/f'' ''text'' False] = Some ps1 \<and>
     run_steps path_step ps1 [PsCd ''/'', PsMkdir ''b''] = Some ps2 \<and> ''/etc/motd'' \<in> dom (ps_files ps2) \<and> ps_files ps2 = ps_files ps1"
proof -
  have no: "\<not> writes_file s call p" if "[PsCd ''/'', PsMkdir ''b''] = before @ call # after" for s call p before after
  proof -
    have "call \<in> set [PsCd ''/'', PsMkdir ''b'']"
      unfolding that by simp
    then show ?thesis
      by (auto simp: writes_file_def)
  qed
  have "list_all path_admits ([PsMkdir ''/tmp/a'', PsCd ''tmp'', PsWrite ''a/f'' ''text'' False] @ [PsCd ''/'', PsMkdir ''b''])"
    by simp
  from path_state_run_wf [OF this, of demo_ps] obtain ps0 ps1 ps2 where
    run: "path_state_init demo_ps = Some ps0" "run_steps path_step ps0 [PsMkdir ''/tmp/a'', PsCd ''tmp'', PsWrite ''a/f'' ''text'' False] = Some ps1"
      "run_steps path_step ps1 [PsCd ''/'', PsMkdir ''b''] = Some ps2"
    and grow: "{''/hello.txt'', ''/etc/motd'', ''/home/readme.txt''} \<subseteq> dom (ps_files ps1)" "dom (ps_files ps1) \<subseteq> dom (ps_files ps2)"
    and same: "\<forall>p. ps_files ps2 p = ps_files ps1 p \<or> (\<exists>before call after s. [PsCd ''/'', PsMkdir ''b''] = before @ call # after \<and>
      run_steps path_step ps1 before = Some s \<and> writes_file s call p)"
    by (elim exE conjE)
  have "ps_files ps2 = ps_files ps1"
    using same no unfolding fun_eq_iff by blast
  moreover have "''/etc/motd'' \<in> dom (ps_files ps2)"
    using grow by blast
  ultimately show ?thesis
    by (intro exI [of _ ps0] exI [of _ ps1] exI [of _ ps2] conjI run)
qed

text \<open>
  C24: What a write does. It returns -1 and changes nothing when the path does not resolve, names the
  root or a directory, has no parent directory, or needs a 33rd dynamic file. Otherwise, if
  the resulting text has at most 511 characters, the file holds exactly that text, the old one, a
  seed file's included, followed by the new one when appending, and no other file changes. If it would be longer
  the call returns -1, and the file is left empty, or with its old text when appending.
\<close>

theorem path_state_write_spec:
  assumes "path_state_wf ps" "c_string path"
  shows "\<exists>r ps'. path_state_write_file ps (Some path) (Some text) appending = Some (r, ps') \<and>
    path_state_wf ps' \<and> default_context ps' = default_context ps \<and>
    (case named (ps_tree ps) path of
       None \<Rightarrow> r = - 1 \<and> ps' = ps
     | Some ds \<Rightarrow>
         let p = render True ds; old = (case ps_files ps p of None \<Rightarrow> [] | Some c \<Rightarrow> c);
             base = (if appending then old else [])
         in if \<not> file_name_ok (ps_tree ps) ds \<or> \<not> write_room ps p then r = - 1 \<and> ps' = ps
            else if length base + length text < PATH_STATE_DYNAMIC_CONTENT_MAX
            then r = 0 \<and> ps_files ps' = (ps_files ps)(p \<mapsto> base @ text)
            else r = - 1 \<and> ps_files ps' = (ps_files ps)(p \<mapsto> base))"
  by (rule path_state_write_lemma [OF assms])

definition demo_files :: path_state where
  "demo_files = (case path_state_init demo_ps of Some ps \<Rightarrow> ps | None \<Rightarrow> demo_ps)"

lemma demo_files:
  "path_state_wf demo_files" "dirs (ps_tree demo_files) = {[], [''etc''], [''home''], [''tmp'']}" "ps_files demo_files = seed_map"
  "dynamic_files demo_files = dynamic_files_reset"
proof -
  obtain ps where "path_state_init demo_ps = Some ps" "path_state_wf ps"
    "dirs (ps_tree ps) = {[], [''etc''], [''home''], [''tmp'']}" "ps_files ps = seed_map" "dynamic_files ps = dynamic_files_reset"
    using path_state_init_lemma [of demo_ps] by blast
  then show "path_state_wf demo_files" "dirs (ps_tree demo_files) = {[], [''etc''], [''home''], [''tmp'']}"
    "ps_files demo_files = seed_map" "dynamic_files demo_files = dynamic_files_reset"
    by (simp_all add: demo_files_def)
qed

lemma demo_render: "render True [''tmp'', ''f''] = ''/tmp/f''"
  by (simp add: render_def)

lemma demo_dirs: "abs_dirs [''tmp'', ''f'']"
  by (simp add: abs_dirs_def dir_name_def name_ok_def)

lemma demo_named: "named (ps_tree demo_files) ''/tmp/f'' = Some [''tmp'', ''f'']"
  using target_render [OF path_state_wfD(2) [OF demo_files(1)] demo_dirs, unfolded demo_render]
  by (simp add: named_def path_input_def)

lemma demo_name_ok: "file_name_ok (ps_tree demo_files) [''tmp'', ''f'']"
  unfolding file_name_ok_def demo_files demo_render using demo_dirs by (simp add: FS_PATH_MAX_def)

theorem path_state_write_spec_witness:
  "\<exists>ps'. path_state_write_file demo_files (Some ''/tmp/f'') (Some ''hi'') False = Some (0, ps') \<and>
     ps_files ps' ''/tmp/f'' = Some ''hi''"
proof -
  have "write_room demo_files ''/tmp/f''"
    by (simp add: write_room_def demo_files dynamic_map_reset PATH_STATE_DYNAMIC_MAX_FILES_def)
  then show ?thesis
    using path_state_write_spec [OF demo_files(1), of "''/tmp/f''" "''hi''" False] demo_name_ok
    by (auto simp: demo_named demo_render PATH_STATE_DYNAMIC_CONTENT_MAX_def)
qed

lemma path_state_write_success:
  assumes "path_state_wf ps" "c_string path" "path_state_write_file ps (Some path) (Some str) appending = Some (0, ps')"
  obtains ds where "named (ps_tree ps) path = Some ds" "path_state_wf ps'" "default_context ps' = default_context ps"
    "ps_files ps' = (ps_files ps)(render True ds \<mapsto>
       (if appending then case ps_files ps (render True ds) of None \<Rightarrow> [] | Some c \<Rightarrow> c else []) @ str)"
  using path_state_write_lemma [OF assms(1,2), of str appending] assms(3)
  by (cases "named (ps_tree ps) path") (simp_all add: Let_def split: if_split_asm)

text \<open>
  C21: Write, then read: after a write that returned 0, cat of any path that names the same
  file, however it is spelled, returns the text up to its first NUL of the old contents (when
  appending) followed by the new, and every other cat returns what it returned before.
\<close>

theorem path_state_write_cat:
  assumes "path_state_wf ps" "c_string path" "c_string q"
    and "path_state_write_file ps (Some path) (Some str) appending = Some (0, ps')"
  shows "\<exists>ds. named (ps_tree ps) path = Some ds \<and>
    (let old = (case ps_files ps (render True ds) of None \<Rightarrow> [] | Some c \<Rightarrow> c) in
     path_state_cat ps' (Some q) =
       (if named (ps_tree ps) q = Some ds then Some (Some (c_text ((if appending then old else []) @ str)), ps')
        else map_option (\<lambda>(r, _). (r, ps')) (path_state_cat ps (Some q))))"
proof -
  obtain ds where w: "named (ps_tree ps) path = Some ds" "path_state_wf ps'" "default_context ps' = default_context ps"
    "ps_files ps' = (ps_files ps)(render True ds \<mapsto>
       (if appending then case ps_files ps (render True ds) of None \<Rightarrow> [] | Some c \<Rightarrow> c else []) @ str)"
    by (rule path_state_write_success [OF assms(1,2,4)])
  note cat = path_state_cat_lemma [OF w(2) assms(3)] path_state_cat_lemma [OF assms(1,3)]
  have inj: "render True ds' = render True ds \<longleftrightarrow> ds' = ds" if "named (ps_tree ps) q = Some ds'" for ds'
    using named_wf(5) [OF path_state_wfD(2) [OF assms(1)] assms(2) w(1)]
      named_wf(5) [OF path_state_wfD(2) [OF assms(1)] assms(3) that] by metis
  show ?thesis
    using w(1,3) inj unfolding cat
    by (cases "named (ps_tree ps) q") (auto simp: w(4) Let_def)
qed

theorem path_state_write_cat_witness:
  "\<exists>ps' r. path_state_write_file demo_files (Some ''/tmp/f'') (Some ''hi'') False = Some (0, ps') \<and>
     path_state_cat ps' (Some ''/tmp/f'') = Some (Some ''hi'', ps')"
proof -
  have "write_room demo_files ''/tmp/f''"
    by (simp add: write_room_def demo_files dynamic_map_reset PATH_STATE_DYNAMIC_MAX_FILES_def)
  then obtain ps' where "path_state_write_file demo_files (Some ''/tmp/f'') (Some ''hi'') False = Some (0, ps')"
    using path_state_write_lemma [OF demo_files(1), of "''/tmp/f''" "''hi''" False] demo_name_ok
    by (auto simp: demo_named demo_render PATH_STATE_DYNAMIC_CONTENT_MAX_def)
  then show ?thesis
    using path_state_write_cat [OF demo_files(1), of "''/tmp/f''" "''/tmp/f''" "''hi''" False ps']
    by (simp add: demo_named c_text_def)
qed

end
