(* ===== verification/ShellParser.thy ===== *)
theory ShellParser
  imports Prelude
begin

text \<open>
  The two command-line parsers of the shell: \<open>shell/parser.c\<close> (words only, used by the terminal
  sessions) and \<open>shell/parser_redir.c\<close> (one pipe and one output redirection). The C code cuts the
  line in place by writing NUL after each word and returns pointers into it; it never moves a
  cursor back, so a word here is the text between the pointer and that NUL, and the state of a
  parser is the part of the line behind its cursor.
\<close>

definition SHELL_PARSE_ARGV_CAP :: nat where "SHELL_PARSE_ARGV_CAP = 16"

definition is_space :: "char \<Rightarrow> bool" where
  "is_space ch \<longleftrightarrow> ch = CHR '' '' \<or> ch = CHR 0x09"

subsection \<open>Words only\<close>

lemma length_tl_dropWhile:
  assumes "dropWhile P (dropWhile Q xs) \<noteq> []"
  shows "length (tl (dropWhile P (dropWhile Q xs))) < length xs"
  using assms length_dropWhile_le [of P "dropWhile Q xs"] length_dropWhile_le [of Q xs]
  by (cases "dropWhile P (dropWhile Q xs)") auto

function parse_words :: "string \<Rightarrow> nat \<Rightarrow> nat \<Rightarrow> string list" where
  "parse_words cursor argc argv_cap =
     (let cursor = dropWhile is_space cursor in
      if cursor = [] then []
      else if argc \<ge> argv_cap then []
      else
        let word = takeWhile (\<lambda>c. \<not> is_space c) cursor;
            rest = dropWhile (\<lambda>c. \<not> is_space c) cursor
        in if rest = [] then [word] else word # parse_words (tl rest) (argc + 1) argv_cap)"
  by pat_completeness auto

termination
  by (relation "measure (\<lambda>(cursor, _). length cursor)")
    (simp, simp only: in_measure case_prod_conv, rule length_tl_dropWhile, simp)

declare parse_words.simps [simp del]

text \<open>The words; their number is the function's result.\<close>

definition shell_parse_line :: "string \<Rightarrow> nat \<Rightarrow> string list" where
  "shell_parse_line line argv_cap = (if argv_cap = 0 then [] else parse_words line 0 argv_cap)"

subsection \<open>Tokens\<close>

text \<open>A word token carries the word, which the code returns through \<open>out_word\<close>.\<close>

datatype shell_parse_token =
  PARSE_TOKEN_END | PARSE_TOKEN_WORD string | PARSE_TOKEN_PIPE | PARSE_TOKEN_REDIR_TRUNC
  | PARSE_TOKEN_REDIR_APPEND | PARSE_TOKEN_ERROR

definition word_char :: "char \<Rightarrow> bool" where
  "word_char c \<longleftrightarrow> \<not> is_space c \<and> c \<noteq> CHR ''|'' \<and> c \<noteq> CHR ''>''"

text \<open>
  One token from the rest of the line. The special character that ended a word has been
  overwritten and is pending: \<open>None\<close> is the value 0 of \<open>*pending_special\<close>.
\<close>

definition parse_next_token ::
  "string \<Rightarrow> char option \<Rightarrow> shell_parse_token \<times> string \<times> char option" where
  "parse_next_token cursor pending_special =
     (let cursor = dropWhile is_space cursor in
      case pending_special of
        Some special \<Rightarrow>
          if special = CHR ''|'' then (PARSE_TOKEN_PIPE, cursor, None)
          else if special = CHR ''>'' then
            if cursor \<noteq> [] \<and> hd cursor = CHR ''>'' then (PARSE_TOKEN_REDIR_APPEND, tl cursor, None)
            else (PARSE_TOKEN_REDIR_TRUNC, cursor, None)
          else (PARSE_TOKEN_ERROR, cursor, None)
      | None \<Rightarrow>
          if cursor = [] then (PARSE_TOKEN_END, cursor, None)
          else if hd cursor = CHR ''|'' then (PARSE_TOKEN_PIPE, tl cursor, None)
          else if hd cursor = CHR ''>'' then
            let cursor = tl cursor in
            if cursor \<noteq> [] \<and> hd cursor = CHR ''>'' then (PARSE_TOKEN_REDIR_APPEND, tl cursor, None)
            else (PARSE_TOKEN_REDIR_TRUNC, cursor, None)
          else
            let out_word = takeWhile word_char cursor;
                rest = dropWhile word_char cursor
            in if rest = [] then (PARSE_TOKEN_WORD out_word, rest, None)
               else if hd rest = CHR ''|'' \<or> hd rest = CHR ''>''
               then (PARSE_TOKEN_WORD out_word, tl rest, Some (hd rest))
               else (PARSE_TOKEN_WORD out_word, tl rest, None))"

subsection \<open>Commands\<close>

datatype shell_redir_mode = SHELL_REDIR_NONE | SHELL_REDIR_TRUNC | SHELL_REDIR_APPEND

text \<open>A simple command is the list of its \<open>argc\<close> words.\<close>

type_synonym shell_simple_command = "string list"

record shell_parse_result =
  left_command :: shell_simple_command
  right_command :: shell_simple_command
  has_pipe :: bool
  redir_mode :: shell_redir_mode
  redir_path :: "string option"

definition shell_parse_result_init :: shell_parse_result where
  "shell_parse_result_init =
     \<lparr> left_command = [], right_command = [], has_pipe = False, redir_mode = SHELL_REDIR_NONE, redir_path = None \<rparr>"

text \<open>\<open>*current\<close> is the right command once a pipe has been read.\<close>

definition current_command :: "shell_parse_result \<Rightarrow> shell_simple_command" where
  "current_command out = (if has_pipe out then right_command out else left_command out)"

definition add_word :: "string \<Rightarrow> shell_parse_result \<Rightarrow> shell_parse_result" where
  "add_word word out =
     (if has_pipe out then out \<lparr> right_command := right_command out @ [word] \<rparr>
      else out \<lparr> left_command := left_command out @ [word] \<rparr>)"

text \<open>
  The body of the loop for a token: \<open>None\<close> for the return of -1, otherwise \<open>need_redir_path\<close> and the
  result so far.
\<close>

definition parse_token ::
  "shell_parse_token \<Rightarrow> bool \<Rightarrow> shell_parse_result \<Rightarrow> (bool \<times> shell_parse_result) option" where
  "parse_token token need_redir_path out =
     (case token of
        PARSE_TOKEN_ERROR \<Rightarrow> None
      | PARSE_TOKEN_WORD word \<Rightarrow>
          if need_redir_path then Some (False, out \<lparr> redir_path := Some word \<rparr>)
          else if redir_mode out \<noteq> SHELL_REDIR_NONE then None
          else if length (current_command out) \<ge> SHELL_PARSE_ARGV_CAP then None
          else Some (need_redir_path, add_word word out)
      | PARSE_TOKEN_PIPE \<Rightarrow>
          if need_redir_path then None
          else if has_pipe out \<or> redir_mode out \<noteq> SHELL_REDIR_NONE \<or> current_command out = [] then None
          else Some (need_redir_path, out \<lparr> has_pipe := True \<rparr>)
      | PARSE_TOKEN_REDIR_TRUNC \<Rightarrow>
          if need_redir_path then None
          else if redir_mode out \<noteq> SHELL_REDIR_NONE then None
          else Some (True, out \<lparr> redir_mode := SHELL_REDIR_TRUNC \<rparr>)
      | PARSE_TOKEN_REDIR_APPEND \<Rightarrow>
          if need_redir_path then None
          else if redir_mode out \<noteq> SHELL_REDIR_NONE then None
          else Some (True, out \<lparr> redir_mode := SHELL_REDIR_APPEND \<rparr>)
      | PARSE_TOKEN_END \<Rightarrow> Some (need_redir_path, out))"

text \<open>The checks after the loop.\<close>

definition parse_complete :: "bool \<Rightarrow> shell_parse_result \<Rightarrow> shell_parse_result option" where
  "parse_complete need_redir_path out =
     (if need_redir_path then None
      else if left_command out = [] then None
      else if has_pipe out \<and> right_command out = [] then None
      else Some out)"

definition token_left :: "string \<Rightarrow> char option \<Rightarrow> nat" where
  "token_left cursor pending_special = length cursor + (if pending_special = None then 0 else 1)"

lemma parse_next_token_less:
  assumes "parse_next_token cursor pending_special = (token, cursor', pending')" "token \<noteq> PARSE_TOKEN_END"
  shows "token_left cursor' pending' < token_left cursor pending_special"
proof -
  note le = length_dropWhile_le [of is_space cursor]
  have w: "word_char c \<longleftrightarrow> \<not> is_space c \<and> c \<noteq> CHR ''|'' \<and> c \<noteq> CHR ''>''" for c
    by (simp add: word_char_def)
  show ?thesis
  proof (cases pending_special)
    case (Some special)
    then show ?thesis
      using assms le by (auto simp: parse_next_token_def token_left_def Let_def split: if_splits)
  next
    case None
    show ?thesis
    proof (cases "dropWhile is_space cursor")
      case Nil
      then show ?thesis using assms None by (simp add: parse_next_token_def)
    next
      case (Cons c cs)
      have "\<not> is_space c"
        using Cons by (simp add: dropWhile_eq_Cons_conv)
      moreover have "length (dropWhile word_char cs) \<le> length cs"
        by (rule length_dropWhile_le)
      ultimately show ?thesis
        using assms le None Cons
        by (cases "dropWhile word_char cs")
          (auto simp: parse_next_token_def token_left_def Let_def w simp del: dropWhile_eq_Nil_conv split: if_splits)
    qed
  qed
qed

function parse_tokens ::
  "string \<Rightarrow> char option \<Rightarrow> bool \<Rightarrow> shell_parse_result \<Rightarrow> shell_parse_result option" where
  "parse_tokens cursor pending_special need_redir_path out =
     (case parse_next_token cursor pending_special of
        (token, cursor', pending') \<Rightarrow>
          if token = PARSE_TOKEN_END then parse_complete need_redir_path out
          else case parse_token token need_redir_path out of
            None \<Rightarrow> None
          | Some (need', out') \<Rightarrow> parse_tokens cursor' pending' need' out')"
  by pat_completeness auto

termination
  by (relation "measure (\<lambda>(cursor, pending_special, _). token_left cursor pending_special)")
    (simp, simp only: in_measure case_prod_conv, rule parse_next_token_less, simp_all)

declare parse_tokens.simps [simp del]

text \<open>\<open>None\<close> is the status -1.\<close>

definition shell_parse_with_redirection :: "string \<Rightarrow> shell_parse_result option" where
  "shell_parse_with_redirection line = parse_tokens line None False shell_parse_result_init"

subsection \<open>What a line means\<close>

text \<open>
  The tokens of a command, and the lines that spell them: \<open>glued\<close> says that a word has just ended
  without a space after it. The last rule is a peculiarity of the code: a \<open>>\<close> glued to the word
  before it and a second one after spaces still make one \<open>>>\<close>.
\<close>

definition command_tokens :: "shell_parse_result \<Rightarrow> shell_parse_token list" where
  "command_tokens r =
     map PARSE_TOKEN_WORD (left_command r) @
     (if has_pipe r then PARSE_TOKEN_PIPE # map PARSE_TOKEN_WORD (right_command r) else []) @
     (case redir_mode r of
        SHELL_REDIR_NONE \<Rightarrow> []
      | SHELL_REDIR_TRUNC \<Rightarrow> PARSE_TOKEN_REDIR_TRUNC # map PARSE_TOKEN_WORD (case redir_path r of None \<Rightarrow> [] | Some p \<Rightarrow> [p])
      | SHELL_REDIR_APPEND \<Rightarrow> PARSE_TOKEN_REDIR_APPEND # map PARSE_TOKEN_WORD (case redir_path r of None \<Rightarrow> [] | Some p \<Rightarrow> [p]))"

definition command_ok :: "shell_parse_result \<Rightarrow> bool" where
  "command_ok r \<longleftrightarrow>
     left_command r \<noteq> [] \<and> length (left_command r) \<le> SHELL_PARSE_ARGV_CAP \<and>
     length (right_command r) \<le> SHELL_PARSE_ARGV_CAP \<and> (has_pipe r \<longleftrightarrow> right_command r \<noteq> []) \<and>
     (redir_mode r = SHELL_REDIR_NONE \<longleftrightarrow> redir_path r = None)"

definition word_ok :: "string \<Rightarrow> bool" where
  "word_ok w \<longleftrightarrow> w \<noteq> [] \<and> list_all word_char w"

abbreviation blank :: "string \<Rightarrow> bool" where
  "blank \<equiv> list_all is_space"

inductive spells :: "bool \<Rightarrow> shell_parse_token list \<Rightarrow> string \<Rightarrow> bool" where
  End: "blank gap \<Longrightarrow> spells glued [] gap"
| Word: "blank gap \<Longrightarrow> (glued \<Longrightarrow> gap \<noteq> []) \<Longrightarrow> word_ok w \<Longrightarrow> spells True ts line \<Longrightarrow>
    spells glued (PARSE_TOKEN_WORD w # ts) (gap @ w @ line)"
| Pipe: "blank gap \<Longrightarrow> spells False ts line \<Longrightarrow> spells glued (PARSE_TOKEN_PIPE # ts) (gap @ CHR ''|'' # line)"
| Trunc: "blank gap \<Longrightarrow> spells False ts line \<Longrightarrow>
    spells glued (PARSE_TOKEN_REDIR_TRUNC # ts) (gap @ CHR ''>'' # line)"
| Append: "blank gap \<Longrightarrow> spells False ts line \<Longrightarrow>
    spells glued (PARSE_TOKEN_REDIR_APPEND # ts) (gap @ CHR ''>'' # CHR ''>'' # line)"
| Split_Append: "blank gap \<Longrightarrow> spells False ts line \<Longrightarrow>
    spells True (PARSE_TOKEN_REDIR_APPEND # ts) (CHR ''>'' # gap @ CHR ''>'' # line)"

inductive_cases spells_EndE: "spells glued [] line"

function lex_tokens :: "string \<Rightarrow> char option \<Rightarrow> shell_parse_token list" where
  "lex_tokens cursor pending =
     (case parse_next_token cursor pending of
        (token, cursor', pending') \<Rightarrow>
          if token = PARSE_TOKEN_END then [] else token # lex_tokens cursor' pending')"
  by pat_completeness auto

termination
  by (relation "measure (\<lambda>(cursor, pending). token_left cursor pending)")
    (simp, metis in_measure case_prod_conv parse_next_token_less)

declare lex_tokens.simps [simp del]

fun run_tokens :: "shell_parse_token list \<Rightarrow> bool \<Rightarrow> shell_parse_result \<Rightarrow> shell_parse_result option" where
  "run_tokens [] need out = parse_complete need out"
| "run_tokens (t # ts) need out =
     (case parse_token t need out of None \<Rightarrow> None | Some (need', out') \<Rightarrow> run_tokens ts need' out')"

lemma parse_tokens_run: "parse_tokens cursor pending need out = run_tokens (lex_tokens cursor pending) need out"
proof (induction cursor pending need out rule: parse_tokens.induct)
  case (1 cursor pending need out)
  obtain token cursor' pending' where n: "parse_next_token cursor pending = (token, cursor', pending')"
    by (metis prod_cases3)
  show ?case
    using 1 [OF n [symmetric] refl]
    by (subst parse_tokens.simps, subst lex_tokens.simps) (auto simp: n split: option.split)
qed

lemma lex_no_end: "PARSE_TOKEN_END \<notin> set (lex_tokens cursor pending)"
proof (induction cursor pending rule: lex_tokens.induct)
  case (1 cursor pending)
  then show ?case
    by (subst lex_tokens.simps) (auto split: prod.splits)
qed

subsubsection \<open>Tokens and commands\<close>

definition partial_ok :: "bool \<Rightarrow> shell_parse_result \<Rightarrow> bool" where
  "partial_ok need r \<longleftrightarrow>
     length (left_command r) \<le> SHELL_PARSE_ARGV_CAP \<and> length (right_command r) \<le> SHELL_PARSE_ARGV_CAP \<and>
     (has_pipe r \<longrightarrow> left_command r \<noteq> []) \<and> (\<not> has_pipe r \<longrightarrow> right_command r = []) \<and>
     (redir_mode r = SHELL_REDIR_NONE \<longrightarrow> \<not> need) \<and>
     (redir_path r = None \<longleftrightarrow> need \<or> redir_mode r = SHELL_REDIR_NONE)"

lemma parse_token_step:
  assumes "parse_token t need out = Some (need', out')" "partial_ok need out" "t \<noteq> PARSE_TOKEN_END"
  shows "partial_ok need' out' \<and> command_tokens out' = command_tokens out @ [t]"
  using assms
  by (cases t; cases "redir_mode out"; cases "redir_path out"; cases "has_pipe out")
    (auto simp: parse_token_def partial_ok_def command_tokens_def add_word_def current_command_def
      split: if_splits)

lemma run_tokens_sound:
  assumes "run_tokens ts need out = Some r" "partial_ok need out" "PARSE_TOKEN_END \<notin> set ts"
  shows "command_ok r \<and> command_tokens r = command_tokens out @ ts"
  using assms
proof (induction ts arbitrary: need out)
  case Nil
  then show ?case
    by (auto simp: parse_complete_def partial_ok_def command_ok_def split: if_splits)
next
  case (Cons t ts)
  then obtain need' out' where p: "parse_token t need out = Some (need', out')"
    by (cases "parse_token t need out") auto
  then show ?case
    using Cons parse_token_step [OF p] by auto
qed

lemma run_words:
  assumes "redir_mode out = SHELL_REDIR_NONE" "length (current_command out) + length ws \<le> SHELL_PARSE_ARGV_CAP"
  shows "run_tokens (map PARSE_TOKEN_WORD ws @ ts) False out =
    run_tokens ts False (if has_pipe out then out \<lparr> right_command := right_command out @ ws \<rparr>
      else out \<lparr> left_command := left_command out @ ws \<rparr>)"
  using assms
proof (induction ws arbitrary: out)
  case Nil
  then show ?case by simp
next
  case (Cons w ws)
  have "parse_token (PARSE_TOKEN_WORD w) False out = Some (False, add_word w out)"
    using Cons.prems by (simp add: parse_token_def)
  moreover have "redir_mode (add_word w out) = SHELL_REDIR_NONE"
    "length (current_command (add_word w out)) + length ws \<le> SHELL_PARSE_ARGV_CAP"
    using Cons.prems by (auto simp: add_word_def current_command_def)
  ultimately show ?case
    using Cons.IH [of "add_word w out"] by (simp add: add_word_def)
qed

lemma run_redirection:
  assumes "left_command out \<noteq> []" "has_pipe out \<Longrightarrow> right_command out \<noteq> []"
    and "redir_mode out = SHELL_REDIR_NONE"
  shows "run_tokens [] False out = Some out"
    "run_tokens [PARSE_TOKEN_REDIR_TRUNC, PARSE_TOKEN_WORD p] False out =
       Some (out \<lparr> redir_mode := SHELL_REDIR_TRUNC, redir_path := Some p \<rparr>)"
    "run_tokens [PARSE_TOKEN_REDIR_APPEND, PARSE_TOKEN_WORD p] False out =
       Some (out \<lparr> redir_mode := SHELL_REDIR_APPEND, redir_path := Some p \<rparr>)"
  using assms by (simp_all add: parse_token_def parse_complete_def)

lemma run_tokens_complete:
  assumes "command_ok r"
  shows "run_tokens (command_tokens r) False shell_parse_result_init = Some r"
proof -
  define out where "out = shell_parse_result_init \<lparr> left_command := left_command r \<rparr>"
  define out2 where "out2 = (if has_pipe r then out \<lparr> has_pipe := True, right_command := right_command r \<rparr> else out)"
  have r: "left_command r \<noteq> []" "length (left_command r) \<le> SHELL_PARSE_ARGV_CAP"
    "length (right_command r) \<le> SHELL_PARSE_ARGV_CAP" "has_pipe r \<longleftrightarrow> right_command r \<noteq> []"
    "redir_mode r = SHELL_REDIR_NONE \<longleftrightarrow> redir_path r = None"
    using assms by (simp_all add: command_ok_def)
  have left: "run_tokens (map PARSE_TOKEN_WORD (left_command r) @ ts) False shell_parse_result_init = run_tokens ts False out" for ts
    using run_words [of shell_parse_result_init "left_command r" ts] r(2)
    by (simp add: out_def shell_parse_result_init_def current_command_def)
  have "run_tokens ((if has_pipe r then PARSE_TOKEN_PIPE # map PARSE_TOKEN_WORD (right_command r) else []) @ ts) False out
      = run_tokens ts False out2" for ts
    using run_words [of "out \<lparr> has_pipe := True \<rparr>" "right_command r" ts] r(1,3)
    by (simp add: out_def out2_def shell_parse_result_init_def current_command_def parse_token_def)
  with left have run: "run_tokens (command_tokens r) False shell_parse_result_init =
      run_tokens (case redir_mode r of
        SHELL_REDIR_NONE \<Rightarrow> []
      | SHELL_REDIR_TRUNC \<Rightarrow> PARSE_TOKEN_REDIR_TRUNC # map PARSE_TOKEN_WORD (case redir_path r of None \<Rightarrow> [] | Some p \<Rightarrow> [p])
      | SHELL_REDIR_APPEND \<Rightarrow> PARSE_TOKEN_REDIR_APPEND # map PARSE_TOKEN_WORD (case redir_path r of None \<Rightarrow> [] | Some p \<Rightarrow> [p])) False out2"
    by (simp add: command_tokens_def)
  have o: "left_command out2 \<noteq> []" "has_pipe out2 \<Longrightarrow> right_command out2 \<noteq> []" "redir_mode out2 = SHELL_REDIR_NONE"
    using r by (auto simp: out2_def out_def shell_parse_result_init_def)
  have eq: "r = out2 \<lparr> redir_mode := redir_mode r, redir_path := redir_path r \<rparr>"
    using r(4) by (cases r) (auto simp: out2_def out_def shell_parse_result_init_def)
  show ?thesis
    unfolding run using run_redirection [OF o] r(5) eq
    by (cases "redir_mode r"; cases "redir_path r") (auto simp: out2_def out_def shell_parse_result_init_def)
qed

lemma run_tokens_iff:
  assumes "PARSE_TOKEN_END \<notin> set ts"
  shows "run_tokens ts False shell_parse_result_init = Some r \<longleftrightarrow> command_ok r \<and> ts = command_tokens r"
proof -
  have "partial_ok False shell_parse_result_init" "command_tokens shell_parse_result_init = []"
    by (simp_all add: partial_ok_def shell_parse_result_init_def command_tokens_def)
  then show ?thesis
    using run_tokens_sound [of ts False shell_parse_result_init r] run_tokens_complete [of r] assms by auto
qed

subsubsection \<open>Lines and tokens\<close>

lemma blank_dropWhile: "blank gap \<Longrightarrow> dropWhile is_space (gap @ line) = dropWhile is_space line"
  by (induction gap) auto

lemma blank_takeWhile: "blank (takeWhile is_space line)"
  by (auto simp: list_all_iff dest: set_takeWhileD)

lemma word_ok_Cons: "word_ok w \<Longrightarrow> \<exists>c cs. w = c # cs \<and> word_char c \<and> list_all word_char cs"
  by (cases w) (auto simp: word_ok_def)

lemma parse_next_token_blank: "blank gap \<Longrightarrow> parse_next_token (gap @ line) pending = parse_next_token line pending"
  by (simp add: parse_next_token_def blank_dropWhile)

lemma lex_tokens_blank: "blank gap \<Longrightarrow> lex_tokens (gap @ line) pending = lex_tokens line pending"
  by (subst (1 2) lex_tokens.simps) (simp add: parse_next_token_blank)

text \<open>The tokens after a word, by the character that ended it.\<close>

definition lex_after_word :: "string \<Rightarrow> shell_parse_token list" where
  "lex_after_word line =
     (if line = [] then [] else if hd line = CHR ''|'' \<or> hd line = CHR ''>'' then lex_tokens (tl line) (Some (hd line))
      else lex_tokens (tl line) None)"

lemma lex_Nil: "lex_tokens [] None = []"
  by (subst lex_tokens.simps) (simp add: parse_next_token_def)

lemma lex_special:
  "lex_tokens (CHR ''|'' # line) None = PARSE_TOKEN_PIPE # lex_tokens line None"
  "lex_tokens (CHR ''>'' # CHR ''>'' # line) None = PARSE_TOKEN_REDIR_APPEND # lex_tokens line None"
  "line = [] \<or> hd line \<noteq> CHR ''>'' \<Longrightarrow>
   lex_tokens (CHR ''>'' # line) None = PARSE_TOKEN_REDIR_TRUNC # lex_tokens line None"
  by (subst lex_tokens.simps, auto simp: parse_next_token_def is_space_def)+

lemma lex_pending:
  "lex_tokens line (Some CHR ''|'') = PARSE_TOKEN_PIPE # lex_tokens line None"
  "dropWhile is_space line = CHR ''>'' # rest \<Longrightarrow>
   lex_tokens line (Some CHR ''>'') = PARSE_TOKEN_REDIR_APPEND # lex_tokens rest None"
  "dropWhile is_space line = [] \<or> hd (dropWhile is_space line) \<noteq> CHR ''>'' \<Longrightarrow>
   lex_tokens line (Some CHR ''>'') = PARSE_TOKEN_REDIR_TRUNC # lex_tokens line None"
proof -
  have b: "lex_tokens (dropWhile is_space line) None = lex_tokens line None" for line
    using lex_tokens_blank [of "takeWhile is_space line" "dropWhile is_space line" None] blank_takeWhile [of line] by simp
  show "lex_tokens line (Some CHR ''|'') = PARSE_TOKEN_PIPE # lex_tokens line None"
    by (subst lex_tokens.simps) (simp add: parse_next_token_def b)
  show "dropWhile is_space line = CHR ''>'' # rest \<Longrightarrow>
      lex_tokens line (Some CHR ''>'') = PARSE_TOKEN_REDIR_APPEND # lex_tokens rest None"
    by (subst lex_tokens.simps) (simp add: parse_next_token_def)
  show "dropWhile is_space line = [] \<or> hd (dropWhile is_space line) \<noteq> CHR ''>'' \<Longrightarrow>
      lex_tokens line (Some CHR ''>'') = PARSE_TOKEN_REDIR_TRUNC # lex_tokens line None"
    by (subst lex_tokens.simps) (auto simp: parse_next_token_def b)
qed

lemma takeWhile_word:
  assumes "list_all word_char w" "line = [] \<or> \<not> word_char (hd line)"
  shows "takeWhile word_char (w @ line) = w" "dropWhile word_char (w @ line) = line"
  using assms by (induction w; cases line; simp)+

lemma lex_word:
  assumes "word_ok w" "line = [] \<or> \<not> word_char (hd line)"
  shows "lex_tokens (w @ line) None = PARSE_TOKEN_WORD w # lex_after_word line"
proof -
  obtain c cs where w: "w = c # cs" "word_char c" "list_all word_char cs"
    using word_ok_Cons [OF assms(1)] by blast
  then have "dropWhile is_space (w @ line) = w @ line" "\<not> is_space c" "c \<noteq> CHR ''|''" "c \<noteq> CHR ''>''"
    by (simp_all add: word_char_def)
  moreover have "list_all word_char w"
    using w by simp
  ultimately show ?thesis
    using takeWhile_word [of w line] assms(2) w(1)
    by (subst lex_tokens.simps) (simp add: parse_next_token_def Let_def lex_after_word_def lex_Nil)
qed

text \<open>A line that follows a word directly starts with a space or a special character.\<close>

lemma hd_gap: "blank gap \<Longrightarrow> \<not> word_char c \<Longrightarrow> \<not> word_char (hd (gap @ c # line))"
  by (cases gap) (auto simp: word_char_def)

lemma not_word_char: "\<not> word_char CHR ''|''" "\<not> word_char CHR ''>''"
  by (simp_all add: word_char_def)

lemma spells_glued:
  "spells glued ts line \<Longrightarrow> glued \<Longrightarrow> line = [] \<or> \<not> word_char (hd line)"
  by (erule spells.cases) (auto simp: hd_gap not_word_char, auto simp: word_char_def neq_Nil_conv)

fun redir_then_word :: "shell_parse_token list \<Rightarrow> bool" where
  "redir_then_word (PARSE_TOKEN_REDIR_TRUNC # ts) = (\<exists>w ts'. ts = PARSE_TOKEN_WORD w # ts' \<and> redir_then_word ts)"
| "redir_then_word (t # ts) = redir_then_word ts"
| "redir_then_word [] = True"

lemma lex_after_word_space: "blank gap \<Longrightarrow> gap \<noteq> [] \<Longrightarrow> lex_after_word (gap @ line) = lex_tokens line None"
  by (cases gap) (auto simp: lex_after_word_def lex_tokens_blank is_space_def)

text \<open>The gap before a token, in either position.\<close>

definition lex_at :: "bool \<Rightarrow> string \<Rightarrow> shell_parse_token list" where
  "lex_at glued line = (if glued then lex_after_word line else lex_tokens line None)"

lemma lex_at_gap: "blank gap \<Longrightarrow> gap \<noteq> [] \<Longrightarrow> lex_at glued (gap @ line) = lex_tokens line None"
  by (simp add: lex_at_def lex_after_word_space lex_tokens_blank)

lemma spells_head:
  assumes "spells False (PARSE_TOKEN_WORD w # ts) line"
  shows "dropWhile is_space line \<noteq> [] \<and> hd (dropWhile is_space line) \<noteq> CHR ''>''"
  using assms
  by (cases rule: spells.cases) (auto simp: blank_dropWhile word_char_def dest!: word_ok_Cons)

lemma lex_spells:
  "spells glued ts line \<Longrightarrow> redir_then_word ts \<Longrightarrow> lex_at glued line = ts"
proof (induction glued ts line rule: spells.induct)
  case (End gap glued)
  then show ?case
    using lex_at_gap [of gap glued "[]"] by (cases "gap = []") (auto simp: lex_Nil lex_at_def lex_after_word_def)
next
  case (Word gap glued w ts line)
  have "lex_tokens (w @ line) None = PARSE_TOKEN_WORD w # ts"
    using lex_word [OF Word(3) spells_glued [OF Word(4)]] Word(5,6) by (simp add: lex_at_def)
  then show ?case
    using Word(1,2) lex_at_gap [of gap glued "w @ line"] by (cases "gap = []") (auto simp: lex_at_def)
next
  case (Pipe gap ts line glued)
  then show ?case
    using lex_at_gap [of gap glued "CHR ''|'' # line"]
    by (cases "gap = []") (auto simp: lex_at_def lex_after_word_def lex_special lex_pending)
next
  case (Trunc gap ts line glued)
  then obtain w ts' where ts: "ts = PARSE_TOKEN_WORD w # ts'" "redir_then_word ts" by auto
  note h = spells_head [OF Trunc(2) [unfolded ts(1)]]
  then have "line = [] \<or> hd line \<noteq> CHR ''>''"
    by (cases line) (auto simp: is_space_def)
  then show ?case
    using Trunc ts h lex_at_gap [of gap glued "CHR ''>'' # line"]
    by (cases "gap = []") (auto simp: lex_at_def lex_after_word_def lex_special(3) lex_pending(3))
next
  case (Append gap ts line glued)
  have "dropWhile is_space (CHR ''>'' # line) = CHR ''>'' # line"
    by (simp add: is_space_def)
  then show ?case
    using Append lex_at_gap [of gap glued "CHR ''>'' # CHR ''>'' # line"]
    by (cases "gap = []") (auto simp: lex_at_def lex_after_word_def lex_special lex_pending(2))
next
  case (Split_Append gap ts line)
  have "dropWhile is_space (gap @ CHR ''>'' # line) = CHR ''>'' # line"
    using blank_dropWhile [OF Split_Append(1)] by (simp add: is_space_def)
  then show ?case
    using Split_Append by (simp add: lex_at_def lex_after_word_def lex_pending(2))
qed

lemma spells_space:
  assumes "spells False ts line" "is_space c"
  shows "spells glued ts (c # line)"
  using assms
proof (cases rule: spells.cases)
  case End
  then show ?thesis using assms(2) by (auto intro: spells.End)
next
  case (Word gap w ts line)
  then show ?thesis using assms(2) spells.Word [of "c # gap" glued w ts line] by simp
next
  case (Pipe gap ts line)
  then show ?thesis using assms(2) spells.Pipe [of "c # gap" ts line glued] by simp
next
  case (Trunc gap ts line)
  then show ?thesis using assms(2) spells.Trunc [of "c # gap" ts line glued] by simp
next
  case (Append gap ts line)
  then show ?thesis using assms(2) spells.Append [of "c # gap" ts line glued] by simp
qed simp

lemma spells_Nil: "spells glued ts [] \<Longrightarrow> spells True ts []"
  by (erule spells.cases) (auto simp: word_ok_def intro: spells.End)

lemma spells_blank: "spells False ts line \<Longrightarrow> blank gap \<Longrightarrow> spells False ts (gap @ line)"
  by (induction gap) (auto intro: spells_space)

text \<open>The line a state of the scanner still has to read.\<close>

definition unread :: "string \<Rightarrow> char option \<Rightarrow> string" where
  "unread cursor pending = (case pending of None \<Rightarrow> cursor | Some c \<Rightarrow> c # cursor)"

lemma next_token_spells:
  assumes "parse_next_token cursor pending = (token, cursor', pending')"
    and "pending \<in> {None, Some CHR ''|'', Some CHR ''>''}"
    and "token \<noteq> PARSE_TOKEN_END \<Longrightarrow> spells (pending' \<noteq> None) ts (unread cursor' pending')"
  shows "pending' \<in> {None, Some CHR ''|'', Some CHR ''>''} \<and>
    spells (pending \<noteq> None) (if token = PARSE_TOKEN_END then [] else token # ts) (unread cursor pending)"
proof -
  define gap where "gap = takeWhile is_space cursor"
  define line where "line = dropWhile is_space cursor"
  have c: "cursor = gap @ line" "blank gap" "line = [] \<or> \<not> is_space (hd line)"
    using blank_takeWhile hd_dropWhile [of is_space cursor] by (auto simp: gap_def line_def)
  have n: "parse_next_token cursor pending = parse_next_token line pending" "dropWhile is_space line = line"
    using c by (simp_all add: parse_next_token_blank) (cases line; simp)
  show ?thesis
  proof (cases pending)
    case None
    show ?thesis
    proof (cases "line = [] \<or> \<not> word_char (hd line)")
      case True
      then consider "line = []" | l where "line = CHR ''|'' # l" | l where "line = CHR ''>'' # CHR ''>'' # l"
        | l where "line = CHR ''>'' # l" "l = [] \<or> hd l \<noteq> CHR ''>''"
        using c(3) by (cases line; cases "tl line") (auto simp: word_char_def)
      then show ?thesis
      proof cases
        case 1
        then have "token = PARSE_TOKEN_END" "pending' = None"
          using assms(1) None n by (auto simp: parse_next_token_def)
        then show ?thesis using 1 None c by (auto simp: unread_def intro: spells.End)
      next
        case (2 l)
        then have "token = PARSE_TOKEN_PIPE" "cursor' = l" "pending' = None"
          using assms(1) None n(2) unfolding n(1) by (auto simp: parse_next_token_def)
        then show ?thesis using 2 None c assms(3) by (auto simp: unread_def intro: spells.Pipe)
      next
        case (3 l)
        then have "token = PARSE_TOKEN_REDIR_APPEND" "cursor' = l" "pending' = None"
          using assms(1) None n(2) unfolding n(1) by (auto simp: parse_next_token_def)
        then show ?thesis using 3 None c assms(3) by (auto simp: unread_def intro: spells.Append)
      next
        case (4 l)
        then have "token = PARSE_TOKEN_REDIR_TRUNC" "cursor' = l" "pending' = None"
          using assms(1) None n(2) unfolding n(1) by (auto simp: parse_next_token_def Let_def)
        then show ?thesis using 4 None c assms(3) by (auto simp: unread_def intro: spells.Trunc)
      qed
    next
      case False
      define w where "w = takeWhile word_char line"
      define rest where "rest = dropWhile word_char line"
      have l: "line = w @ rest" "word_ok w" "rest = [] \<or> \<not> word_char (hd rest)"
        using False hd_dropWhile [of word_char line]
        by (cases line; auto simp: w_def rest_def word_ok_def list_all_iff dest: set_takeWhileD)+
      have tok: "parse_next_token cursor pending =
          (if rest = [] then (PARSE_TOKEN_WORD w, rest, None)
           else if hd rest = CHR ''|'' \<or> hd rest = CHR ''>'' then (PARSE_TOKEN_WORD w, tl rest, Some (hd rest))
           else (PARSE_TOKEN_WORD w, tl rest, None))"
        unfolding n(1) using False None n(2) by (cases line) (auto simp: parse_next_token_def word_char_def w_def rest_def Let_def)
      have "spells True ts rest"
      proof (cases "rest = []")
        case True
        then show ?thesis using assms(1,3) tok spells_Nil [of False ts] by (auto simp: unread_def)
      next
        case r: False
        then obtain c cs where cs: "rest = c # cs" by (cases rest) auto
        have "rest = hd rest # tl rest" "hd rest = CHR ''|'' \<or> hd rest = CHR ''>'' \<or> is_space (hd rest)"
          using r l(3) by (auto simp: word_char_def)
        then show ?thesis
          unfolding cs using assms(1,3) tok r cs spells_space [of ts "tl rest" "hd rest" True]
          by (auto simp: unread_def is_space_def split: if_splits)
      qed
      then have "spells False (PARSE_TOKEN_WORD w # ts) (gap @ w @ rest)"
        using c(2) l(2) by (intro spells.Word) auto
      then show ?thesis
        using tok assms(1) None c(1) l(1) by (auto simp: unread_def split: if_splits)
    qed
  next
    case (Some special)
    show ?thesis
    proof (cases "special = CHR ''>'' \<and> line \<noteq> [] \<and> hd line = CHR ''>''")
      case True
      then obtain rest where r: "line = CHR ''>'' # rest" by (cases line) auto
      then have "parse_next_token cursor pending = (PARSE_TOKEN_REDIR_APPEND, rest, None)"
        using True Some n(2) unfolding n(1) by (simp add: parse_next_token_def)
      then show ?thesis
        using assms(1,3) Some True c r spells.Split_Append [of gap ts rest] by (auto simp: unread_def)
    next
      case False
      then have tok: "parse_next_token cursor pending =
          (if special = CHR ''|'' then PARSE_TOKEN_PIPE else PARSE_TOKEN_REDIR_TRUNC, line, None)"
        using Some n(2) assms(2) unfolding n(1) by (auto simp: parse_next_token_def)
      have "spells False ts line"
        using tok assms(1,3) by (auto simp: unread_def split: if_splits)
      then have "spells False ts cursor"
        using spells_blank [OF _ c(2)] c(1) by simp
      then show ?thesis
        using tok assms(1,2) Some spells.Pipe [of "[]" ts cursor True] spells.Trunc [of "[]" ts cursor True]
        by (auto simp: unread_def)
    qed
  qed
qed

lemma spells_lex:
  "pending \<in> {None, Some CHR ''|'', Some CHR ''>''} \<Longrightarrow>
   spells (pending \<noteq> None) (lex_tokens cursor pending) (unread cursor pending)"
proof (induction cursor pending rule: lex_tokens.induct)
  case (1 cursor pending)
  obtain token cursor' pending' where n: "parse_next_token cursor pending = (token, cursor', pending')"
    by (metis prod_cases3)
  have p: "pending' \<in> {None, Some CHR ''|'', Some CHR ''>''}"
    using n 1(2) by (auto simp: parse_next_token_def Let_def split: if_splits)
  show ?case
    using next_token_spells [OF n 1(2), of "lex_tokens cursor' pending'"] 1(1) [OF n [symmetric] refl _ p]
    by (subst lex_tokens.simps) (simp add: n)
qed

lemma command_redir_then_word: "command_ok r \<Longrightarrow> redir_then_word (command_tokens r)"
proof -
  assume r: "command_ok r"
  have w: "redir_then_word (map PARSE_TOKEN_WORD ws @ ts) = redir_then_word ts" for ws ts
    by (induction ws) auto
  show ?thesis
    using r by (cases "redir_mode r") (auto simp: command_tokens_def w command_ok_def w [of _ "[]", simplified])
qed

lemma shell_parse_lemma:
  "shell_parse_with_redirection line = Some r \<longleftrightarrow> command_ok r \<and> spells False (command_tokens r) line"
proof -
  have "shell_parse_with_redirection line = Some r \<longleftrightarrow> command_ok r \<and> lex_tokens line None = command_tokens r"
    by (simp add: shell_parse_with_redirection_def parse_tokens_run run_tokens_iff lex_no_end)
  moreover have "spells False (lex_tokens line None) line"
    using spells_lex [of None line] by (simp add: unread_def)
  ultimately show ?thesis
    using lex_spells [of False "command_tokens r" line] command_redir_then_word [of r]
    by (auto simp: lex_at_def)
qed

text \<open>
  C27: What the shell's parser accepts: a line parses to a command exactly when it spells the tokens
  of that command (left words, at most one pipe with right words, at most one redirection with
  its path at the end; 1 to 16 words a side) with any spaces and tabs around them. So every
  spelling of a well-formed command is parsed back to it, and every other line is an error.
\<close>

theorem shell_parse_iff:
  "shell_parse_with_redirection line = Some r \<longleftrightarrow> command_ok r \<and> spells False (command_tokens r) line"
  by (rule shell_parse_lemma)

subsection \<open>What the words-only parser does\<close>

text \<open>The maximal runs of characters that are not spaces.\<close>

function split_words :: "string \<Rightarrow> string list" where
  "split_words line =
     (if dropWhile is_space line = [] then []
      else takeWhile (\<lambda>c. \<not> is_space c) (dropWhile is_space line) #
        split_words (dropWhile (\<lambda>c. \<not> is_space c) (dropWhile is_space line)))"
  by pat_completeness auto

termination
proof (relation "measure length", simp)
  fix line :: string
  assume "dropWhile is_space line \<noteq> []"
  then obtain c cs where "dropWhile is_space line = c # cs" "\<not> is_space c"
    by (metis hd_dropWhile list.exhaust list.sel(1))
  then show "(dropWhile (\<lambda>c. \<not> is_space c) (dropWhile is_space line), line) \<in> measure length"
    using length_dropWhile_le [of "\<lambda>c. \<not> is_space c" cs] length_dropWhile_le [of is_space line] by simp
qed

declare split_words.simps [simp del]

lemma split_words_space: "is_space c \<Longrightarrow> split_words (c # line) = split_words line"
  by (subst (1 2) split_words.simps) simp

lemma split_words_Nil: "split_words [] = []"
  by (subst split_words.simps) simp

lemma parse_words_split: "parse_words cursor argc argv_cap = take (argv_cap - argc) (split_words cursor)"
proof (induction cursor argc argv_cap rule: parse_words.induct)
  case (1 cursor argc argv_cap)
  define rest where "rest = dropWhile (\<lambda>c. \<not> is_space c) (dropWhile is_space cursor)"
  define word where "word = takeWhile (\<lambda>c. \<not> is_space c) (dropWhile is_space cursor)"
  show ?case
  proof (cases "dropWhile is_space cursor = [] \<or> argc \<ge> argv_cap")
    case True
    then show ?thesis
      by (subst parse_words.simps, subst split_words.simps) (auto simp: Let_def)
  next
    case False
    then have split: "split_words cursor = word # split_words rest"
      by (subst split_words.simps) (simp add: word_def rest_def)
    have parse: "parse_words cursor argc argv_cap =
        (if rest = [] then [word] else word # parse_words (tl rest) (argc + 1) argv_cap)"
      using False by (simp only: parse_words.simps [of cursor argc argv_cap] Let_def word_def rest_def if_False de_Morgan_disj)
    have cap: "argv_cap - argc = Suc (argv_cap - (argc + 1))"
      using False by arith
    show ?thesis
    proof (cases rest)
      case Nil
      then show ?thesis unfolding parse split cap by (simp add: split_words_Nil)
    next
      case (Cons c cs)
      then have "is_space c"
        by (metis hd_dropWhile list.sel(1) list.discI rest_def)
      moreover have "parse_words cs (argc + 1) argv_cap = take (argv_cap - (argc + 1)) (split_words cs)"
        using 1 [OF refl _ _ refl refl] False Cons by (simp add: rest_def del: dropWhile_eq_Nil_conv)
      ultimately show ?thesis
        unfolding parse split cap using Cons by (simp add: split_words_space)
    qed
  qed
qed

lemma shell_parse_line_words: "shell_parse_line line argv_cap = take argv_cap (split_words line)"
  by (simp add: shell_parse_line_def parse_words_split)

end
