(* ===== verification/Shell.thy ===== *)
theory Shell
  imports PathState ShellParser Console PageAlloc
begin

text \<open>
  The shell: output redirection (\<open>shell/fd_table.c\<close>), the built-in commands
  (\<open>shell/builtins_basic.c\<close>, \<open>shell/builtins_fs.c\<close>), pipes and redirections
  (\<open>shell/exec_pipeline.c\<close>) and the command loop (\<open>shell/shell.c\<close>). The state is what these
  files reach: the output mode, the standard input, the capture buffer up to \<open>g_capture_len\<close>, the
  line editor with its console, the file system and the page allocator, which \<open>meminfo\<close> reads.
  An operation that walks the directory tree is \<open>None\<close> when it does not return.
\<close>

unbundle bit_operations_syntax

definition SHELL_FD_CAPTURE_CAP :: nat where "SHELL_FD_CAPTURE_CAP = 2048"
definition SHELL_FS_LS_MAX :: nat where "SHELL_FS_LS_MAX = 64"
definition SHELL_FS_PATH_MAX :: nat where "SHELL_FS_PATH_MAX = 256"
definition SHELL_FALLBACK_TEXT_CAP :: nat where "SHELL_FALLBACK_TEXT_CAP = 128"
definition SHELL_PIPE_INPUT_CAP :: nat where "SHELL_PIPE_INPUT_CAP = 2048"
definition SHELL_LINE_BUFFER_SIZE :: nat where "SHELL_LINE_BUFFER_SIZE = 128"
definition SHELL_EXEC_OK :: int where "SHELL_EXEC_OK = 0"
definition SHELL_EXEC_NOT_FOUND :: int where "SHELL_EXEC_NOT_FOUND = 1"

datatype shell_stdout_mode = SHELL_STDOUT_CONSOLE | SHELL_STDOUT_CAPTURE

record shell_state =
  sh_stdout_mode :: shell_stdout_mode
  sh_stdin_data :: "string option"
  sh_capture :: string
  sh_io :: line_io_state
  sh_path :: path_state
  sh_pages :: page_alloc_state

subsection \<open>Output\<close>

definition shell_fd_capture_clear :: "shell_state \<Rightarrow> shell_state" where
  "shell_fd_capture_clear s = s \<lparr> sh_capture := [] \<rparr>"

definition shell_fd_reset :: "shell_state \<Rightarrow> shell_state" where
  "shell_fd_reset s = shell_fd_capture_clear (s \<lparr> sh_stdout_mode := SHELL_STDOUT_CONSOLE, sh_stdin_data := None \<rparr>)"

definition shell_fd_set_stdout_console :: "shell_state \<Rightarrow> shell_state" where
  "shell_fd_set_stdout_console s = s \<lparr> sh_stdout_mode := SHELL_STDOUT_CONSOLE \<rparr>"

definition shell_fd_set_stdout_capture :: "shell_state \<Rightarrow> shell_state" where
  "shell_fd_set_stdout_capture s = shell_fd_capture_clear (s \<lparr> sh_stdout_mode := SHELL_STDOUT_CAPTURE \<rparr>)"

definition shell_fd_set_stdin :: "string option \<Rightarrow> shell_state \<Rightarrow> shell_state" where
  "shell_fd_set_stdin input s = s \<lparr> sh_stdin_data := input \<rparr>"

definition shell_fd_stdin :: "shell_state \<Rightarrow> string option" where
  "shell_fd_stdin s = sh_stdin_data s"

definition shell_fd_has_stdin :: "shell_state \<Rightarrow> bool" where
  "shell_fd_has_stdin s \<longleftrightarrow> \<not> (sh_stdin_data s = None \<or> sh_stdin_data s = Some [])"

definition shell_fd_putc :: "char \<Rightarrow> shell_state \<Rightarrow> shell_state" where
  "shell_fd_putc ch s =
     (if sh_stdout_mode s = SHELL_STDOUT_CONSOLE
      then s \<lparr> sh_io := (sh_io s) \<lparr> io_uart := console_putc ch (io_uart (sh_io s)) \<rparr> \<rparr>
      else if length (sh_capture s) + 1 \<ge> SHELL_FD_CAPTURE_CAP then s
      else s \<lparr> sh_capture := sh_capture s @ [ch] \<rparr>)"

definition shell_fd_write :: "string \<Rightarrow> shell_state \<Rightarrow> shell_state" where
  "shell_fd_write str s = fold shell_fd_putc str s"

definition shell_fd_write_n :: "string \<Rightarrow> nat \<Rightarrow> shell_state \<Rightarrow> shell_state" where
  "shell_fd_write_n str len s = fold shell_fd_putc (take len str) s"

definition shell_fd_capture_data :: "shell_state \<Rightarrow> string" where
  "shell_fd_capture_data s = sh_capture s"

definition shell_fd_capture_len :: "shell_state \<Rightarrow> nat" where
  "shell_fd_capture_len s = length (sh_capture s)"

subsection \<open>Helpers of the commands\<close>

fun shell_str_eq :: "string \<Rightarrow> string \<Rightarrow> bool" where
  "shell_str_eq (a # as) (b # bs) = (if a \<noteq> b then False else shell_str_eq as bs)"
| "shell_str_eq as bs = (as = [] \<and> bs = [])"

text \<open>The digits in \<open>scratch\<close>, the last one first; the array has room for 20.\<close>

primrec u64_scratch :: "nat \<Rightarrow> u64 \<Rightarrow> string" where
  "u64_scratch 0 value = []"
| "u64_scratch (Suc room) value =
     (if value \<noteq> 0 then char_of (48 + unat (value mod 10)) # u64_scratch room (value div 10) else [])"

definition shell_write_u64 :: "u64 \<Rightarrow> shell_state \<Rightarrow> shell_state" where
  "shell_write_u64 value s =
     (if value = 0 then shell_fd_putc CHR ''0'' s
      else fold shell_fd_putc (rev (u64_scratch 20 value)) s)"

fun hex_digits_from :: "nat \<Rightarrow> u64 \<Rightarrow> shell_state \<Rightarrow> shell_state" where
  "hex_digits_from shift value s =
     (if shift > 0 then
        let shift = shift - 4 in
        hex_digits_from shift value
          (shell_fd_putc (''0123456789abcdef'' ! unat (drop_bit shift value AND 0xf)) s)
      else s)"

declare hex_digits_from.simps [simp del]

definition shell_write_hex_uintptr :: "u64 \<Rightarrow> shell_state \<Rightarrow> shell_state" where
  "shell_write_hex_uintptr value s = hex_digits_from 64 value (shell_fd_write ''0x'' s)"

text \<open>\<open>shell_write_path\<close> is only called with a path.\<close>

definition shell_write_path :: "string \<Rightarrow> shell_state \<Rightarrow> shell_state" where
  "shell_write_path path s = shell_fd_write path s"

definition shell_builtins_fs_init :: "shell_state \<Rightarrow> shell_state option" where
  "shell_builtins_fs_init s =
     (case path_state_init (sh_path s) of None \<Rightarrow> None | Some ps \<Rightarrow> Some (s \<lparr> sh_path := ps \<rparr>))"

subsection \<open>The commands\<close>

text \<open>The function pointers of the table of commands, which \<open>help\<close> prints.\<close>

datatype shell_builtin_fn =
  Builtin_Help | Builtin_Echo | Builtin_Meminfo | Builtin_Ls | Builtin_Cat | Builtin_Pwd | Builtin_Cd | Builtin_Mkdir

record shell_builtin =
  builtin_name :: string
  builtin_help :: string
  builtin_fn :: shell_builtin_fn

definition g_shell_builtins :: "shell_builtin list" where
  "g_shell_builtins =
    [\<lparr> builtin_name = ''help'', builtin_help = ''show this help'', builtin_fn = Builtin_Help \<rparr>,
     \<lparr> builtin_name = ''echo'', builtin_help = ''print arguments'', builtin_fn = Builtin_Echo \<rparr>,
     \<lparr> builtin_name = ''meminfo'', builtin_help = ''show allocator usage'', builtin_fn = Builtin_Meminfo \<rparr>,
     \<lparr> builtin_name = ''ls'', builtin_help = ''list files and directories'', builtin_fn = Builtin_Ls \<rparr>,
     \<lparr> builtin_name = ''cat'', builtin_help = ''print file contents'', builtin_fn = Builtin_Cat \<rparr>,
     \<lparr> builtin_name = ''pwd'', builtin_help = ''print current directory'', builtin_fn = Builtin_Pwd \<rparr>,
     \<lparr> builtin_name = ''cd'', builtin_help = ''change current directory'', builtin_fn = Builtin_Cd \<rparr>,
     \<lparr> builtin_name = ''mkdir'', builtin_help = ''create directory'', builtin_fn = Builtin_Mkdir \<rparr>]"

text \<open>\<open>argv\<close> is the list of the \<open>argc\<close> words.\<close>

definition shell_builtin_help :: "shell_state \<Rightarrow> int \<times> shell_state" where
  "shell_builtin_help s =
     (SHELL_EXEC_OK,
      fold (\<lambda>b s. shell_fd_write [newline] (shell_fd_write (builtin_help b) (shell_fd_write '' - ''
            (shell_fd_write (builtin_name b) (shell_fd_write ''  '' s)))))
        g_shell_builtins (shell_fd_write (''available commands:'' @ [newline]) s))"

fun echo_args :: "string list \<Rightarrow> shell_state \<Rightarrow> shell_state" where
  "echo_args [] s = s"
| "echo_args [arg] s = shell_fd_write arg s"
| "echo_args (arg # args) s = echo_args args (shell_fd_write '' '' (shell_fd_write arg s))"

definition shell_builtin_echo :: "string list \<Rightarrow> shell_state \<Rightarrow> int \<times> shell_state" where
  "shell_builtin_echo argv s =
     (let s = shell_fd_write ''echo:'' s;
          s = (if length argv > 1 then shell_fd_write '' '' s else s);
          s = echo_args (tl argv) s
      in (SHELL_EXEC_OK, shell_fd_write [newline] s))"

definition shell_builtin_meminfo :: "shell_state \<Rightarrow> int \<times> shell_state" where
  "shell_builtin_meminfo s =
     (let pg = sh_pages s;
          total_pages = word_of_nat (page_alloc_total_pages pg) :: u64;
          free_pages = word_of_nat (page_alloc_free_pages pg);
          used_pages = total_pages - free_pages;
          s = shell_fd_write ''meminfo: range='' s;
          s = shell_write_hex_uintptr (page_alloc_range_start pg) s;
          s = shell_fd_write ''-'' s;
          s = shell_write_hex_uintptr (page_alloc_range_end pg) s;
          s = shell_fd_write '' page_size='' s;
          s = shell_write_u64 PAGE_ALLOC_PAGE_SIZE s;
          s = shell_fd_write '' total_pages='' s;
          s = shell_write_u64 total_pages s;
          s = shell_fd_write '' free_pages='' s;
          s = shell_write_u64 free_pages s;
          s = shell_fd_write '' used_pages='' s;
          s = shell_write_u64 used_pages s
      in (SHELL_EXEC_OK, shell_fd_write [newline] s))"

definition shell_builtin_pwd :: "shell_state \<Rightarrow> (int \<times> shell_state) option" where
  "shell_builtin_pwd s =
     do {
       (cwd, ps) \<leftarrow> path_state_pwd (sh_path s) SHELL_FS_PATH_MAX;
       let s = s \<lparr> sh_path := ps \<rparr>;
       case cwd of
         None \<Rightarrow> Some (SHELL_EXEC_OK, shell_fd_write (''pwd: error'' @ [newline]) s)
       | Some cwd \<Rightarrow> Some (SHELL_EXEC_OK, shell_fd_write [newline] (shell_write_path cwd s))
     }"

definition shell_builtin_cd :: "string list \<Rightarrow> shell_state \<Rightarrow> (int \<times> shell_state) option" where
  "shell_builtin_cd argv s =
     do {
       let target = (if length argv \<ge> 2 then argv ! 1 else ''/'');
       (r, ps) \<leftarrow> path_state_cd (sh_path s) (Some target);
       let s = s \<lparr> sh_path := ps \<rparr>;
       Some (SHELL_EXEC_OK, if r \<noteq> 0 then shell_fd_write (''cd: no such directory'' @ [newline]) s else s)
     }"

fun mkdir_args :: "string list \<Rightarrow> shell_state \<Rightarrow> shell_state option" where
  "mkdir_args [] s = Some s"
| "mkdir_args (arg # args) s =
     do {
       (r, ps) \<leftarrow> path_state_mkdir (sh_path s) (Some arg);
       let s = s \<lparr> sh_path := ps \<rparr>;
       mkdir_args args
         (if r \<noteq> 0 then shell_fd_write [newline] (shell_fd_write arg (shell_fd_write ''mkdir: failed: '' s)) else s)
     }"

definition shell_builtin_mkdir :: "string list \<Rightarrow> shell_state \<Rightarrow> (int \<times> shell_state) option" where
  "shell_builtin_mkdir argv s =
     (if length argv < 2 then Some (SHELL_EXEC_OK, shell_fd_write (''mkdir: missing path'' @ [newline]) s)
      else map_option (Pair SHELL_EXEC_OK) (mkdir_args (tl argv) s))"

definition write_entry :: "path_state_entry \<Rightarrow> shell_state \<Rightarrow> shell_state" where
  "write_entry e s =
     (let s = shell_fd_write (entry_text e) s;
          s = (if entry_kind e = PATH_STATE_ENTRY_DIR then shell_fd_write ''/'' s else s)
      in shell_fd_write [newline] s)"

definition shell_builtin_ls :: "string list \<Rightarrow> shell_state \<Rightarrow> (int \<times> shell_state) option" where
  "shell_builtin_ls argv s =
     do {
       let target = (if length argv \<ge> 2 then argv ! 1 else ''.'');
       (listed, ps) \<leftarrow> path_state_ls (sh_path s) (Some target) (Some SHELL_FS_LS_MAX);
       let s = s \<lparr> sh_path := ps \<rparr>;
       case listed of
         None \<Rightarrow> Some (SHELL_EXEC_OK, shell_fd_write (''ls: cannot access'' @ [newline]) s)
       | Some (entries, count) \<Rightarrow> Some (SHELL_EXEC_OK, fold write_entry (take count entries) s)
     }"

text \<open>A text with a newline added when it has none at its end.\<close>

definition write_text_line :: "string \<Rightarrow> shell_state \<Rightarrow> shell_state" where
  "write_text_line content s =
     (let s = shell_fd_write content s
      in if content = [] \<or> last content \<noteq> newline then shell_fd_write [newline] s else s)"

fun cat_args :: "string list \<Rightarrow> shell_state \<Rightarrow> shell_state option" where
  "cat_args [] s = Some s"
| "cat_args (arg # args) s =
     do {
       (content, ps) \<leftarrow> path_state_cat (sh_path s) (Some arg);
       let s = s \<lparr> sh_path := ps \<rparr>;
       cat_args args
         (case content of
            None \<Rightarrow> shell_fd_write [newline] (shell_fd_write arg (shell_fd_write ''cat: not found: '' s))
          | Some content \<Rightarrow> write_text_line content s)
     }"

definition shell_builtin_cat :: "string list \<Rightarrow> shell_state \<Rightarrow> (int \<times> shell_state) option" where
  "shell_builtin_cat argv s =
     (if length argv < 2 then
        if shell_fd_has_stdin s then
          Some (SHELL_EXEC_OK,
            case shell_fd_stdin s of
              None \<Rightarrow> shell_fd_write [newline] s
            | Some input \<Rightarrow> write_text_line input s)
        else Some (SHELL_EXEC_OK, shell_fd_write (''cat: missing path'' @ [newline]) s)
      else map_option (Pair SHELL_EXEC_OK) (cat_args (tl argv) s))"

definition call_builtin :: "shell_builtin_fn \<Rightarrow> string list \<Rightarrow> shell_state \<Rightarrow> (int \<times> shell_state) option" where
  "call_builtin fn argv s =
     (case fn of
        Builtin_Help \<Rightarrow> Some (shell_builtin_help s)
      | Builtin_Echo \<Rightarrow> Some (shell_builtin_echo argv s)
      | Builtin_Meminfo \<Rightarrow> Some (shell_builtin_meminfo s)
      | Builtin_Ls \<Rightarrow> shell_builtin_ls argv s
      | Builtin_Cat \<Rightarrow> shell_builtin_cat argv s
      | Builtin_Pwd \<Rightarrow> shell_builtin_pwd s
      | Builtin_Cd \<Rightarrow> shell_builtin_cd argv s
      | Builtin_Mkdir \<Rightarrow> shell_builtin_mkdir argv s)"

definition shell_execute_builtin :: "string list \<Rightarrow> shell_state \<Rightarrow> (int \<times> shell_state) option" where
  "shell_execute_builtin argv s =
     (if argv = [] then Some (SHELL_EXEC_OK, s)
      else case find_index (\<lambda>i. shell_str_eq (hd argv) (builtin_name (g_shell_builtins ! i))) (length g_shell_builtins) of
             None \<Rightarrow> Some (SHELL_EXEC_NOT_FOUND, s)
           | Some i \<Rightarrow> call_builtin (builtin_fn (g_shell_builtins ! i)) argv s)"

subsection \<open>Pipes and redirections\<close>

text \<open>
  The copy of one argument into the fallback text: the text, and whether the buffer is full, which ends
  the function. The arguments follow with their index; a full buffer ends the loop.
\<close>

fun fallback_chars :: "string \<Rightarrow> nat \<Rightarrow> string \<Rightarrow> string \<times> bool" where
  "fallback_chars out out_cap [] = (out, False)"
| "fallback_chars out out_cap (c # arg) =
     (if length out + 1 \<ge> out_cap then (out, True) else fallback_chars (out @ [c]) out_cap arg)"

fun fallback_args :: "nat \<Rightarrow> string \<Rightarrow> nat \<Rightarrow> string list \<Rightarrow> string" where
  "fallback_args i out out_cap [] = out"
| "fallback_args i out out_cap (arg # args) =
     (if length out + 1 \<ge> out_cap then out
      else
        let out = (if i > 0 then out @ '' '' else out);
            (out, full) = fallback_chars out out_cap arg
        in if full then out else fallback_args (i + 1) out out_cap args)"

definition shell_build_fallback_text :: "string list \<Rightarrow> nat \<Rightarrow> string" where
  "shell_build_fallback_text argv out_cap = fallback_args 0 [] out_cap argv"

definition shell_execute_or_fallback :: "string list \<Rightarrow> string \<Rightarrow> shell_state \<Rightarrow> (int \<times> shell_state) option" where
  "shell_execute_or_fallback argv fallback_text s =
     do {
       (status, s) \<leftarrow> shell_execute_builtin argv s;
       Some (status,
         if status = SHELL_EXEC_NOT_FOUND
         then shell_fd_write [newline] (shell_fd_write fallback_text (shell_fd_write ''echo: '' s)) else s)
     }"

definition shell_write_redirection :: "shell_parse_result \<Rightarrow> shell_state \<Rightarrow> (int \<times> shell_state) option" where
  "shell_write_redirection r s =
     do {
       let appending = (redir_mode r = SHELL_REDIR_APPEND);
       (status, ps) \<leftarrow> path_state_write_file (sh_path s) (redir_path r)
                         (Some (take (shell_fd_capture_len s) (shell_fd_capture_data s))) appending;
       let s = s \<lparr> sh_path := ps \<rparr>;
       if status \<noteq> 0
       then Some (- 1, shell_fd_write (''redir: write failed'' @ [newline]) (shell_fd_set_stdout_console s))
       else Some (0, s)
     }"

definition shell_execute_single :: "shell_parse_result \<Rightarrow> shell_state \<Rightarrow> (int \<times> shell_state) option" where
  "shell_execute_single r s =
     (let fallback_text = shell_build_fallback_text (left_command r) SHELL_FALLBACK_TEXT_CAP in
      if redir_mode r = SHELL_REDIR_NONE then do {
        let s = shell_fd_set_stdin None (shell_fd_set_stdout_console s);
        (_, s) \<leftarrow> shell_execute_or_fallback (left_command r) fallback_text s;
        Some (0, s)
      }
      else do {
        let s = shell_fd_set_stdin None (shell_fd_set_stdout_capture s);
        (_, s) \<leftarrow> shell_execute_or_fallback (left_command r) fallback_text s;
        shell_write_redirection r s
      })"

definition shell_execute_pipe :: "shell_parse_result \<Rightarrow> shell_state \<Rightarrow> (int \<times> shell_state) option" where
  "shell_execute_pipe r s =
     do {
       let left_text = shell_build_fallback_text (left_command r) SHELL_FALLBACK_TEXT_CAP;
       let right_text = shell_build_fallback_text (right_command r) SHELL_FALLBACK_TEXT_CAP;
       let s = shell_fd_set_stdin None (shell_fd_set_stdout_capture s);
       (_, s) \<leftarrow> shell_execute_or_fallback (left_command r) left_text s;
       let left_output = shell_fd_capture_data s;
       let left_output_len = shell_fd_capture_len s;
       let left_output_len =
         (if left_output_len + 1 > SHELL_PIPE_INPUT_CAP then SHELL_PIPE_INPUT_CAP - 1 else left_output_len);
       let s = shell_fd_set_stdin (Some (take left_output_len left_output)) s;
       if redir_mode r = SHELL_REDIR_NONE then do {
         let s = shell_fd_set_stdout_console s;
         (_, s) \<leftarrow> shell_execute_or_fallback (right_command r) right_text s;
         Some (0, shell_fd_set_stdin None s)
       }
       else do {
         let s = shell_fd_set_stdout_capture s;
         (_, s) \<leftarrow> shell_execute_or_fallback (right_command r) right_text s;
         shell_write_redirection r (shell_fd_set_stdin None s)
       }
     }"

definition shell_execute_line :: "string \<Rightarrow> shell_state \<Rightarrow> (int \<times> shell_state) option" where
  "shell_execute_line line s =
     (case shell_parse_with_redirection line of
        None \<Rightarrow> Some (- 1, shell_fd_write (''parse: invalid command'' @ [newline]) (shell_fd_set_stdout_console s))
      | Some r \<Rightarrow> if has_pipe r then shell_execute_pipe r s else shell_execute_single r s)"

subsection \<open>The command loop\<close>

text \<open>
  One round of the endless loop: prompt, blocking read, execution. The copy \<open>raw_line\<close> that
  \<open>shell_copy_line\<close> makes is not used by \<open>shell_execute_line\<close>. \<open>None\<close>: the round does not end.
\<close>

definition shell_round :: "shell_state \<Rightarrow> shell_state option" where
  "shell_round s =
     do {
       let s = s \<lparr> sh_io := line_io_write ''shell> '' (sh_io s) \<rparr>;
       (line_len, line, io) \<leftarrow> line_io_readline SHELL_LINE_BUFFER_SIZE True (sh_io s);
       let s = s \<lparr> sh_io := io \<rparr>;
       if line_len \<le> 0 then Some s
       else case line of
         None \<Rightarrow> Some s
       | Some line \<Rightarrow> map_option snd (shell_execute_line line s)
     }"

primrec shell_rounds :: "nat \<Rightarrow> shell_state \<Rightarrow> shell_state option" where
  "shell_rounds 0 s = Some s"
| "shell_rounds (Suc n) s = (case shell_round s of None \<Rightarrow> None | Some s \<Rightarrow> shell_rounds n s)"

text \<open>\<open>shell_run\<close> up to the start of its round \<open>n\<close>.\<close>

definition shell_run :: "nat \<Rightarrow> shell_state \<Rightarrow> shell_state option" where
  "shell_run n s = do { s \<leftarrow> shell_builtins_fs_init s; shell_rounds n (shell_fd_reset s) }"

subsection \<open>Where the output goes\<close>

lemma write_fields [simp]:
  "sh_path (shell_fd_write t s) = sh_path s" "sh_pages (shell_fd_write t s) = sh_pages s"
  "sh_stdin_data (shell_fd_write t s) = sh_stdin_data s" "sh_stdout_mode (shell_fd_write t s) = sh_stdout_mode s"
  unfolding shell_fd_write_def by (induction t arbitrary: s) (simp_all add: shell_fd_putc_def)

lemma write_append: "shell_fd_write u (shell_fd_write t s) = shell_fd_write (t @ u) s"
  by (simp add: shell_fd_write_def)

lemma write_Nil [simp]: "shell_fd_write [] s = s"
  by (simp add: shell_fd_write_def)

lemma write_path: "shell_fd_write t (s \<lparr> sh_path := ps \<rparr>) = (shell_fd_write t s) \<lparr> sh_path := ps \<rparr>"
proof (induction t arbitrary: s)
  case (Cons c t)
  have "shell_fd_putc c (s \<lparr> sh_path := ps \<rparr>) = (shell_fd_putc c s) \<lparr> sh_path := ps \<rparr>"
    by (simp add: shell_fd_putc_def)
  then show ?case using Cons by (simp add: shell_fd_write_def)
qed simp

lemma putc_write: "shell_fd_putc c s = shell_fd_write [c] s"
  by (simp add: shell_fd_write_def)

lemma fold_putc_write: "fold shell_fd_putc t s = shell_fd_write t s"
  by (simp add: shell_fd_write_def)

lemma write_console:
  "sh_stdout_mode s = SHELL_STDOUT_CONSOLE \<Longrightarrow> shell_fd_write t s = s \<lparr> sh_io := line_io_write t (sh_io s) \<rparr>"
proof (induction t arbitrary: s)
  case Nil
  then show ?case by (simp add: line_io_write_def console_write_def)
next
  case (Cons c t)
  then have "shell_fd_write t (shell_fd_putc c s) =
      (shell_fd_putc c s) \<lparr> sh_io := line_io_write t (sh_io (shell_fd_putc c s)) \<rparr>"
    by (intro Cons.IH) (simp add: shell_fd_putc_def)
  then show ?case
    using Cons.prems by (simp add: shell_fd_write_def shell_fd_putc_def line_io_write_def console_write_def)
qed

lemma write_capture:
  "sh_stdout_mode s = SHELL_STDOUT_CAPTURE \<Longrightarrow> length (sh_capture s) < SHELL_FD_CAPTURE_CAP \<Longrightarrow>
   shell_fd_write t s = s \<lparr> sh_capture := take (SHELL_FD_CAPTURE_CAP - 1) (sh_capture s @ t) \<rparr>"
proof (induction t arbitrary: s)
  case Nil
  then show ?case by simp
next
  case (Cons c t)
  show ?case
  proof (cases "length (sh_capture s) + 1 \<ge> SHELL_FD_CAPTURE_CAP")
    case True
    then have full: "shell_fd_putc c s = s" "SHELL_FD_CAPTURE_CAP = Suc (length (sh_capture s))"
      using Cons.prems by (simp_all add: shell_fd_putc_def)
    show ?thesis
      using Cons.IH [OF Cons.prems] by (simp add: shell_fd_write_def full)
  next
    case False
    let ?s = "s \<lparr> sh_capture := sh_capture s @ [c] \<rparr>"
    have "shell_fd_putc c s = ?s"
      using False Cons.prems by (simp add: shell_fd_putc_def)
    moreover have "shell_fd_write t ?s = ?s \<lparr> sh_capture := take (SHELL_FD_CAPTURE_CAP - 1) (sh_capture ?s @ t) \<rparr>"
      using False Cons.prems by (intro Cons.IH) simp_all
    ultimately show ?thesis by (simp add: shell_fd_write_def)
  qed
qed

subsection \<open>What the commands print\<close>

definition help_text :: string where
  "help_text = ''available commands:'' @ [newline] @
     concat (map (\<lambda>b. ''  '' @ builtin_name b @ '' - '' @ builtin_help b @ [newline]) g_shell_builtins)"

definition spaced :: "string list \<Rightarrow> string" where
  "spaced args = concat (map (\<lambda>arg. CHR '' '' # arg) args)"

definition echo_text :: "string list \<Rightarrow> string" where
  "echo_text args = ''echo:'' @ spaced args @ [newline]"

definition decimal_u64 :: "u64 \<Rightarrow> string" where
  "decimal_u64 value = (if value = 0 then ''0'' else rev (u64_scratch 20 value))"

definition hex_u64 :: "u64 \<Rightarrow> string" where
  "hex_u64 value = ''0x'' @
     map (\<lambda>k. ''0123456789abcdef'' ! unat (drop_bit (4 * k) value AND 0xf)) (rev [0..<16])"

definition meminfo_text :: "page_alloc_state \<Rightarrow> string" where
  "meminfo_text pg =
     (let total = word_of_nat (page_alloc_total_pages pg); available = word_of_nat (page_alloc_free_pages pg) in
      ''meminfo: range='' @ hex_u64 (page_alloc_range_start pg) @ ''-'' @ hex_u64 (page_alloc_range_end pg) @
      '' page_size='' @ decimal_u64 PAGE_ALLOC_PAGE_SIZE @ '' total_pages='' @ decimal_u64 total @
      '' free_pages='' @ decimal_u64 available @ '' used_pages='' @ decimal_u64 (total - available) @ [newline])"

definition text_line :: "string \<Rightarrow> string" where
  "text_line c = c @ (if c = [] \<or> last c \<noteq> newline then [newline] else [])"

fun mkdir_text :: "string list \<Rightarrow> path_state \<Rightarrow> (string \<times> path_state) option" where
  "mkdir_text [] ps = Some ([], ps)"
| "mkdir_text (arg # args) ps =
     do {
       (r, ps) \<leftarrow> path_state_mkdir ps (Some arg);
       (text, ps) \<leftarrow> mkdir_text args ps;
       Some ((if r \<noteq> 0 then ''mkdir: failed: '' @ arg @ [newline] else []) @ text, ps)
     }"

fun cat_text :: "string list \<Rightarrow> path_state \<Rightarrow> (string \<times> path_state) option" where
  "cat_text [] ps = Some ([], ps)"
| "cat_text (arg # args) ps =
     do {
       (c, ps) \<leftarrow> path_state_cat ps (Some arg);
       (text, ps) \<leftarrow> cat_text args ps;
       Some ((case c of None \<Rightarrow> ''cat: not found: '' @ arg @ [newline] | Some c \<Rightarrow> text_line c) @ text, ps)
     }"

definition ls_text :: "path_state_entry list \<Rightarrow> string" where
  "ls_text es = concat (map (\<lambda>e. entry_text e @
     (if entry_kind e = PATH_STATE_ENTRY_DIR then ''/'' else []) @ [newline]) es)"

text \<open>
  A command as a function of its standard input, its words and the file system: its status, its text
  and the new file system.
\<close>

definition command_result ::
  "page_alloc_state \<Rightarrow> string option \<Rightarrow> string list \<Rightarrow> path_state \<Rightarrow> (int \<times> string \<times> path_state) option" where
  "command_result pg input argv ps =
     (if argv = [] then Some (SHELL_EXEC_OK, [], ps)
      else
        let args = tl argv; ok = (\<lambda>(text, ps). (SHELL_EXEC_OK, text, ps)) in
        if hd argv = ''help'' then Some (SHELL_EXEC_OK, help_text, ps)
        else if hd argv = ''echo'' then Some (SHELL_EXEC_OK, echo_text args, ps)
        else if hd argv = ''meminfo'' then Some (SHELL_EXEC_OK, meminfo_text pg, ps)
        else if hd argv = ''ls'' then
          map_option (\<lambda>(listed, ps). (SHELL_EXEC_OK, case listed of None \<Rightarrow> ''ls: cannot access'' @ [newline]
              | Some (es, count) \<Rightarrow> ls_text (take count es), ps))
            (path_state_ls ps (Some (case args of [] \<Rightarrow> ''.'' | a # _ \<Rightarrow> a)) (Some SHELL_FS_LS_MAX))
        else if hd argv = ''cat'' then
          (if args = [] then Some (SHELL_EXEC_OK,
             if input = None \<or> input = Some [] then ''cat: missing path'' @ [newline] else text_line (the input), ps)
           else map_option ok (cat_text args ps))
        else if hd argv = ''pwd'' then
          map_option (\<lambda>(cwd, ps). (SHELL_EXEC_OK, case cwd of None \<Rightarrow> ''pwd: error'' @ [newline]
              | Some cwd \<Rightarrow> cwd @ [newline], ps)) (path_state_pwd ps SHELL_FS_PATH_MAX)
        else if hd argv = ''cd'' then
          map_option (\<lambda>(r, ps). (SHELL_EXEC_OK, if r \<noteq> 0 then ''cd: no such directory'' @ [newline] else [], ps))
            (path_state_cd ps (Some (case args of [] \<Rightarrow> ''/'' | a # _ \<Rightarrow> a)))
        else if hd argv = ''mkdir'' then
          (if args = [] then Some (SHELL_EXEC_OK, ''mkdir: missing path'' @ [newline], ps)
           else map_option ok (mkdir_text args ps))
        else Some (SHELL_EXEC_NOT_FOUND,
          ''echo: '' @ take (SHELL_FALLBACK_TEXT_CAP - 1) (hd argv @ spaced args) @ [newline], ps))"

lemma shell_str_eq_iff: "shell_str_eq a b \<longleftrightarrow> a = b"
  by (induction a b rule: shell_str_eq.induct) auto

lemma fold_write: "fold (\<lambda>x s. shell_fd_write (f x) s) xs s = shell_fd_write (concat (map f xs)) s"
  by (induction xs arbitrary: s) (simp_all add: write_append)

lemma help_result: "shell_builtin_help s = (SHELL_EXEC_OK, shell_fd_write help_text s)"
  by (simp add: shell_builtin_help_def help_text_def write_append fold_write)

lemma echo_args_text: "echo_args args s = shell_fd_write (tl (spaced args)) s"
proof (induction args s rule: echo_args.induct)
  case (3 arg arg' args s)
  then show ?case by (simp add: write_append spaced_def)
qed (simp_all add: spaced_def)

lemma echo_result: "argv \<noteq> [] \<Longrightarrow> shell_builtin_echo argv s = (SHELL_EXEC_OK, shell_fd_write (echo_text (tl argv)) s)"
  by (cases argv rule: list.exhaust; cases "tl argv")
    (simp_all add: shell_builtin_echo_def echo_args_text write_append echo_text_def spaced_def)

lemma hex_digits_text:
  "hex_digits_from (4 * n) v s =
   shell_fd_write (map (\<lambda>k. ''0123456789abcdef'' ! unat (drop_bit (4 * k) v AND 0xf)) (rev [0..<n])) s"
  by (induction n arbitrary: s; subst hex_digits_from.simps) (simp_all add: Let_def putc_write write_append)

lemma shell_write_hex_text: "shell_write_hex_uintptr v s = shell_fd_write (hex_u64 v) s"
  using hex_digits_text [of 16 v "shell_fd_write ''0x'' s"]
  by (simp add: shell_write_hex_uintptr_def write_append hex_u64_def)

lemma shell_write_u64_text: "shell_write_u64 v s = shell_fd_write (decimal_u64 v) s"
  by (simp add: shell_write_u64_def decimal_u64_def putc_write fold_putc_write)

lemma meminfo_result: "shell_builtin_meminfo s = (SHELL_EXEC_OK, shell_fd_write (meminfo_text (sh_pages s)) s)"
  by (simp add: shell_builtin_meminfo_def meminfo_text_def Let_def shell_write_hex_text shell_write_u64_text write_append)

lemma write_text_line_text: "write_text_line c s = shell_fd_write (text_line c) s"
  by (simp add: write_text_line_def text_line_def write_append)

abbreviation returned :: "shell_state \<Rightarrow> int \<times> string \<times> path_state \<Rightarrow> int \<times> shell_state" where
  "returned s \<equiv> \<lambda>(r, text, ps). (r, (shell_fd_write text s) \<lparr> sh_path := ps \<rparr>)"

lemma path_update_same: "sh_path s = ps \<Longrightarrow> s \<lparr> sh_path := ps \<rparr> = s"
  by auto

lemma mkdir_args_text:
  "mkdir_args args s = map_option (\<lambda>(text, ps). (shell_fd_write text s) \<lparr> sh_path := ps \<rparr>) (mkdir_text args (sh_path s))"
proof (induction args arbitrary: s)
  case (Cons arg args)
  show ?case
  proof (cases "path_state_mkdir (sh_path s) (Some arg)")
    case None
    then show ?thesis by simp
  next
    case (Some x)
    obtain r ps where x: "x = (r, ps)" by force
    show ?thesis
      using Some by (cases "mkdir_text args ps") (auto simp: x Cons.IH write_append write_path Let_def)
  qed
qed (simp add: path_update_same)

lemma cat_args_text:
  "cat_args args s = map_option (\<lambda>(text, ps). (shell_fd_write text s) \<lparr> sh_path := ps \<rparr>) (cat_text args (sh_path s))"
proof (induction args arbitrary: s)
  case (Cons arg args)
  show ?case
  proof (cases "path_state_cat (sh_path s) (Some arg)")
    case None
    then show ?thesis by simp
  next
    case (Some x)
    obtain c ps where x: "x = (c, ps)" by force
    show ?thesis
      using Some by (cases "cat_text args ps"; cases c)
        (auto simp: x Cons.IH write_append write_path write_text_line_text Let_def)
  qed
qed (simp add: path_update_same)

lemma ls_write_text: "fold write_entry es s = shell_fd_write (ls_text es) s"
proof (induction es arbitrary: s)
  case (Cons e es)
  then show ?case
    by (simp add: write_entry_def Let_def write_append ls_text_def)
qed (simp add: ls_text_def)

subsection \<open>The fallback text\<close>

lemma fallback_chars_take:
  assumes "length out < cap"
  shows "fallback_chars out cap arg = (take (cap - 1) (out @ arg), cap \<le> length out + length arg)"
  using assms
proof (induction arg arbitrary: out)
  case Nil
  then show ?case by simp
next
  case (Cons c arg)
  show ?case
  proof (cases "length out + 1 \<ge> cap")
    case True
    then have "cap = Suc (length out)" using Cons.prems by simp
    then show ?thesis by simp
  next
    case False
    then show ?thesis using Cons.IH [of "out @ [c]"] by simp
  qed
qed

lemma fallback_args_take:
  assumes "length out < cap" "0 < i"
  shows "fallback_args i out cap args = take (cap - 1) (out @ spaced args)"
  using assms
proof (induction args arbitrary: i out)
  case Nil
  then show ?case by (simp add: spaced_def)
next
  case (Cons arg args)
  show ?case
  proof (cases "length out + 1 \<ge> cap")
    case True
    then have "cap = Suc (length out)" using Cons.prems by simp
    then show ?thesis by simp
  next
    case False
    then have "length (out @ '' '') < cap" by simp
    note c = fallback_chars_take [OF this, of arg]
    have s: "spaced (arg # args) = '' '' @ arg @ spaced args"
      by (simp add: spaced_def)
    show ?thesis
    proof (cases "cap \<le> length out + 1 + length arg")
      case full: True
      then show ?thesis
        using False Cons.prems c take_append [of "cap - 1" "out @ '' '' @ arg" "spaced args"] by (simp add: s)
    next
      case room: False
      then have "fallback_args (i + 1) (out @ '' '' @ arg) cap args = take (cap - 1) ((out @ '' '' @ arg) @ spaced args)"
        by (intro Cons.IH) simp_all
      then show ?thesis
        using False room Cons.prems c by (simp add: s)
    qed
  qed
qed

lemma fallback_text:
  assumes "argv \<noteq> []" "1 < cap"
  shows "shell_build_fallback_text argv cap = take (cap - 1) (hd argv @ spaced (tl argv))"
proof (cases argv)
  case (Cons arg args)
  have c: "fallback_chars [] cap arg = (take (cap - 1) arg, cap \<le> length arg)"
    using fallback_chars_take [of "[]" cap arg] assms(2) by simp
  show ?thesis
  proof (cases "cap \<le> length arg")
    case True
    then show ?thesis using Cons c assms(2) by (simp add: shell_build_fallback_text_def)
  next
    case False
    then show ?thesis
      using Cons c assms(2) fallback_args_take [of arg cap 1 args] by (simp add: shell_build_fallback_text_def)
  qed
qed (use assms in simp)

subsection \<open>Commands, pipes and redirections\<close>

lemma find_builtin:
  "find_index (\<lambda>i. shell_str_eq name (builtin_name (g_shell_builtins ! i))) (length g_shell_builtins) =
   (if name = ''help'' then Some 0 else if name = ''echo'' then Some 1 else if name = ''meminfo'' then Some 2
    else if name = ''ls'' then Some 3 else if name = ''cat'' then Some 4 else if name = ''pwd'' then Some 5
    else if name = ''cd'' then Some 6 else if name = ''mkdir'' then Some 7 else None)"
  by (simp add: g_shell_builtins_def find_index_from.simps shell_str_eq_iff numeral_eq_Suc)

lemma argument_or: "(if length argv \<ge> 2 then argv ! 1 else d) = (case tl argv of [] \<Rightarrow> d | a # _ \<Rightarrow> a)"
  by (cases argv; cases "tl argv") auto

lemma pwd_result:
  "shell_builtin_pwd s = map_option (returned s) (map_option (\<lambda>(cwd, ps). (SHELL_EXEC_OK,
     case cwd of None \<Rightarrow> ''pwd: error'' @ [newline] | Some cwd \<Rightarrow> cwd @ [newline], ps)) (path_state_pwd (sh_path s) SHELL_FS_PATH_MAX))"
  by (cases "path_state_pwd (sh_path s) SHELL_FS_PATH_MAX")
    (auto simp: shell_builtin_pwd_def shell_write_path_def write_append write_path split: option.splits)

lemma cd_result:
  "shell_builtin_cd argv s = map_option (returned s) (map_option (\<lambda>(r, ps). (SHELL_EXEC_OK,
     if r \<noteq> 0 then ''cd: no such directory'' @ [newline] else [], ps))
     (path_state_cd (sh_path s) (Some (case tl argv of [] \<Rightarrow> ''/'' | a # _ \<Rightarrow> a))))"
  unfolding shell_builtin_cd_def argument_or
  by (cases "path_state_cd (sh_path s) (Some (case tl argv of [] \<Rightarrow> ''/'' | a # _ \<Rightarrow> a))") (auto simp: write_path Let_def)

lemma ls_result:
  "shell_builtin_ls argv s = map_option (returned s) (map_option (\<lambda>(listed, ps). (SHELL_EXEC_OK,
     case listed of None \<Rightarrow> ''ls: cannot access'' @ [newline] | Some (es, count) \<Rightarrow> ls_text (take count es), ps))
     (path_state_ls (sh_path s) (Some (case tl argv of [] \<Rightarrow> ''.'' | a # _ \<Rightarrow> a)) (Some SHELL_FS_LS_MAX)))"
  unfolding shell_builtin_ls_def argument_or
  by (cases "path_state_ls (sh_path s) (Some (case tl argv of [] \<Rightarrow> ''.'' | a # _ \<Rightarrow> a)) (Some SHELL_FS_LS_MAX)")
    (auto simp: write_path Let_def ls_write_text split: option.splits)

lemma mkdir_result:
  "argv \<noteq> [] \<Longrightarrow> shell_builtin_mkdir argv s = map_option (returned s)
     (if tl argv = [] then Some (SHELL_EXEC_OK, ''mkdir: missing path'' @ [newline], sh_path s)
      else map_option (\<lambda>(text, ps). (SHELL_EXEC_OK, text, ps)) (mkdir_text (tl argv) (sh_path s)))"
  by (cases argv; cases "mkdir_text (tl argv) (sh_path s)")
    (auto simp: shell_builtin_mkdir_def mkdir_args_text Suc_le_eq path_update_same)

lemma cat_result:
  "argv \<noteq> [] \<Longrightarrow> shell_builtin_cat argv s = map_option (returned s)
     (if tl argv = [] then Some (SHELL_EXEC_OK,
        if sh_stdin_data s = None \<or> sh_stdin_data s = Some [] then ''cat: missing path'' @ [newline]
        else text_line (the (sh_stdin_data s)), sh_path s)
      else map_option (\<lambda>(text, ps). (SHELL_EXEC_OK, text, ps)) (cat_text (tl argv) (sh_path s)))"
  by (cases argv; cases "cat_text (tl argv) (sh_path s)"; cases "sh_stdin_data s")
    (auto simp: shell_builtin_cat_def cat_args_text shell_fd_has_stdin_def shell_fd_stdin_def write_text_line_text
      path_update_same)

lemma builtin_fns:
  "builtin_fn (g_shell_builtins ! 0) = Builtin_Help" "builtin_fn (g_shell_builtins ! Suc 0) = Builtin_Echo"
  "builtin_fn (g_shell_builtins ! 2) = Builtin_Meminfo" "builtin_fn (g_shell_builtins ! 3) = Builtin_Ls"
  "builtin_fn (g_shell_builtins ! 4) = Builtin_Cat" "builtin_fn (g_shell_builtins ! 5) = Builtin_Pwd"
  "builtin_fn (g_shell_builtins ! 6) = Builtin_Cd" "builtin_fn (g_shell_builtins ! 7) = Builtin_Mkdir"
  by (simp_all add: g_shell_builtins_def)

lemma shell_execute_builtin_result:
  assumes "argv \<noteq> []"
  shows "shell_execute_builtin argv s =
    (if hd argv = ''help'' then Some (SHELL_EXEC_OK, shell_fd_write help_text s)
     else if hd argv = ''echo'' then Some (SHELL_EXEC_OK, shell_fd_write (echo_text (tl argv)) s)
     else if hd argv = ''meminfo'' then Some (SHELL_EXEC_OK, shell_fd_write (meminfo_text (sh_pages s)) s)
     else if hd argv = ''ls'' then shell_builtin_ls argv s
     else if hd argv = ''cat'' then shell_builtin_cat argv s
     else if hd argv = ''pwd'' then shell_builtin_pwd s
     else if hd argv = ''cd'' then shell_builtin_cd argv s
     else if hd argv = ''mkdir'' then shell_builtin_mkdir argv s
     else Some (SHELL_EXEC_NOT_FOUND, s))"
  using assms unfolding shell_execute_builtin_def find_builtin
  by (simp add: call_builtin_def help_result echo_result meminfo_result builtin_fns)

lemma command_cases:
  assumes "argv \<noteq> []" "hd argv \<in> {''ls'', ''cat'', ''pwd'', ''cd'', ''mkdir''}"
  shows "shell_execute_builtin argv s = map_option (returned s) (command_result (sh_pages s) (sh_stdin_data s) argv (sh_path s))"
  using assms
  by (auto simp: shell_execute_builtin_result command_result_def pwd_result cd_result ls_result mkdir_result cat_result Let_def)

lemma command_ok_status:
  assumes "argv \<noteq> []" "hd argv \<in> {''ls'', ''cat'', ''pwd'', ''cd'', ''mkdir''}"
    "command_result pg input argv ps = Some (r, t, ps')"
  shows "r = SHELL_EXEC_OK"
  using assms by (auto simp: command_result_def Let_def split: if_splits option.splits)

lemma execute_or_fallback_result:
  assumes "argv \<noteq> []"
  shows "shell_execute_or_fallback argv (shell_build_fallback_text argv SHELL_FALLBACK_TEXT_CAP) s =
    map_option (returned s) (command_result (sh_pages s) (sh_stdin_data s) argv (sh_path s))"
proof (cases "hd argv \<in> {''ls'', ''cat'', ''pwd'', ''cd'', ''mkdir''}")
  case True
  note c = command_cases [OF assms True, of s] command_ok_status [OF assms True, of "sh_pages s" "sh_stdin_data s" "sh_path s"]
  show ?thesis
    using c by (cases "command_result (sh_pages s) (sh_stdin_data s) argv (sh_path s)")
      (auto simp: shell_execute_or_fallback_def SHELL_EXEC_OK_def SHELL_EXEC_NOT_FOUND_def)
next
  case False
  have f: "shell_build_fallback_text argv SHELL_FALLBACK_TEXT_CAP =
      take (SHELL_FALLBACK_TEXT_CAP - 1) (hd argv @ spaced (tl argv))"
    by (rule fallback_text [OF assms]) (simp add: SHELL_FALLBACK_TEXT_CAP_def)
  show ?thesis
    unfolding f using False assms
    by (auto simp: shell_execute_or_fallback_def SHELL_EXEC_OK_def SHELL_EXEC_NOT_FOUND_def
        shell_execute_builtin_result command_result_def Let_def write_append path_update_same)
qed

text \<open>The meaning of a parsed command: the status, what the console gets, and the new file system.\<close>

definition pipeline_result ::
  "page_alloc_state \<Rightarrow> shell_parse_result \<Rightarrow> path_state \<Rightarrow> (string \<times> path_state) option" where
  "pipeline_result pg r ps =
     do {
       (_, text, ps) \<leftarrow> command_result pg None (left_command r) ps;
       if has_pipe r then do {
         (_, text, ps) \<leftarrow> command_result pg (Some (take (SHELL_FD_CAPTURE_CAP - 1) text)) (right_command r) ps;
         Some (text, ps)
       }
       else Some (text, ps)
     }"

definition line_result ::
  "page_alloc_state \<Rightarrow> string \<Rightarrow> path_state \<Rightarrow> (int \<times> string \<times> path_state) option" where
  "line_result pg line ps =
     (case shell_parse_with_redirection line of
        None \<Rightarrow> Some (- 1, ''parse: invalid command'' @ [newline], ps)
      | Some r \<Rightarrow> do {
          (text, ps) \<leftarrow> pipeline_result pg r ps;
          if redir_mode r = SHELL_REDIR_NONE then Some (0, text, ps)
          else do {
            (status, ps) \<leftarrow> path_state_write_file ps (redir_path r) (Some (take (SHELL_FD_CAPTURE_CAP - 1) text))
                             (redir_mode r = SHELL_REDIR_APPEND);
            Some (if status \<noteq> 0 then (- 1, ''redir: write failed'' @ [newline], ps) else (0, [], ps))
          }
        })"

lemma capture_start:
  "shell_fd_write t (shell_fd_set_stdin i (shell_fd_set_stdout_capture s)) =
     s \<lparr> sh_stdout_mode := SHELL_STDOUT_CAPTURE, sh_stdin_data := i, sh_capture := take (SHELL_FD_CAPTURE_CAP - 1) t \<rparr>"
  by (subst write_capture)
    (simp_all add: shell_fd_set_stdin_def shell_fd_set_stdout_capture_def shell_fd_capture_clear_def SHELL_FD_CAPTURE_CAP_def)

lemma console_start:
  "shell_fd_write t (shell_fd_set_stdin i (shell_fd_set_stdout_console s)) =
     s \<lparr> sh_stdout_mode := SHELL_STDOUT_CONSOLE, sh_stdin_data := i, sh_io := line_io_write t (sh_io s) \<rparr>"
  by (subst write_console) (simp_all add: shell_fd_set_stdin_def shell_fd_set_stdout_console_def)

lemma start_swap:
  "shell_fd_set_stdout_capture (shell_fd_set_stdin i s) = shell_fd_set_stdin i (shell_fd_set_stdout_capture s)"
  "shell_fd_set_stdout_console (shell_fd_set_stdin i s) = shell_fd_set_stdin i (shell_fd_set_stdout_console s)"
  by (simp_all add: shell_fd_set_stdin_def shell_fd_set_stdout_console_def shell_fd_set_stdout_capture_def
      shell_fd_capture_clear_def)

lemma start_fields:
  "sh_pages (shell_fd_set_stdin i (shell_fd_set_stdout_capture s)) = sh_pages s"
  "sh_pages (shell_fd_set_stdin i (shell_fd_set_stdout_console s)) = sh_pages s"
  "sh_path (shell_fd_set_stdin i (shell_fd_set_stdout_capture s)) = sh_path s"
  "sh_path (shell_fd_set_stdin i (shell_fd_set_stdout_console s)) = sh_path s"
  "sh_stdin_data (shell_fd_set_stdin i s) = i"
  by (simp_all add: shell_fd_set_stdin_def shell_fd_set_stdout_console_def shell_fd_set_stdout_capture_def
      shell_fd_capture_clear_def)

lemma run_console:
  assumes "argv \<noteq> []"
  shows "shell_execute_or_fallback argv (shell_build_fallback_text argv SHELL_FALLBACK_TEXT_CAP)
      (shell_fd_set_stdin i (shell_fd_set_stdout_console s)) =
    map_option (\<lambda>(r, t, ps). (r, s \<lparr> sh_stdout_mode := SHELL_STDOUT_CONSOLE, sh_stdin_data := i,
        sh_io := line_io_write t (sh_io s), sh_path := ps \<rparr>)) (command_result (sh_pages s) i argv (sh_path s))"
  unfolding execute_or_fallback_result [OF assms] start_fields console_start by simp

lemma run_capture:
  assumes "argv \<noteq> []"
  shows "shell_execute_or_fallback argv (shell_build_fallback_text argv SHELL_FALLBACK_TEXT_CAP)
      (shell_fd_set_stdin i (shell_fd_set_stdout_capture s)) =
    map_option (\<lambda>(r, t, ps). (r, s \<lparr> sh_stdout_mode := SHELL_STDOUT_CAPTURE, sh_stdin_data := i,
        sh_capture := take (SHELL_FD_CAPTURE_CAP - 1) t, sh_path := ps \<rparr>)) (command_result (sh_pages s) i argv (sh_path s))"
  unfolding execute_or_fallback_result [OF assms] start_fields capture_start by simp

text \<open>What of a state the next line depends on.\<close>

definition outcome :: "int \<times> shell_state \<Rightarrow> int \<times> line_io_state \<times> path_state \<times> page_alloc_state" where
  "outcome = (\<lambda>(status, s). (status, sh_io s, sh_path s, sh_pages s))"

lemma line_io_write_Nil [simp]: "line_io_write [] io = io"
  by (simp add: line_io_write_def console_write_def)

lemma redirection_outcome:
  "map_option outcome (shell_write_redirection r (s \<lparr> sh_stdout_mode := m, sh_stdin_data := i, sh_capture := t, sh_path := ps \<rparr>)) =
   map_option (\<lambda>(status, ps). if status \<noteq> 0 then (- 1, line_io_write (''redir: write failed'' @ [newline]) (sh_io s), ps, sh_pages s)
       else (0, sh_io s, ps, sh_pages s))
     (path_state_write_file ps (redir_path r) (Some t) (redir_mode r = SHELL_REDIR_APPEND))"
  by (cases "path_state_write_file ps (redir_path r) (Some t) (redir_mode r = SHELL_REDIR_APPEND)")
    (auto simp: shell_write_redirection_def shell_fd_capture_data_def shell_fd_capture_len_def outcome_def Let_def
      write_console shell_fd_set_stdout_console_def)

lemma single_outcome:
  assumes "left_command r \<noteq> []" "\<not> has_pipe r" "shell_parse_with_redirection line = Some r"
  shows "map_option outcome (shell_execute_single r s) =
    map_option (\<lambda>(status, t, ps). (status, line_io_write t (sh_io s), ps, sh_pages s)) (line_result (sh_pages s) line (sh_path s))"
proof (cases "command_result (sh_pages s) None (left_command r) (sh_path s)")
  case None
  then show ?thesis
    using assms by (simp add: shell_execute_single_def Let_def run_console run_capture line_result_def pipeline_result_def)
next
  case (Some x)
  obtain c t ps where x: "x = (c, t, ps)" by (metis prod_cases3)
  show ?thesis
  proof (cases "redir_mode r = SHELL_REDIR_NONE")
    case True
    then show ?thesis
      using assms Some x
      by (simp add: shell_execute_single_def Let_def run_console line_result_def pipeline_result_def outcome_def)
  next
    case False
    have "map_option outcome (shell_execute_single r s) = map_option outcome (shell_write_redirection r
        (s \<lparr> sh_stdout_mode := SHELL_STDOUT_CAPTURE, sh_stdin_data := None,
          sh_capture := take (SHELL_FD_CAPTURE_CAP - 1) t, sh_path := ps \<rparr>))"
      using assms Some x False by (simp add: shell_execute_single_def Let_def run_capture)
    then show ?thesis
      using assms Some x False unfolding redirection_outcome
      by (cases "path_state_write_file ps (redir_path r) (Some (take (SHELL_FD_CAPTURE_CAP - 1) t)) (redir_mode r = SHELL_REDIR_APPEND)")
        (auto simp: line_result_def pipeline_result_def)
  qed
qed

lemma set_stdin_order:
  "shell_fd_set_stdin i (s \<lparr> sh_stdout_mode := m, sh_stdin_data := j, sh_capture := t, sh_path := ps \<rparr>) =
   s \<lparr> sh_stdout_mode := m, sh_stdin_data := i, sh_capture := t, sh_path := ps \<rparr>"
  by (cases s) (simp add: shell_fd_set_stdin_def)

lemma pipe_outcome:
  assumes "left_command r \<noteq> []" "right_command r \<noteq> []" "has_pipe r" "shell_parse_with_redirection line = Some r"
  shows "map_option outcome (shell_execute_pipe r s) =
    map_option (\<lambda>(status, t, ps). (status, line_io_write t (sh_io s), ps, sh_pages s)) (line_result (sh_pages s) line (sh_path s))"
proof (cases "command_result (sh_pages s) None (left_command r) (sh_path s)")
  case None
  then show ?thesis
    using assms by (simp add: shell_execute_pipe_def Let_def run_capture line_result_def pipeline_result_def)
next
  case (Some x)
  obtain c t ps where x: "x = (c, t, ps)" by (metis prod_cases3)
  define t1 where "t1 = take (SHELL_FD_CAPTURE_CAP - 1) t"
  define s1 where "s1 = s \<lparr> sh_stdout_mode := SHELL_STDOUT_CAPTURE, sh_stdin_data := None, sh_capture := t1, sh_path := ps \<rparr>"
  have len: "length t1 + 1 \<le> SHELL_PIPE_INPUT_CAP"
    by (simp add: t1_def SHELL_PIPE_INPUT_CAP_def SHELL_FD_CAPTURE_CAP_def)
  have left: "shell_execute_or_fallback (left_command r) (shell_build_fallback_text (left_command r) SHELL_FALLBACK_TEXT_CAP)
      (shell_fd_set_stdin None (shell_fd_set_stdout_capture s)) = Some (c, s1)" and cap: "sh_capture s1 = t1"
    using Some by (simp_all add: run_capture [OF assms(1)] x s1_def t1_def)
  have first: "shell_execute_pipe r s =
      (if redir_mode r = SHELL_REDIR_NONE then do {
         (_, s) \<leftarrow> shell_execute_or_fallback (right_command r) (shell_build_fallback_text (right_command r) SHELL_FALLBACK_TEXT_CAP)
           (shell_fd_set_stdin (Some t1) (shell_fd_set_stdout_console s1));
         Some (0, shell_fd_set_stdin None s)
       }
       else do {
         (_, s) \<leftarrow> shell_execute_or_fallback (right_command r) (shell_build_fallback_text (right_command r) SHELL_FALLBACK_TEXT_CAP)
           (shell_fd_set_stdin (Some t1) (shell_fd_set_stdout_capture s1));
         shell_write_redirection r (shell_fd_set_stdin None s)
       })"
    using left cap len
    by (simp add: shell_execute_pipe_def Let_def start_swap shell_fd_capture_data_def shell_fd_capture_len_def)
  have s1: "sh_io s1 = sh_io s" "sh_pages s1 = sh_pages s" "sh_path s1 = ps"
    by (simp_all add: s1_def)
  have line: "line_result (sh_pages s) line (sh_path s) = do {
      (_, t, ps) \<leftarrow> command_result (sh_pages s) (Some t1) (right_command r) ps;
      if redir_mode r = SHELL_REDIR_NONE then Some (0, t, ps)
      else do {
        (status, ps) \<leftarrow> path_state_write_file ps (redir_path r) (Some (take (SHELL_FD_CAPTURE_CAP - 1) t))
                         (redir_mode r = SHELL_REDIR_APPEND);
        Some (if status \<noteq> 0 then (- 1, ''redir: write failed'' @ [newline], ps) else (0, [], ps))
      } }"
    using assms(3,4) Some x
    by (cases "command_result (sh_pages s) (Some t1) (right_command r) ps") (auto simp: line_result_def pipeline_result_def t1_def)
  show ?thesis
  proof (cases "command_result (sh_pages s) (Some t1) (right_command r) ps")
    case None
    then show ?thesis
      unfolding line first by (simp add: run_console [OF assms(2)] run_capture [OF assms(2)] s1)
  next
    case (Some y)
    obtain c2 t2 ps2 where y: "y = (c2, t2, ps2)" by (metis prod_cases3)
    show ?thesis
    proof (cases "redir_mode r = SHELL_REDIR_NONE")
      case True
      then show ?thesis
        unfolding line first using Some y
        by (simp add: run_console [OF assms(2)] s1) (simp add: outcome_def shell_fd_set_stdin_def s1)
    next
      case False
      have "map_option outcome (shell_execute_pipe r s) = map_option outcome (shell_write_redirection r
          (s1 \<lparr> sh_stdout_mode := SHELL_STDOUT_CAPTURE, sh_stdin_data := None,
            sh_capture := take (SHELL_FD_CAPTURE_CAP - 1) t2, sh_path := ps2 \<rparr>))"
        unfolding first using Some y False
        by (simp add: run_capture [OF assms(2)] s1 set_stdin_order)
      then show ?thesis
        unfolding redirection_outcome s1 line using Some y False
        by (cases "path_state_write_file ps2 (redir_path r) (Some (take (SHELL_FD_CAPTURE_CAP - 1) t2)) (redir_mode r = SHELL_REDIR_APPEND)")
          auto
    qed
  qed
qed

lemma shell_execute_line_lemma:
  "map_option outcome (shell_execute_line line s) =
   map_option (\<lambda>(status, t, ps). (status, line_io_write t (sh_io s), ps, sh_pages s)) (line_result (sh_pages s) line (sh_path s))"
proof (cases "shell_parse_with_redirection line")
  case None
  then show ?thesis
    by (simp add: shell_execute_line_def line_result_def outcome_def write_console shell_fd_set_stdout_console_def)
next
  case (Some r)
  then have "command_ok r"
    by (simp add: shell_parse_lemma)
  then have r: "left_command r \<noteq> []" "has_pipe r \<longleftrightarrow> right_command r \<noteq> []"
    by (simp_all add: command_ok_def)
  show ?thesis
    using single_outcome [OF r(1) _ Some, of s] pipe_outcome [OF r(1) _ _ Some, of s] r(2)
    by (cases "has_pipe r") (simp_all add: shell_execute_line_def Some)
qed

text \<open>
  C8: What a command line does, as one function of the file system and the line. The words of each
  side run as a command whose text is a function of its standard input, its words and the file
  system; the left text, cut to 2047 characters, is the right side's standard input; the text of the
  last command goes to the console, or with a redirection, cut to 2047 characters, into the file
  and then nothing reaches the console. Only a failed write or a line that does not parse print an
  error and return -1.
\<close>

theorem shell_execute_line_spec:
  "map_option outcome (shell_execute_line line s) =
   map_option (\<lambda>(status, t, ps). (status, line_io_write t (sh_io s), ps, sh_pages s)) (line_result (sh_pages s) line (sh_path s))"
  by (rule shell_execute_line_lemma)

subsection \<open>Every line returns\<close>

lemma path_leq_refl [simp]: "path_leq ps ps"
  by (simp add: path_leq_def)

lemma path_leq_trans: "path_leq a b \<Longrightarrow> path_leq b c \<Longrightarrow> path_leq a c"
  unfolding path_leq_def by (meson subset_trans)

lemma path_state_mkdir_leq:
  assumes "path_state_wf ps" "c_string path"
  shows "\<exists>r ps'. path_state_mkdir ps (Some path) = Some (r, ps') \<and> path_state_wf ps' \<and> path_leq ps ps'"
  using path_state_mkdir_lemma [OF assms] by (auto simp: path_leq_def split: if_splits)

lemma path_state_cd_leq:
  assumes "path_state_wf ps" "c_string path"
  shows "\<exists>r ps'. path_state_cd ps (Some path) = Some (r, ps') \<and> path_state_wf ps' \<and> path_leq ps ps'"
  using path_state_cd_lemma [OF assms] by (auto simp: path_leq_def)

lemma mkdir_text_wf:
  "path_state_wf ps \<Longrightarrow> list_all c_string args \<Longrightarrow>
   \<exists>t ps'. mkdir_text args ps = Some (t, ps') \<and> path_state_wf ps' \<and> path_leq ps ps'"
proof (induction args arbitrary: ps)
  case (Cons arg args)
  obtain r ps1 where m: "path_state_mkdir ps (Some arg) = Some (r, ps1)" "path_state_wf ps1" "path_leq ps ps1"
    using path_state_mkdir_leq [OF Cons.prems(1), of arg] Cons.prems(2) by auto
  obtain t ps2 where "mkdir_text args ps1 = Some (t, ps2)" "path_state_wf ps2" "path_leq ps1 ps2"
    using Cons.IH [OF m(2)] Cons.prems(2) by auto
  then show ?case
    using m path_leq_trans [of ps ps1 ps2] by simp
qed simp

lemma cat_text_wf:
  "path_state_wf ps \<Longrightarrow> list_all c_string args \<Longrightarrow> \<exists>t. cat_text args ps = Some (t, ps)"
proof (induction args)
  case (Cons arg args)
  then show ?case
    using path_state_cat_lemma [OF Cons.prems(1), of arg] by auto
qed simp

lemma command_result_wf:
  assumes "path_state_wf ps" "list_all c_string argv"
  shows "\<exists>r t ps'. command_result pg input argv ps = Some (r, t, ps') \<and> path_state_wf ps' \<and> path_leq ps ps'"
proof -
  have args: "list_all c_string (tl argv)"
    using assms(2) by (cases argv) auto
  have first: "c_string (case tl argv of [] \<Rightarrow> d | a # _ \<Rightarrow> a)" if "c_string d" for d
    using args that by (cases "tl argv") auto
  obtain l where l: "path_state_ls ps (Some (case tl argv of [] \<Rightarrow> ''.'' | a # _ \<Rightarrow> a)) (Some SHELL_FS_LS_MAX) = Some (l, ps)"
    using path_state_ls_returns [OF assms(1) first [of "''.''"]] by auto
  obtain r ps1 where cd: "path_state_cd ps (Some (case tl argv of [] \<Rightarrow> ''/'' | a # _ \<Rightarrow> a)) = Some (r, ps1)"
    "path_state_wf ps1" "path_leq ps ps1"
    using path_state_cd_leq [OF assms(1) first [of "''/''"]] by auto
  show ?thesis
  proof (cases "argv \<noteq> [] \<and> hd argv = ''cd''")
    case True
    then have "command_result pg input argv ps =
        Some (SHELL_EXEC_OK, if r \<noteq> 0 then ''cd: no such directory'' @ [newline] else [], ps1)"
      using cd(1) by (simp add: command_result_def Let_def)
    then show ?thesis using cd by blast
  next
    case False
    then show ?thesis
      using l mkdir_text_wf [OF assms(1) args] cat_text_wf [OF assms(1) args]
        path_state_pwd_lemma [OF assms(1), of SHELL_FS_PATH_MAX] assms(1)
      by (auto simp: command_result_def Let_def)
  qed
qed

lemma spells_words:
  "spells glued ts line \<Longrightarrow> PARSE_TOKEN_WORD w \<in> set ts \<Longrightarrow> set w \<subseteq> set line"
  by (induction glued ts line rule: spells.induct) auto

lemma parsed_words:
  assumes "shell_parse_with_redirection line = Some r" "c_string line"
  shows "list_all c_string (left_command r)" "list_all c_string (right_command r)"
    "redir_path r = Some p \<Longrightarrow> c_string p"
proof -
  have r: "command_ok r" "spells False (command_tokens r) line"
    using assms(1) by (simp_all add: shell_parse_lemma)
  have w: "c_string w" if "PARSE_TOKEN_WORD w \<in> set (command_tokens r)" for w
    using spells_words [OF r(2) that] assms(2) unfolding c_string_def by blast
  show "list_all c_string (left_command r)"
    unfolding list_all_iff by (intro ballI w) (simp add: command_tokens_def)
  show "list_all c_string (right_command r)"
    unfolding list_all_iff using r(1) by (intro ballI w) (auto simp: command_tokens_def command_ok_def)
  show "redir_path r = Some p \<Longrightarrow> c_string p"
    using r(1) by (intro w) (cases "redir_mode r"; auto simp: command_tokens_def command_ok_def)
qed

lemma line_result_wf:
  assumes "path_state_wf ps" "c_string line"
  shows "\<exists>st t ps'. line_result pg line ps = Some (st, t, ps') \<and> path_state_wf ps' \<and> path_leq ps ps'"
proof (cases "shell_parse_with_redirection line")
  case None
  then show ?thesis using assms(1) by (simp add: line_result_def)
next
  case (Some r)
  note w = parsed_words [OF Some assms(2)]
  obtain c t ps1 where l: "command_result pg None (left_command r) ps = Some (c, t, ps1)" "path_state_wf ps1" "path_leq ps ps1"
    using command_result_wf [OF assms(1) w(1)] by blast
  obtain c2 t2 ps2 where r: "command_result pg (Some (take (SHELL_FD_CAPTURE_CAP - 1) t)) (right_command r) ps1 = Some (c2, t2, ps2)"
    "path_state_wf ps2" "path_leq ps1 ps2"
    using command_result_wf [OF l(2) w(2)] by blast
  define t' where "t' = (if has_pipe r then t2 else t)"
  define ps' where "ps' = (if has_pipe r then ps2 else ps1)"
  have p: "pipeline_result pg r ps = Some (t', ps')" "path_state_wf ps'" "path_leq ps ps'"
    using l r path_leq_trans [OF l(3) r(3)] by (simp_all add: pipeline_result_def t'_def ps'_def)
  show ?thesis
  proof (cases "redir_mode r = SHELL_REDIR_NONE")
    case True
    then show ?thesis using p Some by (simp add: line_result_def)
  next
    case False
    have "command_ok r" using Some by (simp add: shell_parse_lemma)
    then obtain path where path: "redir_path r = Some path"
      using False by (auto simp: command_ok_def)
    obtain st ps3 where "path_state_write_file ps' (Some path) (Some (take (SHELL_FD_CAPTURE_CAP - 1) t')) (redir_mode r = SHELL_REDIR_APPEND)
        = Some (st, ps3)" "path_state_wf ps3" "default_context ps3 = default_context ps'" "dom (ps_files ps') \<subseteq> dom (ps_files ps3)"
      using path_state_write_dom [OF p(2) w(3) [OF path]] by blast
    moreover from this have "path_leq ps' ps3"
      by (simp add: path_leq_def)
    ultimately show ?thesis
      using p Some False path path_leq_trans [OF p(3)] by (simp add: line_result_def)
  qed
qed

subsection \<open>The command loop\<close>

definition shell_wf :: "shell_state \<Rightarrow> bool" where
  "shell_wf s \<longleftrightarrow> line_wf (sh_io s) \<and> c_string (current_line (sh_io s)) \<and> path_state_wf (sh_path s)"

lemma edited_c_string: "c_string line \<Longrightarrow> c_string (edited line bs)"
proof (induction line bs rule: edited.induct)
  case (2 line b bs)
  have "c_string (butlast line)"
    using 2(2) by (auto simp: c_string_def dest: in_set_butlastD)
  moreover have "char_of (unat b) \<noteq> CHR 0x00" if "b \<in> {0x20..0x7e}"
  proof
    assume "char_of (unat b) = CHR 0x00"
    then have "of_char (char_of (unat b) :: char) = (0 :: nat)" by simp
    moreover have "32 \<le> unat b" "unat b < 256"
      using that unsigned_less [of b] by (simp_all add: word_le_nat_alt)
    ultimately show False by simp
  qed
  ultimately show ?case
    using 2 by simp
qed simp

text \<open>The line ends in the input: the line feed of a CR LF pair does not count.\<close>

fun line_ends :: "bool \<Rightarrow> u8 list \<Rightarrow> nat" where
  "line_ends skip [] = 0"
| "line_ends skip (b # bs) =
     (if skip \<and> b = 0x0a then line_ends False bs
      else if text_byte b then line_ends False bs
      else 1 + line_ends (b = 0x0d) bs)"

lemma line_ends_text: "line_ends False bs = (case dropWhile text_byte bs of [] \<Rightarrow> 0 | b # rest \<Rightarrow> 1 + line_ends (b = 0x0d) rest)"
  by (induction bs) auto

lemma line_ends_input:
  "line_ends (skip_lf_after_cr io) (uart_rx (io_uart io)) = line_ends False (editor_input io)"
proof (cases "uart_rx (io_uart io)")
  case (Cons b bs)
  then show ?thesis
    by (cases "skip_lf_after_cr io \<and> b = 0x0a") (auto simp: editor_input_def text_byte_def)
qed (simp add: editor_input_def)

definition shell_line_ends :: "shell_state \<Rightarrow> nat" where
  "shell_line_ends s = line_ends (skip_lf_after_cr (sh_io s)) (uart_rx (io_uart (sh_io s)))"

lemma line_io_write_wf [simp]:
  "line_wf (line_io_write t io) = line_wf io" "current_line (line_io_write t io) = current_line io"
  "skip_lf_after_cr (line_io_write t io) = skip_lf_after_cr io"
  "uart_rx (io_uart (line_io_write t io)) = uart_rx (io_uart io)"
  "editor_input (line_io_write t io) = editor_input io"
  by (simp_all add: line_io_write_def line_wf_def current_line_def console_write_text editor_input_def Let_def)

lemma execute_line_wf:
  assumes "shell_wf s" "c_string line"
  shows "\<exists>st s'. shell_execute_line line s = Some (st, s') \<and> shell_wf s' \<and> path_leq (sh_path s) (sh_path s') \<and>
    shell_line_ends s' = shell_line_ends s"
proof -
  obtain st t ps' where l: "line_result (sh_pages s) line (sh_path s) = Some (st, t, ps')" "path_state_wf ps'"
    "path_leq (sh_path s) ps'"
    using line_result_wf [of "sh_path s" line "sh_pages s"] assms unfolding shell_wf_def by blast
  then obtain s' where "shell_execute_line line s = Some (st, s')" "sh_io s' = line_io_write t (sh_io s)" "sh_path s' = ps'"
    using shell_execute_line_lemma [of line s] by (auto simp: outcome_def)
  then show ?thesis
    using l assms(1) by (simp add: shell_wf_def shell_line_ends_def)
qed

lemma shell_round_wf:
  assumes "shell_wf s"
  shows "if shell_line_ends s = 0 then shell_round s = None
    else \<exists>s'. shell_round s = Some s' \<and> shell_wf s' \<and> path_leq (sh_path s) (sh_path s') \<and>
      shell_line_ends s = Suc (shell_line_ends s')"
proof -
  define io where "io = line_io_write ''shell> '' (sh_io s)"
  have io: "line_wf io" "c_string (current_line io)" "editor_input io = editor_input (sh_io s)"
    using assms by (simp_all add: io_def shell_wf_def)
  have ends: "shell_line_ends s = line_ends False (editor_input io)"
    by (simp add: shell_line_ends_def line_ends_input io)
  have "0 < SHELL_LINE_BUFFER_SIZE"
    by (simp add: SHELL_LINE_BUFFER_SIZE_def)
  note rd = line_io_readline_lemma [OF io(1) this, of True, unfolded Let_def]
  show ?thesis
  proof (cases "dropWhile text_byte (editor_input io)")
    case Nil
    have "shell_line_ends s = 0"
      unfolding ends line_ends_text Nil by simp
    moreover have "line_io_readline SHELL_LINE_BUFFER_SIZE True io = None"
      using rd unfolding Nil by simp
    ultimately show ?thesis
      by (simp add: shell_round_def io_def [symmetric])
  next
    case (Cons b rest)
    let ?line = "take (SHELL_LINE_BUFFER_SIZE - 1) (edited (current_line io) (takeWhile text_byte (editor_input io)))"
    obtain n io' where r: "line_io_readline SHELL_LINE_BUFFER_SIZE True io = Some (n, Some ?line, io')" "line_wf io'"
      "current_line io' = []" "skip_lf_after_cr io' = (b = 0x0d)" "uart_rx (io_uart io') = rest"
      using rd unfolding Cons by auto
    define s1 where "s1 = s \<lparr> sh_io := io' \<rparr>"
    have s1: "shell_wf s1" "shell_line_ends s = Suc (shell_line_ends s1)" "sh_path s1 = sh_path s"
      using r assms Cons ends by (simp_all add: s1_def shell_wf_def shell_line_ends_def line_ends_text)
    have "c_string ?line"
      using edited_c_string [OF io(2)] by (auto simp: c_string_def dest: in_set_takeD)
    then obtain st s' where e: "shell_execute_line ?line s1 = Some (st, s')" "shell_wf s'" "path_leq (sh_path s) (sh_path s')"
      "shell_line_ends s' = shell_line_ends s1"
      using execute_line_wf [OF s1(1)] s1(3) by metis
    have "shell_round s = Some (if n \<le> 0 then s1 else s')"
      using r(1) e(1) by (simp add: shell_round_def io_def [symmetric] s1_def)
    then show ?thesis
      using s1 e by auto
  qed
qed

lemma shell_rounds_wf:
  "shell_wf s \<Longrightarrow> if n \<le> shell_line_ends s
    then \<exists>s'. shell_rounds n s = Some s' \<and> shell_wf s' \<and> path_leq (sh_path s) (sh_path s') \<and> shell_line_ends s = n + shell_line_ends s'
    else shell_rounds n s = None"
proof (induction n arbitrary: s)
  case (Suc n)
  show ?case
  proof (cases "shell_line_ends s = 0")
    case True
    then show ?thesis using shell_round_wf [OF Suc.prems] by simp
  next
    case False
    then obtain s1 where s1: "shell_round s = Some s1" "shell_wf s1" "path_leq (sh_path s) (sh_path s1)"
      "shell_line_ends s = Suc (shell_line_ends s1)"
      using shell_round_wf [OF Suc.prems] by auto
    then show ?thesis
      using Suc.IH [OF s1(2)] path_leq_trans [OF s1(3)] by (auto split: if_splits)
  qed
qed simp

lemma shell_run_rounds:
  assumes "line_wf (sh_io s)" "c_string (current_line (sh_io s))"
  shows "if n \<le> line_ends (skip_lf_after_cr (sh_io s)) (uart_rx (io_uart (sh_io s)))
    then \<exists>s'. shell_run n s = Some s' \<and> path_state_wf (sh_path s') \<and>
      {[], [''etc''], [''home''], [''tmp'']} \<subseteq> dirs (ps_tree (sh_path s')) \<and>
      {''/hello.txt'', ''/etc/motd'', ''/home/readme.txt''} \<subseteq> dom (ps_files (sh_path s'))
    else shell_run n s = None"
proof -
  obtain ps0 where p: "path_state_init (sh_path s) = Some ps0" "path_state_wf ps0"
    "dirs (ps_tree ps0) = {[], [''etc''], [''home''], [''tmp'']}" "ps_files ps0 = seed_map"
    using path_state_init_lemma by blast
  define s0 where "s0 = shell_fd_reset (s \<lparr> sh_path := ps0 \<rparr>)"
  have s0: "shell_wf s0" "sh_path s0 = ps0"
    "shell_line_ends s0 = line_ends (skip_lf_after_cr (sh_io s)) (uart_rx (io_uart (sh_io s)))"
    "shell_run n s = shell_rounds n s0"
    using assms p by (simp_all add: s0_def shell_wf_def shell_fd_reset_def shell_fd_capture_clear_def shell_line_ends_def
        shell_run_def shell_builtins_fs_init_def)
  have seeds: "{''/hello.txt'', ''/etc/motd'', ''/home/readme.txt''} \<subseteq> dom seed_map"
    by (simp add: seed_map_def seed_files_def)
  show ?thesis
  proof (cases "n \<le> shell_line_ends s0")
    case True
    then obtain s' where r: "shell_rounds n s0 = Some s'" "shell_wf s'" "path_leq ps0 (sh_path s')"
      using shell_rounds_wf [OF s0(1), of n] s0(2) by auto
    have "dirs (ps_tree ps0) \<subseteq> dirs (ps_tree (sh_path s'))" and d: "dom seed_map \<subseteq> dom (ps_files (sh_path s'))"
      using r(3) p(4) by (simp_all add: path_leq_def)
    then have "{[], [''etc''], [''home''], [''tmp'']} \<subseteq> dirs (ps_tree (sh_path s'))"
      unfolding p(3) by blast
    moreover have "{''/hello.txt'', ''/etc/motd'', ''/home/readme.txt''} \<subseteq> dom (ps_files (sh_path s'))"
      by (rule subset_trans [OF seeds d])
    moreover have "shell_run n s = Some s'" "path_state_wf (sh_path s')"
      using r s0(4) by (simp_all add: shell_wf_def)
    ultimately show ?thesis
      using True unfolding s0(3) by auto
  next
    case False
    then show ?thesis
      using shell_rounds_wf [OF s0(1), of n] s0 by simp
  qed
qed

text \<open>
  C9: The shell as it runs from boot: it completes a round for each line end in its input and then waits
  for more, whatever the lines say; no command makes it hang or stop. All the while the file
  system stays well-formed and keeps the directories and files it started with.
\<close>

theorem shell_run_live:
  assumes "line_wf (sh_io s)" "c_string (current_line (sh_io s))"
  shows "if n \<le> line_ends (skip_lf_after_cr (sh_io s)) (uart_rx (io_uart (sh_io s)))
    then \<exists>s'. shell_run n s = Some s' \<and> path_state_wf (sh_path s') \<and>
      {[], [''etc''], [''home''], [''tmp'']} \<subseteq> dirs (ps_tree (sh_path s')) \<and>
      {''/hello.txt'', ''/etc/motd'', ''/home/readme.txt''} \<subseteq> dom (ps_files (sh_path s'))
    else shell_run n s = None"
  by (rule shell_run_rounds [OF assms])

definition demo_shell :: shell_state where
  "demo_shell =
     \<lparr> sh_stdout_mode = SHELL_STDOUT_CONSOLE, sh_stdin_data = None, sh_capture = [], sh_io = demo_line,
       sh_path = demo_files,
       sh_pages = \<lparr> g_range_start = 0, g_range_end = 0, g_total_pages = 0, g_free_pages = 0, g_next_hint = 0,
         g_alloc_bitmap = [] \<rparr> \<rparr>"

lemma demo_line_wf: "line_wf demo_line" "c_string (current_line demo_line)"
  by (simp_all add: line_wf_def demo_line_def LINE_IO_BUFFER_SIZE_def current_line_def)

theorem shell_run_live_witness: "(\<exists>s'. shell_run 1 demo_shell = Some s') \<and> shell_run 2 demo_shell = None"
proof -
  have l: "line_wf (sh_io demo_shell)" "c_string (current_line (sh_io demo_shell))"
    using demo_line_wf by (simp_all add: demo_shell_def)
  have e: "line_ends (skip_lf_after_cr (sh_io demo_shell)) (uart_rx (io_uart (sh_io demo_shell))) = 1"
    by (simp add: demo_shell_def demo_line_def text_byte_def)
  show ?thesis
    using shell_run_live [OF l, of 1] shell_run_live [OF l, of 2] unfolding e by auto
qed

subsection \<open>Redirect, then read\<close>

lemma parse_spelled:
  assumes "command_ok r" "spells False (command_tokens r) line"
  shows "shell_parse_with_redirection line = Some r"
  using assms by (simp add: shell_parse_lemma)

definition echo_to_file :: "string list \<Rightarrow> string \<Rightarrow> shell_parse_result" where
  "echo_to_file args path = \<lparr> left_command = ''echo'' # args, right_command = [], has_pipe = False,
     redir_mode = SHELL_REDIR_TRUNC, redir_path = Some path \<rparr>"

definition cat_file :: "string \<Rightarrow> shell_parse_result" where
  "cat_file path = \<lparr> left_command = [''cat'', path], right_command = [], has_pipe = False,
     redir_mode = SHELL_REDIR_NONE, redir_path = None \<rparr>"

lemma echo_line_result:
  assumes "length args < SHELL_PARSE_ARGV_CAP" "spells False (command_tokens (echo_to_file args path)) line"
    and "length (echo_text args) < PATH_STATE_DYNAMIC_CONTENT_MAX"
    and "path_state_write_file ps (Some path) (Some (echo_text args)) False = Some (0, ps')"
  shows "line_result pg line ps = Some (0, [], ps')"
proof -
  have "command_ok (echo_to_file args path)"
    using assms(1) by (simp add: command_ok_def echo_to_file_def SHELL_PARSE_ARGV_CAP_def)
  then have parse: "shell_parse_with_redirection line = Some (echo_to_file args path)"
    by (rule parse_spelled [OF _ assms(2)])
  have "pipeline_result pg (echo_to_file args path) ps = Some (echo_text args, ps)"
    by (simp add: pipeline_result_def echo_to_file_def command_result_def)
  moreover have "take (SHELL_FD_CAPTURE_CAP - 1) (echo_text args) = echo_text args"
    using assms(3) by (simp add: SHELL_FD_CAPTURE_CAP_def PATH_STATE_DYNAMIC_CONTENT_MAX_def)
  ultimately show ?thesis
    using assms(4) by (simp add: line_result_def parse) (simp add: echo_to_file_def)
qed

lemma cat_line_result:
  assumes "spells False (command_tokens (cat_file q)) line" "path_state_cat ps (Some q) = Some (Some c, ps')"
  shows "line_result pg line ps = Some (0, text_line c, ps')"
proof -
  have "command_ok (cat_file q)"
    by (simp add: command_ok_def cat_file_def SHELL_PARSE_ARGV_CAP_def)
  then have parse: "shell_parse_with_redirection line = Some (cat_file q)"
    by (rule parse_spelled [OF _ assms(1)])
  have "pipeline_result pg (cat_file q) ps = Some (text_line c, ps')"
    using assms(2) by (simp add: pipeline_result_def cat_file_def command_result_def)
  then show ?thesis
    by (simp add: line_result_def parse) (simp add: cat_file_def)
qed

lemma echo_text_line: "\<forall>a \<in> set args. c_string a \<Longrightarrow> text_line (c_text (echo_text args)) = echo_text args"
proof -
  assume "\<forall>a \<in> set args. c_string a"
  then have "\<forall>c \<in> set (echo_text args). c \<noteq> CHR 0x00"
    by (auto simp: echo_text_def spaced_def c_string_def)
  then have "c_text (echo_text args) = echo_text args"
    unfolding c_text_def by (simp add: takeWhile_eq_all_conv)
  moreover have "last (echo_text args) = newline" "echo_text args \<noteq> []"
    by (simp_all add: echo_text_def)
  ultimately show ?thesis
    by (simp add: text_line_def)
qed

text \<open>
  C10: Through the parser, the redirection, the file system and back: a line that spells
  \<open>echo args > path\<close> prints nothing and a later line \<open>cat q\<close>, where \<open>q\<close> is any name of that file,
  prints exactly what \<open>echo args\<close> would have printed, provided the path can be a file's, there is room
  for it and the text has at most 511 characters.
\<close>

theorem shell_echo_file_cat:
  assumes "path_state_wf (sh_path s)" "c_string path" "c_string q" "\<forall>a \<in> set args. c_string a"
    and "length args < SHELL_PARSE_ARGV_CAP" "length (echo_text args) < PATH_STATE_DYNAMIC_CONTENT_MAX"
    and "named (ps_tree (sh_path s)) path = Some ds" "named (ps_tree (sh_path s)) q = Some ds"
    and "file_name_ok (ps_tree (sh_path s)) ds" "write_room (sh_path s) (render True ds)"
    and "spells False (command_tokens (echo_to_file args path)) line1" "spells False (command_tokens (cat_file q)) line2"
  shows "\<exists>s1 s2. shell_execute_line line1 s = Some (0, s1) \<and> sh_io s1 = sh_io s \<and>
    shell_execute_line line2 s1 = Some (0, s2) \<and> sh_io s2 = line_io_write (echo_text args) (sh_io s)"
proof -
  obtain ps' where w: "path_state_write_file (sh_path s) (Some path) (Some (echo_text args)) False = Some (0, ps')"
    "path_state_wf ps'" "default_context ps' = default_context (sh_path s)"
    "ps_files ps' = (ps_files (sh_path s))(render True ds \<mapsto> echo_text args)"
    using path_state_write_lemma [OF assms(1,2), of "echo_text args" False] assms(6,7,9,10) by (auto simp: Let_def)
  note echo = echo_line_result [OF assms(5,11,6) w(1)]
  have "path_state_cat ps' (Some q) = Some (Some (c_text (echo_text args)), ps')"
    using path_state_cat_lemma [OF w(2) assms(3)] w(3,4) assms(8) by simp
  note cat = cat_line_result [OF assms(12) this]
  obtain s1 where s1: "shell_execute_line line1 s = Some (0, s1)" "sh_io s1 = sh_io s" "sh_path s1 = ps'"
    using shell_execute_line_lemma [of line1 s] echo [of "sh_pages s"] by (auto simp: outcome_def)
  obtain s2 where "shell_execute_line line2 s1 = Some (0, s2)"
    "sh_io s2 = line_io_write (text_line (c_text (echo_text args))) (sh_io s1)"
    using shell_execute_line_lemma [of line2 s1] cat [of "sh_pages s1"] s1(3) by (auto simp: outcome_def)
  then show ?thesis
    using s1 echo_text_line [OF assms(4)] by auto
qed

lemma spell_word_end: "word_ok w \<Longrightarrow> spells False [PARSE_TOKEN_WORD w] w"
  using spells.Word [of "[]" False w "[]" "[]"] by (simp add: spells.End)

lemma demo_echo_line: "spells False (command_tokens (echo_to_file [''hi''] ''/tmp/f'')) ''echo hi>/tmp/f''"
proof -
  have "spells True [PARSE_TOKEN_REDIR_TRUNC, PARSE_TOKEN_WORD ''/tmp/f''] ''>/tmp/f''"
    using spells.Trunc [of "[]" "[PARSE_TOKEN_WORD ''/tmp/f'']" "''/tmp/f''" True] spell_word_end [of "''/tmp/f''"]
    by (simp add: word_ok_def word_char_def is_space_def)
  then have "spells True [PARSE_TOKEN_WORD ''hi'', PARSE_TOKEN_REDIR_TRUNC, PARSE_TOKEN_WORD ''/tmp/f''] ('' '' @ ''hi'' @ ''>/tmp/f'')"
    by (intro spells.Word) (simp_all add: word_ok_def word_char_def is_space_def)
  then have "spells False [PARSE_TOKEN_WORD ''echo'', PARSE_TOKEN_WORD ''hi'', PARSE_TOKEN_REDIR_TRUNC, PARSE_TOKEN_WORD ''/tmp/f'']
      ([] @ ''echo'' @ '' hi>/tmp/f'')"
    by (intro spells.Word) (simp_all add: word_ok_def word_char_def is_space_def)
  then show ?thesis
    by (simp add: command_tokens_def echo_to_file_def)
qed

lemma demo_cat_line: "spells False (command_tokens (cat_file ''/tmp/f'')) ''cat /tmp/f''"
proof -
  have "spells True [PARSE_TOKEN_WORD ''/tmp/f''] ('' '' @ ''/tmp/f'' @ [])"
    by (intro spells.Word spells.End) (simp_all add: word_ok_def word_char_def is_space_def)
  then have "spells False [PARSE_TOKEN_WORD ''cat'', PARSE_TOKEN_WORD ''/tmp/f''] ([] @ ''cat'' @ '' /tmp/f'')"
    by (intro spells.Word) (simp_all add: word_ok_def word_char_def is_space_def)
  then show ?thesis
    by (simp add: command_tokens_def cat_file_def)
qed

lemma demo_room: "write_room demo_files ''/tmp/f''"
  by (simp add: write_room_def demo_files dynamic_map_reset PATH_STATE_DYNAMIC_MAX_FILES_def)

theorem shell_echo_file_cat_witness:
  "\<exists>s1 s2. shell_execute_line ''echo hi>/tmp/f'' demo_shell = Some (0, s1) \<and>
     shell_execute_line ''cat /tmp/f'' s1 = Some (0, s2) \<and>
     sh_io s2 = line_io_write (''echo: hi'' @ [newline]) demo_line"
proof -
  have p: "sh_path demo_shell = demo_files" "sh_io demo_shell = demo_line"
    by (simp_all add: demo_shell_def)
  have "echo_text [''hi''] = ''echo: hi'' @ [newline]"
    by (simp add: echo_text_def spaced_def)
  then show ?thesis
    using shell_echo_file_cat [of demo_shell "''/tmp/f''" "''/tmp/f''" "[''hi'']" "[''tmp'', ''f'']",
        OF _ _ _ _ _ _ _ _ _ _ demo_echo_line demo_cat_line] demo_files(1) demo_named demo_name_ok demo_room
    by (auto simp: p demo_render SHELL_PARSE_ARGV_CAP_def PATH_STATE_DYNAMIC_CONTENT_MAX_def)
qed

end
