(* ===== verification/TerminalSession.thy ===== *)
theory TerminalSession
  imports PathState ShellParser Keyboard
begin

text \<open>
  Terminal sessions (\<open>kernel/tty/terminal_session.c\<close>): a line editor fed with key events, a
  history of the last 8 lines, commands on a directory tree of the session's own, and a hash of all
  it did. \<open>ts_input_buffer\<close> is the input up to \<open>input_len\<close>, where the code keeps a NUL. A session's
  tree is never the default context, so it has the seed files but no dynamic files. The
  window is only stored. The accessors are the fields of the record. As for the file system, the
  outer option is \<open>None\<close> for a call that does not return.
\<close>

unbundle bit_operations_syntax

definition TERMINAL_SESSION_INPUT_CAP :: nat where "TERMINAL_SESSION_INPUT_CAP = 128"
definition TERMINAL_SESSION_HISTORY_CAP :: nat where "TERMINAL_SESSION_HISTORY_CAP = 8"
definition TERMINAL_ARGV_CAP :: nat where "TERMINAL_ARGV_CAP = 16"
definition TERMINAL_LS_MAX :: nat where "TERMINAL_LS_MAX = 64"
definition TERMINAL_HASH_BASIS :: u32 where "TERMINAL_HASH_BASIS = 2166136261"

record terminal_session =
  ts_endpoint_id :: u32
  ts_window :: win_ptr
  ts_path_state :: path_state_context
  ts_input_buffer :: string
  ts_history :: "string list"
  ts_history_count :: nat
  ts_history_head :: nat
  ts_lines_executed :: u32
  ts_marker_hash :: u32
  ts_cwd_cache :: string

subsection \<open>Helpers\<close>

fun ts_str_eq :: "string \<Rightarrow> string \<Rightarrow> bool" where
  "ts_str_eq (a # as) (b # bs) = (if a \<noteq> b then False else ts_str_eq as bs)"
| "ts_str_eq as bs = (as = [] \<and> bs = [])"

definition ts_str_copy :: "nat \<Rightarrow> string \<Rightarrow> string option" where
  "ts_str_copy dst_cap src = (if dst_cap = 0 \<or> length src \<ge> dst_cap then None else Some src)"

definition ts_hash_byte :: "u8 \<Rightarrow> terminal_session \<Rightarrow> terminal_session" where
  "ts_hash_byte byte session =
     session \<lparr> ts_marker_hash := (ts_marker_hash session XOR ucast byte) * 16777619 \<rparr>"

definition char_byte :: "char \<Rightarrow> u8" where
  "char_byte c = word_of_nat (of_char c)"

definition ts_hash_text :: "string \<Rightarrow> terminal_session \<Rightarrow> terminal_session" where
  "ts_hash_text str session = ts_hash_byte 0 (fold (\<lambda>c. ts_hash_byte (char_byte c)) str session)"

definition ts_hash_u32 :: "u32 \<Rightarrow> terminal_session \<Rightarrow> terminal_session" where
  "ts_hash_u32 v session =
     ts_hash_byte (ucast (drop_bit 24 v AND 0xff)) (ts_hash_byte (ucast (drop_bit 16 v AND 0xff))
       (ts_hash_byte (ucast (drop_bit 8 v AND 0xff)) (ts_hash_byte (ucast (v AND 0xff)) session)))"

text \<open>The only caller passes a line that fits its slot of the history.\<close>

definition ts_store_history :: "string \<Rightarrow> terminal_session \<Rightarrow> terminal_session" where
  "ts_store_history line session =
     (let (idx, session) =
        (if ts_history_count session < TERMINAL_SESSION_HISTORY_CAP
         then (ts_history_count session, session \<lparr> ts_history_count := ts_history_count session + 1 \<rparr>)
         else
           let idx = ts_history_head session; head = ts_history_head session + 1
           in (idx, session \<lparr> ts_history_head := (if head \<ge> TERMINAL_SESSION_HISTORY_CAP then 0 else head) \<rparr>))
      in case ts_str_copy TERMINAL_SESSION_INPUT_CAP line of
           None \<Rightarrow> session
         | Some str \<Rightarrow> session \<lparr> ts_history := (ts_history session)[idx := str] \<rparr>)"

definition ts_refresh_cwd_cache :: "terminal_session \<Rightarrow> terminal_session option" where
  "ts_refresh_cwd_cache session =
     do {
       (cwd, ctx) \<leftarrow> path_state_context_pwd (ts_path_state session) FS_PATH_MAX;
       let session = session \<lparr> ts_path_state := ctx \<rparr>;
       Some (session \<lparr> ts_cwd_cache := (case cwd of None \<Rightarrow> ''/'' | Some cwd \<Rightarrow> cwd) \<rparr>)
     }"

definition terminal_session_init :: "u32 \<Rightarrow> win_ptr \<Rightarrow> terminal_session \<Rightarrow> terminal_session option" where
  "terminal_session_init endpoint_id window session =
     (if endpoint_id = 0 then Some session
      else
        ts_refresh_cwd_cache (ts_hash_u32 endpoint_id
          \<lparr> ts_endpoint_id = endpoint_id, ts_window = window,
            ts_path_state = path_state_context_init (ts_path_state session),
            ts_input_buffer = [], ts_history = replicate TERMINAL_SESSION_HISTORY_CAP [],
            ts_history_count = 0, ts_history_head = 0, ts_lines_executed = 0,
            ts_marker_hash = TERMINAL_HASH_BASIS, ts_cwd_cache = ''/'' \<rparr>))"

subsection \<open>The commands\<close>

definition execute_help :: "terminal_session \<Rightarrow> terminal_session" where
  "execute_help session = fold ts_hash_text [''help'', ''echo'', ''pwd'', ''cd'', ''mkdir'', ''ls'', ''cat''] session"

definition execute_echo :: "string list \<Rightarrow> terminal_session \<Rightarrow> terminal_session" where
  "execute_echo argv session = fold ts_hash_text (tl argv) session"

definition execute_pwd :: "terminal_session \<Rightarrow> terminal_session option" where
  "execute_pwd session =
     do {
       (cwd, ctx) \<leftarrow> path_state_context_pwd (ts_path_state session) FS_PATH_MAX;
       let session = session \<lparr> ts_path_state := ctx \<rparr>;
       Some (ts_hash_text (case cwd of Some cwd \<Rightarrow> cwd | None \<Rightarrow> ''pwd:error'') session)
     }"

definition execute_cd :: "string list \<Rightarrow> terminal_session \<Rightarrow> terminal_session option" where
  "execute_cd argv session =
     do {
       let target = (if length argv \<ge> 2 then argv ! 1 else ''/'');
       (r, ctx) \<leftarrow> path_state_context_cd (ts_path_state session) (Some target);
       let session = session \<lparr> ts_path_state := ctx \<rparr>;
       Some (ts_hash_text (if r \<noteq> 0 then ''cd:error'' else ''cd:ok'') session)
     }"

fun execute_mkdir_args :: "string list \<Rightarrow> terminal_session \<Rightarrow> terminal_session option" where
  "execute_mkdir_args [] session = Some session"
| "execute_mkdir_args (arg # args) session =
     do {
       let session = ts_hash_text arg session;
       (r, ctx) \<leftarrow> path_state_context_mkdir None (ts_path_state session) (Some arg);
       let session = session \<lparr> ts_path_state := ctx \<rparr>;
       execute_mkdir_args args (ts_hash_text (if r \<noteq> 0 then ''mkdir:error'' else ''mkdir:ok'') session)
     }"

definition execute_mkdir :: "string list \<Rightarrow> terminal_session \<Rightarrow> terminal_session option" where
  "execute_mkdir argv session =
     (if length argv < 2 then Some (ts_hash_text ''mkdir:missing'' session)
      else execute_mkdir_args (tl argv) session)"

definition hash_entry :: "path_state_entry \<Rightarrow> terminal_session \<Rightarrow> terminal_session" where
  "hash_entry e session =
     ts_hash_byte (if entry_kind e = PATH_STATE_ENTRY_DIR then char_byte CHR ''/'' else char_byte CHR ''f'')
       (ts_hash_text (entry_text e) session)"

definition execute_ls :: "string list \<Rightarrow> terminal_session \<Rightarrow> terminal_session option" where
  "execute_ls argv session =
     do {
       let target = (if length argv \<ge> 2 then argv ! 1 else ''.'');
       (listed, ctx) \<leftarrow> path_state_context_ls None (ts_path_state session) (Some target) (Some TERMINAL_LS_MAX);
       let session = session \<lparr> ts_path_state := ctx \<rparr>;
       Some (case listed of
           None \<Rightarrow> ts_hash_text ''ls:error'' session
         | Some (entries, count) \<Rightarrow>
             fold hash_entry (take count entries) (ts_hash_u32 (word_of_nat count) session))
     }"

fun execute_cat_args :: "string list \<Rightarrow> terminal_session \<Rightarrow> terminal_session option" where
  "execute_cat_args [] session = Some session"
| "execute_cat_args (arg # args) session =
     do {
       (content, ctx) \<leftarrow> path_state_context_cat None (ts_path_state session) (Some arg);
       let session = session \<lparr> ts_path_state := ctx \<rparr>;
       execute_cat_args args
         (case content of
            None \<Rightarrow> ts_hash_text arg (ts_hash_text ''cat:error'' session)
          | Some content \<Rightarrow> ts_hash_text content session)
     }"

definition execute_cat :: "string list \<Rightarrow> terminal_session \<Rightarrow> terminal_session option" where
  "execute_cat argv session =
     (if length argv < 2 then Some (ts_hash_text ''cat:missing'' session)
      else execute_cat_args (tl argv) session)"

text \<open>The chain of \<open>if\<close>s on the first word.\<close>

definition execute_command :: "string list \<Rightarrow> terminal_session \<Rightarrow> terminal_session option" where
  "execute_command argv session =
     (let cmd = hd argv in
      if ts_str_eq cmd ''help'' then Some (execute_help session)
      else if ts_str_eq cmd ''echo'' then Some (execute_echo argv session)
      else if ts_str_eq cmd ''pwd'' then execute_pwd session
      else if ts_str_eq cmd ''cd'' then execute_cd argv session
      else if ts_str_eq cmd ''mkdir'' then execute_mkdir argv session
      else if ts_str_eq cmd ''ls'' then execute_ls argv session
      else if ts_str_eq cmd ''cat'' then execute_cat argv session
      else Some (ts_hash_text ''unknown'' session))"

definition terminal_session_execute_line :: "string \<Rightarrow> terminal_session \<Rightarrow> (int \<times> terminal_session) option" where
  "terminal_session_execute_line line session =
     (case (ts_str_copy TERMINAL_SESSION_INPUT_CAP line, ts_str_copy TERMINAL_SESSION_INPUT_CAP line) of
        (Some parse_line, Some raw_line) \<Rightarrow>
          let argv = shell_parse_line parse_line TERMINAL_ARGV_CAP in
          if argv = [] then Some (0, session)
          else do {
            let session = ts_store_history raw_line session;
            let session = session \<lparr> ts_lines_executed := ts_lines_executed session + 1 \<rparr>;
            let session = ts_hash_text raw_line session;
            session \<leftarrow> execute_command argv session;
            session \<leftarrow> ts_refresh_cwd_cache session;
            Some (0, session)
          }
      | _ \<Rightarrow> Some (- 1, session))"

definition terminal_session_handle_event ::
  "keyboard_event \<Rightarrow> terminal_session \<Rightarrow> (int \<times> terminal_session) option" where
  "terminal_session_handle_event event session =
     (if kev_type event = KEYBOARD_EVENT_TEXT then
        if of_char (kev_text event) < (0x20 :: nat) \<or> of_char (kev_text event) > (0x7e :: nat) then Some (0, session)
        else if length (ts_input_buffer session) + 1 \<ge> TERMINAL_SESSION_INPUT_CAP then Some (- 1, session)
        else Some (0, session \<lparr> ts_input_buffer := ts_input_buffer session @ [kev_text event] \<rparr>)
      else if kev_type event = KEYBOARD_EVENT_CONTROL \<and> kev_control event = KEYBOARD_CONTROL_BACKSPACE then
        Some (0, if ts_input_buffer session \<noteq> []
                 then session \<lparr> ts_input_buffer := butlast (ts_input_buffer session) \<rparr> else session)
      else if kev_type event = KEYBOARD_EVENT_CONTROL \<and> kev_control event = KEYBOARD_CONTROL_ENTER then
        do {
          (status, session) \<leftarrow> terminal_session_execute_line (ts_input_buffer session) session;
          Some (status, session \<lparr> ts_input_buffer := [] \<rparr>)
        }
      else Some (0, session))"

text \<open>The accessors; \<open>None\<close> is the null session.\<close>

definition terminal_session_endpoint_id :: "terminal_session option \<Rightarrow> u32" where
  "terminal_session_endpoint_id session = (case session of None \<Rightarrow> 0 | Some s \<Rightarrow> ts_endpoint_id s)"

definition terminal_session_window :: "terminal_session option \<Rightarrow> win_ptr" where
  "terminal_session_window session = (case session of None \<Rightarrow> None | Some s \<Rightarrow> ts_window s)"

definition terminal_session_input_len :: "terminal_session option \<Rightarrow> u32" where
  "terminal_session_input_len session = (case session of None \<Rightarrow> 0 | Some s \<Rightarrow> word_of_nat (length (ts_input_buffer s)))"

definition terminal_session_history_count :: "terminal_session option \<Rightarrow> u32" where
  "terminal_session_history_count session = (case session of None \<Rightarrow> 0 | Some s \<Rightarrow> word_of_nat (ts_history_count s))"

definition terminal_session_lines_executed :: "terminal_session option \<Rightarrow> u32" where
  "terminal_session_lines_executed session = (case session of None \<Rightarrow> 0 | Some s \<Rightarrow> ts_lines_executed s)"

definition terminal_session_marker :: "terminal_session option \<Rightarrow> u32" where
  "terminal_session_marker session = (case session of None \<Rightarrow> 0 | Some s \<Rightarrow> ts_marker_hash s)"

definition terminal_session_cwd :: "terminal_session option \<Rightarrow> string" where
  "terminal_session_cwd session = (case session of None \<Rightarrow> [] | Some s \<Rightarrow> ts_cwd_cache s)"

subsection \<open>A context without dynamic files\<close>

text \<open>It behaves as the default context does while no dynamic file is in use.\<close>

abbreviation as_default :: "path_state_context \<Rightarrow> path_state" where
  "as_default ctx \<equiv> \<lparr> default_context = ctx, dynamic_files = dynamic_files_reset \<rparr>"

definition ctx_wf :: "path_state_context \<Rightarrow> bool" where
  "ctx_wf ctx \<longleftrightarrow> path_state_wf (as_default ctx)"

lemma reset_no_file: "dynamic_file_index_by_absolute dynamic_files_reset p = None"
  by (simp add: dynamic_file_index_by_absolute_def find_index_None dynamic_files_reset_def unused_file_def)

lemma none_mkdir:
  "path_state_context_mkdir None ctx path = path_state_context_mkdir (Some dynamic_files_reset) ctx path"
  by (simp add: path_state_context_mkdir_def reset_no_file cong: if_cong option.case_cong)

lemma none_list_seed:
  "list_seed_files None absolute entries fs = list_seed_files (Some dynamic_files_reset) absolute entries fs"
proof (rule ext)
  show "list_seed_files None absolute entries fs listed = list_seed_files (Some dynamic_files_reset) absolute entries fs listed" for listed
    by (induction fs arbitrary: listed) (simp_all add: reset_no_file cong: Option.bind_cong)
qed

lemma reset_list_dynamic: "list_dynamic_files absolute entries dynamic_files_reset = Some"
proof (rule ext)
  have "list_dynamic_files absolute entries (replicate n unused_file) listed = Some listed" for n listed
    by (induction n) (simp_all add: dynamic_file_is_child_of_dir_def unused_file_def)
  then show "list_dynamic_files absolute entries dynamic_files_reset listed = Some listed" for listed
    by (simp add: dynamic_files_reset_def)
qed

lemma none_ls: "path_state_context_ls None ctx path entries = path_state_context_ls (Some dynamic_files_reset) ctx path entries"
  unfolding path_state_context_ls_def
  by (simp add: reset_no_file none_list_seed reset_list_dynamic cong: if_cong option.case_cong)

lemma none_cat: "path_state_context_cat None ctx path = path_state_context_cat (Some dynamic_files_reset) ctx path"
  by (simp add: path_state_context_cat_def reset_no_file cong: if_cong option.case_cong)

lemma context_pwd_wf:
  assumes "ctx_wf ctx"
  shows "path_state_context_pwd ctx FS_PATH_MAX = Some (Some (render True (cwd_names (ctx_tree ctx))), ctx)"
proof -
  have "dir_wf (ctx_tree ctx)"
    using path_state_wfD(2) [OF assms [unfolded ctx_wf_def]] by simp
  then have "length (render True (cwd_names (ctx_tree ctx))) < FS_PATH_MAX"
    using cwd_wf(2) by (simp add: FS_PATH_MAX_def)
  then show ?thesis
    using path_state_pwd_lemma [OF assms [unfolded ctx_wf_def], of FS_PATH_MAX]
    by (cases "path_state_context_pwd ctx FS_PATH_MAX") (auto simp: path_state_pwd_def on_default_def)
qed

lemma context_cd_wf:
  assumes "ctx_wf ctx" "c_string path"
  shows "\<exists>r ctx'. path_state_context_cd ctx (Some path) = Some (r, ctx') \<and> ctx_wf ctx'"
  using path_state_cd_lemma [OF assms(1) [unfolded ctx_wf_def] assms(2)]
  by (auto simp: path_state_cd_def on_default_def ctx_wf_def)

lemma context_mkdir_wf:
  assumes "ctx_wf ctx" "c_string path"
  shows "\<exists>r ctx'. path_state_context_mkdir None ctx (Some path) = Some (r, ctx') \<and> ctx_wf ctx'"
  using path_state_mkdir_lemma [OF assms(1) [unfolded ctx_wf_def] assms(2)]
  by (auto simp: path_state_mkdir_def on_default_def ctx_wf_def none_mkdir)

lemma context_ls_wf:
  assumes "ctx_wf ctx" "c_string path"
  shows "\<exists>listed. path_state_context_ls None ctx (Some path) entries = Some (listed, ctx)"
  using path_state_ls_returns [OF assms(1) [unfolded ctx_wf_def] assms(2), of entries]
  by (auto simp: path_state_ls_def on_default_def ctx_wf_def none_ls)

lemma context_cat_wf:
  assumes "ctx_wf ctx" "c_string path"
  shows "\<exists>c. path_state_context_cat None ctx (Some path) = Some (c, ctx)"
  using path_state_cat_lemma [OF assms(1) [unfolded ctx_wf_def] assms(2)]
  by (auto simp: path_state_cat_def on_default_def ctx_wf_def none_cat)

lemma context_init_dirs:
  "\<exists>ctx'. path_state_context_pwd (path_state_context_init ctx) FS_PATH_MAX = Some (Some ''/'', ctx') \<and> ctx_wf ctx' \<and>
     cwd_names (ctx_tree ctx') = [] \<and> dirs (ctx_tree ctx') = {[], [''etc''], [''home''], [''tmp'']}"
proof -
  obtain ps' where ps': "path_state_init (as_default ctx) = Some ps'" "path_state_wf ps'" "dynamic_files ps' = dynamic_files_reset"
    "cwd_names (ps_tree ps') = []" "dirs (ps_tree ps') = {[], [''etc''], [''home''], [''tmp'']}"
    using path_state_init_lemma by blast
  obtain r ctx' where e: "ensure_initialized (path_state_context_init ctx) = Some (r, ctx')"
    and c: "default_context ps' = ctx'"
    using ps'(1) by (auto simp: path_state_init_def split: bind_splits)
  have wf: "ctx_wf ctx'"
    using ps'(2,3) c by (cases ps') (simp add: ctx_wf_def)
  have "r = 0"
    using ensure_initialized_fresh [of "path_state_context_init ctx"] e by (auto simp: path_state_context_init_def)
  then show ?thesis
    using e wf context_pwd_wf [OF wf] path_state_wfD(4) [OF ps'(2)] ps'(4,5) c
    by (simp add: path_state_context_pwd_def render_def)
qed

lemma context_init_wf:
  "\<exists>ctx'. path_state_context_pwd (path_state_context_init ctx) FS_PATH_MAX = Some (Some ''/'', ctx') \<and> ctx_wf ctx' \<and>
     cwd_names (ctx_tree ctx') = []"
  using context_init_dirs [of ctx] by blast

subsection \<open>Running a line\<close>

lemma ts_str_eq_iff: "ts_str_eq a b \<longleftrightarrow> a = b"
  by (induction a b rule: ts_str_eq.induct) auto

text \<open>A command only changes the session's tree and its hash.\<close>

definition hashed :: "terminal_session \<Rightarrow> terminal_session \<Rightarrow> bool" where
  "hashed s s' \<longleftrightarrow> (\<exists>h ctx. s' = s \<lparr> ts_marker_hash := h, ts_path_state := ctx \<rparr>) \<and>
     (ctx_wf (ts_path_state s) \<longrightarrow> ctx_wf (ts_path_state s'))"

lemma hashedD:
  assumes "hashed s s'"
  shows "ts_endpoint_id s' = ts_endpoint_id s" "ts_window s' = ts_window s" "ts_input_buffer s' = ts_input_buffer s"
    "ts_history s' = ts_history s" "ts_history_count s' = ts_history_count s" "ts_history_head s' = ts_history_head s"
    "ts_lines_executed s' = ts_lines_executed s" "ts_cwd_cache s' = ts_cwd_cache s"
    "ctx_wf (ts_path_state s) \<Longrightarrow> ctx_wf (ts_path_state s')"
  using assms by (auto simp: hashed_def)

lemma ctx_same [simp]: "s \<lparr> ts_path_state := ts_path_state s \<rparr> = s"
  by simp

lemma hashed_refl [simp]: "hashed s s"
  unfolding hashed_def by (intro conjI exI [of _ "ts_marker_hash s"] exI [of _ "ts_path_state s"]) simp_all

lemma hashed_trans: "hashed a b \<Longrightarrow> hashed b c \<Longrightarrow> hashed a c"
  unfolding hashed_def by (elim conjE exE) (simp, metis terminal_session.update_convs(3,9))

lemma hashed_byte: "hashed s (ts_hash_byte b s)"
  unfolding hashed_def
  by (intro conjI exI [of _ "ts_marker_hash (ts_hash_byte b s)"] exI [of _ "ts_path_state s"]) (simp_all add: ts_hash_byte_def)

lemma hashed_fold: "(\<And>x s. hashed s (f x s)) \<Longrightarrow> hashed s (fold f xs s)"
  by (induction xs arbitrary: s) (auto intro: hashed_trans)

lemma hashed_text [simp]: "hashed s (ts_hash_text t s)"
  unfolding ts_hash_text_def by (rule hashed_trans [OF hashed_fold hashed_byte]) (rule hashed_byte)

lemma hashed_u32 [simp]: "hashed s (ts_hash_u32 v s)"
  unfolding ts_hash_u32_def by (intro hashed_trans [OF _ hashed_byte] hashed_byte)

lemma hashed_ctx: "(ctx_wf (ts_path_state s) \<Longrightarrow> ctx_wf ctx) \<Longrightarrow> hashed s (s \<lparr> ts_path_state := ctx \<rparr>)"
  unfolding hashed_def by (intro conjI exI [of _ "ts_marker_hash s"] exI [of _ ctx]) simp_all

text \<open>A command as a step that returns.\<close>

abbreviation runs :: "(terminal_session \<Rightarrow> terminal_session option) \<Rightarrow> terminal_session \<Rightarrow> bool" where
  "runs f s \<equiv> ctx_wf (ts_path_state s) \<longrightarrow> (\<exists>s'. f s = Some s' \<and> hashed s s')"

lemma execute_mkdir_args_runs: "list_all c_string args \<Longrightarrow> runs (execute_mkdir_args args) s"
proof (induction args arbitrary: s)
  case (Cons arg args)
  show ?case
  proof
    assume wf: "ctx_wf (ts_path_state s)"
    define s1 where "s1 = ts_hash_text arg s"
    have s1: "hashed s s1" "ctx_wf (ts_path_state s1)"
      using hashedD(9) [OF hashed_text wf] by (simp_all add: s1_def)
    obtain r ctx where m: "path_state_context_mkdir None (ts_path_state s1) (Some arg) = Some (r, ctx)" "ctx_wf ctx"
      using context_mkdir_wf [OF s1(2), of arg] Cons.prems by auto
    define s2 where "s2 = ts_hash_text (if r \<noteq> 0 then ''mkdir:error'' else ''mkdir:ok'') (s1 \<lparr> ts_path_state := ctx \<rparr>)"
    have s2: "hashed s1 s2"
      unfolding s2_def by (rule hashed_trans [OF hashed_ctx hashed_text]) (rule m(2))
    obtain s3 where "execute_mkdir_args args s2 = Some s3" "hashed s2 s3"
      using Cons.IH [of s2] Cons.prems hashedD(9) [OF s2 s1(2)] by auto
    then show "\<exists>s'. execute_mkdir_args (arg # args) s = Some s' \<and> hashed s s'"
      using m(1) hashed_trans [OF s1(1) hashed_trans [OF s2]] by (simp add: s1_def [symmetric] s2_def Let_def)
  qed
qed simp

lemma execute_cat_args_runs: "list_all c_string args \<Longrightarrow> runs (execute_cat_args args) s"
proof (induction args arbitrary: s)
  case (Cons arg args)
  show ?case
  proof
    assume wf: "ctx_wf (ts_path_state s)"
    obtain c where m: "path_state_context_cat None (ts_path_state s) (Some arg) = Some (c, ts_path_state s)"
      using context_cat_wf [OF wf, of arg] Cons.prems by auto
    define s2 where "s2 = (case c of None \<Rightarrow> ts_hash_text arg (ts_hash_text ''cat:error'' s) | Some content \<Rightarrow> ts_hash_text content s)"
    have s2: "hashed s s2"
      unfolding s2_def by (auto split: option.split intro: hashed_trans [OF hashed_text hashed_text])
    obtain s3 where "execute_cat_args args s2 = Some s3" "hashed s2 s3"
      using Cons.IH [of s2] Cons.prems hashedD(9) [OF s2 wf] by auto
    then show "\<exists>s'. execute_cat_args (arg # args) s = Some s' \<and> hashed s s'"
      using m hashed_trans [OF s2] by (cases c) (simp_all add: s2_def Let_def)
  qed
qed simp

lemma execute_command_runs:
  assumes "argv \<noteq> []" "list_all c_string argv"
  shows "runs (execute_command argv) s"
proof
  assume wf: "ctx_wf (ts_path_state s)"
  have args: "list_all c_string (tl argv)"
    using assms(2) by (cases argv) auto
  have first: "c_string (if length argv \<ge> 2 then argv ! 1 else d)" if "c_string d" for d
    using args that by (cases argv; cases "tl argv") auto
  have pwd: "\<exists>s'. execute_pwd s = Some s' \<and> hashed s s'"
    using context_pwd_wf [OF wf] by (simp add: execute_pwd_def)
  have cd: "\<exists>s'. execute_cd argv s = Some s' \<and> hashed s s'"
  proof -
    obtain r ctx where "path_state_context_cd (ts_path_state s) (Some (if length argv \<ge> 2 then argv ! 1 else ''/'')) = Some (r, ctx)" "ctx_wf ctx"
      using context_cd_wf [OF wf first [of "''/''"]] by auto
    then show ?thesis
      using hashed_trans [OF hashed_ctx hashed_text] by (simp add: execute_cd_def Let_def)
  qed
  have ls: "\<exists>s'. execute_ls argv s = Some s' \<and> hashed s s'"
  proof -
    obtain l where l: "path_state_context_ls None (ts_path_state s) (Some (if length argv \<ge> 2 then argv ! 1 else ''.'')) (Some TERMINAL_LS_MAX) =
        Some (l, ts_path_state s)"
      using context_ls_wf [OF wf first [of "''.''"]] by auto
    have "hashed s (fold hash_entry es (ts_hash_u32 n s))" for es n
      by (rule hashed_trans [OF hashed_u32 hashed_fold]) (auto simp: hash_entry_def intro: hashed_trans [OF hashed_text hashed_byte])
    then show ?thesis
      using l by (cases l) (auto simp: execute_ls_def Let_def)
  qed
  have usage: "hashed s (execute_help s)"
    unfolding execute_help_def by (rule hashed_fold) (rule hashed_text)
  show "\<exists>s'. execute_command argv s = Some s' \<and> hashed s s'"
    using usage pwd cd ls wf execute_mkdir_args_runs [OF args, of s] execute_cat_args_runs [OF args, of s] hashed_fold [of ts_hash_text s "tl argv"]
    by (simp add: execute_command_def Let_def execute_echo_def execute_mkdir_def execute_cat_def)
qed

subsection \<open>A session as a sequence of lines\<close>

text \<open>
  The reference: what the keys typed since the last enter leave as pending input, and the lines entered.
  A line that has no words is not run.
\<close>

definition is_enter :: "keyboard_event \<Rightarrow> bool" where
  "is_enter e \<longleftrightarrow> kev_type e = KEYBOARD_EVENT_CONTROL \<and> kev_control e = KEYBOARD_CONTROL_ENTER"

definition key_edit :: "string \<Rightarrow> keyboard_event \<Rightarrow> string" where
  "key_edit p e =
     (if kev_type e = KEYBOARD_EVENT_CONTROL
      then if kev_control e = KEYBOARD_CONTROL_BACKSPACE then butlast p else p
      else if of_char (kev_text e) \<in> {0x20 :: nat..0x7e} \<and> length p < 127 then p @ [kev_text e] else p)"

fun lines_typed :: "string \<Rightarrow> keyboard_event list \<Rightarrow> string list \<times> string" where
  "lines_typed p [] = ([], p)"
| "lines_typed p (e # es) =
     (if is_enter e then let (lines, q) = lines_typed [] es in (p # lines, q) else lines_typed (key_edit p e) es)"

definition has_words :: "string \<Rightarrow> bool" where
  "has_words line \<longleftrightarrow> split_words line \<noteq> []"

definition session_shows :: "terminal_session \<Rightarrow> string list \<Rightarrow> string \<Rightarrow> bool" where
  "session_shows s executed p \<longleftrightarrow>
     ctx_wf (ts_path_state s) \<and> ts_cwd_cache s = render True (cwd_names (ctx_tree (ts_path_state s))) \<and>
     ts_input_buffer s = p \<and> length p < TERMINAL_SESSION_INPUT_CAP \<and> c_string p \<and>
     ts_lines_executed s = word_of_nat (length executed) \<and>
     length (ts_history s) = TERMINAL_SESSION_HISTORY_CAP \<and>
     ts_history_count s = min TERMINAL_SESSION_HISTORY_CAP (length executed) \<and>
     ts_history_head s = (if length executed < TERMINAL_SESSION_HISTORY_CAP then 0 else length executed mod TERMINAL_SESSION_HISTORY_CAP) \<and>
     (\<forall>k < length executed. length executed \<le> k + TERMINAL_SESSION_HISTORY_CAP \<longrightarrow>
        ts_history s ! (k mod TERMINAL_SESSION_HISTORY_CAP) = executed ! k)"

lemma refresh_runs:
  assumes "ctx_wf (ts_path_state s)"
  shows "ts_refresh_cwd_cache s = Some (s \<lparr> ts_cwd_cache := render True (cwd_names (ctx_tree (ts_path_state s))) \<rparr>)"
  using context_pwd_wf [OF assms] by (simp add: ts_refresh_cwd_cache_def Let_def)

lemma mod8_window: "n \<le> k + 8 \<Longrightarrow> k < n \<Longrightarrow> (k mod 8 = n mod 8) \<longleftrightarrow> (n = k + 8)" for k n :: nat
  using mod_eq_dvd_iff_nat [of k n 8] dvd_imp_le [of 8 "n - k"] by auto

lemma store_history_shows:
  assumes "length (ts_history s) = 8" "ts_history_count s = min 8 (length executed)"
    "ts_history_head s = (if length executed < 8 then 0 else length executed mod 8)"
    "\<forall>k < length executed. length executed \<le> k + 8 \<longrightarrow> ts_history s ! (k mod 8) = executed ! k" "length line < 128"
  defines "s' \<equiv> ts_store_history line s"
  shows "s' = s \<lparr> ts_history := (ts_history s)[length executed mod 8 := line],
      ts_history_count := min 8 (length (executed @ [line])),
      ts_history_head := (if length (executed @ [line]) < 8 then 0 else length (executed @ [line]) mod 8) \<rparr>"
    "\<forall>k < length (executed @ [line]). length (executed @ [line]) \<le> k + 8 \<longrightarrow>
       ((ts_history s)[length executed mod 8 := line]) ! (k mod 8) = (executed @ [line]) ! k"
proof -
  have c: "ts_str_copy TERMINAL_SESSION_INPUT_CAP line = Some line"
    using assms(5) by (simp add: ts_str_copy_def TERMINAL_SESSION_INPUT_CAP_def)
  have m: "Suc n mod 8 = (if n mod 8 + 1 \<ge> 8 then 0 else n mod 8 + 1)" for n :: nat
    using mod_less_divisor [of 8 n] by (auto simp: mod_Suc)
  show "s' = s \<lparr> ts_history := (ts_history s)[length executed mod 8 := line],
      ts_history_count := min 8 (length (executed @ [line])),
      ts_history_head := (if length (executed @ [line]) < 8 then 0 else length (executed @ [line]) mod 8) \<rparr>"
  proof (cases "length executed < 8")
    case True
    then show ?thesis
      using assms(2,3) m [of "length executed"] by (cases s) (auto simp: s'_def ts_store_history_def TERMINAL_SESSION_HISTORY_CAP_def c Let_def)
  next
    case False
    then show ?thesis
      using assms(2,3) m [of "length executed"]
      by (cases s) (auto simp: s'_def ts_store_history_def TERMINAL_SESSION_HISTORY_CAP_def c Let_def)
  qed
  show "\<forall>k < length (executed @ [line]). length (executed @ [line]) \<le> k + 8 \<longrightarrow>
       ((ts_history s)[length executed mod 8 := line]) ! (k mod 8) = (executed @ [line]) ! k"
  proof (intro allI impI)
    fix k
    assume k: "k < length (executed @ [line])" "length (executed @ [line]) \<le> k + 8"
    show "((ts_history s)[length executed mod 8 := line]) ! (k mod 8) = (executed @ [line]) ! k"
    proof (cases "k = length executed")
      case True
      then show ?thesis using assms(1) by simp
    next
      case False
      then have "k < length executed" "length executed \<le> k + 8" "k mod 8 \<noteq> length executed mod 8"
        using k mod8_window [of "length executed" k] by auto
      then show ?thesis
        using assms(4) by (auto simp: nth_append)
    qed
  qed
qed

lemma split_words_c_string: "c_string line \<Longrightarrow> list_all c_string (split_words line)"
proof (induction line rule: split_words.induct)
  case (1 line)
  have d: "c_string (dropWhile P t)" "c_string (takeWhile P t)" if "c_string t" for P t
    using that by (auto simp: c_string_def dest: set_dropWhileD set_takeWhileD)
  show ?case
  proof (cases "dropWhile is_space line = []")
    case True
    then show ?thesis by (subst split_words.simps) simp
  next
    case False
    then show ?thesis
      using 1 d by (subst split_words.simps) (simp del: dropWhile_eq_Nil_conv)
  qed
qed

lemma execute_line_shows:
  assumes "session_shows s executed p"
  shows "\<exists>s'. terminal_session_execute_line p s = Some (0, s') \<and> ts_endpoint_id s' = ts_endpoint_id s \<and>
    session_shows (s' \<lparr> ts_input_buffer := [] \<rparr>) (executed @ (if has_words p then [p] else [])) []"
proof -
  have p: "length p < 128" "c_string p" and wf: "ctx_wf (ts_path_state s)"
    using assms by (simp_all add: session_shows_def TERMINAL_SESSION_INPUT_CAP_def)
  then have copy: "ts_str_copy TERMINAL_SESSION_INPUT_CAP p = Some p"
    by (simp add: ts_str_copy_def TERMINAL_SESSION_INPUT_CAP_def)
  define argv where "argv = shell_parse_line p TERMINAL_ARGV_CAP"
  have argv: "argv = take 16 (split_words p)"
    by (simp add: argv_def shell_parse_line_words TERMINAL_ARGV_CAP_def)
  show ?thesis
  proof (cases "has_words p")
    case False
    then have "terminal_session_execute_line p s = Some (0, s)"
      using argv by (simp add: terminal_session_execute_line_def copy argv_def [symmetric] has_words_def)
    then show ?thesis
      using False assms by (simp add: session_shows_def)
  next
    case True
    define h' where "h' = (ts_history s)[length executed mod 8 := p]"
    have h: "length (ts_history s) = 8" "ts_history_count s = min 8 (length executed)"
      "ts_history_head s = (if length executed < 8 then 0 else length executed mod 8)"
      "\<forall>k < length executed. length executed \<le> k + 8 \<longrightarrow> ts_history s ! (k mod 8) = executed ! k"
      using assms by (simp_all add: session_shows_def TERMINAL_SESSION_HISTORY_CAP_def)
    note st = store_history_shows [OF h p(1), folded h'_def]
    define s1 where "s1 = ts_hash_text p ((ts_store_history p s)
      \<lparr> ts_lines_executed := ts_lines_executed (ts_store_history p s) + 1 \<rparr>)"
    have s1: "hashed ((ts_store_history p s) \<lparr> ts_lines_executed := ts_lines_executed (ts_store_history p s) + 1 \<rparr>) s1"
      by (simp add: s1_def)
    have wf1: "ctx_wf (ts_path_state s1)"
      using hashedD(9) [OF s1] wf unfolding st(1) by simp
    have "argv \<noteq> []" "list_all c_string argv"
      using True split_words_c_string [OF p(2)] by (auto simp: argv has_words_def list_all_iff dest: in_set_takeD)
    then obtain s2 where s2: "execute_command argv s1 = Some s2" "hashed s1 s2"
      using execute_command_runs [of argv s1] wf1 by auto
    have wf2: "ctx_wf (ts_path_state s2)"
      using hashedD(9) [OF s2(2) wf1] .
    define s3 where "s3 = s2 \<lparr> ts_cwd_cache := render True (cwd_names (ctx_tree (ts_path_state s2))) \<rparr>"
    have run: "terminal_session_execute_line p s = Some (0, s3)"
      using \<open>argv \<noteq> []\<close> s2(1) refresh_runs [OF wf2]
      by (simp add: terminal_session_execute_line_def copy argv_def [symmetric] Let_def s1_def [symmetric] s3_def)
    note f1 = hashedD [OF s1, unfolded st(1), simplified] and f2 = hashedD [OF s2(2)]
    have "ts_lines_executed s = word_of_nat (length executed)"
      using assms by (simp add: session_shows_def)
    then have "session_shows (s3 \<lparr> ts_input_buffer := [] \<rparr>) (executed @ [p]) []"
      using wf2 st(2) h(1) f1 f2
      by (simp add: session_shows_def s3_def TERMINAL_SESSION_INPUT_CAP_def TERMINAL_SESSION_HISTORY_CAP_def h'_def add.commute)
    then show ?thesis
      using run True f1(1) f2(1) by (simp add: s3_def)
  qed
qed

lemma handle_event_shows:
  assumes "session_shows s executed p"
  shows "\<exists>r s'. terminal_session_handle_event e s = Some (r, s') \<and> ts_endpoint_id s' = ts_endpoint_id s \<and>
    (if is_enter e then session_shows s' (executed @ (if has_words p then [p] else [])) []
     else session_shows s' executed (key_edit p e))"
proof (cases "is_enter e")
  case True
  obtain s' where "terminal_session_execute_line p s = Some (0, s')" "ts_endpoint_id s' = ts_endpoint_id s"
    "session_shows (s' \<lparr> ts_input_buffer := [] \<rparr>) (executed @ (if has_words p then [p] else [])) []"
    using execute_line_shows [OF assms] by blast
  moreover have "ts_input_buffer s = p"
    using assms by (simp add: session_shows_def)
  ultimately show ?thesis
    using True by (simp add: terminal_session_handle_event_def is_enter_def KEYBOARD_CONTROL_ENTER_def KEYBOARD_CONTROL_BACKSPACE_def)
next
  case False
  have p: "ts_input_buffer s = p" "length p < 128" "c_string p"
    using assms by (simp_all add: session_shows_def TERMINAL_SESSION_INPUT_CAP_def)
  have nul: "kev_text e \<noteq> CHR 0x00" if "32 \<le> (of_char (kev_text e) :: nat)"
    using that by auto
  have "c_string (butlast p)"
    using p(3) by (auto simp: c_string_def dest: in_set_butlastD)
  then have "c_string (key_edit p e)" "length (key_edit p e) < 128"
    using p nul by (auto simp: key_edit_def)
  moreover have "\<exists>r. terminal_session_handle_event e s = Some (r, s \<lparr> ts_input_buffer := key_edit p e \<rparr>)"
    using False p
    by (cases "kev_type e"; cases s)
      (auto simp: terminal_session_handle_event_def is_enter_def key_edit_def TERMINAL_SESSION_INPUT_CAP_def)
  ultimately show ?thesis
    using False assms by (auto simp: session_shows_def TERMINAL_SESSION_INPUT_CAP_def)
qed

definition session_step :: "terminal_session \<Rightarrow> keyboard_event \<Rightarrow> terminal_session option" where
  "session_step s e = map_option snd (terminal_session_handle_event e s)"

lemma session_run_shows:
  "session_shows s executed p \<Longrightarrow> \<exists>s'. run_steps session_step s es = Some s' \<and> ts_endpoint_id s' = ts_endpoint_id s \<and>
    session_shows s' (executed @ filter has_words (fst (lines_typed p es))) (snd (lines_typed p es))"
proof (induction es arbitrary: s executed p)
  case (Cons e es)
  obtain r s1 where h: "terminal_session_handle_event e s = Some (r, s1)" "ts_endpoint_id s1 = ts_endpoint_id s"
    "if is_enter e then session_shows s1 (executed @ (if has_words p then [p] else [])) []
     else session_shows s1 executed (key_edit p e)"
    using handle_event_shows [OF Cons.prems] by blast
  show ?case
  proof (cases "is_enter e")
    case True
    then show ?thesis
      using h Cons.IH [of s1 "executed @ (if has_words p then [p] else [])" "[]"]
      by (auto simp: session_step_def split: prod.splits)
  next
    case False
    then show ?thesis
      using h Cons.IH [of s1 executed "key_edit p e"] by (auto simp: session_step_def)
  qed
qed simp

lemma session_init_shows:
  assumes "e \<noteq> 0"
  shows "\<exists>s'. terminal_session_init e w s = Some s' \<and> ts_endpoint_id s' = e \<and> ts_window s' = w \<and> session_shows s' [] []"
proof -
  obtain ctx where "path_state_context_pwd (path_state_context_init (ts_path_state s)) FS_PATH_MAX = Some (Some ''/'', ctx)" "ctx_wf ctx"
    "render True (cwd_names (ctx_tree ctx)) = ''/''"
    using context_init_wf [of "ts_path_state s"] by (auto simp: render_def)
  then show ?thesis
    using assms by (simp add: terminal_session_init_def ts_refresh_cwd_cache_def ts_hash_u32_def ts_hash_byte_def
        session_shows_def TERMINAL_SESSION_INPUT_CAP_def TERMINAL_SESSION_HISTORY_CAP_def Let_def)
qed

text \<open>
  C12: A terminal session is its typed lines: after any key events from initialisation every call has
  returned, the pending input is what a reference editor (backspace, at most 127 printable
  characters) leaves, each entered line that has a word has been executed once, in order, the counter
  counts them modulo 2^32, the history keeps exactly the last 8 of them, line \<open>k\<close> in slot
  \<open>k mod 8\<close>, and the shown directory is the session's current one.
\<close>

theorem terminal_session_lines:
  assumes "e \<noteq> 0"
  shows "\<exists>s0 s. terminal_session_init e w session = Some s0 \<and> run_steps session_step s0 events = Some s \<and>
    (let (lines, pending) = lines_typed [] events; executed = filter has_words lines in
     ts_endpoint_id s = e \<and> ts_input_buffer s = pending \<and> ts_lines_executed s = word_of_nat (length executed) \<and>
     ts_history_count s = min 8 (length executed) \<and>
     (\<forall>k < length executed. length executed \<le> k + 8 \<longrightarrow> ts_history s ! (k mod 8) = executed ! k) \<and>
     ts_cwd_cache s = render True (cwd_names (ctx_tree (ts_path_state s))))"
proof -
  obtain s0 where s0: "terminal_session_init e w session = Some s0" "ts_endpoint_id s0 = e" "session_shows s0 [] []"
    using session_init_shows [OF assms] by blast
  obtain s where s: "run_steps session_step s0 events = Some s" "ts_endpoint_id s = e"
    "session_shows s (filter has_words (fst (lines_typed [] events))) (snd (lines_typed [] events))"
    using session_run_shows [OF s0(3), of events] s0(2) by auto
  show ?thesis
    by (rule exI [of _ s0], rule exI [of _ s])
      (use s0 s in \<open>simp add: session_shows_def TERMINAL_SESSION_HISTORY_CAP_def Let_def split_def\<close>)
qed

definition key_char :: "char \<Rightarrow> keyboard_event" where
  "key_char c = \<lparr> kev_type = KEYBOARD_EVENT_TEXT, kev_scancode = 0, kev_pressed = 1, kev_text = c, kev_control = 0 \<rparr>"

definition key_control :: "u8 \<Rightarrow> keyboard_event" where
  "key_control k = \<lparr> kev_type = KEYBOARD_EVENT_CONTROL, kev_scancode = 0, kev_pressed = 1, kev_text = CHR 0x00, kev_control = k \<rparr>"

definition demo_session :: terminal_session where
  "demo_session = \<lparr> ts_endpoint_id = 0, ts_window = None, ts_path_state = \<lparr> ctx_tree = fs_dir_init, ctx_ready = False \<rparr>,
     ts_input_buffer = [], ts_history = [], ts_history_count = 0, ts_history_head = 0, ts_lines_executed = 0,
     ts_marker_hash = 0, ts_cwd_cache = [] \<rparr>"

theorem terminal_session_lines_witness:
  "\<exists>s0 s. terminal_session_init 7 None demo_session = Some s0 \<and>
     run_steps session_step s0 [key_char CHR ''l'', key_char CHR ''s'', key_control KEYBOARD_CONTROL_ENTER, key_char CHR ''x''] = Some s \<and>
     ts_input_buffer s = ''x'' \<and> ts_lines_executed s = 1"
proof -
  have w: "has_words ''ls''"
    unfolding has_words_def by (subst split_words.simps) (simp add: is_space_def)
  show ?thesis
    using terminal_session_lines [of 7 None demo_session
        "[key_char CHR ''l'', key_char CHR ''s'', key_control KEYBOARD_CONTROL_ENTER, key_char CHR ''x'']"]
    by (auto simp: key_char_def key_control_def is_enter_def key_edit_def KEYBOARD_CONTROL_ENTER_def w)
qed

end
