(* ===== verification/TerminalWindow.thy ===== *)
theory TerminalWindow
  imports TerminalSession KeyboardDispatch
begin

text \<open>
  Terminal windows (\<open>kernel/wm/terminal_window.c\<close>): a window with a session, found by its keyboard
  endpoint. The window is the first member of the \<open>wm_terminal_window_t\<close>, so both have the same
  reference: its frame lies in the window heap, the rest in \<open>term_windows\<close>. Key events reach a
  session through \<open>wm_terminal_window_dispatch_event\<close>, which the program installs as the sink of the
  keyboard dispatch; as the commands of a session may walk the directory tree, its result is an option.
\<close>

record terminal_window =
  tw_session :: terminal_session
  tw_owner_task_id :: u32

record terminal_dispatch_binding =
  td_terminal_window :: win_ptr
  td_endpoint_id :: u32

record terminal_world =
  td_bindings :: "terminal_dispatch_binding list"
  td_binding_count :: nat
  term_windows :: "win_ref \<Rightarrow> terminal_window"

text \<open>What attaching a terminal window touches.\<close>

record terminal_desktop =
  td_heap :: win_heap
  td_wm :: wm_state
  td_keyboard :: "terminal_world option keyboard_dispatch_state"
  td_world :: terminal_world

subsection \<open>The table\<close>

definition find_binding_by_endpoint :: "terminal_world \<Rightarrow> u32 \<Rightarrow> nat option" where
  "find_binding_by_endpoint w endpoint_id =
     (if endpoint_id = 0 then None
      else find_index (\<lambda>i. td_endpoint_id (td_bindings w ! i) = endpoint_id) (td_binding_count w))"

definition find_binding_by_window :: "terminal_world \<Rightarrow> win_ptr \<Rightarrow> nat option" where
  "find_binding_by_window w terminal_window =
     (if terminal_window = None then None
      else find_index (\<lambda>i. td_terminal_window (td_bindings w ! i) = terminal_window) (td_binding_count w))"

definition unregister_terminal_window :: "terminal_world \<Rightarrow> win_ptr \<Rightarrow> terminal_world" where
  "unregister_terminal_window w terminal_window =
     (case find_binding_by_window w terminal_window of
        None \<Rightarrow> w
      | Some i \<Rightarrow>
          let last_index = td_binding_count w - 1;
              bindings = (td_bindings w)[i := td_bindings w ! last_index]
          in w \<lparr> td_bindings := bindings[last_index := \<lparr> td_terminal_window = None, td_endpoint_id = 0 \<rparr>],
                 td_binding_count := last_index \<rparr>)"

definition register_terminal_window :: "terminal_world \<Rightarrow> win_ptr \<Rightarrow> int \<times> terminal_world" where
  "register_terminal_window w terminal_window =
     (case terminal_window of
        None \<Rightarrow> (- 1, w)
      | Some t \<Rightarrow>
          let endpoint_id = terminal_session_endpoint_id (Some (tw_session (term_windows w t))) in
          if endpoint_id = 0 then (- 1, w)
          else case find_binding_by_window w terminal_window of
            Some i \<Rightarrow>
              (case find_binding_by_endpoint w endpoint_id of
                 Some existing \<Rightarrow>
                   if existing \<noteq> i then (- 1, w)
                   else (0, w \<lparr> td_bindings := (td_bindings w)
                          [i := (td_bindings w ! i) \<lparr> td_endpoint_id := endpoint_id \<rparr>] \<rparr>)
               | None \<Rightarrow> (0, w \<lparr> td_bindings := (td_bindings w)
                          [i := (td_bindings w ! i) \<lparr> td_endpoint_id := endpoint_id \<rparr>] \<rparr>))
          | None \<Rightarrow>
              if find_binding_by_endpoint w endpoint_id \<noteq> None then (- 1, w)
              else if td_binding_count w \<ge> WM_MAX_WINDOWS then (- 1, w)
              else (0, w \<lparr> td_bindings := (td_bindings w)
                     [td_binding_count w := \<lparr> td_terminal_window = terminal_window, td_endpoint_id = endpoint_id \<rparr>],
                     td_binding_count := td_binding_count w + 1 \<rparr>))"

subsection \<open>The operations\<close>

definition wm_terminal_window_init ::
  "win_ptr \<Rightarrow> string option \<Rightarrow> u32 \<Rightarrow> u32 \<Rightarrow> u32 \<Rightarrow> u32 \<Rightarrow> u32 \<Rightarrow> u32 \<Rightarrow> terminal_desktop \<Rightarrow> terminal_desktop option" where
  "wm_terminal_window_init terminal_window window_title x y width height endpoint_id owner_task_id s =
     (case terminal_window of
        None \<Rightarrow> Some s
      | Some t \<Rightarrow> do {
          let window = wm_window_init window_title x y width height;
          let window = window \<lparr> style := (style window) \<lparr> title_bar_color := 0x003a4b69, content_color := 0x00f4f7fc \<rparr> \<rparr>;
          session \<leftarrow> terminal_session_init endpoint_id (Some t) (tw_session (term_windows (td_world s) t));
          Some (s \<lparr> td_heap := (td_heap s)(t := window),
                    td_world := (td_world s) \<lparr> term_windows := (term_windows (td_world s))
                      (t := \<lparr> tw_session = session, tw_owner_task_id = owner_task_id \<rparr>) \<rparr> \<rparr>)
        })"

definition wm_terminal_window_attach :: "win_ptr \<Rightarrow> terminal_desktop \<Rightarrow> int \<times> terminal_desktop" where
  "wm_terminal_window_attach terminal_window s =
     (case terminal_window of
        None \<Rightarrow> (- 1, s)
      | Some t \<Rightarrow>
          let was_registered = (find_binding_by_window (td_world s) terminal_window \<noteq> None);
              (r, w) = register_terminal_window (td_world s) terminal_window;
              s = s \<lparr> td_world := w \<rparr>
          in if r \<noteq> 0 then (- 1, s)
             else
               let (r, wm) = wm_compositor_add_window (td_heap s) (td_wm s) terminal_window;
                   s = s \<lparr> td_wm := wm \<rparr>
               in if r \<noteq> 0 then
                    (- 1, if \<not> was_registered
                          then s \<lparr> td_world := unregister_terminal_window (td_world s) terminal_window \<rparr> else s)
                  else
                    let (r, d) = keyboard_dispatch_register_window (td_keyboard s) terminal_window
                          (terminal_session_endpoint_id (Some (tw_session (term_windows (td_world s) t))))
                    in (r, s \<lparr> td_keyboard := d \<rparr>))"

definition wm_terminal_window_handle_key ::
  "win_ptr \<Rightarrow> keyboard_event \<Rightarrow> terminal_world \<Rightarrow> (int \<times> terminal_world) option" where
  "wm_terminal_window_handle_key terminal_window event w =
     (case terminal_window of
        None \<Rightarrow> Some (- 1, w)
      | Some t \<Rightarrow> do {
          (r, session) \<leftarrow> terminal_session_handle_event event (tw_session (term_windows w t));
          Some (r, w \<lparr> term_windows := (term_windows w)(t := (term_windows w t) \<lparr> tw_session := session \<rparr>) \<rparr>)
        })"

definition wm_terminal_window_dispatch_reset :: "terminal_world \<Rightarrow> terminal_world" where
  "wm_terminal_window_dispatch_reset w =
     w \<lparr> td_binding_count := 0,
         td_bindings := replicate WM_MAX_WINDOWS \<lparr> td_terminal_window = None, td_endpoint_id = 0 \<rparr> \<rparr>"

definition wm_terminal_window_dispatch_event :: "u32 \<Rightarrow> keyboard_event \<Rightarrow> terminal_world \<Rightarrow> terminal_world option" where
  "wm_terminal_window_dispatch_event endpoint_id event w =
     (case find_binding_by_endpoint w endpoint_id of
        None \<Rightarrow> Some w
      | Some i \<Rightarrow>
          if td_terminal_window (td_bindings w ! i) = None then Some w
          else map_option snd (wm_terminal_window_handle_key (td_terminal_window (td_bindings w ! i)) event w))"

text \<open>The accessors.\<close>

definition tw_session_of :: "terminal_world \<Rightarrow> win_ptr \<Rightarrow> terminal_session option" where
  "tw_session_of w terminal_window = map_option (\<lambda>t. tw_session (term_windows w t)) terminal_window"

definition wm_terminal_window_endpoint :: "terminal_world \<Rightarrow> win_ptr \<Rightarrow> u32" where
  "wm_terminal_window_endpoint w terminal_window =
     (if terminal_window = None then 0 else terminal_session_endpoint_id (tw_session_of w terminal_window))"

definition wm_terminal_window_owner_task :: "terminal_world \<Rightarrow> win_ptr \<Rightarrow> u32" where
  "wm_terminal_window_owner_task w terminal_window =
     (case terminal_window of None \<Rightarrow> 0 | Some t \<Rightarrow> tw_owner_task_id (term_windows w t))"

definition wm_terminal_window_native :: "win_ptr \<Rightarrow> win_ptr" where
  "wm_terminal_window_native terminal_window = (case terminal_window of None \<Rightarrow> None | Some t \<Rightarrow> Some t)"

definition wm_terminal_window_input_len :: "terminal_world \<Rightarrow> win_ptr \<Rightarrow> u32" where
  "wm_terminal_window_input_len w terminal_window =
     (if terminal_window = None then 0 else terminal_session_input_len (tw_session_of w terminal_window))"

definition wm_terminal_window_history_count :: "terminal_world \<Rightarrow> win_ptr \<Rightarrow> u32" where
  "wm_terminal_window_history_count w terminal_window =
     (if terminal_window = None then 0 else terminal_session_history_count (tw_session_of w terminal_window))"

definition wm_terminal_window_lines_executed :: "terminal_world \<Rightarrow> win_ptr \<Rightarrow> u32" where
  "wm_terminal_window_lines_executed w terminal_window =
     (if terminal_window = None then 0 else terminal_session_lines_executed (tw_session_of w terminal_window))"

definition wm_terminal_window_marker :: "terminal_world \<Rightarrow> win_ptr \<Rightarrow> u32" where
  "wm_terminal_window_marker w terminal_window =
     (if terminal_window = None then 0 else terminal_session_marker (tw_session_of w terminal_window))"

definition wm_terminal_window_cwd :: "terminal_world \<Rightarrow> win_ptr \<Rightarrow> string" where
  "wm_terminal_window_cwd w terminal_window =
     (if terminal_window = None then [] else terminal_session_cwd (tw_session_of w terminal_window))"

subsection \<open>The table as a finite map\<close>

definition terminals_wf :: "terminal_world \<Rightarrow> bool" where
  "terminals_wf w \<longleftrightarrow> length (td_bindings w) = WM_MAX_WINDOWS \<and> td_binding_count w \<le> WM_MAX_WINDOWS \<and>
     (\<forall>b \<in> set (take (td_binding_count w) (td_bindings w)). td_terminal_window b \<noteq> None \<and> td_endpoint_id b \<noteq> 0) \<and>
     distinct (map td_terminal_window (take (td_binding_count w) (td_bindings w))) \<and>
     distinct (map td_endpoint_id (take (td_binding_count w) (td_bindings w)))"

text \<open>The terminal window of an endpoint.\<close>

definition terminal_of :: "terminal_world \<Rightarrow> u32 \<Rightarrow> win_ref option" where
  "terminal_of w e =
     Option.bind (map_of (map (\<lambda>b. (td_endpoint_id b, td_terminal_window b)) (take (td_binding_count w) (td_bindings w))) e)
       (\<lambda>t. t)"

lemma terminal_of_find:
  assumes "terminals_wf w"
  shows "terminal_of w e = Option.bind (find_binding_by_endpoint w e) (\<lambda>i. td_terminal_window (td_bindings w ! i))"
proof -
  let ?bs = "take (td_binding_count w) (td_bindings w)"
  have m: "map_of (map (\<lambda>b. (td_endpoint_id b, td_terminal_window b)) ?bs) e =
      map_option (\<lambda>i. td_terminal_window (td_bindings w ! i))
        (find_index (\<lambda>i. td_endpoint_id (td_bindings w ! i) = e) (td_binding_count w))"
    using assms by (intro find_first_map_of) (simp add: terminals_wf_def)
  show ?thesis
  proof (cases "e = 0")
    case True
    have "e \<notin> td_endpoint_id ` set ?bs"
      using assms True by (auto simp: terminals_wf_def)
    then have "map_of (map (\<lambda>b. (td_endpoint_id b, td_terminal_window b)) ?bs) e = None"
      by (auto simp: map_of_eq_None_iff image_iff)
    then show ?thesis
      using True by (simp add: terminal_of_def find_binding_by_endpoint_def)
  next
    case False
    then show ?thesis
      by (cases "find_index (\<lambda>i. td_endpoint_id (td_bindings w ! i) = e) (td_binding_count w)")
        (simp_all add: terminal_of_def find_binding_by_endpoint_def m)
  qed
qed

lemma dispatch_event_unfold:
  assumes "terminals_wf w"
  shows "wm_terminal_window_dispatch_event e event w =
    (case terminal_of w e of
       None \<Rightarrow> Some w
     | Some t \<Rightarrow> map_option (\<lambda>s. w \<lparr> term_windows := (term_windows w)(t := (term_windows w t) \<lparr> tw_session := s \<rparr>) \<rparr>)
         (session_step (tw_session (term_windows w t)) event))"
proof (cases "find_binding_by_endpoint w e")
  case None
  then show ?thesis
    by (simp add: wm_terminal_window_dispatch_event_def terminal_of_find [OF assms])
next
  case (Some i)
  show ?thesis
  proof (cases "td_terminal_window (td_bindings w ! i)")
    case None
    then show ?thesis
      using Some by (simp add: wm_terminal_window_dispatch_event_def terminal_of_find [OF assms])
  next
    case (Some t)
    then show ?thesis
      using \<open>find_binding_by_endpoint w e = Some i\<close>
      by (cases "terminal_session_handle_event event (tw_session (term_windows w t))")
        (auto simp: wm_terminal_window_dispatch_event_def terminal_of_find [OF assms] wm_terminal_window_handle_key_def session_step_def)
  qed
qed

subsection \<open>Keys and sessions\<close>

definition session_of :: "terminal_world \<Rightarrow> win_ref \<Rightarrow> terminal_session" where
  "session_of w t = tw_session (term_windows w t)"

definition session_ok :: "terminal_session \<Rightarrow> bool" where
  "session_ok s \<longleftrightarrow> (\<exists>executed p. session_shows s executed p)"

definition terminal_sink :: "u32 \<Rightarrow> keyboard_event \<Rightarrow> terminal_world option \<Rightarrow> terminal_world option" where
  "terminal_sink e event world = Option.bind world (wm_terminal_window_dispatch_event e event)"

text \<open>The keys meant for a terminal window: typed while a window with its endpoint was active.\<close>

definition key_terminal :: "terminal_world option keyboard_dispatch_state \<Rightarrow> terminal_world \<Rightarrow> win_ptr \<Rightarrow> win_ref option" where
  "key_terminal d w window =
     (case Option.bind window (endpoints d) of None \<Rightarrow> None | Some endpoint \<Rightarrow> terminal_of w endpoint)"

definition keys_for ::
  "terminal_world option keyboard_dispatch_state \<Rightarrow> terminal_world \<Rightarrow> win_ref \<Rightarrow> (keyboard_event \<times> win_ptr) list \<Rightarrow> keyboard_event list" where
  "keys_for d w t ks =
     map fst (filter (\<lambda>(event, window). key_terminal d w window = Some t) ks)"

lemma session_step_ok: "session_ok s \<Longrightarrow> \<exists>s'. session_step s e = Some s' \<and> session_ok s'"
  unfolding session_ok_def session_step_def
  by (metis handle_event_shows option.simps(9) snd_conv)

interpretation session_machine: safe_machine session_step "\<lambda>_. True" session_ok
  by unfold_locales (rule session_step_ok)

lemma dispatch_event_step:
  assumes "terminals_wf w" "\<forall>t. terminal_of w e = Some t \<longrightarrow> session_ok (session_of w t)"
  shows "\<exists>w'. terminal_sink e event (Some w) = Some w' \<and> terminals_wf w' \<and> terminal_of w' = terminal_of w \<and>
    (\<forall>t. if terminal_of w e = Some t then session_step (session_of w t) event = Some (session_of w' t) \<and> session_ok (session_of w' t)
      else session_of w' t = session_of w t)"
proof (cases "terminal_of w e")
  case None
  then show ?thesis using assms(1) by (simp add: terminal_sink_def dispatch_event_unfold [OF assms(1)])
next
  case (Some t)
  then obtain s' where s': "session_step (session_of w t) event = Some s'" "session_ok s'"
    using assms(2) session_step_ok by blast
  define w' where "w' = w \<lparr> term_windows := (term_windows w)(t := (term_windows w t) \<lparr> tw_session := s' \<rparr>) \<rparr>"
  have "terminal_sink e event (Some w) = Some w'"
    using Some s'(1) by (simp add: terminal_sink_def dispatch_event_unfold [OF assms(1)] session_of_def w'_def)
  moreover have "terminal_of w' = terminal_of w"
    by (simp add: w'_def terminal_of_def fun_eq_iff)
  moreover have "terminals_wf w'"
    using assms(1) by (simp add: w'_def terminals_wf_def)
  ultimately show ?thesis
    using Some s' by (auto simp: w'_def session_of_def)
qed

lemma keys_delivered:
  assumes "terminals_wf w" "\<forall>e t. terminal_of w e = Some t \<longrightarrow> session_ok (session_of w t)"
  shows "\<exists>w'. fold (\<lambda>(event, window). case Option.bind window (endpoints d) of
        None \<Rightarrow> id | Some endpoint \<Rightarrow> terminal_sink endpoint event) ks (Some w) = Some w' \<and>
    (\<forall>t. run_steps session_step (session_of w t) (keys_for d w t ks) = Some (session_of w' t))"
  using assms
proof (induction ks arbitrary: w)
  case Nil
  then show ?case by (simp add: keys_for_def)
next
  case (Cons k ks)
  obtain event window where k: "k = (event, window)" by force
  show ?case
  proof (cases "Option.bind window (endpoints d)")
    case None
    then show ?thesis
      using Cons.IH [OF Cons.prems] by (simp add: k keys_for_def) (simp add: key_terminal_def)
  next
    case (Some e)
    obtain w1 where w1: "terminal_sink e event (Some w) = Some w1" "terminal_of w1 = terminal_of w"
      "\<And>t. if terminal_of w e = Some t then session_step (session_of w t) event = Some (session_of w1 t) \<and> session_ok (session_of w1 t)
        else session_of w1 t = session_of w t" "terminals_wf w1"
      using dispatch_event_step [OF Cons.prems(1), of e event] Cons.prems(2) by blast
    have "\<forall>e' t. terminal_of w1 e' = Some t \<longrightarrow> session_ok (session_of w1 t)"
      using w1(2,3) Cons.prems(2) by metis
    then obtain w' where w': "fold (\<lambda>(event, window). case Option.bind window (endpoints d) of
        None \<Rightarrow> id | Some endpoint \<Rightarrow> terminal_sink endpoint event) ks (Some w1) = Some w'"
      "\<forall>t. run_steps session_step (session_of w1 t) (keys_for d w1 t ks) = Some (session_of w' t)"
      using Cons.IH [OF w1(4)] by blast
    have "key_terminal d w1 = key_terminal d w"
      by (rule ext) (simp add: key_terminal_def w1(2) cong: option.case_cong)
    then have same: "keys_for d w1 t ks = keys_for d w t ks" for t
      by (simp add: keys_for_def)
    have "run_steps session_step (session_of w t) (keys_for d w t (k # ks)) = Some (session_of w' t)" for t
      using w'(2) [rule_format, of t] w1(3) [of t] Some unfolding same
      by (cases "terminal_of w e = Some t") (auto simp: k keys_for_def key_terminal_def)
    then show ?thesis
      using w'(1) w1(1) Some by (auto simp: k)
  qed
qed

text \<open>
  C7: Typing reaches the right terminal: whatever the keyboard sends, one round of dispatch returns and
  leaves every session exactly as if it alone had been given, in the order typed, the keys pressed
  while a window registered for its endpoint was active. No session sees another's keys, and a key
  without a terminal changes nothing.
\<close>

theorem terminal_keys_delivered:
  assumes "length (kb_events kb) = 64" "kbd_wf d" "sink d = Some terminal_sink" "terminals_wf w"
    and "\<forall>e t. terminal_of w e = Some t \<longrightarrow> session_ok (session_of w t)"
  shows "\<exists>kb' w'. keyboard_dispatch_pending d (keyboard_run h (keyboard_reset kb)) (Some w) =
      Some (length (take 64 (decoded_keys h)), kb', Some w') \<and> queued_keys kb' = [] \<and>
    (\<forall>t. run_steps session_step (session_of w t) (keys_for d w t (take 64 (decoded_keys h))) = Some (session_of w' t))"
proof -
  obtain kb' where k: "keyboard_dispatch_pending d (keyboard_run h (keyboard_reset kb)) (Some w) =
    Some (length (take 64 (decoded_keys h)), kb',
      fold (\<lambda>(event, window). case Option.bind window (endpoints d) of
              None \<Rightarrow> id | Some endpoint \<Rightarrow> terminal_sink endpoint event) (take 64 (decoded_keys h)) (Some w))"
    "queued_keys kb' = []"
    using keyboard_dispatch_lemma [OF assms(1-3)] by blast
  then show ?thesis
    using keys_delivered [OF assms(4,5), of d "take 64 (decoded_keys h)"] by auto
qed

definition demo_terminal :: terminal_session where
  "demo_terminal = (case terminal_session_init 9 (Some 3) demo_session of Some s \<Rightarrow> s | None \<Rightarrow> demo_session)"

lemma demo_terminal: "session_shows demo_terminal [] []"
  using session_init_shows [of 9 "Some 3" demo_session] by (auto simp: demo_terminal_def)

definition demo_terminals :: terminal_world where
  "demo_terminals = \<lparr> td_bindings = \<lparr> td_terminal_window = Some 3, td_endpoint_id = 9 \<rparr> #
       replicate 7 \<lparr> td_terminal_window = None, td_endpoint_id = 0 \<rparr>,
     td_binding_count = 1, term_windows = (\<lambda>t. \<lparr> tw_session = demo_terminal, tw_owner_task_id = 1 \<rparr>) \<rparr>"

definition demo_keyboard_table :: "terminal_world option keyboard_dispatch_state" where
  "demo_keyboard_table = \<lparr> kbd_bindings = \<lparr> kbd_window = Some 3, kbd_endpoint_id = 9 \<rparr> #
       replicate 7 \<lparr> kbd_window = None, kbd_endpoint_id = 0 \<rparr>,
     kbd_binding_count = 1, sink = Some terminal_sink \<rparr>"

lemma demo_terminal_of: "terminal_of demo_terminals 9 = Some 3"
  by (simp add: terminal_of_def demo_terminals_def)

lemma demo_terminals_wf: "terminals_wf demo_terminals"
  by (simp add: terminals_wf_def demo_terminals_def WM_MAX_WINDOWS_def)

lemma demo_decoded:
  "decoded_keys [(demo_wm 3, 0x36), (demo_wm 3, 0x03), (demo_wm 1, 0x03)] =
     [(\<lparr> kev_type = KEYBOARD_EVENT_TEXT, kev_scancode = 3, kev_pressed = 1, kev_text = CHR ''@'', kev_control = 0 \<rparr>, Some 3),
      (\<lparr> kev_type = KEYBOARD_EVENT_TEXT, kev_scancode = 3, kev_pressed = 1, kev_text = CHR ''@'', kev_control = 0 \<rparr>, Some 1)]"
  by (simp add: decoded_keys_def demo_wm_def key_entries_def keyboard_control_for_scancode_def printable_table_def)

theorem terminal_keys_delivered_witness:
  "\<exists>kb' w'. keyboard_dispatch_pending demo_keyboard_table (keyboard_run
     [(demo_wm 3, 0x36), (demo_wm 3, 0x03), (demo_wm 1, 0x03)] (keyboard_reset demo_keyboard)) (Some demo_terminals) =
     Some (2, kb', Some w') \<and> ts_input_buffer (session_of w' 3) = ''@''"
proof -
  have d: "length (kb_events demo_keyboard) = 64" "kbd_wf demo_keyboard_table" "sink demo_keyboard_table = Some terminal_sink"
    "endpoints demo_keyboard_table 3 = Some 9" "endpoints demo_keyboard_table (Suc 0) = None"
    by (simp_all add: demo_keyboard_def kbd_wf_def demo_keyboard_table_def WM_MAX_WINDOWS_def endpoints_def)
  have s: "session_of demo_terminals t = demo_terminal" for t
    by (simp add: session_of_def demo_terminals_def)
  then have ok: "\<forall>e t. terminal_of demo_terminals e = Some t \<longrightarrow> session_ok (session_of demo_terminals t)"
    using demo_terminal by (auto simp: session_ok_def)
  let ?k = "\<lparr> kev_type = KEYBOARD_EVENT_TEXT, kev_scancode = 3, kev_pressed = 1, kev_text = CHR ''@'', kev_control = 0 \<rparr>"
  have keys: "keys_for demo_keyboard_table demo_terminals 3 (take 64 (decoded_keys [(demo_wm 3, 0x36), (demo_wm 3, 0x03), (demo_wm 1, 0x03)])) = [?k]"
    using d(4,5) demo_terminal_of unfolding demo_decoded by (simp add: keys_for_def key_terminal_def)
  let ?h = "[(demo_wm 3, 0x36), (demo_wm 3, 0x03), (demo_wm 1, 0x03)]"
  have n: "length (take 64 (decoded_keys ?h)) = 2"
    unfolding demo_decoded by simp
  obtain kb' w' where r: "keyboard_dispatch_pending demo_keyboard_table (keyboard_run ?h (keyboard_reset demo_keyboard)) (Some demo_terminals) =
      Some (2, kb', Some w')"
    "run_steps session_step (session_of demo_terminals 3) (keys_for demo_keyboard_table demo_terminals 3 (take 64 (decoded_keys ?h))) = Some (session_of w' 3)"
    using terminal_keys_delivered [OF d(1-3) demo_terminals_wf ok, of ?h] unfolding n by blast
  have "run_steps session_step demo_terminal [?k] = Some (session_of w' 3)"
    using r(2) unfolding keys s .
  with r(1) show ?thesis
    using session_run_shows [OF demo_terminal, of "[?k]"]
    by (auto simp: session_shows_def is_enter_def key_edit_def)
qed

subsection \<open>Attaching\<close>

lemma find_binding_by_window_None:
  "terminals_wf w \<Longrightarrow> find_binding_by_window w (Some t) = None \<longleftrightarrow>
     Some t \<notin> td_terminal_window ` set (take (td_binding_count w) (td_bindings w))"
  by (auto simp: find_binding_by_window_def find_index_None terminals_wf_def nth_image [symmetric] image_image image_iff)
    (metis atLeast0LessThan lessThan_iff)

lemma find_binding_by_endpoint_None:
  "terminals_wf w \<Longrightarrow> e \<noteq> 0 \<Longrightarrow> find_binding_by_endpoint w e = None \<longleftrightarrow>
     e \<notin> td_endpoint_id ` set (take (td_binding_count w) (td_bindings w))"
  by (auto simp: find_binding_by_endpoint_def find_index_None terminals_wf_def nth_image [symmetric] image_image image_iff)

lemma terminal_of_None:
  assumes "terminals_wf w" "e \<noteq> 0"
  shows "terminal_of w e = None \<longleftrightarrow> find_binding_by_endpoint w e = None"
proof (cases "find_binding_by_endpoint w e")
  case (Some i)
  then have "i < td_binding_count w"
    using assms(2) by (simp add: find_binding_by_endpoint_def find_index_Some)
  then have "td_bindings w ! i \<in> set (take (td_binding_count w) (td_bindings w))"
    using assms(1) by (auto simp: terminals_wf_def in_set_conv_nth intro!: exI [of _ i])
  then have "td_terminal_window (td_bindings w ! i) \<noteq> None"
    using assms(1) by (auto simp: terminals_wf_def)
  then show ?thesis
    using Some by (simp add: terminal_of_find [OF assms(1)])
qed (simp add: terminal_of_find [OF assms(1)])

text \<open>Entering a new terminal window in the table, and taking it out again.\<close>

lemma register_new:
  assumes "terminals_wf w" "find_binding_by_window w (Some t) = None"
    and "e = terminal_session_endpoint_id (Some (tw_session (term_windows w t)))"
  shows "case register_terminal_window w (Some t) of (r, w') \<Rightarrow>
    if e \<noteq> 0 \<and> terminal_of w e = None \<and> td_binding_count w < WM_MAX_WINDOWS
    then r = 0 \<and> terminals_wf w' \<and> terminal_of w' = (terminal_of w)(e \<mapsto> t) \<and> term_windows w' = term_windows w \<and>
      terminals_wf (unregister_terminal_window w' (Some t)) \<and>
      terminal_of (unregister_terminal_window w' (Some t)) = terminal_of w \<and>
      term_windows (unregister_terminal_window w' (Some t)) = term_windows w
    else r = - 1 \<and> w' = w"
proof (cases "e \<noteq> 0 \<and> terminal_of w e = None \<and> td_binding_count w < WM_MAX_WINDOWS")
  case False
  then show ?thesis
    using assms(2) terminal_of_None [OF assms(1), of e]
    by (auto simp: register_terminal_window_def Let_def assms(3) [symmetric])
next
  case True
  let ?n = "td_binding_count w" and ?b = "\<lparr> td_terminal_window = Some t, td_endpoint_id = e \<rparr>"
  define w' where "w' = w \<lparr> td_bindings := (td_bindings w)[?n := ?b], td_binding_count := ?n + 1 \<rparr>"
  have r: "register_terminal_window w (Some t) = (0, w')"
    using True assms(2) terminal_of_None [OF assms(1), of e]
    by (simp add: register_terminal_window_def Let_def assms(3) [symmetric] w'_def)
  have n: "?n < length (td_bindings w)" "length (td_bindings w) = WM_MAX_WINDOWS"
    using True assms(1) by (auto simp: terminals_wf_def)
  have tk: "take (Suc ?n) ((td_bindings w)[?n := ?b]) = take ?n (td_bindings w) @ [?b]"
    using n(1) by (rule take_Suc_update_last)
  have new: "Some t \<notin> td_terminal_window ` set (take ?n (td_bindings w))" "e \<notin> td_endpoint_id ` set (take ?n (td_bindings w))"
    using assms(1,2) True find_binding_by_window_None find_binding_by_endpoint_None terminal_of_None by blast+
  have wf: "terminals_wf w'"
    using assms(1) True new tk n by (auto simp: terminals_wf_def w'_def)
  have "map_of (map (\<lambda>b. (td_endpoint_id b, td_terminal_window b)) (take ?n (td_bindings w))) e = None"
    using new(2) by (auto simp: map_of_eq_None_iff image_iff)
  then have tm: "terminal_of w' = (terminal_of w)(e \<mapsto> t)"
    using tk by (auto simp: terminal_of_def w'_def fun_eq_iff map_add_def split: option.splits)
  have "find_binding_by_window w' (Some t) = Some ?n"
    using new(1) n by (auto simp: find_binding_by_window_def find_index_Some w'_def nth_image [symmetric] image_image image_iff nth_list_update)
      (metis atLeast0LessThan lessThan_iff)
  then have u: "unregister_terminal_window w' (Some t) = w' \<lparr> td_bindings := (td_bindings w)[?n := \<lparr> td_terminal_window = None, td_endpoint_id = 0 \<rparr>],
      td_binding_count := ?n \<rparr>"
    by (simp add: unregister_terminal_window_def w'_def Let_def)
  have "terminals_wf (unregister_terminal_window w' (Some t))"
    using assms(1) unfolding u by (simp add: terminals_wf_def)
  moreover have "terminal_of (unregister_terminal_window w' (Some t)) = terminal_of w"
    unfolding u by (simp add: terminal_of_def fun_eq_iff)
  moreover have "term_windows (unregister_terminal_window w' (Some t)) = term_windows w" "term_windows w' = term_windows w"
    unfolding u by (simp_all add: w'_def)
  ultimately show ?thesis
    using True wf tm unfolding r by simp
qed

text \<open>
  C34: Attaching a terminal window that is not in the table yet. It succeeds exactly when its endpoint is
  not 0 and not taken, the table has room, its frame is valid and not in the full stack, and the
  keyboard table has room; then the window is on top and active and, by both tables together, the
  keys typed into it go to its own session. A failure before the last step leaves the screen and
  both tables as they were; when only the keyboard table is full the window stays on the screen.
\<close>

theorem wm_terminal_window_attach_spec:
  assumes "terminals_wf (td_world s)" "wm_wf (td_wm s)" "kbd_wf (td_keyboard s)"
    and "find_binding_by_window (td_world s) (Some t) = None"
    and "e = wm_terminal_window_endpoint (td_world s) (Some t)"
    and "wm_terminal_window_attach (Some t) s = (r, s')"
  shows "if e \<noteq> 0 \<and> terminal_of (td_world s) e = None \<and> td_binding_count (td_world s) < WM_MAX_WINDOWS \<and>
       wm_window_is_valid (Some (td_heap s t)) \<and> t \<notin> set (wm_windows (td_wm s)) \<and> length (wm_windows (td_wm s)) < WM_MAX_WINDOWS
    then wm_windows (td_wm s') = wm_windows (td_wm s) @ [t] \<and> active_window (td_wm s') = Some t \<and>
      (if t \<in> dom (endpoints (td_keyboard s)) \<or> card (dom (endpoints (td_keyboard s))) < WM_MAX_WINDOWS
       then r = 0 \<and> key_terminal (td_keyboard s') (td_world s') (Some t) = Some t
       else r = - 1 \<and> td_keyboard s' = td_keyboard s)
    else r = - 1 \<and> td_wm s' = td_wm s \<and> td_keyboard s' = td_keyboard s \<and> terminal_of (td_world s') = terminal_of (td_world s)"
proof -
  have e: "e = terminal_session_endpoint_id (Some (tw_session (term_windows (td_world s) t)))"
    using assms(5) by (simp add: wm_terminal_window_endpoint_def tw_session_of_def)
  obtain r1 w1 where w1: "register_terminal_window (td_world s) (Some t) = (r1, w1)" by force
  obtain r2 m where m: "wm_compositor_add_window (td_heap s) (td_wm s) (Some t) = (r2, m)" by force
  obtain r3 d where d: "keyboard_dispatch_register_window (td_keyboard s) (Some t) e = (r3, d)" by force
  note reg = register_new [OF assms(1,4) e, unfolded w1 prod.case]
  note add = wm_compositor_add_window_spec [OF assms(2), of "td_heap s" "Some t", unfolded m prod.case option.map option.sel]
  note kbd = kbd_register_spec [OF assms(3) d]
  have run: "(r, s') = (if r1 \<noteq> 0 then (- 1, s \<lparr> td_world := w1 \<rparr>)
      else if r2 \<noteq> 0 then (- 1, s \<lparr> td_wm := m, td_world := unregister_terminal_window w1 (Some t) \<rparr>)
      else (r3, s \<lparr> td_world := w1, td_wm := m, td_keyboard := d \<rparr>))" if "r1 = 0 \<longrightarrow> term_windows w1 = term_windows (td_world s)"
    using assms(4,6) w1 m d e that
    by (cases "r1 = 0"; cases "r2 = 0") (simp_all add: wm_terminal_window_attach_def Let_def cong: if_cong)
  show ?thesis
  proof (cases "e \<noteq> 0 \<and> terminal_of (td_world s) e = None \<and> td_binding_count (td_world s) < WM_MAX_WINDOWS")
    case False
    then show ?thesis
      using reg run by (auto split: if_splits)
  next
    case True
    then have g: "r1 = 0" "terminal_of w1 = (terminal_of (td_world s))(e \<mapsto> t)" "term_windows w1 = term_windows (td_world s)"
      "terminal_of (unregister_terminal_window w1 (Some t)) = terminal_of (td_world s)"
      using reg by auto
    show ?thesis
      using True add kbd run g by (auto simp: key_terminal_def split: if_splits)
  qed
qed

definition demo_desktop :: terminal_desktop where
  "demo_desktop = \<lparr> td_heap = demo_heap, td_wm = demo_state, td_keyboard = demo_keyboard_table,
     td_world = (wm_terminal_window_dispatch_reset demo_terminals) \<rparr>"

theorem wm_terminal_window_attach_spec_witness:
  "fst (wm_terminal_window_attach (Some 3) demo_desktop) = 0"
proof -
  have w: "terminals_wf (td_world demo_desktop)" "kbd_wf (td_keyboard demo_desktop)"
    "find_binding_by_window (td_world demo_desktop) (Some 3) = None" "td_binding_count (td_world demo_desktop) = 0"
    "terminal_of (td_world demo_desktop) 9 = None"
    by (simp_all add: demo_desktop_def wm_terminal_window_dispatch_reset_def terminals_wf_def find_binding_by_window_def
        find_index_None [THEN iffD2] terminal_of_def kbd_wf_def demo_keyboard_table_def endpoints_def WM_MAX_WINDOWS_def)
  have k: "3 \<in> dom (endpoints (td_keyboard demo_desktop))"
    by (simp add: demo_desktop_def demo_keyboard_table_def endpoints_def domIff)
  have "ts_endpoint_id demo_terminal = 9"
    using session_init_shows [of 9 "Some 3" demo_session] by (auto simp: demo_terminal_def)
  then have e: "wm_terminal_window_endpoint (td_world demo_desktop) (Some 3) = 9"
    by (simp add: demo_desktop_def wm_terminal_window_endpoint_def tw_session_of_def terminal_session_endpoint_id_def
        wm_terminal_window_dispatch_reset_def demo_terminals_def)
  have m: "wm_wf (td_wm demo_desktop)" "wm_windows (td_wm demo_desktop) = []"
    by (simp_all add: demo_desktop_def demo_state_def reset_wf)
  have "wm_window_is_valid (Some (td_heap demo_desktop 3))"
    using demo_heap_ok [of 3] by (simp add: demo_desktop_def)
  with wm_terminal_window_attach_spec [OF w(1) m(1) w(2,3) e [symmetric] prod.collapse [symmetric]] w(4,5) k m(2)
  show ?thesis by (auto simp: WM_MAX_WINDOWS_def)
qed

end
