(* ===== verification/MultiTerminal.thy ===== *)
theory MultiTerminal
  imports TerminalWindow
begin

unbundle bit_operations_syntax

text \<open>
  The self test of terminal isolation (\<open>apps/terminal/multi_terminal_test.c\<close>): two terminal windows,
  into which keys are typed in turn. Its state is everything it touches: the windows with their
  sessions, both tables, the keyboard, the compositor and the framebuffer. Its two terminal windows
  are local variables, with the references below. The outer option is \<open>None\<close> for a run that does not return.
  The texts are literals and never null.
\<close>

record terminal_test =
  mt_desktop :: terminal_desktop
  mt_keyboard :: keyboard_state
  mt_fb :: framebuffer_info

definition LEFT_TERMINAL :: win_ref where "LEFT_TERMINAL = 201"
definition RIGHT_TERMINAL :: win_ref where "RIGHT_TERMINAL = 202"

fun mt_str_eq :: "string \<Rightarrow> string \<Rightarrow> bool" where
  "mt_str_eq (a # as) (b # bs) = (if a \<noteq> b then False else mt_str_eq as bs)"
| "mt_str_eq as bs = (as = [] \<and> bs = [])"

definition mt_hash_u32 :: "u32 \<Rightarrow> u32 \<Rightarrow> u32" where
  "mt_hash_u32 hash value =
     (let hash = (hash XOR (value AND 0xff)) * 16777619;
          hash = (hash XOR (drop_bit 8 value AND 0xff)) * 16777619;
          hash = (hash XOR (drop_bit 16 value AND 0xff)) * 16777619
      in (hash XOR (drop_bit 24 value AND 0xff)) * 16777619)"

definition scancode_table :: "(char \<times> u8) list" where
  "scancode_table =
     [(CHR ''a'', 0x1e), (CHR ''b'', 0x30), (CHR ''c'', 0x2e), (CHR ''d'', 0x20), (CHR ''e'', 0x12), (CHR ''f'', 0x21),
      (CHR ''g'', 0x22), (CHR ''h'', 0x23), (CHR ''i'', 0x17), (CHR ''j'', 0x24), (CHR ''k'', 0x25), (CHR ''l'', 0x26),
      (CHR ''m'', 0x32), (CHR ''n'', 0x31), (CHR ''o'', 0x18), (CHR ''p'', 0x19), (CHR ''q'', 0x10), (CHR ''r'', 0x13),
      (CHR ''s'', 0x1f), (CHR ''t'', 0x14), (CHR ''u'', 0x16), (CHR ''v'', 0x2f), (CHR ''w'', 0x11), (CHR ''x'', 0x2d),
      (CHR ''y'', 0x15), (CHR ''z'', 0x2c), (CHR ''/'', 0x35), (CHR '' '', 0x39)]"

definition scancode_for_char :: "char \<Rightarrow> u8" where
  "scancode_for_char ch = (case map_of scancode_table ch of Some c \<Rightarrow> c | None \<Rightarrow> 0)"

definition emit_scancode :: "u8 \<Rightarrow> terminal_test \<Rightarrow> (int \<times> terminal_test) option" where
  "emit_scancode scancode s =
     (if scancode = 0 then Some (- 1, s)
      else
        let d = mt_desktop s;
            (r, kb) = keyboard_handle_scancode (td_wm d) (mt_keyboard s) scancode;
            s = s \<lparr> mt_keyboard := kb \<rparr>
        in if r \<noteq> 0 then Some (- 1, s)
           else do {
             (_, kb, w) \<leftarrow> keyboard_dispatch_pending (td_keyboard d) kb (Some (td_world d));
             w \<leftarrow> w;
             Some (0, s \<lparr> mt_keyboard := kb, mt_desktop := d \<lparr> td_world := w \<rparr> \<rparr>)
           })"

fun emit_text :: "string \<Rightarrow> terminal_test \<Rightarrow> (int \<times> terminal_test) option" where
  "emit_text [] s = Some (0, s)"
| "emit_text (c # cs) s = do {
     (r, s) \<leftarrow> emit_scancode (scancode_for_char c) s;
     if r \<noteq> 0 then Some (- 1, s) else emit_text cs s
   }"

definition emit_enter :: "terminal_test \<Rightarrow> (int \<times> terminal_test) option" where
  "emit_enter = emit_scancode 0x1c"

text \<open>
  The body of the test is a sequence of calls and checks, each of which goes to the end when it fails.
\<close>

type_synonym test_step = "terminal_test \<Rightarrow> (int \<times> terminal_test) option"

fun run_test :: "test_step list \<Rightarrow> terminal_test \<Rightarrow> (bool \<times> terminal_test) option" where
  "run_test [] s = Some (True, s)"
| "run_test (f # fs) s = do {
     (r, s) \<leftarrow> f s;
     if r \<noteq> 0 then Some (False, s) else run_test fs s
   }"

definition attach :: "win_ref \<Rightarrow> test_step" where
  "attach t s = (let (r, d) = wm_terminal_window_attach (Some t) (mt_desktop s) in Some (r, s \<lparr> mt_desktop := d \<rparr>))"

definition activate :: "win_ref \<Rightarrow> test_step" where
  "activate t s =
     (let (r, wm) = wm_compositor_activate_window (td_wm (mt_desktop s)) (wm_terminal_window_native (Some t))
      in Some (r, s \<lparr> mt_desktop := (mt_desktop s) \<lparr> td_wm := wm \<rparr> \<rparr>))"

definition check :: "(terminal_world \<Rightarrow> bool) \<Rightarrow> test_step" where
  "check P s = Some (if P (td_world (mt_desktop s)) then 0 else - 1, s)"

definition test_steps :: "test_step list" where
  "test_steps =
     (let left = Some LEFT_TERMINAL; right = Some RIGHT_TERMINAL in
      [attach LEFT_TERMINAL, attach RIGHT_TERMINAL,
       activate LEFT_TERMINAL, emit_text ''cd /t'',
       check (\<lambda>w. wm_terminal_window_input_len w left = 5 \<and> wm_terminal_window_input_len w right = 0),
       activate RIGHT_TERMINAL, emit_text ''pwd'', emit_enter,
       check (\<lambda>w. wm_terminal_window_input_len w left = 5 \<and> wm_terminal_window_lines_executed w right = 1 \<and>
         wm_terminal_window_history_count w left = 0 \<and> mt_str_eq (wm_terminal_window_cwd w right) ''/''),
       activate LEFT_TERMINAL, emit_text ''mp'', emit_enter, emit_text ''pwd'', emit_enter,
       check (\<lambda>w. mt_str_eq (wm_terminal_window_cwd w left) ''/tmp'' \<and> wm_terminal_window_history_count w left = 2 \<and>
         wm_terminal_window_lines_executed w left = 2),
       activate RIGHT_TERMINAL, emit_text ''pwd'', emit_enter,
       check (\<lambda>w. mt_str_eq (wm_terminal_window_cwd w right) ''/'' \<and> wm_terminal_window_history_count w right = 2 \<and>
         wm_terminal_window_lines_executed w right = 2 \<and> wm_terminal_window_input_len w left = 0 \<and>
         wm_terminal_window_input_len w right = 0 \<and>
         \<not> mt_str_eq (wm_terminal_window_cwd w left) (wm_terminal_window_cwd w right) \<and>
         wm_terminal_window_owner_task w left \<noteq> wm_terminal_window_owner_task w right)])"

definition test_setup :: "terminal_test \<Rightarrow> terminal_test option" where
  "test_setup s =
     (let d = mt_desktop s;
          d = d \<lparr> td_keyboard := keyboard_dispatch_set_sink (keyboard_dispatch_reset (td_keyboard d)) (Some terminal_sink),
                  td_world := wm_terminal_window_dispatch_reset (td_world d),
                  td_wm := snd (wm_compositor_reset (td_wm d) 0x0011171f) \<rparr>
      in do {
        d \<leftarrow> wm_terminal_window_init (Some LEFT_TERMINAL) (Some ''term-left'') 28 28 236 156 1 101 d;
        d \<leftarrow> wm_terminal_window_init (Some RIGHT_TERMINAL) (Some ''term-right'') 108 76 236 156 2 202 d;
        Some (s \<lparr> mt_keyboard := keyboard_reset (mt_keyboard s), mt_desktop := d \<rparr>)
      })"

text \<open>The marker, with the screen it leaves.\<close>

definition test_marker :: "terminal_test \<Rightarrow> u32 \<times> terminal_test" where
  "test_marker s =
     (let w = td_world (mt_desktop s); left = Some LEFT_TERMINAL; right = Some RIGHT_TERMINAL;
          marker = mt_hash_u32 2166136261 (wm_terminal_window_marker w left);
          marker = mt_hash_u32 marker (wm_terminal_window_marker w right);
          marker = mt_hash_u32 marker (wm_terminal_window_history_count w left);
          marker = mt_hash_u32 marker (wm_terminal_window_history_count w right);
          (m, fb) = wm_compositor_render (td_heap (mt_desktop s)) (td_wm (mt_desktop s)) (mt_fb s)
      in (mt_hash_u32 marker m, s \<lparr> mt_fb := fb \<rparr>))"

definition test_finish :: "terminal_test \<Rightarrow> terminal_test" where
  "test_finish s =
     (let d = mt_desktop s;
          d = d \<lparr> td_keyboard := keyboard_dispatch_reset (keyboard_dispatch_set_sink (td_keyboard d) None),
                  td_world := wm_terminal_window_dispatch_reset (td_world d),
                  td_wm := snd (wm_compositor_reset (td_wm d) 0x00161c26) \<rparr>
      in s \<lparr> mt_desktop := d, mt_keyboard := keyboard_reset (mt_keyboard s) \<rparr>)"

text \<open>The status, the marker written to \<open>*out_marker\<close> and the state after the test.\<close>

definition multi_terminal_test_run :: "terminal_test \<Rightarrow> (int \<times> u32 \<times> terminal_test) option" where
  "multi_terminal_test_run s = do {
     s \<leftarrow> test_setup s;
     (ok, s) \<leftarrow> run_test test_steps s;
     let (marker, s) = (if ok then test_marker s else (0, s));
     Some (if ok then 0 else - 1, marker, test_finish s)
   }"

subsection \<open>Sessions that run the two lines\<close>

lemma hash_text_path [simp]: "ts_path_state (ts_hash_text t s) = ts_path_state s"
proof -
  have "ts_path_state (fold (\<lambda>c. ts_hash_byte (char_byte c)) t s) = ts_path_state s"
    by (induction t arbitrary: s) (simp_all add: ts_hash_byte_def)
  then show ?thesis
    by (simp add: ts_hash_text_def ts_hash_byte_def)
qed

lemma store_history_path [simp]: "ts_path_state (ts_store_history l s) = ts_path_state s"
  by (simp add: ts_store_history_def Let_def split: option.split)

definition enter_event :: keyboard_event where
  "enter_event = \<lparr> kev_type = KEYBOARD_EVENT_CONTROL, kev_scancode = 0x1c, kev_pressed = 1, kev_text = CHR 0x00, kev_control = 1 \<rparr>"

text \<open>The directory of the session after a line, from that after its command.\<close>

lemma enter_line:
  assumes "session_shows s executed p" "split_words p = argv" "argv \<noteq> []" "length argv \<le> 16"
    and "\<And>s1. ts_path_state s1 = ts_path_state s \<Longrightarrow> \<exists>s2. execute_command argv s1 = Some s2 \<and> ts_path_state s2 = ctx"
    and "ctx_wf ctx"
  shows "\<exists>s'. session_step s enter_event = Some s' \<and> session_shows s' (executed @ [p]) [] \<and> ts_path_state s' = ctx"
proof -
  have ent: "is_enter enter_event"
    by (simp add: is_enter_def enter_event_def KEYBOARD_CONTROL_ENTER_def)
  obtain r s' where s': "terminal_session_handle_event enter_event s = Some (r, s')" "session_shows s' (executed @ [p]) []"
    using handle_event_shows [OF assms(1), of enter_event] ent assms(2,3) by (auto simp: has_words_def)
  have p: "ts_input_buffer s = p" "length p < TERMINAL_SESSION_INPUT_CAP"
    using assms(1) by (simp_all add: session_shows_def)
  define s1 where "s1 = ts_hash_text p ((ts_store_history p s) \<lparr> ts_lines_executed := ts_lines_executed (ts_store_history p s) + 1 \<rparr>)"
  obtain s2 where s2: "execute_command argv s1 = Some s2" "ts_path_state s2 = ctx"
    using assms(5) [of s1] by (auto simp: s1_def)
  have "shell_parse_line p TERMINAL_ARGV_CAP = argv"
    using assms(2,4) by (simp add: shell_parse_line_words TERMINAL_ARGV_CAP_def)
  then have "terminal_session_execute_line p s = Some (0, s2 \<lparr> ts_cwd_cache := render True (cwd_names (ctx_tree ctx)) \<rparr>)"
    using assms(3) p(2) s2 refresh_runs [of s2] assms(6)
    by (simp add: terminal_session_execute_line_def ts_str_copy_def TERMINAL_SESSION_INPUT_CAP_def Let_def s1_def)
  then have "ts_path_state s' = ctx"
    using s'(1) p(1) s2(2) by (simp add: terminal_session_handle_event_def enter_event_def KEYBOARD_CONTROL_ENTER_def KEYBOARD_CONTROL_BACKSPACE_def)
      auto
  then show ?thesis
    using s' by (simp add: session_step_def)
qed

lemma enter_pwd:
  assumes "session_shows s executed ''pwd''"
  shows "\<exists>s'. session_step s enter_event = Some s' \<and> session_shows s' (executed @ [''pwd'']) [] \<and> ts_path_state s' = ts_path_state s"
proof (rule enter_line [OF assms, of "[''pwd'']"])
  show wf: "ctx_wf (ts_path_state s)"
    using assms by (simp add: session_shows_def)
  show "split_words ''pwd'' = [''pwd'']"
    by (simp add: split_words.simps is_space_def)
  show "\<exists>s2. execute_command [''pwd''] s1 = Some s2 \<and> ts_path_state s2 = ts_path_state s" if "ts_path_state s1 = ts_path_state s" for s1
    using that wf context_pwd_wf [OF wf] by (simp add: execute_command_def ts_str_eq_iff execute_pwd_def Let_def)
qed simp_all

lemma enter_cd:
  assumes "session_shows s executed ''cd /tmp''" "[''tmp''] \<in> dirs (ctx_tree (ts_path_state s))"
  shows "\<exists>s'. session_step s enter_event = Some s' \<and> session_shows s' (executed @ [''cd /tmp'']) [] \<and>
    cwd_names (ctx_tree (ts_path_state s')) = [''tmp'']"
proof -
  have wf: "ctx_wf (ts_path_state s)"
    using assms by (simp add: session_shows_def)
  define ctx where "ctx = ts_path_state s"
  note d = path_state_wfD [OF wf [unfolded ctx_wf_def]]
  have t: "target (ctx_tree ctx) ''/tmp'' = [''tmp'']" "path_fits (ctx_tree ctx) ''/tmp''" "c_string ''/tmp''"
    using target_top [of "ctx_tree ctx" "''tmp''"] d(2) by (simp_all add: ctx_def dir_name_def name_ok_def c_string_def)
  obtain j where j: "j < node_count (ctx_tree ctx)" "path_of (ctx_tree ctx) j = [''tmp'']"
    "fs_dir_cd (ctx_tree ctx) ''/tmp'' = Some (0, (ctx_tree ctx) \<lparr> cwd_index := int j \<rparr>)"
    using fs_dir_cd_wf [OF _ t(3), of "ctx_tree ctx"] d(2) t(1,2) assms(2) by (auto simp: ctx_def)
  define ctx' where "ctx' = ctx \<lparr> ctx_tree := (ctx_tree ctx) \<lparr> cwd_index := int j \<rparr> \<rparr>"
  have cd: "path_state_context_cd ctx (Some ''/tmp'') = Some (0, ctx')"
    using d(4) j(3) by (simp add: path_state_context_cd_def ctx_def ctx'_def)
  have wf': "ctx_wf ctx'"
    using context_cd_wf [OF wf t(3)] cd by (simp add: ctx_def)
  have n: "cwd_names (ctx_tree ctx') = [''tmp'']"
    using j(2) by (simp add: ctx'_def cwd_names_def)
  have "\<exists>s'. session_step s enter_event = Some s' \<and> session_shows s' (executed @ [''cd /tmp'']) [] \<and> ts_path_state s' = ctx'"
  proof (rule enter_line [OF assms(1), of "[''cd'', ''/tmp'']"])
    show "split_words ''cd /tmp'' = [''cd'', ''/tmp'']"
      by (simp add: split_words.simps is_space_def)
    show "\<exists>s2. execute_command [''cd'', ''/tmp''] s1 = Some s2 \<and> ts_path_state s2 = ctx'" if "ts_path_state s1 = ts_path_state s" for s1
      using that cd by (simp add: execute_command_def ts_str_eq_iff execute_cd_def ctx_def Let_def)
  qed (simp_all add: wf')
  then show ?thesis
    using n by auto
qed

subsection \<open>Typing into the active terminal\<close>

text \<open>The table of the test is the inverse of the keyboard driver's.\<close>

lemma scancode_decodes:
  assumes "scancode_for_char c \<noteq> 0"
  shows "scancode_for_char c \<notin> {0xe0, 0x2a, 0xaa, 0x36, 0xb6}" "\<not> bit (scancode_for_char c) 7"
    "key_entries False (scancode_for_char c) w = [(\<lparr> kev_type = KEYBOARD_EVENT_TEXT, kev_scancode = scancode_for_char c,
       kev_pressed = 1, kev_text = c, kev_control = 0 \<rparr>, w)]" "of_char c \<in> {0x20 :: nat..0x7e}"
proof -
  have "(c, scancode_for_char c) \<in> set scancode_table"
    using assms by (auto simp: scancode_for_char_def split: option.splits dest: map_of_SomeD)
  moreover have "\<forall>(c, x) \<in> set scancode_table. x \<notin> {0xe0, 0x2a, 0xaa, 0x36, 0xb6} \<and> \<not> bit x 7 \<and> of_char c \<in> {0x20 :: nat..0x7e} \<and>
      key_entries False x w = [(\<lparr> kev_type = KEYBOARD_EVENT_TEXT, kev_scancode = x, kev_pressed = 1, kev_text = c, kev_control = 0 \<rparr>, w)]"
    by (simp add: scancode_table_def key_entries_def keyboard_control_for_scancode_def printable_table_def)
  ultimately show "scancode_for_char c \<notin> {0xe0, 0x2a, 0xaa, 0x36, 0xb6}" "\<not> bit (scancode_for_char c) 7"
    "key_entries False (scancode_for_char c) w = [(\<lparr> kev_type = KEYBOARD_EVENT_TEXT, kev_scancode = scancode_for_char c,
       kev_pressed = 1, kev_text = c, kev_control = 0 \<rparr>, w)]" "of_char c \<in> {0x20 :: nat..0x7e}"
    by auto
qed

text \<open>
  Between two keys: the keyboard is idle, both tables lead from the two windows to their sessions, which
  are those of \<open>ss\<close>, and the window \<open>a\<close> is active.
\<close>

definition both :: "win_ref set" where
  "both = {LEFT_TERMINAL, RIGHT_TERMINAL}"

definition mt_inv :: "(win_ref \<Rightarrow> terminal_session) \<Rightarrow> terminal_test \<Rightarrow> bool" where
  "mt_inv ss s \<longleftrightarrow> (let d = mt_desktop s; w = td_world d in
     keyboard_idle (mt_keyboard s) \<and> kbd_wf (td_keyboard d) \<and> sink (td_keyboard d) = Some terminal_sink \<and> terminals_wf w \<and>
     (\<forall>t \<in> both. key_terminal (td_keyboard d) w (Some t) = Some t \<and> session_of w t = ss t \<and> session_ok (ss t)) \<and>
     tw_owner_task_id (term_windows w LEFT_TERMINAL) = 101 \<and> tw_owner_task_id (term_windows w RIGHT_TERMINAL) = 202)"

definition mt_wm :: "terminal_test \<Rightarrow> wm_state" where
  "mt_wm s = td_wm (mt_desktop s)"

lemma emit_key:
  assumes "mt_inv ss s" "a \<in> both" "active_window (mt_wm s) = Some a" "session_step (ss a) event = Some x"
    and "c \<noteq> 0" "c \<notin> {0xe0, 0x2a, 0xaa, 0x36, 0xb6}" "\<not> bit c 7" "key_entries False c (Some a) = [(event, Some a)]"
  shows "\<exists>s'. emit_scancode c s = Some (0, s') \<and> mt_inv (ss(a := x)) s' \<and> mt_wm s' = mt_wm s"
proof -
  let ?d = "mt_desktop s"
  let ?w = "td_world ?d"
  have i: "keyboard_idle (mt_keyboard s)" "kbd_wf (td_keyboard ?d)" "sink (td_keyboard ?d) = Some terminal_sink" "terminals_wf ?w"
    "\<And>t. t \<in> both \<Longrightarrow> key_terminal (td_keyboard ?d) ?w (Some t) = Some t \<and> session_of ?w t = ss t \<and> session_ok (ss t)"
    "tw_owner_task_id (term_windows ?w LEFT_TERMINAL) = 101" "tw_owner_task_id (term_windows ?w RIGHT_TERMINAL) = 202"
    using assms(1) by (simp_all add: mt_inv_def Let_def)
  obtain e where e: "endpoints (td_keyboard ?d) a = Some e" "terminal_of ?w e = Some a"
    using i(5) [OF assms(2)] by (auto simp: key_terminal_def split: option.splits)
  define w' where "w' = ?w \<lparr> term_windows := (term_windows ?w)(a := (term_windows ?w a) \<lparr> tw_session := x \<rparr>) \<rparr>"
  have sink: "terminal_sink e event (Some ?w) = Some w'"
    using e(2) assms(4) i(5) [OF assms(2)] by (simp add: terminal_sink_def dispatch_event_unfold [OF i(4)] session_of_def w'_def)
  obtain kb1 kb2 where k: "keyboard_handle_scancode (td_wm ?d) (mt_keyboard s) c = (0, kb1)"
    "keyboard_dispatch_pending (td_keyboard ?d) kb1 (Some ?w) = Some (1, kb2, Some w')" "keyboard_idle kb2"
    using press_and_dispatch [OF i(1-3) assms(6,7), of "td_wm ?d" event "Some a" "Some ?w"] assms(3,8) e(1) sink by (auto simp: mt_wm_def)
  have "session_ok x"
    using session_step_ok [of "ss a" event] i(5) [OF assms(2)] assms(4) by auto
  moreover have "terminals_wf w'" "terminal_of w' = terminal_of ?w"
    using i(4) by (simp_all add: w'_def terminals_wf_def terminal_of_def fun_eq_iff)
  ultimately have "mt_inv (ss(a := x)) (s \<lparr> mt_keyboard := kb2, mt_desktop := ?d \<lparr> td_world := w' \<rparr> \<rparr>)"
    using i k(3) by (auto simp: mt_inv_def Let_def key_terminal_def session_of_def w'_def cong: option.case_cong)
  then show ?thesis
    using assms(5) k(1,2) by (auto simp: emit_scancode_def Let_def mt_wm_def)
qed

lemma emit_letters:
  assumes "mt_inv ss s" "a \<in> both" "active_window (mt_wm s) = Some a" "\<forall>c \<in> set str. scancode_for_char c \<noteq> 0"
    and "length (ts_input_buffer (ss a)) + length str < 128"
  shows "\<exists>s'. emit_text str s = Some (0, s') \<and>
    mt_inv (ss(a := (ss a) \<lparr> ts_input_buffer := ts_input_buffer (ss a) @ str \<rparr>)) s' \<and> mt_wm s' = mt_wm s"
  using assms
proof (induction str arbitrary: ss s)
  case (Cons c str)
  let ?x = "(ss a) \<lparr> ts_input_buffer := ts_input_buffer (ss a) @ [c] \<rparr>"
  note k = scancode_decodes [of c] and c = Cons.prems(4) [THEN bspec, of c, simplified]
  let ?e = "\<lparr> kev_type = KEYBOARD_EVENT_TEXT, kev_scancode = scancode_for_char c, kev_pressed = 1, kev_text = c, kev_control = 0 \<rparr>"
  have "session_step (ss a) ?e = Some ?x"
    using k(4) [OF c] Cons.prems(5) by (auto simp: session_step_def terminal_session_handle_event_def TERMINAL_SESSION_INPUT_CAP_def)
  from emit_key [OF Cons.prems(1-3) this c k(1,2) [OF c] k(3) [OF c]]
  obtain s1 where s1: "emit_scancode (scancode_for_char c) s = Some (0, s1)" "mt_inv (ss(a := ?x)) s1" "mt_wm s1 = mt_wm s"
    by blast
  have p: "active_window (mt_wm s1) = Some a" "\<forall>c \<in> set str. scancode_for_char c \<noteq> 0" "length (ts_input_buffer ?x) + length str < 128"
    using s1(3) Cons.prems(3-5) by simp_all
  obtain s2 where s2: "emit_text str s1 = Some (0, s2)" "mt_inv (ss(a := ?x \<lparr> ts_input_buffer := ts_input_buffer ?x @ str \<rparr>)) s2"
    "mt_wm s2 = mt_wm s1"
    using Cons.IH [OF s1(2) Cons.prems(2), unfolded fun_upd_same fun_upd_upd, OF p] by blast
  have "emit_text (c # str) s = Some (0, s2)" "mt_wm s2 = mt_wm s"
    using s1 s2 by simp_all
  moreover have "?x \<lparr> ts_input_buffer := ts_input_buffer ?x @ str \<rparr> = (ss a) \<lparr> ts_input_buffer := ts_input_buffer (ss a) @ c # str \<rparr>"
    by simp
  ultimately show ?case
    using s2(2) by metis
qed simp

declare emit_text.simps [simp del]

lemma emit_enter_key:
  assumes "mt_inv ss s" "a \<in> both" "active_window (mt_wm s) = Some a" "session_step (ss a) enter_event = Some x"
  shows "\<exists>s'. emit_enter s = Some (0, s') \<and> mt_inv (ss(a := x)) s' \<and> mt_wm s' = mt_wm s"
  unfolding emit_enter_def
  by (rule emit_key [OF assms]) (simp_all add: enter_event_def key_entries_def keyboard_control_for_scancode_def KEYBOARD_CONTROL_ENTER_def)

subsection \<open>The two terminals\<close>

lemma both_terms [simp]: "LEFT_TERMINAL \<in> both" "RIGHT_TERMINAL \<in> both" "LEFT_TERMINAL \<noteq> RIGHT_TERMINAL" "RIGHT_TERMINAL \<noteq> LEFT_TERMINAL"
  by (simp_all add: both_def LEFT_TERMINAL_def RIGHT_TERMINAL_def)

lemma register_terminals:
  assumes "w0 = wm_terminal_window_dispatch_reset w" "a \<noteq> b" "i \<noteq> j" "i \<noteq> 0" "j \<noteq> 0"
    and "ts_endpoint_id (session_of w a) = i" "ts_endpoint_id (session_of w b) = j"
  shows "\<exists>w1 w2. register_terminal_window w0 (Some a) = (0, w1) \<and> register_terminal_window w1 (Some b) = (0, w2) \<and>
    find_binding_by_window w0 (Some a) = None \<and> find_binding_by_window w1 (Some b) = None \<and> term_windows w1 = term_windows w \<and>
    term_windows w2 = term_windows w \<and> terminals_wf w2 \<and> terminal_of w2 i = Some a \<and> terminal_of w2 j = Some b"
  using assms(2-7)
  by (simp add: assms(1) wm_terminal_window_dispatch_reset_def register_terminal_window_def find_binding_by_window_def
      find_binding_by_endpoint_def find_index_from.simps terminal_session_endpoint_id_def session_of_def terminals_wf_def terminal_of_def
      WM_MAX_WINDOWS_def take_Suc_conv_app_nth)

text \<open>A session as it is initialised.\<close>

definition fresh :: "terminal_session \<Rightarrow> bool" where
  "fresh s \<longleftrightarrow> session_shows s [] [] \<and> cwd_names (ctx_tree (ts_path_state s)) = [] \<and> [''tmp''] \<in> dirs (ctx_tree (ts_path_state s))"

lemma session_fresh:
  assumes "e \<noteq> 0"
  shows "\<exists>s'. terminal_session_init e w s = Some s' \<and> fresh s' \<and> ts_endpoint_id s' = e"
proof -
  obtain s' where s': "terminal_session_init e w s = Some s'" "ts_endpoint_id s' = e" "session_shows s' [] []"
    using session_init_shows [OF assms] by blast
  obtain ctx where ctx: "path_state_context_pwd (path_state_context_init (ts_path_state s)) FS_PATH_MAX = Some (Some ''/'', ctx)"
    "cwd_names (ctx_tree ctx) = []" "dirs (ctx_tree ctx) = {[], [''etc''], [''home''], [''tmp'']}"
    using context_init_dirs [of "ts_path_state s"] by blast
  have "ts_path_state s' = ctx"
    using s'(1) ctx(1) assms by (auto simp: terminal_session_init_def ts_refresh_cwd_cache_def ts_hash_u32_def ts_hash_byte_def Let_def)
  then show ?thesis
    using s' ctx(2,3) by (simp add: fresh_def)
qed

definition mt_scene :: "terminal_test \<Rightarrow> bool" where
  "mt_scene s \<longleftrightarrow> (\<exists>ws. scene_is 0x0011171f ws (mt_wm s) \<and> set ws = both)"

lemma terminal_frames_valid:
  "wm_window_is_valid (Some (wm_window_init n 28 28 236 156 \<lparr> style := (style (wm_window_init n 28 28 236 156))
     \<lparr> title_bar_color := c1, content_color := c2 \<rparr> \<rparr>))"
  "wm_window_is_valid (Some (wm_window_init n 108 76 236 156 \<lparr> style := (style (wm_window_init n 108 76 236 156))
     \<lparr> title_bar_color := c1, content_color := c2 \<rparr> \<rparr>))"
  by (simp_all add: wm_window_is_valid_def wm_window_title_bar_rect_def wm_window_content_rect_def wm_window_init_def Let_def
      effective_border_def min_u32_def safe_sub_u32_def saturating_add_u32_def WM_DEFAULT_BORDER_THICKNESS_def
      WM_DEFAULT_TITLE_BAR_HEIGHT_def) (simp_all add: word_le_nat_alt)

lemma setup_and_attach:
  assumes "length (kb_events (mt_keyboard s)) = KEYBOARD_EVENT_QUEUE_CAPACITY"
  shows "\<exists>s0 s1 s2 ss. test_setup s = Some s0 \<and> attach LEFT_TERMINAL s0 = Some (0, s1) \<and> attach RIGHT_TERMINAL s1 = Some (0, s2) \<and>
    mt_inv ss s2 \<and> mt_scene s2 \<and> fresh (ss LEFT_TERMINAL) \<and> fresh (ss RIGHT_TERMINAL)"
proof -
  define d where "d = (mt_desktop s)
    \<lparr> td_keyboard := keyboard_dispatch_set_sink (keyboard_dispatch_reset (td_keyboard (mt_desktop s))) (Some terminal_sink),
      td_world := wm_terminal_window_dispatch_reset (td_world (mt_desktop s)),
      td_wm := snd (wm_compositor_reset (td_wm (mt_desktop s)) 0x0011171f) \<rparr>"
  obtain sl where sl: "terminal_session_init 1 (Some LEFT_TERMINAL) (session_of (td_world d) LEFT_TERMINAL) = Some sl" "fresh sl"
    "ts_endpoint_id sl = 1"
    using session_fresh [of 1] by auto
  obtain sr where sr: "terminal_session_init 2 (Some RIGHT_TERMINAL) (session_of (td_world d) RIGHT_TERMINAL) = Some sr" "fresh sr"
    "ts_endpoint_id sr = 2"
    using session_fresh [of 2] by auto
  define w where "w = (td_world (mt_desktop s)) \<lparr> term_windows := (term_windows (td_world (mt_desktop s)))
    (LEFT_TERMINAL := \<lparr> tw_session = sl, tw_owner_task_id = 101 \<rparr>, RIGHT_TERMINAL := \<lparr> tw_session = sr, tw_owner_task_id = 202 \<rparr>) \<rparr>"
  define lw where "lw = wm_window_init (Some ''term-left'') 28 28 236 156"
  define rw where "rw = wm_window_init (Some ''term-right'') 108 76 236 156"
  define h where "h = (td_heap d)(LEFT_TERMINAL := lw \<lparr> style := (style lw) \<lparr> title_bar_color := 0x003a4b69, content_color := 0x00f4f7fc \<rparr> \<rparr>,
    RIGHT_TERMINAL := rw \<lparr> style := (style rw) \<lparr> title_bar_color := 0x003a4b69, content_color := 0x00f4f7fc \<rparr> \<rparr>)"
  define w0 where "w0 = wm_terminal_window_dispatch_reset w"
  define s0 where "s0 = s \<lparr> mt_keyboard := keyboard_reset (mt_keyboard s), mt_desktop := d \<lparr> td_heap := h, td_world := w0 \<rparr> \<rparr>"
  have dw: "td_world d = wm_terminal_window_dispatch_reset (td_world (mt_desktop s))"
    by (simp add: d_def)
  have prep: "test_setup s = Some s0"
    unfolding test_setup_def Let_def d_def [symmetric]
    using sl(1) sr(1) by (simp add: wm_terminal_window_init_def Let_def session_of_def lw_def [symmetric] rw_def [symmetric] s0_def h_def w0_def w_def
        dw wm_terminal_window_dispatch_reset_def)
  have v: "wm_window_is_valid (Some (h LEFT_TERMINAL))" "wm_window_is_valid (Some (h RIGHT_TERMINAL))"
    using terminal_frames_valid by (simp_all add: h_def lw_def rw_def)
  have ss: "session_of w LEFT_TERMINAL = sl" "session_of w RIGHT_TERMINAL = sr"
    by (simp_all add: w_def session_of_def)
  obtain w1 w2 where w: "register_terminal_window w0 (Some LEFT_TERMINAL) = (0, w1)" "register_terminal_window w1 (Some RIGHT_TERMINAL) = (0, w2)"
    "find_binding_by_window w0 (Some LEFT_TERMINAL) = None" "find_binding_by_window w1 (Some RIGHT_TERMINAL) = None" "term_windows w1 = term_windows w"
    "term_windows w2 = term_windows w" "terminals_wf w2" "terminal_of w2 1 = Some LEFT_TERMINAL" "terminal_of w2 2 = Some RIGHT_TERMINAL"
    using register_terminals [OF w0_def, of LEFT_TERMINAL RIGHT_TERMINAL 1 2] ss sl(3) sr(3) by auto
  have kd: "td_keyboard d = keyboard_dispatch_set_sink (keyboard_dispatch_reset (td_keyboard (mt_desktop s))) (Some terminal_sink)"
    by (simp add: d_def)
  obtain e1 e2 where e: "keyboard_dispatch_register_window (td_keyboard d) (Some LEFT_TERMINAL) 1 = (0, e1)"
    "keyboard_dispatch_register_window e1 (Some RIGHT_TERMINAL) 2 = (0, e2)" "kbd_wf e2" "sink e2 = Some terminal_sink"
    "endpoints e2 RIGHT_TERMINAL = Some 2" "endpoints e2 LEFT_TERMINAL = Some 1"
    using register_two [OF kd, of LEFT_TERMINAL RIGHT_TERMINAL 1 2] by auto
  have m0: "scene_is 0x0011171f [] (td_wm d)"
    using scene_reset by (simp add: d_def)
  obtain m1 where m1: "wm_compositor_add_window h (td_wm d) (Some LEFT_TERMINAL) = (0, m1)" "scene_is 0x0011171f [LEFT_TERMINAL] m1"
    using scene_add [OF m0, of h LEFT_TERMINAL] v by (auto simp: WM_MAX_WINDOWS_def)
  obtain m2 where m2: "wm_compositor_add_window h m1 (Some RIGHT_TERMINAL) = (0, m2)" "scene_is 0x0011171f [LEFT_TERMINAL, RIGHT_TERMINAL] m2"
    using scene_add [OF m1(2), of h RIGHT_TERMINAL] v by (auto simp: WM_MAX_WINDOWS_def)
  define s1 where "s1 = s0 \<lparr> mt_desktop := (mt_desktop s0) \<lparr> td_world := w1, td_wm := m1, td_keyboard := e1 \<rparr> \<rparr>"
  define s2 where "s2 = s1 \<lparr> mt_desktop := (mt_desktop s1) \<lparr> td_world := w2, td_wm := m2, td_keyboard := e2 \<rparr> \<rparr>"
  have "tw_session (term_windows w LEFT_TERMINAL) = sl" "tw_session (term_windows w RIGHT_TERMINAL) = sr"
    using ss by (simp_all add: session_of_def)
  then have a: "attach LEFT_TERMINAL s0 = Some (0, s1)" "attach RIGHT_TERMINAL s1 = Some (0, s2)"
    using w(1-6) e(1,2) m1(1) m2(1) sl(3) sr(3)
    by (simp_all add: attach_def wm_terminal_window_attach_def s0_def s1_def s2_def Let_def terminal_session_endpoint_id_def)
  have "keyboard_idle (mt_keyboard s2)"
    using reset_idle [OF assms] by (simp add: s2_def s1_def s0_def)
  moreover have "session_ok sl" "session_ok sr"
    using sl(2) sr(2) by (auto simp: fresh_def session_ok_def)
  ultimately have "mt_inv (session_of w) s2"
    using w(6-9) e(3-6) ss by (auto simp: mt_inv_def s2_def s1_def s0_def Let_def both_def key_terminal_def session_of_def w_def)
  moreover have "mt_scene s2"
    using m2(2) by (auto simp: mt_scene_def mt_wm_def s2_def both_def)
  ultimately show ?thesis
    using prep a sl(2) sr(2) ss by auto
qed

lemma mt_str_eq_iff: "mt_str_eq a b \<longleftrightarrow> a = b"
  by (induction a b rule: mt_str_eq.induct) auto

lemma activate_step:
  assumes "mt_inv ss s" "mt_scene s" "a \<in> both"
  shows "\<exists>s'. activate a s = Some (0, s') \<and> mt_inv ss s' \<and> mt_scene s' \<and> active_window (mt_wm s') = Some a"
proof -
  obtain ws where ws: "scene_is 0x0011171f ws (mt_wm s)" "set ws = both"
    using assms(2) by (auto simp: mt_scene_def)
  then obtain wm where wm: "wm_compositor_activate_window (mt_wm s) (Some a) = (0, wm)" "scene_is 0x0011171f (removeAll a ws @ [a]) wm"
    "active_window wm = Some a"
    using scene_activate [OF ws(1), of a] assms(3) by auto
  have "set (removeAll a ws @ [a]) = both"
    using ws(2) assms(3) by auto
  then have "mt_scene (s \<lparr> mt_desktop := (mt_desktop s) \<lparr> td_wm := wm \<rparr> \<rparr>)"
    unfolding mt_scene_def mt_wm_def using wm(2) by auto
  then show ?thesis
    using wm assms(1) by (simp add: activate_def wm_terminal_window_native_def mt_wm_def mt_inv_def Let_def)
qed

lemma check_step:
  assumes "P (td_world (mt_desktop s))"
  shows "run_test (check P # fs) s = run_test fs s"
  using assms by (simp add: check_def)

lemma accessors:
  assumes "mt_inv ss s" "t \<in> both"
  shows "wm_terminal_window_input_len (td_world (mt_desktop s)) (Some t) = word_of_nat (length (ts_input_buffer (ss t)))"
    "wm_terminal_window_history_count (td_world (mt_desktop s)) (Some t) = word_of_nat (ts_history_count (ss t))"
    "wm_terminal_window_lines_executed (td_world (mt_desktop s)) (Some t) = ts_lines_executed (ss t)"
    "wm_terminal_window_cwd (td_world (mt_desktop s)) (Some t) = ts_cwd_cache (ss t)"
  using assms by (simp_all add: mt_inv_def Let_def wm_terminal_window_input_len_def wm_terminal_window_history_count_def
      wm_terminal_window_lines_executed_def wm_terminal_window_cwd_def tw_session_of_def session_of_def terminal_session_input_len_def
      terminal_session_history_count_def terminal_session_lines_executed_def terminal_session_cwd_def)

lemma owners:
  "mt_inv ss s \<Longrightarrow> wm_terminal_window_owner_task (td_world (mt_desktop s)) (Some LEFT_TERMINAL) = 101 \<and>
     wm_terminal_window_owner_task (td_world (mt_desktop s)) (Some RIGHT_TERMINAL) = 202"
  by (simp add: mt_inv_def Let_def wm_terminal_window_owner_task_def)

lemma shows_typed:
  "session_shows s executed [] \<Longrightarrow> c_string p \<Longrightarrow> length p < 128 \<Longrightarrow> session_shows (s \<lparr> ts_input_buffer := p \<rparr>) executed p"
  by (simp add: session_shows_def TERMINAL_SESSION_INPUT_CAP_def)

text \<open>Typing into the active terminal.\<close>

lemma type_letters:
  assumes "mt_inv ss s" "mt_scene s" "a \<in> both" "active_window (mt_wm s) = Some a" "\<forall>c \<in> set str. scancode_for_char c \<noteq> 0"
    and "length (ts_input_buffer (ss a)) + length str < 128"
    and "x = (ss a) \<lparr> ts_input_buffer := ts_input_buffer (ss a) @ str \<rparr>"
  shows "\<exists>s'. emit_text str s = Some (0, s') \<and> mt_inv (ss(a := x)) s' \<and> mt_scene s' \<and> active_window (mt_wm s') = Some a"
  using emit_letters [OF assms(1,3,4,5,6)] assms(2,4) unfolding assms(7) mt_scene_def by metis

lemma type_enter:
  assumes "mt_inv ss s" "mt_scene s" "a \<in> both" "active_window (mt_wm s) = Some a" "session_step (ss a) enter_event = Some x"
  shows "\<exists>s'. emit_enter s = Some (0, s') \<and> mt_inv (ss(a := x)) s' \<and> mt_scene s' \<and> active_window (mt_wm s') = Some a"
  using emit_enter_key [OF assms(1,3,4,5)] assms(2,4) unfolding mt_scene_def by metis

lemma type_pwd:
  assumes "mt_inv ss s" "mt_scene s" "a \<in> both" "active_window (mt_wm s) = Some a" "session_shows (ss a) executed []"
  shows "\<exists>s1 s2 x. emit_text ''pwd'' s = Some (0, s1) \<and> emit_enter s1 = Some (0, s2) \<and> mt_inv (ss(a := x)) s2 \<and> mt_scene s2 \<and>
    active_window (mt_wm s2) = Some a \<and> session_shows x (executed @ [''pwd'']) [] \<and> ts_path_state x = ts_path_state (ss a)"
proof -
  let ?y = "(ss a) \<lparr> ts_input_buffer := ''pwd'' \<rparr>"
  have b: "?y = (ss a) \<lparr> ts_input_buffer := ts_input_buffer (ss a) @ ''pwd'' \<rparr>" "length (ts_input_buffer (ss a)) + length ''pwd'' < 128"
    using assms(5) by (simp_all add: session_shows_def)
  have "\<forall>c \<in> set ''pwd''. scancode_for_char c \<noteq> 0"
    by (simp add: scancode_for_char_def scancode_table_def)
  from type_letters [OF assms(1-4) this b(2,1)]
  obtain s1 where s1: "emit_text ''pwd'' s = Some (0, s1)" "mt_inv (ss(a := ?y)) s1" "mt_scene s1" "active_window (mt_wm s1) = Some a"
    by blast
  have "session_shows ?y executed ''pwd''"
    by (rule shows_typed [OF assms(5)]) (simp_all add: c_string_def)
  from enter_pwd [OF this] obtain x where x: "session_step ?y enter_event = Some x" "session_shows x (executed @ [''pwd'']) []"
    "ts_path_state x = ts_path_state (ss a)"
    by auto
  show ?thesis
    using type_enter [OF s1(2,3) assms(3) s1(4), unfolded fun_upd_same fun_upd_upd, OF x(1)] s1(1) x(2,3) by blast
qed

text \<open>The second half of the line that changes the directory.\<close>

lemma type_cd:
  assumes "mt_inv ss s" "mt_scene s" "a \<in> both" "active_window (mt_wm s) = Some a" "session_shows (ss a) executed ''cd /t''"
    and "[''tmp''] \<in> dirs (ctx_tree (ts_path_state (ss a)))"
  shows "\<exists>s1 s2 x. emit_text ''mp'' s = Some (0, s1) \<and> emit_enter s1 = Some (0, s2) \<and> mt_inv (ss(a := x)) s2 \<and> mt_scene s2 \<and>
    active_window (mt_wm s2) = Some a \<and> session_shows x (executed @ [''cd /tmp'']) [] \<and>
    cwd_names (ctx_tree (ts_path_state x)) = [''tmp'']"
proof -
  let ?y = "(ss a) \<lparr> ts_input_buffer := ''cd /tmp'' \<rparr>"
  have b: "?y = (ss a) \<lparr> ts_input_buffer := ts_input_buffer (ss a) @ ''mp'' \<rparr>" "length (ts_input_buffer (ss a)) + length ''mp'' < 128"
    using assms(5) by (simp_all add: session_shows_def)
  have "\<forall>c \<in> set ''mp''. scancode_for_char c \<noteq> 0"
    by (simp add: scancode_for_char_def scancode_table_def)
  from type_letters [OF assms(1-4) this b(2,1)]
  obtain s1 where s1: "emit_text ''mp'' s = Some (0, s1)" "mt_inv (ss(a := ?y)) s1" "mt_scene s1" "active_window (mt_wm s1) = Some a"
    by blast
  have "session_shows ?y executed ''cd /tmp''"
    using assms(5) by (simp add: session_shows_def c_string_def TERMINAL_SESSION_INPUT_CAP_def)
  from enter_cd [OF this] obtain x where x: "session_step ?y enter_event = Some x" "session_shows x (executed @ [''cd /tmp'']) []"
    "cwd_names (ctx_tree (ts_path_state x)) = [''tmp'']"
    using assms(6) by auto
  show ?thesis
    using type_enter [OF s1(2,3) assms(3) s1(4), unfolded fun_upd_same fun_upd_upd, OF x(1)] s1(1) x(2,3) by blast
qed

text \<open>What the checks read of a session.\<close>

lemma session_reads:
  assumes "session_shows x executed p" "length executed < 8"
  shows "ts_input_buffer x = p" "ts_history_count x = length executed" "ts_lines_executed x = word_of_nat (length executed)"
    "ts_cwd_cache x = render True (cwd_names (ctx_tree (ts_path_state x)))"
  using assms by (simp_all add: session_shows_def TERMINAL_SESSION_HISTORY_CAP_def)

lemma multi_terminal_passes:
  assumes "length (kb_events (mt_keyboard s)) = KEYBOARD_EVENT_QUEUE_CAPACITY"
  shows "\<exists>marker s'. multi_terminal_test_run s = Some (0, marker, s')"
proof -
  obtain s0 s1 s2 ss where r: "test_setup s = Some s0" "attach LEFT_TERMINAL s0 = Some (0, s1)" "attach RIGHT_TERMINAL s1 = Some (0, s2)"
    and i2: "mt_inv ss s2" "mt_scene s2" and f: "fresh (ss LEFT_TERMINAL)" "fresh (ss RIGHT_TERMINAL)"
    using setup_and_attach [OF assms] by blast
  note fl = f(1) [unfolded fresh_def] and fr = f(2) [unfolded fresh_def]
  have bl: "ts_input_buffer (ss LEFT_TERMINAL) = []"
    using fl by (simp add: session_shows_def)
  define l1 where "l1 = (ss LEFT_TERMINAL) \<lparr> ts_input_buffer := ''cd /t'' \<rparr>"
  have l1: "l1 = (ss LEFT_TERMINAL) \<lparr> ts_input_buffer := ts_input_buffer (ss LEFT_TERMINAL) @ ''cd /t'' \<rparr>"
    "length (ts_input_buffer (ss LEFT_TERMINAL)) + length ''cd /t'' < 128" "session_shows l1 [] ''cd /t''"
    "[''tmp''] \<in> dirs (ctx_tree (ts_path_state l1))"
    using bl fl shows_typed [of "ss LEFT_TERMINAL" "[]" "''cd /t''"] by (simp_all add: l1_def c_string_def)
  have sc: "\<forall>c \<in> set ''cd /t''. scancode_for_char c \<noteq> 0"
    by (simp add: scancode_for_char_def scancode_table_def)
  obtain s3 where s3: "activate LEFT_TERMINAL s2 = Some (0, s3)" "mt_inv ss s3" "mt_scene s3" "active_window (mt_wm s3) = Some LEFT_TERMINAL"
    using activate_step [OF i2 both_terms(1)] by blast
  obtain s4 where s4: "emit_text ''cd /t'' s3 = Some (0, s4)" "mt_inv (ss(LEFT_TERMINAL := l1)) s4" "mt_scene s4"
    using type_letters [OF s3(2,3) both_terms(1) s3(4) sc l1(2,1)] by blast
  obtain s5 where s5: "activate RIGHT_TERMINAL s4 = Some (0, s5)" "mt_inv (ss(LEFT_TERMINAL := l1)) s5" "mt_scene s5"
    "active_window (mt_wm s5) = Some RIGHT_TERMINAL"
    using activate_step [OF s4(2,3) both_terms(2)] by blast
  obtain s6 s7 r1 where s7: "emit_text ''pwd'' s5 = Some (0, s6)" "emit_enter s6 = Some (0, s7)"
    "mt_inv (ss(LEFT_TERMINAL := l1, RIGHT_TERMINAL := r1)) s7" "mt_scene s7" "session_shows r1 [''pwd''] []"
    "ts_path_state r1 = ts_path_state (ss RIGHT_TERMINAL)"
    using type_pwd [OF s5(2,3) both_terms(2) s5(4), of "[]"] fr by auto
  obtain s8 where s8: "activate LEFT_TERMINAL s7 = Some (0, s8)" "mt_inv (ss(LEFT_TERMINAL := l1, RIGHT_TERMINAL := r1)) s8" "mt_scene s8"
    "active_window (mt_wm s8) = Some LEFT_TERMINAL"
    using activate_step [OF s7(3,4) both_terms(1)] by blast
  obtain s9 s10 l2 where s10: "emit_text ''mp'' s8 = Some (0, s9)" "emit_enter s9 = Some (0, s10)"
    "mt_inv (ss(RIGHT_TERMINAL := r1, LEFT_TERMINAL := l2)) s10" "mt_scene s10" "active_window (mt_wm s10) = Some LEFT_TERMINAL"
    "session_shows l2 [''cd /tmp''] []" "cwd_names (ctx_tree (ts_path_state l2)) = [''tmp'']"
    using type_cd [OF s8(2,3) both_terms(1) s8(4), of "[]"] l1(3,4) by (auto simp: fun_upd_twist)
  obtain s11 s12 l3 where s12: "emit_text ''pwd'' s10 = Some (0, s11)" "emit_enter s11 = Some (0, s12)"
    "mt_inv (ss(RIGHT_TERMINAL := r1, LEFT_TERMINAL := l3)) s12" "mt_scene s12" "session_shows l3 [''cd /tmp'', ''pwd''] []"
    "ts_path_state l3 = ts_path_state l2"
    using type_pwd [OF s10(3,4) both_terms(1) s10(5), of "[''cd /tmp'']"] s10(6) by auto
  obtain s13 where s13: "activate RIGHT_TERMINAL s12 = Some (0, s13)" "mt_inv (ss(RIGHT_TERMINAL := r1, LEFT_TERMINAL := l3)) s13" "mt_scene s13"
    "active_window (mt_wm s13) = Some RIGHT_TERMINAL"
    using activate_step [OF s12(3,4) both_terms(2)] by blast
  obtain s14 s15 r2 where s15: "emit_text ''pwd'' s13 = Some (0, s14)" "emit_enter s14 = Some (0, s15)"
    "mt_inv (ss(LEFT_TERMINAL := l3, RIGHT_TERMINAL := r2)) s15" "session_shows r2 [''pwd'', ''pwd''] []"
    "ts_path_state r2 = ts_path_state r1"
    using type_pwd [OF s13(2,3) both_terms(2) s13(4), of "[''pwd'']"] s7(5) by (auto simp: fun_upd_twist)
  note a4 = accessors [OF s4(2) both_terms(1)] accessors [OF s4(2) both_terms(2)]
  note a7 = accessors [OF s7(3) both_terms(1)] accessors [OF s7(3) both_terms(2)]
  note a12 = accessors [OF s12(3) both_terms(1)]
  note a15 = accessors [OF s15(3) both_terms(1)] accessors [OF s15(3) both_terms(2)]
  note rl1 = session_reads [OF l1(3)] and rr1 = session_reads [OF s7(5)] and rl3 = session_reads [OF s12(5)] and rr2 = session_reads [OF s15(4)]
  have br: "ts_input_buffer (ss RIGHT_TERMINAL) = []"
    using fr by (simp add: session_shows_def)
  have cwd: "ts_cwd_cache r1 = ''/''" "ts_cwd_cache r2 = ''/''" "ts_cwd_cache l3 = ''/tmp''"
    using rr1(4) rr2(4) rl3(4) s7(6) s15(5) s12(6) s10(7) fr by (simp_all add: render_def)
  have "run_test test_steps s0 = Some (True, s15)"
    unfolding test_steps_def Let_def
    using r(2,3) s3(1) s4(1) s5(1) s7(1,2) s8(1) s10(1,2) s12(1,2) s13(1) s15(1,2)
    by (simp add: check_def mt_str_eq_iff a4 a7 a12 a15 cwd rl1 rr1 rl3 rr2 br owners [OF s15(3)])
  then show ?thesis
    using r(1) by (cases "test_marker s15") (simp add: multi_terminal_test_run_def)
qed

text \<open>
  C15: Terminals are isolated: from any state the self test returns 0. Keys typed while a window is active
  reach only its session: what was typed into the left terminal waits while lines are run in the right
  one, both count and keep their own lines, and changing the directory of one leaves that of the other.
\<close>

theorem multi_terminal_isolation:
  assumes "length (kb_events (mt_keyboard s)) = KEYBOARD_EVENT_QUEUE_CAPACITY"
  shows "\<exists>marker s'. multi_terminal_test_run s = Some (0, marker, s')"
  by (rule multi_terminal_passes [OF assms])

definition demo_test :: terminal_test where
  "demo_test = \<lparr> mt_desktop = demo_desktop, mt_keyboard = demo_keyboard, mt_fb = demo_fb \<rparr>"

theorem multi_terminal_isolation_witness: "\<exists>marker s'. multi_terminal_test_run demo_test = Some (0, marker, s')"
  by (rule multi_terminal_isolation) (simp add: demo_test_def demo_keyboard_def KEYBOARD_EVENT_QUEUE_CAPACITY_def)

end
