(* ===== verification/Uart.thy ===== *)
theory Uart
  imports Console
begin

unbundle bit_operations_syntax

text \<open>
  The UART driver (\<open>drivers/uart/uart.c\<close>) on the registers of the device, and that it implements the
  two byte sequences of the theory \<open>Console\<close>. The device is the 16550 as far as the driver uses it:
  line status, receive buffer and transmit register, and the divisor latch behind the same offset. When
  it is ready to transmit and when bytes arrive is arbitrary: \<open>dev_ready n\<close> and \<open>dev_arrivals n\<close> are
  the transmitter's state at the \<open>n\<close>th poll of the line status and the bytes that have come in since
  the poll before. They wait in \<open>dev_rx\<close> until they are read; turning the FIFOs on or off clears them, as does
  the reset bit of the FIFO control register. A byte given to the transmitter counts as sent. A loop that polls forever has
  the value \<open>None\<close>.
\<close>

definition UART_RBR :: nat where "UART_RBR = 0"
definition UART_THR :: nat where "UART_THR = 0"
definition UART_IER :: nat where "UART_IER = 1"
definition UART_FCR :: nat where "UART_FCR = 2"
definition UART_LCR :: nat where "UART_LCR = 3"
definition UART_LSR :: nat where "UART_LSR = 5"
definition LSR_DATA_READY :: u8 where "LSR_DATA_READY = 1"
definition LSR_TX_EMPTY :: u8 where "LSR_TX_EMPTY = 32"

lemmas uart_registers = UART_RBR_def UART_THR_def UART_IER_def UART_FCR_def UART_LCR_def UART_LSR_def

record uart_device =
  dev_rx :: "u8 list"
  dev_tx :: "u8 list"
  dev_divisor :: u8
  dev_ier :: u8
  dev_fcr :: u8
  dev_lcr :: u8
  dev_polls :: nat
  dev_ready :: "nat \<Rightarrow> bool"
  dev_arrivals :: "nat \<Rightarrow> u8 list"

definition latch_open :: "uart_device \<Rightarrow> bool" where
  "latch_open d \<longleftrightarrow> bit (dev_lcr d) 7"

definition uart_reg_write :: "nat \<Rightarrow> u8 \<Rightarrow> uart_device \<Rightarrow> uart_device" where
  "uart_reg_write offset value d =
     (if offset = UART_THR then
        if latch_open d then d \<lparr> dev_divisor := value \<rparr> else d \<lparr> dev_tx := dev_tx d @ [value] \<rparr>
      else if offset = UART_IER then if latch_open d then d else d \<lparr> dev_ier := value \<rparr>
      else if offset = UART_FCR then
        d \<lparr> dev_fcr := value, dev_rx := (if bit value 0 \<noteq> bit (dev_fcr d) 0 \<or> bit value 0 \<and> bit value 1 then [] else dev_rx d) \<rparr>
      else if offset = UART_LCR then d \<lparr> dev_lcr := value \<rparr>
      else d)"

definition poll :: "uart_device \<Rightarrow> u8 \<times> uart_device" where
  "poll d =
     (let rx = dev_rx d @ dev_arrivals d (dev_polls d);
          status = (if rx \<noteq> [] then LSR_DATA_READY else 0) OR (if dev_ready d (dev_polls d) then LSR_TX_EMPTY else 0)
      in (status, d \<lparr> dev_rx := rx, dev_polls := dev_polls d + 1 \<rparr>))"

definition uart_reg_read :: "nat \<Rightarrow> uart_device \<Rightarrow> u8 \<times> uart_device" where
  "uart_reg_read offset d =
     (if offset = UART_LSR then poll d
      else if offset = UART_RBR then
        if latch_open d then (dev_divisor d, d)
        else case dev_rx d of [] \<Rightarrow> (0, d) | b # bs \<Rightarrow> (b, d \<lparr> dev_rx := bs \<rparr>)
      else (0, d))"

definition uart_init :: "uart_device \<Rightarrow> uart_device" where
  "uart_init d =
     (let d = uart_reg_write UART_IER 0x00 d;
          d = uart_reg_write UART_LCR 0x80 d;
          d = uart_reg_write UART_RBR 0x03 d;
          d = uart_reg_write UART_IER 0x00 d;
          d = uart_reg_write UART_LCR 0x03 d
      in uart_reg_write UART_FCR 0x01 d)"

definition uart_can_read :: "uart_device \<Rightarrow> bool \<times> uart_device" where
  "uart_can_read d = (let (status, d) = uart_reg_read UART_LSR d in (status AND LSR_DATA_READY \<noteq> 0, d))"

partial_function (option) uart_wait_tx :: "uart_device \<Rightarrow> uart_device option" where
  "uart_wait_tx d =
     (case uart_reg_read UART_LSR d of
        (status, d) \<Rightarrow> if status AND LSR_TX_EMPTY = 0 then uart_wait_tx d else Some d)"

definition uart_write_byte :: "u8 \<Rightarrow> uart_device \<Rightarrow> uart_device option" where
  "uart_write_byte byte d = map_option (uart_reg_write UART_THR byte) (uart_wait_tx d)"

fun uart_write :: "string \<Rightarrow> uart_device \<Rightarrow> uart_device option" where
  "uart_write [] d = Some d"
| "uart_write (c # s) d = Option.bind (uart_write_byte (char_u8 c) d) (uart_write s)"

definition uart_read_byte_nonblocking :: "uart_device \<Rightarrow> u8 option \<times> uart_device" where
  "uart_read_byte_nonblocking d =
     (let (ready, d) = uart_can_read d in
      if \<not> ready then (None, d) else let (b, d) = uart_reg_read UART_RBR d in (Some b, d))"

partial_function (option) uart_wait_rx :: "uart_device \<Rightarrow> uart_device option" where
  "uart_wait_rx d = (case uart_can_read d of (ready, d) \<Rightarrow> if \<not> ready then uart_wait_rx d else Some d)"

definition uart_read_byte_blocking :: "uart_device \<Rightarrow> (u8 \<times> uart_device) option" where
  "uart_read_byte_blocking d = map_option (uart_reg_read UART_RBR) (uart_wait_rx d)"

definition uart_putc :: "char \<Rightarrow> uart_device \<Rightarrow> uart_device option" where
  "uart_putc c d = uart_write_byte (char_u8 c) d"

definition uart_puts :: "string \<Rightarrow> uart_device \<Rightarrow> uart_device option" where
  "uart_puts s d = uart_write s d"

text \<open>The console on the device (\<open>kernel/console.c\<close>).\<close>

definition device_putc :: "char \<Rightarrow> uart_device \<Rightarrow> uart_device option" where
  "device_putc c d =
     Option.bind (if c = newline then uart_write_byte (char_u8 carriage_return) d else Some d) (uart_write_byte (char_u8 c))"

fun device_write :: "string \<Rightarrow> uart_device \<Rightarrow> uart_device option" where
  "device_write [] d = Some d"
| "device_write (c # s) d = Option.bind (device_putc c d) (device_write s)"

subsection \<open>Polling\<close>

lemma reg_read_status: "uart_reg_read UART_LSR d = poll d"
  by (simp add: uart_reg_read_def)

lemma poll_bits:
  "poll d = (status, d') \<Longrightarrow> status AND LSR_TX_EMPTY = 0 \<longleftrightarrow> \<not> dev_ready d (dev_polls d)"
  "poll d = (status, d') \<Longrightarrow> status AND LSR_DATA_READY = 0 \<longleftrightarrow> dev_rx d @ dev_arrivals d (dev_polls d) = []"
  by (auto simp: poll_def Let_def LSR_DATA_READY_def LSR_TX_EMPTY_def split: if_splits)

text \<open>The device after \<open>n\<close> polls.\<close>

definition polled :: "nat \<Rightarrow> uart_device \<Rightarrow> uart_device" where
  "polled n d = d \<lparr> dev_rx := dev_rx d @ concat (map (dev_arrivals d) [dev_polls d..<dev_polls d + n]), dev_polls := dev_polls d + n \<rparr>"

lemma polled_zero [simp]: "polled 0 d = d"
  by (simp add: polled_def)

lemma snd_poll: "snd (poll d) = polled 1 d"
  by (simp add: poll_def polled_def)

lemma polled_Suc: "polled (Suc n) d = polled n (polled 1 d)"
  by (simp add: polled_def upt_rec)

lemma wait_tx_step: "uart_wait_tx d = (if dev_ready d (dev_polls d) then Some (polled 1 d) else uart_wait_tx (polled 1 d))"
  using poll_bits(1) [of d] snd_poll [of d]
  by (subst uart_wait_tx.simps) (cases "poll d", auto simp: reg_read_status)

lemma wait_tx_returns: "dev_ready d m \<Longrightarrow> dev_polls d \<le> m \<Longrightarrow> \<exists>k. uart_wait_tx d = Some (polled k d)"
proof (induction "m - dev_polls d" arbitrary: d)
  case 0
  then show ?case
    by (subst wait_tx_step) (auto intro: exI [of _ 1])
next
  case (Suc n)
  show ?case
  proof (cases "dev_ready d (dev_polls d)")
    case True
    then show ?thesis
      by (subst wait_tx_step) (auto intro: exI [of _ 1])
  next
    case False
    have "n = m - dev_polls (polled 1 d)" "dev_ready (polled 1 d) m" "dev_polls (polled 1 d) \<le> m"
      using Suc.hyps(2) Suc.prems by (auto simp: polled_def)
    then obtain k where "uart_wait_tx (polled 1 d) = Some (polled k (polled 1 d))"
      using Suc.hyps(1) by blast
    then show ?thesis
      using False by (subst wait_tx_step) (auto simp: polled_Suc [symmetric] simp del: One_nat_def)
  qed
qed

lemma can_read_poll: "uart_can_read d = (dev_rx (polled 1 d) \<noteq> [], polled 1 d)"
  using poll_bits(2) [of d] snd_poll [of d]
  by (cases "poll d") (auto simp: uart_can_read_def reg_read_status polled_def)

lemma wait_rx_step: "uart_wait_rx d = (if dev_rx (polled 1 d) = [] then uart_wait_rx (polled 1 d) else Some (polled 1 d))"
  by (subst uart_wait_rx.simps) (simp add: can_read_poll)

subsection \<open>The device as two byte sequences\<close>

text \<open>
  What a console state says of the device: normal mode, the characters sent so far, the bytes that have
  come or are yet to come, of which there are finitely many; the transmitter becomes ready again and again.
\<close>

definition uart_view :: "uart_device \<Rightarrow> uart_state \<Rightarrow> bool" where
  "uart_view d u \<longleftrightarrow> \<not> latch_open d \<and> uart_tx u = map u8_char (dev_tx d) \<and> (\<forall>n. \<exists>m \<ge> n. dev_ready d m) \<and>
     (\<exists>N. (\<forall>n \<ge> N. dev_arrivals d n = []) \<and> uart_rx u = dev_rx d @ concat (map (dev_arrivals d) [dev_polls d..<N]))"

lemma arrivals_beyond: "\<forall>n \<ge> N. f n = [] \<Longrightarrow> N \<le> M \<Longrightarrow> concat (map f [k..<M]) = concat (map f [k..<N])"
proof -
  assume f: "\<forall>n \<ge> N. f n = []" "N \<le> M"
  have e: "concat (map f [max k N..<M]) = []"
    using f(1) by simp
  have "[k..<M] = [k..<N] @ [max k N..<M]"
    using f(2) upt_add_eq_append [of k N "M - N"] by (cases "k \<le> N") (auto simp: max_def)
  then show ?thesis
    using e by (simp only: map_append concat_append append_Nil2)
qed

lemma view_polled:
  assumes "uart_view d u"
  shows "uart_view (polled k d) u"
proof -
  obtain N where N: "\<forall>n \<ge> N. dev_arrivals d n = []" "uart_rx u = dev_rx d @ concat (map (dev_arrivals d) [dev_polls d..<N])"
    using assms by (auto simp: uart_view_def)
  define M where "M = max N (dev_polls d + k)"
  have "uart_rx u = dev_rx d @ concat (map (dev_arrivals d) [dev_polls d..<M])"
    using N arrivals_beyond [OF N(1), of M] by (simp add: M_def)
  moreover have "[dev_polls d..<M] = [dev_polls d..<dev_polls d + k] @ [dev_polls d + k..<M]"
    using upt_add_eq_append [of "dev_polls d" "dev_polls d + k" "M - (dev_polls d + k)"] by (simp add: M_def)
  ultimately show ?thesis
    using assms N(1) by (auto simp: uart_view_def polled_def latch_open_def M_def intro!: exI [of _ M])
qed

lemma write_byte_view:
  assumes "uart_view d u"
  shows "\<exists>d'. uart_write_byte b d = Some d' \<and> uart_view d' (u \<lparr> uart_tx := uart_tx u @ [u8_char b] \<rparr>)"
proof -
  obtain k where k: "uart_wait_tx d = Some (polled k d)"
    using assms wait_tx_returns [of d] unfolding uart_view_def by blast
  have "uart_view (uart_reg_write UART_THR b (polled k d)) (u \<lparr> uart_tx := uart_tx u @ [u8_char b] \<rparr>)"
    using view_polled [OF assms, of k] by (auto simp: uart_view_def uart_reg_write_def latch_open_def)
  then show ?thesis
    using k by (simp add: uart_write_byte_def)
qed

lemma putc_view: "uart_view d u \<Longrightarrow> \<exists>d'. device_putc c d = Some d' \<and> uart_view d' (console_putc c u)"
  using write_byte_view [of d u "char_u8 carriage_return"] write_byte_view
  by (fastforce simp: device_putc_def console_putc_def Let_def)

lemma write_view: "uart_view d u \<Longrightarrow> \<exists>d'. device_write s d = Some d' \<and> uart_view d' (console_write s u)"
proof (induction s arbitrary: d u)
  case (Cons c s)
  then show ?case
    using putc_view [of d u c] by (fastforce simp: console_write_def)
qed (simp add: console_write_def)

lemma wait_rx_result: "uart_wait_rx d = Some d' \<Longrightarrow> \<exists>k. d' = polled k d \<and> dev_rx d' \<noteq> []"
proof (induction rule: uart_wait_rx.raw_induct [rotated, consumes 1, case_names step])
  case (step f d d')
  show ?case
  proof (cases "dev_rx (polled 1 d) = []")
    case True
    then obtain k where "d' = polled k (polled 1 d)" "dev_rx d' \<noteq> []"
      using step by (fastforce simp: can_read_poll)
    then show ?thesis
      using polled_Suc [of k d] by (intro exI [of _ "Suc k"]) simp
  next
    case False
    then show ?thesis
      using step(2) by (intro exI [of _ 1]) (simp add: can_read_poll)
  qed
qed

lemma wait_rx_returns:
  "dev_rx d @ concat (map (dev_arrivals d) [dev_polls d..<N]) \<noteq> [] \<Longrightarrow> \<exists>d'. uart_wait_rx d = Some d'"
proof (induction "N - dev_polls d" arbitrary: d)
  case 0
  then show ?case
    by (subst wait_rx_step) (simp add: polled_def)
next
  case (Suc n)
  show ?case
  proof (cases "dev_rx (polled 1 d) = []")
    case True
    have "[dev_polls d..<N] = dev_polls d # [Suc (dev_polls d)..<N]"
      using Suc.hyps(2) by (simp add: upt_conv_Cons)
    then have "dev_rx (polled 1 d) @ concat (map (dev_arrivals (polled 1 d)) [dev_polls (polled 1 d)..<N]) \<noteq> []"
      using Suc.prems by (simp add: polled_def)
    moreover have "n = N - dev_polls (polled 1 d)"
      using Suc.hyps(2) by (simp add: polled_def)
    ultimately show ?thesis
      using Suc.hyps(1) True by (subst wait_rx_step) simp
  qed (subst wait_rx_step, simp)
qed

lemma read_received:
  "uart_view d u \<Longrightarrow> dev_rx d = b # bs \<Longrightarrow>
   uart_reg_read UART_RBR d = (b, d \<lparr> dev_rx := bs \<rparr>) \<and> uart_rx u \<noteq> [] \<and> b = hd (uart_rx u) \<and>
   uart_view (d \<lparr> dev_rx := bs \<rparr>) (u \<lparr> uart_rx := tl (uart_rx u) \<rparr>)"
  by (auto simp: uart_reg_read_def uart_view_def latch_open_def uart_registers)

lemma read_blocking_view:
  assumes "uart_view d u"
  shows "case console_getc_blocking u of
      None \<Rightarrow> uart_read_byte_blocking d = None
    | Some (b, u') \<Rightarrow> \<exists>d'. uart_read_byte_blocking d = Some (b, d') \<and> uart_view d' u'"
proof (cases "uart_wait_rx d")
  case None
  then have "uart_rx u = []"
    using assms wait_rx_returns [of d] unfolding uart_view_def by fastforce
  then show ?thesis
    using None by (simp add: console_getc_blocking_def uart_read_byte_blocking_def)
next
  case (Some w)
  then obtain k b bs where w: "w = polled k d" "dev_rx w = b # bs"
    using wait_rx_result [OF Some] by (auto simp: neq_Nil_conv)
  then show ?thesis
    using read_received [OF view_polled [OF assms, of k, folded w(1)] w(2)] Some
    by (auto simp: console_getc_blocking_def uart_read_byte_blocking_def neq_Nil_conv split: list.splits)
qed

lemma read_nonblocking_view:
  assumes "uart_view d u" "uart_read_byte_nonblocking d = (r, d')"
  shows "r = None \<and> dev_rx d' = [] \<and> uart_view d' u \<or>
    r \<noteq> None \<and> console_getc_nonblocking u = (r, u \<lparr> uart_rx := tl (uart_rx u) \<rparr>) \<and> uart_view d' (u \<lparr> uart_rx := tl (uart_rx u) \<rparr>)"
proof (cases "dev_rx (polled 1 d)")
  case Nil
  then show ?thesis
    using assms view_polled [OF assms(1), of 1] by (auto simp: uart_read_byte_nonblocking_def can_read_poll)
next
  case (Cons b bs)
  then show ?thesis
    using assms(2) read_received [OF view_polled [OF assms(1), of 1] Cons]
    by (auto simp: uart_read_byte_nonblocking_def can_read_poll console_getc_nonblocking_def split: list.splits)
qed

text \<open>
  C29: The registers implement the console. Polling for the transmitter always ends, and then
  writing a text puts exactly its characters, each line end preceded by a carriage return, on the line;
  a blocking read returns the next byte there will ever be, and does not return exactly when there is none;
  a non-blocking read returns the next byte or, if none has arrived, that there is none. \<open>uart_init\<close>
  sends nothing and leaves the device in normal mode with 8 data bits, its interrupts off and the FIFOs on; it
  loses no byte that is yet to come, and those that wait in the receiver exactly if the FIFOs were off.
\<close>

theorem uart_implements_console:
  assumes "uart_view d u"
  shows "(\<exists>d'. device_write s d = Some d' \<and> uart_view d' (console_write s u)) \<and>
    (case console_getc_blocking u of
       None \<Rightarrow> uart_read_byte_blocking d = None
     | Some (b, u') \<Rightarrow> \<exists>d'. uart_read_byte_blocking d = Some (b, d') \<and> uart_view d' u') \<and>
    (case uart_read_byte_nonblocking d of
       (None, d') \<Rightarrow> dev_rx d' = [] \<and> uart_view d' u
     | (Some b, d') \<Rightarrow> (case console_getc_nonblocking u of (r, u') \<Rightarrow> r = Some b \<and> uart_view d' u')) \<and>
    uart_view (uart_init d) (u \<lparr> uart_rx := if bit (dev_fcr d) 0 then uart_rx u else drop (length (dev_rx d)) (uart_rx u) \<rparr>) \<and>
    dev_divisor (uart_init d) = 3 \<and> dev_ier (uart_init d) = 0 \<and> dev_lcr (uart_init d) = 3 \<and> dev_fcr (uart_init d) = 1"
proof -
  obtain r d' where n: "uart_read_byte_nonblocking d = (r, d')" by force
  have "\<not> bit (1 :: u8) 1"
    by (simp add: bit_1_iff)
  then have i: "uart_init d = d \<lparr> dev_divisor := 3, dev_ier := 0, dev_lcr := 3, dev_fcr := 1,
      dev_rx := if bit (dev_fcr d) 0 then dev_rx d else [] \<rparr>"
    using assms by (simp add: uart_view_def uart_init_def uart_reg_write_def uart_registers latch_open_def Let_def)
  have "uart_view (uart_init d) (u \<lparr> uart_rx := if bit (dev_fcr d) 0 then uart_rx u else drop (length (dev_rx d)) (uart_rx u) \<rparr>)"
    using assms unfolding i by (auto simp: uart_view_def latch_open_def)
  then show ?thesis
    using i write_view [OF assms, of s] read_blocking_view [OF assms] read_nonblocking_view [OF assms n] n
    by (auto split: option.splits)
qed

definition demo_device :: uart_device where
  "demo_device = \<lparr> dev_rx = [], dev_tx = [], dev_divisor = 1, dev_ier = 0, dev_fcr = 0, dev_lcr = 3, dev_polls = 0,
     dev_ready = (\<lambda>n. n mod 3 = 2), dev_arrivals = (\<lambda>n. if n = 5 then [65, 66] else []) \<rparr>"

theorem uart_implements_console_witness:
  "(\<exists>d'. device_write ''ok'' demo_device = Some d' \<and> map u8_char (dev_tx d') = ''ok'') \<and>
   (\<exists>d'. uart_read_byte_blocking demo_device = Some (65, d'))"
proof -
  let ?u = "\<lparr> uart_rx = [65, 66], uart_tx = [] \<rparr>"
  have "\<exists>m \<ge> n. m mod 3 = 2" for n :: nat
    by (rule exI [of _ "3 * n + 2"]) presburger
  moreover have "concat (map (dev_arrivals demo_device) [0..<6]) = [65, 66]"
    by (simp add: demo_device_def upt_rec)
  moreover have "\<not> bit (3 :: u8) 7"
    by (simp add: bit_numeral_rec)
  ultimately have v: "uart_view demo_device ?u"
    unfolding uart_view_def by (intro conjI exI [of _ "6 :: nat"]) (simp_all add: demo_device_def latch_open_def)
  show ?thesis
    using uart_implements_console [OF v, of "''ok''"]
    by (auto simp: uart_view_def console_write_text console_text_def console_getc_blocking_def)
qed

end
