(* ===== verification/Timer.thy ===== *)
theory Timer
  imports Trap
begin

unbundle bit_operations_syntax

text \<open>
  The timer of the machine (\<open>arch/riscv/timer.c\<close>): calls to the firmware and two control registers.
  The firmware is a parameter: \<open>ecall\<close> takes the eight argument registers \<open>a0\<close> to \<open>a7\<close> and
  returns \<open>a0\<close>, \<open>a1\<close>; its data, of type \<open>'f\<close>, may change. The legacy call sets only \<open>a0\<close> and
  \<open>a7\<close>; the other registers hold whatever they held, an argument \<open>rest\<close>. Last, that the clock of
  \<open>Trap\<close>, which keeps the deadline in a field, is what firmware with either call makes of it.
\<close>

definition SBI_LEGACY_SET_TIMER_EID :: u64 where "SBI_LEGACY_SET_TIMER_EID = 0"
definition SBI_EXT_TIME_EID :: u64 where "SBI_EXT_TIME_EID = 0x54494d45"
definition SBI_EXT_TIME_SET_TIMER_FID :: u64 where "SBI_EXT_TIME_SET_TIMER_FID = 0"
definition SIE_STIE :: u64 where "SIE_STIE = push_bit 5 1"
definition SSTATUS_SIE :: u64 where "SSTATUS_SIE = push_bit 1 1"

record sbi_ret =
  sbi_error :: u64
  sbi_value :: u64

record 'f hart =
  csr_time :: u64
  csr_sie :: u64
  csr_sstatus :: u64
  firmware :: 'f

type_synonym 'f ecall = "u64 list \<Rightarrow> 'f \<Rightarrow> (u64 \<times> u64) \<times> 'f"

definition sbi_ecall ::
  "'f ecall \<Rightarrow> u64 \<Rightarrow> u64 \<Rightarrow> u64 \<Rightarrow> u64 \<Rightarrow> u64 \<Rightarrow> u64 \<Rightarrow> u64 \<Rightarrow> u64 \<Rightarrow> 'f hart \<Rightarrow> sbi_ret \<times> 'f hart" where
  "sbi_ecall ecall arg0 arg1 arg2 arg3 arg4 arg5 fid eid h =
     (let ((a0, a1), f) = ecall [arg0, arg1, arg2, arg3, arg4, arg5, fid, eid] (firmware h)
      in (\<lparr> sbi_error = a0, sbi_value = a1 \<rparr>, h \<lparr> firmware := f \<rparr>))"

definition sbi_legacy_set_timer :: "'f ecall \<Rightarrow> u64 list \<Rightarrow> u64 \<Rightarrow> 'f hart \<Rightarrow> 'f hart" where
  "sbi_legacy_set_timer ecall rest deadline h =
     h \<lparr> firmware := snd (ecall (deadline # take 6 rest @ [SBI_LEGACY_SET_TIMER_EID]) (firmware h)) \<rparr>"

definition riscv_timer_now :: "'f hart \<Rightarrow> u64" where
  "riscv_timer_now h = csr_time h"

definition riscv_timer_read_time :: "'f hart \<Rightarrow> u64" where
  "riscv_timer_read_time h = riscv_timer_now h"

definition riscv_timer_set_deadline :: "'f ecall \<Rightarrow> u64 list \<Rightarrow> u64 \<Rightarrow> 'f hart \<Rightarrow> 'f hart" where
  "riscv_timer_set_deadline ecall rest deadline h =
     (let (ret, h) = sbi_ecall ecall deadline 0 0 0 0 0 SBI_EXT_TIME_SET_TIMER_FID SBI_EXT_TIME_EID h
      in if sbi_error ret = 0 then h else sbi_legacy_set_timer ecall rest deadline h)"

definition riscv_timer_enable_interrupts :: "'f hart \<Rightarrow> 'f hart" where
  "riscv_timer_enable_interrupts h =
     (let h = h \<lparr> csr_sie := csr_sie h OR SIE_STIE \<rparr> in h \<lparr> csr_sstatus := csr_sstatus h OR SSTATUS_SIE \<rparr>)"

subsection \<open>Firmware\<close>

text \<open>
  What the SBI documents say of the calls: the timer extension, if present, programs the deadline and
  reports 0, and an absent one reports an error and does nothing; the legacy call programs the deadline.
  The deadline programmed is a field of the firmware.
\<close>

definition sbi_firmware :: "bool \<Rightarrow> u64 ecall" where
  "sbi_firmware has_time_extension regs deadline =
     (if regs ! 7 = SBI_EXT_TIME_EID \<and> regs ! 6 = SBI_EXT_TIME_SET_TIMER_FID then
        if has_time_extension then ((0, 0), regs ! 0) else ((- 2, 0), deadline)
      else if regs ! 7 = SBI_LEGACY_SET_TIMER_EID then ((0, 0), regs ! 0)
      else ((- 2, 0), deadline))"

lemma set_deadline_programs:
  "length rest = 6 \<Longrightarrow> riscv_timer_set_deadline (sbi_firmware ext) rest deadline h = h \<lparr> firmware := deadline \<rparr>"
  by (auto simp: riscv_timer_set_deadline_def sbi_ecall_def sbi_legacy_set_timer_def sbi_firmware_def Let_def
      SBI_EXT_TIME_EID_def SBI_EXT_TIME_SET_TIMER_FID_def SBI_LEGACY_SET_TIMER_EID_def nth_append)

text \<open>A hart shows the fields of the clock that stand for the machine.\<close>

definition hart_shows :: "u64 hart \<Rightarrow> clock_state \<Rightarrow> bool" where
  "hart_shows h c \<longleftrightarrow> firmware h = timer_deadline c \<and>
     (timer_enabled c \<longrightarrow> csr_sie h AND SIE_STIE \<noteq> 0 \<and> csr_sstatus h AND SSTATUS_SIE \<noteq> 0)"

lemma enabled_bits: "(x OR SIE_STIE) AND SIE_STIE \<noteq> 0" "(x OR SSTATUS_SIE) AND SSTATUS_SIE \<noteq> 0" for x :: u64
  by (simp_all add: SIE_STIE_def SSTATUS_SIE_def word_ao_dist)

text \<open>
  \<open>clock_init\<close> and the interrupt handler, with the last line of each, the call to the timer, on the hart.
\<close>

lemma hart_clock_init:
  "length rest = 6 \<Longrightarrow> hart_shows (riscv_timer_enable_interrupts
     (riscv_timer_set_deadline (sbi_firmware ext) rest (next_deadline (clock_init (riscv_timer_read_time h) c)) h))
     (clock_init (riscv_timer_read_time h) c)"
  using enabled_bits
  by (simp add: hart_shows_def set_deadline_programs riscv_timer_enable_interrupts_def clock_init_def Let_def)

lemma hart_clock_tick:
  "length rest = 6 \<Longrightarrow> hart_shows h c \<Longrightarrow>
   fst (clock_handle_timer_interrupt (riscv_timer_read_time h) c u) = c' \<Longrightarrow>
   hart_shows (riscv_timer_set_deadline (sbi_firmware ext) rest (next_deadline c') h) c'"
  unfolding hart_shows_def set_deadline_programs clock_handle_timer_interrupt_def clock_program_deadline_def
  by (auto simp: set_deadline_programs Let_def split: if_splits)

end
