(* ===== verification/DemoApp.thy ===== *)
theory DemoApp
  imports AppWindow
begin

unbundle bit_operations_syntax

text \<open>
  The demonstration application (\<open>apps/demo_window_app.c\<close>) on top of application windows, the mouse, the
  compositor, the task table and the console. Its state is the applications' data of the theory
  \<open>AppWindow\<close>; its handler is handler \<open>DEMO_HANDLER\<close>, with the context \<open>DEMO_CTX\<close>, a pointer to that
  state (0 is the null pointer), its window the reference \<open>DEMO_WINDOW\<close>, its task entry the only entry
  of an application.
\<close>

record demo_window_app_state =
  app_task :: "nat option"
  callback_count :: u32
  render_marker :: u32
  registered :: bool
  ran_once :: bool

text \<open>The applications' data may hold more than the state of this application, \<open>'z\<close>.\<close>

type_synonym 'z app_desktop = "'z demo_window_app_state_scheme app_world desktop"

record 'z app_kernel =
  ak_desktop :: "'z app_desktop"
  ak_input :: input_state
  ak_fb :: framebuffer_info
  ak_tasks :: task_table
  ak_line :: line_io_state

definition DEMO_HANDLER :: nat where "DEMO_HANDLER = 1"
definition DEMO_CTX :: nat where "DEMO_CTX = 1"
definition DEMO_WINDOW :: win_ref where "DEMO_WINDOW = 100"
definition DEMO_ENTRY :: task_entry_fn where "DEMO_ENTRY = APP_ENTRY 1"

definition demo_window_app_on_event :: "'z demo_window_app_state_scheme run_handler" where
  "demo_window_app_on_event handler window event user_ctx u =
     (if user_ctx = 0 then u else u \<lparr> callback_count := callback_count u + 1 \<rparr>)"

definition demo_app :: "'z app_kernel \<Rightarrow> 'z demo_window_app_state_scheme" where
  "demo_app s = app_user (desk_world (ak_desktop s))"

definition set_demo_app :: "('z demo_window_app_state_scheme \<Rightarrow> 'z demo_window_app_state_scheme) \<Rightarrow> 'z app_kernel \<Rightarrow> 'z app_kernel" where
  "set_demo_app f s =
     s \<lparr> ak_desktop := (ak_desktop s) \<lparr> desk_world := (desk_world (ak_desktop s)) \<lparr> app_user := f (demo_app s) \<rparr> \<rparr> \<rparr>"

definition app_print :: "string \<Rightarrow> 'z app_kernel \<Rightarrow> 'z app_kernel" where
  "app_print str s = s \<lparr> ak_line := line_io_write str (ak_line s) \<rparr>"

definition app_putc :: "char \<Rightarrow> 'z app_kernel \<Rightarrow> 'z app_kernel" where
  "app_putc c s = s \<lparr> ak_line := (ak_line s) \<lparr> io_uart := console_putc c (io_uart (ak_line s)) \<rparr> \<rparr>"

definition hex_digits :: "u32 \<Rightarrow> string" where
  "hex_digits v = map (\<lambda>shift. ''0123456789ABCDEF'' ! unat (drop_bit shift v AND 0xf)) [28, 24, 20, 16, 12, 8, 4, 0]"

text \<open>The digits are written one by one.\<close>

definition put_marker :: "u32 \<Rightarrow> 'z app_kernel \<Rightarrow> 'z app_kernel" where
  "put_marker v s = fold app_putc (hex_digits v) s"

definition demo_desc :: app_window_desc where
  "demo_desc = \<lparr> desc_title = Some ''DemoApp'', desc_x = 72, desc_y = 56, desc_width = 224, desc_height = 140 \<rparr>"

definition demo_app_reset :: "'z app_kernel \<Rightarrow> 'z app_kernel" where
  "demo_app_reset s =
     (let d = ak_desktop s;
          d = d \<lparr> desk_wm := snd (wm_compositor_reset (desk_wm d) 0x0014161a) \<rparr>;
          d = app_window_reset demo_window_app_on_event d;
          s = s \<lparr> ak_desktop := d, ak_input := mouse_reset (ak_input s) \<rparr>
      in set_demo_app (\<lambda>u. u \<lparr> callback_count := 0, render_marker := 0 \<rparr>) s)"

definition demo_app_clicks :: "u32 \<Rightarrow> u32 \<Rightarrow> 'z app_kernel \<Rightarrow> 'z app_kernel" where
  "demo_app_clicks x y s =
     (let i = snd (mouse_emit_move x y 0 (ak_input s));
          i = snd (mouse_emit_button_down x y INPUT_MOUSE_BUTTON_LEFT i);
          i = snd (mouse_emit_button_up x y INPUT_MOUSE_BUTTON_LEFT i)
      in s \<lparr> ak_input := i \<rparr>)"

text \<open>\<open>None\<close> is a dispatch that does not return.\<close>

definition demo_window_app_task :: "nat option \<Rightarrow> 'z app_kernel \<Rightarrow> 'z app_kernel option" where
  "demo_window_app_task task s =
     (if task = None \<or> ran_once (demo_app s) then Some s
      else
        let s = demo_app_reset s;
            (r, d) = app_window_open (ak_tasks s) (Some DEMO_WINDOW) (Some demo_desc) task (Some DEMO_HANDLER) DEMO_CTX (ak_desktop s);
            s = s \<lparr> ak_desktop := d \<rparr>
        in if r \<noteq> 0 then
             Some (set_demo_app (\<lambda>u. u \<lparr> ran_once := True \<rparr>) (app_print (''APP: demo window open failed'' @ [newline]) s))
           else
             let s = demo_app_clicks (desc_x demo_desc + 12) (desc_y demo_desc + 12) s in
             case app_window_dispatch_pending (event_queue (ak_input s)) (ak_desktop s) of
               None \<Rightarrow> None
             | Some (n, q, d) \<Rightarrow>
                 let s = s \<lparr> ak_input := (ak_input s) \<lparr> event_queue := q \<rparr>, ak_desktop := d \<rparr>;
                     (m, fb) = wm_compositor_render (desk_heap d) (desk_wm d) (ak_fb s);
                     s = set_demo_app (\<lambda>u. u \<lparr> render_marker := m \<rparr>) (s \<lparr> ak_fb := fb \<rparr>);
                     s = (if callback_count (demo_app s) > 0
                          then app_print [newline] (put_marker (render_marker (demo_app s))
                                 (app_print ''APP: demo window callback marker 0x'' s))
                          else app_print (''APP: demo window callback missing'' @ [newline]) s)
                 in Some (set_demo_app (\<lambda>u. u \<lparr> ran_once := True \<rparr>) s))"

definition demo_window_app_register :: "'z app_kernel \<Rightarrow> int \<times> 'z app_kernel" where
  "demo_window_app_register s =
     (if registered (demo_app s) then (0, s)
      else
        let (t, table) = task_create (ak_tasks s) (Some ''demo-window-app'') (Some DEMO_ENTRY);
            s = set_demo_app (\<lambda>u. u \<lparr> app_task := t \<rparr>) (s \<lparr> ak_tasks := table \<rparr>)
        in if app_task (demo_app s) = None then (- 1, s)
           else (0, set_demo_app (\<lambda>u. u \<lparr> registered := True \<rparr>) s))"

text \<open>The entries that exist are the two of the scheduler and the one of this application.\<close>

definition demo_run_entry :: "task_entry_fn \<Rightarrow> nat \<Rightarrow> 'z app_kernel \<Rightarrow> 'z app_kernel option" where
  "demo_run_entry entry t s =
     (case entry of
        APP_ENTRY n \<Rightarrow> demo_window_app_task (Some t) s
      | _ \<Rightarrow> Some (s \<lparr> ak_line := (ak_line s)
               \<lparr> io_uart := run_entry (\<lambda>_ _ u. u) entry (ak_tasks s ! t) (io_uart (ak_line s)) \<rparr> \<rparr>))"

definition demo_window_app_run_once :: "'z app_kernel \<Rightarrow> 'z app_kernel option" where
  "demo_window_app_run_once s =
     (case (registered (demo_app s), app_task (demo_app s)) of
        (True, Some t) \<Rightarrow>
          (case task_entry (ak_tasks s ! t) of None \<Rightarrow> Some s | Some entry \<Rightarrow> demo_run_entry entry t s)
      | _ \<Rightarrow> Some s)"

subsection \<open>One window, one task\<close>

text \<open>
  The only window is \<open>a\<close>, it has the task \<open>t\<close>, and that task's events go to the handler \<open>h\<close>
  of the window with the context \<open>ctx\<close>.
\<close>

definition one_window :: "'u run_handler \<Rightarrow> win_ref \<Rightarrow> u32 \<Rightarrow> nat \<Rightarrow> nat \<Rightarrow> 'u app_world desktop \<Rightarrow> bool" where
  "one_window run a t h ctx d \<longleftrightarrow> wm_wf (desk_wm d) \<and> wm_windows (desk_wm d) = [a] \<and> drag_wf (desk_drag d) \<and>
     drag_dispatch_fn (desk_drag d) = Some (app_window_dispatch_cb run) \<and> task_of (desk_drag d) = [a \<mapsto> t] \<and>
     app_of (desk_world d) t = Some a \<and> aw_on_event (app_windows (desk_world d) a) = Some h \<and>
     aw_user_ctx (app_windows (desk_world d) a) = ctx"

lemma drag_event_tables:
  "task_of (desk_drag (wm_drag_process_event e s)) = task_of (desk_drag s)"
  "drag_dispatch_fn (desk_drag (wm_drag_process_event e s)) = drag_dispatch_fn (desk_drag s)"
  by (auto simp: wm_drag_process_event_def process_mouse_move_def process_mouse_button_down_def process_mouse_button_up_def
      task_of_def fun_eq_iff Let_def split: input_event_type.splits option.splits bool.splits)

lemma app_of_user [simp]: "app_of (w \<lparr> app_user := u \<rparr>) = app_of w"
  by (simp add: fun_eq_iff app_of_def app_find_binding_def)

lemma one_window_event:
  assumes "one_window run a t h ctx d" "contains (desk_heap d) (ev_x (ev_mouse e)) (ev_y (ev_mouse e)) a" "\<not> held_move e"
  shows "one_window run a t h ctx (wm_drag_process_event e d)" "desk_heap (wm_drag_process_event e d) = desk_heap d"
    "app_user (desk_world (wm_drag_process_event e d)) =
       run h a \<lparr> ae_type = app_window_event_map (event_kind d e), ae_input = e \<rparr> ctx (app_user (desk_world d))"
proof -
  have d: "wm_wf (desk_wm d)" "wm_windows (desk_wm d) = [a]" "drag_wf (desk_drag d)"
    "drag_dispatch_fn (desk_drag d) = Some (app_window_dispatch_cb run)" "task_of (desk_drag d) = [a \<mapsto> t]"
    "app_of (desk_world d) t = Some a" "aw_on_event (app_windows (desk_world d) a) = Some h"
    "aw_user_ctx (app_windows (desk_world d) a) = ctx"
    using assms(1) by (auto simp: one_window_def)
  have hit: "wm_compositor_hit_test (desk_heap d) (desk_wm d) (ev_x (ev_mouse e)) (ev_y (ev_mouse e)) = Some a"
    using hit_test_find [of "desk_wm d"] d(1,2) assms(2) by (simp add: wm_wf_def)
  have "binding_window (desk_drag d) i = a" if "drag_binding (desk_drag d) = Some i" for i
  proof -
    have "task_of (desk_drag d) (binding_window (desk_drag d) i) \<noteq> None"
      using d(3) that by (simp add: task_of_find drag_wf_def)
    then show ?thesis
      using d(5) by (simp split: if_splits)
  qed
  then have owner: "event_owner d e = Some a"
    using hit by (auto simp: event_owner_def split: option.splits)
  have kind: "event_kind d e \<noteq> WM_DISPATCH_DRAG"
    using assms(3) by (auto simp: event_kind_def held_move_def split: input_event_type.splits)
  note ef = drag_event_effect [OF d(3,4), of e]
  have bind: "Option.bind (event_owner d e) (task_of (desk_drag d)) = Some t"
    using owner d(5) by simp
  show "desk_heap (wm_drag_process_event e d) = desk_heap d"
    using ef kind by blast
  have w: "desk_world (wm_drag_process_event e d) = (desk_world d) \<lparr> app_user := run h a
      \<lparr> ae_type = app_window_event_map (event_kind d e), ae_input = e \<rparr> ctx (app_user (desk_world d)) \<rparr>"
    using ef bind app_dispatch [OF d(6,7)] d(8) by simp
  then show "app_user (desk_world (wm_drag_process_event e d)) =
       run h a \<lparr> ae_type = app_window_event_map (event_kind d e), ae_input = e \<rparr> ctx (app_user (desk_world d))"
    by simp
  obtain r wm where wm: "wm_compositor_activate_window (desk_wm d) (Some a) = (r, wm)" by force
  have "wm_wf wm \<and> wm_windows wm = [a]"
    using activate_wf [OF d(1), of "Some a"] wm d(2) by simp
  then have after: "wm_wf (desk_wm (wm_drag_process_event e d))" "wm_windows (desk_wm (wm_drag_process_event e d)) = [a]"
    "drag_wf (desk_drag (wm_drag_process_event e d))"
    using ef bind owner wm d(1,2) by simp_all
  show "one_window run a t h ctx (wm_drag_process_event e d)"
    using after d(4-8) by (simp add: one_window_def w drag_event_tables)
qed

lemma one_window_clicks:
  assumes "one_window demo_window_app_on_event a t h DEMO_CTX d"
    and "\<forall>e \<in> set es. contains (desk_heap d) (ev_x (ev_mouse e)) (ev_y (ev_mouse e)) a \<and> \<not> held_move e"
  shows "one_window demo_window_app_on_event a t h DEMO_CTX (fold wm_drag_process_event es d) \<and>
    app_user (desk_world (fold wm_drag_process_event es d)) =
      (app_user (desk_world d)) \<lparr> callback_count := callback_count (app_user (desk_world d)) + of_nat (length es) \<rparr>"
  using assms
proof (induction es arbitrary: d)
  case (Cons e es)
  let ?d = "wm_drag_process_event e d"
  have o: "one_window demo_window_app_on_event a t h DEMO_CTX ?d" "desk_heap ?d = desk_heap d"
    "app_user (desk_world ?d) = (app_user (desk_world d)) \<lparr> callback_count := callback_count (app_user (desk_world d)) + 1 \<rparr>"
    using one_window_event [OF Cons.prems(1), of e] Cons.prems(2)
    by (simp_all add: demo_window_app_on_event_def [of h] DEMO_CTX_def)
  then show ?case
    using Cons.IH [OF o(1)] Cons.prems(2) by (simp add: add.assoc)
qed simp

lemma mouse_emits:
  assumes "event_queue_wf (event_queue s)" "length (queued_events (event_queue s)) < INPUT_EVENT_QUEUE_CAPACITY"
  shows "mouse_emit ty x y b c s = (r, s') \<Longrightarrow> r = 0 \<and> mouse s' = mouse s \<and> event_queue_wf (event_queue s') \<and>
    queued_events (event_queue s') = queued_events (event_queue s) @
      [\<lparr> ev_type = ty, ev_mouse = \<lparr> ev_x = x, ev_y = y, ev_buttons = b, ev_button = c \<rparr> \<rparr>]"
  using evq.enq_law [OF assms(1)] assms(2) by (force simp: mouse_emit_def Let_def split: prod.splits)

lemma app_puts: "fold app_putc str s = s \<lparr> ak_line := (ak_line s) \<lparr> io_uart := fold console_putc str (io_uart (ak_line s)) \<rparr> \<rparr>"
  by (induction str arbitrary: s) (simp_all add: app_putc_def)

text \<open>The state of the line editor without what has been written.\<close>

definition line_input :: "line_io_state \<Rightarrow> line_io_state" where
  "line_input l = l \<lparr> io_uart := (io_uart l) \<lparr> uart_tx := [] \<rparr> \<rparr>"

lemma line_input_print [simp]:
  "line_input (l \<lparr> io_uart := fold console_putc str (io_uart l) \<rparr>) = line_input l" "line_input (line_io_write str l) = line_input l"
  using console_write_text [of str "io_uart l"] by (simp_all add: line_input_def line_io_write_def console_write_def)

text \<open>What the application has written.\<close>

abbreviation app_output :: "'z app_kernel \<Rightarrow> string" where
  "app_output s \<equiv> uart_tx (io_uart (ak_line s))"

lemma app_prints:
  "app_output (app_print str s) = app_output s @ console_text str"
  "app_output (put_marker v s) = app_output s @ console_text (hex_digits v)"
  "app_output (set_demo_app f s) = app_output s"
  using console_write_text
  by (simp_all add: app_print_def line_io_write_def put_marker_def app_puts set_demo_app_def console_write_def)

lemma app_prints_keep [simp]:
  "demo_app (app_print str s) = demo_app s" "demo_app (put_marker v s) = demo_app s"
  "ak_desktop (app_print str s) = ak_desktop s" "ak_desktop (put_marker v s) = ak_desktop s"
  "ak_input (app_print str s) = ak_input s" "ak_input (put_marker v s) = ak_input s"
  "ak_tasks (app_print str s) = ak_tasks s" "ak_tasks (put_marker v s) = ak_tasks s"
  "demo_app (set_demo_app f s) = f (demo_app s)"
  "ak_tasks (set_demo_app f s) = ak_tasks s" "ak_input (set_demo_app f s) = ak_input s" "ak_fb (set_demo_app f s) = ak_fb s"
  "desk_wm (ak_desktop (set_demo_app f s)) = desk_wm (ak_desktop s)" "desk_heap (ak_desktop (set_demo_app f s)) = desk_heap (ak_desktop s)"
  by (simp_all add: demo_app_def app_print_def put_marker_def app_puts set_demo_app_def)

lemma demo_window_fits:
  "wm_window_is_valid (Some (wm_window_init (Some ''DemoApp'') 72 56 224 140))"
  "wm_point_in_rect (frame (wm_window_init (Some ''DemoApp'') 72 56 224 140)) 84 68"
  by (simp_all add: wm_window_is_valid_def wm_window_title_bar_rect_def wm_window_content_rect_def wm_window_init_def Let_def effective_border_def
        min_u32_def safe_sub_u32_def saturating_add_u32_def wm_point_in_rect_def
        WM_DEFAULT_BORDER_THICKNESS_def WM_DEFAULT_TITLE_BAR_HEIGHT_def) (simp add: word_le_nat_alt)

lemma demo_app_reset_state:
  assumes "length (q_events (event_queue (ak_input s))) = INPUT_EVENT_QUEUE_CAPACITY" "s1 = demo_app_reset s"
  shows "desktop_wf (ak_desktop s1)" "drag_dispatch_fn (desk_drag (ak_desktop s1)) = Some (app_window_dispatch_cb demo_window_app_on_event)"
    "wm_windows (desk_wm (ak_desktop s1)) = []" "drag_binding_count (desk_drag (ak_desktop s1)) = 0"
    "task_of (desk_drag (ak_desktop s1)) = Map.empty" "demo_app s1 = (demo_app s) \<lparr> callback_count := 0, render_marker := 0 \<rparr>"
    "event_queue_wf (event_queue (ak_input s1))" "queued_events (event_queue (ak_input s1)) = []"
    "ak_tasks s1 = ak_tasks s" "ak_line s1 = ak_line s" "ak_fb s1 = ak_fb s"
proof -
  define d where "d = (ak_desktop s) \<lparr> desk_wm := snd (wm_compositor_reset (desk_wm (ak_desktop s)) 0x0014161a) \<rparr>"
  have wm: "wm_wf (desk_wm d)" "wm_windows (desk_wm d) = []"
    using reset_wf by (simp_all add: d_def)
  have k: "ak_desktop s1 = (app_window_reset demo_window_app_on_event d)
      \<lparr> desk_world := (desk_world (app_window_reset demo_window_app_on_event d))
          \<lparr> app_user := (demo_app s) \<lparr> callback_count := 0, render_marker := 0 \<rparr> \<rparr> \<rparr>"
    by (simp add: assms(2) demo_app_reset_def set_demo_app_def demo_app_def Let_def d_def app_window_reset_def)
  note r = app_reset_wf [OF wm(1), of demo_window_app_on_event]
  show "desktop_wf (ak_desktop s1)"
    using r(1) unfolding k desktop_wf_def by (simp add: app_world_wf_def)
  show "drag_dispatch_fn (desk_drag (ak_desktop s1)) = Some (app_window_dispatch_cb demo_window_app_on_event)"
    using r(2) unfolding k by simp
  show "wm_windows (desk_wm (ak_desktop s1)) = []" "drag_binding_count (desk_drag (ak_desktop s1)) = 0"
    "task_of (desk_drag (ak_desktop s1)) = Map.empty" "demo_app s1 = (demo_app s) \<lparr> callback_count := 0, render_marker := 0 \<rparr>"
    using wm(2) unfolding k demo_app_def
    by (simp_all add: app_window_reset_def wm_drag_set_dispatch_def wm_drag_reset_def task_of_def fun_eq_iff)
  show "event_queue_wf (event_queue (ak_input s1))" "queued_events (event_queue (ak_input s1)) = []"
    "ak_tasks s1 = ak_tasks s" "ak_line s1 = ak_line s" "ak_fb s1 = ak_fb s"
    using event_queue_reset_wf [of "event_queue (ak_input s)"] assms
    by (simp_all add: demo_app_reset_def set_demo_app_def mouse_reset_def Let_def)
qed

lemma mouse_emit_cases:
  assumes "event_queue_wf (event_queue i)" "length (queued_events (event_queue i)) < INPUT_EVENT_QUEUE_CAPACITY"
  shows "\<exists>e. event_queue_wf (event_queue (snd (mouse_emit_move x y 0 i))) \<and> \<not> held_move e \<and> ev_x (ev_mouse e) = x \<and> ev_y (ev_mouse e) = y \<and>
      queued_events (event_queue (snd (mouse_emit_move x y 0 i))) = queued_events (event_queue i) @ [e]"
    "\<exists>e. event_queue_wf (event_queue (snd (mouse_emit_button_down x y b i))) \<and> \<not> held_move e \<and> ev_x (ev_mouse e) = x \<and> ev_y (ev_mouse e) = y \<and>
      queued_events (event_queue (snd (mouse_emit_button_down x y b i))) = queued_events (event_queue i) @ [e]"
    "\<exists>e. event_queue_wf (event_queue (snd (mouse_emit_button_up x y b i))) \<and> \<not> held_move e \<and> ev_x (ev_mouse e) = x \<and> ev_y (ev_mouse e) = y \<and>
      queued_events (event_queue (snd (mouse_emit_button_up x y b i))) = queued_events (event_queue i) @ [e]"
  using mouse_emits [of "i \<lparr> mouse := m \<rparr>" for m, OF _ _ prod.collapse [symmetric]] assms
  by (auto simp: mouse_emit_move_def mouse_emit_button_down_def mouse_emit_button_up_def Let_def held_move_def)

lemma demo_clicks:
  assumes "event_queue_wf (event_queue (ak_input s))" "queued_events (event_queue (ak_input s)) = []" "s' = demo_app_clicks x y s"
  shows "\<exists>es. length es = 3 \<and> (\<forall>e \<in> set es. \<not> held_move e \<and> ev_x (ev_mouse e) = x \<and> ev_y (ev_mouse e) = y) \<and>
    event_queue_wf (event_queue (ak_input s')) \<and> queued_events (event_queue (ak_input s')) = es \<and>
    ak_desktop s' = ak_desktop s \<and> ak_tasks s' = ak_tasks s \<and> ak_line s' = ak_line s \<and> ak_fb s' = ak_fb s"
proof -
  have c: "3 < INPUT_EVENT_QUEUE_CAPACITY"
    by (simp add: INPUT_EVENT_QUEUE_CAPACITY_def)
  define i1 where "i1 = snd (mouse_emit_move x y 0 (ak_input s))"
  define i2 where "i2 = snd (mouse_emit_button_down x y INPUT_MOUSE_BUTTON_LEFT i1)"
  define i3 where "i3 = snd (mouse_emit_button_up x y INPUT_MOUSE_BUTTON_LEFT i2)"
  obtain e1 where e1: "event_queue_wf (event_queue i1)" "\<not> held_move e1" "ev_x (ev_mouse e1) = x" "ev_y (ev_mouse e1) = y"
    "queued_events (event_queue i1) = [e1]"
    using mouse_emit_cases(1) [OF assms(1), of x y] assms(2) c by (auto simp: i1_def)
  obtain e2 where e2: "event_queue_wf (event_queue i2)" "\<not> held_move e2" "ev_x (ev_mouse e2) = x" "ev_y (ev_mouse e2) = y"
    "queued_events (event_queue i2) = [e1, e2]"
    using mouse_emit_cases(2) [OF e1(1), of x y INPUT_MOUSE_BUTTON_LEFT] e1(5) c by (auto simp: i2_def)
  obtain e3 where e3: "event_queue_wf (event_queue i3)" "\<not> held_move e3" "ev_x (ev_mouse e3) = x" "ev_y (ev_mouse e3) = y"
    "queued_events (event_queue i3) = [e1, e2, e3]"
    using mouse_emit_cases(3) [OF e2(1), of x y INPUT_MOUSE_BUTTON_LEFT] e2(5) c by (auto simp: i3_def)
  have "s' = s \<lparr> ak_input := i3 \<rparr>"
    by (simp add: assms(3) demo_app_clicks_def Let_def i1_def i2_def i3_def)
  then show ?thesis
    using e1 e2 e3 by (intro exI [of _ "[e1, e2, e3]"]) simp
qed

text \<open>The window the application opens on the empty screen.\<close>

lemma demo_app_opens:
  assumes "desktop_wf d" "drag_dispatch_fn (desk_drag d) = Some (app_window_dispatch_cb demo_window_app_on_event)"
    and "wm_windows (desk_wm d) = []" "drag_binding_count (desk_drag d) = 0" "task_of (desk_drag d) = Map.empty"
    and "task_id (table ! t) \<noteq> 0"
    and "app_window_open table (Some DEMO_WINDOW) (Some demo_desc) (Some t) (Some DEMO_HANDLER) DEMO_CTX d = (r, d')"
  shows "r = 0 \<and> one_window demo_window_app_on_event DEMO_WINDOW (task_id (table ! t)) DEMO_HANDLER DEMO_CTX d' \<and>
    contains (desk_heap d') 84 68 DEMO_WINDOW \<and> app_user (desk_world d') = app_user (desk_world d) \<and>
    wm_windows (desk_wm d') = [DEMO_WINDOW]"
proof -
  have h: "opened_heap DEMO_WINDOW demo_desc d DEMO_WINDOW = wm_window_init (Some ''DemoApp'') 72 56 224 140"
    by (simp add: opened_heap_def demo_desc_def)
  show ?thesis
    using open_spec [OF assms(1,6,7)] assms(2-5) demo_window_fits h
    by (auto simp: WM_MAX_WINDOWS_def one_window_def desktop_wf_def)
qed

lemma demo_task_runs:
  assumes "\<not> ran_once (demo_app s)" "task_id (ak_tasks s ! t) \<noteq> 0"
    and "length (q_events (event_queue (ak_input s))) = INPUT_EVENT_QUEUE_CAPACITY"
  shows "\<exists>s'. demo_window_app_task (Some t) s = Some s' \<and> callback_count (demo_app s') = 3 \<and> ran_once (demo_app s') \<and>
    registered (demo_app s') = registered (demo_app s) \<and> app_task (demo_app s') = app_task (demo_app s) \<and>
    ak_tasks s' = ak_tasks s \<and> wm_windows (desk_wm (ak_desktop s')) = [DEMO_WINDOW] \<and>
    queued_events (event_queue (ak_input s')) = [] \<and>
    render_marker (demo_app s') = fst (wm_compositor_render (desk_heap (ak_desktop s')) (desk_wm (ak_desktop s')) (ak_fb s)) \<and>
    app_output s' = app_output s @ console_text (''APP: demo window callback marker 0x'' @ hex_digits (render_marker (demo_app s')) @ [newline])"
proof -
  define s1 where "s1 = demo_app_reset s"
  note r = demo_app_reset_state [OF assms(3) s1_def]
  obtain rc d where o: "app_window_open (ak_tasks s1) (Some DEMO_WINDOW) (Some demo_desc) (Some t) (Some DEMO_HANDLER) DEMO_CTX (ak_desktop s1) = (rc, d)"
    by force
  note op = demo_app_opens [OF r(1-5) assms(2) [folded r(9)] o]
  define s2 where "s2 = demo_app_clicks (desc_x demo_desc + 12) (desc_y demo_desc + 12) (s1 \<lparr> ak_desktop := d \<rparr>)"
  obtain es where c: "length es = 3" "\<forall>e \<in> set es. \<not> held_move e \<and> ev_x (ev_mouse e) = 84 \<and> ev_y (ev_mouse e) = 68"
    "event_queue_wf (event_queue (ak_input s2))" "queued_events (event_queue (ak_input s2)) = es" "ak_desktop s2 = d"
    "ak_tasks s2 = ak_tasks s1" "ak_line s2 = ak_line s1" "ak_fb s2 = ak_fb s1"
    using demo_clicks [of "s1 \<lparr> ak_desktop := d \<rparr>" s2, OF _ _ s2_def] r(7,8) by (auto simp: demo_desc_def)
  define d3 where "d3 = fold wm_drag_process_event es d"
  obtain q where q: "app_window_dispatch_pending (event_queue (ak_input s2)) (ak_desktop s2) = Some (3, q, d3)" "queued_events q = []"
    using evq.drain_all [OF c(3), of wm_drag_process_event 0 d] unfolding c(1,4,5) d3_def
    by (auto simp: app_window_dispatch_pending_def wm_drag_dispatch_pending_def)
  have d3: "one_window demo_window_app_on_event DEMO_WINDOW (task_id (ak_tasks s1 ! t)) DEMO_HANDLER DEMO_CTX d3"
    "app_user (desk_world d3) = (app_user (desk_world d)) \<lparr> callback_count := 3 \<rparr>"
    using one_window_clicks [of DEMO_WINDOW "task_id (ak_tasks s1 ! t)" DEMO_HANDLER d es] op c(1,2) r(6)
    by (simp_all add: d3_def demo_app_def)
  define s3 where "s3 = s2 \<lparr> ak_input := (ak_input s2) \<lparr> event_queue := q \<rparr>, ak_desktop := d3 \<rparr>"
  obtain m fb where m: "wm_compositor_render (desk_heap d3) (desk_wm d3) (ak_fb s2) = (m, fb)" by force
  define s4 where "s4 = set_demo_app (\<lambda>u. u \<lparr> render_marker := m \<rparr>) (s3 \<lparr> ak_fb := fb \<rparr>)"
  have u3: "callback_count (demo_app (s3 \<lparr> ak_fb := fb \<rparr>)) = 3" "render_marker (demo_app s4) = m"
    using d3(2) by (simp_all add: s3_def s4_def demo_app_def set_demo_app_def)
  have u: "demo_app s4 = (demo_app s) \<lparr> callback_count := 3, render_marker := m \<rparr>"
    using d3(2) op r(6) by (simp add: s4_def s3_def set_demo_app_def demo_app_def)
  let ?s = "set_demo_app (\<lambda>u. u \<lparr> ran_once := True \<rparr>) (app_print [newline] (put_marker m (app_print ''APP: demo window callback marker 0x'' s4)))"
  have run: "demo_window_app_task (Some t) s = Some ?s"
    using assms(1) o op q m u3 unfolding demo_window_app_task_def
    by (simp add: s1_def [symmetric] s2_def [symmetric] s3_def [symmetric] s4_def [symmetric] Let_def)
  have f: "wm_windows (desk_wm (ak_desktop s4)) = [DEMO_WINDOW]" "queued_events (event_queue (ak_input s4)) = []"
    "ak_tasks s4 = ak_tasks s" "app_output s4 = app_output s" "desk_heap (ak_desktop s4) = desk_heap d3" "desk_wm (ak_desktop s4) = desk_wm d3"
    using d3(1) q(2) c r by (simp_all add: s4_def s3_def one_window_def app_prints)
  show ?thesis
    using run u f m c(8) r(11) by (simp add: app_prints console_text_def)
qed

lemma demo_task_line: "demo_window_app_task task s = Some s' \<Longrightarrow> line_input (ak_line s') = line_input (ak_line s)"
  by (auto simp: demo_window_app_task_def demo_app_reset_def demo_app_clicks_def set_demo_app_def app_print_def put_marker_def app_puts Let_def
      split: if_splits option.splits prod.splits)

lemma demo_first_run:
  assumes "\<not> registered (demo_app s)" "\<not> ran_once (demo_app s)"
    and "length (ak_tasks s) = TASK_MAX_TASKS" "t < TASK_MAX_TASKS" "task_status (ak_tasks s ! t) = TASK_STATE_UNUSED"
    and "\<forall>i < TASK_MAX_TASKS. task_id (ak_tasks s ! i) \<noteq> 0"
    and "length (q_events (event_queue (ak_input s))) = INPUT_EVENT_QUEUE_CAPACITY"
    and "demo_window_app_register s = (r, s1)"
  shows "r = 0 \<and> (\<exists>s2. demo_window_app_run_once s1 = Some s2 \<and> callback_count (demo_app s2) = 3 \<and>
    wm_windows (desk_wm (ak_desktop s2)) = [DEMO_WINDOW] \<and> queued_events (event_queue (ak_input s2)) = [] \<and>
    render_marker (demo_app s2) = fst (wm_compositor_render (desk_heap (ak_desktop s2)) (desk_wm (ak_desktop s2)) (ak_fb s)) \<and>
    app_output s2 = app_output s @ console_text (''APP: demo window callback marker 0x'' @ hex_digits (render_marker (demo_app s2)) @ [newline]) \<and>
    demo_window_app_register s2 = (0, s2) \<and> demo_window_app_run_once s2 = Some s2 \<and>
    ak_tasks s2 = snd (task_create (ak_tasks s) (Some ''demo-window-app'') (Some DEMO_ENTRY)) \<and> line_input (ak_line s2) = line_input (ak_line s))"
proof -
  obtain k where k: "find_index (\<lambda>i. task_status (ak_tasks s ! i) = TASK_STATE_UNUSED) TASK_MAX_TASKS = Some k"
    using assms(4,5) by (cases "find_index (\<lambda>i. task_status (ak_tasks s ! i) = TASK_STATE_UNUSED) TASK_MAX_TASKS") (auto simp: find_index_None)
  then have kl: "k < TASK_MAX_TASKS"
    by (simp add: find_index_Some)
  define table where "table = snd (task_create (ak_tasks s) (Some ''demo-window-app'') (Some DEMO_ENTRY))"
  have table: "task_create (ak_tasks s) (Some ''demo-window-app'') (Some DEMO_ENTRY) = (Some k, table)"
    "task_id (table ! k) = task_id (ak_tasks s ! k)" "task_entry (table ! k) = Some DEMO_ENTRY"
    using k kl assms(3) by (simp_all add: table_def task_create_def)
  have s1: "r = 0" "s1 = set_demo_app (\<lambda>u. u \<lparr> app_task := Some k, registered := True \<rparr>) (s \<lparr> ak_tasks := table \<rparr>)"
    using assms(1,8) table(1) by (auto simp: demo_window_app_register_def set_demo_app_def demo_app_def Let_def)
  have f: "demo_app s1 = (demo_app s) \<lparr> app_task := Some k, registered := True \<rparr>" "ak_tasks s1 = table" "ak_input s1 = ak_input s"
    "ak_fb s1 = ak_fb s" "app_output s1 = app_output s"
    by (simp_all add: s1(2) app_prints) (simp add: demo_app_def)
  obtain s2 where s2: "demo_window_app_task (Some k) s1 = Some s2" "callback_count (demo_app s2) = 3" "ran_once (demo_app s2)"
    "registered (demo_app s2)" "app_task (demo_app s2) = Some k" "ak_tasks s2 = table"
    "wm_windows (desk_wm (ak_desktop s2)) = [DEMO_WINDOW]" "queued_events (event_queue (ak_input s2)) = []"
    "render_marker (demo_app s2) = fst (wm_compositor_render (desk_heap (ak_desktop s2)) (desk_wm (ak_desktop s2)) (ak_fb s1))"
    "app_output s2 = app_output s1 @ console_text (''APP: demo window callback marker 0x'' @ hex_digits (render_marker (demo_app s2)) @ [newline])"
    using demo_task_runs [of s1 k] f assms(2,6,7) kl table(2) by auto
  have once: "demo_window_app_run_once s1 = Some s2" "demo_window_app_register s2 = (0, s2)" "demo_window_app_run_once s2 = Some s2"
    using s2(1,3-6) f(1,2) table(3)
    by (simp_all add: demo_window_app_run_once_def demo_run_entry_def DEMO_ENTRY_def demo_window_app_register_def demo_window_app_task_def)
  have "line_input (ak_line s2) = line_input (ak_line s)"
    using demo_task_line [OF s2(1)] by (simp add: s1(2) set_demo_app_def)
  then show ?thesis
    using s1(1) once s2 f(4,5) by (intro conjI exI [of _ s2]) (simp_all add: table_def)
qed

text \<open>
  The demonstration application works when it is first registered and run, whatever has happened on
  the desktop before, as long as a task slot is free: it gets a task, its window comes up alone on the
  screen, its handler is called for each of its three mouse events, and it reports the checksum of the
  screen it has drawn. Registering it again or running it again changes nothing.
\<close>

theorem demo_app_runs_once:
  assumes "\<not> registered (demo_app s)" "\<not> ran_once (demo_app s)"
    and "length (ak_tasks s) = TASK_MAX_TASKS" "t < TASK_MAX_TASKS" "task_status (ak_tasks s ! t) = TASK_STATE_UNUSED"
    and "\<forall>i < TASK_MAX_TASKS. task_id (ak_tasks s ! i) \<noteq> 0"
    and "length (q_events (event_queue (ak_input s))) = INPUT_EVENT_QUEUE_CAPACITY"
    and "demo_window_app_register s = (r, s1)"
  shows "r = 0 \<and> (\<exists>s2. demo_window_app_run_once s1 = Some s2 \<and> callback_count (demo_app s2) = 3 \<and>
    wm_windows (desk_wm (ak_desktop s2)) = [DEMO_WINDOW] \<and> queued_events (event_queue (ak_input s2)) = [] \<and>
    render_marker (demo_app s2) = fst (wm_compositor_render (desk_heap (ak_desktop s2)) (desk_wm (ak_desktop s2)) (ak_fb s)) \<and>
    app_output s2 = app_output s @ console_text (''APP: demo window callback marker 0x'' @ hex_digits (render_marker (demo_app s2)) @ [newline]) \<and>
    demo_window_app_register s2 = (0, s2) \<and> demo_window_app_run_once s2 = Some s2)"
  using demo_first_run [OF assms] by blast

definition demo_kernel :: "unit app_kernel" where
  "demo_kernel =
     \<lparr> ak_desktop = \<lparr> desk_heap = demo_heap, desk_wm = demo_two,
         desk_drag = \<lparr> drag_bindings = [], drag_binding_count = 0, drag_binding = None, drag_offset_x = 0, drag_offset_y = 0,
           drag_dispatch_fn = None \<rparr>,
         desk_world = \<lparr> app_bindings = [], app_binding_count = 0,
           app_windows = (\<lambda>_. \<lparr> aw_owner_task = None, aw_on_event = None, aw_user_ctx = 0 \<rparr>),
           app_user = \<lparr> app_task = None, callback_count = 9, render_marker = 0, registered = False, ran_once = False \<rparr> \<rparr> \<rparr>,
       ak_input = \<lparr> mouse = \<lparr> mouse_x = 5, mouse_y = 5, mouse_buttons = 1 \<rparr>, event_queue = demo_queue \<rparr>,
       ak_fb = demo_fb, ak_tasks = task_system_init,
       ak_line = \<lparr> line_buffer = [], line_len = 0, skip_lf_after_cr = False, io_uart = \<lparr> uart_rx = [], uart_tx = [] \<rparr> \<rparr> \<rparr>"

theorem demo_app_runs_once_witness:
  "\<exists>s2. demo_window_app_run_once (snd (demo_window_app_register demo_kernel)) = Some s2 \<and>
     callback_count (demo_app s2) = 3 \<and> wm_windows (desk_wm (ak_desktop s2)) = [DEMO_WINDOW]"
proof -
  have t: "length task_system_init = TASK_MAX_TASKS" "0 < TASK_MAX_TASKS" "task_status (task_system_init ! 0) = TASK_STATE_UNUSED"
    by (simp_all add: task_system_init_def task_reset_def TASK_MAX_TASKS_def)
  have i: "\<forall>i < TASK_MAX_TASKS. task_id (task_system_init ! i) \<noteq> 0"
  proof (intro allI impI)
    fix i
    assume "i < TASK_MAX_TASKS"
    then have "unat (of_nat i + 1 :: u32) = i + 1" "task_id (task_system_init ! i) = of_nat i + 1"
      by (simp_all add: task_system_init_def task_reset_def TASK_MAX_TASKS_def unat_word_ariths unat_of_nat)
    then show "task_id (task_system_init ! i) \<noteq> 0"
      by (metis add_is_0 one_neq_zero unat_0)
  qed
  have q: "length (q_events demo_queue) = INPUT_EVENT_QUEUE_CAPACITY"
    by (simp add: demo_queue_def INPUT_EVENT_QUEUE_CAPACITY_def)
  have k: "\<not> registered (demo_app demo_kernel)" "\<not> ran_once (demo_app demo_kernel)" "ak_tasks demo_kernel = task_system_init"
    "event_queue (ak_input demo_kernel) = demo_queue"
    by (simp_all add: demo_kernel_def demo_app_def)
  show ?thesis
    using demo_app_runs_once [of demo_kernel 0, OF k(1,2) _ t(2) _ _ _ prod.collapse [symmetric]] t(1,3) i q unfolding k(3,4) by blast
qed

end
