(* ===== verification/Checksum.thy ===== *)
theory Checksum
  imports Compositor
begin

unbundle bit_operations_syntax

text \<open>
  What the checksum of a picture tells of it. \<open>kernel_main\<close> takes two pictures for different when their
  FNV-1a checksums (\<open>fnv1a32_pixels\<close>) differ, so that its tests pass has to be shown of the checksums. Modulo 4
  the step for a pixel is an exclusive or with a value of the pixel alone: bit 1 of the checksum says
  whether the number of pixels of the colours \<open>odd_colour\<close> is even. And that number can be
  counted from the rectangles that were drawn, box by box, without going through the pixels.
\<close>

subsection \<open>Bit 1 of the checksum\<close>

definition pixel_hash :: "u32 \<Rightarrow> u32 \<Rightarrow> u32" where
  "pixel_hash value hash =
     for_loop 0 (4 :: u32)
       (\<lambda>byte_index hash. (hash XOR (drop_bit (unat (byte_index * 8)) value AND 0xff)) * 16777619) hash"

lemma pixels_hash:
  assumes "length ps = unat n"
  shows "fnv1a32_pixels ps n = fold pixel_hash ps 2166136261"
proof -
  have "fnv1a32_pixels ps n = fold (\<lambda>k. pixel_hash (ps ! unat (of_nat k :: u32))) [0..<length ps] 2166136261"
    by (simp add: fnv1a32_pixels_def for_loop_fold [of 0 n] pixel_hash_def [abs_def] Let_def assms)
  also have "\<dots> = fold (\<lambda>k. pixel_hash (ps ! k)) [0..<length ps] 2166136261"
    by (rule fold_cong) (auto simp: assms unat_below)
  also have "\<dots> = fold pixel_hash (map ((!) ps) [0..<length ps]) 2166136261"
    by (simp add: fold_map comp_def)
  finally show ?thesis
    by (simp add: map_nth)
qed

lemma times_prime_bits:
  fixes x :: u32
  shows "bit (x * 16777619) 0 \<longleftrightarrow> bit x 0" "bit (x * 16777619) 1 \<longleftrightarrow> bit x 1 \<noteq> bit x 0"
proof -
  have w: "bit w k \<longleftrightarrow> bit (take_bit 2 (unat w)) k" if "k < 2" for w :: u32 and k
    using that by (simp add: bit_take_bit_iff bit_unsigned_iff)
  have "unat (x * 16777619) = take_bit 32 (unat x * 16777619)"
    by (simp add: unat_word_ariths take_bit_eq_mod)
  then have t: "take_bit 2 (unat (x * 16777619)) = take_bit 2 (take_bit 2 (unat x) * 3)"
    using take_bit_mult [of 2 "unat x" 16777619] by simp
  have "take_bit 2 (unat x) < 4"
    by (simp add: take_bit_eq_mod)
  then have "take_bit 2 (unat x) \<in> {0, 1, 2, 3}"
    by auto
  then show "bit (x * 16777619) 0 \<longleftrightarrow> bit x 0" "bit (x * 16777619) 1 \<longleftrightarrow> bit x 1 \<noteq> bit x 0"
    using w [of 0 "x * 16777619"] w [of 1 "x * 16777619"] w [of 0 x] w [of 1 x] unfolding t
    by (auto simp: bit_numeral_rec bit_Suc_0_iff take_bit_eq_mod)
qed

definition odd_colour :: "u32 \<Rightarrow> bool" where
  "odd_colour c \<longleftrightarrow> ((bit c 1 \<noteq> bit c 8) \<noteq> bit c 9) \<noteq> ((bit c 17 \<noteq> bit c 24) \<noteq> bit c 25)"

lemma xor_assoc: "((a \<noteq> b) \<noteq> c) \<longleftrightarrow> (a \<noteq> (b \<noteq> c))" for a b c :: bool
  by blast

lemma pixel_hash_bit: "bit (pixel_hash c h) 1 \<longleftrightarrow> bit h 1 \<noteq> odd_colour c"
proof -
  define f where "f i h = (h XOR (drop_bit (i * 8) c AND 0xff)) * (16777619 :: u32)" for i h
  have u: "pixel_hash c h = f 3 (f 2 (f 1 (f 0 h)))"
    by (simp add: pixel_hash_def for_loop_fold f_def upt_rec)
  have byte: "bit (0xff :: u32) 0" "bit (0xff :: u32) 1"
    by (simp_all add: bit_numeral_rec)
  have s: "bit (f i h) 0 \<longleftrightarrow> bit h 0 \<noteq> bit c (i * 8)" "bit (f i h) 1 \<longleftrightarrow> (bit h 1 \<noteq> bit c (i * 8 + 1)) \<noteq> (bit h 0 \<noteq> bit c (i * 8))" for i h
    unfolding f_def times_prime_bits using byte by (auto simp: bit_xor_iff bit_and_iff bit_drop_bit_eq)
  have t: "bit (f j (f i h)) 1 \<longleftrightarrow> bit h 1 \<noteq> ((bit c (i * 8 + 1) \<noteq> bit c (j * 8)) \<noteq> bit c (j * 8 + 1))" for i j h
    unfolding s by blast
  have n: "0 * 8 + 1 = (1 :: nat)" "1 * 8 = (8 :: nat)" "8 + 1 = (9 :: nat)" "2 * 8 + 1 = (17 :: nat)" "3 * 8 = (24 :: nat)" "24 + 1 = (25 :: nat)"
    by simp_all
  show ?thesis
    unfolding u t n odd_colour_def by (rule xor_assoc)
qed

lemma checksum_bit:
  assumes "length ps = unat n"
  shows "bit (fnv1a32_pixels ps n) 1 \<longleftrightarrow> odd (length (filter odd_colour ps))"
proof -
  have "bit (fold pixel_hash ps h) 1 \<longleftrightarrow> bit h 1 \<noteq> odd (length (filter odd_colour ps))" for h
  proof (induction ps arbitrary: h)
    case (Cons c ps)
    show ?case
      unfolding fold_Cons comp_def Cons.IH pixel_hash_bit by (cases "odd_colour c") simp_all
  qed simp
  moreover have "\<not> bit (2166136261 :: u32) 1"
    by (simp add: bit_numeral_rec)
  ultimately show ?thesis
    by (simp add: pixels_hash [OF assms])
qed

subsection \<open>Counting the pixels of a drawing\<close>

text \<open>
  A box of cells, from the first column and row to the ones after the last. The rectangles drawn are
  listed from the last, each with whether its colour counts; \<open>odd_count\<close> is the parity of the cells of a box that
  show such a colour.
\<close>

type_synonym box = "(nat \<times> nat) \<times> nat \<times> nat"

definition box_cells :: "box \<Rightarrow> (nat \<times> nat) set" where
  "box_cells = (\<lambda>((x0, x1), y0, y1). {x0..<x1} \<times> {y0..<y1})"

definition box_meet :: "box \<Rightarrow> box \<Rightarrow> box" where
  "box_meet = (\<lambda>((x0, x1), y0, y1) ((u0, u1), v0, v1). ((max x0 u0, min x1 u1), max y0 v0, min y1 v1))"

definition box_size :: "box \<Rightarrow> nat" where
  "box_size = (\<lambda>((x0, x1), y0, y1). (x1 - x0) * (y1 - y0))"

fun odd_count :: "(box \<times> bool) list \<Rightarrow> box \<Rightarrow> bool" where
  "odd_count [] b = False"
| "odd_count ((r, counts) # rs) b =
     (if box_size (box_meet b r) = 0 then odd_count rs b
      else (odd_count rs b \<noteq> odd_count rs (box_meet b r)) \<noteq> (counts \<and> odd (box_size (box_meet b r))))"

lemma box_cells_meet: "box_cells (box_meet a b) = box_cells a \<inter> box_cells b"
  by (cases a; cases b) (auto simp: box_cells_def box_meet_def)

lemma box_cells_card: "finite (box_cells b)" "card (box_cells b) = box_size b"
  by (auto simp: box_cells_def box_size_def split: prod.split)

text \<open>The cells of a box that are true after the cells of another one have been set to \<open>v\<close>.\<close>

lemma odd_paint:
  assumes "finite A"
  shows "odd (card {p \<in> A. if p \<in> B then v else f p}) \<longleftrightarrow>
    (odd (card {p \<in> A. f p}) \<noteq> odd (card {p \<in> A \<inter> B. f p})) \<noteq> (v \<and> odd (card (A \<inter> B)))"
proof -
  have f: "finite {p \<in> A - B. f p}" "finite {p \<in> A \<inter> B. f p}" "finite (A \<inter> B)"
    using assms by auto
  have "{p \<in> A. if p \<in> B then v else f p} = {p \<in> A - B. f p} \<union> (if v then A \<inter> B else {})"
    "{p \<in> A. f p} = {p \<in> A - B. f p} \<union> {p \<in> A \<inter> B. f p}"
    by auto
  moreover have "card ({p \<in> A - B. f p} \<union> (if v then A \<inter> B else {})) = card {p \<in> A - B. f p} + card (if v then A \<inter> B else {})"
    "card ({p \<in> A - B. f p} \<union> {p \<in> A \<inter> B. f p}) = card {p \<in> A - B. f p} + card {p \<in> A \<inter> B. f p}"
    using f by (auto intro!: card_Un_disjoint)
  ultimately show ?thesis
    by (simp only: odd_add) (cases v; auto)
qed

text \<open>The pixels of a framebuffer by column and row, and what a list of rectangles says of them.\<close>

definition odd_at :: "framebuffer_info \<Rightarrow> nat \<times> nat \<Rightarrow> bool" where
  "odd_at fb = (\<lambda>(x, y). odd_colour (the (fb_pixels fb) ! (y * unat (fb_stride fb) + x)))"

definition screen_box :: "framebuffer_info \<Rightarrow> box" where
  "screen_box fb = ((0, unat (fb_width fb)), 0, unat (fb_height fb))"

definition drawn :: "(box \<times> bool) list \<Rightarrow> framebuffer_info \<Rightarrow> bool" where
  "drawn rs fb \<longleftrightarrow> fb_ready fb \<and> (\<forall>b. box_cells b \<subseteq> box_cells (screen_box fb) \<longrightarrow> odd (card {p \<in> box_cells b. odd_at fb p}) = odd_count rs b)"

definition fill_box :: "u32 \<Rightarrow> u32 \<Rightarrow> u32 \<Rightarrow> u32 \<Rightarrow> box" where
  "fill_box x y w h = ((unat x, unat x + unat w), unat y, unat y + unat h)"

lemma drawn_fill:
  assumes "drawn rs fb"
  shows "drawn ((fill_box x y w h, odd_colour c) # rs) (framebuffer_fill_rect x y w h c fb)"
proof -
  let ?fb = "framebuffer_fill_rect x y w h c fb" and ?r = "fill_box x y w h"
  have r: "fb_ready fb"
    using assms by (simp add: drawn_def)
  have s: "screen_box ?fb = screen_box fb"
    by (simp add: screen_box_def)
  have at: "odd_at ?fb p = (if p \<in> box_cells ?r then odd_colour c else odd_at fb p)" if in_screen: "p \<in> box_cells (screen_box fb)" for p
  proof -
    obtain px py where p: "p = (px, py)" "px < unat (fb_width fb)" "py < unat (fb_height fb)"
      using in_screen by (cases p) (auto simp: box_cells_def screen_box_def)
    have u: "unat (of_nat px :: u32) = px" "unat (of_nat py :: u32) = py"
      using p by (simp_all add: unat_below)
    have "of_nat px < fb_width fb" "of_nat py < fb_height fb"
      using p by (simp_all add: word_less_nat_alt u)
    from fill_pixel [OF r this, of x y w h c] show ?thesis
      by (auto simp: odd_at_def pixel_at_def p(1) u in_box_def box_cells_def fill_box_def)
  qed
  have "odd (card {p \<in> box_cells b. odd_at ?fb p}) = odd_count ((?r, odd_colour c) # rs) b"
    if b: "box_cells b \<subseteq> box_cells (screen_box fb)" for b
  proof -
    have eq: "{p \<in> box_cells b. odd_at ?fb p} = {p \<in> box_cells b. if p \<in> box_cells ?r then odd_colour c else odd_at fb p}"
      using b at by blast
    have c: "odd (card {p \<in> box_cells b'. odd_at fb p}) = odd_count rs b'" if "box_cells b' \<subseteq> box_cells b" for b'
      using assms b that unfolding drawn_def by blast
    have m: "odd (card {p \<in> box_cells b \<inter> box_cells ?r. odd_at fb p}) = odd_count rs (box_meet b ?r)"
      using c [of "box_meet b ?r"] unfolding box_cells_meet by blast
    have n: "card (box_cells b \<inter> box_cells ?r) = box_size (box_meet b ?r)"
      by (metis box_cells_card(2) box_cells_meet)
    have "odd (card {p \<in> box_cells b. odd_at ?fb p}) \<longleftrightarrow>
        (odd_count rs b \<noteq> odd_count rs (box_meet b ?r)) \<noteq> (odd_colour c \<and> odd (box_size (box_meet b ?r)))"
      unfolding eq odd_paint [OF box_cells_card(1)] m n c [OF order_refl] by (rule refl)
    moreover have "\<not> odd_count rs (box_meet b ?r)" if "box_size (box_meet b ?r) = 0"
    proof -
      have "box_cells (box_meet b ?r) = {}"
        using box_cells_card [of "box_meet b ?r"] that by simp
      then show ?thesis
        using c [of "box_meet b ?r"] by simp
    qed
    ultimately show ?thesis
      by (cases "box_size (box_meet b ?r) = 0") simp_all
  qed
  then show ?thesis
    using fill_ready [OF r] by (simp add: drawn_def s)
qed

lemma drawn_black:
  assumes "fb_ready fb" "set (the (fb_pixels fb)) \<subseteq> {0}" "fb_stride fb = fb_width fb"
  shows "drawn [] fb"
proof -
  obtain ps where ps: "fb_pixels fb = Some ps" "length ps = unat (fb_height fb) * unat (fb_width fb)"
    using assms by (auto simp: fb_ready_def fb_wf_def)
  have "\<not> odd_at fb p" if in_screen: "p \<in> box_cells (screen_box fb)" for p
  proof -
    obtain px py where p: "p = (px, py)" "px < unat (fb_width fb)" "py < unat (fb_height fb)"
      using in_screen by (cases p) (auto simp: box_cells_def screen_box_def)
    have "py * unat (fb_width fb) + px < length ps"
      using cell_bound [OF p(3,2)] ps(2) by simp
    then have "ps ! (py * unat (fb_width fb) + px) = 0"
      using assms(2) ps(1) nth_mem by fastforce
    then show ?thesis
      by (simp add: odd_at_def p(1) ps(1) assms(3) odd_colour_def)
  qed
  then have e: "{p \<in> box_cells b. odd_at fb p} = {}" if "box_cells b \<subseteq> box_cells (screen_box fb)" for b
    using that by blast
  have "odd (card {p \<in> box_cells b. odd_at fb p}) = odd_count [] b" if "box_cells b \<subseteq> box_cells (screen_box fb)" for b
    unfolding e [OF that] by simp
  then show ?thesis
    using assms(1) unfolding drawn_def by blast
qed

text \<open>So bit 1 of the checksum of a drawing can be computed from the rectangles.\<close>

lemma drawn_checksum:
  assumes "drawn rs fb" "fb_stride fb = fb_width fb" "fb_pixels fb = Some ps" "length ps = unat n"
  shows "bit (fnv1a32_pixels ps n) 1 \<longleftrightarrow> odd_count rs (screen_box fb)"
proof -
  define s where "s = unat (fb_width fb)"
  have len: "length ps = unat (fb_height fb) * s"
    using assms by (simp add: drawn_def fb_ready_def fb_wf_def s_def)
  have "bij_betw (\<lambda>(x, y). y * s + x) {p \<in> box_cells (screen_box fb). odd_at fb p} {i. i < length ps \<and> odd_colour (ps ! i)}"
  proof (rule bij_betw_byWitness [where f' = "\<lambda>i. (i mod s, i div s)"])
    show "(\<lambda>(x, y). y * s + x) ` {p \<in> box_cells (screen_box fb). odd_at fb p} \<subseteq> {i. i < length ps \<and> odd_colour (ps ! i)}"
      using assms(2,3) cell_bound by (auto simp: box_cells_def screen_box_def odd_at_def len s_def)
    show "(\<lambda>i. (i mod s, i div s)) ` {i. i < length ps \<and> odd_colour (ps ! i)} \<subseteq> {p \<in> box_cells (screen_box fb). odd_at fb p}"
    proof (rule image_subsetI)
      fix i assume i: "i \<in> {i. i < length ps \<and> odd_colour (ps ! i)}"
      then have "0 < s"
        using len by (cases s) simp_all
      then show "(i mod s, i div s) \<in> {p \<in> box_cells (screen_box fb). odd_at fb p}"
        using i assms(2,3) by (simp add: box_cells_def screen_box_def odd_at_def len s_def [symmetric] less_mult_imp_div_less)
    qed
  qed (auto simp: box_cells_def screen_box_def s_def [symmetric])
  then have "card {p \<in> box_cells (screen_box fb). odd_at fb p} = length (filter odd_colour ps)"
    by (simp add: bij_betw_same_card length_filter_conv_card)
  moreover have "odd (card {p \<in> box_cells (screen_box fb). odd_at fb p}) = odd_count rs (screen_box fb)"
    using assms(1) unfolding drawn_def by blast
  ultimately show ?thesis
    unfolding checksum_bit [OF assms(4)] by simp
qed

end
