(* ===== verification/KernelMain.thy ===== *)
theory KernelMain
  imports DemoApp KeyboardDispatch Checksum "HOL-Library.Monad_Syntax"
begin

unbundle bit_operations_syntax

text \<open>
  The self tests of the kernel (\<open>kernel/main.c\<close>): what \<open>kernel_main\<close> does with the screen, the window
  system and the input between bringing up the machine and starting the shell. Its static counters are
  part of the state; the callbacks it installs write them. \<open>None\<close> is a run that does not return.
  The three windows are local variables of \<open>kernel_main\<close>, with the references below.

  The rest of \<open>kernel_main\<close> is in \<open>Boot.thy\<close>: bringing up the machine, the test of the terminals and the
  call of the shell.
\<close>

record mouse_dispatch_stats =
  move_count :: u32
  button_down_count :: u32
  button_up_count :: u32
  drag_count :: u32
  last_button_down_task :: u32
  last_drag_task :: u32

record keyboard_dispatch_stats =
  text_count_task_1 :: u32
  text_count_task_2 :: u32
  control_count_task_1 :: u32
  control_count_task_2 :: u32
  invalid_endpoint_count :: u32
  marker_hash :: u32

record kernel_user = demo_window_app_state +
  g_mouse_dispatch_stats :: mouse_dispatch_stats

type_synonym kernel_world = "unit kernel_user_ext demo_window_app_state_scheme app_world"

record kernel =
  k_app :: "unit kernel_user_ext app_kernel"
  k_keyboard :: keyboard_state
  k_dispatch :: "keyboard_dispatch_stats keyboard_dispatch_state"
  g_keyboard_dispatch_stats :: keyboard_dispatch_stats

definition MAIN_WINDOW :: win_ref where "MAIN_WINDOW = 101"
definition BACK_WINDOW :: win_ref where "BACK_WINDOW = 102"
definition FRONT_WINDOW :: win_ref where "FRONT_WINDOW = 103"

subsection \<open>The callbacks\<close>

definition mouse_dispatch_reset :: "kernel_world \<Rightarrow> kernel_world" where
  "mouse_dispatch_reset w = w \<lparr> app_user := (app_user w) \<lparr> g_mouse_dispatch_stats :=
     \<lparr> move_count = 0, button_down_count = 0, button_up_count = 0, drag_count = 0,
       last_button_down_task = 0, last_drag_task = 0 \<rparr> \<rparr> \<rparr>"

definition mouse_dispatch_record :: "kernel_world dispatch_fn" where
  "mouse_dispatch_record ident dispatch_type event w =
     (let st = g_mouse_dispatch_stats (app_user w);
          st = (case dispatch_type of
                  WM_DISPATCH_MOVE \<Rightarrow> st \<lparr> move_count := move_count st + 1 \<rparr>
                | WM_DISPATCH_CLICK_DOWN \<Rightarrow>
                    st \<lparr> button_down_count := button_down_count st + 1, last_button_down_task := ident \<rparr>
                | WM_DISPATCH_CLICK_UP \<Rightarrow> st \<lparr> button_up_count := button_up_count st + 1 \<rparr>
                | WM_DISPATCH_DRAG \<Rightarrow> st \<lparr> drag_count := drag_count st + 1, last_drag_task := ident \<rparr>)
      in w \<lparr> app_user := (app_user w) \<lparr> g_mouse_dispatch_stats := st \<rparr> \<rparr>)"

definition keyboard_dispatch_stats_reset :: keyboard_dispatch_stats where
  "keyboard_dispatch_stats_reset =
     \<lparr> text_count_task_1 = 0, text_count_task_2 = 0, control_count_task_1 = 0, control_count_task_2 = 0,
       invalid_endpoint_count = 0, marker_hash = 2166136261 \<rparr>"

definition keyboard_dispatch_hash_byte :: "u8 \<Rightarrow> keyboard_dispatch_stats \<Rightarrow> keyboard_dispatch_stats" where
  "keyboard_dispatch_hash_byte b st = st \<lparr> marker_hash := (marker_hash st XOR ucast b) * 16777619 \<rparr>"

text \<open>The values of the enumeration \<open>keyboard_event_type_t\<close>.\<close>

definition event_type_byte :: "keyboard_event_type \<Rightarrow> u8" where
  "event_type_byte ty = (case ty of KEYBOARD_EVENT_TEXT \<Rightarrow> 0 | KEYBOARD_EVENT_CONTROL \<Rightarrow> 1)"

definition keyboard_dispatch_record :: "u32 \<Rightarrow> keyboard_event \<Rightarrow> keyboard_dispatch_stats \<Rightarrow> keyboard_dispatch_stats" where
  "keyboard_dispatch_record endpoint_id event st =
     (let st = keyboard_dispatch_hash_byte (ucast (endpoint_id AND 0xff)) st;
          st = keyboard_dispatch_hash_byte (event_type_byte (kev_type event)) st
      in case kev_type event of
           KEYBOARD_EVENT_TEXT \<Rightarrow>
             let st = keyboard_dispatch_hash_byte (char_u8 (kev_text event)) st in
             if endpoint_id = 1 then st \<lparr> text_count_task_1 := text_count_task_1 st + 1 \<rparr>
             else if endpoint_id = 2 then st \<lparr> text_count_task_2 := text_count_task_2 st + 1 \<rparr>
             else st \<lparr> invalid_endpoint_count := invalid_endpoint_count st + 1 \<rparr>
         | KEYBOARD_EVENT_CONTROL \<Rightarrow>
             let st = keyboard_dispatch_hash_byte (kev_control event) st in
             if endpoint_id = 1 then st \<lparr> control_count_task_1 := control_count_task_1 st + 1 \<rparr>
             else if endpoint_id = 2 then st \<lparr> control_count_task_2 := control_count_task_2 st + 1 \<rparr>
             else st \<lparr> invalid_endpoint_count := invalid_endpoint_count st + 1 \<rparr>)"

subsection \<open>Access to the parts of the state\<close>

definition on_app :: "(unit kernel_user_ext app_kernel \<Rightarrow> unit kernel_user_ext app_kernel) \<Rightarrow> kernel \<Rightarrow> kernel" where
  "on_app f k = k \<lparr> k_app := f (k_app k) \<rparr>"

definition k_desktop :: "kernel \<Rightarrow> kernel_world desktop" where
  "k_desktop k = ak_desktop (k_app k)"

definition set_desktop :: "kernel_world desktop \<Rightarrow> kernel \<Rightarrow> kernel" where
  "set_desktop d = on_app (\<lambda>a. a \<lparr> ak_desktop := d \<rparr>)"

definition kernel_print :: "string \<Rightarrow> kernel \<Rightarrow> kernel" where
  "kernel_print str = on_app (app_print str)"

definition console_put_hex32 :: "u32 \<Rightarrow> kernel \<Rightarrow> kernel" where
  "console_put_hex32 v = on_app (\<lambda>a. fold app_putc (hex_digits v) a)"

definition kernel_render :: "kernel \<Rightarrow> u32 \<times> kernel" where
  "kernel_render k =
     (let (m, fb) = wm_compositor_render (desk_heap (k_desktop k)) (desk_wm (k_desktop k)) (ak_fb (k_app k))
      in (m, on_app (\<lambda>a. a \<lparr> ak_fb := fb \<rparr>) k))"

text \<open>A window as \<open>kernel_main\<close> makes it: initialised, then coloured.\<close>

definition coloured_window :: "string \<Rightarrow> u32 \<Rightarrow> u32 \<Rightarrow> u32 \<Rightarrow> u32 \<Rightarrow> u32 \<Rightarrow> u32 \<Rightarrow> wm_window" where
  "coloured_window window_title x y width height title_bar content =
     (let window = wm_window_init (Some window_title) x y width height
      in window \<lparr> style := (style window) \<lparr> title_bar_color := title_bar, content_color := content \<rparr> \<rparr>)"

definition main_window :: wm_window where
  "main_window = coloured_window ''Terminal'' 32 20 220 140 0x002f4f89 0x00f8f9fb"

definition back_window :: wm_window where
  "back_window = coloured_window ''Back'' 48 40 220 160 0x00326f95 0x00e9f3fb"

definition front_window :: wm_window where
  "front_window = coloured_window ''Front'' 120 92 220 160 0x00814444 0x00f5e6de"

definition set_two_windows :: "win_heap \<Rightarrow> win_heap" where
  "set_two_windows heap = heap (BACK_WINDOW := back_window, FRONT_WINDOW := front_window)"

text \<open>Both windows on an empty scene: \<open>True\<close> when both calls succeed.\<close>

definition add_two_windows :: "kernel_world desktop \<Rightarrow> bool \<times> kernel_world desktop" where
  "add_two_windows d =
     (let (r, wm) = wm_compositor_add_window (desk_heap d) (desk_wm d) (Some BACK_WINDOW);
          d = d \<lparr> desk_wm := wm \<rparr>
      in if r \<noteq> 0 then (False, d)
         else let (r, wm) = wm_compositor_add_window (desk_heap d) (desk_wm d) (Some FRONT_WINDOW)
              in (r = 0, d \<lparr> desk_wm := wm \<rparr>))"

definition reset_scene :: "u32 \<Rightarrow> kernel_world desktop \<Rightarrow> kernel_world desktop" where
  "reset_scene color d = d \<lparr> desk_wm := snd (wm_compositor_reset (desk_wm d) color) \<rparr>"

subsection \<open>The self tests\<close>

definition gfx_test :: "kernel \<Rightarrow> kernel option" where
  "gfx_test k =
     (let (r, fb) = framebuffer_init (ak_fb (k_app k));
          k = on_app (\<lambda>a. a \<lparr> ak_fb := fb \<rparr>) k
      in if r \<noteq> 0 then None
         else
           let k = kernel_print (''GFX: framebuffer initialized'' @ [newline]) k;
               (marker_a, fb) = framebuffer_render_test_pattern (ak_fb (k_app k));
               (marker_b, fb) = framebuffer_render_test_pattern fb;
               k = on_app (\<lambda>a. a \<lparr> ak_fb := fb \<rparr>) k
           in Some (if marker_a = marker_b
                then kernel_print [newline] (console_put_hex32 marker_a (kernel_print ''GFX: deterministic marker 0x'' k))
                else kernel_print [newline] (console_put_hex32 marker_b (kernel_print '' != 0x''
                       (console_put_hex32 marker_a (kernel_print ''GFX: marker mismatch 0x'' k))))))"

definition single_window_test :: "kernel \<Rightarrow> kernel" where
  "single_window_test k =
     (let d = k_desktop k;
          d = d \<lparr> desk_heap := (desk_heap d) (MAIN_WINDOW := main_window) \<rparr>;
          d = reset_scene 0x00161c26 d;
          (r, wm) = wm_compositor_add_window (desk_heap d) (desk_wm d) (Some MAIN_WINDOW);
          k = set_desktop (d \<lparr> desk_wm := wm \<rparr>) k
      in if r = 0 then
           let (wm_marker, k) = kernel_render k
           in kernel_print [newline] (console_put_hex32 wm_marker (kernel_print ''WM: single window composed marker 0x'' k))
         else kernel_print (''WM: single window compose failed'' @ [newline]) k)"

definition overlap_test :: "kernel \<Rightarrow> bool \<times> u32 \<times> kernel" where
  "overlap_test k =
     (let d = k_desktop k;
          d = reset_scene 0x0012181f (d \<lparr> desk_heap := set_two_windows (desk_heap d) \<rparr>);
          (ok, d) = add_two_windows d;
          k = set_desktop d k
      in if \<not> ok then (False, 0, k)
         else
           let hit_before = wm_compositor_hit_test (desk_heap d) (desk_wm d) 140 120;
               (marker_before, k) = kernel_render k;
               (r, wm) = wm_compositor_activate_window (desk_wm d) (Some BACK_WINDOW);
               d = d \<lparr> desk_wm := wm \<rparr>;
               k = set_desktop d k
           in if r \<noteq> 0 then (False, 0, k)
              else
                let hit_after = wm_compositor_hit_test (desk_heap d) (desk_wm d) 140 120;
                    active = wm_compositor_active_window (desk_wm d);
                    (marker_after, k) = kernel_render k
                in (hit_before = Some FRONT_WINDOW \<and> hit_after = Some BACK_WINDOW \<and> active = Some BACK_WINDOW \<and>
                    marker_before \<noteq> marker_after, marker_after, k))"

definition register_two_windows :: "kernel_world desktop \<Rightarrow> bool \<times> kernel_world desktop" where
  "register_two_windows d =
     (let (ok, d) = add_two_windows d
      in if \<not> ok then (False, d)
         else
           let (r, g) = wm_drag_register_window (desk_drag d) (Some BACK_WINDOW) 1; d = d \<lparr> desk_drag := g \<rparr>
           in if r \<noteq> 0 then (False, d)
              else let (r, g) = wm_drag_register_window (desk_drag d) (Some FRONT_WINDOW) 2
                   in (r = 0, d \<lparr> desk_drag := g \<rparr>))"

definition drag_input :: "input_state \<Rightarrow> input_state" where
  "drag_input i =
     (let i = snd (mouse_emit_move 150 100 0 i);
          i = snd (mouse_emit_button_down 150 100 INPUT_MOUSE_BUTTON_LEFT i);
          i = snd (mouse_emit_move 180 120 INPUT_MOUSE_BUTTON_LEFT i);
          i = snd (mouse_emit_move 210 142 INPUT_MOUSE_BUTTON_LEFT i)
      in snd (mouse_emit_button_up 210 142 INPUT_MOUSE_BUTTON_LEFT i))"

definition mouse_test :: "kernel \<Rightarrow> (bool \<times> u32 \<times> kernel) option" where
  "mouse_test k =
     (let d = k_desktop k;
          d = reset_scene 0x0012171d (d \<lparr> desk_heap := set_two_windows (desk_heap d) \<rparr>);
          d = d \<lparr> desk_drag := wm_drag_set_dispatch (wm_drag_reset (desk_drag d)) (Some mouse_dispatch_record),
                  desk_world := mouse_dispatch_reset (desk_world d) \<rparr>;
          i = mouse_reset (ak_input (k_app k));
          (ok, d) = register_two_windows d
      in if \<not> ok then Some (False, 0, on_app (\<lambda>a. a \<lparr> ak_input := i \<rparr>) (set_desktop d k))
         else
           let front_initial_x = rect_x (frame (desk_heap d FRONT_WINDOW));
               front_initial_y = rect_y (frame (desk_heap d FRONT_WINDOW));
               i = drag_input i
           in case wm_drag_dispatch_pending (event_queue i) d of
                None \<Rightarrow> None
              | Some (n, q, d) \<Rightarrow>
                  let k = on_app (\<lambda>a. a \<lparr> ak_input := i \<lparr> event_queue := q \<rparr> \<rparr>) (set_desktop d k);
                      active = wm_compositor_active_window (desk_wm d);
                      (marker, k) = kernel_render k;
                      st = g_mouse_dispatch_stats (app_user (desk_world d));
                      front = frame (desk_heap d FRONT_WINDOW);
                      back = frame (desk_heap d BACK_WINDOW)
                  in Some (n = 5 \<and> button_down_count st = 1 \<and> last_button_down_task st = 2 \<and> drag_count st \<ge> 1 \<and>
                       last_drag_task st = 2 \<and> rect_x front > front_initial_x \<and> rect_y front > front_initial_y \<and>
                       rect_x back = 48 \<and> rect_y back = 40 \<and> active = Some FRONT_WINDOW, marker, k))"

definition register_two_endpoints ::
  "kernel_world desktop \<Rightarrow> keyboard_dispatch_stats keyboard_dispatch_state \<Rightarrow>
   bool \<times> kernel_world desktop \<times> keyboard_dispatch_stats keyboard_dispatch_state" where
  "register_two_endpoints d e =
     (let (ok, d) = add_two_windows d
      in if \<not> ok then (False, d, e)
         else
           let (r, e) = keyboard_dispatch_register_window e (Some BACK_WINDOW) 1
           in if r \<noteq> 0 then (False, d, e)
              else let (r, e) = keyboard_dispatch_register_window e (Some FRONT_WINDOW) 2 in (r = 0, d, e))"

text \<open>Some bytes from the keyboard.\<close>

definition scancodes :: "wm_state \<Rightarrow> u8 list \<Rightarrow> keyboard_state \<Rightarrow> keyboard_state" where
  "scancodes wm = fold (\<lambda>c kb. snd (keyboard_handle_scancode wm kb c))"

text \<open>The keys for the window behind, once it could be activated.\<close>

definition keyboard_back_events ::
  "keyboard_dispatch_stats keyboard_dispatch_state \<Rightarrow> kernel_world desktop \<Rightarrow> keyboard_state \<Rightarrow> keyboard_dispatch_stats \<Rightarrow>
   (nat \<times> kernel_world desktop \<times> keyboard_state \<times> keyboard_dispatch_stats) option" where
  "keyboard_back_events e d kb st =
     (let (r, wm) = wm_compositor_activate_window (desk_wm d) (Some BACK_WINDOW); d = d \<lparr> desk_wm := wm \<rparr>
      in if r \<noteq> 0 then Some (0, d, kb, st)
         else case keyboard_dispatch_pending e (scancodes wm [0x18, 0x0e] kb) st of
           None \<Rightarrow> None
         | Some (n, kb, st) \<Rightarrow> Some (n, d, kb, st))"

definition keyboard_test :: "kernel \<Rightarrow> (bool \<times> u32 \<times> kernel) option" where
  "keyboard_test k =
     (let d = k_desktop k;
          d = reset_scene 0x0014131a (d \<lparr> desk_heap := set_two_windows (desk_heap d) \<rparr>);
          kb = keyboard_reset (k_keyboard k);
          e = keyboard_dispatch_set_sink (keyboard_dispatch_reset (k_dispatch k)) (Some keyboard_dispatch_record);
          (ok, d, e) = register_two_endpoints d e;
          finish = (\<lambda>d kb st. set_desktop d k \<lparr> k_keyboard := kb, k_dispatch := e, g_keyboard_dispatch_stats := st \<rparr>)
      in if \<not> ok then Some (False, 0, finish d kb keyboard_dispatch_stats_reset)
         else do {
           (n_front, kb, st) \<leftarrow> keyboard_dispatch_pending e (scancodes (desk_wm d) [0x23, 0x17, 0x1c] kb) keyboard_dispatch_stats_reset;
           (n_back, d, kb, st) \<leftarrow> keyboard_back_events e d kb st;
           Some (n_front = 3 \<and> n_back = 2 \<and> n_front + n_back = 5 \<and> keyboard_pending_count kb = 0 \<and>
             text_count_task_1 st = 1 \<and> control_count_task_1 st = 1 \<and> text_count_task_2 st = 2 \<and>
             control_count_task_2 st = 1 \<and> invalid_endpoint_count st = 0 \<and>
             wm_compositor_active_window (desk_wm d) = Some BACK_WINDOW, marker_hash st, finish d kb st)
         })"

text \<open>The report of a test, and the tests in their order.\<close>

definition report :: "string \<Rightarrow> bool \<times> u32 \<times> kernel \<Rightarrow> kernel" where
  "report what = (\<lambda>(ok, marker, k).
     if ok then kernel_print [newline] (console_put_hex32 marker (kernel_print (what @ '' marker 0x'') k))
     else kernel_print (what @ '' failed'' @ [newline]) k)"

definition kernel_self_tests :: "kernel \<Rightarrow> kernel option" where
  "kernel_self_tests k = do {
     k \<leftarrow> gfx_test k;
     let k = single_window_test k;
     let k = report ''WM: overlap focus activation'' (overlap_test k);
     r \<leftarrow> mouse_test k;
     let k = report ''WM: mouse dispatch drag'' r;
     r \<leftarrow> keyboard_test k;
     Some (report ''WM: keyboard focus routing'' r)
   }"

definition kernel_run_demo :: "kernel \<Rightarrow> kernel option" where
  "kernel_run_demo k =
     (let (r, a) = demo_window_app_register (k_app k); k = k \<lparr> k_app := a \<rparr>
      in if r = 0 then map_option (\<lambda>a. k \<lparr> k_app := a \<rparr>) (demo_window_app_run_once a)
         else Some (kernel_print (''APP: demo window register failed'' @ [newline]) k))"

subsection \<open>Pictures\<close>

text \<open>What a scene shows on the screen: the windows one over the other on the background.\<close>

definition black_screen :: framebuffer_info where
  "black_screen = \<lparr> fb_pixels = Some (replicate 64000 0), fb_width = 320, fb_height = 200, fb_stride = 320 \<rparr>"

definition picture :: "u32 \<Rightarrow> wm_window list \<Rightarrow> framebuffer_info" where
  "picture color ws = fold (\<lambda>w. wm_draw_window (Some w)) ws (framebuffer_fill_rect 0 0 320 200 color black_screen)"

definition picture_marker :: "framebuffer_info \<Rightarrow> u32" where
  "picture_marker fb = fnv1a32_pixels (the (fb_pixels fb)) 64000"

abbreviation screen :: "framebuffer_info \<Rightarrow> bool" where
  "screen fb \<equiv> same_screen black_screen fb"

lemma black_wf: "fb_wf black_screen"
  by (simp add: black_screen_def fb_wf_def)

lemma screen_dims:
  assumes "screen fb"
  shows "fb_wf fb" "fb_width fb = 320" "fb_height fb = 200" "fb_stride fb = 320" "\<exists>ps. fb_pixels fb = Some ps \<and> length ps = 64000"
proof -
  show d: "fb_wf fb" "fb_width fb = 320" "fb_height fb = 200" "fb_stride fb = 320"
    using assms by (simp_all add: same_screen_def black_screen_def)
  obtain ps where "fb_pixels fb = Some ps"
    using assms by (auto simp: same_screen_def black_screen_def)
  then show "\<exists>ps. fb_pixels fb = Some ps \<and> length ps = 64000"
    using d by (auto simp: fb_wf_def)
qed

lemma draw_layers_fold:
  assumes "stack_wf stack" "n \<le> length (stack_list stack)"
  shows "draw_layers heap stack [0..<n] fb = fold (\<lambda>w. wm_draw_window (Some w)) (map heap (take n (stack_list stack))) fb"
  using assms(2)
proof (induction n)
  case (Suc n)
  then have "take (Suc n) (stack_list stack) = take n (stack_list stack) @ [stack_list stack ! n]"
    by (simp add: take_Suc_conv_app_nth)
  then show ?case
    using Suc get_at_wf [OF assms(1), of n] by (simp add: draw_layers_append)
qed simp

lemma screen_draw: "screen fb \<Longrightarrow> screen (fold (\<lambda>w. wm_draw_window (Some w)) ws fb)"
proof (induction ws arbitrary: fb)
  case (Cons w ws)
  have "screen (wm_draw_window (Some w) fb)"
    using Cons.prems by (simp add: wm_draw_window_def Let_def same_screen_step)
  then show ?case
    using Cons.IH by simp
qed simp

lemma screen_fill:
  assumes "screen fb"
  shows "framebuffer_fill_rect 0 0 320 200 c fb = framebuffer_fill_rect 0 0 320 200 c black_screen"
proof -
  obtain ps where ps: "fb_pixels fb = Some ps" "length ps = 64000"
    using screen_dims(5) [OF assms] by blast
  have b: "fb_width black_screen = 320" "fb_height black_screen = 200" "fb_stride black_screen = 320"
    "fb_pixels black_screen = Some (replicate 64000 0)"
    by (simp_all add: black_screen_def)
  show ?thesis
    using fill_screen [OF screen_dims(1) [OF assms] ps(1), of c] fill_screen [OF black_wf b(4), of c]
    by (intro framebuffer_info.equality) (simp_all add: screen_dims [OF assms] b ps(2))
qed

lemma render_picture:
  assumes "screen fb" "wm_wf wm" "ws = map heap (wm_windows wm)"
  shows "wm_compositor_render heap wm fb =
      (picture_marker (picture (background_color (scene wm)) ws), picture (background_color (scene wm)) ws)"
    "screen (picture (background_color (scene wm)) ws)"
proof -
  have s: "stack_wf (layers (scene wm))"
    using assms(2) by (simp add: wm_wf_def)
  have p: "draw_layers heap (layers (scene wm)) [0..<wm_layers_count (layers (scene wm))]
      (framebuffer_fill_rect 0 0 320 200 (background_color (scene wm)) fb) = picture (background_color (scene wm)) ws"
    using draw_layers_fold [OF s order_refl] stack_wfD(4) [OF s]
    by (simp add: picture_def screen_fill [OF assms(1)] assms(3) wm_windows_def wm_layers_count_def)
  have "screen (framebuffer_fill_rect 0 0 320 200 c black_screen)" for c
    by (rule same_screen_step) (simp add: same_screen_def black_wf)
  then show "screen (picture (background_color (scene wm)) ws)"
    unfolding picture_def by (rule screen_draw)
  obtain ps where n: "fb_pixels fb = Some ps"
    using screen_dims(5) [OF assms(1)] by blast
  have "mul_u32_overflow 200 320 = Some 64000"
    by (simp add: mul_u32_overflow_nat)
  then show "wm_compositor_render heap wm fb =
      (picture_marker (picture (background_color (scene wm)) ws), picture (background_color (scene wm)) ws)"
    using n by (simp add: wm_compositor_render_def screen_dims [OF assms(1)] p picture_marker_def Let_def)
qed

subsection \<open>The scenes of the tests\<close>

lemma test_windows_valid:
  "wm_window_is_valid (Some main_window)" "wm_window_is_valid (Some back_window)" "wm_window_is_valid (Some front_window)"
  by (simp_all add: main_window_def back_window_def front_window_def coloured_window_def wm_window_is_valid_def
      wm_window_title_bar_rect_def wm_window_content_rect_def wm_window_init_def Let_def effective_border_def min_u32_def
      safe_sub_u32_def saturating_add_u32_def WM_DEFAULT_BORDER_THICKNESS_def WM_DEFAULT_TITLE_BAR_HEIGHT_def)
    (simp_all add: word_le_nat_alt)

lemma two_windows [simp]:
  "set_two_windows h BACK_WINDOW = back_window" "set_two_windows h FRONT_WINDOW = front_window"
  "BACK_WINDOW \<noteq> FRONT_WINDOW" "FRONT_WINDOW \<noteq> BACK_WINDOW"
  by (simp_all add: set_two_windows_def BACK_WINDOW_def FRONT_WINDOW_def)

lemma frames [simp]:
  "frame back_window = \<lparr> rect_x = 48, rect_y = 40, rect_width = 220, rect_height = 160 \<rparr>"
  "frame front_window = \<lparr> rect_x = 120, rect_y = 92, rect_width = 220, rect_height = 160 \<rparr>"
  by (simp_all add: back_window_def front_window_def coloured_window_def wm_window_init_def)

text \<open>
  The two pictures of the overlap test are different, and their checksums tell: bit 1 does. Each window
  is four rectangles.
\<close>

lemma black_drawn: "drawn [] black_screen"
  using black_wf by (intro drawn_black) (simp_all add: fb_ready_def black_screen_def)

lemma test_rects:
  "wm_window_title_bar_rect back_window = \<lparr> rect_x = 49, rect_y = 41, rect_width = 218, rect_height = 18 \<rparr>"
  "wm_window_content_rect back_window = \<lparr> rect_x = 49, rect_y = 59, rect_width = 218, rect_height = 140 \<rparr>"
  "wm_window_title_bar_rect front_window = \<lparr> rect_x = 121, rect_y = 93, rect_width = 218, rect_height = 18 \<rparr>"
  "wm_window_content_rect front_window = \<lparr> rect_x = 121, rect_y = 111, rect_width = 218, rect_height = 140 \<rparr>"
  by (simp_all add: wm_window_title_bar_rect_def wm_window_content_rect_def back_window_def front_window_def coloured_window_def
      wm_window_init_def Let_def effective_border_def min_u32_def safe_sub_u32_def saturating_add_u32_def
      WM_DEFAULT_BORDER_THICKNESS_def WM_DEFAULT_TITLE_BAR_HEIGHT_def word_le_nat_alt)

lemma test_titles: "hash_title ''Back'' = 0xc2954bc2" "hash_title ''Front'' = 0x6de89878"
  by (simp_all add: hash_title_def)

lemma draw_back:
  "wm_draw_window (Some back_window) fb = framebuffer_fill_rect 53 45 136 1 0x00252b22
     (framebuffer_fill_rect 49 59 218 140 0x00e9f3fb (framebuffer_fill_rect 49 41 218 18 0x00326f95
       (framebuffer_fill_rect 48 40 220 160 0x00d8d8d8 fb)))"
proof -
  have "title back_window = ''Back''" "border_color (style back_window) = 0x00d8d8d8"
    "title_bar_color (style back_window) = 0x00326f95" "content_color (style back_window) = 0x00e9f3fb"
    by (simp_all add: back_window_def coloured_window_def wm_window_init_def)
  then show ?thesis
    using test_windows_valid by (simp add: wm_draw_window_def Let_def test_rects test_titles)
qed

lemma draw_front:
  "wm_draw_window (Some front_window) fb = framebuffer_fill_rect 125 97 122 1 0x00282828
     (framebuffer_fill_rect 121 111 218 140 0x00f5e6de (framebuffer_fill_rect 121 93 218 18 0x00814444
       (framebuffer_fill_rect 120 92 220 160 0x00d8d8d8 fb)))"
proof -
  have "title front_window = ''Front''" "border_color (style front_window) = 0x00d8d8d8"
    "title_bar_color (style front_window) = 0x00814444" "content_color (style front_window) = 0x00f5e6de"
    by (simp_all add: front_window_def coloured_window_def wm_window_init_def)
  then show ?thesis
    using test_windows_valid by (simp add: wm_draw_window_def Let_def test_rects test_titles)
qed

lemma picture_marker_bit:
  assumes "drawn rs (picture color ws)" "screen (picture color ws)"
  shows "bit (picture_marker (picture color ws)) 1 \<longleftrightarrow> odd_count rs ((0, 320), 0, 200)"
proof -
  obtain ps where ps: "fb_pixels (picture color ws) = Some ps" "length ps = 64000"
    using screen_dims(5) [OF assms(2)] by blast
  then show ?thesis
    using drawn_checksum [OF assms(1) _ ps(1), of 64000] screen_dims [OF assms(2)]
    by (simp add: picture_marker_def screen_box_def)
qed

lemma test_colours:
  "\<not> odd_colour 0x0012181f" "\<not> odd_colour 0x00d8d8d8" "odd_colour 0x00326f95" "odd_colour 0x00e9f3fb" "odd_colour 0x00252b22"
  "\<not> odd_colour 0x00814444" "\<not> odd_colour 0x00f5e6de" "\<not> odd_colour 0x00282828"
  by (simp_all add: odd_colour_def bit_numeral_rec)

lemma overlap_pictures_differ:
  "picture_marker (picture 0x0012181f [back_window, front_window]) \<noteq> picture_marker (picture 0x0012181f [front_window, back_window])"
proof -
  have s: "screen (picture c ws)" for c ws
    unfolding picture_def by (rule screen_draw, rule same_screen_step(1)) (simp add: same_screen_def black_wf)
  note d = drawn_fill [OF drawn_fill [OF drawn_fill [OF drawn_fill [OF drawn_fill [OF drawn_fill [OF drawn_fill [OF drawn_fill
      [OF drawn_fill [OF black_drawn]]]]]]]]]
  have p: "picture 0x0012181f [back_window, front_window] = wm_draw_window (Some front_window) (wm_draw_window (Some back_window)
      (framebuffer_fill_rect 0 0 320 200 0x0012181f black_screen))"
    "picture 0x0012181f [front_window, back_window] = wm_draw_window (Some back_window) (wm_draw_window (Some front_window)
      (framebuffer_fill_rect 0 0 320 200 0x0012181f black_screen))"
    by (simp_all add: picture_def)
  have "bit (picture_marker (picture 0x0012181f [back_window, front_window])) 1"
    by (subst picture_marker_bit [OF _ s], unfold p draw_back draw_front, rule d)
      (simp add: test_colours fill_box_def box_meet_def box_size_def)
  moreover have "\<not> bit (picture_marker (picture 0x0012181f [front_window, back_window])) 1"
    by (subst picture_marker_bit [OF _ s], unfold p draw_back draw_front, rule d)
      (simp add: test_colours fill_box_def box_meet_def box_size_def)
  ultimately show ?thesis
    by metis
qed

lemma scene_render:
  assumes "screen fb" "scene_is color ws wm"
  shows "wm_compositor_render heap wm fb = (picture_marker (picture color (map heap ws)), picture color (map heap ws))"
    "screen (picture color (map heap ws))"
  using render_picture [OF assms(1), of wm] assms(2) by (auto simp: scene_is_def)

lemma scene_two:
  assumes "desk_heap d = set_two_windows h" "d' = reset_scene color d"
  shows "\<exists>wm. add_two_windows d' = (True, d' \<lparr> desk_wm := wm \<rparr>) \<and> scene_is color [BACK_WINDOW, FRONT_WINDOW] wm \<and>
    active_window wm = Some FRONT_WINDOW"
proof -
  have s0: "scene_is color [] (desk_wm d')" and h: "desk_heap d' = set_two_windows h"
    using scene_reset by (simp_all add: assms reset_scene_def)
  obtain s1 where s1: "wm_compositor_add_window (set_two_windows h) (desk_wm d') (Some BACK_WINDOW) = (0, s1)" "scene_is color [BACK_WINDOW] s1"
    using scene_add [OF s0, of "set_two_windows h" BACK_WINDOW] test_windows_valid by (auto simp: WM_MAX_WINDOWS_def)
  obtain s2 where s2: "wm_compositor_add_window (set_two_windows h) s1 (Some FRONT_WINDOW) = (0, s2)" "scene_is color [BACK_WINDOW, FRONT_WINDOW] s2"
    using scene_add [OF s1(2), of "set_two_windows h" FRONT_WINDOW] test_windows_valid by (auto simp: WM_MAX_WINDOWS_def)
  have "active_window s2 = Some FRONT_WINDOW"
    using s2(2) by (simp add: scene_is_def wm_wf_def)
  then show ?thesis
    using s1(1) s2 by (intro exI [of _ s2]) (simp add: add_two_windows_def h)
qed

lemma console_text_append: "console_text (a @ b) = console_text a @ console_text b"
  by (simp add: console_text_def)

text \<open>What the kernel has written.\<close>

abbreviation kernel_output :: "kernel \<Rightarrow> string" where
  "kernel_output k \<equiv> app_output (k_app k)"

lemma kernel_prints [simp]:
  "kernel_output (kernel_print str k) = kernel_output k @ console_text str"
  "kernel_output (console_put_hex32 v k) = kernel_output k @ console_text (hex_digits v)"
  using app_prints(2) [unfolded put_marker_def]
  by (simp_all add: kernel_print_def console_put_hex32_def on_app_def app_prints)

text \<open>Printing only prints.\<close>

definition quiet :: "kernel \<Rightarrow> kernel \<Rightarrow> bool" where
  "quiet k k' \<longleftrightarrow> k_desktop k' = k_desktop k \<and> ak_input (k_app k') = ak_input (k_app k) \<and> ak_fb (k_app k') = ak_fb (k_app k) \<and>
     k_keyboard k' = k_keyboard k \<and> k_dispatch k' = k_dispatch k \<and> g_keyboard_dispatch_stats k' = g_keyboard_dispatch_stats k"

lemma quiet_prints [simp]: "quiet k (kernel_print str k')= quiet k k'" "quiet k (console_put_hex32 v k') = quiet k k'" "quiet k k"
  by (simp_all add: quiet_def kernel_print_def console_put_hex32_def on_app_def k_desktop_def app_puts app_print_def)

text \<open>The state of the kernel that its tests need: the arrays have their sizes, and the screen is set up.\<close>

definition kernel_sized :: "kernel \<Rightarrow> bool" where
  "kernel_sized k \<longleftrightarrow> length (q_events (event_queue (ak_input (k_app k)))) = INPUT_EVENT_QUEUE_CAPACITY \<and>
     length (kb_events (k_keyboard k)) = KEYBOARD_EVENT_QUEUE_CAPACITY"

definition kernel_ready :: "kernel \<Rightarrow> bool" where
  "kernel_ready k \<longleftrightarrow> kernel_sized k \<and> screen (ak_fb (k_app k))"

lemma quiet_ready: "quiet k k' \<Longrightarrow> kernel_ready k \<Longrightarrow> kernel_ready k'"
  by (simp add: quiet_def kernel_ready_def kernel_sized_def)

lemma gfx_test_passes:
  assumes "kernel_sized k"
  shows "\<exists>k'. gfx_test k = Some k' \<and> kernel_ready k' \<and> kernel_output k' = kernel_output k @
    console_text (''GFX: framebuffer initialized'' @ [newline] @ ''GFX: deterministic marker 0x'' @
      hex_digits (fst (framebuffer_render_test_pattern black_screen)) @ [newline])"
proof -
  have i: "framebuffer_init fb = (0, black_screen)" for fb
    by (simp add: framebuffer_init_def video_init_def video_get_mode_def VIDEO_FB_WIDTH_def VIDEO_FB_HEIGHT_def black_screen_def)
  obtain m fb where p: "framebuffer_render_test_pattern black_screen = (m, fb)" by force
  have s: "screen fb"
    using test_pattern_same_screen [OF black_wf] p by simp
  then have p2: "framebuffer_render_test_pattern fb = (m, fb)"
    using test_pattern_deterministic [OF black_wf screen_dims(1) _ s] p by (simp add: black_screen_def)
  define k1 where "k1 = kernel_print (''GFX: framebuffer initialized'' @ [newline]) (on_app (\<lambda>a. a \<lparr> ak_fb := black_screen \<rparr>) k)"
  define k2 where "k2 = on_app (\<lambda>a. a \<lparr> ak_fb := fb \<rparr>) k1"
  have k2: "kernel_ready k2" "kernel_output k2 = kernel_output k @ console_text (''GFX: framebuffer initialized'' @ [newline])"
    using assms s by (simp_all add: k2_def k1_def kernel_ready_def kernel_sized_def on_app_def kernel_print_def app_prints)
  have "ak_fb (k_app k1) = black_screen"
    by (simp add: k1_def kernel_print_def on_app_def app_print_def)
  then have "gfx_test k = Some (kernel_print [newline] (console_put_hex32 m (kernel_print ''GFX: deterministic marker 0x'' k2)))"
    unfolding gfx_test_def i Let_def prod.case k1_def [symmetric] by (simp add: p p2 k2_def)
  moreover have "kernel_ready (kernel_print [newline] (console_put_hex32 m (kernel_print ''GFX: deterministic marker 0x'' k2)))"
    by (rule quiet_ready [OF _ k2(1)]) simp
  ultimately show ?thesis
    using k2(2) by (simp add: p console_text_def)
qed


lemma kernel_render_scene:
  assumes "kernel_ready k" "scene_is color ws (desk_wm (k_desktop k))"
  shows "\<exists>k'. kernel_render k = (picture_marker (picture color (map (desk_heap (k_desktop k)) ws)), k') \<and> kernel_ready k' \<and>
    k_desktop k' = k_desktop k \<and> kernel_output k' = kernel_output k \<and> k_keyboard k' = k_keyboard k"
  using assms scene_render [OF _ assms(2), of "ak_fb (k_app k)" "desk_heap (k_desktop k)"]
  by (simp add: kernel_render_def kernel_ready_def kernel_sized_def on_app_def k_desktop_def)

lemma set_desktop_keeps [simp]:
  "k_desktop (set_desktop d k) = d" "kernel_ready (set_desktop d k) = kernel_ready k" "kernel_output (set_desktop d k) = kernel_output k"
  "set_desktop d (set_desktop e k) = set_desktop d k" "k_keyboard (set_desktop d k) = k_keyboard k"
  by (simp_all add: set_desktop_def on_app_def k_desktop_def kernel_ready_def kernel_sized_def)

text \<open>What the tests leave alone: the tasks, the input from the UART and the application's app_flags.\<close>

definition app_flags :: "kernel_world \<Rightarrow> bool \<times> bool" where
  "app_flags w = (registered (app_user w), ran_once (app_user w))"

definition kept_state :: "kernel \<Rightarrow> task_table \<times> line_io_state \<times> bool \<times> bool" where
  "kept_state k = (let a = k_app k in (ak_tasks a, line_input (ak_line a), registered (demo_app a), ran_once (demo_app a)))"

lemma kept_simps [simp]:
  "kept_state (kernel_print str k) = kept_state k" "kept_state (console_put_hex32 v k) = kept_state k"
  "kept_state (on_app (\<lambda>a. a \<lparr> ak_fb := fb \<rparr>) k) = kept_state k" "kept_state (on_app (\<lambda>a. a \<lparr> ak_input := i \<rparr>) k) = kept_state k"
  "kept_state (k \<lparr> k_keyboard := kb \<rparr>) = kept_state k" "kept_state (k \<lparr> k_dispatch := e \<rparr>) = kept_state k" "kept_state (k \<lparr> g_keyboard_dispatch_stats := st \<rparr>) = kept_state k"
  "kept_state (snd (kernel_render k)) = kept_state k" "k_desktop (snd (kernel_render k)) = k_desktop k"
  by (simp_all add: kept_state_def kernel_print_def console_put_hex32_def on_app_def app_print_def app_puts kernel_render_def Let_def demo_app_def
      k_desktop_def split: prod.splits)

lemma kept_render: "kernel_render k = (m, k') \<Longrightarrow> kept_state k' = kept_state k \<and> k_desktop k' = k_desktop k"
  using kept_simps(8,9) [of k] by simp

lemma kept_desktop:
  "app_flags (desk_world d) = app_flags (desk_world (k_desktop k)) \<Longrightarrow> kept_state (set_desktop d k) = kept_state k"
  by (simp add: kept_state_def app_flags_def set_desktop_def on_app_def Let_def demo_app_def k_desktop_def)

lemma gfx_kept: "gfx_test k = Some k' \<Longrightarrow> kept_state k' = kept_state k"
  by (auto simp: gfx_test_def Let_def split: prod.splits if_splits)

lemma single_window_kept: "kept_state (single_window_test k) = kept_state k"
  by (auto simp: single_window_test_def Let_def reset_scene_def kept_desktop dest!: kept_render split: prod.splits)

lemma overlap_kept: "overlap_test k = (ok, m, k') \<Longrightarrow> kept_state k' = kept_state k"
  by (auto simp: overlap_test_def add_two_windows_def Let_def reset_scene_def kept_desktop dest!: kept_render split: prod.splits if_splits)

lemma dispatch_flags:
  assumes "drag_dispatch_fn (desk_drag d) = Some mouse_dispatch_record"
  shows "app_flags (desk_world (dispatch_to_task b t e d)) = app_flags (desk_world d)"
  using assms by (auto simp: app_flags_def dispatch_to_task_def mouse_dispatch_record_def Let_def split: option.splits wm_dispatch_event_type.splits)

lemma mouse_event_flags:
  assumes "drag_dispatch_fn (desk_drag d) = Some mouse_dispatch_record"
  shows "app_flags (desk_world (wm_drag_process_event e d)) = app_flags (desk_world d) \<and>
    drag_dispatch_fn (desk_drag (wm_drag_process_event e d)) = Some mouse_dispatch_record"
  using assms dispatch_flags [of "d \<lparr> desk_wm := wm, desk_drag := g, desk_heap := h \<rparr>" for wm g h]
  by (cases "ev_type e"; simp add: wm_drag_process_event_def process_mouse_move_def process_mouse_button_down_def process_mouse_button_up_def
      dispatch_flags Let_def split: option.split bool.split prod.split)

lemma mouse_events_flags:
  assumes "drag_dispatch_fn (desk_drag d) = Some mouse_dispatch_record"
  shows "app_flags (desk_world (fold wm_drag_process_event es d)) = app_flags (desk_world d)"
  using assms by (induction es arbitrary: d) (simp_all add: mouse_event_flags)

lemma pending_flags:
  assumes "event_queue_wf q" "drag_dispatch_fn (desk_drag d) = Some mouse_dispatch_record" "wm_drag_dispatch_pending q d = Some (n, q', d')"
  shows "app_flags (desk_world d') = app_flags (desk_world d)"
  using evq.drain_all [OF assms(1), of wm_drag_process_event 0 d] assms(2,3) mouse_events_flags
  by (auto simp: wm_drag_dispatch_pending_def)

lemma keyboard_kept: "keyboard_test k = Some (ok, m, k') \<Longrightarrow> kept_state k' = kept_state k"
  by (auto simp: keyboard_test_def register_two_endpoints_def keyboard_back_events_def add_two_windows_def Let_def reset_scene_def kept_desktop dest!: kept_render split: prod.splits if_splits bind_splits option.splits)

lemma kernel_line:
  assumes "kernel_ready k" "k' = kernel_print [newline] (console_put_hex32 m (kernel_print str k))"
  shows "kernel_ready k' \<and> kernel_output k' = kernel_output k @ console_text (str @ hex_digits m @ [newline])"
  using quiet_ready [OF _ assms(1), of k'] by (simp add: assms(2) console_text_append)

lemma single_window_passes:
  assumes "kernel_ready k"
  shows "kernel_ready (single_window_test k) \<and> kernel_output (single_window_test k) = kernel_output k @
    console_text (''WM: single window composed marker 0x'' @ hex_digits (picture_marker (picture 0x00161c26 [main_window])) @ [newline])"
proof -
  define d where "d = reset_scene 0x00161c26 (k_desktop k \<lparr> desk_heap := (desk_heap (k_desktop k)) (MAIN_WINDOW := main_window) \<rparr>)"
  have d: "scene_is 0x00161c26 [] (desk_wm d)" "desk_heap d MAIN_WINDOW = main_window"
    using scene_reset by (simp_all add: d_def reset_scene_def)
  obtain wm where wm: "wm_compositor_add_window (desk_heap d) (desk_wm d) (Some MAIN_WINDOW) = (0, wm)" "scene_is 0x00161c26 [MAIN_WINDOW] wm"
    using scene_add [OF d(1), of "desk_heap d" MAIN_WINDOW] test_windows_valid(1) d(2) by (auto simp: WM_MAX_WINDOWS_def)
  define k1 where "k1 = set_desktop (d \<lparr> desk_wm := wm \<rparr>) k"
  obtain k2 where k2: "kernel_render k1 = (picture_marker (picture 0x00161c26 [main_window]), k2)" "kernel_ready k2" "kernel_output k2 = kernel_output k"
    using kernel_render_scene [of k1 "0x00161c26" "[MAIN_WINDOW]"] assms wm(2) d(2) by (auto simp: k1_def)
  have "single_window_test k = kernel_print [newline] (console_put_hex32 (picture_marker (picture 0x00161c26 [main_window]))
      (kernel_print ''WM: single window composed marker 0x'' k2))"
    using wm(1) k2(1) by (simp add: single_window_test_def Let_def d_def [symmetric] k1_def [symmetric])
  from kernel_line [OF k2(2) this] show ?thesis
    using k2(3) by simp
qed

text \<open>The test of overlapping windows: the click changes which window is active and what the screen shows.\<close>

lemma overlap_passes:
  assumes "kernel_ready k"
  defines "before \<equiv> picture_marker (picture 0x0012181f [back_window, front_window])"
    and "after \<equiv> picture_marker (picture 0x0012181f [front_window, back_window])"
  shows "\<exists>k'. overlap_test k = (True, after, k') \<and> kernel_ready k' \<and> kernel_output k' = kernel_output k"
proof -
  define d where "d = reset_scene 0x0012181f (k_desktop k \<lparr> desk_heap := set_two_windows (desk_heap (k_desktop k)) \<rparr>)"
  have h: "desk_heap d = set_two_windows (desk_heap (k_desktop k))"
    by (simp add: d_def reset_scene_def)
  obtain wm where wm: "add_two_windows d = (True, d \<lparr> desk_wm := wm \<rparr>)" "scene_is 0x0012181f [BACK_WINDOW, FRONT_WINDOW] wm"
    using scene_two [OF _ d_def] by auto
  define k1 where "k1 = set_desktop (d \<lparr> desk_wm := wm \<rparr>) k"
  obtain k2 where k2: "kernel_render k1 = (before, k2)" "kernel_ready k2" "kernel_output k2 = kernel_output k"
    using kernel_render_scene [of k1 "0x0012181f" "[BACK_WINDOW, FRONT_WINDOW]"] assms(1) wm(2) by (auto simp: k1_def h before_def)
  obtain wm' where wm': "wm_compositor_activate_window wm (Some BACK_WINDOW) = (0, wm')" "scene_is 0x0012181f [FRONT_WINDOW, BACK_WINDOW] wm'"
    "active_window wm' = Some BACK_WINDOW"
    using scene_activate [OF wm(2), of BACK_WINDOW] by auto
  define k3 where "k3 = set_desktop (d \<lparr> desk_wm := wm' \<rparr>) k2"
  obtain k4 where k4: "kernel_render k3 = (after, k4)" "kernel_ready k4" "kernel_output k4 = kernel_output k"
    using kernel_render_scene [of k3 "0x0012181f" "[FRONT_WINDOW, BACK_WINDOW]"] k2 wm'(2) by (auto simp: k3_def h after_def)
  have hit: "wm_compositor_hit_test (desk_heap d) wm 140 120 = Some FRONT_WINDOW"
    "wm_compositor_hit_test (desk_heap d) wm' 140 120 = Some BACK_WINDOW"
    using scene_hit [OF wm(2)] scene_hit [OF wm'(2)] by (simp_all add: h wm_point_in_rect_def)
  have "before \<noteq> after"
    unfolding before_def after_def by (rule overlap_pictures_differ)
  then show ?thesis
    using wm(1) wm'(1,3) k2(1) k4 hit
    by (simp add: overlap_test_def Let_def d_def [symmetric] k1_def [symmetric] k3_def [symmetric] wm_compositor_active_window_def wm_focus_active_window_def)
qed

subsection \<open>The mouse test\<close>

lemma emit_queued:
  assumes "event_queue_wf (event_queue i)" "length (queued_events (event_queue i)) < INPUT_EVENT_QUEUE_CAPACITY"
  shows "event_queue_wf (event_queue (snd (mouse_emit_move x y b i)))"
    "queued_events (event_queue (snd (mouse_emit_move x y b i))) = queued_events (event_queue i) @
      [\<lparr> ev_type = INPUT_EVENT_MOUSE_MOVE, ev_mouse = \<lparr> ev_x = x, ev_y = y, ev_buttons = b, ev_button = 0 \<rparr> \<rparr>]"
    "event_queue_wf (event_queue (snd (mouse_emit_button_down x y b i)))"
    "\<exists>bs. queued_events (event_queue (snd (mouse_emit_button_down x y b i))) = queued_events (event_queue i) @
      [\<lparr> ev_type = INPUT_EVENT_MOUSE_BUTTON_DOWN, ev_mouse = \<lparr> ev_x = x, ev_y = y, ev_buttons = bs, ev_button = b \<rparr> \<rparr>]"
    "event_queue_wf (event_queue (snd (mouse_emit_button_up x y b i)))"
    "\<exists>bs. queued_events (event_queue (snd (mouse_emit_button_up x y b i))) = queued_events (event_queue i) @
      [\<lparr> ev_type = INPUT_EVENT_MOUSE_BUTTON_UP, ev_mouse = \<lparr> ev_x = x, ev_y = y, ev_buttons = bs, ev_button = b \<rparr> \<rparr>]"
  using mouse_emits [of "i \<lparr> mouse := m \<rparr>" for m, OF _ _ prod.collapse [symmetric]] assms
  by (simp_all add: mouse_emit_move_def mouse_emit_button_down_def mouse_emit_button_up_def Let_def)

lemma drag_input_queue:
  assumes "length (q_events (event_queue i)) = INPUT_EVENT_QUEUE_CAPACITY"
  shows "\<exists>down up. event_queue_wf (event_queue (drag_input (mouse_reset i))) \<and>
    queued_events (event_queue (drag_input (mouse_reset i))) =
      [\<lparr> ev_type = INPUT_EVENT_MOUSE_MOVE, ev_mouse = \<lparr> ev_x = 150, ev_y = 100, ev_buttons = 0, ev_button = 0 \<rparr> \<rparr>, down,
       \<lparr> ev_type = INPUT_EVENT_MOUSE_MOVE, ev_mouse = \<lparr> ev_x = 180, ev_y = 120, ev_buttons = 1, ev_button = 0 \<rparr> \<rparr>,
       \<lparr> ev_type = INPUT_EVENT_MOUSE_MOVE, ev_mouse = \<lparr> ev_x = 210, ev_y = 142, ev_buttons = 1, ev_button = 0 \<rparr> \<rparr>, up] \<and>
    ev_type down = INPUT_EVENT_MOUSE_BUTTON_DOWN \<and> ev_x (ev_mouse down) = 150 \<and> ev_y (ev_mouse down) = 100 \<and> ev_button (ev_mouse down) = 1 \<and>
    ev_type up = INPUT_EVENT_MOUSE_BUTTON_UP \<and> ev_button (ev_mouse up) = 1"
proof -
  define i0 where "i0 = mouse_reset i"
  have i0: "event_queue_wf (event_queue i0)" "queued_events (event_queue i0) = []"
    using event_queue_reset_wf [of "event_queue i"] assms by (simp_all add: i0_def mouse_reset_def)
  define i1 where "i1 = snd (mouse_emit_move 150 100 0 i0)"
  note i1 = emit_queued(1,2) [OF i0(1), of 150 100 0, folded i1_def, unfolded i0(2)]
  define i2 where "i2 = snd (mouse_emit_button_down 150 100 INPUT_MOUSE_BUTTON_LEFT i1)"
  obtain bs where i2: "event_queue_wf (event_queue i2)" "queued_events (event_queue i2) = queued_events (event_queue i1) @
      [\<lparr> ev_type = INPUT_EVENT_MOUSE_BUTTON_DOWN, ev_mouse = \<lparr> ev_x = 150, ev_y = 100, ev_buttons = bs, ev_button = INPUT_MOUSE_BUTTON_LEFT \<rparr> \<rparr>]"
    using emit_queued(3,4) [of i1 150 100 INPUT_MOUSE_BUTTON_LEFT] i1 by (auto simp: INPUT_EVENT_QUEUE_CAPACITY_def i2_def)
  define i3 where "i3 = snd (mouse_emit_move 180 120 INPUT_MOUSE_BUTTON_LEFT i2)"
  note i3 = emit_queued(1,2) [OF i2(1), of 180 120 INPUT_MOUSE_BUTTON_LEFT, folded i3_def]
  define i4 where "i4 = snd (mouse_emit_move 210 142 INPUT_MOUSE_BUTTON_LEFT i3)"
  have i34: "event_queue_wf (event_queue i4)" "queued_events (event_queue i4) = queued_events (event_queue i2) @
      [\<lparr> ev_type = INPUT_EVENT_MOUSE_MOVE, ev_mouse = \<lparr> ev_x = 180, ev_y = 120, ev_buttons = INPUT_MOUSE_BUTTON_LEFT, ev_button = 0 \<rparr> \<rparr>,
       \<lparr> ev_type = INPUT_EVENT_MOUSE_MOVE, ev_mouse = \<lparr> ev_x = 210, ev_y = 142, ev_buttons = INPUT_MOUSE_BUTTON_LEFT, ev_button = 0 \<rparr> \<rparr>]"
    using emit_queued(1,2) [of i3 210 142 INPUT_MOUSE_BUTTON_LEFT] i3 i2 i1 by (auto simp: INPUT_EVENT_QUEUE_CAPACITY_def i4_def)
  define i5 where "i5 = snd (mouse_emit_button_up 210 142 INPUT_MOUSE_BUTTON_LEFT i4)"
  obtain bs' where i5: "event_queue_wf (event_queue i5)" "queued_events (event_queue i5) = queued_events (event_queue i4) @
      [\<lparr> ev_type = INPUT_EVENT_MOUSE_BUTTON_UP, ev_mouse = \<lparr> ev_x = 210, ev_y = 142, ev_buttons = bs', ev_button = INPUT_MOUSE_BUTTON_LEFT \<rparr> \<rparr>]"
    using emit_queued(5,6) [of i4 210 142 INPUT_MOUSE_BUTTON_LEFT] i34 i2 i1 by (auto simp: INPUT_EVENT_QUEUE_CAPACITY_def i5_def)
  have "drag_input (mouse_reset i) = i5"
    by (simp add: drag_input_def Let_def i0_def [symmetric] i1_def [symmetric] i2_def [symmetric] i3_def [symmetric] i4_def [symmetric] i5_def [symmetric])
  then show ?thesis
    using i1 i2 i34 i5 by (simp add: INPUT_MOUSE_BUTTON_LEFT_def INPUT_EVENT_QUEUE_CAPACITY_def)
qed

text \<open>What the mouse test starts from.\<close>

lemma drag_bindings_two:
  assumes "g = wm_drag_set_dispatch (wm_drag_reset g0) f"
  shows "\<exists>g1 g2. wm_drag_register_window g (Some BACK_WINDOW) 1 = (0, g1) \<and> wm_drag_register_window g1 (Some FRONT_WINDOW) 2 = (0, g2) \<and>
    drag_wf g2 \<and> drag_dispatch_fn g2 = f \<and> task_of g2 FRONT_WINDOW = Some 2"
proof -
  have g: "drag_wf g" "drag_binding_count g = 0" "drag_dispatch_fn g = f" "length (drag_bindings g) = 8"
    using drag_reset_wf [of g0] by (simp_all add: assms wm_drag_set_dispatch_def drag_wf_def find_binding_for_window_def
        binding_window_def wm_drag_reset_def WM_MAX_WINDOWS_def)
  obtain r1 g1 where g1: "wm_drag_register_window g (Some BACK_WINDOW) 1 = (r1, g1)" by force
  obtain r2 g2 where g2: "wm_drag_register_window g1 (Some FRONT_WINDOW) 2 = (r2, g2)" by force
  have "drag_wf g2"
    using drag_register_wf [OF drag_register_wf [OF g(1)], of "Some BACK_WINDOW" 1 "Some FRONT_WINDOW" 2] g1 g2 by simp
  then show ?thesis
    using g1 g2 g(2-4) by (auto simp: wm_drag_register_window_def WM_MAX_WINDOWS_def task_of_def numeral_2_eq_2 take_Suc_conv_app_nth)
qed

definition drag_stats :: mouse_dispatch_stats where
  "drag_stats = \<lparr> move_count = 1, button_down_count = 1, button_up_count = 1, drag_count = 2,
     last_button_down_task = 2, last_drag_task = 2 \<rparr>"

definition moved_front :: wm_window where
  "moved_front = front_window \<lparr> frame := \<lparr> rect_x = 180, rect_y = 134, rect_width = 220, rect_height = 160 \<rparr> \<rparr>"

lemma drag_test_events:
  assumes "drag_wf (desk_drag d)" "drag_dispatch_fn (desk_drag d) = Some mouse_dispatch_record"
    "task_of (desk_drag d) FRONT_WINDOW = Some 2" "scene_is color [BACK_WINDOW, FRONT_WINDOW] (desk_wm d)"
    "desk_heap d = set_two_windows h" "desk_world d = mouse_dispatch_reset w"
    and "length (q_events (event_queue i)) = INPUT_EVENT_QUEUE_CAPACITY"
  shows "\<exists>q' d'. wm_drag_dispatch_pending (event_queue (drag_input (mouse_reset i))) d = Some (5, q', d') \<and> event_queue_wf q' \<and>
    scene_is color [BACK_WINDOW, FRONT_WINDOW] (desk_wm d') \<and> active_window (desk_wm d') = Some FRONT_WINDOW \<and>
    desk_heap d' BACK_WINDOW = back_window \<and> desk_heap d' FRONT_WINDOW = moved_front \<and>
    g_mouse_dispatch_stats (app_user (desk_world d')) = drag_stats \<and> app_flags (desk_world d') = app_flags w"
proof -
  obtain e1 down m1 m2 up where q: "event_queue_wf (event_queue (drag_input (mouse_reset i)))"
    "queued_events (event_queue (drag_input (mouse_reset i))) = [e1, down, m1, m2, up]"
    and e1: "e1 = \<lparr> ev_type = INPUT_EVENT_MOUSE_MOVE, ev_mouse = \<lparr> ev_x = 150, ev_y = 100, ev_buttons = 0, ev_button = 0 \<rparr> \<rparr>"
    and m: "held_move m1" "held_move m2" "ev_x (ev_mouse m2) = 210" "ev_y (ev_mouse m2) = 142"
    and down: "ev_type down = INPUT_EVENT_MOUSE_BUTTON_DOWN" "ev_x (ev_mouse down) = 150" "ev_y (ev_mouse down) = 100" "ev_button (ev_mouse down) = 1"
    and up: "ev_type up = INPUT_EVENT_MOUSE_BUTTON_UP" "ev_button (ev_mouse up) = 1"
    using drag_input_queue [OF assms(7)] by (auto simp: held_move_def INPUT_MOUSE_BUTTON_LEFT_def)
  have hit: "wm_compositor_hit_test (desk_heap d) (desk_wm d) 150 100 = Some FRONT_WINDOW"
    using scene_hit [OF assms(4)] by (simp add: assms(5) wm_point_in_rect_def)
  define d1 where "d1 = wm_drag_process_event e1 d"
  have k1: "event_kind d e1 = WM_DISPATCH_MOVE" "event_owner d e1 = Some FRONT_WINDOW"
    using hit by (auto simp: e1 event_kind_def event_owner_def split: option.split)
  have d1: "drag_wf (desk_drag d1)" "drag_dispatch_fn (desk_drag d1) = Some mouse_dispatch_record"
    "task_of (desk_drag d1) FRONT_WINDOW = Some 2" "desk_heap d1 = desk_heap d" "desk_wm d1 = desk_wm d"
    "desk_world d1 = mouse_dispatch_record 2 WM_DISPATCH_MOVE e1 (desk_world d)"
    using drag_event_effect [OF assms(1,2), of e1] k1 assms(2,3) by (simp_all add: d1_def drag_event_tables)
  have bar: "wm_point_in_rect (wm_window_title_bar_rect front_window) 150 100"
    by (simp add: front_window_def coloured_window_def wm_window_title_bar_rect_def wm_window_init_def Let_def effective_border_def
        min_u32_def safe_sub_u32_def saturating_add_u32_def wm_point_in_rect_def WM_DEFAULT_BORDER_THICKNESS_def
        WM_DEFAULT_TITLE_BAR_HEIGHT_def word_le_nat_alt)
  define d2 where "d2 = fold wm_drag_process_event (down # [m1, m2] @ [up]) d1"
  have l: "(1 :: u8) AND INPUT_MOUSE_BUTTON_LEFT \<noteq> 0"
    by (simp add: INPUT_MOUSE_BUTTON_LEFT_def)
  note f = drag_fold [OF d1(1,2) down(1) _ _ d1(3) _ _ up(1) _ d2_def, unfolded down(2-4) up(2) d1(4,5), OF l hit, unfolded assms(5) two_windows, OF bar _ l]
  have fr: "frame (desk_heap d2 FRONT_WINDOW) = \<lparr> rect_x = 180, rect_y = 134, rect_width = 220, rect_height = 160 \<rparr>"
    using f(5) m by (intro wm_rect.equality) (simp_all add: Let_def word_unat_eq_iff)
  have front: "desk_heap d2 FRONT_WINDOW = moved_front"
    using f(6) m(1,2) unfolding fr moved_front_def by simp
  have behind: "desk_heap d2 BACK_WINDOW = back_window"
    using f(4) m(1,2) d1(4) by (simp add: assms(5))
  have wm: "scene_is color [BACK_WINDOW, FRONT_WINDOW] (desk_wm d2)" "active_window (desk_wm d2) = Some FRONT_WINDOW"
    using f(2) m(1,2) scene_activate [OF assms(4), of FRONT_WINDOW] by auto
  have st: "g_mouse_dispatch_stats (app_user (desk_world d2)) = drag_stats"
    using f(3) m(1,2) d1(6) by (simp add: assms(6) mouse_dispatch_record_def mouse_dispatch_reset_def drag_stats_def)
  have "\<exists>q'. wm_drag_dispatch_pending (event_queue (drag_input (mouse_reset i))) d = Some (5, q', d2) \<and> event_queue_wf q'"
    using evq.drain_all [OF q(1), of wm_drag_process_event 0 d] unfolding q(2) wm_drag_dispatch_pending_def d2_def d1_def by auto
  moreover have "app_flags (desk_world d) = app_flags w"
    by (simp add: assms(6) mouse_dispatch_reset_def app_flags_def)
  ultimately show ?thesis
    using front behind wm st pending_flags [OF q(1) assms(2)] by metis
qed

lemma mouse_passes:
  assumes "kernel_ready k"
  shows "\<exists>k'. mouse_test k = Some (True, picture_marker (picture 0x0012171d [back_window, moved_front]), k') \<and> kernel_ready k' \<and>
    kernel_output k' = kernel_output k \<and> g_mouse_dispatch_stats (demo_app (k_app k')) = drag_stats \<and> kept_state k' = kept_state k"
proof -
  define d0 where "d0 = reset_scene 0x0012171d (k_desktop k \<lparr> desk_heap := set_two_windows (desk_heap (k_desktop k)) \<rparr>)"
  define d where "d = d0 \<lparr> desk_drag := wm_drag_set_dispatch (wm_drag_reset (desk_drag d0)) (Some mouse_dispatch_record),
    desk_world := mouse_dispatch_reset (desk_world d0) \<rparr>"
  have h: "desk_heap d = set_two_windows (desk_heap (k_desktop k))" "desk_world d = mouse_dispatch_reset (desk_world d0)"
    "desk_drag d = wm_drag_set_dispatch (wm_drag_reset (desk_drag d0)) (Some mouse_dispatch_record)"
    by (simp_all add: d_def d0_def reset_scene_def)
  have d': "d = reset_scene 0x0012171d (d \<lparr> desk_wm := desk_wm (k_desktop k) \<rparr>)"
    by (simp add: d_def d0_def reset_scene_def)
  obtain wm where wm: "add_two_windows d = (True, d \<lparr> desk_wm := wm \<rparr>)" "scene_is 0x0012171d [BACK_WINDOW, FRONT_WINDOW] wm"
    using scene_two [OF _ d'] h(1) by auto
  obtain g1 g where g: "wm_drag_register_window (desk_drag d) (Some BACK_WINDOW) 1 = (0, g1)"
    "wm_drag_register_window g1 (Some FRONT_WINDOW) 2 = (0, g)" "drag_wf g" "drag_dispatch_fn g = Some mouse_dispatch_record"
    "task_of g FRONT_WINDOW = Some 2"
    using drag_bindings_two [OF h(3)] by auto
  define d1 where "d1 = d \<lparr> desk_wm := wm, desk_drag := g \<rparr>"
  have reg: "register_two_windows d = (True, d1)"
    using wm(1) g(1,2) by (simp add: register_two_windows_def d1_def)
  define i where "i = drag_input (mouse_reset (ak_input (k_app k)))"
  have cap: "length (q_events (event_queue (ak_input (k_app k)))) = INPUT_EVENT_QUEUE_CAPACITY"
    using assms by (simp add: kernel_ready_def kernel_sized_def)
  have d1: "drag_wf (desk_drag d1)" "drag_dispatch_fn (desk_drag d1) = Some mouse_dispatch_record" "task_of (desk_drag d1) FRONT_WINDOW = Some 2"
    "scene_is 0x0012171d [BACK_WINDOW, FRONT_WINDOW] (desk_wm d1)" "desk_heap d1 = set_two_windows (desk_heap (k_desktop k))"
    "desk_world d1 = mouse_dispatch_reset (desk_world d0)"
    using g wm(2) h by (simp_all add: d1_def)
  obtain q d2 where d2: "wm_drag_dispatch_pending (event_queue i) d1 = Some (5, q, d2)" "event_queue_wf q"
    "scene_is 0x0012171d [BACK_WINDOW, FRONT_WINDOW] (desk_wm d2)" "active_window (desk_wm d2) = Some FRONT_WINDOW"
    "desk_heap d2 BACK_WINDOW = back_window" "desk_heap d2 FRONT_WINDOW = moved_front"
    "g_mouse_dispatch_stats (app_user (desk_world d2)) = drag_stats" "app_flags (desk_world d2) = app_flags (desk_world d0)"
    using drag_test_events [OF d1 cap] unfolding i_def by blast
  define k1 where "k1 = on_app (\<lambda>a. a \<lparr> ak_input := i \<lparr> event_queue := q \<rparr> \<rparr>) (set_desktop d2 k)"
  have k1: "kernel_ready k1" "k_desktop k1 = d2" "kernel_output k1 = kernel_output k"
    using assms d2(2) by (simp_all add: k1_def kernel_ready_def kernel_sized_def on_app_def set_desktop_def k_desktop_def event_queue_wf_def)
  obtain k2 where k2: "kernel_render k1 = (picture_marker (picture 0x0012171d [back_window, moved_front]), k2)" "kernel_ready k2"
    "kernel_output k2 = kernel_output k" "k_desktop k2 = d2"
    using kernel_render_scene [OF k1(1), of "0x0012171d" "[BACK_WINDOW, FRONT_WINDOW]"] k1 d2 by auto
  have "mouse_test k = Some (True, picture_marker (picture 0x0012171d [back_window, moved_front]), k2)"
    unfolding mouse_test_def Let_def d0_def [symmetric] d_def [symmetric]
    using reg d2 k2(1) h(1) by (simp add: i_def [symmetric] k1_def [symmetric] d1_def drag_stats_def moved_front_def wm_compositor_active_window_def
        wm_focus_active_window_def)
  moreover have "g_mouse_dispatch_stats (demo_app (k_app k2)) = drag_stats"
    using k2(4) d2(7) by (simp add: demo_app_def k_desktop_def)
  moreover have "app_flags (desk_world d2) = app_flags (desk_world (k_desktop k))"
    using d2(8) by (simp add: d0_def reset_scene_def)
  then have "kept_state k2 = kept_state k"
    using kept_render [OF k2(1)] by (simp add: k1_def kept_desktop)
  ultimately show ?thesis
    using k2 by blast
qed

subsection \<open>The keyboard test\<close>

lemma scancodes_run: "scancodes wm cs kb = keyboard_run (map (Pair wm) cs) kb"
  by (induction cs arbitrary: kb) (simp_all add: scancodes_def keyboard_run_def)

lemma scancodes_flags:
  assumes "\<not> saw_extended_prefix kb" "\<forall>c \<in> set cs. c \<notin> {0xe0, 0x2a, 0xaa, 0x36, 0xb6}"
  shows "shift_mask (scancodes wm cs kb) = shift_mask kb \<and> \<not> saw_extended_prefix (scancodes wm cs kb)"
  using assms
proof (induction cs arbitrary: kb)
  case (Cons c cs)
  have "shift_mask (snd (keyboard_handle_scancode wm kb c)) = shift_mask kb \<and> \<not> saw_extended_prefix (snd (keyboard_handle_scancode wm kb c))"
    using Cons.prems handle_code [of kb c wm] by (auto split: list.split)
  then show ?case
    using Cons by (simp add: scancodes_def)
qed (simp add: scancodes_def)

lemma scancodes_queued:
  assumes "keyboard_wf kb" "queued_keys kb = []" "shift_mask kb = 0" "\<not> saw_extended_prefix kb"
  shows "keyboard_wf (scancodes wm cs kb)"
    "queued_keys (scancodes wm cs kb) = take 64 (typed False False (effective False (map (Pair (active_window wm)) cs)))"
proof -
  have "mask_shows kb False False"
    using assms(3) by (simp add: mask_shows_def)
  then show "keyboard_wf (scancodes wm cs kb)"
    "queued_keys (scancodes wm cs kb) = take 64 (typed False False (effective False (map (Pair (active_window wm)) cs)))"
    using keyboard_run_typed [OF assms(1), of False False "map (Pair wm) cs"] assms(2,4)
    by (simp_all add: scancodes_run KEYBOARD_EVENT_QUEUE_CAPACITY_def comp_def)
qed

lemma test_keys:
  "typed False False (effective False (map (Pair w) [0x23, 0x17, 0x1c])) =
     [(\<lparr> kev_type = KEYBOARD_EVENT_TEXT, kev_scancode = 0x23, kev_pressed = 1, kev_text = CHR ''h'', kev_control = 0 \<rparr>, w),
      (\<lparr> kev_type = KEYBOARD_EVENT_TEXT, kev_scancode = 0x17, kev_pressed = 1, kev_text = CHR ''i'', kev_control = 0 \<rparr>, w),
      (\<lparr> kev_type = KEYBOARD_EVENT_CONTROL, kev_scancode = 0x1c, kev_pressed = 1, kev_text = CHR 0x00, kev_control = 1 \<rparr>, w)]"
  "typed False False (effective False (map (Pair w) [0x18, 0x0e])) =
     [(\<lparr> kev_type = KEYBOARD_EVENT_TEXT, kev_scancode = 0x18, kev_pressed = 1, kev_text = CHR ''o'', kev_control = 0 \<rparr>, w),
      (\<lparr> kev_type = KEYBOARD_EVENT_CONTROL, kev_scancode = 0x0e, kev_pressed = 1, kev_text = CHR 0x00, kev_control = 2 \<rparr>, w)]"
  by (simp_all add: key_entries_def keyboard_control_for_scancode_def printable_table_def KEYBOARD_CONTROL_ENTER_def
      KEYBOARD_CONTROL_BACKSPACE_def)

lemma record_keys:
  "keyboard_dispatch_record 2 \<lparr> kev_type = KEYBOARD_EVENT_CONTROL, kev_scancode = 0x1c, kev_pressed = 1, kev_text = CHR 0x00, kev_control = 1 \<rparr>
    (keyboard_dispatch_record 2 \<lparr> kev_type = KEYBOARD_EVENT_TEXT, kev_scancode = 0x17, kev_pressed = 1, kev_text = CHR ''i'', kev_control = 0 \<rparr>
      (keyboard_dispatch_record 2 \<lparr> kev_type = KEYBOARD_EVENT_TEXT, kev_scancode = 0x23, kev_pressed = 1, kev_text = CHR ''h'', kev_control = 0 \<rparr>
        keyboard_dispatch_stats_reset)) =
   \<lparr> text_count_task_1 = 0, text_count_task_2 = 2, control_count_task_1 = 0, control_count_task_2 = 1, invalid_endpoint_count = 0,
     marker_hash = 0xdca9a6e6 \<rparr>"
  "keyboard_dispatch_record 1 \<lparr> kev_type = KEYBOARD_EVENT_CONTROL, kev_scancode = 0x0e, kev_pressed = 1, kev_text = CHR 0x00, kev_control = 2 \<rparr>
    (keyboard_dispatch_record 1 \<lparr> kev_type = KEYBOARD_EVENT_TEXT, kev_scancode = 0x18, kev_pressed = 1, kev_text = CHR ''o'', kev_control = 0 \<rparr>
     \<lparr> text_count_task_1 = 0, text_count_task_2 = 2, control_count_task_1 = 0, control_count_task_2 = 1, invalid_endpoint_count = 0,
       marker_hash = 0xdca9a6e6 \<rparr>) =
   \<lparr> text_count_task_1 = 1, text_count_task_2 = 2, control_count_task_1 = 1, control_count_task_2 = 1, invalid_endpoint_count = 0,
     marker_hash = 0x89939d8c \<rparr>"
  by (simp_all add: keyboard_dispatch_record_def keyboard_dispatch_hash_byte_def keyboard_dispatch_stats_reset_def Let_def
      event_type_byte_def char_u8_def)

lemma keyboard_front_keys:
  assumes "keyboard_wf kb" "queued_keys kb = []" "shift_mask kb = 0" "\<not> saw_extended_prefix kb"
    and "kbd_wf e" "sink e = Some keyboard_dispatch_record" "endpoints e FRONT_WINDOW = Some 2" "active_window wm = Some FRONT_WINDOW"
  shows "\<exists>kb' st. keyboard_dispatch_pending e (scancodes wm [0x23, 0x17, 0x1c] kb) keyboard_dispatch_stats_reset = Some (3, kb', st) \<and>
    keyboard_wf kb' \<and> queued_keys kb' = [] \<and> shift_mask kb' = 0 \<and> \<not> saw_extended_prefix kb' \<and>
    st = \<lparr> text_count_task_1 = 0, text_count_task_2 = 2, control_count_task_1 = 0, control_count_task_2 = 1, invalid_endpoint_count = 0,
      marker_hash = 0xdca9a6e6 \<rparr>"
  using dispatch_queued [OF scancodes_queued(1) [OF assms(1-4), of wm "[0x23, 0x17, 0x1c]"] assms(5,6), of keyboard_dispatch_stats_reset]
    scancodes_flags [OF assms(4), of "[0x23, 0x17, 0x1c]" wm] assms(3,7,8)
  unfolding scancodes_queued(2) [OF assms(1-4), of wm "[0x23, 0x17, 0x1c]"] test_keys(1)
  by (auto simp: record_keys)

lemma keyboard_back_keys:
  assumes "keyboard_wf kb" "queued_keys kb = []" "shift_mask kb = 0" "\<not> saw_extended_prefix kb"
    and "kbd_wf e" "sink e = Some keyboard_dispatch_record" "endpoints e BACK_WINDOW = Some 1" "active_window wm = Some BACK_WINDOW"
    and "st = \<lparr> text_count_task_1 = 0, text_count_task_2 = 2, control_count_task_1 = 0, control_count_task_2 = 1, invalid_endpoint_count = 0,
      marker_hash = 0xdca9a6e6 \<rparr>"
  shows "\<exists>kb'. keyboard_dispatch_pending e (scancodes wm [0x18, 0x0e] kb) st = Some (2, kb',
      \<lparr> text_count_task_1 = 1, text_count_task_2 = 2, control_count_task_1 = 1, control_count_task_2 = 1, invalid_endpoint_count = 0,
        marker_hash = 0x89939d8c \<rparr>) \<and> keyboard_wf kb' \<and> queued_keys kb' = []"
  using dispatch_queued [OF scancodes_queued(1) [OF assms(1-4), of wm "[0x18, 0x0e]"] assms(5,6), of st] assms(7,8)
  unfolding scancodes_queued(2) [OF assms(1-4), of wm "[0x18, 0x0e]"] test_keys(2) assms(9)
  by (auto simp: record_keys)

lemma keyboard_passes:
  assumes "kernel_ready k"
  shows "\<exists>k'. keyboard_test k = Some (True, 0x89939d8c, k') \<and> kernel_ready k' \<and> kernel_output k' = kernel_output k"
proof -
  define d where "d = reset_scene 0x0014131a (k_desktop k \<lparr> desk_heap := set_two_windows (desk_heap (k_desktop k)) \<rparr>)"
  define kb where "kb = keyboard_reset (k_keyboard k)"
  have "length (kb_events (k_keyboard k)) = KEYBOARD_EVENT_QUEUE_CAPACITY"
    using assms by (simp add: kernel_ready_def kernel_sized_def)
  then have kb: "keyboard_wf kb" "queued_keys kb = []" "shift_mask kb = 0" "\<not> saw_extended_prefix kb"
    using keyboard_reset_wf by (simp_all add: kb_def) (simp_all add: keyboard_reset_def)
  obtain wm where wm: "add_two_windows d = (True, d \<lparr> desk_wm := wm \<rparr>)" "scene_is 0x0014131a [BACK_WINDOW, FRONT_WINDOW] wm"
    "active_window wm = Some FRONT_WINDOW"
    using scene_two [OF _ d_def] by auto
  obtain wm' where wm': "wm_compositor_activate_window wm (Some BACK_WINDOW) = (0, wm')" "active_window wm' = Some BACK_WINDOW"
    using scene_activate [OF wm(2), of BACK_WINDOW] by auto
  define e0 where "e0 = keyboard_dispatch_set_sink (keyboard_dispatch_reset (k_dispatch k)) (Some keyboard_dispatch_record)"
  obtain e1 e where e: "keyboard_dispatch_register_window e0 (Some BACK_WINDOW) 1 = (0, e1)"
    "keyboard_dispatch_register_window e1 (Some FRONT_WINDOW) 2 = (0, e)" "kbd_wf e" "sink e = Some keyboard_dispatch_record"
    "endpoints e FRONT_WINDOW = Some 2" "endpoints e BACK_WINDOW = Some 1"
    using register_two [OF e0_def, of BACK_WINDOW FRONT_WINDOW 1 2] by auto
  have reg: "register_two_endpoints d e0 = (True, d \<lparr> desk_wm := wm \<rparr>, e)"
    using wm(1) e(1,2) by (simp add: register_two_endpoints_def)
  obtain kb1 st where f: "keyboard_dispatch_pending e (scancodes wm [0x23, 0x17, 0x1c] kb) keyboard_dispatch_stats_reset = Some (3, kb1, st)"
    "keyboard_wf kb1" "queued_keys kb1 = []" "shift_mask kb1 = 0" "\<not> saw_extended_prefix kb1"
    "st = \<lparr> text_count_task_1 = 0, text_count_task_2 = 2, control_count_task_1 = 0, control_count_task_2 = 1, invalid_endpoint_count = 0,
      marker_hash = 0xdca9a6e6 \<rparr>"
    using keyboard_front_keys [OF kb e(3,4,5) wm(3)] by blast
  obtain kb2 where b: "keyboard_dispatch_pending e (scancodes wm' [0x18, 0x0e] kb1) st = Some (2, kb2,
      \<lparr> text_count_task_1 = 1, text_count_task_2 = 2, control_count_task_1 = 1, control_count_task_2 = 1, invalid_endpoint_count = 0,
        marker_hash = 0x89939d8c \<rparr>)" "keyboard_wf kb2" "queued_keys kb2 = []"
    using keyboard_back_keys [OF f(2-5) e(3,4,6) wm'(2) f(6)] by blast
  have n: "keyboard_pending_count kb2 = 0" "length (kb_events kb2) = KEYBOARD_EVENT_QUEUE_CAPACITY"
    using pending_keys [OF b(2)] b(2,3) by (simp_all add: keyboard_pending_count_def keyboard_wf_def)
  show ?thesis
    unfolding keyboard_test_def Let_def d_def [symmetric] e0_def [symmetric] kb_def [symmetric]
    using assms reg f(1) b(1) wm' n
    by (simp add: keyboard_back_events_def wm_compositor_active_window_def wm_focus_active_window_def kernel_ready_def
        kernel_sized_def set_desktop_def on_app_def)
qed

subsection \<open>All tests\<close>

definition report_text :: "string \<Rightarrow> bool \<Rightarrow> u32 \<Rightarrow> string" where
  "report_text what ok marker =
     (if ok then what @ '' marker 0x'' @ hex_digits marker @ [newline] else what @ '' failed'' @ [newline])"

lemma report_line:
  assumes "kernel_ready k"
  shows "kernel_ready (report what (ok, m, k)) \<and>
    kernel_output (report what (ok, m, k)) = kernel_output k @ console_text (report_text what ok m)"
proof (cases ok)
  case True
  have "report what (ok, m, k) = kernel_print [newline] (console_put_hex32 m (kernel_print (what @ '' marker 0x'') k))"
    using True by (simp add: report_def)
  from kernel_line [OF assms this] show ?thesis
    using True by (simp add: report_text_def)
next
  case False
  then show ?thesis
    using quiet_ready [OF _ assms, of "report what (ok, m, k)"] by (simp add: report_def report_text_def)
qed

text \<open>What the tests print: all of them pass.\<close>

definition self_tests_text :: string where
  "self_tests_text =
    ''GFX: framebuffer initialized'' @ [newline] @
     ''GFX: deterministic marker 0x'' @ hex_digits (fst (framebuffer_render_test_pattern black_screen)) @ [newline] @
     ''WM: single window composed marker 0x'' @ hex_digits (picture_marker (picture 0x00161c26 [main_window])) @ [newline] @
     report_text ''WM: overlap focus activation'' True (picture_marker (picture 0x0012181f [front_window, back_window])) @
     report_text ''WM: mouse dispatch drag'' True (picture_marker (picture 0x0012171d [back_window, moved_front])) @
     report_text ''WM: keyboard focus routing'' True 0x89939d8c"

lemma self_tests_run:
  assumes "kernel_sized k"
  shows "\<exists>k'. kernel_self_tests k = Some k' \<and> kernel_output k' = kernel_output k @ console_text self_tests_text \<and>
    kernel_ready k' \<and> kept_state k' = kept_state k"
proof -
  obtain k1 where k1: "gfx_test k = Some k1" "kernel_ready k1" "kernel_output k1 = kernel_output k @
      console_text (''GFX: framebuffer initialized'' @ [newline] @ ''GFX: deterministic marker 0x'' @
        hex_digits (fst (framebuffer_render_test_pattern black_screen)) @ [newline])"
    using gfx_test_passes [OF assms(1)] by blast
  define k2 where "k2 = single_window_test k1"
  note k2 = single_window_passes [OF k1(2), folded k2_def]
  let ?m = "picture_marker (picture 0x0012181f [front_window, back_window])"
  obtain k3 where k3: "overlap_test k2 = (True, ?m, k3)" "kernel_ready k3" "kernel_output k3 = kernel_output k2"
    using overlap_passes [of k2] k2 by blast
  define k4 where "k4 = report ''WM: overlap focus activation'' (True, ?m, k3)"
  note k4 = report_line [OF k3(2), of "''WM: overlap focus activation''" True ?m, folded k4_def]
  obtain k5 where k5: "mouse_test k4 = Some (True, picture_marker (picture 0x0012171d [back_window, moved_front]), k5)"
    "kernel_ready k5" "kernel_output k5 = kernel_output k4" "kept_state k5 = kept_state k4"
    using mouse_passes [of k4] k4 by blast
  define k6 where "k6 = report ''WM: mouse dispatch drag'' (True, picture_marker (picture 0x0012171d [back_window, moved_front]), k5)"
  note k6 = report_line [OF k5(2), of "''WM: mouse dispatch drag''" True "picture_marker (picture 0x0012171d [back_window, moved_front])", folded k6_def]
  obtain k7 where k7: "keyboard_test k6 = Some (True, 0x89939d8c, k7)" "kernel_ready k7" "kernel_output k7 = kernel_output k6"
    using keyboard_passes [of k6] k6 by blast
  note k8 = report_line [OF k7(2), of "''WM: keyboard focus routing''" True "0x89939d8c"]
  have "kernel_self_tests k = Some (report ''WM: keyboard focus routing'' (True, 0x89939d8c, k7))"
    by (simp add: kernel_self_tests_def k1(1) k2_def [symmetric] k3(1) k4_def [symmetric] k5(1) k6_def [symmetric] k7(1) Let_def)
  moreover have "kept_state (report what r) = kept_state (snd (snd r))" for what r
    by (auto simp: report_def split: prod.split)
  then have "kept_state k4 = kept_state k" "kept_state k6 = kept_state k5"
    "kept_state (report ''WM: keyboard focus routing'' (True, 0x89939d8c, k7)) = kept_state k6"
    using overlap_kept [OF k3(1)] single_window_kept [of k1] gfx_kept [OF k1(1)] keyboard_kept [OF k7(1)]
    by (simp_all add: k2_def k4_def k6_def)
  ultimately show ?thesis
    using k1(3) k2 k3(3) k4 k5(3,4) k6 k7(3) k8 by (simp add: console_text_def self_tests_text_def)
qed

text \<open>
  C14: Whatever has happened before, the self tests of the kernel return and pass, and what they print is
  determined: the test pattern comes out twice the same, the scene with one window and the scenes after
  clicking, dragging and typing are exactly the pictures they should be (given by their checksums), the
  drag and the keys reach the tasks that the kernel checks for, and the keys give the checksum 0x89939d8c.
  The two pictures of the test of overlapping windows have different checksums, so that it passes, too:
  no test reports a failure.
\<close>

theorem kernel_self_tests_pass:
  assumes "kernel_sized k"
  shows "\<exists>k'. kernel_self_tests k = Some k' \<and> kernel_output k' = kernel_output k @ console_text
    (''GFX: framebuffer initialized'' @ [newline] @
     ''GFX: deterministic marker 0x'' @ hex_digits (fst (framebuffer_render_test_pattern black_screen)) @ [newline] @
     ''WM: single window composed marker 0x'' @ hex_digits (picture_marker (picture 0x00161c26 [main_window])) @ [newline] @
     report_text ''WM: overlap focus activation'' True (picture_marker (picture 0x0012181f [front_window, back_window])) @
     report_text ''WM: mouse dispatch drag'' True (picture_marker (picture 0x0012171d [back_window, moved_front])) @
     report_text ''WM: keyboard focus routing'' True 0x89939d8c)"
  using self_tests_run [OF assms] unfolding self_tests_text_def by blast

definition demo_boot :: kernel where
  "demo_boot =
     \<lparr> k_app = \<lparr> ak_desktop = \<lparr> desk_heap = demo_heap, desk_wm = demo_two,
           desk_drag = \<lparr> drag_bindings = [], drag_binding_count = 0, drag_binding = None, drag_offset_x = 0, drag_offset_y = 0,
             drag_dispatch_fn = None \<rparr>,
           desk_world = \<lparr> app_bindings = [], app_binding_count = 0,
             app_windows = (\<lambda>_. \<lparr> aw_owner_task = None, aw_on_event = None, aw_user_ctx = 0 \<rparr>),
             app_user = \<lparr> app_task = None, callback_count = 9, render_marker = 0, registered = False, ran_once = False,
               g_mouse_dispatch_stats = drag_stats \<rparr> \<rparr> \<rparr>,
         ak_input = \<lparr> mouse = \<lparr> mouse_x = 5, mouse_y = 5, mouse_buttons = 1 \<rparr>, event_queue = demo_queue \<rparr>,
         ak_fb = demo_fb, ak_tasks = task_system_init,
         ak_line = \<lparr> line_buffer = [], line_len = 0, skip_lf_after_cr = False, io_uart = \<lparr> uart_rx = [], uart_tx = [] \<rparr> \<rparr> \<rparr>,
       k_keyboard = demo_keyboard,
       k_dispatch = \<lparr> kbd_bindings = [], kbd_binding_count = 0, sink = None \<rparr>,
       g_keyboard_dispatch_stats = keyboard_dispatch_stats_reset \<rparr>"

lemma demo_boot_sized: "kernel_sized demo_boot"
  by (simp add: kernel_sized_def demo_boot_def demo_queue_def demo_keyboard_def INPUT_EVENT_QUEUE_CAPACITY_def
      KEYBOARD_EVENT_QUEUE_CAPACITY_def)

theorem kernel_self_tests_pass_witness:
  "\<exists>k'. kernel_self_tests demo_boot = Some k' \<and> take 28 (kernel_output k') = ''GFX: framebuffer initialized''"
proof -
  have o: "kernel_output demo_boot = []"
    by (simp add: demo_boot_def)
  show ?thesis
    using kernel_self_tests_pass [OF demo_boot_sized] unfolding o by (auto simp: console_text_def)
qed

end
