(* ===== verification/InterruptLog.thy ===== *)
theory InterruptLog
  imports Trap
begin

text \<open>
  What timer interrupts print. While the clock counts, the first four report a tick. Once the scheduler runs
  its two tasks, an interrupt also reports the switch, for the first twelve, the fifth one that the tasks
  alternate, and each task its first four runs. So the text depends only on how many
  interrupts there have been, since the clock and since the scheduler were started.
\<close>

subsection \<open>The texts\<close>

text \<open>After \<open>c\<close> ticks, and after \<open>n\<close> interrupts with the scheduler running.\<close>

definition tick_text :: "nat \<Rightarrow> string" where
  "tick_text c = (if c < 4 then ''TICK: periodic interrupt'' @ [newline] else [])"

definition switch_text :: "nat \<Rightarrow> string" where
  "switch_text n =
     (if 0 < n \<and> n \<le> 12 then ''SCHED: switch '' @ (if odd n then ''1 -> 2'' else ''2 -> 1'') @ [newline] else []) @
     (if n = 4 then ''SCHED_TEST: alternating tasks confirmed'' @ [newline] else [])"

text \<open>The counter of the runs of a task has 64 bits.\<close>

definition running_text :: "nat \<Rightarrow> string" where
  "running_text n =
     (if (of_nat (n div 2 + 1) :: u64) \<le> SCHED_TASK_LOG_LIMIT
      then ''TASK: '' @ (if even n then ''1'' else ''2'') @ '' running'' @ [newline] else [])"

definition ticks_text :: "nat \<Rightarrow> nat \<Rightarrow> string" where
  "ticks_text c k = concat (map (\<lambda>i. tick_text (c + i)) [0..<k])"

definition interrupts_text :: "nat \<Rightarrow> nat \<Rightarrow> nat \<Rightarrow> string" where
  "interrupts_text c n k = concat (map (\<lambda>i. tick_text (c + i) @ switch_text (n + i) @ running_text (n + i)) [0..<k])"

lemma texts_Suc:
  "ticks_text c 0 = []" "ticks_text c (Suc k) = tick_text c @ ticks_text (Suc c) k"
  "interrupts_text c n 0 = []"
  "interrupts_text c n (Suc k) = (tick_text c @ switch_text n @ running_text n) @ interrupts_text (Suc c) (Suc n) k"
  unfolding ticks_text_def interrupts_text_def map_upt_Suc by (simp_all add: comp_def)

lemma console_write_append: "console_write b (console_write a u) = console_write (a @ b) u"
  by (simp add: console_write_def)

lemma console_write_Nil [simp]: "console_write [] u = u"
  by (simp add: console_write_def)

subsection \<open>One interrupt\<close>

lemma small_digits: "u32_digits 10 1 = ''1''" "u32_digits 10 2 = ''2''"
proof -
  have z: "u32_digits k 0 = []" for k
    by (cases k) simp_all
  have n: "10 = Suc 9"
    by simp
  show "u32_digits 10 1 = ''1''" "u32_digits 10 2 = ''2''"
    unfolding n u32_digits.simps by (simp_all add: z char_of_def bit_numeral_rec bit_Suc_0_iff)
qed

lemma log_switch_text:
  "sched_uart (sched_log_switch 1 2 s) = console_write (''SCHED: switch 1 -> 2'' @ [newline]) (sched_uart s)"
  "sched_uart (sched_log_switch 2 1 s) = console_write (''SCHED: switch 2 -> 1'' @ [newline]) (sched_uart s)"
  by (simp_all add: sched_log_switch_def sched_print_def sched_write_u32_def console_write_def small_digits)

lemma note_switch_log:
  assumes "a = 1 \<and> b = 2 \<or> a = 2 \<and> b = 1"
  shows "sched_uart (sched_note_switch (Some p) a b s) = console_write
      ((if switch_log_count s < SCHED_SWITCH_LOG_LIMIT then ''SCHED: switch '' @ (if a = 1 then ''1 -> 2'' else ''2 -> 1'') @ [newline] else []) @
       (if \<not> alternation_reported s \<and> SCHED_ALT_SWITCH_TARGET \<le> alternating_switches s + 1
        then ''SCHED_TEST: alternating tasks confirmed'' @ [newline] else [])) (sched_uart s)"
    "switch_log_count (sched_note_switch (Some p) a b s) =
       switch_log_count s + (if switch_log_count s < SCHED_SWITCH_LOG_LIMIT then 1 else 0)"
  using assms
  by (auto simp: sched_note_switch_def Let_def sched_print_def log_switch_text console_write_append)
    (simp_all add: sched_log_switch_def sched_print_def sched_write_u32_def)

definition task_log :: "nat \<Rightarrow> sched_state \<Rightarrow> bool" where
  "task_log n s \<longleftrightarrow> alternating n s \<and> switch_log_count s = of_nat (min (n - 1) 12) \<and>
     task_entry (tasks s ! 0) = Some SCHED_TEST_TASK_1 \<and> task_entry (tasks s ! 1) = Some SCHED_TEST_TASK_2"

lemma task_log_uart [simp]: "task_log n (s \<lparr> sched_uart := u \<rparr>) = task_log n s"
  by (simp add: task_log_def)

lemma switched_out_logs:
  "switched_out fr s = (a, s1) \<Longrightarrow> sched_uart s1 = sched_uart s \<and> switch_log_count s1 = switch_log_count s \<and>
     alternating_switches s1 = alternating_switches s \<and> alternation_reported s1 = alternation_reported s"
  by (auto simp: switched_out_def update_task_def split: option.splits)

lemma switch_to_log:
  fixes fr :: "trap_frame option"
  assumes "task_entry (tasks s ! i) = Some e" "i < length (tasks s)"
    and "s1 = sched_note_switch p a (task_id (tasks s ! i)) (update_task i (task_context_switch_in fr) (s \<lparr> current_slot := Some slot \<rparr>))"
  shows "\<exists>t. run_count t = run_count (tasks s ! i) + 1 \<and>
      sched_uart (sched_switch_to app_entry fr p a slot i s) = run_entry app_entry e t (sched_uart s1) \<and>
      switch_log_count (sched_switch_to app_entry fr p a slot i s) = switch_log_count s1"
  using assms(1,2)
  by (intro exI [of _ "(tasks s1 ! i) \<lparr> run_count := run_count (tasks s ! i) + 1 \<rparr>"])
    (simp add: assms(3) sched_switch_to_def update_task_def task_context_switch_in_def Let_def)

lemma log_switch_frame [simp]:
  "switch_log_count (update_task i f s) = switch_log_count s" "sched_uart (update_task i f s) = sched_uart s"
  "alternating_switches (update_task i f s) = alternating_switches s" "alternation_reported (update_task i f s) = alternation_reported s"
  by (simp_all add: update_task_def)

text \<open>Whose turn it is, after \<open>n\<close> interrupts.\<close>

lemma alternating_turn:
  assumes "alternating n s"
  shows "next_slot s = n mod 2" "slot_task s (n mod 2) = n mod 2" "task_id (tasks s ! (n mod 2)) = of_nat (n mod 2) + 1"
    "run_count (tasks s ! (n mod 2)) + 1 = of_nat (n div 2 + 1)"
    "0 < n \<Longrightarrow> sched_task_from_slot s (current_slot s) = Some ((n - 1) mod 2)"
    "n = 0 \<Longrightarrow> sched_task_from_slot s (current_slot s) = None"
proof -
  have s: "sched_wf s" "runnable_count s = 2" "slot_task s 0 = 0" "slot_task s 1 = 1"
    "current_slot s = (if n = 0 then None else Some ((n - 1) mod 2))"
    "run_count (tasks s ! 0) = of_nat ((n + 1) div 2)" "run_count (tasks s ! 1) = of_nat (n div 2)"
    using assms by (simp_all add: alternating_def)
  show "next_slot s = n mod 2"
    using s(2,5) by (auto simp: next_slot_def mod_Suc_eq)
  have sl: "slot_task s (k mod 2) = k mod 2" for k
    using s(3,4) by (cases "k mod 2 = 0") (auto simp: mod_2_eq_odd)
  then show "slot_task s (n mod 2) = n mod 2" .
  have "n mod 2 < 2"
    by simp
  then have "n mod 2 < TASK_MAX_TASKS"
    unfolding TASK_MAX_TASKS_def by linarith
  then show "task_id (tasks s ! (n mod 2)) = of_nat (n mod 2) + 1"
    using s(1) by (simp add: sched_wf_def table_wf_def)
  show "run_count (tasks s ! (n mod 2)) + 1 = of_nat (n div 2 + 1)"
    using s(6,7) by (cases "odd n") (simp_all add: mod_2_eq_odd)
  show "sched_task_from_slot s (current_slot s) = Some ((n - 1) mod 2)" if "0 < n"
    using slot_found [OF s(1), of "(n - 1) mod 2"] that s(2,5) sl by simp
  show "sched_task_from_slot s (current_slot s) = None" if "n = 0"
    using that s(5) by (simp add: sched_task_from_slot_def)
qed

lemma run_entry_text:
  "run_entry app_entry SCHED_TEST_TASK_1 t u = console_write (if run_count t \<le> SCHED_TASK_LOG_LIMIT then ''TASK: 1 running'' @ [newline] else []) u"
  "run_entry app_entry SCHED_TEST_TASK_2 t u = console_write (if run_count t \<le> SCHED_TASK_LOG_LIMIT then ''TASK: 2 running'' @ [newline] else []) u"
  by (simp_all add: run_entry_def)

text \<open>The reports of the switch, after the counters have come where \<open>n\<close> interrupts bring them.\<close>

lemma note_switch_text:
  assumes "0 < n" "switch_log_count s = of_nat (min (n - 1) 12)" "alternation_reported s \<longleftrightarrow> 5 \<le> n"
    "n \<le> 5 \<longrightarrow> alternating_switches s = of_nat (n - 1)"
    and "a = of_nat ((n - 1) mod 2) + 1" "b = of_nat (n mod 2) + 1"
  shows "sched_uart (sched_note_switch (Some p) a b s) = console_write (switch_text n) (sched_uart s)"
    "switch_log_count (sched_note_switch (Some p) a b s) = of_nat (min n 12)"
proof -
  have ab: "a = (if odd n then 1 else 2)" "b = (if odd n then 2 else 1)"
    using assms(1,5,6) by (auto simp: mod_2_eq_odd)
  have l: "switch_log_count s < SCHED_SWITCH_LOG_LIMIT \<longleftrightarrow> n \<le> 12"
  proof -
    have "unat (of_nat (min (n - 1) 12) :: u32) = min (n - 1) 12"
      by (simp add: unat_of_nat)
    then show ?thesis
      using assms(1,2) by (simp add: SCHED_SWITCH_LOG_LIMIT_def word_less_nat_alt) linarith
  qed
  have r: "\<not> alternation_reported s \<and> SCHED_ALT_SWITCH_TARGET \<le> alternating_switches s + 1 \<longleftrightarrow> n = 4"
  proof (cases "n < 5")
    case True
    then have "n = 1 \<or> n = 2 \<or> n = 3 \<or> n = 4"
      using assms(1) by presburger
    then show ?thesis
      using assms(3,4) by (elim disjE) (simp_all add: SCHED_ALT_SWITCH_TARGET_def word_le_nat_alt)
  qed (use assms(3) in simp)
  note t = note_switch_log [of a b p s, unfolded l r]
  show "sched_uart (sched_note_switch (Some p) a b s) = console_write (switch_text n) (sched_uart s)"
    using t(1) assms(1) unfolding ab switch_text_def by (cases "odd n") simp_all
  have "(of_nat (min (n - 1) 12) :: u32) + (if n \<le> 12 then 1 else 0) = of_nat (min n 12)"
    using assms(1) by (cases n; cases "n = 13") (auto simp: min_def)
  then show "switch_log_count (sched_note_switch (Some p) a b s) = of_nat (min n 12)"
    using t(2) unfolding ab assms(2) by (cases "odd n") simp_all
qed

lemma interrupt_logged:
  assumes "task_log n s"
  shows "sched_uart (sched_handle_timer_interrupt app_entry fr s) = console_write (switch_text n @ running_text n) (sched_uart s)"
    "task_log (Suc n) (sched_handle_timer_interrupt app_entry fr s)"
proof -
  let ?s = "sched_handle_timer_interrupt app_entry fr s"
  have a: "alternating n s" "switch_log_count s = of_nat (min (n - 1) 12)" "task_entry (tasks s ! 0) = Some SCHED_TEST_TASK_1"
    "task_entry (tasks s ! 1) = Some SCHED_TEST_TASK_2"
    using assms by (simp_all add: task_log_def)
  have s: "sched_wf s" "scheduler_running s" "0 < runnable_count s" "n \<le> 5 \<longrightarrow> alternating_switches s = of_nat (n - 1)"
    "alternation_reported s \<longleftrightarrow> 5 \<le> n"
    using a(1) by (simp_all add: alternating_def)
  have len: "length (tasks s) = TASK_MAX_TASKS"
    using s(1) by (simp add: sched_wf_def table_wf_def)
  note turn = alternating_turn [OF a(1)]
  define i where "i = n mod 2"
  obtain prev_id s1 where so: "switched_out fr s = (prev_id, s1)" by force
  note u = interrupt_unfold [OF s(1-3) so]
  note logs = switched_out_logs [OF so]
  have i: "i < length (tasks s1)" "slot_task s (next_slot s) = i" "task_id (tasks s1 ! i) = of_nat i + 1" "run_count (tasks s1 ! i) + 1 = of_nat (n div 2 + 1)"
    using u(1,2,3) turn by (simp_all add: i_def same_schedule_def)
  define e where "e = (if even n then SCHED_TEST_TASK_1 else SCHED_TEST_TASK_2)"
  have e: "task_entry (tasks s1 ! i) = Some e"
    using u(1) i(1) a(3,4) by (cases "odd n") (simp_all add: e_def i_def mod_2_eq_odd same_schedule_def)
  define p where "p = sched_task_from_slot s (current_slot s)"
  define s2 where "s2 = update_task i (task_context_switch_in fr) (s1 \<lparr> current_slot := Some (next_slot s) \<rparr>)"
  define s3 where "s3 = sched_note_switch p prev_id (of_nat i + 1) s2"
  obtain t where t: "run_count t = of_nat (n div 2 + 1)" "sched_uart ?s = run_entry app_entry e t (sched_uart s3)" "switch_log_count ?s = switch_log_count s3"
    using switch_to_log [OF e i(1), of s3 p prev_id fr "next_slot s" app_entry] i u(6) by (auto simp: s2_def s3_def p_def)
  have s2: "switch_log_count s2 = switch_log_count s" "alternating_switches s2 = alternating_switches s"
    "alternation_reported s2 = alternation_reported s" "sched_uart s2 = sched_uart s"
    using logs by (simp_all add: s2_def)
  have "sched_uart s3 = console_write (switch_text n) (sched_uart s) \<and> switch_log_count s3 = of_nat (min n 12)"
  proof (cases "n = 0")
    case True
    then have "p = None" "prev_id = 0" "i = 0"
      using turn(6) so by (simp_all add: p_def switched_out_def i_def)
    then show ?thesis
      using True a(2) s2 by (simp add: s3_def sched_note_switch_def switch_text_def Let_def)
  next
    case False
    define j where "j = (n - 1) mod 2"
    have j: "j < TASK_MAX_TASKS"
      unfolding j_def TASK_MAX_TASKS_def by (rule less_trans [of _ 2]) simp_all
    have "p = Some j" "prev_id = of_nat j + 1"
      using turn(5) False so s(1) j by (auto simp: p_def switched_out_def j_def sched_wf_def table_wf_def)
    then show ?thesis
      using note_switch_text [of n s2 prev_id "of_nat i + 1" j] False a(2) s(4,5) s2 by (simp add: s3_def i_def j_def)
  qed
  note s3 = conjunct1 [OF this] conjunct2 [OF this]
  have "run_entry app_entry e t v = console_write (running_text n) v" for v
    using t(1) by (cases "odd n") (simp_all add: e_def run_entry_text running_text_def)
  then show "sched_uart ?s = console_write (switch_text n @ running_text n) (sched_uart s)"
    using t(2) s3(1) by (simp add: console_write_append)
  have "same_schedule s ?s"
    using interrupt_step [OF s(1-3)] by blast
  then show "task_log (Suc n) ?s"
    using alternating_step [OF a(1), of app_entry fr] t(3) s3(2) a(3,4) len by (simp add: task_log_def same_schedule_def TASK_MAX_TASKS_def)
qed

subsection \<open>Runs of interrupts\<close>

definition ticked :: "nat \<Rightarrow> clock_state \<Rightarrow> bool" where
  "ticked c k \<longleftrightarrow> clock_ticks k = of_nat c \<and> tick_log_count k = of_nat (min c 4)"

lemma clock_logged:
  assumes "ticked c k"
  shows "\<exists>k'. clock_handle_timer_interrupt now k u = (k', console_write (tick_text c) u) \<and> ticked (Suc c) k'"
proof -
  have "unat (of_nat (min c 4) :: u32) = min c 4"
    by (simp add: unat_of_nat)
  then have "tick_log_count k < CLOCK_LOG_LIMIT \<longleftrightarrow> c < 4"
    using assms by (simp add: ticked_def CLOCK_LOG_LIMIT_def word_less_nat_alt) linarith
  then show ?thesis
    using assms by (auto simp: ticked_def clock_handle_timer_interrupt_def clock_program_deadline_def clock_ticks_def tick_text_def min_def Let_def)
qed

text \<open>Before the scheduler runs, interrupts only count; afterwards they run its tasks in turn.\<close>

abbreviation timer_only :: "(machine \<times> trap_frame) list \<Rightarrow> bool" where
  "timer_only ts \<equiv> \<forall>(m, f) \<in> set ts. timer_cause (tf_mcause f)"

lemma trap_run_idle:
  assumes "\<not> scheduler_running (k_sched k)" "ticked c (k_clock k)" "timer_only ts"
  shows "\<exists>k'. trap_run ts k = Inr k' \<and> ticked (c + length ts) (k_clock k') \<and>
    k_sched k' = (k_sched k) \<lparr> sched_uart := console_write (ticks_text c (length ts)) (sched_uart (k_sched k)) \<rparr>"
  using assms
proof (induction ts arbitrary: k c)
  case (Cons t ts)
  obtain m f where t: "t = (m, f)" by force
  obtain k1 where k1: "clock_handle_timer_interrupt (m_now m) (k_clock k) (sched_uart (k_sched k)) =
      (k1, console_write (tick_text c) (sched_uart (k_sched k)))" "ticked (Suc c) k1"
    using clock_logged [OF Cons.prems(2)] by blast
  define k2 where "k2 = k \<lparr> k_clock := k1, k_sched := (k_sched k) \<lparr> sched_uart := console_write (tick_text c) (sched_uart (k_sched k)) \<rparr> \<rparr>"
  have k2: "trap_handle m f k = Inr (f, k2)"
    using Cons.prems t k1 by (simp add: trap_handle_spec sched_handle_timer_interrupt_def k2_def)
  obtain k' where "trap_run ts k2 = Inr k'" "ticked (Suc c + length ts) (k_clock k')"
    "k_sched k' = (k_sched k2) \<lparr> sched_uart := console_write (ticks_text (Suc c) (length ts)) (sched_uart (k_sched k2)) \<rparr>"
    using Cons.IH [of k2 "Suc c"] Cons.prems k1(2) by (auto simp: k2_def)
  then show ?case
    by (simp add: t k2 texts_Suc console_write_append) (simp add: k2_def console_write_append)
qed (simp add: texts_Suc)

lemma trap_run_tasks:
  assumes "task_log n (k_sched k)" "ticked c (k_clock k)" "timer_only ts"
  shows "\<exists>k'. trap_run ts k = Inr k' \<and> task_log (n + length ts) (k_sched k') \<and> ticked (c + length ts) (k_clock k') \<and>
    same_schedule (k_sched k) (k_sched k') \<and>
    sched_uart (k_sched k') = console_write (interrupts_text c n (length ts)) (sched_uart (k_sched k))"
  using assms
proof (induction ts arbitrary: k n c)
  case Nil
  then show ?case by (simp add: same_schedule_def texts_Suc)
next
  case (Cons t ts)
  obtain m f where t: "t = (m, f)" by force
  obtain k1 where k1: "clock_handle_timer_interrupt (m_now m) (k_clock k) (sched_uart (k_sched k)) =
      (k1, console_write (tick_text c) (sched_uart (k_sched k)))" "ticked (Suc c) k1"
    using clock_logged [OF Cons.prems(2)] by blast
  define s where "s = (k_sched k) \<lparr> sched_uart := console_write (tick_text c) (sched_uart (k_sched k)) \<rparr>"
  define s1 where "s1 = sched_handle_timer_interrupt (m_app_entry m) (Some f) s"
  define k2 where "k2 = k \<lparr> k_clock := k1, k_sched := s1 \<rparr>"
  have k2: "trap_handle m f k = Inr (f, k2)"
    using Cons.prems t k1 by (simp add: trap_handle_spec k2_def s1_def s_def)
  have s: "task_log n s"
    using Cons.prems(1) by (simp add: task_log_def s_def)
  note s1 = interrupt_logged [OF s, of "m_app_entry m" "Some f", folded s1_def]
  have same: "same_schedule (k_sched k) s1"
    using interrupt_step [of s "m_app_entry m" "Some f"] s by (simp add: task_log_def alternating_def s1_def) (simp add: s_def same_schedule_def)
  obtain k' where k': "trap_run ts k2 = Inr k'" "task_log (Suc n + length ts) (k_sched k')" "ticked (Suc c + length ts) (k_clock k')"
    "same_schedule s1 (k_sched k')" "sched_uart (k_sched k') = console_write (interrupts_text (Suc c) (Suc n) (length ts)) (sched_uart s1)"
    using Cons.IH [of "Suc n" k2 "Suc c"] Cons.prems(3) s1(2) k1(2) by (auto simp: k2_def)
  have "sched_uart (k_sched k') = console_write (interrupts_text c n (Suc (length ts))) (sched_uart (k_sched k))"
    unfolding k'(5) s1(1) texts_Suc by (simp add: s_def console_write_append)
  then show ?case
    using k' same by (simp add: t k2 same_schedule_def)
qed

end
