(* ===== verification/Boot.thy ===== *)
theory Boot
  imports KernelMain MultiTerminal InterruptLog PageAlloc Shell
begin

text \<open>
  The whole of \<open>kernel_main\<close> (\<open>kernel/main.c\<close>) from power-on to the shell's loop, on the state of the whole
  kernel, with timer interrupts taken on the way.

  Some static state is read by several components, whose theories each have a place for it: the UART and
  the task table by the scheduler and the tests, the window system by the tests and the terminals, the
  line editor by the tests and the shell. In \<open>system\<close> each has one owner, and the other components work
  on a view that is written back after the call.
\<close>

record system =
  sys_kernel :: kernel
  sys_trap :: kernel_state
  sys_terminals :: terminal_world
  sys_shell :: shell_state

text \<open>
  What the program gets from outside: the end of the image, the address of the entry code, the machine at
  the start of the clock and at the \<open>ebreak\<close> of the trap test with the frame saved there, and the timer
  interrupts that arrive at each of five points of the boot.
\<close>

record hardware =
  hw_bss_end :: u64
  hw_trap_vector :: u64
  hw_machine :: machine
  hw_break_frame :: trap_frame
  hw_interrupts :: "nat \<Rightarrow> (machine \<times> trap_frame) list"

subsection \<open>Views\<close>

text \<open>The scheduler and the trap handler: tasks and UART are those of the kernel.\<close>

definition trap_view :: "system \<Rightarrow> kernel_state" where
  "trap_view s =
     (let a = k_app (sys_kernel s); t = sys_trap s
      in t \<lparr> k_sched := (k_sched t) \<lparr> tasks := ak_tasks a, sched_uart := io_uart (ak_line a) \<rparr> \<rparr>)"

definition put_trap :: "kernel_state \<Rightarrow> system \<Rightarrow> system" where
  "put_trap t s = s \<lparr> sys_trap := t, sys_kernel := on_app (\<lambda>a. a \<lparr> ak_tasks := tasks (k_sched t),
     ak_line := (ak_line a) \<lparr> io_uart := sched_uart (k_sched t) \<rparr> \<rparr>) (sys_kernel s) \<rparr>"

text \<open>
  The table of keyboard endpoints for another receiver. Its function pointer belongs to the receiver; both
  users set it, after a reset, before they dispatch.
\<close>

definition dispatch_view :: "'a keyboard_dispatch_state \<Rightarrow> 'b keyboard_dispatch_state" where
  "dispatch_view e = \<lparr> kbd_bindings = kbd_bindings e, kbd_binding_count = kbd_binding_count e, sink = None \<rparr>"

definition test_view :: "system \<Rightarrow> terminal_test" where
  "test_view s =
     (let k = sys_kernel s; d = k_desktop k
      in \<lparr> mt_desktop = \<lparr> td_heap = desk_heap d, td_wm = desk_wm d, td_keyboard = dispatch_view (k_dispatch k),
             td_world = sys_terminals s \<rparr>,
           mt_keyboard = k_keyboard k, mt_fb = ak_fb (k_app k) \<rparr>)"

definition put_test :: "terminal_test \<Rightarrow> system \<Rightarrow> system" where
  "put_test t s =
     (let k = sys_kernel s; d = mt_desktop t;
          k = set_desktop ((k_desktop k) \<lparr> desk_heap := td_heap d, desk_wm := td_wm d \<rparr>) k;
          k = on_app (\<lambda>a. a \<lparr> ak_fb := mt_fb t \<rparr>) k
      in s \<lparr> sys_kernel := k \<lparr> k_keyboard := mt_keyboard t, k_dispatch := dispatch_view (td_keyboard d) \<rparr>,
             sys_terminals := td_world d \<rparr>)"

definition shell_view :: "system \<Rightarrow> shell_state" where
  "shell_view s = (sys_shell s) \<lparr> sh_io := ak_line (k_app (sys_kernel s)) \<rparr>"

definition put_shell :: "shell_state \<Rightarrow> system \<Rightarrow> system" where
  "put_shell sh s = s \<lparr> sys_shell := sh, sys_kernel := on_app (\<lambda>a. a \<lparr> ak_line := sh_io sh \<rparr>) (sys_kernel s) \<rparr>"

subsection \<open>The program\<close>

definition sys_print :: "string \<Rightarrow> system \<Rightarrow> system" where
  "sys_print str s = s \<lparr> sys_kernel := kernel_print str (sys_kernel s) \<rparr>"

definition on_trap :: "(kernel_state \<Rightarrow> kernel_state) \<Rightarrow> system \<Rightarrow> system" where
  "on_trap f s = put_trap (f (trap_view s)) s"

text \<open>Interrupts that arrive; \<open>None\<close> if the handler halts.\<close>

definition take_interrupts :: "(machine \<times> trap_frame) list \<Rightarrow> system \<Rightarrow> system option" where
  "take_interrupts ts s = (case trap_run ts (trap_view s) of Inl k \<Rightarrow> None | Inr k \<Rightarrow> Some (put_trap k s))"

text \<open>
  Bringing up the machine. \<open>console_init\<close> sets the registers of the UART (\<open>Uart.thy\<close>), of which only the
  byte sequences are visible here: the bytes to be received are those that come after it, as it clears the
  receiver when it turns the FIFOs on.
\<close>

definition kernel_bring_up :: "hardware \<Rightarrow> system \<Rightarrow> system option" where
  "kernel_bring_up hw s =
     (let s = s \<lparr> sys_shell := (sys_shell s) \<lparr> sh_pages := mm_init (hw_bss_end hw) \<rparr> \<rparr>;
          s = sys_print (''BOOT: kernel entry'' @ [newline]) s;
          s = on_trap (trap_init (hw_trap_vector hw)) s;
          s = sys_print (''console: line io ready'' @ [newline]) s
      in case trap_test_trigger (hw_machine hw) (hw_break_frame hw) (trap_view s) of
           Inl k \<Rightarrow> None
         | Inr k \<Rightarrow> do {
             let s = on_trap (\<lambda>k. k \<lparr> k_clock := clock_init (m_now (hw_machine hw)) (k_clock k) \<rparr>) (put_trap k s);
             s \<leftarrow> take_interrupts (hw_interrupts hw 0) s;
             Some (on_trap (\<lambda>k. k \<lparr> k_sched := sched_bootstrap_test_tasks (k_sched k) \<rparr>) s)
           })"

definition kernel_terminal_test :: "system \<Rightarrow> system option" where
  "kernel_terminal_test s = do {
     (r, marker, t) \<leftarrow> multi_terminal_test_run (test_view s);
     let s = put_test t s;
     Some (s \<lparr> sys_kernel := report ''WM: multi terminal isolation'' (r = 0, marker, sys_kernel s) \<rparr>)
   }"

definition kernel_boot :: "hardware \<Rightarrow> system \<Rightarrow> system option" where
  "kernel_boot hw s = do {
     s \<leftarrow> kernel_bring_up hw s;
     s \<leftarrow> take_interrupts (hw_interrupts hw 1) s;
     k \<leftarrow> kernel_self_tests (sys_kernel s);
     s \<leftarrow> take_interrupts (hw_interrupts hw 2) (s \<lparr> sys_kernel := k \<rparr>);
     s \<leftarrow> kernel_terminal_test s;
     s \<leftarrow> take_interrupts (hw_interrupts hw 3) s;
     k \<leftarrow> kernel_run_demo (sys_kernel s);
     take_interrupts (hw_interrupts hw 4) (s \<lparr> sys_kernel := k \<rparr>)
   }"

text \<open>Up to the start of round \<open>n\<close> of the shell.\<close>

definition kernel_main :: "hardware \<Rightarrow> nat \<Rightarrow> system \<Rightarrow> system option" where
  "kernel_main hw n s = do {
     s \<leftarrow> kernel_boot hw s;
     sh \<leftarrow> shell_run n (shell_view s);
     Some (put_shell sh s)
   }"

subsection \<open>Interrupts during the boot\<close>

text \<open>Only bytes are written, none is read.\<close>

definition uart_writes :: "uart_state \<Rightarrow> uart_state \<Rightarrow> bool" where
  "uart_writes u u' \<longleftrightarrow> (\<exists>t. u' = u \<lparr> uart_tx := uart_tx u @ t \<rparr>)"

lemma uart_writes_console [simp]: "uart_writes u u" "uart_writes u (console_write t u)"
  by (auto simp: uart_writes_def console_write_text exI [of _ "[]"])

abbreviation sys_output :: "system \<Rightarrow> string" where
  "sys_output s \<equiv> kernel_output (sys_kernel s)"

lemma trap_views [simp]:
  "trap_view (put_trap k s) = k"
  "k_clock (trap_view s) = k_clock (sys_trap s)" "tasks (k_sched (trap_view s)) = ak_tasks (k_app (sys_kernel s))"
  "sched_uart (k_sched (trap_view s)) = io_uart (ak_line (k_app (sys_kernel s)))"
  by (simp_all add: trap_view_def put_trap_def on_app_def Let_def)

lemma put_trap_keeps [simp]:
  "sys_shell (put_trap k s) = sys_shell s" "sys_terminals (put_trap k s) = sys_terminals s" "sys_trap (put_trap k s) = k"
  "k_desktop (sys_kernel (put_trap k s)) = k_desktop (sys_kernel s)" "k_keyboard (sys_kernel (put_trap k s)) = k_keyboard (sys_kernel s)"
  "ak_tasks (k_app (sys_kernel (put_trap k s))) = tasks (k_sched k)" "demo_app (k_app (sys_kernel (put_trap k s))) = demo_app (k_app (sys_kernel s))"
  "ak_input (k_app (sys_kernel (put_trap k s))) = ak_input (k_app (sys_kernel s))"
  "ak_fb (k_app (sys_kernel (put_trap k s))) = ak_fb (k_app (sys_kernel s))"
  "io_uart (ak_line (k_app (sys_kernel (put_trap k s)))) = sched_uart (k_sched k)"
  by (simp_all add: put_trap_def on_app_def k_desktop_def demo_app_def)

lemma put_trap_line:
  "uart_writes (io_uart (ak_line (k_app (sys_kernel s)))) (sched_uart (k_sched k)) \<Longrightarrow>
   line_input (ak_line (k_app (sys_kernel (put_trap k s)))) = line_input (ak_line (k_app (sys_kernel s)))"
  by (auto simp: uart_writes_def put_trap_def on_app_def line_input_def)

text \<open>
  What the later stages need of the earlier ones: the scheduler runs its two tasks, \<open>n\<close> times so far, a task
  is free, the application has not been registered, and nothing has been read.
\<close>

definition boot_inv :: "nat \<Rightarrow> nat \<Rightarrow> line_io_state \<Rightarrow> system \<Rightarrow> bool" where
  "boot_inv n c l s \<longleftrightarrow>
     task_log n (k_sched (trap_view s)) \<and> ticked c (k_clock (sys_trap s)) \<and> line_input (ak_line (k_app (sys_kernel s))) = l"

definition app_ready :: "system \<Rightarrow> bool" where
  "app_ready s \<longleftrightarrow> \<not> registered (demo_app (k_app (sys_kernel s))) \<and> \<not> ran_once (demo_app (k_app (sys_kernel s))) \<and>
     (\<exists>t < TASK_MAX_TASKS. task_status (ak_tasks (k_app (sys_kernel s)) ! t) = TASK_STATE_UNUSED)"

lemma interrupts_taken:
  assumes "boot_inv n c l s" "timer_only ts"
  shows "\<exists>k. take_interrupts ts s = Some (put_trap k s) \<and> boot_inv (n + length ts) (c + length ts) l (put_trap k s) \<and>
    sys_output (put_trap k s) = sys_output s @ console_text (interrupts_text c n (length ts)) \<and> app_ready (put_trap k s) = app_ready s"
proof -
  have a: "task_log n (k_sched (trap_view s))" "ticked c (k_clock (trap_view s))"
    using assms(1) by (simp_all add: boot_inv_def)
  obtain k where k: "trap_run ts (trap_view s) = Inr k" "task_log (n + length ts) (k_sched k)" "ticked (c + length ts) (k_clock k)"
    "same_schedule (k_sched (trap_view s)) (k_sched k)"
    "sched_uart (k_sched k) = console_write (interrupts_text c n (length ts)) (io_uart (ak_line (k_app (sys_kernel s))))"
    using trap_run_tasks [OF a assms(2)] by auto
  have "length (tasks (k_sched (trap_view s))) = TASK_MAX_TASKS"
    using a(1) unfolding task_log_def alternating_def sched_wf_def table_wf_def by blast
  then have "app_ready (put_trap k s) = app_ready s"
    using k(4) by (auto simp: app_ready_def same_schedule_def)
  moreover have "uart_writes (io_uart (ak_line (k_app (sys_kernel s)))) (sched_uart (k_sched k))"
    using k(5) by simp
  note line = put_trap_line [OF this]
  ultimately show ?thesis
    using k assms(1) by (intro exI [of _ k]) (simp add: take_interrupts_def boot_inv_def line, simp add: console_write_text)
qed

text \<open>A test changes neither the tasks nor what can be read.\<close>

lemma kernel_stage:
  assumes "boot_inv n c l s" "kept_state k = kept_state (sys_kernel s)"
  shows "boot_inv n c l (s \<lparr> sys_kernel := k \<rparr>)" "app_ready (s \<lparr> sys_kernel := k \<rparr>) = app_ready s"
proof -
  have k: "ak_tasks (k_app k) = ak_tasks (k_app (sys_kernel s))" "line_input (ak_line (k_app k)) = line_input (ak_line (k_app (sys_kernel s)))"
    "registered (demo_app (k_app k)) = registered (demo_app (k_app (sys_kernel s)))"
    "ran_once (demo_app (k_app k)) = ran_once (demo_app (k_app (sys_kernel s)))"
    using assms(2) by (simp_all add: kept_state_def Let_def)
  have "k_sched (trap_view (s \<lparr> sys_kernel := k \<rparr>)) = (k_sched (trap_view s)) \<lparr> sched_uart := io_uart (ak_line (k_app k)) \<rparr>"
    by (simp add: trap_view_def k(1) Let_def)
  then show "boot_inv n c l (s \<lparr> sys_kernel := k \<rparr>)" "app_ready (s \<lparr> sys_kernel := k \<rparr>) = app_ready s"
    using assms(1) k by (simp_all add: boot_inv_def app_ready_def)
qed

subsection \<open>The stages\<close>

lemma reports:
  "kernel_output (report what (ok, m, k)) = kernel_output k @ console_text (report_text what ok m)"
  "kept_state (report what (ok, m, k)) = kept_state k" "ak_input (k_app (report what (ok, m, k))) = ak_input (k_app k)"
  by (simp_all add: report_def report_text_def console_text_def)
    (simp add: kernel_print_def console_put_hex32_def on_app_def app_puts)

lemma put_test_kernel:
  assumes "s' = put_test t s"
  shows "kept_state (sys_kernel s') = kept_state (sys_kernel s)" "sys_output s' = sys_output s" "sys_shell s' = sys_shell s" "sys_trap s' = sys_trap s"
    "ak_input (k_app (sys_kernel s')) = ak_input (k_app (sys_kernel s))" "s' = s \<lparr> sys_kernel := sys_kernel s', sys_terminals := sys_terminals s' \<rparr>"
  by (simp_all add: assms put_test_def Let_def kept_state_def set_desktop_def on_app_def demo_app_def k_desktop_def)

lemma terminal_stage:
  assumes "boot_inv n c l s" "kernel_sized (sys_kernel s)"
  shows "\<exists>marker s'. kernel_terminal_test s = Some s' \<and> boot_inv n c l s' \<and> app_ready s' = app_ready s \<and> sys_shell s' = sys_shell s \<and>
    sys_output s' = sys_output s @ console_text (report_text ''WM: multi terminal isolation'' True marker) \<and>
    ak_input (k_app (sys_kernel s')) = ak_input (k_app (sys_kernel s))"
proof -
  obtain marker t where t: "multi_terminal_test_run (test_view s) = Some (0, marker, t)"
    using multi_terminal_passes [of "test_view s"] assms(2) by (auto simp: test_view_def kernel_sized_def Let_def)
  define k where "k = sys_kernel (put_test t s)"
  note p = put_test_kernel [OF refl, of t s, folded k_def]
  define k' where "k' = report ''WM: multi terminal isolation'' (True, marker, k)"
  have k': "kept_state k' = kept_state (sys_kernel s)" "ak_input (k_app k') = ak_input (k_app (sys_kernel s))"
    "kernel_output k' = sys_output s @ console_text (report_text ''WM: multi terminal isolation'' True marker)"
    using p by (simp_all add: k'_def reports)
  define s' where "s' = s \<lparr> sys_terminals := sys_terminals (put_test t s), sys_kernel := k' \<rparr>"
  have "kernel_terminal_test s = Some s'"
    using t arg_cong [OF p(6), of "sys_kernel_update (\<lambda>_. k')"]
    by (simp add: kernel_terminal_test_def Let_def k_def [symmetric] k'_def [symmetric] s'_def)
  moreover have "boot_inv n c l (s \<lparr> sys_terminals := sys_terminals (put_test t s) \<rparr>)"
    "app_ready (s \<lparr> sys_terminals := sys_terminals (put_test t s) \<rparr>) = app_ready s"
    using assms(1) by (simp_all add: boot_inv_def trap_view_def app_ready_def)
  ultimately show ?thesis
    using kernel_stage [of n c l "s \<lparr> sys_terminals := sys_terminals (put_test t s) \<rparr>" k'] k' by (auto simp: s'_def)
qed

lemma create_logged:
  assumes "task_log n s" "table = snd (task_create (tasks s) name entry)"
  shows "task_log n (s \<lparr> tasks := table \<rparr>)"
proof (cases "table = tasks s")
  case True
  then show ?thesis
  using assms(1) by simp
next
  case False
  then obtain i where i: "i < TASK_MAX_TASKS" "task_status (tasks s ! i) = TASK_STATE_UNUSED" and table: "table = (tasks s) [i := (tasks s ! i)
      \<lparr> task_name := name, task_status := TASK_STATE_RUNNABLE, run_count := 0, task_context := cleared_context, task_entry := entry \<rparr>]"
    using assms(2) by (auto simp: task_create_def find_index_Some split: if_splits option.splits)
  have wf: "sched_wf s" "runnable_count s = 2" "slot_task s 0 = 0" "slot_task s 1 = 1"
    using assms(1) by (simp_all add: task_log_def alternating_def)
  have st: "slot_task (s \<lparr> tasks := table \<rparr>) = slot_task s"
    by (simp add: slot_task_def fun_eq_iff)
  have used: "k < 2 \<Longrightarrow> i \<noteq> slot_task s k" for k
    using wf(1,2) i(2) by (auto simp: sched_wf_def)
  then have same: "k < 2 \<Longrightarrow> table ! slot_task s k = tasks s ! slot_task s k" for k
    using table used [of k] by simp
  have "table_wf table"
    using wf(1) i(1) by (auto simp: sched_wf_def table_wf_def table nth_list_update)
  then have "sched_wf (s \<lparr> tasks := table \<rparr>)"
    using wf(1,2) same by (simp add: sched_wf_def st)
  moreover have "table ! 0 = tasks s ! 0" "table ! 1 = tasks s ! 1"
    using same [of 0] same [of 1] wf(3,4) by simp_all
  ultimately show ?thesis
    using assms(1) by (simp add: task_log_def alternating_def st)
qed

lemma demo_stage:
  assumes "boot_inv n c l s" "app_ready s" "length (q_events (event_queue (ak_input (k_app (sys_kernel s))))) = INPUT_EVENT_QUEUE_CAPACITY"
  shows "\<exists>k marker. kernel_run_demo (sys_kernel s) = Some k \<and> boot_inv n c l (s \<lparr> sys_kernel := k \<rparr>) \<and>
    kernel_output k = sys_output s @ console_text (''APP: demo window callback marker 0x'' @ hex_digits marker @ [newline])"
proof -
  let ?a = "k_app (sys_kernel s)"
  have b: "task_log n (k_sched (trap_view s))"
    using assms(1) by (simp add: boot_inv_def)
  then have "sched_wf (k_sched (trap_view s))"
    by (simp add: task_log_def alternating_def)
  then have t: "length (ak_tasks ?a) = TASK_MAX_TASKS" "\<And>i. i < TASK_MAX_TASKS \<Longrightarrow> task_id (ak_tasks ?a ! i) = of_nat i + 1"
    by (simp_all add: sched_wf_def table_wf_def)
  have "(of_nat i + 1 :: u32) \<noteq> 0" if "i < TASK_MAX_TASKS" for i
    using that by (simp add: TASK_MAX_TASKS_def word_unat_eq_iff unat_word_ariths unat_of_nat)
  then have ids: "\<forall>i < TASK_MAX_TASKS. task_id (ak_tasks ?a ! i) \<noteq> 0"
    using t(2) by simp
  obtain j where j: "j < TASK_MAX_TASKS" "task_status (ak_tasks ?a ! j) = TASK_STATE_UNUSED"
    and fresh: "\<not> registered (demo_app ?a)" "\<not> ran_once (demo_app ?a)"
    using assms(2) by (auto simp: app_ready_def)
  obtain r a1 where reg: "demo_window_app_register ?a = (r, a1)" by force
  obtain a2 where a2: "r = 0" "demo_window_app_run_once a1 = Some a2"
    "app_output a2 = app_output ?a @ console_text (''APP: demo window callback marker 0x'' @ hex_digits (render_marker (demo_app a2)) @ [newline])"
    "ak_tasks a2 = snd (task_create (ak_tasks ?a) (Some ''demo-window-app'') (Some DEMO_ENTRY))" "line_input (ak_line a2) = line_input (ak_line ?a)"
    using demo_first_run [OF fresh t(1) j ids assms(3) reg] by blast
  define k where "k = (sys_kernel s) \<lparr> k_app := a2 \<rparr>"
  have k: "kernel_run_demo (sys_kernel s) = Some k"
    using reg a2(1,2) by (simp add: kernel_run_demo_def k_def)
  have v: "k_sched (trap_view (s \<lparr> sys_kernel := k \<rparr>)) =
      (k_sched (trap_view s) \<lparr> tasks := ak_tasks a2 \<rparr>) \<lparr> sched_uart := io_uart (ak_line a2) \<rparr>"
    by (simp add: trap_view_def k_def Let_def)
  have "task_log n (k_sched (trap_view s) \<lparr> tasks := ak_tasks a2 \<rparr>)"
    using create_logged [OF b, of "ak_tasks a2" "Some ''demo-window-app''" "Some DEMO_ENTRY"] a2(4) by simp
  then have "boot_inv n c l (s \<lparr> sys_kernel := k \<rparr>)"
    using assms(1) a2(5) unfolding boot_inv_def v by (simp add: k_def)
  then show ?thesis
    using k a2(3) by (auto simp: k_def)
qed

subsection \<open>From power-on\<close>

text \<open>
  The static state as the program finds it, as far as it matters: the scheduler and the application are not
  set up, the arrays of the queues have their sizes, and the line editor holds a text.
\<close>

definition power_on :: "system \<Rightarrow> bool" where
  "power_on s \<longleftrightarrow> \<not> bootstrapped (k_sched (sys_trap s)) \<and> \<not> scheduler_running (k_sched (sys_trap s)) \<and>
     \<not> registered (demo_app (k_app (sys_kernel s))) \<and> \<not> ran_once (demo_app (k_app (sys_kernel s))) \<and> kernel_sized (sys_kernel s) \<and>
     line_wf (ak_line (k_app (sys_kernel s))) \<and> c_string (current_line (ak_line (k_app (sys_kernel s))))"

definition trap_test_text :: "u64 \<Rightarrow> string" where
  "trap_test_text mepc = ''TRAP_TEST: trigger'' @ [newline] @ ''TRAP_TEST: mcause='' @ console_hex_u64 3 @ '' mepc='' @ console_hex_u64 mepc @ [newline] @
     ''TRAP_TEST: handled'' @ [newline]"

lemma trap_print_simps [simp]:
  "trap_test_passed (trap_print str k) = trap_test_passed k" "trap_test_armed (trap_print str k) = trap_test_armed k"
  "k_clock (trap_print str k) = k_clock k"
  "k_sched (trap_print str k) = (k_sched k) \<lparr> sched_uart := (sched_uart (k_sched k)) \<lparr> uart_tx := uart_tx (sched_uart (k_sched k)) @ console_text str \<rparr> \<rparr>"
  by (simp_all add: trap_print_def sched_print_def console_write_text)

lemma trap_test_handled:
  assumes "tf_mcause f = 3"
  shows "\<exists>k'. trap_test_trigger m f k = Inr k' \<and> k_clock k' = k_clock k \<and>
    k_sched k' = (k_sched k) \<lparr> sched_uart := (sched_uart (k_sched k)) \<lparr> uart_tx := uart_tx (sched_uart (k_sched k)) @ console_text (trap_test_text (tf_mepc f)) \<rparr> \<rparr>"
  using assms by (simp add: trap_test_trigger_def trap_handle_spec timer_cause_def Let_def trap_test_text_def console_text_def)

lemma booted_simps:
  "tasks (booted u) ! 2 = task_reset 3" "task_log 0 (booted u)" "sched_uart (booted u) = u"
  using booted_alternating by (simp_all add: task_log_def) (simp_all add: booted_def fresh_task_def upt_rec)

lemma bring_up_stage:
  assumes "power_on s" "tf_mcause (hw_break_frame hw) = 3" "timer_only (hw_interrupts hw 0)"
  shows "\<exists>s'. kernel_bring_up hw s = Some s' \<and> boot_inv 0 (length (hw_interrupts hw 0)) (line_input (ak_line (k_app (sys_kernel s)))) s' \<and>
    app_ready s' \<and> kernel_sized (sys_kernel s') \<and> sh_pages (sys_shell s') = mm_init (hw_bss_end hw) \<and>
    sys_output s' = sys_output s @
      console_text (''BOOT: kernel entry'' @ [newline] @ ''console: line io ready'' @ [newline] @ trap_test_text (tf_mepc (hw_break_frame hw)) @
        ticks_text 0 (length (hw_interrupts hw 0)) @ ''SCHED: policy=round-robin runnable=2'' @ [newline])"
proof -
  let ?m = "hw_machine hw" and ?f = "hw_break_frame hw" and ?u = "io_uart (ak_line (k_app (sys_kernel s)))"
  define s1 where "s1 = sys_print (''console: line io ready'' @ [newline]) (on_trap (trap_init (hw_trap_vector hw))
    (sys_print (''BOOT: kernel entry'' @ [newline]) (s \<lparr> sys_shell := (sys_shell s) \<lparr> sh_pages := mm_init (hw_bss_end hw) \<rparr> \<rparr>)))"
  define same where "same s' \<longleftrightarrow> line_input (ak_line (k_app (sys_kernel s'))) = line_input (ak_line (k_app (sys_kernel s))) \<and>
    demo_app (k_app (sys_kernel s')) = demo_app (k_app (sys_kernel s)) \<and> kernel_sized (sys_kernel s') \<and>
    sh_pages (sys_shell s') = mm_init (hw_bss_end hw)" for s' :: system
  have same_put: "same (put_trap k s')" if "same s'" "uart_writes (io_uart (ak_line (k_app (sys_kernel s')))) (sched_uart (k_sched k))" for k s'
    using that put_trap_line [OF that(2)] by (simp add: same_def kernel_sized_def)
  have s1: "same s1" "io_uart (ak_line (k_app (sys_kernel s1))) = ?u \<lparr> uart_tx := uart_tx ?u @
      console_text (''BOOT: kernel entry'' @ [newline] @ ''console: line io ready'' @ [newline]) \<rparr>"
    "\<not> scheduler_running (k_sched (trap_view s1))" "\<not> bootstrapped (k_sched (trap_view s1))"
    using assms(1)
    by (simp_all add: s1_def same_def power_on_def kernel_sized_def sys_print_def on_trap_def trap_init_def kernel_print_def on_app_def
        app_print_def demo_app_def put_trap_def trap_view_def line_input_def line_io_write_def console_write_text console_text_def Let_def)
  obtain k where k: "trap_test_trigger ?m ?f (trap_view s1) = Inr k" "k_sched k = (k_sched (trap_view s1)) \<lparr> sched_uart :=
      (sched_uart (k_sched (trap_view s1))) \<lparr> uart_tx := uart_tx (sched_uart (k_sched (trap_view s1))) @ console_text (trap_test_text (tf_mepc ?f)) \<rparr> \<rparr>"
    using trap_test_handled [OF assms(2), of ?m "trap_view s1"] by blast
  define k2 where "k2 = k \<lparr> k_clock := clock_init (m_now ?m) (k_clock k) \<rparr>"
  define s2 where "s2 = put_trap k2 (put_trap k s1)"
  have w: "uart_writes (io_uart (ak_line (k_app (sys_kernel s1)))) (sched_uart (k_sched k))"
    using k(2) by (auto simp: uart_writes_def)
  have s2: "same s2" "trap_view s2 = k2"
    using same_put [OF same_put [OF s1(1) w], of k2] by (simp_all add: s2_def k2_def)
  have idle: "\<not> scheduler_running (k_sched k2)" "\<not> bootstrapped (k_sched k2)" "ticked 0 (k_clock k2)"
    using s1(3,4) k(2) by (simp_all add: k2_def ticked_def clock_init_def clock_ticks_def Let_def)
  define u where "u = console_write (ticks_text 0 (length (hw_interrupts hw 0))) (sched_uart (k_sched k2))"
  obtain k3 where k3: "trap_run (hw_interrupts hw 0) k2 = Inr k3" "k_sched k3 = (k_sched k2) \<lparr> sched_uart := u \<rparr>"
    "ticked (length (hw_interrupts hw 0)) (k_clock k3)"
    using trap_run_idle [OF idle(1,3) assms(3)] by (auto simp: u_def)
  define s3 where "s3 = put_trap k3 s2"
  define u' where "u' = console_write (''SCHED: policy=round-robin runnable=2'' @ [newline]) u"
  have boot: "sched_bootstrap_test_tasks (k_sched k3) = booted u'"
    using bootstrap_state [of "k_sched k3"] idle(2) k3(2) by (simp add: u'_def)
  define s' where "s' = put_trap (k3 \<lparr> k_sched := booted u' \<rparr>) s3"
  have "kernel_bring_up hw s = Some s'"
    unfolding kernel_bring_up_def Let_def s1_def [symmetric]
    using k(1) k3(1) boot s2(2)
    by (simp add: on_trap_def k2_def [symmetric] s2_def [symmetric] take_interrupts_def s3_def [symmetric] s'_def) (simp add: s3_def)
  moreover have "same s3"
    using same_put [OF s2(1), of k3] k3(2) by (simp add: s3_def s2_def u_def)
  then have "same s'"
    using same_put [of s3 "k3 \<lparr> k_sched := booted u' \<rparr>"] k3(2)
    by (simp add: s3_def s'_def booted_simps u'_def)
  moreover have "sys_output s' = sys_output s @
      console_text (''BOOT: kernel entry'' @ [newline] @ ''console: line io ready'' @ [newline] @ trap_test_text (tf_mepc ?f) @
        ticks_text 0 (length (hw_interrupts hw 0)) @ ''SCHED: policy=round-robin runnable=2'' @ [newline])"
    using s1(2) k(2) by (simp add: s'_def booted_simps u'_def u_def console_write_text k2_def console_text_def)
  ultimately show ?thesis
    using k3(3) assms(1) by (auto simp: boot_inv_def app_ready_def same_def s'_def booted_simps power_on_def task_reset_def TASK_MAX_TASKS_def
        intro!: exI [of _ 2])
qed

subsection \<open>The boot\<close>

text \<open>What is printed up to the shell: five parts, each with what the interrupts after it print.\<close>

definition boot_messages :: "u64 \<Rightarrow> u32 \<Rightarrow> u32 \<Rightarrow> string list" where
  "boot_messages mepc terminals demo =
     [''BOOT: kernel entry'' @ [newline] @ ''console: line io ready'' @ [newline] @ trap_test_text mepc,
      ''SCHED: policy=round-robin runnable=2'' @ [newline],
      self_tests_text,
      report_text ''WM: multi terminal isolation'' True terminals,
      ''APP: demo window callback marker 0x'' @ hex_digits demo @ [newline]]"

definition with_interrupts :: "string list \<Rightarrow> string list \<Rightarrow> string" where
  "with_interrupts messages ts = console_text (concat (map2 (@) messages ts))"

text \<open>\<open>l j\<close> interrupts after part \<open>j\<close>.\<close>

definition interrupt_texts :: "(nat \<Rightarrow> nat) \<Rightarrow> string list" where
  "interrupt_texts l =
     [ticks_text 0 (l 0), interrupts_text (l 0) 0 (l 1), interrupts_text (l 0 + l 1) (l 1) (l 2),
      interrupts_text (l 0 + l 1 + l 2) (l 1 + l 2) (l 3), interrupts_text (l 0 + l 1 + l 2 + l 3) (l 1 + l 2 + l 3) (l 4)]"

lemma kernel_sized_put [simp]: "kernel_sized (sys_kernel (put_trap k s)) = kernel_sized (sys_kernel s)"
  by (simp add: kernel_sized_def)

lemma boot_runs:
  assumes "power_on s" "tf_mcause (hw_break_frame hw) = 3" "\<forall>j. timer_only (hw_interrupts hw j)"
    and "l = (\<lambda>j. length (hw_interrupts hw j))"
  shows "\<exists>s' m m'. kernel_boot hw s = Some s' \<and>
    sys_output s' = sys_output s @ with_interrupts (boot_messages (tf_mepc (hw_break_frame hw)) m m') (interrupt_texts l) \<and>
    boot_inv (l 1 + l 2 + l 3 + l 4) (l 0 + l 1 + l 2 + l 3 + l 4) (line_input (ak_line (k_app (sys_kernel s)))) s' \<and>
    sh_pages (sys_shell s') = mm_init (hw_bss_end hw)"
proof -
  let ?line = "line_input (ak_line (k_app (sys_kernel s)))"
  have i: "timer_only (hw_interrupts hw j)" for j
    using assms(3) by blast
  obtain s1 where s1: "kernel_bring_up hw s = Some s1" "boot_inv 0 (l 0) ?line s1" "app_ready s1" "kernel_sized (sys_kernel s1)"
    "sh_pages (sys_shell s1) = mm_init (hw_bss_end hw)" "sys_output s1 = sys_output s @
      console_text (''BOOT: kernel entry'' @ [newline] @ ''console: line io ready'' @ [newline] @ trap_test_text (tf_mepc (hw_break_frame hw)) @
        ticks_text 0 (l 0) @ ''SCHED: policy=round-robin runnable=2'' @ [newline])"
    using bring_up_stage [OF assms(1,2) i] assms(4) by blast
  obtain k2 where s2: "take_interrupts (hw_interrupts hw 1) s1 = Some (put_trap k2 s1)" "boot_inv (l 1) (l 0 + l 1) ?line (put_trap k2 s1)"
    "sys_output (put_trap k2 s1) = sys_output s1 @ console_text (interrupts_text (l 0) 0 (l 1))" "app_ready (put_trap k2 s1)"
    using interrupts_taken [OF s1(2) i, of 1] s1(3) assms(4) by auto
  define s2 where "s2 = put_trap k2 s1"
  obtain k3 where k3: "kernel_self_tests (sys_kernel s2) = Some k3" "kernel_output k3 = sys_output s2 @ console_text self_tests_text"
    "kernel_ready k3" "kept_state k3 = kept_state (sys_kernel s2)"
    using self_tests_run [of "sys_kernel s2"] s1(4) by (auto simp: s2_def)
  define s3 where "s3 = s2 \<lparr> sys_kernel := k3 \<rparr>"
  note s3 = kernel_stage [OF s2(2) [folded s2_def] k3(4), folded s3_def]
  obtain k4 where s4: "take_interrupts (hw_interrupts hw 2) s3 = Some (put_trap k4 s3)"
    "boot_inv (l 1 + l 2) (l 0 + l 1 + l 2) ?line (put_trap k4 s3)" "sys_output (put_trap k4 s3) = sys_output s3 @ console_text (interrupts_text (l 0 + l 1) (l 1) (l 2))" "app_ready (put_trap k4 s3)"
    using interrupts_taken [OF s3(1) i, of 2] s3(2) s2(4) assms(4) by (auto simp: s2_def)
  define s4 where "s4 = put_trap k4 s3"
  have sized: "kernel_sized (sys_kernel s4)"
    using k3(3) by (simp add: s4_def s3_def kernel_ready_def)
  obtain m s5 where s5: "kernel_terminal_test s4 = Some s5" "boot_inv (l 1 + l 2) (l 0 + l 1 + l 2) ?line s5" "app_ready s5" "sys_shell s5 = sys_shell s4"
    "sys_output s5 = sys_output s4 @ console_text (report_text ''WM: multi terminal isolation'' True m)"
    "ak_input (k_app (sys_kernel s5)) = ak_input (k_app (sys_kernel s4))"
    using terminal_stage [OF s4(2) [folded s4_def] sized] s4(4) by (auto simp: s4_def)
  obtain k6 where s6: "take_interrupts (hw_interrupts hw 3) s5 = Some (put_trap k6 s5)"
    "boot_inv (l 1 + l 2 + l 3) (l 0 + l 1 + l 2 + l 3) ?line (put_trap k6 s5)" "sys_output (put_trap k6 s5) = sys_output s5 @ console_text (interrupts_text (l 0 + l 1 + l 2) (l 1 + l 2) (l 3))"
    "app_ready (put_trap k6 s5)"
    using interrupts_taken [OF s5(2) i, of 3] s5(3) assms(4) by auto
  define s6 where "s6 = put_trap k6 s5"
  have q: "length (q_events (event_queue (ak_input (k_app (sys_kernel s6))))) = INPUT_EVENT_QUEUE_CAPACITY"
    using sized s5(6) by (simp add: s6_def kernel_sized_def)
  obtain k7 m' where k7: "kernel_run_demo (sys_kernel s6) = Some k7"
    "boot_inv (l 1 + l 2 + l 3) (l 0 + l 1 + l 2 + l 3) ?line (s6 \<lparr> sys_kernel := k7 \<rparr>)"
    "kernel_output k7 = sys_output s6 @ console_text (''APP: demo window callback marker 0x'' @ hex_digits m' @ [newline])"
    using demo_stage [OF s6(2,4) [folded s6_def] q] by blast
  define s7 where "s7 = s6 \<lparr> sys_kernel := k7 \<rparr>"
  obtain k8 where s8: "take_interrupts (hw_interrupts hw 4) s7 = Some (put_trap k8 s7)"
    "boot_inv (l 1 + l 2 + l 3 + l 4) (l 0 + l 1 + l 2 + l 3 + l 4) ?line (put_trap k8 s7)" "sys_output (put_trap k8 s7) = sys_output s7 @ console_text (interrupts_text (l 0 + l 1 + l 2 + l 3) (l 1 + l 2 + l 3) (l 4))"
    using interrupts_taken [OF k7(2) [folded s7_def] i, of 4] assms(4) by auto
  have "kernel_boot hw s = Some (put_trap k8 s7)"
    using s1(1) s2(1) k3(1) s4(1) s5(1) s6(1) k7(1) s8(1)
    by (simp add: kernel_boot_def s2_def [symmetric] s3_def [symmetric] s4_def [symmetric] s6_def [symmetric] s7_def [symmetric])
  moreover have "sys_output s3 = kernel_output k3" "sys_output s7 = kernel_output k7"
    by (simp_all add: s3_def s7_def)
  note o = this s2(3) [folded s2_def] s4(3) [folded s4_def] s6(3) [folded s6_def]
  have "sys_output (put_trap k8 s7) = sys_output s @ with_interrupts (boot_messages (tf_mepc (hw_break_frame hw)) m m') (interrupt_texts l)"
    unfolding s8(3) o k7(3) s5(5) k3(2) s1(6) with_interrupts_def boot_messages_def interrupt_texts_def by (simp add: console_text_def)
  moreover have "sh_pages (sys_shell (put_trap k8 s7)) = mm_init (hw_bss_end hw)"
    using s1(5) s5(4) by (simp add: s7_def s6_def s4_def s3_def s2_def)
  ultimately show ?thesis
    using s8(2) by (intro exI [of _ "put_trap k8 s7"] exI) simp
qed

text \<open>What the line editor reads from is as at power-on.\<close>

lemma line_input_same:
  assumes "line_input l = line_input l'"
  shows "line_wf l = line_wf l'" "current_line l = current_line l'" "skip_lf_after_cr l = skip_lf_after_cr l'"
    "uart_rx (io_uart l) = uart_rx (io_uart l')"
  using assms by (cases "io_uart l"; cases "io_uart l'"; simp add: line_input_def line_wf_def current_line_def line_io_state.splits;
      cases l; cases l'; simp)+

text \<open>
  C6: The kernel boots, from power-on to the shell: whatever is in memory, and whenever timer interrupts
  arrive between the stages, the trap test is handled, the scheduler starts, all self tests pass, the
  demonstration application runs, and the messages come in this order. In between stands exactly what the
  interrupts there print, which is determined by their number: a tick for each of the first four, and
  once the scheduler runs the first twelve switches between its two tasks, that the tasks alternate at the fifth interrupt, and
  the first four runs of each task. Every interrupt is counted and the two tasks have been run in turn. Then
  the shell completes a round for each line that arrives, whatever it says.
\<close>

theorem kernel_main_boots:
  assumes "power_on s" "tf_mcause (hw_break_frame hw) = 3" "\<forall>j. timer_only (hw_interrupts hw j)"
    and "l = (\<lambda>j. length (hw_interrupts hw j))"
  shows "\<exists>s1 terminals demo. kernel_boot hw s = Some s1 \<and>
    sys_output s1 = sys_output s @ with_interrupts (boot_messages (tf_mepc (hw_break_frame hw)) terminals demo) (interrupt_texts l) \<and>
    clock_ticks (k_clock (sys_trap s1)) = of_nat (l 0 + l 1 + l 2 + l 3 + l 4) \<and>
    run_count (ak_tasks (k_app (sys_kernel s1)) ! 0) = of_nat ((l 1 + l 2 + l 3 + l 4 + 1) div 2) \<and>
    run_count (ak_tasks (k_app (sys_kernel s1)) ! 1) = of_nat ((l 1 + l 2 + l 3 + l 4) div 2) \<and>
    sh_pages (sys_shell s1) = mm_init (hw_bss_end hw) \<and>
    (\<forall>n. if n \<le> line_ends (skip_lf_after_cr (ak_line (k_app (sys_kernel s)))) (uart_rx (io_uart (ak_line (k_app (sys_kernel s)))))
      then \<exists>s'. kernel_main hw n s = Some s' \<and> path_state_wf (sh_path (sys_shell s'))
      else kernel_main hw n s = None)"
proof -
  obtain s1 m m' where b: "kernel_boot hw s = Some s1"
    "sys_output s1 = sys_output s @ with_interrupts (boot_messages (tf_mepc (hw_break_frame hw)) m m') (interrupt_texts l)"
    "boot_inv (l 1 + l 2 + l 3 + l 4) (l 0 + l 1 + l 2 + l 3 + l 4) (line_input (ak_line (k_app (sys_kernel s)))) s1"
    "sh_pages (sys_shell s1) = mm_init (hw_bss_end hw)"
    using boot_runs [OF assms] by blast
  let ?l = "ak_line (k_app (sys_kernel s))"
  have "line_input (sh_io (shell_view s1)) = line_input ?l"
    using b(3) by (simp add: boot_inv_def shell_view_def)
  note line = line_input_same [OF this]
  have wf: "line_wf (sh_io (shell_view s1))" "c_string (current_line (sh_io (shell_view s1)))"
    using assms(1) line by (simp_all add: power_on_def)
  have "if n \<le> line_ends (skip_lf_after_cr ?l) (uart_rx (io_uart ?l))
      then \<exists>s'. kernel_main hw n s = Some s' \<and> path_state_wf (sh_path (sys_shell s')) else kernel_main hw n s = None" for n
    using shell_run_rounds [OF wf, of n] unfolding line(3,4) by (auto simp: kernel_main_def b(1) put_shell_def split: if_splits)
  moreover have "run_count (ak_tasks (k_app (sys_kernel s1)) ! 0) = of_nat ((l 1 + l 2 + l 3 + l 4 + 1) div 2)"
    "run_count (ak_tasks (k_app (sys_kernel s1)) ! 1) = of_nat ((l 1 + l 2 + l 3 + l 4) div 2)"
    "clock_ticks (k_clock (sys_trap s1)) = of_nat (l 0 + l 1 + l 2 + l 3 + l 4)"
    using b(3) by (simp_all add: boot_inv_def ticked_def task_log_def alternating_def)
  ultimately show ?thesis
    using b(1,2,4) by blast
qed

text \<open>Six interrupts before the self tests, and one line of input.\<close>

definition demo_system :: system where
  "demo_system =
     \<lparr> sys_kernel = on_app (\<lambda>a. a \<lparr> ak_line := demo_line \<rparr>) demo_boot,
       sys_trap = \<lparr> k_clock = \<lparr> tick_count = 40, next_deadline = 0, tick_log_count = 0, timer_deadline = 0, timer_enabled = False \<rparr>,
         k_sched = demo_sched \<lparr> scheduler_running := False, bootstrapped := False \<rparr>,
         trap_test_armed = False, trap_test_passed = False, stvec = 0 \<rparr>,
       sys_terminals = demo_terminals, sys_shell = demo_shell \<rparr>"

definition demo_hardware :: hardware where
  "demo_hardware =
     \<lparr> hw_bss_end = 0x80300000, hw_trap_vector = 0x80200100, hw_machine = demo_machine, hw_break_frame = demo_trap \<lparr> tf_mcause := 3 \<rparr>,
       hw_interrupts = (\<lambda>j. if j = 1 then replicate 6 (demo_machine, demo_trap) else []) \<rparr>"

theorem kernel_main_boots_witness:
  "(\<exists>s1. kernel_boot demo_hardware demo_system = Some s1 \<and> clock_ticks (k_clock (sys_trap s1)) = 6 \<and>
      run_count (ak_tasks (k_app (sys_kernel s1)) ! 1) = 3) \<and>
   (\<exists>s'. kernel_main demo_hardware 1 demo_system = Some s' \<and> path_state_wf (sh_path (sys_shell s')))"
proof -
  have on: "power_on demo_system"
    using demo_line_wf demo_boot_sized by (simp add: power_on_def demo_system_def on_app_def kernel_sized_def demo_app_def) (simp add: demo_boot_def)
  have t: "tf_mcause (hw_break_frame demo_hardware) = 3" "\<forall>j. timer_only (hw_interrupts demo_hardware j)"
    by (simp_all add: demo_hardware_def timer_cause_def demo_trap_def)
  have n: "length (hw_interrupts demo_hardware 0) = 0" "length (hw_interrupts demo_hardware 1) = 6" "length (hw_interrupts demo_hardware 2) = 0"
    "length (hw_interrupts demo_hardware 3) = 0" "length (hw_interrupts demo_hardware 4) = 0"
    by (simp_all add: demo_hardware_def)
  have e: "line_ends (skip_lf_after_cr (ak_line (k_app (sys_kernel demo_system)))) (uart_rx (io_uart (ak_line (k_app (sys_kernel demo_system))))) = 1"
    by (simp add: demo_system_def on_app_def demo_line_def text_byte_def)
  show ?thesis
    using kernel_main_boots [OF on t refl] unfolding e n by (auto dest!: spec [of _ 1])
qed

end
