(* ===== verification/OtfsImage.thy ===== *)
theory OtfsImage
  imports Prelude
begin

text \<open>
  The OTFS disk image (\<open>fs/otfs.c\<close>, first half): constants, the layout of the image, the packed
  structures of the disk with their byte encoding, and the file operations of the C library that
  the code uses on an image.

  The host's files are a map from paths to bytes. Any call of the library may fail: \<open>io_faults\<close> says
  for the \<open>n\<close>th call whether it does, and how many bytes a failing \<open>fwrite\<close> has written before. Every
  theorem holds for every such schedule. Bytes written are in the file when the call returns; the
  buffer of a \<open>FILE\<close> is not modelled. \<open>uint32_t\<close> fields of the disk are little-endian, as on the
  machines the code runs on.
\<close>

subsection \<open>Constants\<close>

definition FS_BLOCK_SIZE :: nat where "FS_BLOCK_SIZE = 512"
definition FS_TOTAL_BLOCKS :: nat where "FS_TOTAL_BLOCKS = 256"
definition FS_MAX_FILES :: nat where "FS_MAX_FILES = 32"
definition FS_MAX_OPEN_FILES :: nat where "FS_MAX_OPEN_FILES = 16"
definition FS_MAX_NAME_LEN :: nat where "FS_MAX_NAME_LEN = 31"

definition FS_O_READ :: u32 where "FS_O_READ = 1"
definition FS_O_WRITE :: u32 where "FS_O_WRITE = 2"
definition FS_O_CREATE :: u32 where "FS_O_CREATE = 4"
definition FS_O_TRUNC :: u32 where "FS_O_TRUNC = 8"

definition FS_OK :: int where "FS_OK = 0"
definition FS_ERR_ARG :: int where "FS_ERR_ARG = - 1"
definition FS_ERR_IO :: int where "FS_ERR_IO = - 2"
definition FS_ERR_STATE :: int where "FS_ERR_STATE = - 3"
definition FS_ERR_NOT_FOUND :: int where "FS_ERR_NOT_FOUND = - 4"
definition FS_ERR_NO_SPACE :: int where "FS_ERR_NO_SPACE = - 5"

lemmas fs_codes = FS_OK_def FS_ERR_ARG_def FS_ERR_IO_def FS_ERR_STATE_def FS_ERR_NOT_FOUND_def FS_ERR_NO_SPACE_def

lemma fs_codes_differ [simp]:
  "FS_ERR_ARG \<noteq> FS_OK" "FS_ERR_IO \<noteq> FS_OK" "FS_ERR_STATE \<noteq> FS_OK" "FS_ERR_NOT_FOUND \<noteq> FS_OK" "FS_ERR_NO_SPACE \<noteq> FS_OK"
  "FS_OK \<noteq> FS_ERR_ARG" "FS_OK \<noteq> FS_ERR_IO" "FS_OK \<noteq> FS_ERR_STATE" "FS_OK \<noteq> FS_ERR_NOT_FOUND" "FS_OK \<noteq> FS_ERR_NO_SPACE"
  "FS_ERR_IO \<noteq> FS_ERR_NO_SPACE" "FS_ERR_NO_SPACE \<noteq> FS_ERR_IO"
  by (simp_all add: fs_codes)

definition FS_DIR_ENTRY_SIZE :: nat where "FS_DIR_ENTRY_SIZE = 64"
definition FS_SUPERBLOCK_SIZE :: nat where "FS_SUPERBLOCK_SIZE = 64"
definition FS_VERSION :: u32 where "FS_VERSION = 1"
definition FS_DIR_START_BLOCK :: nat where "FS_DIR_START_BLOCK = 1"
definition FS_DIR_BLOCK_COUNT :: nat where "FS_DIR_BLOCK_COUNT = 4"
definition FS_FAT_START_BLOCK :: nat where "FS_FAT_START_BLOCK = FS_DIR_START_BLOCK + FS_DIR_BLOCK_COUNT"
definition FS_FAT_BLOCK_COUNT :: nat where "FS_FAT_BLOCK_COUNT = 2"
definition FS_DATA_START_BLOCK :: nat where "FS_DATA_START_BLOCK = FS_FAT_START_BLOCK + FS_FAT_BLOCK_COUNT"
definition FS_DATA_BLOCK_COUNT :: nat where "FS_DATA_BLOCK_COUNT = FS_TOTAL_BLOCKS - FS_DATA_START_BLOCK"

definition FAT_FREE :: u32 where "FAT_FREE = 0xffffffff"
definition FAT_END :: u32 where "FAT_END = 0xfffffffe"

lemmas fs_layout = FS_BLOCK_SIZE_def FS_TOTAL_BLOCKS_def FS_MAX_FILES_def FS_DIR_ENTRY_SIZE_def FS_SUPERBLOCK_SIZE_def
  FS_DIR_START_BLOCK_def FS_DIR_BLOCK_COUNT_def FS_FAT_START_BLOCK_def FS_FAT_BLOCK_COUNT_def
  FS_DATA_START_BLOCK_def FS_DATA_BLOCK_COUNT_def

definition block_offset :: "nat \<Rightarrow> nat" where
  "block_offset block_index = block_index * FS_BLOCK_SIZE"

subsection \<open>The host's files\<close>

record host =
  host_files :: "string \<Rightarrow> u8 list option"
  io_calls :: nat
  io_faults :: "nat \<Rightarrow> nat option"

definition io_step :: "host \<Rightarrow> nat option \<times> host" where
  "io_step h = (io_faults h (io_calls h), h \<lparr> io_calls := io_calls h + 1 \<rparr>)"

definition host_bytes :: "host \<Rightarrow> string \<Rightarrow> u8 list" where
  "host_bytes h path = (case host_files h path of None \<Rightarrow> [] | Some bytes \<Rightarrow> bytes)"

definition slice_at :: "nat \<Rightarrow> nat \<Rightarrow> 'a list \<Rightarrow> 'a list" where
  "slice_at off len xs = take len (drop off xs)"

text \<open>\<open>fseek\<close> and \<open>fwrite\<close>: a write beyond the end fills the gap with zeros.\<close>

definition write_at :: "nat \<Rightarrow> u8 list \<Rightarrow> u8 list \<Rightarrow> u8 list" where
  "write_at off buf bytes =
     (if buf = [] then bytes
      else take off (bytes @ replicate (off - length bytes) 0) @ buf @ drop (off + length buf) bytes)"

definition seek_and_read :: "string \<Rightarrow> nat \<Rightarrow> nat \<Rightarrow> host \<Rightarrow> int \<times> u8 list \<times> host" where
  "seek_and_read path off len h =
     (let (fault, h) = io_step h in
      if fault \<noteq> None \<or> length (host_bytes h path) < off + len then (FS_ERR_IO, [], h)
      else (FS_OK, slice_at off len (host_bytes h path), h))"

definition seek_and_write :: "string \<Rightarrow> nat \<Rightarrow> u8 list \<Rightarrow> host \<Rightarrow> int \<times> host" where
  "seek_and_write path off buf h =
     (let (fault, h) = io_step h in
      case fault of
        None \<Rightarrow> (FS_OK, h \<lparr> host_files := (host_files h)(path \<mapsto> write_at off buf (host_bytes h path)) \<rparr>)
      | Some n \<Rightarrow> (FS_ERR_IO, h \<lparr> host_files := (host_files h)(path \<mapsto> write_at off (take n buf) (host_bytes h path)) \<rparr>))"

definition file_close :: "host \<Rightarrow> int \<times> host" where
  "file_close h = (let (fault, h) = io_step h in (if fault \<noteq> None then FS_ERR_IO else FS_OK, h))"

subsection \<open>The structures on the disk\<close>

definition u32_bytes :: "u32 \<Rightarrow> u8 list" where
  "u32_bytes w = [ucast w, ucast (drop_bit 8 w), ucast (drop_bit 16 w), ucast (drop_bit 24 w)]"

definition bytes_u32 :: "u8 list \<Rightarrow> u32" where
  "bytes_u32 b = or (or (ucast (b ! 0)) (push_bit 8 (ucast (b ! 1)))) (or (push_bit 16 (ucast (b ! 2))) (push_bit 24 (ucast (b ! 3))))"

record fs_superblock_disk =
  sb_magic :: "u8 list"
  sb_version :: u32
  sb_block_size :: u32
  sb_total_blocks :: u32
  sb_dir_start_block :: u32
  sb_dir_block_count :: u32
  sb_fat_start_block :: u32
  sb_fat_block_count :: u32
  sb_data_start_block :: u32
  sb_data_block_count :: u32
  sb_max_files :: u32
  sb_reserved :: "u8 list"

record fs_dir_entry_disk =
  de_used :: u8
  de_reserved0 :: "u8 list"
  de_name :: string
  de_first_block :: u32
  de_size_bytes :: u32
  de_reserved1 :: "u8 list"

definition k_magic :: "u8 list" where
  "k_magic = [0x4f, 0x54, 0x46, 0x53, 0x76, 0x31, 0, 0]"

definition superblock_bytes :: "fs_superblock_disk \<Rightarrow> u8 list" where
  "superblock_bytes sb =
     sb_magic sb @ u32_bytes (sb_version sb) @ u32_bytes (sb_block_size sb) @ u32_bytes (sb_total_blocks sb) @
     u32_bytes (sb_dir_start_block sb) @ u32_bytes (sb_dir_block_count sb) @ u32_bytes (sb_fat_start_block sb) @
     u32_bytes (sb_fat_block_count sb) @ u32_bytes (sb_data_start_block sb) @ u32_bytes (sb_data_block_count sb) @
     u32_bytes (sb_max_files sb) @ sb_reserved sb"

definition bytes_superblock :: "u8 list \<Rightarrow> fs_superblock_disk" where
  "bytes_superblock b =
     (let word_at = (\<lambda>off. bytes_u32 (slice_at off 4 b)) in
      \<lparr> sb_magic = slice_at 0 8 b, sb_version = word_at 8, sb_block_size = word_at 12, sb_total_blocks = word_at 16,
        sb_dir_start_block = word_at 20, sb_dir_block_count = word_at 24, sb_fat_start_block = word_at 28,
        sb_fat_block_count = word_at 32, sb_data_start_block = word_at 36, sb_data_block_count = word_at 40,
        sb_max_files = word_at 44, sb_reserved = slice_at 48 16 b \<rparr>)"

definition entry_bytes :: "fs_dir_entry_disk \<Rightarrow> u8 list" where
  "entry_bytes e =
     de_used e # de_reserved0 e @ map char_u8 (de_name e) @ u32_bytes (de_first_block e) @ u32_bytes (de_size_bytes e) @
     de_reserved1 e"

definition bytes_entry :: "u8 list \<Rightarrow> fs_dir_entry_disk" where
  "bytes_entry b =
     \<lparr> de_used = b ! 0, de_reserved0 = slice_at 1 3 b, de_name = map u8_char (slice_at 4 32 b),
       de_first_block = bytes_u32 (slice_at 36 4 b), de_size_bytes = bytes_u32 (slice_at 40 4 b),
       de_reserved1 = slice_at 44 20 b \<rparr>"

definition dir_bytes :: "fs_dir_entry_disk list \<Rightarrow> u8 list" where
  "dir_bytes es = concat (map entry_bytes es)"

definition bytes_dir :: "u8 list \<Rightarrow> fs_dir_entry_disk list" where
  "bytes_dir b = map (\<lambda>i. bytes_entry (slice_at (i * FS_DIR_ENTRY_SIZE) FS_DIR_ENTRY_SIZE b)) [0..<FS_MAX_FILES]"

text \<open>An entry of \<open>memset(entries, 0, ..)\<close>.\<close>

definition zero_entry :: fs_dir_entry_disk where
  "zero_entry = \<lparr> de_used = 0, de_reserved0 = [0, 0, 0], de_name = replicate 32 (CHR 0x00), de_first_block = 0,
     de_size_bytes = 0, de_reserved1 = replicate 20 0 \<rparr>"

subsection \<open>Formatting\<close>

definition format_superblock :: fs_superblock_disk where
  "format_superblock =
     \<lparr> sb_magic = k_magic, sb_version = FS_VERSION, sb_block_size = word_of_nat FS_BLOCK_SIZE,
       sb_total_blocks = word_of_nat FS_TOTAL_BLOCKS, sb_dir_start_block = word_of_nat FS_DIR_START_BLOCK,
       sb_dir_block_count = word_of_nat FS_DIR_BLOCK_COUNT, sb_fat_start_block = word_of_nat FS_FAT_START_BLOCK,
       sb_fat_block_count = word_of_nat FS_FAT_BLOCK_COUNT, sb_data_start_block = word_of_nat FS_DATA_START_BLOCK,
       sb_data_block_count = word_of_nat FS_DATA_BLOCK_COUNT, sb_max_files = word_of_nat FS_MAX_FILES,
       sb_reserved = replicate 16 0 \<rparr>"

text \<open>The loop that writes the blocks \<open>n\<close> to \<open>FS_TOTAL_BLOCKS - 1\<close>, given how many are left.\<close>

fun format_blocks :: "nat \<Rightarrow> string \<Rightarrow> host \<Rightarrow> int \<times> host" where
  "format_blocks 0 path h = (FS_OK, h)"
| "format_blocks (Suc n) path h =
     (let (rc, h) = seek_and_write path (block_offset (FS_TOTAL_BLOCKS - Suc n)) (replicate FS_BLOCK_SIZE 0) h in
      if rc \<noteq> FS_OK then (FS_ERR_IO, h) else format_blocks n path h)"

definition fs_format_image :: "string option \<Rightarrow> host \<Rightarrow> int \<times> host" where
  "fs_format_image image_path h =
     (case image_path of
        None \<Rightarrow> (FS_ERR_ARG, h)
      | Some path \<Rightarrow>
          let (fault, h) = io_step h in
          if fault \<noteq> None then (FS_ERR_IO, h)
          else
            let h = h \<lparr> host_files := (host_files h)(path \<mapsto> []) \<rparr>;
                (rc, h) = format_blocks FS_TOTAL_BLOCKS path h in
            if rc \<noteq> FS_OK then (FS_ERR_IO, snd (file_close h))
            else let (rc, h) = seek_and_write path 0 (superblock_bytes format_superblock) h in
            if rc \<noteq> FS_OK then (FS_ERR_IO, snd (file_close h))
            else let (rc, h) = seek_and_write path (block_offset FS_DIR_START_BLOCK)
                   (dir_bytes (replicate FS_MAX_FILES (zero_entry \<lparr> de_first_block := FAT_END \<rparr>))) h in
            if rc \<noteq> FS_OK then (FS_ERR_IO, snd (file_close h))
            else let (rc, h) = seek_and_write path (block_offset FS_FAT_START_BLOCK)
                   (replicate (FS_FAT_BLOCK_COUNT * FS_BLOCK_SIZE) 0xff) h in
            if rc \<noteq> FS_OK then (FS_ERR_IO, snd (file_close h))
            else file_close h)"

subsection \<open>Round trips of the encodings\<close>

lemma u32_bytes_length [simp]: "length (u32_bytes w) = 4"
  by (simp add: u32_bytes_def)

lemma u32_bytes_inverse [simp]: "bytes_u32 (u32_bytes w) = w"
proof (rule bit_word_eqI)
  fix n :: nat
  assume n: "n < LENGTH(32)"
  consider "n < 8" | "8 \<le> n" "n < 16" | "16 \<le> n" "n < 24" | "24 \<le> n" "n < 32"
    using n by fastforce
  then show "bit (bytes_u32 (u32_bytes w)) n = bit w n"
    by cases (auto simp: bytes_u32_def u32_bytes_def bit_simps)
qed

lemma slice_at_append:
  "length xs = off \<Longrightarrow> length ys = len \<Longrightarrow> slice_at off len (xs @ ys @ zs) = ys"
  by (simp add: slice_at_def)

lemma slice_at_concat:
  assumes "\<forall>x \<in> set xs. length (f x) = n" "i < length xs"
  shows "slice_at (i * n) n (concat (map f xs) @ ys) = f (xs ! i)"
  using assms
proof (induction xs arbitrary: i)
  case (Cons x xs)
  then show ?case
    by (cases i) (auto simp: slice_at_def)
qed simp

lemma concat_length: "\<forall>x \<in> set xs. length (f x) = n \<Longrightarrow> length (concat (map f xs)) = length xs * n"
  by (induction xs) auto

definition entry_ok :: "fs_dir_entry_disk \<Rightarrow> bool" where
  "entry_ok e \<longleftrightarrow> length (de_reserved0 e) = 3 \<and> length (de_name e) = 32 \<and> length (de_reserved1 e) = 20"

lemma entry_bytes_length: "entry_ok e \<Longrightarrow> length (entry_bytes e) = FS_DIR_ENTRY_SIZE"
  by (simp add: entry_ok_def entry_bytes_def FS_DIR_ENTRY_SIZE_def)

lemma entry_bytes_inverse:
  assumes "entry_ok e"
  shows "bytes_entry (entry_bytes e) = e"
proof -
  have l: "length (de_reserved0 e) = 3" "length (de_name e) = 32" "length (de_reserved1 e) = 20"
    using assms by (auto simp: entry_ok_def)
  then show ?thesis
    by (simp add: bytes_entry_def entry_bytes_def slice_at_def drop_Cons' map_idI)
qed

lemma dir_bytes_inverse:
  assumes "length es = FS_MAX_FILES" "\<forall>e \<in> set es. entry_ok e"
  shows "bytes_dir (dir_bytes es) = es"
proof (rule nth_equalityI)
  show "length (bytes_dir (dir_bytes es)) = length es"
    using assms(1) by (simp add: bytes_dir_def)
  fix i
  assume "i < length (bytes_dir (dir_bytes es))"
  then have i: "i < length es"
    using assms(1) by (simp add: bytes_dir_def)
  then have "slice_at (i * FS_DIR_ENTRY_SIZE) FS_DIR_ENTRY_SIZE (dir_bytes es) = entry_bytes (es ! i)"
    using slice_at_concat [of es entry_bytes FS_DIR_ENTRY_SIZE i "[]"] assms(2) entry_bytes_length by (simp add: dir_bytes_def)
  then show "bytes_dir (dir_bytes es) ! i = es ! i"
    using i assms entry_bytes_inverse by (simp add: bytes_dir_def)
qed

lemma superblock_inverse:
  "length (sb_magic sb) = 8 \<Longrightarrow> length (sb_reserved sb) = 16 \<Longrightarrow> bytes_superblock (superblock_bytes sb) = sb"
  by (simp add: bytes_superblock_def superblock_bytes_def slice_at_def Let_def)

end
