(* ===== verification/Otfs.thy ===== *)
theory Otfs
  imports OtfsImage
begin

text \<open>
  The OTFS file system (\<open>fs/otfs.c\<close>, second half): a mounted image with its directory and its file
  allocation table in memory, and the operations on files. The state of an operation is the handle
  together with the host, since data blocks live only in the image. The handle pointer is never null
  and results returned through pointers are part of the result; a result parameter that is written
  only on success is passed in, as the caller's variable has a value before.

  The directory region is kept as its 32 entries instead of its 2048 bytes (\<open>dir_bytes\<close> is the cast).
\<close>

record fs_open_file =
  f_in_use :: u8
  f_dir_index :: u8
  f_offset :: u32
  f_flags :: u32

record fs_handle =
  h_image_file :: "string option"
  h_mounted :: u32
  h_data_blocks :: u32
  h_block_size :: u32
  h_data_start_block :: u32
  h_dir :: "fs_dir_entry_disk list"
  h_fat :: "u32 list"
  h_open :: "fs_open_file list"

record otfs = fs_handle +
  st_host :: host

definition zero_file :: fs_open_file where
  "zero_file = \<lparr> f_in_use = 0, f_dir_index = 0, f_offset = 0, f_flags = 0 \<rparr>"

definition fs_init :: "otfs \<Rightarrow> otfs" where
  "fs_init s = s \<lparr> h_image_file := None, h_mounted := 0, h_data_blocks := 0, h_block_size := 0, h_data_start_block := 0,
     h_dir := replicate FS_MAX_FILES zero_entry, h_fat := replicate FS_TOTAL_BLOCKS 0,
     h_open := replicate FS_MAX_OPEN_FILES zero_file \<rparr>"

definition get_file :: "otfs \<Rightarrow> string" where
  "get_file s = the (h_image_file s)"

definition fs_seek_and_write :: "nat \<Rightarrow> u8 list \<Rightarrow> otfs \<Rightarrow> int \<times> otfs" where
  "fs_seek_and_write off buf s =
     (let (rc, h) = seek_and_write (get_file s) off buf (st_host s) in (rc, s \<lparr> st_host := h \<rparr>))"

text \<open>The blocks of the table as they are written: 249 entries, the rest 0xff.\<close>

definition fat_bytes :: "u32 list \<Rightarrow> u8 list" where
  "fat_bytes fat =
     concat (map u32_bytes (take FS_DATA_BLOCK_COUNT fat)) @
     replicate (FS_FAT_BLOCK_COUNT * FS_BLOCK_SIZE - FS_DATA_BLOCK_COUNT * 4) 0xff"

definition sync_metadata :: "otfs \<Rightarrow> int \<times> otfs" where
  "sync_metadata s =
     (let (rc, s) = fs_seek_and_write (block_offset FS_DIR_START_BLOCK) (dir_bytes (h_dir s)) s in
      if rc \<noteq> FS_OK then (FS_ERR_IO, s)
      else let (rc, s) = fs_seek_and_write (block_offset FS_FAT_START_BLOCK) (fat_bytes (h_fat s)) s in
      if rc \<noteq> FS_OK then (FS_ERR_IO, s) else (FS_OK, s))"

definition valid_block_index :: "u32 \<Rightarrow> bool" where
  "valid_block_index index \<longleftrightarrow> unat index < FS_DATA_BLOCK_COUNT"

text \<open>\<open>strlen\<close> and \<open>strncmp(..) == 0\<close> on arrays that may lack a terminating NUL.\<close>

definition c_text :: "string \<Rightarrow> string" where
  "c_text a = takeWhile (\<lambda>c. c \<noteq> CHR 0x00) a"

definition strncmp_eq :: "string \<Rightarrow> string \<Rightarrow> nat \<Rightarrow> bool" where
  "strncmp_eq a b n \<longleftrightarrow> take n (c_text a) = take n (c_text b)"

definition validate_name :: "string option \<Rightarrow> int" where
  "validate_name name =
     (case name of
        None \<Rightarrow> FS_ERR_ARG
      | Some name \<Rightarrow>
          if name = [] \<or> length name > FS_MAX_NAME_LEN then FS_ERR_ARG
          else if list_ex (\<lambda>c. c = CHR ''/'' \<or> c = CHR 0x5c) name then FS_ERR_ARG else FS_OK)"

subsection \<open>Chains and validation\<close>

text \<open>The walk of \<open>validate_entry_chain\<close>: the number of blocks, or nothing for a bad chain.\<close>

function walk_chain :: "u32 list \<Rightarrow> u32 \<Rightarrow> nat \<Rightarrow> nat option" where
  "walk_chain fat cur blocks =
     (if cur = FAT_END then Some blocks
      else if \<not> valid_block_index cur then None
      else if blocks \<ge> FS_DATA_BLOCK_COUNT then None
      else walk_chain fat (fat ! unat cur) (blocks + 1))"
  by pat_completeness auto
termination
  by (relation "measure (\<lambda>(fat, cur, blocks). FS_DATA_BLOCK_COUNT - blocks)") auto

declare walk_chain.simps [simp del]

definition validate_entry_chain :: "u32 list \<Rightarrow> fs_dir_entry_disk \<Rightarrow> int" where
  "validate_entry_chain fat entry =
     (let required_blocks = (de_size_bytes entry + (word_of_nat FS_BLOCK_SIZE - 1)) div word_of_nat FS_BLOCK_SIZE in
      if required_blocks = 0 then (if de_first_block entry = FAT_END then FS_OK else FS_ERR_STATE)
      else if de_first_block entry = FAT_END \<or> \<not> valid_block_index (de_first_block entry) then FS_ERR_STATE
      else case walk_chain fat (de_first_block entry) 0 of
        None \<Rightarrow> FS_ERR_STATE
      | Some blocks \<Rightarrow> if blocks < unat required_blocks then FS_ERR_STATE else FS_OK)"

definition fat_entries_valid :: "u32 list \<Rightarrow> bool" where
  "fat_entries_valid fat =
     list_all (\<lambda>next. next = FAT_FREE \<or> next = FAT_END \<or> valid_block_index next) (take FS_DATA_BLOCK_COUNT fat)"

definition entry_valid :: "u32 list \<Rightarrow> fs_dir_entry_disk \<Rightarrow> bool" where
  "entry_valid fat e \<longleftrightarrow>
     de_used e = 0 \<or> CHR 0x00 \<in> set (take (FS_MAX_NAME_LEN + 1) (de_name e)) \<and>
       validate_name (Some (c_text (de_name e))) = FS_OK \<and> validate_entry_chain fat e = FS_OK"

definition names_differ :: "fs_dir_entry_disk list \<Rightarrow> bool" where
  "names_differ es =
     list_all (\<lambda>i. de_used (es ! i) = 0 \<or>
       list_all (\<lambda>j. de_used (es ! j) = 0 \<or> \<not> strncmp_eq (de_name (es ! i)) (de_name (es ! j)) (FS_MAX_NAME_LEN + 1))
         [i + 1..<FS_MAX_FILES]) [0..<FS_MAX_FILES]"

definition validate_metadata :: "fs_dir_entry_disk list \<Rightarrow> u32 list \<Rightarrow> int" where
  "validate_metadata entries fat =
     (if \<not> fat_entries_valid fat then FS_ERR_STATE
      else if \<not> list_all (entry_valid fat) entries then FS_ERR_STATE
      else if \<not> names_differ entries then FS_ERR_STATE
      else FS_OK)"

definition allocate_data_block :: "u32 \<Rightarrow> otfs \<Rightarrow> int \<times> u32 \<times> otfs" where
  "allocate_data_block out_block_index s =
     (case find_index (\<lambda>i. h_fat s ! i = FAT_FREE) FS_DATA_BLOCK_COUNT of
        None \<Rightarrow> (FS_ERR_NO_SPACE, out_block_index, s)
      | Some index \<Rightarrow>
          let s = s \<lparr> h_fat := (h_fat s)[index := FAT_END] \<rparr>;
              (rc, s) = fs_seek_and_write (block_offset (FS_DATA_START_BLOCK + index)) (replicate FS_BLOCK_SIZE 0) s in
          if rc \<noteq> FS_OK then (FS_ERR_IO, out_block_index, s) else (FS_OK, word_of_nat index, s))"

function release_loop :: "u32 list \<Rightarrow> u32 \<Rightarrow> nat \<Rightarrow> int \<times> u32 list" where
  "release_loop fat cur seen =
     (if cur = FAT_END then (FS_OK, fat)
      else if \<not> valid_block_index cur then (FS_ERR_STATE, fat)
      else if seen > FS_DATA_BLOCK_COUNT then (FS_ERR_STATE, fat)
      else release_loop (fat[unat cur := FAT_FREE]) (fat ! unat cur) (seen + 1))"
  by pat_completeness auto
termination
  by (relation "measure (\<lambda>(fat, cur, seen). FS_DATA_BLOCK_COUNT + 1 - seen)") auto

declare release_loop.simps [simp del]

definition release_chain :: "u32 \<Rightarrow> otfs \<Rightarrow> int \<times> otfs" where
  "release_chain first_block s =
     (let (rc, fat) = release_loop (h_fat s) first_block 0 in (rc, s \<lparr> h_fat := fat \<rparr>))"

text \<open>
  The loop of \<open>resolve_data_block\<close> with the number of steps left. Its result names the block, which the
  code stores only on success.
\<close>

fun resolve_steps :: "nat \<Rightarrow> bool \<Rightarrow> u32 \<Rightarrow> otfs \<Rightarrow> int \<times> u32 \<times> otfs" where
  "resolve_steps 0 allocate cur s = (FS_OK, cur, s)"
| "resolve_steps (Suc n) allocate cur s =
     (if h_fat s ! unat cur = FAT_END then
        if \<not> allocate then (FS_ERR_NOT_FOUND, cur, s)
        else let (rc, next, s) = allocate_data_block (h_fat s ! unat cur) s in
          if rc \<noteq> FS_OK then (FS_ERR_NO_SPACE, cur, s)
          else let s = s \<lparr> h_fat := (h_fat s)[unat cur := next] \<rparr> in
            if \<not> valid_block_index next then (FS_ERR_STATE, cur, s)
            else resolve_steps n allocate next s
      else if \<not> valid_block_index (h_fat s ! unat cur) then (FS_ERR_STATE, cur, s)
      else resolve_steps n allocate (h_fat s ! unat cur) s)"

definition set_first_block :: "nat \<Rightarrow> u32 \<Rightarrow> otfs \<Rightarrow> otfs" where
  "set_first_block entry b s = s \<lparr> h_dir := (h_dir s)[entry := (h_dir s ! entry) \<lparr> de_first_block := b \<rparr>] \<rparr>"

definition set_size :: "nat \<Rightarrow> u32 \<Rightarrow> otfs \<Rightarrow> otfs" where
  "set_size entry n s = s \<lparr> h_dir := (h_dir s)[entry := (h_dir s ! entry) \<lparr> de_size_bytes := n \<rparr>] \<rparr>"

definition resolve_data_block :: "nat \<Rightarrow> nat \<Rightarrow> bool \<Rightarrow> otfs \<Rightarrow> int \<times> u32 \<times> otfs" where
  "resolve_data_block entry logical_block_index allocate s =
     (let (rc, s) =
        (if de_first_block (h_dir s ! entry) = FAT_END then
           if \<not> allocate then (FS_ERR_NOT_FOUND, s)
           else let (rc, first, s) = allocate_data_block FAT_END s in
             if rc \<noteq> FS_OK then (FS_ERR_NO_SPACE, s) else (FS_OK, set_first_block entry first s)
         else (FS_OK, s)) in
      if rc \<noteq> FS_OK then (rc, 0, s)
      else let cur = de_first_block (h_dir s ! entry) in
        if \<not> valid_block_index cur then (FS_ERR_STATE, 0, s)
        else resolve_steps logical_block_index allocate cur s)"

definition read_data_block :: "u32 \<Rightarrow> otfs \<Rightarrow> int \<times> u8 list \<times> otfs" where
  "read_data_block data_block_index s =
     (if \<not> valid_block_index data_block_index then (FS_ERR_ARG, [], s)
      else let (rc, block, h) = seek_and_read (get_file s)
             (block_offset (FS_DATA_START_BLOCK + unat data_block_index)) FS_BLOCK_SIZE (st_host s) in
        (rc, block, s \<lparr> st_host := h \<rparr>))"

definition write_data_block :: "u32 \<Rightarrow> u8 list \<Rightarrow> otfs \<Rightarrow> int \<times> otfs" where
  "write_data_block data_block_index block s =
     (if \<not> valid_block_index data_block_index then (FS_ERR_ARG, s)
      else fs_seek_and_write (block_offset (FS_DATA_START_BLOCK + unat data_block_index)) block s)"

subsection \<open>Directory and descriptors\<close>

definition find_dir_entry :: "otfs \<Rightarrow> string \<Rightarrow> nat option" where
  "find_dir_entry s name =
     find_index (\<lambda>i. de_used (h_dir s ! i) \<noteq> 0 \<and> strncmp_eq (de_name (h_dir s ! i)) name (FS_MAX_NAME_LEN + 1)) FS_MAX_FILES"

text \<open>\<open>strncpy\<close> of at most 31 characters into the zeroed name, and the NUL after them.\<close>

definition new_entry :: "string \<Rightarrow> fs_dir_entry_disk" where
  "new_entry name =
     zero_entry \<lparr> de_used := 1, de_first_block := FAT_END,
       de_name := take FS_MAX_NAME_LEN (name @ replicate FS_MAX_NAME_LEN (CHR 0x00)) @ [CHR 0x00] \<rparr>"

definition alloc_dir_entry :: "otfs \<Rightarrow> string \<Rightarrow> nat option \<times> otfs" where
  "alloc_dir_entry s name =
     (case find_index (\<lambda>i. de_used (h_dir s ! i) = 0) FS_MAX_FILES of
        None \<Rightarrow> (None, s)
      | Some i \<Rightarrow> (Some i, s \<lparr> h_dir := (h_dir s)[i := new_entry name] \<rparr>))"

definition valid_fd :: "int \<Rightarrow> bool" where
  "valid_fd fd \<longleftrightarrow> 0 \<le> fd \<and> fd < int FS_MAX_OPEN_FILES"

definition alloc_fd :: "otfs \<Rightarrow> nat option" where
  "alloc_fd s = find_index (\<lambda>i. f_in_use (h_open s ! i) = 0) FS_MAX_OPEN_FILES"

definition validate_common :: "otfs \<Rightarrow> int" where
  "validate_common s = (if h_mounted s = 0 then FS_ERR_STATE else FS_OK)"

subsection \<open>Mounting\<close>

definition superblock_ok :: "fs_superblock_disk \<Rightarrow> bool" where
  "superblock_ok sb \<longleftrightarrow>
     sb_magic sb = k_magic \<and> sb_version sb = FS_VERSION \<and> sb_block_size sb = word_of_nat FS_BLOCK_SIZE \<and>
     sb_total_blocks sb = word_of_nat FS_TOTAL_BLOCKS \<and> sb_dir_start_block sb = word_of_nat FS_DIR_START_BLOCK \<and>
     sb_dir_block_count sb = word_of_nat FS_DIR_BLOCK_COUNT \<and> sb_fat_start_block sb = word_of_nat FS_FAT_START_BLOCK \<and>
     sb_fat_block_count sb = word_of_nat FS_FAT_BLOCK_COUNT \<and> sb_data_start_block sb = word_of_nat FS_DATA_START_BLOCK \<and>
     sb_data_block_count sb = word_of_nat FS_DATA_BLOCK_COUNT \<and> sb_max_files sb = word_of_nat FS_MAX_FILES"

definition close_image :: "otfs \<Rightarrow> otfs" where
  "close_image s = s \<lparr> st_host := snd (file_close (st_host s)) \<rparr>"

definition bytes_fat :: "u8 list \<Rightarrow> u32 list" where
  "bytes_fat b = map (\<lambda>i. bytes_u32 (slice_at (i * 4) 4 b)) [0..<FS_DATA_BLOCK_COUNT]"

definition fs_mount :: "string option \<Rightarrow> otfs \<Rightarrow> int \<times> otfs" where
  "fs_mount image_path s =
     (case image_path of
        None \<Rightarrow> (FS_ERR_ARG, s)
      | Some path \<Rightarrow>
          let s = fs_init s;
              (fault, h) = io_step (st_host s);
              s = s \<lparr> st_host := h \<rparr> in
          if fault \<noteq> None \<or> host_files h path = None then (FS_ERR_IO, s)
          else
            let (rc, sb, h) = seek_and_read path 0 FS_SUPERBLOCK_SIZE (st_host s);
                s = s \<lparr> st_host := h \<rparr> in
            if rc \<noteq> FS_OK then (FS_ERR_IO, close_image s)
            else if \<not> superblock_ok (bytes_superblock sb) then (FS_ERR_STATE, close_image s)
            else
            let (rc, dir, h) = seek_and_read path (block_offset FS_DIR_START_BLOCK) (FS_MAX_FILES * FS_DIR_ENTRY_SIZE) (st_host s);
                s = s \<lparr> st_host := h \<rparr> in
            if rc \<noteq> FS_OK then (FS_ERR_IO, close_image s)
            else
            let s = s \<lparr> h_dir := bytes_dir dir \<rparr>;
                (rc, fat, h) = seek_and_read path (block_offset FS_FAT_START_BLOCK) (FS_FAT_BLOCK_COUNT * FS_BLOCK_SIZE) (st_host s);
                s = s \<lparr> st_host := h \<rparr> in
            if rc \<noteq> FS_OK then (FS_ERR_IO, close_image s)
            else
            let s = s \<lparr> h_fat := bytes_fat fat @ drop FS_DATA_BLOCK_COUNT (h_fat s) \<rparr> in
            if validate_metadata (h_dir s) (h_fat s) \<noteq> FS_OK then (FS_ERR_STATE, close_image s)
            else
              (FS_OK, s \<lparr> h_image_file := Some path, h_mounted := 1, h_block_size := word_of_nat FS_BLOCK_SIZE,
                 h_data_start_block := word_of_nat FS_DATA_START_BLOCK, h_data_blocks := word_of_nat FS_DATA_BLOCK_COUNT \<rparr>))"

definition fs_unmount :: "otfs \<Rightarrow> int \<times> otfs" where
  "fs_unmount s =
     (if validate_common s \<noteq> FS_OK then (FS_ERR_STATE, s)
      else let (rc, s) = sync_metadata s in
        if rc \<noteq> FS_OK then (FS_ERR_IO, s)
        else let (rc, h) = file_close (st_host s); s = s \<lparr> st_host := h \<rparr> in
          if rc \<noteq> 0 then (FS_ERR_IO, s) else (FS_OK, fs_init s))"

subsection \<open>Files\<close>

definition open_entry :: "string \<Rightarrow> u32 \<Rightarrow> otfs \<Rightarrow> (int + nat) \<times> otfs" where
  "open_entry name flags s =
     (case find_dir_entry s name of
        Some i \<Rightarrow> (Inr i, s)
      | None \<Rightarrow>
          if and flags FS_O_CREATE = 0 then (Inl FS_ERR_NOT_FOUND, s)
          else case alloc_dir_entry s name of
            (None, s) \<Rightarrow> (Inl FS_ERR_NO_SPACE, s)
          | (Some i, s) \<Rightarrow> let (rc, s) = sync_metadata s in if rc \<noteq> FS_OK then (Inl FS_ERR_IO, s) else (Inr i, s))"

definition truncate_entry :: "nat \<Rightarrow> otfs \<Rightarrow> int \<times> otfs" where
  "truncate_entry i s =
     (let (rc, s) = (if de_first_block (h_dir s ! i) \<noteq> FAT_END then release_chain (de_first_block (h_dir s ! i)) s else (FS_OK, s)) in
      if rc \<noteq> FS_OK then (FS_ERR_STATE, s)
      else let (rc, s) = sync_metadata (set_size i 0 (set_first_block i FAT_END s)) in
        if rc \<noteq> FS_OK then (FS_ERR_IO, s) else (FS_OK, s))"

definition fs_open :: "string option \<Rightarrow> u32 \<Rightarrow> otfs \<Rightarrow> int \<times> otfs" where
  "fs_open name flags s =
     (if validate_common s \<noteq> FS_OK then (validate_common s, s)
      else if validate_name name \<noteq> FS_OK then (validate_name name, s)
      else if and flags (or FS_O_READ FS_O_WRITE) = 0 then (FS_ERR_ARG, s)
      else if and flags FS_O_TRUNC \<noteq> 0 \<and> and flags FS_O_WRITE = 0 then (FS_ERR_ARG, s)
      else case open_entry (the name) flags s of
        (Inl rc, s) \<Rightarrow> (rc, s)
      | (Inr i, s) \<Rightarrow>
          let (rc, s) = (if and flags FS_O_TRUNC \<noteq> 0 then truncate_entry i s else (FS_OK, s)) in
          if rc \<noteq> FS_OK then (rc, s)
          else case alloc_fd s of
            None \<Rightarrow> (FS_ERR_NO_SPACE, s)
          | Some fd \<Rightarrow> (int fd, s \<lparr> h_open := (h_open s)[fd := \<lparr> f_in_use = 1, f_dir_index = word_of_nat i,
                                       f_offset = 0, f_flags = flags \<rparr>] \<rparr>))"

definition fs_close :: "int \<Rightarrow> otfs \<Rightarrow> int \<times> otfs" where
  "fs_close fd s =
     (if validate_common s \<noteq> FS_OK then (validate_common s, s)
      else if \<not> valid_fd fd then (FS_ERR_ARG, s)
      else if f_in_use (h_open s ! nat fd) = 0 then (FS_ERR_STATE, s)
      else (FS_OK, s \<lparr> h_open := (h_open s)[nat fd := zero_file] \<rparr>))"

definition set_offset :: "nat \<Rightarrow> u32 \<Rightarrow> otfs \<Rightarrow> otfs" where
  "set_offset fd off s = s \<lparr> h_open := (h_open s)[fd := (h_open s ! fd) \<lparr> f_offset := off \<rparr>] \<rparr>"

definition fs_seek :: "int \<Rightarrow> u32 \<Rightarrow> otfs \<Rightarrow> int \<times> otfs" where
  "fs_seek fd off s =
     (if validate_common s \<noteq> FS_OK then (validate_common s, s)
      else if \<not> valid_fd fd then (FS_ERR_ARG, s)
      else if f_in_use (h_open s ! nat fd) = 0 then (FS_ERR_STATE, s)
      else (FS_OK, set_offset (nat fd) off s))"

text \<open>One round of the loop of \<open>fs_read\<close>: the bytes of the next block, at most \<open>chunk\<close>.\<close>

definition read_chunk :: "nat \<Rightarrow> nat \<Rightarrow> nat \<Rightarrow> otfs \<Rightarrow> int \<times> u8 list \<times> otfs" where
  "read_chunk fd entry chunk s =
     (let off = f_offset (h_open s ! fd);
          (rc, data_block_index, s) = resolve_data_block entry (unat off div FS_BLOCK_SIZE) False s in
      if rc \<noteq> FS_OK then (FS_ERR_STATE, [], s)
      else let (rc, block, s) = read_data_block data_block_index s in
      if rc \<noteq> FS_OK then (FS_ERR_IO, [], s)
      else (FS_OK, slice_at (unat off mod FS_BLOCK_SIZE) chunk block, set_offset fd (off + word_of_nat chunk) s))"

definition chunk_size :: "u32 \<Rightarrow> nat \<Rightarrow> nat" where
  "chunk_size off left = min (FS_BLOCK_SIZE - unat off mod FS_BLOCK_SIZE) left"

lemma chunk_size_pos: "0 < left \<Longrightarrow> 0 < chunk_size off left"
  by (simp add: chunk_size_def FS_BLOCK_SIZE_def)

lemma chunk_size_le: "chunk_size off left \<le> left"
  by (simp add: chunk_size_def)

lemma chunk_progress: "copied < len \<Longrightarrow> len - (copied + chunk_size off (len - copied)) < len - copied"
  using chunk_size_pos [of "len - copied" off] by simp

function read_loop :: "nat \<Rightarrow> nat \<Rightarrow> nat \<Rightarrow> nat \<Rightarrow> u8 list \<Rightarrow> otfs \<Rightarrow> int \<times> u8 list \<times> otfs" where
  "read_loop fd entry len copied buf s =
     (if copied < len then
        let chunk = chunk_size (f_offset (h_open s ! fd)) (len - copied);
            (rc, data, s) = read_chunk fd entry chunk s in
        if rc \<noteq> FS_OK then (rc, buf, s)
        else read_loop fd entry len (copied + chunk) (buf @ data) s
      else (FS_OK, buf, s))"
  by pat_completeness auto
termination
  by (relation "measure (\<lambda>(fd, entry, len, copied, buf, s). len - copied)") (auto intro: chunk_progress)

declare read_loop.simps [simp del]

text \<open>The result holds the bytes copied to the buffer and \<open>*bytes_read\<close>.\<close>

definition fs_read :: "int \<Rightarrow> nat \<Rightarrow> otfs \<Rightarrow> int \<times> u8 list \<times> nat \<times> otfs" where
  "fs_read fd len s =
     (if validate_common s \<noteq> FS_OK then (validate_common s, [], 0, s)
      else if \<not> valid_fd fd then (FS_ERR_ARG, [], 0, s)
      else
        let open_file = h_open s ! nat fd in
        if f_in_use open_file = 0 \<or> and (f_flags open_file) FS_O_READ = 0 then (FS_ERR_STATE, [], 0, s)
        else
          let i = unat (f_dir_index open_file); entry = h_dir s ! i in
          if f_offset open_file \<ge> de_size_bytes entry \<or> len = 0 then (FS_OK, [], 0, s)
          else
            let len = min len (unat (de_size_bytes entry - f_offset open_file));
                (rc, buf, s) = read_loop (nat fd) i len 0 [] s in
            if rc \<noteq> FS_OK then (rc, buf, 0, s) else (FS_OK, buf, len, s))"

text \<open>
  One round of the loop of \<open>fs_write\<close>: with the block \<open>x\<close> of the offset, read it, change it, write it
  and move the offset; before that, find it.
\<close>

definition store_chunk :: "nat \<Rightarrow> u32 \<Rightarrow> u32 \<Rightarrow> u8 list \<Rightarrow> otfs \<Rightarrow> int \<times> otfs" where
  "store_chunk fd x off data s =
     (let intra_block = unat off mod FS_BLOCK_SIZE; (rc, block, s) = read_data_block x s in
      if rc \<noteq> FS_OK then (FS_ERR_IO, s)
      else let block = take intra_block block @ data @ drop (intra_block + length data) block;
               (rc, s) = write_data_block x block s in
      if rc \<noteq> FS_OK then (FS_ERR_IO, s)
      else (FS_OK, set_offset fd (off + word_of_nat (length data)) s))"

definition write_chunk :: "nat \<Rightarrow> nat \<Rightarrow> u8 list \<Rightarrow> otfs \<Rightarrow> int \<times> otfs" where
  "write_chunk fd entry data s =
     (let off = f_offset (h_open s ! fd);
          (rc, data_block_index, s) = resolve_data_block entry (unat off div FS_BLOCK_SIZE) True s in
      if rc \<noteq> FS_OK then (if rc = FS_ERR_NO_SPACE then FS_ERR_NO_SPACE else FS_ERR_STATE, s)
      else store_chunk fd data_block_index off data s)"

function write_loop :: "nat \<Rightarrow> nat \<Rightarrow> u8 list \<Rightarrow> nat \<Rightarrow> otfs \<Rightarrow> int \<times> nat \<times> otfs" where
  "write_loop fd entry buf copied s =
     (if copied < length buf then
        let chunk = chunk_size (f_offset (h_open s ! fd)) (length buf - copied);
            (rc, s) = write_chunk fd entry (slice_at copied chunk buf) s in
        if rc \<noteq> FS_OK then (rc, copied, s)
        else write_loop fd entry buf (copied + chunk) s
      else (FS_OK, copied, s))"
  by pat_completeness auto
termination
  by (relation "measure (\<lambda>(fd, entry, buf, copied, s). length buf - copied)") (auto intro: chunk_progress)

declare write_loop.simps [simp del]

text \<open>The new size after the loop. The result of \<open>fs_write\<close> holds \<open>*bytes_written\<close>.\<close>

definition finish_write :: "nat \<Rightarrow> nat \<Rightarrow> otfs \<Rightarrow> otfs" where
  "finish_write fd i s =
     (if f_offset (h_open s ! fd) > de_size_bytes (h_dir s ! i) then set_size i (f_offset (h_open s ! fd)) s else s)"

definition fs_write :: "int \<Rightarrow> u8 list \<Rightarrow> otfs \<Rightarrow> int \<times> nat \<times> otfs" where
  "fs_write fd buf s =
     (if validate_common s \<noteq> FS_OK then (validate_common s, 0, s)
      else if \<not> valid_fd fd then (FS_ERR_ARG, 0, s)
      else
        let open_file = h_open s ! nat fd in
        if f_in_use open_file = 0 \<or> and (f_flags open_file) FS_O_WRITE = 0 then (FS_ERR_STATE, 0, s)
        else
          let i = unat (f_dir_index open_file);
              (rc, copied, s) = write_loop (nat fd) i buf 0 s in
          if rc \<noteq> FS_OK then (rc, 0, s)
          else
            let (rc, s) = sync_metadata (finish_write (nat fd) i s) in
            if rc \<noteq> FS_OK then (FS_ERR_IO, 0, s) else (FS_OK, copied, s))"

end
