(* ===== verification/OtfsChains.thy ===== *)
theory OtfsChains
  imports Otfs
begin

text \<open>
  The block chains of OTFS: what a chain is, that the walks of the code follow it, the invariant of a
  mounted image (chains end, no block is in two files, names differ, descriptors refer to files), and
  that allocation only ever extends one file's chain by free blocks filled with zeros.
\<close>

subsection \<open>Chains\<close>

lemma unat_neq [simp]: "x \<noteq> y \<Longrightarrow> unat (x :: u32) \<noteq> unat y"
  by (simp add: word_unat_eq_iff)

fun chain_ok :: "u32 list \<Rightarrow> u32 \<Rightarrow> u32 list \<Rightarrow> bool" where
  "chain_ok fat b [] \<longleftrightarrow> b = FAT_END"
| "chain_ok fat b (x # xs) \<longleftrightarrow> b = x \<and> valid_block_index x \<and> chain_ok fat (fat ! unat x) xs"

lemma block_markers [simp]: "\<not> valid_block_index FAT_END" "\<not> valid_block_index FAT_FREE" "FAT_FREE \<noteq> FAT_END" "FAT_END \<noteq> FAT_FREE"
  by (simp_all add: valid_block_index_def FAT_END_def FAT_FREE_def fs_layout)

lemma chain_ok_unique: "chain_ok fat b xs \<Longrightarrow> chain_ok fat b ys \<Longrightarrow> xs = ys"
proof (induction xs arbitrary: b ys)
  case Nil
  then show ?case by (cases ys) auto
next
  case (Cons x xs)
  then show ?case by (cases ys) auto
qed

lemma chain_ok_valid: "chain_ok fat b xs \<Longrightarrow> x \<in> set xs \<Longrightarrow> valid_block_index x"
  by (induction xs arbitrary: b) auto

lemma chain_ok_not_free: "chain_ok fat b xs \<Longrightarrow> x \<in> set xs \<Longrightarrow> fat ! unat x \<noteq> FAT_FREE"
proof (induction xs arbitrary: b)
  case (Cons y ys)
  then show ?case by (cases ys) auto
qed simp

lemma chain_ok_suffix: "chain_ok fat b (xs @ x # ys) \<Longrightarrow> chain_ok fat x (x # ys)"
  by (induction xs arbitrary: b) auto

lemma chain_ok_distinct: "chain_ok fat b xs \<Longrightarrow> distinct xs"
proof (induction xs arbitrary: b)
  case (Cons x xs)
  have "x \<notin> set xs"
  proof
    assume "x \<in> set xs"
    then obtain ys zs where "xs = ys @ x # zs"
      by (auto simp: in_set_conv_decomp)
    then have "chain_ok fat x (x # zs)"
      using Cons.prems chain_ok_suffix [of fat b "x # ys" x zs] by simp
    moreover have "chain_ok fat x (x # xs)"
      using Cons.prems by simp
    ultimately have "zs = xs"
      using chain_ok_unique by blast
    with \<open>xs = ys @ x # zs\<close> show False
      by (metis append_Cons append_self_conv2 append_is_Nil_conv length_append length_Cons
          add_cancel_left_left add_is_0 not_Cons_self2 self_append_conv2)
  qed
  with Cons show ?case by auto
qed simp

lemma valid_blocks_card: "distinct xs \<Longrightarrow> (\<And>x. x \<in> set xs \<Longrightarrow> valid_block_index x) \<Longrightarrow> length xs \<le> FS_DATA_BLOCK_COUNT"
proof -
  assume xs: "distinct xs" "\<And>x. x \<in> set xs \<Longrightarrow> valid_block_index x"
  have "distinct (map unat xs)"
    using xs(1) by (simp add: distinct_map inj_on_def word_unat_eq_iff)
  moreover have "set (map unat xs) \<subseteq> {..<FS_DATA_BLOCK_COUNT}"
    using xs(2) by (auto simp: valid_block_index_def)
  ultimately show ?thesis
    using card_mono [of "{..<FS_DATA_BLOCK_COUNT}" "set (map unat xs)"] distinct_card [of "map unat xs"] by simp
qed

lemma chain_ok_length: "chain_ok fat b xs \<Longrightarrow> length xs \<le> FS_DATA_BLOCK_COUNT"
  using valid_blocks_card chain_ok_distinct chain_ok_valid by blast

lemma chain_ok_cong:
  "chain_ok fat b xs \<Longrightarrow> (\<And>x. x \<in> set xs \<Longrightarrow> fat' ! unat x = fat ! unat x) \<Longrightarrow> chain_ok fat' b xs"
  by (induction xs arbitrary: b) auto

lemma chain_ok_extend:
  "chain_ok fat b (xs @ [x]) \<Longrightarrow> (\<And>y. y \<in> set xs \<Longrightarrow> fat' ! unat y = fat ! unat y) \<Longrightarrow>
   chain_ok fat' (fat' ! unat x) zs \<Longrightarrow> chain_ok fat' b (xs @ x # zs)"
  by (induction xs arbitrary: b) auto

text \<open>The chain of a block, with fuel that the number of blocks makes sufficient.\<close>

fun chain_upto :: "nat \<Rightarrow> u32 list \<Rightarrow> u32 \<Rightarrow> u32 list" where
  "chain_upto 0 fat b = []"
| "chain_upto (Suc n) fat b = (if valid_block_index b then b # chain_upto n fat (fat ! unat b) else [])"

definition chain :: "u32 list \<Rightarrow> u32 \<Rightarrow> u32 list" where
  "chain fat b = chain_upto FS_DATA_BLOCK_COUNT fat b"

lemma chain_upto_ok: "chain_ok fat b xs \<Longrightarrow> length xs \<le> n \<Longrightarrow> chain_upto n fat b = xs"
proof (induction xs arbitrary: b n)
  case Nil
  then show ?case by (cases n) auto
next
  case (Cons x xs)
  then show ?case by (cases n) auto
qed

lemma chain_eq: "chain_ok fat b xs \<Longrightarrow> chain fat b = xs"
  unfolding chain_def using chain_upto_ok chain_ok_length by blast

lemma walk_chain_iff:
  "walk_chain fat b n = Some m \<longleftrightarrow> (\<exists>xs. chain_ok fat b xs \<and> m = n + length xs \<and> (xs = [] \<or> m \<le> FS_DATA_BLOCK_COUNT))"
proof (induction fat b n rule: walk_chain.induct)
  case (1 fat b n)
  show ?case
  proof (cases "b = FAT_END \<or> \<not> valid_block_index b \<or> n \<ge> FS_DATA_BLOCK_COUNT")
    case True
    have "chain_ok fat b xs \<longleftrightarrow> (if b = FAT_END then xs = [] else valid_block_index b \<and> xs \<noteq> [] \<and> chain_ok fat b xs)" for xs
      by (cases xs) auto
    moreover have "m = n + length xs \<Longrightarrow> xs \<noteq> [] \<Longrightarrow> m \<le> FS_DATA_BLOCK_COUNT \<Longrightarrow> n < FS_DATA_BLOCK_COUNT" for xs :: "u32 list"
      by (cases xs) auto
    ultimately show ?thesis
      using True by (subst walk_chain.simps) (metis add_0_right list.size(3) not_less option.distinct(1) option.inject)
  next
    case False
    then have ih: "walk_chain fat b n = Some m \<longleftrightarrow>
      (\<exists>xs. chain_ok fat (fat ! unat b) xs \<and> m = n + 1 + length xs \<and> (xs = [] \<or> m \<le> FS_DATA_BLOCK_COUNT))"
      using 1 by (subst walk_chain.simps) simp
    have "chain_ok fat b xs \<longleftrightarrow> (\<exists>ys. xs = b # ys \<and> chain_ok fat (fat ! unat b) ys)" for xs
      using False by (cases xs) auto
    then show ?thesis
      unfolding ih using False by auto
  qed
qed

lemma walk_chain_zero: "walk_chain fat b 0 = Some m \<longleftrightarrow> chain_ok fat b (chain fat b) \<and> m = length (chain fat b)"
  unfolding walk_chain_iff using chain_ok_length chain_eq by (metis add_0)

subsection \<open>Releasing\<close>

lemma release_loop_chain:
  assumes "chain_ok fat b xs" "n + length xs \<le> FS_DATA_BLOCK_COUNT + 1" "length fat = FS_TOTAL_BLOCKS"
  shows "\<exists>fat'. release_loop fat b n = (FS_OK, fat') \<and> length fat' = FS_TOTAL_BLOCKS \<and>
    (\<forall>x. valid_block_index x \<longrightarrow> fat' ! unat x = (if x \<in> set xs then FAT_FREE else fat ! unat x))"
  using assms
proof (induction xs arbitrary: fat b n)
  case Nil
  then show ?case by (simp add: release_loop.simps)
next
  case (Cons x xs)
  let ?fat = "fat[unat x := FAT_FREE]"
  have x: "b = x" "valid_block_index x" "chain_ok fat (fat ! unat x) xs" "x \<notin> set xs"
    using Cons.prems(1) chain_ok_distinct by fastforce+
  have "chain_ok ?fat (fat ! unat x) xs"
    by (rule chain_ok_cong [OF x(3)]) (use x(4) in \<open>metis nth_list_update_neq unat_neq\<close>)
  then obtain fat' where f: "release_loop ?fat (fat ! unat x) (n + 1) = (FS_OK, fat')" "length fat' = FS_TOTAL_BLOCKS"
    "\<forall>y. valid_block_index y \<longrightarrow> fat' ! unat y = (if y \<in> set xs then FAT_FREE else ?fat ! unat y)"
    using Cons.IH [of ?fat "fat ! unat x" "n + 1"] Cons.prems by auto
  have "release_loop fat b n = (FS_OK, fat')"
    using f(1) x Cons.prems(2) by (subst release_loop.simps) auto
  moreover have "fat' ! unat y = (if y \<in> set (x # xs) then FAT_FREE else fat ! unat y)" if y: "valid_block_index y" for y
  proof (cases "y = x")
    case True
    have "unat x < length fat"
      using x(2) Cons.prems(3) by (simp add: valid_block_index_def fs_layout)
    then show ?thesis
      using True f(3) y by simp
  next
    case False
    then show ?thesis
      using f(3) y unat_neq [of x y] by simp
  qed
  ultimately show ?case
    using f(2) by blast
qed

subsection \<open>Bytes of the image\<close>

definition overwrite :: "nat \<Rightarrow> 'a list \<Rightarrow> 'a list \<Rightarrow> 'a list" where
  "overwrite off buf bytes = take off bytes @ buf @ drop (off + length buf) bytes"

lemma overwrite_length [simp]: "off + length buf \<le> length bytes \<Longrightarrow> length (overwrite off buf bytes) = length bytes"
  by (simp add: overwrite_def)

lemma overwrite_nth:
  "off + length buf \<le> length bytes \<Longrightarrow> i < length bytes \<Longrightarrow>
   overwrite off buf bytes ! i = (if off \<le> i \<and> i < off + length buf then buf ! (i - off) else bytes ! i)"
  by (auto simp: overwrite_def nth_append min_def)

lemma write_at_overwrite: "off + length buf \<le> length bytes \<Longrightarrow> write_at off buf bytes = overwrite off buf bytes"
  by (simp add: write_at_def overwrite_def)

lemma slice_at_length [simp]: "off + len \<le> length xs \<Longrightarrow> length (slice_at off len xs) = len"
  by (simp add: slice_at_def)

lemma slice_at_nth: "off + len \<le> length xs \<Longrightarrow> i < len \<Longrightarrow> slice_at off len xs ! i = xs ! (off + i)"
  by (simp add: slice_at_def)

lemma slice_overwrite_other:
  assumes "off + length buf \<le> length bytes" "off' + len \<le> length bytes" "off' + len \<le> off \<or> off + length buf \<le> off'"
  shows "slice_at off' len (overwrite off buf bytes) = slice_at off' len bytes"
  by (rule nth_equalityI) (use assms in \<open>auto simp: slice_at_nth overwrite_nth\<close>)

lemma slice_overwrite_same:
  assumes "off + length buf \<le> length bytes"
  shows "slice_at off (length buf) (overwrite off buf bytes) = buf"
  by (rule nth_equalityI) (use assms in \<open>auto simp: slice_at_nth overwrite_nth\<close>)

definition image :: "otfs \<Rightarrow> u8 list" where
  "image s = host_bytes (st_host s) (get_file s)"

definition block_of :: "otfs \<Rightarrow> u32 \<Rightarrow> u8 list" where
  "block_of s x = slice_at (block_offset (FS_DATA_START_BLOCK + unat x)) FS_BLOCK_SIZE (image s)"

definition image_wf :: "otfs \<Rightarrow> bool" where
  "image_wf s \<longleftrightarrow> h_image_file s \<noteq> None \<and> length (image s) = FS_TOTAL_BLOCKS * FS_BLOCK_SIZE \<and> length (h_fat s) = FS_TOTAL_BLOCKS"

text \<open>A host on which no call fails.\<close>

definition steady :: "otfs \<Rightarrow> bool" where
  "steady s \<longleftrightarrow> (\<forall>n. io_faults (st_host s) n = None)"

text \<open>What no operation on files changes.\<close>

definition keeps :: "otfs \<Rightarrow> otfs \<Rightarrow> bool" where
  "keeps s s' \<longleftrightarrow> h_mounted s' = h_mounted s \<and> h_image_file s' = h_image_file s \<and> length (image s') = length (image s) \<and>
     slice_at 0 FS_BLOCK_SIZE (image s') = slice_at 0 FS_BLOCK_SIZE (image s) \<and> length (h_fat s') = length (h_fat s) \<and>
     io_faults (st_host s') = io_faults (st_host s)"

lemma keeps_refl [simp]: "keeps s s"
  by (simp add: keeps_def)

lemma keeps_trans: "keeps s s' \<Longrightarrow> keeps s' s'' \<Longrightarrow> keeps s s''"
  by (simp add: keeps_def)

lemma keeps_image_wf: "keeps s s' \<Longrightarrow> image_wf s \<Longrightarrow> image_wf s'"
  by (auto simp: keeps_def image_wf_def)

lemma keeps_steady: "keeps s s' \<Longrightarrow> steady s' = steady s"
  by (simp add: keeps_def steady_def)

lemma write_bytes:
  assumes "fs_seek_and_write off buf s = (rc, s')" "off + length buf \<le> length (image s)"
  shows "\<exists>n \<le> length buf. image s' = overwrite off (take n buf) (image s) \<and> s' = s \<lparr> st_host := st_host s' \<rparr> \<and>
    io_faults (st_host s') = io_faults (st_host s) \<and> (rc = FS_OK \<and> n = length buf \<or> rc = FS_ERR_IO \<and> \<not> steady s)"
proof (cases "io_faults (st_host s) (io_calls (st_host s))")
  case None
  then have "image s' = overwrite off (take (length buf) buf) (image s) \<and> s' = s \<lparr> st_host := st_host s' \<rparr> \<and> io_faults (st_host s') = io_faults (st_host s) \<and> rc = FS_OK"
    using assms write_at_overwrite [of off buf "image s"]
    by (auto simp: fs_seek_and_write_def seek_and_write_def io_step_def image_def host_bytes_def get_file_def)
  then show ?thesis by blast
next
  case (Some n)
  define m where "m = min n (length buf)"
  have m: "take n buf = take m buf"
    by (simp add: m_def min_def)
  have "image s' = overwrite off (take m buf) (image s) \<and> s' = s \<lparr> st_host := st_host s' \<rparr> \<and>
      io_faults (st_host s') = io_faults (st_host s) \<and> rc = FS_ERR_IO \<and> \<not> steady s"
    using assms Some m write_at_overwrite [of off "take m buf" "image s"]
    by (auto simp: fs_seek_and_write_def seek_and_write_def io_step_def image_def host_bytes_def get_file_def m_def steady_def)
  then show ?thesis
    by (intro exI [of _ m]) (simp add: m_def)
qed

lemma block_bounds:
  "valid_block_index x \<Longrightarrow> image_wf s \<Longrightarrow>
   FS_BLOCK_SIZE \<le> block_offset (FS_DATA_START_BLOCK + unat x) \<and>
   block_offset (FS_DATA_START_BLOCK + unat x) + FS_BLOCK_SIZE \<le> length (image s)"
  by (auto simp: valid_block_index_def image_wf_def block_offset_def fs_layout)

lemma block_apart:
  "unat x \<noteq> unat y \<Longrightarrow>
   block_offset (FS_DATA_START_BLOCK + unat x) + FS_BLOCK_SIZE \<le> block_offset (FS_DATA_START_BLOCK + unat y) \<or>
   block_offset (FS_DATA_START_BLOCK + unat y) + FS_BLOCK_SIZE \<le> block_offset (FS_DATA_START_BLOCK + unat x)"
  by (auto simp: block_offset_def fs_layout)

lemma write_block:
  assumes "fs_seek_and_write (block_offset (FS_DATA_START_BLOCK + unat x)) buf s = (rc, s')" "length buf = FS_BLOCK_SIZE"
    and "valid_block_index x" "image_wf s"
  shows "keeps s s'" "s' = s \<lparr> st_host := st_host s' \<rparr>" "rc = FS_OK \<or> rc = FS_ERR_IO \<and> \<not> steady s"
    and "rc = FS_OK \<Longrightarrow> block_of s' x = buf"
    and "valid_block_index y \<Longrightarrow> y \<noteq> x \<Longrightarrow> block_of s' y = block_of s y"
proof -
  note b = block_bounds [OF assms(3,4)]
  obtain n where n: "n \<le> length buf" "image s' = overwrite (block_offset (FS_DATA_START_BLOCK + unat x)) (take n buf) (image s)"
    "s' = s \<lparr> st_host := st_host s' \<rparr>" "rc = FS_OK \<and> n = length buf \<or> rc = FS_ERR_IO \<and> \<not> steady s"
    "io_faults (st_host s') = io_faults (st_host s)"
    using write_bytes [OF assms(1)] b assms(2) by auto
  show "s' = s \<lparr> st_host := st_host s' \<rparr>" "rc = FS_OK \<or> rc = FS_ERR_IO \<and> \<not> steady s"
    using n by auto
  have f: "h_mounted s' = h_mounted s" "h_image_file s' = h_image_file s" "h_fat s' = h_fat s"
    by (subst n(3), simp)+
  show "keeps s s'"
    unfolding keeps_def n(2) using f b n(1,5) assms(2) by (simp add: slice_overwrite_other)
  show "block_of s' x = buf" if "rc = FS_OK"
    using that n b assms(2) slice_overwrite_same [of "block_offset (FS_DATA_START_BLOCK + unat x)" buf "image s"]
    by (auto simp: block_of_def fs_codes)
  show "block_of s' y = block_of s y" if y: "valid_block_index y" "y \<noteq> x"
    using block_bounds [OF y(1) assms(4)] block_apart [OF unat_neq [OF y(2)]] b n(1) assms(2)
    unfolding block_of_def n(2) by (auto intro!: slice_overwrite_other)
qed

subsection \<open>Allocation\<close>

definition entry_chain :: "otfs \<Rightarrow> nat \<Rightarrow> u32 list" where
  "entry_chain s i = chain (h_fat s) (de_first_block (h_dir s ! i))"

definition free_blocks :: "otfs \<Rightarrow> u32 set" where
  "free_blocks s = {x. valid_block_index x \<and> h_fat s ! unat x = FAT_FREE}"

definition zero_block :: "u8 list" where
  "zero_block = replicate FS_BLOCK_SIZE 0"

lemma fat_entries_valid_nth:
  "length fat = FS_TOTAL_BLOCKS \<Longrightarrow> fat_entries_valid fat \<longleftrightarrow>
   (\<forall>x. valid_block_index x \<longrightarrow> fat ! unat x = FAT_FREE \<or> fat ! unat x = FAT_END \<or> valid_block_index (fat ! unat x))"
proof -
  assume l: "length fat = FS_TOTAL_BLOCKS"
  have "set (take FS_DATA_BLOCK_COUNT fat) = (!) fat ` {0..<FS_DATA_BLOCK_COUNT}"
    using l by (simp add: nth_image [symmetric] fs_layout)
  also have "\<dots> = (\<lambda>x. fat ! unat x) ` {x :: u32. valid_block_index x}"
  proof -
    have "unat ` {x :: u32. valid_block_index x} = {0..<FS_DATA_BLOCK_COUNT}"
    proof (rule set_eqI, rule iffI)
      fix n assume "n \<in> {0..<FS_DATA_BLOCK_COUNT}"
      then have "unat (word_of_nat n :: u32) = n"
        by (simp add: unat_of_nat fs_layout)
      with \<open>n \<in> _\<close> show "n \<in> unat ` {x :: u32. valid_block_index x}"
        by (auto simp: valid_block_index_def intro!: image_eqI [of n unat "word_of_nat n"])
    qed (auto simp: valid_block_index_def)
    then show ?thesis
      by (metis image_image)
  qed
  finally show ?thesis
    by (auto simp: fat_entries_valid_def list_all_iff)
qed

text \<open>
  The effect of an attempt to allocate: nothing, or one free block is marked as the end of a chain;
  if the call succeeds the block has been filled with zeros.
\<close>

lemma allocate_effect:
  assumes "allocate_data_block out s = (rc, b, s')" "image_wf s"
  shows "keeps s s' \<and> h_dir s' = h_dir s \<and> h_open s' = h_open s \<and>
    (rc = FS_OK \<or> rc = FS_ERR_IO \<and> \<not> steady s \<or> rc = FS_ERR_NO_SPACE \<and> s' = s \<and> free_blocks s = {}) \<and>
    (rc = FS_OK \<longrightarrow> b \<in> free_blocks s \<and> block_of s' b = zero_block \<and> h_fat s' = (h_fat s)[unat b := FAT_END]) \<and>
    (h_fat s' = h_fat s \<or> (\<exists>x \<in> free_blocks s. h_fat s' = (h_fat s)[unat x := FAT_END])) \<and>
    (\<forall>y. valid_block_index y \<and> y \<notin> free_blocks s \<longrightarrow> block_of s' y = block_of s y)"
proof (cases "find_index (\<lambda>i. h_fat s ! i = FAT_FREE) FS_DATA_BLOCK_COUNT")
  case None
  then have "free_blocks s = {}"
    by (auto simp: find_index_None free_blocks_def valid_block_index_def)
  then show ?thesis
    using assms(1) None by (auto simp: allocate_data_block_def)
next
  case (Some i)
  define x :: u32 where "x = word_of_nat i"
  have i: "i < FS_DATA_BLOCK_COUNT" "h_fat s ! i = FAT_FREE"
    using Some by (auto simp: find_index_Some)
  then have x: "unat x = i" "valid_block_index x" "x \<in> free_blocks s"
    by (auto simp: x_def unat_of_nat free_blocks_def valid_block_index_def fs_layout)
  define t where "t = s \<lparr> h_fat := (h_fat s)[unat x := FAT_END] \<rparr>"
  have t: "image_wf t" "keeps s t" "\<And>y. block_of t y = block_of s y" "steady t = steady s"
    using assms(2) by (simp_all add: t_def image_wf_def keeps_def image_def get_file_def block_of_def steady_def)
  obtain r u where w: "fs_seek_and_write (block_offset (FS_DATA_START_BLOCK + unat x)) (replicate FS_BLOCK_SIZE 0) t = (r, u)"
    by force
  note wb = write_block [OF w _ x(2) t(1), simplified]
  have res: "(rc, s') = (if r \<noteq> FS_OK then FS_ERR_IO else FS_OK, u)" "rc = FS_OK \<Longrightarrow> b = x"
    using assms(1) Some w x(1) unfolding t_def by (auto simp: allocate_data_block_def x_def split: if_splits)
  have u: "h_fat u = (h_fat s)[unat x := FAT_END]" "h_dir u = h_dir s" "h_open u = h_open s"
    by (subst wb(2), simp add: t_def)+
  show ?thesis
    using res wb(1,3-5) t(2-4) x(3) keeps_trans u by (auto simp: zero_block_def fs_codes split: if_splits)
qed

text \<open>
  One file may grow: its chain is extended by free blocks, which are zero; no block of another file
  changes its link or its bytes.
\<close>

definition grows :: "nat \<Rightarrow> otfs \<Rightarrow> otfs \<Rightarrow> bool" where
  "grows i s s' \<longleftrightarrow> keeps s s' \<and> h_open s' = h_open s \<and>
     h_dir s' = (h_dir s)[i := (h_dir s ! i) \<lparr> de_first_block := de_first_block (h_dir s' ! i) \<rparr>] \<and>
     fat_entries_valid (h_fat s') \<and>
     (\<exists>bs. chain_ok (h_fat s') (de_first_block (h_dir s' ! i)) (entry_chain s i @ bs) \<and> set bs \<subseteq> free_blocks s \<and>
        (\<forall>x \<in> set bs. block_of s' x = zero_block)) \<and>
     (\<forall>x. valid_block_index x \<and> x \<notin> free_blocks s \<and> x \<notin> set (entry_chain s i) \<longrightarrow> h_fat s' ! unat x = h_fat s ! unat x) \<and>
     (\<forall>x. valid_block_index x \<and> x \<notin> free_blocks s \<longrightarrow> block_of s' x = block_of s x) \<and>
     free_blocks s' \<subseteq> free_blocks s"

definition file_wf :: "otfs \<Rightarrow> nat \<Rightarrow> bool" where
  "file_wf s i \<longleftrightarrow> image_wf s \<and> i < length (h_dir s) \<and> fat_entries_valid (h_fat s) \<and>
     chain_ok (h_fat s) (de_first_block (h_dir s ! i)) (entry_chain s i)"

lemma grows_chain: "grows i s s' \<Longrightarrow> chain_ok (h_fat s') (de_first_block (h_dir s' ! i)) (entry_chain s' i)"
  by (metis chain_eq entry_chain_def grows_def)

lemma grows_file_wf: "grows i s s' \<Longrightarrow> file_wf s i \<Longrightarrow> file_wf s' i"
  using grows_chain [of i s s'] keeps_image_wf [of s s']
  by (auto simp: file_wf_def grows_def) (metis length_list_update)

lemma grows_steady: "grows i s s' \<Longrightarrow> steady s' = steady s"
  using keeps_steady unfolding grows_def by blast

lemma grows_refl: "file_wf s i \<Longrightarrow> grows i s s"
  unfolding grows_def by (auto simp: file_wf_def intro: exI [of _ "[]"])

lemma grows_trans:
  assumes "grows i s s'" "grows i s' s''"
  shows "grows i s s''"
proof -
  obtain bs where bs: "chain_ok (h_fat s') (de_first_block (h_dir s' ! i)) (entry_chain s i @ bs)"
    "set bs \<subseteq> free_blocks s" "\<forall>x \<in> set bs. block_of s' x = zero_block"
    using assms(1) by (auto simp: grows_def)
  obtain cs where cs: "chain_ok (h_fat s'') (de_first_block (h_dir s'' ! i)) (entry_chain s' i @ cs)"
    "set cs \<subseteq> free_blocks s'" "\<forall>x \<in> set cs. block_of s'' x = zero_block"
    using assms(2) by (auto simp: grows_def)
  have c: "entry_chain s' i = entry_chain s i @ bs"
    using bs(1) chain_eq by (simp add: entry_chain_def)
  have f: "free_blocks s'' \<subseteq> free_blocks s'" "free_blocks s' \<subseteq> free_blocks s"
    using assms by (auto simp: grows_def)
  have nf: "x \<in> set bs \<Longrightarrow> x \<notin> free_blocks s' \<and> valid_block_index x" for x
    using chain_ok_not_free [OF bs(1)] chain_ok_valid [OF bs(1)] by (auto simp: free_blocks_def)
  have "\<forall>x \<in> set (bs @ cs). block_of s'' x = zero_block"
    using bs(3) cs(3) nf assms(2) by (auto simp: grows_def)
  moreover have "set (bs @ cs) \<subseteq> free_blocks s"
    using bs(2) cs(2) f by auto
  moreover have "chain_ok (h_fat s'') (de_first_block (h_dir s'' ! i)) (entry_chain s i @ bs @ cs)"
    using cs(1) c by simp
  moreover have "h_fat s'' ! unat x = h_fat s ! unat x"
    if "valid_block_index x" "x \<notin> free_blocks s" "x \<notin> set (entry_chain s i)" for x
  proof -
    have "x \<notin> free_blocks s'" "x \<notin> set (entry_chain s' i)"
      using that f bs(2) c by auto
    then show ?thesis
      using assms that by (simp add: grows_def)
  qed
  moreover have "block_of s'' x = block_of s x" if "valid_block_index x" "x \<notin> free_blocks s" for x
    using that f assms by (auto simp: grows_def)
  moreover have "h_dir s'' = (h_dir s)[i := (h_dir s ! i) \<lparr> de_first_block := de_first_block (h_dir s'' ! i) \<rparr>]"
  proof -
    obtain b' b'' where "h_dir s' = (h_dir s)[i := (h_dir s ! i) \<lparr> de_first_block := b' \<rparr>]"
      "h_dir s'' = (h_dir s')[i := (h_dir s' ! i) \<lparr> de_first_block := b'' \<rparr>]" "b'' = de_first_block (h_dir s'' ! i)"
      using assms unfolding grows_def by blast
    then show ?thesis
      by (cases "i < length (h_dir s)") (simp_all add: list_update_beyond)
  qed
  ultimately show ?thesis
    using assms f keeps_trans [of s s' s''] unfolding grows_def by (intro conjI exI [of _ "bs @ cs"]) auto
qed

lemma image_frame [simp]:
  "image (s \<lparr> h_fat := f \<rparr>) = image s" "image (s \<lparr> h_dir := d \<rparr>) = image s" "image (s \<lparr> h_open := op \<rparr>) = image s"
  by (simp_all add: image_def get_file_def)

lemma block_of_frame [simp]:
  "block_of (s \<lparr> h_fat := f \<rparr>) x = block_of s x" "block_of (s \<lparr> h_dir := d \<rparr>) x = block_of s x"
  "block_of (s \<lparr> h_open := op \<rparr>) x = block_of s x"
  by (simp_all add: block_of_def)

lemma fat_entries_valid_update:
  "fat_entries_valid fat \<Longrightarrow> v = FAT_FREE \<or> v = FAT_END \<or> valid_block_index v \<Longrightarrow> fat_entries_valid (fat[k := v])"
  unfolding fat_entries_valid_def list_all_iff by (auto simp: take_update_swap dest!: set_update_subset_insert [THEN subsetD])

lemma file_wf_end:
  assumes "file_wf s i" "entry_chain s i = pre @ cur # rest"
  shows "valid_block_index cur" "h_fat s ! unat cur = FAT_END \<longleftrightarrow> rest = []" "rest \<noteq> [] \<Longrightarrow> h_fat s ! unat cur = hd rest"
proof -
  have "chain_ok (h_fat s) cur (cur # rest)"
    using assms chain_ok_suffix [of "h_fat s" "de_first_block (h_dir s ! i)" pre cur rest] by (simp add: file_wf_def)
  then show "valid_block_index cur" "h_fat s ! unat cur = FAT_END \<longleftrightarrow> rest = []" "rest \<noteq> [] \<Longrightarrow> h_fat s ! unat cur = hd rest"
    by (cases rest; auto)+
qed

lemma file_wf_not_free: "file_wf s i \<Longrightarrow> x \<in> set (entry_chain s i) \<Longrightarrow> x \<notin> free_blocks s"
  using chain_ok_not_free [of "h_fat s" _ "entry_chain s i" x] by (auto simp: file_wf_def free_blocks_def)

lemma file_wf_fat_length: "file_wf s i \<Longrightarrow> length (h_fat s) = FS_TOTAL_BLOCKS"
  by (simp add: file_wf_def image_wf_def)

lemma fat_update_nth:
  "length fat = FS_TOTAL_BLOCKS \<Longrightarrow> valid_block_index x \<Longrightarrow> fat[unat x := v] ! unat y = (if y = x then v else fat ! unat y)"
  using unat_neq [of x y] by (auto simp: valid_block_index_def fs_layout)

text \<open>An allocation that fails, or whose block is not linked to a file.\<close>

lemma grows_failed:
  assumes "allocate_data_block out s = (rc, b, s')" "file_wf s i"
  shows "grows i s s' \<and> entry_chain s' i = entry_chain s i"
proof -
  note a = allocate_effect [OF assms(1)]
  have wf: "image_wf s" "fat_entries_valid (h_fat s)" "chain_ok (h_fat s) (de_first_block (h_dir s ! i)) (entry_chain s i)"
    "length (h_fat s) = FS_TOTAL_BLOCKS"
    using assms(2) by (auto simp: file_wf_def image_wf_def)
  have e: "keeps s s'" "h_dir s' = h_dir s" "h_open s' = h_open s"
    "\<And>y. valid_block_index y \<Longrightarrow> y \<notin> free_blocks s \<Longrightarrow> block_of s' y = block_of s y"
    "h_fat s' = h_fat s \<or> (\<exists>x \<in> free_blocks s. h_fat s' = (h_fat s)[unat x := FAT_END])"
    using a [OF wf(1)] by blast+
  have same: "h_fat s' ! unat y = h_fat s ! unat y" if "y \<notin> free_blocks s" for y
    using e(5)
  proof
    assume "\<exists>x \<in> free_blocks s. h_fat s' = (h_fat s)[unat x := FAT_END]"
    then obtain x where "x \<in> free_blocks s" "h_fat s' = (h_fat s)[unat x := FAT_END]" by blast
    moreover from this(1) that have "x \<noteq> y" by blast
    ultimately show ?thesis by simp
  qed simp
  have ch: "chain_ok (h_fat s') (de_first_block (h_dir s' ! i)) (entry_chain s i)"
    using chain_ok_cong [OF wf(3)] same file_wf_not_free [OF assms(2)] e(2) by simp
  have "free_blocks s' \<subseteq> free_blocks s"
  proof
    fix y
    assume "y \<in> free_blocks s'"
    then show "y \<in> free_blocks s"
      using same [of y] by (cases "y \<in> free_blocks s") (auto simp: free_blocks_def)
  qed
  moreover have "fat_entries_valid (h_fat s')"
    using e(5) wf(2) fat_entries_valid_update by auto
  ultimately have "grows i s s'"
    unfolding grows_def using e ch same by (auto intro!: exI [of _ "[]"])
  then show ?thesis
    using chain_eq [OF ch] by (simp add: entry_chain_def)
qed

text \<open>A new block linked behind the last block \<open>x\<close>.\<close>

lemma grows_linked:
  assumes "allocate_data_block out s = (FS_OK, b, s')" "file_wf s i" "entry_chain s i = pre @ [x]"
  shows "grows i s (s' \<lparr> h_fat := (h_fat s')[unat x := b] \<rparr>) \<and> entry_chain (s' \<lparr> h_fat := (h_fat s')[unat x := b] \<rparr>) i = pre @ [x, b]"
proof -
  let ?s = "s' \<lparr> h_fat := (h_fat s')[unat x := b] \<rparr>"
  have wf: "image_wf s" "fat_entries_valid (h_fat s)" "chain_ok (h_fat s) (de_first_block (h_dir s ! i)) (pre @ [x])"
    "length (h_fat s) = FS_TOTAL_BLOCKS"
    using assms(2,3) by (auto simp: file_wf_def image_wf_def)
  have e: "keeps s s'" "h_dir s' = h_dir s" "h_open s' = h_open s" "b \<in> free_blocks s" "block_of s' b = zero_block"
    "h_fat s' = (h_fat s)[unat b := FAT_END]"
    "\<And>y. valid_block_index y \<Longrightarrow> y \<notin> free_blocks s \<Longrightarrow> block_of s' y = block_of s y"
    using allocate_effect [OF assms(1) wf(1)] by auto
  have b: "valid_block_index b"
    using e(4) by (simp add: free_blocks_def)
  have x: "valid_block_index x" "x \<notin> free_blocks s" "x \<noteq> b"
    using file_wf_end [OF assms(2,3)] file_wf_not_free [OF assms(2), of x] assms(3) e(4) by auto
  have fat: "h_fat ?s ! unat y = (if y = x then b else if y = b then FAT_END else h_fat s ! unat y)" for y
    using fat_update_nth [OF _ x(1), of "h_fat s'"] fat_update_nth [OF wf(4) b] wf(4) e(6) by simp
  have d: "distinct (pre @ [x])"
    by (rule chain_ok_distinct [OF wf(3)])
  have nb: "b \<notin> set pre"
    using file_wf_not_free [OF assms(2), of b] assms(3) e(4) by auto
  have ch: "chain_ok (h_fat ?s) (de_first_block (h_dir ?s ! i)) (entry_chain s i @ [b])"
  proof -
    have "h_fat ?s ! unat y = h_fat s ! unat y" if "y \<in> set pre" for y
      unfolding fat using that d nb by auto
    moreover have "chain_ok (h_fat ?s) (h_fat ?s ! unat x) [b]"
      unfolding chain_ok.simps fat using b x(3) by simp
    ultimately show ?thesis
      using chain_ok_extend [OF wf(3)] e(2) assms(3) by simp
  qed
  have "free_blocks ?s \<subseteq> free_blocks s"
    using fat b by (auto simp: free_blocks_def split: if_splits)
  moreover have "fat_entries_valid (h_fat ?s)"
    using e(6) wf(2) b fat_entries_valid_update by simp
  moreover have "keeps s ?s"
    using e(1) by (simp add: keeps_def)
  ultimately have "grows i s ?s"
    unfolding grows_def using e ch fat assms(3) x(2) by (auto intro!: exI [of _ "[b]"])
  then show ?thesis
    using chain_eq [OF ch] assms(3) by (simp add: entry_chain_def)
qed

text \<open>A new block as the first one.\<close>

lemma grows_first:
  assumes "allocate_data_block out s = (FS_OK, b, s')" "file_wf s i" "entry_chain s i = []"
  shows "grows i s (set_first_block i b s') \<and> entry_chain (set_first_block i b s') i = [b]"
proof -
  let ?s = "set_first_block i b s'"
  have wf: "image_wf s" "fat_entries_valid (h_fat s)" "length (h_fat s) = FS_TOTAL_BLOCKS" "i < length (h_dir s)"
    using assms(2) by (auto simp: file_wf_def image_wf_def)
  have e: "keeps s s'" "h_dir s' = h_dir s" "h_open s' = h_open s" "b \<in> free_blocks s" "block_of s' b = zero_block"
    "h_fat s' = (h_fat s)[unat b := FAT_END]"
    "\<And>y. valid_block_index y \<Longrightarrow> y \<notin> free_blocks s \<Longrightarrow> block_of s' y = block_of s y"
    using allocate_effect [OF assms(1) wf(1)] by auto
  have b: "valid_block_index b"
    using e(4) by (simp add: free_blocks_def)
  have fat: "h_fat ?s ! unat y = (if y = b then FAT_END else h_fat s ! unat y)" for y
    using fat_update_nth [OF wf(3) b] e(6) by (simp add: set_first_block_def)
  have ch: "chain_ok (h_fat ?s) (de_first_block (h_dir ?s ! i)) (entry_chain s i @ [b])"
    using fat b wf(4) e(2) assms(3) by (simp add: set_first_block_def)
  have "free_blocks ?s \<subseteq> free_blocks s"
    using fat b by (auto simp: free_blocks_def split: if_splits)
  moreover have "fat_entries_valid (h_fat ?s)"
    using e(6) wf(2) fat_entries_valid_update by (simp add: set_first_block_def)
  moreover have "keeps s ?s"
    using e(1) by (simp add: keeps_def set_first_block_def)
  moreover have "h_dir ?s = (h_dir s)[i := (h_dir s ! i) \<lparr> de_first_block := de_first_block (h_dir ?s ! i) \<rparr>]"
    using wf(4) e(2) by (simp add: set_first_block_def)
  ultimately have "grows i s ?s"
    unfolding grows_def using e ch fat by (auto simp: set_first_block_def intro!: exI [of _ "[b]"])
  then show ?thesis
    using chain_eq [OF ch] assms(3) by (simp add: entry_chain_def)
qed

subsection \<open>Resolving\<close>

lemma resolve_steps_read:
  assumes "file_wf s i" "entry_chain s i = pre @ cur # rest" "resolve_steps n False cur s = (rc, out, s')"
  shows "s' = s \<and> (rc = FS_OK \<longleftrightarrow> length pre + n < length (entry_chain s i)) \<and>
    (rc = FS_OK \<longrightarrow> out = entry_chain s i ! (length pre + n))"
  using assms
proof (induction n arbitrary: pre cur rest)
  case 0
  then show ?case by (auto simp: nth_append)
next
  case (Suc n)
  note e = file_wf_end [OF Suc.prems(1,2)]
  show ?case
  proof (cases rest)
    case Nil
    then show ?thesis
      using e Suc.prems by (auto split: if_splits)
  next
    case (Cons y ys)
    then have "entry_chain s i = (pre @ [cur]) @ y # ys" "h_fat s ! unat cur = y" "y \<noteq> FAT_END"
      using e(2,3) Suc.prems(2) by auto
    moreover from file_wf_end(1) [OF Suc.prems(1) this(1)] have "valid_block_index y" .
    ultimately show ?thesis
      using Suc.IH [OF Suc.prems(1), of "pre @ [cur]" y ys] Suc.prems(3) by simp
  qed
qed

lemma resolve_steps_grows:
  assumes "file_wf s i" "entry_chain s i = pre @ cur # rest" "resolve_steps n True cur s = (rc, out, s')"
  shows "grows i s s' \<and> (rc = FS_OK \<or> rc = FS_ERR_NO_SPACE \<and> (steady s \<longrightarrow> free_blocks s' = {})) \<and>
    (rc = FS_OK \<longrightarrow> length pre + n < length (entry_chain s' i) \<and> out = entry_chain s' i ! (length pre + n))"
  using assms
proof (induction n arbitrary: s pre cur rest)
  case 0
  then show ?case by (auto simp: nth_append grows_refl)
next
  case (Suc n)
  note e = file_wf_end [OF Suc.prems(1,2)]
  show ?case
  proof (cases rest)
    case (Cons y ys)
    then have "entry_chain s i = (pre @ [cur]) @ y # ys" "h_fat s ! unat cur = y" "y \<noteq> FAT_END"
      using e(2,3) Suc.prems(2) by auto
    moreover from file_wf_end(1) [OF Suc.prems(1) this(1)] have "valid_block_index y" .
    ultimately show ?thesis
      using Suc.IH [OF Suc.prems(1), of "pre @ [cur]" y ys] Suc.prems(3) by simp
  next
    case Nil
    then have end_: "h_fat s ! unat cur = FAT_END" and ch: "entry_chain s i = pre @ [cur]"
      using e(2) Suc.prems(2) by auto
    obtain r b t where a: "allocate_data_block FAT_END s = (r, b, t)"
      using prod_cases3 by blast
    show ?thesis
    proof (cases "r = FS_OK")
      case False
      then show ?thesis
        using grows_failed [OF a Suc.prems(1)] allocate_effect [OF a] Suc.prems(1,3) a end_
        by (auto simp: file_wf_def split: if_splits)
    next
      case True
      let ?t = "t \<lparr> h_fat := (h_fat t)[unat cur := b] \<rparr>"
      have g: "grows i s ?t" "entry_chain ?t i = (pre @ [cur]) @ [b]"
        using grows_linked [OF a [unfolded True] Suc.prems(1) ch] by auto
      have "b \<in> free_blocks s"
        using allocate_effect [OF a] Suc.prems(1) True by (auto simp: file_wf_def)
      then have "resolve_steps n True b ?t = (rc, out, s')"
        using Suc.prems(3) a end_ True by (simp add: free_blocks_def)
      then show ?thesis
        using Suc.IH [OF grows_file_wf [OF g(1) Suc.prems(1)] g(2)] grows_trans [OF g(1)] grows_steady [OF g(1)] by auto
    qed
  qed
qed

lemma file_wf_first:
  assumes "file_wf s i"
  shows "de_first_block (h_dir s ! i) = FAT_END \<longleftrightarrow> entry_chain s i = []"
    "entry_chain s i \<noteq> [] \<Longrightarrow> de_first_block (h_dir s ! i) = hd (entry_chain s i) \<and> valid_block_index (hd (entry_chain s i))"
  using assms by (cases "entry_chain s i"; force simp: file_wf_def)+

lemma resolve_read:
  assumes "file_wf s i" "resolve_data_block i n False s = (rc, out, s')"
  shows "s' = s \<and> (rc = FS_OK \<longleftrightarrow> n < length (entry_chain s i)) \<and> (rc = FS_OK \<longrightarrow> out = entry_chain s i ! n)"
proof (cases "entry_chain s i")
  case Nil
  then show ?thesis
    using assms(2) file_wf_first(1) [OF assms(1)] by (auto simp: resolve_data_block_def)
next
  case (Cons x xs)
  then have "resolve_steps n False x s = (rc, out, s')"
    using assms(2) file_wf_first [OF assms(1)] by (simp add: resolve_data_block_def)
  then show ?thesis
    using resolve_steps_read [OF assms(1), of "[]" x xs n rc out s'] Cons by simp
qed

lemma resolve_write:
  assumes "file_wf s i" "resolve_data_block i n True s = (rc, out, s')"
  shows "grows i s s' \<and> (rc = FS_OK \<or> rc = FS_ERR_NO_SPACE \<and> (steady s \<longrightarrow> free_blocks s' = {})) \<and>
    (rc = FS_OK \<longrightarrow> n < length (entry_chain s' i) \<and> out = entry_chain s' i ! n)"
proof (cases "entry_chain s i")
  case (Cons x xs)
  then have "resolve_steps n True x s = (rc, out, s')"
    using assms(2) file_wf_first [OF assms(1)] by (simp add: resolve_data_block_def)
  then show ?thesis
    using resolve_steps_grows [OF assms(1), of "[]" x xs n rc out s'] Cons by simp
next
  case Nil
  obtain r b t where a: "allocate_data_block FAT_END s = (r, b, t)"
    using prod_cases3 by blast
  show ?thesis
  proof (cases "r = FS_OK")
    case False
    then show ?thesis
      using grows_failed [OF a assms(1)] allocate_effect [OF a] assms a Nil file_wf_first(1) [OF assms(1)]
      by (auto simp: resolve_data_block_def file_wf_def)
  next
    case True
    let ?t = "set_first_block i b t"
    have g: "grows i s ?t" "entry_chain ?t i = [] @ [b]"
      using grows_first [OF a [unfolded True] assms(1) Nil] by auto
    note f = grows_file_wf [OF g(1) assms(1)]
    have "resolve_steps n True b ?t = (rc, out, s')"
      using assms(2) a True Nil file_wf_first(1) [OF assms(1)] file_wf_first(2) [OF f] g(2)
      by (simp add: resolve_data_block_def)
    then show ?thesis
      using resolve_steps_grows [OF f g(2)] grows_trans [OF g(1)] grows_steady [OF g(1)] by auto
  qed
qed

end
