(* ===== verification/OtfsFiles.thy ===== *)
theory OtfsFiles
  imports OtfsChains
begin

text \<open>
  The files of OTFS: the contents a mounted image holds, the invariant of the whole handle, and what
  opening, reading, writing and remounting do to the map from names to contents, for every schedule of
  failing calls of the host.
\<close>

subsection \<open>Overwriting\<close>

lemma overwrite_append: "off + length d \<le> length b \<Longrightarrow> overwrite off d b @ z = overwrite off d (b @ z)"
  by (simp add: overwrite_def)

lemma overwrite_shift: "overwrite (length x + off) d (x @ y) = x @ overwrite off d y"
  by (simp add: overwrite_def)

lemma overwrite_overwrite:
  "off + length d1 + length d2 \<le> length b \<Longrightarrow> overwrite (off + length d1) d2 (overwrite off d1 b) = overwrite off (d1 @ d2) b"
  by (rule nth_equalityI) (auto simp: overwrite_nth nth_append)

lemma overwrite_nil [simp]: "overwrite off [] b = b"
  by (simp add: overwrite_def)

lemma concat_overwrite:
  assumes "\<forall>x \<in> set xss. length x = m" "n < length xss" "r + length d \<le> m"
  shows "concat (xss[n := overwrite r d (xss ! n)]) = overwrite (n * m + r) d (concat xss)"
  using assms
proof (induction xss arbitrary: n)
  case (Cons x xss)
  show ?case
  proof (cases n)
    case 0
    then show ?thesis
      using Cons.prems overwrite_append [of r d x "concat xss"] by simp
  next
    case (Suc k)
    have "length x = m"
      using Cons.prems by simp
    then show ?thesis
      using Suc Cons overwrite_shift [of x "k * m + r" d "concat xss"] by (simp add: add.assoc)
  qed
qed simp

lemma slice_concat:
  assumes "\<forall>x \<in> set xss. length x = m" "n < length xss" "r + c \<le> m"
  shows "slice_at (n * m + r) c (concat xss) = slice_at r c (xss ! n)"
  using assms
proof (induction xss arbitrary: n)
  case (Cons x xss)
  then show ?case
    by (cases n) (auto simp: slice_at_def)
qed simp

lemma concat_const_length: "\<forall>x \<in> set xss. length x = m \<Longrightarrow> length (concat xss) = length xss * m"
  by (induction xss) auto

subsection \<open>The invariant\<close>

definition used :: "otfs \<Rightarrow> nat set" where
  "used s = {i. i < FS_MAX_FILES \<and> de_used (h_dir s ! i) \<noteq> 0}"

definition name_ok :: "fs_dir_entry_disk \<Rightarrow> bool" where
  "name_ok e \<longleftrightarrow> CHR 0x00 \<in> set (take (FS_MAX_NAME_LEN + 1) (de_name e)) \<and> validate_name (Some (c_text (de_name e))) = FS_OK"

definition names_wf :: "fs_dir_entry_disk list \<Rightarrow> bool" where
  "names_wf es \<longleftrightarrow> length es = FS_MAX_FILES \<and> (\<forall>i < FS_MAX_FILES. entry_ok (es ! i) \<and> (de_used (es ! i) \<noteq> 0 \<longrightarrow> name_ok (es ! i))) \<and>
     names_differ es"

definition open_wf :: "otfs \<Rightarrow> bool" where
  "open_wf s \<longleftrightarrow> length (h_open s) = FS_MAX_OPEN_FILES \<and>
     (\<forall>fd < FS_MAX_OPEN_FILES. f_in_use (h_open s ! fd) \<noteq> 0 \<longrightarrow> unat (f_dir_index (h_open s ! fd)) \<in> used s)"

definition chains_wf :: "otfs \<Rightarrow> bool" where
  "chains_wf s \<longleftrightarrow> fat_entries_valid (h_fat s) \<and>
     (\<forall>i \<in> used s. chain_ok (h_fat s) (de_first_block (h_dir s ! i)) (entry_chain s i)) \<and>
     (\<forall>i \<in> used s. \<forall>j \<in> used s. i \<noteq> j \<longrightarrow> set (entry_chain s i) \<inter> set (entry_chain s j) = {})"

definition otfs_wf :: "otfs \<Rightarrow> bool" where
  "otfs_wf s \<longleftrightarrow> h_mounted s \<noteq> 0 \<and> image_wf s \<and> superblock_ok (bytes_superblock (slice_at 0 FS_SUPERBLOCK_SIZE (image s))) \<and>
     names_wf (h_dir s) \<and> chains_wf s \<and> open_wf s"

lemma otfs_wf_file: "otfs_wf s \<Longrightarrow> i \<in> used s \<Longrightarrow> file_wf s i"
  by (auto simp: otfs_wf_def file_wf_def names_wf_def chains_wf_def used_def)

lemma chains_apart: "otfs_wf s \<Longrightarrow> i \<in> used s \<Longrightarrow> j \<in> used s \<Longrightarrow> i \<noteq> j \<Longrightarrow> x \<in> set (entry_chain s i) \<Longrightarrow> x \<notin> set (entry_chain s j)"
  unfolding otfs_wf_def chains_wf_def by blast

lemma names_wf_cong:
  assumes "names_wf es" "length es' = length es"
    and "\<And>k. k < FS_MAX_FILES \<Longrightarrow> de_used (es' ! k) = de_used (es ! k) \<and> de_name (es' ! k) = de_name (es ! k) \<and> entry_ok (es' ! k)"
  shows "names_wf es'"
proof -
  have "names_differ es' = names_differ es"
    unfolding names_differ_def using assms(3) by (auto simp: list_all_iff)
  then show ?thesis
    using assms by (simp add: names_wf_def name_ok_def)
qed

text \<open>Changing the numbers of an entry.\<close>

definition same_names :: "otfs \<Rightarrow> otfs \<Rightarrow> bool" where
  "same_names s s' \<longleftrightarrow> length (h_dir s') = length (h_dir s) \<and>
     (\<forall>k < length (h_dir s). de_used (h_dir s' ! k) = de_used (h_dir s ! k) \<and> de_name (h_dir s' ! k) = de_name (h_dir s ! k) \<and>
        (entry_ok (h_dir s ! k) \<longrightarrow> entry_ok (h_dir s' ! k)))"

lemma same_names_refl [simp]: "same_names s s"
  by (simp add: same_names_def)

lemma same_names_trans: "same_names s s' \<Longrightarrow> same_names s' s'' \<Longrightarrow> same_names s s''"
  by (simp add: same_names_def)

lemma same_names_entry:
  assumes "h_dir s' = (h_dir s)[i := v]" "de_used v = de_used (h_dir s ! i)" "de_name v = de_name (h_dir s ! i)"
    and "entry_ok (h_dir s ! i) \<longrightarrow> entry_ok v"
  shows "same_names s s'"
  unfolding same_names_def assms(1) using assms(2-4)
  by (cases "i < length (h_dir s)") (auto simp: nth_list_update list_update_beyond)

lemma same_names_wf: "same_names s s' \<Longrightarrow> names_wf (h_dir s) \<Longrightarrow> names_wf (h_dir s')"
  by (rule names_wf_cong) (auto simp: same_names_def names_wf_def)

lemma same_names_used: "same_names s s' \<Longrightarrow> names_wf (h_dir s) \<Longrightarrow> used s' = used s"
  by (auto simp: same_names_def names_wf_def used_def)

lemma same_names_find: "same_names s s' \<Longrightarrow> names_wf (h_dir s) \<Longrightarrow> find_dir_entry s' name = find_dir_entry s name"
  unfolding find_dir_entry_def
  by (rule find_index_from_cong) (auto simp: same_names_def names_wf_def)

lemma grows_same_names: "grows i s s' \<Longrightarrow> same_names s s'"
  unfolding grows_def by (elim conjE) (erule same_names_entry, simp_all add: entry_ok_def)

subsection \<open>Contents\<close>

definition file_bytes :: "otfs \<Rightarrow> nat \<Rightarrow> u8 list" where
  "file_bytes s i = concat (map (block_of s) (entry_chain s i))"

definition size_of :: "otfs \<Rightarrow> nat \<Rightarrow> nat" where
  "size_of s i = unat (de_size_bytes (h_dir s ! i))"

definition file_content :: "otfs \<Rightarrow> nat \<Rightarrow> u8 list" where
  "file_content s i = take (size_of s i) (file_bytes s i)"

text \<open>The files of a mounted image: its names, which are texts without NUL, and their contents.\<close>

definition otfs_files :: "otfs \<Rightarrow> string \<Rightarrow> u8 list option" where
  "otfs_files s name = (if CHR 0x00 \<in> set name then None else map_option (file_content s) (find_dir_entry s name))"

definition entry_name :: "otfs \<Rightarrow> nat \<Rightarrow> string" where
  "entry_name s i = c_text (de_name (h_dir s ! i))"

definition sized :: "otfs \<Rightarrow> nat \<Rightarrow> bool" where
  "sized s i \<longleftrightarrow> size_of s i \<le> length (file_bytes s i)"

lemma block_of_length: "valid_block_index x \<Longrightarrow> image_wf s \<Longrightarrow> length (block_of s x) = FS_BLOCK_SIZE"
  unfolding block_of_def using block_bounds [of x s] by simp

lemma file_blocks_length: "file_wf s i \<Longrightarrow> \<forall>b \<in> set (map (block_of s) (entry_chain s i)). length b = FS_BLOCK_SIZE"
  using block_of_length chain_ok_valid by (fastforce simp: file_wf_def)

lemma file_bytes_length: "file_wf s i \<Longrightarrow> length (file_bytes s i) = length (entry_chain s i) * FS_BLOCK_SIZE"
  unfolding file_bytes_def using concat_const_length [OF file_blocks_length] by simp

lemma file_bytes_bound: "file_wf s i \<Longrightarrow> length (file_bytes s i) < 2 ^ 32"
proof -
  assume f: "file_wf s i"
  have "length (entry_chain s i) \<le> FS_DATA_BLOCK_COUNT"
    using f chain_ok_length by (auto simp: file_wf_def)
  then show ?thesis
    using file_bytes_length [OF f] by (simp add: fs_layout)
qed

lemma file_slice:
  "file_wf s i \<Longrightarrow> off div FS_BLOCK_SIZE < length (entry_chain s i) \<Longrightarrow> off mod FS_BLOCK_SIZE + c \<le> FS_BLOCK_SIZE \<Longrightarrow>
   slice_at (off mod FS_BLOCK_SIZE) c (block_of s (entry_chain s i ! (off div FS_BLOCK_SIZE))) = slice_at off c (file_bytes s i)"
  unfolding file_bytes_def
  using slice_concat [OF file_blocks_length, of s i "off div FS_BLOCK_SIZE" "off mod FS_BLOCK_SIZE" c] by simp

text \<open>Growing a file adds zeros to its bytes and leaves the others alone.\<close>

lemma growsD:
  assumes "grows i s s'"
  shows "keeps s s'" "h_open s' = h_open s" "fat_entries_valid (h_fat s')" "j \<noteq> i \<Longrightarrow> h_dir s' ! j = h_dir s ! j"
    "valid_block_index x \<Longrightarrow> x \<notin> free_blocks s \<Longrightarrow> x \<notin> set (entry_chain s i) \<Longrightarrow> h_fat s' ! unat x = h_fat s ! unat x"
    "valid_block_index x \<Longrightarrow> x \<notin> free_blocks s \<Longrightarrow> block_of s' x = block_of s x"
    "de_size_bytes (h_dir s' ! i) = de_size_bytes (h_dir s ! i)"
proof -
  obtain b where b: "h_dir s' = (h_dir s)[i := (h_dir s ! i) \<lparr> de_first_block := b \<rparr>]"
    using assms unfolding grows_def by blast
  show "j \<noteq> i \<Longrightarrow> h_dir s' ! j = h_dir s ! j"
    by (simp add: b)
  show "de_size_bytes (h_dir s' ! i) = de_size_bytes (h_dir s ! i)"
    by (cases "i < length (h_dir s)") (simp_all add: b list_update_beyond)
qed (use assms in \<open>unfold grows_def, blast\<close>)+

lemma grows_others:
  assumes "grows i s s'" "otfs_wf s" "i \<in> used s" "j \<in> used s" "j \<noteq> i"
  shows "entry_chain s' j = entry_chain s j" "file_bytes s' j = file_bytes s j" "h_dir s' ! j = h_dir s ! j"
    "chain_ok (h_fat s') (de_first_block (h_dir s' ! j)) (entry_chain s' j)"
proof -
  note fj = otfs_wf_file [OF assms(2,4)]
  have d: "set (entry_chain s j) \<inter> set (entry_chain s i) = {}"
    using assms by (auto simp: otfs_wf_def chains_wf_def)
  have x: "valid_block_index x \<and> x \<notin> free_blocks s \<and> x \<notin> set (entry_chain s i)" if "x \<in> set (entry_chain s j)" for x
    using that d file_wf_not_free [OF fj] chain_ok_valid fj by (auto simp: file_wf_def)
  show h: "h_dir s' ! j = h_dir s ! j"
    by (rule growsD(4) [OF assms(1,5)])
  have "chain_ok (h_fat s) (de_first_block (h_dir s ! j)) (entry_chain s j)"
    using fj by (simp add: file_wf_def)
  then have c: "chain_ok (h_fat s') (de_first_block (h_dir s' ! j)) (entry_chain s j)"
    unfolding h by (rule chain_ok_cong) (use x growsD(5) [OF assms(1)] in blast)
  show e: "entry_chain s' j = entry_chain s j"
    using chain_eq [OF c] by (simp add: entry_chain_def)
  then show "chain_ok (h_fat s') (de_first_block (h_dir s' ! j)) (entry_chain s' j)"
    using c by simp
  have "block_of s' x = block_of s x" if "x \<in> set (entry_chain s j)" for x
    using x [OF that] growsD(6) [OF assms(1)] by blast
  then have "map (block_of s') (entry_chain s j) = map (block_of s) (entry_chain s j)"
    by simp
  then show "file_bytes s' j = file_bytes s j"
    unfolding file_bytes_def e by (rule arg_cong)
qed

lemma grows_bytes:
  assumes "grows i s s'" "file_wf s i"
  shows "\<exists>k. file_bytes s' i = file_bytes s i @ replicate k 0"
proof -
  obtain bs where bs: "chain_ok (h_fat s') (de_first_block (h_dir s' ! i)) (entry_chain s i @ bs)"
    "\<forall>x \<in> set bs. block_of s' x = zero_block"
    using assms(1) by (auto simp: grows_def)
  have "block_of s' x = block_of s x" if "x \<in> set (entry_chain s i)" for x
    using that growsD(6) [OF assms(1)] file_wf_not_free [OF assms(2)] assms(2) chain_ok_valid by (auto simp: file_wf_def)
  then have "map (block_of s') (entry_chain s i) = map (block_of s) (entry_chain s i)"
    by simp
  moreover have "concat (map (block_of s') bs) = replicate (length bs * FS_BLOCK_SIZE) 0"
    using bs(2) by (induction bs) (auto simp: zero_block_def replicate_add)
  moreover have "entry_chain s' i = entry_chain s i @ bs"
    using chain_eq [OF bs(1)] by (simp add: entry_chain_def)
  ultimately have "file_bytes s' i = file_bytes s i @ replicate (length bs * FS_BLOCK_SIZE) 0"
    unfolding file_bytes_def by (simp del: map_eq_conv)
  then show ?thesis
    by blast
qed

lemma keeps_superblock:
  "keeps s s' \<Longrightarrow> slice_at 0 FS_SUPERBLOCK_SIZE (image s') = slice_at 0 FS_SUPERBLOCK_SIZE (image s)"
proof -
  assume k: "keeps s s'"
  have "take FS_SUPERBLOCK_SIZE xs = take FS_SUPERBLOCK_SIZE (take FS_BLOCK_SIZE xs)" for xs :: "u8 list"
    by (simp add: fs_layout)
  then show ?thesis
    using k by (metis keeps_def slice_at_def drop_0)
qed

text \<open>Changing bytes only.\<close>

definition same_meta :: "otfs \<Rightarrow> otfs \<Rightarrow> bool" where
  "same_meta s s' \<longleftrightarrow> keeps s s' \<and> h_dir s' = h_dir s \<and> h_fat s' = h_fat s \<and> h_open s' = h_open s"

lemma same_meta_frame:
  assumes "same_meta s s'"
  shows "used s' = used s" "entry_chain s' i = entry_chain s i" "size_of s' i = size_of s i"
    "free_blocks s' = free_blocks s" "same_names s s'"
  using assms by (simp_all add: same_meta_def used_def entry_chain_def size_of_def free_blocks_def same_names_def)

lemma same_meta_wf: "same_meta s s' \<Longrightarrow> otfs_wf s \<Longrightarrow> otfs_wf s'"
  using keeps_superblock [of s s'] keeps_image_wf [of s s'] same_meta_frame [of s s']
  by (simp add: otfs_wf_def open_wf_def chains_wf_def) (simp add: same_meta_def keeps_def)

lemma grows_wf:
  assumes "grows i s s'" "otfs_wf s" "i \<in> used s"
  shows "otfs_wf s'" "used s' = used s"
proof -
  note n = grows_same_names [OF assms(1)]
  have nw: "names_wf (h_dir s)" "names_wf (h_dir s')"
    using assms(2) same_names_wf [OF n] by (auto simp: otfs_wf_def)
  show u: "used s' = used s"
    by (rule same_names_used [OF n nw(1)])
  note fi = otfs_wf_file [OF assms(2,3)]
  obtain bs where bs: "chain_ok (h_fat s') (de_first_block (h_dir s' ! i)) (entry_chain s i @ bs)" "set bs \<subseteq> free_blocks s"
    using assms(1) by (auto simp: grows_def)
  have ci: "entry_chain s' i = entry_chain s i @ bs"
    using chain_eq [OF bs(1)] by (simp add: entry_chain_def)
  have co: "entry_chain s' j = entry_chain s j" "chain_ok (h_fat s') (de_first_block (h_dir s' ! j)) (entry_chain s' j)"
    "set (entry_chain s j) \<inter> set (entry_chain s' i) = {}" if "j \<in> used s" "j \<noteq> i" for j
  proof -
    show "entry_chain s' j = entry_chain s j" "chain_ok (h_fat s') (de_first_block (h_dir s' ! j)) (entry_chain s' j)"
      using grows_others [OF assms that] by auto
    have "set (entry_chain s j) \<inter> set (entry_chain s i) = {}"
      using that assms by (auto simp: otfs_wf_def chains_wf_def)
    then show "set (entry_chain s j) \<inter> set (entry_chain s' i) = {}"
      using ci bs(2) file_wf_not_free [OF otfs_wf_file [OF assms(2) that(1)]] by auto
  qed
  have disj: "set (entry_chain s' j) \<inter> set (entry_chain s' k) = {}" if "j \<in> used s" "k \<in> used s" "j \<noteq> k" for j k
  proof (cases "j = i \<or> k = i")
    case True
    then show ?thesis
      using co(1,3) that by (metis Int_commute)
  next
    case False
    then show ?thesis
      using co that assms(2) by (auto simp: otfs_wf_def chains_wf_def)
  qed
  have ch: "chain_ok (h_fat s') (de_first_block (h_dir s' ! j)) (entry_chain s' j)" if "j \<in> used s" for j
    using co(2) bs(1) ci that by (cases "j = i") auto
  have fv: "fat_entries_valid (h_fat s')" and k: "keeps s s'" and o: "h_open s' = h_open s"
    using growsD [OF assms(1)] by auto
  have cw: "chains_wf s'"
    using fv ch disj unfolding chains_wf_def u by blast
  show "otfs_wf s'"
    using keeps_superblock [OF k] assms(2) cw nw(2) keeps_image_wf [OF k] k o u by (auto simp: otfs_wf_def open_wf_def keeps_def)
qed

subsection \<open>Names\<close>

lemma c_text_plain: "CHR 0x00 \<notin> set name \<Longrightarrow> c_text name = name"
  unfolding c_text_def by (rule takeWhile_eq_all_conv [THEN iffD2]) auto

lemma c_text_no_nul: "CHR 0x00 \<notin> set (c_text a)"
  by (auto simp: c_text_def dest: set_takeWhileD)

lemma validate_name_iff:
  "validate_name (Some name) = (if name \<noteq> [] \<and> length name \<le> FS_MAX_NAME_LEN \<and> CHR ''/'' \<notin> set name \<and> CHR 0x5c \<notin> set name
     then FS_OK else FS_ERR_ARG)"
  by (auto simp: validate_name_def list_ex_iff)

lemma name_ok_length: "name_ok e \<Longrightarrow> length (c_text (de_name e)) \<le> FS_MAX_NAME_LEN"
  by (auto simp: name_ok_def validate_name_iff split: if_splits)

lemma strncmp_eq_name:
  assumes "length (c_text a) \<le> FS_MAX_NAME_LEN"
  shows "strncmp_eq a b (FS_MAX_NAME_LEN + 1) \<longleftrightarrow> c_text a = c_text b"
proof (cases "length (c_text b) \<le> FS_MAX_NAME_LEN")
  case True
  then show ?thesis
    using assms by (simp add: strncmp_eq_def)
next
  case False
  then have "length (take (FS_MAX_NAME_LEN + 1) (c_text b)) = FS_MAX_NAME_LEN + 1"
    by simp
  moreover have "length (take (FS_MAX_NAME_LEN + 1) (c_text a)) \<le> FS_MAX_NAME_LEN"
    using assms by simp
  ultimately have "take (FS_MAX_NAME_LEN + 1) (c_text a) \<noteq> take (FS_MAX_NAME_LEN + 1) (c_text b)"
    by (metis Suc_eq_plus1 not_less_eq_eq order_refl)
  moreover have "c_text a \<noteq> c_text b"
    using assms False by metis
  ultimately show ?thesis
    unfolding strncmp_eq_def by blast
qed

lemma names_differ_pairs:
  "names_differ es \<longleftrightarrow> (\<forall>i j. i < j \<and> j < FS_MAX_FILES \<and> de_used (es ! i) \<noteq> 0 \<and> de_used (es ! j) \<noteq> 0 \<longrightarrow>
      \<not> strncmp_eq (de_name (es ! i)) (de_name (es ! j)) (FS_MAX_NAME_LEN + 1))"
  unfolding names_differ_def list_all_iff by force

lemma names_differ_iff:
  assumes "\<And>i. i < FS_MAX_FILES \<Longrightarrow> de_used (es ! i) \<noteq> 0 \<Longrightarrow> name_ok (es ! i)"
  shows "names_differ es \<longleftrightarrow> inj_on (\<lambda>i. c_text (de_name (es ! i))) {i. i < FS_MAX_FILES \<and> de_used (es ! i) \<noteq> 0}"
proof -
  have eq: "strncmp_eq (de_name (es ! i)) (de_name (es ! j)) (FS_MAX_NAME_LEN + 1) \<longleftrightarrow> c_text (de_name (es ! i)) = c_text (de_name (es ! j))"
    if "i < j" "j < FS_MAX_FILES" "de_used (es ! i) \<noteq> 0" for i j
    using strncmp_eq_name [OF name_ok_length [OF assms]] that by simp
  show ?thesis
  proof
    assume d: "names_differ es"
    show "inj_on (\<lambda>i. c_text (de_name (es ! i))) {i. i < FS_MAX_FILES \<and> de_used (es ! i) \<noteq> 0}"
    proof (rule inj_onI, clarify)
      fix i j
      assume "i < FS_MAX_FILES" "de_used (es ! i) \<noteq> 0" "j < FS_MAX_FILES" "de_used (es ! j) \<noteq> 0"
        "c_text (de_name (es ! i)) = c_text (de_name (es ! j))"
      then show "i = j"
        using d [unfolded names_differ_pairs, rule_format, of i j] d [unfolded names_differ_pairs, rule_format, of j i] eq [of i j] eq [of j i]
        by (cases i j rule: linorder_cases) simp_all
    qed
  next
    assume i: "inj_on (\<lambda>i. c_text (de_name (es ! i))) {i. i < FS_MAX_FILES \<and> de_used (es ! i) \<noteq> 0}"
    show "names_differ es"
      unfolding names_differ_pairs
    proof (intro allI impI)
      fix i j
      assume "i < j \<and> j < FS_MAX_FILES \<and> de_used (es ! i) \<noteq> 0 \<and> de_used (es ! j) \<noteq> 0"
      then show "\<not> strncmp_eq (de_name (es ! i)) (de_name (es ! j)) (FS_MAX_NAME_LEN + 1)"
        using inj_onD [OF i, of i j] eq [of i j] by auto
    qed
  qed
qed

lemma entry_name_inj: "names_wf (h_dir s) \<Longrightarrow> inj_on (entry_name s) (used s)"
  using names_differ_iff [of "h_dir s"] by (auto simp: names_wf_def entry_name_def [abs_def] used_def)

lemma find_dir_entry_iff:
  assumes "names_wf (h_dir s)" "CHR 0x00 \<notin> set name"
  shows "find_dir_entry s name = Some i \<longleftrightarrow> i \<in> used s \<and> entry_name s i = name"
proof -
  have eq: "strncmp_eq (de_name (h_dir s ! k)) name (FS_MAX_NAME_LEN + 1) \<longleftrightarrow> entry_name s k = name" if "k \<in> used s" for k
    using that assms strncmp_eq_name name_ok_length c_text_plain by (simp add: names_wf_def used_def entry_name_def)
  have "find_dir_entry s name = Some i \<longleftrightarrow> i \<in> used s \<and> entry_name s i = name \<and> (\<forall>j < i. \<not> (j \<in> used s \<and> entry_name s j = name))"
    using eq by (auto simp: find_dir_entry_def find_index_Some used_def)
  then show ?thesis
    using entry_name_inj [OF assms(1)] by (auto simp: inj_on_def)
qed

lemma otfs_files_iff:
  "names_wf (h_dir s) \<Longrightarrow> otfs_files s name = Some c \<longleftrightarrow> (\<exists>i \<in> used s. entry_name s i = name \<and> c = file_content s i)"
  using find_dir_entry_iff [of s name] c_text_no_nul by (auto simp: otfs_files_def entry_name_def)

lemma otfs_files_entry: "names_wf (h_dir s) \<Longrightarrow> i \<in> used s \<Longrightarrow> otfs_files s (entry_name s i) = Some (file_content s i)"
  by (auto simp: otfs_files_iff)

lemma same_names_entry_name: "same_names s s' \<Longrightarrow> names_wf (h_dir s) \<Longrightarrow> i \<in> used s \<Longrightarrow> entry_name s' i = entry_name s i"
  by (auto simp: same_names_def entry_name_def names_wf_def used_def)

text \<open>When only file \<open>i\<close> has changed.\<close>

lemma otfs_files_update:
  assumes "names_wf (h_dir s)" "same_names s s'" "i \<in> used s" "\<And>j. j \<in> used s \<Longrightarrow> j \<noteq> i \<Longrightarrow> file_content s' j = file_content s j"
  shows "otfs_files s' = (otfs_files s)(entry_name s i \<mapsto> file_content s' i)"
proof
  fix name
  have e: "i \<in> used s' \<longleftrightarrow> i \<in> used s" "i \<in> used s \<Longrightarrow> entry_name s' i = entry_name s i" for i
    using same_names_used [OF assms(2,1)] same_names_entry_name [OF assms(2,1)] by auto
  have n: "names_wf (h_dir s')"
    by (rule same_names_wf [OF assms(2,1)])
  show "otfs_files s' name = ((otfs_files s)(entry_name s i \<mapsto> file_content s' i)) name"
  proof (cases "otfs_files s' name")
    case None
    then have "\<not> (\<exists>j \<in> used s. entry_name s j = name)"
      using otfs_files_entry [OF n] e by fastforce
    then have "otfs_files s name = None" "name \<noteq> entry_name s i"
      using otfs_files_iff [OF assms(1), of name] assms(3) by (metis not_Some_eq, blast)
    then show ?thesis
      using None by simp
  next
    case (Some c)
    then obtain j where j: "j \<in> used s" "entry_name s j = name" "c = file_content s' j"
      using otfs_files_iff [OF n] e by auto
    then show ?thesis
      using Some assms(3,4) otfs_files_entry [OF assms(1) j(1)] entry_name_inj [OF assms(1)] by (cases "j = i") (auto simp: inj_on_def)
  qed
qed

lemma otfs_files_same:
  assumes "names_wf (h_dir s)" "same_names s s'" "\<And>j. j \<in> used s \<Longrightarrow> file_content s' j = file_content s j"
  shows "otfs_files s' = otfs_files s"
proof
  fix name
  have n: "names_wf (h_dir s')"
    by (rule same_names_wf [OF assms(2,1)])
  have "otfs_files s' name = Some c \<longleftrightarrow> otfs_files s name = Some c" for c
    unfolding otfs_files_iff [OF n] otfs_files_iff [OF assms(1)]
    using same_names_used [OF assms(2,1)] same_names_entry_name [OF assms(2,1)] assms(3) by auto
  then show "otfs_files s' name = otfs_files s name"
    by (metis not_Some_eq)
qed

end
