(* ===== verification/OtfsOps.thy ===== *)
theory OtfsOps
  imports OtfsFiles
begin

text \<open>
  Reading and writing OTFS files: the loops over blocks compute slices and overwrites of the byte list
  a file is.
\<close>

subsection \<open>Reading\<close>

text \<open>At most the offset of one descriptor has moved, and the host has counted calls.\<close>

definition moved :: "nat \<Rightarrow> otfs \<Rightarrow> otfs \<Rightarrow> bool" where
  "moved fd s s' \<longleftrightarrow> h_mounted s' = h_mounted s \<and> h_image_file s' = h_image_file s \<and> h_dir s' = h_dir s \<and> h_fat s' = h_fat s \<and>
     host_files (st_host s') = host_files (st_host s) \<and> io_faults (st_host s') = io_faults (st_host s) \<and>
     (\<exists>off. h_open s' = (h_open s)[fd := (h_open s ! fd) \<lparr> f_offset := off \<rparr>])"

lemma moved_refl [simp]: "moved fd s s"
  by (auto simp: moved_def intro!: exI [of _ "f_offset (h_open s ! fd)"])

lemma moved_trans: "moved fd s s' \<Longrightarrow> moved fd s' s'' \<Longrightarrow> moved fd s s''"
  by (cases "fd < length (h_open s)") (auto simp: moved_def list_update_beyond)

lemma moved_frame:
  assumes "moved fd s s'"
  shows "image s' = image s" "block_of s' x = block_of s x" "entry_chain s' i = entry_chain s i" "file_bytes s' i = file_bytes s i"
    "file_wf s' i = file_wf s i" "used s' = used s" "size_of s' i = size_of s i" "file_content s' i = file_content s i"
    "otfs_files s' = otfs_files s" "length (h_open s') = length (h_open s)" "steady s' = steady s"
proof -
  show i: "image s' = image s"
    using assms by (simp add: moved_def image_def get_file_def host_bytes_def)
  have d: "h_dir s' = h_dir s" "h_fat s' = h_fat s" "h_image_file s' = h_image_file s"
    using assms by (auto simp: moved_def)
  have b1: "block_of s' = block_of s" "entry_chain s' = entry_chain s"
    by (rule ext, simp add: block_of_def entry_chain_def i d)+
  then have b: "block_of s' = block_of s" "entry_chain s' = entry_chain s" "file_bytes s' = file_bytes s"
    by (simp_all add: file_bytes_def [abs_def])
  then show "block_of s' x = block_of s x" "entry_chain s' i = entry_chain s i" "file_bytes s' i = file_bytes s i"
    by simp_all
  show "size_of s' i = size_of s i" "used s' = used s" "file_wf s' i = file_wf s i"
    using d b i by (simp_all add: size_of_def used_def file_wf_def image_wf_def)
  have "file_content s' = file_content s" "find_dir_entry s' = find_dir_entry s"
    by (rule ext, simp add: file_content_def size_of_def find_dir_entry_def b d)+
  then show "file_content s' i = file_content s i" "otfs_files s' = otfs_files s"
    by (simp_all add: otfs_files_def [abs_def] cong: if_cong)
  show "length (h_open s') = length (h_open s)" "steady s' = steady s"
    using assms by (auto simp: moved_def steady_def)
qed

lemma moved_wf:
  assumes "moved fd s s'" "otfs_wf s"
  shows "otfs_wf s'"
proof -
  obtain off where o: "h_open s' = (h_open s)[fd := (h_open s ! fd) \<lparr> f_offset := off \<rparr>]"
    using assms(1) by (auto simp: moved_def)
  have "f_in_use (h_open s' ! k) = f_in_use (h_open s ! k) \<and> f_dir_index (h_open s' ! k) = f_dir_index (h_open s ! k)" for k
    by (cases "fd < length (h_open s)") (simp_all add: o nth_list_update list_update_beyond)
  moreover have "h_dir s' = h_dir s" "h_fat s' = h_fat s" "h_image_file s' = h_image_file s" "h_mounted s' = h_mounted s"
    using assms(1) by (auto simp: moved_def)
  ultimately show ?thesis
    using assms(2) moved_frame(1,3,6,10) [OF assms(1)]
    by (simp add: otfs_wf_def open_wf_def chains_wf_def image_wf_def)
qed

lemma read_block:
  assumes "read_data_block x s = (rc, b, s')" "valid_block_index x" "image_wf s"
  shows "moved fd s s'" "h_open s' = h_open s" "rc = FS_OK \<and> b = block_of s x \<or> rc = FS_ERR_IO \<and> \<not> steady s"
  using assms block_bounds [OF assms(2,3)]
  by (auto simp: read_data_block_def seek_and_read_def io_step_def moved_def block_of_def image_def steady_def host_bytes_def
      intro!: exI [of _ "f_offset (h_open s ! fd)"] split: if_splits)

lemma set_offset_moved: "moved fd s (set_offset fd off s)"
  by (auto simp: moved_def set_offset_def)

lemma div_block_less: "off + c \<le> n * FS_BLOCK_SIZE \<Longrightarrow> 0 < c \<Longrightarrow> off div FS_BLOCK_SIZE < n"
  by (metis (no_types, lifting) FS_BLOCK_SIZE_def add_leE less_add_same_cancel1 less_le_trans less_mult_imp_div_less)

lemma read_chunk_slice:
  assumes "read_chunk fd i c s = (rc, b, s')" "file_wf s i" "off = unat (f_offset (h_open s ! fd))"
    and "off + c \<le> length (file_bytes s i)" "off mod FS_BLOCK_SIZE + c \<le> FS_BLOCK_SIZE" "0 < c" "fd < length (h_open s)"
  shows "moved fd s s'"
    "rc = FS_OK \<and> b = slice_at off c (file_bytes s i) \<and> unat (f_offset (h_open s' ! fd)) = off + c \<or> rc = FS_ERR_IO \<and> \<not> steady s"
proof -
  let ?n = "off div FS_BLOCK_SIZE"
  let ?x = "entry_chain s i ! ?n"
  have n: "?n < length (entry_chain s i)"
    using div_block_less assms(4,6) file_bytes_length [OF assms(2)] by simp
  then have x: "valid_block_index ?x" and w: "image_wf s"
    using assms(2) chain_ok_valid by (auto simp: file_wf_def)
  obtain r out t where "resolve_data_block i ?n False s = (r, out, t)"
    using prod_cases3 by blast
  then have r: "resolve_data_block i ?n False s = (FS_OK, ?x, s)"
    using resolve_read [OF assms(2)] n by auto
  obtain r2 blk u where u: "read_data_block ?x s = (r2, blk, u)"
    using prod_cases3 by blast
  note rb = read_block [OF u x w]
  have "unat (f_offset (h_open s ! fd) + word_of_nat c) = off + c"
    using assms(3,4) file_bytes_bound [OF assms(2)] by (simp add: unat_word_ariths unat_of_nat)
  then have *: "unat (f_offset (h_open (set_offset fd (f_offset (h_open s ! fd) + word_of_nat c) u) ! fd)) = off + c"
    using assms(7) rb(2) by (simp add: set_offset_def)
  have run: "(rc, b, s') = (if r2 \<noteq> FS_OK then (FS_ERR_IO, [], u)
      else (FS_OK, slice_at (off mod FS_BLOCK_SIZE) c blk, set_offset fd (f_offset (h_open s ! fd) + word_of_nat c) u))"
    using assms(1,3) r u by (cases "r2 = FS_OK") (simp_all add: read_chunk_def Let_def)
  show "moved fd s s'"
    using run rb(1) [of fd] moved_trans [OF rb(1) set_offset_moved] by (auto split: if_splits)
  show "rc = FS_OK \<and> b = slice_at off c (file_bytes s i) \<and> unat (f_offset (h_open s' ! fd)) = off + c \<or> rc = FS_ERR_IO \<and> \<not> steady s"
    using run rb(3) * file_slice [OF assms(2) n assms(5)] by (auto split: if_splits)
qed

lemma slice_at_join: "slice_at off a xs @ slice_at (off + a) b xs = slice_at off (a + b) xs"
  by (simp add: slice_at_def take_add add.commute)

lemma chunk_in_block: "unat off mod FS_BLOCK_SIZE + chunk_size off left \<le> FS_BLOCK_SIZE"
  using mod_less_divisor [of FS_BLOCK_SIZE "unat off"] by (simp add: chunk_size_def FS_BLOCK_SIZE_def)

lemma read_loop_slice:
  assumes "read_loop fd i len copied buf s = (rc, b, s')" "file_wf s i" "fd < length (h_open s)" "copied \<le> len"
    and "off = unat (f_offset (h_open s ! fd))" "off + (len - copied) \<le> length (file_bytes s i)"
  shows "moved fd s s' \<and> (rc = FS_OK \<and> b = buf @ slice_at off (len - copied) (file_bytes s i) \<and>
      unat (f_offset (h_open s' ! fd)) = off + (len - copied) \<or> rc = FS_ERR_IO \<and> \<not> steady s)"
  using assms
proof (induction fd i len copied buf s arbitrary: off rule: read_loop.induct)
  case (1 fd i len copied buf s)
  show ?case
  proof (cases "copied < len")
    case False
    then show ?thesis
      using "1.prems" by (simp add: read_loop.simps [of fd i len len buf s] slice_at_def)
  next
    case True
    let ?c = "chunk_size (f_offset (h_open s ! fd)) (len - copied)"
    obtain r d t where t: "read_chunk fd i ?c s = (r, d, t)"
      using prod_cases3 by blast
    have c: "0 < ?c" "?c \<le> len - copied" "off mod FS_BLOCK_SIZE + ?c \<le> FS_BLOCK_SIZE" "off + ?c \<le> length (file_bytes s i)"
      using True chunk_size_pos chunk_size_le [of "f_offset (h_open s ! fd)" "len - copied"] chunk_in_block
        "1.prems"(5,6) by auto
    note rc = read_chunk_slice [OF t "1.prems"(2,5) c(4,3,1) "1.prems"(3)]
    note m = moved_frame [OF rc(1)]
    have step: "read_loop fd i len copied buf s = (if r \<noteq> FS_OK then (r, buf, t) else read_loop fd i len (copied + ?c) (buf @ d) t)"
      by (subst read_loop.simps) (simp add: True t)
    show ?thesis
    proof (cases "r = FS_OK")
      case False
      then show ?thesis
        using rc "1.prems"(1) step by auto
    next
      case ok: True
      then have "read_loop fd i len (copied + ?c) (buf @ d) t = (rc, b, s')"
        using "1.prems"(1) step by simp
      then have "moved fd t s' \<and> (rc = FS_OK \<and> b = (buf @ d) @ slice_at (off + ?c) (len - (copied + ?c)) (file_bytes s i) \<and>
          unat (f_offset (h_open s' ! fd)) = off + ?c + (len - (copied + ?c)) \<or> rc = FS_ERR_IO \<and> \<not> steady s)"
        using "1.IH" [OF True refl t [symmetric] refl, where off = "off + ?c"] ok rc "1.prems" m c by simp
      then show ?thesis
        using rc ok c moved_trans [OF rc(1)] slice_at_join [of off ?c "file_bytes s i" "len - (copied + ?c)"] by auto
    qed
  qed
qed

lemma moved_offset:
  "moved fd s s' \<Longrightarrow> fd < length (h_open s) \<Longrightarrow> h_open s' = (h_open s)[fd := (h_open s ! fd) \<lparr> f_offset := f_offset (h_open s' ! fd) \<rparr>]"
  by (auto simp: moved_def)

lemma fs_read_effect:
  assumes "otfs_wf s" "sized s i" "fd < FS_MAX_OPEN_FILES" "f_in_use (h_open s ! fd) \<noteq> 0"
    and "and (f_flags (h_open s ! fd)) FS_O_READ \<noteq> 0" "i = unat (f_dir_index (h_open s ! fd))"
    and "fs_read (int fd) len s = (rc, buf, n, s')" "off = unat (f_offset (h_open s ! fd))"
  shows "otfs_wf s' \<and> otfs_files s' = otfs_files s \<and>
    h_open s' = (h_open s)[fd := (h_open s ! fd) \<lparr> f_offset := f_offset (h_open s' ! fd) \<rparr>] \<and>
    (rc = FS_OK \<and> buf = take len (drop off (file_content s i)) \<and> n = length buf \<and> unat (f_offset (h_open s' ! fd)) = off + n \<or>
     rc = FS_ERR_IO \<and> n = 0 \<and> \<not> steady s)"
proof -
  let ?size = "de_size_bytes (h_dir s ! i)"
  have o: "open_wf s" "h_mounted s \<noteq> 0"
    using assms(1) by (auto simp: otfs_wf_def)
  then have i: "i \<in> used s" "fd < length (h_open s)"
    using assms(3,4,6) by (auto simp: open_wf_def)
  note f = otfs_wf_file [OF assms(1) i(1)]
  have v: "validate_common s = FS_OK" "valid_fd (int fd)"
    using o(2) assms(3) by (auto simp: validate_common_def valid_fd_def)
  show ?thesis
  proof (cases "?size \<le> f_offset (h_open s ! fd) \<or> len = 0")
    case True
    then have "rc = FS_OK" "buf = []" "n = 0" "s' = s"
      using assms(4-7) v by (auto simp: fs_read_def Let_def)
    then show ?thesis
      using True assms(1,8) by (auto simp: file_content_def size_of_def word_le_nat_alt)
  next
    case False
    let ?len = "min len (unat (?size - f_offset (h_open s ! fd)))"
    have size: "off < size_of s i" "unat (?size - f_offset (h_open s ! fd)) = size_of s i - off"
      using False assms(8) by (auto simp: size_of_def word_le_nat_alt unat_sub)
    obtain r b t where t: "read_loop fd i ?len 0 [] s = (r, b, t)"
      using prod_cases3 by blast
    have "off + (?len - 0) \<le> length (file_bytes s i)"
      using assms(2) size by (simp add: sized_def)
    note rl = read_loop_slice [OF t f i(2) _ assms(8) this, simplified]
    have "slice_at off ?len (file_bytes s i) = take len (drop off (file_content s i))"
      using size by (simp add: slice_at_def file_content_def drop_take)
    moreover have "length (slice_at off ?len (file_bytes s i)) = ?len"
      using assms(2) size by (intro slice_at_length) (simp add: sized_def)
    moreover have "(rc, buf, n, s') = (if r \<noteq> FS_OK then (r, b, 0, t) else (FS_OK, b, ?len, t))"
      using assms(4-7) v False t by (cases "r = FS_OK") (simp_all add: fs_read_def Let_def)
    ultimately show ?thesis
      using rl moved_wf [OF _ assms(1), of fd t] moved_frame(9) [of fd s t] moved_offset [of fd s t, OF _ i(2)] by (auto split: if_splits)
  qed
qed

text \<open>
  C17: Reading a file: with a descriptor open for reading, \<open>fs_read\<close> returns exactly the bytes of the
  file from the offset on, as many as asked for or as there are, and moves the offset behind
  them; at or beyond the end of the file it returns none. It changes no file, and it fails only
  when a call of the host fails, with no bytes reported.
\<close>

theorem fs_read_spec:
  assumes "otfs_wf s" "sized s i" "fd < FS_MAX_OPEN_FILES" "f_in_use (h_open s ! fd) \<noteq> 0"
    and "and (f_flags (h_open s ! fd)) FS_O_READ \<noteq> 0" "i = unat (f_dir_index (h_open s ! fd))"
    and "fs_read (int fd) len s = (rc, buf, n, s')" "off = unat (f_offset (h_open s ! fd))"
  shows "otfs_wf s' \<and> otfs_files s' = otfs_files s \<and>
    h_open s' = (h_open s)[fd := (h_open s ! fd) \<lparr> f_offset := f_offset (h_open s' ! fd) \<rparr>] \<and>
    (rc = FS_OK \<and> buf = take len (drop off (file_content s i)) \<and> n = length buf \<and> unat (f_offset (h_open s' ! fd)) = off + n \<or>
     rc = FS_ERR_IO \<and> n = 0 \<and> \<not> steady s)"
  by (rule fs_read_effect [OF assms])

subsection \<open>Writing\<close>

text \<open>Only file \<open>i\<close> changes, its size not yet, and only descriptor \<open>fd\<close> moves.\<close>

definition writes :: "nat \<Rightarrow> nat \<Rightarrow> otfs \<Rightarrow> otfs \<Rightarrow> bool" where
  "writes fd i s s' \<longleftrightarrow> keeps s s' \<and> otfs_wf s' \<and> same_names s s' \<and> used s' = used s \<and>
     (\<forall>j \<in> used s. size_of s' j = size_of s j \<and> (j \<noteq> i \<longrightarrow> file_bytes s' j = file_bytes s j)) \<and>
     length (file_bytes s i) \<le> length (file_bytes s' i) \<and>
     (\<exists>off. h_open s' = (h_open s)[fd := (h_open s ! fd) \<lparr> f_offset := off \<rparr>])"

lemma writes_refl: "otfs_wf s \<Longrightarrow> writes fd i s s"
  by (auto simp: writes_def intro!: exI [of _ "f_offset (h_open s ! fd)"])

lemma writes_trans:
  assumes "writes fd i s s'" "writes fd i s' s''"
  shows "writes fd i s s''"
proof -
  obtain a b where "h_open s' = (h_open s)[fd := (h_open s ! fd) \<lparr> f_offset := a \<rparr>]"
    "h_open s'' = (h_open s')[fd := (h_open s' ! fd) \<lparr> f_offset := b \<rparr>]"
    using assms unfolding writes_def by blast
  then have "h_open s'' = (h_open s)[fd := (h_open s ! fd) \<lparr> f_offset := b \<rparr>]"
    by (cases "fd < length (h_open s)") (simp_all add: list_update_beyond)
  then show ?thesis
    using assms keeps_trans [of s s' s''] same_names_trans [of s s' s''] by (auto simp: writes_def)
qed

lemma moved_keeps: "moved fd s s' \<Longrightarrow> keeps s s'"
  using moved_frame(1) [of fd s s'] by (auto simp: moved_def keeps_def)

lemma moved_writes:
  assumes "moved fd s s'" "otfs_wf s"
  shows "writes fd i s s'"
  using moved_frame [OF assms(1)] moved_wf [OF assms] moved_keeps [OF assms(1)] assms(1)
  by (simp add: writes_def same_names_def) (simp add: moved_def)

lemma grows_writes:
  assumes "grows i s s'" "otfs_wf s" "i \<in> used s"
  shows "writes fd i s s'"
proof -
  note g = growsD [OF assms(1)]
  have "size_of s' j = size_of s j" for j
    using g(4) [of j] g(7) by (cases "j = i") (simp_all add: size_of_def)
  then show ?thesis
    using g(1,2) grows_wf [OF assms] grows_same_names [OF assms(1)] grows_others [OF assms]
      grows_bytes [OF assms(1) otfs_wf_file [OF assms(2,3)]]
    by (auto simp: writes_def intro!: exI [of _ "f_offset (h_open s ! fd)"])
qed

lemma put_block:
  assumes "otfs_wf s" "i \<in> used s" "n < length (entry_chain s i)" "x = entry_chain s i ! n" "r + length d \<le> FS_BLOCK_SIZE"
    and "write_data_block x (overwrite r d (block_of s x)) s = (rc, s')"
  shows "writes fd i s s'" "same_meta s s'"
    "rc = FS_OK \<and> file_bytes s' i = overwrite (n * FS_BLOCK_SIZE + r) d (file_bytes s i) \<or> rc = FS_ERR_IO \<and> \<not> steady s"
proof -
  note f = otfs_wf_file [OF assms(1,2)]
  have c: "chain_ok (h_fat s) (de_first_block (h_dir s ! i)) (entry_chain s i)" "image_wf s"
    using f by (auto simp: file_wf_def)
  have x: "x \<in> set (entry_chain s i)" "valid_block_index x"
    using assms(3,4) chain_ok_valid [OF c(1)] by auto
  have l: "length (overwrite r d (block_of s x)) = FS_BLOCK_SIZE"
    using block_of_length [OF x(2) c(2)] assms(5) by simp
  note w = write_block [OF _ l x(2) c(2), of rc s']
  have run: "fs_seek_and_write (block_offset (FS_DATA_START_BLOCK + unat x)) (overwrite r d (block_of s x)) s = (rc, s')"
    using assms(6) x(2) by (simp add: write_data_block_def)
  show m: "same_meta s s'"
    using w(1,2) [OF run] unfolding same_meta_def by (metis fs_handle.simps(6-8) otfs.surjective otfs.update_convs(1))
  have others: "file_bytes s' j = file_bytes s j" if "j \<in> used s" "j \<noteq> i" for j
  proof -
    have "y \<noteq> x \<and> valid_block_index y" if "y \<in> set (entry_chain s j)" for y
      using that chains_apart [OF assms(1,2) \<open>j \<in> used s\<close> _ x(1)] \<open>j \<noteq> i\<close> chain_ok_valid
        otfs_wf_file [OF assms(1) \<open>j \<in> used s\<close>] by (auto simp: file_wf_def)
    then have "map (block_of s') (entry_chain s j) = map (block_of s) (entry_chain s j)"
      using w(5) [OF run] by simp
    then show ?thesis
      unfolding file_bytes_def same_meta_frame(2) [OF m] by (rule arg_cong)
  qed
  have len: "length (file_bytes s' i) = length (file_bytes s i)"
    using file_bytes_length [OF f] file_bytes_length [OF otfs_wf_file [OF same_meta_wf [OF m assms(1)]]] same_meta_frame [OF m] assms(2)
    by simp
  show "writes fd i s s'"
    using m others len same_meta_wf [OF m assms(1)] same_meta_frame [OF m]
    by (auto simp: writes_def same_meta_def intro!: exI [of _ "f_offset (h_open s ! fd)"])
  have "file_bytes s' i = overwrite (n * FS_BLOCK_SIZE + r) d (file_bytes s i)" if ok: "rc = FS_OK"
  proof -
    have "map (block_of s') (entry_chain s i) = (map (block_of s) (entry_chain s i))[n := overwrite r d (map (block_of s) (entry_chain s i) ! n)]"
    proof (rule nth_equalityI)
      fix k
      assume "k < length (map (block_of s') (entry_chain s i))"
      then have k: "k < length (entry_chain s i)" "entry_chain s i ! k = x \<longleftrightarrow> k = n" "valid_block_index (entry_chain s i ! k)"
        using assms(3,4) chain_ok_distinct [OF c(1)] chain_ok_valid [OF c(1)] nth_eq_iff_index_eq by auto
      then show "map (block_of s') (entry_chain s i) ! k =
          (map (block_of s) (entry_chain s i))[n := overwrite r d (map (block_of s) (entry_chain s i) ! n)] ! k"
        using w(4) [OF run ok] w(5) [OF run] assms(3,4) by (cases "k = n") (auto simp: nth_list_update)
    qed simp
    then show ?thesis
      unfolding file_bytes_def same_meta_frame(2) [OF m]
      using concat_overwrite [OF file_blocks_length [OF f], of n r d] assms(3,5) by simp
  qed
  then show "rc = FS_OK \<and> file_bytes s' i = overwrite (n * FS_BLOCK_SIZE + r) d (file_bytes s i) \<or> rc = FS_ERR_IO \<and> \<not> steady s"
    using w(3) [OF run] by blast
qed

lemma chunk_fits:
  "off div FS_BLOCK_SIZE < n \<Longrightarrow> off mod FS_BLOCK_SIZE + c \<le> FS_BLOCK_SIZE \<Longrightarrow> off + c \<le> n * FS_BLOCK_SIZE"
proof -
  assume n: "off div FS_BLOCK_SIZE < n" and c: "off mod FS_BLOCK_SIZE + c \<le> FS_BLOCK_SIZE"
  have "off + c = off div FS_BLOCK_SIZE * FS_BLOCK_SIZE + (off mod FS_BLOCK_SIZE + c)"
    by simp
  also have "\<dots> \<le> off div FS_BLOCK_SIZE * FS_BLOCK_SIZE + FS_BLOCK_SIZE"
    using c by (rule add_left_mono)
  also have "\<dots> \<le> n * FS_BLOCK_SIZE"
    using n by (metis Suc_leI add.commute mult_Suc mult_le_mono1)
  finally show ?thesis .
qed

lemma store_chunk_overwrite:
  assumes "store_chunk fd x (f_offset (h_open t ! fd)) d t = (rc, s')" "otfs_wf t" "i \<in> used t" "off = unat (f_offset (h_open t ! fd))"
    and "off div FS_BLOCK_SIZE < length (entry_chain t i)" "x = entry_chain t i ! (off div FS_BLOCK_SIZE)"
    and "off mod FS_BLOCK_SIZE + length d \<le> FS_BLOCK_SIZE" "fd < length (h_open t)"
  shows "writes fd i t s'"
    "rc = FS_OK \<and> unat (f_offset (h_open s' ! fd)) = off + length d \<and> off + length d \<le> length (file_bytes t i) \<and>
       file_bytes s' i = overwrite off d (file_bytes t i) \<or> rc = FS_ERR_IO \<and> \<not> steady t"
proof -
  note ft = otfs_wf_file [OF assms(2,3)]
  have v: "valid_block_index x" "image_wf t"
    using assms(5,6) ft chain_ok_valid by (auto simp: file_wf_def)
  obtain r2 blk u where u: "read_data_block x t = (r2, blk, u)"
    using prod_cases3 by blast
  note rb = read_block [OF u v]
  note um = moved_frame [OF rb(1)] and uw = moved_wf [OF rb(1) assms(2)]
  have iu: "i \<in> used u" and xu: "off div FS_BLOCK_SIZE < length (entry_chain u i)" "x = entry_chain u i ! (off div FS_BLOCK_SIZE)"
    using um(3,6) assms(3,5,6) by auto
  obtain r3 w where w: "write_data_block x (overwrite (off mod FS_BLOCK_SIZE) d (block_of u x)) u = (r3, w)"
    by force
  note pb = put_block [OF uw iu xu assms(7) w]
  let ?s = "set_offset fd (f_offset (h_open t ! fd) + word_of_nat (length d)) w"
  have run: "(rc, s') = (if r2 \<noteq> FS_OK then (FS_ERR_IO, u) else if r3 \<noteq> FS_OK then (FS_ERR_IO, w) else (FS_OK, ?s))"
    using assms(1,4) u w rb(3) um(2) by (cases "r2 = FS_OK"; cases "r3 = FS_OK") (simp_all add: store_chunk_def Let_def overwrite_def)
  have len: "off + length d \<le> length (file_bytes t i)"
    using chunk_fits [OF assms(5,7)] file_bytes_length [OF ft] by simp
  have "unat (f_offset (h_open t ! fd) + word_of_nat (length d)) = off + length d"
    using len assms(4) file_bytes_bound [OF ft] by (simp add: unat_word_ariths unat_of_nat)
  moreover have ww: "writes fd i t w" "otfs_wf w"
    using writes_trans [OF moved_writes [OF rb(1) assms(2)] pb(1)] pb(1) by (auto simp: writes_def)
  moreover from ww(1) have "fd < length (h_open w)"
    using assms(8) by (auto simp: writes_def)
  ultimately have o: "unat (f_offset (h_open ?s ! fd)) = off + length d"
    by (simp add: set_offset_def)
  show "writes fd i t s'"
    using run ww(1) moved_writes [OF rb(1) assms(2)] writes_trans [OF ww(1) moved_writes [OF set_offset_moved ww(2)]]
    by (auto split: if_splits)
  show "rc = FS_OK \<and> unat (f_offset (h_open s' ! fd)) = off + length d \<and> off + length d \<le> length (file_bytes t i) \<and>
       file_bytes s' i = overwrite off d (file_bytes t i) \<or> rc = FS_ERR_IO \<and> \<not> steady t"
    using run rb(3) pb(3) um(4,11) o len moved_frame(4) [OF set_offset_moved] by (auto split: if_splits)
qed

lemma write_chunk_overwrite:
  assumes "write_chunk fd i d s = (rc, s')" "otfs_wf s" "i \<in> used s" "off = unat (f_offset (h_open s ! fd))"
    and "off mod FS_BLOCK_SIZE + length d \<le> FS_BLOCK_SIZE" "fd < length (h_open s)"
  shows "writes fd i s s'"
    "rc = FS_OK \<and> unat (f_offset (h_open s' ! fd)) = off + length d \<and>
       (\<exists>k. off + length d \<le> length (file_bytes s i) + k \<and> file_bytes s' i = overwrite off d (file_bytes s i @ replicate k 0)) \<or>
     rc = FS_ERR_NO_SPACE \<and> (steady s \<longrightarrow> free_blocks s' = {}) \<or> rc = FS_ERR_IO \<and> \<not> steady s"
proof -
  note f = otfs_wf_file [OF assms(2,3)]
  obtain r x t where t: "resolve_data_block i (off div FS_BLOCK_SIZE) True s = (r, x, t)"
    using prod_cases3 by blast
  note res = resolve_write [OF f t]
  then have g: "grows i s t" by blast
  note tw = grows_writes [OF g assms(2,3), of fd] and twf = grows_wf [OF g assms(2,3)]
  have o: "h_open t = h_open s"
    by (rule growsD(2) [OF g])
  have run: "(rc, s') = (if r = FS_OK then store_chunk fd x (f_offset (h_open t ! fd)) d t else (if r = FS_ERR_NO_SPACE then FS_ERR_NO_SPACE else FS_ERR_STATE, t))"
    using assms(1,4) t o by (auto simp: write_chunk_def split: if_splits)
  obtain k where k: "file_bytes t i = file_bytes s i @ replicate k 0"
    using grows_bytes [OF g f] by blast
  have st: "writes fd i t s'" "rc = FS_OK \<and> unat (f_offset (h_open s' ! fd)) = off + length d \<and> off + length d \<le> length (file_bytes t i) \<and>
       file_bytes s' i = overwrite off d (file_bytes t i) \<or> rc = FS_ERR_IO \<and> \<not> steady t" if "r = FS_OK"
    using store_chunk_overwrite [of fd x t d rc s' i off] run that res twf assms(3-6) o by auto
  show "writes fd i s s'"
    using run tw st(1) writes_trans [OF tw] by (auto split: if_splits)
  show "rc = FS_OK \<and> unat (f_offset (h_open s' ! fd)) = off + length d \<and>
       (\<exists>k. off + length d \<le> length (file_bytes s i) + k \<and> file_bytes s' i = overwrite off d (file_bytes s i @ replicate k 0)) \<or>
     rc = FS_ERR_NO_SPACE \<and> (steady s \<longrightarrow> free_blocks s' = {}) \<or> rc = FS_ERR_IO \<and> \<not> steady s"
    using run st(2) res k grows_steady [OF g] by (auto split: if_splits)
qed

lemma overwrite_step:
  assumes "off + length d1 \<le> length fb + k" "d2 \<noteq> [] \<Longrightarrow> off + length d1 + length d2 \<le> length fb + k + k2"
  shows "overwrite (off + length d1) d2 (overwrite off d1 (fb @ replicate k 0) @ replicate k2 0) =
    overwrite off (d1 @ d2) (fb @ replicate (k + k2) (0 :: u8))"
proof -
  have "overwrite off d1 (fb @ replicate k 0) @ replicate k2 0 = overwrite off d1 (fb @ replicate (k + k2) 0)"
    using assms(1) overwrite_append [of off d1 "fb @ replicate k 0" "replicate k2 0"] by (simp add: replicate_add)
  moreover have "off + length d1 + length d2 \<le> length (fb @ replicate (k + k2) (0 :: u8))"
    using assms by (cases "d2 = []") auto
  ultimately show ?thesis
    using overwrite_overwrite by metis
qed

lemma write_loop_overwrite:
  assumes "write_loop fd i buf copied s = (rc, n, s')" "otfs_wf s" "i \<in> used s" "fd < length (h_open s)" "copied \<le> length buf"
    and "off = unat (f_offset (h_open s ! fd))"
  shows "writes fd i s s' \<and>
    (rc = FS_OK \<and> n = length buf \<and> unat (f_offset (h_open s' ! fd)) = off + (length buf - copied) \<and>
       (\<exists>k. (copied < length buf \<longrightarrow> off + (length buf - copied) \<le> length (file_bytes s i) + k) \<and>
          file_bytes s' i = overwrite off (drop copied buf) (file_bytes s i @ replicate k 0)) \<or>
     rc = FS_ERR_NO_SPACE \<and> (steady s \<longrightarrow> free_blocks s' = {}) \<or> rc = FS_ERR_IO \<and> \<not> steady s)"
  using assms
proof (induction fd i buf copied s arbitrary: off rule: write_loop.induct)
  case (1 fd i buf copied s)
  show ?case
  proof (cases "copied < length buf")
    case False
    then have "copied = length buf" "rc = FS_OK" "n = length buf" "s' = s"
      using "1.prems"(1,5) by (simp_all add: write_loop.simps [of fd i buf "length buf" s])
    then show ?thesis
      using writes_refl [OF "1.prems"(2)] "1.prems"(6) by (auto intro!: exI [of _ 0])
  next
    case True
    let ?c = "chunk_size (f_offset (h_open s ! fd)) (length buf - copied)"
    let ?d = "slice_at copied ?c buf"
    obtain r t where t: "write_chunk fd i ?d s = (r, t)" by force
    have c: "0 < ?c" "?c \<le> length buf - copied"
      using True chunk_size_pos chunk_size_le [of "f_offset (h_open s ! fd)" "length buf - copied"] by auto
    then have d: "length ?d = ?c" "drop copied buf = ?d @ drop (copied + ?c) buf"
      by (simp add: slice_at_def) (simp add: slice_at_def, metis add.commute append_take_drop_id drop_drop)
    have m: "off mod FS_BLOCK_SIZE + length ?d \<le> FS_BLOCK_SIZE"
      using chunk_in_block "1.prems"(6) d(1) by simp
    note wc = write_chunk_overwrite [OF t "1.prems"(2,3,6) m "1.prems"(4)]
    have step: "write_loop fd i buf copied s = (if r \<noteq> FS_OK then (r, copied, t) else write_loop fd i buf (copied + ?c) t)"
      by (subst write_loop.simps) (simp add: True t)
    show ?thesis
    proof (cases "r = FS_OK")
      case False
      then show ?thesis
        using wc "1.prems"(1) step by auto
    next
      case ok: True
      obtain k where k: "off + ?c \<le> length (file_bytes s i) + k" "file_bytes t i = overwrite off ?d (file_bytes s i @ replicate k 0)"
        "unat (f_offset (h_open t ! fd)) = off + ?c"
        using wc(2) ok d(1) by auto
      have tw: "otfs_wf t" "i \<in> used t" "fd < length (h_open t)" "steady t = steady s"
        using wc(1) "1.prems"(3,4) keeps_steady by (auto simp: writes_def)
      have pr: "\<not> r \<noteq> FS_OK" "write_loop fd i buf (copied + ?c) t = (rc, n, s')" "copied + ?c \<le> length buf"
        using "1.prems"(1) step ok c True by auto
      note ih = "1.IH" [OF True refl t [symmetric] refl pr(1,2) tw(1-3) pr(3) k(3) [symmetric]]
      have len: "length (file_bytes t i) = length (file_bytes s i) + k"
        using k d(1) by simp
      have w: "writes fd i s s'"
        using ih writes_trans [OF wc(1)] by blast
      show ?thesis
      proof (cases "rc = FS_OK")
        case False
        then show ?thesis
          using ih w tw(4) by auto
      next
        case fin: True
        then obtain k2 where k2: "n = length buf" "unat (f_offset (h_open s' ! fd)) = off + ?c + (length buf - (copied + ?c))"
          "copied + ?c < length buf \<longrightarrow> off + ?c + (length buf - (copied + ?c)) \<le> length (file_bytes t i) + k2"
          "file_bytes s' i = overwrite (off + ?c) (drop (copied + ?c) buf) (file_bytes t i @ replicate k2 0)"
          using ih by auto
        have "file_bytes s' i = overwrite off (drop copied buf) (file_bytes s i @ replicate (k + k2) 0)"
          using overwrite_step [of off ?d "file_bytes s i" k "drop (copied + ?c) buf" k2] k2(3,4) k(1,2) len d by auto
        moreover have "off + (length buf - copied) \<le> length (file_bytes s i) + (k + k2)"
          using k2(3) k(1) len c by (cases "copied + ?c < length buf") auto
        ultimately show ?thesis
          using w fin k2(1,2) c by (intro conjI disjI1 exI [of _ "k + k2"]) auto
      qed
    qed
  qed
qed

end
