(* ===== verification/OtfsSpec.thy ===== *)
theory OtfsSpec
  imports OtfsOps
begin

text \<open>
  The operations of OTFS on the map from names to contents: writing and opening, with every error, and
  that no sequence of operations breaks the invariant.
\<close>

subsection \<open>Writing the metadata\<close>

text \<open>Neither the blocks of files nor the handle change.\<close>

definition same_files :: "otfs \<Rightarrow> otfs \<Rightarrow> bool" where
  "same_files s s' \<longleftrightarrow> same_meta s s' \<and> (\<forall>x. valid_block_index x \<longrightarrow> block_of s' x = block_of s x)"

lemma same_files_refl [simp]: "same_files s s"
  by (simp add: same_files_def same_meta_def)

lemma same_files_trans: "same_files s s' \<Longrightarrow> same_files s' s'' \<Longrightarrow> same_files s s''"
  using keeps_trans [of s s' s''] by (simp add: same_files_def same_meta_def)

lemma same_files_bytes:
  assumes "same_files s s'" "otfs_wf s" "i \<in> used s"
  shows "file_bytes s' i = file_bytes s i"
proof -
  have "block_of s' x = block_of s x" if "x \<in> set (entry_chain s i)" for x
    using that assms otfs_wf_file [OF assms(2,3)] chain_ok_valid by (auto simp: same_files_def file_wf_def)
  then have "map (block_of s') (entry_chain s i) = map (block_of s) (entry_chain s i)"
    by simp
  then show ?thesis
    using same_meta_frame(2) [of s s' i] assms(1) unfolding file_bytes_def same_files_def by (simp del: map_eq_conv)
qed

lemma same_files_frame:
  assumes "same_files s s'" "otfs_wf s"
  shows "otfs_wf s'" "used s' = used s" "same_names s s'" "size_of s' i = size_of s i" "i \<in> used s \<Longrightarrow> file_content s' i = file_content s i"
    "otfs_files s' = otfs_files s" "h_open s' = h_open s" "steady s' = steady s" "free_blocks s' = free_blocks s"
    "i \<in> used s \<Longrightarrow> sized s' i = sized s i" "find_dir_entry s' = find_dir_entry s"
proof -
  have m: "same_meta s s'"
    using assms(1) by (simp add: same_files_def)
  show w: "otfs_wf s'" "used s' = used s" "same_names s s'" "size_of s' i = size_of s i" "h_open s' = h_open s"
      "free_blocks s' = free_blocks s" "find_dir_entry s' = find_dir_entry s"
    using same_meta_wf [OF m assms(2)] same_meta_frame [OF m] m
    by (auto simp: same_meta_def find_dir_entry_def [abs_def])
  show "steady s' = steady s"
    using m keeps_steady by (auto simp: same_meta_def)
  have c: "file_content s' i = file_content s i" "sized s' i = sized s i" if "i \<in> used s" for i
    using same_files_bytes [OF assms that] same_meta_frame(3) [OF m] by (simp_all add: file_content_def sized_def)
  then show "i \<in> used s \<Longrightarrow> file_content s' i = file_content s i" "i \<in> used s \<Longrightarrow> sized s' i = sized s i"
    by simp_all
  show "otfs_files s' = otfs_files s"
    using assms(2) by (intro otfs_files_same w(3) c) (simp add: otfs_wf_def)
qed

lemma write_region:
  assumes "fs_seek_and_write off buf s = (rc, s')" "image_wf s" "FS_BLOCK_SIZE \<le> off"
    and "off + length buf \<le> block_offset FS_DATA_START_BLOCK"
  shows "same_files s s'" "rc = FS_OK \<or> rc = FS_ERR_IO \<and> \<not> steady s"
    "rc = FS_OK \<Longrightarrow> slice_at off (length buf) (image s') = buf"
    "off' + len \<le> off \<or> off + length buf \<le> off' \<and> off' + len \<le> block_offset FS_DATA_START_BLOCK \<Longrightarrow>
       slice_at off' len (image s') = slice_at off' len (image s)"
proof -
  have b: "off + length buf \<le> length (image s)" "block_offset FS_DATA_START_BLOCK \<le> length (image s)"
    using assms(2,4) by (auto simp: image_wf_def block_offset_def fs_layout)
  obtain n where n: "n \<le> length buf" "image s' = overwrite off (take n buf) (image s)"
    "s' = s \<lparr> st_host := st_host s' \<rparr>" "rc = FS_OK \<and> n = length buf \<or> rc = FS_ERR_IO \<and> \<not> steady s"
    "io_faults (st_host s') = io_faults (st_host s)"
    using write_bytes [OF assms(1) b(1)] by blast
  show "rc = FS_OK \<or> rc = FS_ERR_IO \<and> \<not> steady s"
    using n(4) by blast
  show "rc = FS_OK \<Longrightarrow> slice_at off (length buf) (image s') = buf"
    using n(2,4) slice_overwrite_same [OF b(1)] by auto
  show "off' + len \<le> off \<or> off + length buf \<le> off' \<and> off' + len \<le> block_offset FS_DATA_START_BLOCK \<Longrightarrow>
       slice_at off' len (image s') = slice_at off' len (image s)"
    unfolding n(2) using n(1) b by (intro slice_overwrite_other) auto
  have "block_of s' x = block_of s x" if "valid_block_index x" for x
  proof -
    have "block_offset FS_DATA_START_BLOCK \<le> block_offset (FS_DATA_START_BLOCK + unat x)"
      by (simp add: block_offset_def)
    then show ?thesis
      unfolding block_of_def n(2) using block_bounds [OF that assms(2)] n(1) b assms(4)
      by (intro slice_overwrite_other) auto
  qed
  moreover have f: "h_mounted s' = h_mounted s" "h_image_file s' = h_image_file s" "h_fat s' = h_fat s" "h_dir s' = h_dir s"
      "h_open s' = h_open s"
    by (subst n(3), simp)+
  moreover have "slice_at 0 FS_BLOCK_SIZE (image s') = slice_at 0 FS_BLOCK_SIZE (image s)"
    unfolding n(2) using n(1) b assms(3) by (intro slice_overwrite_other) auto
  moreover have "length (image s') = length (image s)"
    unfolding n(2) using n(1) b by simp
  ultimately show "same_files s s'"
    using n(5) by (simp add: same_files_def same_meta_def keeps_def)
qed

lemma names_wf_dir_bytes: "names_wf es \<Longrightarrow> length (dir_bytes es) = FS_MAX_FILES * FS_DIR_ENTRY_SIZE"
proof -
  assume es: "names_wf es"
  then have "\<forall>e \<in> set es. length (entry_bytes e) = FS_DIR_ENTRY_SIZE"
    using entry_bytes_length by (auto simp: names_wf_def in_set_conv_nth)
  then show ?thesis
    using concat_length [of es entry_bytes] es by (simp add: dir_bytes_def names_wf_def)
qed

lemma fat_bytes_length: "length fat = FS_TOTAL_BLOCKS \<Longrightarrow> length (fat_bytes fat) = FS_FAT_BLOCK_COUNT * FS_BLOCK_SIZE"
  using concat_length [of "take FS_DATA_BLOCK_COUNT fat" u32_bytes 4] by (simp add: fat_bytes_def fs_layout)

lemma sync_effect:
  assumes "sync_metadata s = (rc, s')" "otfs_wf s"
  shows "same_files s s'" "rc = FS_OK \<or> rc = FS_ERR_IO \<and> \<not> steady s"
    "rc = FS_OK \<Longrightarrow> slice_at (block_offset FS_DIR_START_BLOCK) (FS_MAX_FILES * FS_DIR_ENTRY_SIZE) (image s') = dir_bytes (h_dir s)"
    "rc = FS_OK \<Longrightarrow> slice_at (block_offset FS_FAT_START_BLOCK) (FS_FAT_BLOCK_COUNT * FS_BLOCK_SIZE) (image s') = fat_bytes (h_fat s)"
proof -
  have w: "image_wf s" "names_wf (h_dir s)" "length (h_fat s) = FS_TOTAL_BLOCKS"
    using assms(2) by (auto simp: otfs_wf_def image_wf_def)
  obtain r t where t: "fs_seek_and_write (block_offset FS_DIR_START_BLOCK) (dir_bytes (h_dir s)) s = (r, t)" by force
  obtain r2 u where u: "fs_seek_and_write (block_offset FS_FAT_START_BLOCK) (fat_bytes (h_fat t)) t = (r2, u)" by force
  have run: "(rc, s') = (if r \<noteq> FS_OK then (FS_ERR_IO, t) else (if r2 \<noteq> FS_OK then FS_ERR_IO else FS_OK, u))"
    using assms(1) t u by (auto simp: sync_metadata_def split: if_splits)
  have l: "FS_BLOCK_SIZE \<le> block_offset FS_DIR_START_BLOCK" "FS_BLOCK_SIZE \<le> block_offset FS_FAT_START_BLOCK"
    "block_offset FS_DIR_START_BLOCK + length (dir_bytes (h_dir s)) \<le> block_offset FS_DATA_START_BLOCK"
    "block_offset FS_FAT_START_BLOCK + length (fat_bytes (h_fat s)) \<le> block_offset FS_DATA_START_BLOCK"
    "block_offset FS_DIR_START_BLOCK + FS_MAX_FILES * FS_DIR_ENTRY_SIZE \<le> block_offset FS_FAT_START_BLOCK"
    unfolding names_wf_dir_bytes [OF w(2)] fat_bytes_length [OF w(3)] by (simp_all add: block_offset_def fs_layout)
  note wt = write_region [OF t w(1) l(1,3)]
  have f: "h_fat t = h_fat s" "image_wf t" "steady t = steady s"
    using wt(1) w(1) keeps_image_wf keeps_steady by (auto simp: same_files_def same_meta_def)
  note wu = write_region [OF u f(2) l(2) l(4) [folded f(1)]]
  show "same_files s s'" "rc = FS_OK \<or> rc = FS_ERR_IO \<and> \<not> steady s"
    using run wt(1,2) same_files_trans [OF wt(1) wu(1)] wu(2) f(3) by (auto split: if_splits)
  show "slice_at (block_offset FS_FAT_START_BLOCK) (FS_FAT_BLOCK_COUNT * FS_BLOCK_SIZE) (image s') = fat_bytes (h_fat s)" if "rc = FS_OK"
    using that run wu(3) f(1) fat_bytes_length [OF w(3)] by (auto split: if_splits)
  show "slice_at (block_offset FS_DIR_START_BLOCK) (FS_MAX_FILES * FS_DIR_ENTRY_SIZE) (image s') = dir_bytes (h_dir s)" if "rc = FS_OK"
    using that run wt(3) wu(4) [of "block_offset FS_DIR_START_BLOCK" "FS_MAX_FILES * FS_DIR_ENTRY_SIZE"] l(5) names_wf_dir_bytes [OF w(2)]
    by (auto split: if_splits)
qed

subsection \<open>Writing\<close>

lemma writes_content:
  assumes "writes fd i s s'" "otfs_wf s" "j \<in> used s" "j \<noteq> i"
  shows "file_content s' j = file_content s j" "sized s' j = sized s j"
  using assms by (auto simp: writes_def file_content_def sized_def)

lemma overwrite_take:
  assumes "off \<le> n" "n \<le> length b" "buf = [] \<or> off + length buf \<le> length b + k"
  shows "take (max n (off + length buf)) (overwrite off buf (b @ replicate k z)) = overwrite off buf (take n b)"
proof (cases "off + length buf \<le> n")
  case True
  then show ?thesis
    using assms by (intro nth_equalityI) (auto simp: overwrite_nth nth_append max_def)
next
  case False
  then show ?thesis
    using assms by (auto simp: overwrite_def max_def min_def)
qed

lemma set_size_same_names: "same_names s (set_size i n s)"
  by (rule same_names_entry [where i = i and v = "(h_dir s ! i) \<lparr> de_size_bytes := n \<rparr>"]) (simp_all add: set_size_def entry_ok_def)

lemma set_size_frame [simp]:
  "block_of (set_size i n s) = block_of s" "h_fat (set_size i n s) = h_fat s" "h_open (set_size i n s) = h_open s"
  "st_host (set_size i n s) = st_host s" "image (set_size i n s) = image s" "h_mounted (set_size i n s) = h_mounted s"
  "h_image_file (set_size i n s) = h_image_file s" "entry_chain (set_size i n s) = entry_chain s"
  "file_bytes (set_size i n s) = file_bytes s" "steady (set_size i n s) = steady s"
  "free_blocks (set_size i n s) = free_blocks s" "de_first_block (h_dir (set_size i n s) ! j) = de_first_block (h_dir s ! j)"
proof -
  show 1: "block_of (set_size i n s) = block_of s" "h_fat (set_size i n s) = h_fat s" "h_open (set_size i n s) = h_open s"
    "st_host (set_size i n s) = st_host s" "image (set_size i n s) = image s" "h_mounted (set_size i n s) = h_mounted s"
    "h_image_file (set_size i n s) = h_image_file s" "steady (set_size i n s) = steady s"
    "free_blocks (set_size i n s) = free_blocks s"
    by (simp_all add: set_size_def fun_eq_iff steady_def free_blocks_def)
  show 2: "de_first_block (h_dir (set_size i n s) ! j) = de_first_block (h_dir s ! j)" for j
    by (cases "i < length (h_dir s)") (simp_all add: set_size_def nth_list_update list_update_beyond)
  show 3: "entry_chain (set_size i n s) = entry_chain s"
    by (rule ext) (simp add: entry_chain_def 1 2)
  show "file_bytes (set_size i n s) = file_bytes s"
    by (rule ext) (simp add: file_bytes_def 1 3)
qed

lemma set_size_wf:
  assumes "otfs_wf s"
  shows "otfs_wf (set_size i n s)"
proof -
  have n: "names_wf (h_dir s)"
    using assms by (simp add: otfs_wf_def)
  show ?thesis
    using assms same_names_wf [OF set_size_same_names n] same_names_used [OF set_size_same_names n]
    by (simp add: otfs_wf_def chains_wf_def open_wf_def image_wf_def)
qed

lemma size_of_set_size: "i < length (h_dir s) \<Longrightarrow> size_of (set_size i n s) j = (if j = i then unat n else size_of s j)"
  by (simp add: size_of_def set_size_def nth_list_update)

lemma finish_write_effect:
  assumes "otfs_wf s" "i \<in> used s"
  shows "otfs_wf (finish_write fd i s)" "same_names s (finish_write fd i s)" "file_bytes (finish_write fd i s) = file_bytes s"
    "size_of (finish_write fd i s) j = (if j = i then max (size_of s i) (unat (f_offset (h_open s ! fd))) else size_of s j)"
    "steady (finish_write fd i s) = steady s" "h_open (finish_write fd i s) = h_open s"
proof -
  have i: "i < length (h_dir s)"
    using otfs_wf_file [OF assms] by (simp add: file_wf_def)
  show "otfs_wf (finish_write fd i s)" "same_names s (finish_write fd i s)" "file_bytes (finish_write fd i s) = file_bytes s"
    "steady (finish_write fd i s) = steady s" "h_open (finish_write fd i s) = h_open s"
    using assms(1) by (simp_all add: finish_write_def set_size_wf set_size_same_names)
  show "size_of (finish_write fd i s) j = (if j = i then max (size_of s i) (unat (f_offset (h_open s ! fd))) else size_of s j)"
  proof -
    have "f_offset (h_open s ! fd) > de_size_bytes (h_dir s ! i) \<longleftrightarrow> size_of s i < unat (f_offset (h_open s ! fd))"
      by (simp add: size_of_def word_less_nat_alt)
    then show ?thesis
      by (simp add: finish_write_def size_of_set_size [OF i] max_def)
  qed
qed

lemma fs_write_run:
  assumes "h_mounted s \<noteq> 0" "fd < FS_MAX_OPEN_FILES" "f_in_use (h_open s ! fd) \<noteq> 0" "and (f_flags (h_open s ! fd)) FS_O_WRITE \<noteq> 0"
    and "write_loop fd (unat (f_dir_index (h_open s ! fd))) buf 0 s = (r, m, t)"
    and "sync_metadata (finish_write fd (unat (f_dir_index (h_open s ! fd))) t) = (r2, x)"
  shows "fs_write (int fd) buf s = (if r \<noteq> FS_OK then (r, 0, t) else if r2 \<noteq> FS_OK then (FS_ERR_IO, 0, x) else (FS_OK, m, x))"
proof -
  have "validate_common s = FS_OK" "valid_fd (int fd)"
    using assms(1,2) by (auto simp: validate_common_def valid_fd_def)
  then show ?thesis
    using assms(3-6) by (simp add: fs_write_def Let_def)
qed

lemma write_at_within: "off \<le> length c \<Longrightarrow> write_at off buf c = overwrite off buf c"
  by (simp add: write_at_def overwrite_def)

lemma overwrite_padded:
  assumes "buf \<noteq> []" "off + length buf \<le> length c + z"
  shows "overwrite off buf (c @ replicate z 0) = write_at off buf c @ replicate (length c + z - max (length c) (off + length buf)) 0"
proof -
  have "take off (c @ replicate z (0 :: u8)) = take off (c @ replicate (off - length c) 0)"
    using assms by (cases "off \<le> length c") (auto simp: min_def)
  moreover have "drop (off + length buf) (c @ replicate z (0 :: u8)) =
      drop (off + length buf) c @ replicate (length c + z - max (length c) (off + length buf)) 0"
    using assms by (auto simp: max_def)
  ultimately show ?thesis
    using assms(1) by (simp add: overwrite_def write_at_def)
qed

lemma write_at_length: "buf \<noteq> [] \<Longrightarrow> length (write_at off buf c) = max (length c) (off + length buf)"
  by (auto simp: write_at_def max_def)

text \<open>What the blocks of a file hold beyond its end is zero.\<close>

definition clean :: "otfs \<Rightarrow> nat \<Rightarrow> bool" where
  "clean s i \<longleftrightarrow> (\<forall>b \<in> set (drop (size_of s i) (file_bytes s i)). b = 0)"

lemma clean_iff:
  assumes "sized s i"
  shows "clean s i \<longleftrightarrow> (\<exists>z. file_bytes s i = file_content s i @ replicate z 0)"
proof
  assume "clean s i"
  then have "drop (size_of s i) (file_bytes s i) = replicate (length (file_bytes s i) - size_of s i) 0"
    by (intro replicate_eqI) (simp_all add: clean_def)
  then show "\<exists>z. file_bytes s i = file_content s i @ replicate z 0"
    unfolding file_content_def by (metis append_take_drop_id)
next
  assume "\<exists>z. file_bytes s i = file_content s i @ replicate z 0"
  then obtain z where z: "file_bytes s i = file_content s i @ replicate z 0" ..
  have "length (file_content s i) = size_of s i"
    using assms by (simp add: file_content_def sized_def)
  then have "drop (size_of s i) (file_bytes s i) = replicate z 0"
    by (subst z) simp
  then show "clean s i"
    by (simp add: clean_def)
qed

text \<open>A write on such a file: the gap is filled with zeros, and the rest stays zero.\<close>

lemma clean_write:
  assumes "sized s i" "clean s i" "buf \<noteq> []" "off + length buf \<le> length (file_bytes s i) + k"
    and "file_bytes s' i = overwrite off buf (file_bytes s i @ replicate k 0)" "size_of s' i = max (size_of s i) (off + length buf)"
  shows "file_content s' i = write_at off buf (file_content s i)" "sized s' i" "clean s' i"
proof -
  obtain z where z: "file_bytes s i = file_content s i @ replicate z 0"
    using clean_iff assms(1,2) by blast
  have l: "length (file_content s i) = size_of s i"
    using assms(1) by (simp add: file_content_def sized_def)
  have b: "file_bytes s' i = write_at off buf (file_content s i) @ replicate (size_of s i + (z + k) - max (size_of s i) (off + length buf)) 0"
    using overwrite_padded [of buf off "file_content s i" "z + k"] assms(3-5) z l by (simp add: replicate_add [symmetric])
  have len: "length (write_at off buf (file_content s i)) = size_of s' i"
    using write_at_length [OF assms(3)] assms(6) l by simp
  show c: "file_content s' i = write_at off buf (file_content s i)"
    unfolding file_content_def [of s'] b using len by simp
  show sz: "sized s' i"
    unfolding sized_def b using len by simp
  show "clean s' i"
    unfolding clean_iff [OF sz] c using b by blast
qed

text \<open>The bytes in the blocks of the file and its size, wherever the offset is.\<close>

lemma fs_write_bytes:
  assumes "otfs_wf s" "fd < FS_MAX_OPEN_FILES" "f_in_use (h_open s ! fd) \<noteq> 0"
    and "and (f_flags (h_open s ! fd)) FS_O_WRITE \<noteq> 0" "i = unat (f_dir_index (h_open s ! fd))"
    and "fs_write (int fd) buf s = (rc, n, s')" "off = unat (f_offset (h_open s ! fd))"
  shows "otfs_wf s' \<and> otfs_files s' = (otfs_files s)(entry_name s i \<mapsto> file_content s' i) \<and>
    h_open s' = (h_open s)[fd := (h_open s ! fd) \<lparr> f_offset := f_offset (h_open s' ! fd) \<rparr>] \<and>
    (rc = FS_OK \<and> n = length buf \<and> (\<exists>k. (buf = [] \<or> off + length buf \<le> length (file_bytes s i) + k) \<and>
       file_bytes s' i = overwrite off buf (file_bytes s i @ replicate k 0)) \<and> size_of s' i = max (size_of s i) (off + length buf) \<and>
       unat (f_offset (h_open s' ! fd)) = off + n \<and> used s' = used s \<and>
       (\<forall>j \<in> used s. j \<noteq> i \<longrightarrow> file_bytes s' j = file_bytes s j \<and> size_of s' j = size_of s j) \<or>
     rc = FS_ERR_NO_SPACE \<and> n = 0 \<and> (steady s \<longrightarrow> free_blocks s' = {}) \<or>
     rc = FS_ERR_IO \<and> n = 0 \<and> \<not> steady s)"
proof -
  have o: "open_wf s" "h_mounted s \<noteq> 0" "names_wf (h_dir s)"
    using assms(1) by (auto simp: otfs_wf_def)
  then have i: "i \<in> used s" "fd < length (h_open s)"
    using assms(2,3,5) by (auto simp: open_wf_def)
  obtain r m t where t: "write_loop fd i buf 0 s = (r, m, t)"
    using prod_cases3 by blast
  note wl = write_loop_overwrite [OF t assms(1) i _ assms(7), simplified]
  then have w: "writes fd i s t" "otfs_wf t" "i \<in> used t" "same_names s t"
    using i(1) by (auto simp: writes_def)
  let ?u = "finish_write fd i t"
  note fin = finish_write_effect [OF w(2,3), where fd = fd]
  obtain r2 x where x: "sync_metadata ?u = (r2, x)" by force
  note sy = sync_effect(1,2) [OF x fin(1)]
  note sf = same_files_frame [OF sy(1) fin(1)]
  have run: "(rc, n, s') = (if r \<noteq> FS_OK then (r, 0, t) else if r2 \<noteq> FS_OK then (FS_ERR_IO, 0, x) else (FS_OK, m, x))"
    using fs_write_run [OF o(2) assms(2-4), folded assms(5), OF t x] assms(6) by simp
  have names: "same_names s x"
    by (rule same_names_trans [OF same_names_trans [OF w(4) fin(2)] sf(3)])
  have other: "file_content x j = file_content s j" if "j \<in> used s" "j \<noteq> i" for j
  proof -
    have ju: "j \<in> used ?u"
      using that same_names_used [OF same_names_trans [OF w(4) fin(2)] o(3)] by simp
    have "file_content ?u j = file_content t j"
      using fin(3,4) that by (simp add: file_content_def)
    then show ?thesis
      using sf(5) [OF ju] writes_content [OF w(1) assms(1) that] by simp
  qed
  have "otfs_files s' = (otfs_files s)(entry_name s i \<mapsto> file_content s' i)"
    using run otfs_files_update [OF o(3) names i(1) other] otfs_files_update [OF o(3) w(4) i(1) writes_content(1) [OF w(1) assms(1)]]
    by (auto split: if_splits)
  moreover have "otfs_wf s'"
    using run w(2) sf(1) by (auto split: if_splits)
  moreover have "h_open s' = (h_open s)[fd := (h_open s ! fd) \<lparr> f_offset := f_offset (h_open s' ! fd) \<rparr>]"
  proof -
    have "h_open s' = h_open t"
      using run sf(7) fin(6) by (auto split: if_splits)
    then show ?thesis
      using w(1) i(2) by (auto simp: writes_def)
  qed
  moreover have "used x = used s"
    using same_names_used [OF names o(3)] .
  moreover have "file_bytes x j = file_bytes s j \<and> size_of x j = size_of s j" if j: "j \<in> used s" "j \<noteq> i" for j
  proof -
    have "j \<in> used ?u"
      using j(1) same_names_used [OF same_names_trans [OF w(4) fin(2)] o(3)] by simp
    then show ?thesis
      using same_files_bytes [OF sy(1) fin(1)] sf(4) [of j] fin(3) fin(4) [of j] w(1) j by (simp add: writes_def)
  qed
  moreover have "(\<exists>k. (buf = [] \<or> off + length buf \<le> length (file_bytes s i) + k) \<and>
      file_bytes x i = overwrite off buf (file_bytes s i @ replicate k 0)) \<and>
      size_of x i = max (size_of s i) (off + length buf) \<and> unat (f_offset (h_open x ! fd)) = off + m \<and> m = length buf"
    if r: "r = FS_OK"
  proof -
    obtain k where k: "m = length buf" "unat (f_offset (h_open t ! fd)) = off + length buf"
      "buf = [] \<or> off + length buf \<le> length (file_bytes s i) + k" "file_bytes t i = overwrite off buf (file_bytes s i @ replicate k 0)"
      using wl r by auto
    have iu: "i \<in> used ?u"
      using i(1) same_names_used [OF same_names_trans [OF w(4) fin(2)] o(3)] by simp
    have "size_of ?u i = max (size_of s i) (off + length buf)"
      using fin(4) [of i] k(2) w(1) i(1) by (simp add: writes_def)
    then show ?thesis
      using same_files_bytes [OF sy(1) fin(1) iu] sf(4) [of i] sf(7) k fin(3,6) by auto
  qed
  ultimately show ?thesis
    using run wl sy(2) fin(5) w(1) keeps_steady by (auto simp: writes_def split: if_splits)
qed

lemma fs_write_effect:
  assumes "otfs_wf s" "sized s i" "fd < FS_MAX_OPEN_FILES" "f_in_use (h_open s ! fd) \<noteq> 0"
    and "and (f_flags (h_open s ! fd)) FS_O_WRITE \<noteq> 0" "i = unat (f_dir_index (h_open s ! fd))"
    and "fs_write (int fd) buf s = (rc, n, s')" "off = unat (f_offset (h_open s ! fd))" "off \<le> size_of s i \<or> buf \<noteq> [] \<and> clean s i"
  shows "otfs_wf s' \<and> otfs_files s' = (otfs_files s)(entry_name s i \<mapsto> file_content s' i) \<and>
    h_open s' = (h_open s)[fd := (h_open s ! fd) \<lparr> f_offset := f_offset (h_open s' ! fd) \<rparr>] \<and>
    (rc = FS_OK \<and> n = length buf \<and> file_content s' i = write_at off buf (file_content s i) \<and> sized s' i \<and>
       (clean s i \<longrightarrow> clean s' i) \<and> unat (f_offset (h_open s' ! fd)) = off + n \<or>
     rc = FS_ERR_NO_SPACE \<and> n = 0 \<and> (steady s \<longrightarrow> free_blocks s' = {}) \<or>
     rc = FS_ERR_IO \<and> n = 0 \<and> \<not> steady s)"
proof -
  have sz: "size_of s i \<le> length (file_bytes s i)"
    using assms(2) by (simp add: sized_def)
  have "file_content s' i = write_at off buf (file_content s i) \<and> sized s' i \<and> (clean s i \<longrightarrow> clean s' i)"
    if k: "buf = [] \<or> off + length buf \<le> length (file_bytes s i) + k" "file_bytes s' i = overwrite off buf (file_bytes s i @ replicate k 0)"
      "size_of s' i = max (size_of s i) (off + length buf)" for k
  proof (cases "buf \<noteq> [] \<and> clean s i")
    case True
    then show ?thesis
      using clean_write [OF assms(2) _ _ _ k(2,3)] k(1) by blast
  next
    case False
    then have off: "off \<le> size_of s i"
      using assms(9) by blast
    have "file_content s' i = overwrite off buf (file_content s i) \<and> sized s' i"
      unfolding file_content_def sized_def k(2,3) using overwrite_take [OF off sz k(1)] sz k(1) off by (auto simp: overwrite_def)
    moreover have "write_at off buf (file_content s i) = overwrite off buf (file_content s i)"
      using off sz by (intro write_at_within) (simp add: file_content_def)
    moreover have "clean s' i" if "clean s i"
      using that False off sz k by (auto simp: clean_def)
    ultimately show ?thesis by simp
  qed
  then show ?thesis
    using fs_write_bytes [OF assms(1,3-8)] by blast
qed

text \<open>
  C1: Writing a file: with a descriptor open for writing, a successful \<open>fs_write\<close> has put the given bytes at the
  offset, over what was there and beyond the end if they reach it, whatever blocks this needed, and has
  moved the offset behind them. An offset beyond the end leaves a gap of zeros, provided the file's blocks
  are zero behind its end, which every successful write preserves. No other file changes, also when the
  call fails; it fails only when the disk is full or a call of the host fails, and then reports no bytes.
\<close>

theorem fs_write_spec:
  assumes "otfs_wf s" "sized s i" "fd < FS_MAX_OPEN_FILES" "f_in_use (h_open s ! fd) \<noteq> 0"
    and "and (f_flags (h_open s ! fd)) FS_O_WRITE \<noteq> 0" "i = unat (f_dir_index (h_open s ! fd))"
    and "fs_write (int fd) buf s = (rc, n, s')" "off = unat (f_offset (h_open s ! fd))" "off \<le> size_of s i \<or> buf \<noteq> [] \<and> clean s i"
  shows "otfs_wf s' \<and> otfs_files s' = (otfs_files s)(entry_name s i \<mapsto> file_content s' i) \<and>
    h_open s' = (h_open s)[fd := (h_open s ! fd) \<lparr> f_offset := f_offset (h_open s' ! fd) \<rparr>] \<and>
    (rc = FS_OK \<and> n = length buf \<and> file_content s' i = write_at off buf (file_content s i) \<and> sized s' i \<and>
       (clean s i \<longrightarrow> clean s' i) \<and> unat (f_offset (h_open s' ! fd)) = off + n \<or>
     rc = FS_ERR_NO_SPACE \<and> n = 0 \<and> (steady s \<longrightarrow> free_blocks s' = {}) \<or>
     rc = FS_ERR_IO \<and> n = 0 \<and> \<not> steady s)"
  by (rule fs_write_effect [OF assms])

subsection \<open>Opening\<close>

text \<open>A file whose size is 0 exactly if it has no blocks, and fits in its blocks, which are zero behind its end.\<close>

definition tidy :: "otfs \<Rightarrow> nat \<Rightarrow> bool" where
  "tidy s i \<longleftrightarrow> sized s i \<and> clean s i \<and> (size_of s i = 0 \<longleftrightarrow> entry_chain s i = [])"

definition all_tidy :: "otfs \<Rightarrow> bool" where
  "all_tidy s \<longleftrightarrow> (\<forall>i \<in> used s. tidy s i)"

lemma tidy_cong: "file_bytes s' i = file_bytes s i \<Longrightarrow> size_of s' i = size_of s i \<Longrightarrow> entry_chain s' i = entry_chain s i \<Longrightarrow> tidy s' i = tidy s i"
  by (simp add: tidy_def sized_def clean_def)

lemma tidy_empty: "entry_chain s i = [] \<Longrightarrow> size_of s i = 0 \<Longrightarrow> tidy s i"
  by (simp add: tidy_def sized_def clean_def file_bytes_def)

lemma same_files_tidy:
  assumes "same_files s s'" "otfs_wf s"
  shows "all_tidy s' = all_tidy s"
proof -
  have "tidy s' i = tidy s i" if "i \<in> used s" for i
    using same_files_bytes [OF assms that] same_files_frame(4) [OF assms] same_meta_frame(2) [of s s'] assms(1)
    by (intro tidy_cong) (simp_all add: same_files_def)
  then show ?thesis
    using same_files_frame(2) [OF assms] by (simp add: all_tidy_def)
qed

lemma emptied:
  assumes "otfs_wf s" "i \<in> used s" "length fat = FS_TOTAL_BLOCKS"
    and "\<And>x. valid_block_index x \<Longrightarrow> fat ! unat x = (if x \<in> set (entry_chain s i) then FAT_FREE else h_fat s ! unat x)"
    and "u = set_size i 0 (set_first_block i FAT_END (s \<lparr> h_fat := fat \<rparr>))"
  shows "otfs_wf u" "same_names s u" "entry_chain u i = []" "size_of u i = 0" "h_open u = h_open s" "steady u = steady s"
    "j \<in> used s \<Longrightarrow> j \<noteq> i \<Longrightarrow> entry_chain u j = entry_chain s j \<and> file_bytes u j = file_bytes s j \<and> size_of u j = size_of s j"
proof -
  have i: "i < length (h_dir s)" "i < FS_MAX_FILES"
    using otfs_wf_file [OF assms(1,2)] assms(2) by (auto simp: file_wf_def used_def)
  have n: "names_wf (h_dir s)"
    using assms(1) by (simp add: otfs_wf_def)
  have d: "h_dir u = (h_dir s)[i := (h_dir s ! i) \<lparr> de_first_block := FAT_END, de_size_bytes := 0 \<rparr>]" "h_fat u = fat"
    using i by (simp_all add: assms(5) set_size_def set_first_block_def)
  show same: "same_names s u"
    by (rule same_names_entry [OF d(1)]) (simp_all add: entry_ok_def)
  have u: "used u = used s" "names_wf (h_dir u)"
    by (rule same_names_used [OF same n], rule same_names_wf [OF same n])
  show o: "h_open u = h_open s" "steady u = steady s"
    by (simp_all add: assms(5) set_first_block_def steady_def)
  have im: "image u = image s" "block_of u = block_of s" "h_mounted u = h_mounted s" "h_image_file u = h_image_file s"
    by (simp_all add: assms(5) set_first_block_def fun_eq_iff)
  have "chain_ok fat FAT_END []" by simp
  then show ci: "entry_chain u i = []"
    using chain_eq i(1) by (simp add: entry_chain_def d)
  show "size_of u i = 0"
    using i(1) by (simp add: size_of_def d)
  have cj: "chain_ok fat (de_first_block (h_dir u ! j)) (entry_chain s j)" "entry_chain u j = entry_chain s j" if "j \<in> used s" "j \<noteq> i" for j
  proof -
    have f: "chain_ok (h_fat s) (de_first_block (h_dir s ! j)) (entry_chain s j)"
      using otfs_wf_file [OF assms(1) that(1)] by (simp add: file_wf_def)
    have "chain_ok fat (de_first_block (h_dir s ! j)) (entry_chain s j)"
      by (rule chain_ok_cong [OF f]) (use assms(4) chain_ok_valid [OF f] chains_apart [OF assms(1) that(1) assms(2) that(2)] in simp)
    then show "chain_ok fat (de_first_block (h_dir u ! j)) (entry_chain s j)" "entry_chain u j = entry_chain s j"
      using chain_eq that(2) by (simp_all add: entry_chain_def d)
  qed
  show "j \<in> used s \<Longrightarrow> j \<noteq> i \<Longrightarrow> entry_chain u j = entry_chain s j \<and> file_bytes u j = file_bytes s j \<and> size_of u j = size_of s j"
    using cj(2) im(2) by (simp add: file_bytes_def size_of_def d)
  have "fat_entries_valid fat"
    using assms(1,3,4) fat_entries_valid_nth [OF assms(3)] fat_entries_valid_nth [of "h_fat s"]
    by (auto simp: otfs_wf_def chains_wf_def image_wf_def)
  moreover have "chain_ok fat (de_first_block (h_dir u ! j)) (entry_chain u j)" if "j \<in> used s" for j
    using cj [OF that] ci i(1) by (cases "j = i") (auto simp: d)
  moreover have "set (entry_chain u j) \<inter> set (entry_chain u k) = {}" if "j \<in> used s" "k \<in> used s" "j \<noteq> k" for j k
    using cj(2) ci that assms(1) by (cases "j = i \<or> k = i") (auto simp: otfs_wf_def chains_wf_def)
  ultimately have "chains_wf u"
    unfolding chains_wf_def u(1) d(2) by blast
  then show "otfs_wf u"
    using assms(1,3) u im o(1) by (simp add: otfs_wf_def open_wf_def image_wf_def d(2))
qed

lemma truncate_effect:
  assumes "truncate_entry i s = (rc, s')" "otfs_wf s" "i \<in> used s"
  shows "otfs_wf s'" "same_names s s'" "h_open s' = h_open s" "rc = FS_OK \<or> rc = FS_ERR_IO \<and> \<not> steady s"
    "otfs_files s' = (otfs_files s)(entry_name s i \<mapsto> [])" "all_tidy s \<Longrightarrow> all_tidy s'" "steady s' = steady s"
proof -
  have f: "chain_ok (h_fat s) (de_first_block (h_dir s ! i)) (entry_chain s i)" "length (h_fat s) = FS_TOTAL_BLOCKS" "names_wf (h_dir s)"
    using otfs_wf_file [OF assms(2,3)] assms(2) by (auto simp: file_wf_def image_wf_def otfs_wf_def)
  obtain fat where fat: "release_loop (h_fat s) (de_first_block (h_dir s ! i)) 0 = (FS_OK, fat)" "length fat = FS_TOTAL_BLOCKS"
    "\<And>x. valid_block_index x \<Longrightarrow> fat ! unat x = (if x \<in> set (entry_chain s i) then FAT_FREE else h_fat s ! unat x)"
    using release_loop_chain [OF f(1) _ f(2), of 0] chain_ok_length [OF f(1)] by auto
  define g where "g = (if de_first_block (h_dir s ! i) \<noteq> FAT_END then fat else h_fat s)"
  have g: "length g = FS_TOTAL_BLOCKS"
    "\<And>x. valid_block_index x \<Longrightarrow> g ! unat x = (if x \<in> set (entry_chain s i) then FAT_FREE else h_fat s ! unat x)"
    using fat f file_wf_first(1) [OF otfs_wf_file [OF assms(2,3)]] by (auto simp: g_def)
  define u where "u = set_size i 0 (set_first_block i FAT_END (s \<lparr> h_fat := g \<rparr>))"
  note e = emptied [OF assms(2,3) g u_def]
  obtain r x where x: "sync_metadata u = (r, x)" by force
  note sy = sync_effect(1,2) [OF x e(1)] and sf = same_files_frame [OF sync_effect(1) [OF x e(1)] e(1)]
  have run: "(rc, s') = (if r \<noteq> FS_OK then FS_ERR_IO else FS_OK, x)"
    using assms(1) fat(1) x by (auto simp: truncate_entry_def release_chain_def u_def g_def split: if_splits)
  then show "otfs_wf s'" "same_names s s'" "h_open s' = h_open s" "rc = FS_OK \<or> rc = FS_ERR_IO \<and> \<not> steady s" "steady s' = steady s"
    using sf(1,3,7,8) e(2,5,6) sy(2) same_names_trans [OF e(2) sf(3)] by (auto split: if_splits)
  have "otfs_files u = (otfs_files s)(entry_name s i \<mapsto> file_content u i)"
  proof (rule otfs_files_update [OF f(3) e(2) assms(3)])
    fix j
    assume "j \<in> used s" "j \<noteq> i"
    then show "file_content u j = file_content s j"
      using e(7) [of j] by (simp add: file_content_def)
  qed
  then show "otfs_files s' = (otfs_files s)(entry_name s i \<mapsto> [])"
    using run sf(6) e(4) by (simp add: file_content_def)
  have "all_tidy u" if "all_tidy s"
  proof -
    have "tidy u j" if "j \<in> used s" for j
      using that \<open>all_tidy s\<close> e(3,4) e(7) [of j] tidy_empty tidy_cong [of u j s] by (cases "j = i") (auto simp: all_tidy_def)
    then show ?thesis
      using same_names_used [OF e(2) f(3)] by (simp add: all_tidy_def)
  qed
  then show "all_tidy s \<Longrightarrow> all_tidy s'"
    using run same_files_tidy [OF sy(1) e(1)] by simp
qed

lemma new_entry_name:
  assumes "CHR 0x00 \<notin> set name" "validate_name (Some name) = FS_OK"
  shows "c_text (de_name (new_entry name)) = name" "name_ok (new_entry name)" "entry_ok (new_entry name)"
proof -
  have l: "length name \<le> FS_MAX_NAME_LEN"
    using assms(2) by (simp add: validate_name_iff split: if_splits)
  have n: "de_name (new_entry name) = name @ replicate (FS_MAX_NAME_LEN - length name) (CHR 0x00) @ [CHR 0x00]"
    using l by (simp add: new_entry_def)
  show t: "c_text (de_name (new_entry name)) = name"
    unfolding c_text_def n
    using assms(1) by (subst takeWhile_append2) (auto simp: takeWhile_replicate takeWhile_append)
  have len: "length (de_name (new_entry name)) = FS_MAX_NAME_LEN + 1"
    using l by (simp add: n)
  show "name_ok (new_entry name)"
    using t assms(2) len by (simp add: name_ok_def) (simp add: n)
  show "entry_ok (new_entry name)"
    using len by (simp add: entry_ok_def new_entry_def zero_entry_def FS_MAX_NAME_LEN_def)
qed

lemma added:
  assumes "otfs_wf s" "i < FS_MAX_FILES" "de_used (h_dir s ! i) = 0" "CHR 0x00 \<notin> set name" "validate_name (Some name) = FS_OK"
    and "otfs_files s name = None" "u = s \<lparr> h_dir := (h_dir s)[i := new_entry name] \<rparr>"
  shows "otfs_wf u" "used u = insert i (used s)" "entry_name u i = name" "otfs_files u = (otfs_files s)(name \<mapsto> [])"
    "all_tidy s \<Longrightarrow> all_tidy u"
proof -
  have n: "names_wf (h_dir s)" "length (h_dir s) = FS_MAX_FILES"
    using assms(1) by (auto simp: otfs_wf_def names_wf_def)
  have d: "h_dir u ! k = (if k = i then new_entry name else h_dir s ! k)" for k
    using assms(2,7) n(2) by (auto simp: nth_list_update)
  note ne = new_entry_name [OF assms(4,5)]
  have nz: "de_used (new_entry name) \<noteq> 0" "de_first_block (new_entry name) = FAT_END" "de_size_bytes (new_entry name) = 0"
    by (simp_all add: new_entry_def zero_entry_def)
  have fu: "h_fat u = h_fat s" "block_of u = block_of s" "h_open u = h_open s" "h_mounted u = h_mounted s" "image u = image s"
    "h_image_file u = h_image_file s"
    by (simp_all add: assms(7) fun_eq_iff)
  show u: "used u = insert i (used s)"
    using assms(2) nz(1) by (auto simp: used_def d)
  have i: "i \<notin> used s"
    using assms(3) by (simp add: used_def)
  have c: "entry_chain u k = (if k = i then [] else entry_chain s k)" for k
    using chain_eq [of "h_fat s" FAT_END "[]"] by (simp add: entry_chain_def d fu nz)
  have m: "file_content u k = (if k = i then [] else file_content s k)" "file_bytes u k = (if k = i then [] else file_bytes s k)"
    "size_of u k = (if k = i then 0 else size_of s k)" for k
    using c by (simp_all add: file_content_def file_bytes_def size_of_def d fu nz)
  have e: "entry_name u k = (if k = i then name else entry_name s k)" for k
    using ne(1) by (simp add: entry_name_def d)
  then show "entry_name u i = name" by simp
  have fresh: "entry_name s k \<noteq> name" if "k \<in> used s" for k
    using otfs_files_entry [OF n(1) that] assms(6) by auto
  have ok: "\<And>k. k < FS_MAX_FILES \<Longrightarrow> entry_ok (h_dir u ! k) \<and> (de_used (h_dir u ! k) \<noteq> 0 \<longrightarrow> name_ok (h_dir u ! k))"
    using n(1) ne(2,3) by (simp add: d names_wf_def)
  have "inj_on (entry_name u) (used u)"
    using entry_name_inj [OF n(1)] fresh i unfolding u by (auto simp: inj_on_def e)
  then have "names_differ (h_dir u)"
    using names_differ_iff [of "h_dir u"] ok by (simp add: entry_name_def [abs_def] used_def)
  then have nu: "names_wf (h_dir u)"
    using ok n(2) assms(7) by (simp add: names_wf_def)
  have "chains_wf u"
    using assms(1) i by (auto simp: otfs_wf_def chains_wf_def u c d fu nz)
  then show "otfs_wf u"
    using assms(1) nu u by (simp add: otfs_wf_def open_wf_def image_wf_def fu)
  show "otfs_files u = (otfs_files s)(name \<mapsto> [])"
  proof
    fix x
    have old: "entry_name u k = entry_name s k" "file_content u k = file_content s k" if "k \<in> used s" for k
      using that i by (auto simp: e m)
    have "otfs_files u x = Some b \<longleftrightarrow> ((otfs_files s)(name \<mapsto> [])) x = Some b" for b
      unfolding otfs_files_iff [OF nu] fun_upd_apply u using fresh otfs_files_iff [OF n(1), of x b]
      by (cases "x = name") (auto simp: old e [of i] m(1) [of i])
    then show "otfs_files u x = ((otfs_files s)(name \<mapsto> [])) x"
      by (metis not_Some_eq)
  qed
  show "all_tidy s \<Longrightarrow> all_tidy u"
    using i by (auto simp: all_tidy_def u tidy_def sized_def clean_def c m)
qed

lemma open_entry_effect:
  assumes "open_entry name flags s = (res, s')" "otfs_wf s" "CHR 0x00 \<notin> set name" "validate_name (Some name) = FS_OK"
  shows "otfs_wf s'" "h_open s' = h_open s" "steady s' = steady s" "all_tidy s \<Longrightarrow> all_tidy s'"
    "case res of
       Inr i \<Rightarrow> i \<in> used s' \<and> entry_name s' i = name \<and>
         otfs_files s' = (if name \<in> dom (otfs_files s) then otfs_files s else (otfs_files s)(name \<mapsto> [])) \<and>
         (name \<in> dom (otfs_files s) \<or> and flags FS_O_CREATE \<noteq> 0)
     | Inl rc \<Rightarrow> name \<notin> dom (otfs_files s) \<and>
         (rc = FS_ERR_NOT_FOUND \<and> and flags FS_O_CREATE = 0 \<and> s' = s \<or>
          and flags FS_O_CREATE \<noteq> 0 \<and> (rc = FS_ERR_NO_SPACE \<and> s' = s \<and> used s = {..<FS_MAX_FILES} \<or> rc = FS_ERR_IO \<and> \<not> steady s))"
proof -
  have n: "names_wf (h_dir s)"
    using assms(2) by (simp add: otfs_wf_def)
  have "otfs_wf s' \<and> h_open s' = h_open s \<and> steady s' = steady s \<and> (all_tidy s \<longrightarrow> all_tidy s') \<and> (case res of
       Inr i \<Rightarrow> i \<in> used s' \<and> entry_name s' i = name \<and>
         otfs_files s' = (if name \<in> dom (otfs_files s) then otfs_files s else (otfs_files s)(name \<mapsto> [])) \<and>
         (name \<in> dom (otfs_files s) \<or> and flags FS_O_CREATE \<noteq> 0)
     | Inl rc \<Rightarrow> name \<notin> dom (otfs_files s) \<and>
         (rc = FS_ERR_NOT_FOUND \<and> and flags FS_O_CREATE = 0 \<and> s' = s \<or>
          and flags FS_O_CREATE \<noteq> 0 \<and> (rc = FS_ERR_NO_SPACE \<and> s' = s \<and> used s = {..<FS_MAX_FILES} \<or> rc = FS_ERR_IO \<and> \<not> steady s)))"
  proof (cases "find_dir_entry s name")
    case (Some i)
    then have "s' = s" "res = Inr i"
      using assms(1) by (simp_all add: open_entry_def)
    moreover have "i \<in> used s" "entry_name s i = name"
      using find_dir_entry_iff [OF n assms(3)] Some by blast+
    moreover from this have "name \<in> dom (otfs_files s)"
      using otfs_files_entry [OF n] by blast
    ultimately show ?thesis
      using assms(2) by simp
  next
    case None
    then have no: "name \<notin> dom (otfs_files s)"
      using assms(3) by (simp add: otfs_files_def domIff)
    show ?thesis
    proof (cases "and flags FS_O_CREATE = 0")
      case True
      then show ?thesis
        using assms(1,2) None no by (auto simp: open_entry_def)
    next
      case create: False
      show ?thesis
      proof (cases "find_index (\<lambda>i. de_used (h_dir s ! i) = 0) FS_MAX_FILES")
        case full: None
        then have "used s = {..<FS_MAX_FILES}"
          by (auto simp: find_index_None used_def)
        then show ?thesis
          using assms(1,2) None no create full by (auto simp: open_entry_def alloc_dir_entry_def)
      next
        case (Some i)
        then have i: "i < FS_MAX_FILES" "de_used (h_dir s ! i) = 0"
          by (auto simp: find_index_Some)
        define u where "u = s \<lparr> h_dir := (h_dir s)[i := new_entry name] \<rparr>"
        have "otfs_files s name = None"
          using no by auto
        note a = added [OF assms(2) i assms(3,4) this u_def]
        obtain r x where x: "sync_metadata u = (r, x)" by force
        note sy = sync_effect(1,2) [OF x a(1)]
        note sf = same_files_frame [OF sy(1) a(1)]
        have "entry_name x i = name"
          using same_names_entry_name [OF sf(3)] a(1,2,3) by (simp add: otfs_wf_def)
        moreover have "(res, s') = (if r \<noteq> FS_OK then Inl FS_ERR_IO else Inr i, x)"
          using assms(1) None create Some x by (auto simp: open_entry_def alloc_dir_entry_def u_def [symmetric] split: if_splits)
        moreover have "h_open u = h_open s" "steady u = steady s"
          by (simp_all add: u_def steady_def)
        ultimately show ?thesis
          using sf(1,2,6,7,8) a(2,4,5) sy(2) same_files_tidy [OF sy(1) a(1)] no create by (auto split: if_splits)
      qed
    qed
  qed
  then show "otfs_wf s'" "h_open s' = h_open s" "steady s' = steady s" "all_tidy s \<Longrightarrow> all_tidy s'"
    "case res of
       Inr i \<Rightarrow> i \<in> used s' \<and> entry_name s' i = name \<and>
         otfs_files s' = (if name \<in> dom (otfs_files s) then otfs_files s else (otfs_files s)(name \<mapsto> [])) \<and>
         (name \<in> dom (otfs_files s) \<or> and flags FS_O_CREATE \<noteq> 0)
     | Inl rc \<Rightarrow> name \<notin> dom (otfs_files s) \<and>
         (rc = FS_ERR_NOT_FOUND \<and> and flags FS_O_CREATE = 0 \<and> s' = s \<or>
          and flags FS_O_CREATE \<noteq> 0 \<and> (rc = FS_ERR_NO_SPACE \<and> s' = s \<and> used s = {..<FS_MAX_FILES} \<or> rc = FS_ERR_IO \<and> \<not> steady s))"
    by blast+
qed

text \<open>The files after a successful \<open>fs_open\<close>.\<close>

definition opened_files :: "string \<Rightarrow> u32 \<Rightarrow> otfs \<Rightarrow> string \<Rightarrow> u8 list option" where
  "opened_files name flags s =
     (if name \<in> dom (otfs_files s) \<and> and flags FS_O_TRUNC = 0 then otfs_files s else (otfs_files s)(name \<mapsto> []))"

text \<open>Changing the descriptors only.\<close>

lemma open_frame:
  assumes "s' = s \<lparr> h_open := fds \<rparr>"
  shows "otfs_files s' = otfs_files s" "used s' = used s" "entry_name s' = entry_name s" "all_tidy s' = all_tidy s"
    "otfs_wf s \<Longrightarrow> open_wf s' \<Longrightarrow> otfs_wf s'"
proof -
  have f: "block_of s' = block_of s" "h_dir s' = h_dir s" "h_fat s' = h_fat s" "image s' = image s" "h_mounted s' = h_mounted s"
    "h_image_file s' = h_image_file s"
    by (simp_all add: assms fun_eq_iff)
  have e: "entry_chain s' = entry_chain s" "used s' = used s" "size_of s' = size_of s" "entry_name s' = entry_name s"
    by (simp_all add: fun_eq_iff entry_chain_def used_def size_of_def entry_name_def f)
  have g: "file_bytes s' = file_bytes s" "find_dir_entry s' = find_dir_entry s"
    by (rule ext, simp add: file_bytes_def find_dir_entry_def e f)+
  then have "file_content s' = file_content s"
    by (rule_tac ext) (simp add: file_content_def e)
  then show "otfs_files s' = otfs_files s"
    by (simp add: otfs_files_def [abs_def] g cong: if_cong)
  show "used s' = used s" "entry_name s' = entry_name s" "all_tidy s' = all_tidy s"
    using g by (simp_all add: e all_tidy_def tidy_def sized_def clean_def)
  show "otfs_wf s \<Longrightarrow> open_wf s' \<Longrightarrow> otfs_wf s'"
    by (simp add: otfs_wf_def chains_wf_def image_wf_def e f)
qed

lemma set_fd_wf:
  assumes "otfs_wf s" "s' = s \<lparr> h_open := (h_open s)[fd := f] \<rparr>" "f_in_use f \<noteq> 0 \<Longrightarrow> unat (f_dir_index f) \<in> used s"
  shows "otfs_wf s'"
proof -
  have o: "open_wf s" "length (h_open s) = FS_MAX_OPEN_FILES"
    using assms(1) by (auto simp: otfs_wf_def open_wf_def)
  have "unat (f_dir_index (h_open s' ! k)) \<in> used s" if "k < FS_MAX_OPEN_FILES" "f_in_use (h_open s' ! k) \<noteq> 0" for k
    using that o assms(3) by (cases "k = fd") (auto simp: assms(2) open_wf_def)
  then have "open_wf s'"
    using o(2) open_frame(2) [OF assms(2)] by (simp add: open_wf_def) (simp add: assms(2))
  then show ?thesis
    by (rule open_frame(5) [OF assms(2,1)])
qed

lemma install_fd:
  assumes "otfs_wf s" "i \<in> used s" "s' = s \<lparr> h_open := (h_open s)[fd := \<lparr> f_in_use = 1, f_dir_index = word_of_nat i, f_offset = 0, f_flags = flags \<rparr>] \<rparr>"
  shows "otfs_wf s'" "otfs_files s' = otfs_files s" "used s' = used s" "entry_name s' j = entry_name s j" "all_tidy s' = all_tidy s"
proof -
  have "unat (word_of_nat i :: u8) = i"
    using assms(2) by (simp add: used_def FS_MAX_FILES_def unat_of_nat)
  then show "otfs_wf s'"
    using set_fd_wf [OF assms(1,3)] assms(2) by simp
  show "otfs_files s' = otfs_files s" "used s' = used s" "entry_name s' j = entry_name s j" "all_tidy s' = all_tidy s"
    using open_frame [OF assms(3)] by simp_all
qed

lemma opened_effect:
  assumes "open_entry name flags s = (Inr i, s1)" "(r, s2) = (if and flags FS_O_TRUNC \<noteq> 0 then truncate_entry i s1 else (FS_OK, s1))"
    and "otfs_wf s" "CHR 0x00 \<notin> set name" "validate_name (Some name) = FS_OK"
  shows "otfs_wf s2" "i \<in> used s2" "entry_name s2 i = name" "otfs_files s2 = opened_files name flags s" "h_open s2 = h_open s"
    "r = FS_OK \<or> r = FS_ERR_IO \<and> \<not> steady s" "all_tidy s \<Longrightarrow> all_tidy s2" "name \<in> dom (otfs_files s) \<or> and flags FS_O_CREATE \<noteq> 0"
proof -
  note o = open_entry_effect [OF assms(1,3-5)]
  have i: "i \<in> used s1" "entry_name s1 i = name" "names_wf (h_dir s1)"
    "otfs_files s1 = (if name \<in> dom (otfs_files s) then otfs_files s else (otfs_files s)(name \<mapsto> []))"
    using o(1,5) by (auto simp: otfs_wf_def)
  show "name \<in> dom (otfs_files s) \<or> and flags FS_O_CREATE \<noteq> 0"
    using o(5) by simp
  have "otfs_wf s2 \<and> i \<in> used s2 \<and> entry_name s2 i = name \<and> otfs_files s2 = opened_files name flags s \<and> h_open s2 = h_open s \<and>
    (r = FS_OK \<or> r = FS_ERR_IO \<and> \<not> steady s) \<and> (all_tidy s \<longrightarrow> all_tidy s2)"
  proof (cases "and flags FS_O_TRUNC = 0")
    case True
    then show ?thesis
      using assms(2) o(1-4) i by (simp add: opened_files_def)
  next
    case False
    then have t: "truncate_entry i s1 = (r, s2)"
      using assms(2) by simp
    note te = truncate_effect [OF t o(1) i(1)]
    have "used s2 = used s1" "entry_name s2 i = name"
      using same_names_used [OF te(2) i(3)] same_names_entry_name [OF te(2) i(3,1)] i(2) by simp_all
    then show ?thesis
      using te(1,3-7) o(2-4) i False by (simp add: opened_files_def)
  qed
  then show "otfs_wf s2" "i \<in> used s2" "entry_name s2 i = name" "otfs_files s2 = opened_files name flags s" "h_open s2 = h_open s"
    "r = FS_OK \<or> r = FS_ERR_IO \<and> \<not> steady s" "all_tidy s \<Longrightarrow> all_tidy s2"
    by blast+
qed

lemma fs_open_run:
  assumes "h_mounted s \<noteq> 0" "validate_name (Some name) = FS_OK" "and flags (or FS_O_READ FS_O_WRITE) \<noteq> 0"
    and "\<not> (and flags FS_O_TRUNC \<noteq> 0 \<and> and flags FS_O_WRITE = 0)" "open_entry name flags s = (res, s1)"
  shows "fs_open (Some name) flags s = (case res of Inl rc \<Rightarrow> (rc, s1) | Inr i \<Rightarrow>
    let (rc, s) = (if and flags FS_O_TRUNC \<noteq> 0 then truncate_entry i s1 else (FS_OK, s1)) in
    if rc \<noteq> FS_OK then (rc, s)
    else case alloc_fd s of None \<Rightarrow> (FS_ERR_NO_SPACE, s)
      | Some fd \<Rightarrow> (int fd, s \<lparr> h_open := (h_open s)[fd := \<lparr> f_in_use = 1, f_dir_index = word_of_nat i, f_offset = 0, f_flags = flags \<rparr>] \<rparr>))"
  using assms by (cases res) (auto simp: fs_open_def validate_common_def)

lemma fs_open_effect:
  assumes "otfs_wf s" "CHR 0x00 \<notin> set name" "fs_open (Some name) flags s = (rc, s')"
  shows "otfs_wf s' \<and> (all_tidy s \<longrightarrow> all_tidy s') \<and>
    (if validate_name (Some name) \<noteq> FS_OK \<or> and flags (or FS_O_READ FS_O_WRITE) = 0 \<or>
        and flags FS_O_TRUNC \<noteq> 0 \<and> and flags FS_O_WRITE = 0 then rc = FS_ERR_ARG \<and> s' = s
     else if name \<notin> dom (otfs_files s) \<and> and flags FS_O_CREATE = 0 then rc = FS_ERR_NOT_FOUND \<and> s' = s
     else (\<exists>fd i. rc = int fd \<and> fd < FS_MAX_OPEN_FILES \<and> f_in_use (h_open s ! fd) = 0 \<and>
             h_open s' = (h_open s)[fd := \<lparr> f_in_use = 1, f_dir_index = word_of_nat i, f_offset = 0, f_flags = flags \<rparr>] \<and>
             i \<in> used s' \<and> entry_name s' i = name \<and> otfs_files s' = opened_files name flags s) \<or>
          rc = FS_ERR_NO_SPACE \<and> name \<notin> dom (otfs_files s) \<and> used s = {..<FS_MAX_FILES} \<and> s' = s \<or>
          rc = FS_ERR_NO_SPACE \<and> (\<forall>fd < FS_MAX_OPEN_FILES. f_in_use (h_open s ! fd) \<noteq> 0) \<and> otfs_files s' = opened_files name flags s \<or>
          rc = FS_ERR_IO \<and> \<not> steady s)"
proof (cases "validate_name (Some name) \<noteq> FS_OK \<or> and flags (or FS_O_READ FS_O_WRITE) = 0 \<or>
    and flags FS_O_TRUNC \<noteq> 0 \<and> and flags FS_O_WRITE = 0")
  case True
  moreover have "h_mounted s \<noteq> 0" "validate_name (Some name) = FS_OK \<or> validate_name (Some name) = FS_ERR_ARG"
    using assms(1) by (simp add: otfs_wf_def, simp add: validate_name_iff)
  ultimately have "rc = FS_ERR_ARG \<and> s' = s"
    using assms(3) by (auto simp: fs_open_def validate_common_def split: if_splits)
  then show ?thesis
    using True assms(1) by simp
next
  case False
  then have g: "validate_name (Some name) = FS_OK" "and flags (or FS_O_READ FS_O_WRITE) \<noteq> 0"
    "\<not> (and flags FS_O_TRUNC \<noteq> 0 \<and> and flags FS_O_WRITE = 0)" "h_mounted s \<noteq> 0"
    using assms(1) by (auto simp: otfs_wf_def)
  obtain res s1 where o: "open_entry name flags s = (res, s1)" by force
  note run = fs_open_run [OF g(4,1-3) o, unfolded assms(3)]
  note oe = open_entry_effect [OF o assms(1,2) g(1)]
  show ?thesis
  proof (cases res)
    case (Inl r)
    then show ?thesis
      using run oe False by auto
  next
    case (Inr i)
    obtain r s2 where t: "(r, s2) = (if and flags FS_O_TRUNC \<noteq> 0 then truncate_entry i s1 else (FS_OK, s1))"
      by (metis surj_pair)
    note e = opened_effect [OF o [unfolded Inr] t assms(1,2) g(1)]
    show ?thesis
    proof (cases "r = FS_OK \<and> alloc_fd s2 \<noteq> None")
      case fail: False
      then have "s' = s2" "rc = (if r \<noteq> FS_OK then r else FS_ERR_NO_SPACE)"
        using run Inr t [symmetric] by (auto split: if_splits)
      moreover have "alloc_fd s2 = None \<Longrightarrow> \<forall>fd < FS_MAX_OPEN_FILES. f_in_use (h_open s ! fd) \<noteq> 0"
        using e(5) by (simp add: alloc_fd_def find_index_None)
      ultimately show ?thesis
        using e False fail by (auto split: if_splits)
    next
      case True
      then obtain fd where fd: "alloc_fd s2 = Some fd" by auto
      then have f: "fd < FS_MAX_OPEN_FILES" "f_in_use (h_open s ! fd) = 0"
        using e(5) by (auto simp: alloc_fd_def find_index_Some)
      have r: "rc = int fd" "s' = s2 \<lparr> h_open := (h_open s2)[fd := \<lparr> f_in_use = 1, f_dir_index = word_of_nat i, f_offset = 0, f_flags = flags \<rparr>] \<rparr>"
        using run Inr t [symmetric] True fd by auto
      note n = install_fd [OF e(1,2) r(2)]
      have "h_open s' = (h_open s)[fd := \<lparr> f_in_use = 1, f_dir_index = word_of_nat i, f_offset = 0, f_flags = flags \<rparr>]"
        using r(2) e(5) by simp
      then have "\<exists>fd i. rc = int fd \<and> fd < FS_MAX_OPEN_FILES \<and> f_in_use (h_open s ! fd) = 0 \<and>
             h_open s' = (h_open s)[fd := \<lparr> f_in_use = 1, f_dir_index = word_of_nat i, f_offset = 0, f_flags = flags \<rparr>] \<and>
             i \<in> used s' \<and> entry_name s' i = name \<and> otfs_files s' = opened_files name flags s"
        using f r(1) n e(2-4) by (intro exI [of _ fd] exI [of _ i]) simp
      then show ?thesis
        unfolding if_not_P [OF False] using n(1,5) e(7,8) by (simp, blast)
    qed
  qed
qed

text \<open>
  C13: Opening a file: bad names and bad flags are refused, a missing file is found missing unless it is to
  be created; otherwise, on success, a descriptor that was free now refers to the file of that name, at
  offset 0 with the given flags, the file is empty if it is new or to be truncated, and all other files
  are as before. It fails only when all 32 entries are taken, when all descriptors are in use - then the
  file has already been created or truncated - or when a call of the host fails.
\<close>

theorem fs_open_spec:
  assumes "otfs_wf s" "CHR 0x00 \<notin> set name" "fs_open (Some name) flags s = (rc, s')"
  shows "otfs_wf s' \<and>
    (if validate_name (Some name) \<noteq> FS_OK \<or> and flags (or FS_O_READ FS_O_WRITE) = 0 \<or>
        and flags FS_O_TRUNC \<noteq> 0 \<and> and flags FS_O_WRITE = 0 then rc = FS_ERR_ARG \<and> s' = s
     else if name \<notin> dom (otfs_files s) \<and> and flags FS_O_CREATE = 0 then rc = FS_ERR_NOT_FOUND \<and> s' = s
     else (\<exists>fd i. rc = int fd \<and> fd < FS_MAX_OPEN_FILES \<and> f_in_use (h_open s ! fd) = 0 \<and>
             h_open s' = (h_open s)[fd := \<lparr> f_in_use = 1, f_dir_index = word_of_nat i, f_offset = 0, f_flags = flags \<rparr>] \<and>
             i \<in> used s' \<and> entry_name s' i = name \<and> otfs_files s' = opened_files name flags s) \<or>
          rc = FS_ERR_NO_SPACE \<and> name \<notin> dom (otfs_files s) \<and> used s = {..<FS_MAX_FILES} \<and> s' = s \<or>
          rc = FS_ERR_NO_SPACE \<and> (\<forall>fd < FS_MAX_OPEN_FILES. f_in_use (h_open s ! fd) \<noteq> 0) \<and> otfs_files s' = opened_files name flags s \<or>
          rc = FS_ERR_IO \<and> \<not> steady s)"
  using fs_open_effect [OF assms] by blast

end
