(* ===== verification/OtfsMount.thy ===== *)
theory OtfsMount
  imports OtfsSpec
begin

text \<open>
  OTFS as a whole: sequences of operations keep the invariant, and the files survive unmounting and
  mounting again.
\<close>

subsection \<open>Sequences of operations\<close>

lemma read_loop_moved:
  assumes "read_loop fd i len copied buf s = (rc, b, s')" "file_wf s i"
  shows "moved fd s s'"
  using assms
proof (induction fd i len copied buf s rule: read_loop.induct)
  case (1 fd i len copied buf s)
  let ?c = "chunk_size (f_offset (h_open s ! fd)) (len - copied)"
  obtain r d t where t: "read_chunk fd i ?c s = (r, d, t)"
    using prod_cases3 by blast
  have m: "moved fd s t"
  proof -
    obtain r1 x u where u: "resolve_data_block i (unat (f_offset (h_open s ! fd)) div FS_BLOCK_SIZE) False s = (r1, x, u)"
      using prod_cases3 by blast
    note rr = resolve_read [OF "1.prems"(2) u]
    show ?thesis
    proof (cases "r1 = FS_OK")
      case False
      then show ?thesis
        using t u rr by (simp add: read_chunk_def Let_def)
    next
      case True
      then have v: "valid_block_index x" "image_wf s"
        using rr "1.prems"(2) chain_ok_valid by (auto simp: file_wf_def)
      obtain r2 blk w where w: "read_data_block x s = (r2, blk, w)"
        using prod_cases3 by blast
      show ?thesis
        using t u rr True w read_block(1) [OF w v, of fd] moved_trans [OF read_block(1) [OF w v] set_offset_moved]
        by (auto simp: read_chunk_def Let_def split: if_splits)
    qed
  qed
  have step: "read_loop fd i len copied buf s = (if copied < len then
      if r \<noteq> FS_OK then (r, buf, t) else read_loop fd i len (copied + ?c) (buf @ d) t else (FS_OK, buf, s))"
    by (subst read_loop.simps) (simp add: t)
  show ?case
  proof (cases "copied < len \<and> r = FS_OK")
    case True
    then have nr: "\<not> r \<noteq> FS_OK" "read_loop fd i len (copied + ?c) (buf @ d) t = (rc, b, s')" "file_wf t i" "copied < len"
      using step "1.prems" moved_frame(5) [OF m] by auto
    have "moved fd t s'"
      by (rule "1.IH" [OF nr(4) refl t [symmetric] refl refl nr(1-3)])
    then show ?thesis
      by (rule moved_trans [OF m])
  next
    case False
    then show ?thesis
      using step "1.prems"(1) m by (auto split: if_splits)
  qed
qed

datatype otfs_call =
    Call_open string u32
  | Call_close int
  | Call_seek int u32
  | Call_read int nat
  | Call_write int "u8 list"

text \<open>Names are texts without NUL.\<close>

fun call_ok :: "otfs_call \<Rightarrow> bool" where
  "call_ok (Call_open name flags) \<longleftrightarrow> CHR 0x00 \<notin> set name"
| "call_ok call \<longleftrightarrow> True"

fun otfs_step :: "otfs \<Rightarrow> otfs_call \<Rightarrow> int \<times> otfs" where
  "otfs_step s (Call_open name flags) = fs_open (Some name) flags s"
| "otfs_step s (Call_close fd) = fs_close fd s"
| "otfs_step s (Call_seek fd off) = fs_seek fd off s"
| "otfs_step s (Call_read fd len) = (case fs_read fd len s of (rc, buf, n, s) \<Rightarrow> (rc, s))"
| "otfs_step s (Call_write fd buf) = (case fs_write fd buf s of (rc, n, s) \<Rightarrow> (rc, s))"

text \<open>A write that fails, or that is empty and may lie beyond the end, can leave a size and blocks that do not fit.\<close>

fun keeps_tidy :: "otfs_call \<Rightarrow> int \<Rightarrow> bool" where
  "keeps_tidy (Call_write fd buf) rc \<longleftrightarrow> rc = FS_OK \<and> buf \<noteq> []"
| "keeps_tidy call rc \<longleftrightarrow> True"

lemma close_wf:
  assumes "fs_close fd s = (rc, s')" "otfs_wf s"
  shows "otfs_wf s'" "otfs_files s' = otfs_files s" "all_tidy s' = all_tidy s"
proof -
  consider "s' = s" | "s' = s \<lparr> h_open := (h_open s)[nat fd := zero_file] \<rparr>"
    using assms(1) by (auto simp: fs_close_def split: if_splits)
  then have "otfs_wf s' \<and> otfs_files s' = otfs_files s \<and> all_tidy s' = all_tidy s"
  proof cases
    case 2
    then show ?thesis
      using set_fd_wf [OF assms(2) 2] open_frame [OF 2] by (simp add: zero_file_def)
  qed (use assms(2) in simp)
  then show "otfs_wf s'" "otfs_files s' = otfs_files s" "all_tidy s' = all_tidy s"
    by blast+
qed

lemma moved_tidy: "moved fd s s' \<Longrightarrow> all_tidy s' = all_tidy s"
  using moved_frame [of fd s s'] by (simp add: all_tidy_def tidy_def sized_def clean_def)

lemma seek_moved: "fs_seek fd off s = (rc, s') \<Longrightarrow> moved (nat fd) s s'"
  using set_offset_moved by (auto simp: fs_seek_def split: if_splits)

lemma read_moved:
  assumes "fs_read fd len s = (rc, buf, n, s')" "otfs_wf s"
  shows "moved (nat fd) s s'"
proof (cases "validate_common s = FS_OK \<and> valid_fd fd \<and> f_in_use (h_open s ! nat fd) \<noteq> 0")
  case True
  let ?i = "unat (f_dir_index (h_open s ! nat fd))"
  let ?len = "min len (unat (de_size_bytes (h_dir s ! ?i) - f_offset (h_open s ! nat fd)))"
  have "?i \<in> used s"
    using True assms(2) by (auto simp: otfs_wf_def open_wf_def valid_fd_def)
  moreover obtain r b t where t: "read_loop (nat fd) ?i ?len 0 [] s = (r, b, t)"
    using prod_cases3 by blast
  ultimately have "moved (nat fd) s t"
    using read_loop_moved otfs_wf_file [OF assms(2)] by blast
  then show ?thesis
    using assms(1) True t by (auto simp: fs_read_def Let_def split: if_splits)
next
  case False
  then have "s' = s"
    using assms(1) by (auto simp: fs_read_def Let_def split: if_splits)
  then show ?thesis by simp
qed

lemma write_wf:
  assumes "fs_write fd buf s = (rc, n, s')" "otfs_wf s"
  shows "otfs_wf s'" "rc = FS_OK \<Longrightarrow> buf \<noteq> [] \<Longrightarrow> all_tidy s \<Longrightarrow> all_tidy s'"
proof -
  have "otfs_wf s' \<and> (rc = FS_OK \<and> buf \<noteq> [] \<and> all_tidy s \<longrightarrow> all_tidy s')"
  proof (cases "validate_common s = FS_OK \<and> valid_fd fd \<and> f_in_use (h_open s ! nat fd) \<noteq> 0 \<and> and (f_flags (h_open s ! nat fd)) FS_O_WRITE \<noteq> 0")
    case False
    then have "s' = s"
      using assms(1) by (auto simp: fs_write_def Let_def split: if_splits)
    then show ?thesis
      using assms(2) by simp
  next
    case True
    let ?i = "unat (f_dir_index (h_open s ! nat fd))"
    have fd: "nat fd < FS_MAX_OPEN_FILES" "fs_write (int (nat fd)) buf s = (rc, n, s')" "f_in_use (h_open s ! nat fd) \<noteq> 0"
      "and (f_flags (h_open s ! nat fd)) FS_O_WRITE \<noteq> 0"
      using True assms(1) by (auto simp: valid_fd_def)
    then have i: "?i \<in> used s"
      using assms(2) by (auto simp: otfs_wf_def open_wf_def)
    note w = fs_write_bytes [OF assms(2) fd(1,3,4) refl fd(2) refl]
    have "tidy s' j" if ok: "rc = FS_OK" "buf \<noteq> []" "all_tidy s" and j: "j \<in> used s" for j
    proof -
      have u: "used s' = used s" "j \<noteq> ?i \<Longrightarrow> file_bytes s' j = file_bytes s j \<and> size_of s' j = size_of s j"
        using w ok(1) j by (auto simp: fs_codes)
      have bytes: "entry_chain x j = [] \<longleftrightarrow> file_bytes x j = []" if "otfs_wf x" "j \<in> used x" for x
        using file_bytes_length [OF otfs_wf_file [OF that]] by (simp add: FS_BLOCK_SIZE_def flip: length_0_conv)
      have tj: "sized s j" "clean s j" "size_of s j = 0 \<longleftrightarrow> entry_chain s j = []"
        using ok(3) j by (simp_all add: all_tidy_def tidy_def)
      show ?thesis
      proof (cases "j = ?i")
        case False
        then show ?thesis
          using tj u bytes [OF _ j] bytes [of s'] assms(2) w j by (simp add: tidy_def sized_def clean_def)
      next
        case True
        obtain k where k: "unat (f_offset (h_open s ! nat fd)) + length buf \<le> length (file_bytes s j) + k"
          "file_bytes s' j = overwrite (unat (f_offset (h_open s ! nat fd))) buf (file_bytes s j @ replicate k 0)"
          "size_of s' j = max (size_of s j) (unat (f_offset (h_open s ! nat fd)) + length buf)"
          using w ok(1,2) True by (auto simp: fs_codes)
        note c = clean_write [OF tj(1,2) ok(2) k]
        have "file_bytes s' j \<noteq> []" "size_of s' j \<noteq> 0"
          using k(2,3) ok(2) by (auto simp: overwrite_def)
        then show ?thesis
          using c(2,3) bytes [of s'] w u(1) j by (simp add: tidy_def)
      qed
    qed
    then show ?thesis
      using w by (auto simp: all_tidy_def fs_codes)
  qed
  then show "otfs_wf s'" "rc = FS_OK \<Longrightarrow> buf \<noteq> [] \<Longrightarrow> all_tidy s \<Longrightarrow> all_tidy s'"
    by blast+
qed

lemma otfs_step_wf:
  assumes "otfs_step s call = (rc, s')" "otfs_wf s" "call_ok call"
  shows "otfs_wf s'" "all_tidy s \<Longrightarrow> keeps_tidy call rc \<Longrightarrow> all_tidy s'"
proof -
  have "otfs_wf s' \<and> (all_tidy s \<and> keeps_tidy call rc \<longrightarrow> all_tidy s')"
  proof (cases call)
    case (Call_open name flags)
    then show ?thesis
      using fs_open_effect [of s name flags rc s'] assms by simp
  next
    case (Call_close fd)
    then show ?thesis
      using close_wf [of fd s rc s'] assms by simp
  next
    case (Call_seek fd off)
    then show ?thesis
      using seek_moved [of fd off s rc s'] moved_wf moved_tidy assms by fastforce
  next
    case (Call_read fd len)
    then show ?thesis
      using read_moved [of fd len s] moved_wf moved_tidy assms by (fastforce split: prod.splits)
  next
    case (Call_write fd buf)
    then show ?thesis
      using write_wf [of fd buf s] assms by (auto split: prod.splits)
  qed
  then show "otfs_wf s'" "all_tidy s \<Longrightarrow> keeps_tidy call rc \<Longrightarrow> all_tidy s'"
    by blast+
qed

text \<open>Runs of calls, as those of a machine that never stops.\<close>

definition otfs_next :: "otfs \<Rightarrow> otfs_call \<Rightarrow> otfs option" where
  "otfs_next s call = Some (snd (otfs_step s call))"

interpretation disk: safe_machine otfs_next call_ok otfs_wf
  by unfold_locales (metis otfs_next_def otfs_step_wf(1) surjective_pairing)

fun tidy_run :: "otfs \<Rightarrow> otfs_call list \<Rightarrow> bool" where
  "tidy_run s [] \<longleftrightarrow> True"
| "tidy_run s (call # calls) \<longleftrightarrow>
     (case otfs_step s call of (rc, s) \<Rightarrow> keeps_tidy call rc \<and> tidy_run s calls)"

text \<open>No call changes which image is mounted, or how its host behaves.\<close>

definition same_place :: "otfs \<Rightarrow> otfs \<Rightarrow> bool" where
  "same_place s s' \<longleftrightarrow> h_image_file s' = h_image_file s \<and> io_faults (st_host s') = io_faults (st_host s)"

lemma same_image_write: "fs_seek_and_write off buf s = (rc, s') \<Longrightarrow> same_place s s'"
  by (auto simp: same_place_def fs_seek_and_write_def seek_and_write_def io_step_def split: prod.splits option.splits)

lemma same_image_sync: "sync_metadata s = (rc, s') \<Longrightarrow> same_place s s'"
  by (auto simp: same_place_def sync_metadata_def split: prod.splits if_splits dest!: same_image_write)

lemma same_image_allocate: "allocate_data_block b s = (rc, x, s') \<Longrightarrow> same_place s s'"
  by (auto simp: same_place_def allocate_data_block_def Let_def split: prod.splits if_splits option.splits dest!: same_image_write)

lemma same_image_steps: "resolve_steps n allocate cur s = (rc, x, s') \<Longrightarrow> same_place s s'"
  by (induction n allocate cur s rule: resolve_steps.induct)
    (auto simp: same_place_def Let_def split: prod.splits if_splits dest!: same_image_allocate)

lemma same_image_resolve: "resolve_data_block i n allocate s = (rc, x, s') \<Longrightarrow> same_place s s'"
  by (auto simp: same_place_def resolve_data_block_def Let_def set_first_block_def split: prod.splits if_splits
      dest!: same_image_allocate same_image_steps)

lemma same_image_blocks:
  "read_data_block x s = (rc, b, s') \<Longrightarrow> same_place s s'"
  "write_data_block x b s = (rc, s') \<Longrightarrow> same_place s s'"
  by (auto simp: same_place_def read_data_block_def write_data_block_def seek_and_read_def io_step_def split: prod.splits if_splits dest!: same_image_write)

lemma same_image_chunks:
  "read_chunk fd i n s = (rc, b, s') \<Longrightarrow> same_place s s'"
  "write_chunk fd i b s = (rc, s') \<Longrightarrow> same_place s s'"
  by (auto simp: same_place_def read_chunk_def write_chunk_def store_chunk_def Let_def set_offset_def split: prod.splits if_splits
      dest!: same_image_resolve same_image_blocks)

lemma same_image_read_loop: "read_loop fd i len copied buf s = (rc, b, s') \<Longrightarrow> same_place s s'"
proof (induction fd i len copied buf s rule: read_loop.induct)
  case (1 fd i len copied buf s)
  show ?case
    using "1.prems" "1.IH" [OF _ refl refl]
    unfolding read_loop.simps [of fd i len copied]
    by (fastforce simp: same_place_def Let_def split: prod.splits if_splits dest!: same_image_chunks)
qed

lemma same_image_write_loop: "write_loop fd i buf copied s = (rc, n, s') \<Longrightarrow> same_place s s'"
proof (induction fd i buf copied s rule: write_loop.induct)
  case (1 fd i buf copied s)
  show ?case
    using "1.prems" "1.IH" [OF _ refl refl]
    unfolding write_loop.simps [of fd i buf copied]
    by (fastforce simp: same_place_def Let_def split: prod.splits if_splits dest!: same_image_chunks)
qed

lemma same_image_open: "fs_open name flags s = (rc, s') \<Longrightarrow> same_place s s'"
  by (auto simp: same_place_def fs_open_def open_entry_def truncate_entry_def release_chain_def alloc_dir_entry_def set_size_def set_first_block_def Let_def
      split: prod.splits if_splits option.splits sum.splits dest!: same_image_sync)

lemma otfs_step_image: "otfs_step s call = (rc, s') \<Longrightarrow> same_place s s'"
  by (cases call)
    (auto simp: same_place_def fs_close_def fs_seek_def fs_read_def fs_write_def finish_write_def set_offset_def set_size_def Let_def
      split: prod.splits if_splits dest!: same_image_open same_image_sync same_image_read_loop same_image_write_loop)

lemma tidy_run_keeps:
  "run_steps otfs_next s calls = Some s' \<Longrightarrow> otfs_wf s \<Longrightarrow> list_all call_ok calls \<Longrightarrow> all_tidy s \<Longrightarrow> tidy_run s calls \<Longrightarrow>
   otfs_wf s' \<and> all_tidy s' \<and> h_image_file s' = h_image_file s"
proof (induction calls arbitrary: s)
  case (Cons call calls)
  obtain rc t where t: "otfs_step s call = (rc, t)" by force
  then have "otfs_wf t" "all_tidy t" "h_image_file t = h_image_file s"
    using otfs_step_wf [OF t] otfs_step_image [OF t] Cons.prems by (auto simp: same_place_def)
  then show ?case
    using Cons.IH [of t] Cons.prems t by (simp add: otfs_next_def)
qed simp

subsection \<open>Mounting\<close>

lemma fat_bytes_inverse: "length fat = FS_TOTAL_BLOCKS \<Longrightarrow> bytes_fat (fat_bytes fat) = take FS_DATA_BLOCK_COUNT fat"
proof -
  assume l: "length fat = FS_TOTAL_BLOCKS"
  then have n: "length (take FS_DATA_BLOCK_COUNT fat) = FS_DATA_BLOCK_COUNT"
    by (simp add: fs_layout)
  have "bytes_u32 (slice_at (i * 4) 4 (fat_bytes fat)) = fat ! i" if "i < FS_DATA_BLOCK_COUNT" for i
    using slice_at_concat [of "take FS_DATA_BLOCK_COUNT fat" u32_bytes 4 i] that n by (simp add: fat_bytes_def)
  then show ?thesis
    using n by (intro nth_equalityI) (simp_all add: bytes_fat_def)
qed

lemma required_blocks:
  fixes n :: u32
  assumes "unat n \<le> FS_DATA_BLOCK_COUNT * FS_BLOCK_SIZE"
  shows "unat ((n + (word_of_nat FS_BLOCK_SIZE - 1)) div word_of_nat FS_BLOCK_SIZE) = (unat n + 511) div FS_BLOCK_SIZE"
proof -
  have "unat (n + 511) = unat n + 511"
    using assms by (subst unat_add_no_wrap) (simp_all add: fs_layout)
  then show ?thesis
    by (simp add: unat_div FS_BLOCK_SIZE_def)
qed

lemma tidy_chain_valid:
  assumes "otfs_wf s" "i \<in> used s" "tidy s i"
  shows "validate_entry_chain (h_fat s) (h_dir s ! i) = FS_OK"
proof -
  let ?e = "h_dir s ! i" and ?c = "entry_chain s i"
  note f = otfs_wf_file [OF assms(1,2)]
  have c: "chain_ok (h_fat s) (de_first_block ?e) ?c"
    using f by (simp add: file_wf_def)
  have size: "size_of s i \<le> length ?c * FS_BLOCK_SIZE" "size_of s i = 0 \<longleftrightarrow> ?c = []"
    using assms(3) file_bytes_length [OF f] by (auto simp: tidy_def sized_def)
  have "length ?c \<le> FS_DATA_BLOCK_COUNT"
    by (rule chain_ok_length [OF c])
  then have "unat (de_size_bytes ?e) \<le> FS_DATA_BLOCK_COUNT * FS_BLOCK_SIZE"
    using size(1) order_trans mult_le_mono1 by (fastforce simp: size_of_def)
  note rq = required_blocks [OF this]
  let ?r = "(de_size_bytes ?e + (word_of_nat FS_BLOCK_SIZE - 1)) div word_of_nat FS_BLOCK_SIZE :: u32"
  have zero: "?r = 0 \<longleftrightarrow> ?c = []"
  proof -
    have "?r = 0 \<longleftrightarrow> unat ?r = 0"
      by (simp only: unat_eq_0)
    also have "\<dots> \<longleftrightarrow> (size_of s i + 511) div FS_BLOCK_SIZE = 0"
      unfolding rq size_of_def ..
    also have "\<dots> \<longleftrightarrow> size_of s i = 0"
      by (simp add: FS_BLOCK_SIZE_def div_eq_0_iff)
    finally show ?thesis
      using size(2) by simp
  qed
  have w: "walk_chain (h_fat s) (de_first_block ?e) 0 = Some (length ?c)"
    using c chain_eq [OF c] by (simp add: walk_chain_zero)
  have "unat ?r \<le> length ?c"
    unfolding rq using size(1) by (simp add: size_of_def FS_BLOCK_SIZE_def)
  then show ?thesis
    using zero w file_wf_first [OF f] by (cases "?c = []") (simp_all add: validate_entry_chain_def Let_def)
qed

lemma validate_tidy:
  assumes "otfs_wf s" "all_tidy s"
  shows "validate_metadata (h_dir s) (h_fat s) = FS_OK"
proof -
  have "entry_valid (h_fat s) (h_dir s ! i)" if "i < FS_MAX_FILES" for i
    using that assms tidy_chain_valid [OF assms(1), of i]
    by (auto simp: entry_valid_def otfs_wf_def names_wf_def name_ok_def used_def all_tidy_def)
  then have "list_all (entry_valid (h_fat s)) (h_dir s)"
    using assms(1) by (auto simp: otfs_wf_def names_wf_def list_all_length)
  then show ?thesis
    using assms(1) by (simp add: validate_metadata_def otfs_wf_def names_wf_def chains_wf_def)
qed

text \<open>Only the entries of the table that name data blocks matter.\<close>

lemma fat_tail:
  assumes "otfs_wf s" "all_tidy s" "length fat = FS_TOTAL_BLOCKS" "take FS_DATA_BLOCK_COUNT fat = take FS_DATA_BLOCK_COUNT (h_fat s)"
    and "h_dir s' = h_dir s" "h_fat s' = fat" "block_of s' = block_of s"
  shows "entry_chain s' i = entry_chain s i \<or> i \<notin> used s" "chains_wf s'" "i \<in> used s \<Longrightarrow> file_bytes s' i = file_bytes s i"
    "validate_metadata (h_dir s) fat = FS_OK"
proof -
  have fat: "fat ! unat x = h_fat s ! unat x" if "valid_block_index x" for x
    using that assms(4) by (metis nth_take valid_block_index_def)
  have u: "used s' = used s"
    by (simp add: used_def assms(5))
  have c: "entry_chain s' i = entry_chain s i" "chain_ok fat (de_first_block (h_dir s' ! i)) (entry_chain s i)" if "i \<in> used s" for i
  proof -
    have c: "chain_ok (h_fat s) (de_first_block (h_dir s ! i)) (entry_chain s i)"
      using otfs_wf_file [OF assms(1) that] by (simp add: file_wf_def)
    show "chain_ok fat (de_first_block (h_dir s' ! i)) (entry_chain s i)"
      unfolding assms(5) by (rule chain_ok_cong [OF c]) (use fat chain_ok_valid [OF c] in blast)
    then show "entry_chain s' i = entry_chain s i"
      using chain_eq by (simp add: entry_chain_def assms(6))
  qed
  then show "entry_chain s' i = entry_chain s i \<or> i \<notin> used s" by blast
  have fv: "fat_entries_valid fat"
    using assms(1,4) by (simp add: fat_entries_valid_def otfs_wf_def chains_wf_def)
  then show "chains_wf s'"
    using c assms(1) unfolding chains_wf_def u assms(6) by (simp add: otfs_wf_def chains_wf_def)
  show "i \<in> used s \<Longrightarrow> file_bytes s' i = file_bytes s i"
    using c(1) assms(7) by (simp add: file_bytes_def)
  let ?t = "s \<lparr> h_fat := fat \<rparr>"
  have "otfs_wf ?t \<and> all_tidy ?t"
  proof -
    have t: "used ?t = used s" "h_dir ?t = h_dir s" "block_of ?t = block_of s" "size_of ?t = size_of s"
      by (simp_all add: used_def fun_eq_iff size_of_def)
    have e: "entry_chain ?t i = entry_chain s i" if "i \<in> used s" for i
      using c [OF that] by (simp add: entry_chain_def assms(5,6))
    then have "file_bytes ?t i = file_bytes s i" if "i \<in> used s" for i
      using that t by (simp add: file_bytes_def)
    then have "all_tidy ?t"
      using assms(2) e t by (simp add: all_tidy_def tidy_def sized_def clean_def)
    moreover have "chains_wf ?t"
      using c fv e assms(1) t unfolding chains_wf_def by (simp add: otfs_wf_def chains_wf_def assms(5))
    ultimately show ?thesis
      using assms(1,3) t by (simp add: otfs_wf_def open_wf_def image_wf_def)
  qed
  then show "validate_metadata (h_dir s) fat = FS_OK"
    using validate_tidy [of ?t] by simp
qed

lemma read_step:
  assumes "seek_and_read p off len h = (rc, b, h')" "off + len \<le> length (host_bytes h p)"
  shows "host_files h' = host_files h" "io_faults h' = io_faults h"
    "rc = FS_OK \<and> b = slice_at off len (host_bytes h p) \<or> rc = FS_ERR_IO \<and> (\<exists>n. io_faults h n \<noteq> None)"
  using assms by (auto simp: seek_and_read_def io_step_def host_bytes_def split: if_splits)

text \<open>The handle after a successful mount.\<close>

definition mounted_handle :: "string \<Rightarrow> host \<Rightarrow> fs_dir_entry_disk list \<Rightarrow> u32 list \<Rightarrow> otfs \<Rightarrow> otfs" where
  "mounted_handle p h es fat s = (fs_init s) \<lparr> st_host := h, h_dir := es, h_fat := fat, h_image_file := Some p,
     h_mounted := 1, h_block_size := word_of_nat FS_BLOCK_SIZE, h_data_start_block := word_of_nat FS_DATA_START_BLOCK,
     h_data_blocks := word_of_nat FS_DATA_BLOCK_COUNT \<rparr>"

lemma fs_mount_run:
  assumes "io_step (st_host s) = (None, h0)" "host_files h0 p \<noteq> None"
    and "seek_and_read p 0 FS_SUPERBLOCK_SIZE h0 = (FS_OK, sb, h1)" "superblock_ok (bytes_superblock sb)"
    and "seek_and_read p (block_offset FS_DIR_START_BLOCK) (FS_MAX_FILES * FS_DIR_ENTRY_SIZE) h1 = (FS_OK, dir, h2)"
    and "seek_and_read p (block_offset FS_FAT_START_BLOCK) (FS_FAT_BLOCK_COUNT * FS_BLOCK_SIZE) h2 = (FS_OK, fat, h3)"
    and "fat' = bytes_fat fat @ drop FS_DATA_BLOCK_COUNT (h_fat (fs_init s))"
  shows "fs_mount (Some p) s =
    (if validate_metadata (bytes_dir dir) fat' \<noteq> FS_OK then (FS_ERR_STATE, close_image ((fs_init s) \<lparr> h_dir := bytes_dir dir, st_host := h3, h_fat := fat' \<rparr>))
     else (FS_OK, mounted_handle p h3 (bytes_dir dir) fat' s))"
proof -
  have "st_host (fs_init s) = st_host s"
    by (simp add: fs_init_def)
  then show ?thesis
    using assms by (auto simp: fs_mount_def mounted_handle_def Let_def)
qed

lemma names_wf_entries: "names_wf es \<Longrightarrow> length es = FS_MAX_FILES \<and> (\<forall>e \<in> set es. entry_ok e)"
  by (auto simp: names_wf_def in_set_conv_nth)

lemma mounted_same:
  assumes "otfs_wf v" "all_tidy v" "h_dir s' = h_dir v" "h_fat s' = fat" "image s' = image v" "length fat = FS_TOTAL_BLOCKS"
    and "take FS_DATA_BLOCK_COUNT fat = take FS_DATA_BLOCK_COUNT (h_fat v)" "h_mounted s' = 1" "h_image_file s' = Some p"
    and "h_open s' = replicate FS_MAX_OPEN_FILES zero_file"
  shows "otfs_wf s'" "all_tidy s'" "otfs_files s' = otfs_files v"
proof -
  have b: "block_of s' = block_of v"
    using assms(5) by (simp add: fun_eq_iff block_of_def)
  note t = fat_tail [OF assms(1,2,6,7,3,4) b]
  have n: "same_names v s'" "names_wf (h_dir v)" "used s' = used v" "size_of s' i = size_of v i" for i
    using assms(1,3) by (auto simp: same_names_def otfs_wf_def used_def size_of_def)
  show "otfs_files s' = otfs_files v"
    by (rule otfs_files_same [OF n(2,1)]) (simp add: file_content_def t(3) n(4))
  show "all_tidy s'"
    unfolding all_tidy_def n(3)
  proof
    fix i
    assume "i \<in> used v"
    then show "tidy s' i"
      using assms(2) t(1) [of i] t(3) [of i] n(4) [of i] by (auto simp: all_tidy_def tidy_def sized_def clean_def)
  qed
  have "open_wf s'"
    using assms(10) by (simp add: open_wf_def zero_file_def)
  then show "otfs_wf s'"
    using assms t(2) by (simp add: otfs_wf_def image_wf_def)
qed

text \<open>
  Mounting an image that holds the metadata of a well-formed state \<open>v\<close>: unless a call of the host fails,
  the metadata are read as they were written, and checked.
\<close>

lemma mount_reads:
  assumes "otfs_wf v" "h_image_file v = Some p"
    and "slice_at (block_offset FS_DIR_START_BLOCK) (FS_MAX_FILES * FS_DIR_ENTRY_SIZE) (image v) = dir_bytes (h_dir v)"
    and "slice_at (block_offset FS_FAT_START_BLOCK) (FS_FAT_BLOCK_COUNT * FS_BLOCK_SIZE) (image v) = fat_bytes (h_fat v)"
    and "host_files (st_host s) p = Some (image v)" "fs_mount (Some p) s = (rc, s')"
  shows "(\<exists>h fat. length fat = FS_TOTAL_BLOCKS \<and> take FS_DATA_BLOCK_COUNT fat = take FS_DATA_BLOCK_COUNT (h_fat v) \<and>
      host_files h = host_files (st_host s) \<and>
      (if validate_metadata (h_dir v) fat \<noteq> FS_OK then rc = FS_ERR_STATE
       else rc = FS_OK \<and> s' = mounted_handle p h (h_dir v) fat s)) \<or> rc = FS_ERR_IO \<and> \<not> steady s"
proof -
  have w: "names_wf (h_dir v)" "length (image v) = FS_TOTAL_BLOCKS * FS_BLOCK_SIZE" "length (h_fat v) = FS_TOTAL_BLOCKS"
    "superblock_ok (bytes_superblock (slice_at 0 FS_SUPERBLOCK_SIZE (image v)))"
    using assms(1) by (auto simp: otfs_wf_def image_wf_def)
  obtain f h0 where h0: "io_step (st_host s) = (f, h0)" by force
  then have b0: "host_files h0 p = Some (image v)" "host_bytes h0 p = image v" "io_faults h0 = io_faults (st_host s)"
    "f = None \<or> \<not> steady s" "host_files h0 = host_files (st_host s)"
    using assms(5) by (auto simp: io_step_def host_bytes_def steady_def)
  have len: "0 + FS_SUPERBLOCK_SIZE \<le> length (image v)"
    "block_offset FS_DIR_START_BLOCK + FS_MAX_FILES * FS_DIR_ENTRY_SIZE \<le> length (image v)"
    "block_offset FS_FAT_START_BLOCK + FS_FAT_BLOCK_COUNT * FS_BLOCK_SIZE \<le> length (image v)"
    unfolding w(2) by (simp_all add: block_offset_def fs_layout)
  obtain r1 d1 h1 where r1: "seek_and_read p 0 FS_SUPERBLOCK_SIZE h0 = (r1, d1, h1)"
    using prod_cases3 by blast
  note s1 = read_step [OF r1, unfolded b0(2), OF len(1)]
  then have b1: "host_bytes h1 p = image v"
    using b0(1) by (simp add: host_bytes_def)
  obtain r2 d2 h2 where r2: "seek_and_read p (block_offset FS_DIR_START_BLOCK) (FS_MAX_FILES * FS_DIR_ENTRY_SIZE) h1 = (r2, d2, h2)"
    using prod_cases3 by blast
  note s2 = read_step [OF r2, unfolded b1, OF len(2)]
  then have b2: "host_bytes h2 p = image v"
    using b0(1) s1(1) by (simp add: host_bytes_def)
  obtain r3 d3 h3 where r3: "seek_and_read p (block_offset FS_FAT_START_BLOCK) (FS_FAT_BLOCK_COUNT * FS_BLOCK_SIZE) h2 = (r3, d3, h3)"
    using prod_cases3 by blast
  note s3 = read_step [OF r3, unfolded b2, OF len(3)]
  have init: "st_host (fs_init s) = st_host s" "h_fat (fs_init s) = replicate FS_TOTAL_BLOCKS 0"
    by (simp_all add: fs_init_def)
  show ?thesis
  proof (cases "f = None \<and> r1 = FS_OK \<and> r2 = FS_OK \<and> r3 = FS_OK")
    case False
    then have "rc = FS_ERR_IO"
      using assms(6) h0 b0(1) r1 r2 r3 s1(3) s2(3) s3(3) w(4) init(1) by (auto simp: fs_mount_def Let_def split: if_splits)
    moreover have "\<not> steady s"
      using False b0(3,4) s1(2,3) s2(2,3) s3(3) by (auto simp: steady_def)
    ultimately show ?thesis by blast
  next
    case True
    then have d: "d1 = slice_at 0 FS_SUPERBLOCK_SIZE (image v)" "bytes_dir d2 = h_dir v" "bytes_fat d3 = take FS_DATA_BLOCK_COUNT (h_fat v)"
      using s1(3) s2(3) s3(3) assms(3,4) fat_bytes_inverse [OF w(3)] dir_bytes_inverse [of "h_dir v"] names_wf_entries [OF w(1)]
      by auto
    define fat where "fat = take FS_DATA_BLOCK_COUNT (h_fat v) @ drop FS_DATA_BLOCK_COUNT (h_fat (fs_init s))"
    have fat: "length fat = FS_TOTAL_BLOCKS" "take FS_DATA_BLOCK_COUNT fat = take FS_DATA_BLOCK_COUNT (h_fat v)"
      using w(3) init(2) by (simp_all add: fat_def fs_layout)
    have "host_files h3 = host_files (st_host s)"
      using s1(1) s2(1) s3(1) b0(5) by simp
    moreover have "(rc, s') = (if validate_metadata (h_dir v) fat \<noteq> FS_OK
        then (FS_ERR_STATE, close_image ((fs_init s) \<lparr> h_dir := h_dir v, st_host := h3, h_fat := fat \<rparr>)) else (FS_OK, mounted_handle p h3 (h_dir v) fat s))"
      using fs_mount_run [of s h0 p d1 h1 d2 h2 d3 h3 fat] True h0 b0(1) r1 r2 r3 d w(4) assms(6) by (simp add: fat_def)
    ultimately show ?thesis
      using fat by (intro disjI1 exI [of _ h3] exI [of _ fat]) (auto split: if_splits)
  qed
qed

text \<open>A tidy state is accepted, and has its files.\<close>

lemma mount_image:
  assumes "otfs_wf v" "all_tidy v" "h_image_file v = Some p"
    and "slice_at (block_offset FS_DIR_START_BLOCK) (FS_MAX_FILES * FS_DIR_ENTRY_SIZE) (image v) = dir_bytes (h_dir v)"
    and "slice_at (block_offset FS_FAT_START_BLOCK) (FS_FAT_BLOCK_COUNT * FS_BLOCK_SIZE) (image v) = fat_bytes (h_fat v)"
    and "host_files (st_host s) p = Some (image v)" "fs_mount (Some p) s = (rc, s')"
  shows "rc = FS_OK \<and> otfs_wf s' \<and> all_tidy s' \<and> otfs_files s' = otfs_files v \<and> h_image_file s' = Some p \<and>
      take FS_DATA_BLOCK_COUNT (h_fat s') = take FS_DATA_BLOCK_COUNT (h_fat v) \<or>
    rc = FS_ERR_IO \<and> \<not> steady s"
  using mount_reads [OF assms(1,3-7)]
proof
  assume "\<exists>h fat. length fat = FS_TOTAL_BLOCKS \<and> take FS_DATA_BLOCK_COUNT fat = take FS_DATA_BLOCK_COUNT (h_fat v) \<and>
      host_files h = host_files (st_host s) \<and>
      (if validate_metadata (h_dir v) fat \<noteq> FS_OK then rc = FS_ERR_STATE
       else rc = FS_OK \<and> s' = mounted_handle p h (h_dir v) fat s)"
  then obtain h fat where m: "length fat = FS_TOTAL_BLOCKS" "take FS_DATA_BLOCK_COUNT fat = take FS_DATA_BLOCK_COUNT (h_fat v)"
    "host_files h = host_files (st_host s)"
    "if validate_metadata (h_dir v) fat \<noteq> FS_OK then rc = FS_ERR_STATE else rc = FS_OK \<and> s' = mounted_handle p h (h_dir v) fat s"
    by blast
  have "validate_metadata (h_dir v) fat = FS_OK"
    by (rule fat_tail(4) [OF assms(1,2) m(1,2), of "v \<lparr> h_fat := fat \<rparr>"]) (simp_all add: fun_eq_iff)
  then have s': "rc = FS_OK" "s' = mounted_handle p h (h_dir v) fat s"
    using m(4) by simp_all
  have f: "h_dir s' = h_dir v" "h_fat s' = fat" "h_mounted s' = 1" "h_image_file s' = Some p" "h_open s' = replicate FS_MAX_OPEN_FILES zero_file"
    "image s' = image v"
    using m(3) assms(6) by (simp_all add: s'(2) mounted_handle_def fs_init_def image_def get_file_def host_bytes_def)
  show ?thesis
    using mounted_same [OF assms(1,2) f(1,2,6) m(1,2) f(3-5)] s'(1) f(2,4) m(2) by simp
qed simp

text \<open>An entry whose size is zero but not its number of blocks, or the other way round, is rejected.\<close>

lemma mount_rejects:
  assumes "otfs_wf v" "h_image_file v = Some p"
    and "slice_at (block_offset FS_DIR_START_BLOCK) (FS_MAX_FILES * FS_DIR_ENTRY_SIZE) (image v) = dir_bytes (h_dir v)"
    and "slice_at (block_offset FS_FAT_START_BLOCK) (FS_FAT_BLOCK_COUNT * FS_BLOCK_SIZE) (image v) = fat_bytes (h_fat v)"
    and "host_files (st_host s) p = Some (image v)" "fs_mount (Some p) s = (rc, s')" "i \<in> used v"
    and "size_of v i = 0 \<and> entry_chain v i \<noteq> [] \<or> 0 < size_of v i \<and> size_of v i \<le> 2 ^ 32 - FS_BLOCK_SIZE \<and> entry_chain v i = []"
  shows "rc = FS_ERR_STATE \<or> rc = FS_ERR_IO \<and> \<not> steady s"
proof -
  let ?e = "h_dir v ! i"
  have e: "?e \<in> set (h_dir v)" "de_used ?e \<noteq> 0"
    using assms(1,7) by (auto simp: otfs_wf_def names_wf_def used_def)
  have b: "de_first_block ?e = FAT_END \<longleftrightarrow> entry_chain v i = []"
    by (rule file_wf_first(1) [OF otfs_wf_file [OF assms(1,7)]])
  have "validate_entry_chain fat ?e = FS_ERR_STATE" for fat
  proof (cases "entry_chain v i = []")
    case True
    then have n: "0 < unat (de_size_bytes ?e)" "unat (de_size_bytes ?e) \<le> 2 ^ 32 - 512"
      using assms(8) by (auto simp: size_of_def fs_layout)
    have "unat (de_size_bytes ?e + 511) = unat (de_size_bytes ?e) + 511"
      using n(2) by (simp add: unat_word_ariths)
    then have "unat ((de_size_bytes ?e + (word_of_nat FS_BLOCK_SIZE - 1)) div word_of_nat FS_BLOCK_SIZE) \<noteq> 0"
      using n(1) by (simp add: unat_div fs_layout)
    then show ?thesis
      using b True by (auto simp: validate_entry_chain_def Let_def)
  next
    case False
    then have "de_size_bytes ?e = 0"
      using assms(8) by (auto simp: size_of_def unat_eq_0)
    then show ?thesis
      using b False by (simp add: validate_entry_chain_def fs_layout)
  qed
  then have "\<not> entry_valid fat ?e" for fat
    using e(2) by (simp add: entry_valid_def fs_codes)
  then have "validate_metadata (h_dir v) fat = FS_ERR_STATE" for fat
    using e(1) by (auto simp: validate_metadata_def list_all_iff)
  then show ?thesis
    using mount_reads [OF assms(1-6)] by (auto simp: fs_codes)
qed

lemma unmount_effect:
  assumes "fs_unmount s = (FS_OK, s1)" "otfs_wf s" "h_image_file s = Some p"
  shows "\<exists>v. same_files s v \<and> h_image_file v = Some p \<and> host_files (st_host s1) p = Some (image v) \<and>
    slice_at (block_offset FS_DIR_START_BLOCK) (FS_MAX_FILES * FS_DIR_ENTRY_SIZE) (image v) = dir_bytes (h_dir v) \<and>
    slice_at (block_offset FS_FAT_START_BLOCK) (FS_FAT_BLOCK_COUNT * FS_BLOCK_SIZE) (image v) = fat_bytes (h_fat v)"
proof -
  obtain r v where v: "sync_metadata s = (r, v)" by force
  have m: "validate_common s = FS_OK"
    using assms(2) by (simp add: otfs_wf_def validate_common_def)
  have r: "r = FS_OK" and h: "host_files (st_host s1) = host_files (st_host v)"
    using assms(1) m v by (auto simp: fs_unmount_def file_close_def io_step_def fs_init_def Let_def split: if_splits)
  note sy = sync_effect [OF v assms(2)]
  have d: "h_dir v = h_dir s" "h_fat v = h_fat s" "h_image_file v = Some p"
    using sy(1) assms(3) by (auto simp: same_files_def same_meta_def keeps_def)
  have "host_files (st_host v) p \<noteq> None"
    using v assms(3) r by (auto simp: sync_metadata_def fs_seek_and_write_def seek_and_write_def io_step_def get_file_def split: if_splits option.splits)
  then have "host_files (st_host s1) p = Some (image v)"
    using h d(3) by (auto simp: image_def get_file_def host_bytes_def)
  then show ?thesis
    using sy r d by auto
qed

lemma remount:
  assumes "otfs_wf s" "all_tidy s" "h_image_file s = Some p" "fs_unmount s = (FS_OK, s1)"
    and "host_files (st_host s2) p = host_files (st_host s1) p" "fs_mount (Some p) s2 = (rc, s3)"
  shows "rc = FS_OK \<and> otfs_wf s3 \<and> all_tidy s3 \<and> otfs_files s3 = otfs_files s \<and> h_image_file s3 = Some p \<or> rc = FS_ERR_IO \<and> \<not> steady s2"
proof -
  obtain v where v: "same_files s v" "h_image_file v = Some p" "host_files (st_host s1) p = Some (image v)"
    "slice_at (block_offset FS_DIR_START_BLOCK) (FS_MAX_FILES * FS_DIR_ENTRY_SIZE) (image v) = dir_bytes (h_dir v)"
    "slice_at (block_offset FS_FAT_START_BLOCK) (FS_FAT_BLOCK_COUNT * FS_BLOCK_SIZE) (image v) = fat_bytes (h_fat v)"
    using unmount_effect [OF assms(4,1,3)] by blast
  have "otfs_wf v" "all_tidy v" "otfs_files v = otfs_files s"
    using same_files_frame [OF v(1) assms(1)] same_files_tidy [OF v(1) assms(1)] assms(2) by simp_all
  then show ?thesis
    using mount_image [OF _ _ v(2,4,5) _ assms(6)] v(3) assms(5) by auto
qed

end
