(* ===== verification/OtfsProgress.thy ===== *)
theory OtfsProgress
  imports OtfsSpec
begin

text \<open>
  The space of an OTFS image: every block a file gains is one that was free before, so the blocks of
  the file and the free ones together stay the same during a write, and a write on a host without
  failing calls succeeds exactly if it ends within them.
\<close>

definition room :: "otfs \<Rightarrow> nat \<Rightarrow> nat" where
  "room s i = length (entry_chain s i) + card (free_blocks s)"

lemma free_blocks_finite [simp]: "finite (free_blocks s)"
  by simp

lemma room_cong: "h_fat s' = h_fat s \<Longrightarrow> h_dir s' = h_dir s \<Longrightarrow> room s' i = room s i"
  by (simp add: room_def entry_chain_def free_blocks_def)

lemma allocate_takes:
  assumes "allocate_data_block out s = (rc, b, s')" "file_wf s i" "steady s"
  shows "rc = FS_OK \<and> b \<in> free_blocks s \<and> free_blocks s' = free_blocks s - {b} \<or> rc = FS_ERR_NO_SPACE \<and> s' = s \<and> free_blocks s = {}"
proof -
  have w: "image_wf s" "length (h_fat s) = FS_TOTAL_BLOCKS"
    using assms(2) file_wf_fat_length by (auto simp: file_wf_def)
  have "free_blocks s' = free_blocks s - {b}" if "b \<in> free_blocks s" "h_fat s' = (h_fat s)[unat b := FAT_END]"
  proof -
    have b: "valid_block_index b"
      using that(1) by (simp add: free_blocks_def)
    have "h_fat s' ! unat y = (if y = b then FAT_END else h_fat s ! unat y)" for y
      unfolding that(2) by (rule fat_update_nth [OF w(2) b])
    then show ?thesis
      by (auto simp: free_blocks_def)
  qed
  then show ?thesis
    using allocate_effect [OF assms(1) w(1)] assms(3) by auto
qed

text \<open>A block that is linked behind the last one or becomes the first one is no longer free.\<close>

lemma linked_free:
  assumes "allocate_data_block out s = (FS_OK, b, s')" "file_wf s i" "steady s" "x \<notin> free_blocks s" "valid_block_index x" "x \<noteq> b"
  shows "free_blocks (s' \<lparr> h_fat := (h_fat s')[unat x := b] \<rparr>) = free_blocks s - {b}"
proof -
  have a: "b \<in> free_blocks s" "free_blocks s' = free_blocks s - {b}"
    using allocate_takes [OF assms(1-3)] by (auto simp: fs_codes)
  have "h_fat s' = (h_fat s)[unat b := FAT_END]"
    using allocate_effect [OF assms(1)] assms(2) by (auto simp: file_wf_def)
  then have l: "length (h_fat s') = FS_TOTAL_BLOCKS"
    using file_wf_fat_length [OF assms(2)] by simp
  have n: "h_fat s' ! unat x \<noteq> FAT_FREE" "b \<noteq> FAT_FREE"
  proof -
    have "x \<notin> free_blocks s'"
      using a(2) assms(4) by simp
    then show "h_fat s' ! unat x \<noteq> FAT_FREE"
      using assms(5) by (simp add: free_blocks_def)
    show "b \<noteq> FAT_FREE"
      using a(1) by (auto simp: free_blocks_def)
  qed
  have "y \<in> free_blocks (s' \<lparr> h_fat := (h_fat s')[unat x := b] \<rparr>) \<longleftrightarrow> y \<in> free_blocks s'" for y
    using n fat_update_nth [OF l assms(5), of b y] by (cases "y = x") (simp_all add: free_blocks_def)
  then have "free_blocks (s' \<lparr> h_fat := (h_fat s')[unat x := b] \<rparr>) = free_blocks s'"
    by blast
  then show ?thesis
    using a(2) by simp
qed

lemma card_taken: "b \<in> free_blocks s \<Longrightarrow> Suc (card (free_blocks s - {b})) = card (free_blocks s)"
  by (rule card_Suc_Diff1) simp_all

lemma resolve_steps_room:
  assumes "file_wf s i" "steady s" "entry_chain s i = pre @ cur # rest" "resolve_steps n True cur s = (rc, out, s')"
  shows "room s' i = room s i \<and>
    (if rc = FS_OK then length (entry_chain s' i) = max (length (entry_chain s i)) (length pre + n + 1)
     else free_blocks s' = {} \<and> length (entry_chain s' i) \<le> length pre + n)"
  using assms
proof (induction n arbitrary: s pre cur rest)
  case 0
  then show ?case by auto
next
  case (Suc n)
  note e = file_wf_end [OF Suc.prems(1,3)]
  show ?case
  proof (cases rest)
    case (Cons y ys)
    then have c: "entry_chain s i = (pre @ [cur]) @ y # ys" "h_fat s ! unat cur = y" "y \<noteq> FAT_END"
      using e(2,3) Suc.prems(3) by auto
    moreover from file_wf_end(1) [OF Suc.prems(1) this(1)] have "valid_block_index y" .
    ultimately have "resolve_steps n True y s = (rc, out, s')"
      using Suc.prems(4) by simp
    from Suc.IH [OF Suc.prems(1,2) c(1) this] show ?thesis
      by (simp split: if_splits)
  next
    case Nil
    then have end_: "h_fat s ! unat cur = FAT_END" and ch: "entry_chain s i = pre @ [cur]"
      using e(2) Suc.prems(3) by auto
    obtain r b t where a: "allocate_data_block FAT_END s = (r, b, t)"
      using prod_cases3 by blast
    note al = allocate_takes [OF a Suc.prems(1,2)]
    show ?thesis
    proof (cases "r = FS_OK")
      case False
      then have "s' = s" "rc \<noteq> FS_OK" "free_blocks s = {}"
        using al Suc.prems(4) a end_ by (auto simp: fs_codes)
      then show ?thesis
        using ch by simp
    next
      case True
      let ?t = "t \<lparr> h_fat := (h_fat t)[unat cur := b] \<rparr>"
      have g: "grows i s ?t" "entry_chain ?t i = (pre @ [cur]) @ [b]"
        using grows_linked [OF a [unfolded True] Suc.prems(1) ch] by auto
      have b: "b \<in> free_blocks s"
        using al True by (auto simp: fs_codes)
      have cur: "cur \<notin> free_blocks s" "valid_block_index cur" "cur \<noteq> b"
        using file_wf_not_free [OF Suc.prems(1), of cur] ch e(1) b by auto
      have f: "free_blocks ?t = free_blocks s - {b}"
        by (rule linked_free [OF a [unfolded True] Suc.prems(1,2) cur])
      have "resolve_steps n True b ?t = (rc, out, s')"
        using Suc.prems(4) a end_ True b by (simp add: free_blocks_def)
      moreover have "steady ?t"
        using grows_steady [OF g(1)] Suc.prems(2) by simp
      ultimately have ih: "room s' i = room ?t i \<and>
          (if rc = FS_OK then length (entry_chain s' i) = max (length (entry_chain ?t i)) (length (pre @ [cur]) + n + 1)
           else free_blocks s' = {} \<and> length (entry_chain s' i) \<le> length (pre @ [cur]) + n)"
        using Suc.IH [OF grows_file_wf [OF g(1) Suc.prems(1)] _ g(2)] by blast
      have "room ?t i = room s i"
        using card_taken [OF b] unfolding room_def g(2) ch f by simp
      then show ?thesis
        using ih g(2) ch by auto
    qed
  qed
qed

lemma resolve_room:
  assumes "file_wf s i" "steady s" "resolve_data_block i n True s = (rc, out, s')"
  shows "room s' i = room s i" "rc = FS_OK \<longleftrightarrow> n < room s i"
    "rc = FS_OK \<Longrightarrow> length (entry_chain s' i) = max (length (entry_chain s i)) (n + 1)"
proof -
  have "room s' i = room s i \<and> (if rc = FS_OK then length (entry_chain s' i) = max (length (entry_chain s i)) (n + 1)
      else free_blocks s' = {} \<and> length (entry_chain s' i) \<le> n)"
  proof (cases "entry_chain s i")
    case (Cons x xs)
    then have "resolve_steps n True x s = (rc, out, s')"
      using assms(3) file_wf_first [OF assms(1)] by (simp add: resolve_data_block_def)
    then show ?thesis
      using resolve_steps_room [OF assms(1,2), of "[]" x xs n rc out s'] Cons by (simp split: if_splits)
  next
    case Nil
    obtain r b t where a: "allocate_data_block FAT_END s = (r, b, t)"
      using prod_cases3 by blast
    note al = allocate_takes [OF a assms(1,2)]
    show ?thesis
    proof (cases "r = FS_OK")
      case False
      then have "s' = s" "rc \<noteq> FS_OK" "free_blocks s = {}"
        using al assms(3) a Nil file_wf_first(1) [OF assms(1)] by (auto simp: resolve_data_block_def fs_codes)
      then show ?thesis
        using Nil by simp
    next
      case True
      let ?t = "set_first_block i b t"
      have g: "grows i s ?t" "entry_chain ?t i = [] @ [b]"
        using grows_first [OF a [unfolded True] assms(1) Nil] by auto
      note f = grows_file_wf [OF g(1) assms(1)]
      have b: "b \<in> free_blocks s" "free_blocks ?t = free_blocks s - {b}"
        using al True by (auto simp: fs_codes set_first_block_def free_blocks_def)
      have r: "resolve_steps n True b ?t = (rc, out, s')"
        using assms(3) a True Nil file_wf_first(1) [OF assms(1)] file_wf_first(2) [OF f] g(2)
        by (simp add: resolve_data_block_def)
      have "steady ?t"
        using grows_steady [OF g(1)] assms(2) by simp
      from resolve_steps_room [OF f this g(2) r]
      have "room s' i = room ?t i" "if rc = FS_OK then length (entry_chain s' i) = n + 1 else free_blocks s' = {} \<and> length (entry_chain s' i) \<le> n"
        using g(2) by (simp_all split: if_splits)
      moreover have "room ?t i = room s i"
        using card_taken [OF b(1)] unfolding room_def g(2) b(2) Nil by simp
      ultimately show ?thesis
        using Nil by simp
    qed
  qed
  then show "room s' i = room s i" "rc = FS_OK \<longleftrightarrow> n < room s i"
    "rc = FS_OK \<Longrightarrow> length (entry_chain s' i) = max (length (entry_chain s i)) (n + 1)"
    by (auto simp: room_def split: if_splits)
qed


subsection \<open>Writing\<close>

lemma store_chunk_meta:
  "store_chunk fd x off d s = (rc, s') \<Longrightarrow> h_fat s' = h_fat s \<and> h_dir s' = h_dir s"
  by (auto simp: store_chunk_def read_data_block_def write_data_block_def fs_seek_and_write_def set_offset_def Let_def
      split: prod.splits if_splits)

lemma write_chunk_room:
  assumes "write_chunk fd i d s = (rc, s')" "otfs_wf s" "i \<in> used s" "off = unat (f_offset (h_open s ! fd))"
    and "off mod FS_BLOCK_SIZE + length d \<le> FS_BLOCK_SIZE" "fd < length (h_open s)" "steady s"
  shows "room s' i = room s i" "rc = FS_OK \<longleftrightarrow> off div FS_BLOCK_SIZE < room s i"
    "rc = FS_OK \<Longrightarrow> length (entry_chain s' i) = max (length (entry_chain s i)) (off div FS_BLOCK_SIZE + 1)"
proof -
  note f = otfs_wf_file [OF assms(2,3)]
  obtain r x t where t: "resolve_data_block i (off div FS_BLOCK_SIZE) True s = (r, x, t)"
    using prod_cases3 by blast
  note rr = resolve_room [OF f assms(7) t] and res = resolve_write [OF f t]
  then have g: "grows i s t" by blast
  have o: "h_open t = h_open s" "steady t"
    using growsD(2) [OF g] grows_steady [OF g] assms(7) by simp_all
  have w: "otfs_wf t" "i \<in> used t"
    using grows_writes [OF g assms(2,3)] assms(3) by (auto simp: writes_def)
  have run: "(rc, s') = (if r = FS_OK then store_chunk fd x (f_offset (h_open t ! fd)) d t else (if r = FS_ERR_NO_SPACE then FS_ERR_NO_SPACE else FS_ERR_STATE, t))"
    using assms(1,4) t o by (auto simp: write_chunk_def split: if_splits)
  have ok: "rc = FS_OK \<longleftrightarrow> r = FS_OK"
  proof (cases "r = FS_OK")
    case True
    then have st: "store_chunk fd x (f_offset (h_open t ! fd)) d t = (rc, s')"
      using run by simp
    have "off div FS_BLOCK_SIZE < length (entry_chain t i)" "x = entry_chain t i ! (off div FS_BLOCK_SIZE)"
      using res True by auto
    from store_chunk_overwrite(2) [OF st w _ this assms(5)] show ?thesis
      using o assms(4,6) True by simp
  qed (use run in \<open>auto simp: fs_codes split: if_splits\<close>)
  have "h_fat s' = h_fat t \<and> h_dir s' = h_dir t"
    using run store_chunk_meta by (metis Pair_inject)
  then have "room s' i = room t i" "entry_chain s' i = entry_chain t i"
    by (simp_all add: room_def entry_chain_def free_blocks_def)
  then show "room s' i = room s i" "rc = FS_OK \<longleftrightarrow> off div FS_BLOCK_SIZE < room s i"
    "rc = FS_OK \<Longrightarrow> length (entry_chain s' i) = max (length (entry_chain s i)) (off div FS_BLOCK_SIZE + 1)"
    using rr ok by simp_all
qed

lemma chunk_room: "off mod FS_BLOCK_SIZE + c \<le> FS_BLOCK_SIZE \<Longrightarrow> 0 < c \<Longrightarrow> off div FS_BLOCK_SIZE < n \<longleftrightarrow> off + c \<le> n * FS_BLOCK_SIZE"
  using chunk_fits div_block_less by blast

lemma last_block: "off mod FS_BLOCK_SIZE + c \<le> FS_BLOCK_SIZE \<Longrightarrow> 0 < c \<Longrightarrow> (off + c - 1) div FS_BLOCK_SIZE = off div FS_BLOCK_SIZE"
proof -
  assume c: "off mod FS_BLOCK_SIZE + c \<le> FS_BLOCK_SIZE" "0 < c"
  have "off + c - 1 = (off mod FS_BLOCK_SIZE + c - 1) + off div FS_BLOCK_SIZE * FS_BLOCK_SIZE"
    using c(2) div_mult_mod_eq [of off FS_BLOCK_SIZE] by linarith
  moreover have "off mod FS_BLOCK_SIZE + c - 1 < FS_BLOCK_SIZE"
    using c by linarith
  ultimately show ?thesis
    by (simp only: div_mult_self1 [OF gr_implies_not0] div_less FS_BLOCK_SIZE_def)
qed

lemma write_loop_room:
  assumes "write_loop fd i buf copied s = (rc, n, s')" "otfs_wf s" "i \<in> used s" "fd < length (h_open s)" "copied \<le> length buf"
    and "off = unat (f_offset (h_open s ! fd))" "steady s"
  shows "room s' i = room s i \<and> (rc = FS_OK \<longleftrightarrow> copied = length buf \<or> off + (length buf - copied) \<le> room s i * FS_BLOCK_SIZE) \<and>
    (rc = FS_OK \<and> copied < length buf \<longrightarrow>
       length (entry_chain s' i) = max (length (entry_chain s i)) ((off + (length buf - copied) - 1) div FS_BLOCK_SIZE + 1))"
  using assms
proof (induction fd i buf copied s arbitrary: off rule: write_loop.induct)
  case (1 fd i buf copied s)
  show ?case
  proof (cases "copied < length buf")
    case False
    then have "copied = length buf" "rc = FS_OK" "s' = s"
      using "1.prems"(1,5) by (simp_all add: write_loop.simps [of fd i buf "length buf" s])
    then show ?thesis
      by simp
  next
    case True
    let ?c = "chunk_size (f_offset (h_open s ! fd)) (length buf - copied)"
    let ?d = "slice_at copied ?c buf"
    obtain r t where t: "write_chunk fd i ?d s = (r, t)" by force
    have c: "0 < ?c" "?c \<le> length buf - copied"
      using True chunk_size_pos chunk_size_le [of "f_offset (h_open s ! fd)" "length buf - copied"] by auto
    then have d: "length ?d = ?c"
      by (simp add: slice_at_def)
    have m: "off mod FS_BLOCK_SIZE + ?c \<le> FS_BLOCK_SIZE"
      using chunk_in_block "1.prems"(6) by simp
    note wc = write_chunk_overwrite [OF t "1.prems"(2,3,6) _ "1.prems"(4), unfolded d, OF m]
      and wr = write_chunk_room [OF t "1.prems"(2,3,6) _ "1.prems"(4,7), unfolded d, OF m]
    have step: "write_loop fd i buf copied s = (if r \<noteq> FS_OK then (r, copied, t) else write_loop fd i buf (copied + ?c) t)"
      by (subst write_loop.simps) (simp add: True t)
    show ?thesis
    proof (cases "r = FS_OK")
      case False
      then have "s' = t" "rc \<noteq> FS_OK" "\<not> off + ?c \<le> room s i * FS_BLOCK_SIZE"
        using "1.prems"(1) step wr(2) chunk_room [OF m c(1)] by auto
      then show ?thesis
        using wr(1) True c(2) by auto
    next
      case ok: True
      have tw: "otfs_wf t" "i \<in> used t" "fd < length (h_open t)" "steady t"
        using wc(1) "1.prems"(3,4,7) keeps_steady by (auto simp: writes_def)
      have o: "unat (f_offset (h_open t ! fd)) = off + ?c"
        using wc(2) ok by (auto simp: fs_codes)
      have pr: "\<not> r \<noteq> FS_OK" "write_loop fd i buf (copied + ?c) t = (rc, n, s')" "copied + ?c \<le> length buf"
        using "1.prems"(1) step ok c True by auto
      note ih = "1.IH" [OF True refl t [symmetric] refl pr(1,2) tw(1-3) pr(3) o [symmetric] tw(4)]
      have "off + ?c \<le> room s i * FS_BLOCK_SIZE"
        using wr(2) ok chunk_room [OF m c(1)] by simp
      moreover have "length (entry_chain s' i) = max (length (entry_chain s i)) ((off + (length buf - copied) - 1) div FS_BLOCK_SIZE + 1)"
        if "rc = FS_OK"
      proof (cases "copied + ?c < length buf")
        case more: True
        have "off + ?c + (length buf - (copied + ?c)) - 1 = off + (length buf - copied) - 1"
          using c by simp
        moreover have "off div FS_BLOCK_SIZE \<le> (off + (length buf - copied) - 1) div FS_BLOCK_SIZE"
          using True by (intro div_le_mono) simp
        ultimately show ?thesis
          using ih wr(3) [OF ok] more that by simp
      next
        case False
        then have e: "?c = length buf - copied" "copied + ?c = length buf"
          using pr(3) by simp_all
        have "s' = t"
          using pr(2) by (simp only: e(2)) (simp add: write_loop.simps [of fd i buf "length buf" t])
        then show ?thesis
          using wr(3) [OF ok] last_block [OF m c(1)] e(1) by simp
      qed
      ultimately show ?thesis
        using ih wr(1) True pr(3) by auto
    qed
  qed
qed

text \<open>What a write of at least one byte does to the space, on a host without failing calls.\<close>

lemma fs_write_room:
  assumes "otfs_wf s" "steady s" "fd < FS_MAX_OPEN_FILES" "f_in_use (h_open s ! fd) \<noteq> 0"
    and "and (f_flags (h_open s ! fd)) FS_O_WRITE \<noteq> 0" "i = unat (f_dir_index (h_open s ! fd))" "buf \<noteq> []"
    and "fs_write (int fd) buf s = (rc, n, s')" "off = unat (f_offset (h_open s ! fd))"
  shows "(rc = FS_OK \<longleftrightarrow> off + length buf \<le> room s i * FS_BLOCK_SIZE) \<and> room s' i = room s i \<and> steady s' \<and>
    (rc = FS_OK \<longrightarrow> length (entry_chain s' i) = max (length (entry_chain s i)) ((off + length buf - 1) div FS_BLOCK_SIZE + 1))"
proof -
  have i: "i \<in> used s" "fd < length (h_open s)" "h_mounted s \<noteq> 0"
    using assms(1,3,4,6) by (auto simp: otfs_wf_def open_wf_def)
  obtain r m t where t: "write_loop fd i buf 0 s = (r, m, t)"
    using prod_cases3 by blast
  note wl = write_loop_overwrite [OF t assms(1) i(1,2) _ refl] and wr = write_loop_room [OF t assms(1) i(1,2) _ assms(9,2)]
  then have "writes fd i s t"
    by simp
  then have w: "otfs_wf t" "i \<in> used t" "steady t"
    using i(1) assms(2) keeps_steady [of s t] by (simp_all add: writes_def)
  note fin = finish_write_effect [OF w(1,2), where fd = fd]
  obtain r2 x where x: "sync_metadata (finish_write fd i t) = (r2, x)" by force
  note sy = sync_effect(1,2) [OF x fin(1)]
  note sf = same_files_frame [OF sy(1) fin(1)]
  have "r2 = FS_OK" "steady x"
    using sy(2) sf(8) fin(5) w(3) by simp_all
  moreover have "entry_chain x i = entry_chain t i" "room x i = room t i"
    using same_meta_frame(2) [of "finish_write fd i t" x] sy(1) sf(9) by (simp_all add: room_def same_files_def finish_write_def)
  moreover have "(rc, n, s') = (if r \<noteq> FS_OK then (r, 0, t) else if r2 \<noteq> FS_OK then (FS_ERR_IO, 0, x) else (FS_OK, m, x))"
    using fs_write_run [OF i(3) assms(3-5), folded assms(6), OF t x] assms(8) by simp
  ultimately show ?thesis
    using wr assms(7) w(3) by (auto split: if_splits)
qed

text \<open>
  C2: A write fits or it does not: on a host without failing calls, writing at least one byte through a
  descriptor open for writing succeeds exactly if the write ends within the blocks the file has and the
  free blocks of the disk, and otherwise reports that the disk is full. No block is lost either way, and
  after a success the file has as many blocks as it had or as its new end needs, whichever is more.
\<close>

theorem fs_write_fits:
  assumes "otfs_wf s" "steady s" "fd < FS_MAX_OPEN_FILES" "f_in_use (h_open s ! fd) \<noteq> 0"
    and "and (f_flags (h_open s ! fd)) FS_O_WRITE \<noteq> 0" "i = unat (f_dir_index (h_open s ! fd))" "buf \<noteq> []"
    and "fs_write (int fd) buf s = (rc, n, s')" "off = unat (f_offset (h_open s ! fd))"
  shows "rc = (if off + length buf \<le> room s i * FS_BLOCK_SIZE then FS_OK else FS_ERR_NO_SPACE) \<and> room s' i = room s i \<and>
    (rc = FS_OK \<longrightarrow> length (entry_chain s' i) = max (length (entry_chain s i)) ((off + length buf - 1) div FS_BLOCK_SIZE + 1))"
proof -
  have "rc = FS_OK \<or> rc = FS_ERR_NO_SPACE"
    using fs_write_bytes [OF assms(1,3-6,8) refl] assms(2) by auto
  then show ?thesis
    using fs_write_room [OF assms] by (auto simp: fs_codes)
qed

subsection \<open>Opening\<close>

text \<open>Opening a file frees blocks, if any.\<close>

lemma release_loop_free: "release_loop fat cur seen = (rc, fat') \<Longrightarrow> fat ! k = FAT_FREE \<Longrightarrow> fat' ! k = FAT_FREE"
proof (induction fat cur seen rule: release_loop.induct)
  case (1 fat cur seen)
  have "fat[unat cur := FAT_FREE] ! k = FAT_FREE"
    using "1.prems"(2) by (cases "k = unat cur \<and> k < length fat") (auto simp: nth_list_update list_update_beyond)
  then show ?case
    using 1 by (auto simp: release_loop.simps [of fat cur seen] split: if_splits)
qed

lemma sync_fat: "sync_metadata s = (rc, s') \<Longrightarrow> h_fat s' = h_fat s"
  by (auto simp: sync_metadata_def fs_seek_and_write_def split: prod.splits if_splits)

lemma truncate_free: "truncate_entry i s = (rc, s') \<Longrightarrow> h_fat s ! k = FAT_FREE \<Longrightarrow> h_fat s' ! k = FAT_FREE"
  by (auto simp: truncate_entry_def release_chain_def set_first_block_def set_size_def split: prod.splits if_splits
      dest!: sync_fat dest: release_loop_free)

lemma open_entry_fat: "open_entry name flags s = (res, s') \<Longrightarrow> h_fat s' = h_fat s"
  by (auto simp: open_entry_def alloc_dir_entry_def split: option.splits prod.splits if_splits dest!: sync_fat)

lemma fs_open_free:
  assumes "fs_open name flags s = (rc, s')"
  shows "free_blocks s \<subseteq> free_blocks s'"
proof -
  have "h_fat s' ! k = FAT_FREE" if "h_fat s ! k = FAT_FREE" for k
    using assms that by (auto simp: fs_open_def Let_def split: prod.splits sum.splits if_splits option.splits
        dest!: open_entry_fat dest: truncate_free)
  then show ?thesis
    by (auto simp: free_blocks_def)
qed

end
