(* ===== verification/OtfsFormat.thy ===== *)
theory OtfsFormat
  imports OtfsMount OtfsProgress
begin

text \<open>
  Formatting: the bytes that \<open>fs_format_image\<close> leaves on an image, and that they mount as an empty file
  system; a formatted and mounted disk as the concrete state of the witnesses.
\<close>

subsection \<open>Formatting\<close>

lemma host_write:
  assumes "seek_and_write p off buf h = (FS_OK, h')"
  shows "host_bytes h' p = write_at off buf (host_bytes h p)"
  using assms by (auto simp: seek_and_write_def io_step_def host_bytes_def split: option.splits)

lemma format_blocks_zeros:
  "format_blocks n p h = (FS_OK, h') \<Longrightarrow> n \<le> FS_TOTAL_BLOCKS \<Longrightarrow>
   host_bytes h p = replicate ((FS_TOTAL_BLOCKS - n) * FS_BLOCK_SIZE) 0 \<Longrightarrow>
   host_bytes h' p = replicate (FS_TOTAL_BLOCKS * FS_BLOCK_SIZE) 0"
proof (induction n arbitrary: h)
  case (Suc n)
  obtain r t where t: "seek_and_write p (block_offset (FS_TOTAL_BLOCKS - Suc n)) (replicate FS_BLOCK_SIZE 0) h = (r, t)"
    by force
  then have r: "r = FS_OK" "format_blocks n p t = (FS_OK, h')"
    using Suc.prems(1) by (auto split: if_splits)
  have e: "FS_TOTAL_BLOCKS - n = FS_TOTAL_BLOCKS - Suc n + 1"
    using Suc.prems(2) by simp
  have "host_bytes t p = replicate ((FS_TOTAL_BLOCKS - n) * FS_BLOCK_SIZE) 0"
    using host_write [OF t [unfolded r(1)]] Suc.prems(3)
    by (simp add: e write_at_def block_offset_def replicate_add [symmetric] FS_BLOCK_SIZE_def add.commute)
  then show ?case
    using Suc.IH [OF r(2)] Suc.prems(2) by simp
qed simp

definition empty_dir :: "fs_dir_entry_disk list" where
  "empty_dir = replicate FS_MAX_FILES (zero_entry \<lparr> de_first_block := FAT_END \<rparr>)"

lemma fat_bytes_free: "fat_bytes (replicate FS_TOTAL_BLOCKS FAT_FREE) = replicate (FS_FAT_BLOCK_COUNT * FS_BLOCK_SIZE) 0xff"
proof -
  have "u32_bytes FAT_FREE = [0xff, 0xff, 0xff, 0xff]"
    by (simp add: u32_bytes_def FAT_FREE_def)
  moreover have "replicate 4 (0xff :: u8) = [0xff, 0xff, 0xff, 0xff]"
    by (simp add: numeral_eq_Suc)
  ultimately have "concat (map u32_bytes (replicate n FAT_FREE)) = replicate (n * 4) 0xff" for n
    by (induction n) (simp_all add: replicate_add)
  then show ?thesis
    by (simp add: fat_bytes_def replicate_add [symmetric] fs_layout)
qed

lemma empty_dir_ok: "length empty_dir = FS_MAX_FILES" "\<forall>e \<in> set empty_dir. entry_ok e"
  by (auto simp: empty_dir_def entry_ok_def zero_entry_def)

lemma empty_dir_length: "length (dir_bytes empty_dir) = FS_MAX_FILES * FS_DIR_ENTRY_SIZE"
  using concat_length [of empty_dir entry_bytes] empty_dir_ok entry_bytes_length by (simp add: dir_bytes_def)

lemma superblock_length: "length (superblock_bytes format_superblock) = FS_SUPERBLOCK_SIZE"
  by (simp add: superblock_bytes_def format_superblock_def k_magic_def FS_SUPERBLOCK_SIZE_def)

lemma fs_format_image_run:
  assumes "fs_format_image (Some p) h = (FS_OK, h')"
  obtains h0 h1 h2 h3 h4 where "host_bytes h0 p = []" "format_blocks FS_TOTAL_BLOCKS p h0 = (FS_OK, h1)"
    "seek_and_write p 0 (superblock_bytes format_superblock) h1 = (FS_OK, h2)"
    "seek_and_write p (block_offset FS_DIR_START_BLOCK) (dir_bytes empty_dir) h2 = (FS_OK, h3)"
    "seek_and_write p (block_offset FS_FAT_START_BLOCK) (replicate (FS_FAT_BLOCK_COUNT * FS_BLOCK_SIZE) 0xff) h3 = (FS_OK, h4)"
    "host_files h' = host_files h4"
proof -
  obtain f h0 where h0: "io_step h = (f, h0)" by force
  let ?h0 = "h0 \<lparr> host_files := (host_files h0)(p \<mapsto> []) \<rparr>"
  obtain r1 h1 where h1: "format_blocks FS_TOTAL_BLOCKS p ?h0 = (r1, h1)" by force
  obtain r2 h2 where h2: "seek_and_write p 0 (superblock_bytes format_superblock) h1 = (r2, h2)" by force
  obtain r3 h3 where h3: "seek_and_write p (block_offset FS_DIR_START_BLOCK) (dir_bytes empty_dir) h2 = (r3, h3)" by force
  obtain r4 h4 where h4: "seek_and_write p (block_offset FS_FAT_START_BLOCK) (replicate (FS_FAT_BLOCK_COUNT * FS_BLOCK_SIZE) 0xff) h3 = (r4, h4)"
    by force
  have "f = None \<and> r1 = FS_OK \<and> r2 = FS_OK \<and> r3 = FS_OK \<and> r4 = FS_OK \<and> file_close h4 = (FS_OK, h')"
    using assms h0 h1 h2 h3 [unfolded empty_dir_def] h4 by (simp add: fs_format_image_def Let_def split: if_splits)
  moreover from this have "host_files h' = host_files h4"
    by (auto simp: file_close_def io_step_def)
  ultimately show ?thesis
    using that [of ?h0 h1 h2 h3 h4] h1 h2 h3 h4 by (simp add: host_bytes_def)
qed

lemma format_bytes:
  assumes "fs_format_image (Some p) h = (FS_OK, h')"
  shows "host_bytes h' p = overwrite (block_offset FS_FAT_START_BLOCK) (replicate (FS_FAT_BLOCK_COUNT * FS_BLOCK_SIZE) 0xff)
      (overwrite (block_offset FS_DIR_START_BLOCK) (dir_bytes empty_dir)
        (overwrite 0 (superblock_bytes format_superblock) (replicate (FS_TOTAL_BLOCKS * FS_BLOCK_SIZE) 0)))"
    "host_files h' p = Some (host_bytes h' p)"
proof -
  obtain h0 h1 h2 h3 h4 where run: "host_bytes h0 p = []" "format_blocks FS_TOTAL_BLOCKS p h0 = (FS_OK, h1)"
    "seek_and_write p 0 (superblock_bytes format_superblock) h1 = (FS_OK, h2)"
    "seek_and_write p (block_offset FS_DIR_START_BLOCK) (dir_bytes empty_dir) h2 = (FS_OK, h3)"
    "seek_and_write p (block_offset FS_FAT_START_BLOCK) (replicate (FS_FAT_BLOCK_COUNT * FS_BLOCK_SIZE) 0xff) h3 = (FS_OK, h4)"
    "host_files h' = host_files h4"
    by (rule fs_format_image_run [OF assms])
  have b1: "host_bytes h1 p = replicate (FS_TOTAL_BLOCKS * FS_BLOCK_SIZE) 0"
    by (rule format_blocks_zeros [OF run(2)]) (simp_all add: run(1))
  have b2: "host_bytes h2 p = overwrite 0 (superblock_bytes format_superblock) (host_bytes h1 p)"
    unfolding host_write [OF run(3)] by (rule write_at_overwrite) (simp add: b1 superblock_length fs_layout)
  then have l2: "length (host_bytes h2 p) = FS_TOTAL_BLOCKS * FS_BLOCK_SIZE"
    using b1 by (simp add: superblock_length fs_layout)
  have b3: "host_bytes h3 p = overwrite (block_offset FS_DIR_START_BLOCK) (dir_bytes empty_dir) (host_bytes h2 p)"
    unfolding host_write [OF run(4)] by (rule write_at_overwrite) (simp add: l2 empty_dir_length block_offset_def fs_layout)
  then have l3: "length (host_bytes h3 p) = FS_TOTAL_BLOCKS * FS_BLOCK_SIZE"
    using l2 by (simp add: empty_dir_length block_offset_def fs_layout)
  have b4: "host_bytes h4 p = overwrite (block_offset FS_FAT_START_BLOCK) (replicate (FS_FAT_BLOCK_COUNT * FS_BLOCK_SIZE) 0xff) (host_bytes h3 p)"
    unfolding host_write [OF run(5)] by (rule write_at_overwrite) (simp add: l3 block_offset_def fs_layout)
  have h: "host_bytes h' p = host_bytes h4 p"
    using run(6) by (simp add: host_bytes_def)
  show "host_bytes h' p = overwrite (block_offset FS_FAT_START_BLOCK) (replicate (FS_FAT_BLOCK_COUNT * FS_BLOCK_SIZE) 0xff)
      (overwrite (block_offset FS_DIR_START_BLOCK) (dir_bytes empty_dir)
        (overwrite 0 (superblock_bytes format_superblock) (replicate (FS_TOTAL_BLOCKS * FS_BLOCK_SIZE) 0)))"
    by (simp only: h b4 b3 b2 b1)
  have "host_files h4 p \<noteq> None"
    using run(5) by (auto simp: seek_and_write_def io_step_def split: option.splits)
  then show "host_files h' p = Some (host_bytes h' p)"
    using run(6) by (auto simp: host_bytes_def)
qed

text \<open>The regions of a formatted image.\<close>

lemma format_regions:
  assumes "fs_format_image (Some p) h = (FS_OK, h')"
  shows "length (host_bytes h' p) = FS_TOTAL_BLOCKS * FS_BLOCK_SIZE"
    "slice_at 0 FS_SUPERBLOCK_SIZE (host_bytes h' p) = superblock_bytes format_superblock"
    "slice_at (block_offset FS_DIR_START_BLOCK) (FS_MAX_FILES * FS_DIR_ENTRY_SIZE) (host_bytes h' p) = dir_bytes empty_dir"
    "slice_at (block_offset FS_FAT_START_BLOCK) (FS_FAT_BLOCK_COUNT * FS_BLOCK_SIZE) (host_bytes h' p) =
     replicate (FS_FAT_BLOCK_COUNT * FS_BLOCK_SIZE) 0xff"
proof -
  let ?b0 = "replicate (FS_TOTAL_BLOCKS * FS_BLOCK_SIZE) 0 :: u8 list"
  let ?sb = "superblock_bytes format_superblock" and ?dir = "dir_bytes empty_dir"
  let ?fat = "replicate (FS_FAT_BLOCK_COUNT * FS_BLOCK_SIZE) 0xff :: u8 list"
  let ?b1 = "overwrite 0 ?sb ?b0"
  let ?b2 = "overwrite (block_offset FS_DIR_START_BLOCK) ?dir ?b1"
  have fit: "0 + length ?sb \<le> length ?b0" "block_offset FS_DIR_START_BLOCK + length ?dir \<le> length ?b0"
    "block_offset FS_FAT_START_BLOCK + length ?fat \<le> length ?b0"
    "0 + FS_SUPERBLOCK_SIZE \<le> block_offset FS_DIR_START_BLOCK" "0 + FS_SUPERBLOCK_SIZE \<le> block_offset FS_FAT_START_BLOCK"
    "block_offset FS_DIR_START_BLOCK + length ?dir \<le> block_offset FS_FAT_START_BLOCK"
    unfolding superblock_length empty_dir_length by (simp_all add: block_offset_def fs_layout)
  have l1: "length ?b1 = length ?b0"
    by (rule overwrite_length [OF fit(1)])
  have l2: "length ?b2 = length ?b0"
    using overwrite_length [of "block_offset FS_DIR_START_BLOCK" ?dir ?b1] fit(2) unfolding l1 by blast
  note b = format_bytes(1) [OF assms]
  show "length (host_bytes h' p) = FS_TOTAL_BLOCKS * FS_BLOCK_SIZE"
    unfolding b using overwrite_length [of "block_offset FS_FAT_START_BLOCK" ?fat ?b2] fit(3) unfolding l2 by simp
  have sb: "slice_at 0 FS_SUPERBLOCK_SIZE ?b1 = ?sb"
    using slice_overwrite_same [OF fit(1)] unfolding superblock_length by simp
  have "slice_at 0 FS_SUPERBLOCK_SIZE ?b2 = slice_at 0 FS_SUPERBLOCK_SIZE ?b1"
    by (rule slice_overwrite_other) (use fit l1 superblock_length in simp_all)
  moreover have "slice_at 0 FS_SUPERBLOCK_SIZE (host_bytes h' p) = slice_at 0 FS_SUPERBLOCK_SIZE ?b2"
    unfolding b by (rule slice_overwrite_other) (use fit l2 superblock_length in simp_all)
  ultimately show "slice_at 0 FS_SUPERBLOCK_SIZE (host_bytes h' p) = ?sb"
    using sb by simp
  have "slice_at (block_offset FS_DIR_START_BLOCK) (length ?dir) (host_bytes h' p) = slice_at (block_offset FS_DIR_START_BLOCK) (length ?dir) ?b2"
    unfolding b by (rule slice_overwrite_other) (use fit l2 in simp_all)
  also have "\<dots> = ?dir"
    by (rule slice_overwrite_same) (use fit(2) l1 in simp)
  finally show "slice_at (block_offset FS_DIR_START_BLOCK) (FS_MAX_FILES * FS_DIR_ENTRY_SIZE) (host_bytes h' p) = ?dir"
    unfolding empty_dir_length .
  have "slice_at (block_offset FS_FAT_START_BLOCK) (length ?fat) (host_bytes h' p) = ?fat"
    unfolding b by (rule slice_overwrite_same) (use fit(3) l2 in simp)
  then show "slice_at (block_offset FS_FAT_START_BLOCK) (FS_FAT_BLOCK_COUNT * FS_BLOCK_SIZE) (host_bytes h' p) = ?fat"
    by simp
qed

lemma format_superblock_ok: "superblock_ok (bytes_superblock (superblock_bytes format_superblock))"
  by (subst superblock_inverse) (simp_all add: format_superblock_def k_magic_def superblock_ok_def)

lemma empty_image_wf:
  assumes "h_mounted v = 1" "h_image_file v = Some p" "length (image v) = FS_TOTAL_BLOCKS * FS_BLOCK_SIZE"
    and "superblock_ok (bytes_superblock (slice_at 0 FS_SUPERBLOCK_SIZE (image v)))"
    and "h_dir v = empty_dir" "h_fat v = replicate FS_TOTAL_BLOCKS FAT_FREE" "h_open v = replicate FS_MAX_OPEN_FILES zero_file"
  shows "otfs_wf v" "all_tidy v" "otfs_files v = Map.empty"
proof -
  have d: "h_dir v ! i = zero_entry \<lparr> de_first_block := FAT_END \<rparr>" if "i < FS_MAX_FILES" for i
    using that assms(5) by (simp add: empty_dir_def)
  then have d0: "de_used (h_dir v ! i) = 0" "entry_ok (h_dir v ! i)" if "i < FS_MAX_FILES" for i
    using that by (simp_all add: zero_entry_def entry_ok_def)
  then have u: "used v = {}"
    by (auto simp: used_def)
  have "names_differ (h_dir v)"
    unfolding names_differ_pairs using d0(1) by (metis order.strict_trans)
  then have n: "names_wf (h_dir v)"
    using d0 empty_dir_ok(1) assms(5) by (simp add: names_wf_def)
  have "chains_wf v" "open_wf v"
    using u assms(6,7) by (simp_all add: chains_wf_def open_wf_def zero_file_def fat_entries_valid_def list_all_length)
  then show "otfs_wf v"
    using assms n by (simp add: otfs_wf_def image_wf_def)
  show "otfs_files v = Map.empty"
    using otfs_files_iff [OF n] u by (auto simp: fun_eq_iff simp flip: not_Some_eq)
  show "all_tidy v"
    by (simp add: all_tidy_def u)
qed

lemma format_mounts:
  assumes "fs_format_image (Some p) h = (FS_OK, h')" "fs_mount (Some p) (s \<lparr> st_host := h' \<rparr>) = (rc, s')"
  shows "rc = FS_OK \<and> otfs_wf s' \<and> all_tidy s' \<and> otfs_files s' = Map.empty \<and> h_image_file s' = Some p \<and>
      free_blocks s' = {x. valid_block_index x} \<or>
    rc = FS_ERR_IO \<and> \<not> steady (s \<lparr> st_host := h' \<rparr>)"
proof -
  define v where "v = (fs_init s) \<lparr> st_host := h', h_image_file := Some p, h_mounted := 1, h_dir := empty_dir,
    h_fat := replicate FS_TOTAL_BLOCKS FAT_FREE \<rparr>"
  have f: "h_mounted v = 1" "h_image_file v = Some p" "h_dir v = empty_dir" "h_fat v = replicate FS_TOTAL_BLOCKS FAT_FREE"
    "h_open v = replicate FS_MAX_OPEN_FILES zero_file" "image v = host_bytes h' p"
    by (simp_all add: v_def fs_init_def image_def get_file_def)
  note r = format_regions [OF assms(1), folded f(6)]
  have sb: "superblock_ok (bytes_superblock (slice_at 0 FS_SUPERBLOCK_SIZE (image v)))"
    unfolding r(2) by (rule format_superblock_ok)
  note v = empty_image_wf [OF f(1,2) r(1) sb f(3-5)]
  have "host_files (st_host (s \<lparr> st_host := h' \<rparr>)) p = Some (image v)"
    using format_bytes(2) [OF assms(1)] f(6) by simp
  then have m: "rc = FS_OK \<and> otfs_wf s' \<and> all_tidy s' \<and> otfs_files s' = Map.empty \<and> h_image_file s' = Some p \<and>
      take FS_DATA_BLOCK_COUNT (h_fat s') = replicate FS_DATA_BLOCK_COUNT FAT_FREE \<or>
    rc = FS_ERR_IO \<and> \<not> steady (s \<lparr> st_host := h' \<rparr>)"
    using mount_image [OF v(1,2) f(2) _ _ _ assms(2)] r(3,4) f(3,4) fat_bytes_free v(3) by (simp add: FS_DATA_BLOCK_COUNT_def)
  have "h_fat s' ! unat x = FAT_FREE"
    if "take FS_DATA_BLOCK_COUNT (h_fat s') = replicate FS_DATA_BLOCK_COUNT FAT_FREE" "valid_block_index x" for x
    using that by (metis nth_replicate nth_take valid_block_index_def)
  then show ?thesis
    using m by (auto simp: free_blocks_def)
qed

text \<open>
  C25: A formatted image is an empty file system: after \<open>fs_format_image\<close> has succeeded on a path, mounting
  it succeeds unless a call of the host fails, and yields a well-formed file system without files, in
  which every data block is free.
\<close>

theorem fs_format_mount:
  assumes "fs_format_image (Some p) h = (FS_OK, h')" "fs_mount (Some p) (s \<lparr> st_host := h' \<rparr>) = (rc, s')"
  shows "rc = FS_OK \<and> otfs_wf s' \<and> all_tidy s' \<and> otfs_files s' = Map.empty \<and> free_blocks s' = {x. valid_block_index x} \<or>
    rc = FS_ERR_IO \<and> (\<exists>n. io_faults h' n \<noteq> None)"
  using format_mounts [OF assms] by (auto simp: steady_def)

subsection \<open>The life of a disk\<close>

text \<open>
  C4: The invariant of a mounted disk - chains that end, that share no block and whose blocks are not free,
  distinct proper names, descriptors that refer to files in use, an intact superblock - holds after any
  sequence of opening, closing, seeking, reading and writing, whatever fails in between.
\<close>

theorem otfs_run_wf:
  assumes "otfs_wf s" "list_all call_ok calls"
  shows "\<exists>s'. run_steps otfs_next s calls = Some s' \<and> otfs_wf s'"
  by (rule disk.run_safe [OF assms])

text \<open>
  C3: Files survive unmounting: when a sequence of calls in which every write succeeded is followed by a
  successful \<open>fs_unmount\<close>, then mounting the same image again, by any handle and at any later time as
  long as the image's bytes are still there, yields exactly the files there were, or fails because
  a call of the host fails.
\<close>

theorem otfs_persistence:
  assumes "otfs_wf s" "all_tidy s" "h_image_file s = Some p" "list_all call_ok calls" "tidy_run s calls"
    and "run_steps otfs_next s calls = Some s1" "fs_unmount s1 = (FS_OK, s2)"
    and "host_files (st_host s3) p = host_files (st_host s2) p" "fs_mount (Some p) s3 = (rc, s4)"
  shows "rc = FS_OK \<and> otfs_wf s4 \<and> all_tidy s4 \<and> otfs_files s4 = otfs_files s1 \<or> rc = FS_ERR_IO \<and> \<not> steady s3"
proof -
  have "otfs_wf s1 \<and> all_tidy s1 \<and> h_image_file s1 = h_image_file s"
    by (rule tidy_run_keeps [OF assms(6,1,4,2,5)])
  then show ?thesis
    using remount [OF _ _ _ assms(7-9)] assms(3) by auto
qed

text \<open>
  What is written is read back: after a successful \<open>fs_write\<close>, seeking back to where it began and
  reading as many bytes yields the bytes written, unless a call of the host fails.
\<close>

theorem otfs_write_read:
  assumes "otfs_wf s" "sized s i" "fd < FS_MAX_OPEN_FILES" "f_in_use (h_open s ! fd) \<noteq> 0" "i = unat (f_dir_index (h_open s ! fd))"
    and "and (f_flags (h_open s ! fd)) FS_O_WRITE \<noteq> 0" "and (f_flags (h_open s ! fd)) FS_O_READ \<noteq> 0"
    and "unat (f_offset (h_open s ! fd)) \<le> size_of s i" "fs_write (int fd) buf s = (FS_OK, n, s1)"
    and "fs_seek (int fd) (f_offset (h_open s ! fd)) s1 = (rc2, s2)" "fs_read (int fd) (length buf) s2 = (rc3, data, m, s3)"
  shows "rc2 = FS_OK \<and> (rc3 = FS_OK \<and> data = buf \<and> m = length buf \<or> rc3 = FS_ERR_IO \<and> m = 0 \<and> \<not> steady s2)"
proof -
  let ?off = "unat (f_offset (h_open s ! fd))"
  have fd: "fd < length (h_open s)"
    using assms(1,3) by (simp add: otfs_wf_def open_wf_def)
  have w: "otfs_wf s1" "h_open s1 = (h_open s)[fd := (h_open s ! fd) \<lparr> f_offset := f_offset (h_open s1 ! fd) \<rparr>]"
    "file_content s1 i = write_at ?off buf (file_content s i)" "sized s1 i"
    using fs_write_effect [OF assms(1-4,6,5,9) refl disjI1 [OF assms(8)]] by auto
  have m: "h_mounted s1 \<noteq> 0"
    using w(1) by (simp add: otfs_wf_def)
  have d: "f_in_use (h_open s1 ! fd) \<noteq> 0" "f_flags (h_open s1 ! fd) = f_flags (h_open s ! fd)" "f_dir_index (h_open s1 ! fd) = f_dir_index (h_open s ! fd)"
    using assms(4) fd by (subst w(2), simp)+
  then have seek: "rc2 = FS_OK" "s2 = set_offset fd (f_offset (h_open s ! fd)) s1"
    using assms(3,10) m by (auto simp: fs_seek_def validate_common_def valid_fd_def)
  then have mv: "moved fd s1 s2"
    by (simp add: set_offset_moved)
  have fd1: "fd < length (h_open s1)"
    using w(2) fd by (metis length_list_update)
  have o: "f_in_use (h_open s2 ! fd) \<noteq> 0" "f_flags (h_open s2 ! fd) = f_flags (h_open s ! fd)"
    "f_dir_index (h_open s2 ! fd) = f_dir_index (h_open s ! fd)" "f_offset (h_open s2 ! fd) = f_offset (h_open s ! fd)"
    using d fd1 by (simp_all add: seek(2) set_offset_def)
  have off: "?off \<le> length (file_content s i)"
    using assms(2,8) by (simp add: file_content_def sized_def)
  have "sized s2 i" "file_content s2 i = overwrite ?off buf (file_content s i)"
    using w(3,4) moved_frame [OF mv] write_at_within [OF off] by (simp_all add: sized_def)
  moreover note off
  ultimately show ?thesis
    using fs_read_effect [OF moved_wf [OF mv w(1)] _ assms(3) o(1) _ _ assms(11) refl, of i] o(2-4) assms(5,7) seek(1)
    by (auto simp: overwrite_def)
qed

subsection \<open>A concrete disk\<close>

lemma steady_write:
  "io_faults h = (\<lambda>n. None) \<Longrightarrow> seek_and_write p off buf h = (rc, h') \<Longrightarrow> rc = FS_OK \<and> io_faults h' = (\<lambda>n. None)"
  by (auto simp: seek_and_write_def io_step_def)

lemma steady_format_blocks:
  "io_faults h = (\<lambda>n. None) \<Longrightarrow> format_blocks n p h = (rc, h') \<Longrightarrow> rc = FS_OK \<and> io_faults h' = (\<lambda>n. None)"
  by (induction n arbitrary: h) (auto split: prod.splits if_splits dest: steady_write)

lemma steady_format:
  "io_faults h = (\<lambda>n. None) \<Longrightarrow> fs_format_image (Some p) h = (rc, h') \<Longrightarrow> rc = FS_OK \<and> io_faults h' = (\<lambda>n. None)"
  by (auto simp: fs_format_image_def io_step_def file_close_def Let_def split: prod.splits if_splits
      dest!: steady_format_blocks [rotated] steady_write [rotated])

lemma fs_mount_open:
  "fs_mount (Some p) s = (rc, s') \<Longrightarrow> h_open s' = replicate FS_MAX_OPEN_FILES zero_file \<and> io_faults (st_host s') = io_faults (st_host s)"
  by (auto simp: fs_mount_def fs_init_def io_step_def seek_and_read_def close_image_def file_close_def Let_def
      split: prod.splits if_splits)

text \<open>A new image ''d'', formatted and mounted on a host without failures; then with a file ''a'' open.\<close>

definition new_host :: host where
  "new_host = \<lparr> host_files = Map.empty, io_calls = 0, io_faults = \<lambda>n. None \<rparr>"

definition no_handle :: "host \<Rightarrow> otfs" where
  "no_handle h = \<lparr> h_image_file = None, h_mounted = 0, h_data_blocks = 0, h_block_size = 0, h_data_start_block = 0,
     h_dir = [], h_fat = [], h_open = [], st_host = h \<rparr>"

definition formatted :: host where
  "formatted = snd (fs_format_image (Some ''d'') new_host)"

definition disk0 :: otfs where
  "disk0 = snd (fs_mount (Some ''d'') (no_handle formatted))"

definition disk1 :: otfs where
  "disk1 = snd (fs_open (Some ''a'') 7 disk0)"

definition fd1 :: nat where
  "fd1 = nat (fst (fs_open (Some ''a'') 7 disk0))"

lemma formatted_ok: "fs_format_image (Some ''d'') new_host = (FS_OK, formatted)" "io_faults formatted = (\<lambda>n. None)"
proof -
  obtain rc h where f: "fs_format_image (Some ''d'') new_host = (rc, h)" by force
  then show "fs_format_image (Some ''d'') new_host = (FS_OK, formatted)" "io_faults formatted = (\<lambda>n. None)"
    using steady_format [OF _ f] by (simp_all add: formatted_def new_host_def)
qed

lemma disk0_ok:
  "fs_mount (Some ''d'') (no_handle formatted) = (FS_OK, disk0)" "otfs_wf disk0" "all_tidy disk0" "otfs_files disk0 = Map.empty"
  "h_image_file disk0 = Some ''d''" "free_blocks disk0 = {x. valid_block_index x}" "steady disk0" "h_open disk0 = replicate FS_MAX_OPEN_FILES zero_file"
proof -
  obtain rc s where m: "fs_mount (Some ''d'') (no_handle formatted) = (rc, s)" by force
  have h: "no_handle formatted = no_handle new_host \<lparr> st_host := formatted \<rparr>"
    by (simp add: no_handle_def)
  have "disk0 = s" "steady (no_handle formatted)"
    using m formatted_ok(2) by (simp_all add: disk0_def steady_def no_handle_def)
  then show "fs_mount (Some ''d'') (no_handle formatted) = (FS_OK, disk0)" "otfs_wf disk0" "all_tidy disk0" "otfs_files disk0 = Map.empty"
    "h_image_file disk0 = Some ''d''" "free_blocks disk0 = {x. valid_block_index x}" "steady disk0" "h_open disk0 = replicate FS_MAX_OPEN_FILES zero_file"
    using format_mounts [OF formatted_ok(1) m [unfolded h]] fs_mount_open [OF m] m h by (auto simp: steady_def no_handle_def)
qed

lemma disk1_ok:
  "fs_open (Some ''a'') 7 disk0 = (int fd1, disk1)" "otfs_wf disk1" "all_tidy disk1" "fd1 < FS_MAX_OPEN_FILES" "f_in_use (h_open disk1 ! fd1) \<noteq> 0"
  "f_flags (h_open disk1 ! fd1) = 7" "f_offset (h_open disk1 ! fd1) = 0" "otfs_files disk1 = [''a'' \<mapsto> []]"
  "sized disk1 (unat (f_dir_index (h_open disk1 ! fd1)))" "h_image_file disk1 = Some ''d''"
proof -
  obtain rc s where f: "fs_open (Some ''a'') 7 disk0 = (rc, s)" by force
  have v: "validate_name (Some ''a'') = FS_OK" "and 7 (or FS_O_READ FS_O_WRITE) \<noteq> 0" "and 7 FS_O_TRUNC = 0" "and 7 FS_O_CREATE \<noteq> 0"
    by (simp_all add: validate_name_def FS_MAX_NAME_LEN_def FS_O_READ_def FS_O_WRITE_def FS_O_TRUNC_def FS_O_CREATE_def)
  have n: "used disk0 = {}"
    using otfs_files_entry [of disk0] disk0_ok(2,4) by (auto simp: otfs_wf_def)
  have free: "f_in_use (h_open disk0 ! 0) = 0" "0 < FS_MAX_OPEN_FILES" "0 < FS_MAX_FILES"
    unfolding disk0_ok(8) by (simp_all add: zero_file_def FS_MAX_OPEN_FILES_def FS_MAX_FILES_def)
  note e = fs_open_effect [OF disk0_ok(2) _ f]
  have "otfs_wf s \<and> all_tidy s \<and> (\<exists>fd i. rc = int fd \<and> fd < FS_MAX_OPEN_FILES \<and>
             h_open s = (h_open disk0)[fd := \<lparr> f_in_use = 1, f_dir_index = word_of_nat i, f_offset = 0, f_flags = 7 \<rparr>] \<and>
             otfs_files s = [''a'' \<mapsto> []])"
    using e disk0_ok(3,4,7) v n free by (auto simp: opened_files_def)
  then obtain fd i where s: "otfs_wf s" "all_tidy s" "rc = int fd" "fd < FS_MAX_OPEN_FILES" "otfs_files s = [''a'' \<mapsto> []]"
    "h_open s = (h_open disk0)[fd := \<lparr> f_in_use = 1, f_dir_index = word_of_nat i, f_offset = 0, f_flags = 7 \<rparr>]"
    by blast
  have "disk1 = s" "fd1 = fd"
    using f s(3) by (simp_all add: disk1_def fd1_def)
  moreover have "h_open s ! fd = \<lparr> f_in_use = 1, f_dir_index = word_of_nat i, f_offset = 0, f_flags = 7 \<rparr>"
    using s(4) disk0_ok(8) by (simp add: s(6))
  moreover from this have "sized s (unat (f_dir_index (h_open s ! fd)))"
    using s(1,2,4) by (auto simp: otfs_wf_def open_wf_def all_tidy_def tidy_def)
  ultimately show "fs_open (Some ''a'') 7 disk0 = (int fd1, disk1)" "otfs_wf disk1" "all_tidy disk1" "fd1 < FS_MAX_OPEN_FILES" "f_in_use (h_open disk1 ! fd1) \<noteq> 0"
    "f_flags (h_open disk1 ! fd1) = 7" "f_offset (h_open disk1 ! fd1) = 0" "otfs_files disk1 = [''a'' \<mapsto> []]"
    "sized disk1 (unat (f_dir_index (h_open disk1 ! fd1)))" "h_image_file disk1 = Some ''d''"
    using s f same_image_open [OF f] disk0_ok(5) by (simp_all add: same_place_def)
qed

lemma open_fat: "fs_open name flags s = (rc, s') \<Longrightarrow> and flags FS_O_TRUNC = 0 \<Longrightarrow> h_fat s' = h_fat s"
  by (auto simp: fs_open_def open_entry_def alloc_dir_entry_def Let_def split: prod.splits if_splits option.splits sum.splits dest!: sync_fat)

lemma disk1_free: "steady disk1" "free_blocks disk1 = {x. valid_block_index x}"
proof -
  have "and 7 FS_O_TRUNC = 0"
    by (simp add: FS_O_TRUNC_def)
  then have "h_fat disk1 = h_fat disk0"
    using open_fat [OF disk1_ok(1)] by simp
  then show "free_blocks disk1 = {x. valid_block_index x}"
    using disk0_ok(6) by (simp add: free_blocks_def)
  show "steady disk1"
    using same_image_open [OF disk1_ok(1)] disk0_ok(7) by (simp add: steady_def same_place_def)
qed

lemma free_blocks_count: "card {x. valid_block_index x} = FS_DATA_BLOCK_COUNT"
proof -
  have "{x. valid_block_index x} = word_of_nat ` {..<FS_DATA_BLOCK_COUNT}"
  proof
    have "x = word_of_nat (unat x)" for x :: u32
      by simp
    then show "{x. valid_block_index x} \<subseteq> word_of_nat ` {..<FS_DATA_BLOCK_COUNT}"
      unfolding valid_block_index_def by blast
    show "word_of_nat ` {..<FS_DATA_BLOCK_COUNT} \<subseteq> {x. valid_block_index x}"
      by (auto simp: valid_block_index_def unat_of_nat fs_layout)
  qed
  moreover have "inj_on (word_of_nat :: nat \<Rightarrow> u32) {..<FS_DATA_BLOCK_COUNT}"
    by (rule inj_onI) (auto simp: word_of_nat_eq_iff take_bit_nat_eq_self fs_layout)
  ultimately show ?thesis
    by (simp add: card_image)
qed

lemma steady_unmount:
  assumes "otfs_wf s" "steady s"
  obtains s' where "fs_unmount s = (FS_OK, s')" "io_faults (st_host s') = (\<lambda>n. None)"
proof -
  obtain r t where t: "sync_metadata s = (r, t)" by force
  note e = sync_effect(1,2) [OF t assms(1)]
  have "r = FS_OK" "steady t" "validate_common s = FS_OK"
    using e assms same_files_frame(8) [OF e(1) assms(1)] by (auto simp: validate_common_def otfs_wf_def)
  then show ?thesis
    using that t by (simp add: fs_unmount_def file_close_def io_step_def steady_def fs_init_def fun_eq_iff Let_def FS_OK_def)
qed

subsection \<open>Witnesses\<close>

lemma disk1_rights: "and (f_flags (h_open disk1 ! fd1)) FS_O_READ \<noteq> 0" "and (f_flags (h_open disk1 ! fd1)) FS_O_WRITE \<noteq> 0"
  by (simp_all add: disk1_ok(6) FS_O_READ_def FS_O_WRITE_def)

lemma disk1_room: "FS_DATA_BLOCK_COUNT \<le> room disk1 i"
  by (simp add: room_def disk1_free(2) free_blocks_count)

theorem fs_write_fits_witness:
  "fst (fs_write (int fd1) [1, 2, 3] disk1) = FS_OK"
proof -
  obtain rc n s where f: "fs_write (int fd1) [1, 2, 3] disk1 = (rc, n, s)"
    using prod_cases3 by blast
  show ?thesis
    using fs_write_fits [OF disk1_ok(2) disk1_free(1) disk1_ok(4,5) disk1_rights(2) refl _ f refl] f disk1_ok(7)
      disk1_room [of "unat (f_dir_index (h_open disk1 ! fd1))"] by (simp add: fs_layout)
qed

theorem fs_format_mount_witness:
  "case fs_mount (Some ''d'') (no_handle new_host \<lparr> st_host := formatted \<rparr>) of (rc, s) \<Rightarrow> rc = FS_OK \<and> otfs_wf s \<and> otfs_files s = Map.empty"
proof -
  obtain rc s where m: "fs_mount (Some ''d'') (no_handle new_host \<lparr> st_host := formatted \<rparr>) = (rc, s)" by force
  show ?thesis
    using fs_format_mount [OF formatted_ok(1) m] m formatted_ok(2) by simp
qed

theorem fs_open_spec_witness:
  "case fs_open (Some ''a'') 5 disk1 of (rc, s) \<Rightarrow> otfs_wf s \<and> otfs_files s = [''a'' \<mapsto> []] \<or> rc = FS_ERR_NO_SPACE \<or> rc = FS_ERR_IO"
proof -
  obtain rc s where f: "fs_open (Some ''a'') 5 disk1 = (rc, s)" by force
  have "validate_name (Some ''a'') = FS_OK" "and 5 (or FS_O_READ FS_O_WRITE) \<noteq> 0" "and 5 FS_O_TRUNC = 0"
    by (simp_all add: validate_name_def FS_MAX_NAME_LEN_def FS_O_READ_def FS_O_WRITE_def FS_O_TRUNC_def)
  then show ?thesis
    using fs_open_spec [OF disk1_ok(2) _ f] f disk1_ok(8) by (auto simp: opened_files_def)
qed

theorem fs_write_spec_witness:
  "case fs_write (int fd1) [1, 2, 3] disk1 of (rc, n, s) \<Rightarrow> otfs_wf s \<and>
     (rc = FS_OK \<and> n = 3 \<and> file_content s (unat (f_dir_index (h_open disk1 ! fd1))) = write_at 0 [1, 2, 3] (file_content disk1 (unat (f_dir_index (h_open disk1 ! fd1)))) \<or>
      rc \<noteq> FS_OK \<and> n = 0)"
proof -
  obtain rc n s where f: "fs_write (int fd1) [1, 2, 3] disk1 = (rc, n, s)"
    using prod_cases3 by blast
  show ?thesis
    using fs_write_spec [OF disk1_ok(2,9,4,5) disk1_rights(2) refl f refl] f disk1_ok(7) by auto
qed

theorem fs_read_spec_witness:
  "case fs_read (int fd1) 10 disk1 of (rc, buf, n, s) \<Rightarrow> otfs_wf s \<and> otfs_files s = [''a'' \<mapsto> []]"
proof -
  obtain rc buf n s where f: "fs_read (int fd1) 10 disk1 = (rc, buf, n, s)"
    using prod_cases4 by blast
  show ?thesis
    using fs_read_spec [OF disk1_ok(2,9,4,5) disk1_rights(1) refl f refl] f disk1_ok(8) by simp
qed

theorem otfs_run_wf_witness:
  "\<exists>s'. run_steps otfs_next disk0 [Call_open ''a'' 7, Call_write 0 [1, 2, 3], Call_seek 0 1, Call_read 0 2, Call_close 0] = Some s' \<and> otfs_wf s'"
  by (rule otfs_run_wf [OF disk0_ok(2)]) simp

theorem otfs_persistence_witness:
  "case fs_mount (Some ''d'') (snd (fs_unmount disk1)) of (rc, s) \<Rightarrow> rc = FS_OK \<and> otfs_files s = [''a'' \<mapsto> []]"
proof -
  obtain s2 where u: "fs_unmount disk1 = (FS_OK, s2)" "io_faults (st_host s2) = (\<lambda>n. None)"
    by (rule steady_unmount [OF disk1_ok(2) disk1_free(1)])
  obtain rc s4 where m: "fs_mount (Some ''d'') s2 = (rc, s4)" by force
  have r: "run_steps otfs_next disk0 [Call_open ''a'' 7] = Some disk1" "tidy_run disk0 [Call_open ''a'' 7]"
    using disk1_ok(1) by (simp_all add: otfs_next_def)
  show ?thesis
    using otfs_persistence [OF disk0_ok(2,3,5) _ r(2,1) u(1) refl m] u m disk1_ok(8) by (simp add: steady_def)
qed

theorem otfs_write_read_witness:
  "case fs_write (int fd1) [1, 2, 3] disk1 of (rc1, n, s1) \<Rightarrow>
   case fs_seek (int fd1) (f_offset (h_open disk1 ! fd1)) s1 of (rc2, s2) \<Rightarrow>
   case fs_read (int fd1) (length [1 :: u8, 2, 3]) s2 of (rc3, data, m, s3) \<Rightarrow>
     rc1 = FS_OK \<and> rc2 = FS_OK \<and> (rc3 = FS_OK \<longrightarrow> data = [1, 2, 3])"
proof -
  let ?i = "unat (f_dir_index (h_open disk1 ! fd1))"
  obtain rc1 n s1 where f: "fs_write (int fd1) [1, 2, 3] disk1 = (rc1, n, s1)"
    using prod_cases3 by blast
  have "rc1 = FS_OK"
    using fs_write_room [OF disk1_ok(2) disk1_free(1) disk1_ok(4,5) disk1_rights(2) refl _ f refl] disk1_ok(7) disk1_room [of ?i]
    by (simp add: fs_layout)
  then have w: "fs_write (int fd1) [1, 2, 3] disk1 = (FS_OK, n, s1)"
    using f by simp
  obtain rc2 s2 where k: "fs_seek (int fd1) (f_offset (h_open disk1 ! fd1)) s1 = (rc2, s2)" by force
  obtain rc3 data m s3 where r: "fs_read (int fd1) (length [1 :: u8, 2, 3]) s2 = (rc3, data, m, s3)"
    using prod_cases4 by blast
  have "unat (f_offset (h_open disk1 ! fd1)) \<le> size_of disk1 ?i"
    by (simp add: disk1_ok(7))
  then show ?thesis
    using otfs_write_read [OF disk1_ok(2,9,4,5) refl disk1_rights(2,1) _ w k r] w k r by auto
qed

end
