(* ===== verification/OtfsTest.thy ===== *)
theory OtfsTest
  imports OtfsFormat
begin

text \<open>
  The two programs on top of OTFS: the image tool (\<open>fs/mkfs_otfs.c\<close>) and the read-write test
  (\<open>fs/fs_rw_test.c\<close>), which runs every file operation against a mounted image, unmounts it, mounts it
  again and looks at the files once more. Both return their exit code; their messages are left out.
\<close>

subsection \<open>The programs\<close>

definition mkfs_main :: "string list \<Rightarrow> host \<Rightarrow> int \<times> host" where
  "mkfs_main argv h =
     (if length argv \<noteq> 2 then (2, h)
      else let image_path = argv ! 1; (rc, h) = fs_format_image (Some image_path) h in
        if rc \<noteq> 0 then (1, h) else (0, h))"

definition expect_ok :: "int \<Rightarrow> int" where
  "expect_ok rc = (if rc \<noteq> 0 then 1 else 0)"

definition write_file :: "string \<Rightarrow> u8 list \<Rightarrow> otfs \<Rightarrow> int \<times> otfs" where
  "write_file name data s =
     (let (fd, s) = fs_open (Some name) (or FS_O_WRITE (or FS_O_CREATE FS_O_TRUNC)) s in
      if fd < 0 then (1, s)
      else let (rc, written, s) = fs_write fd data s in
      if expect_ok rc \<noteq> 0 then (1, snd (fs_close fd s))
      else if written \<noteq> length data then (1, snd (fs_close fd s))
      else let (rc, s) = fs_close fd s in
      if expect_ok rc \<noteq> 0 then (1, s) else (0, s))"

text \<open>The buffer of the caller is passed in and comes back with the bytes read at its front.\<close>

definition read_file_exact :: "string \<Rightarrow> u8 list \<Rightarrow> nat \<Rightarrow> otfs \<Rightarrow> int \<times> u8 list \<times> otfs" where
  "read_file_exact name buf len s =
     (let (fd, s) = fs_open (Some name) FS_O_READ s in
      if fd < 0 then (1, buf, s)
      else let (rc, data, got, s) = fs_read fd len s; buf = data @ drop (length data) buf in
      if expect_ok rc \<noteq> 0 then (1, buf, snd (fs_close fd s))
      else if got \<noteq> len then (1, buf, snd (fs_close fd s))
      else let (rc, s) = fs_close fd s in
      if expect_ok rc \<noteq> 0 then (1, buf, s) else (0, buf, s))"

text \<open>The ways out of the test: unmount and return 1, with a descriptor to close or without.\<close>

definition give_up :: "otfs \<Rightarrow> int \<times> otfs" where
  "give_up s = (1, snd (fs_unmount s))"

definition close_give_up :: "int \<Rightarrow> otfs \<Rightarrow> int \<times> otfs" where
  "close_give_up fd s = give_up (snd (fs_close fd s))"

text \<open>The steps of the test, each of which gives up when something is not as it should be.\<close>

definition put_file :: "string \<Rightarrow> u8 list \<Rightarrow> otfs \<Rightarrow> int \<times> otfs" where
  "put_file name data s = (let (rc, s) = write_file name data s in if rc \<noteq> 0 then give_up s else (0, s))"

definition expect_file :: "string \<Rightarrow> nat \<Rightarrow> u8 list \<Rightarrow> otfs \<Rightarrow> int \<times> otfs" where
  "expect_file name bytes content s =
     (let (rc, buf, s) = read_file_exact name (replicate bytes 0) (length content) s in
      if rc \<noteq> 0 then give_up s
      else if take (length content) buf \<noteq> content then give_up s else (0, s))"

definition put_at :: "string \<Rightarrow> u32 \<Rightarrow> u32 \<Rightarrow> u8 list \<Rightarrow> otfs \<Rightarrow> int \<times> otfs" where
  "put_at name flags off data s =
     (let (fd, s) = fs_open (Some name) flags s in
      if fd < 0 then give_up s
      else let (rc, s) = fs_seek fd off s in
      if expect_ok rc \<noteq> 0 then close_give_up fd s
      else let (rc, written, s) = fs_write fd data s in
      if expect_ok rc \<noteq> 0 then close_give_up fd s
      else if written \<noteq> length data then close_give_up fd s
      else let (rc, s) = fs_close fd s in
      if expect_ok rc \<noteq> 0 then give_up s else (0, s))"

definition text_v1 :: "u8 list" where "text_v1 = map char_u8 ''bootstrapped file content''"
definition text_v2 :: "u8 list" where "text_v2 = map char_u8 ''updated file content after truncation''"
definition text_v3 :: "u8 list" where "text_v3 = map char_u8 ''updated DATA content after truncation''"
definition sparse_tail :: "u8 list" where "sparse_tail = map char_u8 ''XYZ''"

definition pattern :: "u8 list" where
  "pattern = map (\<lambda>i. char_u8 (CHR ''A'') + word_of_nat (i mod 26)) [0..<1300]"

definition expect_sparse :: "otfs \<Rightarrow> int \<times> otfs" where
  "expect_sparse s =
     (let (rc, buf, s) = read_file_exact ''sparse.bin'' (replicate 603 0xaa) 603 s in
      if rc \<noteq> 0 then give_up s
      else if \<not> list_all (\<lambda>b. b = 0) (take 600 buf) then give_up s
      else if take 3 (drop 600 buf) \<noteq> sparse_tail then give_up s else (0, s))"

primrec run_tests :: "(otfs \<Rightarrow> int \<times> otfs) list \<Rightarrow> otfs \<Rightarrow> int \<times> otfs" where
  "run_tests [] s = (0, s)"
| "run_tests (t # ts) s = (case t s of (rc, s) \<Rightarrow> if rc \<noteq> 0 then (rc, s) else run_tests ts s)"

definition fs_rw_test_main :: "string list \<Rightarrow> host \<Rightarrow> int \<times> host" where
  "fs_rw_test_main argv h =
     (if length argv \<noteq> 2 then (2, h)
      else
        let image_path = argv ! 1;
            (rc, s) = fs_mount (Some image_path) (fs_init (no_handle h)) in
        if expect_ok rc \<noteq> 0 then (1, st_host s)
        else
        let (rc, s) = run_tests
              [put_file ''note.txt'' text_v1, expect_file ''note.txt'' 128 text_v1,
               put_file ''note.txt'' text_v2, expect_file ''note.txt'' 128 text_v2,
               put_at ''note.txt'' FS_O_WRITE 8 (map char_u8 ''DATA''), expect_file ''note.txt'' 128 text_v3,
               put_file ''blob.bin'' pattern, expect_file ''blob.bin'' 1300 pattern,
               put_at ''sparse.bin'' (or FS_O_WRITE (or FS_O_CREATE FS_O_TRUNC)) 600 sparse_tail, expect_sparse] s in
        if rc \<noteq> 0 then (rc, st_host s)
        else let (rc, s) = fs_unmount s in
        if expect_ok rc \<noteq> 0 then (1, st_host s)
        else let (rc, s) = fs_mount (Some image_path) s in
        if expect_ok rc \<noteq> 0 then (1, st_host s)
        else
        let (rc, s) = run_tests
              [expect_file ''note.txt'' 128 text_v3, expect_file ''blob.bin'' 1300 pattern, expect_sparse] s in
        if rc \<noteq> 0 then (rc, st_host s)
        else let (rc, s) = fs_unmount s in
        if expect_ok rc \<noteq> 0 then (1, st_host s) else (0, st_host s))"

subsection \<open>A mounted image with nothing open\<close>

definition stocked :: "string \<Rightarrow> (string \<Rightarrow> u8 list option) \<Rightarrow> nat \<Rightarrow> otfs \<Rightarrow> bool" where
  "stocked p F n s \<longleftrightarrow> otfs_wf s \<and> all_tidy s \<and> steady s \<and> h_image_file s = Some p \<and> otfs_files s = F \<and> n \<le> card (free_blocks s)"

definition idle :: "fs_open_file list" where
  "idle = replicate FS_MAX_OPEN_FILES zero_file"

lemma files_count: "otfs_wf s \<Longrightarrow> card (dom (otfs_files s)) = card (used s)"
proof -
  assume s: "otfs_wf s"
  then have n: "names_wf (h_dir s)"
    by (simp add: otfs_wf_def)
  have "dom (otfs_files s) = entry_name s ` used s"
    using otfs_files_iff [OF n] otfs_files_entry [OF n] by (auto simp: dom_def)
  then show ?thesis
    using card_image [OF entry_name_inj [OF n]] by simp
qed

lemma open_stocked:
  assumes "stocked p F n s" "h_open s = idle" "CHR 0x00 \<notin> set name" "validate_name (Some name) = FS_OK"
    and "and flags (or FS_O_READ FS_O_WRITE) \<noteq> 0" "and flags FS_O_TRUNC = 0 \<or> and flags FS_O_WRITE \<noteq> 0"
    and "name \<in> dom F \<or> and flags FS_O_CREATE \<noteq> 0 \<and> card (dom F) < FS_MAX_FILES"
  obtains fd i s' where "fs_open (Some name) flags s = (int fd, s')" "fd < FS_MAX_OPEN_FILES"
    "stocked p (if name \<in> dom F \<and> and flags FS_O_TRUNC = 0 then F else F(name \<mapsto> [])) n s'"
    "h_open s' = idle[fd := \<lparr> f_in_use = 1, f_dir_index = word_of_nat i, f_offset = 0, f_flags = flags \<rparr>]"
    "unat (word_of_nat i :: u8) = i" "i \<in> used s'" "entry_name s' i = name"
proof -
  have s: "otfs_wf s" "all_tidy s" "steady s" "h_image_file s = Some p" "otfs_files s = F" "n \<le> card (free_blocks s)"
    using assms(1) by (auto simp: stocked_def)
  obtain rc s' where o: "fs_open (Some name) flags s = (rc, s')" by force
  have "name \<notin> dom (otfs_files s) \<Longrightarrow> used s \<noteq> {..<FS_MAX_FILES}"
    using assms(7) files_count [OF s(1)] s(5) by auto
  moreover have "f_in_use (h_open s ! 0) = 0" "0 < FS_MAX_OPEN_FILES"
    by (simp_all add: assms(2) idle_def zero_file_def FS_MAX_OPEN_FILES_def)
  ultimately have e: "otfs_wf s'" "all_tidy s'" "\<exists>fd i. rc = int fd \<and> fd < FS_MAX_OPEN_FILES \<and>
      h_open s' = (h_open s)[fd := \<lparr> f_in_use = 1, f_dir_index = word_of_nat i, f_offset = 0, f_flags = flags \<rparr>] \<and>
      i \<in> used s' \<and> entry_name s' i = name \<and> otfs_files s' = opened_files name flags s"
    using fs_open_effect [OF s(1) assms(3) o] s(2,3,5) assms(4-7) by (auto split: if_splits)
  from e(3) obtain fd i where f: "rc = int fd" "fd < FS_MAX_OPEN_FILES" "i \<in> used s'" "entry_name s' i = name"
    "h_open s' = idle[fd := \<lparr> f_in_use = 1, f_dir_index = word_of_nat i, f_offset = 0, f_flags = flags \<rparr>]"
    "otfs_files s' = opened_files name flags s"
    unfolding assms(2) by blast
  have "card (free_blocks s) \<le> card (free_blocks s')"
    by (rule card_mono [OF _ fs_open_free [OF o]]) simp
  then have "stocked p (if name \<in> dom F \<and> and flags FS_O_TRUNC = 0 then F else F(name \<mapsto> [])) n s'"
    using e(1,2) f(6) s(3-6) same_image_open [OF o] by (simp add: stocked_def opened_files_def same_place_def steady_def)
  moreover have "unat (word_of_nat i :: u8) = i"
    using f(3) by (simp add: used_def FS_MAX_FILES_def unat_of_nat)
  ultimately show ?thesis
    using that o f by simp
qed

lemma moved_stocked: "moved fd s s' \<Longrightarrow> stocked p F n s \<Longrightarrow> stocked p F n s'"
  using moved_wf [of fd s s'] moved_tidy [of fd s s'] moved_frame(9,11) [of fd s s']
  by (auto simp: stocked_def moved_def free_blocks_def)

abbreviation descriptor :: "nat \<Rightarrow> u32 \<Rightarrow> u32 \<Rightarrow> fs_open_file" where
  "descriptor i off flags \<equiv> \<lparr> f_in_use = 1, f_dir_index = word_of_nat i, f_offset = off, f_flags = flags \<rparr>"

lemma idle_length [simp]: "length idle = FS_MAX_OPEN_FILES"
  by (simp add: idle_def)

lemma seek_stocked:
  assumes "stocked p F n s" "fd < FS_MAX_OPEN_FILES" "h_open s = idle[fd := descriptor i o1 flags]"
  shows "fs_seek (int fd) off s = (FS_OK, set_offset fd off s)" "stocked p F n (set_offset fd off s)"
    "h_open (set_offset fd off s) = idle[fd := descriptor i off flags]"
    "used (set_offset fd off s) = used s" "entry_name (set_offset fd off s) = entry_name s"
proof -
  have "h_mounted s \<noteq> 0"
    using assms(1) by (simp add: stocked_def otfs_wf_def)
  then show "fs_seek (int fd) off s = (FS_OK, set_offset fd off s)"
    using assms(2,3) by (simp add: fs_seek_def validate_common_def valid_fd_def)
  show "stocked p F n (set_offset fd off s)"
    by (rule moved_stocked [OF set_offset_moved assms(1)])
  show "h_open (set_offset fd off s) = idle[fd := descriptor i off flags]"
    using assms(2,3) by (simp add: set_offset_def)
  show "used (set_offset fd off s) = used s" "entry_name (set_offset fd off s) = entry_name s"
    by (simp_all add: used_def entry_name_def [abs_def] set_offset_def)
qed

lemma close_stocked:
  assumes "stocked p F n s" "fd < FS_MAX_OPEN_FILES" "h_open s = idle[fd := descriptor i off flags]"
  obtains s' where "fs_close (int fd) s = (FS_OK, s')" "stocked p F n s'" "h_open s' = idle"
proof -
  let ?s = "s \<lparr> h_open := (h_open s)[fd := zero_file] \<rparr>"
  have "h_mounted s \<noteq> 0"
    using assms(1) by (simp add: stocked_def otfs_wf_def)
  then have c: "fs_close (int fd) s = (FS_OK, ?s)"
    using assms(2,3) by (simp add: fs_close_def validate_common_def valid_fd_def)
  have "idle ! fd = zero_file"
    using assms(2) by (simp add: idle_def)
  then have "h_open ?s = idle"
    by (simp add: assms(3)) (metis list_update_id)
  moreover have "stocked p F n ?s"
    using close_wf [OF c] assms(1) by (simp add: stocked_def steady_def free_blocks_def)
  ultimately show ?thesis
    using that c by blast
qed

lemma stocked_content:
  assumes "stocked p F n s" "i \<in> used s" "entry_name s i = name" "F name = Some c"
  shows "file_content s i = c" "sized s i" "clean s i"
proof -
  have "names_wf (h_dir s)" "otfs_files s = F" "all_tidy s"
    using assms(1) by (auto simp: stocked_def otfs_wf_def)
  then show "file_content s i = c" "sized s i" "clean s i"
    using otfs_files_entry [of s i] assms(2-4) by (auto simp: all_tidy_def tidy_def)
qed

lemma room_left: "a' + b' = a + b \<Longrightarrow> a' = max a k \<Longrightarrow> n \<le> b \<Longrightarrow> n - k \<le> (b' :: nat)"
  by (auto simp: max_def split: if_splits)

lemma write_stocked:
  assumes "stocked p F n s" "fd < FS_MAX_OPEN_FILES" "h_open s = idle[fd := descriptor i off flags]" "unat (word_of_nat i :: u8) = i"
    and "i \<in> used s" "entry_name s i = name" "F name = Some c" "and flags FS_O_WRITE \<noteq> 0" "buf \<noteq> []"
    and "unat off + length buf \<le> n * FS_BLOCK_SIZE"
  obtains off' s' where "fs_write (int fd) buf s = (FS_OK, length buf, s')"
    "stocked p (F(name \<mapsto> write_at (unat off) buf c)) (n - Suc ((unat off + length buf - 1) div FS_BLOCK_SIZE)) s'"
    "h_open s' = idle[fd := descriptor i off' flags]"
proof -
  have s: "otfs_wf s" "all_tidy s" "steady s" "h_image_file s = Some p" "otfs_files s = F" "n \<le> card (free_blocks s)"
    using assms(1) by (auto simp: stocked_def)
  note c = stocked_content [OF assms(1,5-7)]
  have fd: "h_open s ! fd = descriptor i off flags"
    using assms(2,3) by simp
  obtain rc m s' where w: "fs_write (int fd) buf s = (rc, m, s')"
    using prod_cases3 by blast
  have d: "f_in_use (h_open s ! fd) \<noteq> 0" "and (f_flags (h_open s ! fd)) FS_O_WRITE \<noteq> 0" "i = unat (f_dir_index (h_open s ! fd))"
    "unat off = unat (f_offset (h_open s ! fd))"
    using assms(4,8) by (simp_all add: fd)
  note fw = fs_write_room [OF s(1,3) assms(2) d(1-3) assms(9) w d(4)]
  have "n * FS_BLOCK_SIZE \<le> room s i * FS_BLOCK_SIZE"
    using s(6) by (intro mult_le_mono1) (simp add: room_def)
  then have "unat off + length buf \<le> room s i * FS_BLOCK_SIZE"
    using assms(10) by (rule order_trans [rotated])
  then have ok: "rc = FS_OK"
    using fw by blast
  have e: "otfs_wf s'" "otfs_files s' = F(name \<mapsto> write_at (unat off) buf c)" "m = length buf"
    "h_open s' = (h_open s)[fd := (h_open s ! fd) \<lparr> f_offset := f_offset (h_open s' ! fd) \<rparr>]"
    using fs_write_effect [OF s(1) c(2) assms(2) d(1-3) w d(4)] c ok assms(6,9) s(5) by (auto simp: fs_codes)
  have "all_tidy s'" "same_place s s'"
    using write_wf(2) [OF w s(1) ok assms(9) s(2)] otfs_step_image [of s "Call_write (int fd) buf"] w by auto
  moreover have "n - Suc ((unat off + length buf - 1) div FS_BLOCK_SIZE) \<le> card (free_blocks s')"
    using fw ok by (intro room_left [OF _ _ s(6), where a = "length (entry_chain s i)" and a' = "length (entry_chain s' i)"]) (simp_all add: room_def)
  ultimately have "stocked p (F(name \<mapsto> write_at (unat off) buf c)) (n - Suc ((unat off + length buf - 1) div FS_BLOCK_SIZE)) s'"
    using e(1,2) fw s(4) by (simp add: stocked_def same_place_def)
  moreover have "h_open s' = idle[fd := descriptor i (f_offset (h_open s' ! fd)) flags]"
    using e(4) unfolding assms(3) fd by (metis fd assms(3) fs_open_file.update_convs(3) list_update_overwrite)
  ultimately show ?thesis
    using that w ok e(3) by blast
qed

lemma read_stocked:
  assumes "stocked p F n s" "fd < FS_MAX_OPEN_FILES" "h_open s = idle[fd := descriptor i 0 flags]" "unat (word_of_nat i :: u8) = i"
    and "i \<in> used s" "entry_name s i = name" "F name = Some c" "and flags FS_O_READ \<noteq> 0"
  obtains off' s' where "fs_read (int fd) len s = (FS_OK, take len c, length (take len c), s')"
    "stocked p F n s'" "h_open s' = idle[fd := descriptor i off' flags]"
proof -
  have s: "otfs_wf s" "steady s"
    using assms(1) by (auto simp: stocked_def)
  note c = stocked_content [OF assms(1,5-7)]
  have fd: "h_open s ! fd = descriptor i 0 flags"
    using assms(2,3) by simp
  obtain rc buf m s' where r: "fs_read (int fd) len s = (rc, buf, m, s')"
    using prod_cases4 by blast
  have d: "f_in_use (h_open s ! fd) \<noteq> 0" "and (f_flags (h_open s ! fd)) FS_O_READ \<noteq> 0" "i = unat (f_dir_index (h_open s ! fd))"
    using assms(4,8) by (simp_all add: fd)
  have e: "rc = FS_OK" "buf = take len c" "m = length buf"
    "h_open s' = (h_open s)[fd := (h_open s ! fd) \<lparr> f_offset := f_offset (h_open s' ! fd) \<rparr>]"
    using fs_read_effect [OF s(1) c(2) assms(2) d r refl] s(2) c(1) fd by auto
  have "stocked p F n s'"
    using read_moved [OF r s(1)] moved_stocked assms(1) by blast
  moreover have "h_open s' = idle[fd := descriptor i (f_offset (h_open s' ! fd)) flags]"
    using e(4) unfolding assms(3) fd by (metis fd assms(3) fs_open_file.update_convs(3) list_update_overwrite)
  ultimately show ?thesis
    using that r e(1-3) by blast
qed

subsection \<open>The steps of the test\<close>

text \<open>The names and flags of the test.\<close>

definition test_names :: "string set" where
  "test_names = {''note.txt'', ''blob.bin'', ''sparse.bin''}"

lemma test_name:
  "name \<in> test_names \<Longrightarrow> CHR 0x00 \<notin> set name \<and> validate_name (Some name) = FS_OK"
  by (auto simp: test_names_def validate_name_def FS_MAX_NAME_LEN_def)

lemmas flag_defs = FS_O_READ_def FS_O_WRITE_def FS_O_CREATE_def FS_O_TRUNC_def

text \<open>No more files than the test makes.\<close>

lemma few_files: "dom F \<subseteq> test_names \<Longrightarrow> card (dom F) < FS_MAX_FILES"
proof -
  assume "dom F \<subseteq> test_names"
  then have "card (dom F) \<le> card test_names"
    by (intro card_mono) (simp_all add: test_names_def)
  also have "\<dots> < FS_MAX_FILES"
    by (simp add: test_names_def FS_MAX_FILES_def)
  finally show ?thesis .
qed

abbreviation rewrite :: u32 where
  "rewrite \<equiv> or FS_O_WRITE (or FS_O_CREATE FS_O_TRUNC)"

lemma ok_codes: "expect_ok FS_OK = 0" "\<not> int fd < 0"
  by (simp_all add: expect_ok_def FS_OK_def)

lemma open_rewrite:
  assumes "stocked p F n s" "h_open s = idle" "name \<in> test_names" "dom F \<subseteq> test_names"
  obtains fd i s' where "fs_open (Some name) rewrite s = (int fd, s')" "fd < FS_MAX_OPEN_FILES" "stocked p (F(name \<mapsto> [])) n s'"
    "h_open s' = idle[fd := descriptor i 0 rewrite]" "unat (word_of_nat i :: u8) = i" "i \<in> used s'" "entry_name s' i = name"
proof -
  have f: "and rewrite (or FS_O_READ FS_O_WRITE) \<noteq> 0" "and rewrite FS_O_TRUNC \<noteq> 0" "and rewrite FS_O_WRITE \<noteq> 0" "and rewrite FS_O_CREATE \<noteq> 0"
    by (simp_all add: flag_defs)
  show ?thesis
    by (rule open_stocked [OF assms(1,2) _ _ f(1), of name])
      (use test_name [OF assms(3)] few_files [OF assms(4)] f that in auto)
qed

lemma put_file_step:
  assumes "stocked p F n s" "h_open s = idle" "name \<in> test_names" "dom F \<subseteq> test_names" "data \<noteq> []" "length data \<le> n * FS_BLOCK_SIZE"
  obtains s' where "put_file name data s = (0, s')" "stocked p (F(name \<mapsto> data)) (n - Suc ((length data - 1) div FS_BLOCK_SIZE)) s'" "h_open s' = idle"
proof -
  obtain fd i s1 where o: "fs_open (Some name) rewrite s = (int fd, s1)" "fd < FS_MAX_OPEN_FILES" "stocked p (F(name \<mapsto> [])) n s1"
    "h_open s1 = idle[fd := descriptor i 0 rewrite]" "unat (word_of_nat i :: u8) = i" "i \<in> used s1" "entry_name s1 i = name"
    by (rule open_rewrite [OF assms(1-4)])
  have f: "and rewrite FS_O_WRITE \<noteq> 0" "(F(name \<mapsto> [])) name = Some []" "unat (0 :: u32) + length data \<le> n * FS_BLOCK_SIZE"
    using assms(6) by (simp_all add: flag_defs)
  have at0: "write_at 0 data [] = data"
    by (simp add: write_at_def)
  obtain off' s2 where w: "fs_write (int fd) data s1 = (FS_OK, length data, s2)"
    "stocked p (F(name \<mapsto> data)) (n - Suc ((length data - 1) div FS_BLOCK_SIZE)) s2" "h_open s2 = idle[fd := descriptor i off' rewrite]"
    by (rule write_stocked [OF o(3,2,4-7) f(2,1) assms(5) f(3), unfolded fun_upd_upd unat_0 at0 add_0])
  obtain s3 where c: "fs_close (int fd) s2 = (FS_OK, s3)" "stocked p (F(name \<mapsto> data)) (n - Suc ((length data - 1) div FS_BLOCK_SIZE)) s3" "h_open s3 = idle"
    by (rule close_stocked [OF w(2) o(2) w(3)])
  have "put_file name data s = (0, s3)"
    by (simp add: put_file_def write_file_def o(1) w(1) c(1) ok_codes)
  then show ?thesis
    using that c(2,3) by blast
qed

lemma put_at_step:
  assumes "stocked p F n s" "h_open s = idle" "name \<in> test_names" "dom F \<subseteq> test_names"
    and "flags = rewrite \<and> c = [] \<or> flags = FS_O_WRITE \<and> F name = Some c" "data \<noteq> []" "unat off + length data \<le> n * FS_BLOCK_SIZE"
  obtains s' where "put_at name flags off data s = (0, s')"
    "stocked p (F(name \<mapsto> write_at (unat off) data c)) (n - Suc ((unat off + length data - 1) div FS_BLOCK_SIZE)) s'" "h_open s' = idle"
proof -
  have flags: "and flags FS_O_WRITE \<noteq> 0"
    using assms(5) by (auto simp: flag_defs)
  obtain fd i s1 G where o: "fs_open (Some name) flags s = (int fd, s1)" "fd < FS_MAX_OPEN_FILES" "stocked p G n s1" "G name = Some c"
    "G(name \<mapsto> write_at (unat off) data c) = F(name \<mapsto> write_at (unat off) data c)"
    "h_open s1 = idle[fd := descriptor i 0 flags]" "unat (word_of_nat i :: u8) = i" "i \<in> used s1" "entry_name s1 i = name"
  proof (cases "flags = rewrite")
    case True
    then have "c = []"
      using assms(5) by (auto simp: flag_defs)
    then show ?thesis
      using open_rewrite [OF assms(1-4)] that True by (metis fun_upd_same fun_upd_upd)
  next
    case False
    then have w: "flags = FS_O_WRITE" "F name = Some c"
      using assms(5) by auto
    then have f: "and flags (or FS_O_READ FS_O_WRITE) \<noteq> 0" "and flags FS_O_TRUNC = 0"
      by (simp_all add: flag_defs)
    have same: "(if name \<in> dom F \<and> and flags FS_O_TRUNC = 0 then F else F(name \<mapsto> [])) = F"
      using f(2) w(2) by auto
    have n: "CHR 0x00 \<notin> set name" "validate_name (Some name) = FS_OK" "name \<in> dom F \<or> and flags FS_O_CREATE \<noteq> 0 \<and> card (dom F) < FS_MAX_FILES"
      using test_name [OF assms(3)] w(2) by auto
    show ?thesis
      by (rule open_stocked [OF assms(1,2) n(1,2) f(1) disjI1 [OF f(2)] n(3), unfolded same]) (rule that [OF _ _ _ w(2) refl])
  qed
  note k = seek_stocked [OF o(3,2,6), of off]
  obtain off' s2 where w: "fs_write (int fd) data (set_offset fd off s1) = (FS_OK, length data, s2)"
    "stocked p (G(name \<mapsto> write_at (unat off) data c)) (n - Suc ((unat off + length data - 1) div FS_BLOCK_SIZE)) s2"
    "h_open s2 = idle[fd := descriptor i off' flags]"
    by (rule write_stocked [OF k(2) o(2) k(3) o(7) _ _ o(4) flags assms(6,7)]) (simp_all add: k o(8,9))
  obtain s3 where c: "fs_close (int fd) s2 = (FS_OK, s3)"
    "stocked p (G(name \<mapsto> write_at (unat off) data c)) (n - Suc ((unat off + length data - 1) div FS_BLOCK_SIZE)) s3" "h_open s3 = idle"
    by (rule close_stocked [OF w(2) o(2) w(3)])
  have "put_at name flags off data s = (0, s3)"
    by (simp add: put_at_def o(1) k(1) w(1) c(1) ok_codes)
  then show ?thesis
    using that c(2,3) o(5) by simp
qed

lemma read_file_step:
  assumes "stocked p F n s" "h_open s = idle" "name \<in> test_names" "F name = Some c"
  obtains s' where "read_file_exact name buf (length c) s = (0, c @ drop (length c) buf, s')" "stocked p F n s'" "h_open s' = idle"
proof -
  have f: "and FS_O_READ (or FS_O_READ FS_O_WRITE) \<noteq> 0" "and FS_O_READ FS_O_TRUNC = 0" "and FS_O_READ FS_O_READ \<noteq> 0"
    by (simp_all add: flag_defs)
  have same: "(if name \<in> dom F \<and> and FS_O_READ FS_O_TRUNC = 0 then F else F(name \<mapsto> [])) = F"
    using f(2) assms(4) by auto
  have n: "CHR 0x00 \<notin> set name" "validate_name (Some name) = FS_OK" "name \<in> dom F \<or> and FS_O_READ FS_O_CREATE \<noteq> 0 \<and> card (dom F) < FS_MAX_FILES"
    using test_name [OF assms(3)] assms(4) by auto
  obtain fd i s1 where o: "fs_open (Some name) FS_O_READ s = (int fd, s1)" "fd < FS_MAX_OPEN_FILES" "stocked p F n s1"
    "h_open s1 = idle[fd := descriptor i 0 FS_O_READ]" "unat (word_of_nat i :: u8) = i" "i \<in> used s1" "entry_name s1 i = name"
    by (rule open_stocked [OF assms(1,2) n(1,2) f(1) disjI1 [OF f(2)] n(3), unfolded same])
  obtain off' s2 where r: "fs_read (int fd) (length c) s1 = (FS_OK, c, length c, s2)" "stocked p F n s2" "h_open s2 = idle[fd := descriptor i off' FS_O_READ]"
    by (rule read_stocked [OF o(3,2,4-7) assms(4) f(3), of "length c"]) simp
  obtain s3 where c: "fs_close (int fd) s2 = (FS_OK, s3)" "stocked p F n s3" "h_open s3 = idle"
    by (rule close_stocked [OF r(2) o(2) r(3)])
  have "read_file_exact name buf (length c) s = (0, c @ drop (length c) buf, s3)"
    by (simp add: read_file_exact_def o(1) r(1) c(1) ok_codes)
  then show ?thesis
    using that c(2,3) by blast
qed

lemma expect_file_step:
  assumes "stocked p F n s" "h_open s = idle" "name \<in> test_names" "F name = Some c"
  obtains s' where "expect_file name m c s = (0, s')" "stocked p F n s'" "h_open s' = idle"
proof -
  obtain s' where r: "read_file_exact name (replicate m 0) (length c) s = (0, c @ drop (length c) (replicate m 0), s')" "stocked p F n s'" "h_open s' = idle"
    by (rule read_file_step [OF assms])
  then have "expect_file name m c s = (0, s')"
    by (simp add: expect_file_def)
  then show ?thesis
    using that r(2,3) by blast
qed

definition sparse_content :: "u8 list" where
  "sparse_content = replicate 600 0 @ sparse_tail"

lemma expect_sparse_step:
  assumes "stocked p F n s" "h_open s = idle" "F ''sparse.bin'' = Some sparse_content"
  obtains s' where "expect_sparse s = (0, s')" "stocked p F n s'" "h_open s' = idle"
proof -
  have l: "length sparse_content = 603" "length sparse_tail = 3"
    by (simp_all add: sparse_content_def sparse_tail_def)
  obtain s' where r: "read_file_exact ''sparse.bin'' (replicate 603 0xaa) 603 s = (0, sparse_content @ drop 603 (replicate 603 0xaa), s')"
    "stocked p F n s'" "h_open s' = idle"
    by (rule read_file_step [OF assms(1,2) _ assms(3), where buf = "replicate 603 0xaa", unfolded l(1)]) (simp add: test_names_def)
  have "expect_sparse s = (0, s')"
    using l(2) by (simp add: expect_sparse_def r(1) sparse_content_def list_all_iff)
  then show ?thesis
    using that r(2,3) by blast
qed

subsection \<open>The whole test\<close>

text \<open>A step that passes on files \<open>F\<close> with \<open>m\<close> free blocks and leaves files \<open>G\<close> with \<open>k\<close> free blocks.\<close>

definition passes :: "(otfs \<Rightarrow> int \<times> otfs) \<Rightarrow> (string \<Rightarrow> u8 list option) \<Rightarrow> nat \<Rightarrow> (string \<Rightarrow> u8 list option) \<Rightarrow> nat \<Rightarrow> bool" where
  "passes t F m G k \<longleftrightarrow>
     (\<forall>p s. stocked p F m s \<and> h_open s = idle \<longrightarrow> (\<exists>s'. t s = (0, s') \<and> stocked p G k s' \<and> h_open s' = idle))"

lemma passes_Nil: "passes (run_tests []) F m F m"
  by (simp add: passes_def)

lemma passes_Cons:
  assumes "passes t F m G k" "passes (run_tests ts) G k H l"
  shows "passes (run_tests (t # ts)) F m H l"
  unfolding passes_def
proof (intro allI impI)
  fix p s
  assume "stocked p F m s \<and> h_open s = idle"
  then obtain u where u: "t s = (0, u)" "stocked p G k u \<and> h_open u = idle"
    using assms(1) unfolding passes_def by blast
  then show "\<exists>s'. run_tests (t # ts) s = (0, s') \<and> stocked p H l s' \<and> h_open s' = idle"
    using assms(2) unfolding passes_def by simp
qed

lemma stocked_mono: "stocked p F m s \<Longrightarrow> k \<le> m \<Longrightarrow> stocked p F k s"
  by (simp add: stocked_def)

lemma passes_put_file:
  assumes "name \<in> test_names" "dom F \<subseteq> test_names" "data \<noteq> []" "length data \<le> m * FS_BLOCK_SIZE"
    and "k \<le> m - Suc ((length data - 1) div FS_BLOCK_SIZE)"
  shows "passes (put_file name data) F m (F(name \<mapsto> data)) k"
  unfolding passes_def by (metis put_file_step [OF _ _ assms(1-4)] stocked_mono [OF _ assms(5)])

lemma passes_put_at:
  assumes "name \<in> test_names" "dom F \<subseteq> test_names" "flags = rewrite \<and> c = [] \<or> flags = FS_O_WRITE \<and> F name = Some c"
    and "data \<noteq> []" "unat off + length data \<le> m * FS_BLOCK_SIZE" "k \<le> m - Suc ((unat off + length data - 1) div FS_BLOCK_SIZE)"
  shows "passes (put_at name flags off data) F m (F(name \<mapsto> write_at (unat off) data c)) k"
  unfolding passes_def by (metis put_at_step [OF _ _ assms(1-5)] stocked_mono [OF _ assms(6)])

lemma passes_expect_file: "name \<in> test_names \<Longrightarrow> F name = Some c \<Longrightarrow> passes (expect_file name n c) F m F m"
  unfolding passes_def by (metis expect_file_step)

lemma passes_expect_sparse: "F ''sparse.bin'' = Some sparse_content \<Longrightarrow> passes expect_sparse F m F m"
  unfolding passes_def by (metis expect_sparse_step)

lemma test_lengths: "length text_v1 = 25" "length text_v2 = 37" "length pattern = 1300" "length sparse_tail = 3"
  by (simp_all add: text_v1_def text_v2_def pattern_def sparse_tail_def)

lemma test_nonempty: "text_v1 \<noteq> []" "text_v2 \<noteq> []" "pattern \<noteq> []" "sparse_tail \<noteq> []"
  by (simp_all add: text_v1_def text_v2_def pattern_def sparse_tail_def)

lemma test_contents:
  "write_at 8 (map char_u8 ''DATA'') text_v2 = text_v3" "write_at 600 sparse_tail [] = sparse_content"
  by (simp_all add: write_at_def text_v2_def text_v3_def sparse_content_def test_nonempty)

definition test_files :: "string \<Rightarrow> u8 list option" where
  "test_files = [''note.txt'' \<mapsto> text_v3, ''blob.bin'' \<mapsto> pattern, ''sparse.bin'' \<mapsto> sparse_content]"

text \<open>The first half, on an empty image with at least eight free blocks.\<close>

lemma first_half:
  "passes (run_tests
      [put_file ''note.txt'' text_v1, expect_file ''note.txt'' 128 text_v1, put_file ''note.txt'' text_v2, expect_file ''note.txt'' 128 text_v2,
       put_at ''note.txt'' FS_O_WRITE 8 (map char_u8 ''DATA''), expect_file ''note.txt'' 128 text_v3,
       put_file ''blob.bin'' pattern, expect_file ''blob.bin'' 1300 pattern,
       put_at ''sparse.bin'' rewrite 600 sparse_tail, expect_sparse]) Map.empty 8 test_files 0"
proof -
  let ?F1 = "[''note.txt'' \<mapsto> text_v1]" and ?F2 = "[''note.txt'' \<mapsto> text_v2]" and ?F3 = "[''note.txt'' \<mapsto> text_v3]"
  let ?F4 = "[''note.txt'' \<mapsto> text_v3, ''blob.bin'' \<mapsto> pattern]"
  have n: "''note.txt'' \<in> test_names" "''blob.bin'' \<in> test_names" "''sparse.bin'' \<in> test_names"
    by (simp_all add: test_names_def)
  note simps = test_lengths FS_BLOCK_SIZE_def test_names_def
  have 1: "passes (put_file ''note.txt'' text_v1) Map.empty 8 ?F1 7"
    by (rule passes_put_file [OF n(1) _ test_nonempty(1)]) (simp_all add: simps)
  have 2: "passes (put_file ''note.txt'' text_v2) ?F1 7 ?F2 6"
    by (rule passes_put_file [OF n(1) _ test_nonempty(2), of ?F1, unfolded fun_upd_upd]) (simp_all add: simps)
  have 3: "passes (put_at ''note.txt'' FS_O_WRITE 8 (map char_u8 ''DATA'')) ?F2 6 ?F3 5"
    using passes_put_at [OF n(1), of ?F2 FS_O_WRITE text_v2 "map char_u8 ''DATA''" 8 6 5] test_contents(1) by (simp add: simps)
  have 4: "passes (put_file ''blob.bin'' pattern) ?F3 5 ?F4 2"
    by (rule passes_put_file [OF n(2) _ test_nonempty(3)]) (simp_all add: simps)
  have 5: "passes (put_at ''sparse.bin'' rewrite 600 sparse_tail) ?F4 2 test_files 0"
    using passes_put_at [OF n(3), of ?F4 rewrite "[]" sparse_tail 600 2 0] test_contents(2) test_nonempty(4)
    by (simp add: simps test_files_def)
  have "passes (expect_file ''note.txt'' 128 text_v1) ?F1 7 ?F1 7" "passes (expect_file ''note.txt'' 128 text_v2) ?F2 6 ?F2 6"
    "passes (expect_file ''note.txt'' 128 text_v3) ?F3 5 ?F3 5" "passes (expect_file ''blob.bin'' 1300 pattern) ?F4 2 ?F4 2"
    "passes expect_sparse test_files 0 test_files 0"
    by (rule passes_expect_file [OF n(1)] passes_expect_file [OF n(2)] passes_expect_sparse; simp add: test_files_def)+
  note e = this
  show ?thesis
    by (rule passes_Cons [OF 1] passes_Cons [OF 2] passes_Cons [OF 3] passes_Cons [OF 4] passes_Cons [OF 5]
      passes_Cons [OF e(1)] passes_Cons [OF e(2)] passes_Cons [OF e(3)] passes_Cons [OF e(4)] passes_Cons [OF e(5)] passes_Nil)+
qed

lemma second_half:
  "passes (run_tests [expect_file ''note.txt'' 128 text_v3, expect_file ''blob.bin'' 1300 pattern, expect_sparse]) test_files 0 test_files 0"
proof -
  have "passes (expect_file ''note.txt'' 128 text_v3) test_files 0 test_files 0"
    "passes (expect_file ''blob.bin'' 1300 pattern) test_files 0 test_files 0" "passes expect_sparse test_files 0 test_files 0"
    by (rule passes_expect_file passes_expect_sparse; simp add: test_names_def test_files_def)+
  then show ?thesis
    by (rule passes_Cons [OF _ passes_Cons [OF _ passes_Cons [OF _ passes_Nil]]])
qed

lemma expect_ok_FS_OK: "rc = FS_OK \<Longrightarrow> expect_ok rc = 0"
  by (simp add: ok_codes)

text \<open>Unmounting and mounting again.\<close>

lemma stocked_remount:
  assumes "stocked p F n s"
  obtains s1 s2 where "fs_unmount s = (FS_OK, s1)" "fs_mount (Some p) s1 = (FS_OK, s2)" "stocked p F 0 s2" "h_open s2 = idle"
proof -
  have s: "otfs_wf s" "all_tidy s" "steady s" "h_image_file s = Some p" "otfs_files s = F"
    using assms by (auto simp: stocked_def)
  obtain s1 where u: "fs_unmount s = (FS_OK, s1)" "io_faults (st_host s1) = (\<lambda>n. None)"
    by (rule steady_unmount [OF s(1,3)])
  obtain rc s2 where m: "fs_mount (Some p) s1 = (rc, s2)" by force
  have "steady s1"
    using u(2) by (simp add: steady_def)
  then have "rc = FS_OK" "stocked p F 0 s2" "h_open s2 = idle"
    using remount [OF s(1,2,4) u(1) refl m] fs_mount_open [OF m] s(5) u(2) by (auto simp: stocked_def steady_def idle_def)
  then show ?thesis
    using that u(1) m by simp
qed

text \<open>
  C5: The test of the file system passes: on a host without failing calls the image tool returns 0 and
  the read-write test, run on the image it made, returns 0 as well - every file is created, written,
  truncated, patched and written beyond its end as the test expects, and is still there after
  unmounting and mounting the image again.
\<close>

theorem fs_rw_test_passes:
  assumes "io_faults h = (\<lambda>n. None)"
  shows "case mkfs_main [a, p] h of (rc, h1) \<Rightarrow> rc = 0 \<and> fst (fs_rw_test_main [b, p] h1) = 0"
proof -
  obtain rc h1 where f: "fs_format_image (Some p) h = (rc, h1)" by force
  have ok: "rc = FS_OK" "io_faults h1 = (\<lambda>n. None)"
    using steady_format [OF assms f] by simp_all
  have init: "(fs_init (no_handle h1)) \<lparr> st_host := h1 \<rparr> = fs_init (no_handle h1)"
    by (simp add: fs_init_def no_handle_def)
  obtain r s where m: "fs_mount (Some p) (fs_init (no_handle h1)) = (r, s)" by force
  then have m': "fs_mount (Some p) ((fs_init (no_handle h1)) \<lparr> st_host := h1 \<rparr>) = (r, s)"
    by (simp only: init)
  have st: "io_faults (st_host (fs_init (no_handle h1))) = (\<lambda>n. None)"
    using ok(2) by (simp add: fs_init_def no_handle_def)
  have "r = FS_OK" "stocked p Map.empty FS_DATA_BLOCK_COUNT s" "h_open s = idle"
    using format_mounts [OF f [unfolded ok(1)] m'] fs_mount_open [OF m] ok(2) free_blocks_count st
    by (auto simp: stocked_def steady_def idle_def)
  then have s: "stocked p Map.empty 8 s" "h_open s = idle" "r = FS_OK"
    using stocked_mono [of p Map.empty FS_DATA_BLOCK_COUNT s 8] by (simp_all add: fs_layout)
  obtain s1 where s1: "run_tests
      [put_file ''note.txt'' text_v1, expect_file ''note.txt'' 128 text_v1, put_file ''note.txt'' text_v2, expect_file ''note.txt'' 128 text_v2,
       put_at ''note.txt'' FS_O_WRITE 8 (map char_u8 ''DATA''), expect_file ''note.txt'' 128 text_v3,
       put_file ''blob.bin'' pattern, expect_file ''blob.bin'' 1300 pattern,
       put_at ''sparse.bin'' rewrite 600 sparse_tail, expect_sparse] s = (0, s1)" "stocked p test_files 0 s1"
    using first_half s unfolding passes_def by blast
  obtain s2 s3 where s3: "fs_unmount s1 = (FS_OK, s2)" "fs_mount (Some p) s2 = (FS_OK, s3)" "stocked p test_files 0 s3" "h_open s3 = idle"
    by (rule stocked_remount [OF s1(2)])
  obtain s4 where s4: "run_tests [expect_file ''note.txt'' 128 text_v3, expect_file ''blob.bin'' 1300 pattern, expect_sparse] s3 = (0, s4)"
    "stocked p test_files 0 s4"
    using second_half s3(3,4) unfolding passes_def by blast
  obtain s5 s6 where s5: "fs_unmount s4 = (FS_OK, s5)" "fs_mount (Some p) s5 = (FS_OK, s6)"
    by (rule stocked_remount [OF s4(2)])
  have "fs_rw_test_main [b, p] h1 = (0, st_host s5)"
    unfolding fs_rw_test_main_def
    by (simp only: list.size nth_Cons_0 nth_Cons_Suc One_nat_def Let_def m s(3) s1 s3 s4 s5 prod.case ok_codes) simp
  then show ?thesis
    using f ok(1) by (simp add: mkfs_main_def FS_OK_def)
qed

theorem fs_rw_test_passes_witness:
  "case mkfs_main [''mkfs'', ''d''] new_host of (rc, h1) \<Rightarrow> rc = 0 \<and> fst (fs_rw_test_main [''fs_rw_test'', ''d''] h1) = 0"
  by (rule fs_rw_test_passes) (simp add: new_host_def)

end
