(* ===== verification/OtfsCodes.thy ===== *)
theory OtfsCodes
  imports Otfs
begin

text \<open>
  What the results of the OTFS operations can be, for every handle - also one that is not mounted or holds
  a corrupt table - every argument and every failure of the host.
\<close>

definition fs_result :: "int set" where
  "fs_result = {FS_OK, FS_ERR_ARG, FS_ERR_IO, FS_ERR_STATE, FS_ERR_NOT_FOUND, FS_ERR_NO_SPACE}"

lemma fs_result_codes [simp]:
  "FS_OK \<in> fs_result" "FS_ERR_ARG \<in> fs_result" "FS_ERR_IO \<in> fs_result" "FS_ERR_STATE \<in> fs_result"
  "FS_ERR_NOT_FOUND \<in> fs_result" "FS_ERR_NO_SPACE \<in> fs_result"
  by (simp_all add: fs_result_def)

lemma fs_error_codes [simp]:
  "FS_ERR_ARG \<noteq> FS_OK" "FS_ERR_IO \<noteq> FS_OK" "FS_ERR_STATE \<noteq> FS_OK" "FS_ERR_NOT_FOUND \<noteq> FS_OK" "FS_ERR_NO_SPACE \<noteq> FS_OK"
  by (simp_all add: fs_codes)

lemma validate_codes [simp]: "validate_common s \<in> fs_result" "validate_name name \<in> fs_result"
  by (auto simp: validate_common_def validate_name_def split: option.splits)

lemma release_code: "release_loop fat cur seen = (rc, fat') \<Longrightarrow> rc \<in> fs_result"
  by (induction fat cur seen rule: release_loop.induct) (auto simp: release_loop.simps split: if_splits)

lemma sync_code: "sync_metadata s = (rc, s') \<Longrightarrow> rc \<in> fs_result"
  by (auto simp: sync_metadata_def split: prod.splits if_splits)

lemma truncate_code: "truncate_entry i s = (rc, s') \<Longrightarrow> rc \<in> fs_result"
  by (auto simp: truncate_entry_def split: prod.splits if_splits)

lemma open_entry_code: "open_entry name flags s = (Inl rc, s') \<Longrightarrow> rc \<in> fs_result \<and> rc \<noteq> FS_OK"
  by (auto simp: open_entry_def split: option.splits prod.splits if_splits)

lemma read_chunk_code: "read_chunk fd i c s = (rc, d, s') \<Longrightarrow> rc \<in> fs_result"
  by (auto simp: read_chunk_def Let_def split: prod.splits if_splits)

lemma read_loop_code: "read_loop fd i len copied buf s = (rc, b, s') \<Longrightarrow> rc \<in> fs_result"
proof (induction fd i len copied buf s rule: read_loop.induct)
  case (1 fd i len copied buf s)
  then show ?case
    by (subst (asm) (2) read_loop.simps) (auto simp: Let_def split: prod.splits if_splits dest: read_chunk_code)
qed

lemma write_chunk_code: "write_chunk fd i d s = (rc, s') \<Longrightarrow> rc \<in> fs_result"
  by (auto simp: write_chunk_def store_chunk_def Let_def split: prod.splits if_splits)

lemma write_loop_code: "write_loop fd i buf copied s = (rc, n, s') \<Longrightarrow> copied \<le> length buf \<Longrightarrow> rc \<in> fs_result \<and> (rc = FS_OK \<longrightarrow> n = length buf)"
proof (induction fd i buf copied s rule: write_loop.induct)
  case (1 fd i buf copied s)
  let ?c = "chunk_size (f_offset (h_open s ! fd)) (length buf - copied)"
  show ?case
  proof (cases "copied < length buf")
    case False
    then show ?thesis
      using "1.prems" by (subst (asm) write_loop.simps) auto
  next
    case True
    obtain r t where t: "write_chunk fd i (slice_at copied ?c buf) s = (r, t)" by force
    have "copied + ?c \<le> length buf"
      using chunk_size_le [of "f_offset (h_open s ! fd)" "length buf - copied"] True by simp
    then show ?thesis
      using "1.IH" [OF True refl t [symmetric] refl] "1.prems"(1) True t write_chunk_code [OF t]
      by (auto simp: write_loop.simps [of fd i buf copied] Let_def split: if_splits)
  qed
qed

text \<open>
  C33: The interface of OTFS is typed: whatever the state of the handle, the arguments and the failures of
  the host, every operation returns one of the result codes of \<open>fs.h\<close>, \<open>fs_open\<close> otherwise a descriptor
  below 16 and never \<open>FS_OK\<close> as a code, and the number of bytes reported is all of the buffer or none for
  a write, at most what was asked for and none on an error for a read.
\<close>

theorem otfs_results_typed:
  shows "fst (fs_mount path s) \<in> fs_result \<and> fst (fs_unmount s) \<in> fs_result \<and>
    fst (fs_open name flags s) \<in> (fs_result - {FS_OK}) \<union> {0..<int FS_MAX_OPEN_FILES} \<and>
    fst (fs_close fd s) \<in> fs_result \<and> fst (fs_seek fd off s) \<in> fs_result \<and>
    (case fs_read fd len s of (rc, data, n, s') \<Rightarrow> rc \<in> fs_result \<and> n \<le> (if rc = FS_OK then len else 0)) \<and>
    (case fs_write fd buf s of (rc, n, s') \<Rightarrow> rc \<in> fs_result \<and> n = (if rc = FS_OK then length buf else 0))"
proof (intro conjI)
  show "fst (fs_mount path s) \<in> fs_result" "fst (fs_unmount s) \<in> fs_result" "fst (fs_close fd s) \<in> fs_result"
    "fst (fs_seek fd off s) \<in> fs_result"
    by (auto simp: fs_mount_def fs_unmount_def fs_close_def fs_seek_def Let_def split: option.splits prod.splits)
  show "fst (fs_open name flags s) \<in> (fs_result - {FS_OK}) \<union> {0..<int FS_MAX_OPEN_FILES}"
    by (auto simp: fs_open_def alloc_fd_def find_index_Some Let_def split: option.splits prod.splits sum.splits
        dest: truncate_code open_entry_code)
  show "case fs_read fd len s of (rc, data, n, s') \<Rightarrow> rc \<in> fs_result \<and> n \<le> (if rc = FS_OK then len else 0)"
    by (auto simp: fs_read_def Let_def split: prod.splits dest: read_loop_code)
  show "case fs_write fd buf s of (rc, n, s') \<Rightarrow> rc \<in> fs_result \<and> n = (if rc = FS_OK then length buf else 0)"
    by (auto simp: fs_write_def Let_def split: prod.splits dest: write_loop_code)
qed

end
