(* ===== verification/OtfsLimits.thy ===== *)
theory OtfsLimits
  imports OtfsFormat
begin

text \<open>
  Where OTFS is not robust: a write of no bytes beyond the end of a file makes the image unusable, and
  the checks of \<open>fs_mount\<close> accept an image in which two files share their blocks.
\<close>

subsection \<open>Empty writes\<close>

lemma remount_rejects:
  assumes "otfs_wf s" "h_image_file s = Some p" "fs_unmount s = (FS_OK, s1)" "fs_mount (Some p) s1 = (rc, s2)" "i \<in> used s"
    and "size_of s i = 0 \<and> entry_chain s i \<noteq> [] \<or> 0 < size_of s i \<and> size_of s i \<le> 2 ^ 32 - FS_BLOCK_SIZE \<and> entry_chain s i = []"
  shows "rc = FS_ERR_STATE \<or> rc = FS_ERR_IO \<and> \<not> steady s1"
proof -
  obtain v where v: "same_files s v" "h_image_file v = Some p" "host_files (st_host s1) p = Some (image v)"
    "slice_at (block_offset FS_DIR_START_BLOCK) (FS_MAX_FILES * FS_DIR_ENTRY_SIZE) (image v) = dir_bytes (h_dir v)"
    "slice_at (block_offset FS_FAT_START_BLOCK) (FS_FAT_BLOCK_COUNT * FS_BLOCK_SIZE) (image v) = fat_bytes (h_fat v)"
    using unmount_effect [OF assms(3,1,2)] by blast
  note f = same_files_frame [OF v(1) assms(1)]
  have "entry_chain v i = entry_chain s i"
    using v(1) same_meta_frame(2) by (auto simp: same_files_def)
  then show ?thesis
    using mount_rejects [OF f(1) v(2,4,5,3) assms(4), of i] f(2,4) assms(5,6) by simp
qed

lemma empty_write_size:
  assumes "otfs_wf s" "sized s i" "fd < FS_MAX_OPEN_FILES" "f_in_use (h_open s ! fd) \<noteq> 0" "and (f_flags (h_open s ! fd)) FS_O_WRITE \<noteq> 0"
    and "i = unat (f_dir_index (h_open s ! fd))" "entry_chain s i = []" "fs_write (int fd) [] s = (FS_OK, n, s')"
  shows "otfs_wf s'" "i \<in> used s'" "entry_chain s' i = []" "size_of s' i = unat (f_offset (h_open s ! fd))" "h_image_file s' = h_image_file s"
proof -
  have i: "i \<in> used s" "h_mounted s \<noteq> 0"
    using assms(1,3,4,6) by (auto simp: otfs_wf_def open_wf_def)
  have l: "write_loop fd i [] 0 s = (FS_OK, 0, s)"
    by (simp add: write_loop.simps [of fd i "[]"])
  let ?u = "finish_write fd i s"
  note fin = finish_write_effect [OF assms(1) i(1), where fd = fd]
  obtain r x where x: "sync_metadata ?u = (r, x)" by force
  have s': "s' = x"
    using fs_write_run [OF i(2) assms(3-5), folded assms(6), OF l x] assms(8) by (auto split: if_splits)
  note sf = same_files_frame [OF sync_effect(1) [OF x fin(1)] fin(1)]
  have "size_of s i = 0"
    using assms(2,7) by (simp add: sized_def file_bytes_def)
  then show "size_of s' i = unat (f_offset (h_open s ! fd))" "otfs_wf s'"
    using sf(1,4) fin(4) s' by simp_all
  show "i \<in> used s'"
    using sf(2) same_names_used [OF fin(2)] assms(1) i(1) s' by (simp add: otfs_wf_def)
  have "entry_chain x i = entry_chain ?u i"
    using sync_effect(1) [OF x fin(1)] same_meta_frame(2) by (auto simp: same_files_def)
  then show "entry_chain s' i = []"
    using s' assms(7) by (simp add: finish_write_def)
  have "same_place s s'"
    using otfs_step_image [of s "Call_write (int fd) []" FS_OK s'] assms(8) by simp
  then show "h_image_file s' = h_image_file s"
    by (simp add: same_place_def)
qed

lemma empty_write_ok:
  assumes "otfs_wf s" "steady s" "fd < FS_MAX_OPEN_FILES" "f_in_use (h_open s ! fd) \<noteq> 0" "and (f_flags (h_open s ! fd)) FS_O_WRITE \<noteq> 0"
  shows "\<exists>s'. fs_write (int fd) [] s = (FS_OK, 0, s')"
proof -
  define i where "i = unat (f_dir_index (h_open s ! fd))"
  have i: "i \<in> used s" "h_mounted s \<noteq> 0"
    using assms(1,3,4) by (auto simp: otfs_wf_def open_wf_def i_def)
  have l: "write_loop fd i [] 0 s = (FS_OK, 0, s)"
    by (simp add: write_loop.simps [of fd i "[]"])
  note fin = finish_write_effect [OF assms(1) i(1), where fd = fd]
  obtain r x where x: "sync_metadata (finish_write fd i s) = (r, x)" by force
  have "r = FS_OK"
    using sync_effect(2) [OF x fin(1)] fin(5) assms(2) by simp
  then show ?thesis
    using fs_write_run [OF i(2) assms(3-5), folded i_def, OF l x] by simp
qed

text \<open>
  C36: A write of no bytes can lose the image. On a host without I/O errors, and for an open file without blocks,
  seek to any offset up to \<open>2^32 - 512\<close> other than 0 and write nothing: both calls succeed, the write reports 0 bytes and gives the
  file the offset as its size, with no block to cover it; \<open>fs_unmount\<close> succeeds; and then \<open>fs_mount\<close> refuses the
  image. This is why \<open>otfs_persistence\<close> excludes such writes.
\<close>

theorem empty_write_loses_image:
  assumes "otfs_wf s" "steady s" "h_image_file s = Some p" "sized s i" "fd < FS_MAX_OPEN_FILES" "f_in_use (h_open s ! fd) \<noteq> 0"
    and "and (f_flags (h_open s ! fd)) FS_O_WRITE \<noteq> 0" "i = unat (f_dir_index (h_open s ! fd))" "entry_chain s i = []"
    and "0 < off" "unat off \<le> 2 ^ 32 - FS_BLOCK_SIZE"
  shows "\<exists>s1 s2 s3 s4. fs_seek (int fd) off s = (FS_OK, s1) \<and> fs_write (int fd) [] s1 = (FS_OK, 0, s2) \<and>
    size_of s2 i = unat off \<and> entry_chain s2 i = [] \<and>
    fs_unmount s2 = (FS_OK, s3) \<and> fs_mount (Some p) s3 = (FS_ERR_STATE, s4)"
proof -
  have fd: "fd < length (h_open s)" "h_mounted s \<noteq> 0"
    using assms(1,5) by (simp_all add: otfs_wf_def open_wf_def)
  define s1 where "s1 = set_offset fd off s"
  have seek: "fs_seek (int fd) off s = (FS_OK, s1)"
    using assms(5,6) fd(2) by (simp add: fs_seek_def validate_common_def valid_fd_def s1_def)
  have m: "moved fd s s1"
    by (simp add: s1_def set_offset_moved)
  note f = moved_frame [OF m]
  have d: "f_in_use (h_open s1 ! fd) \<noteq> 0" "and (f_flags (h_open s1 ! fd)) FS_O_WRITE \<noteq> 0" "i = unat (f_dir_index (h_open s1 ! fd))"
    "f_offset (h_open s1 ! fd) = off"
    using assms(6-8) fd(1) by (simp_all add: s1_def set_offset_def)
  have sz: "sized s1 i" "entry_chain s1 i = []" "h_image_file s1 = Some p"
    using assms(3,4,9) f m by (simp_all add: sized_def moved_def)
  have w1: "otfs_wf s1" "steady s1"
    using moved_wf [OF m assms(1)] f(11) assms(2) by simp_all
  obtain s2 where wr: "fs_write (int fd) [] s1 = (FS_OK, 0, s2)"
    using empty_write_ok [OF w1 assms(5) d(1,2)] by blast
  note w = empty_write_size [OF w1(1) sz(1) assms(5) d(1-3) sz(2) wr, unfolded d(4) sz(3)]
  have "steady s2"
    using otfs_step_image [of s1 "Call_write (int fd) []" FS_OK s2] wr w1(2) by (simp add: same_place_def steady_def)
  then obtain s3 where unmount: "fs_unmount s2 = (FS_OK, s3)" "steady s3"
    using steady_unmount [OF w(1)] unfolding steady_def by metis
  obtain rc s4 where mount: "fs_mount (Some p) s3 = (rc, s4)" by force
  have "0 < unat off"
    using assms(10) by (simp add: word_less_nat_alt)
  then have "rc = FS_ERR_STATE"
    using remount_rejects [OF w(1,5) unmount(1) mount w(2)] w(3,4) assms(11) unmount(2) by simp
  then show ?thesis
    using seek wr w(3,4) unmount(1) mount by blast
qed

theorem empty_write_loses_image_witness:
  "\<exists>s1 s2 s3 s4. fs_seek (int fd1) 5 disk1 = (FS_OK, s1) \<and> fs_write (int fd1) [] s1 = (FS_OK, 0, s2) \<and>
     fs_unmount s2 = (FS_OK, s3) \<and> fs_mount (Some ''d'') s3 = (FS_ERR_STATE, s4)"
proof -
  let ?i = "unat (f_dir_index (h_open disk1 ! fd1))"
  have fd: "fd1 < length (h_open disk1)" "?i \<in> used disk1"
    using disk1_ok(2,4,5) by (auto simp: otfs_wf_def open_wf_def)
  have "file_content disk1 ?i = []"
    using otfs_files_entry [of disk1 ?i] disk1_ok(2,8) fd(2) by (auto simp: otfs_wf_def split: if_splits)
  moreover have t: "sized disk1 ?i" "size_of disk1 ?i = 0 \<longleftrightarrow> entry_chain disk1 ?i = []"
    using disk1_ok(3) fd(2) by (auto simp: all_tidy_def tidy_def)
  ultimately have "size_of disk1 ?i = 0"
    by (auto simp: file_content_def sized_def)
  then have c: "entry_chain disk1 ?i = []"
    using t(2) by blast
  have off: "0 < (5 :: u32)" "unat (5 :: u32) \<le> 2 ^ 32 - FS_BLOCK_SIZE"
    by (simp_all add: fs_layout)
  show ?thesis
    using empty_write_loses_image [OF disk1_ok(2) disk1_free(1) disk1_ok(10) t(1) disk1_ok(4,5) disk1_rights(2) refl c off]
    by (elim exE conjE) (intro exI conjI)
qed

subsection \<open>Shared blocks\<close>

text \<open>Two files of one byte, both in block 0.\<close>

definition shared_entries :: "fs_dir_entry_disk list" where
  "shared_entries =
     [(new_entry ''a'') \<lparr> de_first_block := 0, de_size_bytes := 1 \<rparr>, (new_entry ''b'') \<lparr> de_first_block := 0, de_size_bytes := 1 \<rparr>] @
     replicate (FS_MAX_FILES - 2) zero_entry"

definition shared_fat :: "u32 list" where
  "shared_fat = FAT_END # replicate (FS_TOTAL_BLOCKS - 1) FAT_FREE"

lemma shared_blocks_accepted: "validate_metadata shared_entries shared_fat = FS_OK"
  by code_simp

end
