(* ===== verification/Spec2Isabelle.thy ===== *)
theory Spec2Isabelle
  imports Prelude CString PageAlloc FsPath FsDir Window Framebuffer Compositor InputQueue Keyboard KeyboardDispatch Drag Console Sched Trap AppWindow
    PathState ShellParser Shell TerminalSession TerminalWindow MultiTerminal Uart Timer KernelMain Boot OtfsTest OtfsCodes OtfsLimits
begin

text \<open>
  tigerOS: a small operating system for one RISC-V hart, written in C, with a window system, a shell
  and, as host-side code, the OTFS disk file system. This development models the C code of the
  repository and proves what makes its parts correct. This header describes the program, how the
  theories correspond to it, what the lemmas show, and what is left out.

  \<^bold>\<open>The program and how its parts interact.\<close> The assembler in \<open>arch/riscv\<close> enters \<open>kernel_main\<close> and saves the
  registers for \<open>trap_handle\<close>. Two flows follow. (1) Timer traps: \<open>kernel/trap.c\<close> counts a tick in
  \<open>kernel/clock.c\<close>, which programs the next deadline through \<open>arch/riscv/timer.c\<close>, and calls the
  round-robin scheduler \<open>kernel/sched/rr.c\<close> on the table of \<open>kernel/task/task.c\<close>. (2) Input: mouse events
  go through \<open>drivers/input/mouse.c\<close> and \<open>kernel/input/event_queue.c\<close> to \<open>kernel/wm/drag.c\<close>, which moves
  windows and calls applications (\<open>apps/libapp/app_window.c\<close>); keys go through
  \<open>drivers/input/keyboard.c\<close> and \<open>kernel/input/keyboard_dispatch.c\<close> to terminal windows
  (\<open>kernel/wm/terminal_window.c\<close>) and their sessions (\<open>kernel/tty/terminal_session.c\<close>). Both read the layer
  stack of the compositor (\<open>kernel/wm\<close>), which draws into the framebuffer (\<open>kernel/gfx\<close>). The serial
  shell (\<open>shell/\<close>) reads lines from the UART, and, like the sessions, works on the file system in memory
  of \<open>shell/path_state.c\<close>, which is made of \<open>fs/path.c\<close> and \<open>fs/dir.c\<close>. \<open>fs/otfs.c\<close> runs on the host and works
  on an image file.

  \<^bold>\<open>Conventions\<close> (theory \<open>Prelude\<close>). Integers of the C types are words wherever they can wrap or are stored;
  counters and indices that the code bounds are natural numbers. A null pointer is \<open>None\<close>; a pointer into
  an array is an index; a pointer to an object that is mutated through several references is a
  reference into a heap (windows). Static state is a record that the operations return updated. A C
  status is an \<open>int\<close> with \<open>- 1\<close> for failure, or the code's error constants. A loop that may run forever is
  a partial function whose value \<open>None\<close> means that it does not return, and that it does return is then
  proved; function pointers are parameters on the state of the receiver.

  \<^bold>\<open>Theories and sources.\<close>
  \<^item> \<open>Prelude\<close>: names of integer types, C loops, first-index search, sequences of operations that keep an
    invariant (locales \<open>safe_machine\<close>, \<open>growing_machine\<close>), list and word lemmas.
  \<^item> \<open>PageAlloc\<close>: \<open>kernel/mm/page_alloc.c\<close>, \<open>init.c\<close>. The bitmap is used through the locale \<open>bit_set\<close>, the
    allocator through \<open>page_provider\<close>.
  \<^item> \<open>CString\<close>: the loops over character arrays that the files repeat as static helpers, shown to compute length,
    copy and equality of the texts that the other theories use in their place, within the arrays.
  \<^item> \<open>FsPath\<close>: \<open>fs/path.c\<close> against a reference normalisation on lists of names. \<open>FsDir\<close>: \<open>fs/dir.c\<close>, the
    tree as links in an array; the invariant \<open>dir_wf\<close> says that the links spell a tree and \<open>dirs\<close> is the set
    of its paths, on which the operations are specified.
  \<^item> \<open>PathState\<close>: \<open>shell/path_state.c\<close> on both, with the files written by the user.
  \<^item> \<open>Window\<close>, \<open>Framebuffer\<close>, \<open>Compositor\<close>: \<open>kernel/wm/window.c\<close>, \<open>kernel/gfx/framebuffer.c\<close> with both video
    drivers, and \<open>layers.c\<close>, \<open>focus.c\<close>, \<open>compositor.c\<close> of \<open>kernel/wm\<close>. The layer stack is a list of distinct
    windows (locale \<open>window_stack\<close>); the pixels after a render are computed by a reference function.
  \<^item> \<open>InputQueue\<close>: \<open>kernel/input/event_queue.c\<close>, \<open>drivers/input/mouse.c\<close> and the contract \<open>bounded_queue\<close> with
    the dispatch loop \<open>drain\<close>. \<open>Keyboard\<close>: \<open>drivers/input/keyboard.c\<close> against a reference decoder.
    \<open>KeyboardDispatch\<close>, \<open>Drag\<close>: the dispatch of keys and of mouse events.
  \<^item> \<open>Console\<close>: \<open>kernel/console.c\<close>, \<open>shell/line_io.c\<close>. \<open>Uart\<close>: \<open>drivers/uart/uart.c\<close> on device registers, an
    implementation of the byte sequences that \<open>Console\<close> uses. \<open>Timer\<close>: \<open>arch/riscv/timer.c\<close>.
  \<^item> \<open>Sched\<close>: \<open>kernel/task/task.c\<close>, \<open>kernel/sched/rr.c\<close>. \<open>Trap\<close>: \<open>kernel/clock.c\<close>, \<open>kernel/trap.c\<close>.
    \<open>InterruptLog\<close>: what a run of timer interrupts prints.
  \<^item> \<open>AppWindow\<close>: \<open>apps/libapp/app_window.c\<close>. \<open>DemoApp\<close>: \<open>apps/demo_window_app.c\<close>, the composition of tasks,
    mouse, windows, compositor and console. \<open>Checksum\<close>: what the checksum of a drawing tells of it, computed from
    the rectangles drawn. \<open>KernelMain\<close>: the self tests of \<open>kernel/main.c\<close> over all of these and
    the keyboard, which pass and print a determined text in every state (\<open>kernel_self_tests_pass\<close>). \<open>Boot\<close>: the
    whole of \<open>kernel_main\<close> on the state of all components, with timer interrupts between its stages and
    the whole text it prints.
  \<^item> \<open>ShellParser\<close>, \<open>Shell\<close>: the parsers, built-in commands, output redirection, pipes and the command loop of
    \<open>shell/\<close>. \<open>TerminalSession\<close>, \<open>TerminalWindow\<close>: the sessions and their windows.
    \<open>MultiTerminal\<close>: the self test of terminal isolation, \<open>apps/terminal/multi_terminal_test.c\<close>.
  \<^item> \<open>OtfsImage\<close>, \<open>Otfs\<close>: constants, disk structures and all operations of \<open>fs/otfs.c\<close>; \<open>OtfsChains\<close>: the file
    allocation table as disjoint chains; \<open>OtfsFiles\<close>, \<open>OtfsOps\<close>, \<open>OtfsSpec\<close>: the operations as
    functions on a map from names to contents; \<open>OtfsCodes\<close>: the results they can have in any state;
    \<open>OtfsProgress\<close>: the space accounting of writes, when they succeed; \<open>OtfsMount\<close>: sequences of operations, unmounting and mounting; \<open>OtfsFormat\<close>: formatting and
    concrete images; \<open>OtfsTest\<close>: the programs \<open>fs/mkfs_otfs.c\<close> and \<open>fs/fs_rw_test.c\<close> on top of them;
    \<open>OtfsLimits\<close>: calls and images that OTFS does not withstand.

  \<^bold>\<open>What the lemmas show.\<close> For each component an invariant, kept by every operation and therefore by any
  sequence of them (\<open>otfs_run_wf\<close>, \<open>page_alloc_accounting\<close>, \<open>fs_dir_run_wf\<close>, \<open>path_state_run_wf\<close>, by which no file
  or directory is ever lost,
  \<open>wm_compositor_run_wf\<close>), and the effect of its operations on an abstract value: OTFS and the shell's files as
  maps from names to bytes (\<open>fs_write_spec\<close>, which covers writes beyond the end of a file,
  \<open>fs_open_spec\<close>, \<open>fs_read_spec\<close>, \<open>path_state_write_spec\<close>), the directory tree as a set of paths,
  queues as lists, the screen as a function of the visible windows (\<open>wm_render_matches_hit_test\<close>). Parsers, editors and decoders are equivalent to reference definitions
  (\<open>shell_parse_iff\<close>, \<open>line_io_readline_spec\<close>, \<open>keyboard_typed\<close>, \<open>fs_path_normalize_correct\<close>). Properties of
  compositions: what is typed reaches the session of the right window and is executed
  (\<open>terminal_keys_delivered\<close>, \<open>terminal_session_lines\<close>), a drag moves exactly its window (\<open>drag_session\<close>), the
  shell's loop never stops working (\<open>shell_run_live\<close>), the kernel boots into it (\<open>kernel_main_boots\<close>),
  terminals are isolated (\<open>multi_terminal_isolation\<close>), the scheduler is fair (\<open>scheduler_fair\<close>) and its
  interrupts come without drift (\<open>timer_traps_alternate\<close>, \<open>clock_no_drift\<close>), written files survive unmounting
  and mounting (\<open>otfs_persistence\<close>), a write succeeds exactly if it fits on the disk (\<open>fs_write_fits\<close>) and
  the repository's read-write test passes on every image that its image tool makes (\<open>fs_rw_test_passes\<close>).

  \<^bold>\<open>Bounds and fuel.\<close> Capacities are those of the code: 128 directories, 32 files of 512 bytes, paths below 256
  characters, 8 windows, 64 queued events, 8 tasks, and for OTFS 249 data blocks, 32 files and 16
  descriptors. Loops over links in \<open>FsDir\<close> are partial functions; under \<open>dir_wf\<close> they return, since the link
  order is a path of distinct nodes. \<open>chain\<close> of OTFS has the number of blocks as fuel, which is
  enough because a chain that the code accepts has no more blocks than that; the walks of the code itself
  count their steps and so always end. The shell's endless loop is unrolled a given number of rounds,
  and \<open>shell_run_live\<close> holds for every number. The line editor recurses on its input, \<open>None\<close> being a read
  that waits for ever. The UART's polling loops end iff the device gets ready, which is the hypothesis of
  \<open>uart_implements_console\<close>; every library call on an OTFS image may fail, following an arbitrary schedule.

  \<^bold>\<open>Not modelled.\<close> The boot and trap entry assembler; \<open>kernel/sched/sched.c\<close>, which is not built and uses types
  declared nowhere; the test programs under \<open>tests\<close> and in \<open>page_alloc_test.c\<close>, whose checks are
  instances of the properties here; and the messages of the host programs. Null pointer arguments that
  no caller passes are left out where a theory says so. Interrupts arrive between the stages of
  \<open>kernel_main\<close> and not within one, nor in the shell: the handler and the shell share only the UART. The
  buffering of C streams is not modelled: a write to an image is in the file when the call returns.
\<close>

end
